(* ===== verification/Prelude.thy ===== *)
theory Prelude
  imports Complex_Main "HOL-Library.AList" "HOL-Library.Multiset"
begin

text \<open>
  Shared vocabulary of the development: Python's numbers, dictionaries and errors, and the
  lemmas on lists, dictionaries and decimal strings that the component theories share.

  \<^item> A Python \<open>float\<close> is modelled by a rational number (\<open>pyfloat\<close>): every finite float is one,
    so comparisons and copies are exact; sums, products and quotients are taken exactly where
    the hardware rounds.
  \<^item> A Python \<open>int\<close> is an \<open>int\<close>, a clock reading (\<open>time.monotonic\<close>, \<open>datetime.now\<close>) is a
    \<open>pytime\<close> passed as an argument.
  \<^item> A Python \<open>dict\<close> keeps insertion order; it is the association list \<open>('k, 'v) pydict\<close>,
    written by \<open>AList.update\<close> (which overwrites in place or appends), erased by
    \<open>AList.delete\<close> and read by \<open>map_of\<close>.
  \<^item> A raised exception is the left side of a sum \<open>py_error + 'a\<close>.
\<close>

type_synonym pyfloat = rat
type_synonym pytime = rat
type_synonym ('k, 'v) pydict = "('k \<times> 'v) list"

datatype py_error =
    ValueError
  | KeyError
  | IndexError
  | TypeError
  | RuntimeError
  | ZeroDivisionError
  | AttributeError
  | OverflowError

datatype py_value =
  \<comment> \<open>a value of type \<open>Any\<close>, as far as the code looks into it\<close>
    PNone
  | PBool bool
  | PInt int
  | PFloat pyfloat
  | PStr string
  | PList "py_value list"
  | PDict "(string \<times> py_value) list"

named_theorems model_defs \<open>definitions a component's proofs unfold\<close>

subsection \<open>Dictionaries\<close>

abbreviation dict_get :: "('k, 'v) pydict \<Rightarrow> 'k \<Rightarrow> 'v option" where
  "dict_get d k \<equiv> map_of d k"

abbreviation dict_set :: "'k \<Rightarrow> 'v \<Rightarrow> ('k, 'v) pydict \<Rightarrow> ('k, 'v) pydict" where
  "dict_set \<equiv> AList.update"

abbreviation dict_del :: "'k \<Rightarrow> ('k, 'v) pydict \<Rightarrow> ('k, 'v) pydict" where
  "dict_del \<equiv> AList.delete"

abbreviation dict_keys :: "('k, 'v) pydict \<Rightarrow> 'k list" where
  "dict_keys d \<equiv> map fst d"

definition dict_get_or :: "('k, 'v) pydict \<Rightarrow> 'k \<Rightarrow> 'v \<Rightarrow> 'v" where
  "dict_get_or d k v = (case map_of d k of None \<Rightarrow> v | Some x \<Rightarrow> x)"

definition dict_ok :: "('k, 'v) pydict \<Rightarrow> bool" where
  "dict_ok d \<longleftrightarrow> distinct (map fst d)"

lemma dict_ok_Nil [simp]: "dict_ok []"
  by (simp add: dict_ok_def)

lemma dict_ok_set [simp, intro]: "dict_ok d \<Longrightarrow> dict_ok (AList.update k v d)"
  by (simp add: dict_ok_def distinct_update)

lemma dict_ok_del [simp, intro]: "dict_ok d \<Longrightarrow> dict_ok (AList.delete k d)"
  by (simp add: dict_ok_def distinct_delete)

lemma dict_get_set [simp]:
  "map_of (AList.update k v d) k' = (if k' = k then Some v else map_of d k')"
  by (simp add: update_conv')

lemma dict_get_del [simp]:
  "map_of (AList.delete k d) k' = (if k' = k then None else map_of d k')"
  by (simp add: delete_conv')

lemma dict_set_fresh: "map_of d k = None \<Longrightarrow> AList.update k v d = d @ [(k, v)]"
  by (induction d) (auto split: if_splits)

lemma dict_get_in: "dict_ok d \<Longrightarrow> (k, v) \<in> set d \<Longrightarrow> map_of d k = Some v"
  by (simp add: dict_ok_def)

lemma dict_set_elem: "p \<in> set (AList.update k v d) \<Longrightarrow> p = (k, v) \<or> p \<in> set d"
  by (induction d) (auto split: if_splits)

lemma dict_del_elem: "p \<in> set (AList.delete k d) \<Longrightarrow> p \<in> set d \<and> fst p \<noteq> k"
  by (induction d) (auto split: if_splits)

lemma dict_get_map: "map_of (map (\<lambda>(k, v). (k, g k v)) d) k = map_option (g k) (map_of d k)"
  by (induction d) auto

lemma dict_ok_map: "dict_ok (map (\<lambda>(k, v). (k, g k v)) d) = dict_ok d"
  by (simp add: dict_ok_def comp_def case_prod_unfold)

lemma sum_dict_set:
  fixes v :: int
  shows "dict_ok d \<Longrightarrow> sum_list (map snd (dict_set k v d)) = sum_list (map snd d) - dict_get_or d k 0 + v"
proof (induction d)
  case (Cons p d)
  then show ?case by (cases p) (auto simp: dict_ok_def dict_get_or_def)
qed (simp add: dict_get_or_def)

lemma sum_dict_set_gen:
  fixes f :: "'k \<times> 'v \<Rightarrow> 'b::ab_group_add"
  shows "dict_ok d \<Longrightarrow> sum_list (map f (dict_set k v d)) =
    sum_list (map f d) - (case map_of d k of None \<Rightarrow> 0 | Some w \<Rightarrow> f (k, w)) + f (k, v)"
proof (induction d)
  case (Cons p d)
  then show ?case by (cases p) (auto simp: dict_ok_def algebra_simps split: option.split)
qed simp

lemma dict_del_absent: "map_of d k = None \<Longrightarrow> dict_del k d = d"
  by (induction d) (auto split: if_splits)

lemma sum_dict_del:
  fixes f :: "'k \<times> 'v \<Rightarrow> 'b::ab_group_add"
  shows "dict_ok d \<Longrightarrow> sum_list (map f (dict_del k d)) =
    sum_list (map f d) - (case map_of d k of None \<Rightarrow> 0 | Some w \<Rightarrow> f (k, w))"
proof (induction d)
  case (Cons p d)
  obtain k' w where p: "p = (k', w)" by (cases p)
  show ?case
  proof (cases "k' = k")
    case True
    then have "map_of d k = None" using Cons.prems p by (auto simp: dict_ok_def map_of_eq_None_iff)
    then show ?thesis using True p by (simp add: dict_del_absent)
  next
    case False
    then show ?thesis using Cons p by (auto simp: dict_ok_def algebra_simps split: option.split)
  qed
qed simp

lemma dict_ok_entry: "dict_ok d \<Longrightarrow> (k, v) \<in> set d \<longleftrightarrow> map_of d k = Some v"
  by (auto simp: dict_ok_def dest: map_of_SomeD)

lemma dict_keys_del: "fst ` set (AList.delete k d) = fst ` set d - {k}"
  by (metis delete_keys list.set_map set_removeAll)

lemma sum_list_mset_eq:
  fixes f :: "'a \<Rightarrow> 'b::comm_monoid_add"
  assumes "mset xs = mset ys"
  shows "sum_list (map f xs) = sum_list (map f ys)"
proof -
  have "sum_mset (mset (map f xs)) = sum_mset (mset (map f ys))" using assms by (simp add: mset_map)
  then show ?thesis by (simp only: sum_mset_sum_list)
qed

subsection \<open>Python numbers\<close>

definition py_int :: "rat \<Rightarrow> int" where
  \<comment> \<open>\<open>int(x)\<close> truncates towards zero\<close>
  "py_int x = (if 0 \<le> x then \<lfloor>x\<rfloor> else \<lceil>x\<rceil>)"

lemma py_int_nonneg: "0 \<le> x \<Longrightarrow> 0 \<le> py_int x"
  by (simp add: py_int_def)

lemma py_int_of_int [simp]: "py_int (of_int n) = n"
  by (simp add: py_int_def)

lemma py_int_le: "0 \<le> x \<Longrightarrow> of_int (py_int x) \<le> x"
  by (simp add: py_int_def)

definition py_round :: "rat \<Rightarrow> int" where
  \<comment> \<open>\<open>round(x)\<close>: to the nearest integer, a tie to the even one\<close>
  "py_round x =
     (let f = \<lfloor>x\<rfloor>; r = x - of_int f
      in if r < 1 / 2 then f
         else if r > 1 / 2 then f + 1
         else if even f then f else f + 1)"

lemma py_round_of_int [simp]: "py_round (of_int n) = n"
  by (simp add: py_round_def)

lemma py_round_near: "\<bar>of_int (py_round x) - x\<bar> \<le> 1 / 2"
proof -
  have "of_int \<lfloor>x\<rfloor> \<le> x" and "x < of_int \<lfloor>x\<rfloor> + 1"
    by linarith+
  then show ?thesis
    by (auto simp: py_round_def Let_def abs_le_iff)
qed

subsection \<open>Python sequences\<close>

definition slice_to :: "int \<Rightarrow> 'a list \<Rightarrow> 'a list" where
  \<comment> \<open>\<open>xs[:n]\<close>: a negative bound counts from the end\<close>
  "slice_to n xs = (if n < 0 then take (nat (int (length xs) + n)) xs else take (nat n) xs)"

definition slice_from :: "int \<Rightarrow> 'a list \<Rightarrow> 'a list" where
  \<comment> \<open>\<open>xs[n:]\<close>\<close>
  "slice_from n xs = (if n < 0 then drop (nat (int (length xs) + n)) xs else drop (nat n) xs)"

definition py_nth :: "'a list \<Rightarrow> int \<Rightarrow> py_error + 'a" where
  \<comment> \<open>\<open>xs[i]\<close>: a negative index counts from the end\<close>
  "py_nth xs i =
     (if 0 \<le> i \<and> i < int (length xs) then Inr (xs ! nat i)
      else if i < 0 \<and> - int (length xs) \<le> i then Inr (xs ! nat (int (length xs) + i))
      else Inl IndexError)"

subsection \<open>Decimal strings, as an f-string prints a counter\<close>

definition digit_char :: "nat \<Rightarrow> char" where
  "digit_char d = char_of (48 + d)"

function str_of_nat :: "nat \<Rightarrow> string" where
  "str_of_nat n =
     (if n < 10 then [digit_char n] else str_of_nat (n div 10) @ [digit_char (n mod 10)])"
  by pat_completeness auto
termination
  by (relation "measure id") auto

declare str_of_nat.simps [simp del]

definition nat_of_str :: "string \<Rightarrow> nat" where
  "nat_of_str cs = foldl (\<lambda>n c. 10 * n + (of_char c - 48)) 0 cs"

lemma of_char_digit [simp]: "d < 10 \<Longrightarrow> of_char (digit_char d) = 48 + d"
  by (simp add: digit_char_def of_char_of)

lemma digit_eq: "a < 10 \<Longrightarrow> b < 10 \<Longrightarrow> digit_char a = digit_char b \<longleftrightarrow> a = b"
  by (metis add_left_cancel of_char_digit)

lemma nat_of_str_of_nat: "nat_of_str (str_of_nat n) = n"
proof (induction n rule: str_of_nat.induct)
  case (1 n)
  show ?case
  proof (cases "n < 10")
    case True
    then show ?thesis
      by (simp add: str_of_nat.simps [of n] nat_of_str_def)
  next
    case False
    with 1 show ?thesis
      by (simp add: str_of_nat.simps [of n] nat_of_str_def)
  qed
qed

lemma str_of_nat_inj [simp]: "str_of_nat m = str_of_nat n \<longleftrightarrow> m = n"
  by (metis nat_of_str_of_nat)

subsection \<open>Case mapping of ASCII strings\<close>

definition upper_char :: "char \<Rightarrow> char" where
  "upper_char c =
     (let n = (of_char c :: nat) in if 97 \<le> n \<and> n \<le> 122 then char_of (n - 32) else c)"

definition py_upper :: "string \<Rightarrow> string" where
  "py_upper s = map upper_char s"

definition lower_char :: "char \<Rightarrow> char" where
  "lower_char c =
     (let n = (of_char c :: nat) in if 65 \<le> n \<and> n \<le> 90 then char_of (n + 32) else c)"

definition py_lower :: "string \<Rightarrow> string" where
  "py_lower s = map lower_char s"

subsection \<open>Sums over lists\<close>

lemma sum_list_filter_split:
  "sum_list (map f (filter P xs)) + sum_list (map f (filter (\<lambda>x. \<not> P x) xs))
     = (sum_list (map f xs) :: 'b :: comm_monoid_add)"
  by (induction xs) (auto simp: algebra_simps)

lemma sum_list_mset: "mset xs = mset ys \<Longrightarrow>
    sum_list (map f xs) = (sum_list (map f ys) :: 'b :: comm_monoid_add)"
  by (metis mset_map sum_mset_sum_list)

lemma sum_list_nonneg_rat: "(\<And>x. x \<in> set xs \<Longrightarrow> (0::rat) \<le> f x) \<Longrightarrow> 0 \<le> sum_list (map f xs)"
  by (induction xs) auto

subsection \<open>Sorting\<close>

lemma sort_key_snoc: "sort_key f (sort_key f xs @ [x]) = sort_key f (xs @ [x])"
proof (rule properties_for_sort_key)
  fix k
  have "filter (\<lambda>y. f y = f k) (sort_key f zs) = filter (\<lambda>y. f y = f k) zs" for zs by (rule sort_key_stable)
  then show "filter (\<lambda>y. f k = f y) (sort_key f (xs @ [x])) = filter (\<lambda>y. f k = f y) (sort_key f xs @ [x])"
    by (simp add: eq_commute)
qed simp_all

lemma hd_sort_key: "xs \<noteq> [] \<Longrightarrow> hd (sort_key f xs) = arg_min_list f xs"
proof (induction f xs rule: arg_min_list.induct)
  case (2 f x y zs)
  obtain z ws where s: "sort_key f (y # zs) = z # ws" by (cases "sort_key f (y # zs)") (auto simp: sort_key_def)
  have "hd (sort_key f (x # y # zs)) = hd (insort_key f x (z # ws))" using s by (simp add: sort_key_def)
  then show ?case using 2 s by (simp add: Let_def)
qed auto

end
