(* ===== verification/Heapq.thy ===== *)
theory Heapq
  imports Prelude
begin

text \<open>
  The standard library's \<open>heapq\<close> on Python lists, as the order books and the order merger
  use it: \<open>heappush\<close> and \<open>heappop\<close> with their sift loops, over a comparison \<open>lt\<close>
  that stands for the elements' \<open>__lt__\<close>. The locale \<open>heap_order\<close> states what the
  algorithms need of \<open>__lt__\<close> (a strict weak order on the elements that are \<open>ok\<close>), and the
  locale \<open>priority_queue\<close> what a client may rely on; the second is discharged from the first
  by the array heap.
\<close>

subsection \<open>The algorithms\<close>

function siftdown :: "('a \<Rightarrow> 'a \<Rightarrow> bool) \<Rightarrow> 'a list \<Rightarrow> nat \<Rightarrow> 'a \<Rightarrow> 'a list" where
  \<comment> \<open>\<open>_siftdown(heap, 0, pos)\<close> with \<open>newitem\<close> in hand\<close>
  "siftdown lt xs pos newitem =
     (if pos > 0 \<and> lt newitem (xs ! ((pos - 1) div 2))
      then siftdown lt (xs[pos := xs ! ((pos - 1) div 2)]) ((pos - 1) div 2) newitem
      else xs[pos := newitem])"
  by pat_completeness auto
termination
  by (relation "measure (\<lambda>(lt, xs, pos, newitem). pos)") auto

definition heappush :: "('a \<Rightarrow> 'a \<Rightarrow> bool) \<Rightarrow> 'a list \<Rightarrow> 'a \<Rightarrow> 'a list" where
  "heappush lt xs item = siftdown lt (xs @ [item]) (length xs) item"

definition smaller_child :: "('a \<Rightarrow> 'a \<Rightarrow> bool) \<Rightarrow> 'a list \<Rightarrow> nat \<Rightarrow> nat" where
  "smaller_child lt xs pos =
     (if 2 * pos + 2 < length xs \<and> \<not> lt (xs ! (2 * pos + 1)) (xs ! (2 * pos + 2))
      then 2 * pos + 2 else 2 * pos + 1)"

function siftup :: "('a \<Rightarrow> 'a \<Rightarrow> bool) \<Rightarrow> 'a list \<Rightarrow> nat \<Rightarrow> 'a \<Rightarrow> 'a list" where
  \<comment> \<open>\<open>_siftup(heap, pos)\<close> with \<open>newitem\<close> in hand: the smaller child moves up until a leaf\<close>
  "siftup lt xs pos newitem =
     (if 2 * pos + 1 < length xs
      then siftup lt (xs[pos := xs ! smaller_child lt xs pos]) (smaller_child lt xs pos) newitem
      else siftdown lt xs pos newitem)"
  by pat_completeness auto
termination
  by (relation "measure (\<lambda>(lt, xs, pos, newitem). length xs - pos)")
    (auto simp: smaller_child_def)

declare siftdown.simps [simp del] siftup.simps [simp del]

definition heappop_rest :: "('a \<Rightarrow> 'a \<Rightarrow> bool) \<Rightarrow> 'a list \<Rightarrow> 'a list" where
  \<comment> \<open>what \<open>heappop\<close> leaves in the list\<close>
  "heappop_rest lt xs =
     (if length xs \<le> 1 then [] else siftup lt ((butlast xs)[0 := last xs]) 0 (last xs))"

definition heappop :: "('a \<Rightarrow> 'a \<Rightarrow> bool) \<Rightarrow> 'a list \<Rightarrow> py_error + 'a \<times> 'a list" where
  "heappop lt xs = (if xs = [] then Inl IndexError else Inr (hd xs, heappop_rest lt xs))"

subsection \<open>Contents and length\<close>

lemma length_siftdown [simp]: "length (siftdown lt xs pos x) = length xs"
  by (induction lt xs pos x rule: siftdown.induct) (subst siftdown.simps, simp)

lemma length_siftup [simp]: "length (siftup lt xs pos x) = length xs"
  by (induction lt xs pos x rule: siftup.induct) (subst siftup.simps, simp)

lemma length_heappush [simp]: "length (heappush lt xs x) = Suc (length xs)"
  by (simp add: heappush_def)

lemma length_heappop_rest [simp]: "length (heappop_rest lt xs) = length xs - 1"
  by (simp add: heappop_rest_def)

lemma mset_move:
  assumes "i < length xs" and "j < length xs"
  shows "mset (xs[i := xs ! j, j := x]) = mset (xs[i := x])"
proof (cases "i = j")
  case False
  then have eq: "xs[i := xs ! j, j := x] =
      (xs[i := x])[i := (xs[i := x]) ! j, j := (xs[i := x]) ! i]"
    using assms by (simp add: list_update_overwrite)
  show ?thesis
    unfolding eq by (rule mset_swap) (use assms in auto)
qed simp

lemma mset_siftdown: "pos < length xs \<Longrightarrow> mset (siftdown lt xs pos x) = mset (xs[pos := x])"
proof (induction lt xs pos x rule: siftdown.induct)
  case (1 lt xs pos x)
  let ?p = "(pos - 1) div 2"
  show ?case
  proof (cases "pos > 0 \<and> lt x (xs ! ?p)")
    case True
    have "?p < length xs"
      using "1.prems" by linarith
    with True 1 show ?thesis
      by (subst siftdown.simps) (simp add: mset_move)
  next
    case False
    then show ?thesis by (subst siftdown.simps) auto
  qed
qed

lemma smaller_child_bounds:
  "2 * pos + 1 < length xs \<Longrightarrow> smaller_child lt xs pos < length xs \<and> pos < smaller_child lt xs pos"
  by (auto simp: smaller_child_def)

lemma mset_siftup: "pos < length xs \<Longrightarrow> mset (siftup lt xs pos x) = mset (xs[pos := x])"
proof (induction lt xs pos x rule: siftup.induct)
  case (1 lt xs pos x)
  show ?case
  proof (cases "2 * pos + 1 < length xs")
    case True
    with 1 smaller_child_bounds [OF True, of lt] show ?thesis
      by (subst siftup.simps) (simp add: mset_move)
  next
    case False
    with "1.prems" show ?thesis by (subst siftup.simps) (simp add: mset_siftdown)
  qed
qed

lemma mset_heappush [simp]: "mset (heappush lt xs x) = add_mset x (mset xs)"
  by (simp add: heappush_def mset_siftdown)

lemma mset_heappop_rest: "xs \<noteq> [] \<Longrightarrow> mset (heappop_rest lt xs) = mset xs - {#hd xs#}"
proof (cases xs rule: rev_cases)
  case (snoc ys y)
  then show ?thesis
    by (cases ys) (auto simp: heappop_rest_def mset_siftup)
qed simp

lemma heappop_rest_mset: "xs \<noteq> [] \<Longrightarrow> add_mset (hd xs) (mset (heappop_rest lt xs)) = mset xs"
  by (simp add: mset_heappop_rest)

lemma set_heappush [simp]: "set (heappush lt xs x) = insert x (set xs)"
  by (metis mset_heappush set_mset_add_mset_insert set_mset_mset)

lemma set_heappop_rest: "set (heappop_rest lt xs) \<subseteq> set xs"
  by (cases "xs = []") (simp add: heappop_rest_def, metis mset_heappop_rest in_diffD set_mset_mset subsetI)

lemma set_heappop_rest_insert: "xs \<noteq> [] \<Longrightarrow> insert (hd xs) (set (heappop_rest lt xs)) = set xs"
  by (metis heappop_rest_mset set_mset_add_mset_insert set_mset_mset)

lemma distinct_heappush: "distinct (heappush lt xs x) \<longleftrightarrow> x \<notin> set xs \<and> distinct xs"
  by (metis distinct.simps(2) distinct_count_atmost_1 mset.simps(2) mset_heappush mset_eq_imp_distinct_iff)

lemma distinct_heappop_rest:
  "distinct xs \<Longrightarrow> distinct (heappop_rest lt xs)
     \<and> (xs \<noteq> [] \<longrightarrow> set (heappop_rest lt xs) = set xs - {hd xs})"
proof (cases "xs = []")
  case False
  assume "distinct xs"
  moreover have "mset (hd xs # heappop_rest lt xs) = mset xs"
    using False by (simp add: heappop_rest_mset)
  ultimately have "distinct (hd xs # heappop_rest lt xs)"
    and "set (hd xs # heappop_rest lt xs) = set xs"
    by (metis mset_eq_imp_distinct_iff, metis set_mset_mset)
  then show ?thesis by auto
qed (simp add: heappop_rest_def)

subsection \<open>The heap order\<close>

abbreviation parent :: "nat \<Rightarrow> nat" where
  "parent i \<equiv> (i - 1) div 2"

definition is_heap :: "('a \<Rightarrow> 'a \<Rightarrow> bool) \<Rightarrow> 'a list \<Rightarrow> bool" where
  "is_heap lt xs \<longleftrightarrow> (\<forall>i < length xs. 0 < i \<longrightarrow> \<not> lt (xs ! i) (xs ! parent i))"

definition heap_hole :: "('a \<Rightarrow> 'a \<Rightarrow> bool) \<Rightarrow> 'a list \<Rightarrow> nat \<Rightarrow> bool" where
  \<comment> \<open>a heap but for what is stored at \<open>pos\<close>\<close>
  "heap_hole lt xs pos \<longleftrightarrow>
     (\<forall>i < length xs. 0 < i \<longrightarrow> i \<noteq> pos \<longrightarrow> parent i \<noteq> pos \<longrightarrow> \<not> lt (xs ! i) (xs ! parent i))
   \<and> (\<forall>i < length xs. 0 < i \<longrightarrow> 0 < pos \<longrightarrow> parent i = pos \<longrightarrow> \<not> lt (xs ! i) (xs ! parent pos))"

locale heap_order =
  fixes lt :: "'a \<Rightarrow> 'a \<Rightarrow> bool"
    and ok :: "'a \<Rightarrow> bool"
  assumes lt_asym: "ok a \<Longrightarrow> ok b \<Longrightarrow> lt a b \<Longrightarrow> \<not> lt b a"
    and lt_neg_trans: "ok a \<Longrightarrow> ok b \<Longrightarrow> ok c \<Longrightarrow> \<not> lt a b \<Longrightarrow> \<not> lt b c \<Longrightarrow> \<not> lt a c"
begin

lemma lt_irrefl: "ok a \<Longrightarrow> \<not> lt a a"
  using lt_asym by blast

lemma hole_up:
  assumes hole: "heap_hole lt xs pos" and pos: "0 < pos" "pos < length xs"
    and oks: "\<forall>y \<in> set xs. ok y" "ok x"
    and less: "lt x (xs ! parent pos)"
  shows "heap_hole lt (xs[pos := xs ! parent pos]) (parent pos)"
    and "\<forall>i < length xs. 0 < i \<longrightarrow> parent i = parent pos \<longrightarrow>
           \<not> lt (xs[pos := xs ! parent pos] ! i) x"
proof -
  let ?p = "parent pos"
  let ?ys = "xs[pos := xs ! ?p]"
  have p: "?p < pos" "?p < length xs"
    using pos by linarith+
  have okn: "i < length xs \<Longrightarrow> ok (xs ! i)" for i
    using oks by simp
  have edge: "\<lbrakk>i < length xs; 0 < i; i \<noteq> pos; parent i \<noteq> pos\<rbrakk> \<Longrightarrow> \<not> lt (xs ! i) (xs ! parent i)" for i
    using hole by (simp add: heap_hole_def)
  have skip: "\<lbrakk>i < length xs; 0 < i; parent i = pos\<rbrakk> \<Longrightarrow> \<not> lt (xs ! i) (xs ! ?p)" for i
    using hole pos by (simp add: heap_hole_def)
  have up: "0 < ?p \<Longrightarrow> \<not> lt (xs ! ?p) (xs ! parent ?p)"
    by (rule edge) (use p pos in linarith)+
  have sib: "\<lbrakk>i < length xs; 0 < i; parent i = ?p\<rbrakk> \<Longrightarrow> \<not> lt (?ys ! i) (xs ! ?p)" for i
  proof (cases "i = pos")
    case True
    then show "i < length xs \<Longrightarrow> \<not> lt (?ys ! i) (xs ! ?p)"
      using okn [OF p(2)] by (simp add: lt_irrefl)
  next
    case False
    assume i: "i < length xs" "0 < i" "parent i = ?p"
    then have "\<not> lt (xs ! i) (xs ! parent i)"
      using False p by (intro edge) auto
    with False i show ?thesis by simp
  qed
  have okys: "i < length xs \<Longrightarrow> ok (?ys ! i)" for i
    using okn p by (cases "i = pos") auto
  show "\<forall>i < length xs. 0 < i \<longrightarrow> parent i = ?p \<longrightarrow> \<not> lt (?ys ! i) x"
  proof (intro allI impI)
    fix i assume i: "i < length xs" "0 < i" "parent i = ?p"
    have "\<not> lt (xs ! ?p) x"
      using less oks(2) okn [OF p(2)] lt_asym by blast
    then show "\<not> lt (?ys ! i) x"
      using sib [OF i] okys [OF i(1)] okn [OF p(2)] oks(2) lt_neg_trans by blast
  qed
  show "heap_hole lt ?ys ?p"
    unfolding heap_hole_def
  proof (intro conjI allI impI)
    fix i assume i: "i < length ?ys" "0 < i" "i \<noteq> ?p" "parent i \<noteq> ?p"
    then have "i \<noteq> pos" by auto
    then show "\<not> lt (?ys ! i) (?ys ! parent i)"
      using i edge skip pos by (cases "parent i = pos") auto
  next
    fix i assume i: "i < length ?ys" "0 < i" "0 < ?p" "parent i = ?p"
    have pp: "parent ?p \<noteq> pos" "parent ?p < length xs"
      using p by linarith+
    have i': "i < length xs" using i by simp
    have "\<not> lt (?ys ! i) (xs ! parent ?p)"
      by (rule lt_neg_trans [OF okys [OF i'] okn [OF p(2)] okn [OF pp(2)] sib [OF i' i(2,4)] up [OF i(3)]])
    with pp show "\<not> lt (?ys ! i) (?ys ! parent ?p)" by simp
  qed
qed

lemma siftdown_heap:
  "heap_hole lt xs pos \<Longrightarrow> pos < length xs \<Longrightarrow> \<forall>y \<in> set xs. ok y \<Longrightarrow> ok x \<Longrightarrow>
    \<forall>i < length xs. 0 < i \<longrightarrow> parent i = pos \<longrightarrow> \<not> lt (xs ! i) x \<Longrightarrow>
    is_heap lt (siftdown lt xs pos x)"
proof (induction pos arbitrary: xs rule: less_induct)
  case (less pos)
  show ?case
  proof (cases "0 < pos \<and> lt x (xs ! parent pos)")
    case True
    then have pos: "0 < pos" and l: "lt x (xs ! parent pos)" by auto
    let ?ys = "xs[pos := xs ! parent pos]"
    have p: "parent pos < pos" using pos by linarith
    have oks: "\<forall>y \<in> set ?ys. ok y"
      using less.prems(2,3) p set_update_subset_insert [of xs pos "xs ! parent pos"] by auto
    have "is_heap lt (siftdown lt ?ys (parent pos) x)"
      using hole_up [OF less.prems(1) pos less.prems(2,3,4) l] less.prems p oks
      by (intro less.IH) simp_all
    with True show ?thesis by (simp add: siftdown.simps [of lt xs pos x])
  next
    case False
    then have eq: "siftdown lt xs pos x = xs[pos := x]"
      by (subst siftdown.simps) auto
    have "0 < pos \<longrightarrow> \<not> lt x (xs ! parent pos)" using False by auto
    then show ?thesis
      unfolding eq is_heap_def using less.prems
      by (auto simp: heap_hole_def nth_list_update)
  qed
qed

lemma hole_down:
  assumes hole: "heap_hole lt xs pos" and child: "2 * pos + 1 < length xs"
    and oks: "\<forall>y \<in> set xs. ok y"
  shows "heap_hole lt (xs[pos := xs ! smaller_child lt xs pos]) (smaller_child lt xs pos)"
proof -
  let ?c = "smaller_child lt xs pos"
  let ?ys = "xs[pos := xs ! ?c]"
  have c: "?c < length xs" "parent ?c = pos" "0 < ?c" "?c \<noteq> pos"
    using child by (auto simp: smaller_child_def)
  have okn: "i < length xs \<Longrightarrow> ok (xs ! i)" for i
    using oks by simp
  have edge: "\<lbrakk>i < length xs; 0 < i; i \<noteq> pos; parent i \<noteq> pos\<rbrakk> \<Longrightarrow> \<not> lt (xs ! i) (xs ! parent i)" for i
    using hole by (simp add: heap_hole_def)
  have skip: "\<lbrakk>i < length xs; 0 < i; 0 < pos; parent i = pos\<rbrakk> \<Longrightarrow> \<not> lt (xs ! i) (xs ! parent pos)" for i
    using hole by (simp add: heap_hole_def)
  have least: "\<not> lt (xs ! i) (xs ! ?c)" if "i < length xs" "0 < i" "parent i = pos" for i
  proof -
    let ?l = "2 * pos + 1" and ?r = "2 * pos + 2"
    have two: "i = ?l \<or> i = ?r" using that by linarith
    have irr: "\<not> lt (xs ! ?l) (xs ! ?l)" "?r < length xs \<Longrightarrow> \<not> lt (xs ! ?r) (xs ! ?r)"
      using okn [OF child] okn [of ?r] lt_irrefl by auto
    have asy: "?r < length xs \<Longrightarrow> lt (xs ! ?l) (xs ! ?r) \<Longrightarrow> \<not> lt (xs ! ?r) (xs ! ?l)"
      using okn [OF child] okn [of ?r] lt_asym by auto
    show ?thesis
    proof (cases "?r < length xs \<and> \<not> lt (xs ! ?l) (xs ! ?r)")
      case True
      then show ?thesis using two irr by (auto simp only: smaller_child_def if_True simp_thms)
    next
      case False
      then have "?c = ?l" by (simp only: smaller_child_def if_False)
      then show ?thesis using two irr asy False that(1) by metis
    qed
  qed
  show ?thesis
    unfolding heap_hole_def
  proof (intro conjI allI impI)
    fix i assume i: "i < length ?ys" "0 < i" "i \<noteq> ?c" "parent i \<noteq> ?c"
    show "\<not> lt (?ys ! i) (?ys ! parent i)"
    proof (cases "i = pos")
      case True
      then have "parent i \<noteq> pos" using i by linarith
      with True i show ?thesis using skip c by auto
    next
      case False
      have i': "i < length xs" using i by simp
      show ?thesis
      proof (cases "parent i = pos")
        case True
        then show ?thesis using least [OF i' i(2) True] False i' c by simp
      next
        case notpos: False
        then show ?thesis using edge [OF i' i(2) False notpos] False i' i by simp
      qed
    qed
  next
    fix i assume i: "i < length ?ys" "0 < i" "0 < ?c" "parent i = ?c"
    then have "i \<noteq> pos" "parent i \<noteq> pos"
      using c by linarith+
    then have "\<not> lt (xs ! i) (xs ! parent i)"
      using i by (intro edge) auto
    with i c \<open>i \<noteq> pos\<close> show "\<not> lt (?ys ! i) (?ys ! parent ?c)" by simp
  qed
qed

lemma siftup_heap:
  "heap_hole lt xs pos \<Longrightarrow> pos < length xs \<Longrightarrow> \<forall>y \<in> set xs. ok y \<Longrightarrow> ok x \<Longrightarrow>
    is_heap lt (siftup lt xs pos x)"
proof (induction "length xs - pos" arbitrary: xs pos rule: less_induct)
  case less
  show ?case
  proof (cases "2 * pos + 1 < length xs")
    case True
    let ?c = "smaller_child lt xs pos"
    have c: "?c < length xs" "pos < ?c"
      using smaller_child_bounds [OF True, of lt] by auto
    have oks: "\<forall>y \<in> set (xs[pos := xs ! ?c]). ok y"
      using less.prems(3) c set_update_subset_insert [of xs pos "xs ! ?c"] by auto
    have "is_heap lt (siftup lt (xs[pos := xs ! ?c]) ?c x)"
      using less.prems c oks hole_down [OF less.prems(1) True less.prems(3)]
      by (intro less.hyps) simp_all
    with True show ?thesis by (simp add: siftup.simps [of lt xs pos x])
  next
    case False
    then have "\<forall>i < length xs. 0 < i \<longrightarrow> parent i = pos \<longrightarrow> \<not> lt (xs ! i) x"
      by auto
    with False less.prems show ?thesis
      by (simp add: siftup.simps [of lt xs pos x] siftdown_heap)
  qed
qed

lemma heappush_heap:
  assumes "is_heap lt xs" and "\<forall>y \<in> set xs. ok y" and "ok x"
  shows "is_heap lt (heappush lt xs x)"
  unfolding heappush_def
proof (rule siftdown_heap)
  show "heap_hole lt (xs @ [x]) (length xs)"
    using assms(1) by (auto simp: heap_hole_def is_heap_def nth_append)
qed (use assms in auto)

lemma heappop_heap:
  assumes heap: "is_heap lt xs" and oks: "\<forall>y \<in> set xs. ok y"
  shows "is_heap lt (heappop_rest lt xs)"
proof (cases "length xs \<le> 1")
  case False
  let ?ys = "(butlast xs)[0 := last xs]"
  have ne: "xs \<noteq> []" using False by auto
  have "heap_hole lt ?ys 0"
    using heap by (auto simp: heap_hole_def is_heap_def nth_list_update nth_butlast)
  moreover have "\<forall>y \<in> set ?ys. ok y"
    using oks last_in_set [OF ne] set_update_subset_insert [of "butlast xs" 0 "last xs"]
    by (auto dest: in_set_butlastD)
  moreover have "ok (last xs)" "0 < length ?ys"
    using oks last_in_set [OF ne] False by auto
  ultimately show ?thesis
    using False by (simp add: heappop_rest_def siftup_heap)
qed (simp add: heappop_rest_def is_heap_def)

lemma is_heap_root:
  assumes "is_heap lt xs" and "\<forall>y \<in> set xs. ok y" and "i < length xs"
  shows "\<not> lt (xs ! i) (xs ! 0)"
  using assms(3)
proof (induction i rule: less_induct)
  case (less i)
  show ?case
  proof (cases "i = 0")
    case True
    then show ?thesis using less.prems assms(2) by (simp add: lt_irrefl)
  next
    case False
    then have "parent i < i" by linarith
    then have "\<not> lt (xs ! parent i) (xs ! 0)" and "\<not> lt (xs ! i) (xs ! parent i)"
      using less False assms(1) by (auto simp: is_heap_def)
    moreover have "0 < length xs" "parent i < length xs"
      using less.prems \<open>parent i < i\<close> by linarith+
    then have "ok (xs ! i)" "ok (xs ! parent i)" "ok (xs ! 0)"
      using less.prems assms(2) nth_mem by blast+
    ultimately show ?thesis using lt_neg_trans by blast
  qed
qed

lemma heap_top_least:
  "is_heap lt xs \<Longrightarrow> \<forall>y \<in> set xs. ok y \<Longrightarrow> y \<in> set xs \<Longrightarrow> \<not> lt y (hd xs)"
  using is_heap_root [of xs] by (cases "xs = []") (auto simp: in_set_conv_nth hd_conv_nth)

end

subsection \<open>What a client of a priority queue relies on\<close>

locale priority_queue = heap_order lt ok
  for lt :: "'a \<Rightarrow> 'a \<Rightarrow> bool" and ok :: "'a \<Rightarrow> bool" +
  fixes push :: "'q \<Rightarrow> 'a \<Rightarrow> 'q"
    and pop :: "'q \<Rightarrow> 'q"
    and top :: "'q \<Rightarrow> 'a"
    and items :: "'q \<Rightarrow> 'a multiset"
    and inv :: "'q \<Rightarrow> bool"
  assumes push_inv: "inv q \<Longrightarrow> ok x \<Longrightarrow> inv (push q x)"
    and push_items: "items (push q x) = add_mset x (items q)"
    and pop_inv: "inv q \<Longrightarrow> inv (pop q)"
    and pop_items: "items q \<noteq> {#} \<Longrightarrow> add_mset (top q) (items (pop q)) = items q"
    and top_least: "inv q \<Longrightarrow> y \<in># items q \<Longrightarrow> \<not> lt y (top q)"
    and items_ok: "inv q \<Longrightarrow> y \<in># items q \<Longrightarrow> ok y"
begin

lemma top_in: "items q \<noteq> {#} \<Longrightarrow> top q \<in># items q"
  using pop_items by (metis union_single_eq_member)

lemma pop_subset: "items q \<noteq> {#} \<Longrightarrow> y \<in># items (pop q) \<Longrightarrow> y \<in># items q"
  using pop_items by (metis insert_iff set_mset_add_mset_insert)

lemma pop_monotone:
  assumes "inv q" and "items (pop q) \<noteq> {#}" and "items q \<noteq> {#}"
  shows "\<not> lt (top (pop q)) (top q)"
  using assms top_in [of "pop q"] pop_subset top_least by blast

lemma push_keeps_better_top:
  assumes "inv q" and "ok x" and "items q \<noteq> {#}" and "lt (top q) x"
  shows "\<not> lt x (top (push q x)) \<and> \<not> lt (top q) (top (push q x))"
  using assms top_least [OF push_inv, of q x] top_in [of q] by (simp add: push_items)

end

sublocale heap_order \<subseteq> heapq: priority_queue lt ok
  "heappush lt" "heappop_rest lt" hd mset "\<lambda>xs. is_heap lt xs \<and> (\<forall>y \<in> set xs. ok y)"
proof (unfold_locales, goal_cases)
  case (3 q)
  then show ?case using heappop_heap set_heappop_rest [of lt q] by blast
qed (auto simp: heappush_heap heappop_rest_mset heap_top_least)

subsection \<open>Popping what is dead, and popping everything\<close>

function prune :: "('a \<Rightarrow> 'a \<Rightarrow> bool) \<Rightarrow> ('a \<Rightarrow> bool) \<Rightarrow> 'a list \<Rightarrow> 'a list" where
  "prune lt dead xs =
     (if xs \<noteq> [] \<and> dead (hd xs) then prune lt dead (heappop_rest lt xs) else xs)"
  by pat_completeness auto
termination
  by (relation "measure (\<lambda>(lt, dead, xs). length xs)") auto

function drain :: "('a \<Rightarrow> 'a \<Rightarrow> bool) \<Rightarrow> 'a list \<Rightarrow> 'a list" where
  "drain lt xs = (if xs = [] then [] else hd xs # drain lt (heappop_rest lt xs))"
  by pat_completeness auto
termination
  by (relation "measure (\<lambda>(lt, xs). length xs)") auto

declare prune.simps [simp del] drain.simps [simp del]

lemma prune_stop: "xs = [] \<or> \<not> dead (hd xs) \<Longrightarrow> prune lt dead xs = xs"
  by (subst prune.simps) auto

lemma prune_step: "xs \<noteq> [] \<Longrightarrow> dead (hd xs) \<Longrightarrow> prune lt dead xs = prune lt dead (heappop_rest lt xs)"
  by (subst prune.simps) auto

lemma prune_Nil [simp]: "prune lt dead [] = []"
  by (simp add: prune_stop)

lemma drain_Nil [simp]: "drain lt [] = []"
  by (subst drain.simps) simp

lemma drain_pop: "xs \<noteq> [] \<Longrightarrow> drain lt xs = hd xs # drain lt (heappop_rest lt xs)"
  by (subst drain.simps) simp

lemma heap_list_induct [case_names stop step]:
  assumes "\<And>xs. xs = [] \<or> \<not> dead (hd xs) \<Longrightarrow> P xs"
    and "\<And>xs. xs \<noteq> [] \<Longrightarrow> dead (hd xs) \<Longrightarrow> P (heappop_rest lt xs) \<Longrightarrow> P xs"
  shows "P xs"
proof (induction "length xs" arbitrary: xs rule: less_induct)
  case less
  then show ?case
    using assms by (cases "xs = [] \<or> \<not> dead (hd xs)") (auto simp: length_greater_0_conv)
qed

lemma length_prune: "length (prune lt dead xs) \<le> length xs"
  by (induction xs rule: heap_list_induct [where dead = dead and lt = lt])
    (simp_all add: prune_stop prune_step)

lemma prune_head: "prune lt dead xs \<noteq> [] \<Longrightarrow> \<not> dead (hd (prune lt dead xs))"
  by (induction xs rule: heap_list_induct [where dead = dead and lt = lt])
    (auto simp: prune_stop prune_step)

lemma mset_prune_live:
  "filter_mset (\<lambda>x. \<not> dead x) (mset (prune lt dead xs)) = filter_mset (\<lambda>x. \<not> dead x) (mset xs)"
proof (induction xs rule: heap_list_induct [where dead = dead and lt = lt])
  case (step xs)
  then show ?case
    using heappop_rest_mset [OF step(1), of lt] by (metis filter_mset_add_mset prune_step)
qed (simp add: prune_stop)

lemma set_prune: "set (prune lt dead xs) \<subseteq> set xs"
proof (induction xs rule: heap_list_induct [where dead = dead and lt = lt])
  case (step xs)
  then show ?case using set_heappop_rest [of lt xs] by (auto simp: prune_step)
qed (simp add: prune_stop)

lemma live_prune:
  assumes "x \<in> set xs" and "\<not> dead x"
  shows "x \<in> set (prune lt dead xs)"
proof -
  have "x \<in># filter_mset (\<lambda>x. \<not> dead x) (mset (prune lt dead xs))"
    using assms by (simp only: mset_prune_live) simp
  then show ?thesis by simp
qed

lemma distinct_prune: "distinct xs \<Longrightarrow> distinct (prune lt dead xs)"
proof (induction xs rule: heap_list_induct [where dead = dead and lt = lt])
  case (step xs)
  then show ?case using distinct_heappop_rest [of xs lt] by (simp add: prune_step)
qed (simp add: prune_stop)

lemma mset_drain [simp]: "mset (drain lt xs) = mset xs"
proof (induction xs rule: heap_list_induct [where dead = "\<lambda>_. True" and lt = lt])
  case (step xs)
  then show ?case using heappop_rest_mset [of xs lt] by (simp add: drain_pop)
qed simp

lemma set_drain [simp]: "set (drain lt xs) = set xs"
  by (metis mset_drain set_mset_mset)

context heap_order
begin

lemma prune_heap:
  "is_heap lt xs \<Longrightarrow> \<forall>y \<in> set xs. ok y \<Longrightarrow> is_heap lt (prune lt dead xs)"
proof (induction xs rule: heap_list_induct [where dead = dead and lt = lt])
  case (step xs)
  then show ?case using heapq.pop_inv [of xs] by (simp add: prune_step)
qed (simp add: prune_stop)

lemma prune_best:
  assumes "is_heap lt xs" and "\<forall>y \<in> set xs. ok y" and "x \<in> set xs" and "\<not> dead x"
  shows "prune lt dead xs \<noteq> []" and "\<not> lt x (hd (prune lt dead xs))"
proof -
  have mem: "x \<in> set (prune lt dead xs)"
    by (rule live_prune [where dead = dead, OF assms(3,4)])
  have oks: "\<forall>y \<in> set (prune lt dead xs). ok y"
    using assms(2) set_prune [of lt dead xs] by blast
  show "\<not> lt x (hd (prune lt dead xs))"
    by (rule heap_top_least [OF prune_heap [OF assms(1,2)] oks mem])
  show "prune lt dead xs \<noteq> []"
    using mem by (cases "prune lt dead xs") simp_all
qed

lemma drain_sorted:
  "is_heap lt xs \<Longrightarrow> \<forall>y \<in> set xs. ok y \<Longrightarrow> sorted_wrt (\<lambda>a b. \<not> lt b a) (drain lt xs)"
proof (induction xs rule: heap_list_induct [where dead = "\<lambda>_. True" and lt = lt])
  case (step xs)
  have "\<forall>y \<in> set (heappop_rest lt xs). \<not> lt y (hd xs)"
    using step.prems set_heappop_rest [of lt xs] heap_top_least by blast
  then show ?case
    using step heapq.pop_inv [of xs] by (simp add: drain_pop)
qed simp

end

end
