(* ===== verification/Book_Side.thy ===== *)
theory Book_Side
  imports Heapq
begin

text \<open>
  What the agent-based book (\<open>backtesting/abm/order_book.py\<close>) and the hybrid book
  (\<open>backtesting/hybrid/unified_order_book.py\<close>) have in common: the order entry with its
  \<open>__lt__\<close>, one side of a book as a heap of references into an object store, and \<open>sweep\<close>,
  a reference definition of matching an incoming quantity against one side, with the facts
  both matching loops inherit from it. Entries are objects: the heap and the dictionaries hold
  references (\<open>nat\<close>), so an update of \<open>remaining\<close> is seen through all of them.
\<close>

datatype order_side = BUY | SELL
datatype order_type = MARKET | LIMIT

record entry =
  order_id :: string
  side :: order_side
  price :: pyfloat
  quantity :: int
  remaining :: int
  otype :: order_type
  timestamp :: pytime
  agent_id :: string

definition post_init :: "'e entry_scheme \<Rightarrow> 'e entry_scheme" where
  \<comment> \<open>\<open>__post_init__\<close>: a zero \<open>remaining\<close> means "not given"\<close>
  "post_init e = (if remaining e = 0 then e\<lparr>remaining := quantity e\<rparr> else e)"

definition entry_lt :: "'e entry_scheme \<Rightarrow> 'e entry_scheme \<Rightarrow> bool" where
  \<comment> \<open>\<open>__lt__\<close>\<close>
  "entry_lt a b =
     (if side a = BUY \<and> price a \<noteq> price b then price a > price b
      else if side a \<noteq> BUY \<and> price a \<noteq> price b then price a < price b
      else timestamp a < timestamp b)"

definition ref_lt :: "(nat \<Rightarrow> 'e entry_scheme) \<Rightarrow> nat \<Rightarrow> nat \<Rightarrow> bool" where
  "ref_lt \<sigma> r s = entry_lt (\<sigma> r) (\<sigma> s)"

interpretation side_heap: heap_order "ref_lt \<sigma>" "\<lambda>r. side (\<sigma> r) = s" for \<sigma> s
  by unfold_locales (auto simp: ref_lt_def entry_lt_def split: if_splits)

definition dead :: "(nat \<Rightarrow> 'e entry_scheme) \<Rightarrow> nat \<Rightarrow> bool" where
  "dead \<sigma> r \<longleftrightarrow> remaining (\<sigma> r) \<le> 0"

definition clean :: "(nat \<Rightarrow> 'e entry_scheme) \<Rightarrow> nat list \<Rightarrow> nat list" where
  \<comment> \<open>the loop at the head of \<open>best_bid\<close> and \<open>best_ask\<close>\<close>
  "clean \<sigma> xs = prune (ref_lt \<sigma>) (dead \<sigma>) xs"

definition top_price :: "(nat \<Rightarrow> 'e entry_scheme) \<Rightarrow> nat list \<Rightarrow> pyfloat" where
  "top_price \<sigma> xs = (if xs = [] then 0 else price (\<sigma> (hd xs)))"

definition volume :: "(nat \<Rightarrow> 'e entry_scheme) \<Rightarrow> nat list \<Rightarrow> int" where
  \<comment> \<open>\<open>sum(e.remaining for e in side if e.remaining > 0)\<close>\<close>
  "volume \<sigma> xs = (\<Sum>r\<leftarrow>filter (\<lambda>r. remaining (\<sigma> r) > 0) xs. remaining (\<sigma> r))"

definition side_inv :: "order_side \<Rightarrow> (nat \<Rightarrow> 'e entry_scheme) \<Rightarrow> nat list \<Rightarrow> bool" where
  "side_inv s \<sigma> xs \<longleftrightarrow>
     is_heap (ref_lt \<sigma>) xs \<and> (\<forall>r \<in> set xs. side (\<sigma> r) = s) \<and> distinct xs"

definition better :: "order_side \<Rightarrow> pyfloat \<Rightarrow> pyfloat \<Rightarrow> bool" where
  \<comment> \<open>at least as good a price on that side of the book\<close>
  "better s p q \<longleftrightarrow> (if s = BUY then p \<ge> q else p \<le> q)"

definition same_keys :: "(nat \<Rightarrow> 'e entry_scheme) \<Rightarrow> (nat \<Rightarrow> 'e entry_scheme) \<Rightarrow> bool" where
  "same_keys \<sigma> \<sigma>' \<longleftrightarrow>
     (\<forall>r. side (\<sigma>' r) = side (\<sigma> r) \<and> price (\<sigma>' r) = price (\<sigma> r) \<and> timestamp (\<sigma>' r) = timestamp (\<sigma> r))"

subsection \<open>Updates that keep the order\<close>

lemma same_keys_ref_lt: "same_keys \<sigma> \<sigma>' \<Longrightarrow> ref_lt \<sigma>' = ref_lt \<sigma>"
  by (intro ext) (simp add: same_keys_def ref_lt_def entry_lt_def)

lemma same_keys_refl [simp]: "same_keys \<sigma> \<sigma>"
  by (simp add: same_keys_def)

lemma same_keys_trans: "same_keys \<sigma> \<sigma>' \<Longrightarrow> same_keys \<sigma>' \<sigma>'' \<Longrightarrow> same_keys \<sigma> \<sigma>''"
  by (simp add: same_keys_def)

lemma same_keys_remaining [simp]: "same_keys \<sigma> (\<sigma>(r := (\<sigma> r)\<lparr>remaining := q\<rparr>))"
  by (simp add: same_keys_def)

lemma side_inv_same_keys: "same_keys \<sigma> \<sigma>' \<Longrightarrow> side_inv s \<sigma>' xs \<longleftrightarrow> side_inv s \<sigma> xs"
  by (simp add: side_inv_def same_keys_ref_lt) (simp add: same_keys_def)

lemma is_heap_cong:
  assumes "\<And>a b. a \<in> set xs \<Longrightarrow> b \<in> set xs \<Longrightarrow> lt a b = lt' a b"
  shows "is_heap lt xs = is_heap lt' xs"
proof -
  have "lt (xs ! i) (xs ! parent i) = lt' (xs ! i) (xs ! parent i)" if "i < length xs" for i
    using that by (intro assms nth_mem) linarith+
  then show ?thesis by (auto simp: is_heap_def)
qed

lemma side_inv_agree:
  assumes "\<And>r. r \<in> set xs \<Longrightarrow> \<sigma>' r = \<sigma> r"
  shows "side_inv s \<sigma>' xs \<longleftrightarrow> side_inv s \<sigma> xs"
proof -
  have "is_heap (ref_lt \<sigma>') xs = is_heap (ref_lt \<sigma>) xs"
    by (rule is_heap_cong) (simp add: ref_lt_def assms)
  then show ?thesis using assms by (auto simp: side_inv_def)
qed

lemma volume_agree: "(\<And>r. r \<in> set xs \<Longrightarrow> \<sigma>' r = \<sigma> r) \<Longrightarrow> volume \<sigma>' xs = volume \<sigma> xs"
  unfolding volume_def by (intro arg_cong [where f = sum_list] map_cong filter_cong) auto

lemma side_inv_Nil [simp]: "side_inv s \<sigma> []"
  by (simp add: side_inv_def is_heap_def)

lemma side_inv_push:
  "side_inv s \<sigma> xs \<Longrightarrow> side (\<sigma> r) = s \<Longrightarrow> r \<notin> set xs \<Longrightarrow> side_inv s \<sigma> (heappush (ref_lt \<sigma>) xs r)"
  using side_heap.heapq.push_inv [of \<sigma> xs s r] by (auto simp: side_inv_def distinct_heappush)

lemma side_inv_pop: "side_inv s \<sigma> xs \<Longrightarrow> side_inv s \<sigma> (heappop_rest (ref_lt \<sigma>) xs)"
  using side_heap.heapq.pop_inv [of \<sigma> xs s] by (simp add: side_inv_def distinct_heappop_rest)

lemma side_inv_clean: "side_inv s \<sigma> xs \<Longrightarrow> side_inv s \<sigma> (clean \<sigma> xs)"
  using side_heap.prune_heap [of \<sigma> xs s] set_prune [of "ref_lt \<sigma>" "dead \<sigma>" xs]
  by (auto simp: side_inv_def clean_def distinct_prune)

lemma set_clean: "set (clean \<sigma> xs) \<subseteq> set xs"
  by (simp add: clean_def set_prune)

lemma clean_live: "r \<in> set xs \<Longrightarrow> 0 < remaining (\<sigma> r) \<Longrightarrow> r \<in> set (clean \<sigma> xs)"
  unfolding clean_def by (rule live_prune) (auto simp: dead_def)

lemma clean_head: "clean \<sigma> xs \<noteq> [] \<Longrightarrow> 0 < remaining (\<sigma> (hd (clean \<sigma> xs)))"
  using prune_head [of "ref_lt \<sigma>" "dead \<sigma>" xs] by (simp add: clean_def dead_def)

lemma length_clean: "length (clean \<sigma> xs) \<le> length xs"
  by (simp add: clean_def length_prune)

lemma volume_mset:
  "volume \<sigma> xs = sum_mset (image_mset (\<lambda>r. remaining (\<sigma> r)) (filter_mset (\<lambda>r. 0 < remaining (\<sigma> r)) (mset xs)))"
  by (simp add: volume_def sum_mset_sum_list flip: mset_filter mset_map)

lemma volume_clean [simp]: "volume \<sigma> (clean \<sigma> xs) = volume \<sigma> xs"
  using mset_prune_live [of "dead \<sigma>" "ref_lt \<sigma>" xs]
  by (simp add: volume_mset clean_def dead_def not_le)

lemma top_best:
  assumes "side_inv s \<sigma> xs" and "r \<in> set xs"
  shows "better s (top_price \<sigma> xs) (price (\<sigma> r))"
proof -
  have "\<not> ref_lt \<sigma> r (hd xs)" and "side (\<sigma> r) = s" and "xs \<noteq> []"
    using assms side_heap.heap_top_least [of \<sigma> xs s r] by (auto simp: side_inv_def)
  then show ?thesis
    by (auto simp: ref_lt_def entry_lt_def better_def top_price_def split: if_splits)
qed

lemma clean_best:
  assumes "side_inv s \<sigma> xs" and "r \<in> set xs" and "0 < remaining (\<sigma> r)"
  shows "clean \<sigma> xs \<noteq> []" and "better s (top_price \<sigma> (clean \<sigma> xs)) (price (\<sigma> r))"
proof -
  have "r \<in> set (clean \<sigma> xs)"
    using assms(2,3) by (simp add: clean_live)
  then show "clean \<sigma> xs \<noteq> []" and "better s (top_price \<sigma> (clean \<sigma> xs)) (price (\<sigma> r))"
    using top_best [OF side_inv_clean [OF assms(1)]] by auto
qed

subsection \<open>Matching a quantity against one side\<close>

definition hit :: "(nat \<Rightarrow> 'e entry_scheme) \<Rightarrow> nat \<Rightarrow> int \<Rightarrow> nat \<Rightarrow> 'e entry_scheme" where
  \<comment> \<open>\<open>entry.remaining -= qty\<close> on the object behind the reference\<close>
  "hit \<sigma> a q = \<sigma>(a := (\<sigma> a)\<lparr>remaining := remaining (\<sigma> a) - q\<rparr>)"

definition after_hit :: "(nat \<Rightarrow> 'e entry_scheme) \<Rightarrow> nat \<Rightarrow> nat list \<Rightarrow> nat list" where
  \<comment> \<open>a filled top entry is popped\<close>
  "after_hit \<sigma> a xs = (if remaining (\<sigma> a) \<le> 0 then heappop_rest (ref_lt \<sigma>) xs else xs)"

function sweep ::
  "(pyfloat \<Rightarrow> bool) \<Rightarrow> (nat \<Rightarrow> 'e entry_scheme) \<Rightarrow> nat list \<Rightarrow> int \<Rightarrow>
   (nat \<Rightarrow> 'e entry_scheme) \<times> nat list \<times> int \<times> (nat \<times> int) list" where
  "sweep crosses \<sigma> xs rem =
     (if rem \<le> 0 then (\<sigma>, xs, rem, [])
      else if top_price \<sigma> (clean \<sigma> xs) \<le> 0 \<or> \<not> crosses (top_price \<sigma> (clean \<sigma> xs))
      then (\<sigma>, clean \<sigma> xs, rem, [])
      else let a = hd (clean \<sigma> xs); q = min rem (remaining (\<sigma> a)); \<sigma>' = hit \<sigma> a q;
               (\<sigma>'', xs'', rem'', fills) = sweep crosses \<sigma>' (after_hit \<sigma>' a (clean \<sigma> xs)) (rem - q)
           in (\<sigma>'', xs'', rem'', (a, q) # fills))"
  by pat_completeness auto

lemma hit_same_keys [simp]: "same_keys \<sigma> (hit \<sigma> a q)"
  by (simp add: hit_def)

lemma remaining_hit [simp]:
  "remaining (hit \<sigma> a q r) = (if r = a then remaining (\<sigma> a) - q else remaining (\<sigma> r))"
  by (simp add: hit_def)

lemma hit_other [simp]: "r \<noteq> a \<Longrightarrow> hit \<sigma> a q r = \<sigma> r"
  by (simp add: hit_def)

lemma sweep_decreases:
  assumes "0 < rem" and "0 < top_price \<sigma> (clean \<sigma> xs)"
    and "a = hd (clean \<sigma> xs)" and "q = min rem (remaining (\<sigma> a))"
  shows "length (after_hit (hit \<sigma> a q) a (clean \<sigma> xs)) + (if 0 < rem - q then 1 else 0)
    < length xs + (if 0 < rem then 1 else 0)"
proof -
  from assms(2) obtain n where "length (clean \<sigma> xs) = Suc n"
    by (cases "clean \<sigma> xs") (auto simp: top_price_def)
  with assms length_clean [of \<sigma> xs] show ?thesis
    by (auto simp: after_hit_def)
qed

termination sweep
proof (relation "measure (\<lambda>(crosses, \<sigma>, xs, rem). length xs + (if 0 < rem then 1 else 0))", goal_cases)
  case (2 crosses \<sigma> xs rem a q \<sigma>')
  then show ?case
    using sweep_decreases [of rem \<sigma> xs a q] by simp
qed simp

declare sweep.simps [simp del]

lemma sweep_stop:
  "rem \<le> 0 \<Longrightarrow> sweep crosses \<sigma> xs rem = (\<sigma>, xs, rem, [])"
  by (subst sweep.simps) simp

lemma sweep_blocked:
  "0 < rem \<Longrightarrow> top_price \<sigma> (clean \<sigma> xs) \<le> 0 \<or> \<not> crosses (top_price \<sigma> (clean \<sigma> xs)) \<Longrightarrow>
   sweep crosses \<sigma> xs rem = (\<sigma>, clean \<sigma> xs, rem, [])"
  by (subst sweep.simps) auto

lemma sweep_hit:
  assumes "0 < rem" and "0 < top_price \<sigma> (clean \<sigma> xs)" and "crosses (top_price \<sigma> (clean \<sigma> xs))"
    and "a = hd (clean \<sigma> xs)" and "q = min rem (remaining (\<sigma> a))"
    and "sweep crosses (hit \<sigma> a q) (after_hit (hit \<sigma> a q) a (clean \<sigma> xs)) (rem - q) = (\<sigma>', xs', rem', fills)"
  shows "sweep crosses \<sigma> xs rem = (\<sigma>', xs', rem', (a, q) # fills)"
  using assms by (subst sweep.simps) (simp add: Let_def)

lemma sweep_induct [case_names stop blocked hit]:
  assumes "\<And>\<sigma> xs rem. rem \<le> 0 \<Longrightarrow> P \<sigma> xs rem"
    and "\<And>\<sigma> xs rem. 0 < rem \<Longrightarrow>
      top_price \<sigma> (clean \<sigma> xs) \<le> 0 \<or> \<not> crosses (top_price \<sigma> (clean \<sigma> xs)) \<Longrightarrow> P \<sigma> xs rem"
    and "\<And>\<sigma> xs rem a q. 0 < rem \<Longrightarrow> 0 < top_price \<sigma> (clean \<sigma> xs) \<Longrightarrow>
      crosses (top_price \<sigma> (clean \<sigma> xs)) \<Longrightarrow> a = hd (clean \<sigma> xs) \<Longrightarrow>
      q = min rem (remaining (\<sigma> a)) \<Longrightarrow>
      P (hit \<sigma> a q) (after_hit (hit \<sigma> a q) a (clean \<sigma> xs)) (rem - q) \<Longrightarrow> P \<sigma> xs rem"
  shows "P \<sigma> xs rem"
proof (induction "length xs + (if 0 < rem then 1 else 0)" arbitrary: \<sigma> xs rem rule: less_induct)
  case less
  let ?p = "top_price \<sigma> (clean \<sigma> xs)" and ?a = "hd (clean \<sigma> xs)"
  consider "rem \<le> 0" | "0 < rem" "?p \<le> 0 \<or> \<not> crosses ?p" | "0 < rem" "0 < ?p" "crosses ?p"
    by linarith
  then show ?case
  proof cases
    case 3
    show ?thesis
      by (rule assms(3) [OF 3 refl refl], rule less, rule sweep_decreases [OF 3(1,2) refl refl])
  qed (use assms(1,2) in blast)+
qed

lemma sweep_hitD:
  assumes "0 < rem" and "0 < top_price \<sigma> (clean \<sigma> xs)" and "crosses (top_price \<sigma> (clean \<sigma> xs))"
    and "a = hd (clean \<sigma> xs)" and "q = min rem (remaining (\<sigma> a))"
    and "sweep crosses \<sigma> xs rem = (\<sigma>', xs', rem', fills)"
  obtains fs where "fills = (a, q) # fs"
    and "sweep crosses (hit \<sigma> a q) (after_hit (hit \<sigma> a q) a (clean \<sigma> xs)) (rem - q) = (\<sigma>', xs', rem', fs)"
proof -
  obtain \<tau> ys m fs where
    "sweep crosses (hit \<sigma> a q) (after_hit (hit \<sigma> a q) a (clean \<sigma> xs)) (rem - q) = (\<tau>, ys, m, fs)"
    using prod_cases4 by blast
  with sweep_hit [OF assms(1-5) this] assms(6) that show ?thesis by simp
qed

text \<open>One step of the sweep: what it hits, and what the side looks like afterwards.\<close>

lemma hit_step:
  assumes inv: "side_inv s \<sigma> xs" and "0 < rem" and top: "0 < top_price \<sigma> (clean \<sigma> xs)"
    and a: "a = hd (clean \<sigma> xs)" and q: "q = min rem (remaining (\<sigma> a))"
  defines "\<sigma>' \<equiv> hit \<sigma> a q" and "ys \<equiv> after_hit (hit \<sigma> a q) a (clean \<sigma> xs)"
  shows "a \<in> set xs" and "0 < remaining (\<sigma> a)" and "0 < q" and "q \<le> rem" and "q \<le> remaining (\<sigma> a)"
    and "price (\<sigma> a) = top_price \<sigma> (clean \<sigma> xs)"
    and "side_inv s \<sigma>' ys" and "set ys \<subseteq> set xs"
    and "\<And>r. r \<in> set xs \<Longrightarrow> 0 < remaining (\<sigma>' r) \<Longrightarrow> r \<in> set ys"
    and "volume \<sigma>' ys = volume \<sigma> xs - q"
    and "\<And>r. r \<in> set xs \<Longrightarrow> 0 < remaining (\<sigma> r) \<Longrightarrow> better s (price (\<sigma> a)) (price (\<sigma> r))"
proof -
  have ne: "clean \<sigma> xs \<noteq> []" using top by (auto simp: top_price_def)
  then have mem: "a \<in> set (clean \<sigma> xs)" using a by simp
  show "a \<in> set xs" using mem set_clean by fast
  show pos: "0 < remaining (\<sigma> a)" using clean_head [OF ne] a by simp
  show q0: "0 < q" and "q \<le> rem" and qr: "q \<le> remaining (\<sigma> a)"
    using q pos assms(2) by auto
  show "price (\<sigma> a) = top_price \<sigma> (clean \<sigma> xs)" using ne a by (simp add: top_price_def)
  have inv': "side_inv s \<sigma>' (clean \<sigma> xs)"
    using side_inv_clean [OF inv] by (simp add: \<sigma>'_def side_inv_same_keys [OF hit_same_keys])
  then show "side_inv s \<sigma>' ys"
    by (simp add: ys_def \<sigma>'_def after_hit_def side_inv_pop)
  show "set ys \<subseteq> set xs"
    using set_heappop_rest [of "ref_lt \<sigma>'" "clean \<sigma> xs"] set_clean [of \<sigma> xs]
    by (auto simp: ys_def \<sigma>'_def after_hit_def)
  have dist: "distinct (clean \<sigma> xs)" using side_inv_clean [OF inv] by (simp add: side_inv_def)
  then have rest: "set (heappop_rest (ref_lt \<sigma>') (clean \<sigma> xs)) = set (clean \<sigma> xs) - {a}"
    using distinct_heappop_rest [of "clean \<sigma> xs"] ne a by blast
  show "r \<in> set xs \<Longrightarrow> 0 < remaining (\<sigma>' r) \<Longrightarrow> r \<in> set ys" for r
    using rest mem clean_live [of r xs \<sigma>] by (cases "r = a") (auto simp: ys_def \<sigma>'_def after_hit_def)
  show "r \<in> set xs \<Longrightarrow> 0 < remaining (\<sigma> r) \<Longrightarrow> better s (price (\<sigma> a)) (price (\<sigma> r))" for r
    using clean_best [OF inv, of r] a ne by (simp add: top_price_def)
  let ?M = "mset (heappop_rest (ref_lt \<sigma>') (clean \<sigma> xs))"
  have M: "mset (clean \<sigma> xs) = add_mset a ?M" and notin: "a \<notin># ?M"
    using heappop_rest_mset [OF ne, of "ref_lt \<sigma>'"] a rest by auto
  have same: "image_mset (\<lambda>r. remaining (\<sigma>' r)) (filter_mset (\<lambda>r. 0 < remaining (\<sigma>' r)) ?M)
      = image_mset (\<lambda>r. remaining (\<sigma> r)) (filter_mset (\<lambda>r. 0 < remaining (\<sigma> r)) ?M)"
  proof (rule trans)
    have other: "r \<in># ?M \<Longrightarrow> remaining (\<sigma>' r) = remaining (\<sigma> r)" for r
      using notin by (auto simp: \<sigma>'_def)
    show "image_mset (\<lambda>r. remaining (\<sigma>' r)) (filter_mset (\<lambda>r. 0 < remaining (\<sigma>' r)) ?M)
        = image_mset (\<lambda>r. remaining (\<sigma> r)) (filter_mset (\<lambda>r. 0 < remaining (\<sigma>' r)) ?M)"
      using other by (intro image_mset_cong) simp
    show "\<dots> = image_mset (\<lambda>r. remaining (\<sigma> r)) (filter_mset (\<lambda>r. 0 < remaining (\<sigma> r)) ?M)"
      using other by (intro arg_cong [where f = "image_mset _"] filter_mset_cong) auto
  qed
  have "volume \<sigma>' ys = volume \<sigma> (clean \<sigma> xs) - q"
    using pos qr same
    by (auto simp: volume_mset M ys_def after_hit_def simp flip: \<sigma>'_def) (simp_all add: \<sigma>'_def)
  then show "volume \<sigma>' ys = volume \<sigma> xs - q" by simp
qed

text \<open>The frame, the invariant and the accounting of a whole sweep.\<close>

lemma sweep_frame:
  "sweep crosses \<sigma> xs rem = (\<sigma>', xs', rem', fills) \<Longrightarrow> side_inv s \<sigma> xs \<Longrightarrow>
     same_keys \<sigma> \<sigma>' \<and> side_inv s \<sigma>' xs' \<and> set xs' \<subseteq> set xs
     \<and> (\<forall>r. \<sigma>' r = (\<sigma> r)\<lparr>remaining := remaining (\<sigma>' r)\<rparr>)
     \<and> (\<forall>r. r \<notin> set xs \<longrightarrow> \<sigma>' r = \<sigma> r)
     \<and> (\<forall>r \<in> set xs. 0 < remaining (\<sigma>' r) \<longrightarrow> r \<in> set xs')
     \<and> (\<forall>r. remaining (\<sigma>' r) \<le> remaining (\<sigma> r))"
proof (induction \<sigma> xs rem arbitrary: fills rule: sweep_induct [where crosses = crosses])
  case (hit \<sigma> xs rem a q)
  note st = hit_step [OF hit.prems(2) hit.hyps(1,2,4,5)]
  obtain fs where
    "sweep crosses (hit \<sigma> a q) (after_hit (hit \<sigma> a q) a (clean \<sigma> xs)) (rem - q) = (\<sigma>', xs', rem', fs)"
    by (rule sweep_hitD [OF _ _ _ _ _ hit.prems(1)]) (rule hit.hyps)+
  from hit.IH [OF this st(7)]
  have ih: "same_keys (hit \<sigma> a q) \<sigma>'" "side_inv s \<sigma>' xs'"
      "set xs' \<subseteq> set (after_hit (hit \<sigma> a q) a (clean \<sigma> xs))"
      "\<And>r. \<sigma>' r = (hit \<sigma> a q r)\<lparr>remaining := remaining (\<sigma>' r)\<rparr>"
      "\<And>r. r \<notin> set (after_hit (hit \<sigma> a q) a (clean \<sigma> xs)) \<Longrightarrow> \<sigma>' r = hit \<sigma> a q r"
      "\<And>r. r \<in> set (after_hit (hit \<sigma> a q) a (clean \<sigma> xs)) \<Longrightarrow> 0 < remaining (\<sigma>' r) \<Longrightarrow> r \<in> set xs'"
      "\<And>r. remaining (\<sigma>' r) \<le> remaining (hit \<sigma> a q r)"
    by auto
  have le: "remaining (\<sigma>' r) \<le> remaining (\<sigma> r)" for r
    using ih(7) [of r] st(3) by (auto split: if_splits)
  have eq: "\<sigma>' r = (\<sigma> r)\<lparr>remaining := remaining (\<sigma>' r)\<rparr>" for r
    by (subst ih(4) [of r]) (simp add: hit_def)
  have keep: "r \<in> set xs \<Longrightarrow> 0 < remaining (\<sigma>' r) \<Longrightarrow> r \<in> set xs'" for r
    using st(9) [of r] ih(6) [of r] ih(7) [of r] by linarith
  have out: "\<sigma>' r = \<sigma> r" if "r \<notin> set xs" for r
  proof -
    have "r \<notin> set (after_hit (hit \<sigma> a q) a (clean \<sigma> xs))" and "r \<noteq> a"
      using that st(1,8) by auto
    then show ?thesis using ih(5) by simp
  qed
  show ?case
    using ih(1,2,3) st(8) le eq keep out same_keys_trans [OF hit_same_keys ih(1)] by blast
next
  case (blocked \<sigma> xs rem)
  have "\<sigma>' = \<sigma>" and "xs' = clean \<sigma> xs"
    using blocked.prems(1) sweep_blocked [where crosses = crosses, OF blocked.hyps] by auto
  with blocked.prems(2) show ?case
    using set_clean [of \<sigma> xs] by (auto simp: side_inv_clean clean_live)
qed (simp add: sweep_stop)

lemma sweep_amounts:
  "sweep crosses \<sigma> xs rem = (\<sigma>', xs', rem', fills) \<Longrightarrow> side_inv s \<sigma> xs \<Longrightarrow> 0 \<le> rem \<Longrightarrow>
     rem' = rem - (\<Sum>(a, q)\<leftarrow>fills. q) \<and> 0 \<le> rem'
     \<and> volume \<sigma>' xs' = volume \<sigma> xs - (\<Sum>(a, q)\<leftarrow>fills. q)
     \<and> (\<forall>(a, q) \<in> set fills. 0 < q \<and> a \<in> set xs \<and> 0 < price (\<sigma> a) \<and> crosses (price (\<sigma> a)))"
proof (induction \<sigma> xs rem arbitrary: fills rule: sweep_induct [where crosses = crosses])
  case (hit \<sigma> xs rem a q)
  note st = hit_step [OF hit.prems(2) hit.hyps(1,2,4,5)]
  obtain fs where fs: "fills = (a, q) # fs" and
    rec: "sweep crosses (hit \<sigma> a q) (after_hit (hit \<sigma> a q) a (clean \<sigma> xs)) (rem - q) = (\<sigma>', xs', rem', fs)"
    by (rule sweep_hitD [OF _ _ _ _ _ hit.prems(1)]) (rule hit.hyps)+
  have "price (hit \<sigma> a q r) = price (\<sigma> r)" for r by (simp add: hit_def)
  with hit.IH [OF rec st(7)] st hit.hyps(2,3) show ?case
    unfolding fs by (auto simp: st(10))
qed (auto simp: sweep_stop sweep_blocked)

text \<open>Price priority: fills come best price first, and nothing live that is left is better.\<close>

lemma sweep_priority:
  "sweep crosses \<sigma> xs rem = (\<sigma>', xs', rem', fills) \<Longrightarrow> side_inv s \<sigma> xs \<Longrightarrow>
     sorted_wrt (\<lambda>(a, _) (b, _). better s (price (\<sigma> a)) (price (\<sigma> b))) fills
     \<and> (\<forall>(a, q) \<in> set fills. a \<in> set xs \<and> 0 < remaining (\<sigma> a))
     \<and> (\<forall>(a, q) \<in> set fills. \<forall>r \<in> set xs. 0 < remaining (\<sigma>' r) \<longrightarrow> better s (price (\<sigma> a)) (price (\<sigma> r)))"
proof (induction \<sigma> xs rem arbitrary: fills rule: sweep_induct [where crosses = crosses])
  case (hit \<sigma> xs rem a q)
  note st = hit_step [OF hit.prems(2) hit.hyps(1,2,4,5)]
  let ?ys = "after_hit (hit \<sigma> a q) a (clean \<sigma> xs)"
  obtain fs where fs: "fills = (a, q) # fs" and
    rec: "sweep crosses (hit \<sigma> a q) ?ys (rem - q) = (\<sigma>', xs', rem', fs)"
    by (rule sweep_hitD [OF _ _ _ _ _ hit.prems(1)]) (rule hit.hyps)+
  have pr [simp]: "price (hit \<sigma> a q r) = price (\<sigma> r)" for r by (simp add: hit_def)
  have lower: "remaining (hit \<sigma> a q r) \<le> remaining (\<sigma> r)" for r using st(3) by simp
  have final: "remaining (\<sigma>' r) \<le> remaining (hit \<sigma> a q r)" for r
    using sweep_frame [OF rec st(7)] by blast
  from hit.IH [OF rec st(7)]
  have ih: "sorted_wrt (\<lambda>(a, _) (b, _). better s (price (\<sigma> a)) (price (\<sigma> b))) fs"
      "\<And>b p. (b, p) \<in> set fs \<Longrightarrow> b \<in> set ?ys \<and> 0 < remaining (hit \<sigma> a q b)"
      "\<And>b p r. (b, p) \<in> set fs \<Longrightarrow> r \<in> set ?ys \<Longrightarrow> 0 < remaining (\<sigma>' r) \<Longrightarrow>
         better s (price (\<sigma> b)) (price (\<sigma> r))"
    by (auto simp del: remaining_hit)
  have mem: "b \<in> set xs \<and> 0 < remaining (\<sigma> b)" if "(b, p) \<in> set fs" for b p
    using ih(2) [OF that] st(8) lower [of b] by fastforce
  have live: "r \<in> set ?ys \<and> 0 < remaining (\<sigma> r)" if "r \<in> set xs" "0 < remaining (\<sigma>' r)" for r
    using that st(9) [of r] final [of r] lower [of r] by linarith
  show ?case
    unfolding fs using ih(1) mem live ih(3) st(1,2,11) by fastforce
qed (auto simp: sweep_stop sweep_blocked)

text \<open>An unfilled rest means that no live entry is left at an acceptable price.\<close>

lemma sweep_exhausts:
  assumes mono: "\<And>p q. better s p q \<Longrightarrow> crosses q \<Longrightarrow> crosses p"
  shows "sweep crosses \<sigma> xs rem = (\<sigma>', xs', rem', fills) \<Longrightarrow> side_inv s \<sigma> xs \<Longrightarrow>
     \<forall>r \<in> set xs. 0 < price (\<sigma> r) \<Longrightarrow> 0 < rem' \<Longrightarrow>
     \<forall>r \<in> set xs. 0 < remaining (\<sigma>' r) \<longrightarrow> \<not> crosses (price (\<sigma> r))"
proof (induction \<sigma> xs rem arbitrary: fills rule: sweep_induct [where crosses = crosses])
  case (hit \<sigma> xs rem a q)
  note st = hit_step [OF hit.prems(2) hit.hyps(1,2,4,5)]
  let ?ys = "after_hit (hit \<sigma> a q) a (clean \<sigma> xs)"
  obtain fs where
    rec: "sweep crosses (hit \<sigma> a q) ?ys (rem - q) = (\<sigma>', xs', rem', fs)"
    by (rule sweep_hitD [OF _ _ _ _ _ hit.prems(1)]) (rule hit.hyps)+
  have pr [simp]: "price (hit \<sigma> a q r) = price (\<sigma> r)" for r by (simp add: hit_def)
  have "\<forall>r \<in> set ?ys. 0 < remaining (\<sigma>' r) \<longrightarrow> \<not> crosses (price (\<sigma> r))"
    using hit.IH [OF rec st(7)] hit.prems(3,4) st(8) by auto
  moreover have "r \<in> set ?ys" if "r \<in> set xs" "0 < remaining (\<sigma>' r)" for r
    using that st(9) [of r] sweep_frame [OF rec st(7)] by (meson less_le_trans)
  ultimately show ?case by blast
next
  case (blocked \<sigma> xs rem)
  then have eq: "\<sigma>' = \<sigma>" by (simp add: sweep_blocked)
  show ?case
  proof (intro ballI impI)
    fix r assume r: "r \<in> set xs" "0 < remaining (\<sigma>' r)"
    then have "clean \<sigma> xs \<noteq> []" and b: "better s (top_price \<sigma> (clean \<sigma> xs)) (price (\<sigma> r))"
      using clean_best [OF blocked.prems(2), of r] eq by auto
    then have "hd (clean \<sigma> xs) \<in> set xs"
      using set_clean [of \<sigma> xs] by (meson hd_in_set subsetD)
    then have "0 < top_price \<sigma> (clean \<sigma> xs)"
      using \<open>clean \<sigma> xs \<noteq> []\<close> blocked.prems(3) by (simp add: top_price_def)
    then show "\<not> crosses (price (\<sigma> r))"
      using blocked.hyps(2) mono [OF b] by auto
  qed
qed (auto simp: sweep_stop)

text \<open>An entry that is not on the side takes no part in a sweep.\<close>

definition set_remaining :: "nat \<Rightarrow> int \<Rightarrow> (nat \<Rightarrow> 'e entry_scheme) \<Rightarrow> nat \<Rightarrow> 'e entry_scheme" where
  "set_remaining r m \<sigma> = \<sigma>(r := (\<sigma> r)\<lparr>remaining := m\<rparr>)"

lemma set_remaining_same [simp]: "set_remaining r m \<sigma> r = (\<sigma> r)\<lparr>remaining := m\<rparr>"
  by (simp add: set_remaining_def)

lemma set_remaining_other [simp]: "a \<noteq> r \<Longrightarrow> set_remaining r m \<sigma> a = \<sigma> a"
  by (simp add: set_remaining_def)

lemma set_remaining_keys [simp]:
  "price (set_remaining r m \<sigma> a) = price (\<sigma> a)" "side (set_remaining r m \<sigma> a) = side (\<sigma> a)"
  "otype (set_remaining r m \<sigma> a) = otype (\<sigma> a)" "order_id (set_remaining r m \<sigma> a) = order_id (\<sigma> a)"
  "agent_id (set_remaining r m \<sigma> a) = agent_id (\<sigma> a)"
  by (simp_all add: set_remaining_def)

lemma same_keys_set_remaining [simp]: "same_keys \<sigma> (set_remaining r m \<sigma>)"
  by (simp add: same_keys_def set_remaining_def)

lemma set_remaining_twice [simp]: "set_remaining r m (set_remaining r n \<sigma>) = set_remaining r m \<sigma>"
  by (simp add: set_remaining_def)

lemma set_remaining_id [simp]: "set_remaining r (remaining (\<sigma> r)) \<sigma> = \<sigma>"
  by (simp add: set_remaining_def)

lemma prune_cong:
  "(\<And>x. x \<in> set xs \<Longrightarrow> d x = d' x) \<Longrightarrow> prune lt d xs = prune lt d' xs"
proof (induction xs rule: heap_list_induct [where dead = d and lt = lt])
  case (step xs)
  then have "d' (hd xs)" by simp
  moreover have "prune lt d (heappop_rest lt xs) = prune lt d' (heappop_rest lt xs)"
    using step set_heappop_rest [of lt xs] by blast
  ultimately show ?case using step by (simp add: prune_step)
next
  case (stop xs)
  then have "xs = [] \<or> \<not> d' (hd xs)" by (cases xs) auto
  with stop(1) show ?case by (simp add: prune_stop)
qed

lemma clean_other: "r \<notin> set xs \<Longrightarrow> clean (set_remaining r m \<sigma>) xs = clean \<sigma> xs"
  unfolding clean_def same_keys_ref_lt [OF same_keys_set_remaining]
  by (rule prune_cong) (auto simp: dead_def set_remaining_def)

lemma top_price_other [simp]: "top_price (set_remaining r m \<sigma>) xs = top_price \<sigma> xs"
  by (simp add: top_price_def)

lemma hit_commute: "a \<noteq> r \<Longrightarrow> hit (set_remaining r m \<sigma>) a q = set_remaining r m (hit \<sigma> a q)"
  by (auto simp: hit_def set_remaining_def)

lemma after_hit_other:
  "a \<noteq> r \<Longrightarrow> after_hit (set_remaining r m \<sigma>) a xs = after_hit \<sigma> a xs"
  by (simp add: after_hit_def same_keys_ref_lt [OF same_keys_set_remaining])

lemma set_after_hit: "set (after_hit \<sigma> a xs) \<subseteq> set xs"
  using set_heappop_rest [of "ref_lt \<sigma>" xs] by (simp add: after_hit_def)

lemma sweep_other:
  "sweep crosses \<sigma> xs rem = (\<sigma>', xs', rem', fills) \<Longrightarrow> r \<notin> set xs \<Longrightarrow>
   sweep crosses (set_remaining r m \<sigma>) xs rem = (set_remaining r m \<sigma>', xs', rem', fills)"
proof (induction \<sigma> xs rem arbitrary: fills rule: sweep_induct [where crosses = crosses])
  case (hit \<sigma> xs rem a q)
  let ?ys = "after_hit (hit \<sigma> a q) a (clean \<sigma> xs)"
  obtain fs where fs: "fills = (a, q) # fs" and
    rec: "sweep crosses (hit \<sigma> a q) ?ys (rem - q) = (\<sigma>', xs', rem', fs)"
    by (rule sweep_hitD [OF _ _ _ _ _ hit.prems(1)]) (rule hit.hyps)+
  have "clean \<sigma> xs \<noteq> []" using hit.hyps(2) by (auto simp: top_price_def)
  then have ar: "a \<noteq> r" using hit.hyps(4) hit.prems(2) set_clean [of \<sigma> xs] by (meson hd_in_set subsetD)
  have "r \<notin> set ?ys" using hit.prems(2) set_after_hit set_clean by fast
  from hit.IH [OF rec this] have
    "sweep crosses (hit (set_remaining r m \<sigma>) a q)
       (after_hit (hit (set_remaining r m \<sigma>) a q) a (clean (set_remaining r m \<sigma>) xs)) (rem - q)
     = (set_remaining r m \<sigma>', xs', rem', fs)"
    by (simp only: hit_commute [OF ar] after_hit_other [OF ar] clean_other [OF hit.prems(2)])
  then show ?case
    unfolding fs
    by (intro sweep_hit) (use hit.hyps ar in \<open>simp_all add: clean_other [OF hit.prems(2)]\<close>)
next
  case (blocked \<sigma> xs rem)
  then have "\<sigma>' = \<sigma> \<and> xs' = clean \<sigma> xs \<and> rem' = rem \<and> fills = []"
    using sweep_blocked [where crosses = crosses, OF blocked.hyps] by auto
  then show ?case
    using blocked.hyps by (simp add: sweep_blocked clean_other [OF blocked.prems(2)])
qed (auto simp: sweep_stop)

subsection \<open>Volume\<close>

lemma volume_push: "volume \<sigma> (heappush lt xs r) = volume \<sigma> xs + (if 0 < remaining (\<sigma> r) then remaining (\<sigma> r) else 0)"
  by (simp add: volume_mset)

lemma fills_sum: "(\<Sum>(a, q)\<leftarrow>fills. q) = sum_list (map snd fills)"
  by (simp add: case_prod_beta' comp_def)

lemma volume_cong:
  "(\<And>r. r \<in> set xs \<Longrightarrow> remaining (\<sigma>' r) = remaining (\<sigma> r)) \<Longrightarrow> volume \<sigma>' xs = volume \<sigma> xs"
  unfolding volume_def by (intro arg_cong [where f = sum_list] map_cong filter_cong) auto

lemma volume_Cons: "volume \<sigma> (x # xs) = max 0 (remaining (\<sigma> x)) + volume \<sigma> xs"
  by (simp add: volume_def)

lemma volume_Nil [simp]: "volume \<sigma> [] = 0"
  by (simp add: volume_def)

lemma volume_set_remaining:
  "distinct xs \<Longrightarrow> volume (set_remaining r 0 \<sigma>) xs =
     volume \<sigma> xs - (if r \<in> set xs then max 0 (remaining (\<sigma> r)) else 0)"
proof (induction xs)
  case (Cons x xs)
  then show ?case by (cases "x = r") (auto simp: volume_Cons)
qed simp

lemma volume_append [simp]: "volume \<sigma> (xs @ ys) = volume \<sigma> xs + volume \<sigma> ys"
  by (simp add: volume_def)

end
