(* ===== verification/Abm_Book.thy ===== *)
theory Abm_Book
  imports Book_Side
begin

text \<open>
  The agent-based market: the order book (\<open>backtesting/abm/order_book.py\<close>), the matching
  engine (\<open>backtesting/abm/matching_engine.py\<close>) and the environment's order entry points
  (\<open>backtesting/abm/environment.py\<close>). The two matching loops are translated as they are
  written and shown to be instances of \<open>sweep\<close>; conservation, price protection, price
  priority and the uncrossed book follow from that.
\<close>

subsection \<open>The order book\<close>

record trade =
  buy_order_id :: string
  sell_order_id :: string
  t_price :: pyfloat
  t_quantity :: int
  t_timestamp :: pytime
  buyer_id :: string
  seller_id :: string

record order_book =
  objs :: "nat \<Rightarrow> entry" \<comment> \<open>the entry objects, by reference\<close>
  fresh :: nat \<comment> \<open>the next unused reference\<close>
  bids :: "nat list"
  asks :: "nat list"
  trades :: "trade list"
  buy_map :: "(string, nat) pydict"
  sell_map :: "(string, nat) pydict"
  entry_id_counter :: nat

definition blank_entry :: entry where
  "blank_entry = \<lparr>order_id = [], side = BUY, price = 0, quantity = 0, remaining = 0,
     otype = LIMIT, timestamp = 0, agent_id = []\<rparr>"

definition empty_book :: order_book where
  "empty_book = \<lparr>objs = (\<lambda>_. blank_entry), fresh = 0, bids = [], asks = [], trades = [],
     buy_map = [], sell_map = [], entry_id_counter = 0\<rparr>"

definition clean_bids :: "order_book \<Rightarrow> order_book" where
  "clean_bids ob = ob\<lparr>bids := clean (objs ob) (bids ob)\<rparr>"

definition clean_asks :: "order_book \<Rightarrow> order_book" where
  "clean_asks ob = ob\<lparr>asks := clean (objs ob) (asks ob)\<rparr>"

definition best_bid :: "order_book \<Rightarrow> pyfloat \<times> order_book" where
  "best_bid ob =
     (let ob' = clean_bids ob
      in (if bids ob' = [] then 0 else price (objs ob' (hd (bids ob'))), ob'))"

definition best_ask :: "order_book \<Rightarrow> pyfloat \<times> order_book" where
  "best_ask ob =
     (let ob' = clean_asks ob
      in (if asks ob' = [] then 0 else price (objs ob' (hd (asks ob'))), ob'))"

definition bid_volume :: "order_book \<Rightarrow> int" where
  "bid_volume ob = volume (objs ob) (bids ob)"

definition ask_volume :: "order_book \<Rightarrow> int" where
  "ask_volume ob = volume (objs ob) (asks ob)"

definition last_price :: "order_book \<Rightarrow> pyfloat" where
  "last_price ob = (if trades ob = [] then 0 else t_price (last (trades ob)))"

definition spread :: "order_book \<Rightarrow> pyfloat \<times> order_book" where
  "spread ob =
     (let (bid, ob1) = best_bid ob; (ask, ob2) = best_ask ob1
      in (if bid > 0 \<and> ask > 0 then ask - bid else 0, ob2))"

definition midpoint :: "order_book \<Rightarrow> pyfloat \<times> order_book" where
  "midpoint ob =
     (let (bid, ob1) = best_bid ob; (ask, ob2) = best_ask ob1
      in (if bid > 0 \<and> ask > 0 then (bid + ask) / 2 else if bid \<noteq> 0 then bid else ask, ob2))"

definition add_order :: "nat \<Rightarrow> order_book \<Rightarrow> string \<times> order_book" where
  "add_order r ob =
     (let n = entry_id_counter ob + 1;
          oid = ''order_'' @ str_of_nat n;
          \<sigma> = (objs ob)(r := (objs ob r)\<lparr>order_id := oid\<rparr>);
          ob1 = ob\<lparr>entry_id_counter := n, objs := \<sigma>\<rparr>
      in (oid,
          if side (\<sigma> r) = BUY
          then ob1\<lparr>bids := heappush (ref_lt \<sigma>) (bids ob) r, buy_map := dict_set oid r (buy_map ob)\<rparr>
          else ob1\<lparr>asks := heappush (ref_lt \<sigma>) (asks ob) r, sell_map := dict_set oid r (sell_map ob)\<rparr>))"

definition remove_order :: "string \<Rightarrow> order_side \<Rightarrow> order_book \<Rightarrow> order_book" where
  "remove_order oid sd ob =
     (let target_map = (if sd = BUY then buy_map ob else sell_map ob)
      in case dict_get target_map oid of
           None \<Rightarrow> ob
         | Some r \<Rightarrow>
             (let ob1 = ob\<lparr>objs := set_remaining r 0 (objs ob)\<rparr>
              in if sd = BUY then ob1\<lparr>buy_map := dict_del oid (buy_map ob)\<rparr>
                 else ob1\<lparr>sell_map := dict_del oid (sell_map ob)\<rparr>))"

fun add_level :: "(nat \<Rightarrow> entry) \<Rightarrow> (pyfloat, int) pydict \<Rightarrow> nat \<Rightarrow> (pyfloat, int) pydict" where
  "add_level \<sigma> levels r =
     (if remaining (\<sigma> r) \<le> 0 then levels
      else dict_set (price (\<sigma> r)) (dict_get_or levels (price (\<sigma> r)) 0 + remaining (\<sigma> r)) levels)"

definition get_bids :: "nat \<Rightarrow> order_book \<Rightarrow> (pyfloat \<times> int) list" where
  "get_bids depth ob =
     take depth (sort_key (\<lambda>x. - fst x) (foldl (add_level (objs ob)) [] (bids ob)))"

definition get_asks :: "nat \<Rightarrow> order_book \<Rightarrow> (pyfloat \<times> int) list" where
  "get_asks depth ob =
     take depth (sort_key fst (foldl (add_level (objs ob)) [] (asks ob)))"

record snapshot_t =
  s_best_bid :: pyfloat
  s_best_ask :: pyfloat
  s_bid_volume :: int
  s_ask_volume :: int
  s_spread :: pyfloat
  s_midpoint :: pyfloat
  s_last_price :: pyfloat
  s_trade_count :: nat
  s_bids :: "(pyfloat \<times> int) list"
  s_asks :: "(pyfloat \<times> int) list"

definition snapshot :: "order_book \<Rightarrow> snapshot_t \<times> order_book" where
  "snapshot ob =
     (let (bb, ob1) = best_bid ob; (ba, ob2) = best_ask ob1; bv = bid_volume ob2; av = ask_volume ob2;
          (sp, ob3) = spread ob2; (mp, ob4) = midpoint ob3
      in (\<lparr>s_best_bid = bb, s_best_ask = ba, s_bid_volume = bv, s_ask_volume = av, s_spread = sp,
           s_midpoint = mp, s_last_price = last_price ob4, s_trade_count = length (trades ob4),
           s_bids = get_bids 5 ob4, s_asks = get_asks 5 ob4\<rparr>, ob4))"

definition reset :: "order_book \<Rightarrow> order_book" where
  "reset ob = ob\<lparr>bids := [], asks := [], trades := [], buy_map := [], sell_map := [],
     entry_id_counter := 0\<rparr>"

subsection \<open>The matching engine\<close>

definition mk_trade :: "pytime \<Rightarrow> entry \<Rightarrow> entry \<Rightarrow> pyfloat \<Rightarrow> int \<Rightarrow> trade" where
  "mk_trade now buy sell p q =
     \<lparr>buy_order_id = order_id buy, sell_order_id = order_id sell, t_price = p, t_quantity = q,
      t_timestamp = now, buyer_id = agent_id buy, seller_id = agent_id sell\<rparr>"

text \<open>
  \<open>clk n\<close> is the clock reading for the book's \<open>n\<close>-th trade. The test \<open>ask_entry.remaining \<le> 0\<close>
  is kept although \<open>best_ask\<close> has already popped what is dead.
\<close>

function match_buy :: "(nat \<Rightarrow> pytime) \<Rightarrow> nat \<Rightarrow> order_book \<Rightarrow> trade list \<Rightarrow> trade list \<times> order_book" where
  "match_buy clk r ob acc =
     (if remaining (objs ob r) \<le> 0 then (acc, ob)
      else let ob1 = snd (best_ask ob); ask = fst (best_ask ob); a = hd (asks ob1) in
        if ask \<le> 0 \<or> otype (objs ob1 r) = LIMIT \<and> ask > price (objs ob1 r) then (acc, ob1)
        else if asks ob1 = [] \<or> remaining (objs ob1 a) \<le> 0 then (acc, ob1)
        else let q = min (remaining (objs ob1 r)) (remaining (objs ob1 a));
                 t = mk_trade (clk (length (trades ob1))) (objs ob1 r) (objs ob1 a) (price (objs ob1 a)) q;
                 \<sigma> = hit (hit (objs ob1) r q) a q
             in match_buy clk r
                  (ob1\<lparr>objs := \<sigma>, asks := after_hit \<sigma> a (asks ob1), trades := trades ob1 @ [t]\<rparr>)
                  (acc @ [t]))"
  by pat_completeness auto

function match_sell :: "(nat \<Rightarrow> pytime) \<Rightarrow> nat \<Rightarrow> order_book \<Rightarrow> trade list \<Rightarrow> trade list \<times> order_book" where
  "match_sell clk r ob acc =
     (if remaining (objs ob r) \<le> 0 then (acc, ob)
      else let ob1 = snd (best_bid ob); bid = fst (best_bid ob); b = hd (bids ob1) in
        if bid \<le> 0 \<or> otype (objs ob1 r) = LIMIT \<and> bid < price (objs ob1 r) then (acc, ob1)
        else if bids ob1 = [] \<or> remaining (objs ob1 b) \<le> 0 then (acc, ob1)
        else let q = min (remaining (objs ob1 r)) (remaining (objs ob1 b));
                 t = mk_trade (clk (length (trades ob1))) (objs ob1 b) (objs ob1 r) (price (objs ob1 b)) q;
                 \<sigma> = hit (hit (objs ob1) r q) b q
             in match_sell clk r
                  (ob1\<lparr>objs := \<sigma>, bids := after_hit \<sigma> b (bids ob1), trades := trades ob1 @ [t]\<rparr>)
                  (acc @ [t]))"
  by pat_completeness auto

lemma hits_decrease:
  fixes \<sigma> :: "nat \<Rightarrow> 'e entry_scheme"
  assumes "ys = clean \<sigma> xs" and "ys \<noteq> []" and "\<not> remaining (\<sigma> (hd ys)) \<le> 0" and "\<not> remaining (\<sigma> r) \<le> 0"
    and "q = min (remaining (\<sigma> r)) (remaining (\<sigma> (hd ys)))" and "\<tau> = hit (hit \<sigma> r q) (hd ys) q"
  shows "length (after_hit \<tau> (hd ys) ys) + (if 0 < remaining (\<tau> r) then 1 else 0) < Suc (length xs)"
proof -
  obtain n where n: "length ys = Suc n" using assms(2) by (cases ys) auto
  have "Suc n \<le> length xs" using length_clean [of \<sigma> xs] assms(1) n by simp
  then show ?thesis
    using n assms(3-6) by (cases "hd ys = r") (auto simp: after_hit_def)
qed

termination match_buy
proof (relation "measure (\<lambda>(clk, r, ob, acc). length (asks ob) + (if 0 < remaining (objs ob r) then 1 else 0))", goal_cases)
  case (2 clk r ob acc ob1 ask a q t \<sigma>)
  show ?case
    using hits_decrease [of "asks ob1" "objs ob" "asks ob" r q \<sigma>] 2
    by (auto simp: best_ask_def clean_asks_def Let_def)
qed simp

termination match_sell
proof (relation "measure (\<lambda>(clk, r, ob, acc). length (bids ob) + (if 0 < remaining (objs ob r) then 1 else 0))", goal_cases)
  case (2 clk r ob acc ob1 bid b q t \<sigma>)
  show ?case
    using hits_decrease [of "bids ob1" "objs ob" "bids ob" r q \<sigma>] 2
    by (auto simp: best_bid_def clean_bids_def Let_def)
qed simp

declare match_buy.simps [simp del] match_sell.simps [simp del]

definition match_order :: "(nat \<Rightarrow> pytime) \<Rightarrow> nat \<Rightarrow> order_book \<Rightarrow> trade list \<times> order_book" where
  "match_order clk r ob = (if side (objs ob r) = BUY then match_buy clk r ob [] else match_sell clk r ob [])"

subsection \<open>The environment\<close>

record environment =
  orderbook :: order_book
  price_history :: "pyfloat list"

definition parse_side :: "string \<Rightarrow> py_error + order_side" where
  "parse_side s =
     (if py_upper s = ''BUY'' then Inr BUY else if py_upper s = ''SELL'' then Inr SELL else Inl ValueError)"

definition parse_type :: "string \<Rightarrow> py_error + order_type" where
  "parse_type s =
     (if py_upper s = ''MARKET'' then Inr MARKET else if py_upper s = ''LIMIT'' then Inr LIMIT
      else Inl ValueError)"

definition submit_entry :: "(nat \<Rightarrow> pytime) \<Rightarrow> entry \<Rightarrow> environment \<Rightarrow> trade list \<times> environment" where
  \<comment> \<open>\<open>submit_order\<close> once the entry object exists\<close>
  "submit_entry clk e env =
     (let ob = orderbook env; r = fresh ob;
          ob0 = ob\<lparr>objs := (objs ob)(r := e), fresh := r + 1\<rparr>;
          (ts, ob1) = match_order clk r ob0;
          ob2 = (if 0 < remaining (objs ob1 r) \<and> otype (objs ob1 r) = LIMIT then snd (add_order r ob1) else ob1);
          hist = (if ts = [] then price_history env else price_history env @ [t_price (last ts)])
      in (ts, \<lparr>orderbook = ob2, price_history = hist\<rparr>))"

definition submit_order ::
  "(nat \<Rightarrow> pytime) \<Rightarrow> pytime \<Rightarrow> string \<Rightarrow> pyfloat \<Rightarrow> int \<Rightarrow> string \<Rightarrow> string \<Rightarrow> environment \<Rightarrow>
     py_error + trade list \<times> environment" where
  "submit_order clk now sd p q ot ag env =
     (case parse_side sd of
        Inl err \<Rightarrow> Inl err
      | Inr s \<Rightarrow>
          (case parse_type ot of
             Inl err \<Rightarrow> Inl err
           | Inr t \<Rightarrow>
               Inr (submit_entry clk
                 (post_init \<lparr>order_id = [], side = s, price = p, quantity = q, remaining = 0,
                    otype = t, timestamp = now, agent_id = ag\<rparr>) env)))"

definition submit_market_order ::
  "(nat \<Rightarrow> pytime) \<Rightarrow> pytime \<Rightarrow> string \<Rightarrow> int \<Rightarrow> string \<Rightarrow> environment \<Rightarrow>
     py_error + trade list \<times> environment" where
  "submit_market_order clk now sd q ag env =
     (let (p, ob) = (if py_upper sd = ''BUY'' then best_ask (orderbook env) else best_bid (orderbook env));
          env' = env\<lparr>orderbook := ob\<rparr>
      in if p \<le> 0 then Inr ([], env') else submit_order clk now sd p q ''MARKET'' ag env')"

definition cancel_order :: "string \<Rightarrow> string \<Rightarrow> environment \<Rightarrow> py_error + environment" where
  "cancel_order oid sd env =
     (case parse_side sd of
        Inl err \<Rightarrow> Inl err
      | Inr s \<Rightarrow> Inr (env\<lparr>orderbook := remove_order oid s (orderbook env)\<rparr>))"

definition env_reset :: "environment \<Rightarrow> environment" where
  "env_reset env = \<lparr>orderbook = reset (orderbook env), price_history = []\<rparr>"

definition env_init :: environment where
  "env_init = \<lparr>orderbook = empty_book, price_history = []\<rparr>"

end
