(* ===== verification/Abm_Matching.thy ===== *)
theory Abm_Matching
  imports Abm_Book
begin

text \<open>
  What the agent-based market guarantees. The two matching loops are shown to be \<open>sweep\<close> on
  the opposite side of the book; the invariant \<open>book_ok\<close> is preserved by every operation of
  the environment, and a book that only the environment has touched is never crossed.
\<close>

subsection \<open>The matching loops as sweeps\<close>

definition buys_at :: "entry \<Rightarrow> pyfloat \<Rightarrow> bool" where
  "buys_at e p \<longleftrightarrow> \<not> (otype e = LIMIT \<and> p > price e)"

definition sells_at :: "entry \<Rightarrow> pyfloat \<Rightarrow> bool" where
  "sells_at e p \<longleftrightarrow> \<not> (otype e = LIMIT \<and> p < price e)"

primrec buy_trades :: "(nat \<Rightarrow> pytime) \<Rightarrow> nat \<Rightarrow> (nat \<Rightarrow> entry) \<Rightarrow> nat \<Rightarrow> (nat \<times> int) list \<Rightarrow> trade list" where
  "buy_trades clk n \<sigma> r [] = []"
| "buy_trades clk n \<sigma> r (f # fs) =
     mk_trade (clk n) (\<sigma> r) (\<sigma> (fst f)) (price (\<sigma> (fst f))) (snd f) # buy_trades clk (Suc n) \<sigma> r fs"

primrec sell_trades :: "(nat \<Rightarrow> pytime) \<Rightarrow> nat \<Rightarrow> (nat \<Rightarrow> entry) \<Rightarrow> nat \<Rightarrow> (nat \<times> int) list \<Rightarrow> trade list" where
  "sell_trades clk n \<sigma> r [] = []"
| "sell_trades clk n \<sigma> r (f # fs) =
     mk_trade (clk n) (\<sigma> (fst f)) (\<sigma> r) (price (\<sigma> (fst f))) (snd f) # sell_trades clk (Suc n) \<sigma> r fs"

lemma hit_labels [simp]:
  "price (hit \<sigma> a q r) = price (\<sigma> r)" "order_id (hit \<sigma> a q r) = order_id (\<sigma> r)"
  "agent_id (hit \<sigma> a q r) = agent_id (\<sigma> r)" "side (hit \<sigma> a q r) = side (\<sigma> r)"
  "otype (hit \<sigma> a q r) = otype (\<sigma> r)"
  by (simp_all add: hit_def)

lemma buy_trades_hit: "buy_trades clk n (hit \<sigma> a q) r fs = buy_trades clk n \<sigma> r fs"
  by (induction fs arbitrary: n) (auto simp: mk_trade_def)

lemma sell_trades_hit: "sell_trades clk n (hit \<sigma> a q) r fs = sell_trades clk n \<sigma> r fs"
  by (induction fs arbitrary: n) (auto simp: mk_trade_def)

lemma trades_of_fills:
  "map t_quantity (buy_trades clk n \<sigma> r fs) = map snd fs"
  "map t_quantity (sell_trades clk n \<sigma> r fs) = map snd fs"
  "map t_price (buy_trades clk n \<sigma> r fs) = map (\<lambda>(a, q). price (\<sigma> a)) fs"
  "map t_price (sell_trades clk n \<sigma> r fs) = map (\<lambda>(a, q). price (\<sigma> a)) fs"
  by (induction fs arbitrary: n) (auto simp: mk_trade_def)

lemma best_ask_eq:
  "best_ask ob = (top_price (objs ob) (clean (objs ob) (asks ob)), ob\<lparr>asks := clean (objs ob) (asks ob)\<rparr>)"
  by (simp add: best_ask_def clean_asks_def Let_def top_price_def)

lemma best_bid_eq:
  "best_bid ob = (top_price (objs ob) (clean (objs ob) (bids ob)), ob\<lparr>bids := clean (objs ob) (bids ob)\<rparr>)"
  by (simp add: best_bid_def clean_bids_def Let_def top_price_def)

lemma hit_set_remaining: "hit (set_remaining r m \<sigma>) r q = set_remaining r (m - q) \<sigma>"
  by (simp add: hit_def set_remaining_def)

lemma top_price_pos: "0 < top_price \<sigma> xs \<Longrightarrow> xs \<noteq> []"
  by (auto simp: top_price_def)

lemma match_buy_step:
  assumes "0 < remaining (objs ob r)" and "xs = clean (objs ob) (asks ob)"
    and "0 < top_price (objs ob) xs" and "buys_at (objs ob r) (top_price (objs ob) xs)"
    and "a = hd xs" and "q = min (remaining (objs ob r)) (remaining (objs ob a))"
    and "t = mk_trade (clk (length (trades ob))) (objs ob r) (objs ob a) (price (objs ob a)) q"
    and "\<sigma> = hit (hit (objs ob) r q) a q"
  shows "match_buy clk r ob acc =
    match_buy clk r (ob\<lparr>objs := \<sigma>, asks := after_hit \<sigma> a xs, trades := trades ob @ [t]\<rparr>) (acc @ [t])"
proof -
  have "xs \<noteq> []" and "0 < remaining (objs ob a)"
    using assms(2,3,5) top_price_pos clean_head by blast+
  then show ?thesis
    using assms by (subst match_buy.simps) (auto simp: best_ask_eq Let_def buys_at_def not_le)
qed

lemma match_sell_step:
  assumes "0 < remaining (objs ob r)" and "xs = clean (objs ob) (bids ob)"
    and "0 < top_price (objs ob) xs" and "sells_at (objs ob r) (top_price (objs ob) xs)"
    and "a = hd xs" and "q = min (remaining (objs ob r)) (remaining (objs ob a))"
    and "t = mk_trade (clk (length (trades ob))) (objs ob a) (objs ob r) (price (objs ob a)) q"
    and "\<sigma> = hit (hit (objs ob) r q) a q"
  shows "match_sell clk r ob acc =
    match_sell clk r (ob\<lparr>objs := \<sigma>, bids := after_hit \<sigma> a xs, trades := trades ob @ [t]\<rparr>) (acc @ [t])"
proof -
  have "xs \<noteq> []" and "0 < remaining (objs ob a)"
    using assms(2,3,5) top_price_pos clean_head by blast+
  then show ?thesis
    using assms by (subst match_sell.simps) (auto simp: best_bid_eq Let_def sells_at_def not_le)
qed

lemma match_buy_sweep:
  "sweep (buys_at (\<sigma> r)) \<sigma> xs m = (\<sigma>', xs', m', fills) \<Longrightarrow> r \<notin> set xs \<Longrightarrow>
   objs ob = set_remaining r m \<sigma> \<Longrightarrow> asks ob = xs \<Longrightarrow> e = \<sigma> r \<Longrightarrow>
   match_buy clk r ob acc =
     (acc @ buy_trades clk (length (trades ob)) \<sigma> r fills,
      ob\<lparr>objs := set_remaining r m' \<sigma>', asks := xs',
         trades := trades ob @ buy_trades clk (length (trades ob)) \<sigma> r fills\<rparr>)"
proof (induction \<sigma> xs m arbitrary: ob acc fills rule: sweep_induct [where crosses = "buys_at e"])
  case (stop \<sigma> xs m)
  then show ?case by (subst match_buy.simps) (auto simp: sweep_stop)
next
  case (blocked \<sigma> xs m)
  then have "\<sigma>' = \<sigma> \<and> xs' = clean \<sigma> xs \<and> m' = m \<and> fills = []"
    using sweep_blocked [where crosses = "buys_at e", OF blocked.hyps] by auto
  then show ?case
    using blocked by (subst match_buy.simps) (auto simp: best_ask_eq clean_other buys_at_def)
next
  case (hit \<sigma> xs m a q)
  let ?ys = "after_hit (hit \<sigma> a q) a (clean \<sigma> xs)"
  obtain fs where fs: "fills = (a, q) # fs" and
    rec: "sweep (buys_at e) (hit \<sigma> a q) ?ys (m - q) = (\<sigma>', xs', m', fs)"
    by (rule sweep_hitD [OF hit.hyps hit.prems(1) [folded hit.prems(5)]])
  have ne: "clean \<sigma> xs \<noteq> []" using hit.hyps(2) by (rule top_price_pos)
  then have ar: "a \<noteq> r" using hit.hyps(4) hit.prems(2) set_clean [of \<sigma> xs] by (meson hd_in_set subsetD)
  have notin: "r \<notin> set ?ys" using hit.prems(2) set_after_hit set_clean by fast
  have ba: "buys_at (set_remaining r m \<sigma> r) = buys_at e" and er: "e = hit \<sigma> a q r"
    using hit.prems(5) ar by (auto simp: buys_at_def fun_eq_iff)
  let ?t = "mk_trade (clk (length (trades ob))) (\<sigma> r) (\<sigma> a) (price (\<sigma> a)) q"
  have step: "match_buy clk r ob acc = match_buy clk r
      (ob\<lparr>objs := set_remaining r (m - q) (hit \<sigma> a q), asks := ?ys, trades := trades ob @ [?t]\<rparr>) (acc @ [?t])"
    by (rule match_buy_step [THEN trans, OF _ refl _ _ refl refl refl refl])
      (use hit.hyps hit.prems ba ar in
        \<open>simp_all add: clean_other hit_set_remaining hit_commute after_hit_other mk_trade_def\<close>)
  show ?case
    unfolding step fs
    by (subst hit.IH [OF rec [unfolded er] notin _ _ er])
      (simp_all add: buy_trades_hit)
qed

lemma match_sell_sweep:
  "sweep (sells_at (\<sigma> r)) \<sigma> xs m = (\<sigma>', xs', m', fills) \<Longrightarrow> r \<notin> set xs \<Longrightarrow>
   objs ob = set_remaining r m \<sigma> \<Longrightarrow> bids ob = xs \<Longrightarrow> e = \<sigma> r \<Longrightarrow>
   match_sell clk r ob acc =
     (acc @ sell_trades clk (length (trades ob)) \<sigma> r fills,
      ob\<lparr>objs := set_remaining r m' \<sigma>', bids := xs',
         trades := trades ob @ sell_trades clk (length (trades ob)) \<sigma> r fills\<rparr>)"
proof (induction \<sigma> xs m arbitrary: ob acc fills rule: sweep_induct [where crosses = "sells_at e"])
  case (stop \<sigma> xs m)
  then show ?case by (subst match_sell.simps) (auto simp: sweep_stop)
next
  case (blocked \<sigma> xs m)
  then have "\<sigma>' = \<sigma> \<and> xs' = clean \<sigma> xs \<and> m' = m \<and> fills = []"
    using sweep_blocked [where crosses = "sells_at e", OF blocked.hyps] by auto
  then show ?case
    using blocked by (subst match_sell.simps) (auto simp: best_bid_eq clean_other sells_at_def)
next
  case (hit \<sigma> xs m a q)
  let ?ys = "after_hit (hit \<sigma> a q) a (clean \<sigma> xs)"
  obtain fs where fs: "fills = (a, q) # fs" and
    rec: "sweep (sells_at e) (hit \<sigma> a q) ?ys (m - q) = (\<sigma>', xs', m', fs)"
    by (rule sweep_hitD [OF hit.hyps hit.prems(1) [folded hit.prems(5)]])
  have ne: "clean \<sigma> xs \<noteq> []" using hit.hyps(2) by (rule top_price_pos)
  then have ar: "a \<noteq> r" using hit.hyps(4) hit.prems(2) set_clean [of \<sigma> xs] by (meson hd_in_set subsetD)
  have notin: "r \<notin> set ?ys" using hit.prems(2) set_after_hit set_clean by fast
  have ba: "sells_at (set_remaining r m \<sigma> r) = sells_at e" and er: "e = hit \<sigma> a q r"
    using hit.prems(5) ar by (auto simp: sells_at_def fun_eq_iff)
  let ?t = "mk_trade (clk (length (trades ob))) (\<sigma> a) (\<sigma> r) (price (\<sigma> a)) q"
  have step: "match_sell clk r ob acc = match_sell clk r
      (ob\<lparr>objs := set_remaining r (m - q) (hit \<sigma> a q), bids := ?ys, trades := trades ob @ [?t]\<rparr>) (acc @ [?t])"
    by (rule match_sell_step [THEN trans, OF _ refl _ _ refl refl refl refl])
      (use hit.hyps hit.prems ba ar in
        \<open>simp_all add: clean_other hit_set_remaining hit_commute after_hit_other mk_trade_def\<close>)
  show ?case
    unfolding step fs
    by (subst hit.IH [OF rec [unfolded er] notin _ _ er])
      (simp_all add: sell_trades_hit)
qed

lemmas sweep_facts = sweep_frame sweep_amounts sweep_priority

text \<open>The two loops, from the point of view of an order that is not in the book.\<close>

lemma match_buy_cases:
  assumes "r \<notin> set (asks ob)" and "match_buy clk r ob [] = (ts, ob')"
  obtains \<sigma>' xs' m' fills where
    "sweep (buys_at (objs ob r)) (objs ob) (asks ob) (remaining (objs ob r)) = (\<sigma>', xs', m', fills)"
    "ts = buy_trades clk (length (trades ob)) (objs ob) r fills"
    "ob' = ob\<lparr>objs := set_remaining r m' \<sigma>', asks := xs', trades := trades ob @ ts\<rparr>"
proof -
  obtain \<sigma>' xs' m' fills where
    sw: "sweep (buys_at (objs ob r)) (objs ob) (asks ob) (remaining (objs ob r)) = (\<sigma>', xs', m', fills)"
    using prod_cases4 by blast
  from match_buy_sweep [OF sw assms(1) _ refl refl, of clk "[]"] assms(2) that [OF sw] show ?thesis
    by simp
qed

lemma match_sell_cases:
  assumes "r \<notin> set (bids ob)" and "match_sell clk r ob [] = (ts, ob')"
  obtains \<sigma>' xs' m' fills where
    "sweep (sells_at (objs ob r)) (objs ob) (bids ob) (remaining (objs ob r)) = (\<sigma>', xs', m', fills)"
    "ts = sell_trades clk (length (trades ob)) (objs ob) r fills"
    "ob' = ob\<lparr>objs := set_remaining r m' \<sigma>', bids := xs', trades := trades ob @ ts\<rparr>"
proof -
  obtain \<sigma>' xs' m' fills where
    sw: "sweep (sells_at (objs ob r)) (objs ob) (bids ob) (remaining (objs ob r)) = (\<sigma>', xs', m', fills)"
    using prod_cases4 by blast
  from match_sell_sweep [OF sw assms(1) _ refl refl, of clk "[]"] assms(2) that [OF sw] show ?thesis
    by simp
qed

subsection \<open>The book invariant\<close>

definition map_ok :: "order_side \<Rightarrow> order_book \<Rightarrow> (string, nat) pydict \<Rightarrow> nat list \<Rightarrow> bool" where
  \<comment> \<open>the index of a side: a live entry it names is on that side\<close>
  "map_ok s ob m xs \<longleftrightarrow>
     (\<forall>(k, r) \<in> set m. r < fresh ob \<and> side (objs ob r) = s \<and> (0 < remaining (objs ob r) \<longrightarrow> r \<in> set xs))"

definition book_ok :: "order_book \<Rightarrow> bool" where
  "book_ok ob \<longleftrightarrow>
     side_inv BUY (objs ob) (bids ob) \<and> side_inv SELL (objs ob) (asks ob)
     \<and> (\<forall>r \<in> set (bids ob) \<union> set (asks ob). r < fresh ob \<and> 0 < price (objs ob r))
     \<and> map_ok BUY ob (buy_map ob) (bids ob) \<and> map_ok SELL ob (sell_map ob) (asks ob)"

definition uncrossed :: "order_book \<Rightarrow> bool" where
  "uncrossed ob \<longleftrightarrow>
     (\<forall>b \<in> set (bids ob). \<forall>a \<in> set (asks ob).
        0 < remaining (objs ob b) \<longrightarrow> 0 < remaining (objs ob a) \<longrightarrow> price (objs ob b) < price (objs ob a))"

text \<open>
  \<open>shrinks\<close> is what a query, a match or a cancel may do to a book: only \<open>remaining\<close> changes,
  downwards for what was live, and only dead entries leave the two heaps.
\<close>

definition shrinks :: "order_book \<Rightarrow> order_book \<Rightarrow> bool" where
  "shrinks ob ob' \<longleftrightarrow>
     same_keys (objs ob) (objs ob') \<and> fresh ob' = fresh ob
     \<and> side_inv BUY (objs ob') (bids ob') \<and> side_inv SELL (objs ob') (asks ob')
     \<and> set (bids ob') \<subseteq> set (bids ob) \<and> set (asks ob') \<subseteq> set (asks ob)
     \<and> (\<forall>r. 0 < remaining (objs ob' r) \<longrightarrow> 0 < remaining (objs ob r)
          \<and> (r \<in> set (bids ob) \<longrightarrow> r \<in> set (bids ob')) \<and> (r \<in> set (asks ob) \<longrightarrow> r \<in> set (asks ob')))
     \<and> set (buy_map ob') \<subseteq> set (buy_map ob) \<and> set (sell_map ob') \<subseteq> set (sell_map ob)"

lemma shrinksD:
  assumes "shrinks ob ob'"
  shows "price (objs ob' r) = price (objs ob r)" "side (objs ob' r) = side (objs ob r)" "fresh ob' = fresh ob"
    "side_inv BUY (objs ob') (bids ob')" "side_inv SELL (objs ob') (asks ob')"
    "r \<in> set (bids ob') \<Longrightarrow> r \<in> set (bids ob)" "r \<in> set (asks ob') \<Longrightarrow> r \<in> set (asks ob)"
    "0 < remaining (objs ob' r) \<Longrightarrow> 0 < remaining (objs ob r)"
    "0 < remaining (objs ob' r) \<Longrightarrow> r \<in> set (bids ob) \<Longrightarrow> r \<in> set (bids ob')"
    "0 < remaining (objs ob' r) \<Longrightarrow> r \<in> set (asks ob) \<Longrightarrow> r \<in> set (asks ob')"
    "p \<in> set (buy_map ob') \<Longrightarrow> p \<in> set (buy_map ob)" "p \<in> set (sell_map ob') \<Longrightarrow> p \<in> set (sell_map ob)"
  using assms unfolding shrinks_def same_keys_def by blast+

lemma map_okD:
  assumes "map_ok s ob m xs" and "(k, r) \<in> set m"
  shows "r < fresh ob" "side (objs ob r) = s" "0 < remaining (objs ob r) \<Longrightarrow> r \<in> set xs"
  using assms by (auto simp: map_ok_def)

lemma map_okI:
  assumes "\<And>k r. (k, r) \<in> set m \<Longrightarrow> r < fresh ob" and "\<And>k r. (k, r) \<in> set m \<Longrightarrow> side (objs ob r) = s"
    and "\<And>k r. (k, r) \<in> set m \<Longrightarrow> 0 < remaining (objs ob r) \<Longrightarrow> r \<in> set xs"
  shows "map_ok s ob m xs"
  using assms by (auto simp: map_ok_def)

lemma book_okD:
  assumes "book_ok ob"
  shows "side_inv BUY (objs ob) (bids ob)" "side_inv SELL (objs ob) (asks ob)"
    "r \<in> set (bids ob) \<Longrightarrow> r < fresh ob" "r \<in> set (asks ob) \<Longrightarrow> r < fresh ob"
    "r \<in> set (bids ob) \<Longrightarrow> 0 < price (objs ob r)" "r \<in> set (asks ob) \<Longrightarrow> 0 < price (objs ob r)"
    "map_ok BUY ob (buy_map ob) (bids ob)" "map_ok SELL ob (sell_map ob) (asks ob)"
  using assms by (auto simp: book_ok_def)

lemma book_okI:
  assumes "side_inv BUY (objs ob) (bids ob)" "side_inv SELL (objs ob) (asks ob)"
    "\<And>r. r \<in> set (bids ob) \<Longrightarrow> r < fresh ob \<and> 0 < price (objs ob r)"
    "\<And>r. r \<in> set (asks ob) \<Longrightarrow> r < fresh ob \<and> 0 < price (objs ob r)"
    "map_ok BUY ob (buy_map ob) (bids ob)" "map_ok SELL ob (sell_map ob) (asks ob)"
  shows "book_ok ob"
  using assms by (auto simp: book_ok_def)

lemma uncrossedD:
  "uncrossed ob \<Longrightarrow> b \<in> set (bids ob) \<Longrightarrow> a \<in> set (asks ob) \<Longrightarrow> 0 < remaining (objs ob b) \<Longrightarrow>
   0 < remaining (objs ob a) \<Longrightarrow> price (objs ob b) < price (objs ob a)"
  by (simp add: uncrossed_def)

lemma shrinks_ok:
  assumes s: "shrinks ob ob'" and b: "book_ok ob"
  shows "book_ok ob'"
proof (rule book_okI)
  note d = shrinksD [OF s] and m = book_okD(7,8) [OF b]
  show "map_ok BUY ob' (buy_map ob') (bids ob')"
  proof (rule map_okI)
    fix k r assume "(k, r) \<in> set (buy_map ob')"
    from map_okD [OF m(1) d(11) [OF this]]
    show "r < fresh ob'" and "side (objs ob' r) = BUY" and "0 < remaining (objs ob' r) \<Longrightarrow> r \<in> set (bids ob')"
      unfolding d(1-3) by (simp_all add: d(8,9))
  qed
  show "map_ok SELL ob' (sell_map ob') (asks ob')"
  proof (rule map_okI)
    fix k r assume "(k, r) \<in> set (sell_map ob')"
    from map_okD [OF m(2) d(12) [OF this]]
    show "r < fresh ob'" and "side (objs ob' r) = SELL" and "0 < remaining (objs ob' r) \<Longrightarrow> r \<in> set (asks ob')"
      unfolding d(1-3) by (simp_all add: d(8,10))
  qed
  show "r < fresh ob' \<and> 0 < price (objs ob' r)" if "r \<in> set (bids ob')" for r
    using book_okD(3,5) [OF b d(6) [OF that]] unfolding d(1-3) by simp
  show "r < fresh ob' \<and> 0 < price (objs ob' r)" if "r \<in> set (asks ob')" for r
    using book_okD(4,6) [OF b d(7) [OF that]] unfolding d(1-3) by simp
qed (rule shrinksD [OF s])+

lemma shrinks_uncrossed:
  assumes s: "shrinks ob ob'" and u: "uncrossed ob"
  shows "uncrossed ob'"
  unfolding uncrossed_def shrinksD(1) [OF s]
  by (intro ballI impI uncrossedD [OF u] shrinksD(6-8) [OF s])

lemma shrinks_best_ask: "book_ok ob \<Longrightarrow> shrinks ob (snd (best_ask ob))"
  using set_clean [of "objs ob" "asks ob"]
  by (auto simp: shrinks_def best_ask_eq book_ok_def side_inv_clean clean_live)

lemma shrinks_best_bid: "book_ok ob \<Longrightarrow> shrinks ob (snd (best_bid ob))"
  using set_clean [of "objs ob" "bids ob"]
  by (auto simp: shrinks_def best_bid_eq book_ok_def side_inv_clean clean_live)


lemma same_keysD:
  assumes "same_keys \<sigma> \<sigma>'"
  shows "price (\<sigma>' r) = price (\<sigma> r)" "side (\<sigma>' r) = side (\<sigma> r)"
  using assms by (simp_all add: same_keys_def)

text \<open>Matching: what the order that arrives leaves behind.\<close>

lemma match_buy_effect:
  assumes ok: "book_ok ob" and r: "r \<notin> set (bids ob)" "r \<notin> set (asks ob)"
    and m: "match_buy clk r ob [] = (ts, ob')"
  shows "shrinks ob ob'" and "objs ob' r = (objs ob r)\<lparr>remaining := remaining (objs ob' r)\<rparr>"
    and "otype (objs ob r) = LIMIT \<Longrightarrow> 0 < remaining (objs ob' r) \<Longrightarrow> a \<in> set (asks ob') \<Longrightarrow>
      0 < remaining (objs ob' a) \<Longrightarrow> price (objs ob r) < price (objs ob' a)"
    and "bids ob' = bids ob" and "buy_map ob' = buy_map ob" and "sell_map ob' = sell_map ob"
proof -
  obtain \<sigma>' xs' m' fills where
    sw: "sweep (buys_at (objs ob r)) (objs ob) (asks ob) (remaining (objs ob r)) = (\<sigma>', xs', m', fills)" and
    ob': "ob' = ob\<lparr>objs := set_remaining r m' \<sigma>', asks := xs', trades := trades ob @ ts\<rparr>"
    using match_buy_cases [OF r(2) m] by metis
  note inv = book_okD(1,2) [OF ok]
  note fr = sweep_frame [OF sw inv(2), THEN conjunct1] sweep_frame [OF sw inv(2)]
  have keys: "same_keys (objs ob) (set_remaining r m' \<sigma>')"
    using same_keys_trans [OF fr(1) same_keys_set_remaining] .
  have out: "\<sigma>' b = objs ob b" if "b \<notin> set (asks ob)" for b
    using fr(2) that by blast
  have le: "m' \<le> remaining (objs ob r)"
  proof (cases "0 < remaining (objs ob r)")
    case True
    then show ?thesis
      using sweep_amounts [OF sw inv(2)] sum_list_nonneg [of "map snd fills"]
      by (force simp: case_prod_beta' dest: less_imp_le)
  next
    case False
    with sw show ?thesis by (auto simp: sweep_stop)
  qed
  have live: "0 < remaining (objs ob b)" if "0 < remaining (set_remaining r m' \<sigma>' b)" for b
    using that le fr(2) by (cases "b = r") (auto intro: less_le_trans)
  have keep: "b \<in> set xs'" if "b \<in> set (asks ob)" "0 < remaining (set_remaining r m' \<sigma>' b)" for b
    using that fr(2) r by (cases "b = r") auto
  have sd: "side_inv BUY (set_remaining r m' \<sigma>') (bids ob)" "side_inv SELL (set_remaining r m' \<sigma>') xs'"
    using inv fr(2) by (simp_all add: side_inv_same_keys [OF keys] side_inv_same_keys [OF same_keys_set_remaining]
        side_inv_same_keys [OF fr(1)])
  show "shrinks ob ob'"
    unfolding shrinks_def ob' using keys live keep sd fr(2) inv by auto
  show "objs ob' r = (objs ob r)\<lparr>remaining := remaining (objs ob' r)\<rparr>"
    using out [OF r(2)] by (simp add: ob')
  show "bids ob' = bids ob" and "buy_map ob' = buy_map ob" and "sell_map ob' = sell_map ob"
    by (simp_all add: ob')
  assume lim: "otype (objs ob r) = LIMIT" "0 < remaining (objs ob' r)"
    and a: "a \<in> set (asks ob')" "0 < remaining (objs ob' a)"
  have mem: "a \<in> set (asks ob)" using a(1) fr(2) by (auto simp: ob')
  then have "a \<noteq> r" using r(2) by auto
  have "\<forall>a \<in> set (asks ob). 0 < remaining (\<sigma>' a) \<longrightarrow> \<not> buys_at (objs ob r) (price (objs ob a))"
    by (rule sweep_exhausts [where s = SELL, OF _ sw inv(2)])
      (use lim book_okD(6) [OF ok] in \<open>auto simp: better_def buys_at_def ob'\<close>)
  then have "price (objs ob r) < price (objs ob a)"
    using mem a(2) \<open>a \<noteq> r\<close> lim(1) by (auto simp: buys_at_def ob')
  then show "price (objs ob r) < price (objs ob' a)"
    using same_keysD(1) [OF keys] by (simp add: ob')
qed


lemma match_sell_effect:
  assumes ok: "book_ok ob" and r: "r \<notin> set (asks ob)" "r \<notin> set (bids ob)"
    and m: "match_sell clk r ob [] = (ts, ob')"
  shows "shrinks ob ob'" and "objs ob' r = (objs ob r)\<lparr>remaining := remaining (objs ob' r)\<rparr>"
    and "otype (objs ob r) = LIMIT \<Longrightarrow> 0 < remaining (objs ob' r) \<Longrightarrow> a \<in> set (bids ob') \<Longrightarrow>
      0 < remaining (objs ob' a) \<Longrightarrow> price (objs ob' a) < price (objs ob r)"
    and "asks ob' = asks ob" and "buy_map ob' = buy_map ob" and "sell_map ob' = sell_map ob"
proof -
  obtain \<sigma>' xs' m' fills where
    sw: "sweep (sells_at (objs ob r)) (objs ob) (bids ob) (remaining (objs ob r)) = (\<sigma>', xs', m', fills)" and
    ob': "ob' = ob\<lparr>objs := set_remaining r m' \<sigma>', bids := xs', trades := trades ob @ ts\<rparr>"
    using match_sell_cases [OF r(2) m] by metis
  note inv = book_okD(1,2) [OF ok]
  note fr = sweep_frame [OF sw inv(1), THEN conjunct1] sweep_frame [OF sw inv(1)]
  have keys: "same_keys (objs ob) (set_remaining r m' \<sigma>')"
    using same_keys_trans [OF fr(1) same_keys_set_remaining] .
  have out: "\<sigma>' b = objs ob b" if "b \<notin> set (bids ob)" for b
    using fr(2) that by blast
  have le: "m' \<le> remaining (objs ob r)"
  proof (cases "0 < remaining (objs ob r)")
    case True
    then show ?thesis
      using sweep_amounts [OF sw inv(1)] sum_list_nonneg [of "map snd fills"]
      by (force simp: case_prod_beta' dest: less_imp_le)
  next
    case False
    with sw show ?thesis by (auto simp: sweep_stop)
  qed
  have live: "0 < remaining (objs ob b)" if "0 < remaining (set_remaining r m' \<sigma>' b)" for b
    using that le fr(2) by (cases "b = r") (auto intro: less_le_trans)
  have keep: "b \<in> set xs'" if "b \<in> set (bids ob)" "0 < remaining (set_remaining r m' \<sigma>' b)" for b
    using that fr(2) r by (cases "b = r") auto
  have sd: "side_inv SELL (set_remaining r m' \<sigma>') (asks ob)" "side_inv BUY (set_remaining r m' \<sigma>') xs'"
    using inv fr(2) by (simp_all add: side_inv_same_keys [OF keys] side_inv_same_keys [OF same_keys_set_remaining]
        side_inv_same_keys [OF fr(1)])
  show "shrinks ob ob'"
    unfolding shrinks_def ob' using keys live keep sd fr(2) inv by auto
  show "objs ob' r = (objs ob r)\<lparr>remaining := remaining (objs ob' r)\<rparr>"
    using out [OF r(2)] by (simp add: ob')
  show "asks ob' = asks ob" and "buy_map ob' = buy_map ob" and "sell_map ob' = sell_map ob"
    by (simp_all add: ob')
  assume lim: "otype (objs ob r) = LIMIT" "0 < remaining (objs ob' r)"
    and a: "a \<in> set (bids ob')" "0 < remaining (objs ob' a)"
  have mem: "a \<in> set (bids ob)" using a(1) fr(2) by (auto simp: ob')
  then have "a \<noteq> r" using r(2) by auto
  have "\<forall>a \<in> set (bids ob). 0 < remaining (\<sigma>' a) \<longrightarrow> \<not> sells_at (objs ob r) (price (objs ob a))"
    by (rule sweep_exhausts [where s = BUY, OF _ sw inv(1)])
      (use lim book_okD(5) [OF ok] in \<open>auto simp: better_def sells_at_def ob'\<close>)
  then have "price (objs ob a) < price (objs ob r)"
    using mem a(2) \<open>a \<noteq> r\<close> lim(1) by (auto simp: sells_at_def ob')
  then show "price (objs ob' a) < price (objs ob r)"
    using same_keysD(1) [OF keys] by (simp add: ob')
qed


subsection \<open>Operations on a sound book\<close>

lemma add_order_id [simp]: "fst (add_order r ob) = ''order_'' @ str_of_nat (entry_id_counter ob + 1)"
  by (simp add: add_order_def Let_def)

lemma add_order_buy:
  assumes "side (objs ob r) = BUY"
  shows "snd (add_order r ob) =
    (let n = entry_id_counter ob + 1; oid = ''order_'' @ str_of_nat n;
         \<sigma> = (objs ob)(r := (objs ob r)\<lparr>order_id := oid\<rparr>)
     in ob\<lparr>entry_id_counter := n, objs := \<sigma>, bids := heappush (ref_lt (objs ob)) (bids ob) r,
           buy_map := dict_set oid r (buy_map ob)\<rparr>)"
proof -
  have "ref_lt ((objs ob)(r := (objs ob r)\<lparr>order_id := oid\<rparr>)) = ref_lt (objs ob)" for oid
    by (rule same_keys_ref_lt) (simp add: same_keys_def)
  with assms show ?thesis by (simp add: add_order_def Let_def)
qed

lemma add_order_sell:
  assumes "side (objs ob r) = SELL"
  shows "snd (add_order r ob) =
    (let n = entry_id_counter ob + 1; oid = ''order_'' @ str_of_nat n;
         \<sigma> = (objs ob)(r := (objs ob r)\<lparr>order_id := oid\<rparr>)
     in ob\<lparr>entry_id_counter := n, objs := \<sigma>, asks := heappush (ref_lt (objs ob)) (asks ob) r,
           sell_map := dict_set oid r (sell_map ob)\<rparr>)"
proof -
  have "ref_lt ((objs ob)(r := (objs ob r)\<lparr>order_id := oid\<rparr>)) = ref_lt (objs ob)" for oid
    by (rule same_keys_ref_lt) (simp add: same_keys_def)
  with assms show ?thesis by (simp add: add_order_def Let_def)
qed

lemma side_inv_relabel:
  "side_inv s (\<sigma>(r := (\<sigma> r)\<lparr>order_id := oid\<rparr>)) xs \<longleftrightarrow> side_inv s \<sigma> xs"
  by (rule side_inv_same_keys) (simp add: same_keys_def)

lemma add_order_ok:
  assumes ok: "book_ok ob" and r: "r < fresh ob" "r \<notin> set (bids ob)" "r \<notin> set (asks ob)"
    and p: "0 < price (objs ob r)"
  shows "book_ok (snd (add_order r ob))"
proof (cases "side (objs ob r)")
  case BUY
  show ?thesis
    unfolding add_order_buy [OF BUY] Let_def
    using side_inv_push [OF book_okD(1) [OF ok] BUY r(2)] book_okD [OF ok] r p BUY
    by (auto simp: book_ok_def side_inv_relabel map_ok_def dest!: dict_set_elem)
next
  case SELL
  show ?thesis
    unfolding add_order_sell [OF SELL] Let_def
    using side_inv_push [OF book_okD(2) [OF ok] SELL r(3)] book_okD [OF ok] r p SELL
    by (auto simp: book_ok_def side_inv_relabel map_ok_def dest!: dict_set_elem)
qed


lemma add_order_uncrossed:
  assumes u: "uncrossed ob" and r: "r \<notin> set (bids ob)" "r \<notin> set (asks ob)"
    and b: "side (objs ob r) = BUY \<Longrightarrow> (\<And>a. a \<in> set (asks ob) \<Longrightarrow> 0 < remaining (objs ob a) \<Longrightarrow>
      price (objs ob r) < price (objs ob a))"
    and a: "side (objs ob r) = SELL \<Longrightarrow> (\<And>a. a \<in> set (bids ob) \<Longrightarrow> 0 < remaining (objs ob a) \<Longrightarrow>
      price (objs ob a) < price (objs ob r))"
  shows "uncrossed (snd (add_order r ob))"
proof (cases "side (objs ob r)")
  case BUY
  with u r b [OF BUY] show ?thesis
    unfolding add_order_buy [OF BUY] Let_def uncrossed_def by auto
next
  case SELL
  with u r a [OF SELL] show ?thesis
    unfolding add_order_sell [OF SELL] Let_def uncrossed_def by auto
qed

lemma alloc_ok:
  assumes "book_ok ob"
  shows "book_ok (ob\<lparr>objs := (objs ob)(fresh ob := e), fresh := fresh ob + 1\<rparr>)"
    and "uncrossed ob \<Longrightarrow> uncrossed (ob\<lparr>objs := (objs ob)(fresh ob := e), fresh := fresh ob + 1\<rparr>)"
    and "fresh ob \<notin> set (bids ob)" and "fresh ob \<notin> set (asks ob)"
proof -
  show nin: "fresh ob \<notin> set (bids ob)" "fresh ob \<notin> set (asks ob)"
    using book_okD(3,4) [OF assms] by blast+
  have side: "side_inv s ((objs ob)(fresh ob := e)) xs \<longleftrightarrow> side_inv s (objs ob) xs"
    if "fresh ob \<notin> set xs" for s xs
    by (rule side_inv_agree) (use that in auto)
  show "book_ok (ob\<lparr>objs := (objs ob)(fresh ob := e), fresh := fresh ob + 1\<rparr>)"
  proof (rule book_okI, goal_cases)
    case 5 show ?case
      by (rule map_okI) (use map_okD [OF book_okD(7) [OF assms]] in \<open>force split: if_splits\<close>)+
  next
    case 6 show ?case
      by (rule map_okI) (use map_okD [OF book_okD(8) [OF assms]] in \<open>force split: if_splits\<close>)+
  qed (use book_okD(1-6) [OF assms] nin side in \<open>auto intro: less_SucI\<close>)
  show "uncrossed ob \<Longrightarrow> uncrossed (ob\<lparr>objs := (objs ob)(fresh ob := e), fresh := fresh ob + 1\<rparr>)"
    using nin by (auto simp: uncrossed_def)
qed

lemma shrinks_remove:
  assumes "book_ok ob"
  shows "shrinks ob (remove_order oid sd ob)"
proof -
  have "shrinks ob ob" using book_okD(1,2) [OF assms] by (simp add: shrinks_def)
  moreover have "0 < remaining (set_remaining r 0 (objs ob) b) \<Longrightarrow> 0 < remaining (objs ob b)" for r b
    by (cases "b = r") auto
  ultimately show ?thesis
    by (auto simp: remove_order_def Let_def shrinks_def side_inv_same_keys [OF same_keys_set_remaining]
        split: option.split dest: dict_del_elem)
qed

definition sound :: "order_book \<Rightarrow> bool" where
  "sound ob \<longleftrightarrow> book_ok ob \<and> uncrossed ob"

lemma sound_shrinks: "sound ob \<Longrightarrow> shrinks ob ob' \<Longrightarrow> sound ob'"
  by (auto simp: sound_def intro: shrinks_ok shrinks_uncrossed)

lemma sound_best: "sound ob \<Longrightarrow> sound (snd (best_bid ob))" "sound ob \<Longrightarrow> sound (snd (best_ask ob))"
  using sound_shrinks shrinks_best_bid shrinks_best_ask unfolding sound_def by blast+

lemma sound_empty: "sound empty_book"
  by (simp add: sound_def empty_book_def book_ok_def uncrossed_def map_ok_def)

lemma sound_reset: "sound (reset ob)"
  by (simp add: sound_def reset_def book_ok_def uncrossed_def map_ok_def)

lemma match_order_sound:
  assumes "sound ob" and r: "r < fresh ob" "r \<notin> set (bids ob)" "r \<notin> set (asks ob)"
    and p: "otype (objs ob r) = LIMIT \<Longrightarrow> 0 < price (objs ob r)"
    and m: "match_order clk r ob = (ts, ob1)"
    and rest: "otype (objs ob1 r) = LIMIT" "0 < remaining (objs ob1 r)"
  shows "sound (snd (add_order r ob1))"
proof (cases "side (objs ob r)")
  case BUY
  with m have m: "match_buy clk r ob [] = (ts, ob1)" by (simp add: match_order_def)
  note e = match_buy_effect [OF assms(1) [unfolded sound_def, THEN conjunct1] r(2,3) m]
  note s = sound_shrinks [OF assms(1) e(1), unfolded sound_def] and d = shrinksD [OF e(1)]
  have lim: "otype (objs ob r) = LIMIT" using rest(1) by (subst (asm) e(2)) simp
  have nin: "r \<notin> set (bids ob1)" "r \<notin> set (asks ob1)" using r d(6,7) by blast+
  have "book_ok (snd (add_order r ob1))"
    by (rule add_order_ok) (use s nin r(1) p [OF lim] in \<open>simp_all add: d(1,3)\<close>)
  moreover have "uncrossed (snd (add_order r ob1))"
    by (rule add_order_uncrossed) (use s nin BUY e(3) [OF lim rest(2)] in \<open>simp_all add: d(1,2)\<close>)
  ultimately show ?thesis by (simp add: sound_def)
next
  case SELL
  with m have m: "match_sell clk r ob [] = (ts, ob1)" by (simp add: match_order_def)
  note e = match_sell_effect [OF assms(1) [unfolded sound_def, THEN conjunct1] r(3,2) m]
  note s = sound_shrinks [OF assms(1) e(1), unfolded sound_def] and d = shrinksD [OF e(1)]
  have lim: "otype (objs ob r) = LIMIT" using rest(1) by (subst (asm) e(2)) simp
  have nin: "r \<notin> set (bids ob1)" "r \<notin> set (asks ob1)" using r d(6,7) by blast+
  have "book_ok (snd (add_order r ob1))"
    by (rule add_order_ok) (use s nin r(1) p [OF lim] in \<open>simp_all add: d(1,3)\<close>)
  moreover have "uncrossed (snd (add_order r ob1))"
    by (rule add_order_uncrossed) (use s nin SELL e(3) [OF lim rest(2)] in \<open>simp_all add: d(1,2)\<close>)
  ultimately show ?thesis by (simp add: sound_def)
qed

lemma match_order_shrinks:
  assumes "book_ok ob" and r: "r \<notin> set (bids ob)" "r \<notin> set (asks ob)" and m: "match_order clk r ob = (ts, ob1)"
  shows "shrinks ob ob1" and "objs ob1 r = (objs ob r)\<lparr>remaining := remaining (objs ob1 r)\<rparr>"
  using match_buy_effect(1,2) [OF assms(1) r] match_sell_effect(1,2) [OF assms(1) r(2,1)] m
  by (auto simp: match_order_def split: if_splits)

lemma submit_entry_sound:
  assumes "sound (orderbook env)" and "otype e = LIMIT \<Longrightarrow> 0 < price e"
  shows "sound (orderbook (snd (submit_entry clk e env)))"
proof -
  let ?ob = "orderbook env" let ?r = "fresh ?ob"
  let ?start = "?ob\<lparr>objs := (objs ?ob)(?r := e), fresh := ?r + 1\<rparr>"
  obtain ts ob1 where m: "match_order clk ?r ?start = (ts, ob1)" by (cases "match_order clk ?r ?start")
  have b: "book_ok ?ob" "uncrossed ?ob" using assms(1) by (auto simp: sound_def)
  have s0: "sound ?start" unfolding sound_def using alloc_ok(1,2) [OF b(1)] b(2) by blast
  have "sound ob1"
    using sound_shrinks [OF s0 match_order_shrinks(1) [OF s0 [unfolded sound_def, THEN conjunct1] _ _ m]]
      alloc_ok(3,4) [OF b(1)] by simp
  moreover have "sound (snd (add_order ?r ob1))"
    if "0 < remaining (objs ob1 ?r)" "otype (objs ob1 ?r) = LIMIT"
    by (rule match_order_sound [OF s0 _ _ _ _ m that(2,1)]) (use alloc_ok(3,4) [OF b(1)] assms(2) in auto)
  ultimately show ?thesis
    using m by (simp add: submit_entry_def Let_def)
qed


subsection \<open>The environment\<close>

lemma post_init_keys [simp]: "otype (post_init e) = otype e" "price (post_init e) = price e"
  by (simp_all add: post_init_def)

lemma submit_order_sound:
  assumes "sound (orderbook env)" and "parse_type ot = Inr LIMIT \<Longrightarrow> 0 < p"
    and "submit_order clk now sd p q ot ag env = Inr (ts, env')"
  shows "sound (orderbook env')"
proof -
  obtain s t where "parse_side sd = Inr s" and t: "parse_type ot = Inr t"
    using assms(3) by (auto simp: submit_order_def split: sum.splits)
  with assms(3) have "(ts, env') = submit_entry clk
      (post_init \<lparr>order_id = [], side = s, price = p, quantity = q, remaining = 0,
         otype = t, timestamp = now, agent_id = ag\<rparr>) env"
    by (simp add: submit_order_def)
  with submit_entry_sound [OF assms(1), where clk = clk] assms(2) t show ?thesis
    by (metis order_type.distinct(1) post_init_keys entry.select_convs(3,6) snd_conv)
qed

text \<open>The histories of an environment in which every limit order has a positive price.\<close>

inductive env_step :: "environment \<Rightarrow> environment \<Rightarrow> bool" where
  submit: "submit_order clk now sd p q ot ag env = Inr (ts, env') \<Longrightarrow> parse_type ot = Inr LIMIT \<longrightarrow> 0 < p \<Longrightarrow>
    env_step env env'"
| submit_market: "submit_market_order clk now sd q ag env = Inr (ts, env') \<Longrightarrow> env_step env env'"
| cancel: "cancel_order oid sd env = Inr env' \<Longrightarrow> env_step env env'"
| query_bid: "env_step env (env\<lparr>orderbook := snd (best_bid (orderbook env))\<rparr>)"
| query_ask: "env_step env (env\<lparr>orderbook := snd (best_ask (orderbook env))\<rparr>)"
| reset: "env_step env (env_reset env)"

inductive env_reachable :: "environment \<Rightarrow> bool" where
  init: "env_reachable env_init"
| step: "env_reachable env \<Longrightarrow> env_step env env' \<Longrightarrow> env_reachable env'"

lemma env_step_sound:
  "env_step env env' \<Longrightarrow> sound (orderbook env) \<Longrightarrow> sound (orderbook env')"
proof (induction rule: env_step.induct)
  case (submit clk now sd p q ot ag env ts env')
  then show ?case using submit_order_sound by blast
next
  case (submit_market clk now sd q ag env ts env')
  have pt: "parse_type ''MARKET'' = Inr MARKET"
    by code_simp
  obtain p ob where b: "(if py_upper sd = ''BUY'' then best_ask (orderbook env) else best_bid (orderbook env)) = (p, ob)"
    by fastforce
  then have "sound ob"
    using sound_best [OF submit_market.prems] by (auto split: if_splits)
  then show ?case
    using submit_market.hyps b submit_order_sound [of "env\<lparr>orderbook := ob\<rparr>" "''MARKET''" p clk now sd q ag ts env'] pt
    by (auto simp: submit_market_order_def Let_def split: if_splits)
next
  case (cancel oid sd env env')
  then obtain s where "env' = env\<lparr>orderbook := remove_order oid s (orderbook env)\<rparr>"
    by (auto simp: cancel_order_def split: sum.splits)
  then show ?case
    using sound_shrinks [OF cancel.prems shrinks_remove] cancel.prems by (simp add: sound_def)
qed (simp_all add: sound_best sound_reset env_reset_def)

lemma env_reachable_sound: "env_reachable env \<Longrightarrow> sound (orderbook env)"
  by (induction rule: env_reachable.induct) (auto simp: env_init_def sound_empty intro: env_step_sound)


subsection \<open>Accounting\<close>

definition opposite :: "order_side \<Rightarrow> order_side" where
  "opposite s = (if s = BUY then SELL else BUY)"

definition side_list :: "order_side \<Rightarrow> order_book \<Rightarrow> nat list" where
  "side_list s ob = (if s = BUY then bids ob else asks ob)"

definition side_volume :: "order_side \<Rightarrow> order_book \<Rightarrow> int" where
  "side_volume s ob = (if s = BUY then bid_volume ob else ask_volume ob)"

lemma side_volume_eq: "side_volume s ob = volume (objs ob) (side_list s ob)"
  by (simp add: side_volume_def side_list_def bid_volume_def ask_volume_def)

definition accepts :: "entry \<Rightarrow> pyfloat \<Rightarrow> bool" where
  \<comment> \<open>the price protection of an order\<close>
  "accepts e p \<longleftrightarrow> otype e = MARKET \<or> better (opposite (side e)) p (price e)"

lemma accepts_eq: "side e = BUY \<Longrightarrow> accepts e = buys_at e" "side e = SELL \<Longrightarrow> accepts e = sells_at e"
  by (cases "otype e"; auto simp: accepts_def buys_at_def sells_at_def better_def opposite_def fun_eq_iff)+

text \<open>One description of a match for both sides.\<close>

lemma match_order_cases:
  assumes ok: "book_ok ob" and r: "r \<notin> set (bids ob)" "r \<notin> set (asks ob)"
    and m: "match_order clk r ob = (ts, ob')" and s: "s = opposite (side (objs ob r))"
  obtains \<sigma>' m' fills where
    "sweep (accepts (objs ob r)) (objs ob) (side_list s ob) (remaining (objs ob r)) = (\<sigma>', side_list s ob', m', fills)"
    "map t_quantity ts = map snd fills" "map t_price ts = map (\<lambda>(a, q). price (objs ob a)) fills"
    "objs ob' = set_remaining r m' \<sigma>'" "trades ob' = trades ob @ ts"
    "side_list (opposite s) ob' = side_list (opposite s) ob" "side_inv s (objs ob) (side_list s ob)"
    "r \<notin> set (side_list s ob)"
proof (cases "side (objs ob r)")
  case BUY
  with m have mb: "match_buy clk r ob [] = (ts, ob')" by (simp add: match_order_def)
  from BUY s have "s = SELL" by (simp add: opposite_def)
  obtain \<sigma>' xs' m' fills where
    sw: "sweep (buys_at (objs ob r)) (objs ob) (asks ob) (remaining (objs ob r)) = (\<sigma>', xs', m', fills)" and
    ts: "ts = buy_trades clk (length (trades ob)) (objs ob) r fills" and
    ob': "ob' = ob\<lparr>objs := set_remaining r m' \<sigma>', asks := xs', trades := trades ob @ ts\<rparr>"
    by (rule match_buy_cases [OF r(2) mb])
  show ?thesis
    by (rule that [of \<sigma>' m' fills])
      (use sw \<open>s = SELL\<close> BUY book_okD(2) [OF ok] r(2) trades_of_fills(1,3) in
        \<open>simp_all add: side_list_def opposite_def ob' accepts_eq ts\<close>)
next
  case SELL
  with m have mb: "match_sell clk r ob [] = (ts, ob')" by (simp add: match_order_def)
  from SELL s have "s = BUY" by (simp add: opposite_def)
  obtain \<sigma>' xs' m' fills where
    sw: "sweep (sells_at (objs ob r)) (objs ob) (bids ob) (remaining (objs ob r)) = (\<sigma>', xs', m', fills)" and
    ts: "ts = sell_trades clk (length (trades ob)) (objs ob) r fills" and
    ob': "ob' = ob\<lparr>objs := set_remaining r m' \<sigma>', bids := xs', trades := trades ob @ ts\<rparr>"
    by (rule match_sell_cases [OF r(1) mb])
  show ?thesis
    by (rule that [of \<sigma>' m' fills])
      (use sw \<open>s = BUY\<close> SELL book_okD(1) [OF ok] r(1) trades_of_fills(2,4) in
        \<open>simp_all add: side_list_def opposite_def ob' accepts_eq ts\<close>)
qed


lemma side_inv_side_list: "book_ok ob \<Longrightarrow> side_inv s (objs ob) (side_list s ob)"
  by (cases s) (auto simp: side_list_def dest: book_okD)

lemma opposite_simps [simp]: "opposite (opposite s) = s" "opposite s \<noteq> s" "opposite BUY = SELL" "opposite SELL = BUY"
  by (cases s; simp add: opposite_def)+

lemma match_order_amounts:
  assumes ok: "book_ok ob" and r: "r \<notin> set (bids ob)" "r \<notin> set (asks ob)"
    and m: "match_order clk r ob = (ts, ob')" and s: "s = opposite (side (objs ob r))"
    and pos: "0 \<le> remaining (objs ob r)"
  shows "remaining (objs ob' r) = remaining (objs ob r) - (\<Sum>t\<leftarrow>ts. t_quantity t)"
    and "0 \<le> remaining (objs ob' r)"
    and "side_volume s ob' = side_volume s ob - (\<Sum>t\<leftarrow>ts. t_quantity t)"
    and "side_volume (opposite s) ob' = side_volume (opposite s) ob"
    and "t \<in> set ts \<Longrightarrow> 0 < t_quantity t \<and> 0 < t_price t \<and> accepts (objs ob r) (t_price t)"
    and "trades ob' = trades ob @ ts"
proof -
  obtain \<sigma>' m' fills where
    sw: "sweep (accepts (objs ob r)) (objs ob) (side_list s ob) (remaining (objs ob r)) = (\<sigma>', side_list s ob', m', fills)"
    and ts: "map t_quantity ts = map snd fills" "map t_price ts = map (\<lambda>(a, q). price (objs ob a)) fills"
    and ob': "objs ob' = set_remaining r m' \<sigma>'" "side_list (opposite s) ob' = side_list (opposite s) ob"
    and tr: "trades ob' = trades ob @ ts"
    and si: "side_inv s (objs ob) (side_list s ob)" and nin: "r \<notin> set (side_list s ob)"
    by (rule match_order_cases [OF ok r m s])
  note am = sweep_amounts [OF sw si pos] and fr = sweep_frame [OF sw si]
  have qs: "(\<Sum>(a, q)\<leftarrow>fills. q) = (\<Sum>t\<leftarrow>ts. t_quantity t)"
    by (simp add: fills_sum ts(1))
  show "remaining (objs ob' r) = remaining (objs ob r) - (\<Sum>t\<leftarrow>ts. t_quantity t)"
    and "0 \<le> remaining (objs ob' r)" and "trades ob' = trades ob @ ts"
    using am tr by (simp_all add: ob'(1) qs)
  have r': "r \<notin> set (side_list s ob')" using fr nin by blast
  have "volume (objs ob') (side_list s ob') = volume \<sigma>' (side_list s ob')"
    by (rule volume_cong) (use r' in \<open>auto simp: ob'(1) set_remaining_def\<close>)
  then show "side_volume s ob' = side_volume s ob - (\<Sum>t\<leftarrow>ts. t_quantity t)"
    using am by (simp add: side_volume_eq qs)
  have "volume (objs ob') (side_list (opposite s) ob) = volume (objs ob) (side_list (opposite s) ob)"
  proof (rule volume_cong)
    fix b assume b: "b \<in> set (side_list (opposite s) ob)"
    then have "b \<noteq> r" using r by (auto simp: side_list_def split: if_splits)
    moreover have "b \<notin> set (side_list s ob)"
      using b si side_inv_side_list [OF ok, of "opposite s"] opposite_simps(2) [of s]
      unfolding side_inv_def by metis
    ultimately show "remaining (objs ob' b) = remaining (objs ob b)"
      using fr by (auto simp: ob'(1))
  qed
  then show "side_volume (opposite s) ob' = side_volume (opposite s) ob"
    by (simp add: side_volume_eq ob'(2))
  assume t: "t \<in> set ts"
  then have "t_quantity t \<in> set (map snd fills)" "t_price t \<in> set (map (\<lambda>(a, q). price (objs ob a)) fills)"
    by (simp_all flip: ts)
  then show "0 < t_quantity t \<and> 0 < t_price t \<and> accepts (objs ob r) (t_price t)"
    using am by auto
qed

lemma match_order_priority:
  assumes ok: "book_ok ob" and r: "r \<notin> set (bids ob)" "r \<notin> set (asks ob)"
    and m: "match_order clk r ob = (ts, ob')" and s: "s = opposite (side (objs ob r))"
  shows "sorted_wrt (better s) (map t_price ts)"
    and "t \<in> set ts \<Longrightarrow> b \<in> set (side_list s ob) \<Longrightarrow> 0 < remaining (objs ob' b) \<Longrightarrow> better s (t_price t) (price (objs ob b))"
    and "0 < remaining (objs ob' r) \<Longrightarrow> b \<in> set (side_list s ob) \<Longrightarrow> 0 < remaining (objs ob' b) \<Longrightarrow>
      \<not> accepts (objs ob r) (price (objs ob b))"
proof -
  obtain \<sigma>' m' fills where
    sw: "sweep (accepts (objs ob r)) (objs ob) (side_list s ob) (remaining (objs ob r)) = (\<sigma>', side_list s ob', m', fills)"
    and ts: "map t_price ts = map (\<lambda>(a, q). price (objs ob a)) fills"
    and ob': "objs ob' = set_remaining r m' \<sigma>'"
    and si: "side_inv s (objs ob) (side_list s ob)" and nin: "r \<notin> set (side_list s ob)"
    by (rule match_order_cases [OF ok r m s])
  note pr = sweep_priority [OF sw si]
  show "sorted_wrt (better s) (map t_price ts)"
    using pr by (simp add: ts sorted_wrt_map case_prod_beta')
  have live: "b \<noteq> r \<and> 0 < remaining (\<sigma>' b)"
    if "b \<in> set (side_list s ob)" "0 < remaining (objs ob' b)" for b
    using that nin by (cases "b = r") (auto simp: ob')
  show "better s (t_price t) (price (objs ob b))"
    if t: "t \<in> set ts" and b: "b \<in> set (side_list s ob)" "0 < remaining (objs ob' b)"
  proof -
    from t have "t_price t \<in> set (map (\<lambda>(a, q). price (objs ob a)) fills)" by (simp flip: ts)
    then show ?thesis using pr live [OF b] b(1) by auto
  qed
  show "\<not> accepts (objs ob r) (price (objs ob b))"
    if rest: "0 < remaining (objs ob' r)" and b: "b \<in> set (side_list s ob)" "0 < remaining (objs ob' b)"
  proof -
    have "\<forall>b \<in> set (side_list s ob). 0 < remaining (\<sigma>' b) \<longrightarrow> \<not> accepts (objs ob r) (price (objs ob b))"
      by (rule sweep_exhausts [where s = s, OF _ sw si])
        (use rest book_okD(5,6) [OF ok] s in
          \<open>auto simp: accepts_def better_def ob' side_list_def split: if_splits\<close>)
    then show ?thesis using live [OF b] b(1) by blast
  qed
qed


lemma volume_relabel: "volume (\<sigma>(r := (\<sigma> r)\<lparr>order_id := oid\<rparr>)) xs = volume \<sigma> xs"
  by (rule volume_cong) simp

lemma add_order_volume:
  "0 < remaining (objs ob r) \<Longrightarrow> side_volume (side (objs ob r)) (snd (add_order r ob)) =
     side_volume (side (objs ob r)) ob + remaining (objs ob r)"
  "side_volume (opposite (side (objs ob r))) (snd (add_order r ob)) = side_volume (opposite (side (objs ob r))) ob"
  by (cases "side (objs ob r)";
      simp add: add_order_buy add_order_sell Let_def side_volume_def bid_volume_def ask_volume_def
        volume_relabel volume_push)+

lemma add_order_frame [simp]:
  "trades (snd (add_order r ob)) = trades ob"
  "remaining (objs (snd (add_order r ob)) b) = remaining (objs ob b)"
  "price (objs (snd (add_order r ob)) b) = price (objs ob b)"
  "set (side_list (opposite (side (objs ob r))) (snd (add_order r ob))) = set (side_list (opposite (side (objs ob r))) ob)"
  by (cases "side (objs ob r)"; simp add: add_order_buy add_order_sell Let_def side_list_def)+

lemma submit_entry_cases:
  assumes "sound (orderbook env)" and "submit_entry clk e env = (ts, env')"
  obtains start r ob1 where "match_order clk r start = (ts, ob1)" "book_ok start"
    "r \<notin> set (bids start)" "r \<notin> set (asks start)" "objs start r = e"
    "orderbook env' = (if 0 < remaining (objs ob1 r) \<and> otype e = LIMIT then snd (add_order r ob1) else ob1)"
    "\<And>s. side_volume s start = side_volume s (orderbook env)" "trades start = trades (orderbook env)"
    "\<And>s. side_list s start = side_list s (orderbook env)"
    "\<And>b s. b \<in> set (side_list s (orderbook env)) \<Longrightarrow> objs start b = objs (orderbook env) b"
    "side (objs ob1 r) = side e" "price_history env' = (if ts = [] then price_history env else price_history env @ [t_price (last ts)])"
proof -
  let ?b = "orderbook env"
  let ?start = "?b\<lparr>objs := (objs ?b)(fresh ?b := e), fresh := fresh ?b + 1\<rparr>"
  have b: "book_ok ?b" using assms(1) by (simp add: sound_def)
  note al = alloc_ok(1,2) [OF b, of e] alloc_ok(3,4) [OF b]
  obtain us ob1 where m: "match_order clk (fresh ?b) ?start = (us, ob1)" by fastforce
  note e1 = match_order_shrinks(2) [OF al(1) _ _ m]
  have ts: "us = ts" and env': "env' = \<lparr>orderbook = (if 0 < remaining (objs ob1 (fresh ?b)) \<and> otype (objs ob1 (fresh ?b)) = LIMIT
      then snd (add_order (fresh ?b) ob1) else ob1),
      price_history = (if ts = [] then price_history env else price_history env @ [t_price (last ts)])\<rparr>"
    using assms(2) m by (auto simp: submit_entry_def Let_def)
  have same: "objs ob1 (fresh ?b) = e\<lparr>remaining := remaining (objs ob1 (fresh ?b))\<rparr>"
    using e1 al(3,4) by simp
  have ot: "otype (objs ob1 (fresh ?b)) = otype e" "side (objs ob1 (fresh ?b)) = side e"
    by (subst same, simp)+
  have nin: "fresh ?b \<notin> set (side_list s ?b)" for s
    using al(3,4) by (simp add: side_list_def)
  have vol: "side_volume s ?start = side_volume s ?b" for s
    unfolding side_volume_eq
    by (rule trans [OF volume_agree [where \<sigma> = "objs ?b"]]) (use nin [of s] in \<open>auto simp: side_list_def split: if_splits\<close>)
  show ?thesis
    by (rule that [OF m [unfolded ts] al(1)]) (use al(3,4) ot nin vol env' in \<open>auto simp: side_list_def\<close>)
qed

lemma submit_entry_amounts:
  assumes "sound (orderbook env)" and "submit_entry clk e env = (ts, env')" and "0 < remaining e"
  defines "filled \<equiv> (\<Sum>t\<leftarrow>ts. t_quantity t)"
  shows "0 \<le> filled \<and> filled \<le> remaining e"
    and "side_volume (opposite (side e)) (orderbook env') = side_volume (opposite (side e)) (orderbook env) - filled"
    and "side_volume (side e) (orderbook env') =
      side_volume (side e) (orderbook env) + (if otype e = LIMIT then remaining e - filled else 0)"
    and "t \<in> set ts \<Longrightarrow> 0 < t_quantity t \<and> 0 < t_price t \<and> accepts e (t_price t)"
    and "trades (orderbook env') = trades (orderbook env) @ ts"
proof -
  obtain start r ob1 where m: "match_order clk r start = (ts, ob1)" and ok: "book_ok start"
    and r: "r \<notin> set (bids start)" "r \<notin> set (asks start)" and e: "objs start r = e"
    and env': "orderbook env' = (if 0 < remaining (objs ob1 r) \<and> otype e = LIMIT then snd (add_order r ob1) else ob1)"
    and vol: "\<And>s. side_volume s start = side_volume s (orderbook env)"
    and tr: "trades start = trades (orderbook env)" and sd: "side (objs ob1 r) = side e"
    by (rule submit_entry_cases [OF assms(1,2)]) blast
  have pos: "0 \<le> remaining (objs start r)" using assms(3) e by simp
  note am = match_order_amounts [OF ok r m refl pos, unfolded e vol tr, folded filled_def]
  have "0 \<le> filled"
    unfolding filled_def by (intro sum_list_nonneg) (use am(5) in \<open>auto dest: less_imp_le\<close>)
  then show "0 \<le> filled \<and> filled \<le> remaining e" using am(1,2) by simp
  show "trades (orderbook env') = trades (orderbook env) @ ts"
    by (simp add: env' am(6))
  show "t \<in> set ts \<Longrightarrow> 0 < t_quantity t \<and> 0 < t_price t \<and> accepts e (t_price t)"
    by (rule am(5))
  show "side_volume (opposite (side e)) (orderbook env') = side_volume (opposite (side e)) (orderbook env) - filled"
    using am(3) add_order_volume(2) [of ob1 r] by (simp add: env' sd)
  show "side_volume (side e) (orderbook env') =
      side_volume (side e) (orderbook env) + (if otype e = LIMIT then remaining e - filled else 0)"
    using am(1,2,4) add_order_volume(1) [of ob1 r] by (auto simp: env' sd)
qed

lemma submit_entry_priority:
  assumes "sound (orderbook env)" and "submit_entry clk e env = (ts, env')"
  shows "t \<in> set ts \<Longrightarrow> b \<in> set (side_list (opposite (side e)) (orderbook env)) \<Longrightarrow> 0 < remaining (objs (orderbook env') b) \<Longrightarrow>
      better (opposite (side e)) (t_price t) (price (objs (orderbook env) b))"
    and "sorted_wrt (better (opposite (side e))) (map t_price ts)"
proof -
  obtain start r ob1 where m: "match_order clk r start = (ts, ob1)" and ok: "book_ok start"
    and r: "r \<notin> set (bids start)" "r \<notin> set (asks start)" and e: "objs start r = e"
    and env': "orderbook env' = (if 0 < remaining (objs ob1 r) \<and> otype e = LIMIT then snd (add_order r ob1) else ob1)"
    and sl: "\<And>s. side_list s start = side_list s (orderbook env)"
    and ob: "\<And>b s. b \<in> set (side_list s (orderbook env)) \<Longrightarrow> objs start b = objs (orderbook env) b"
    by (rule submit_entry_cases [OF assms(1,2)]) blast
  note pr = match_order_priority [OF ok r m refl, unfolded e sl]
  show "sorted_wrt (better (opposite (side e))) (map t_price ts)"
    by (rule pr(1))
  show "better (opposite (side e)) (t_price t) (price (objs (orderbook env) b))"
    if t: "t \<in> set ts" and b: "b \<in> set (side_list (opposite (side e)) (orderbook env))"
      and live: "0 < remaining (objs (orderbook env') b)"
    using pr(2) [OF t b] live ob [OF b] by (auto simp: env' split: if_splits)
qed


subsection \<open>Cancelling\<close>

definition side_map :: "order_side \<Rightarrow> order_book \<Rightarrow> (string, nat) pydict" where
  "side_map s ob = (if s = BUY then buy_map ob else sell_map ob)"

lemma map_ok_side: "book_ok ob \<Longrightarrow> map_ok s ob (side_map s ob) (side_list s ob)"
  by (cases s) (auto simp: side_map_def side_list_def book_ok_def)

lemma remove_order_found:
  assumes "dict_get (side_map s ob) oid = Some r"
  shows "objs (remove_order oid s ob) = set_remaining r 0 (objs ob)"
    and "side_list s' (remove_order oid s ob) = side_list s' ob"
    and "side_map s (remove_order oid s ob) = dict_del oid (side_map s ob)"
    and "trades (remove_order oid s ob) = trades ob"
  using assms by (cases s; simp add: remove_order_def side_map_def side_list_def)+

lemma remove_order_volume:
  assumes ok: "book_ok ob" and f: "dict_get (side_map s ob) oid = Some r"
  shows "side_volume s (remove_order oid s ob) = side_volume s ob - max 0 (remaining (objs ob r))"
    and "side_volume (opposite s) (remove_order oid s ob) = side_volume (opposite s) ob"
proof -
  have d: "distinct (side_list s' ob)" "\<forall>b \<in> set (side_list s' ob). side (objs ob b) = s'" for s'
    using side_inv_side_list [OF ok] by (auto simp: side_inv_def)
  note mo = map_okD [OF map_ok_side [OF ok] map_of_SomeD [OF f]]
  show "side_volume s (remove_order oid s ob) = side_volume s ob - max 0 (remaining (objs ob r))"
    using mo(3) by (cases "0 < remaining (objs ob r)")
      (auto simp: side_volume_eq remove_order_found [OF f] volume_set_remaining [OF d(1)])
  have "r \<notin> set (side_list (opposite s) ob)" using d(2) mo(2) opposite_simps(2) by metis
  then show "side_volume (opposite s) (remove_order oid s ob) = side_volume (opposite s) ob"
    by (simp add: side_volume_eq remove_order_found [OF f] volume_set_remaining [OF d(1)])
qed

subsection \<open>Market depth\<close>

lemma levels_snoc:
  "foldl (add_level \<sigma>) [] (xs @ [r]) = add_level \<sigma> (foldl (add_level \<sigma>) [] xs) r"
  by simp

lemma levels_ok: "dict_ok (foldl (add_level \<sigma>) [] xs)"
  by (induction xs rule: rev_induct) auto

lemma levels_value:
  "dict_get_or (foldl (add_level \<sigma>) [] xs) p 0 = volume \<sigma> (filter (\<lambda>r. price (\<sigma> r) = p) xs)"
  by (induction xs rule: rev_induct) (auto simp: dict_get_or_def volume_Cons)

lemma add_level_sum:
  "dict_ok d \<Longrightarrow> sum_list (map snd (add_level \<sigma> d r)) = sum_list (map snd d) + max 0 (remaining (\<sigma> r))"
  by (simp add: sum_dict_set)

lemma levels_sum: "sum_list (map snd (foldl (add_level \<sigma>) [] xs)) = volume \<sigma> xs"
  by (induction xs rule: rev_induct) (simp_all add: add_level_sum levels_ok volume_Cons del: add_level.simps)

lemma levels_length: "length (foldl (add_level \<sigma>) [] xs) \<le> length xs"
proof (induction xs rule: rev_induct)
  case (snoc r xs)
  have "length (dict_set k v d) \<le> Suc (length d)" for k v and d :: "(pyfloat, int) pydict"
    by (induction d) auto
  with snoc show ?case by (auto intro: le_trans)
qed simp

lemma levels_entry:
  "(p, v) \<in> set (foldl (add_level \<sigma>) [] xs) \<Longrightarrow> v = volume \<sigma> (filter (\<lambda>r. price (\<sigma> r) = p) xs)"
  using dict_get_in [OF levels_ok, of p v \<sigma> xs] levels_value [of \<sigma> xs p] by (simp add: dict_get_or_def)

lemma sum_sort_key:
  fixes f :: "'a \<Rightarrow> int"
  shows "sum_list (map f (sort_key g xs)) = sum_list (map f xs)"
  by (metis mset_map mset_sort sum_mset_sum_list)

lemma sorted_levels:
  fixes f :: "pyfloat \<Rightarrow> pyfloat"
  assumes "inj f" and "dict_ok d"
  shows "sorted_wrt (\<lambda>p q. f p < f q) (map fst (sort_key (\<lambda>x. f (fst x)) d))"
proof -
  let ?l = "sort_key (\<lambda>x. f (fst x)) d"
  have "mset (map fst ?l) = mset (map fst d)" by simp
  then have "distinct (map fst ?l)"
    using assms(2) mset_eq_imp_distinct_iff unfolding dict_ok_def by blast
  then have d: "distinct (map f (map fst ?l))"
    by (subst distinct_map) (blast intro: inj_on_subset [OF assms(1)])
  have "sorted (map f (map fst ?l))"
    using sorted_sort_key [of "\<lambda>x. f (fst x)" d] by (simp add: comp_def)
  with d have "sorted_wrt (<) (map f (map fst ?l))"
    by (simp add: strict_sorted_iff)
  then show ?thesis by (simp add: sorted_wrt_map)
qed

end
