(* ===== verification/Abm_Market.thy ===== *)
theory Abm_Market
  imports Abm_Matching
begin

text \<open>
  The properties of the agent-based market, over the environment's own entry points and over
  every history of them: an uncrossed book, conservation of quantity, price protection and
  priority, cancellation, and market depth. \<open>demo_env\<close> is a small market on which they are run.
\<close>

definition demo_submit :: "string \<Rightarrow> pyfloat \<Rightarrow> int \<Rightarrow> string \<Rightarrow> environment \<Rightarrow> environment" where
  "demo_submit sd p q ot env =
     (case submit_order (\<lambda>n. of_nat n) 0 sd p q ot ''demo'' env of Inl _ \<Rightarrow> env | Inr (ts, env') \<Rightarrow> env')"

definition demo_env :: environment where
  "demo_env = demo_submit ''BUY'' 99 5 ''LIMIT'' (demo_submit ''SELL'' 100 5 ''limit''
     (demo_submit ''sell'' 101 10 ''LIMIT'' env_init))"

lemma demo_reachable: "env_reachable env \<Longrightarrow> 0 < p \<Longrightarrow> env_reachable (demo_submit sd p q ot env)"
  by (auto simp: demo_submit_def split: sum.split intro: env_reachable.step env_step.submit)

lemma demo_env_reachable: "env_reachable demo_env"
  by (simp add: demo_env_def demo_reachable env_reachable.init)

lemma spread_pos:
  "best_bid ob = (bid, ob1) \<Longrightarrow> best_ask ob1 = (ask, ob2) \<Longrightarrow> 0 < bid \<Longrightarrow> 0 < ask \<Longrightarrow>
   fst (spread ob) = ask - bid"
  by (simp add: spread_def)

text \<open>C1: in every history of the agent-based environment (limit orders with a positive price),
  when both sides quote, the best bid is below the best ask and the spread is positive.\<close>

theorem abm_never_crossed:
  assumes "env_reachable env"
    and "best_bid (orderbook env) = (bid, ob1)" and "best_ask ob1 = (ask, ob2)" and "0 < bid" and "0 < ask"
  shows "bid < ask \<and> 0 < fst (spread (orderbook env))"
proof -
  have s: "sound (orderbook env)" "sound ob1"
    using env_reachable_sound [OF assms(1)] sound_best(1) assms(2) by (metis snd_conv)+
  let ?b = "hd (clean (objs (orderbook env)) (bids (orderbook env)))" and ?a = "hd (clean (objs ob1) (asks ob1))"
  have ob1: "ob1 = (orderbook env)\<lparr>bids := clean (objs (orderbook env)) (bids (orderbook env))\<rparr>"
    using assms(2) by (simp add: best_bid_eq)
  have ne: "bids ob1 \<noteq> []" "clean (objs ob1) (asks ob1) \<noteq> []"
    using assms(2-5) by (auto simp: best_bid_eq best_ask_eq top_price_def split: if_splits)
  have "?b \<in> set (bids ob1)" and "?a \<in> set (asks ob1)"
    using ne set_clean [of "objs ob1" "asks ob1"] hd_in_set by (auto simp: ob1)
  moreover have "0 < remaining (objs ob1 ?b)" and "0 < remaining (objs ob1 ?a)"
    using ne clean_head [of "objs ob1" "asks ob1"] clean_head [of "objs ob1"] by (auto simp: ob1)
  ultimately have "price (objs ob1 ?b) < price (objs ob1 ?a)"
    using s(2) uncrossedD by (simp add: sound_def)
  then have "bid < ask"
    using assms(2,3) ne by (auto simp: best_bid_eq best_ask_eq top_price_def ob1)
  with spread_pos [OF assms(2-5)] show ?thesis by simp
qed

lemma demo_quotes:
  "fst (best_bid (orderbook demo_env)) = 99" "fst (best_ask (snd (best_bid (orderbook demo_env)))) = 100"
  by code_simp+

theorem abm_never_crossed_witness: "(99::rat) < 100 \<and> 0 < fst (spread (orderbook demo_env))"
  using abm_never_crossed [OF demo_env_reachable prod.collapse [symmetric] prod.collapse [symmetric]]
  by (simp add: demo_quotes)

subsection \<open>What an order does\<close>

text \<open>The entry that \<open>submit_order\<close> builds.\<close>

definition incoming :: "order_side \<Rightarrow> order_type \<Rightarrow> pyfloat \<Rightarrow> int \<Rightarrow> entry" where
  "incoming s t p q = blank_entry\<lparr>side := s, price := p, quantity := q, remaining := q, otype := t\<rparr>"

lemma submit_order_entry:
  assumes "submit_order clk now sd p q ot ag env = Inr (ts, env')"
    and "parse_side sd = Inr s" and "parse_type ot = Inr t" and "0 < q"
  obtains e where "submit_entry clk e env = (ts, env')" "side e = s" "otype e = t" "price e = p" "remaining e = q"
    "accepts e = accepts (incoming s t p q)"
  using that [of "post_init \<lparr>order_id = [], side = s, price = p, quantity = q, remaining = 0,
                    otype = t, timestamp = now, agent_id = ag\<rparr>"] assms
  by (simp add: submit_order_def post_init_def incoming_def accepts_def [abs_def] blank_entry_def)

text \<open>An accepted order of \<open>q\<close> units trades some \<open>filled \<le> q\<close> units, all of them taken from the
  opposite side of the book; a limit order leaves exactly the other \<open>q - filled\<close> on its own side,
  a market order nothing; every trade has a positive price and quantity and respects the limit.\<close>

theorem abm_submit_conserves:
  assumes "env_reachable env" and "submit_order clk now sd p q ot ag env = Inr (ts, env')"
    and "parse_side sd = Inr s" and "parse_type ot = Inr t" and "0 < q"
  shows "let filled = (\<Sum>tr\<leftarrow>ts. t_quantity tr); before = orderbook env; after = orderbook env' in
      0 \<le> filled \<and> filled \<le> q
      \<and> side_volume (opposite s) after = side_volume (opposite s) before - filled
      \<and> side_volume s after = side_volume s before + (if t = LIMIT then q - filled else 0)
      \<and> (\<forall>tr \<in> set ts. 0 < t_quantity tr \<and> 0 < t_price tr \<and> accepts (incoming s t p q) (t_price tr))
      \<and> trades after = trades before @ ts"
proof -
  obtain e where e: "submit_entry clk e env = (ts, env')" "side e = s" "otype e = t" "remaining e = q"
    "accepts e = accepts (incoming s t p q)"
    by (rule submit_order_entry [OF assms(2-5)])
  show ?thesis
    using submit_entry_amounts [OF env_reachable_sound [OF assms(1)] e(1)] assms(5) e by (auto simp: Let_def)
qed

definition demo_sweep :: "trade list \<times> environment" where
  "demo_sweep = (case submit_order (\<lambda>n. of_nat n) 0 ''BUY'' 101 8 ''LIMIT'' ''t'' demo_env of
     Inr r \<Rightarrow> r | Inl _ \<Rightarrow> ([], demo_env))"

lemma demo_parse: "parse_side ''BUY'' = Inr BUY" "parse_type ''LIMIT'' = Inr LIMIT"
  by code_simp+

lemma demo_sweep_submit:
  "submit_order (\<lambda>n. of_nat n) 0 ''BUY'' 101 8 ''LIMIT'' ''t'' demo_env = Inr (fst demo_sweep, snd demo_sweep)"
  by (simp add: demo_sweep_def submit_order_def demo_parse)

lemma demo_sweep_trades:
  "map (\<lambda>t. (t_price t, t_quantity t)) (fst demo_sweep) = [(100, 5), (101, 3)]"
  by code_simp

theorem abm_submit_conserves_witness:
  "side_volume SELL (orderbook (snd demo_sweep)) = side_volume SELL (orderbook demo_env) - 8
   \<and> side_volume BUY (orderbook (snd demo_sweep)) = side_volume BUY (orderbook demo_env)"
proof -
  have "map t_quantity (fst demo_sweep) = map snd (map (\<lambda>t. (t_price t, t_quantity t)) (fst demo_sweep))"
    by (simp add: comp_def)
  then have "(\<Sum>tr\<leftarrow>fst demo_sweep. t_quantity tr) = 8" by (simp add: demo_sweep_trades)
  then show ?thesis
    using abm_submit_conserves [OF demo_env_reachable demo_sweep_submit demo_parse] by (simp add: Let_def)
qed

text \<open>C13: for an order of a positive quantity, after any history of the environment (limit orders with a positive
  price): its trades come best price first, and no live entry that it leaves on the opposite side has a better
  price than any price it traded at.\<close>

theorem abm_price_priority:
  assumes "env_reachable env" and "submit_order clk now sd p q ot ag env = Inr (ts, env')"
    and "parse_side sd = Inr s" and "parse_type ot = Inr t" and "0 < q"
  shows "sorted_wrt (better (opposite s)) (map t_price ts)
    \<and> (\<forall>tr \<in> set ts. \<forall>b \<in> set (side_list (opposite s) (orderbook env)). 0 < remaining (objs (orderbook env') b) \<longrightarrow>
         better (opposite s) (t_price tr) (price (objs (orderbook env) b)))"
proof -
  obtain e where e: "submit_entry clk e env = (ts, env')" "side e = s"
    by (rule submit_order_entry [OF assms(2-5)])
  note pr = submit_entry_priority [OF env_reachable_sound [OF assms(1)] e(1), unfolded e(2)]
  show ?thesis using pr by blast
qed

lemma demo_left: "0 \<in> set (side_list SELL (orderbook demo_env)) \<and> 0 < remaining (objs (orderbook (snd demo_sweep)) 0)
   \<and> price (objs (orderbook demo_env) 0) = 101"
  by code_simp

theorem abm_price_priority_witness: "t_price (hd (fst demo_sweep)) \<le> 101"
proof -
  have mem: "hd (fst demo_sweep) \<in> set (fst demo_sweep)"
    using demo_sweep_trades by (intro hd_in_set) auto
  moreover have "\<forall>tr \<in> set (fst demo_sweep). \<forall>b \<in> set (side_list (opposite BUY) (orderbook demo_env)).
      0 < remaining (objs (orderbook (snd demo_sweep)) b) \<longrightarrow> better (opposite BUY) (t_price tr) (price (objs (orderbook demo_env) b))"
    using abm_price_priority [OF demo_env_reachable demo_sweep_submit demo_parse] by simp
  ultimately have "better SELL (t_price (hd (fst demo_sweep))) (price (objs (orderbook demo_env) 0))"
    unfolding opposite_simps using demo_left by blast
  then show ?thesis using demo_left by (simp add: better_def)
qed

subsection \<open>Cancelling and depth\<close>

text \<open>Cancelling an order the book knows takes exactly its open quantity off its side, changes
  neither the other side nor the trades, and makes the order unknown: cancelling again does nothing.\<close>

theorem abm_cancel_exact:
  assumes "env_reachable env" and "parse_side sd = Inr s"
    and "dict_get (side_map s (orderbook env)) oid = Some r" and "cancel_order oid sd env = Inr env'"
  shows "side_volume s (orderbook env') = side_volume s (orderbook env) - max 0 (remaining (objs (orderbook env) r))
    \<and> side_volume (opposite s) (orderbook env') = side_volume (opposite s) (orderbook env)
    \<and> trades (orderbook env') = trades (orderbook env) \<and> cancel_order oid sd env' = Inr env'"
proof -
  have ok: "book_ok (orderbook env)"
    using env_reachable_sound [OF assms(1)] by (simp add: sound_def)
  have env': "env' = env\<lparr>orderbook := remove_order oid s (orderbook env)\<rparr>"
    using assms(2,4) by (simp add: cancel_order_def)
  have "remove_order oid s (orderbook env') = orderbook env'"
    using remove_order_found(3) [OF assms(3)]
    by (cases s) (simp_all add: env' remove_order_def [of oid _ "remove_order _ _ _"] side_map_def Let_def)
  then show ?thesis
    using remove_order_volume [OF ok assms(3)] remove_order_found(4) [OF assms(3)] assms(2)
    by (simp add: env' cancel_order_def)
qed

lemma demo_index: "dict_get (side_map BUY (orderbook demo_env)) ''order_3'' = Some 2"
  by code_simp

theorem abm_cancel_exact_witness:
  "\<exists>env'. cancel_order ''order_3'' ''BUY'' demo_env = Inr env' \<and> cancel_order ''order_3'' ''BUY'' env' = Inr env'"
proof -
  have "cancel_order ''order_3'' ''BUY'' demo_env
      = Inr (demo_env\<lparr>orderbook := remove_order ''order_3'' BUY (orderbook demo_env)\<rparr>)"
    by (simp add: cancel_order_def demo_parse)
  then show ?thesis
    using abm_cancel_exact [OF demo_env_reachable demo_parse(1) demo_index] by blast
qed

text \<open>Market depth lists each live price once, best price first, with the total open quantity
  at that price; over all levels the quantities add up to the volume of the side.\<close>

theorem abm_depth_levels:
  "sorted_wrt (<) (map fst (get_asks n ob)) \<and> sorted_wrt (>) (map fst (get_bids n ob))
   \<and> map snd (get_asks n ob) = map (\<lambda>(p, v). volume (objs ob) (filter (\<lambda>r. price (objs ob r) = p) (asks ob))) (get_asks n ob)
   \<and> map snd (get_bids n ob) = map (\<lambda>(p, v). volume (objs ob) (filter (\<lambda>r. price (objs ob r) = p) (bids ob))) (get_bids n ob)
   \<and> sum_list (map snd (get_asks (length (asks ob)) ob)) = ask_volume ob
   \<and> sum_list (map snd (get_bids (length (bids ob)) ob)) = bid_volume ob"
proof -
  have a: "sorted_wrt (<) (map fst (get_asks n ob))"
    using sorted_levels [of id, OF _ levels_ok] by (simp add: get_asks_def take_map [symmetric] sorted_wrt_take)
  have b: "sorted_wrt (>) (map fst (get_bids n ob))"
    using sorted_levels [of uminus, OF _ levels_ok]
    by (simp add: get_bids_def take_map [symmetric] sorted_wrt_take inj_def)
  have v: "map snd l = map (\<lambda>(p, v). volume (objs ob) (filter (\<lambda>r. price (objs ob r) = p) xs)) l"
    if "set l \<subseteq> set (foldl (add_level (objs ob)) [] xs)" for l xs
    using that levels_entry by (force intro: map_cong)
  have t: "take (length xs) (sort_key f (foldl (add_level (objs ob)) [] xs)) = sort_key f (foldl (add_level (objs ob)) [] xs)"
    for f :: "pyfloat \<times> int \<Rightarrow> pyfloat" and xs
    by (simp add: levels_length)
  show ?thesis
    using a b v [of "get_asks n ob" "asks ob"] v [of "get_bids n ob" "bids ob"]
      set_take_subset [of n "sort_key fst (foldl (add_level (objs ob)) [] (asks ob))"]
      set_take_subset [of n "sort_key (\<lambda>x. - fst x) (foldl (add_level (objs ob)) [] (bids ob))"]
    by (simp add: get_asks_def get_bids_def t sum_sort_key levels_sum ask_volume_def bid_volume_def)
qed

end
