(* ===== verification/Hybrid_Book.thy ===== *)
theory Hybrid_Book
  imports Book_Side
begin

text \<open>
  The hybrid book (\<open>backtesting/hybrid/unified_order_book.py\<close>), which holds orders from
  historical data, strategies and agents. Unlike the agent-based book it does not match what it
  is given to hold; \<open>match_order\<close> sweeps an order that never enters the book. The loop is
  \<open>sweep\<close> of \<open>Book_Side\<close>. Order ids print the source and a counter.
\<close>

subsection \<open>Data\<close>

record hybrid_entry = entry +
  source :: string

record hybrid_trade =
  h_buy_id :: string
  h_sell_id :: string
  h_price :: pyfloat
  h_quantity :: int
  buyer_source :: string
  seller_source :: string

record order_event =
  \<comment> \<open>\<open>backtesting/types.py\<close>: what the book reads of an incoming order\<close>
  ev_side :: string
  ev_quantity :: int
  ev_price :: pyfloat
  ev_type :: "string option"

record unified_book =
  h_objs :: "nat \<Rightarrow> hybrid_entry"
  h_fresh :: nat
  h_bids :: "nat list"
  h_asks :: "nat list"
  h_trades :: "hybrid_trade list"
  h_buy_map :: "(string, nat) pydict"
  h_sell_map :: "(string, nat) pydict"
  entry_counter :: nat

definition h_blank :: hybrid_entry where
  "h_blank = \<lparr>order_id = [], side = BUY, price = 0, quantity = 0, remaining = 0, otype = LIMIT,
     timestamp = 0, agent_id = [], source = ''historical''\<rparr>"

definition h_init :: unified_book where
  "h_init = \<lparr>h_objs = (\<lambda>_. h_blank), h_fresh = 0, h_bids = [], h_asks = [], h_trades = [],
     h_buy_map = [], h_sell_map = [], entry_counter = 0\<rparr>"

definition h_parse_side :: "string \<Rightarrow> py_error + order_side" where
  "h_parse_side s =
     (if py_upper s = ''BUY'' then Inr BUY else if py_upper s = ''SELL'' then Inr SELL else Inl ValueError)"

definition h_parse_type :: "string option \<Rightarrow> py_error + order_type" where
  \<comment> \<open>a missing or empty type is a limit order\<close>
  "h_parse_type t =
     (case t of
        None \<Rightarrow> Inr LIMIT
      | Some s \<Rightarrow>
          if s = [] then Inr LIMIT
          else if py_upper s = ''MARKET'' then Inr MARKET
          else if py_upper s = ''LIMIT'' then Inr LIMIT
          else Inl ValueError)"

definition is_limit :: "string option \<Rightarrow> bool" where
  \<comment> \<open>\<open>order.order_type and order.order_type.upper() == "LIMIT"\<close>\<close>
  "is_limit t \<longleftrightarrow> (case t of None \<Rightarrow> False | Some s \<Rightarrow> s \<noteq> [] \<and> py_upper s = ''LIMIT'')"

subsection \<open>Quotes\<close>

definition h_best_bid :: "unified_book \<Rightarrow> pyfloat \<times> unified_book" where
  "h_best_bid ob =
     (let xs = clean (h_objs ob) (h_bids ob)
      in (if xs = [] then 0 else price (h_objs ob (hd xs)), ob\<lparr>h_bids := xs\<rparr>))"

definition h_best_ask :: "unified_book \<Rightarrow> pyfloat \<times> unified_book" where
  "h_best_ask ob =
     (let xs = clean (h_objs ob) (h_asks ob)
      in (if xs = [] then 0 else price (h_objs ob (hd xs)), ob\<lparr>h_asks := xs\<rparr>))"

definition h_mid_price :: "unified_book \<Rightarrow> pyfloat \<times> unified_book" where
  "h_mid_price ob =
     (let (bid, ob1) = h_best_bid ob; (ask, ob2) = h_best_ask ob1
      in (if bid > 0 \<and> ask > 0 then (bid + ask) / 2 else if bid \<noteq> 0 then bid else ask, ob2))"

definition h_spread :: "unified_book \<Rightarrow> pyfloat \<times> unified_book" where
  "h_spread ob =
     (let (bid, ob1) = h_best_bid ob; (ask, ob2) = h_best_ask ob1
      in (if bid > 0 \<and> ask > 0 then ask - bid else 0, ob2))"

definition h_last_price :: "unified_book \<Rightarrow> pyfloat" where
  "h_last_price ob = (if h_trades ob = [] then 0 else h_price (last (h_trades ob)))"

definition h_bid_volume :: "unified_book \<Rightarrow> int" where
  "h_bid_volume ob = volume (h_objs ob) (h_bids ob)"

definition h_ask_volume :: "unified_book \<Rightarrow> int" where
  "h_ask_volume ob = volume (h_objs ob) (h_asks ob)"

subsection \<open>Adding and matching\<close>

definition h_add_order :: "pytime \<Rightarrow> order_event \<Rightarrow> string \<Rightarrow> unified_book \<Rightarrow> (py_error + string) \<times> unified_book" where
  \<comment> \<open>the counter is already bumped when a bad side or type raises\<close>
  "h_add_order now ev src ob =
     (let n = entry_counter ob + 1; ob1 = ob\<lparr>entry_counter := n\<rparr>;
          oid = ''hybrid_'' @ src @ ''_'' @ str_of_nat n
      in case h_parse_side (ev_side ev) of
           Inl e \<Rightarrow> (Inl e, ob1)
         | Inr s \<Rightarrow>
             (case h_parse_type (ev_type ev) of
                Inl e \<Rightarrow> (Inl e, ob1)
              | Inr t \<Rightarrow>
                  (let r = h_fresh ob;
                       e = post_init \<lparr>order_id = oid, side = s, price = ev_price ev, quantity = ev_quantity ev,
                             remaining = ev_quantity ev, otype = t, timestamp = now, agent_id = [], source = src\<rparr>;
                       \<sigma> = (h_objs ob)(r := e); ob2 = ob1\<lparr>h_objs := \<sigma>, h_fresh := r + 1\<rparr>
                   in (Inr oid,
                       if s = BUY
                       then ob2\<lparr>h_bids := heappush (ref_lt \<sigma>) (h_bids ob) r, h_buy_map := dict_set oid r (h_buy_map ob)\<rparr>
                       else ob2\<lparr>h_asks := heappush (ref_lt \<sigma>) (h_asks ob) r, h_sell_map := dict_set oid r (h_sell_map ob)\<rparr>))))"

definition incoming_id :: "unified_book \<Rightarrow> string" where
  "incoming_id ob = ''incoming_'' @ str_of_nat (entry_counter ob)"

function h_match_buy :: "order_event \<Rightarrow> string \<Rightarrow> unified_book \<Rightarrow> int \<Rightarrow> hybrid_trade list \<Rightarrow> hybrid_trade list \<times> unified_book" where
  "h_match_buy ev src ob rem acc =
     (if rem \<le> 0 then (acc, ob)
      else let best = fst (h_best_ask ob); ob1 = snd (h_best_ask ob); a = hd (h_asks ob1) in
        if best \<le> 0 \<or> is_limit (ev_type ev) \<and> best > ev_price ev then (acc, ob1)
        else if h_asks ob1 = [] then (acc, ob1)
        else if remaining (h_objs ob1 a) \<le> 0
        then h_match_buy ev src (ob1\<lparr>h_asks := heappop_rest (ref_lt (h_objs ob1)) (h_asks ob1)\<rparr>) rem acc
        else let q = min rem (remaining (h_objs ob1 a));
                 t = \<lparr>h_buy_id = incoming_id ob1, h_sell_id = order_id (h_objs ob1 a), h_price = price (h_objs ob1 a),
                      h_quantity = q, buyer_source = src, seller_source = source (h_objs ob1 a)\<rparr>;
                 \<sigma> = hit (h_objs ob1) a q
             in h_match_buy ev src (ob1\<lparr>h_objs := \<sigma>, h_asks := after_hit \<sigma> a (h_asks ob1)\<rparr>) (rem - q) (acc @ [t]))"
  by pat_completeness auto

function h_match_sell :: "order_event \<Rightarrow> string \<Rightarrow> unified_book \<Rightarrow> int \<Rightarrow> hybrid_trade list \<Rightarrow> hybrid_trade list \<times> unified_book" where
  "h_match_sell ev src ob rem acc =
     (if rem \<le> 0 then (acc, ob)
      else let best = fst (h_best_bid ob); ob1 = snd (h_best_bid ob); b = hd (h_bids ob1) in
        if best \<le> 0 \<or> is_limit (ev_type ev) \<and> best < ev_price ev then (acc, ob1)
        else if h_bids ob1 = [] then (acc, ob1)
        else if remaining (h_objs ob1 b) \<le> 0
        then h_match_sell ev src (ob1\<lparr>h_bids := heappop_rest (ref_lt (h_objs ob1)) (h_bids ob1)\<rparr>) rem acc
        else let q = min rem (remaining (h_objs ob1 b));
                 t = \<lparr>h_buy_id = order_id (h_objs ob1 b), h_sell_id = incoming_id ob1, h_price = price (h_objs ob1 b),
                      h_quantity = q, buyer_source = source (h_objs ob1 b), seller_source = src\<rparr>;
                 \<sigma> = hit (h_objs ob1) b q
             in h_match_sell ev src (ob1\<lparr>h_objs := \<sigma>, h_bids := after_hit \<sigma> b (h_bids ob1)\<rparr>) (rem - q) (acc @ [t]))"
  by pat_completeness auto

lemma h_hit_decreases:
  fixes \<sigma> :: "nat \<Rightarrow> 'e entry_scheme"
  assumes "ys = clean \<sigma> xs" and "ys \<noteq> []" and "\<not> rem \<le> 0" and "\<not> remaining (\<sigma> (hd ys)) \<le> 0"
    and "q = min rem (remaining (\<sigma> (hd ys)))" and "\<tau> = hit \<sigma> (hd ys) q"
  shows "length (after_hit \<tau> (hd ys) ys) + (if 0 < rem - q then 1 else 0) < Suc (length xs)"
proof -
  obtain n where n: "length ys = Suc n" using assms(2) by (cases ys) auto
  have "Suc n \<le> length xs" using length_clean [of \<sigma> xs] assms(1) n by simp
  then show ?thesis using n assms(3-6) by (auto simp: after_hit_def)
qed

lemma h_pop_decreases:
  assumes "ys = clean \<sigma> xs" and "ys \<noteq> []"
  shows "length (heappop_rest lt ys) < length xs"
proof -
  have "0 < length ys" using assms(2) by simp
  moreover have "length ys \<le> length xs" using assms(1) length_clean [of \<sigma> xs] by simp
  ultimately show ?thesis unfolding length_heappop_rest by linarith
qed

termination h_match_buy
proof (relation "measure (\<lambda>(ev, src, ob, rem, acc). length (h_asks ob) + (if 0 < rem then 1 else 0))", goal_cases)
  case (2 ev src ob rem acc best ob1 a)
  then have "h_asks ob1 = clean (h_objs ob) (h_asks ob)" "h_asks ob1 \<noteq> []" by (auto simp: h_best_ask_def Let_def)
  then show ?case using h_pop_decreases [of _ "h_objs ob"] by (simp del: length_heappop_rest)
next
  case (3 ev src ob rem acc best ob1 a q t \<sigma>)
  show ?case
    using h_hit_decreases [of "h_asks ob1" "h_objs ob" "h_asks ob" rem q \<sigma>] 3
    by (auto simp: h_best_ask_def Let_def)
qed simp

termination h_match_sell
proof (relation "measure (\<lambda>(ev, src, ob, rem, acc). length (h_bids ob) + (if 0 < rem then 1 else 0))", goal_cases)
  case (2 ev src ob rem acc best ob1 b)
  then have "h_bids ob1 = clean (h_objs ob) (h_bids ob)" "h_bids ob1 \<noteq> []" by (auto simp: h_best_bid_def Let_def)
  then show ?case using h_pop_decreases [of _ "h_objs ob"] by (simp del: length_heappop_rest)
next
  case (3 ev src ob rem acc best ob1 b q t \<sigma>)
  show ?case
    using h_hit_decreases [of "h_bids ob1" "h_objs ob" "h_bids ob" rem q \<sigma>] 3
    by (auto simp: h_best_bid_def Let_def)
qed simp

declare h_match_buy.simps [simp del] h_match_sell.simps [simp del]

definition h_match_order :: "order_event \<Rightarrow> string \<Rightarrow> unified_book \<Rightarrow> py_error + hybrid_trade list \<times> unified_book" where
  "h_match_order ev src ob =
     (case h_parse_side (ev_side ev) of
        Inl e \<Rightarrow> Inl e
      | Inr s \<Rightarrow>
          (let (ts, ob1) = (if s = BUY then h_match_buy ev src ob (ev_quantity ev) []
                            else h_match_sell ev src ob (ev_quantity ev) [])
           in Inr (ts, ob1\<lparr>h_trades := h_trades ob1 @ ts, entry_counter := entry_counter ob1 + 1\<rparr>)))"

subsection \<open>Depth and source mix\<close>

definition add_to :: "string \<Rightarrow> int \<Rightarrow> (string, int) pydict \<Rightarrow> (string, int) pydict" where
  "add_to k v d = dict_set k (dict_get_or d k 0 + v) d"

definition h_add_level ::
  "(nat \<Rightarrow> hybrid_entry) \<Rightarrow> (pyfloat, int \<times> (string, int) pydict) pydict \<Rightarrow> nat \<Rightarrow>
     (pyfloat, int \<times> (string, int) pydict) pydict" where
  "h_add_level \<sigma> levels r =
     (let e = \<sigma> r in
      if remaining e \<le> 0 then levels
      else let (vol, breakdown) = dict_get_or levels (price e) (0, [])
           in dict_set (price e) (vol + remaining e, add_to (source e) (remaining e) breakdown) levels)"

definition h_get_depth :: "nat \<Rightarrow> unified_book \<Rightarrow>
    (pyfloat \<times> int \<times> (string, int) pydict) list \<times> (pyfloat \<times> int \<times> (string, int) pydict) list" where
  "h_get_depth levels ob =
     (take levels (sort_key (\<lambda>x. - fst x) (foldl (h_add_level (h_objs ob)) [] (h_bids ob))),
      take levels (sort_key fst (foldl (h_add_level (h_objs ob)) [] (h_asks ob))))"

definition mix_add :: "(nat \<Rightarrow> hybrid_entry) \<Rightarrow> (string, int) pydict \<Rightarrow> nat \<Rightarrow> (string, int) pydict" where
  "mix_add \<sigma> volumes r =
     (if remaining (\<sigma> r) > 0 then add_to (source (\<sigma> r)) (remaining (\<sigma> r)) volumes else volumes)"

definition mix_volumes :: "unified_book \<Rightarrow> (string, int) pydict" where
  "mix_volumes ob =
     foldl (mix_add (h_objs ob))
       (foldl (mix_add (h_objs ob)) [(''historical'', 0), (''strategy'', 0), (''agent'', 0)] (h_bids ob)) (h_asks ob)"

definition h_get_source_mix :: "unified_book \<Rightarrow> (string, pyfloat) pydict" where
  "h_get_source_mix ob =
     (let volumes = mix_volumes ob; s = sum_list (map snd volumes);
          total = (if s = 0 then 1 else of_int s)
      in map (\<lambda>(k, v). (k, of_int v / total)) volumes)"

definition h_reset :: "unified_book \<Rightarrow> unified_book" where
  "h_reset ob = ob\<lparr>h_bids := [], h_asks := [], h_trades := [], h_buy_map := [], h_sell_map := [], entry_counter := 0\<rparr>"

subsection \<open>The matching loops as sweeps\<close>

definition h_buys :: "order_event \<Rightarrow> pyfloat \<Rightarrow> bool" where
  "h_buys ev p \<longleftrightarrow> \<not> (is_limit (ev_type ev) \<and> p > ev_price ev)"

definition h_sells :: "order_event \<Rightarrow> pyfloat \<Rightarrow> bool" where
  "h_sells ev p \<longleftrightarrow> \<not> (is_limit (ev_type ev) \<and> p < ev_price ev)"

lemma h_best_ask_eq:
  "h_best_ask ob = (top_price (h_objs ob) (clean (h_objs ob) (h_asks ob)), ob\<lparr>h_asks := clean (h_objs ob) (h_asks ob)\<rparr>)"
  by (simp add: h_best_ask_def Let_def top_price_def)

lemma h_best_bid_eq:
  "h_best_bid ob = (top_price (h_objs ob) (clean (h_objs ob) (h_bids ob)), ob\<lparr>h_bids := clean (h_objs ob) (h_bids ob)\<rparr>)"
  by (simp add: h_best_bid_def Let_def top_price_def)

primrec h_buy_trades :: "string \<Rightarrow> string \<Rightarrow> (nat \<Rightarrow> hybrid_entry) \<Rightarrow> (nat \<times> int) list \<Rightarrow> hybrid_trade list" where
  "h_buy_trades inc src \<sigma> [] = []"
| "h_buy_trades inc src \<sigma> (f # fs) =
     \<lparr>h_buy_id = inc, h_sell_id = order_id (\<sigma> (fst f)), h_price = price (\<sigma> (fst f)), h_quantity = snd f,
      buyer_source = src, seller_source = source (\<sigma> (fst f))\<rparr> # h_buy_trades inc src \<sigma> fs"

primrec h_sell_trades :: "string \<Rightarrow> string \<Rightarrow> (nat \<Rightarrow> hybrid_entry) \<Rightarrow> (nat \<times> int) list \<Rightarrow> hybrid_trade list" where
  "h_sell_trades inc src \<sigma> [] = []"
| "h_sell_trades inc src \<sigma> (f # fs) =
     \<lparr>h_buy_id = order_id (\<sigma> (fst f)), h_sell_id = inc, h_price = price (\<sigma> (fst f)), h_quantity = snd f,
      buyer_source = source (\<sigma> (fst f)), seller_source = src\<rparr> # h_sell_trades inc src \<sigma> fs"

lemma h_hit_labels [simp]:
  fixes \<sigma> :: "nat \<Rightarrow> hybrid_entry"
  shows "price (hit \<sigma> a q r) = price (\<sigma> r)" "order_id (hit \<sigma> a q r) = order_id (\<sigma> r)"
    "source (hit \<sigma> a q r) = source (\<sigma> r)"
  by (simp_all add: hit_def)

lemma h_trades_hit [simp]:
  "h_buy_trades inc src (hit \<sigma> a q) fs = h_buy_trades inc src \<sigma> fs"
  "h_sell_trades inc src (hit \<sigma> a q) fs = h_sell_trades inc src \<sigma> fs"
  by (induction fs) auto

lemma h_trades_of_fills:
  "map h_quantity (h_buy_trades inc src \<sigma> fs) = map snd fs"
  "map h_quantity (h_sell_trades inc src \<sigma> fs) = map snd fs"
  "map h_price (h_buy_trades inc src \<sigma> fs) = map (\<lambda>(a, q). price (\<sigma> a)) fs"
  "map h_price (h_sell_trades inc src \<sigma> fs) = map (\<lambda>(a, q). price (\<sigma> a)) fs"
  by (induction fs) auto

definition resting_id :: "order_side \<Rightarrow> hybrid_trade \<Rightarrow> string" where
  \<comment> \<open>the order of the book in a trade of an incoming order of side \<open>s\<close>\<close>
  "resting_id s t = (if s = BUY then h_sell_id t else h_buy_id t)"

lemma h_resting_ids:
  "map (resting_id BUY) (h_buy_trades inc src \<sigma> fs) = map (\<lambda>(a, q). order_id (\<sigma> a)) fs"
  "map (resting_id SELL) (h_sell_trades inc src \<sigma> fs) = map (\<lambda>(a, q). order_id (\<sigma> a)) fs"
  by (induction fs) (auto simp: resting_id_def)

lemma incoming_id_update [simp]:
  "incoming_id (ob\<lparr>h_objs := \<sigma>, h_asks := xs\<rparr>) = incoming_id ob"
  "incoming_id (ob\<lparr>h_objs := \<sigma>, h_bids := xs\<rparr>) = incoming_id ob"
  "incoming_id (ob\<lparr>h_objs := \<sigma>\<rparr>) = incoming_id ob"
  "incoming_id (ob\<lparr>h_asks := xs\<rparr>) = incoming_id ob" "incoming_id (ob\<lparr>h_bids := xs\<rparr>) = incoming_id ob"
  by (simp_all add: incoming_id_def)

lemma top_pos:
  "0 < top_price \<sigma> (clean \<sigma> xs) \<Longrightarrow> clean \<sigma> xs \<noteq> [] \<and> 0 < remaining (\<sigma> (hd (clean \<sigma> xs)))"
  using clean_head [of \<sigma> xs] by (cases "clean \<sigma> xs = []") (auto simp: top_price_def)

lemma h_match_buy_sweep:
  "sweep (h_buys ev) \<sigma> xs m = (\<sigma>', xs', m', fills) \<Longrightarrow> h_objs ob = \<sigma> \<Longrightarrow> h_asks ob = xs \<Longrightarrow>
   h_match_buy ev src ob m acc =
     (acc @ h_buy_trades (incoming_id ob) src \<sigma> fills, ob\<lparr>h_objs := \<sigma>', h_asks := xs'\<rparr>)"
proof (induction \<sigma> xs m arbitrary: ob acc fills rule: sweep_induct [where crosses = "h_buys ev"])
  case (stop \<sigma> xs m)
  then show ?case by (subst h_match_buy.simps) (auto simp: sweep_stop)
next
  case (blocked \<sigma> xs m)
  then show ?case
    by (subst h_match_buy.simps) (auto simp: sweep_blocked h_best_ask_eq h_buys_def)
next
  case (hit \<sigma> xs m a q)
  let ?ys = "after_hit (hit \<sigma> a q) a (clean \<sigma> xs)"
  obtain fs where fs: "fills = (a, q) # fs" and
    rec: "sweep (h_buys ev) (hit \<sigma> a q) ?ys (m - q) = (\<sigma>', xs', m', fs)"
    by (rule sweep_hitD [OF hit.hyps hit.prems(1)])
  note ne = top_pos [OF hit.hyps(2)]
  show ?case
    using hit.hyps(1-3) hit.prems(2,3) ne
    by (subst h_match_buy.simps)
      (simp add: h_best_ask_eq Let_def h_buys_def not_le fs hit.IH [OF rec] flip: hit.hyps(4,5))
qed

lemma h_match_sell_sweep:
  "sweep (h_sells ev) \<sigma> xs m = (\<sigma>', xs', m', fills) \<Longrightarrow> h_objs ob = \<sigma> \<Longrightarrow> h_bids ob = xs \<Longrightarrow>
   h_match_sell ev src ob m acc =
     (acc @ h_sell_trades (incoming_id ob) src \<sigma> fills, ob\<lparr>h_objs := \<sigma>', h_bids := xs'\<rparr>)"
proof (induction \<sigma> xs m arbitrary: ob acc fills rule: sweep_induct [where crosses = "h_sells ev"])
  case (stop \<sigma> xs m)
  then show ?case by (subst h_match_sell.simps) (auto simp: sweep_stop)
next
  case (blocked \<sigma> xs m)
  then show ?case
    by (subst h_match_sell.simps) (auto simp: sweep_blocked h_best_bid_eq h_sells_def)
next
  case (hit \<sigma> xs m a q)
  let ?ys = "after_hit (hit \<sigma> a q) a (clean \<sigma> xs)"
  obtain fs where fs: "fills = (a, q) # fs" and
    rec: "sweep (h_sells ev) (hit \<sigma> a q) ?ys (m - q) = (\<sigma>', xs', m', fs)"
    by (rule sweep_hitD [OF hit.hyps hit.prems(1)])
  note ne = top_pos [OF hit.hyps(2)]
  show ?case
    using hit.hyps(1-3) hit.prems(2,3) ne
    by (subst h_match_sell.simps)
      (simp add: h_best_bid_eq Let_def h_sells_def not_le fs hit.IH [OF rec] flip: hit.hyps(4,5))
qed


subsection \<open>Histories of the book\<close>

definition h_ok :: "unified_book \<Rightarrow> bool" where
  "h_ok ob \<longleftrightarrow>
     side_inv BUY (h_objs ob) (h_bids ob) \<and> side_inv SELL (h_objs ob) (h_asks ob)
     \<and> (\<forall>r \<in> set (h_bids ob) \<union> set (h_asks ob). r < h_fresh ob)"

inductive h_step :: "unified_book \<Rightarrow> unified_book \<Rightarrow> bool" where
  add: "h_step ob (snd (h_add_order now ev src ob))"
| match_ok: "h_match_order ev src ob = Inr (ts, ob') \<Longrightarrow> h_step ob ob'"
| query_bid: "h_step ob (snd (h_best_bid ob))"
| query_ask: "h_step ob (snd (h_best_ask ob))"
| reset: "h_step ob (h_reset ob)"

inductive h_reachable :: "unified_book \<Rightarrow> bool" where
  init: "h_reachable h_init"
| step: "h_reachable ob \<Longrightarrow> h_step ob ob' \<Longrightarrow> h_reachable ob'"

inductive_cases h_stepE: "h_step ob ob'"

lemma h_okD:
  assumes "h_ok ob"
  shows "side_inv BUY (h_objs ob) (h_bids ob)" "side_inv SELL (h_objs ob) (h_asks ob)"
    "r \<in> set (h_bids ob) \<Longrightarrow> r < h_fresh ob"
    "r \<in> set (h_asks ob) \<Longrightarrow> r < h_fresh ob"
  using assms by (auto simp: h_ok_def)

lemma h_okI:
  assumes "side_inv BUY (h_objs ob) (h_bids ob)" "side_inv SELL (h_objs ob) (h_asks ob)"
    "\<And>r. r \<in> set (h_bids ob) \<Longrightarrow> r < h_fresh ob"
    "\<And>r. r \<in> set (h_asks ob) \<Longrightarrow> r < h_fresh ob"
  shows "h_ok ob"
  using assms by (auto simp: h_ok_def)

lemma h_ok_best: "h_ok ob \<Longrightarrow> h_ok (snd (h_best_bid ob))" "h_ok ob \<Longrightarrow> h_ok (snd (h_best_ask ob))"
  using set_clean by (fastforce simp: h_ok_def h_best_bid_eq h_best_ask_eq side_inv_clean)+

lemma h_ok_add:
  assumes ok: "h_ok ob"
  shows "h_ok (snd (h_add_order now ev src ob))"
proof (cases "h_parse_side (ev_side ev)")
  case (Inl e)
  then show ?thesis using ok by (simp add: h_add_order_def h_ok_def Let_def)
next
  case (Inr s)
  show ?thesis
  proof (cases "h_parse_type (ev_type ev)")
    case (Inl e)
    with Inr show ?thesis using ok by (simp add: h_add_order_def h_ok_def Let_def)
  next
    case t: (Inr t)
    let ?r = "h_fresh ob"
    define e where "e = post_init \<lparr>order_id = ''hybrid_'' @ src @ ''_'' @ str_of_nat (entry_counter ob + 1),
      side = s, price = ev_price ev, quantity = ev_quantity ev, remaining = ev_quantity ev, otype = t,
      timestamp = now, agent_id = [], source = src\<rparr>"
    have e: "side e = s" by (simp_all add: e_def post_init_def)
    have nin: "?r \<notin> set (h_bids ob)" "?r \<notin> set (h_asks ob)" using h_okD(3,4) [OF ok] by blast+
    have side: "side_inv s' ((h_objs ob)(?r := e)) xs \<longleftrightarrow> side_inv s' (h_objs ob) xs" if "?r \<notin> set xs" for s' xs
      by (rule side_inv_agree) (use that in auto)
    have push: "side_inv s ((h_objs ob)(?r := e)) (heappush (ref_lt ((h_objs ob)(?r := e))) xs ?r)"
      if "side_inv s (h_objs ob) xs" "?r \<notin> set xs" for xs
      by (rule side_inv_push) (use that side e in auto)
    have "snd (h_add_order now ev src ob) =
        (let \<sigma> = (h_objs ob)(?r := e); ob2 = ob\<lparr>entry_counter := entry_counter ob + 1, h_objs := \<sigma>, h_fresh := ?r + 1\<rparr>
         in if s = BUY
            then ob2\<lparr>h_bids := heappush (ref_lt \<sigma>) (h_bids ob) ?r, h_buy_map := dict_set (''hybrid_'' @ src @ ''_'' @ str_of_nat (entry_counter ob + 1)) ?r (h_buy_map ob)\<rparr>
            else ob2\<lparr>h_asks := heappush (ref_lt \<sigma>) (h_asks ob) ?r, h_sell_map := dict_set (''hybrid_'' @ src @ ''_'' @ str_of_nat (entry_counter ob + 1)) ?r (h_sell_map ob)\<rparr>)"
      using Inr t by (simp add: h_add_order_def Let_def e_def)
    then show ?thesis
      using h_okD [OF ok] nin side push e by (cases s) (auto simp: h_ok_def Let_def intro: less_SucI)
  qed
qed

text \<open>One description of a match for both sides.\<close>

definition h_side :: "order_side \<Rightarrow> unified_book \<Rightarrow> nat list" where
  "h_side s ob = (if s = BUY then h_bids ob else h_asks ob)"

definition h_volume :: "order_side \<Rightarrow> unified_book \<Rightarrow> int" where
  "h_volume s ob = (if s = BUY then h_bid_volume ob else h_ask_volume ob)"

definition other_side :: "order_side \<Rightarrow> order_side" where
  "other_side s = (if s = BUY then SELL else BUY)"

definition h_accepts :: "order_event \<Rightarrow> order_side \<Rightarrow> pyfloat \<Rightarrow> bool" where
  \<comment> \<open>the price protection of an incoming order\<close>
  "h_accepts ev s p \<longleftrightarrow> (is_limit (ev_type ev) \<longrightarrow> better (other_side s) p (ev_price ev))"

lemma h_volume_eq: "h_volume s ob = volume (h_objs ob) (h_side s ob)"
  by (simp add: h_volume_def h_side_def h_bid_volume_def h_ask_volume_def)

lemma h_side_inv: "h_ok ob \<Longrightarrow> side_inv s (h_objs ob) (h_side s ob)"
  by (cases s) (auto simp: h_side_def dest: h_okD)

lemma h_accepts_eq: "h_accepts ev BUY = h_buys ev" "h_accepts ev SELL = h_sells ev"
  by (auto simp: h_accepts_def h_buys_def h_sells_def better_def other_side_def fun_eq_iff)

lemma h_match_cases:
  assumes "h_match_order ev src ob = Inr (ts, ob')"
  obtains s \<sigma>' xs' m' fills where "h_parse_side (ev_side ev) = Inr s"
    "sweep (h_accepts ev s) (h_objs ob) (h_side (other_side s) ob) (ev_quantity ev) = (\<sigma>', xs', m', fills)"
    "map h_quantity ts = map snd fills" "map h_price ts = map (\<lambda>(a, q). price (h_objs ob a)) fills"
    "map (resting_id s) ts = map (\<lambda>(a, q). order_id (h_objs ob a)) fills"
    "h_objs ob' = \<sigma>'" "h_side (other_side s) ob' = xs'" "h_side s ob' = h_side s ob" "h_fresh ob' = h_fresh ob"
    "h_trades ob' = h_trades ob @ ts"
proof -
  obtain s where s: "h_parse_side (ev_side ev) = Inr s"
    using assms by (auto simp: h_match_order_def split: sum.splits)
  obtain \<sigma>' xs' m' fills where
    sw: "sweep (h_accepts ev s) (h_objs ob) (h_side (other_side s) ob) (ev_quantity ev) = (\<sigma>', xs', m', fills)"
    using prod_cases4 by blast
  show ?thesis
  proof (cases s)
    case BUY
    then have sb: "sweep (h_buys ev) (h_objs ob) (h_asks ob) (ev_quantity ev) = (\<sigma>', xs', m', fills)"
      using sw by (simp add: h_accepts_eq h_side_def other_side_def)
    show ?thesis
      by (rule that [OF s sw])
        (use assms s BUY h_match_buy_sweep [OF sb refl refl, of src "[]"] in
          \<open>auto simp: h_match_order_def h_trades_of_fills h_resting_ids h_side_def other_side_def\<close>)
  next
    case SELL
    then have sb: "sweep (h_sells ev) (h_objs ob) (h_bids ob) (ev_quantity ev) = (\<sigma>', xs', m', fills)"
      using sw by (simp add: h_accepts_eq h_side_def other_side_def)
    show ?thesis
      by (rule that [OF s sw])
        (use assms s SELL h_match_sell_sweep [OF sb refl refl, of src "[]"] in
          \<open>auto simp: h_match_order_def h_trades_of_fills h_resting_ids h_side_def other_side_def\<close>)
  qed
qed

lemma h_ok_match:
  assumes ok: "h_ok ob" and m: "h_match_order ev src ob = Inr (ts, ob')"
  shows "h_ok ob'"
proof -
  obtain s \<sigma>' xs' m' fills where
    sw: "sweep (h_accepts ev s) (h_objs ob) (h_side (other_side s) ob) (ev_quantity ev) = (\<sigma>', xs', m', fills)"
    and ob': "h_objs ob' = \<sigma>'" "h_side (other_side s) ob' = xs'" "h_side s ob' = h_side s ob" "h_fresh ob' = h_fresh ob"
    by (rule h_match_cases [OF m]) blast
  note fr = sweep_frame [OF sw h_side_inv [OF ok]]
  have k: "same_keys (h_objs ob) \<sigma>'" using fr by blast
  then have pr: "price (\<sigma>' r) = price (h_objs ob r)" for r by (simp add: same_keys_def)
  show ?thesis
    using fr h_okD [OF ok] ob' side_inv_same_keys [OF k]
    by (cases s) (auto simp: h_ok_def h_side_def other_side_def pr)
qed

lemma h_step_ok: "h_step ob ob' \<Longrightarrow> h_ok ob \<Longrightarrow> h_ok ob'"
  by (erule h_stepE) (auto simp: h_ok_add h_ok_match h_ok_best h_reset_def h_ok_def [of "_\<lparr>h_bids := _\<rparr>"]
      intro: h_okI)

lemma h_reachable_ok: "h_reachable ob \<Longrightarrow> h_ok ob"
proof (induction rule: h_reachable.induct)
  case init
  show ?case by (simp add: h_ok_def h_init_def)
next
  case (step ob ob')
  then show ?case using h_step_ok by blast
qed


subsection \<open>Properties\<close>

definition h_event :: "string \<Rightarrow> int \<Rightarrow> pyfloat \<Rightarrow> string \<Rightarrow> order_event" where
  "h_event sd q p t = \<lparr>ev_side = sd, ev_quantity = q, ev_price = p, ev_type = Some t\<rparr>"

definition h_demo :: unified_book where
  "h_demo =
     snd (h_add_order 2 (h_event ''SELL'' 4 11 ''LIMIT'') ''strategy''
       (snd (h_add_order 1 (h_event ''SELL'' 3 10 ''LIMIT'') ''agent'' h_init)))"

lemma h_demo_reachable: "h_reachable h_demo"
  unfolding h_demo_def
  by (rule h_reachable.step [OF h_reachable.step [OF h_reachable.init h_step.add] h_step.add])

definition h_demo_match :: "hybrid_trade list \<times> unified_book" where
  "h_demo_match = (case h_match_order (h_event ''buy'' 9 10 ''limit'') ''historical'' h_demo of
     Inr r \<Rightarrow> r | Inl _ \<Rightarrow> ([], h_demo))"

lemma h_demo_side: "h_parse_side ''buy'' = Inr BUY"
  by code_simp

lemma h_demo_matches:
  "h_match_order (h_event ''buy'' 9 10 ''limit'') ''historical'' h_demo = Inr (fst h_demo_match, snd h_demo_match)"
  by (simp add: h_demo_match_def h_match_order_def h_demo_side h_event_def split: prod.split)

lemma sweep_time_priority:
  "sweep crosses \<sigma> xs rem = (\<sigma>', xs', rem', fills) \<Longrightarrow> side_inv s \<sigma> xs \<Longrightarrow>
     sorted_wrt (\<lambda>a b. \<not> ref_lt \<sigma> b a) (map fst fills) \<and> set (map fst fills) \<subseteq> set xs"
proof (induction \<sigma> xs rem arbitrary: fills rule: sweep_induct [where crosses = crosses])
  case (hit \<sigma> xs rem a q)
  note st = hit_step [OF hit.prems(2) hit.hyps(1,2,4,5)]
  let ?ys = "after_hit (hit \<sigma> a q) a (clean \<sigma> xs)"
  obtain fs where fs: "fills = (a, q) # fs" and
    rec: "sweep crosses (hit \<sigma> a q) ?ys (rem - q) = (\<sigma>', xs', rem', fs)"
    by (rule sweep_hitD [OF _ _ _ _ _ hit.prems(1)]) (rule hit.hyps)+
  have lt: "ref_lt (hit \<sigma> a q) = ref_lt \<sigma>" by (rule same_keys_ref_lt) simp
  have top: "\<not> ref_lt \<sigma> r a" if "r \<in> set (clean \<sigma> xs)" for r
    using side_heap.heap_top_least [of \<sigma> "clean \<sigma> xs" s r] side_inv_clean [OF hit.prems(2)] that hit.hyps(4)
    by (auto simp: side_inv_def)
  have ih: "sorted_wrt (\<lambda>a b. \<not> ref_lt \<sigma> b a) (map fst fs)" "set (map fst fs) \<subseteq> set ?ys"
    using hit.IH [OF rec st(7)] by (simp_all add: lt)
  have "\<not> ref_lt \<sigma> b a" if "b \<in> set (map fst fs)" for b
    using that ih(2) top set_after_hit [of "hit \<sigma> a q" a "clean \<sigma> xs"] by blast
  then show ?case using ih st(1,8) by (auto simp: fs)
qed (auto simp: sweep_stop sweep_blocked)

text \<open>What is left over an unfilled rest: nothing acceptable, or a best entry whose price is not positive, which ends the loop.\<close>

lemma sweep_leaves:
  assumes mono: "\<And>p q. better s p q \<Longrightarrow> crosses q \<Longrightarrow> crosses p"
  shows "sweep crosses \<sigma> xs rem = (\<sigma>', xs', rem', fills) \<Longrightarrow> side_inv s \<sigma> xs \<Longrightarrow> 0 < rem' \<Longrightarrow>
     (\<forall>r \<in> set xs. 0 < remaining (\<sigma>' r) \<longrightarrow> \<not> crosses (price (\<sigma> r)))
     \<or> (\<exists>a \<in> set xs. 0 < remaining (\<sigma>' a) \<and> price (\<sigma> a) \<le> 0
          \<and> (\<forall>r \<in> set xs. 0 < remaining (\<sigma>' r) \<longrightarrow> better s (price (\<sigma> a)) (price (\<sigma> r))))"
proof (induction \<sigma> xs rem arbitrary: fills rule: sweep_induct [where crosses = crosses])
  case (hit \<sigma> xs rem a q)
  note st = hit_step [OF hit.prems(2) hit.hyps(1,2,4,5)]
  let ?ys = "after_hit (hit \<sigma> a q) a (clean \<sigma> xs)"
  obtain fs where
    rec: "sweep crosses (hit \<sigma> a q) ?ys (rem - q) = (\<sigma>', xs', rem', fs)"
    by (rule sweep_hitD [OF _ _ _ _ _ hit.prems(1)]) (rule hit.hyps)+
  have pr: "price (hit \<sigma> a q r) = price (\<sigma> r)" for r by (simp add: hit_def)
  have "r \<in> set ?ys" if "r \<in> set xs" "0 < remaining (\<sigma>' r)" for r
    using that st(9) [of r] sweep_frame [OF rec st(7)] by (meson less_le_trans)
  then show ?case using hit.IH [OF rec st(7) hit.prems(3)] st(8) unfolding pr by blast
next
  case (blocked \<sigma> xs rem)
  then have eq: "\<sigma>' = \<sigma>" by (simp add: sweep_blocked)
  show ?case
  proof (cases "\<exists>r \<in> set xs. 0 < remaining (\<sigma>' r) \<and> crosses (price (\<sigma> r))")
    case True
    then obtain r where r: "r \<in> set xs" "0 < remaining (\<sigma> r)" "crosses (price (\<sigma> r))" using eq by blast
    let ?a = "hd (clean \<sigma> xs)"
    have ne: "clean \<sigma> xs \<noteq> []" and b: "\<And>r. r \<in> set xs \<Longrightarrow> 0 < remaining (\<sigma> r) \<Longrightarrow> better s (price (\<sigma> ?a)) (price (\<sigma> r))"
      using clean_best [OF blocked.prems(2)] r by (auto simp: top_price_def split: if_splits)
    have "price (\<sigma> ?a) \<le> 0"
      using blocked.hyps(2) mono [OF b [OF r(1,2)] r(3)] ne by (auto simp: top_price_def)
    moreover have "?a \<in> set xs" using ne set_clean [of \<sigma> xs] by (meson hd_in_set subsetD)
    ultimately show ?thesis using b clean_head [OF ne] eq by blast
  qed blast
qed (auto simp: sweep_stop)

text \<open>C11: matching an order of \<open>q\<close> units, \<open>q\<close> not negative, against the hybrid book after any history trades
  \<open>filled \<le> q\<close> units, all taken from the opposite side, at positive prices the order accepts; the resting orders it
  trades with come best price first and, at one price, earliest first; the order's own side is untouched. If
  anything stays unfilled, no live entry at an acceptable price is left, unless the best live entry of
  the opposite side has a price that is not positive, which ends the matching.\<close>

theorem hybrid_match_conserves:
  assumes "h_reachable ob" and "h_match_order ev src ob = Inr (ts, ob')"
    and "h_parse_side (ev_side ev) = Inr s" and "0 \<le> ev_quantity ev"
  shows "let filled = (\<Sum>t\<leftarrow>ts. h_quantity t); opp = set (h_side (other_side s) ob);
        live = (\<lambda>r. 0 < remaining (h_objs ob' r)); pr = (\<lambda>r. price (h_objs ob r)) in
      filled \<le> ev_quantity ev
      \<and> h_volume (other_side s) ob' = h_volume (other_side s) ob - filled
      \<and> h_volume s ob' = h_volume s ob
      \<and> (\<forall>t \<in> set ts. 0 < h_quantity t \<and> 0 < h_price t \<and> h_accepts ev s (h_price t))
      \<and> (\<exists>rs. map (resting_id s) ts = map (\<lambda>r. order_id (h_objs ob r)) rs \<and> map h_price ts = map pr rs \<and> set rs \<subseteq> opp
           \<and> sorted_wrt (\<lambda>a b. \<not> ref_lt (h_objs ob) b a) rs)
      \<and> sorted_wrt (better (other_side s)) (map h_price ts)
      \<and> (filled < ev_quantity ev \<longrightarrow>
           (\<forall>r \<in> opp. live r \<longrightarrow> \<not> h_accepts ev s (pr r))
           \<or> (\<exists>a \<in> opp. live a \<and> pr a \<le> 0 \<and> (\<forall>r \<in> opp. live r \<longrightarrow> better (other_side s) (pr a) (pr r))))"
proof -
  note ok = h_reachable_ok [OF assms(1)]
  obtain s' \<sigma>' xs' m' fills where s': "h_parse_side (ev_side ev) = Inr s'"
    and sw: "sweep (h_accepts ev s') (h_objs ob) (h_side (other_side s') ob) (ev_quantity ev) = (\<sigma>', xs', m', fills)"
    and ts: "map h_quantity ts = map snd fills" "map h_price ts = map (\<lambda>(a, q). price (h_objs ob a)) fills"
    and ids: "map (resting_id s') ts = map (\<lambda>(a, q). order_id (h_objs ob a)) fills"
    and ob': "h_objs ob' = \<sigma>'" "h_side (other_side s') ob' = xs'" "h_side s' ob' = h_side s' ob"
    by (rule h_match_cases [OF assms(2)]) blast
  have [simp]: "s' = s" using s' assms(3) by simp
  note am = sweep_amounts [OF sw h_side_inv [OF ok] assms(4)] and fr = sweep_frame [OF sw h_side_inv [OF ok]]
  note pr = sweep_priority [OF sw h_side_inv [OF ok]] and tm = sweep_time_priority [OF sw h_side_inv [OF ok]]
  have own: "h_volume s ob' = h_volume s ob"
  proof -
    have ne: "other_side s \<noteq> s" by (simp add: other_side_def)
    have "r \<notin> set (h_side (other_side s) ob)" if "r \<in> set (h_side s ob)" for r
      using that ne h_side_inv [OF ok, of s] h_side_inv [OF ok, of "other_side s"] unfolding side_inv_def by metis
    then show ?thesis
      using fr ob' by (auto simp: h_volume_eq intro: volume_cong)
  qed
  have each: "0 < h_quantity t \<and> 0 < h_price t \<and> h_accepts ev s (h_price t)" if "t \<in> set ts" for t
  proof -
    have "h_quantity t \<in> set (map snd fills)" "h_price t \<in> set (map (\<lambda>(a, q). price (h_objs ob a)) fills)"
      using that by (simp_all flip: ts)
    then show ?thesis using am by auto
  qed
  have mono: "\<And>p q. better (other_side s) p q \<Longrightarrow> h_accepts ev s q \<Longrightarrow> h_accepts ev s p"
    by (auto simp: h_accepts_def better_def other_side_def split: if_splits)
  have rest: "(\<forall>r \<in> set (h_side (other_side s) ob). 0 < remaining (h_objs ob' r) \<longrightarrow> \<not> h_accepts ev s (price (h_objs ob r)))
      \<or> (\<exists>a \<in> set (h_side (other_side s) ob). 0 < remaining (h_objs ob' a) \<and> price (h_objs ob a) \<le> 0
          \<and> (\<forall>r \<in> set (h_side (other_side s) ob). 0 < remaining (h_objs ob' r) \<longrightarrow>
                better (other_side s) (price (h_objs ob a)) (price (h_objs ob r))))" if "0 < m'"
    unfolding ob'(1) by (rule sweep_leaves [OF _ sw [unfolded \<open>s' = s\<close>] h_side_inv [OF ok] that]) (rule mono)
  have order: "\<exists>rs. map (resting_id s) ts = map (\<lambda>r. order_id (h_objs ob r)) rs \<and> map h_price ts = map (\<lambda>r. price (h_objs ob r)) rs
      \<and> set rs \<subseteq> set (h_side (other_side s) ob) \<and> sorted_wrt (\<lambda>a b. \<not> ref_lt (h_objs ob) b a) rs"
    using ids ts(2) tm by (intro exI [of _ "map fst fills"]) (auto simp: case_prod_beta' comp_def)
  have filled: "(\<Sum>t\<leftarrow>ts. h_quantity t) = (\<Sum>(a, q)\<leftarrow>fills. q)" by (simp add: ts(1) fills_sum)
  have sorted: "sorted_wrt (better (other_side s)) (map h_price ts)"
    using pr by (simp add: ts(2) sorted_wrt_map case_prod_beta')
  have bounds: "(\<Sum>(a, q)\<leftarrow>fills. q) \<le> ev_quantity ev" "h_volume (other_side s) ob' = h_volume (other_side s) ob - (\<Sum>(a, q)\<leftarrow>fills. q)"
    "(\<Sum>(a, q)\<leftarrow>fills. q) < ev_quantity ev \<longrightarrow> 0 < m'"
    using am ob' by (simp_all add: h_volume_eq)
  show ?thesis
    unfolding Let_def filled
    by (intro conjI ballI impI) (use own each order sorted bounds rest in blast)+
qed

theorem hybrid_match_conserves_witness:
  "h_volume SELL (snd h_demo_match) = 4 \<and> h_volume BUY (snd h_demo_match) = h_volume BUY h_demo"
proof -
  have "map h_quantity (fst h_demo_match) = [3]" and v: "h_volume SELL h_demo = 7" by code_simp+
  then show ?thesis
    using hybrid_match_conserves [OF h_demo_reachable h_demo_matches, of BUY]
    by (simp add: Let_def h_event_def h_demo_side other_side_def)
qed

text \<open>A market sell that is added with the default price of zero becomes the best ask and ends every matching.\<close>

definition h_blocked :: unified_book where
  "h_blocked = snd (h_add_order 3 (h_event ''SELL'' 1 0 ''MARKET'') ''agent'' h_demo)"

lemma zero_price_ask_blocks: "map_sum id (map h_quantity \<circ> fst) (h_match_order (h_event ''buy'' 5 20 ''market'') ''strategy'' h_blocked) = Inr []"
  by code_simp

lemma sum_add_to: "dict_ok d \<Longrightarrow> sum_list (map snd (add_to k v d)) = sum_list (map snd d) + v"
  by (simp add: add_to_def sum_dict_set)

lemma add_to_ok [simp]: "dict_ok d \<Longrightarrow> dict_ok (add_to k v d)"
  by (simp add: add_to_def)

text \<open>Levels: every breakdown adds up to its level.\<close>

definition level_ok :: "(nat \<Rightarrow> hybrid_entry) \<Rightarrow> nat list \<Rightarrow> pyfloat \<times> int \<times> (string, int) pydict \<Rightarrow> bool" where
  "level_ok \<sigma> xs l \<longleftrightarrow>
     (case l of (p, v, breakdown) \<Rightarrow>
        dict_ok breakdown \<and> sum_list (map snd breakdown) = v \<and> v = volume \<sigma> (filter (\<lambda>r. price (\<sigma> r) = p) xs))"

lemma h_levels:
  fixes \<sigma> :: "nat \<Rightarrow> hybrid_entry"
  defines "lv \<equiv> \<lambda>xs. foldl (h_add_level \<sigma>) [] xs"
  shows "dict_ok (lv xs) \<and> (\<forall>l \<in> set (lv xs). level_ok \<sigma> xs l)
    \<and> (\<forall>p. map_of (lv xs) p = None \<longrightarrow> volume \<sigma> (filter (\<lambda>r. price (\<sigma> r) = p) xs) = 0)"
proof (induction xs rule: rev_induct)
  case (snoc r xs)
  let ?d = "lv xs" and ?p = "price (\<sigma> r)"
  have ih: "dict_ok ?d" "\<And>p v b. (p, v, b) \<in> set ?d \<Longrightarrow> level_ok \<sigma> xs (p, v, b)"
    "\<And>p. map_of ?d p = None \<Longrightarrow> volume \<sigma> (filter (\<lambda>r. price (\<sigma> r) = p) xs) = 0"
    using snoc by auto
  have eq: "lv (xs @ [r]) = h_add_level \<sigma> ?d r" by (simp add: lv_def)
  obtain v b where vb: "dict_get_or ?d ?p (0, []) = (v, b)" by fastforce
  have cur: "dict_ok b \<and> sum_list (map snd b) = v \<and> v = volume \<sigma> (filter (\<lambda>r'. price (\<sigma> r') = ?p) xs)"
    using vb ih(2) [of ?p v b] ih(3) [of ?p] by (auto simp: dict_get_or_def level_ok_def split: option.splits dest: map_of_SomeD)
  show ?case
  proof (cases "remaining (\<sigma> r) \<le> 0")
    case True
    then show ?thesis
      using ih unfolding eq by (auto simp: h_add_level_def level_ok_def volume_Cons)
  next
    case False
    let ?new = "(v + remaining (\<sigma> r), add_to (source (\<sigma> r)) (remaining (\<sigma> r)) b)"
    have eq': "lv (xs @ [r]) = dict_set ?p ?new ?d" unfolding eq using False vb by (simp add: h_add_level_def Let_def)
    have "level_ok \<sigma> (xs @ [r]) l" if "l \<in> set (dict_set ?p ?new ?d)" for l
    proof (cases "fst l = ?p")
      case True
      have "map_of (dict_set ?p ?new ?d) (fst l) = Some (snd l)"
        using that ih(1) by (intro dict_get_in) auto
      with True have "l = (?p, ?new)" by (cases l) auto
      then show ?thesis
        using cur False by (auto simp: level_ok_def sum_add_to volume_Cons)
    next
      case other: False
      have "level_ok \<sigma> (xs @ [r]) l = level_ok \<sigma> xs l"
        using other by (cases l) (auto simp: level_ok_def)
      moreover have "l \<in> set ?d" using other dict_set_elem [OF that] by auto
      ultimately show ?thesis
        using ih(2) by (cases l) simp
    qed
    moreover have "volume \<sigma> (filter (\<lambda>r. price (\<sigma> r) = p) (xs @ [r])) = 0" if "map_of (dict_set ?p ?new ?d) p = None" for p
      using that ih(3) [of p] by (simp split: if_splits)
    ultimately show ?thesis
      unfolding eq' using dict_ok_set [OF ih(1)] by blast
  qed
qed (simp add: lv_def)

text \<open>In the depth of the hybrid book every level's volume is the open quantity at its price,
  and its breakdown by source adds up to that volume.\<close>

theorem hybrid_depth_breakdown:
  "list_all (level_ok (h_objs ob) (h_bids ob)) (fst (h_get_depth n ob))
   \<and> list_all (level_ok (h_objs ob) (h_asks ob)) (snd (h_get_depth n ob))"
proof -
  have "list_all (level_ok (h_objs ob) xs) (take n (sort_key f (foldl (h_add_level (h_objs ob)) [] xs)))"
    for f :: "pyfloat \<times> int \<times> (string, int) pydict \<Rightarrow> pyfloat" and xs
    using h_levels [where \<sigma> = "h_objs ob" and xs = xs] by (auto simp: list_all_iff dest: in_set_takeD)
  then show ?thesis by (simp add: h_get_depth_def)
qed

lemma mix_sum: "dict_ok d \<Longrightarrow> dict_ok (foldl (mix_add \<sigma>) d xs)
    \<and> sum_list (map snd (foldl (mix_add \<sigma>) d xs)) = sum_list (map snd d) + volume \<sigma> xs"
  by (induction xs arbitrary: d) (auto simp: mix_add_def sum_add_to volume_Cons)

lemma mix_total: "sum_list (map snd (mix_volumes ob)) = h_bid_volume ob + h_ask_volume ob"
proof -
  have d: "dict_ok [(''historical'', 0), (''strategy'', 0), (''agent'', 0)]" by (simp add: dict_ok_def)
  show ?thesis
    using mix_sum [OF d, of "h_objs ob" "h_bids ob"]
      mix_sum [of "foldl (mix_add (h_objs ob)) [(''historical'', 0), (''strategy'', 0), (''agent'', 0)] (h_bids ob)" "h_objs ob" "h_asks ob"]
    by (simp add: mix_volumes_def h_bid_volume_def h_ask_volume_def)
qed

text \<open>The source mix is a distribution: its shares add up to 1 as soon as anything is open in
  the book, and to 0 for an empty one.\<close>

theorem hybrid_source_mix_total:
  "sum_list (map snd (h_get_source_mix ob)) = (if h_bid_volume ob + h_ask_volume ob = 0 then 0 else 1)"
proof -
  have "sum_list (map snd (map (\<lambda>(k, v). (k, of_int v / t)) vs)) = of_int (sum_list (map snd vs)) / t"
    for t :: rat and vs :: "(string \<times> int) list"
    by (induction vs) (auto simp: add_divide_distrib)
  then show ?thesis
    by (simp add: h_get_source_mix_def Let_def mix_total)
qed

end
