(* ===== verification/Order_Merge.thy ===== *)
theory Order_Merge
  imports Heapq "HOL-Library.Product_Lexorder" "HOL-Library.List_Lexorder" "HOL-Library.Char_ord"
begin

text \<open>
  The merge layer (\<open>backtesting/hybrid/order_merge.py\<close>): three flows of events and orders,
  merged through one heap. A \<open>MergedOrder\<close> is a dataclass with \<open>order=True\<close>, so \<open><\<close> compares
  the tuples of all fields and can raise once the leading fields tie; the heap operations are
  therefore modelled with a fallible comparison, and shown to agree with \<open>Heapq\<close> when no
  comparison raises. \<open>'p\<close> is an event's payload and \<open>'o\<close> an order, both up to \<open>==\<close>; \<open>show_ts\<close>
  is how \<open>timestamp.timestamp()\<close> prints.
\<close>

subsection \<open>Heap operations with a comparison that can raise\<close>

function siftdown_e :: "('a \<Rightarrow> 'a \<Rightarrow> py_error + bool) \<Rightarrow> 'a list \<Rightarrow> nat \<Rightarrow> 'a \<Rightarrow> py_error + 'a list" where
  "siftdown_e cmp xs pos newitem =
     (if pos = 0 then Inr (xs[pos := newitem])
      else case cmp newitem (xs ! ((pos - 1) div 2)) of
             Inl e \<Rightarrow> Inl e
           | Inr b \<Rightarrow>
               if b then siftdown_e cmp (xs[pos := xs ! ((pos - 1) div 2)]) ((pos - 1) div 2) newitem
               else Inr (xs[pos := newitem]))"
  by pat_completeness auto
termination
  by (relation "measure (\<lambda>(cmp, xs, pos, newitem). pos)") auto

definition heappush_e :: "('a \<Rightarrow> 'a \<Rightarrow> py_error + bool) \<Rightarrow> 'a list \<Rightarrow> 'a \<Rightarrow> py_error + 'a list" where
  "heappush_e cmp xs item = siftdown_e cmp (xs @ [item]) (length xs) item"

definition smaller_child_e :: "('a \<Rightarrow> 'a \<Rightarrow> py_error + bool) \<Rightarrow> 'a list \<Rightarrow> nat \<Rightarrow> py_error + nat" where
  "smaller_child_e cmp xs pos =
     (if 2 * pos + 2 < length xs
      then case cmp (xs ! (2 * pos + 1)) (xs ! (2 * pos + 2)) of
             Inl e \<Rightarrow> Inl e
           | Inr b \<Rightarrow> Inr (if b then 2 * pos + 1 else 2 * pos + 2)
      else Inr (2 * pos + 1))"

lemma smaller_child_e_bounds:
  "smaller_child_e cmp xs pos = Inr c \<Longrightarrow> 2 * pos + 1 < length xs \<Longrightarrow> pos < c \<and> c < length xs"
  by (auto simp: smaller_child_e_def split: if_splits sum.splits)

function siftup_e :: "('a \<Rightarrow> 'a \<Rightarrow> py_error + bool) \<Rightarrow> 'a list \<Rightarrow> nat \<Rightarrow> 'a \<Rightarrow> py_error + 'a list" where
  "siftup_e cmp xs pos newitem =
     (if 2 * pos + 1 < length xs
      then case smaller_child_e cmp xs pos of
             Inl e \<Rightarrow> Inl e
           | Inr c \<Rightarrow> siftup_e cmp (xs[pos := xs ! c]) c newitem
      else siftdown_e cmp xs pos newitem)"
  by pat_completeness auto
termination
  by (relation "measure (\<lambda>(cmp, xs, pos, newitem). length xs - pos)")
    (auto dest: smaller_child_e_bounds)

declare siftdown_e.simps [simp del] siftup_e.simps [simp del]

definition heappop_e :: "('a \<Rightarrow> 'a \<Rightarrow> py_error + bool) \<Rightarrow> 'a list \<Rightarrow> py_error + 'a \<times> 'a list" where
  "heappop_e cmp xs =
     (if xs = [] then Inl IndexError
      else if length xs = 1 then Inr (hd xs, [])
      else case siftup_e cmp ((butlast xs)[0 := last xs]) 0 (last xs) of
             Inl e \<Rightarrow> Inl e
           | Inr ys \<Rightarrow> Inr (hd xs, ys))"

text \<open>What they return is what the plain operations return for the order the comparison decides.\<close>

definition decides :: "('a \<Rightarrow> 'a \<Rightarrow> py_error + bool) \<Rightarrow> 'a \<Rightarrow> 'a \<Rightarrow> bool" where
  "decides cmp a b \<longleftrightarrow> cmp a b = Inr True"

lemma decides_eq: "cmp a b = Inr t \<Longrightarrow> decides cmp a b \<longleftrightarrow> t"
  by (simp add: decides_def)

lemma siftdown_e_ok: "siftdown_e cmp xs pos x = Inr ys \<Longrightarrow> siftdown (decides cmp) xs pos x = ys"
proof (induction cmp xs pos x arbitrary: ys rule: siftdown_e.induct)
  case (1 cmp xs pos x)
  from 1(2) show ?case
    by (subst (asm) siftdown_e.simps, subst siftdown.simps)
      (use 1(1) in \<open>auto simp: decides_eq split: if_splits sum.splits\<close>)
qed

lemma smaller_child_e_ok: "smaller_child_e cmp xs pos = Inr c \<Longrightarrow> smaller_child (decides cmp) xs pos = c"
  by (auto simp: smaller_child_e_def smaller_child_def decides_def split: if_splits sum.splits)

lemma siftup_e_ok: "siftup_e cmp xs pos x = Inr ys \<Longrightarrow> siftup (decides cmp) xs pos x = ys"
proof (induction cmp xs pos x arbitrary: ys rule: siftup_e.induct)
  case (1 cmp xs pos x)
  from 1(2) show ?case
    by (subst (asm) siftup_e.simps, subst siftup.simps)
      (use 1(1) in \<open>auto simp: siftdown_e_ok smaller_child_e_ok split: if_splits sum.splits\<close>)
qed

lemma heappush_e_ok: "heappush_e cmp xs x = Inr ys \<Longrightarrow> heappush (decides cmp) xs x = ys"
  by (simp add: heappush_e_def heappush_def siftdown_e_ok)

lemma heappop_e_ok:
  "heappop_e cmp xs = Inr (x, ys) \<Longrightarrow> xs \<noteq> [] \<and> x = hd xs \<and> heappop_rest (decides cmp) xs = ys"
  by (cases xs) (auto simp: heappop_e_def heappop_rest_def siftup_e_ok split: if_splits sum.splits)

subsection \<open>Merged orders\<close>

record 'p market_event =
  event_id :: string
  e_timestamp :: pytime
  instrument_id :: string
  market_id :: string
  event_type :: string
  payload :: 'p
  e_priority :: int

definition event_lt :: "'p market_event \<Rightarrow> 'p market_event \<Rightarrow> bool" where
  "event_lt a b =
     (if e_timestamp a = e_timestamp b then e_priority a < e_priority b else e_timestamp a < e_timestamp b)"

record ('p, 'o) merged_order =
  m_timestamp :: pytime
  priority :: int
  m_order_id :: string
  m_source :: string
  m_event :: "'p market_event option"
  m_order :: "'o option"
  latency_us :: pyfloat

definition merged_key :: "('p, 'o) merged_order \<Rightarrow> pytime \<times> int \<times> string \<times> string" where
  "merged_key a = (m_timestamp a, priority a, m_order_id a, m_source a)"

definition merged_cmp :: "('p, 'o) merged_order \<Rightarrow> ('p, 'o) merged_order \<Rightarrow> py_error + bool" where
  \<comment> \<open>\<open><\<close> of the tuples of fields: the first two that differ decide, by their own \<open><\<close>\<close>
  "merged_cmp a b =
     (if merged_key a \<noteq> merged_key b then Inr (merged_key a < merged_key b)
      else if m_event a \<noteq> m_event b
      then (case (m_event a, m_event b) of
              (Some x, Some y) \<Rightarrow> Inr (event_lt x y)
            | (Some x, None) \<Rightarrow> Inl AttributeError
            | _ \<Rightarrow> Inl TypeError)
      else if m_order a \<noteq> m_order b then Inl TypeError
      else Inr (latency_us a < latency_us b))"

subsection \<open>The merge layer\<close>

type_synonym ('p, 'o) merge_heap = "('p, 'o) merged_order list"

definition historical_item :: "'p market_event \<Rightarrow> ('p, 'o) merged_order" where
  "historical_item e =
     \<lparr>m_timestamp = e_timestamp e, priority = e_priority e, m_order_id = event_id e,
      m_source = ''historical'', m_event = Some e, m_order = None, latency_us = 0\<rparr>"

definition strategy_item :: "(pytime \<Rightarrow> string) \<Rightarrow> pytime \<Rightarrow> nat \<Rightarrow> 'o \<Rightarrow> ('p, 'o) merged_order" where
  "strategy_item show_ts ts i ord =
     \<lparr>m_timestamp = ts, priority = 10, m_order_id = ''strategy_'' @ show_ts ts @ ''_'' @ str_of_nat i,
      m_source = ''strategy'', m_event = None, m_order = Some ord, latency_us = 0\<rparr>"

definition agent_item :: "(pytime \<Rightarrow> string) \<Rightarrow> pytime \<Rightarrow> pyfloat \<Rightarrow> nat \<Rightarrow> 'o \<Rightarrow> ('p, 'o) merged_order" where
  "agent_item show_ts ts lat i ord =
     \<lparr>m_timestamp = ts, priority = 20, m_order_id = ''agent_'' @ show_ts ts @ ''_'' @ str_of_nat i,
      m_source = ''agent'', m_event = None, m_order = Some ord, latency_us = lat\<rparr>"

fun push_all :: "('p, 'o) merge_heap \<Rightarrow> ('p, 'o) merged_order list \<Rightarrow> py_error + ('p, 'o) merge_heap" where
  "push_all heap [] = Inr heap"
| "push_all heap (x # xs) =
     (case heappush_e merged_cmp heap x of Inl e \<Rightarrow> Inl e | Inr heap' \<Rightarrow> push_all heap' xs)"

definition add_historical_event :: "'p market_event \<Rightarrow> ('p, 'o) merge_heap \<Rightarrow> py_error + ('p, 'o) merge_heap" where
  "add_historical_event e heap = heappush_e merged_cmp heap (historical_item e)"

definition add_strategy_orders ::
  "(pytime \<Rightarrow> string) \<Rightarrow> 'o list \<Rightarrow> pytime \<Rightarrow> ('p, 'o) merge_heap \<Rightarrow> py_error + ('p, 'o) merge_heap" where
  "add_strategy_orders show_ts orders ts heap =
     push_all heap (map (\<lambda>(i, ord). strategy_item show_ts ts i ord) (List.enumerate 0 orders))"

definition add_agent_orders ::
  "(pytime \<Rightarrow> string) \<Rightarrow> 'o list \<Rightarrow> pytime \<Rightarrow> pyfloat \<Rightarrow> ('p, 'o) merge_heap \<Rightarrow> py_error + ('p, 'o) merge_heap" where
  "add_agent_orders show_ts orders ts lat heap =
     push_all heap (map (\<lambda>(i, ord). agent_item show_ts ts lat i ord) (List.enumerate 0 orders))"

definition add_custom_order ::
  "(pytime \<Rightarrow> string) \<Rightarrow> pytime \<Rightarrow> string \<Rightarrow> 'o option \<Rightarrow> 'p market_event option \<Rightarrow> int \<Rightarrow> pyfloat \<Rightarrow>
     ('p, 'o) merge_heap \<Rightarrow> py_error + ('p, 'o) merge_heap" where
  "add_custom_order show_ts ts src ord e prio lat heap =
     heappush_e merged_cmp heap
       \<lparr>m_timestamp = ts, priority = prio, m_order_id = src @ ''_'' @ show_ts ts, m_source = src,
        m_event = e, m_order = ord, latency_us = lat\<rparr>"

definition pop_next :: "('p, 'o) merge_heap \<Rightarrow> py_error + ('p, 'o) merged_order option \<times> ('p, 'o) merge_heap" where
  "pop_next heap =
     (if heap = [] then Inr (None, heap)
      else case heappop_e merged_cmp heap of Inl e \<Rightarrow> Inl e | Inr (x, heap') \<Rightarrow> Inr (Some x, heap'))"

definition peek_next :: "('p, 'o) merge_heap \<Rightarrow> ('p, 'o) merged_order option" where
  "peek_next heap = (if heap = [] then None else Some (hd heap))"

lemma length_heappop_e: "heappop_e cmp xs = Inr (x, ys) \<Longrightarrow> length ys < length xs"
  using heappop_e_ok [of cmp xs x ys] length_heappop_rest [of "decides cmp" xs] by (cases xs) auto

function drain_e :: "('p, 'o) merge_heap \<Rightarrow> py_error + ('p, 'o) merged_order list" where
  \<comment> \<open>\<open>while self._heap: result.append(heappop(...))\<close>\<close>
  "drain_e heap =
     (if heap = [] then Inr []
      else case heappop_e merged_cmp heap of
             Inl e \<Rightarrow> Inl e
           | Inr (x, heap') \<Rightarrow> (case drain_e heap' of Inl e \<Rightarrow> Inl e | Inr xs \<Rightarrow> Inr (x # xs)))"
  by pat_completeness auto
termination
  by (relation "measure length") (auto dest: length_heappop_e)

declare drain_e.simps [simp del]

fun add_batches :: "('b \<Rightarrow> 'h \<Rightarrow> py_error + 'h) \<Rightarrow> 'b list \<Rightarrow> 'h \<Rightarrow> py_error + 'h" where
  "add_batches add [] heap = Inr heap"
| "add_batches add (b # bs) heap = (case add b heap of Inl e \<Rightarrow> Inl e | Inr heap' \<Rightarrow> add_batches add bs heap')"

definition merge_flows ::
  "(pytime \<Rightarrow> string) \<Rightarrow> 'p market_event list \<Rightarrow> (pytime \<times> 'o list) list \<Rightarrow> (pytime \<times> 'o list) list \<Rightarrow>
     py_error + ('p, 'o) merged_order list" where
  "merge_flows show_ts events strategy agents =
     (case add_batches add_historical_event events [] of
        Inl e \<Rightarrow> Inl e
      | Inr h1 \<Rightarrow>
          (case add_batches (\<lambda>(ts, orders). add_strategy_orders show_ts orders ts) strategy h1 of
             Inl e \<Rightarrow> Inl e
           | Inr h2 \<Rightarrow>
               (case add_batches (\<lambda>(ts, orders). add_agent_orders show_ts orders ts 50) agents h2 of
                  Inl e \<Rightarrow> Inl e
                | Inr h3 \<Rightarrow> drain_e h3)))"

definition get_flow_mix :: "('p, 'o) merge_heap \<Rightarrow> (string, nat) pydict" where
  "get_flow_mix heap =
     foldl (\<lambda>counts x. dict_set (m_source x) (dict_get_or counts (m_source x) 0 + 1) counts)
       [(''historical'', 0), (''strategy'', 0), (''agent'', 0)] heap"

subsection \<open>The order of the items the layer builds\<close>

definition merge_item :: "(pytime \<Rightarrow> string) \<Rightarrow> ('p, 'o) merged_order \<Rightarrow> bool" where
  "merge_item show_ts x \<longleftrightarrow>
     (\<exists>e. x = historical_item e) \<or> (\<exists>ts i ord. x = strategy_item show_ts ts i ord)
     \<or> (\<exists>ts i ord. x = agent_item show_ts ts 50 i ord)"

lemma merge_itemI [simp, intro]:
  "merge_item show_ts (historical_item e)" "merge_item show_ts (strategy_item show_ts ts i ord)"
  "merge_item show_ts (agent_item show_ts ts 50 i ord)"
  unfolding merge_item_def by blast+

lemma merge_item_lt:
  "merge_item show_ts a \<Longrightarrow> merge_item show_ts b \<Longrightarrow>
   decides merged_cmp a b \<longleftrightarrow> merged_key a < merged_key b"
  by (auto simp: merge_item_def decides_def merged_cmp_def merged_key_def historical_item_def
      strategy_item_def agent_item_def event_lt_def)

interpretation merge_heap: heap_order "decides merged_cmp" "merge_item show_ts" for show_ts
proof unfold_locales
  fix a b c :: "('p, 'o) merged_order"
  assume ok: "merge_item show_ts a" "merge_item show_ts b"
  show "decides merged_cmp a b \<Longrightarrow> \<not> decides merged_cmp b a"
    using ok by (simp add: merge_item_lt [where show_ts = show_ts])
  assume "merge_item show_ts c" and "\<not> decides merged_cmp a b" "\<not> decides merged_cmp b c"
  with ok show "\<not> decides merged_cmp a c"
    by (simp add: merge_item_lt [where show_ts = show_ts])
qed

text \<open>The heap the layer fills: a heap of the items pushed so far.\<close>

definition merge_inv :: "(pytime \<Rightarrow> string) \<Rightarrow> ('p, 'o) merge_heap \<Rightarrow> bool" where
  "merge_inv show_ts heap \<longleftrightarrow> is_heap (decides merged_cmp) heap \<and> (\<forall>x \<in> set heap. merge_item show_ts x)"

lemma push_step:
  assumes "heappush_e merged_cmp heap x = Inr heap'" and "merge_inv show_ts heap" and "merge_item show_ts x"
  shows "merge_inv show_ts heap' \<and> mset heap' = add_mset x (mset heap)"
  using merge_heap.heapq.push_inv [of heap show_ts x] assms
  by (auto simp: merge_inv_def dest!: heappush_e_ok)

lemma push_all_step:
  "push_all heap xs = Inr heap' \<Longrightarrow> merge_inv show_ts heap \<Longrightarrow> \<forall>x \<in> set xs. merge_item show_ts x \<Longrightarrow>
   merge_inv show_ts heap' \<and> mset heap' = mset heap + mset xs"
proof (induction heap xs rule: push_all.induct)
  case (2 heap x xs)
  then obtain h where "heappush_e merged_cmp heap x = Inr h" "push_all h xs = Inr heap'"
    by (auto split: sum.splits)
  with 2 push_step [of heap x h show_ts] show ?case by auto
qed simp

lemma batches_step:
  assumes "\<And>b heap heap'. b \<in> set bs \<Longrightarrow> add b heap = Inr heap' \<Longrightarrow> merge_inv show_ts heap \<Longrightarrow>
      merge_inv show_ts heap' \<and> mset heap' = mset heap + items b"
  shows "add_batches add bs heap = Inr heap' \<Longrightarrow> merge_inv show_ts heap \<Longrightarrow>
      merge_inv show_ts heap' \<and> mset heap' = mset heap + (\<Sum>b\<leftarrow>bs. items b)"
  using assms
proof (induction bs arbitrary: heap)
  case (Cons b bs)
  from Cons.prems(1) obtain h where h: "add b heap = Inr h" "add_batches add bs h = Inr heap'"
    by (auto split: sum.splits)
  have first: "merge_inv show_ts h \<and> mset h = mset heap + items b"
    by (rule Cons.prems(3) [OF _ h(1) Cons.prems(2)]) simp
  have "merge_inv show_ts heap' \<and> mset heap' = mset h + (\<Sum>b\<leftarrow>bs. items b)"
    by (rule Cons.IH [OF h(2) conjunct1 [OF first]], rule Cons.prems(3)) simp_all
  with first show ?case by (simp only: list.map sum_list.Cons add.assoc)
qed simp

lemma drain_e_ok: "drain_e heap = Inr xs \<Longrightarrow> drain (decides merged_cmp) heap = xs"
proof (induction heap arbitrary: xs rule: drain_e.induct)
  case (1 heap)
  show ?case
  proof (cases "heap = []")
    case True
    with 1(2) show ?thesis by (simp add: drain_e.simps)
  next
    case False
    with 1(2) obtain x h ys where "heappop_e merged_cmp heap = Inr (x, h)" "drain_e h = Inr ys" "xs = x # ys"
      by (subst (asm) drain_e.simps) (auto split: sum.splits)
    with 1(1) [OF False] False show ?thesis
      using heappop_e_ok [of merged_cmp heap x h] by (simp add: drain_pop)
  qed
qed

subsection \<open>Properties\<close>

definition items_of ::
  "(pytime \<Rightarrow> nat \<Rightarrow> 'o \<Rightarrow> ('p, 'o) merged_order) \<Rightarrow> pytime \<times> 'o list \<Rightarrow> ('p, 'o) merged_order multiset" where
  "items_of mk b = mset (map (\<lambda>(i, ord). mk (fst b) i ord) (List.enumerate 0 (snd b)))"

lemma historical_step:
  assumes "add_historical_event e heap = Inr heap'" and "merge_inv show_ts heap"
  shows "merge_inv show_ts heap' \<and> mset heap' = mset heap + {#historical_item e#}"
  using push_step [OF assms(1) [unfolded add_historical_event_def] assms(2)] by simp

text \<open>Whatever merging three flows returns holds exactly the given events and orders, each
  once, in the order of (timestamp, priority, order id, source): earlier first, and at one instant
  events before strategy orders (priority 10) before agent orders (priority 20).\<close>

theorem merge_flows_sorted:
  assumes "merge_flows show_ts events strategy agents = Inr out"
  shows "mset out = mset (map historical_item events)
      + (\<Sum>b\<leftarrow>strategy. items_of (strategy_item show_ts) b)
      + (\<Sum>b\<leftarrow>agents. items_of (\<lambda>ts. agent_item show_ts ts 50) b)
    \<and> sorted (map merged_key out)"
proof -
  obtain h1 h2 h3 where h1: "add_batches add_historical_event events [] = Inr h1"
    and h2: "add_batches (\<lambda>(ts, orders). add_strategy_orders show_ts orders ts) strategy h1 = Inr h2"
    and h3: "add_batches (\<lambda>(ts, orders). add_agent_orders show_ts orders ts 50) agents h2 = Inr h3"
    and out: "drain_e h3 = Inr out"
    using assms by (auto simp: merge_flows_def split: sum.splits)
  have nil: "merge_inv show_ts []" by (simp add: merge_inv_def is_heap_def)
  have 1: "merge_inv show_ts h1 \<and> mset h1 = mset [] + (\<Sum>e\<leftarrow>events. {#historical_item e#})"
    by (rule batches_step [OF historical_step h1 nil])
  have 2: "merge_inv show_ts h2 \<and> mset h2 = mset h1 + (\<Sum>b\<leftarrow>strategy. items_of (strategy_item show_ts) b)"
    by (rule batches_step [OF _ h2 conjunct1 [OF 1]])
      (auto simp: add_strategy_orders_def items_of_def dest!: push_all_step [where show_ts = show_ts])
  have 3: "merge_inv show_ts h3 \<and> mset h3 = mset h2 + (\<Sum>b\<leftarrow>agents. items_of (\<lambda>ts. agent_item show_ts ts 50) b)"
    by (rule batches_step [OF _ h3 conjunct1 [OF 2]])
      (auto simp: add_agent_orders_def items_of_def dest!: push_all_step [where show_ts = show_ts])
  have "mset out = mset h3" and s: "sorted_wrt (\<lambda>a b. \<not> decides merged_cmp b a) out"
    and ok: "\<forall>x \<in> set out. merge_item show_ts x"
    using drain_e_ok [OF out] 3 merge_heap.drain_sorted [of h3 show_ts] by (auto simp: merge_inv_def)
  moreover have "(\<Sum>e\<leftarrow>events. {#historical_item e#}) = mset (map historical_item events)"
    by (induction events) auto
  moreover have "sorted (map merged_key out)"
    unfolding sorted_map
    by (rule sorted_wrt_mono_rel [OF _ s]) (use ok merge_item_lt [where show_ts = show_ts] in force)
  ultimately show ?thesis using 1 2 3 by simp
qed


definition demo_event :: "string \<Rightarrow> pytime \<Rightarrow> unit market_event" where
  "demo_event i t = \<lparr>event_id = i, e_timestamp = t, instrument_id = ''i'', market_id = ''m'', event_type = ''trade'',
     payload = (), e_priority = 0\<rparr>"

lemma demo_flows:
  "\<exists>out. merge_flows (\<lambda>t. ''t'') [demo_event ''b'' 3, demo_event ''a'' 2] [(2, [''s''])] [(1, [''g'', ''h''])]
     = Inr out \<and> map m_order_id out = [''agent_t_0'', ''agent_t_1'', ''a'', ''strategy_t_0'', ''b'']"
proof -
  have "(case merge_flows (\<lambda>t. ''t'') [demo_event ''b'' 3, demo_event ''a'' 2] [(2, [''s''])] [(1, [''g'', ''h''])]
     of Inl _ \<Rightarrow> [] | Inr out \<Rightarrow> map m_order_id out) = [''agent_t_0'', ''agent_t_1'', ''a'', ''strategy_t_0'', ''b'']"
    by code_simp
  then show ?thesis by (auto split: sum.splits)
qed

theorem merge_flows_sorted_witness:
  "\<exists>out. merge_flows (\<lambda>t. ''t'') [demo_event ''b'' 3, demo_event ''a'' 2] [(2, [''s''])] [(1, [''g'', ''h''])]
     = Inr out \<and> sorted (map merged_key out) \<and> length out = 5"
  using demo_flows
proof (elim exE conjE)
  fix out
  assume out: "merge_flows (\<lambda>t. ''t'') [demo_event ''b'' 3, demo_event ''a'' 2] [(2, [''s''])] [(1, [''g'', ''h''])] = Inr out"
    and ids: "map m_order_id out = [''agent_t_0'', ''agent_t_1'', ''a'', ''strategy_t_0'', ''b'']"
  from ids have "length (map m_order_id out) = 5" by (simp only: list.size)
  then have "length out = 5" by (simp only: length_map)
  then show ?thesis
    using out conjunct2 [OF merge_flows_sorted [OF out]] by (intro exI [of _ out] conjI)
qed

text \<open>Two batches of strategy orders at the same instant carry the same order ids; when the
  orders differ, comparing them raises, so pushing the second batch onto the first fails.\<close>

theorem same_instant_batches_raise:
  assumes "o1 \<noteq> o2"
  shows "(case add_strategy_orders show_ts [o1] ts [] of Inl e \<Rightarrow> Inl e
      | Inr heap \<Rightarrow> add_strategy_orders show_ts [o2] ts heap) = Inl TypeError"
  using assms
  by (simp add: add_strategy_orders_def heappush_e_def siftdown_e.simps merged_cmp_def merged_key_def strategy_item_def)

theorem same_instant_batches_raise_witness:
  "(case add_strategy_orders (\<lambda>t. ''t'') [''a''] 1 ([] :: (unit, string) merge_heap) of Inl e \<Rightarrow> Inl e
      | Inr heap \<Rightarrow> add_strategy_orders (\<lambda>t. ''t'') [''b''] 1 heap) = Inl TypeError"
  by (rule same_instant_batches_raise) simp

end
