(* ===== verification/Level3_Book.thy ===== *)
theory Level3_Book
  imports Prelude
begin

text \<open>
  The level-3 book (\<open>backtesting/execution/level3_book.py\<close>): a dictionary of price levels per
  side, each a FIFO queue of individual orders with a cached volume. Orders are values here: an
  order sits in one queue, and what the order index is asked for (\<open>side\<close>, \<open>price\<close>) never changes.
  Order ids come from \<open>new_id\<close> and are arguments. An iceberg order is one with
  \<open>peak_size = Some _\<close>.
\<close>

subsection \<open>Data\<close>

datatype l3_side = L3_BUY | L3_SELL

record book_order =
  l3_id :: string
  l3_side :: l3_side
  l3_price :: pyfloat
  l3_quantity :: int
  l3_remaining :: int
  l3_agent :: string
  l3_source :: string
  is_hidden :: bool
  display_quantity :: int
  total_quantity :: int
  peak_size :: "int option"

definition order_post_init :: "book_order \<Rightarrow> book_order" where
  "order_post_init o1 =
     (let o2 = (if l3_remaining o1 = 0 then o1\<lparr>l3_remaining := l3_quantity o1\<rparr> else o1);
          o3 = (if total_quantity o2 = 0 then o2\<lparr>total_quantity := l3_quantity o2\<rparr> else o2)
      in if display_quantity o3 = 0 then o3\<lparr>display_quantity := l3_quantity o3\<rparr> else o3)"

definition iceberg_post_init :: "int \<Rightarrow> book_order \<Rightarrow> book_order" where
  "iceberg_post_init peak o1 =
     (let o2 = order_post_init o1; pk = (if peak = 0 then display_quantity o2 else peak)
      in o2\<lparr>peak_size := Some pk, display_quantity := min pk (l3_remaining o2)\<rparr>)"

definition refresh_peak :: "book_order \<Rightarrow> book_order" where
  "refresh_peak o1 =
     (case peak_size o1 of
        None \<Rightarrow> o1
      | Some pk \<Rightarrow> if l3_remaining o1 > 0 then o1\<lparr>display_quantity := min pk (l3_remaining o1)\<rparr> else o1)"

definition is_filled :: "book_order \<Rightarrow> bool" where
  "is_filled o1 \<longleftrightarrow> l3_remaining o1 \<le> 0"

definition fill_ratio :: "book_order \<Rightarrow> pyfloat" where
  "fill_ratio o1 = 1 - of_int (l3_remaining o1) / of_int (max (total_quantity o1) 1)"

definition reduce :: "int \<Rightarrow> book_order \<Rightarrow> int \<times> book_order" where
  "reduce qty o1 =
     (let reduction = min (l3_remaining o1) qty in (reduction, o1\<lparr>l3_remaining := l3_remaining o1 - reduction\<rparr>))"

record price_level =
  lv_price :: pyfloat
  orders :: "book_order list"
  total_volume :: int

definition level_add :: "book_order \<Rightarrow> price_level \<Rightarrow> price_level" where
  "level_add o1 lv = lv\<lparr>orders := orders lv @ [o1], total_volume := total_volume lv + l3_remaining o1\<rparr>"

definition level_remove_order :: "string \<Rightarrow> price_level \<Rightarrow> book_order option \<times> price_level" where
  \<comment> \<open>takes the volume off the level but leaves the order in the queue\<close>
  "level_remove_order oid lv =
     (case find (\<lambda>x. l3_id x = oid) (orders lv) of
        None \<Rightarrow> (None, lv)
      | Some x \<Rightarrow> (Some x, lv\<lparr>total_volume := total_volume lv - l3_remaining x\<rparr>))"

definition remove_and_rebuild :: "string \<Rightarrow> price_level \<Rightarrow> bool \<times> price_level" where
  "remove_and_rebuild oid lv =
     (let gone = filter (\<lambda>x. l3_id x = oid) (orders lv)
      in (gone \<noteq> [],
          lv\<lparr>orders := filter (\<lambda>x. l3_id x \<noteq> oid) (orders lv),
             total_volume := total_volume lv - (\<Sum>x\<leftarrow>gone. l3_remaining x)\<rparr>))"

definition level_clean :: "price_level \<Rightarrow> price_level" where
  \<comment> \<open>what is popped has \<open>remaining <= 0\<close>, so the volume loses 0\<close>
  "level_clean lv = lv\<lparr>orders := dropWhile (\<lambda>x. l3_remaining x \<le> 0) (orders lv)\<rparr>"

definition level_snapshot :: "price_level \<Rightarrow> pyfloat \<times> int \<times> nat" where
  "level_snapshot lv = (lv_price lv, total_volume lv, length (orders lv))"

record l3_fill =
  f_price :: pyfloat
  f_quantity :: int
  f_order_id :: string
  f_side :: string

type_synonym levels = "(pyfloat, price_level) pydict"

record level3_book =
  l3_bids :: levels
  l3_asks :: levels
  order_index :: "(string, book_order) pydict"
  trade_log :: "l3_fill list"
  l3_counter :: nat

definition l3_empty :: level3_book where
  "l3_empty = \<lparr>l3_bids = [], l3_asks = [], order_index = [], trade_log = [], l3_counter = 0\<rparr>"

definition l3_parse_side :: "string \<Rightarrow> py_error + l3_side" where
  "l3_parse_side s =
     (if py_upper s = ''BUY'' then Inr L3_BUY else if py_upper s = ''SELL'' then Inr L3_SELL else Inl ValueError)"

definition levels_of :: "l3_side \<Rightarrow> level3_book \<Rightarrow> levels" where
  "levels_of s b = (if s = L3_BUY then l3_bids b else l3_asks b)"

definition set_levels :: "l3_side \<Rightarrow> levels \<Rightarrow> level3_book \<Rightarrow> level3_book" where
  "set_levels s lvs b = (if s = L3_BUY then b\<lparr>l3_bids := lvs\<rparr> else b\<lparr>l3_asks := lvs\<rparr>)"

subsection \<open>Insertion\<close>

definition insert_order :: "book_order \<Rightarrow> level3_book \<Rightarrow> level3_book" where
  \<comment> \<open>the common tail of \<open>add_limit_order\<close> and \<open>add_iceberg_order\<close>\<close>
  "insert_order o1 b =
     (let lvs = levels_of (l3_side o1) b;
          lv = (case dict_get lvs (l3_price o1) of
                  None \<Rightarrow> \<lparr>lv_price = l3_price o1, orders = [], total_volume = 0\<rparr> | Some lv \<Rightarrow> lv)
      in (set_levels (l3_side o1) (dict_set (l3_price o1) (level_add o1 lv) lvs) b)
           \<lparr>order_index := dict_set (l3_id o1) o1 (order_index b)\<rparr>)"

definition add_limit_order ::
  "string \<Rightarrow> string \<Rightarrow> pyfloat \<Rightarrow> int \<Rightarrow> string \<Rightarrow> string \<Rightarrow> bool \<Rightarrow> level3_book \<Rightarrow>
     (py_error + book_order) \<times> level3_book" where
  "add_limit_order oid sd p q ag src hidden b =
     (let b1 = b\<lparr>l3_counter := l3_counter b + 1\<rparr> in
      case l3_parse_side sd of
        Inl e \<Rightarrow> (Inl e, b1)
      | Inr s \<Rightarrow>
          (let o1 = order_post_init \<lparr>l3_id = oid, l3_side = s, l3_price = p, l3_quantity = q, l3_remaining = q,
                 l3_agent = ag, l3_source = src, is_hidden = hidden, display_quantity = 0, total_quantity = 0,
                 peak_size = None\<rparr>
           in (Inr o1, insert_order o1 b1)))"

definition add_iceberg_order ::
  "string \<Rightarrow> string \<Rightarrow> pyfloat \<Rightarrow> int \<Rightarrow> int \<Rightarrow> string \<Rightarrow> level3_book \<Rightarrow> (py_error + book_order) \<times> level3_book" where
  "add_iceberg_order oid sd p q peak ag b =
     (let b1 = b\<lparr>l3_counter := l3_counter b + 1\<rparr> in
      case l3_parse_side sd of
        Inl e \<Rightarrow> (Inl e, b1)
      | Inr s \<Rightarrow>
          (let o1 = iceberg_post_init peak \<lparr>l3_id = oid, l3_side = s, l3_price = p, l3_quantity = q, l3_remaining = q,
                 l3_agent = ag, l3_source = ''iceberg'', is_hidden = False, display_quantity = 0, total_quantity = 0,
                 peak_size = None\<rparr>
           in (Inr o1, insert_order o1 b1)))"

subsection \<open>Matching\<close>

text \<open>The inner loop at one price: the queue, the level's volume and the open quantity.\<close>

function fill_level :: "string \<Rightarrow> pyfloat \<Rightarrow> book_order list \<Rightarrow> int \<Rightarrow> int \<Rightarrow> l3_fill list \<times> book_order list \<times> int \<times> int" where
  "fill_level sd p os vol rem =
     (if os = [] \<or> rem \<le> 0 then ([], os, vol, rem)
      else let top = hd os; q = min (l3_remaining top) rem;
               top1 = top\<lparr>l3_remaining := l3_remaining top - q\<rparr>;
               fill = \<lparr>f_price = p, f_quantity = q, f_order_id = l3_id top, f_side = sd\<rparr>;
               os1 = (if l3_remaining top1 \<le> 0
                      then (if peak_size top1 \<noteq> None \<and> total_quantity top1 > 0 \<and> l3_remaining (refresh_peak top1) > 0
                            then tl os @ [refresh_peak top1] else tl os)
                      else top1 # tl os);
               (fills, rest) = fill_level sd p os1 (vol - q) (rem - q)
           in (fill # fills, rest))"
  by pat_completeness auto

lemma refresh_peak_remaining [simp]: "l3_remaining (refresh_peak o1) = l3_remaining o1"
  by (simp add: refresh_peak_def split: option.split)

termination fill_level
  by (relation "measure (\<lambda>(sd, p, os, vol, rem). length os + (if 0 < rem then 1 else 0))") (auto simp: neq_Nil_conv)

declare fill_level.simps [simp del]

fun fill_prices :: "string \<Rightarrow> pyfloat list \<Rightarrow> levels \<Rightarrow> int \<Rightarrow> l3_fill list \<times> levels \<times> int" where
  "fill_prices sd [] lvs rem = ([], lvs, rem)"
| "fill_prices sd (p # ps) lvs rem =
     (if rem \<le> 0 then ([], lvs, rem)
      else case dict_get lvs p of
             None \<Rightarrow> ([], lvs, rem) \<comment> \<open>not reached: \<open>p\<close> is a key\<close>
           | Some lv0 \<Rightarrow>
               (let lv = level_clean lv0; (fills, os, vol, rem1) = fill_level sd p (orders lv) (total_volume lv) rem;
                    lvs1 = (if os = [] then dict_del p lvs else dict_set p (lv\<lparr>orders := os, total_volume := vol\<rparr>) lvs);
                    (fills', lvs', rem') = fill_prices sd ps lvs1 rem1
                in (fills @ fills', lvs', rem')))"

definition sorted_prices :: "l3_side \<Rightarrow> levels \<Rightarrow> pyfloat list" where
  \<comment> \<open>best price first: bids descending, asks ascending\<close>
  "sorted_prices s lvs = (if s = L3_BUY then rev (sort (dict_keys lvs)) else sort (dict_keys lvs))"

definition book_side_hit :: "string \<Rightarrow> l3_side" where
  \<comment> \<open>\<open>self._asks if side.upper() == "BUY" else self._bids\<close>\<close>
  "book_side_hit sd = (if py_upper sd = ''BUY'' then L3_SELL else L3_BUY)"

definition execute_market_order :: "string \<Rightarrow> int \<Rightarrow> level3_book \<Rightarrow> l3_fill list \<times> level3_book" where
  "execute_market_order sd q b =
     (let s = book_side_hit sd; lvs = levels_of s b;
          (fills, lvs', rem) = fill_prices sd (sorted_prices s lvs) lvs q
      in (fills, (set_levels s lvs' b)\<lparr>trade_log := trade_log b @ fills\<rparr>))"

subsection \<open>Queries\<close>

fun first_live :: "pyfloat list \<Rightarrow> levels \<Rightarrow> pyfloat \<times> levels" where
  "first_live [] lvs = (0, lvs)"
| "first_live (p # ps) lvs =
     (case dict_get lvs p of
        None \<Rightarrow> (0, lvs) \<comment> \<open>not reached\<close>
      | Some lv0 \<Rightarrow>
          (let lv = level_clean lv0
           in if orders lv \<noteq> [] then (p, dict_set p lv lvs) else first_live ps (dict_del p lvs)))"

definition best_price :: "l3_side \<Rightarrow> level3_book \<Rightarrow> pyfloat \<times> level3_book" where
  \<comment> \<open>\<open>best_bid\<close> and \<open>best_ask\<close>\<close>
  "best_price s b =
     (let (p, lvs) = first_live (sorted_prices s (levels_of s b)) (levels_of s b) in (p, set_levels s lvs b))"

definition l3_spread :: "level3_book \<Rightarrow> pyfloat \<times> level3_book" where
  "l3_spread b =
     (let (bid, b1) = best_price L3_BUY b; (ask, b2) = best_price L3_SELL b1
      in (if bid > 0 \<and> ask > 0 then ask - bid else 0, b2))"

definition l3_mid_price :: "level3_book \<Rightarrow> pyfloat \<times> level3_book" where
  "l3_mid_price b =
     (let (bid, b1) = best_price L3_BUY b; (ask, b2) = best_price L3_SELL b1
      in (if bid > 0 \<and> ask > 0 then (bid + ask) / 2 else 0, b2))"

fun depth_side :: "pyfloat list \<Rightarrow> levels \<Rightarrow> (pyfloat \<times> int \<times> nat) list \<times> levels" where
  "depth_side [] lvs = ([], lvs)"
| "depth_side (p # ps) lvs =
     (case dict_get lvs p of
        None \<Rightarrow> ([], lvs) \<comment> \<open>not reached\<close>
      | Some lv0 \<Rightarrow>
          (let lv = level_clean lv0; (out, lvs') = depth_side ps (dict_set p lv lvs)
           in (if orders lv \<noteq> [] then level_snapshot lv # out else out, lvs')))"

definition l3_get_depth :: "nat \<Rightarrow> level3_book \<Rightarrow>
    ((pyfloat \<times> int \<times> nat) list \<times> (pyfloat \<times> int \<times> nat) list) \<times> level3_book" where
  "l3_get_depth n b =
     (let (bl, bids) = depth_side (take n (sorted_prices L3_BUY (l3_bids b))) (l3_bids b);
          (al, asks) = depth_side (take n (sorted_prices L3_SELL (l3_asks b))) (l3_asks b)
      in ((bl, al), b\<lparr>l3_bids := bids, l3_asks := asks\<rparr>))"

definition levels_volume :: "levels \<Rightarrow> int" where
  \<comment> \<open>\<open>sum(level.total_volume for level in levels.values())\<close>\<close>
  "levels_volume lvs = (\<Sum>(p, lv)\<leftarrow>lvs. total_volume lv)"

definition total_bid_volume :: "level3_book \<Rightarrow> int" where
  "total_bid_volume b = levels_volume (l3_bids b)"

definition total_ask_volume :: "level3_book \<Rightarrow> int" where
  "total_ask_volume b = levels_volume (l3_asks b)"

definition queue_position :: "string \<Rightarrow> level3_book \<Rightarrow> py_error + (int \<times> int) option" where
  \<comment> \<open>\<open>volume_ahead\<close> is a property that takes an argument: evaluating it raises\<close>
  "queue_position oid b =
     (case dict_get (order_index b) oid of
        None \<Rightarrow> Inr None
      | Some o1 \<Rightarrow>
          (case dict_get (levels_of (l3_side o1) b) (l3_price o1) of
             None \<Rightarrow> Inr None
           | Some lv \<Rightarrow> Inl TypeError))"

subsection \<open>Limit orders and cancellation\<close>

definition process_limit_order ::
  "string \<Rightarrow> string \<Rightarrow> pyfloat \<Rightarrow> int \<Rightarrow> level3_book \<Rightarrow> (py_error + l3_fill list + book_order) \<times> level3_book" where
  \<comment> \<open>the fills of a crossing order, or the order that was queued\<close>
  "process_limit_order oid sd p q b =
     (if py_upper sd = ''BUY''
      then (let (ask, b1) = best_price L3_SELL b in
            if ask > 0 \<and> p \<ge> ask
            then (let (fs, b2) = execute_market_order ''buy'' q b1 in (Inr (Inl fs), b2))
            else (let (r, b2) = add_limit_order oid sd p q [] ''strategy'' False b1
                  in (case r of Inl e \<Rightarrow> Inl e | Inr o1 \<Rightarrow> Inr (Inr o1), b2)))
      else (let (bid, b1) = best_price L3_BUY b in
            if bid > 0 \<and> p \<le> bid
            then (let (fs, b2) = execute_market_order ''sell'' q b1 in (Inr (Inl fs), b2))
            else (let (r, b2) = add_limit_order oid sd p q [] ''strategy'' False b1
                  in (case r of Inl e \<Rightarrow> Inl e | Inr o1 \<Rightarrow> Inr (Inr o1), b2))))"

definition l3_cancel_order :: "string \<Rightarrow> level3_book \<Rightarrow> bool \<times> level3_book" where
  "l3_cancel_order oid b =
     (case dict_get (order_index b) oid of
        None \<Rightarrow> (False, b)
      | Some o1 \<Rightarrow>
          (let s = l3_side o1; lvs = levels_of s b;
               b1 = (case dict_get lvs (l3_price o1) of
                       None \<Rightarrow> b
                     | Some lv \<Rightarrow>
                         (let lv1 = snd (remove_and_rebuild oid lv)
                          in set_levels s (if orders lv1 = [] then dict_del (l3_price o1) lvs
                                           else dict_set (l3_price o1) lv1 lvs) b))
           in (True, b1\<lparr>order_index := dict_del oid (order_index b)\<rparr>)))"

definition l3_reset :: "level3_book \<Rightarrow> level3_book" where
  "l3_reset b = l3_empty"


subsection \<open>Sound books\<close>

definition queue_volume :: "book_order list \<Rightarrow> int" where
  "queue_volume os = (\<Sum>x\<leftarrow>os. l3_remaining x)"

definition level_sound :: "l3_side \<Rightarrow> pyfloat \<Rightarrow> price_level \<Rightarrow> bool" where
  "level_sound s p lv \<longleftrightarrow>
     lv_price lv = p \<and> orders lv \<noteq> [] \<and> total_volume lv = queue_volume (orders lv)
     \<and> (\<forall>x \<in> set (orders lv). 0 < l3_remaining x \<and> l3_side x = s \<and> l3_price x = p)
     \<and> distinct (map l3_id (orders lv))"

definition levels_sound :: "l3_side \<Rightarrow> levels \<Rightarrow> bool" where
  "levels_sound s lvs \<longleftrightarrow> dict_ok lvs \<and> (\<forall>(p, lv) \<in> set lvs. level_sound s p lv)"

definition indexed :: "(string, book_order) pydict \<Rightarrow> levels \<Rightarrow> bool" where
  "indexed index lvs \<longleftrightarrow>
     (\<forall>(p, lv) \<in> set lvs. \<forall>x \<in> set (orders lv). \<exists>y. dict_get index (l3_id x) = Some y
        \<and> l3_side y = l3_side x \<and> l3_price y = l3_price x)"

definition l3_sound :: "level3_book \<Rightarrow> bool" where
  "l3_sound b \<longleftrightarrow>
     levels_sound L3_BUY (l3_bids b) \<and> levels_sound L3_SELL (l3_asks b)
     \<and> indexed (order_index b) (l3_bids b) \<and> indexed (order_index b) (l3_asks b)"

lemma queue_volume_simps [simp]:
  "queue_volume [] = 0" "queue_volume (x # xs) = l3_remaining x + queue_volume xs"
  "queue_volume (xs @ ys) = queue_volume xs + queue_volume ys"
  by (simp_all add: queue_volume_def)

lemma queue_volume_nonneg: "\<forall>x \<in> set os. 0 < l3_remaining x \<Longrightarrow> 0 \<le> queue_volume os"
  by (induction os) auto

lemma level_clean_sound: "level_sound s p lv \<Longrightarrow> level_clean lv = lv"
  by (cases "orders lv") (auto simp: level_clean_def level_sound_def)

lemma levels_soundD:
  assumes "levels_sound s lvs"
  shows "dict_ok lvs" "dict_get lvs p = Some lv \<Longrightarrow> level_sound s p lv"
  using assms by (auto simp: levels_sound_def dest: map_of_SomeD)

lemma levels_sound_set:
  "levels_sound s lvs \<Longrightarrow> level_sound s p lv \<Longrightarrow> levels_sound s (dict_set p lv lvs)"
  by (auto simp: levels_sound_def dest!: dict_set_elem)

lemma levels_sound_del: "levels_sound s lvs \<Longrightarrow> levels_sound s (dict_del p lvs)"
  by (auto simp: levels_sound_def dest!: dict_del_elem)

lemma levels_volume_set:
  "levels_sound s lvs \<Longrightarrow> dict_get lvs p = Some lv0 \<Longrightarrow>
   levels_volume (dict_set p lv lvs) = levels_volume lvs - total_volume lv0 + total_volume lv"
  unfolding levels_volume_def by (subst sum_dict_set_gen) (auto dest: levels_soundD)

lemma levels_volume_del:
  "levels_sound s lvs \<Longrightarrow> dict_get lvs p = Some lv0 \<Longrightarrow>
   levels_volume (dict_del p lvs) = levels_volume lvs - total_volume lv0"
  unfolding levels_volume_def by (subst sum_dict_del) (auto dest: levels_soundD)

subsection \<open>The fills of one level\<close>

lemma fill_level_stop: "os = [] \<or> rem \<le> 0 \<Longrightarrow> fill_level sd p os vol rem = ([], os, vol, rem)"
  by (subst fill_level.simps) simp

lemma fill_level_pop:
  assumes "0 < l3_remaining x" and "l3_remaining x \<le> rem"
    and "fill_level sd p xs (vol - l3_remaining x) (rem - l3_remaining x) = (fills, rest)"
  shows "fill_level sd p (x # xs) vol rem =
    (\<lparr>f_price = p, f_quantity = l3_remaining x, f_order_id = l3_id x, f_side = sd\<rparr> # fills, rest)"
  using assms by (subst fill_level.simps) (simp add: Let_def min_def)

lemma fill_level_last:
  assumes "0 < rem" and "rem < l3_remaining x"
  shows "fill_level sd p (x # xs) vol rem =
    ([\<lparr>f_price = p, f_quantity = rem, f_order_id = l3_id x, f_side = sd\<rparr>],
     x\<lparr>l3_remaining := l3_remaining x - rem\<rparr> # xs, vol - rem, 0)"
  using assms by (subst fill_level.simps) (simp add: Let_def min_def fill_level_stop)

definition fills_volume :: "l3_fill list \<Rightarrow> int" where
  "fills_volume fs = (\<Sum>f\<leftarrow>fs. f_quantity f)"

lemma fills_volume_simps [simp]:
  "fills_volume [] = 0" "fills_volume (f # fs) = f_quantity f + fills_volume fs"
  "fills_volume (fs @ gs) = fills_volume fs + fills_volume gs"
  by (simp_all add: fills_volume_def)

text \<open>What the loop leaves behind is the unfilled rest of the queue.\<close>

definition rest_of :: "book_order list \<Rightarrow> book_order list \<Rightarrow> bool" where
  "rest_of os os' \<longleftrightarrow>
     (\<forall>x \<in> set os'. 0 < l3_remaining x \<and> (\<exists>y \<in> set os. l3_id x = l3_id y \<and> l3_side x = l3_side y \<and> l3_price x = l3_price y))
     \<and> (\<exists>k. map l3_id os' = drop k (map l3_id os))"

lemma fill_level_facts:
  "fill_level sd p os vol rem = (fills, os', vol', rem') \<Longrightarrow> \<forall>x \<in> set os. 0 < l3_remaining x \<Longrightarrow> 0 \<le> rem \<Longrightarrow>
     fills_volume fills = min rem (queue_volume os) \<and> rem' = rem - fills_volume fills
     \<and> vol' = vol - fills_volume fills \<and> queue_volume os' = queue_volume os - fills_volume fills
     \<and> rest_of os os' \<and> (0 < rem' \<longrightarrow> os' = []) \<and> (os' = [] \<longrightarrow> length fills = length os)
     \<and> map f_order_id fills = take (length fills) (map l3_id os)
     \<and> (\<forall>f \<in> set fills. f_price f = p \<and> 0 < f_quantity f \<and> f_side f = sd)"
proof (induction os arbitrary: vol rem fills)
  case Nil
  then show ?case by (auto simp: fill_level_stop rest_of_def)
next
  case (Cons x xs)
  consider "rem = 0" | "0 < rem" "rem < l3_remaining x" | "l3_remaining x \<le> rem"
    using Cons.prems(3) by linarith
  then show ?case
  proof cases
    case 1
    with Cons.prems queue_volume_nonneg [of "x # xs"] show ?thesis
      by (auto simp: fill_level_stop rest_of_def intro!: exI [of _ 0])
  next
    case 2
    with Cons.prems queue_volume_nonneg [of xs] show ?thesis
      by (auto simp: fill_level_last rest_of_def intro!: exI [of _ 0])
  next
    case 3
    obtain fs where rec: "fill_level sd p xs (vol - l3_remaining x) (rem - l3_remaining x) = (fs, os', vol', rem')"
      and fills: "fills = \<lparr>f_price = p, f_quantity = l3_remaining x, f_order_id = l3_id x, f_side = sd\<rparr> # fs"
      using Cons.prems(1,2) 3 fill_level_pop [of x rem sd p xs vol] by (cases "fill_level sd p xs (vol - l3_remaining x) (rem - l3_remaining x)") auto
    from Cons.IH [OF rec] Cons.prems(2) 3
    have ih: "fills_volume fs = min (rem - l3_remaining x) (queue_volume xs)" "rem' = rem - l3_remaining x - fills_volume fs"
      "vol' = vol - l3_remaining x - fills_volume fs" "queue_volume os' = queue_volume xs - fills_volume fs"
      "rest_of xs os'" "(0 < rem' \<longrightarrow> os' = []) \<and> (os' = [] \<longrightarrow> length fs = length xs)" "map f_order_id fs = take (length fs) (map l3_id xs)"
      "\<forall>f \<in> set fs. f_price f = p \<and> 0 < f_quantity f \<and> f_side f = sd"
      by auto
    from ih(5) obtain k where "map l3_id os' = drop (Suc k) (map l3_id (x # xs))"
      by (auto simp: rest_of_def)
    with ih(5) have "rest_of (x # xs) os'" unfolding rest_of_def by (meson list.set_intros(2))
    with ih(1-4,6-8) Cons.prems(2) show ?thesis by (auto simp: fills)
  qed
qed


subsection \<open>The fills of one side\<close>

definition level_at :: "levels \<Rightarrow> pyfloat \<Rightarrow> price_level" where
  "level_at lvs p = (case dict_get lvs p of None \<Rightarrow> \<lparr>lv_price = p, orders = [], total_volume = 0\<rparr> | Some lv \<Rightarrow> lv)"

definition queue_ids :: "levels \<Rightarrow> pyfloat list \<Rightarrow> string list" where
  \<comment> \<open>the ids along the given prices, in queue order\<close>
  "queue_ids lvs ps = concat (map (\<lambda>p. map l3_id (orders (level_at lvs p))) ps)"

lemma level_at_set [simp]: "level_at (dict_set p lv lvs) p' = (if p' = p then lv else level_at lvs p')"
  by (simp add: level_at_def)

lemma level_at_del: "level_at (dict_del p lvs) p' =
    (if p' = p then \<lparr>lv_price = p, orders = [], total_volume = 0\<rparr> else level_at lvs p')"
  by (simp add: level_at_def)

lemma level_at_other:
  "p \<notin> set ps \<Longrightarrow> (\<And>p'. p' \<noteq> p \<Longrightarrow> level_at lvs' p' = level_at lvs p') \<Longrightarrow>
   queue_ids lvs' ps = queue_ids lvs ps \<and> (\<Sum>p\<leftarrow>ps. total_volume (level_at lvs' p)) = (\<Sum>p\<leftarrow>ps. total_volume (level_at lvs p))"
  unfolding queue_ids_def by (induction ps) auto

lemma rest_of_sound:
  assumes "level_sound s p lv" and "rest_of (orders lv) os'" and "os' \<noteq> []" and "vol = queue_volume os'"
  shows "level_sound s p (lv\<lparr>orders := os', total_volume := vol\<rparr>)"
proof -
  have "distinct (map l3_id os')"
    using assms(1,2) by (auto simp: level_sound_def rest_of_def)
  then show ?thesis
    using assms by (fastforce simp: level_sound_def rest_of_def)
qed

lemma indexed_set:
  "indexed ix lvs \<Longrightarrow> dict_get lvs p = Some lv \<Longrightarrow> rest_of (orders lv) os' \<Longrightarrow>
   indexed ix (dict_set p (lv\<lparr>orders := os', total_volume := vol\<rparr>) lvs)"
  unfolding indexed_def rest_of_def
  by (fastforce dest!: dict_set_elem dest: map_of_SomeD)

lemma indexed_dict_set:
  assumes "indexed ix lvs"
    and "\<And>x. x \<in> set (orders lv) \<Longrightarrow> \<exists>y. dict_get ix (l3_id x) = Some y \<and> l3_side y = l3_side x \<and> l3_price y = l3_price x"
  shows "indexed ix (dict_set p lv lvs)"
  unfolding indexed_def
proof (intro ballI, clarify)
  fix p' lv' x
  assume "(p', lv') \<in> set (dict_set p lv lvs)" and x: "x \<in> set (orders lv')"
  from dict_set_elem [OF this(1)] show "\<exists>y. dict_get ix (l3_id x) = Some y \<and> l3_side y = l3_side x \<and> l3_price y = l3_price x"
    using assms x unfolding indexed_def by fast
qed

lemma indexed_del: "indexed ix lvs \<Longrightarrow> indexed ix (dict_del p lvs)"
  by (auto simp: indexed_def dest!: dict_del_elem)

lemma fill_prices_facts:
  "fill_prices sd ps lvs rem = (fills, lvs', rem') \<Longrightarrow> levels_sound s lvs \<Longrightarrow> distinct ps \<Longrightarrow>
   set ps \<subseteq> set (dict_keys lvs) \<Longrightarrow> 0 \<le> rem \<Longrightarrow> indexed ix lvs \<Longrightarrow>
     fills_volume fills = min rem (\<Sum>p\<leftarrow>ps. total_volume (level_at lvs p))
     \<and> rem' = rem - fills_volume fills \<and> levels_sound s lvs' \<and> indexed ix lvs'
     \<and> levels_volume lvs' = levels_volume lvs - fills_volume fills
     \<and> map f_order_id fills = take (length fills) (queue_ids lvs ps)
     \<and> (\<forall>f \<in> set fills. f_price f \<in> set ps \<and> 0 < f_quantity f \<and> f_side f = sd)
     \<and> (sorted_wrt R ps \<longrightarrow> sorted_wrt (\<lambda>p q. R p q \<or> p = q) (map f_price fills))"
proof (induction ps arbitrary: lvs rem fills)
  case Nil
  then show ?case by (auto simp: queue_ids_def)
next
  case (Cons p ps)
  have vnn: "0 \<le> total_volume (level_at lvs q)" for q
    using levels_soundD(2) [OF Cons.prems(2), of q] queue_volume_nonneg
    by (auto simp: level_at_def level_sound_def split: option.split)
  then have snn: "0 \<le> (\<Sum>p\<leftarrow>qs. total_volume (level_at lvs p))" for qs
    by (induction qs) auto
  show ?case
  proof (cases "rem \<le> 0")
    case True
    with Cons.prems snn [of "p # ps"] show ?thesis by auto
  next
    case False
    obtain lv where lv: "dict_get lvs p = Some lv"
      using Cons.prems(4) by (cases "dict_get lvs p") (auto simp: map_of_eq_None_iff)
    have sound: "level_sound s p lv" by (rule levels_soundD(2) [OF Cons.prems(2) lv])
    then have [simp]: "level_clean lv = lv" by (rule level_clean_sound)
    obtain fs os' vol' rem1 where fl: "fill_level sd p (orders lv) (total_volume lv) rem = (fs, os', vol', rem1)"
      using prod_cases4 by blast
    define lvs1 where "lvs1 = (if os' = [] then dict_del p lvs else dict_set p (lv\<lparr>orders := os', total_volume := vol'\<rparr>) lvs)"
    obtain fs' where rec: "fill_prices sd ps lvs1 rem1 = (fs', lvs', rem')" and fills: "fills = fs @ fs'"
      using Cons.prems(1) False lv fl by (auto simp: Let_def lvs1_def split: prod.splits)
    have pos: "\<forall>x \<in> set (orders lv). 0 < l3_remaining x" and tv: "total_volume lv = queue_volume (orders lv)"
      using sound unfolding level_sound_def by blast+
    have "0 \<le> rem" using False by simp
    note ff = fill_level_facts [OF fl pos this]
    have one: "fills_volume fs = min rem (total_volume lv)" "rem1 = rem - fills_volume fs"
      "vol' = queue_volume os'" "queue_volume os' = total_volume lv - fills_volume fs" "rest_of (orders lv) os'"
      "0 < rem1 \<Longrightarrow> os' = []" "os' = [] \<Longrightarrow> length fs = length (orders lv)"
      "map f_order_id fs = take (length fs) (map l3_id (orders lv))"
      "\<forall>f \<in> set fs. f_price f = p \<and> 0 < f_quantity f \<and> f_side f = sd"
      using ff unfolding tv by (blast | linarith)+
    have s1: "levels_sound s lvs1" and i1: "indexed ix lvs1"
      using levels_sound_del [OF Cons.prems(2)] levels_sound_set [OF Cons.prems(2) rest_of_sound [OF sound one(5) _ one(3)]]
        indexed_del [OF Cons.prems(6)] indexed_set [OF Cons.prems(6) lv one(5)]
      by (auto simp: lvs1_def)
    have v1: "levels_volume lvs1 = levels_volume lvs - fills_volume fs"
      using one(3,4) levels_volume_set [OF Cons.prems(2) lv] levels_volume_del [OF Cons.prems(2) lv] by (auto simp: lvs1_def)
    have other: "level_at lvs1 q = level_at lvs q" if "q \<noteq> p" for q
      using that by (auto simp: lvs1_def level_at_del)
    have keys: "set ps \<subseteq> set (dict_keys lvs1)"
      using Cons.prems(3,4) by (auto simp: lvs1_def dom_update dict_keys_del)
    have "distinct ps" "p \<notin> set ps" "0 \<le> rem1" using Cons.prems(3) one(1,2) False by auto
    note ih = Cons.IH [OF rec s1 \<open>distinct ps\<close> keys \<open>0 \<le> rem1\<close> i1]
    note same = level_at_other [OF \<open>p \<notin> set ps\<close> other]
    have lvp: "level_at lvs p = lv" by (simp add: level_at_def lv)
    have vol: "fills_volume fills = min rem (\<Sum>p\<leftarrow>p # ps. total_volume (level_at lvs p))"
      using ih same one(1,2) snn [of ps] by (auto simp: fills lvp min_def)
    have ids: "map f_order_id fills = take (length fills) (queue_ids lvs (p # ps))"
    proof (cases "rem1 \<le> 0")
      case True
      then have "fs' = []" using rec by (cases ps) auto
      then show ?thesis using one(8) by (simp add: fills queue_ids_def lvp) (metis length_map length_take min.cobounded1 take_all_iff append_Nil2 diff_is_0_eq' take_0)
    next
      case F: False
      then have "length fs = length (orders lv)" using one(6,7) by simp
      then show ?thesis using one(8) ih same by (simp add: fills queue_ids_def lvp)
    qed
    have "sorted_wrt (\<lambda>p q. R p q \<or> p = q) (map f_price gs)" if "\<forall>f \<in> set gs. f_price f = p" for gs
      using that by (induction gs) auto
    then have "sorted_wrt (\<lambda>p q. R p q \<or> p = q) (map f_price fs)" using one(9) by blast
    then show ?thesis
      using ih s1 v1 vol ids one(2,9) by (auto simp: fills sorted_wrt_append)
  qed
qed


lemma set_levels_simps [simp]:
  "levels_of s (set_levels s' lvs b) = (if s = s' then lvs else levels_of s b)"
  "order_index (set_levels s lvs b) = order_index b" "trade_log (set_levels s lvs b) = trade_log b"
  by (cases s; cases s'; simp add: levels_of_def set_levels_def)+

lemma levels_of_update [simp]:
  "levels_of s (b\<lparr>order_index := ix\<rparr>) = levels_of s b" "levels_of s (b\<lparr>trade_log := t\<rparr>) = levels_of s b"
  "levels_of s (b\<lparr>l3_counter := n\<rparr>) = levels_of s b"
  by (simp_all add: levels_of_def)

lemma l3_sound_iff:
  "l3_sound b \<longleftrightarrow> (\<forall>s. levels_sound s (levels_of s b) \<and> indexed (order_index b) (levels_of s b))"
proof -
  have "(\<forall>s. P s) \<longleftrightarrow> P L3_BUY \<and> P L3_SELL" for P
    by (metis l3_side.exhaust)
  then show ?thesis by (auto simp: l3_sound_def levels_of_def)
qed

lemma sorted_prices_facts:
  assumes "dict_ok lvs"
  shows "distinct (sorted_prices s lvs)" "set (sorted_prices s lvs) = set (dict_keys lvs)"
    "sorted_wrt (\<lambda>p q. if s = L3_BUY then p \<ge> q else p \<le> q) (sorted_prices s lvs)"
    "(\<Sum>p\<leftarrow>sorted_prices s lvs. total_volume (level_at lvs p)) = levels_volume lvs"
proof -
  have d: "distinct (dict_keys lvs)" using assms by (simp add: dict_ok_def)
  then show "distinct (sorted_prices s lvs)" "set (sorted_prices s lvs) = set (dict_keys lvs)"
    by (simp_all add: sorted_prices_def)
  show "sorted_wrt (\<lambda>p q. if s = L3_BUY then p \<ge> q else p \<le> q) (sorted_prices s lvs)"
    by (simp add: sorted_prices_def sorted_wrt_rev)
  have "mset (sorted_prices s lvs) = mset (dict_keys lvs)" by (simp add: sorted_prices_def)
  then have "(\<Sum>p\<leftarrow>sorted_prices s lvs. total_volume (level_at lvs p)) = (\<Sum>p\<leftarrow>dict_keys lvs. total_volume (level_at lvs p))"
    by (rule sum_list_mset_eq)
  also have "\<dots> = levels_volume lvs"
    unfolding levels_volume_def map_map
    by (intro arg_cong [where f = sum_list] map_cong) (use assms in \<open>auto simp: level_at_def dest: dict_get_in\<close>)
  finally show "(\<Sum>p\<leftarrow>sorted_prices s lvs. total_volume (level_at lvs p)) = levels_volume lvs" .
qed

lemma market_order_facts:
  assumes "l3_sound b" and "execute_market_order sd q b = (fills, b')" and "0 \<le> q"
  defines "s \<equiv> book_side_hit sd"
  shows "fills_volume fills = min q (levels_volume (levels_of s b))"
    and "levels_volume (levels_of s b') = levels_volume (levels_of s b) - fills_volume fills"
    and "s' \<noteq> s \<Longrightarrow> levels_of s' b' = levels_of s' b"
    and "map f_order_id fills = take (length fills) (queue_ids (levels_of s b) (sorted_prices s (levels_of s b)))"
    and "sorted_wrt (\<lambda>p q. if s = L3_BUY then p \<ge> q else p \<le> q) (map f_price fills)"
    and "f \<in> set fills \<Longrightarrow> 0 < f_quantity f"
    and "l3_sound b'" and "order_index b' = order_index b" and "trade_log b' = trade_log b @ fills"
proof -
  obtain lvs' rem where fp: "fill_prices sd (sorted_prices s (levels_of s b)) (levels_of s b) q = (fills, lvs', rem)"
    and b': "b' = (set_levels s lvs' b)\<lparr>trade_log := trade_log b @ fills\<rparr>"
    using assms(2) by (auto simp: execute_market_order_def s_def Let_def split: prod.splits)
  have ls: "levels_sound s (levels_of s b)" and ix: "indexed (order_index b) (levels_of s b)"
    using assms(1) by (auto simp: l3_sound_iff)
  note sp = sorted_prices_facts [OF levels_soundD(1) [OF ls]]
  note f = fill_prices_facts [OF fp ls sp(1) equalityD1 [OF sp(2)] assms(3) ix,
      where R = "\<lambda>p q. if s = L3_BUY then p \<ge> q else p \<le> q"]
  show "fills_volume fills = min q (levels_volume (levels_of s b))"
    and "levels_volume (levels_of s b') = levels_volume (levels_of s b) - fills_volume fills"
    and "s' \<noteq> s \<Longrightarrow> levels_of s' b' = levels_of s' b"
    and "map f_order_id fills = take (length fills) (queue_ids (levels_of s b) (sorted_prices s (levels_of s b)))"
    and "f \<in> set fills \<Longrightarrow> 0 < f_quantity f"
    and "order_index b' = order_index b" and "trade_log b' = trade_log b @ fills"
    using f sp(4) by (simp_all add: b')
  have "sorted_wrt (\<lambda>p q. (if s = L3_BUY then p \<ge> q else p \<le> q) \<or> p = q) (map f_price fills)"
    using f sp(3) by blast
  then show "sorted_wrt (\<lambda>p q. if s = L3_BUY then p \<ge> q else p \<le> q) (map f_price fills)"
    by (rule sorted_wrt_mono_rel [rotated]) auto
  show "l3_sound b'"
    using f assms(1) by (auto simp: l3_sound_iff b')
qed

subsection \<open>Histories\<close>

lemma first_live_sound:
  assumes "levels_sound s lvs" and "set ps \<subseteq> set (dict_keys lvs)" and "first_live ps lvs = (p, lvs')"
  shows "lvs' = lvs \<and> p = (if ps = [] then 0 else hd ps)"
proof (cases ps)
  case (Cons a as)
  then obtain lv where lv: "dict_get lvs a = Some lv"
    using assms(2) by (cases "dict_get lvs a") (auto simp: map_of_eq_None_iff)
  note sound = levels_soundD(2) [OF assms(1) lv]
  have "dict_set a lv lvs = lvs" using lv by (induction lvs) auto
  then show ?thesis
    using assms(3) Cons lv level_clean_sound [OF sound] sound by (auto simp: level_sound_def)
qed (use assms(3) in simp)

lemma best_price_sound:
  assumes "l3_sound b" and "best_price s b = (p, b')"
  shows "b' = b" and "p = (if levels_of s b = [] then 0 else hd (sorted_prices s (levels_of s b)))"
proof -
  have ls: "levels_sound s (levels_of s b)" using assms(1) by (simp add: l3_sound_iff)
  obtain lvs' where fl: "first_live (sorted_prices s (levels_of s b)) (levels_of s b) = (p, lvs')"
    and b': "b' = set_levels s lvs' b"
    using assms(2) by (auto simp: best_price_def split: prod.splits)
  note f = first_live_sound [OF ls equalityD1 [OF sorted_prices_facts(2) [OF levels_soundD(1) [OF ls]]] fl]
  then show "b' = b" by (cases s) (simp_all add: b' set_levels_def levels_of_def)
  have "sorted_prices s (levels_of s b) = [] \<longleftrightarrow> levels_of s b = []"
    by (metis Nil_is_map_conv set_empty sorted_prices_facts(2) [OF levels_soundD(1) [OF ls]])
  with f show "p = (if levels_of s b = [] then 0 else hd (sorted_prices s (levels_of s b)))" by simp
qed

lemma insert_order_sound:
  assumes "l3_sound b" and "0 < l3_remaining o1" and "dict_get (order_index b) (l3_id o1) = None"
  shows "l3_sound (insert_order o1 b)"
proof -
  let ?s = "l3_side o1" and ?p = "l3_price o1"
  let ?lvs = "levels_of ?s b"
  define lv where "lv = level_at ?lvs ?p"
  have ins: "insert_order o1 b = (set_levels ?s (dict_set ?p (level_add o1 lv) ?lvs) b)
      \<lparr>order_index := dict_set (l3_id o1) o1 (order_index b)\<rparr>"
    by (simp add: insert_order_def Let_def lv_def level_at_def)
  have ls: "levels_sound s (levels_of s b)" and ix: "indexed (order_index b) (levels_of s b)" for s
    using assms(1) by (auto simp: l3_sound_iff)
  have ids: "l3_id x \<noteq> l3_id o1" if "(p, l) \<in> set (levels_of s b)" "x \<in> set (orders l)" for s p l x
    using ix [of s] that assms(3) by (fastforce simp: indexed_def)
  have q: "lv = \<lparr>lv_price = ?p, orders = [], total_volume = 0\<rparr> \<or> level_sound ?s ?p lv \<and> (?p, lv) \<in> set ?lvs"
    using levels_soundD(2) [OF ls, of ?s ?p lv] by (auto simp: lv_def level_at_def split: option.split dest: map_of_SomeD)
  have own: "\<forall>x \<in> set (orders lv). l3_id x \<noteq> l3_id o1" using q ids by auto
  have "level_sound ?s ?p (level_add o1 lv)"
    using q assms(2) own by (auto simp: level_sound_def level_add_def)
  then have l: "levels_sound ?s (dict_set ?p (level_add o1 lv) ?lvs)" by (rule levels_sound_set [OF ls])
  have "indexed (dict_set (l3_id o1) o1 (order_index b)) (levels_of s b)" for s
    using ix [of s] ids by (fastforce simp: indexed_def)
  moreover have "indexed (dict_set (l3_id o1) o1 (order_index b)) (dict_set ?p (level_add o1 lv) ?lvs)"
  proof (rule indexed_dict_set [OF calculation])
    fix x assume "x \<in> set (orders (level_add o1 lv))"
    then consider "x = o1" | "x \<in> set (orders lv)" by (auto simp: level_add_def)
    then show "\<exists>y. dict_get (dict_set (l3_id o1) o1 (order_index b)) (l3_id x) = Some y
        \<and> l3_side y = l3_side x \<and> l3_price y = l3_price x"
    proof cases
      case 2
      then have "(?p, lv) \<in> set ?lvs" using q by auto
      with 2 ix [of ?s] own show ?thesis unfolding indexed_def by auto
    qed simp
  qed
  ultimately show ?thesis
    using l ls by (simp add: l3_sound_iff ins)
qed


definition l3_queue :: "l3_side \<Rightarrow> pyfloat \<Rightarrow> level3_book \<Rightarrow> book_order list" where
  "l3_queue s p b = orders (level_at (levels_of s b) p)"

lemma queue_volume_filter:
  "queue_volume (filter (\<lambda>x. \<not> P x) os) = queue_volume os - (\<Sum>x\<leftarrow>filter P os. l3_remaining x)"
  by (induction os) auto

lemma queue_index:
  assumes "l3_sound b" and "x \<in> set (l3_queue s p b)"
  shows "\<exists>y. dict_get (order_index b) (l3_id x) = Some y \<and> l3_side y = s \<and> l3_price y = p"
proof -
  obtain lv where lv: "dict_get (levels_of s b) p = Some lv" and x: "x \<in> set (orders lv)"
    using assms(2) by (auto simp: l3_queue_def level_at_def split: option.splits)
  have ls: "levels_sound s (levels_of s b)" and ix: "indexed (order_index b) (levels_of s b)"
    using assms(1) by (auto simp: l3_sound_iff)
  from levels_soundD(2) [OF ls lv] x have "l3_side x = s" "l3_price x = p" by (auto simp: level_sound_def)
  with ix x map_of_SomeD [OF lv] show ?thesis by (fastforce simp: indexed_def)
qed

lemma cancel_found:
  assumes sound: "l3_sound b" and o1: "dict_get (order_index b) oid = Some o1"
    and c: "l3_cancel_order oid b = (r, b')"
  shows "r" and "l3_queue s p b' = filter (\<lambda>x. l3_id x \<noteq> oid) (l3_queue s p b)"
    and "order_index b' = dict_del oid (order_index b)" and "l3_sound b'" and "trade_log b' = trade_log b"
proof -
  let ?s = "l3_side o1" and ?p = "l3_price o1"
  have ls: "levels_sound s (levels_of s b)" and ix: "indexed (order_index b) (levels_of s b)" for s
    using sound by (auto simp: l3_sound_iff)
  have absent: "filter (\<lambda>x. l3_id x \<noteq> oid) (l3_queue s p b) = l3_queue s p b" if "(s, p) \<noteq> (?s, ?p)" for s p
    using queue_index [OF sound, of _ s p] o1 that by (intro filter_True) force
  define lv1 where "lv1 = snd (remove_and_rebuild oid (level_at (levels_of ?s b) ?p))"
  have o_lv1: "orders lv1 = filter (\<lambda>x. l3_id x \<noteq> oid) (l3_queue ?s ?p b)"
    by (simp add: lv1_def remove_and_rebuild_def Let_def l3_queue_def)
  define lvs where "lvs = (if orders lv1 = [] then dict_del ?p (levels_of ?s b) else dict_set ?p lv1 (levels_of ?s b))"
  have b': "r \<and> b' = (if dict_get (levels_of ?s b) ?p = None then b else set_levels ?s lvs b)
      \<lparr>order_index := dict_del oid (order_index b)\<rparr>"
    using c o1 by (auto simp: l3_cancel_order_def Let_def lvs_def lv1_def level_at_def split: option.splits)
  then show r and "order_index b' = dict_del oid (order_index b)" and "trade_log b' = trade_log b" by auto
  have q: "l3_queue s p b' = filter (\<lambda>x. l3_id x \<noteq> oid) (l3_queue s p b)" for s p
  proof (cases "(s, p) = (?s, ?p)")
    case True
    then show ?thesis
      using b' o_lv1 by (auto simp: l3_queue_def lvs_def level_at_del level_at_def)
  next
    case False
    then have "l3_queue s p b' = l3_queue s p b"
      using b' by (auto simp: l3_queue_def lvs_def level_at_del)
    with absent [OF False] show ?thesis by simp
  qed
  then show "l3_queue s p b' = filter (\<lambda>x. l3_id x \<noteq> oid) (l3_queue s p b)" .
  have lvs_sound: "levels_sound ?s lvs" if "dict_get (levels_of ?s b) ?p = Some lv" for lv
  proof -
    have lv1: "lv1 = snd (remove_and_rebuild oid lv)" using that by (simp add: lv1_def level_at_def)
    have "level_sound ?s ?p lv" by (rule levels_soundD(2) [OF ls that])
    then have "orders lv1 \<noteq> [] \<Longrightarrow> level_sound ?s ?p lv1"
      by (auto simp: level_sound_def lv1 remove_and_rebuild_def Let_def queue_volume_filter distinct_map_filter)
    then show ?thesis
      by (simp add: lvs_def levels_sound_del [OF ls] levels_sound_set [OF ls])
  qed
  have "indexed (dict_del oid (order_index b)) (levels_of s b')" for s
    unfolding indexed_def
  proof (intro ballI, clarify)
    fix p lv x assume lv: "(p, lv) \<in> set (levels_of s b')" and x: "x \<in> set (orders lv)"
    have "levels_sound s (levels_of s b')"
      using b' ls lvs_sound by (cases "dict_get (levels_of ?s b) ?p") auto
    then have "x \<in> set (l3_queue s p b')" and sx: "l3_side x = s \<and> l3_price x = p"
      using lv x by (auto simp: l3_queue_def level_at_def levels_sound_def level_sound_def dict_get_in)
    then have "l3_id x \<noteq> oid" and "x \<in> set (l3_queue s p b)" by (auto simp: q)
    with queue_index [OF sound this(2)] sx
    show "\<exists>y. dict_get (dict_del oid (order_index b)) (l3_id x) = Some y \<and> l3_side y = l3_side x \<and> l3_price y = l3_price x"
      by auto
  qed
  then show "l3_sound b'"
    using b' ls lvs_sound by (cases "dict_get (levels_of ?s b) ?p") (auto simp: l3_sound_iff)
qed

lemma add_limit_sound:
  "l3_sound b \<Longrightarrow> 0 < q \<Longrightarrow> dict_get (order_index b) oid = None \<Longrightarrow>
   l3_sound (snd (add_limit_order oid sd p q ag src hid b))"
  by (auto simp: add_limit_order_def Let_def order_post_init_def l3_sound_def [of "_\<lparr>l3_counter := _\<rparr>"]
      l3_sound_def [of b] intro!: insert_order_sound split: sum.split)

lemma add_iceberg_sound:
  "l3_sound b \<Longrightarrow> 0 < q \<Longrightarrow> dict_get (order_index b) oid = None \<Longrightarrow>
   l3_sound (snd (add_iceberg_order oid sd p q peak ag b))"
  by (auto simp: add_iceberg_order_def Let_def order_post_init_def iceberg_post_init_def l3_sound_def [of "_\<lparr>l3_counter := _\<rparr>"]
      l3_sound_def [of b] intro!: insert_order_sound split: sum.split)

lemma depth_side_sound:
  "levels_sound s lvs \<Longrightarrow> set ps \<subseteq> set (dict_keys lvs) \<Longrightarrow>
   depth_side ps lvs = (map (\<lambda>p. level_snapshot (level_at lvs p)) ps, lvs)"
proof (induction ps)
  case (Cons p ps)
  then obtain lv where lv: "dict_get lvs p = Some lv"
    by (cases "dict_get lvs p") (auto simp: map_of_eq_None_iff)
  note sound = levels_soundD(2) [OF Cons.prems(1) lv]
  have "dict_set p lv lvs = lvs" using lv by (induction lvs) auto
  then show ?case
    using Cons level_clean_sound [OF sound] sound lv by (auto simp: level_sound_def level_at_def)
qed simp

lemma set_levels_same [simp]: "set_levels s (levels_of s b) b = b"
  by (cases s) (simp_all add: set_levels_def levels_of_def)

lemma depth_take_sound:
  assumes "levels_sound s lvs"
  shows "depth_side (take n (sorted_prices s lvs)) lvs
    = (map (\<lambda>p. level_snapshot (level_at lvs p)) (take n (sorted_prices s lvs)), lvs)"
proof (rule depth_side_sound [OF assms])
  show "set (take n (sorted_prices s lvs)) \<subseteq> set (dict_keys lvs)"
    using set_take_subset sorted_prices_facts(2) [OF levels_soundD(1) [OF assms]] by metis
qed

lemma depth_sound: "l3_sound b \<Longrightarrow> snd (l3_get_depth n b) = b"
  unfolding l3_sound_def l3_get_depth_def
  by (elim conjE) (simp only: depth_take_sound prod.case Let_def snd_conv, simp)

subsection \<open>Properties\<close>

inductive l3_step :: "level3_book \<Rightarrow> level3_book \<Rightarrow> bool" where
  add_limit: "0 < q \<Longrightarrow> dict_get (order_index b) oid = None \<Longrightarrow>
    l3_step b (snd (add_limit_order oid sd p q ag src hid b))"
| add_iceberg: "0 < q \<Longrightarrow> dict_get (order_index b) oid = None \<Longrightarrow>
    l3_step b (snd (add_iceberg_order oid sd p q peak ag b))"
| market: "0 \<le> q \<Longrightarrow> l3_step b (snd (execute_market_order sd q b))"
| process: "0 < q \<Longrightarrow> dict_get (order_index b) oid = None \<Longrightarrow> l3_step b (snd (process_limit_order oid sd p q b))"
| cancel: "l3_step b (snd (l3_cancel_order oid b))"
| best: "l3_step b (snd (best_price s b))"
| depth: "l3_step b (snd (l3_get_depth n b))"
| reset: "l3_step b (l3_reset b)"

inductive l3_reachable :: "level3_book \<Rightarrow> bool" where
  init: "l3_reachable l3_empty"
| step: "l3_reachable b \<Longrightarrow> l3_step b b' \<Longrightarrow> l3_reachable b'"

lemma l3_empty_sound: "l3_sound l3_empty"
  by (simp add: l3_sound_def l3_empty_def levels_sound_def indexed_def)

lemma process_sound:
  assumes "l3_sound b" and "0 < q" and "dict_get (order_index b) oid = None"
  shows "l3_sound (snd (process_limit_order oid sd p q b))"
proof -
  have best: "snd (best_price s b) = b" for s
    using best_price_sound(1) [OF assms(1)] by (metis prod.collapse)
  have mkt: "l3_sound (snd (execute_market_order sd' q b))" for sd'
    using market_order_facts(7) [OF assms(1)] assms(2) by (metis less_imp_le prod.collapse)
  show ?thesis
    using mkt best add_limit_sound [OF assms]
    by (simp add: process_limit_order_def case_prod_beta' Let_def)
qed

lemma l3_step_sound: "l3_step b b' \<Longrightarrow> l3_sound b \<Longrightarrow> l3_sound b'"
proof (induction rule: l3_step.induct)
  case (market q b sd)
  then show ?case using market_order_facts(7) by (metis prod.collapse)
next
  case (cancel b oid)
  show ?case
  proof (cases "dict_get (order_index b) oid")
    case None
    with cancel show ?thesis by (simp add: l3_cancel_order_def)
  next
    case (Some o1)
    then show ?thesis
      using cancel_found(4) [OF cancel Some] by (metis prod.collapse)
  qed
next
  case (best b s)
  then show ?case using best_price_sound(1) by (metis prod.collapse)
qed (simp_all add: add_limit_sound add_iceberg_sound process_sound depth_sound l3_empty_sound l3_reset_def)

lemma l3_reachable_sound: "l3_reachable b \<Longrightarrow> l3_sound b"
  by (induction rule: l3_reachable.induct) (auto simp: l3_empty_sound l3_step_sound)


definition queues_volume :: "l3_side \<Rightarrow> level3_book \<Rightarrow> int" where
  \<comment> \<open>the open quantity on one side, counted order by order\<close>
  "queues_volume s b = (\<Sum>p\<leftarrow>dict_keys (levels_of s b). queue_volume (l3_queue s p b))"

lemma queues_volume_eq:
  assumes "l3_sound b"
  shows "levels_volume (levels_of s b) = queues_volume s b"
proof -
  have ls: "levels_sound s (levels_of s b)" using assms by (simp add: l3_sound_iff)
  have "total_volume lv = queue_volume (l3_queue s p b)" if "(p, lv) \<in> set (levels_of s b)" for p lv
  proof -
    have g: "dict_get (levels_of s b) p = Some lv" using dict_get_in [OF levels_soundD(1) [OF ls] that] .
    then show ?thesis
      using levels_soundD(2) [OF ls g] by (simp add: l3_queue_def level_at_def level_sound_def)
  qed
  then show ?thesis
    unfolding levels_volume_def queues_volume_def map_map
    by (intro arg_cong [where f = sum_list] map_cong) auto
qed

definition l3_demo :: level3_book where
  "l3_demo =
     snd (add_limit_order ''c'' ''sell'' 12 4 [] ''s'' False
       (snd (add_limit_order ''b'' ''sell'' 10 3 [] ''s'' False
         (snd (add_limit_order ''a'' ''sell'' 10 2 [] ''s'' False l3_empty)))))"

lemma l3_demo_index:
  "dict_get (order_index l3_empty) ''a'' = None"
  "dict_get (order_index (snd (add_limit_order ''a'' ''sell'' 10 2 [] ''s'' False l3_empty))) ''b'' = None"
  "dict_get (order_index (snd (add_limit_order ''b'' ''sell'' 10 3 [] ''s'' False
     (snd (add_limit_order ''a'' ''sell'' 10 2 [] ''s'' False l3_empty))))) ''c'' = None"
  by code_simp+

lemma l3_demo_reachable: "l3_reachable l3_demo"
  unfolding l3_demo_def
  by (rule l3_reachable.step [OF l3_reachable.step [OF l3_reachable.step [OF l3_reachable.init
        l3_step.add_limit] l3_step.add_limit] l3_step.add_limit]) (simp_all add: l3_demo_index)

text \<open>The book itself checks no quantity: a limit order of quantity zero is queued with nothing open.\<close>

lemma zero_quantity_rests:
  "map (\<lambda>o1. (l3_id o1, l3_remaining o1)) (l3_queue L3_SELL 10 (snd (add_limit_order ''z'' ''SELL'' 10 0 [] [] False l3_empty)))
     = [(''z'', 0)]"
  by code_simp

text \<open>C14: the cached volumes of the level-3 book are exact: in every history in which each added order (limit, iceberg or
  processed) has a positive quantity and an id that is not resting, and market orders a quantity that is not negative, each
  side's total is the sum of what its queued orders still have open, and every queued order has something open and lies on
  the side and at the price of its queue.\<close>

theorem l3_volumes_exact:
  assumes "l3_reachable b"
  shows "total_bid_volume b = queues_volume L3_BUY b \<and> total_ask_volume b = queues_volume L3_SELL b
    \<and> (\<forall>s p. \<forall>x \<in> set (l3_queue s p b). 0 < l3_remaining x \<and> l3_side x = s \<and> l3_price x = p)"
proof -
  note sound = l3_reachable_sound [OF assms]
  have "0 < l3_remaining x \<and> l3_side x = s \<and> l3_price x = p" if mem: "x \<in> set (l3_queue s p b)" for s p x
  proof -
    obtain lv where lv: "dict_get (levels_of s b) p = Some lv" and x: "x \<in> set (orders lv)"
      using mem by (auto simp: l3_queue_def level_at_def split: option.splits)
    have "levels_sound s (levels_of s b)" using sound by (simp add: l3_sound_iff)
    from levels_soundD(2) [OF this lv] x show ?thesis by (simp add: level_sound_def)
  qed
  then show ?thesis
    using queues_volume_eq [OF sound, of L3_BUY] queues_volume_eq [OF sound, of L3_SELL]
    by (simp add: total_bid_volume_def total_ask_volume_def levels_of_def)
qed

theorem l3_volumes_exact_witness: "total_ask_volume l3_demo = queues_volume L3_SELL l3_demo \<and> total_ask_volume l3_demo = 9"
proof -
  have "total_ask_volume l3_demo = 9" by code_simp
  then show ?thesis using l3_volumes_exact [OF l3_demo_reachable] by simp
qed

text \<open>C2: a market order of \<open>q\<close> units on the level-3 book fills exactly as much as there is, up to
  \<open>q\<close>; it fills best price first and, at one price, in the order of arrival: the orders it fills
  are the head of the queues in book order. The other side is untouched.\<close>

theorem l3_market_order_fifo:
  assumes "l3_reachable b" and "execute_market_order sd q b = (fills, b')" and "0 \<le> q"
  shows "let s = book_side_hit sd; ids = queue_ids (levels_of s b) (sorted_prices s (levels_of s b)) in
      fills_volume fills = min q (queues_volume s b)
      \<and> queues_volume s b' = queues_volume s b - fills_volume fills
      \<and> map f_order_id fills = take (length fills) ids
      \<and> sorted_wrt (\<lambda>p q. if s = L3_BUY then p \<ge> q else p \<le> q) (map f_price fills)
      \<and> (\<forall>s'. s' \<noteq> s \<longrightarrow> levels_of s' b' = levels_of s' b)"
proof -
  note sound = l3_reachable_sound [OF assms(1)]
  note f = market_order_facts [OF sound assms(2,3)]
  show ?thesis
    unfolding Let_def using f(1,2,4,5) f(3) queues_volume_eq [OF sound] queues_volume_eq [OF f(7)] by simp
qed

theorem l3_market_order_fifo_witness:
  "map f_order_id (fst (execute_market_order ''buy'' 6 l3_demo)) = [''a'', ''b'', ''c'']
   \<and> queues_volume L3_SELL (snd (execute_market_order ''buy'' 6 l3_demo)) = queues_volume L3_SELL l3_demo - 6"
proof -
  have v: "map f_order_id (fst (execute_market_order ''buy'' 6 l3_demo)) = [''a'', ''b'', ''c'']"
    "fills_volume (fst (execute_market_order ''buy'' 6 l3_demo)) = 6" "book_side_hit ''buy'' = L3_SELL" by code_simp+
  show ?thesis
    using l3_market_order_fifo [OF l3_demo_reachable prod.collapse [symmetric], of 6 "''buy''"] v by (simp add: Let_def)
qed

text \<open>Cancelling an order of the level-3 book removes exactly that order from exactly its queue
  and forgets its id: a second cancel reports that there is no such order.\<close>

theorem l3_cancel_exact:
  assumes "l3_reachable b" and "dict_get (order_index b) oid = Some o1" and "l3_cancel_order oid b = (r, b')"
  shows "r \<and> (\<forall>s p. l3_queue s p b' = filter (\<lambda>x. l3_id x \<noteq> oid) (l3_queue s p b))
    \<and> l3_cancel_order oid b' = (False, b')"
  using cancel_found [OF l3_reachable_sound [OF assms(1)] assms(2,3)]
  by (simp add: l3_cancel_order_def [of oid b'])

theorem l3_cancel_exact_witness:
  "map l3_id (l3_queue L3_SELL 10 (snd (l3_cancel_order ''a'' l3_demo))) = [''b'']"
proof -
  have i: "dict_get (order_index l3_demo) ''a'' \<noteq> None" and q: "map l3_id (l3_queue L3_SELL 10 l3_demo) = [''a'', ''b'']"
    by code_simp+
  then obtain o1 where "dict_get (order_index l3_demo) ''a'' = Some o1" by blast
  then have c: "l3_queue L3_SELL 10 (snd (l3_cancel_order ''a'' l3_demo))
      = filter (\<lambda>x. l3_id x \<noteq> ''a'') (l3_queue L3_SELL 10 l3_demo)"
    using l3_cancel_exact [OF l3_demo_reachable _ prod.collapse [symmetric]] by blast
  have m: "map l3_id (filter (\<lambda>x. l3_id x \<noteq> ''a'') xs) = filter (\<lambda>i. i \<noteq> ''a'') (map l3_id xs)" for xs
    by (induction xs) auto
  show ?thesis unfolding c m q by simp
qed

text \<open>A limit order that crosses the level-3 book is executed as a market order: nothing of it
  is ever queued, and its limit is not looked at again, so it trades at worse prices than its limit.\<close>

theorem l3_crossing_limit_unprotected:
  "\<exists>b. l3_reachable b \<and> (\<exists>fills b'. process_limit_order ''n'' ''BUY'' 10 20 b = (Inr (Inl fills), b')
     \<and> map (\<lambda>f. (f_price f, f_quantity f)) fills = [(10, 2), (10, 3), (12, 4)]
     \<and> fills_volume fills < 20 \<and> l3_bids b' = [])"
proof (intro exI [of _ l3_demo] conjI l3_demo_reachable)
  let ?r = "process_limit_order ''n'' ''BUY'' 10 20 l3_demo"
  have "(case fst ?r of Inr (Inl fs) \<Rightarrow> map (\<lambda>f. (f_price f, f_quantity f)) fs | _ \<Rightarrow> []) = [(10, 2), (10, 3), (12, 4)]"
    and b: "l3_bids (snd ?r) = []"
    by code_simp+
  then obtain fills where fs: "fst ?r = Inr (Inl fills)"
    and m: "map (\<lambda>f. (f_price f, f_quantity f)) fills = [(10, 2), (10, 3), (12, 4)]"
    by (auto split: sum.splits)
  have "map f_quantity fills = map snd (map (\<lambda>f. (f_price f, f_quantity f)) fills)" by (simp add: comp_def)
  then have "fills_volume fills < 20" by (simp add: fills_volume_def m)
  with fs m b show "\<exists>fills b'. ?r = (Inr (Inl fills), b')
     \<and> map (\<lambda>f. (f_price f, f_quantity f)) fills = [(10, 2), (10, 3), (12, 4)]
     \<and> fills_volume fills < 20 \<and> l3_bids b' = []"
    by (intro exI [of _ fills] exI [of _ "snd ?r"]) (simp add: prod_eq_iff)
qed

end
