(* ===== verification/Ledger.thy ===== *)
theory Ledger
  imports Prelude
begin

text \<open>
  The portfolio ledger (\<open>backtesting/portfolio/ledger.py\<close>). Amounts are exact rationals, dates are
  day ordinals (\<open>date.toordinal()\<close>), and \<open>time.time()\<close> is an argument. A lot is reachable only
  through its symbol's list, so lots are values. The abstract view of a symbol's lots is the list
  of its units, oldest first, each with its unit cost.
\<close>

subsection \<open>Data\<close>

datatype entry_kind =
  E_BUY | E_SELL | E_COMMISSION | E_TAX | E_DIVIDEND | E_CAPITAL_INCREASE | E_INTEREST | E_FEE
  | E_DEPOSIT | E_WITHDRAWAL

record ledger_entry =
  le_id :: string
  le_type :: entry_kind
  le_symbol :: string
  le_quantity :: int
  le_price :: pyfloat
  le_amount :: pyfloat
  le_tax :: pyfloat
  le_commission :: pyfloat
  le_settlement :: "int option"
  le_timestamp :: pytime
  le_metadata :: "(pyfloat \<times> pyfloat \<times> int) option"

record position_lot =
  lot_symbol :: string
  lot_quantity :: int
  avg_cost :: pyfloat
  entry_date :: int
  entry_price :: pyfloat

record blocked_cash =
  bc_order :: string
  bc_symbol :: string
  bc_amount :: pyfloat
  blocked_at :: "int option"
  release_at :: "int option"

record ledger =
  initial_capital :: pyfloat
  cash :: pyfloat
  commission_pct :: pyfloat
  tax_pct :: pyfloat
  settlement_days :: int
  entries :: "ledger_entry list"
  positions :: "(string, position_lot list) pydict"
  blocked :: "blocked_cash list"
  current_date :: "int option"
  total_commission :: pyfloat
  total_tax :: pyfloat
  realized_pnl :: pyfloat

definition ledger_init :: "pyfloat \<Rightarrow> pyfloat \<Rightarrow> pyfloat \<Rightarrow> int \<Rightarrow> ledger" where
  "ledger_init capital cpct tpct days =
     \<lparr>initial_capital = capital, cash = capital, commission_pct = cpct, tax_pct = tpct, settlement_days = days,
      entries = [], positions = [], blocked = [], current_date = None, total_commission = 0, total_tax = 0,
      realized_pnl = 0\<rparr>"

subsection \<open>Queries\<close>

definition get_blocked_cash :: "ledger \<Rightarrow> pyfloat" where
  "get_blocked_cash l = (\<Sum>b\<leftarrow>blocked l. bc_amount b)"

definition get_available_cash :: "ledger \<Rightarrow> pyfloat" where
  "get_available_cash l = cash l - get_blocked_cash l"

definition held :: "position_lot list \<Rightarrow> int" where
  "held lots = (\<Sum>lot\<leftarrow>lots. lot_quantity lot)"

definition get_positions :: "ledger \<Rightarrow> (string, int) pydict" where
  "get_positions l =
     filter (\<lambda>(s, n). n \<noteq> 0) (map (\<lambda>(s, lots). (s, held lots)) (positions l))"

definition get_position_value :: "(string, pyfloat) pydict \<Rightarrow> ledger \<Rightarrow> pyfloat" where
  "get_position_value prices l =
     (\<Sum>(s, lots)\<leftarrow>positions l. of_int (held lots) * dict_get_or prices s 0)"

definition get_nav :: "(string, pyfloat) pydict \<Rightarrow> ledger \<Rightarrow> pyfloat" where
  "get_nav prices l = cash l + get_position_value prices l"

definition get_total_fees :: "ledger \<Rightarrow> pyfloat" where
  "get_total_fees l = total_commission l + total_tax l"

subsection \<open>Settlement dates\<close>

definition weekday :: "int \<Rightarrow> int" where
  \<comment> \<open>\<open>date.weekday()\<close>: Monday is 0\<close>
  "weekday d = (d + 6) mod 7"

function settle_from :: "int \<Rightarrow> int \<Rightarrow> int \<Rightarrow> int" where
  \<comment> \<open>the loop of \<open>_add_settlement_days\<close>: \<open>result\<close> and \<open>days_added\<close>\<close>
  "settle_from days result added =
     (if added < days
      then settle_from days (result + 1)
             (if weekday (result + 1) = 3 \<or> weekday (result + 1) = 4 then added else added + 1)
      else result)"
  by pat_completeness auto

definition to_business :: "int \<Rightarrow> nat" where
  "to_business d = (if weekday (d + 1) = 3 then 2 else if weekday (d + 1) = 4 then 1 else 0)"

lemma weekday_step: "weekday (d + 1) = (if weekday d = 6 then 0 else weekday d + 1)"
proof -
  have "(d + 1 + 6) mod 7 = ((d + 6) mod 7 + 1) mod 7" by presburger
  moreover have "0 \<le> (d + 6) mod 7" "(d + 6) mod 7 < 7" by simp_all
  ultimately show ?thesis by (auto simp: weekday_def)
qed

termination settle_from
proof (relation "measure (\<lambda>(days, result, added). 3 * nat (days - added) + to_business result)", goal_cases)
  case (2 days result added)
  then show ?case
    using weekday_step [of "result + 1"] by (auto simp: to_business_def nat_diff_distrib' algebra_simps)
qed simp

declare settle_from.simps [simp del]

definition add_settlement_days :: "int \<Rightarrow> int \<Rightarrow> int" where
  "add_settlement_days days d = settle_from days d 0"

subsection \<open>Transactions\<close>

definition entry_label :: "string \<Rightarrow> pytime \<Rightarrow> string" where
  \<comment> \<open>\<open>f"buy_{int(time.time()*1000)}"\<close>\<close>
  "entry_label kind now = kind @ ''_'' @ str_of_nat (nat (py_int (now * 1000)))"

definition buy :: "pytime \<Rightarrow> string \<Rightarrow> int \<Rightarrow> pyfloat \<Rightarrow> int \<Rightarrow> ledger \<Rightarrow> ledger_entry option \<times> ledger" where
  "buy now sy q p d l =
     (if q \<le> 0 \<or> p \<le> 0 then (None, l)
      else let amount = of_int q * p; commission = amount * commission_pct l; total_cost = amount + commission in
        if total_cost > get_available_cash l then (None, l)
        else let lot = \<lparr>lot_symbol = sy, lot_quantity = q, avg_cost = total_cost / of_int q, entry_date = d, entry_price = p\<rparr>;
                 e = \<lparr>le_id = entry_label ''buy'' now, le_type = E_BUY, le_symbol = sy, le_quantity = q, le_price = p,
                      le_amount = amount, le_tax = 0, le_commission = commission,
                      le_settlement = Some (add_settlement_days (settlement_days l) d), le_timestamp = now, le_metadata = None\<rparr>
             in (Some e, l\<lparr>cash := cash l - total_cost,
                           positions := dict_set sy (dict_get_or (positions l) sy [] @ [lot]) (positions l),
                           entries := entries l @ [e], total_commission := total_commission l + commission\<rparr>))"

fun match_lots :: "pyfloat \<Rightarrow> position_lot list \<Rightarrow> int \<Rightarrow> pyfloat \<times> position_lot list" where
  \<comment> \<open>FIFO matching: the gain realized and the lots that stay\<close>
  "match_lots p [] rem = (0, [])"
| "match_lots p (lot # lots) rem =
     (if rem \<le> 0 then (let (r, rest) = match_lots p lots rem in (r, lot # rest))
      else let q = min (lot_quantity lot) rem; (r, rest) = match_lots p lots (rem - q);
               gain = of_int q * (p - avg_cost lot); left = lot_quantity lot - q
           in (gain + r, if left > 0 then lot\<lparr>lot_quantity := left\<rparr> # rest else rest))"

definition sell :: "pytime \<Rightarrow> string \<Rightarrow> int \<Rightarrow> pyfloat \<Rightarrow> int \<Rightarrow> ledger \<Rightarrow> ledger_entry option \<times> ledger" where
  "sell now sy q p d l =
     (if q \<le> 0 \<or> p \<le> 0 then (None, l)
      else let lots = dict_get_or (positions l) sy [] in
        if q > held lots then (None, l)
        else let amount = of_int q * p; commission = amount * commission_pct l; tax = amount * tax_pct l;
                 (realized, rest) = match_lots p lots q;
                 e = \<lparr>le_id = entry_label ''sell'' now, le_type = E_SELL, le_symbol = sy, le_quantity = q, le_price = p,
                      le_amount = amount, le_tax = tax, le_commission = commission,
                      le_settlement = Some (add_settlement_days (settlement_days l) d), le_timestamp = now, le_metadata = None\<rparr>
             in (Some e, l\<lparr>cash := cash l + (amount - commission - tax), positions := dict_set sy rest (positions l),
                           realized_pnl := realized_pnl l + (realized - commission - tax), entries := entries l @ [e],
                           total_commission := total_commission l + commission, total_tax := total_tax l + tax\<rparr>))"

definition block_cash :: "string \<Rightarrow> string \<Rightarrow> pyfloat \<Rightarrow> ledger \<Rightarrow> ledger" where
  "block_cash oid sy amount l =
     l\<lparr>blocked := blocked l @
        [\<lparr>bc_order = oid, bc_symbol = sy, bc_amount = amount, blocked_at = current_date l, release_at = None\<rparr>]\<rparr>"

definition release_cash :: "string \<Rightarrow> ledger \<Rightarrow> ledger" where
  "release_cash oid l = l\<lparr>blocked := filter (\<lambda>b. bc_order b \<noteq> oid) (blocked l)\<rparr>"

definition release_settled_cash :: "int \<Rightarrow> ledger \<Rightarrow> ledger" where
  "release_settled_cash d l =
     l\<lparr>blocked := filter (\<lambda>b. \<not> (case release_at b of None \<Rightarrow> False | Some r \<Rightarrow> d \<ge> r)) (blocked l)\<rparr>"

definition set_date :: "int \<Rightarrow> ledger \<Rightarrow> ledger" where
  "set_date d l = release_settled_cash d (l\<lparr>current_date := Some d\<rparr>)"

definition apply_dividend :: "pytime \<Rightarrow> string \<Rightarrow> pyfloat \<Rightarrow> int \<Rightarrow> ledger \<Rightarrow> ledger" where
  "apply_dividend now sy per_share d l =
     (let shares = held (dict_get_or (positions l) sy []) in
      if shares \<le> 0 then l
      else let amount = of_int shares * per_share;
               e = \<lparr>le_id = [], le_type = E_DIVIDEND, le_symbol = sy, le_quantity = shares, le_price = per_share,
                    le_amount = amount, le_tax = 0, le_commission = 0, le_settlement = None, le_timestamp = now, le_metadata = None\<rparr>
           in l\<lparr>cash := cash l + amount, entries := entries l @ [e]\<rparr>)"

definition increase_lot :: "pyfloat \<Rightarrow> position_lot \<Rightarrow> position_lot" where
  "increase_lot ratio lot =
     (let old = lot_quantity lot; new = old + py_int (of_int old * (ratio - 1)) in
      if new \<le> 0 then lot
      else lot\<lparr>lot_quantity := new, avg_cost := avg_cost lot * (of_int old / of_int new),
               entry_price := entry_price lot * (of_int old / of_int new)\<rparr>)"

definition increased :: "pyfloat \<Rightarrow> position_lot list \<Rightarrow> position_lot list" where
  \<comment> \<open>the lots the loop does not skip\<close>
  "increased ratio lots = filter (\<lambda>lot. lot_quantity lot + py_int (of_int (lot_quantity lot) * (ratio - 1)) > 0) lots"

definition apply_capital_increase :: "pytime \<Rightarrow> string \<Rightarrow> pyfloat \<Rightarrow> int \<Rightarrow> ledger \<Rightarrow> py_error + ledger" where
  \<comment> \<open>\<open>apply_capital_increase_retained\<close>\<close>
  "apply_capital_increase now sy ratio d l =
     (if ratio \<le> 0 then Inl ValueError
      else let lots = dict_get_or (positions l) sy []; new_lots = map (increase_lot ratio) lots;
               total_old = held (increased ratio lots); total_new = held (map (increase_lot ratio) (increased ratio lots));
               l1 = (if lots = [] then l else l\<lparr>positions := dict_set sy new_lots (positions l)\<rparr>);
               e = \<lparr>le_id = entry_label ''capital_increase'' now, le_type = E_CAPITAL_INCREASE, le_symbol = sy,
                    le_quantity = total_new - total_old, le_price = 0, le_amount = 0, le_tax = 0, le_commission = 0,
                    le_settlement = None, le_timestamp = now, le_metadata = Some (ratio, of_int total_new / of_int total_old, d)\<rparr>
           in Inr (if total_old \<noteq> 0 \<and> total_new \<noteq> total_old then l1\<lparr>entries := entries l1 @ [e]\<rparr> else l1))"

subsection \<open>The abstract view: units with their cost\<close>

definition units :: "position_lot list \<Rightarrow> pyfloat list" where
  "units lots = concat (map (\<lambda>lot. replicate (nat (lot_quantity lot)) (avg_cost lot)) lots)"

definition lots_ok :: "position_lot list \<Rightarrow> bool" where
  "lots_ok lots \<longleftrightarrow> (\<forall>lot \<in> set lots. 0 < lot_quantity lot)"

lemma units_simps [simp]:
  "units [] = []" "units (lot # lots) = replicate (nat (lot_quantity lot)) (avg_cost lot) @ units lots"
  "units (xs @ ys) = units xs @ units ys"
  by (simp_all add: units_def)

lemma held_simps [simp]:
  "held [] = 0" "held (lot # lots) = lot_quantity lot + held lots" "held (xs @ ys) = held xs + held ys"
  by (simp_all add: held_def)

lemma lots_ok_simps [simp]:
  "lots_ok []" "lots_ok (lot # lots) \<longleftrightarrow> 0 < lot_quantity lot \<and> lots_ok lots"
  "lots_ok (xs @ ys) \<longleftrightarrow> lots_ok xs \<and> lots_ok ys"
  by (auto simp: lots_ok_def)

lemma held_nonneg: "lots_ok lots \<Longrightarrow> 0 \<le> held lots"
  by (induction lots) auto

lemma length_units: "lots_ok lots \<Longrightarrow> int (length (units lots)) = held lots"
  by (induction lots) auto

lemma sum_replicate: "sum_list (replicate n x) = of_nat n * (x :: pyfloat)"
  by (induction n) (auto simp: algebra_simps)

lemma match_lots_fifo:
  "lots_ok lots \<Longrightarrow> 0 \<le> rem \<Longrightarrow> rem \<le> held lots \<Longrightarrow> match_lots p lots rem = (r, rest) \<Longrightarrow>
     lots_ok rest \<and> units rest = drop (nat rem) (units lots)
     \<and> r = (\<Sum>c\<leftarrow>take (nat rem) (units lots). p - c)"
proof (induction lots arbitrary: rem r rest)
  case (Cons lot lots)
  obtain r1 rest1 where m1: "match_lots p lots (rem - min (lot_quantity lot) rem) = (r1, rest1)" by fastforce
  show ?case
  proof (cases "rem \<le> 0")
    case True
    then have "rem = 0" using Cons.prems by simp
    obtain r2 rest2 where m2: "match_lots p lots 0 = (r2, rest2)" by fastforce
    have "r2 = 0 \<and> lots_ok rest2 \<and> units rest2 = units lots"
      using Cons.IH [OF _ _ _ m2] Cons.prems(1) held_nonneg [of lots] by simp
    then show ?thesis using Cons.prems m2 \<open>rem = 0\<close> by auto
  next
    case False
    define q where "q = min (lot_quantity lot) rem"
    have q: "0 < q" "q \<le> rem" "q \<le> lot_quantity lot" using False Cons.prems(1) by (auto simp: q_def)
    have ih: "lots_ok rest1 \<and> units rest1 = drop (nat (rem - q)) (units lots)
        \<and> r1 = (\<Sum>c\<leftarrow>take (nat (rem - q)) (units lots). p - c)"
      using Cons.IH [OF _ _ _ m1] Cons.prems(1,3) held_nonneg [of lots] unfolding q_def by (simp add: min_def)
    have res: "r = of_int q * (p - avg_cost lot) + r1"
      "rest = (if lot_quantity lot - q > 0 then lot\<lparr>lot_quantity := lot_quantity lot - q\<rparr> # rest1 else rest1)"
      using Cons.prems(4) False m1 by (auto simp: q_def Let_def)
    have split: "nat rem = nat q + nat (rem - q)" using q by simp
    have "take (nat rem) (units (lot # lots)) = replicate (nat q) (avg_cost lot) @ take (nat (rem - q)) (units lots)
        \<and> drop (nat rem) (units (lot # lots))
          = replicate (nat (lot_quantity lot - q)) (avg_cost lot) @ drop (nat (rem - q)) (units lots)"
    proof (cases "lot_quantity lot \<le> rem")
      case True
      then have "q = lot_quantity lot" by (simp add: q_def)
      then show ?thesis unfolding split using q by simp
    next
      case False
      then have "q = rem" by (simp add: q_def)
      then show ?thesis using q by (simp add: nat_diff_distrib)
    qed
    with ih res q Cons.prems(1) show ?thesis
      by (auto simp: sum_replicate)
  qed
qed simp


subsection \<open>The accounting identity\<close>

definition lots_cost :: "position_lot list \<Rightarrow> pyfloat" where
  "lots_cost lots = (\<Sum>lot\<leftarrow>lots. of_int (lot_quantity lot) * avg_cost lot)"

definition cost_basis :: "ledger \<Rightarrow> pyfloat" where
  "cost_basis l = (\<Sum>(s, lots)\<leftarrow>positions l. lots_cost lots)"

definition dividends :: "ledger \<Rightarrow> pyfloat" where
  "dividends l = (\<Sum>e\<leftarrow>filter (\<lambda>e. le_type e = E_DIVIDEND) (entries l). le_amount e)"

definition all_lots_ok :: "(string, position_lot list) pydict \<Rightarrow> bool" where
  "all_lots_ok d \<longleftrightarrow> (\<forall>(s, lots) \<in> set d. lots_ok lots)"

definition ledger_inv :: "ledger \<Rightarrow> bool" where
  "ledger_inv l \<longleftrightarrow>
     dict_ok (positions l) \<and> all_lots_ok (positions l)
     \<and> cash l + cost_basis l = initial_capital l + realized_pnl l + dividends l
     \<and> (\<forall>b \<in> set (blocked l). release_at b = None)"

lemma lots_cost_simps [simp]:
  "lots_cost [] = 0" "lots_cost (lot # lots) = of_int (lot_quantity lot) * avg_cost lot + lots_cost lots"
  "lots_cost (xs @ ys) = lots_cost xs + lots_cost ys"
  by (simp_all add: lots_cost_def)

lemma lots_cost_units: "lots_ok lots \<Longrightarrow> lots_cost lots = sum_list (units lots)"
  by (induction lots) (auto simp: sum_replicate)

lemma lots_at_ok: "all_lots_ok d \<Longrightarrow> lots_ok (dict_get_or d s [])"
  by (auto simp: all_lots_ok_def dict_get_or_def split: option.split dest: map_of_SomeD)

lemma cost_basis_set:
  assumes "dict_ok d"
  shows "(\<Sum>(s, lots)\<leftarrow>dict_set k new d. lots_cost lots)
    = (\<Sum>(s, lots)\<leftarrow>d. lots_cost lots) - lots_cost (dict_get_or d k []) + lots_cost new"
  by (subst sum_dict_set_gen [OF assms]) (auto simp: dict_get_or_def split: option.split)

lemma sum_take_diff: "(\<Sum>c\<leftarrow>xs. p - c) = of_nat (length xs) * p - (sum_list xs :: pyfloat)"
  by (induction xs) (auto simp: algebra_simps)

lemma match_lots_cost:
  assumes "lots_ok lots" and "0 \<le> q" and "q \<le> held lots" and "match_lots p lots q = (r, rest)"
  shows "lots_cost rest = lots_cost lots - (of_int q * p - r)"
proof -
  note f = match_lots_fifo [OF assms]
  have "nat q \<le> length (units lots)"
    using length_units [OF assms(1)] assms(3) by (simp add: nat_le_iff)
  then have "length (take (nat q) (units lots)) = nat q" by simp
  then have "r = of_int q * p - sum_list (take (nat q) (units lots))"
    using f assms(2) by (simp add: sum_take_diff)
  moreover have "sum_list (units lots) = sum_list (take (nat q) (units lots)) + sum_list (drop (nat q) (units lots))"
    by (metis append_take_drop_id sum_list_append)
  ultimately show ?thesis
    using f lots_cost_units assms(1) by simp
qed

lemma all_lots_ok_set [simp]: "all_lots_ok d \<Longrightarrow> lots_ok new \<Longrightarrow> all_lots_ok (dict_set k new d)"
  by (auto simp: all_lots_ok_def dest!: dict_set_elem)

lemma buy_inv:
  assumes "ledger_inv l"
  shows "ledger_inv (snd (buy now sy q p d l))"
proof (cases "q \<le> 0 \<or> p \<le> 0 \<or> of_int q * p + of_int q * p * commission_pct l > get_available_cash l")
  case True
  then show ?thesis using assms by (auto simp: buy_def Let_def)
next
  case False
  have "lots_ok (dict_get_or (positions l) sy [])" using assms by (simp add: ledger_inv_def lots_at_ok)
  then show ?thesis
    using False assms by (auto simp: buy_def Let_def ledger_inv_def cost_basis_def cost_basis_set dividends_def)
qed

lemma sell_inv: "ledger_inv l \<Longrightarrow> ledger_inv (snd (sell now sy q p d l))"
proof -
  assume inv: "ledger_inv l"
  let ?lots = "dict_get_or (positions l) sy []"
  have ok: "lots_ok ?lots" using inv by (simp add: ledger_inv_def lots_at_ok)
  obtain r rest where m: "match_lots p ?lots q = (r, rest)" by fastforce
  show ?thesis
  proof (cases "q \<le> 0 \<or> p \<le> 0 \<or> q > held ?lots")
    case True
    then show ?thesis using inv by (auto simp: sell_def Let_def)
  next
    case False
    then have "lots_cost rest = lots_cost ?lots - (of_int q * p - r)" and "lots_ok rest"
      using match_lots_cost [OF ok _ _ m] match_lots_fifo [OF ok _ _ m] by auto
    then show ?thesis
      using inv False m
      by (auto simp: sell_def Let_def ledger_inv_def cost_basis_def cost_basis_set dividends_def)
  qed
qed

lemma increase_lot_keeps:
  "0 < lot_quantity lot \<Longrightarrow> 0 < lot_quantity (increase_lot ratio lot)
     \<and> of_int (lot_quantity (increase_lot ratio lot)) * avg_cost (increase_lot ratio lot) = of_int (lot_quantity lot) * avg_cost lot"
  by (auto simp: increase_lot_def Let_def)

lemma increase_lots_keep:
  "lots_ok lots \<Longrightarrow> lots_ok (map (increase_lot ratio) lots) \<and> lots_cost (map (increase_lot ratio) lots) = lots_cost lots"
  by (induction lots) (auto simp: increase_lot_keeps)

lemma capital_inv:
  assumes "ledger_inv l" and "apply_capital_increase now sy ratio d l = Inr l'"
  shows "ledger_inv l'" and "cost_basis l' = cost_basis l" and "cash l' = cash l"
proof -
  let ?lots = "dict_get_or (positions l) sy []"
  have ok: "lots_ok ?lots" using assms(1) by (simp add: ledger_inv_def lots_at_ok)
  define l1 where "l1 = (if ?lots = [] then l else l\<lparr>positions := dict_set sy (map (increase_lot ratio) ?lots) (positions l)\<rparr>)"
  have c1: "cost_basis l1 = cost_basis l" "cash l1 = cash l"
    using increase_lots_keep [OF ok, of ratio] assms(1)
    by (auto simp: l1_def cost_basis_def cost_basis_set ledger_inv_def)
  have inv1: "ledger_inv l1"
    using assms(1) c1 increase_lots_keep [OF ok, of ratio]
    by (auto simp: ledger_inv_def l1_def dividends_def)
  obtain e where "le_type e = E_CAPITAL_INCREASE" and "l' = l1 \<or> l' = l1\<lparr>entries := entries l1 @ [e]\<rparr>"
    using assms(2) that [of "\<lparr>le_id = entry_label ''capital_increase'' now, le_type = E_CAPITAL_INCREASE, le_symbol = sy,
        le_quantity = held (map (increase_lot ratio) (increased ratio ?lots)) - held (increased ratio ?lots), le_price = 0,
        le_amount = 0, le_tax = 0, le_commission = 0, le_settlement = None, le_timestamp = now,
        le_metadata = Some (ratio, of_int (held (map (increase_lot ratio) (increased ratio ?lots))) / of_int (held (increased ratio ?lots)), d)\<rparr>"]
    by (auto simp: apply_capital_increase_def Let_def l1_def split: if_splits)
  then show "ledger_inv l'" "cost_basis l' = cost_basis l" "cash l' = cash l"
    using inv1 c1 by (auto simp: ledger_inv_def cost_basis_def dividends_def)
qed

inductive ledger_step :: "ledger \<Rightarrow> ledger \<Rightarrow> bool" where
  buy: "ledger_step l (snd (buy now sy q p d l))"
| sell: "ledger_step l (snd (sell now sy q p d l))"
| block: "ledger_step l (block_cash oid sy amount l)"
| release: "ledger_step l (release_cash oid l)"
| date: "ledger_step l (set_date d l)"
| dividend: "ledger_step l (apply_dividend now sy per_share d l)"
| capital: "apply_capital_increase now sy ratio d l = Inr l' \<Longrightarrow> ledger_step l l'"

inductive ledger_reachable :: "ledger \<Rightarrow> bool" where
  init: "ledger_reachable (ledger_init capital cpct tpct days)"
| step: "ledger_reachable l \<Longrightarrow> ledger_step l l' \<Longrightarrow> ledger_reachable l'"

lemma ledger_step_inv: "ledger_step l l' \<Longrightarrow> ledger_inv l \<Longrightarrow> ledger_inv l'"
proof (induction rule: ledger_step.induct)
  case (capital now sy ratio d l l')
  then show ?case by (blast intro: capital_inv)
next
  case (date d l)
  then show ?case
    by (auto simp: set_date_def release_settled_cash_def ledger_inv_def cost_basis_def dividends_def)
next
  case (dividend now sy per_share d l)
  then show ?case
    by (auto simp: apply_dividend_def Let_def ledger_inv_def cost_basis_def dividends_def)
next
  case (release oid l)
  then show ?case by (auto simp: release_cash_def ledger_inv_def cost_basis_def dividends_def)
next
  case (block oid sy amount l)
  then show ?case by (auto simp: block_cash_def ledger_inv_def cost_basis_def dividends_def)
qed (simp_all add: buy_inv sell_inv)

lemma ledger_reachable_inv: "ledger_reachable l \<Longrightarrow> ledger_inv l"
proof (induction rule: ledger_reachable.induct)
  case (init capital cpct tpct days)
  show ?case by (simp add: ledger_inv_def all_lots_ok_def ledger_init_def cost_basis_def dividends_def)
qed (rule ledger_step_inv)


subsection \<open>Properties\<close>

definition unrealized :: "(string, pyfloat) pydict \<Rightarrow> ledger \<Rightarrow> pyfloat" where
  \<comment> \<open>open gain of the held lots at the given prices\<close>
  "unrealized prices l = (\<Sum>(s, lots)\<leftarrow>positions l. of_int (held lots) * dict_get_or prices s 0 - lots_cost lots)"

definition ledger_demo :: ledger where
  "ledger_demo =
     snd (sell 3 ''x'' 12 15 40
       (snd (buy 2 ''x'' 5 12 39 (snd (buy 1 ''x'' 10 10 38 (ledger_init 1000 (1 / 100) (1 / 200) 2))))))"

lemma ledger_demo_reachable: "ledger_reachable ledger_demo"
  unfolding ledger_demo_def by (intro ledger_reachable.step [OF _ ledger_step.buy] ledger_reachable.step [OF _ ledger_step.sell] ledger_reachable.init)

lemma trade_frame:
  "initial_capital (snd (buy now sy q p d l)) = initial_capital l" "dividends (snd (buy now sy q p d l)) = dividends l"
  "initial_capital (snd (sell now sy q p d l)) = initial_capital l" "dividends (snd (sell now sy q p d l)) = dividends l"
  "initial_capital (ledger_init capital cpct tpct days) = capital" "dividends (ledger_init capital cpct tpct days) = 0"
  by (auto simp: buy_def sell_def Let_def dividends_def ledger_init_def split: prod.split)

definition demo_held :: ledger where
  "demo_held = snd (buy 2 ''x'' 5 12 39 (snd (buy 1 ''x'' 10 10 38 (ledger_init 1000 (1 / 100) (1 / 200) 2))))"

lemma demo_held_reachable: "ledger_reachable demo_held"
  unfolding demo_held_def by (intro ledger_reachable.step [OF _ ledger_step.buy] ledger_reachable.init)

lemma demo_held_positions:
  "map (\<lambda>lot. (lot_quantity lot, avg_cost lot)) (dict_get_or (positions demo_held) ''x'' []) = [(10, 101 / 10), (5, 303 / 25)]"
  by (simp add: demo_held_def buy_def Let_def ledger_init_def get_available_cash_def get_blocked_cash_def dict_get_or_def)

text \<open>C4: the books balance in every history: cash plus the cost of what is held is the initial
  capital plus realized PnL plus dividends, so the net asset value exceeds the capital by exactly
  realized PnL, dividends and the open gain; no position is negative, and every lot still kept holds
  something.\<close>

theorem ledger_balances:
  assumes "ledger_reachable l"
  shows "cash l + cost_basis l = initial_capital l + realized_pnl l + dividends l
    \<and> get_nav prices l = initial_capital l + realized_pnl l + dividends l + unrealized prices l
    \<and> 0 \<le> held (dict_get_or (positions l) sy []) \<and> lots_ok (dict_get_or (positions l) sy [])"
proof -
  have "get_position_value prices l = cost_basis l + unrealized prices l"
    unfolding get_position_value_def cost_basis_def unrealized_def
    by (induction "positions l") (auto simp: algebra_simps case_prod_beta' sum_list_addf [symmetric])
  then show ?thesis
    using ledger_reachable_inv [OF assms] lots_at_ok [of "positions l" sy] held_nonneg
    by (simp add: ledger_inv_def get_nav_def)
qed

theorem ledger_balances_witness: "cash ledger_demo + cost_basis ledger_demo = 1000 + realized_pnl ledger_demo"
proof -
  have "initial_capital ledger_demo = 1000" "dividends ledger_demo = 0"
    by (simp_all add: ledger_demo_def trade_frame)
  then show ?thesis using ledger_balances [OF ledger_demo_reachable] by simp
qed

text \<open>C5: a sale that is accepted takes the oldest units first: the units left are the units held
  less the first \<open>q\<close>, the realized gain is the price less the cost of exactly those units, less
  commission and tax; a sale of more than is held is refused and changes nothing.\<close>

theorem ledger_sell_fifo:
  assumes "ledger_reachable l" and "sell now sy q p d l = (r, l')"
  shows "(case r of
      None \<Rightarrow> l' = l
    | Some e \<Rightarrow>
        let before = units (dict_get_or (positions l) sy []) in
          units (dict_get_or (positions l') sy []) = drop (nat q) before
          \<and> realized_pnl l' = realized_pnl l + (\<Sum>c\<leftarrow>take (nat q) before. p - c) - le_commission e - le_tax e
          \<and> cash l' = cash l + of_int q * p - le_commission e - le_tax e
          \<and> nat q \<le> length before)
    \<and> (0 < q \<and> 0 < p \<and> q \<le> held (dict_get_or (positions l) sy []) \<longleftrightarrow> r \<noteq> None)"
proof -
  let ?lots = "dict_get_or (positions l) sy []"
  have ok: "lots_ok ?lots" using ledger_reachable_inv [OF assms(1)] by (simp add: ledger_inv_def lots_at_ok)
  obtain gain rest where m: "match_lots p ?lots q = (gain, rest)" by fastforce
  show ?thesis
  proof (cases "q \<le> 0 \<or> p \<le> 0 \<or> q > held ?lots")
    case True
    then have "sell now sy q p d l = (None, l)" by (auto simp: sell_def Let_def)
    then show ?thesis using assms(2) True by auto
  next
    case False
    then have f: "units rest = drop (nat q) (units ?lots)" "gain = (\<Sum>c\<leftarrow>take (nat q) (units ?lots). p - c)"
      using match_lots_fifo [OF ok _ _ m] by auto
    have "nat q \<le> length (units ?lots)" using length_units [OF ok] False by (simp add: nat_le_iff)
    then show ?thesis
      using assms(2) False m f by (auto simp: sell_def Let_def dict_get_or_def [of "dict_set _ _ _"])
  qed
qed

theorem ledger_sell_fifo_witness: "units (dict_get_or (positions (snd (sell 3 ''x'' 12 15 40 demo_held))) ''x'' []) = replicate 3 (303 / 25)"
proof -
  let ?lots = "dict_get_or (positions demo_held) ''x'' []"
  have "units ?lots = concat (map (\<lambda>(n, c). replicate (nat n) c) (map (\<lambda>lot. (lot_quantity lot, avg_cost lot)) ?lots))"
    by (simp add: units_def comp_def)
  then have u: "units ?lots = replicate 10 (101 / 10) @ replicate 5 (303 / 25)" by (simp add: demo_held_positions)
  have "held ?lots = sum_list (map fst (map (\<lambda>lot. (lot_quantity lot, avg_cost lot)) ?lots))"
    by (simp add: held_def comp_def)
  then have h: "held ?lots = 15" by (simp add: demo_held_positions)
  note w = ledger_sell_fifo [OF demo_held_reachable prod.collapse [symmetric], of 3 "''x''" 12 15 40]
  from w h obtain e where "fst (sell 3 ''x'' 12 15 40 demo_held) = Some e" by auto
  with w u show ?thesis by (simp add: Let_def)
qed

definition business_days :: "int \<Rightarrow> int \<Rightarrow> int" where
  \<comment> \<open>the number of business days \<open>x\<close> with \<open>a < x \<le> b\<close>\<close>
  "business_days a b = int (length (filter (\<lambda>x. weekday x \<noteq> 3 \<and> weekday x \<noteq> 4) [a + 1..b]))"

lemma business_days_step:
  "business_days (d + 1) e = business_days d e - (if weekday (d + 1) = 3 \<or> weekday (d + 1) = 4 then 0 else 1)"
  if "d + 1 \<le> e"
  using upto_rec1 [OF that] by (simp add: business_days_def algebra_simps)

lemma settle_from_spec:
  "added < days \<Longrightarrow> result < settle_from days result added
     \<and> weekday (settle_from days result added) \<notin> {3, 4}
     \<and> business_days result (settle_from days result added) = days - added"
proof (induction days result added rule: settle_from.induct)
  case (1 days result added)
  let ?off = "weekday (result + 1) = 3 \<or> weekday (result + 1) = 4"
  have step: "settle_from days result added = settle_from days (result + 1) (if ?off then added else added + 1)"
    using 1(2) by (subst settle_from.simps) simp
  show ?case
  proof (cases "(if ?off then added else added + 1) < days")
    case True
    note ih = 1(1) [OF 1(2) True]
    with business_days_step [of result "settle_from days result added"] show ?thesis
      unfolding step by auto
  next
    case False
    then have "\<not> ?off" and "days = added + 1" using 1(2) by (auto split: if_splits)
    moreover from this have "settle_from days result added = result + 1"
      unfolding step by (subst settle_from.simps) simp
    ultimately show ?thesis by (simp add: business_days_def)
  qed
qed

text \<open>Settlement dates skip the market's weekend: \<open>n > 0\<close> settlement days after a trade is a
  business day, and exactly \<open>n\<close> business days lie after the trade up to and including it.\<close>

theorem settlement_days_exact:
  assumes "0 < days"
  shows "weekday (add_settlement_days days d) \<notin> {3, 4} \<and> d < add_settlement_days days d
    \<and> business_days d (add_settlement_days days d) = days"
  using settle_from_spec [of 0 days d] assms by (simp add: add_settlement_days_def)

theorem settlement_days_exact_witness: "weekday (add_settlement_days 2 738885) \<notin> {3, 4}"
  using settlement_days_exact [of 2 738885] by simp

text \<open>Blocked cash never settles: no operation gives a block a release date, so moving the date
  forward frees nothing, and only releasing the order's id does.\<close>

theorem blocked_cash_never_settles:
  assumes "ledger_reachable l"
  shows "blocked (set_date d l) = blocked l \<and> get_available_cash (set_date d l) = get_available_cash l"
  using ledger_reachable_inv [OF assms]
  by (simp add: ledger_inv_def set_date_def release_settled_cash_def get_available_cash_def get_blocked_cash_def)

theorem blocked_cash_never_settles_witness:
  "get_available_cash (set_date 99999 (block_cash ''o'' ''x'' 400 (ledger_init 1000 0 0 2))) = 600"
proof -
  have "ledger_reachable (block_cash ''o'' ''x'' 400 (ledger_init 1000 0 0 2))"
    by (intro ledger_reachable.step [OF _ ledger_step.block] ledger_reachable.init)
  note blocked_cash_never_settles [OF this, of 99999, THEN conjunct2]
  then show ?thesis
    by (simp only:) (simp add: get_available_cash_def get_blocked_cash_def block_cash_def ledger_init_def)
qed

end
