(* ===== verification/Order_Manager.thy ===== *)
theory Order_Manager
  imports Prelude
begin

text \<open>
  The life of an order in a backtest (\<open>backtesting/orders/manager.py\<close>), with what it calls: the
  fill simulator (\<open>backtesting/execution/fill_simulator.py\<close>), the canonical cost model
  (\<open>backtesting/costs/iran_costs.py\<close> and \<open>domain/trading/iran_costs.py\<close>) and the instrument states
  (\<open>backtesting/market/market_engine.py\<close>). Order objects are shared by the index and the pending
  list, so both hold references. Clock readings, fresh ids and the draws of \<open>random.random()\<close> are
  arguments.
\<close>

subsection \<open>Transaction costs\<close>

definition BROKER_PCT :: pyfloat where "BROKER_PCT = 4 / 1000"

definition CLEARING_FEE_PCT :: pyfloat where "CLEARING_FEE_PCT = 85 / 100000"

definition SELL_TAX_PCT :: pyfloat where "SELL_TAX_PCT = 5 / 1000"

record cost_model =
  broker_pct :: pyfloat
  sell_tax_pct :: pyfloat
  clearing_fee_pct :: pyfloat
  min_commission :: pyfloat

definition DEFAULT_IRAN_COSTS :: cost_model where
  "DEFAULT_IRAN_COSTS = \<lparr>broker_pct = BROKER_PCT, sell_tax_pct = SELL_TAX_PCT,
     clearing_fee_pct = CLEARING_FEE_PCT, min_commission = 0\<rparr>"

definition buy_cost :: "cost_model \<Rightarrow> pyfloat \<Rightarrow> int \<Rightarrow> pyfloat" where
  "buy_cost cm p q =
     (let principal = max p 0 * of_int (max q 0); broker = max (principal * broker_pct cm) (min_commission cm)
      in broker + principal * clearing_fee_pct cm)"

definition sell_cost :: "cost_model \<Rightarrow> pyfloat \<Rightarrow> int \<Rightarrow> pyfloat" where
  "sell_cost cm p q =
     (let principal = max p 0 * of_int (max q 0); broker = max (principal * broker_pct cm) (min_commission cm)
      in broker + principal * sell_tax_pct cm + principal * clearing_fee_pct cm)"

definition compute_cost :: "cost_model \<Rightarrow> string \<Rightarrow> pyfloat \<Rightarrow> int \<Rightarrow> pyfloat" where
  "compute_cost cm sd p q = (if py_lower sd = ''sell'' then sell_cost cm p q else buy_cost cm p q)"

definition round_trip_cost :: "cost_model \<Rightarrow> pyfloat \<Rightarrow> int \<Rightarrow> pyfloat \<Rightarrow> int \<Rightarrow> pyfloat" where
  "round_trip_cost cm bp bq sp sq = buy_cost cm bp bq + sell_cost cm sp sq"

definition canonical_cost :: "string \<Rightarrow> pyfloat \<Rightarrow> int \<Rightarrow> pyfloat" where
  \<comment> \<open>\<open>domain.trading.iran_costs.compute\<close>\<close>
  "canonical_cost sd p q =
     (let principal = max p 0 * of_int (max q 0)
      in if py_lower sd = ''sell''
         then principal * BROKER_PCT + principal * SELL_TAX_PCT + principal * CLEARING_FEE_PCT
         else principal * BROKER_PCT + principal * CLEARING_FEE_PCT)"

lemma default_cost_canonical: "compute_cost DEFAULT_IRAN_COSTS sd p q = canonical_cost sd p q"
proof -
  have "0 \<le> max p 0 * of_int (max q 0) * BROKER_PCT" by (simp add: BROKER_PCT_def)
  then have "max (max p 0 * of_int (max q 0) * BROKER_PCT) 0 = max p 0 * of_int (max q 0) * BROKER_PCT" by simp
  then show ?thesis
    by (simp only: compute_cost_def canonical_cost_def buy_cost_def sell_cost_def Let_def DEFAULT_IRAN_COSTS_def cost_model.simps)
qed

subsection \<open>Instrument states\<close>

datatype market_status = PRE_OPEN | OPEN | LUNCH_BREAK | CLOSED | HALTED

record instrument_state =
  market_name :: string
  best_bid :: pyfloat
  best_ask :: pyfloat
  bid_volume :: int
  ask_volume :: int
  last_trade :: pyfloat
  last_trade_volume :: int
  open_price :: pyfloat
  closing_price :: pyfloat
  high_price :: pyfloat
  low_price :: pyfloat
  traded_volume :: int
  traded_value :: pyfloat
  queue_state :: string
  session_state :: string
  price_limit_upper :: pyfloat
  price_limit_lower :: pyfloat
  reference_price :: pyfloat
  inst_status :: market_status

type_synonym market_engine = "(string, instrument_state) pydict"

definition add_instrument :: "string \<Rightarrow> string \<Rightarrow> pyfloat \<Rightarrow> market_engine \<Rightarrow> market_engine" where
  "add_instrument i mk ref eng =
     dict_set i \<lparr>market_name = mk, best_bid = 0, best_ask = 0, bid_volume = 0, ask_volume = 0, last_trade = 0,
       last_trade_volume = 0, open_price = 0, closing_price = 0, high_price = 0, low_price = 0, traded_volume = 0,
       traded_value = 0, queue_state = ''idle'', session_state = ''closed'', price_limit_upper = 0,
       price_limit_lower = 0, reference_price = ref, inst_status = CLOSED\<rparr> eng"

definition get_state :: "market_engine \<Rightarrow> string \<Rightarrow> instrument_state option" where
  "get_state eng i = dict_get eng i"

definition update_quote :: "string \<Rightarrow> pyfloat \<Rightarrow> pyfloat \<Rightarrow> int \<Rightarrow> int \<Rightarrow> market_engine \<Rightarrow> market_engine" where
  "update_quote i bid ask bv av eng =
     (case get_state eng i of
        None \<Rightarrow> eng
      | Some st \<Rightarrow> dict_set i (st\<lparr>best_bid := bid, best_ask := ask, bid_volume := bv, ask_volume := av\<rparr>) eng)"

definition update_trade :: "string \<Rightarrow> pyfloat \<Rightarrow> int \<Rightarrow> pyfloat \<Rightarrow> market_engine \<Rightarrow> market_engine" where
  "update_trade i p vol val eng =
     (case get_state eng i of
        None \<Rightarrow> eng
      | Some st \<Rightarrow>
          dict_set i (st\<lparr>last_trade := p, last_trade_volume := vol,
            traded_value := (if val > 0 then val else traded_value st), traded_volume := traded_volume st + vol,
            high_price := (if high_price st = 0 \<or> p > high_price st then p else high_price st),
            low_price := (if low_price st = 0 \<or> p < low_price st then p else low_price st)\<rparr>) eng)"

definition set_session_state :: "string \<Rightarrow> string \<Rightarrow> market_status \<Rightarrow> market_engine \<Rightarrow> market_engine" where
  "set_session_state i sess status eng =
     (case get_state eng i of
        None \<Rightarrow> eng
      | Some st \<Rightarrow> dict_set i (st\<lparr>session_state := sess, inst_status := status\<rparr>) eng)"

subsection \<open>Orders\<close>

datatype order_status = NEW | SUBMITTED | QUEUED | PARTIAL_FILL | FILLED | CANCELLED | REJECTED

record active_order =
  ao_id :: string
  ao_instrument :: string
  ao_side :: string
  ao_quantity :: int
  ao_price :: pyfloat
  ao_type :: string
  ao_remaining :: int
  ao_filled :: int
  ao_status :: order_status
  ao_filled_at :: "pytime option"

record order_request =
  \<comment> \<open>an \<open>OrderEvent\<close>\<close>
  rq_instrument :: string
  rq_side :: string
  rq_quantity :: int
  rq_price :: pyfloat
  rq_type :: string
  rq_id :: string

record fill_event =
  fe_order :: string
  fe_instrument :: string
  fe_side :: string
  fe_quantity :: int
  fe_price :: pyfloat
  fe_commission :: pyfloat

definition pick_side :: "string option \<Rightarrow> int \<Rightarrow> string" where
  "pick_side sd q = (case sd of None \<Rightarrow> (if q > 0 then ''buy'' else ''sell'') | Some s \<Rightarrow> s)"

definition om_market :: "string \<Rightarrow> string \<Rightarrow> int \<Rightarrow> string option \<Rightarrow> order_request" where
  "om_market oid i q sd = \<lparr>rq_instrument = i, rq_side = pick_side sd q, rq_quantity = \<bar>q\<bar>, rq_price = 0,
     rq_type = ''MARKET'', rq_id = oid\<rparr>"

definition om_limit :: "string \<Rightarrow> string \<Rightarrow> int \<Rightarrow> pyfloat \<Rightarrow> string option \<Rightarrow> order_request" where
  "om_limit oid i q p sd = \<lparr>rq_instrument = i, rq_side = pick_side sd q, rq_quantity = \<bar>q\<bar>, rq_price = p,
     rq_type = ''LIMIT'', rq_id = oid\<rparr>"

definition om_stop :: "string \<Rightarrow> string \<Rightarrow> int \<Rightarrow> pyfloat \<Rightarrow> string option \<Rightarrow> order_request" where
  "om_stop oid i q p sd = \<lparr>rq_instrument = i, rq_side = pick_side sd q, rq_quantity = \<bar>q\<bar>, rq_price = p,
     rq_type = ''STOP'', rq_id = oid\<rparr>"

record order_manager =
  om_objs :: "nat \<Rightarrow> active_order"
  om_fresh :: nat
  om_orders :: "(string, nat) pydict"
  om_pending :: "nat list"

definition om_init :: order_manager where
  "om_init = \<lparr>om_objs = (\<lambda>_. \<lparr>ao_id = [], ao_instrument = [], ao_side = [], ao_quantity = 0, ao_price = 0, ao_type = [],
     ao_remaining = 0, ao_filled = 0, ao_status = NEW, ao_filled_at = None\<rparr>), om_fresh = 0, om_orders = [], om_pending = []\<rparr>"

definition is_active :: "order_status \<Rightarrow> bool" where
  "is_active s \<longleftrightarrow> s \<in> {NEW, SUBMITTED, QUEUED, PARTIAL_FILL}"

definition om_submit :: "string \<Rightarrow> order_request \<Rightarrow> order_manager \<Rightarrow> order_manager" where
  "om_submit new_oid rq om =
     (let r = om_fresh om; oid = (if rq_id rq = [] then new_oid else rq_id rq);
          ord = \<lparr>ao_id = oid, ao_instrument = rq_instrument rq, ao_side = rq_side rq, ao_quantity = rq_quantity rq,
                 ao_price = rq_price rq, ao_type = (if rq_type rq = [] then ''MARKET'' else rq_type rq),
                 ao_remaining = rq_quantity rq, ao_filled = 0, ao_status = SUBMITTED, ao_filled_at = None\<rparr>
      in \<lparr>om_objs = (om_objs om)(r := ord), om_fresh = r + 1, om_orders = dict_set oid r (om_orders om),
          om_pending = om_pending om @ [r]\<rparr>)"

definition om_cancel :: "string \<Rightarrow> order_manager \<Rightarrow> order_manager" where
  "om_cancel oid om =
     (case dict_get (om_orders om) oid of
        None \<Rightarrow> om
      | Some r \<Rightarrow>
          if is_active (ao_status (om_objs om r))
          then om\<lparr>om_objs := (om_objs om)(r := (om_objs om r)\<lparr>ao_status := CANCELLED\<rparr>)\<rparr>
          else om)"

record fill_simulator =
  fill_probability :: pyfloat
  sim_costs :: cost_model

definition close_price :: "instrument_state \<Rightarrow> pyfloat" where
  \<comment> \<open>\<open>state.last_trade or state.best_ask or state.best_bid\<close>\<close>
  "close_price st = (if last_trade st \<noteq> 0 then last_trade st else if best_ask st \<noteq> 0 then best_ask st else best_bid st)"

definition simulate_fill :: "pyfloat \<Rightarrow> string \<Rightarrow> fill_simulator \<Rightarrow> active_order \<Rightarrow> pyfloat \<Rightarrow> fill_event option" where
  "simulate_fill u new_oid sim ord close =
     (if u > fill_probability sim then None
      else Some \<lparr>fe_order = (if ao_id ord = [] then new_oid else ao_id ord), fe_instrument = ao_instrument ord,
                 fe_side = ao_side ord, fe_quantity = ao_quantity ord, fe_price = close,
                 fe_commission = compute_cost (sim_costs sim) (ao_side ord) close (ao_quantity ord)\<rparr>)"

definition process_one ::
  "pyfloat \<Rightarrow> string \<Rightarrow> pytime \<Rightarrow> fill_simulator \<Rightarrow> instrument_state \<Rightarrow> active_order \<Rightarrow>
     active_order \<times> fill_event option \<times> bool" where
  \<comment> \<open>one pending order whose instrument is known: the order after, its fill, and whether it stays\<close>
  "process_one u new_oid now sim st ord =
     (case simulate_fill u new_oid sim ord (close_price st) of
        Some f \<Rightarrow>
          (let rem = ao_remaining ord - fe_quantity f
           in (ord\<lparr>ao_filled := ao_filled ord + fe_quantity f, ao_remaining := rem,
                   ao_status := (if rem \<le> 0 then FILLED else PARTIAL_FILL), ao_filled_at := Some now\<rparr>, Some f, rem > 0))
      | None \<Rightarrow>
          if ao_type ord = ''MARKET''
          then (let f = \<lparr>fe_order = ao_id ord, fe_instrument = ao_instrument ord, fe_side = ao_side ord,
                         fe_quantity = ao_remaining ord, fe_price = close_price st,
                         fe_commission = compute_cost (sim_costs sim) (ao_side ord) (close_price st) (ao_remaining ord)\<rparr>
                in (ord\<lparr>ao_filled := ao_filled ord + fe_quantity f, ao_remaining := 0, ao_status := FILLED,
                        ao_filled_at := Some now\<rparr>, Some f, False))
          else (ord\<lparr>ao_status := QUEUED\<rparr>, None, True))"

fun process_loop ::
  "(nat \<Rightarrow> pyfloat) \<Rightarrow> (nat \<Rightarrow> string) \<Rightarrow> pytime \<Rightarrow> market_engine \<Rightarrow> fill_simulator \<Rightarrow> nat list \<Rightarrow>
     (nat \<Rightarrow> active_order) \<Rightarrow> fill_event list \<times> nat list \<times> (nat \<Rightarrow> active_order)" where
  "process_loop rnd ids now eng sim [] \<sigma> = ([], [], \<sigma>)"
| "process_loop rnd ids now eng sim (r # rs) \<sigma> =
     (if ao_status (\<sigma> r) = CANCELLED then process_loop rnd ids now eng sim rs \<sigma>
      else case get_state eng (ao_instrument (\<sigma> r)) of
             None \<Rightarrow> (let (fs, keep, \<sigma>') = process_loop rnd ids now eng sim rs \<sigma> in (fs, r # keep, \<sigma>'))
           | Some st \<Rightarrow>
               (let (ord, f, stays) = process_one (rnd r) (ids r) now sim st (\<sigma> r);
                    (fs, keep, \<sigma>') = process_loop rnd ids now eng sim rs (\<sigma>(r := ord))
                in ((case f of None \<Rightarrow> fs | Some x \<Rightarrow> x # fs), (if stays then r # keep else keep), \<sigma>')))"

definition process_pending ::
  "(nat \<Rightarrow> pyfloat) \<Rightarrow> (nat \<Rightarrow> string) \<Rightarrow> pytime \<Rightarrow> market_engine \<Rightarrow> fill_simulator \<Rightarrow> order_manager \<Rightarrow>
     fill_event list \<times> order_manager" where
  "process_pending rnd ids now eng sim om =
     (let (fs, keep, \<sigma>) = process_loop rnd ids now eng sim (om_pending om) (om_objs om)
      in (fs, om\<lparr>om_objs := \<sigma>, om_pending := keep\<rparr>))"

definition om_get_order :: "string \<Rightarrow> order_manager \<Rightarrow> active_order option" where
  "om_get_order oid om = map_option (om_objs om) (dict_get (om_orders om) oid)"

definition active_orders :: "order_manager \<Rightarrow> active_order list" where
  "active_orders om = filter (\<lambda>x. is_active (ao_status x)) (map (\<lambda>(k, r). om_objs om r) (om_orders om))"

definition filled_orders :: "order_manager \<Rightarrow> active_order list" where
  "filled_orders om = filter (\<lambda>x. ao_status x = FILLED) (map (\<lambda>(k, r). om_objs om r) (om_orders om))"

definition om_reset :: "order_manager \<Rightarrow> order_manager" where
  "om_reset om = om\<lparr>om_orders := [], om_pending := []\<rparr>"

subsection \<open>The life of an order\<close>

definition order_ok :: "active_order \<Rightarrow> bool" where
  "order_ok ord \<longleftrightarrow>
     ao_filled ord + ao_remaining ord = ao_quantity ord
     \<and> (ao_status ord = FILLED \<longrightarrow> ao_remaining ord = 0) \<and> ao_status ord \<notin> {PARTIAL_FILL, REJECTED, NEW}
     \<and> (ao_status ord \<noteq> FILLED \<longrightarrow> ao_filled ord = 0)"

definition om_inv :: "order_manager \<Rightarrow> bool" where
  "om_inv om \<longleftrightarrow>
     distinct (om_pending om) \<and> (\<forall>r \<in> set (om_pending om). r < om_fresh om \<and> ao_status (om_objs om r) \<noteq> FILLED)
     \<and> (\<forall>r < om_fresh om. order_ok (om_objs om r)) \<and> (\<forall>(k, r) \<in> set (om_orders om). r < om_fresh om)"

lemma process_one_ok:
  assumes "order_ok ord" and "ao_status ord \<notin> {FILLED, CANCELLED}" and "process_one u oid now sim st ord = (ord', f, stays)"
  shows "order_ok ord'" and "ao_status ord' = (if stays then QUEUED else FILLED)" and "stays \<longleftrightarrow> f = None"
    and "ao_type ord = ''MARKET'' \<Longrightarrow> \<not> stays"
    and "f = Some x \<Longrightarrow> fe_quantity x = ao_quantity ord \<and> fe_price x = close_price st \<and> fe_instrument x = ao_instrument ord"
    and "ao_quantity ord' = ao_quantity ord \<and> ao_id ord' = ao_id ord \<and> ao_instrument ord' = ao_instrument ord \<and> ao_type ord' = ao_type ord"
  using assms by (auto simp: process_one_def simulate_fill_def order_ok_def Let_def split: if_splits)

lemma process_loop_ok:
  "process_loop rnd ids now eng sim rs \<sigma> = (fs, keep, \<sigma>') \<Longrightarrow> distinct rs \<Longrightarrow>
   \<forall>r \<in> set rs. order_ok (\<sigma> r) \<and> ao_status (\<sigma> r) \<noteq> FILLED \<Longrightarrow>
     (\<forall>r. r \<notin> set rs \<longrightarrow> \<sigma>' r = \<sigma> r) \<and> (\<forall>r \<in> set rs. order_ok (\<sigma>' r)) \<and> distinct keep \<and> set keep \<subseteq> set rs
     \<and> (\<forall>r \<in> set keep. ao_status (\<sigma>' r) \<noteq> FILLED)
     \<and> (\<forall>r \<in> set rs. ao_status (\<sigma> r) \<noteq> CANCELLED \<longrightarrow> ao_type (\<sigma> r) = ''MARKET'' \<longrightarrow>
          get_state eng (ao_instrument (\<sigma> r)) \<noteq> None \<longrightarrow> ao_status (\<sigma>' r) = FILLED \<and> r \<notin> set keep)
     \<and> (\<forall>r \<in> set rs. ao_status (\<sigma> r) = CANCELLED \<longrightarrow> \<sigma>' r = \<sigma> r \<and> r \<notin> set keep)
     \<and> (\<Sum>x\<leftarrow>fs. fe_quantity x) = (\<Sum>r\<leftarrow>rs. ao_filled (\<sigma>' r) - ao_filled (\<sigma> r))"
proof (induction rs arbitrary: \<sigma> fs keep)
  case (Cons r rs)
  have same: "(\<Sum>a\<leftarrow>rs. ao_filled (\<sigma>' a) - ao_filled ((\<sigma>(r := x)) a)) = (\<Sum>a\<leftarrow>rs. ao_filled (\<sigma>' a) - ao_filled (\<sigma> a))" for x
    by (rule arg_cong [where f = sum_list], rule map_cong) (use Cons.prems(2) in auto)
  consider (cancelled) "ao_status (\<sigma> r) = CANCELLED"
    | (unknown) "ao_status (\<sigma> r) \<noteq> CANCELLED" "get_state eng (ao_instrument (\<sigma> r)) = None"
    | (known) st where "ao_status (\<sigma> r) \<noteq> CANCELLED" "get_state eng (ao_instrument (\<sigma> r)) = Some st"
    by fastforce
  then show ?case
  proof cases
    case cancelled
    with Cons.prems have rec: "process_loop rnd ids now eng sim rs \<sigma> = (fs, keep, \<sigma>')" by simp
    show ?thesis using Cons.IH [OF rec] Cons.prems(2,3) cancelled by auto
  next
    case unknown
    with Cons.prems obtain keep' where rec: "process_loop rnd ids now eng sim rs \<sigma> = (fs, keep', \<sigma>')" and k: "keep = r # keep'"
      by (auto split: prod.splits)
    show ?thesis using Cons.IH [OF rec] Cons.prems(2,3) unknown k by auto
  next
    case (known st)
    obtain ord f stays where one: "process_one (rnd r) (ids r) now sim st (\<sigma> r) = (ord, f, stays)"
      by (cases "process_one (rnd r) (ids r) now sim st (\<sigma> r)")
    with Cons.prems known obtain fs' keep' where
      rec: "process_loop rnd ids now eng sim rs (\<sigma>(r := ord)) = (fs', keep', \<sigma>')" and
      k: "fs = (case f of None \<Rightarrow> fs' | Some x \<Rightarrow> x # fs')" "keep = (if stays then r # keep' else keep')"
      by (auto split: prod.splits)
    have r: "order_ok (\<sigma> r)" "ao_status (\<sigma> r) \<notin> {FILLED, CANCELLED}" using Cons.prems(3) known by auto
    note o = process_one_ok [OF r one]
    have rs: "distinct rs" "r \<notin> set rs" using Cons.prems(2) by auto
    have pre: "\<forall>a \<in> set rs. order_ok ((\<sigma>(r := ord)) a) \<and> ao_status ((\<sigma>(r := ord)) a) \<noteq> FILLED"
      using Cons.prems(3) rs(2) by auto
    note ih = Cons.IH [OF rec rs(1) pre]
    have r': "\<sigma>' r = ord" using ih rs(2) by simp
    have fill: "(case f of None \<Rightarrow> 0 | Some x \<Rightarrow> fe_quantity x) = ao_filled ord - ao_filled (\<sigma> r)"
      using o(1,2,3) o(5) o(6) r by (cases f) (auto simp: order_ok_def)
    have total: "(\<Sum>x\<leftarrow>fs. fe_quantity x) = (\<Sum>r\<leftarrow>r # rs. ao_filled (\<sigma>' r) - ao_filled (\<sigma> r))"
      using ih same [of ord] fill r' k(1) by (cases f) simp_all
    have keep: "distinct keep" "set keep \<subseteq> set (r # rs)" "\<forall>a \<in> set keep. ao_status (\<sigma>' a) \<noteq> FILLED"
      using ih k(2) rs o(2) r' by (auto split: if_splits)
    have ok: "\<forall>a. a \<notin> set (r # rs) \<longrightarrow> \<sigma>' a = \<sigma> a" "\<forall>a \<in> set (r # rs). order_ok (\<sigma>' a)"
      using ih o(1) r' by auto
    have mem: "a \<in> set keep \<longleftrightarrow> a \<in> set keep'" if "a \<in> set rs" for a
      using k(2) that rs(2) by auto
    have rest: "(ao_status (\<sigma> a) \<noteq> CANCELLED \<longrightarrow> ao_type (\<sigma> a) = ''MARKET'' \<longrightarrow>
          get_state eng (ao_instrument (\<sigma> a)) \<noteq> None \<longrightarrow> ao_status (\<sigma>' a) = FILLED \<and> a \<notin> set keep)
        \<and> (ao_status (\<sigma> a) = CANCELLED \<longrightarrow> \<sigma>' a = \<sigma> a \<and> a \<notin> set keep)" if "a \<in> set rs" for a
    proof -
      have e: "(\<sigma>(r := ord)) a = \<sigma> a" using that rs(2) by auto
      have m: "\<forall>a \<in> set rs. ao_status ((\<sigma>(r := ord)) a) \<noteq> CANCELLED \<longrightarrow> ao_type ((\<sigma>(r := ord)) a) = ''MARKET'' \<longrightarrow>
          get_state eng (ao_instrument ((\<sigma>(r := ord)) a)) \<noteq> None \<longrightarrow> ao_status (\<sigma>' a) = FILLED \<and> a \<notin> set keep'"
        "\<forall>a \<in> set rs. ao_status ((\<sigma>(r := ord)) a) = CANCELLED \<longrightarrow> \<sigma>' a = (\<sigma>(r := ord)) a \<and> a \<notin> set keep'"
        using ih by - ((elim conjE, assumption)+)
      show ?thesis using bspec [OF m(1) that] bspec [OF m(2) that] unfolding e mem [OF that] by (rule conjI)
    qed
    have "r \<notin> set keep'" using ih rs(2) by blast
    then have head: "ao_type (\<sigma> r) = ''MARKET'' \<longrightarrow> ao_status (\<sigma>' r) = FILLED \<and> r \<notin> set keep"
      using o(2,4) r' k(2) by auto
    show ?thesis
      using total keep ok rest head known(1) by auto
  qed
qed simp


inductive om_step :: "order_manager \<Rightarrow> order_manager \<Rightarrow> bool" where
  submit: "om_step om (om_submit oid rq om)"
| cancel: "om_step om (om_cancel oid om)"
| process: "om_step om (snd (process_pending rnd ids now eng sim om))"
| reset: "om_step om (om_reset om)"

inductive om_reachable :: "order_manager \<Rightarrow> bool" where
  init: "om_reachable om_init"
| step: "om_reachable om \<Longrightarrow> om_step om om' \<Longrightarrow> om_reachable om'"

lemma om_invD:
  assumes "om_inv om"
  shows "distinct (om_pending om)" "r \<in> set (om_pending om) \<Longrightarrow> r < om_fresh om"
    "r \<in> set (om_pending om) \<Longrightarrow> ao_status (om_objs om r) \<noteq> FILLED"
    "r < om_fresh om \<Longrightarrow> order_ok (om_objs om r)" "(k, r) \<in> set (om_orders om) \<Longrightarrow> r < om_fresh om"
  using assms by (auto simp: om_inv_def)

lemma process_facts:
  assumes "om_inv om" and "process_pending rnd ids now eng sim om = (fs, om')"
  obtains keep \<sigma> where "process_loop rnd ids now eng sim (om_pending om) (om_objs om) = (fs, keep, \<sigma>)"
    "om' = om\<lparr>om_objs := \<sigma>, om_pending := keep\<rparr>"
    "\<forall>r \<in> set (om_pending om). order_ok (om_objs om r) \<and> ao_status (om_objs om r) \<noteq> FILLED"
  using assms that by (auto simp: process_pending_def om_inv_def split: prod.splits)

lemma om_step_inv: "om_step om om' \<Longrightarrow> om_inv om \<Longrightarrow> om_inv om'"
proof (induction rule: om_step.induct)
  case (submit om oid rq)
  then show ?case
    by (auto simp: om_submit_def Let_def om_inv_def order_ok_def less_Suc_eq dest!: dict_set_elem)
next
  case (cancel om oid)
  show ?case
  proof (cases "dict_get (om_orders om) oid")
    case (Some r)
    have "r < om_fresh om" by (rule om_invD(5) [OF cancel map_of_SomeD [OF Some]])
    from om_invD(4) [OF cancel this] have "is_active (ao_status (om_objs om r)) \<Longrightarrow>
        order_ok ((om_objs om r)\<lparr>ao_status := CANCELLED\<rparr>)"
      by (auto simp: order_ok_def is_active_def)
    then show ?thesis using cancel Some by (auto simp: om_cancel_def om_inv_def)
  qed (use cancel in \<open>simp add: om_cancel_def\<close>)
next
  case (process om rnd ids now eng sim)
  obtain fs om' where p: "process_pending rnd ids now eng sim om = (fs, om')" by fastforce
  obtain keep \<sigma> where l: "process_loop rnd ids now eng sim (om_pending om) (om_objs om) = (fs, keep, \<sigma>)"
    and om': "om' = om\<lparr>om_objs := \<sigma>, om_pending := keep\<rparr>"
    and pre: "\<forall>r \<in> set (om_pending om). order_ok (om_objs om r) \<and> ao_status (om_objs om r) \<noteq> FILLED"
    by (rule process_facts [OF process p])
  note f = process_loop_ok [OF l om_invD(1) [OF process] pre]
  have "order_ok (\<sigma> r)" if "r < om_fresh om" for r
    using f om_invD(4) [OF process that] by (cases "r \<in> set (om_pending om)") auto
  then show ?case
    using f process by (auto simp: p om' om_inv_def)
next
  case (reset om)
  then show ?case by (auto simp: om_reset_def om_inv_def)
qed

lemma om_reachable_inv: "om_reachable om \<Longrightarrow> om_inv om"
proof (induction rule: om_reachable.induct)
  case init
  show ?case by (simp add: om_inv_def om_init_def)
qed (rule om_step_inv)

subsection \<open>Properties\<close>

definition om_demo :: order_manager where
  "om_demo = om_submit ''o2'' (om_limit [] ''x'' 7 50 None) (om_submit ''o1'' (om_market [] ''x'' 5 None) om_init)"

definition demo_engine :: market_engine where
  "demo_engine = update_trade ''x'' 80 100 0 (add_instrument ''x'' ''TSE'' 0 [])"

definition demo_sim :: fill_simulator where
  "demo_sim = \<lparr>fill_probability = 1, sim_costs = DEFAULT_IRAN_COSTS\<rparr>"

lemma om_demo_reachable: "om_reachable om_demo"
  unfolding om_demo_def by (intro om_reachable.step [OF _ om_step.submit] om_reachable.init)

text \<open>An order that is still live is in the list of pending ones.\<close>

lemma process_loop_live:
  "process_loop rnd ids now eng sim rs \<sigma> = (fs, keep, \<sigma>') \<Longrightarrow> distinct rs \<Longrightarrow>
   \<forall>r \<in> set rs. order_ok (\<sigma> r) \<and> ao_status (\<sigma> r) \<noteq> FILLED \<Longrightarrow> r \<in> set rs \<Longrightarrow> is_active (ao_status (\<sigma>' r)) \<Longrightarrow> r \<in> set keep"
proof (induction rs arbitrary: \<sigma> fs keep)
  case (Cons a rs)
  have d: "distinct rs" "a \<notin> set rs" using Cons.prems(2) by simp_all
  have pre: "\<forall>r \<in> set rs. order_ok (\<sigma> r) \<and> ao_status (\<sigma> r) \<noteq> FILLED" and a: "order_ok (\<sigma> a)" "ao_status (\<sigma> a) \<noteq> FILLED"
    using Cons.prems(3) by simp_all
  consider (cancelled) "ao_status (\<sigma> a) = CANCELLED"
    | (unknown) "ao_status (\<sigma> a) \<noteq> CANCELLED" "get_state eng (ao_instrument (\<sigma> a)) = None"
    | (known) st where "ao_status (\<sigma> a) \<noteq> CANCELLED" "get_state eng (ao_instrument (\<sigma> a)) = Some st"
    by fastforce
  then show ?case
  proof cases
    case cancelled
    with Cons.prems(1) have rec: "process_loop rnd ids now eng sim rs \<sigma> = (fs, keep, \<sigma>')" by simp
    have "\<sigma>' a = \<sigma> a" using process_loop_ok [OF rec d(1) pre] d(2) by blast
    then have "r \<noteq> a" using Cons.prems(5) cancelled by (auto simp: is_active_def)
    then show ?thesis using Cons.IH [OF rec d(1) pre] Cons.prems(4,5) by simp
  next
    case unknown
    with Cons.prems(1) obtain keep' where rec: "process_loop rnd ids now eng sim rs \<sigma> = (fs, keep', \<sigma>')" and k: "keep = a # keep'"
      by (auto split: prod.splits)
    show ?thesis using Cons.IH [OF rec d(1) pre] Cons.prems(4,5) k by auto
  next
    case (known st)
    obtain ord f stays where one: "process_one (rnd a) (ids a) now sim st (\<sigma> a) = (ord, f, stays)"
      by (cases "process_one (rnd a) (ids a) now sim st (\<sigma> a)")
    with Cons.prems(1) known obtain fs' keep' where
      rec: "process_loop rnd ids now eng sim rs (\<sigma>(a := ord)) = (fs', keep', \<sigma>')" and
      k: "keep = (if stays then a # keep' else keep')"
      by (auto split: prod.splits)
    have pre': "\<forall>r \<in> set rs. order_ok ((\<sigma>(a := ord)) r) \<and> ao_status ((\<sigma>(a := ord)) r) \<noteq> FILLED"
      using pre d(2) by auto
    have "\<sigma>' a = ord" using process_loop_ok [OF rec d(1) pre'] d(2) by auto
    moreover have "ao_status ord = (if stays then QUEUED else FILLED)"
      using process_one_ok(2) [OF a(1) _ one] a(2) known(1) by simp
    ultimately have "r = a \<Longrightarrow> stays" using Cons.prems(5) by (auto simp: is_active_def split: if_splits)
    then show ?thesis using Cons.IH [OF rec d(1) pre'] Cons.prems(4,5) k by auto
  qed
qed simp

definition live_pending :: "order_manager \<Rightarrow> bool" where
  "live_pending om \<longleftrightarrow> (\<forall>(k, r) \<in> set (om_orders om). is_active (ao_status (om_objs om r)) \<longrightarrow> r \<in> set (om_pending om))"

lemma om_step_live: "om_step om om' \<Longrightarrow> om_inv om \<Longrightarrow> live_pending om \<Longrightarrow> live_pending om'"
proof (induction rule: om_step.induct)
  case (submit om oid rq)
  have old: "r \<noteq> om_fresh om" if "(k, r) \<in> set (om_orders om)" for k r using om_invD(5) [OF submit(1) that] by simp
  then show ?case
    using submit(2) by (fastforce simp: live_pending_def om_submit_def Let_def dest!: dict_set_elem)
next
  case (cancel om oid)
  then show ?case by (auto simp: live_pending_def om_cancel_def is_active_def split: option.split)
next
  case (process om rnd ids now eng sim)
  obtain fs om' where p: "process_pending rnd ids now eng sim om = (fs, om')" by fastforce
  obtain keep \<sigma> where l: "process_loop rnd ids now eng sim (om_pending om) (om_objs om) = (fs, keep, \<sigma>)"
    and om': "om' = om\<lparr>om_objs := \<sigma>, om_pending := keep\<rparr>"
    and pre: "\<forall>r \<in> set (om_pending om). order_ok (om_objs om r) \<and> ao_status (om_objs om r) \<noteq> FILLED"
    by (rule process_facts [OF process(1) p])
  note d = om_invD(1) [OF process(1)]
  have "r \<in> set keep" if "(k, r) \<in> set (om_orders om)" "is_active (ao_status (\<sigma> r))" for k r
  proof (cases "r \<in> set (om_pending om)")
    case True
    then show ?thesis using process_loop_live [OF l d pre] that(2) by blast
  next
    case False
    then have "\<sigma> r = om_objs om r" using process_loop_ok [OF l d pre] by blast
    then show ?thesis using process(2) that False by (auto simp: live_pending_def)
  qed
  then show ?case by (auto simp: live_pending_def p om')
next
  case (reset om)
  show ?case by (simp add: live_pending_def om_reset_def)
qed

lemma om_reachable_live: "om_reachable om \<Longrightarrow> live_pending om"
proof (induction rule: om_reachable.induct)
  case init
  show ?case by (simp add: live_pending_def om_init_def)
qed (blast intro: om_step_live om_reachable_inv)

text \<open>C18: in every history of the order manager, filled and remaining quantity of every tracked order
  add up to its quantity; a filled order has nothing remaining, and an order that is not filled has
  nothing filled: the status PARTIAL_FILL is never reached; and a tracked order that is still active is in the list of
  pending orders, so that the next pass over it sees it.\<close>

theorem order_accounting:
  assumes "om_reachable om" and "om_get_order oid om = Some ord"
  shows "ao_filled ord + ao_remaining ord = ao_quantity ord \<and> (ao_status ord = FILLED \<longrightarrow> ao_remaining ord = 0)
    \<and> (ao_status ord \<noteq> FILLED \<longrightarrow> ao_filled ord = 0) \<and> ao_status ord \<noteq> PARTIAL_FILL
    \<and> (is_active (ao_status ord) \<longrightarrow> (\<exists>r. dict_get (om_orders om) oid = Some r \<and> om_objs om r = ord \<and> r \<in> set (om_pending om)))"
proof -
  obtain r where r: "dict_get (om_orders om) oid = Some r" "ord = om_objs om r"
    using assms(2) by (auto simp: om_get_order_def)
  note inv = om_reachable_inv [OF assms(1)]
  have "order_ok ord"
    unfolding r(2) by (rule om_invD(4) [OF inv om_invD(5) [OF inv map_of_SomeD [OF r(1)]]])
  moreover have "is_active (ao_status ord) \<longrightarrow> r \<in> set (om_pending om)"
    using om_reachable_live [OF assms(1)] map_of_SomeD [OF r(1)] r(2) by (auto simp: live_pending_def)
  ultimately show ?thesis using r by (auto simp: order_ok_def)
qed

theorem order_accounting_witness:
  "\<exists>ord. om_get_order ''o1'' om_demo = Some ord \<and> ao_filled ord + ao_remaining ord = ao_quantity ord"
proof -
  have "om_get_order ''o1'' om_demo \<noteq> None" by code_simp
  then obtain ord where "om_get_order ''o1'' om_demo = Some ord" by blast
  with order_accounting [OF om_demo_reachable this] show ?thesis by blast
qed

text \<open>C25: One pass over the pending orders fills every market order whose instrument is known and
  that is not cancelled, whatever the random draws; a cancelled order is dropped unfilled; and the
  fills reported add up to what the orders record as filled.\<close>

theorem market_orders_fill:
  assumes "om_reachable om" and "process_pending rnd ids now eng sim om = (fills, om')"
  shows "(\<forall>r \<in> set (om_pending om). ao_type (om_objs om r) = ''MARKET'' \<and> ao_status (om_objs om r) \<noteq> CANCELLED
        \<and> get_state eng (ao_instrument (om_objs om r)) \<noteq> None \<longrightarrow>
          ao_status (om_objs om' r) = FILLED \<and> r \<notin> set (om_pending om'))
    \<and> (\<forall>r \<in> set (om_pending om). ao_status (om_objs om r) = CANCELLED \<longrightarrow>
          om_objs om' r = om_objs om r \<and> r \<notin> set (om_pending om'))
    \<and> (\<Sum>x\<leftarrow>fills. fe_quantity x) = (\<Sum>r\<leftarrow>om_pending om. ao_filled (om_objs om' r) - ao_filled (om_objs om r))"
proof -
  note inv = om_reachable_inv [OF assms(1)]
  obtain keep \<sigma> where l: "process_loop rnd ids now eng sim (om_pending om) (om_objs om) = (fills, keep, \<sigma>)"
    and om': "om' = om\<lparr>om_objs := \<sigma>, om_pending := keep\<rparr>"
    and pre: "\<forall>r \<in> set (om_pending om). order_ok (om_objs om r) \<and> ao_status (om_objs om r) \<noteq> FILLED"
    by (rule process_facts [OF inv assms(2)])
  show ?thesis
    using process_loop_ok [OF l om_invD(1) [OF inv] pre] by (auto simp: om')
qed

theorem market_orders_fill_witness:
  "ao_status (om_objs (snd (process_pending (\<lambda>_. 2) (\<lambda>_. ''f'') 9 demo_engine demo_sim om_demo)) 0) = FILLED"
proof -
  have c: "0 \<in> set (om_pending om_demo)" "ao_type (om_objs om_demo 0) = ''MARKET''"
    "ao_status (om_objs om_demo 0) \<noteq> CANCELLED" "get_state demo_engine (ao_instrument (om_objs om_demo 0)) \<noteq> None"
    by code_simp+
  show ?thesis
    using market_orders_fill [OF om_demo_reachable prod.collapse [symmetric],
        where rnd = "\<lambda>_. 2" and ids = "\<lambda>_. ''f''" and now = 9 and eng = demo_engine and sim = demo_sim] c by blast
qed

text \<open>The fill simulator looks at neither the limit of a limit order nor the trigger of a stop
  order: when the draw allows a fill, an order of any type fills completely at the close.\<close>

theorem limit_not_enforced:
  assumes "u \<le> fill_probability sim" and "order_ok ord" and "ao_status ord \<in> {SUBMITTED, QUEUED}"
  shows "\<exists>f. process_one u oid now sim st (ord\<lparr>ao_type := ty, ao_price := p\<rparr>)
      = (ord\<lparr>ao_type := ty, ao_price := p, ao_filled := ao_quantity ord, ao_remaining := 0, ao_status := FILLED,
            ao_filled_at := Some now\<rparr>, Some f, False)
    \<and> fe_price f = close_price st \<and> fe_quantity f = ao_quantity ord"
proof -
  have "ao_filled ord = 0" and "ao_remaining ord = ao_quantity ord"
    using assms(2,3) by (auto simp: order_ok_def)
  with assms(1) show ?thesis by (simp add: process_one_def simulate_fill_def Let_def)
qed

theorem limit_not_enforced_witness:
  "\<exists>f. (snd (process_one 0 ''f'' 9 demo_sim (the (get_state demo_engine ''x'')) (om_objs om_demo 1))) = (Some f, False)
     \<and> fe_price f = 80 \<and> ao_price (om_objs om_demo 1) = 50 \<and> ao_type (om_objs om_demo 1) = ''LIMIT''"
proof -
  let ?o = "om_objs om_demo 1"
  have o: "?o\<lparr>ao_type := ''LIMIT'', ao_price := 50\<rparr> = ?o" "order_ok ?o" "ao_status ?o = SUBMITTED"
    and t: "ao_price ?o = 50" "ao_type ?o = ''LIMIT''"
    by (simp_all add: om_demo_def om_submit_def om_limit_def om_market_def om_init_def order_ok_def Let_def)
  have c: "close_price (the (get_state demo_engine ''x'')) = 80" by code_simp
  have p: "0 \<le> fill_probability demo_sim" by (simp add: demo_sim_def)
  show ?thesis
    using limit_not_enforced [OF p o(2), where oid = "''f''" and now = 9 and st = "the (get_state demo_engine ''x'')"
        and ty = "''LIMIT''" and p = 50] o t c
    by auto
qed

end
