(* ===== verification/Pre_Trade_Risk.thy ===== *)
theory Pre_Trade_Risk
  imports Prelude
begin

text \<open>
  The pre-trade risk engine (\<open>backtesting/risk/pre_trade_risk.py\<close>). The text of a rejection is
  represented by the rule that produced it; numbers are exact. \<open>admissible\<close> is the policy as one
  condition, which \<open>check_order\<close> is shown to decide.
\<close>

subsection \<open>The engine\<close>

record risk_policy =
  max_position_pct :: pyfloat
  max_sector_pct :: pyfloat
  max_drawdown_pct :: pyfloat
  max_daily_loss_pct :: pyfloat
  min_cash_reserve_pct :: pyfloat
  max_leverage :: pyfloat
  max_orders_per_day :: int
  max_order_value_pct :: pyfloat
  kill_switch_drawdown :: pyfloat

definition default_policy :: risk_policy where
  "default_policy = \<lparr>max_position_pct = 20 / 100, max_sector_pct = 30 / 100, max_drawdown_pct = - 15 / 100,
     max_daily_loss_pct = - 3 / 100, min_cash_reserve_pct = 10 / 100, max_leverage = 1, max_orders_per_day = 50,
     max_order_value_pct = 10 / 100, kill_switch_drawdown = - 25 / 100\<rparr>"

datatype risk_reason =
  Kill_Switch_Active | Kill_Switch_Triggered | Max_Drawdown | Daily_Loss | Cash_Reserve | Order_Too_Large
  | Position_Limit | Sector_Limit | Daily_Orders

record risk_check_result =
  reason :: "risk_reason option" \<comment> \<open>\<open>None\<close>: allowed\<close>
  warnings :: nat

definition allowed :: "risk_check_result \<Rightarrow> bool" where
  "allowed r \<longleftrightarrow> reason r = None"

record risk_engine =
  policy :: risk_policy
  daily_order_count :: int
  daily_pnl :: pyfloat
  peak_nav :: pyfloat
  kill_switch_active :: bool

definition risk_init :: "risk_policy \<Rightarrow> risk_engine" where
  "risk_init p = \<lparr>policy = p, daily_order_count = 0, daily_pnl = 0, peak_nav = 0, kill_switch_active = False\<rparr>"

record risk_order =
  ro_side :: string
  ro_symbol :: string
  ro_quantity :: int
  ro_price :: pyfloat
  ro_sector :: string

record risk_account =
  portfolio_value :: pyfloat
  cash_available :: pyfloat
  current_positions :: "(string, int) pydict"
  current_prices :: "(string, pyfloat) pydict"
  sector_exposure :: "(string, pyfloat) pydict"

definition order_value :: "risk_order \<Rightarrow> pyfloat" where
  "order_value ord = of_int (ro_quantity ord) * ro_price ord"

definition reject :: "risk_reason \<Rightarrow> risk_check_result" where
  "reject r = \<lparr>reason = Some r, warnings = 0\<rparr>"

definition check_order :: "risk_order \<Rightarrow> risk_account \<Rightarrow> risk_engine \<Rightarrow> risk_check_result \<times> risk_engine" where
  "check_order ord acc eng =
     (let p = policy eng; pv = portfolio_value acc; val = order_value ord;
          dd = (pv - peak_nav eng) / peak_nav eng;
          cur = of_int (dict_get_or (current_positions acc) (ro_symbol ord) 0) * dict_get_or (current_prices acc) (ro_symbol ord) 0;
          sec = dict_get_or (sector_exposure acc) (ro_sector ord) 0
      in if kill_switch_active eng then (reject Kill_Switch_Active, eng)
         else if peak_nav eng > 0 \<and> dd \<le> kill_switch_drawdown p
         then (reject Kill_Switch_Triggered, eng\<lparr>kill_switch_active := True\<rparr>)
         else if peak_nav eng > 0 \<and> dd \<le> max_drawdown_pct p then (reject Max_Drawdown, eng)
         else if pv > 0 \<and> daily_pnl eng / pv \<le> max_daily_loss_pct p then (reject Daily_Loss, eng)
         else if ro_side ord = ''buy'' \<and> cash_available acc - val < pv * min_cash_reserve_pct p then (reject Cash_Reserve, eng)
         else if pv > 0 \<and> val / pv > max_order_value_pct p then (reject Order_Too_Large, eng)
         else if ro_side ord = ''buy'' \<and> pv > 0 \<and> (cur + val) / pv > max_position_pct p then (reject Position_Limit, eng)
         else if ro_side ord = ''buy'' \<and> ro_sector ord \<noteq> [] \<and> sector_exposure acc \<noteq> [] \<and> pv > 0
                 \<and> (sec + val) / pv > max_sector_pct p then (reject Sector_Limit, eng)
         else if daily_order_count eng \<ge> max_orders_per_day p then (reject Daily_Orders, eng)
         else (\<lparr>reason = None, warnings = (if pv > 0 \<and> val / pv > max_order_value_pct p * (8 / 10) then 1 else 0)\<rparr>,
               eng\<lparr>daily_order_count := daily_order_count eng + 1\<rparr>))"

definition update_daily_pnl :: "pyfloat \<Rightarrow> risk_engine \<Rightarrow> risk_engine" where
  "update_daily_pnl pnl eng = eng\<lparr>daily_pnl := daily_pnl eng + pnl\<rparr>"

definition update_peak_nav :: "pyfloat \<Rightarrow> risk_engine \<Rightarrow> risk_engine" where
  "update_peak_nav nav eng = (if nav > peak_nav eng then eng\<lparr>peak_nav := nav\<rparr> else eng)"

definition new_day :: "risk_engine \<Rightarrow> risk_engine" where
  "new_day eng = eng\<lparr>daily_order_count := 0, daily_pnl := 0\<rparr>"

definition reset_kill_switch :: "risk_engine \<Rightarrow> risk_engine" where
  "reset_kill_switch eng = eng\<lparr>kill_switch_active := False\<rparr>"

subsection \<open>The policy as one condition\<close>

definition admissible :: "risk_order \<Rightarrow> risk_account \<Rightarrow> risk_engine \<Rightarrow> bool" where
  "admissible ord acc eng \<longleftrightarrow>
     \<not> kill_switch_active eng
     \<and> (0 < peak_nav eng \<longrightarrow>
          portfolio_value acc > peak_nav eng * (1 + kill_switch_drawdown (policy eng))
          \<and> portfolio_value acc > peak_nav eng * (1 + max_drawdown_pct (policy eng)))
     \<and> (0 < portfolio_value acc \<longrightarrow>
          daily_pnl eng > max_daily_loss_pct (policy eng) * portfolio_value acc
          \<and> order_value ord \<le> max_order_value_pct (policy eng) * portfolio_value acc)
     \<and> (ro_side ord = ''buy'' \<longrightarrow>
          cash_available acc - order_value ord \<ge> min_cash_reserve_pct (policy eng) * portfolio_value acc
          \<and> (0 < portfolio_value acc \<longrightarrow>
               of_int (dict_get_or (current_positions acc) (ro_symbol ord) 0) * dict_get_or (current_prices acc) (ro_symbol ord) 0
                 + order_value ord \<le> max_position_pct (policy eng) * portfolio_value acc
               \<and> (ro_sector ord \<noteq> [] \<and> sector_exposure acc \<noteq> [] \<longrightarrow>
                    dict_get_or (sector_exposure acc) (ro_sector ord) 0 + order_value ord
                      \<le> max_sector_pct (policy eng) * portfolio_value acc)))
     \<and> daily_order_count eng < max_orders_per_day (policy eng)"

lemma drawdown_le: "0 < (n :: pyfloat) \<Longrightarrow> (v - n) / n \<le> d \<longleftrightarrow> v \<le> n * (1 + d)"
  by (simp add: pos_divide_le_eq algebra_simps)

lemma ratio_cmp:
  "0 < (v :: pyfloat) \<Longrightarrow> x / v \<le> d \<longleftrightarrow> x \<le> d * v" "0 < v \<Longrightarrow> x / v > d \<longleftrightarrow> x > d * v"
  by (simp_all add: pos_divide_le_eq pos_less_divide_eq)

inductive risk_step :: "risk_engine \<Rightarrow> risk_engine \<Rightarrow> bool" where
  check: "risk_step eng (snd (check_order ord acc eng))"
| pnl: "risk_step eng (update_daily_pnl x eng)"
| peak: "risk_step eng (update_peak_nav x eng)"
| new_day: "risk_step eng (new_day eng)"

lemma check_cases:
  obtains (rejected) r where "check_order ord acc eng = (reject r, eng)"
  | (triggered) "check_order ord acc eng = (reject Kill_Switch_Triggered, eng\<lparr>kill_switch_active := True\<rparr>)"
  | (passed) w where "\<not> kill_switch_active eng" "daily_order_count eng < max_orders_per_day (policy eng)"
      "check_order ord acc eng = (\<lparr>reason = None, warnings = w\<rparr>, eng\<lparr>daily_order_count := daily_order_count eng + 1\<rparr>)"
proof -
  define P where "P y \<longleftrightarrow> (\<exists>r. y = (reject r, eng)) \<or> y = (reject Kill_Switch_Triggered, eng\<lparr>kill_switch_active := True\<rparr>)
      \<or> \<not> kill_switch_active eng \<and> daily_order_count eng < max_orders_per_day (policy eng)
        \<and> (\<exists>w. y = (\<lparr>reason = None, warnings = w\<rparr>, eng\<lparr>daily_order_count := daily_order_count eng + 1\<rparr>))" for y
  have "P (reject r, eng)" and "P (reject Kill_Switch_Triggered, eng\<lparr>kill_switch_active := True\<rparr>)"
    and "\<not> kill_switch_active eng \<Longrightarrow> \<not> daily_order_count eng \<ge> max_orders_per_day (policy eng) \<Longrightarrow>
      P (\<lparr>reason = None, warnings = w\<rparr>, eng\<lparr>daily_order_count := daily_order_count eng + 1\<rparr>)" for r w
    by (auto simp: P_def)
  then have "P (check_order ord acc eng)"
    unfolding check_order_def Let_def by (simp split: if_split)
  then show ?thesis using that by (auto simp: P_def)
qed

subsection \<open>Properties\<close>

text \<open>The sequence of checks decides the policy: an order passes exactly when the kill switch is
  off, the drawdown and daily loss are within limits, the order, position and sector sizes and the
  cash reserve are respected and the day's order count is below its limit; then it is counted.\<close>

theorem check_order_decides_policy:
  "allowed (fst (check_order ord acc eng)) = admissible ord acc eng
   \<and> daily_order_count (snd (check_order ord acc eng)) = daily_order_count eng + (if admissible ord acc eng then 1 else 0)"
proof -
  have dd: "0 < peak_nav eng \<and> (portfolio_value acc - peak_nav eng) / peak_nav eng \<le> d
      \<longleftrightarrow> 0 < peak_nav eng \<and> portfolio_value acc \<le> peak_nav eng * (1 + d)" for d
    using drawdown_le by auto
  have pv: "0 < portfolio_value acc \<and> x / portfolio_value acc \<le> d \<longleftrightarrow> 0 < portfolio_value acc \<and> x \<le> d * portfolio_value acc"
    "0 < portfolio_value acc \<and> x / portfolio_value acc > d \<longleftrightarrow> 0 < portfolio_value acc \<and> x > d * portfolio_value acc" for x d
    using ratio_cmp by auto
  show ?thesis
    unfolding check_order_def Let_def dd pv
    by (simp add: allowed_def reject_def admissible_def not_le not_less mult.commute [of "portfolio_value acc"])
      (auto simp: not_le not_less)
qed

lemma kill_switch_stays: "risk_step eng eng' \<Longrightarrow> kill_switch_active eng \<Longrightarrow> kill_switch_active eng'"
proof (induction rule: risk_step.induct)
  case (check eng ord acc)
  then show ?case by (cases rule: check_cases [of ord acc eng]) auto
qed (auto simp: update_daily_pnl_def update_peak_nav_def new_day_def)

text \<open>The kill switch latches: once active, no order passes, whatever checks, profit updates, new
  peaks and new days come in between; only \<open>reset_kill_switch\<close> ends it.\<close>

theorem kill_switch_latches:
  assumes "risk_step\<^sup>*\<^sup>* eng eng'" and "kill_switch_active eng"
  shows "check_order ord acc eng' = (reject Kill_Switch_Active, eng')"
proof -
  from assms have "kill_switch_active eng'"
    by (induction rule: rtranclp_induct) (auto intro: kill_switch_stays)
  then show ?thesis by (simp add: check_order_def Let_def)
qed

definition demo_account :: risk_account where
  "demo_account = \<lparr>portfolio_value = 700, cash_available = 700, current_positions = [], current_prices = [], sector_exposure = []\<rparr>"

definition demo_order :: risk_order where
  "demo_order = \<lparr>ro_side = ''buy'', ro_symbol = ''x'', ro_quantity = 1, ro_price = 10, ro_sector = []\<rparr>"

theorem kill_switch_latches_witness:
  "let eng = snd (check_order demo_order demo_account (update_peak_nav 1000 (risk_init default_policy)))
   in check_order demo_order demo_account (new_day eng) = (reject Kill_Switch_Active, new_day eng)"
proof -
  let ?e = "snd (check_order demo_order demo_account (update_peak_nav 1000 (risk_init default_policy)))"
  have "kill_switch_active ?e"
    by (simp add: check_order_def Let_def demo_account_def demo_order_def update_peak_nav_def risk_init_def default_policy_def)
  from kill_switch_latches [OF r_into_rtranclp [of risk_step, OF risk_step.new_day] this] show ?thesis
    by (simp add: Let_def)
qed

lemma daily_orders_bounded:
  "risk_step\<^sup>*\<^sup>* (risk_init p) eng \<Longrightarrow> 0 \<le> max_orders_per_day p \<Longrightarrow>
   policy eng = p \<and> daily_order_count eng \<le> max_orders_per_day p"
proof (induction rule: rtranclp_induct)
  case base
  then show ?case by (simp add: risk_init_def)
next
  case (step eng eng')
  from step.hyps(2) show ?case
  proof cases
    case (check ord acc)
    then show ?thesis using step by (cases rule: check_cases [of ord acc eng]) auto
  qed (use step in \<open>auto simp: update_daily_pnl_def update_peak_nav_def new_day_def\<close>)
qed

end
