(* ===== verification/Portfolio_Account.thy ===== *)
theory Portfolio_Account
  imports Order_Manager
begin

text \<open>
  The portfolio of the backtest engines (\<open>backtesting/engine/portfolio.py\<close>) and the cash manager
  (\<open>backtesting/engine/cash_manager.py\<close>).

  A position is changed in place in a dictionary keyed by the instrument; \<open>update_fill\<close> also clips the
  quantity of the fill it is given, so it returns the fill as it leaves it. The cached \<open>_nav\<close>
  is recomputed by every operation and equals \<open>get_nav\<close>; the invariant keeps that too.
\<close>

subsection \<open>Positions and cash\<close>

record position_state =
  ps_quantity :: int
  ps_avg_price :: pyfloat
  ps_realized :: pyfloat
  ps_current :: pyfloat

record portfolio =
  pf_cash :: pyfloat
  pf_positions :: "(string, position_state) pydict"
  pf_nav :: pyfloat

definition no_position :: position_state where
  "no_position = \<lparr>ps_quantity = 0, ps_avg_price = 0, ps_realized = 0, ps_current = 0\<rparr>"

definition pf_init :: portfolio where
  "pf_init = \<lparr>pf_cash = 0, pf_positions = [], pf_nav = 0\<rparr>"

definition pf_reset :: "pyfloat \<Rightarrow> portfolio \<Rightarrow> portfolio" where
  "pf_reset capital pf = pf\<lparr>pf_cash := capital, pf_positions := [], pf_nav := capital\<rparr>"

definition mark_price :: "position_state \<Rightarrow> pyfloat" where
  "mark_price p = (if ps_current p > 0 then ps_current p else ps_avg_price p)"

definition positions_value :: "portfolio \<Rightarrow> pyfloat" where
  "positions_value pf = sum_list (map (\<lambda>(i, p). of_int (ps_quantity p) * mark_price p) (pf_positions pf))"

definition portfolio_nav :: "portfolio \<Rightarrow> pyfloat" where
  "portfolio_nav pf = pf_cash pf + positions_value pf"

definition renav :: "portfolio \<Rightarrow> portfolio" where
  \<comment> \<open>\<open>self._nav = self.get_nav()\<close>\<close>
  "renav pf = pf\<lparr>pf_nav := portfolio_nav pf\<rparr>"

definition update_fill :: "'a fill_event_scheme \<Rightarrow> portfolio \<Rightarrow> 'a fill_event_scheme \<times> portfolio" where
  "update_fill f pf =
     (let i = fe_instrument f; pos = dict_get_or (pf_positions pf) i no_position;
          cost = fe_price f * of_int (fe_quantity f) in
      if fe_side f = ''buy'' then
        (let total_qty = ps_quantity pos + fe_quantity f;
             total_cost = ps_avg_price pos * of_int (ps_quantity pos) + cost;
             pos' = pos\<lparr>ps_avg_price := (if total_qty > 0 then total_cost / of_int total_qty else 0),
                        ps_quantity := total_qty\<rparr>
         in (f, renav (pf\<lparr>pf_positions := dict_set i pos' (pf_positions pf),
                          pf_cash := pf_cash pf - (cost + fe_commission f)\<rparr>)))
      else
        (let f' = (if ps_quantity pos < fe_quantity f then f\<lparr>fe_quantity := ps_quantity pos\<rparr> else f);
             pnl = (fe_price f - ps_avg_price pos) * of_int (fe_quantity f');
             pos' = pos\<lparr>ps_realized := ps_realized pos + pnl, ps_quantity := ps_quantity pos - fe_quantity f'\<rparr>
         in (f', renav (pf\<lparr>pf_positions := dict_set i pos' (pf_positions pf),
                           pf_cash := pf_cash pf + (fe_price f * of_int (fe_quantity f') - fe_commission f)\<rparr>))))"

definition mark_to_market :: "(string, pyfloat) pydict \<Rightarrow> portfolio \<Rightarrow> portfolio" where
  "mark_to_market prices pf =
     renav (pf\<lparr>pf_positions := map (\<lambda>(i, p). (i, case dict_get prices i of None \<Rightarrow> p | Some x \<Rightarrow> p\<lparr>ps_current := x\<rparr>))
       (pf_positions pf)\<rparr>)"

definition position_quantities :: "portfolio \<Rightarrow> (string, int) pydict" where
  "position_quantities pf = map (\<lambda>(i, p). (i, ps_quantity p)) (pf_positions pf)"

definition get_position :: "string \<Rightarrow> portfolio \<Rightarrow> int" where
  "get_position i pf = (case dict_get (pf_positions pf) i of None \<Rightarrow> 0 | Some p \<Rightarrow> ps_quantity p)"

definition adjust_positions :: "string \<Rightarrow> pyfloat \<Rightarrow> portfolio \<Rightarrow> portfolio" where
  "adjust_positions i factor pf =
     (case dict_get (pf_positions pf) i of
        None \<Rightarrow> pf
      | Some p \<Rightarrow>
          if ps_quantity p = 0 then pf
          else renav (pf\<lparr>pf_positions := dict_set i
                 (p\<lparr>ps_quantity := py_round (of_int (ps_quantity p) * factor),
                    ps_avg_price := (if factor \<noteq> 0 then ps_avg_price p / factor else ps_avg_price p)\<rparr>) (pf_positions pf)\<rparr>))"

subsection \<open>The cash manager\<close>

datatype flow_kind = Deposit | Withdraw

record cash_flow =
  flow_type :: flow_kind
  flow_amount :: pyfloat
  flow_reason :: string
  flow_balance :: pyfloat

record cash_manager =
  cm_cash :: pyfloat
  cm_locked :: pyfloat
  cm_initial :: pyfloat
  cm_flows :: "cash_flow list"

definition cm_init :: "pyfloat \<Rightarrow> cash_manager" where
  "cm_init c = \<lparr>cm_cash = c, cm_locked = 0, cm_initial = c, cm_flows = []\<rparr>"

definition cm_free :: "cash_manager \<Rightarrow> pyfloat" where
  "cm_free m = cm_cash m - cm_locked m"

definition cm_deposit :: "pyfloat \<Rightarrow> string \<Rightarrow> cash_manager \<Rightarrow> cash_manager" where
  "cm_deposit x why m =
     m\<lparr>cm_cash := cm_cash m + x,
       cm_flows := cm_flows m @ [\<lparr>flow_type = Deposit, flow_amount = x, flow_reason = why, flow_balance = cm_cash m + x\<rparr>]\<rparr>"

definition cm_withdraw :: "pyfloat \<Rightarrow> string \<Rightarrow> cash_manager \<Rightarrow> bool \<times> cash_manager" where
  "cm_withdraw x why m =
     (if x > cm_free m then (False, m)
      else (True, m\<lparr>cm_cash := cm_cash m - x,
              cm_flows := cm_flows m @ [\<lparr>flow_type = Withdraw, flow_amount = x, flow_reason = why, flow_balance = cm_cash m - x\<rparr>]\<rparr>))"

definition cm_lock :: "pyfloat \<Rightarrow> cash_manager \<Rightarrow> cash_manager" where
  "cm_lock x m = m\<lparr>cm_locked := cm_locked m + x\<rparr>"

definition cm_unlock :: "pyfloat \<Rightarrow> cash_manager \<Rightarrow> cash_manager" where
  "cm_unlock x m = m\<lparr>cm_locked := max 0 (cm_locked m - x)\<rparr>"

definition cm_can_afford :: "pyfloat \<Rightarrow> cash_manager \<Rightarrow> bool" where
  "cm_can_afford x m \<longleftrightarrow> x \<le> cm_free m"

definition cm_total_return :: "cash_manager \<Rightarrow> pyfloat" where
  "cm_total_return m = cm_cash m - cm_initial m"

definition signed_flow :: "cash_flow \<Rightarrow> pyfloat" where
  "signed_flow f = (case flow_type f of Deposit \<Rightarrow> flow_amount f | Withdraw \<Rightarrow> - flow_amount f)"

lemma cm_flows_explain:
  "cm_total_return (cm_deposit x why m) = sum_list (map signed_flow (cm_flows (cm_deposit x why m)))"
  "cm_total_return (snd (cm_withdraw x why m)) = sum_list (map signed_flow (cm_flows (snd (cm_withdraw x why m))))"
  if "cm_total_return m = sum_list (map signed_flow (cm_flows m))"
  using that by (auto simp: cm_total_return_def cm_deposit_def cm_withdraw_def signed_flow_def)

subsection \<open>What the books hold\<close>

definition paid :: "'a fill_event_scheme \<Rightarrow> pyfloat" where
  \<comment> \<open>the cash a fill takes out (negative: brings in)\<close>
  "paid f = (if fe_side f = ''buy'' then fe_price f * of_int (fe_quantity f) + fe_commission f
             else fe_commission f - fe_price f * of_int (fe_quantity f))"

definition moved :: "string \<Rightarrow> 'a fill_event_scheme \<Rightarrow> int" where
  "moved i f = (if fe_instrument f \<noteq> i then 0 else if fe_side f = ''buy'' then fe_quantity f else - fe_quantity f)"

definition pf_cost :: "portfolio \<Rightarrow> pyfloat" where
  \<comment> \<open>what the open positions cost, less what closed ones have earned\<close>
  "pf_cost pf = sum_list (map (\<lambda>(i, p). of_int (ps_quantity p) * ps_avg_price p - ps_realized p) (pf_positions pf))"

definition books_ok :: "pyfloat \<Rightarrow> 'a fill_event_scheme list \<Rightarrow> portfolio \<Rightarrow> bool" where
  \<comment> \<open>the portfolio is what the fills have made of the capital\<close>
  "books_ok capital fs pf \<longleftrightarrow>
     dict_ok (pf_positions pf)
     \<and> pf_cash pf = capital - sum_list (map paid fs)
     \<and> (\<forall>i. get_position i pf = sum_list (map (moved i) fs) \<and> 0 \<le> get_position i pf)
     \<and> pf_cash pf + pf_cost pf + sum_list (map fe_commission fs) = capital
     \<and> pf_nav pf = portfolio_nav pf"

lemma books_ok_reset: "books_ok capital [] (pf_reset capital pf)"
  by (simp add: books_ok_def pf_reset_def get_position_def pf_cost_def portfolio_nav_def positions_value_def)

lemma renav_frame [simp]:
  "pf_cash (renav pf) = pf_cash pf" "pf_positions (renav pf) = pf_positions pf"
  "pf_nav (renav pf) = portfolio_nav (renav pf)"
  by (simp_all add: renav_def portfolio_nav_def positions_value_def)

lemma pf_cost_set:
  assumes "dict_ok (pf_positions pf)"
  shows "pf_cost (renav (pf\<lparr>pf_positions := dict_set i p (pf_positions pf), pf_cash := c\<rparr>)) =
    pf_cost pf - (let q = dict_get_or (pf_positions pf) i no_position in of_int (ps_quantity q) * ps_avg_price q - ps_realized q)
      + (of_int (ps_quantity p) * ps_avg_price p - ps_realized p)"
  using sum_dict_set_gen [OF assms, of "\<lambda>(i, p). of_int (ps_quantity p) * ps_avg_price p - ps_realized p" i p]
  by (simp add: pf_cost_def dict_get_or_def no_position_def split: option.split)

lemma get_position_or: "get_position i pf = ps_quantity (dict_get_or (pf_positions pf) i no_position)"
  by (simp add: get_position_def dict_get_or_def no_position_def split: option.split)

lemma get_position_set:
  "get_position j (renav (pf\<lparr>pf_positions := dict_set i p (pf_positions pf), pf_cash := c\<rparr>)) =
    (if j = i then ps_quantity p else get_position j pf)"
  by (simp add: get_position_def)

lemma books_ok_step:
  assumes b: "books_ok capital fs pf"
    and pf': "pf' = renav (pf\<lparr>pf_positions := dict_set i p (pf_positions pf), pf_cash := c\<rparr>)"
    and "c = pf_cash pf - paid f" and "fe_instrument f = i"
    and "ps_quantity p = get_position i pf + moved i f" and "0 \<le> ps_quantity p"
    and "pf_cash pf' + pf_cost pf' = pf_cash pf + pf_cost pf - fe_commission f"
  shows "books_ok capital (fs @ [f]) pf'"
proof -
  note bs = b [unfolded books_ok_def]
  have "get_position j pf' = sum_list (map (moved j) (fs @ [f])) \<and> 0 \<le> get_position j pf'" for j
  proof (cases "j = i")
    case True
    with bs assms(5,6) show ?thesis by (simp add: pf' get_position_set)
  next
    case False
    then have "moved j f = 0" using assms(4) by (auto simp: moved_def)
    moreover have "get_position j pf = sum_list (map (moved j) fs)" "0 \<le> get_position j pf" using bs by blast+
    ultimately show ?thesis using False by (simp add: pf' get_position_set)
  qed
  moreover have "dict_ok (pf_positions pf')" and "pf_cash pf' = capital - sum_list (map paid (fs @ [f]))"
    using bs assms(3) by (simp_all add: pf')
  moreover have "pf_cash pf' + pf_cost pf' + sum_list (map fe_commission (fs @ [f])) = capital"
    using bs assms(7) by simp
  moreover have "pf_nav pf' = portfolio_nav pf'" by (simp add: pf')
  ultimately show ?thesis unfolding books_ok_def by blast
qed

lemma books_ok_fill:
  assumes b: "books_ok capital fs pf" and u: "update_fill f pf = (f', pf')" and q: "0 < fe_quantity f"
  shows "books_ok capital (fs @ [f']) pf' \<and> 0 \<le> fe_quantity f' \<and> fe_quantity f' \<le> fe_quantity f
    \<and> fe_side f' = fe_side f \<and> fe_price f' = fe_price f \<and> fe_commission f' = fe_commission f"
proof -
  let ?i = "fe_instrument f" let ?pos = "dict_get_or (pf_positions pf) ?i no_position"
  have ok: "dict_ok (pf_positions pf)" and held: "0 \<le> ps_quantity ?pos" and gp: "get_position ?i pf = ps_quantity ?pos"
    using b unfolding books_ok_def get_position_or by blast+
  show ?thesis
  proof (cases "fe_side f = ''buy''")
    case True
    let ?t = "ps_quantity ?pos + fe_quantity f"
    let ?p = "?pos\<lparr>ps_avg_price := (ps_avg_price ?pos * of_int (ps_quantity ?pos) + fe_price f * of_int (fe_quantity f)) / of_int ?t,
                   ps_quantity := ?t\<rparr>"
    let ?c = "pf_cash pf - (fe_price f * of_int (fe_quantity f) + fe_commission f)"
    have pos: "0 < ?t" using held q by simp
    then have nz: "of_int ?t \<noteq> (0::rat)" by linarith
    have r: "f' = f" "pf' = renav (pf\<lparr>pf_positions := dict_set ?i ?p (pf_positions pf), pf_cash := ?c\<rparr>)"
      using u True pos by (auto simp: update_fill_def Let_def)
    have avg: "of_int (ps_quantity ?p) * ps_avg_price ?p
        = ps_avg_price ?pos * of_int (ps_quantity ?pos) + fe_price f * of_int (fe_quantity f)"
      using nz by simp
    have "pf_cash pf' + pf_cost pf' = pf_cash pf + pf_cost pf - fe_commission f"
      unfolding r pf_cost_set [OF ok] avg by (simp add: Let_def algebra_simps)
    from books_ok_step [OF b r(2) _ refl _ _ this] show ?thesis
      using True pos q by (simp add: r(1) paid_def moved_def gp)
  next
    case False
    let ?q = "min (ps_quantity ?pos) (fe_quantity f)"
    let ?p = "?pos\<lparr>ps_realized := ps_realized ?pos + (fe_price f - ps_avg_price ?pos) * of_int ?q, ps_quantity := ps_quantity ?pos - ?q\<rparr>"
    let ?c = "pf_cash pf + (fe_price f * of_int ?q - fe_commission f)"
    have f': "f' = f\<lparr>fe_quantity := ?q\<rparr>"
      using u False by (auto simp: update_fill_def Let_def min_def split: if_splits)
    have pf': "pf' = renav (pf\<lparr>pf_positions := dict_set ?i ?p (pf_positions pf), pf_cash := ?c\<rparr>)"
      using u False by (auto simp: update_fill_def Let_def min_def split: if_splits)
    have "pf_cash pf' + pf_cost pf' = pf_cash pf + pf_cost pf - fe_commission f'"
      unfolding pf' pf_cost_set [OF ok] f' by (simp add: Let_def algebra_simps)
    from books_ok_step [OF b pf' _ _ _ _ this] show ?thesis
      using False held q by (simp add: f' paid_def moved_def gp)
  qed
qed

definition marked :: "(string, pyfloat) pydict \<Rightarrow> string \<Rightarrow> position_state \<Rightarrow> position_state" where
  "marked prices i p = (case dict_get prices i of None \<Rightarrow> p | Some x \<Rightarrow> p\<lparr>ps_current := x\<rparr>)"

lemma marked_frame [simp]:
  "ps_quantity (marked prices i p) = ps_quantity p" "ps_avg_price (marked prices i p) = ps_avg_price p"
  "ps_realized (marked prices i p) = ps_realized p"
  by (simp_all add: marked_def split: option.split)

lemma mark_to_market_marked:
  "mark_to_market prices pf = renav (pf\<lparr>pf_positions := map (\<lambda>(i, p). (i, marked prices i p)) (pf_positions pf)\<rparr>)"
  by (simp add: mark_to_market_def marked_def)

lemma books_ok_mark:
  assumes "books_ok capital fs pf"
  shows "books_ok capital fs (mark_to_market prices pf)"
proof -
  have "get_position i (mark_to_market prices pf) = get_position i pf" for i
    by (simp add: get_position_def mark_to_market_marked dict_get_map split: option.split)
  moreover have "pf_cost (mark_to_market prices pf) = pf_cost pf"
    by (simp add: pf_cost_def mark_to_market_marked comp_def case_prod_unfold)
  moreover have "dict_ok (pf_positions (mark_to_market prices pf)) = dict_ok (pf_positions pf)"
    by (simp add: mark_to_market_marked dict_ok_map)
  moreover have "pf_cash (mark_to_market prices pf) = pf_cash pf"
    "pf_nav (mark_to_market prices pf) = portfolio_nav (mark_to_market prices pf)"
    by (simp_all add: mark_to_market_marked)
  ultimately show ?thesis using assms unfolding books_ok_def by metis
qed

text \<open>Selling an instrument that is not held moves nothing, but the commission is charged.\<close>

lemma empty_sale_is_charged:
  assumes "get_position (fe_instrument f) pf = 0" and "fe_side f \<noteq> ''buy''" and "0 < fe_quantity f"
  shows "pf_cash (snd (update_fill f pf)) = pf_cash pf - fe_commission f \<and> fe_quantity (fst (update_fill f pf)) = 0"
  using assms by (simp add: update_fill_def Let_def get_position_or)

end
