(* ===== verification/Backtest_Run.thy ===== *)
theory Backtest_Run
  imports Portfolio_Account "HOL-Library.Sublist"
begin

text \<open>
  The canonical backtest: the broker (\<open>backtesting/engine/broker.py\<close>), which prices an order with
  slippage and costs, and the simulator (\<open>backtesting/engine/simulator.py\<close>), which drives a strategy
  over the bars, fills its orders through the broker and books the fills in the portfolio.

  The strategy is an argument: from its own state, the portfolio it can read and the bar it
  returns orders and its next state, or raises. The average daily volume that the resolver has
  cached is a function of the instrument, fresh ids are a function of the number of fills so far.
  An exception ends the run with \<open>Result.fail\<close> (the left side) and leaves the portfolio as it is.
\<close>

subsection \<open>The broker\<close>

record cost_config =
  cc_commission :: pyfloat
  cc_sell_tax :: pyfloat
  cc_clearing :: pyfloat
  base_slippage_bps :: pyfloat
  volume_impact_factor :: pyfloat
  min_slippage_bps :: pyfloat
  max_slippage_bps :: pyfloat

definition IRAN_MARKET_COSTS :: cost_config where
  "IRAN_MARKET_COSTS = \<lparr>cc_commission = BROKER_PCT, cc_sell_tax = SELL_TAX_PCT, cc_clearing = CLEARING_FEE_PCT,
     base_slippage_bps = 5, volume_impact_factor = 15 / 100, min_slippage_bps = 3, max_slippage_bps = 150\<rparr>"

definition CONSERVATIVE_COSTS :: cost_config where
  "CONSERVATIVE_COSTS = \<lparr>cc_commission = BROKER_PCT, cc_sell_tax = SELL_TAX_PCT, cc_clearing = CLEARING_FEE_PCT,
     base_slippage_bps = 10, volume_impact_factor = 2 / 10, min_slippage_bps = 5, max_slippage_bps = 200\<rparr>"

record broker =
  bk_config :: cost_config
  bk_commission_pct :: pyfloat
  bk_slippage_bps :: pyfloat
  bk_adv :: int
  bk_resolver :: "(string \<Rightarrow> int option) option"
  bk_require_volume :: bool
  bk_costs :: cost_model
  bk_warned :: "string list"

definition broker_init ::
  "pyfloat option \<Rightarrow> pyfloat option \<Rightarrow> cost_config option \<Rightarrow> int \<Rightarrow> cost_model option \<Rightarrow>
     (string \<Rightarrow> int option) option \<Rightarrow> bool \<Rightarrow> broker" where
  "broker_init commission slippage config adv costs resolver require =
     (let cfg = (case config of None \<Rightarrow> IRAN_MARKET_COSTS | Some c \<Rightarrow> c) in
      \<lparr>bk_config = cfg,
       bk_commission_pct = (case commission of None \<Rightarrow> cc_commission cfg | Some c \<Rightarrow> c),
       bk_slippage_bps = (case slippage of None \<Rightarrow> base_slippage_bps cfg | Some s \<Rightarrow> s),
       bk_adv = adv, bk_resolver = resolver, bk_require_volume = require,
       bk_costs = (case costs of
           Some cm \<Rightarrow> cm
         | None \<Rightarrow> \<lparr>broker_pct = (case commission of None \<Rightarrow> BROKER_PCT | Some c \<Rightarrow> c),
                    sell_tax_pct = cc_sell_tax cfg, clearing_fee_pct = cc_clearing cfg, min_commission = 0\<rparr>),
       bk_warned = []\<rparr>)"

record sim_order = order_request +
  so_daily_volume :: "int option"

record sim_fill = fill_event +
  sf_slippage :: pyfloat

definition truthy :: "int option \<Rightarrow> bool" where
  "truthy x = (case x of None \<Rightarrow> False | Some n \<Rightarrow> n \<noteq> 0)"

definition resolve_daily_volume :: "broker \<Rightarrow> sim_order \<Rightarrow> py_error + int option" where
  "resolve_daily_volume bk ord =
     (let cached = (case bk_resolver bk of None \<Rightarrow> None | Some peek \<Rightarrow> peek (rq_instrument ord)) in
      if truthy (so_daily_volume ord) then Inr (so_daily_volume ord)
      else if truthy cached then Inr cached
      else if bk_require_volume bk then Inl ValueError
      else Inr None)"

definition slippage_bps :: "cost_config \<Rightarrow> int \<Rightarrow> int \<Rightarrow> pyfloat" where
  \<comment> \<open>the slippage of an order of \<open>q\<close> units against a daily volume, within the configured bounds\<close>
  "slippage_bps cfg q adv =
     (let participation = min (of_int q / of_int adv) 1;
          total = base_slippage_bps cfg + volume_impact_factor cfg * participation * 10000
      in max (min_slippage_bps cfg) (min total (max_slippage_bps cfg)))"

definition compute_slippage :: "broker \<Rightarrow> pyfloat \<Rightarrow> int \<Rightarrow> int option \<Rightarrow> pyfloat" where
  "compute_slippage bk price q volume =
     (if price \<le> 0 then 0
      else
        (let adv0 = (if truthy volume then the volume else bk_adv bk);
             adv = (if adv0 \<le> 0 then 100000 else adv0)
         in price * (slippage_bps (bk_config bk) q adv / 10000)))"

definition price_fill :: "string \<Rightarrow> sim_order \<Rightarrow> broker \<Rightarrow> int option \<Rightarrow> sim_fill" where
  "price_fill fresh ord bk volume =
     (let slip = compute_slippage bk (rq_price ord) (rq_quantity ord) volume;
          exec = max (if rq_side ord = ''buy'' then rq_price ord + slip else rq_price ord - slip) (1 / 100)
      in \<lparr>fe_order = (if rq_id ord = [] then fresh else rq_id ord), fe_instrument = rq_instrument ord,
          fe_side = rq_side ord, fe_quantity = rq_quantity ord, fe_price = exec,
          fe_commission = compute_cost (bk_costs bk) (rq_side ord) exec (rq_quantity ord),
          sf_slippage = slip * of_int (rq_quantity ord)\<rparr>)"

definition warn_fallback :: "sim_order \<Rightarrow> int option \<Rightarrow> broker \<Rightarrow> broker" where
  "warn_fallback ord volume bk =
     (if volume = None \<and> rq_instrument ord \<notin> set (bk_warned bk)
      then bk\<lparr>bk_warned := rq_instrument ord # bk_warned bk\<rparr> else bk)"

definition submit_order_sync ::
  "string \<Rightarrow> sim_order \<Rightarrow> broker \<Rightarrow> (py_error + sim_fill option) \<times> broker" where
  "submit_order_sync fresh ord bk =
     (if rq_price ord \<le> 0 \<or> rq_quantity ord \<le> 0 then (Inr None, bk)
      else case resolve_daily_volume bk ord of
        Inl e \<Rightarrow> (Inl e, bk)
      | Inr volume \<Rightarrow> (Inr (Some (price_fill fresh ord bk volume)), warn_fallback ord volume bk))"

subsection \<open>The simulator\<close>

record 'x bar =
  \<comment> \<open>a bar's dictionary: what the simulator reads, and the rest, which only the strategy reads\<close>
  b_instrument :: string
  b_close :: pyfloat
  b_prices :: "(string, pyfloat) pydict option"
  b_timestamp :: "pytime option"
  b_rest :: 'x

record equity_point =
  eq_timestamp :: pytime
  eq_nav :: pyfloat
  eq_cash :: pyfloat
  eq_value :: pyfloat

record backtest_result =
  initial_capital :: pyfloat
  final_capital :: pyfloat
  total_return :: pyfloat
  total_return_pct :: pyfloat
  total_trades :: nat
  equity_curve :: "equity_point list"
  trades :: "sim_fill list"
  cancelled :: bool
  total_bars :: nat

type_synonym ('s, 'x) strategy = "'s \<Rightarrow> portfolio \<Rightarrow> 'x bar \<Rightarrow> (py_error + sim_order list) \<times> 's"

fun fill_orders ::
  "(nat \<Rightarrow> string) \<Rightarrow> sim_order list \<Rightarrow> broker \<Rightarrow> portfolio \<Rightarrow> sim_fill list \<Rightarrow>
     (py_error + sim_fill list) \<times> broker \<times> portfolio" where
  "fill_orders ids [] bk pf fills = (Inr fills, bk, pf)"
| "fill_orders ids (ord # ords) bk pf fills =
     (case submit_order_sync (ids (length fills)) ord bk of
        (Inl e, bk1) \<Rightarrow> (Inl e, bk1, pf)
      | (Inr None, bk1) \<Rightarrow> fill_orders ids ords bk1 pf fills
      | (Inr (Some f), bk1) \<Rightarrow>
          (let (f', pf1) = update_fill f pf in fill_orders ids ords bk1 pf1 (fills @ [f'])))"

definition mark_bar :: "'x bar \<Rightarrow> portfolio \<Rightarrow> portfolio" where
  "mark_bar b pf =
     (if b_instrument b \<noteq> [] \<and> b_close b > 0 then mark_to_market [(b_instrument b, b_close b)] pf
      else case b_prices b of None \<Rightarrow> pf | Some prices \<Rightarrow> mark_to_market prices pf)"

definition equity_at :: "pytime \<Rightarrow> 'x bar \<Rightarrow> portfolio \<Rightarrow> equity_point" where
  "equity_at now b pf =
     \<lparr>eq_timestamp = (case b_timestamp b of None \<Rightarrow> now | Some t \<Rightarrow> t), eq_nav = portfolio_nav pf,
      eq_cash = pf_cash pf, eq_value = positions_value pf\<rparr>"

fun run_bars ::
  "('s, 'x) strategy \<Rightarrow> (nat \<Rightarrow> string) \<Rightarrow> (nat \<Rightarrow> pytime) \<Rightarrow> 'x bar list \<Rightarrow> 's \<Rightarrow> broker \<Rightarrow> portfolio \<Rightarrow>
     equity_point list \<Rightarrow> sim_fill list \<Rightarrow> (py_error + equity_point list \<times> sim_fill list) \<times> broker \<times> portfolio" where
  "run_bars strat ids now [] s bk pf curve fills = (Inr (curve, fills), bk, pf)"
| "run_bars strat ids now (b # bs) s bk pf curve fills =
     (case strat s pf b of
        (Inl e, s1) \<Rightarrow> (Inl e, bk, pf)
      | (Inr ords, s1) \<Rightarrow>
          (case fill_orders ids ords bk pf fills of
             (Inl e, bk1, pf1) \<Rightarrow> (Inl e, bk1, pf1)
           | (Inr fills1, bk1, pf1) \<Rightarrow>
               (let pf2 = mark_bar b pf1
                in run_bars strat ids now bs s1 bk1 pf2 (curve @ [equity_at (now (length curve)) b pf2]) fills1)))"

definition run_backtest ::
  "('s, 'x) strategy \<Rightarrow> (nat \<Rightarrow> string) \<Rightarrow> (nat \<Rightarrow> pytime) \<Rightarrow> 's \<Rightarrow> pyfloat \<Rightarrow> 'x bar list \<Rightarrow> bool \<Rightarrow>
     broker \<Rightarrow> portfolio \<Rightarrow> (py_error + backtest_result) \<times> broker \<times> portfolio" where
  \<comment> \<open>\<open>s\<close>: the strategy after its \<open>reset\<close>; a set cancel flag stops before the first bar\<close>
  "run_backtest strat ids now s capital data cancel bk pf0 =
     (case run_bars strat ids now (if cancel then [] else data) s bk (pf_reset capital pf0) [] [] of
        (Inl e, bk1, pf1) \<Rightarrow> (Inl e, bk1, pf1)
      | (Inr (curve, fills), bk1, pf1) \<Rightarrow>
          (if capital = 0 then (Inl ZeroDivisionError, bk1, pf1)
           else (Inr \<lparr>initial_capital = capital, final_capital = portfolio_nav pf1,
                      total_return = portfolio_nav pf1 - capital,
                      total_return_pct = (portfolio_nav pf1 / capital - 1) * 100, total_trades = length fills,
                      equity_curve = curve, trades = fills, cancelled = cancel, total_bars = length data\<rparr>, bk1, pf1)))"

subsection \<open>What one order costs\<close>

definition config_ok :: "cost_config \<Rightarrow> bool" where
  "config_ok cfg \<longleftrightarrow> 0 \<le> min_slippage_bps cfg \<and> min_slippage_bps cfg \<le> max_slippage_bps cfg"

lemma slippage_bps_bounds:
  "config_ok cfg \<Longrightarrow> min_slippage_bps cfg \<le> slippage_bps cfg q adv \<and> slippage_bps cfg q adv \<le> max_slippage_bps cfg"
  by (simp add: slippage_bps_def config_ok_def Let_def)

lemma slippage_bounds:
  assumes "config_ok (bk_config bk)" and "0 < price"
  shows "price * (min_slippage_bps (bk_config bk) / 10000) \<le> compute_slippage bk price q volume
    \<and> compute_slippage bk price q volume \<le> price * (max_slippage_bps (bk_config bk) / 10000)"
proof -
  obtain adv where c: "compute_slippage bk price q volume = price * (slippage_bps (bk_config bk) q adv / 10000)"
    using assms(2) by (simp add: compute_slippage_def Let_def)
  note b = slippage_bps_bounds [OF assms(1), of q adv]
  show ?thesis unfolding c
    by (intro conjI mult_left_mono divide_right_mono) (use b assms(2) in simp_all)
qed

lemma submit_cases:
  obtains (refused) "submit_order_sync fresh ord bk = (Inr None, bk)" "rq_price ord \<le> 0 \<or> rq_quantity ord \<le> 0"
  | (unknown) "submit_order_sync fresh ord bk = (Inl ValueError, bk)"
  | (filled) volume where
      "submit_order_sync fresh ord bk = (Inr (Some (price_fill fresh ord bk volume)), warn_fallback ord volume bk)"
      "0 < rq_price ord" "0 < rq_quantity ord"
proof (cases "rq_price ord \<le> 0 \<or> rq_quantity ord \<le> 0")
  case True
  then show ?thesis using refused by (simp add: submit_order_sync_def)
next
  case False
  show ?thesis
  proof (cases "resolve_daily_volume bk ord")
    case (Inl e)
    then have "e = ValueError" by (auto simp: resolve_daily_volume_def Let_def split: if_splits)
    then show ?thesis using unknown False Inl by (simp add: submit_order_sync_def)
  next
    case (Inr volume)
    show ?thesis by (rule filled [of volume]) (use False Inr in \<open>simp_all add: submit_order_sync_def\<close>)
  qed
qed

lemma price_fill_frame [simp]:
  "fe_quantity (price_fill fresh ord bk volume) = rq_quantity ord" "fe_side (price_fill fresh ord bk volume) = rq_side ord"
  "fe_instrument (price_fill fresh ord bk volume) = rq_instrument ord"
  "1 / 100 \<le> fe_price (price_fill fresh ord bk volume)"
  by (simp_all add: price_fill_def Let_def)

lemma warn_fallback_frame [simp]:
  "bk_config (warn_fallback ord volume bk) = bk_config bk" "bk_costs (warn_fallback ord volume bk) = bk_costs bk"
  by (simp_all add: warn_fallback_def)

subsection \<open>Every run keeps the books\<close>

definition trades_ok :: "sim_fill list \<Rightarrow> bool" where
  "trades_ok fs \<longleftrightarrow> (\<forall>f \<in> set fs. 0 \<le> fe_quantity f \<and> 1 / 100 \<le> fe_price f)"

lemma fill_orders_books:
  "books_ok capital fills pf \<Longrightarrow> trades_ok fills \<Longrightarrow> fill_orders ids ords bk pf fills = (Inr fills1, bk1, pf1) \<Longrightarrow>
     books_ok capital fills1 pf1 \<and> trades_ok fills1"
proof (induction ords arbitrary: bk pf fills)
  case (Cons ord ords)
  show ?case
  proof (cases rule: submit_cases [of "ids (length fills)" ord bk])
    case refused
    then show ?thesis using Cons by simp
  next
    case unknown
    then show ?thesis using Cons.prems(3) by simp
  next
    case (filled volume)
    let ?f = "price_fill (ids (length fills)) ord bk volume"
    obtain f' pf2 where u: "update_fill ?f pf = (f', pf2)" by (cases "update_fill ?f pf")
    have "0 < fe_quantity ?f" using filled by simp
    note b = books_ok_fill [OF Cons.prems(1) u this]
    have "trades_ok (fills @ [f'])" using b Cons.prems(2) price_fill_frame(4) by (auto simp: trades_ok_def)
    with b Cons.IH [of "fills @ [f']" pf2] Cons.prems(3) filled(1) u show ?thesis by simp
  qed
qed simp

lemma mark_bar_books: "books_ok capital fills pf \<Longrightarrow> books_ok capital fills (mark_bar b pf)"
  by (simp add: mark_bar_def books_ok_mark split: option.split)

lemma run_bars_books:
  "books_ok capital fills pf \<Longrightarrow> trades_ok fills \<Longrightarrow>
   run_bars strat ids now bs s bk pf curve fills = (Inr (curve1, fills1), bk1, pf1) \<Longrightarrow>
     books_ok capital fills1 pf1 \<and> trades_ok fills1 \<and> length curve1 = length curve + length bs"
proof (induction bs arbitrary: s bk pf curve fills)
  case (Cons b bs)
  from Cons.prems(3) obtain ords s1 where st: "strat s pf b = (Inr ords, s1)"
    by (auto split: prod.splits sum.splits)
  from Cons.prems(3) obtain fills2 bk2 pf2 where fo: "fill_orders ids ords bk pf fills = (Inr fills2, bk2, pf2)"
    by (auto simp: st split: prod.splits sum.splits)
  note b = fill_orders_books [OF Cons.prems(1,2) fo]
  from Cons.prems(3) have "run_bars strat ids now bs s1 bk2 (mark_bar b pf2)
      (curve @ [equity_at (now (length curve)) b (mark_bar b pf2)]) fills2 = (Inr (curve1, fills1), bk1, pf1)"
    by (simp add: st fo Let_def)
  from Cons.IH [OF mark_bar_books [OF b [THEN conjunct1]] b [THEN conjunct2] this] show ?case by simp
qed simp

lemma equity_points_add_up:
  "run_bars strat ids now bs s bk pf curve fills = (Inr (curve1, fills1), bk1, pf1) \<Longrightarrow>
   \<forall>e \<in> set curve. eq_nav e = eq_cash e + eq_value e \<Longrightarrow> \<forall>e \<in> set curve1. eq_nav e = eq_cash e + eq_value e"
proof (induction bs arbitrary: s bk pf curve fills)
  case (Cons b bs)
  from Cons.prems(1) obtain ords s1 where st: "strat s pf b = (Inr ords, s1)"
    by (auto split: prod.splits sum.splits)
  from Cons.prems(1) obtain fills2 bk2 pf2 where fo: "fill_orders ids ords bk pf fills = (Inr fills2, bk2, pf2)"
    by (auto simp: st split: prod.splits sum.splits)
  have "\<forall>e \<in> set (curve @ [equity_at (now (length curve)) b (mark_bar b pf2)]). eq_nav e = eq_cash e + eq_value e"
    using Cons.prems(2) by (auto simp: equity_at_def portfolio_nav_def)
  from Cons.IH [OF _ this] Cons.prems(1) show ?case by (simp add: st fo Let_def)
qed simp

subsection \<open>A run on more data extends the run\<close>

lemma run_bars_append:
  "run_bars strat ids now bs1 s bk pf curve fills = (Inr (curve1, fills1), bk1, pf1) \<Longrightarrow>
   \<exists>s1. run_bars strat ids now (bs1 @ bs2) s bk pf curve fills = run_bars strat ids now bs2 s1 bk1 pf1 curve1 fills1"
proof (induction bs1 arbitrary: s bk pf curve fills)
  case (Cons b bs)
  from Cons.prems obtain ords s1 where st: "strat s pf b = (Inr ords, s1)"
    by (auto split: prod.splits sum.splits)
  from Cons.prems obtain fills2 bk2 pf2 where fo: "fill_orders ids ords bk pf fills = (Inr fills2, bk2, pf2)"
    by (auto simp: st split: prod.splits sum.splits)
  show ?case using Cons.IH [of s1 bk2 "mark_bar b pf2" _ fills2] Cons.prems by (simp add: st fo Let_def)
qed auto

lemma fill_orders_prefix:
  "fill_orders ids ords bk pf fills = (Inr fills1, bk1, pf1) \<Longrightarrow> prefix fills fills1"
proof (induction ords arbitrary: bk pf fills)
  case (Cons ord ords)
  show ?case
  proof (cases rule: submit_cases [of "ids (length fills)" ord bk])
    case (filled volume)
    let ?f = "price_fill (ids (length fills)) ord bk volume"
    obtain f' pf2 where u: "update_fill ?f pf = (f', pf2)" by (cases "update_fill ?f pf")
    with Cons.prems filled(1) Cons.IH [of _ pf2 "fills @ [f']"] show ?thesis
      by (auto dest: append_prefixD)
  qed (use Cons in auto)
qed simp

lemma run_bars_prefix:
  "run_bars strat ids now bs s bk pf curve fills = (Inr (curve1, fills1), bk1, pf1) \<Longrightarrow>
     prefix curve curve1 \<and> prefix fills fills1"
proof (induction bs arbitrary: s bk pf curve fills)
  case (Cons b bs)
  from Cons.prems obtain ords s1 where st: "strat s pf b = (Inr ords, s1)"
    by (auto split: prod.splits sum.splits)
  from Cons.prems obtain fills2 bk2 pf2 where fo: "fill_orders ids ords bk pf fills = (Inr fills2, bk2, pf2)"
    by (auto simp: st split: prod.splits sum.splits)
  from Cons.prems have "run_bars strat ids now bs s1 bk2 (mark_bar b pf2)
      (curve @ [equity_at (now (length curve)) b (mark_bar b pf2)]) fills2 = (Inr (curve1, fills1), bk1, pf1)"
    by (simp add: st fo Let_def)
  from Cons.IH [OF this] fill_orders_prefix [OF fo] show ?case by (auto dest: append_prefixD prefix_order.trans)
qed simp

lemma run_backtest_ok:
  assumes "run_bars strat ids now data s bk (pf_reset capital pf0) [] [] = (Inr (curve, fills), bk1, pf1)"
  shows "run_backtest strat ids now s capital data False bk pf0 =
    (if capital = 0 then Inl ZeroDivisionError
     else Inr \<lparr>initial_capital = capital, final_capital = portfolio_nav pf1,
                total_return = portfolio_nav pf1 - capital,
                total_return_pct = (portfolio_nav pf1 / capital - 1) * 100, total_trades = length fills,
                equity_curve = curve, trades = fills, cancelled = False, total_bars = length data\<rparr>, bk1, pf1)"
  unfolding run_backtest_def if_False assms prod.case sum.case by (rule if_distrib [of "\<lambda>r. (r, bk1, pf1)", symmetric])

lemma run_backtest_error:
  assumes "run_bars strat ids now data s bk (pf_reset capital pf0) [] [] = (Inl e, bk1, pf1)"
  shows "run_backtest strat ids now s capital data False bk pf0 = (Inl e, bk1, pf1)"
  by (simp add: run_backtest_def assms)

lemma run_backtestD:
  assumes "run_backtest strat ids now s capital data False bk pf0 = (Inr res, bk1, pf1)"
  shows "run_bars strat ids now data s bk (pf_reset capital pf0) [] [] = (Inr (equity_curve res, trades res), bk1, pf1)
    \<and> final_capital res = portfolio_nav pf1 \<and> total_trades res = length (trades res) \<and> capital \<noteq> 0"
proof -
  obtain q bk2 pf2 where r: "run_bars strat ids now data s bk (pf_reset capital pf0) [] [] = (q, bk2, pf2)"
    by (metis prod_cases3)
  show ?thesis
  proof (cases q)
    case (Inl e)
    with assms run_backtest_error [OF r [unfolded Inl]] show ?thesis by simp
  next
    case (Inr p)
    obtain curve fills where p: "p = (curve, fills)" by (cases p)
    note run = r [unfolded Inr p]
    have nz: "capital \<noteq> 0"
    proof
      assume "capital = 0"
      then have "fst (run_backtest strat ids now s capital data False bk pf0) = Inl ZeroDivisionError"
        unfolding run_backtest_ok [OF run] by simp
      with assms show False by simp
    qed
    with assms run_backtest_ok [OF run] run show ?thesis by auto
  qed
qed

subsection \<open>Properties\<close>

text \<open>C3: a backtest reconciles, whatever the strategy does: the final cash is the capital less what the
  reported trades paid, every position is the balance of its trades and never short, cash plus the
  cost of what is open, less what was realized, plus all commissions is the capital, and there is one
  equity point per bar, whose value is its cash plus its positions.\<close>

theorem backtest_reconciles:
  assumes "run_backtest strat ids now s capital data False bk pf0 = (Inr res, bk1, pf1)"
  shows "pf_cash pf1 = capital - sum_list (map paid (trades res))
    \<and> (\<forall>i. get_position i pf1 = sum_list (map (moved i) (trades res)) \<and> 0 \<le> get_position i pf1)
    \<and> pf_cash pf1 + pf_cost pf1 + sum_list (map fe_commission (trades res)) = capital
    \<and> final_capital res = pf_cash pf1 + positions_value pf1
    \<and> total_trades res = length (trades res) \<and> length (equity_curve res) = length data
    \<and> (\<forall>e \<in> set (equity_curve res). eq_nav e = eq_cash e + eq_value e)"
proof -
  note run = run_backtestD [OF assms]
  have "books_ok capital (trades res) pf1 \<and> trades_ok (trades res) \<and> length (equity_curve res) = length ([] :: equity_point list) + length data"
    by (rule run_bars_books [OF books_ok_reset _ run [THEN conjunct1]]) (simp add: trades_ok_def)
  then have books: "books_ok capital (trades res) pf1" and len: "length (equity_curve res) = length data" by simp_all
  have pts: "\<forall>e \<in> set (equity_curve res). eq_nav e = eq_cash e + eq_value e"
    by (rule equity_points_add_up [OF run [THEN conjunct1]]) simp
  from run have "final_capital res = pf_cash pf1 + positions_value pf1" "total_trades res = length (trades res)"
    by (simp_all add: portfolio_nav_def)
  with books [unfolded books_ok_def] len pts show ?thesis by (elim conjE, intro conjI)
qed

definition demo_bar :: "pyfloat \<Rightarrow> unit bar" where
  "demo_bar p = \<lparr>b_instrument = ''x'', b_close = p, b_prices = None, b_timestamp = None, b_rest = ()\<rparr>"

definition demo_sell :: sim_order where
  "demo_sell = \<lparr>rq_instrument = ''x'', rq_side = ''sell'', rq_quantity = 5, rq_price = 100, rq_type = ''market'', rq_id = [],
     so_daily_volume = None\<rparr>"

definition demo_buy :: sim_order where
  "demo_buy = demo_sell\<lparr>rq_side := ''buy''\<rparr>"

definition demo_strategy :: "(bool, unit) strategy" where
  \<comment> \<open>buys at the first bar, sells at every later one\<close>
  "demo_strategy bought pf b = (Inr [if bought then demo_sell else demo_buy], True)"

definition demo_ids :: "nat \<Rightarrow> string" where
  "demo_ids n = ''ord'' @ str_of_nat n"

definition demo_now :: "nat \<Rightarrow> pytime" where
  "demo_now n = of_nat n"

definition demo_broker :: broker where
  "demo_broker = broker_init None None None 1000 None None False"

lemma demo_fills:
  "\<exists>bk1 pf1 f. fill_orders ids [if bought then demo_sell else demo_buy] bk pf fills = (Inr (fills @ [f]), bk1, pf1)
     \<and> bk_resolver bk1 = bk_resolver bk \<and> bk_require_volume bk1 = bk_require_volume bk"
  if "bk_resolver bk = None" "\<not> bk_require_volume bk"
proof -
  let ?ord = "if bought then demo_sell else demo_buy"
  have "resolve_daily_volume bk ?ord = Inr None"
    using that by (simp add: resolve_daily_volume_def truthy_def demo_sell_def demo_buy_def)
  moreover have "\<not> (rq_price ?ord \<le> 0 \<or> rq_quantity ?ord \<le> 0)" by (simp add: demo_sell_def demo_buy_def)
  ultimately have "submit_order_sync fresh ?ord bk = (Inr (Some (price_fill fresh ?ord bk None)), warn_fallback ?ord None bk)" for fresh
    by (simp add: submit_order_sync_def)
  then have "fill_orders ids [?ord] bk pf fills =
      (let (f, pf1) = update_fill (price_fill (ids (length fills)) ?ord bk None) pf in (Inr (fills @ [f]), warn_fallback ?ord None bk, pf1))"
    by (simp add: split_beta Let_def)
  moreover have "bk_resolver (warn_fallback ?ord None bk) = bk_resolver bk"
      "bk_require_volume (warn_fallback ?ord None bk) = bk_require_volume bk" by (simp_all add: warn_fallback_def)
  ultimately show ?thesis by (simp add: split_beta Let_def)
qed

lemma demo_runs: "\<exists>res bk1 pf1. run_backtest demo_strategy ids now False 1000 [demo_bar 100, demo_bar 110] False demo_broker pf_init
    = (Inr res, bk1, pf1)"
proof -
  have bk: "bk_resolver demo_broker = None" "\<not> bk_require_volume demo_broker"
    by (simp_all add: demo_broker_def broker_init_def Let_def)
  obtain bk1 pf1 f1 where a: "fill_orders ids [demo_buy] demo_broker (pf_reset 1000 pf_init) [] = (Inr [f1], bk1, pf1)"
      "bk_resolver bk1 = None" "\<not> bk_require_volume bk1"
    using demo_fills [OF bk, of ids False "pf_reset 1000 pf_init" "[]"] bk by auto
  obtain bk2 pf2 f2 where b: "fill_orders ids [demo_sell] bk1 (mark_bar (demo_bar 100) pf1) [f1] = (Inr [f1, f2], bk2, pf2)"
    using demo_fills [OF a(2,3), of ids True "mark_bar (demo_bar 100) pf1" "[f1]"] by auto
  show ?thesis by (simp add: run_backtest_def demo_strategy_def a(1) b Let_def del: fill_orders.simps)
qed

theorem backtest_reconciles_witness:
  "\<exists>res bk1 pf1. run_backtest demo_strategy demo_ids demo_now False 1000 [demo_bar 100, demo_bar 110] False demo_broker pf_init = (Inr res, bk1, pf1)
     \<and> length (equity_curve res) = 2 \<and> pf_cash pf1 = 1000 - sum_list (map paid (trades res))"
proof -
  obtain res bk1 pf1 where r: "run_backtest demo_strategy demo_ids demo_now False 1000 [demo_bar 100, demo_bar 110] False demo_broker pf_init = (Inr res, bk1, pf1)"
    using demo_runs by blast
  from backtest_reconciles [OF r] r show ?thesis by auto
qed

text \<open>C16: a backtest does not look ahead: the run on more bars starts with exactly the equity points and
  the trades of the run on the first bars.\<close>

theorem backtest_no_lookahead:
  assumes "run_backtest strat ids now s capital data1 False bk pf0 = (Inr res1, bk1, pf1)"
    and "run_backtest strat ids now s capital (data1 @ data2) False bk pf0 = (Inr res2, bk2, pf2)"
  shows "take (length data1) (equity_curve res2) = equity_curve res1 \<and> prefix (trades res1) (trades res2)"
proof -
  note r1 = run_backtestD [OF assms(1)] and r2 = run_backtestD [OF assms(2)]
  obtain s1 where "run_bars strat ids now data2 s1 bk1 pf1 (equity_curve res1) (trades res1) = (Inr (equity_curve res2, trades res2), bk2, pf2)"
    using run_bars_append [OF r1 [THEN conjunct1], of data2] r2 by auto
  from run_bars_prefix [OF this] have "prefix (equity_curve res1) (equity_curve res2)" "prefix (trades res1) (trades res2)" by auto
  moreover have "length (equity_curve res1) = length data1"
    using run_bars_books [OF books_ok_reset _ r1 [THEN conjunct1]] by (simp add: trades_ok_def)
  ultimately show ?thesis by (auto simp: prefix_def)
qed

lemma demo_runs_first: "\<exists>res bk1 pf1. run_backtest demo_strategy ids now False 1000 [demo_bar 100] False demo_broker pf_init = (Inr res, bk1, pf1)"
proof -
  have bk: "bk_resolver demo_broker = None" "\<not> bk_require_volume demo_broker"
    by (simp_all add: demo_broker_def broker_init_def Let_def)
  show ?thesis
    using demo_fills [OF bk, of ids False "pf_reset 1000 pf_init" "[]"]
    by (auto simp: run_backtest_def demo_strategy_def Let_def simp del: fill_orders.simps)
qed

theorem backtest_no_lookahead_witness:
  "\<exists>res1 res2 bk1 bk2 pf1 pf2.
     run_backtest demo_strategy demo_ids demo_now False 1000 [demo_bar 100] False demo_broker pf_init = (Inr res1, bk1, pf1)
     \<and> run_backtest demo_strategy demo_ids demo_now False 1000 [demo_bar 100, demo_bar 110] False demo_broker pf_init = (Inr res2, bk2, pf2)
     \<and> take 1 (equity_curve res2) = equity_curve res1"
proof -
  obtain res1 bk1 pf1 where r1: "run_backtest demo_strategy demo_ids demo_now False 1000 [demo_bar 100] False demo_broker pf_init = (Inr res1, bk1, pf1)"
    using demo_runs_first by blast
  obtain res2 bk2 pf2 where r2: "run_backtest demo_strategy demo_ids demo_now False 1000 ([demo_bar 100] @ [demo_bar 110]) False demo_broker pf_init = (Inr res2, bk2, pf2)"
    using demo_runs [of demo_ids demo_now] by auto
  from backtest_no_lookahead [OF r1 r2] r1 r2 show ?thesis by auto
qed

text \<open>The broker prices within its configuration: a filled order trades at its own price moved against
  it by at least the minimum and at most the maximum slippage (a sale never below one hundredth), for
  its full quantity, and is charged the cost model's cost at that price.\<close>

theorem fill_price_bounds:
  assumes "config_ok (bk_config bk)" and "submit_order_sync fresh ord bk = (Inr (Some f), bk1)"
  shows "fe_quantity f = rq_quantity ord
    \<and> fe_commission f = compute_cost (bk_costs bk) (rq_side ord) (fe_price f) (rq_quantity ord)
    \<and> (let lo = rq_price ord * (min_slippage_bps (bk_config bk) / 10000);
           hi = rq_price ord * (max_slippage_bps (bk_config bk) / 10000)
       in if rq_side ord = ''buy''
          then max (rq_price ord + lo) (1 / 100) \<le> fe_price f \<and> fe_price f \<le> max (rq_price ord + hi) (1 / 100)
          else max (rq_price ord - hi) (1 / 100) \<le> fe_price f \<and> fe_price f \<le> max (rq_price ord - lo) (1 / 100))"
proof (cases rule: submit_cases [of fresh ord bk])
  case (filled volume)
  then have f: "f = price_fill fresh ord bk volume" using assms(2) by simp
  from slippage_bounds [OF assms(1) filled(2), of "rq_quantity ord" volume] show ?thesis
    by (auto simp: f price_fill_def Let_def)
qed (use assms(2) in auto)

theorem fill_price_bounds_witness:
  "\<exists>f bk1. submit_order_sync ''o'' demo_buy demo_broker = (Inr (Some f), bk1) \<and> 100 + 100 * (3 / 10000) \<le> fe_price f"
proof -
  have c: "config_ok (bk_config demo_broker)" "min_slippage_bps (bk_config demo_broker) = 3"
    by (simp_all add: config_ok_def demo_broker_def broker_init_def IRAN_MARKET_COSTS_def Let_def)
  have "resolve_daily_volume demo_broker demo_buy = Inr None"
    by (simp add: resolve_daily_volume_def truthy_def demo_sell_def demo_buy_def demo_broker_def broker_init_def Let_def)
  then obtain f bk1 where s: "submit_order_sync ''o'' demo_buy demo_broker = (Inr (Some f), bk1)"
    by (simp add: submit_order_sync_def demo_buy_def demo_sell_def)
  have "rq_price demo_buy = 100" "rq_side demo_buy = ''buy''" by (simp_all add: demo_buy_def demo_sell_def)
  with fill_price_bounds [OF c(1) s] s c(2) show ?thesis by (auto simp: Let_def)
qed

end
