(* ===== verification/Market_Policies.thy ===== *)
theory Market_Policies
  imports Order_Manager "HOL-Library.List_Lexorder" "HOL-Library.Char_ord"
begin

text \<open>
  The rules of the markets: the policies of the eight markets (\<open>backtesting/market/policies.py\<close>), the
  rule engine that caches and applies them (\<open>backtesting/market/rule_engine.py\<close>) and the operations of
  the market engine that consult it (\<open>backtesting/market/market_engine.py\<close>).

  A policy object is the record of what its methods return: every policy of the code returns
  constants. Session times are the strings \<open>HH:MM\<close> of the code and are compared as strings. A naive
  \<open>datetime\<close> is its microsecond number, day by day.
\<close>

subsection \<open>Policies\<close>

record session_rules =
  pre_open_time :: string
  open_time :: string
  close_time :: string
  pre_open_minutes :: int

record price_limit_rules =
  max_change_pct :: pyfloat
  dynamic_bands :: bool
  yellow_pct :: pyfloat
  orange_pct :: pyfloat
  red_pct :: pyfloat

record tick_size_rules =
  base_tick :: pyfloat
  tiered :: bool
  tiers :: "(string, pyfloat) pydict list"

record auction_rules =
  auction_enabled :: bool
  auction_type :: string
  auction_minutes :: int

record order_validation_rules =
  min_quantity :: int
  max_quantity :: int
  min_value :: pyfloat
  max_value :: pyfloat
  allow_market_order :: bool
  allow_limit_order :: bool

definition SessionRules :: "string \<Rightarrow> string \<Rightarrow> string \<Rightarrow> session_rules" where
  "SessionRules p op c = \<lparr>pre_open_time = p, open_time = op, close_time = c, pre_open_minutes = 30\<rparr>"

definition PriceLimitRules :: "pyfloat \<Rightarrow> price_limit_rules" where
  "PriceLimitRules pct =
     \<lparr>max_change_pct = pct, dynamic_bands = False, yellow_pct = 0, orange_pct = 0, red_pct = 0\<rparr>"

definition TickSizeRules :: "pyfloat \<Rightarrow> tick_size_rules" where
  "TickSizeRules tick = \<lparr>base_tick = tick, tiered = False, tiers = []\<rparr>"

definition AuctionRules :: "bool \<Rightarrow> string \<Rightarrow> int \<Rightarrow> auction_rules" where
  "AuctionRules en ty mins = \<lparr>auction_enabled = en, auction_type = ty, auction_minutes = mins\<rparr>"

definition OrderValidationRules :: "bool \<Rightarrow> bool \<Rightarrow> order_validation_rules" where
  "OrderValidationRules mo lo =
     \<lparr>min_quantity = 1, max_quantity = 1000000000, min_value = 0, max_value = 0,
      allow_market_order = mo, allow_limit_order = lo\<rparr>"

definition DEFAULT_MAX_CHANGE_PCT :: pyfloat where "DEFAULT_MAX_CHANGE_PCT = 5"

definition DEFAULT_TICK_SIZE :: pyfloat where "DEFAULT_TICK_SIZE = 1 / 10"

definition DEFAULT_AUCTION_DURATION :: int where "DEFAULT_AUCTION_DURATION = 30"

definition TSE_OPEN_TIME :: string where "TSE_OPEN_TIME = ''09:00''"

definition TSE_CLOSE_TIME :: string where "TSE_CLOSE_TIME = ''12:30''"

definition TSE_PRE_OPEN_TIME :: string where "TSE_PRE_OPEN_TIME = ''08:45''"

record market_policy =
  market_id :: string
  policy_name :: string
  get_session_rules :: session_rules
  get_price_limit_rules :: price_limit_rules
  get_tick_size_rules :: tick_size_rules
  get_auction_rules :: auction_rules
  get_order_validation_rules :: order_validation_rules
  get_metadata :: "(string, py_value) pydict"

definition TSEMarketPolicy :: market_policy where
  "TSEMarketPolicy =
     \<lparr>market_id = ''tse'', policy_name = ''Tehran Stock Exchange'',
      get_session_rules = SessionRules TSE_PRE_OPEN_TIME TSE_OPEN_TIME TSE_CLOSE_TIME,
      get_price_limit_rules = PriceLimitRules DEFAULT_MAX_CHANGE_PCT,
      get_tick_size_rules = TickSizeRules DEFAULT_TICK_SIZE,
      get_auction_rules = AuctionRules True ''open'' DEFAULT_AUCTION_DURATION,
      get_order_validation_rules = OrderValidationRules True True, get_metadata = []\<rparr>"

definition IFBMarketPolicy :: market_policy where
  "IFBMarketPolicy =
     \<lparr>market_id = ''ifb'', policy_name = ''Iran Fara Bourse'',
      get_session_rules = SessionRules TSE_PRE_OPEN_TIME TSE_OPEN_TIME TSE_CLOSE_TIME,
      get_price_limit_rules = PriceLimitRules DEFAULT_MAX_CHANGE_PCT,
      get_tick_size_rules = TickSizeRules DEFAULT_TICK_SIZE,
      get_auction_rules = AuctionRules True ''open'' DEFAULT_AUCTION_DURATION,
      get_order_validation_rules = OrderValidationRules True True, get_metadata = []\<rparr>"

definition BaseMarketPolicy :: market_policy where
  "BaseMarketPolicy =
     \<lparr>market_id = ''base_market'', policy_name = ''Base Market'',
      get_session_rules = SessionRules ''08:45'' ''09:00'' ''12:30'',
      get_price_limit_rules =
        \<lparr>max_change_pct = 3, dynamic_bands = True, yellow_pct = 3, orange_pct = 2, red_pct = 1\<rparr>,
      get_tick_size_rules = TickSizeRules (1 / 10),
      get_auction_rules = AuctionRules True ''periodic'' 30,
      get_order_validation_rules = OrderValidationRules False True, get_metadata = []\<rparr>"

definition ETFMarketPolicy :: market_policy where
  "ETFMarketPolicy =
     \<lparr>market_id = ''etf'', policy_name = ''ETF Market'',
      get_session_rules = SessionRules TSE_PRE_OPEN_TIME TSE_OPEN_TIME TSE_CLOSE_TIME,
      get_price_limit_rules = PriceLimitRules DEFAULT_MAX_CHANGE_PCT,
      get_tick_size_rules = TickSizeRules DEFAULT_TICK_SIZE,
      get_auction_rules = AuctionRules True ''open'' DEFAULT_AUCTION_DURATION,
      get_order_validation_rules = OrderValidationRules True True,
      get_metadata = [(''nav_reference'', PBool True), (''market_maker'', PStr ''optional'')]\<rparr>"

definition BondsMarketPolicy :: market_policy where
  "BondsMarketPolicy =
     \<lparr>market_id = ''bonds'', policy_name = ''Bonds Market'',
      get_session_rules = SessionRules ''08:45'' ''09:00'' ''12:30'',
      get_price_limit_rules = PriceLimitRules 1,
      get_tick_size_rules = TickSizeRules (1 / 100),
      get_auction_rules = AuctionRules False ''open'' 30,
      get_order_validation_rules = OrderValidationRules True True,
      get_metadata = [(''yield_calculation'', PBool True), (''accrued_interest'', PBool True)]\<rparr>"

definition DerivativesMarketPolicy :: market_policy where
  "DerivativesMarketPolicy =
     \<lparr>market_id = ''derivatives'', policy_name = ''Derivatives Market'',
      get_session_rules = SessionRules ''08:45'' ''09:00'' ''12:30'',
      get_price_limit_rules = (PriceLimitRules 0)\<lparr>dynamic_bands := True\<rparr>,
      get_tick_size_rules = TickSizeRules (1 / 10),
      get_auction_rules = AuctionRules False ''open'' 30,
      get_order_validation_rules = OrderValidationRules True True,
      get_metadata = [(''margin_required'', PBool True), (''daily_settlement'', PBool True),
                      (''expiry'', PStr ''contract_specific'')]\<rparr>"

definition IMEMarketPolicy :: market_policy where
  "IMEMarketPolicy =
     \<lparr>market_id = ''ime'', policy_name = ''Iran Mercantile Exchange'',
      get_session_rules = SessionRules TSE_PRE_OPEN_TIME TSE_OPEN_TIME TSE_CLOSE_TIME,
      get_price_limit_rules = PriceLimitRules DEFAULT_MAX_CHANGE_PCT,
      get_tick_size_rules = TickSizeRules DEFAULT_TICK_SIZE,
      get_auction_rules = AuctionRules True ''open'' DEFAULT_AUCTION_DURATION,
      get_order_validation_rules = OrderValidationRules True True,
      get_metadata = [(''contract_spec'', PStr ''required'')]\<rparr>"

definition EnergyMarketPolicy :: market_policy where
  "EnergyMarketPolicy =
     \<lparr>market_id = ''energy'', policy_name = ''Energy Exchange'',
      get_session_rules = SessionRules ''11:45'' ''12:00'' ''18:00'',
      get_price_limit_rules = PriceLimitRules 5,
      get_tick_size_rules = TickSizeRules (1 / 10),
      get_auction_rules = AuctionRules True ''periodic'' 60,
      get_order_validation_rules = OrderValidationRules False True,
      get_metadata = [(''block_trades'', PBool True), (''delivery_rules'', PBool True)]\<rparr>"

subsection \<open>The registry\<close>

type_synonym policy_registry = "(string, market_policy) pydict"

definition reg_register :: "market_policy \<Rightarrow> policy_registry \<Rightarrow> policy_registry" where
  "reg_register p reg = dict_set (market_id p) p reg"

definition reg_get :: "policy_registry \<Rightarrow> string \<Rightarrow> py_error + market_policy" where
  "reg_get reg mk = (case dict_get reg mk of None \<Rightarrow> Inl KeyError | Some p \<Rightarrow> Inr p)"

definition reg_has :: "policy_registry \<Rightarrow> string \<Rightarrow> bool" where
  "reg_has reg mk \<longleftrightarrow> dict_get reg mk \<noteq> None"

definition all_markets :: "policy_registry \<Rightarrow> string list" where
  "all_markets reg = dict_keys reg"

definition create_default :: policy_registry where
  "create_default =
     fold reg_register [TSEMarketPolicy, IFBMarketPolicy, BaseMarketPolicy, ETFMarketPolicy, BondsMarketPolicy,
       DerivativesMarketPolicy, IMEMarketPolicy, EnergyMarketPolicy] []"

subsection \<open>The rule engine\<close>

record market_rules =
  session :: session_rules
  price_limit :: price_limit_rules
  tick_size :: tick_size_rules
  auction :: auction_rules
  order_validation :: order_validation_rules
  rules_metadata :: "(string, py_value) pydict"

definition from_policy :: "market_policy \<Rightarrow> market_rules" where
  "from_policy p =
     \<lparr>session = get_session_rules p, price_limit = get_price_limit_rules p, tick_size = get_tick_size_rules p,
      auction = get_auction_rules p, order_validation = get_order_validation_rules p,
      rules_metadata = get_metadata p\<rparr>"

record rule_engine =
  re_registry :: policy_registry
  re_cache :: "(string, market_rules) pydict"

definition rule_engine_init :: "policy_registry option \<Rightarrow> rule_engine" where
  \<comment> \<open>\<open>registry or create_default()\<close>: a registry object is always true\<close>
  "rule_engine_init reg =
     \<lparr>re_registry = (case reg of None \<Rightarrow> create_default | Some r \<Rightarrow> r), re_cache = []\<rparr>"

definition get_rules :: "string \<Rightarrow> rule_engine \<Rightarrow> (py_error + market_rules) \<times> rule_engine" where
  "get_rules mk eng =
     (case dict_get (re_cache eng) mk of
        Some r \<Rightarrow> (Inr r, eng)
      | None \<Rightarrow>
          (case reg_get (re_registry eng) mk of
             Inl e \<Rightarrow> (Inl e, eng)
           | Inr p \<Rightarrow> (Inr (from_policy p), eng\<lparr>re_cache := dict_set mk (from_policy p) (re_cache eng)\<rparr>)))"

definition with_rules ::
  "string \<Rightarrow> (market_rules \<Rightarrow> py_error + 'a) \<Rightarrow> rule_engine \<Rightarrow> (py_error + 'a) \<times> rule_engine" where
  \<comment> \<open>an operation that starts with \<open>rules = self.get_rules(market_id)\<close>\<close>
  "with_rules mk k eng =
     (case get_rules mk eng of (Inl e, eng1) \<Rightarrow> (Inl e, eng1) | (Inr r, eng1) \<Rightarrow> (k r, eng1))"

definition register_policy :: "string \<Rightarrow> market_policy \<Rightarrow> rule_engine \<Rightarrow> rule_engine" where
  "register_policy mk p eng =
     eng\<lparr>re_registry := reg_register p (re_registry eng), re_cache := dict_del mk (re_cache eng)\<rparr>"

datatype order_verdict =
    Order_OK
  | Quantity_below int int
  | Quantity_above int int
  | Value_below pyfloat
  | Value_above pyfloat

definition validate_rules :: "order_validation_rules \<Rightarrow> 'a order_request_scheme \<Rightarrow> order_verdict" where
  "validate_rules v ord =
     (if rq_quantity ord < min_quantity v then Quantity_below (rq_quantity ord) (min_quantity v)
      else if max_quantity v > 0 \<and> rq_quantity ord > max_quantity v then Quantity_above (rq_quantity ord) (max_quantity v)
      else if min_value v > 0 \<and> rq_price ord * of_int (rq_quantity ord) < min_value v then Value_below (min_value v)
      else if max_value v > 0 \<and> rq_price ord * of_int (rq_quantity ord) > max_value v then Value_above (max_value v)
      else Order_OK)"

definition validate_order ::
  "string \<Rightarrow> 'a order_request_scheme \<Rightarrow> rule_engine \<Rightarrow> (py_error + order_verdict) \<times> rule_engine" where
  "validate_order mk ord = with_rules mk (\<lambda>r. Inr (validate_rules (order_validation r) ord))"

definition apply_dynamic_limit :: "price_limit_rules \<Rightarrow> pyfloat \<Rightarrow> pyfloat \<Rightarrow> pyfloat" where
  "apply_dynamic_limit r ref p =
     (if ref = 0 then p
      else
        (let change = \<bar>(p - ref) / ref\<bar> * 100;
             band = (if change \<le> yellow_pct r then yellow_pct r
                     else if change \<le> orange_pct r then orange_pct r else red_pct r);
             limit = ref * (band / 100)
         in max (ref - limit) (min p (ref + limit))))"

definition limit_price :: "price_limit_rules \<Rightarrow> pyfloat \<Rightarrow> pyfloat \<Rightarrow> pyfloat" where
  "limit_price r ref p =
     (if dynamic_bands r then apply_dynamic_limit r ref p
      else (let change = ref * (max_change_pct r / 100) in max (ref - change) (min p (ref + change))))"

definition apply_price_limit :: "string \<Rightarrow> pyfloat \<Rightarrow> pyfloat \<Rightarrow> rule_engine \<Rightarrow> (py_error + pyfloat) \<times> rule_engine" where
  "apply_price_limit mk ref p = with_rules mk (\<lambda>r. Inr (limit_price (price_limit r) ref p))"

definition DAY :: int where "DAY = 86400000000"

definition MINUTE :: int where "MINUTE = 60000000"

definition two_digits :: "nat \<Rightarrow> string" where
  "two_digits n = [digit_char (n div 10), digit_char (n mod 10)]"

definition hm_string :: "nat \<Rightarrow> string" where
  "hm_string m = two_digits (m div 60) @ '':'' @ two_digits (m mod 60)"

definition minute_of_day :: "int \<Rightarrow> nat" where
  "minute_of_day t = nat (t mod DAY div MINUTE)"

definition session_status :: "session_rules \<Rightarrow> string \<Rightarrow> market_status" where
  "session_status s tm =
     (if pre_open_time s \<noteq> [] \<and> pre_open_time s \<le> tm \<and> tm < open_time s then PRE_OPEN
      else if open_time s \<noteq> [] \<and> close_time s \<noteq> [] \<and> open_time s \<le> tm \<and> tm \<le> close_time s then OPEN
      else CLOSED)"

definition check_session_status :: "string \<Rightarrow> int \<Rightarrow> rule_engine \<Rightarrow> (py_error + market_status) \<times> rule_engine" where
  "check_session_status mk t = with_rules mk (\<lambda>r. Inr (session_status (session r) (hm_string (minute_of_day t))))"

definition round_to_tick :: "pyfloat \<Rightarrow> pyfloat \<Rightarrow> pyfloat" where
  "round_to_tick tick p = (if tick \<le> 0 then p else of_int (py_round (p / tick)) * tick)"

definition validate_price_tick :: "string \<Rightarrow> pyfloat \<Rightarrow> rule_engine \<Rightarrow> (py_error + pyfloat) \<times> rule_engine" where
  "validate_price_tick mk p = with_rules mk (\<lambda>r. Inr (round_to_tick (base_tick (tick_size r)) p))"

definition digit_value :: "char \<Rightarrow> nat option" where
  "digit_value c = (if 48 \<le> (of_char c :: nat) \<and> (of_char c :: nat) \<le> 57 then Some (of_char c - 48) else None)"

definition in_range :: "nat \<Rightarrow> nat option \<Rightarrow> nat option \<Rightarrow> nat option" where
  \<comment> \<open>the number of one or two digits, when it is below \<open>n\<close>\<close>
  "in_range n d1 d2 =
     (case (d1, d2) of (Some a, Some b) \<Rightarrow> if 10 * a + b < n then Some (10 * a + b) else None | _ \<Rightarrow> None)"

definition hm_minutes :: "nat option \<Rightarrow> nat option \<Rightarrow> py_error + nat" where
  "hm_minutes h m = (case (h, m) of (Some a, Some b) \<Rightarrow> Inr (60 * a + b) | _ \<Rightarrow> Inl ValueError)"

definition strptime_hm :: "string \<Rightarrow> py_error + nat" where
  \<comment> \<open>\<open>datetime.strptime(s, "%H:%M")\<close>, as minutes: one or two digits each, the whole string\<close>
  "strptime_hm s =
     (case map digit_value s of
        [h1, h2, _, m1, m2] \<Rightarrow> if s ! 2 = CHR '':'' then hm_minutes (in_range 24 h1 h2) (in_range 60 m1 m2) else Inl ValueError
      | [h, k, m1, m2] \<Rightarrow>
          if s ! 1 = CHR '':'' then hm_minutes h (in_range 60 m1 m2)
          else if s ! 2 = CHR '':'' then hm_minutes (in_range 24 h k) m2 else Inl ValueError
      | [h, _, m] \<Rightarrow> if s ! 1 = CHR '':'' then hm_minutes h m else Inl ValueError
      | _ \<Rightarrow> Inl ValueError)"

definition auction_time :: "market_rules \<Rightarrow> int \<Rightarrow> py_error + bool" where
  "auction_time r t =
     (if \<not> auction_enabled (auction r) then Inr False
      else case strptime_hm (open_time (session r)) of
        Inl e \<Rightarrow> Inl e
      | Inr m \<Rightarrow>
          (let open_dt = t div DAY * DAY + int m * MINUTE
           in Inr (open_dt - auction_minutes (auction r) * MINUTE \<le> t \<and> t < open_dt)))"

definition is_auction_time :: "string \<Rightarrow> int \<Rightarrow> rule_engine \<Rightarrow> (py_error + bool) \<times> rule_engine" where
  "is_auction_time mk t = with_rules mk (\<lambda>r. auction_time r t)"

subsection \<open>The market engine's calls\<close>

definition update_price_limits :: "string \<Rightarrow> market_engine \<Rightarrow> rule_engine \<Rightarrow> (py_error + market_engine) \<times> rule_engine" where
  "update_price_limits i mkt eng =
     (case get_state mkt i of
        None \<Rightarrow> (Inr mkt, eng)
      | Some st \<Rightarrow>
          if reference_price st \<le> 0 then (Inr mkt, eng)
          else with_rules (market_name st)
            (\<lambda>r. let change = reference_price st * (max_change_pct (price_limit r) / 100)
                 in Inr (dict_set i (st\<lparr>price_limit_upper := reference_price st + change,
                                       price_limit_lower := max 0 (reference_price st - change)\<rparr>) mkt)) eng)"

datatype order_admission = Not_tracked string | Checked order_verdict

definition check_market_order ::
  "'a order_request_scheme \<Rightarrow> market_engine \<Rightarrow> rule_engine \<Rightarrow> (py_error + order_admission) \<times> rule_engine" where
  "check_market_order ord mkt eng =
     (case get_state mkt (rq_instrument ord) of
        None \<Rightarrow> (Inr (Not_tracked (rq_instrument ord)), eng)
      | Some st \<Rightarrow>
          (case validate_order (market_name st) ord eng of
             (Inl e, eng1) \<Rightarrow> (Inl e, eng1)
           | (Inr v, eng1) \<Rightarrow> (Inr (Checked v), eng1)))"

definition market_reset :: "market_engine \<Rightarrow> market_engine" where
  "market_reset mkt = []"

type_synonym 'l listeners = "(string \<times> 'l) list"

definition on_event :: "string \<Rightarrow> 'l \<Rightarrow> 'l listeners \<Rightarrow> 'l listeners" where
  \<comment> \<open>\<open>on\<close>: the engine's listeners are a list of their own\<close>
  "on_event ty l ls = ls @ [(ty, l)]"

definition emit :: "('l \<Rightarrow> 'd \<Rightarrow> 'w \<Rightarrow> 'w) \<Rightarrow> string \<Rightarrow> 'd \<Rightarrow> 'l listeners \<Rightarrow> 'w \<Rightarrow> 'w" where
  \<comment> \<open>\<open>call\<close> runs a listener on the rest of the world\<close>
  "emit call ty d ls w = fold (\<lambda>(et, l) w. if et = ty then call l d w else w) ls w"

subsection \<open>Times of day as strings\<close>

lemma lex_div_mod: "0 < (k::nat) \<Longrightarrow> m < n \<longleftrightarrow> m div k < n div k \<or> m div k = n div k \<and> m mod k < n mod k"
  by (metis div_le_mono div_mult_mod_eq le_neq_implies_less less_le_not_le linorder_less_linear nat_add_left_cancel_less)

lemma digit_less [simp]: "a < 10 \<Longrightarrow> b < 10 \<Longrightarrow> digit_char a < digit_char b \<longleftrightarrow> a < b"
  by (simp add: less_char_def)

declare digit_eq [simp]

lemma two_digits_less:
  "m < 100 \<Longrightarrow> n < 100 \<Longrightarrow> two_digits m @ xs < two_digits n @ ys \<longleftrightarrow> m < n \<or> m = n \<and> xs < ys"
  using lex_div_mod [of 10 m n] by (auto simp: two_digits_def div_less_iff_less_mult) (metis div_mult_mod_eq)+

lemma hm_string_less [simp]:
  assumes "m < 1440" "n < 1440"
  shows "hm_string m < hm_string n \<longleftrightarrow> m < n"
proof -
  have "m div 60 < 100" "n div 60 < 100" "m mod 60 < 100" "n mod 60 < 100" using assms by linarith+
  then show ?thesis
    using lex_div_mod [of 60 m n] two_digits_less [of "m mod 60" "n mod 60" "[]" "[]"]
    by (simp add: hm_string_def two_digits_less)
qed

lemma hm_string_le [simp]: "m < 1440 \<Longrightarrow> n < 1440 \<Longrightarrow> hm_string m \<le> hm_string n \<longleftrightarrow> m \<le> n"
  by (simp flip: not_less)

lemma minute_of_day_less [simp]: "minute_of_day t < 1440"
proof -
  have "t mod DAY < DAY" "0 \<le> t mod DAY" by (simp_all add: DAY_def)
  then have "t mod DAY div MINUTE < 1440" by (simp add: DAY_def MINUTE_def)
  then show ?thesis by (simp add: minute_of_day_def)
qed

lemma hm_string_nonempty [simp]: "hm_string m \<noteq> []"
  by (simp add: hm_string_def two_digits_def)

lemma digit_chars:
  "digit_char 0 = CHR ''0''" "digit_char (Suc 0) = CHR ''1''" "digit_char 2 = CHR ''2''" "digit_char 3 = CHR ''3''"
  "digit_char 4 = CHR ''4''" "digit_char 5 = CHR ''5''" "digit_char 6 = CHR ''6''" "digit_char 7 = CHR ''7''"
  "digit_char 8 = CHR ''8''" "digit_char 9 = CHR ''9''"
  by (simp_all add: digit_char_def char_of_def bit_0)

lemma standard_hours:
  "hm_string 525 = ''08:45''" "hm_string 540 = ''09:00''" "hm_string 750 = ''12:30''"
  "hm_string 705 = ''11:45''" "hm_string 720 = ''12:00''" "hm_string 1080 = ''18:00''"
  by (simp_all add: hm_string_def two_digits_def digit_chars)

lemmas policy_defs = TSEMarketPolicy_def IFBMarketPolicy_def BaseMarketPolicy_def ETFMarketPolicy_def BondsMarketPolicy_def
  DerivativesMarketPolicy_def IMEMarketPolicy_def EnergyMarketPolicy_def

lemmas session_time_defs = TSE_PRE_OPEN_TIME_def TSE_OPEN_TIME_def TSE_CLOSE_TIME_def

lemma default_registry:
  "create_default = [(''tse'', TSEMarketPolicy), (''ifb'', IFBMarketPolicy), (''base_market'', BaseMarketPolicy),
     (''etf'', ETFMarketPolicy), (''bonds'', BondsMarketPolicy), (''derivatives'', DerivativesMarketPolicy),
     (''ime'', IMEMarketPolicy), (''energy'', EnergyMarketPolicy)]"
  by (simp add: create_default_def reg_register_def policy_defs)

subsection \<open>The cache agrees with the registry\<close>

definition rule_engine_ok :: "rule_engine \<Rightarrow> bool" where
  \<comment> \<open>policies are filed under their own market, and a cached rule set is that of the filed policy\<close>
  "rule_engine_ok eng \<longleftrightarrow>
     (\<forall>mk p. dict_get (re_registry eng) mk = Some p \<longrightarrow> market_id p = mk)
     \<and> (\<forall>mk r. dict_get (re_cache eng) mk = Some r \<longrightarrow> (\<exists>p. dict_get (re_registry eng) mk = Some p \<and> r = from_policy p))"

lemma get_rules_cases:
  assumes "rule_engine_ok eng"
  shows "fst (get_rules mk eng) = (case dict_get (re_registry eng) mk of None \<Rightarrow> Inl KeyError | Some p \<Rightarrow> Inr (from_policy p))
    \<and> re_registry (snd (get_rules mk eng)) = re_registry eng \<and> rule_engine_ok (snd (get_rules mk eng))"
proof (cases "dict_get (re_cache eng) mk")
  case None
  then show ?thesis using assms
    by (cases "dict_get (re_registry eng) mk") (auto simp: get_rules_def reg_get_def rule_engine_ok_def)
next
  case (Some r)
  then obtain p where "dict_get (re_registry eng) mk = Some p" "r = from_policy p"
    using assms unfolding rule_engine_ok_def by blast
  with Some assms show ?thesis by (simp add: get_rules_def)
qed

lemma with_rules_ok:
  assumes "rule_engine_ok eng"
  shows "fst (with_rules mk k eng) = (case dict_get (re_registry eng) mk of None \<Rightarrow> Inl KeyError | Some p \<Rightarrow> k (from_policy p))
    \<and> re_registry (snd (with_rules mk k eng)) = re_registry eng \<and> rule_engine_ok (snd (with_rules mk k eng))"
proof -
  obtain x e1 where g: "get_rules mk eng = (x, e1)" by (cases "get_rules mk eng")
  show ?thesis using get_rules_cases [OF assms, of mk]
    by (cases x; cases "dict_get (re_registry eng) mk") (auto simp: with_rules_def g)
qed

lemma register_policy_ok:
  assumes "rule_engine_ok eng" "market_id p = mk"
  shows "rule_engine_ok (register_policy mk p eng)"
  using assms by (auto simp: rule_engine_ok_def register_policy_def reg_register_def)

lemma registered_ok:
  "(\<And>mk p. dict_get reg mk = Some p \<Longrightarrow> market_id p = mk) \<Longrightarrow> rule_engine_ok \<lparr>re_registry = reg, re_cache = []\<rparr>"
  by (simp add: rule_engine_ok_def)

lemma register_all_filed:
  "(\<And>mk p. dict_get reg mk = Some p \<Longrightarrow> market_id p = mk) \<Longrightarrow> dict_get (fold reg_register ps reg) mk = Some p \<Longrightarrow> market_id p = mk"
proof (induction ps arbitrary: reg)
  case (Cons q ps)
  show ?case
    by (rule Cons.IH [OF _ Cons.prems(2) [unfolded fold_Cons comp_def]]) (auto simp: reg_register_def Cons.prems(1) split: if_splits)
qed simp

lemma rule_engine_init_ok [simp]: "rule_engine_ok (rule_engine_init None)"
  unfolding rule_engine_init_def option.case create_default_def
  by (rule registered_ok, rule register_all_filed [rotated], assumption) simp

datatype rule_call =
    Register_Policy string market_policy
  | Get_Rules string
  | Limit_Price string pyfloat pyfloat
  | Session_Status string int
  | Auction_Time string int
  | Price_Tick string pyfloat
  | Validate_Order string order_request
  | Check_Order order_request market_engine
  | Update_Limits string market_engine

primrec rule_step :: "rule_call \<Rightarrow> rule_engine \<Rightarrow> rule_engine" where
  "rule_step (Register_Policy mk p) eng = register_policy mk p eng"
| "rule_step (Get_Rules mk) eng = snd (get_rules mk eng)"
| "rule_step (Limit_Price mk ref p) eng = snd (apply_price_limit mk ref p eng)"
| "rule_step (Session_Status mk t) eng = snd (check_session_status mk t eng)"
| "rule_step (Auction_Time mk t) eng = snd (is_auction_time mk t eng)"
| "rule_step (Price_Tick mk p) eng = snd (validate_price_tick mk p eng)"
| "rule_step (Validate_Order mk ord) eng = snd (validate_order mk ord eng)"
| "rule_step (Check_Order ord mkt) eng = snd (check_market_order ord mkt eng)"
| "rule_step (Update_Limits i mkt) eng = snd (update_price_limits i mkt eng)"

lemma snd_check_order: "snd (check_market_order ord mkt eng) =
    (case get_state mkt (rq_instrument ord) of None \<Rightarrow> eng | Some st \<Rightarrow> snd (validate_order (market_name st) ord eng))"
  by (simp add: check_market_order_def split: option.split prod.split sum.split)

primrec own_name :: "rule_call \<Rightarrow> bool" where
  \<comment> \<open>a registration under the policy's own market id\<close>
  "own_name (Register_Policy mk p) = (market_id p = mk)"
| "own_name (Get_Rules mk) = True"
| "own_name (Limit_Price mk ref p) = True"
| "own_name (Session_Status mk t) = True"
| "own_name (Auction_Time mk t) = True"
| "own_name (Price_Tick mk p) = True"
| "own_name (Validate_Order mk ord) = True"
| "own_name (Check_Order ord mkt) = True"
| "own_name (Update_Limits i mkt) = True"

lemma rule_step_ok: "own_name c \<Longrightarrow> rule_engine_ok eng \<Longrightarrow> rule_engine_ok (rule_step c eng)"
  by (cases c) (simp_all add: register_policy_ok get_rules_cases with_rules_ok apply_price_limit_def
    check_session_status_def is_auction_time_def validate_price_tick_def validate_order_def snd_check_order
    update_price_limits_def split: option.split)

primrec call_policy :: "string \<Rightarrow> rule_call \<Rightarrow> market_policy option" where
  "call_policy mk (Register_Policy k p) = (if market_id p = mk then Some p else None)"
| "call_policy mk (Get_Rules k) = None"
| "call_policy mk (Limit_Price k ref p) = None"
| "call_policy mk (Session_Status k t) = None"
| "call_policy mk (Auction_Time k t) = None"
| "call_policy mk (Price_Tick k p) = None"
| "call_policy mk (Validate_Order k ord) = None"
| "call_policy mk (Check_Order ord mkt) = None"
| "call_policy mk (Update_Limits i mkt) = None"

definition latest_policy :: "string \<Rightarrow> rule_call list \<Rightarrow> market_policy option \<Rightarrow> market_policy option" where
  \<comment> \<open>the last policy registered for \<open>mk\<close>, else the one given\<close>
  "latest_policy mk cs p0 = fold (\<lambda>c q. case call_policy mk c of None \<Rightarrow> q | Some p \<Rightarrow> Some p) cs p0"

lemma latest_policy_snoc:
  "latest_policy mk (cs @ [c]) p0 = (case call_policy mk c of None \<Rightarrow> latest_policy mk cs p0 | Some p \<Rightarrow> Some p)"
  by (simp add: latest_policy_def split: option.split)

lemma rule_step_registry:
  "rule_engine_ok eng \<Longrightarrow> dict_get (re_registry (rule_step c eng)) mk =
     (case call_policy mk c of None \<Rightarrow> dict_get (re_registry eng) mk | Some p \<Rightarrow> Some p)"
  by (cases c) (auto simp: register_policy_def reg_register_def get_rules_cases with_rules_ok apply_price_limit_def
    check_session_status_def is_auction_time_def validate_price_tick_def validate_order_def snd_check_order
    update_price_limits_def split: option.split)

lemma rule_steps:
  assumes "rule_engine_ok eng" and "\<forall>c \<in> set cs. own_name c"
  shows "rule_engine_ok (fold rule_step cs eng) \<and>
    dict_get (re_registry (fold rule_step cs eng)) mk = latest_policy mk cs (dict_get (re_registry eng) mk)"
  using assms(2)
proof (induction cs rule: rev_induct)
  case Nil
  then show ?case using assms(1) by (simp add: latest_policy_def)
next
  case (snoc c cs)
  then show ?case by (simp add: rule_step_ok rule_step_registry latest_policy_snoc split: option.split)
qed

subsection \<open>Properties\<close>

lemma clamp_bounds: "(lo :: pyfloat) \<le> hi \<Longrightarrow> lo \<le> max lo (min p hi) \<and> max lo (min p hi) \<le> hi"
  by simp

text \<open>C21: Well-formedness of the rule engine: in every history of queries and of registrations under the
  policy's own name the registry files each policy under its market id, the cache holds only rules of
  the filed policies, and a query answers with the rules of the policy registered last (a KeyError
  for an unknown market).\<close>

theorem rules_are_current:
  assumes "\<forall>c \<in> set cs. own_name c"
  shows "rule_engine_ok (fold rule_step cs (rule_engine_init None))
    \<and> fst (get_rules mk (fold rule_step cs (rule_engine_init None))) =
        (case latest_policy mk cs (dict_get create_default mk) of None \<Rightarrow> Inl KeyError | Some p \<Rightarrow> Inr (from_policy p))"
proof -
  have "re_registry (rule_engine_init None) = create_default" by (simp add: rule_engine_init_def)
  with rule_steps [OF rule_engine_init_ok assms, of mk] show ?thesis by (simp add: get_rules_cases)
qed

theorem rules_are_current_witness:
  "fst (get_rules ''tse'' (fold rule_step [Get_Rules ''tse'', Register_Policy ''tse'' (TSEMarketPolicy\<lparr>policy_name := ''x'',
       get_tick_size_rules := TickSizeRules 1\<rparr>)] (rule_engine_init None))) =
     Inr (from_policy (TSEMarketPolicy\<lparr>policy_name := ''x'', get_tick_size_rules := TickSizeRules 1\<rparr>))"
  using rules_are_current [of "[Get_Rules ''tse'', Register_Policy ''tse'' (TSEMarketPolicy\<lparr>policy_name := ''x'',
    get_tick_size_rules := TickSizeRules 1\<rparr>)]" "''tse''"]
  by (simp add: latest_policy_def TSEMarketPolicy_def)

lemma aliased_registration_stale:
  \<comment> \<open>registered under another name, a changed policy leaves the cached rules in force\<close>
  "fst (get_rules ''tse'' (fold rule_step [Get_Rules ''tse'', Register_Policy ''TSE'' (TSEMarketPolicy\<lparr>
     get_tick_size_rules := TickSizeRules 1\<rparr>)] (rule_engine_init None))) = Inr (from_policy TSEMarketPolicy)"
  by (simp add: get_rules_def rule_engine_init_def register_policy_def reg_register_def reg_get_def default_registry
      TSEMarketPolicy_def)

text \<open>The session status is the one of the clock, though the code compares strings: with the session
  times written as HH:MM a market is in pre-open from its pre-open minute until its open minute, open
  from there to its closing minute included, and closed at every other minute of the day.\<close>

theorem session_status_by_minutes:
  assumes "rule_engine_ok eng" and "dict_get (re_registry eng) mk = Some p"
    and "get_session_rules p = SessionRules (hm_string pre) (hm_string op) (hm_string cl)"
    and "pre < 1440" and "op < 1440" and "cl < 1440"
  shows "fst (check_session_status mk t eng) = Inr
    (let m = minute_of_day t
     in if pre \<le> m \<and> m < op then PRE_OPEN else if op \<le> m \<and> m \<le> cl then OPEN else CLOSED)"
  using assms by (simp add: check_session_status_def with_rules_ok from_policy_def session_status_def SessionRules_def Let_def)

theorem session_status_by_minutes_witness:
  "fst (check_session_status ''tse'' (45000000000 + 5) (rule_engine_init None)) = Inr OPEN"
proof -
  have p: "dict_get (re_registry (rule_engine_init None)) ''tse'' = Some TSEMarketPolicy"
    by (simp add: rule_engine_init_def default_registry)
  have "get_session_rules TSEMarketPolicy = SessionRules (hm_string 525) (hm_string 540) (hm_string 750)"
    by (simp add: TSEMarketPolicy_def session_time_defs standard_hours)
  from session_status_by_minutes [OF rule_engine_init_ok p this] show ?thesis
    by (simp add: minute_of_day_def DAY_def MINUTE_def Let_def)
qed

text \<open>The two places that compute price limits agree: for a tracked instrument of a market without
  dynamic bands, once \<open>update_price_limits\<close> has run, \<open>apply_price_limit\<close> clamps every price to exactly
  the stored limits, which lie around the reference price.\<close>

theorem price_limits_agree:
  assumes "rule_engine_ok eng" and "get_state mkt i = Some st" and "0 < reference_price st"
    and "dict_get (re_registry eng) (market_name st) = Some p"
    and "\<not> dynamic_bands (get_price_limit_rules p)"
    and "0 \<le> max_change_pct (get_price_limit_rules p)" and "max_change_pct (get_price_limit_rules p) \<le> 100"
  shows "\<exists>mkt1 eng1 st1. update_price_limits i mkt eng = (Inr mkt1, eng1) \<and> get_state mkt1 i = Some st1
    \<and> price_limit_lower st1 \<le> reference_price st1 \<and> reference_price st1 \<le> price_limit_upper st1
    \<and> (\<forall>q. fst (apply_price_limit (market_name st) (reference_price st) q eng1) =
           Inr (max (price_limit_lower st1) (min q (price_limit_upper st1))))"
proof -
  define change where "change = reference_price st * (max_change_pct (get_price_limit_rules p) / 100)"
  define st1 where "st1 = st\<lparr>price_limit_upper := reference_price st + change, price_limit_lower := max 0 (reference_price st - change)\<rparr>"
  obtain x eng1 where u: "update_price_limits i mkt eng = (x, eng1)" by (cases "update_price_limits i mkt eng")
  define k where "k = (\<lambda>r :: market_rules. let change = reference_price st * (max_change_pct (price_limit r) / 100)
     in Inr (dict_set i (st\<lparr>price_limit_upper := reference_price st + change,
                           price_limit_lower := max 0 (reference_price st - change)\<rparr>) mkt) :: py_error + market_engine)"
  have w: "with_rules (market_name st) k eng = (x, eng1)"
    using u assms(2,3) by (simp add: update_price_limits_def k_def)
  from with_rules_ok [OF assms(1), of "market_name st" k] assms(4)
  have k: "x = k (from_policy p)" and ok1: "rule_engine_ok eng1" "dict_get (re_registry eng1) (market_name st) = Some p"
    unfolding w by simp_all
  from k have x: "x = Inr (dict_set i st1 mkt)" by (simp add: k_def from_policy_def st1_def change_def Let_def)
  have "0 \<le> change" unfolding change_def using assms(3,6) by simp
  moreover have "change \<le> reference_price st"
    using mult_left_mono [OF assms(7), of "reference_price st"] assms(3) by (simp add: change_def)
  moreover have "fst (apply_price_limit (market_name st) (reference_price st) q eng1) =
      Inr (max (reference_price st - change) (min q (reference_price st + change)))" for q
    using assms(5)
    by (simp add: with_rules_ok [OF ok1(1)] ok1(2) apply_price_limit_def limit_price_def from_policy_def change_def Let_def)
  ultimately show ?thesis using u x by (auto simp: st1_def get_state_def)
qed

theorem price_limits_agree_witness:
  "\<exists>mkt1 eng1 st1. update_price_limits ''x'' (add_instrument ''x'' ''tse'' 100 []) (rule_engine_init None) = (Inr mkt1, eng1)
     \<and> get_state mkt1 ''x'' = Some st1
     \<and> fst (apply_price_limit ''tse'' 100 200 eng1) = Inr (max (price_limit_lower st1) (min 200 (price_limit_upper st1)))"
proof -
  obtain st where st: "get_state (add_instrument ''x'' ''tse'' 100 []) ''x'' = Some st" "reference_price st = 100" "market_name st = ''tse''"
    by (simp add: get_state_def add_instrument_def)
  have "dict_get (re_registry (rule_engine_init None)) (market_name st) = Some TSEMarketPolicy"
    by (simp add: rule_engine_init_def default_registry st)
  moreover have "get_price_limit_rules TSEMarketPolicy = PriceLimitRules 5"
    by (simp add: TSEMarketPolicy_def DEFAULT_MAX_CHANGE_PCT_def)
  ultimately show ?thesis
    using price_limits_agree [OF rule_engine_init_ok st(1), of TSEMarketPolicy] st by (auto simp: PriceLimitRules_def)
qed

definition widest_band :: "price_limit_rules \<Rightarrow> pyfloat" where
  "widest_band r = (if dynamic_bands r then max (yellow_pct r) (max (orange_pct r) (red_pct r)) else max_change_pct r)"

lemma clamp_near:
  fixes ref :: pyfloat
  assumes "0 \<le> ref" "0 \<le> band" "band \<le> widest"
  shows "\<bar>max (ref - ref * (band / 100)) (min q (ref + ref * (band / 100))) - ref\<bar> \<le> ref * (widest / 100)"
proof -
  define x y where "x = ref * (band / 100)" and "y = ref * (widest / 100)"
  have "x \<le> y" unfolding x_def y_def using assms by (intro mult_left_mono divide_right_mono) simp_all
  moreover have "0 \<le> x" unfolding x_def using assms by simp
  ultimately show ?thesis unfolding x_def [symmetric] y_def [symmetric] by (auto simp: abs_le_iff)
qed

lemma limit_price_near:
  assumes "0 < ref" "0 \<le> max_change_pct r" "0 \<le> yellow_pct r" "0 \<le> orange_pct r" "0 \<le> red_pct r"
  shows "\<bar>limit_price r ref q - ref\<bar> \<le> ref * (widest_band r / 100)"
proof (cases "dynamic_bands r")
  case True
  define change where "change = \<bar>(q - ref) / ref\<bar> * 100"
  define band where "band = (if change \<le> yellow_pct r then yellow_pct r else if change \<le> orange_pct r then orange_pct r else red_pct r)"
  have l: "limit_price r ref q = max (ref - ref * (band / 100)) (min q (ref + ref * (band / 100)))"
    using True assms(1) unfolding limit_price_def apply_dynamic_limit_def Let_def band_def change_def by simp
  have "0 \<le> band" "band \<le> widest_band r" using assms True by (auto simp: band_def widest_band_def)
  with assms(1) show ?thesis unfolding l by (intro clamp_near) simp_all
next
  case False
  with assms show ?thesis using clamp_near [of ref "max_change_pct r" "max_change_pct r" q]
    by (simp add: limit_price_def widest_band_def Let_def)
qed

lemma base_market_not_monotone:
  \<comment> \<open>at +3.0% the price stands, at +3.1% it is put back to +1%: the orange band is never used\<close>
  "limit_price (get_price_limit_rules BaseMarketPolicy) 1000 1030 = 1030"
  "limit_price (get_price_limit_rules BaseMarketPolicy) 1000 1031 = 1010"
  by (simp_all add: BaseMarketPolicy_def limit_price_def apply_dynamic_limit_def Let_def)

lemma derivatives_frozen: "0 < ref \<Longrightarrow> limit_price (get_price_limit_rules DerivativesMarketPolicy) ref q = ref"
  by (simp add: DerivativesMarketPolicy_def PriceLimitRules_def limit_price_def apply_dynamic_limit_def Let_def)

lemma market_orders_never_refused:
  \<comment> \<open>\<open>allow_market_order\<close> plays no part in the verdict\<close>
  "validate_rules (v\<lparr>allow_market_order := x\<rparr>) ord = validate_rules v ord"
  by (simp add: validate_rules_def)

end
