(* ===== verification/Market_Versions.thy ===== *)
theory Market_Versions
  imports Market_Policies
begin

text \<open>
  The dated rule sets of the markets (\<open>backtesting/market/rule_versioning.py\<close>): the registry keeps, per
  market, a list sorted by the first day of validity and is queried with a date. A \<open>date\<close> is its
  ordinal (\<open>date.toordinal\<close>). Descriptions and the metadata dictionary are not kept.
\<close>

subsection \<open>Dates\<close>

definition is_leap :: "int \<Rightarrow> bool" where
  "is_leap y \<longleftrightarrow> y mod 4 = 0 \<and> (y mod 100 \<noteq> 0 \<or> y mod 400 = 0)"

definition days_in_month :: "int \<Rightarrow> nat \<Rightarrow> int" where
  "days_in_month y m = (if m = 2 then if is_leap y then 29 else 28 else if m \<in> {4, 6, 9, 11} then 30 else 31)"

definition date_ordinal :: "int \<Rightarrow> nat \<Rightarrow> int \<Rightarrow> int" where
  \<comment> \<open>\<open>date(y, m, d)\<close>\<close>
  "date_ordinal y m d =
     (let y' = y - 1
      in y' * 365 + y' div 4 - y' div 100 + y' div 400 + sum_list (map (days_in_month y) [1..<m]) + d)"

lemma rule_dates:
  "date_ordinal 2018 (Suc 0) 1 = 736695" "date_ordinal 2020 2 19 = 737474" "date_ordinal 2020 2 20 = 737475"
  "date_ordinal 2020 4 20 = 737535" "date_ordinal 2020 4 21 = 737536"
  by code_simp+

subsection \<open>Rule sets\<close>

record session_rule =
  sr_preopen :: string
  sr_open :: string
  sr_close :: string

record price_limit_rule =
  limit_pct :: pyfloat
  pl_tiered :: bool
  pl_tiers :: "(string \<times> pyfloat) list" \<comment> \<open>name and limit; the descriptions are not kept\<close>

record auction_rule =
  ar_enabled :: bool
  opening_auction :: bool
  closing_auction :: bool
  periodic :: bool

record rule_version =
  rv_market :: string
  rv_version :: string
  effective_from :: int
  effective_to :: "int option"
  rv_session :: session_rule
  rv_price_limit :: price_limit_rule
  rv_auction :: auction_rule
  t_plus :: int
  queue_enabled :: bool
  volume_base_enabled :: bool
  short_selling_enabled :: bool
  market_order_enabled :: bool
  min_order_value :: pyfloat
  rv_tick_size :: pyfloat

definition PriceLimitRule :: "pyfloat \<Rightarrow> price_limit_rule" where
  "PriceLimitRule pct = \<lparr>limit_pct = pct, pl_tiered = False, pl_tiers = []\<rparr>"

definition AuctionRule :: "bool \<Rightarrow> bool \<Rightarrow> bool \<Rightarrow> auction_rule" where
  "AuctionRule en op cl = \<lparr>ar_enabled = en, opening_auction = op, closing_auction = cl, periodic = False\<rparr>"

definition RuleVersion ::
  "string \<Rightarrow> string \<Rightarrow> int option \<Rightarrow> int option \<Rightarrow> session_rule \<Rightarrow> price_limit_rule \<Rightarrow> auction_rule \<Rightarrow> py_error + rule_version" where
  \<comment> \<open>\<open>MarketRuleSet(...)\<close> with the other fields at their defaults; the default of \<open>effective_from\<close> calls
    \<open>date.min\<close>, which is a date and not a function\<close>
  "RuleVersion mk ver from till sess pl auc =
     (case from of
        None \<Rightarrow> Inl TypeError
      | Some d \<Rightarrow> Inr \<lparr>rv_market = mk, rv_version = ver, effective_from = d, effective_to = till, rv_session = sess,
                      rv_price_limit = pl, rv_auction = auc, t_plus = 2, queue_enabled = True,
                      volume_base_enabled = True, short_selling_enabled = False, market_order_enabled = True,
                      min_order_value = 0, rv_tick_size = 1\<rparr>)"

definition is_active_on :: "int \<Rightarrow> rule_version \<Rightarrow> bool" where
  "is_active_on d r =
     (if d < effective_from r then False
      else \<not> (case effective_to r of None \<Rightarrow> False | Some e \<Rightarrow> d > e))"

subsection \<open>The registry\<close>

type_synonym version_registry = "(string, rule_version list) pydict"

definition rv_register :: "rule_version \<Rightarrow> version_registry \<Rightarrow> version_registry" where
  "rv_register r reg =
     dict_set (rv_market r) (sort_key effective_from (dict_get_or reg (rv_market r) [] @ [r])) reg"

definition get_all_versions :: "version_registry \<Rightarrow> string \<Rightarrow> rule_version list" where
  "get_all_versions reg mk = dict_get_or reg mk []"

definition rules_on :: "version_registry \<Rightarrow> string \<Rightarrow> int \<Rightarrow> rule_version option" where
  "rules_on reg mk d =
     (let rules = dict_get_or reg mk []
      in case find (is_active_on d) (rev rules) of
           Some r \<Rightarrow> Some r
         | None \<Rightarrow> if rules = [] then None else Some (List.last rules))"

definition export_rules :: "version_registry \<Rightarrow> string \<Rightarrow> int \<Rightarrow> (string, py_value) pydict" where
  \<comment> \<open>the dates are exported as ordinals, not in ISO format\<close>
  "export_rules reg mk d =
     (case rules_on reg mk d of
        None \<Rightarrow> []
      | Some r \<Rightarrow>
          [(''market_id'', PStr (rv_market r)), (''version'', PStr (rv_version r)),
           (''effective_from'', PInt (effective_from r)),
           (''effective_to'', case effective_to r of None \<Rightarrow> PNone | Some e \<Rightarrow> PInt e),
           (''price_limit_pct'', PFloat (limit_pct (rv_price_limit r))),
           (''session'', PDict [(''open'', PStr (sr_open (rv_session r))), (''close'', PStr (sr_close (rv_session r)))]),
           (''settlement_t'', PInt (t_plus r))])"

definition day_session :: session_rule where
  "day_session = \<lparr>sr_preopen = ''08:45'', sr_open = ''09:00'', sr_close = ''12:30''\<rparr>"

definition plain_version :: "string \<Rightarrow> string \<Rightarrow> int \<Rightarrow> int option \<Rightarrow> pyfloat \<Rightarrow> auction_rule \<Rightarrow> rule_version" where
  \<comment> \<open>a rule set with the day session and everything else as constructed\<close>
  "plain_version mk ver from till pct auc =
     \<lparr>rv_market = mk, rv_version = ver, effective_from = from, effective_to = till, rv_session = day_session,
      rv_price_limit = PriceLimitRule pct, rv_auction = auc, t_plus = 2, queue_enabled = True,
      volume_base_enabled = True, short_selling_enabled = False, market_order_enabled = True,
      min_order_value = 0, rv_tick_size = 1\<rparr>"

definition default_versions :: "rule_version list" where
  "default_versions =
     [plain_version ''tse'' ''pre_covid'' (date_ordinal 2018 1 1) (Some (date_ordinal 2020 2 19)) (5 / 100) (AuctionRule True True True),
      plain_version ''tse'' ''covid_period'' (date_ordinal 2020 2 20) (Some (date_ordinal 2020 4 20)) (10 / 100) (AuctionRule True True True),
      plain_version ''tse'' ''post_covid_standard'' (date_ordinal 2020 4 21) None (5 / 100) (AuctionRule True True True),
      plain_version ''ifb'' ''default'' (date_ordinal 2018 1 1) None (5 / 100) (AuctionRule True True True),
      (plain_version ''base_market'' ''tiered_v1'' (date_ordinal 2018 1 1) None (3 / 100) (AuctionRule True False False))
        \<lparr>rv_price_limit := \<lparr>limit_pct = 3 / 100, pl_tiered = True,
             pl_tiers = [(''yellow'', 3 / 100), (''orange'', 2 / 100), (''red'', 1 / 100)]\<rparr>,
         rv_auction := \<lparr>ar_enabled = True, opening_auction = False, closing_auction = False, periodic = True\<rparr>,
         volume_base_enabled := False\<rparr>,
      (plain_version ''etf'' ''default'' (date_ordinal 2018 1 1) None (5 / 100) (AuctionRule True True True))
        \<lparr>volume_base_enabled := False\<rparr>,
      plain_version ''bonds'' ''default'' (date_ordinal 2018 1 1) None (1 / 100) (AuctionRule False False False),
      (plain_version ''ime'' ''default'' (date_ordinal 2018 1 1) None (5 / 100) (AuctionRule True True True))
        \<lparr>rv_session := \<lparr>sr_preopen = ''11:45'', sr_open = ''12:00'', sr_close = ''18:00''\<rparr>\<rparr>]"

definition load_defaults :: version_registry where
  "load_defaults = fold rv_register default_versions []"

lemma plain_version_constructed:
  "RuleVersion mk ver (Some from) till day_session (PriceLimitRule pct) auc = Inr (plain_version mk ver from till pct auc)"
  by (simp add: RuleVersion_def plain_version_def)

lemma dateless_version_raises: "RuleVersion mk ver None till sess pl auc = Inl TypeError"
  by (simp add: RuleVersion_def)

subsection \<open>What a query returns\<close>

definition versions_ok :: "version_registry \<Rightarrow> bool" where
  "versions_ok reg \<longleftrightarrow> (\<forall>mk rs. dict_get reg mk = Some rs \<longrightarrow> sorted (map effective_from rs) \<and> (\<forall>r \<in> set rs. rv_market r = mk))"

lemma rv_register_ok: "versions_ok reg \<Longrightarrow> versions_ok (rv_register r reg)"
  by (cases "dict_get reg (rv_market r)") (simp_all add: versions_ok_def rv_register_def dict_get_or_def)

lemma registered_versions_ok: "versions_ok reg \<Longrightarrow> versions_ok (fold rv_register rs reg)"
  by (induction rs arbitrary: reg) (auto simp: rv_register_ok)

lemma mset_versions:
  "mset (get_all_versions (fold rv_register rs reg) mk) =
     mset (get_all_versions reg mk) + mset (filter (\<lambda>r. rv_market r = mk) rs)"
proof (induction rs arbitrary: reg)
  case (Cons r rs)
  show ?case by (simp add: Cons.IH) (auto simp: get_all_versions_def rv_register_def dict_get_or_def)
qed simp

lemma find_rev_latest:
  assumes "sorted (map effective_from rs)" "find P (rev rs) = Some r"
  shows "r \<in> set rs \<and> P r \<and> (\<forall>q \<in> set rs. P q \<longrightarrow> effective_from q \<le> effective_from r)"
  using assms
proof (induction rs rule: rev_induct)
  case (snoc x rs)
  show ?case
  proof (cases "P x")
    case True
    with snoc.prems show ?thesis by (auto simp: sorted_append)
  next
    case False
    with snoc.IH snoc.prems show ?thesis by (auto simp: sorted_append)
  qed
qed simp

lemma find_rev_none: "find P (rev rs) = None \<longleftrightarrow> (\<forall>r \<in> set rs. \<not> P r)"
  by (auto simp: find_None_iff)

text \<open>A dated query gives the rules in force: whatever rule sets were registered and in whatever
  order, the answer is a registered rule set of the market that is active on that day and no other
  active one starts later; when none is active it is one with the latest start, and there is no
  answer exactly when the market has no rule set.\<close>

theorem rules_in_force:
  "case rules_on (fold rv_register rs []) mk d of
     None \<Rightarrow> \<forall>r \<in> set rs. rv_market r \<noteq> mk
   | Some r \<Rightarrow> r \<in> set rs \<and> rv_market r = mk
       \<and> (let act = {q \<in> set rs. rv_market q = mk \<and> is_active_on d q};
              cand = (if act = {} then {q \<in> set rs. rv_market q = mk} else act)
          in r \<in> cand \<and> (\<forall>q \<in> cand. effective_from q \<le> effective_from r))"
proof -
  let ?reg = "fold rv_register rs []"
  define vs where "vs = get_all_versions ?reg mk"
  have set: "set vs = {r \<in> set rs. rv_market r = mk}"
    using arg_cong [OF mset_versions [of rs "[]" mk], of set_mset] by (auto simp: vs_def get_all_versions_def dict_get_or_def)
  have sorted: "sorted (map effective_from vs)"
    using registered_versions_ok [of "[]" rs] by (auto simp: versions_ok_def vs_def get_all_versions_def dict_get_or_def split: option.split)
  have on: "rules_on ?reg mk d = (case find (is_active_on d) (rev vs) of Some r \<Rightarrow> Some r
      | None \<Rightarrow> if vs = [] then None else Some (List.last vs))"
    by (simp only: rules_on_def vs_def get_all_versions_def Let_def)
  show ?thesis
  proof (cases "find (is_active_on d) (rev vs)")
    case (Some r)
    with find_rev_latest [OF sorted Some] set show ?thesis by (auto simp: on Let_def)
  next
    case None
    then have none: "\<forall>r \<in> set vs. \<not> is_active_on d r" by (simp only: find_rev_none)
    show ?thesis
    proof (cases "vs = []")
      case True
      with set None show ?thesis by (auto simp: on)
    next
      case False
      then obtain us x where "vs = us @ [x]" by (cases vs rule: rev_cases) auto
      then have "List.last vs \<in> set vs" "\<forall>q \<in> set vs. effective_from q \<le> effective_from (List.last vs)"
        using sorted by (auto simp: sorted_append)
      with None none set False show ?thesis by (auto simp: on Let_def)
    qed
  qed
qed

theorem rules_in_force_witness:
  "\<exists>r. rules_on (fold rv_register [plain_version ''m'' ''b'' 10 None 1 (AuctionRule True True True),
      plain_version ''m'' ''a'' 5 None 2 (AuctionRule True True True)] []) ''m'' 12 = Some r \<and> effective_from r = 10"
proof -
  let ?b = "plain_version ''m'' ''b'' 10 None 1 (AuctionRule True True True)"
  let ?a = "plain_version ''m'' ''a'' 5 None 2 (AuctionRule True True True)"
  have act: "is_active_on 12 ?a" "is_active_on 12 ?b" "effective_from ?a = 5" "effective_from ?b = 10"
      "rv_market ?a = ''m''" "rv_market ?b = ''m''"
    by (simp_all add: is_active_on_def plain_version_def)
  from rules_in_force [of "[?b, ?a]" "''m''" 12] act show ?thesis
    by (cases "rules_on (fold rv_register [?b, ?a] []) ''m'' 12") (auto simp: Let_def split: if_splits)
qed

text \<open>The price limit of the Tehran exchange on any date: ten percent from 20 February to 20 April 2020,
  five percent on every other day, before the first rule set of 2018 as well.\<close>

theorem tse_limit_by_date:
  "map_option (\<lambda>r. limit_pct (rv_price_limit r)) (rules_on load_defaults ''tse'' d) =
     Some (if date_ordinal 2020 2 20 \<le> d \<and> d \<le> date_ordinal 2020 4 20 then 10 / 100 else 5 / 100)"
proof -
  have "dict_get load_defaults ''tse'' = Some (take 3 default_versions)"
    by (simp add: load_defaults_def default_versions_def rv_register_def plain_version_def dict_get_or_def rule_dates)
  then show ?thesis
    by (simp add: rules_on_def dict_get_or_def default_versions_def plain_version_def is_active_on_def PriceLimitRule_def rule_dates)
qed

end
