(* ===== verification/Auction_Engine.thy ===== *)
theory Auction_Engine
  imports Prelude
begin

text \<open>
  The call auction (\<open>backtesting/microstructure/auction_engine.py\<close>): one clearing price for a book given
  as two dictionaries of volume per price, and its variants with price bands.

  \<open>float("inf")\<close>, the imbalance before any price was taken, is \<open>None\<close>.
\<close>

subsection \<open>The clearing price\<close>

datatype auction_session = PREOPEN | CONTINUOUS | PRE_CLOSE | CLOSING | POST_CLOSE

record auction_result =
  clearing_price :: pyfloat
  matched_volume :: int
  imbalance :: "int option"
  imbalance_pct :: pyfloat
  buy_volume :: int
  sell_volume :: int
  total_bids :: nat
  total_asks :: nat
  is_valid :: bool
  uncrossed_bids :: "(pyfloat, int) pydict"
  uncrossed_asks :: "(pyfloat, int) pydict"
  auc_extra :: "(string, py_value) pydict"
  limit_lower :: pyfloat
  limit_upper :: pyfloat

definition AuctionResult :: auction_result where
  "AuctionResult =
     \<lparr>clearing_price = 0, matched_volume = 0, imbalance = Some 0, imbalance_pct = 0, buy_volume = 0, sell_volume = 0,
      total_bids = 0, total_asks = 0, is_valid = False, uncrossed_bids = [], uncrossed_asks = [], auc_extra = [],
      limit_lower = 0, limit_upper = 0\<rparr>"

type_synonym depth = "(pyfloat, int) pydict"

definition demand_at :: "depth \<Rightarrow> pyfloat \<Rightarrow> int" where
  "demand_at bids p = sum_list (map snd (filter (\<lambda>(q, v). q \<ge> p) bids))"

definition supply_at :: "depth \<Rightarrow> pyfloat \<Rightarrow> int" where
  "supply_at asks p = sum_list (map snd (filter (\<lambda>(q, v). q \<le> p) asks))"

definition improves :: "int \<Rightarrow> int \<Rightarrow> int \<Rightarrow> int option \<Rightarrow> bool" where
  "improves matched imb max_vol min_imb \<longleftrightarrow>
     matched > max_vol \<or> (matched = max_vol \<and> (case min_imb of None \<Rightarrow> True | Some i \<Rightarrow> imb < i))"

fun scan_prices :: "depth \<Rightarrow> depth \<Rightarrow> pyfloat list \<Rightarrow> pyfloat \<times> int \<times> int option \<Rightarrow> pyfloat \<times> int \<times> int option" where
  "scan_prices bids asks [] st = st"
| "scan_prices bids asks (p # ps) (best, max_vol, min_imb) =
     (let b = demand_at bids p; s = supply_at asks p; matched = min b s; imb = \<bar>b - s\<bar>
      in scan_prices bids asks ps
           (if improves matched imb max_vol min_imb then (p, matched, Some imb) else (best, max_vol, min_imb)))"

fun uncrossed :: "int \<Rightarrow> int \<Rightarrow> depth \<Rightarrow> depth" where
  \<comment> \<open>the levels met once the volume so far reaches the matched volume\<close>
  "uncrossed max_vol cum [] = []"
| "uncrossed max_vol cum ((p, v) # d) =
     (if cum \<ge> max_vol then (p, v) # uncrossed max_vol (cum + v) d else uncrossed max_vol (cum + v) d)"

definition all_prices :: "depth \<Rightarrow> depth \<Rightarrow> pyfloat list" where
  "all_prices bids asks = sort (remdups (dict_keys bids @ dict_keys asks))"

definition calculate_clearing_price :: "depth \<Rightarrow> depth \<Rightarrow> auction_result" where
  "calculate_clearing_price bids asks =
     (if bids = [] \<or> asks = [] then AuctionResult
      else case scan_prices bids asks (all_prices bids asks) (0, 0, None) of
        (best, max_vol, min_imb) \<Rightarrow>
          AuctionResult\<lparr>clearing_price := best, matched_volume := max_vol, imbalance := min_imb,
            imbalance_pct := (if max_vol > 0 then of_int (case min_imb of None \<Rightarrow> 0 | Some i \<Rightarrow> i) / of_int max_vol * 100 else 0),
            buy_volume := sum_list (map snd bids), sell_volume := sum_list (map snd asks),
            total_bids := length bids, total_asks := length asks, is_valid := max_vol > 0,
            uncrossed_bids := uncrossed max_vol 0 (rev (sort_key fst bids)),
            uncrossed_asks := uncrossed max_vol 0 (sort_key fst asks)\<rparr>)"

subsection \<open>Auctions with bands\<close>

definition calculate_opening_auction :: "depth \<Rightarrow> depth \<Rightarrow> pyfloat option \<Rightarrow> pyfloat \<Rightarrow> auction_result" where
  "calculate_opening_auction bids asks ref pct =
     (let r = calculate_clearing_price bids asks
      in if \<not> is_valid r then r
         else case ref of
           None \<Rightarrow> r
         | Some x \<Rightarrow>
             if x > 0 then
               (let limit = x * (pct / 100); lower = x - limit; upper = x + limit
                in if clearing_price r < lower \<or> clearing_price r > upper
                   then r\<lparr>clearing_price := max lower (min (clearing_price r) upper)\<rparr> else r)
             else r)"

definition calculate_closing_auction :: "pyfloat list \<Rightarrow> depth \<Rightarrow> depth \<Rightarrow> auction_result" where
  "calculate_closing_auction last_trades bids asks = calculate_clearing_price bids asks"

definition calculate_volatility_auction :: "depth \<Rightarrow> depth \<Rightarrow> pyfloat \<Rightarrow> pyfloat \<Rightarrow> auction_result" where
  "calculate_volatility_auction bids asks ref pct =
     (let r = calculate_clearing_price bids asks
      in if \<not> is_valid r then r
         else r\<lparr>clearing_price := max (ref * (1 - pct / 100)) (min (clearing_price r) (ref * (1 + pct / 100)))\<rparr>)"

definition calculate_periodic_auction :: "depth \<Rightarrow> depth \<Rightarrow> pyfloat option \<Rightarrow> pyfloat \<Rightarrow> auction_result" where
  "calculate_periodic_auction = calculate_opening_auction"

definition calculate_base_market_auction ::
  "depth \<Rightarrow> depth \<Rightarrow> pyfloat \<Rightarrow> pyfloat \<Rightarrow> pyfloat \<Rightarrow> pyfloat \<Rightarrow> auction_result" where
  "calculate_base_market_auction bids asks ref yellow orange red =
     (let r = calculate_clearing_price bids asks
      in if \<not> is_valid r then r
         else if ref > 0 then
           (let limit = max (ref * (red / 100)) (max (ref * (orange / 100)) (ref * (yellow / 100)));
                lower = ref - limit; upper = ref + limit
            in r\<lparr>limit_lower := lower, limit_upper := upper,
                 clearing_price := max lower (min (clearing_price r) upper)\<rparr>)
         else r)"

definition calculate_ime_auction :: "depth \<Rightarrow> depth \<Rightarrow> (string, py_value) pydict option \<Rightarrow> auction_result" where
  "calculate_ime_auction bids asks spec =
     (let r = calculate_clearing_price bids asks
      in if \<not> is_valid r then r else r\<lparr>auc_extra := (case spec of None \<Rightarrow> [] | Some d \<Rightarrow> d)\<rparr>)"

definition apply_session_auction :: "depth \<Rightarrow> depth \<Rightarrow> auction_session \<Rightarrow> pyfloat \<Rightarrow> auction_result" where
  "apply_session_auction bids asks sess ref =
     (if sess = PREOPEN then calculate_opening_auction bids asks (Some ref) 5
      else if sess = PRE_CLOSE then calculate_closing_auction [] bids asks
      else calculate_clearing_price bids asks)"

lemma sorted_all_prices [simp]: "sorted (all_prices bids asks)"
  by (simp add: all_prices_def)

lemma all_prices_set: "set (all_prices bids asks) = set (dict_keys bids) \<union> set (dict_keys asks)"
  by (simp add: all_prices_def)

subsection \<open>Demand falls, supply rises\<close>

definition executable :: "depth \<Rightarrow> depth \<Rightarrow> pyfloat \<Rightarrow> int" where
  "executable bids asks p = min (demand_at bids p) (supply_at asks p)"

definition gap :: "depth \<Rightarrow> depth \<Rightarrow> pyfloat \<Rightarrow> int" where
  "gap bids asks p = \<bar>demand_at bids p - supply_at asks p\<bar>"

definition volumes_ok :: "depth \<Rightarrow> bool" where
  "volumes_ok d \<longleftrightarrow> (\<forall>(p, v) \<in> set d. 0 \<le> v)"

lemma sum_filter_mono:
  assumes "volumes_ok d" "\<And>p. P p \<Longrightarrow> Q p"
  shows "sum_list (map snd (filter (\<lambda>(p, v). P p) d)) \<le> sum_list (map snd (filter (\<lambda>(p, v). Q p) d))"
  using assms(1) by (induction d) (auto simp: volumes_ok_def assms(2) intro: add_increasing)

lemma demand_antimono: "volumes_ok bids \<Longrightarrow> p \<le> q \<Longrightarrow> demand_at bids q \<le> demand_at bids p"
  unfolding demand_at_def by (rule sum_filter_mono) auto

lemma supply_mono: "volumes_ok asks \<Longrightarrow> p \<le> q \<Longrightarrow> supply_at asks p \<le> supply_at asks q"
  unfolding supply_at_def by (rule sum_filter_mono) auto

lemma supply_pos:
  assumes "volumes_ok asks"
  shows "0 < supply_at asks p \<longleftrightarrow> (\<exists>(q, v) \<in> set asks. q \<le> p \<and> 0 < v)"
  using assms unfolding supply_at_def
proof (induction asks)
  case (Cons a d)
  have "0 \<le> sum_list (map snd (filter (\<lambda>(q, v). q \<le> p) d))"
    using Cons.prems by (intro sum_list_nonneg) (auto simp: volumes_ok_def)
  with Cons show ?case by (cases a) (auto simp: volumes_ok_def)
qed simp

lemma demand_pos:
  assumes "volumes_ok bids"
  shows "0 < demand_at bids p \<longleftrightarrow> (\<exists>(q, v) \<in> set bids. q \<ge> p \<and> 0 < v)"
  using assms unfolding demand_at_def
proof (induction bids)
  case (Cons a d)
  have "0 \<le> sum_list (map snd (filter (\<lambda>(q, v). q \<ge> p) d))"
    using Cons.prems by (intro sum_list_nonneg) (auto simp: volumes_ok_def)
  with Cons show ?case by (cases a) (auto simp: volumes_ok_def)
qed simp

lemma supply_nonneg: "volumes_ok asks \<Longrightarrow> 0 \<le> supply_at asks p"
  unfolding supply_at_def by (rule sum_list_nonneg) (auto simp: volumes_ok_def)

lemma demand_nonneg: "volumes_ok bids \<Longrightarrow> 0 \<le> demand_at bids p"
  unfolding demand_at_def by (rule sum_list_nonneg) (auto simp: volumes_ok_def)

lemma supply_at_book_price:
  \<comment> \<open>supply at any price is the supply at the highest quoted price below it\<close>
  assumes "volumes_ok asks" "0 < supply_at asks q"
  obtains p where "p \<in> set (dict_keys asks)" "p \<le> q" "supply_at asks p = supply_at asks q"
proof -
  let ?S = "{p \<in> set (dict_keys asks). p \<le> q}"
  from assms have "?S \<noteq> {}" by (force simp: supply_pos)
  then have m: "Max ?S \<in> ?S" by (intro Max_in) auto
  have up: "p \<le> Max ?S" if "p \<in> set (dict_keys asks)" "p \<le> q" for p
    using that by (intro Max_ge) auto
  have "(p \<le> q) = (p \<le> Max ?S)" if "p \<in> set (dict_keys asks)" for p
    using m up [OF that] by (metis (mono_tags, lifting) mem_Collect_eq order_trans)
  then have "filter (\<lambda>(p, v). p \<le> q) asks = filter (\<lambda>(p, v). p \<le> Max ?S) asks"
    by (intro filter_cong refl) force
  then have "supply_at asks (Max ?S) = supply_at asks q" by (simp add: supply_at_def)
  with m show ?thesis by (intro that [of "Max ?S"]) auto
qed

lemma executable_at_book_price:
  assumes "volumes_ok bids" "volumes_ok asks" "0 < executable bids asks q"
  obtains p where "p \<in> set (all_prices bids asks)" "executable bids asks q \<le> executable bids asks p"
proof -
  from assms(3) have "0 < supply_at asks q" by (simp add: executable_def)
  from supply_at_book_price [OF assms(2) this] obtain p where
    p: "p \<in> set (dict_keys asks)" "p \<le> q" "supply_at asks p = supply_at asks q" .
  with demand_antimono [OF assms(1) p(2)] show ?thesis
    by (intro that [of p]) (auto simp: executable_def all_prices_set)
qed

subsection \<open>The scan keeps the best price so far\<close>

definition best_of :: "depth \<Rightarrow> depth \<Rightarrow> pyfloat list \<Rightarrow> pyfloat \<times> int \<times> int option \<Rightarrow> bool" where
  "best_of bids asks ps st = (case st of (best, max_vol, min_imb) \<Rightarrow>
     (case min_imb of
        None \<Rightarrow> ps = [] \<and> max_vol = 0
      | Some i \<Rightarrow> best \<in> set ps \<and> max_vol = executable bids asks best \<and> i = gap bids asks best
          \<and> (\<forall>p \<in> set ps. executable bids asks p \<le> max_vol)
          \<and> (\<forall>p \<in> set ps. executable bids asks p = max_vol \<longrightarrow> i < gap bids asks p \<or> (i = gap bids asks p \<and> best \<le> p))))"

lemma scan_best:
  assumes "volumes_ok bids" "volumes_ok asks"
  shows "sorted (seen @ ps) \<Longrightarrow> best_of bids asks seen st \<Longrightarrow> best_of bids asks (seen @ ps) (scan_prices bids asks ps st)"
proof (induction ps arbitrary: seen st)
  case (Cons p ps)
  obtain best max_vol min_imb where st: "st = (best, max_vol, min_imb)" by (cases st)
  define st1 where "st1 = (if improves (executable bids asks p) (gap bids asks p) max_vol min_imb
    then (p, executable bids asks p, Some (gap bids asks p)) else (best, max_vol, min_imb))"
  have le: "q \<le> p" if "q \<in> set seen" for q using Cons.prems(1) that by (simp add: sorted_append)
  have nn: "0 \<le> executable bids asks p"
    using demand_nonneg [OF assms(1)] supply_nonneg [OF assms(2)] by (simp add: executable_def)
  have "best_of bids asks (seen @ [p]) st1"
  proof (cases min_imb)
    case None
    with Cons.prems(2) nn have "improves (executable bids asks p) (gap bids asks p) max_vol min_imb"
      by (auto simp: st best_of_def improves_def)
    then show ?thesis using Cons.prems(2) None by (simp add: st1_def best_of_def st)
  next
    case (Some i)
    show ?thesis
    proof (cases "improves (executable bids asks p) (gap bids asks p) max_vol min_imb")
      case True
      then have s1: "st1 = (p, executable bids asks p, Some (gap bids asks p))" by (simp add: st1_def)
      from Cons.prems(2) Some True show ?thesis
        by (force simp: st s1 best_of_def improves_def)
    next
      case False
      then have s1: "st1 = (best, max_vol, Some i)" by (simp add: st1_def Some)
      from Cons.prems(2) Some False le show ?thesis
        by (force simp: st s1 best_of_def improves_def)
    qed
  qed
  moreover have "scan_prices bids asks (p # ps) st = scan_prices bids asks ps st1"
    by (simp add: st st1_def executable_def gap_def Let_def)
  ultimately show ?case using Cons.IH [of "seen @ [p]" st1] Cons.prems(1) by simp
qed simp


lemma best_ofD:
  assumes "best_of bids asks ps (best, max_vol, Some i)"
  shows "best \<in> set ps" "max_vol = executable bids asks best" "i = gap bids asks best"
    "\<And>p. p \<in> set ps \<Longrightarrow> executable bids asks p \<le> max_vol"
    "\<And>p. p \<in> set ps \<Longrightarrow> executable bids asks p = max_vol \<Longrightarrow> i < gap bids asks p \<or> (i = gap bids asks p \<and> best \<le> p)"
  using assms unfolding best_of_def prod.case option.case by blast+

lemma clearing_scan:
  assumes "volumes_ok bids" "volumes_ok asks" "bids \<noteq> []"
  obtains best max_vol i where
    "scan_prices bids asks (all_prices bids asks) (0, 0, None) = (best, max_vol, Some i)"
    "best_of bids asks (all_prices bids asks) (best, max_vol, Some i)"
proof -
  have "best_of bids asks [] (0, 0, None)" by (simp add: best_of_def)
  then have b: "best_of bids asks (all_prices bids asks) (scan_prices bids asks (all_prices bids asks) (0, 0, None))"
    using scan_best [OF assms(1,2), of "[]" "all_prices bids asks" "(0, 0, None)"] by simp
  have ne: "all_prices bids asks \<noteq> []"
    using assms(3) all_prices_set [of bids asks] by (cases bids) auto
  obtain best max_vol mi where sc: "scan_prices bids asks (all_prices bids asks) (0, 0, None) = (best, max_vol, mi)"
    by (rule prod_cases3)
  show ?thesis
  proof (cases mi)
    case None
    with b ne show ?thesis unfolding sc best_of_def by simp
  next
    case (Some i)
    from b show ?thesis unfolding sc Some by (intro that [of best max_vol i]) (simp_all add: sc Some)
  qed
qed

lemma clearing_result:
  assumes "volumes_ok bids" "volumes_ok asks" "bids \<noteq> []" "asks \<noteq> []"
  obtains i where "imbalance (calculate_clearing_price bids asks) = Some i"
    "best_of bids asks (all_prices bids asks)
       (clearing_price (calculate_clearing_price bids asks), matched_volume (calculate_clearing_price bids asks), Some i)"
    "is_valid (calculate_clearing_price bids asks) \<longleftrightarrow> 0 < matched_volume (calculate_clearing_price bids asks)"
proof -
  from clearing_scan [OF assms(1-3)] obtain best max_vol i where
    sc: "scan_prices bids asks (all_prices bids asks) (0, 0, None) = (best, max_vol, Some i)"
    and b: "best_of bids asks (all_prices bids asks) (best, max_vol, Some i)" .
  have "clearing_price (calculate_clearing_price bids asks) = best"
      "matched_volume (calculate_clearing_price bids asks) = max_vol"
      "imbalance (calculate_clearing_price bids asks) = Some i"
      "is_valid (calculate_clearing_price bids asks) \<longleftrightarrow> 0 < max_vol"
    by (simp_all add: calculate_clearing_price_def assms(3,4) sc)
  with b show ?thesis by (intro that [of i]) simp_all
qed

lemma invalid_when_empty: "bids = [] \<or> asks = [] \<Longrightarrow> calculate_clearing_price bids asks = AuctionResult"
  by (simp add: calculate_clearing_price_def)

lemma AuctionResult_invalid [simp]: "\<not> is_valid AuctionResult"
  by (simp add: AuctionResult_def)

subsection \<open>Properties\<close>

text \<open>C6: the auction clears at the best price: a valid result's price is a quoted one, its volume is what
  can be executed there and no price at all, quoted or not, executes more; among the quoted prices
  that execute as much it has the least imbalance, and among those it is the lowest.\<close>

theorem auction_price_optimal:
  assumes "volumes_ok bids" and "volumes_ok asks" and "is_valid (calculate_clearing_price bids asks)"
  shows "let r = calculate_clearing_price bids asks; p = clearing_price r
    in p \<in> set (dict_keys bids) \<union> set (dict_keys asks)
       \<and> matched_volume r = executable bids asks p \<and> imbalance r = Some (gap bids asks p)
       \<and> (\<forall>q. executable bids asks q \<le> matched_volume r)
       \<and> (\<forall>q \<in> set (dict_keys bids) \<union> set (dict_keys asks). executable bids asks q = matched_volume r \<longrightarrow>
            gap bids asks p < gap bids asks q \<or> (gap bids asks p = gap bids asks q \<and> p \<le> q))"
proof -
  let ?r = "calculate_clearing_price bids asks"
  have ne: "bids \<noteq> []" "asks \<noteq> []" using assms(3) invalid_when_empty AuctionResult_invalid by metis+
  from clearing_result [OF assms(1,2) ne] obtain i where i: "imbalance ?r = Some i"
    and "best_of bids asks (all_prices bids asks) (clearing_price ?r, matched_volume ?r, Some i)"
    and v: "is_valid ?r \<longleftrightarrow> 0 < matched_volume ?r" .
  note b = best_ofD [OF this(2)]
  have "executable bids asks q \<le> matched_volume ?r" for q
  proof (cases "0 < executable bids asks q")
    case True
    from executable_at_book_price [OF assms(1,2) this] obtain p
      where p: "p \<in> set (all_prices bids asks)" "executable bids asks q \<le> executable bids asks p" .
    from b(4) [OF p(1)] p(2) show ?thesis by (rule order_trans [rotated])
  next
    case False
    with v assms(3) show ?thesis by simp
  qed
  with b [unfolded all_prices_set] i show ?thesis unfolding Let_def by blast
qed

theorem auction_price_optimal_witness:
  "clearing_price (calculate_clearing_price [(11, 10), (10, 5)] [(9, 8), (10, 4)]) = 10
   \<and> (\<forall>q. executable [(11, 10), (10, 5)] [(9, 8), (10, 4)] q \<le> 12)"
proof -
  have "calculate_clearing_price [(11, 10), (10, 5)] [(9, 8), (10, 4)]
      = AuctionResult\<lparr>clearing_price := 10, matched_volume := 12, imbalance := Some 3, imbalance_pct := 25,
          buy_volume := 15, sell_volume := 12, total_bids := 2, total_asks := 2, is_valid := True\<rparr>"
    by (simp add: calculate_clearing_price_def all_prices_def demand_at_def supply_at_def improves_def AuctionResult_def)
  then show ?thesis
    using auction_price_optimal [of "[(11, 10), (10, 5)]" "[(9, 8), (10, 4)]"] by (simp add: volumes_ok_def Let_def)
qed

text \<open>An auction is valid exactly when the book is crossed: some bid for a positive volume is at or
  above some ask for a positive volume.\<close>

theorem auction_valid_iff_crossed:
  assumes "volumes_ok bids" and "volumes_ok asks"
  shows "is_valid (calculate_clearing_price bids asks) \<longleftrightarrow>
    (\<exists>(p, v) \<in> set bids. \<exists>(q, w) \<in> set asks. 0 < v \<and> 0 < w \<and> q \<le> p)"
proof (cases "bids = [] \<or> asks = []")
  case True
  then show ?thesis by (auto simp: invalid_when_empty)
next
  case False
  then have ne: "bids \<noteq> []" "asks \<noteq> []" by simp_all
  let ?r = "calculate_clearing_price bids asks"
  from clearing_result [OF assms ne] obtain i where
    "best_of bids asks (all_prices bids asks) (clearing_price ?r, matched_volume ?r, Some i)"
    and v: "is_valid ?r \<longleftrightarrow> 0 < matched_volume ?r" by blast
  note b = best_ofD [OF this(1)]
  show ?thesis
  proof
    assume "is_valid ?r"
    with v b(2) have "0 < executable bids asks (clearing_price ?r)" by simp
    then have "0 < demand_at bids (clearing_price ?r)" "0 < supply_at asks (clearing_price ?r)"
      by (simp_all add: executable_def)
    then show "\<exists>(p, v) \<in> set bids. \<exists>(q, w) \<in> set asks. 0 < v \<and> 0 < w \<and> q \<le> p"
      unfolding demand_pos [OF assms(1)] supply_pos [OF assms(2)] by (blast intro: order_trans)
  next
    assume "\<exists>(p, v) \<in> set bids. \<exists>(q, w) \<in> set asks. 0 < v \<and> 0 < w \<and> q \<le> p"
    then obtain p v q w where x: "(p, v) \<in> set bids" "(q, w) \<in> set asks" "0 < v" "0 < w" "q \<le> p" by blast
    then have "0 < demand_at bids q" "0 < supply_at asks q"
      unfolding demand_pos [OF assms(1)] supply_pos [OF assms(2)] by blast+
    then have "0 < executable bids asks q" by (simp add: executable_def)
    also have "q \<in> set (all_prices bids asks)" unfolding all_prices_set using x(2) by force
    from b(4) [OF this] have "executable bids asks q \<le> matched_volume ?r" .
    finally show "is_valid ?r" by (simp only: v)
  qed
qed

theorem auction_valid_iff_crossed_witness:
  "is_valid (calculate_clearing_price [(11, 10)] [(11, 8)]) \<and> \<not> is_valid (calculate_clearing_price [(10, 10)] [(11, 8)])"
  using auction_valid_iff_crossed [of "[(11, 10)]" "[(11, 8)]"] auction_valid_iff_crossed [of "[(10, 10)]" "[(11, 8)]"]
  by (simp add: volumes_ok_def)

lemma clamped_volume_stale:
  \<comment> \<open>a price moved by the band keeps the volume of the price before: nothing can be executed at 105\<close>
  "let r = calculate_opening_auction [(110, 10)] [(110, 10)] (Some 100) 5
   in is_valid r \<and> clearing_price r = 105 \<and> matched_volume r = 10 \<and> executable [(110, 10)] [(110, 10)] (clearing_price r) = 0"
  by (simp add: calculate_opening_auction_def calculate_clearing_price_def all_prices_def demand_at_def supply_at_def
      improves_def AuctionResult_def executable_def Let_def)

lemma base_market_uses_widest_band:
  \<comment> \<open>with the defaults 5, 3 and 1.5 percent the band is five percent\<close>
  "let r = calculate_base_market_auction [(110, 10)] [(104, 10)] 100 5 3 (3 / 2)
   in limit_lower r = 95 \<and> limit_upper r = 105 \<and> clearing_price r = 104"
  by (simp add: calculate_base_market_auction_def calculate_clearing_price_def all_prices_def demand_at_def supply_at_def
      improves_def AuctionResult_def Let_def)

lemma partial_level_lost:
  \<comment> \<open>10 of 15 are matched, yet the unmatched 5 appear nowhere\<close>
  "let r = calculate_clearing_price [(10, 15)] [(10, 10)]
   in matched_volume r = 10 \<and> buy_volume r = 15 \<and> uncrossed_bids r = []"
  by (simp add: calculate_clearing_price_def all_prices_def demand_at_def supply_at_def improves_def AuctionResult_def Let_def)

lemma auction_price_in_band:
  "is_valid (calculate_clearing_price bids asks) \<Longrightarrow> 0 < ref \<Longrightarrow> 0 \<le> pct \<Longrightarrow>
   clearing_price (calculate_opening_auction bids asks (Some ref) pct) \<in> {ref - ref * (pct / 100) .. ref + ref * (pct / 100)}"
  by (auto simp: calculate_opening_auction_def Let_def)

end
