(* ===== verification/Feature_Graph.thy ===== *)
theory Feature_Graph
  imports Prelude "HOL-Library.List_Lexorder" "HOL-Library.Char_ord" "HOL-Library.Sublist"
begin

text \<open>
  The dependency graph of the features (\<open>FeatureGraph\<close> of \<open>backtesting/features/dag_engine.py\<close>): the
  depth-first topological sort with its three-valued \<open>visited\<close> dictionary, the dependency closure of
  \<open>subgraph\<close> and the levels.

  The nested functions recurse over the dependencies; \<open>limit\<close> is the recursion depth Python still
  allows, and a call beyond it is a \<open>RuntimeError\<close> (\<open>RecursionError\<close>). As many levels as there are
  nodes are enough, which the theorems state. Iterating a Python \<open>set\<close> yields its elements in an order
  the language leaves open: it is an argument (\<open>set_order\<close>).
\<close>

subsection \<open>Nodes and graphs\<close>

datatype feature_type = PRICE | VOLUME | MICROSTRUCTURE | DERIVED | ALPHA

datatype feature_arg = Scalar pyfloat | Array "pyfloat list"

record feature_node =
  fn_name :: string
  dependencies :: "string list"
  compute_fn :: "(feature_arg list \<Rightarrow> pyfloat option) option" \<comment> \<open>\<open>None\<close> inside: the call raises\<close>
  fn_type :: feature_type
  window :: int

record feature_graph =
  nodes :: "(string, feature_node) pydict"
  sorted_names :: "string list"

definition graph_init :: feature_graph where
  "graph_init = \<lparr>nodes = [], sorted_names = []\<rparr>"

definition add_node :: "feature_node \<Rightarrow> feature_graph \<Rightarrow> feature_graph" where
  "add_node nd g = g\<lparr>nodes := dict_set (fn_name nd) nd (nodes g), sorted_names := []\<rparr>"

definition add_many :: "feature_node list \<Rightarrow> feature_graph \<Rightarrow> feature_graph" where
  "add_many nds g = fold add_node nds g"

definition get_node :: "feature_graph \<Rightarrow> string \<Rightarrow> feature_node option" where
  "get_node g n = dict_get (nodes g) n"

definition names :: "feature_graph \<Rightarrow> string list" where
  "names g = dict_keys (nodes g)"

definition node_count :: "feature_graph \<Rightarrow> nat" where
  "node_count g = length (nodes g)"

definition deps_of :: "feature_graph \<Rightarrow> string \<Rightarrow> string list" where
  "deps_of g n = (case dict_get (nodes g) n of None \<Rightarrow> [] | Some nd \<Rightarrow> dependencies nd)"

definition node_deps :: "feature_graph \<Rightarrow> string \<Rightarrow> string list" where
  \<comment> \<open>the dependencies the search follows: those that are nodes\<close>
  "node_deps g n = filter (\<lambda>d. dict_get (nodes g) d \<noteq> None) (deps_of g n)"

subsection \<open>Topological sort\<close>

type_synonym visit_state = "(string, bool) pydict \<times> string list"

fun dfs_names :: "nat \<Rightarrow> feature_graph \<Rightarrow> string list \<Rightarrow> visit_state \<Rightarrow> py_error + visit_state" where
  \<comment> \<open>\<open>dfs\<close> called on each of the names in turn\<close>
  "dfs_names limit g [] st = Inr st"
| "dfs_names limit g (n # ns) (vis, ord) =
     (case dict_get vis n of
        Some False \<Rightarrow> Inl ValueError
      | Some True \<Rightarrow> dfs_names limit g ns (vis, ord)
      | None \<Rightarrow>
          (case limit of
             0 \<Rightarrow> Inl RuntimeError
           | Suc k \<Rightarrow>
               (case dfs_names k g (node_deps g n) (dict_set n False vis, ord) of
                  Inl e \<Rightarrow> Inl e
                | Inr (vis1, ord1) \<Rightarrow> dfs_names limit g ns (dict_set n True vis1, ord1 @ [n]))))"

fun sort_roots :: "nat \<Rightarrow> feature_graph \<Rightarrow> string list \<Rightarrow> visit_state \<Rightarrow> py_error + visit_state" where
  "sort_roots limit g [] st = Inr st"
| "sort_roots limit g (n # ns) (vis, ord) =
     (if dict_get vis n = None then
        (case dfs_names limit g [n] (vis, ord) of Inl e \<Rightarrow> Inl e | Inr st \<Rightarrow> sort_roots limit g ns st)
      else sort_roots limit g ns (vis, ord))"

definition topological_sort :: "nat \<Rightarrow> feature_graph \<Rightarrow> (py_error + string list) \<times> feature_graph" where
  "topological_sort limit g =
     (if sorted_names g \<noteq> [] then (Inr (sorted_names g), g)
      else case sort_roots limit g (names g) ([], []) of
        Inl e \<Rightarrow> (Inl e, g)
      | Inr (vis, ord) \<Rightarrow> (Inr ord, g\<lparr>sorted_names := ord\<rparr>))"

subsection \<open>Subgraphs\<close>

fun collect_deps :: "nat \<Rightarrow> feature_graph \<Rightarrow> string list \<Rightarrow> string list \<Rightarrow> py_error + string list" where
  \<comment> \<open>the loop of \<open>collect_deps\<close> over the dependencies of one node, \<open>required\<close> in order of discovery\<close>
  "collect_deps limit g [] req = Inr req"
| "collect_deps limit g (d # ds) req =
     (if d \<in> set req then collect_deps limit g ds req
      else case limit of
        0 \<Rightarrow> Inl RuntimeError
      | Suc k \<Rightarrow>
          (case collect_deps k g (deps_of g d) (req @ [d]) of
             Inl e \<Rightarrow> Inl e
           | Inr req1 \<Rightarrow> collect_deps limit g ds req1))"

fun collect_roots :: "nat \<Rightarrow> feature_graph \<Rightarrow> string list \<Rightarrow> string list \<Rightarrow> py_error + string list" where
  "collect_roots limit g [] req = Inr req"
| "collect_roots limit g (n # ns) req =
     (case collect_deps limit g (deps_of g n) req of Inl e \<Rightarrow> Inl e | Inr req1 \<Rightarrow> collect_roots limit g ns req1)"

definition subgraph :: "nat \<Rightarrow> (string list \<Rightarrow> string list) \<Rightarrow> string list \<Rightarrow> feature_graph \<Rightarrow> py_error + feature_graph" where
  "subgraph limit set_order ns g =
     (case collect_roots limit g ns (remdups ns) of
        Inl e \<Rightarrow> Inl e
      | Inr req \<Rightarrow> Inr (fold add_node (List.map_filter (get_node g) (set_order req)) graph_init))"

subsection \<open>Levels\<close>

fun depths :: "feature_graph \<Rightarrow> string list \<Rightarrow> (string, nat) pydict \<Rightarrow> py_error + (string, nat) pydict" where
  "depths g [] dp = Inr dp"
| "depths g (n # ns) dp =
     (case dict_get (nodes g) n of
        None \<Rightarrow> Inl KeyError
      | Some nd \<Rightarrow>
          if dependencies nd = [] then depths g ns (dict_set n 0 dp)
          else (case List.map_filter (dict_get dp) (dependencies nd) of
                  [] \<Rightarrow> Inl ValueError
                | x # xs \<Rightarrow> depths g ns (dict_set n (foldr max xs x + 1) dp)))"

definition level_groups :: "(string, nat) pydict \<Rightarrow> string list list" where
  "level_groups dp =
     map (\<lambda>k. sort (map fst (filter (\<lambda>(n, k'). k' = k) dp))) (sort (remdups (map snd dp)))"

definition levels :: "nat \<Rightarrow> feature_graph \<Rightarrow> (py_error + string list list) \<times> feature_graph" where
  "levels limit g =
     (case topological_sort limit g of
        (Inl e, g1) \<Rightarrow> (Inl e, g1)
      | (Inr ord, g1) \<Rightarrow>
          (case depths g1 ord [] of
             Inl e \<Rightarrow> (Inl e, g1)
           | Inr dp \<Rightarrow> (Inr (level_groups dp), g1)))"

subsection \<open>The search finds an order or a cycle\<close>

definition dep_rel :: "feature_graph \<Rightarrow> (string \<times> string) set" where
  "dep_rel g = {(n, d). d \<in> set (node_deps g n)}"

definition grey :: "(string, bool) pydict \<Rightarrow> string set" where
  "grey vis = {n. dict_get vis n = Some False}"

definition deps_first :: "feature_graph \<Rightarrow> string list \<Rightarrow> bool" where
  \<comment> \<open>every dependency that is a node comes before the name\<close>
  "deps_first g ord \<longleftrightarrow> (\<forall>i < length ord. set (node_deps g (ord ! i)) \<subseteq> set (take i ord))"

definition visit_ok :: "feature_graph \<Rightarrow> visit_state \<Rightarrow> bool" where
  "visit_ok g st \<longleftrightarrow> (case st of (vis, ord) \<Rightarrow>
     distinct ord \<and> deps_first g ord \<and> set ord \<subseteq> set (names g) \<and> (\<forall>n. dict_get vis n = Some True \<longleftrightarrow> n \<in> set ord))"

definition unvisited :: "feature_graph \<Rightarrow> (string, bool) pydict \<Rightarrow> string set" where
  "unvisited g vis = {n \<in> set (names g). dict_get vis n = None}"

lemma in_names [simp]: "n \<in> set (names g) \<longleftrightarrow> dict_get (nodes g) n \<noteq> None"
  by (auto simp: names_def map_of_eq_None_iff)

lemma node_deps_in_names: "d \<in> set (node_deps g n) \<Longrightarrow> d \<in> set (names g)"
  by (simp add: node_deps_def)

lemma deps_first_snoc: "deps_first g (ord @ [n]) \<longleftrightarrow> deps_first g ord \<and> set (node_deps g n) \<subseteq> set ord"
  by (auto simp: deps_first_def nth_append less_Suc_eq)

lemma grey_set [simp]:
  "grey (dict_set n False vis) = insert n (grey vis)" "grey (dict_set n True vis) = grey vis - {n}"
  by (auto simp: grey_def split: if_splits)

lemma unvisited_set: "unvisited g (dict_set n b vis) = unvisited g vis - {n}"
  by (auto simp: unvisited_def)

lemma finite_unvisited [simp]: "finite (unvisited g vis)"
  by (rule finite_subset [of _ "set (names g)"]) (auto simp: unvisited_def)

definition dfs_post :: "feature_graph \<Rightarrow> string list \<Rightarrow> visit_state \<Rightarrow> py_error + visit_state \<Rightarrow> bool" where
  "dfs_post g ns st res \<longleftrightarrow> (case res of
     Inl e \<Rightarrow> e = ValueError \<and> (\<exists>n. (n, n) \<in> (dep_rel g)\<^sup>+)
   | Inr (vis1, ord1) \<Rightarrow> visit_ok g (vis1, ord1) \<and> grey vis1 = grey (fst st) \<and> set ns \<subseteq> set ord1
       \<and> prefix (snd st) ord1 \<and> unvisited g vis1 \<subseteq> unvisited g (fst st))"

lemma dfs_names_post:
  assumes "visit_ok g (vis, ord)" "set ns \<subseteq> set (names g)" "card (unvisited g vis) \<le> limit"
    and "\<And>n m. n \<in> set ns \<Longrightarrow> m \<in> grey vis \<Longrightarrow> (m, n) \<in> (dep_rel g)\<^sup>+"
  shows "dfs_post g ns (vis, ord) (dfs_names limit g ns (vis, ord))"
  using assms
proof (induction limit g ns "(vis, ord)" arbitrary: vis ord rule: dfs_names.induct)
  case (1 limit g)
  then show ?case by (simp add: dfs_post_def)
next
  case (2 limit g n ns vis ord)
  note ok = 2(4)
  consider (cycle) "dict_get vis n = Some False" | (seen) "dict_get vis n = Some True" | (fresh) "dict_get vis n = None"
    by (cases "dict_get vis n") auto
  then show ?case
  proof cases
    case cycle
    then have "(n, n) \<in> (dep_rel g)\<^sup>+" using 2(7) by (simp add: grey_def)
    then show ?thesis using cycle by (auto simp: dfs_post_def)
  next
    case seen
    have "dfs_post g ns (vis, ord) (dfs_names limit g ns (vis, ord))"
      using 2(5-7) ok by (intro 2(3) [OF seen]) auto
    moreover have "n \<in> set ord" using ok seen by (simp add: visit_ok_def)
    ultimately show ?thesis using seen by (auto simp: dfs_post_def prefix_def split: sum.splits)
  next
    case fresh
    have nin: "n \<in> unvisited g vis" using fresh 2(5) by (simp add: unvisited_def)
    then have pos: "0 < card (unvisited g vis)" by (auto simp: card_gt_0_iff)
    with 2(6) obtain k where k: "limit = Suc k" by (cases limit) auto
    have ngrey: "n \<notin> grey vis" using fresh by (simp add: grey_def)
    have "dict_get vis n = Some True \<longleftrightarrow> n \<in> set ord" using ok by (simp add: visit_ok_def)
    with fresh have nord: "n \<notin> set ord" by simp
    let ?vis1 = "dict_set n False vis"
    have ok1: "visit_ok g (?vis1, ord)" using ok nord by (auto simp: visit_ok_def)
    have card1: "card (unvisited g ?vis1) \<le> k"
      using 2(6) nin k by (simp add: unvisited_set)
    have reach: "(m, d) \<in> (dep_rel g)\<^sup>+" if "d \<in> set (node_deps g n)" "m \<in> grey ?vis1" for d m
    proof -
      have nd: "(n, d) \<in> dep_rel g" using that(1) by (simp add: dep_rel_def)
      show ?thesis
      proof (cases "m = n")
        case False
        then have "(m, n) \<in> (dep_rel g)\<^sup>+" using that(2) by (intro 2(7)) simp_all
        with nd show ?thesis by (rule trancl_into_trancl [rotated])
      qed (use nd in simp)
    qed
    have post: "dfs_post g (node_deps g n) (?vis1, ord) (dfs_names k g (node_deps g n) (?vis1, ord))"
      using node_deps_in_names by (intro 2(1) [OF fresh k] ok1 card1 reach) blast+
    show ?thesis
    proof (cases "dfs_names k g (node_deps g n) (?vis1, ord)")
      case (Inl e)
      with post fresh k show ?thesis by (auto simp: dfs_post_def)
    next
      case (Inr st2)
      obtain vis2 ord2 where st2: "st2 = (vis2, ord2)" by (cases st2)
      note res = Inr [unfolded st2]
      from post have p: "visit_ok g (vis2, ord2)" "grey vis2 = insert n (grey vis)" "set (node_deps g n) \<subseteq> set ord2"
          "prefix ord ord2" "unvisited g vis2 \<subseteq> unvisited g vis - {n}"
        by (simp_all add: res dfs_post_def unvisited_set)
      have "dict_get vis2 n = Some True \<longleftrightarrow> n \<in> set ord2" using p(1) by (simp add: visit_ok_def)
      moreover have "dict_get vis2 n = Some False" using p(2) unfolding grey_def by blast
      ultimately have n2: "n \<notin> set ord2" by simp
      have ok2: "visit_ok g (dict_set n True vis2, ord2 @ [n])"
        using p(1,3) n2 2(5) by (auto simp: visit_ok_def deps_first_snoc)
      have g2: "grey (dict_set n True vis2) = grey vis" using p(2) ngrey by simp
      have u2: "unvisited g (dict_set n True vis2) \<subseteq> unvisited g vis - {n}" using p(5) by (auto simp: unvisited_set)
      then have "card (unvisited g (dict_set n True vis2)) \<le> card (unvisited g vis)" by (intro card_mono) auto
      then have card2: "card (unvisited g (dict_set n True vis2)) \<le> limit" using 2(6) by simp
      have "dfs_post g ns (dict_set n True vis2, ord2 @ [n]) (dfs_names limit g ns (dict_set n True vis2, ord2 @ [n]))"
        using 2(5,7) by (intro 2(2) [OF fresh k res refl] ok2 card2) (simp_all only: g2, auto)
      moreover have "dfs_names limit g (n # ns) (vis, ord) = dfs_names limit g ns (dict_set n True vis2, ord2 @ [n])"
        by (simp add: fresh k res)
      ultimately show ?thesis using g2 u2 p(4)
        by (auto simp: dfs_post_def prefix_def split: sum.splits)
    qed
  qed
qed

lemma sort_roots_post:
  assumes "visit_ok g st" "grey (fst st) = {}" "set ns \<subseteq> set (names g)" "card (unvisited g (fst st)) \<le> limit"
  shows "case sort_roots limit g ns st of
     Inl e \<Rightarrow> e = ValueError \<and> (\<exists>n. (n, n) \<in> (dep_rel g)\<^sup>+)
   | Inr (vis1, ord1) \<Rightarrow> visit_ok g (vis1, ord1) \<and> set (snd st) \<union> set ns \<subseteq> set ord1"
  using assms
proof (induction ns arbitrary: st)
  case (Cons n ns)
  obtain vis ord where st: "st = (vis, ord)" by (cases st)
  show ?case
  proof (cases "dict_get vis n")
    case None
    have post: "dfs_post g [n] (vis, ord) (dfs_names limit g [n] (vis, ord))"
      using Cons.prems by (intro dfs_names_post) (auto simp: st)
    show ?thesis
    proof (cases "dfs_names limit g [n] (vis, ord)")
      case (Inl e)
      with post None show ?thesis by (simp add: st dfs_post_def del: dfs_names.simps)
    next
      case (Inr st2)
      obtain vis2 ord2 where st2: "st2 = (vis2, ord2)" by (cases st2)
      from post have p: "visit_ok g (vis2, ord2)" "grey vis2 = grey vis" "n \<in> set ord2" "prefix ord ord2"
          "unvisited g vis2 \<subseteq> unvisited g vis" by (simp_all add: Inr st2 dfs_post_def del: dfs_names.simps)
      then have "card (unvisited g vis2) \<le> limit" using Cons.prems(4) card_mono [OF finite_unvisited p(5)] by (simp add: st)
      then have ih: "case sort_roots limit g ns (vis2, ord2) of
          Inl e \<Rightarrow> e = ValueError \<and> (\<exists>n. (n, n) \<in> (dep_rel g)\<^sup>+)
        | Inr (vis1, ord1) \<Rightarrow> visit_ok g (vis1, ord1) \<and> set ord2 \<union> set ns \<subseteq> set ord1"
        using Cons.IH [of "(vis2, ord2)"] Cons.prems p unfolding st fst_conv snd_conv by simp
      have "sort_roots limit g (n # ns) st = sort_roots limit g ns (vis2, ord2)"
        by (simp add: st None Inr st2 del: dfs_names.simps)
      with ih p(3,4) show ?thesis by (auto simp: st prefix_def split: sum.splits)
    qed
  next
    case (Some b)
    from Cons.prems(2) have "b = True" using Some by (cases b) (auto simp: grey_def st)
    then have "n \<in> set ord" using Some Cons.prems(1) by (simp add: visit_ok_def st)
    with Some Cons.IH [of st] Cons.prems show ?thesis by (auto simp: st split: sum.splits)
  qed
qed (auto split: sum.splits)

definition valid_order :: "feature_graph \<Rightarrow> string list \<Rightarrow> bool" where
  "valid_order g ord \<longleftrightarrow> distinct ord \<and> set ord = set (names g) \<and> deps_first g ord"

definition sorted_ok :: "feature_graph \<Rightarrow> bool" where
  \<comment> \<open>a remembered order is an order of the graph as it is\<close>
  "sorted_ok g \<longleftrightarrow> (sorted_names g \<noteq> [] \<longrightarrow> valid_order g (sorted_names g))"

lemma sorted_ok_add: "sorted_ok (add_node nd g)"
  by (simp add: sorted_ok_def add_node_def)

lemma dep_rel_source: "(n, d) \<in> dep_rel g \<Longrightarrow> n \<in> set (names g)"
  by (cases "dict_get (nodes g) n") (auto simp: dep_rel_def node_deps_def deps_of_def)

lemma deps_first_before:
  assumes "valid_order g ord" "(n, d) \<in> (dep_rel g)\<^sup>+" "i < length ord" "ord ! i = n"
  shows "\<exists>j < i. ord ! j = d"
  using assms(2,3,4)
proof (induction arbitrary: rule: trancl_induct)
  case (base d)
  then have "d \<in> set (take i ord)" using assms(1) by (auto simp: valid_order_def deps_first_def dep_rel_def)
  then show ?case using base.prems by (auto simp: in_set_conv_nth)
next
  case (step d e)
  then obtain j where j: "j < i" "ord ! j = d" by blast
  have "set (node_deps g (ord ! j)) \<subseteq> set (take j ord)"
    using assms(1) j(1) step.prems(1) by (simp add: valid_order_def deps_first_def)
  then have "e \<in> set (take j ord)" using step.hyps(2) j(2) by (auto simp: dep_rel_def)
  then show ?case using j step.prems by (auto simp: in_set_conv_nth) (use order.strict_trans in blast)
qed

lemma valid_order_acyclic:
  assumes "valid_order g ord"
  shows "acyclic (dep_rel g)"
proof (rule acyclicI, intro allI notI)
  fix n assume c: "(n, n) \<in> (dep_rel g)\<^sup>+"
  then obtain m where "(n, m) \<in> dep_rel g" by (meson tranclD)
  then have "n \<in> set ord" using dep_rel_source assms by (simp add: valid_order_def)
  then obtain i where i: "i < length ord" "ord ! i = n" by (auto simp: in_set_conv_nth)
  from deps_first_before [OF assms c i] obtain j where "j < i" "ord ! j = n" by blast
  with i assms show False by (auto simp: valid_order_def distinct_conv_nth)
qed

lemma topological_sort_cases:
  assumes "sorted_ok g" "node_count g \<le> limit"
  shows "case topological_sort limit g of
     (Inr ord, g1) \<Rightarrow> valid_order g ord \<and> nodes g1 = nodes g \<and> sorted_ok g1 \<and> (ord = [] \<or> sorted_names g1 = ord)
   | (Inl e, g1) \<Rightarrow> e = ValueError \<and> \<not> acyclic (dep_rel g) \<and> g1 = g"
proof (cases "sorted_names g = []")
  case False
  with assms(1) show ?thesis by (simp add: topological_sort_def sorted_ok_def)
next
  case True
  have "card (unvisited g []) \<le> card (set (names g))" by (intro card_mono) (auto simp: unvisited_def)
  also have "\<dots> \<le> limit" using assms(2) card_length [of "names g"] by (simp add: node_count_def names_def)
  finally have post: "case sort_roots limit g (names g) ([], []) of
     Inl e \<Rightarrow> e = ValueError \<and> (\<exists>n. (n, n) \<in> (dep_rel g)\<^sup>+)
   | Inr (vis1, ord1) \<Rightarrow> visit_ok g (vis1, ord1) \<and> set (snd ([] :: (string \<times> bool) list, [] :: string list)) \<union> set (names g) \<subseteq> set ord1"
    by (intro sort_roots_post) (auto simp: visit_ok_def deps_first_def grey_def)
  show ?thesis
  proof (cases "sort_roots limit g (names g) ([], [])")
    case (Inl e)
    with post show ?thesis by (auto simp: topological_sort_def True acyclic_def)
  next
    case (Inr st)
    obtain vis ord where st: "st = (vis, ord)" by (cases st)
    with post Inr have v: "valid_order g ord" by (auto simp: valid_order_def visit_ok_def)
    moreover have "valid_order (g\<lparr>sorted_names := ord\<rparr>) ord = valid_order g ord"
      by (simp add: valid_order_def deps_first_def node_deps_def deps_of_def names_def)
    ultimately show ?thesis by (simp add: topological_sort_def True Inr st sorted_ok_def)
  qed
qed

text \<open>C8: the topological sort decides: with a recursion limit of as many levels as there are nodes it
  returns, in every order listing each node once and after all its dependencies that are nodes, or
  raises ValueError, and it raises exactly when the dependencies have a cycle.\<close>

theorem topological_sort_decides:
  assumes "sorted_ok g" and "node_count g \<le> limit"
  shows "(case fst (topological_sort limit g) of
      Inr ord \<Rightarrow> acyclic (dep_rel g) \<and> distinct ord \<and> set ord = set (names g)
        \<and> (\<forall>i < length ord. set (node_deps g (ord ! i)) \<subseteq> set (take i ord))
    | Inl e \<Rightarrow> e = ValueError \<and> \<not> acyclic (dep_rel g))
    \<and> sorted_ok (snd (topological_sort limit g))"
proof -
  obtain r g1 where t: "topological_sort limit g = (r, g1)" by (cases "topological_sort limit g")
  show ?thesis
  proof (cases r)
    case (Inl e)
    with topological_sort_cases [OF assms] assms(1) show ?thesis by (simp add: t)
  next
    case (Inr ord)
    with topological_sort_cases [OF assms] have "valid_order g ord" "sorted_ok g1" by (simp_all add: t)
    with valid_order_acyclic [of g ord] show ?thesis by (simp add: t Inr valid_order_def deps_first_def)
  qed
qed

definition demo_node :: "string \<Rightarrow> string list \<Rightarrow> feature_node" where
  "demo_node n ds = \<lparr>fn_name = n, dependencies = ds, compute_fn = None, fn_type = DERIVED, window = 0\<rparr>"

theorem topological_sort_decides_witness:
  "acyclic (dep_rel (add_many [demo_node ''c'' [''a'', ''b''], demo_node ''b'' [''a''], demo_node ''a'' [''x'']] graph_init))
   \<and> \<not> acyclic (dep_rel (add_many [demo_node ''a'' [''b''], demo_node ''b'' [''a'']] graph_init))"
proof -
  let ?g = "add_many [demo_node ''c'' [''a'', ''b''], demo_node ''b'' [''a''], demo_node ''a'' [''x'']] graph_init"
  let ?h = "add_many [demo_node ''a'' [''b''], demo_node ''b'' [''a'']] graph_init"
  have "fst (topological_sort 3 ?g) = Inr [''a'', ''b'', ''c'']" "fst (topological_sort 2 ?h) = Inl ValueError"
    by (simp_all add: topological_sort_def add_many_def add_node_def graph_init_def demo_node_def names_def node_deps_def
        deps_of_def numeral_eq_Suc)
  then show ?thesis
    using topological_sort_decides [of ?g 3] topological_sort_decides [of ?h 2]
    by (simp add: add_many_def sorted_ok_add node_count_def) (simp add: add_node_def graph_init_def demo_node_def)
qed

subsection \<open>The subgraph is the dependency closure\<close>

definition edges :: "feature_graph \<Rightarrow> (string \<times> string) set" where
  \<comment> \<open>all dependencies, nodes or data\<close>
  "edges g = {(n, d). d \<in> set (deps_of g n)}"

definition all_deps :: "feature_graph \<Rightarrow> string set" where
  "all_deps g = (\<Union>n \<in> set (names g). set (deps_of g n))"

lemma deps_in_all: "set (deps_of g n) \<subseteq> all_deps g"
proof (cases "n \<in> set (names g)")
  case True
  then show ?thesis unfolding all_deps_def by blast
qed (simp add: deps_of_def)

lemma finite_all_deps [simp]: "finite (all_deps g - A)"
  by (simp add: all_deps_def)

definition closure_post :: "feature_graph \<Rightarrow> string list \<Rightarrow> string list \<Rightarrow> py_error + string list \<Rightarrow> bool" where
  \<comment> \<open>what is new is reachable, and the dependencies of what is new are in\<close>
  "closure_post g ds req res \<longleftrightarrow> (\<exists>r. res = Inr r \<and> set req \<union> set ds \<subseteq> set r
     \<and> (\<forall>x \<in> set r - set req. set (deps_of g x) \<subseteq> set r) \<and> set r \<subseteq> set req \<union> (edges g)\<^sup>* `` set ds)"

lemma closure_union:
  "X = E `` {d} \<union> E `` D \<Longrightarrow> d \<in> E `` {d} \<Longrightarrow> R1 \<subseteq> Q \<union> {d} \<union> E `` C \<Longrightarrow> R \<subseteq> R1 \<union> E `` D \<Longrightarrow>
   E `` C \<subseteq> E `` {d} \<Longrightarrow> R \<subseteq> Q \<union> X"
  by blast

lemma collect_deps_post:
  "set ds \<subseteq> all_deps g \<Longrightarrow> card (all_deps g - set req) \<le> limit \<Longrightarrow> closure_post g ds req (collect_deps limit g ds req)"
proof (induction limit g ds req rule: collect_deps.induct)
  case (1 limit g req)
  then show ?case by (simp add: closure_post_def)
next
  case (2 limit g d ds req)
  show ?case
  proof (cases "d \<in> set req")
    case True
    with 2(1) [OF True] 2(4,5) obtain r where "collect_deps limit g ds req = Inr r" "set req \<union> set ds \<subseteq> set r"
        "\<forall>x \<in> set r - set req. set (deps_of g x) \<subseteq> set r" "set r \<subseteq> set req \<union> (edges g)\<^sup>* `` set ds"
      by (auto simp: closure_post_def)
    with True show ?thesis by (auto simp: closure_post_def)
  next
    case False
    have dA: "d \<in> all_deps g - set req" using 2(4) False by simp
    then have "0 < card (all_deps g - set req)" by (auto simp: card_gt_0_iff)
    with 2(5) have "limit \<noteq> 0" by linarith
    then obtain k where k: "limit = Suc k" by (cases limit) auto
    have "all_deps g - set (req @ [d]) = (all_deps g - set req) - {d}" by auto
    with dA 2(5) k have "card (all_deps g - set (req @ [d])) \<le> k" by simp
    from 2(2) [OF False k deps_in_all this] obtain r1 where r1: "collect_deps k g (deps_of g d) (req @ [d]) = Inr r1"
        "set (req @ [d]) \<union> set (deps_of g d) \<subseteq> set r1" "\<forall>x \<in> set r1 - set (req @ [d]). set (deps_of g x) \<subseteq> set r1"
        "set r1 \<subseteq> set (req @ [d]) \<union> (edges g)\<^sup>* `` set (deps_of g d)"
      unfolding closure_post_def by blast
    have "card (all_deps g - set r1) \<le> card (all_deps g - set req)" using r1(2) by (intro card_mono) auto
    then have "card (all_deps g - set r1) \<le> limit" using 2(5) by simp
    with 2(3) [OF False k r1(1)] 2(4) obtain r where r: "collect_deps limit g ds r1 = Inr r" "set r1 \<union> set ds \<subseteq> set r"
        "\<forall>x \<in> set r - set r1. set (deps_of g x) \<subseteq> set r" "set r \<subseteq> set r1 \<union> (edges g)\<^sup>* `` set ds"
      unfolding closure_post_def by auto
    have up: "(edges g)\<^sup>* `` set (deps_of g d) \<subseteq> (edges g)\<^sup>* `` {d}"
      by (auto simp: edges_def intro: converse_rtrancl_into_rtrancl)
    moreover have "(edges g)\<^sup>* `` set (d # ds) = (edges g)\<^sup>* `` {d} \<union> (edges g)\<^sup>* `` set ds" by auto
    moreover have "d \<in> (edges g)\<^sup>* `` {d}" by simp
    moreover have "set r1 \<subseteq> set req \<union> {d} \<union> (edges g)\<^sup>* `` set (deps_of g d)" using r1(4) by simp
    ultimately have "set r \<subseteq> set req \<union> (edges g)\<^sup>* `` set (d # ds)" using r(4) up by (metis closure_union)
    moreover have "\<forall>x \<in> set r - set req. set (deps_of g x) \<subseteq> set r"
    proof
      fix x assume x: "x \<in> set r - set req"
      consider "x \<notin> set r1" | "x = d" | "x \<in> set r1 - set (req @ [d])" using x by auto
      then show "set (deps_of g x) \<subseteq> set r" using x r(2,3) r1(2,3) by cases auto
    qed
    ultimately show ?thesis using r(1,2) r1(1,2) False k by (auto simp: closure_post_def)
  qed
qed

lemma collect_roots_post:
  "card (all_deps g - set req) \<le> limit \<Longrightarrow>
   \<exists>r. collect_roots limit g ns req = Inr r \<and> set req \<subseteq> set r \<and> (\<forall>x \<in> set r - set req \<union> set ns. set (deps_of g x) \<subseteq> set r)
     \<and> set r \<subseteq> set req \<union> (edges g)\<^sup>* `` set ns"
proof (induction ns arbitrary: req)
  case (Cons n ns)
  from collect_deps_post [OF deps_in_all Cons.prems, of n] obtain r1 where r1:
    "collect_deps limit g (deps_of g n) req = Inr r1" "set req \<union> set (deps_of g n) \<subseteq> set r1"
    "\<forall>x \<in> set r1 - set req. set (deps_of g x) \<subseteq> set r1" "set r1 \<subseteq> set req \<union> (edges g)\<^sup>* `` set (deps_of g n)"
    unfolding closure_post_def by blast
  have "card (all_deps g - set r1) \<le> card (all_deps g - set req)" using r1(2) by (intro card_mono) auto
  then have "card (all_deps g - set r1) \<le> limit" using Cons.prems by simp
  from Cons.IH [OF this] obtain r where r: "collect_roots limit g ns r1 = Inr r" "set r1 \<subseteq> set r"
    "\<forall>x \<in> set r - set r1 \<union> set ns. set (deps_of g x) \<subseteq> set r" "set r \<subseteq> set r1 \<union> (edges g)\<^sup>* `` set ns" by blast
  have up: "(edges g)\<^sup>* `` set (deps_of g n) \<subseteq> (edges g)\<^sup>* `` {n}"
    by (auto simp: edges_def intro: converse_rtrancl_into_rtrancl)
  moreover have "(edges g)\<^sup>* `` set (n # ns) = (edges g)\<^sup>* `` {n} \<union> (edges g)\<^sup>* `` set ns" by auto
  ultimately have "set r \<subseteq> set req \<union> (edges g)\<^sup>* `` set (n # ns)" using r(4) r1(4) by blast
  moreover have "\<forall>x \<in> set r - set req \<union> set (n # ns). set (deps_of g x) \<subseteq> set r"
  proof
    fix x assume x: "x \<in> set r - set req \<union> set (n # ns)"
    consider "x \<in> set r - set r1 \<union> set ns" | "x \<in> set r1 - set req" | "x = n" using x by auto
    then show "set (deps_of g x) \<subseteq> set r" using r(2,3) r1(2,3) by cases blast+
  qed
  ultimately show ?case using r(1,2) r1(1,2) by auto
qed simp

definition keyed :: "feature_graph \<Rightarrow> bool" where
  "keyed g \<longleftrightarrow> (\<forall>n nd. dict_get (nodes g) n = Some nd \<longrightarrow> fn_name nd = n)"

lemma keyed_init [simp]: "keyed graph_init"
  by (simp add: keyed_def graph_init_def)

lemma keyed_add: "keyed g \<Longrightarrow> keyed (add_node nd g)"
  by (auto simp: keyed_def add_node_def split: if_splits)

lemma keyed_add_many: "keyed g \<Longrightarrow> keyed (add_many nds g)"
  unfolding add_many_def by (induction nds arbitrary: g) (simp_all add: keyed_add)

lemma get_node_add_found:
  assumes "keyed g"
  shows "get_node (fold add_node (List.map_filter (get_node g) xs) h) n =
    (if n \<in> set xs \<and> get_node g n \<noteq> None then get_node g n else get_node h n)"
proof (induction xs arbitrary: h)
  case (Cons x xs)
  show ?case
  proof (cases "get_node g x")
    case (Some nd)
    then have "fn_name nd = x" using assms by (simp add: keyed_def get_node_def)
    then have "get_node (add_node nd h) n = (if n = x then Some nd else get_node h n)"
      by (simp add: get_node_def add_node_def)
    with Cons Some show ?thesis by (auto simp: map_filter_simps)
  qed (auto simp: Cons map_filter_simps)
qed (simp add: map_filter_simps)

text \<open>A subgraph is the dependency closure: with a recursion limit of as many levels as there are
  dependency names it is always built, and it holds exactly those nodes of the graph, unchanged, that
  are asked for or are reached from one asked for by dependencies, in whatever order the set of names
  is iterated.\<close>

theorem subgraph_is_closure:
  assumes "keyed g" and "card (all_deps g) \<le> limit" and "\<And>xs. set (set_order xs) = set xs"
  shows "\<exists>sub. subgraph limit set_order ns g = Inr sub
    \<and> (\<forall>n. get_node sub n = (if n \<in> (edges g)\<^sup>* `` set ns then get_node g n else None))"
proof -
  have "card (all_deps g - set (remdups ns)) \<le> card (all_deps g)" by (rule card_mono) (auto simp: all_deps_def)
  with assms(2) have "card (all_deps g - set (remdups ns)) \<le> limit" by simp
  from collect_roots_post [OF this] obtain r where r: "collect_roots limit g ns (remdups ns) = Inr r" "set ns \<subseteq> set r"
    "\<forall>x \<in> set r. set (deps_of g x) \<subseteq> set r" "set r \<subseteq> set ns \<union> (edges g)\<^sup>* `` set ns" by force
  have "y \<in> set r" if "(x, y) \<in> (edges g)\<^sup>*" "x \<in> set ns" for x y
    using that by (induction rule: rtrancl_induct) (use r(2,3) in \<open>auto simp: edges_def\<close>)
  then have "set r = (edges g)\<^sup>* `` set ns" using r(4) by auto
  then show ?thesis
    using get_node_add_found [OF assms(1), of "set_order r" graph_init]
    by (auto simp: subgraph_def r(1) assms(3)) (simp_all add: get_node_def graph_init_def)
qed

theorem subgraph_is_closure_witness:
  "\<exists>sub. subgraph 9 (\<lambda>xs. xs) [''c''] (add_many [demo_node ''c'' [''b''], demo_node ''b'' [''x''], demo_node ''a'' []] graph_init) = Inr sub
     \<and> get_node sub ''b'' = Some (demo_node ''b'' [''x''])"
proof -
  let ?g = "add_many [demo_node ''c'' [''b''], demo_node ''b'' [''x''], demo_node ''a'' []] graph_init"
  have e: "edges ?g = {(''c'', ''b''), (''b'', ''x'')}"
    by (auto simp: edges_def deps_of_def add_many_def add_node_def graph_init_def demo_node_def split: if_splits)
  have "all_deps ?g = {''b'', ''x''}"
    by (auto simp: all_deps_def names_def deps_of_def add_many_def add_node_def graph_init_def demo_node_def)
  then have "card (all_deps ?g) \<le> 9" by simp
  moreover have "(''c'', ''b'') \<in> (edges ?g)\<^sup>*" by (simp add: e r_into_rtrancl)
  moreover have "get_node ?g ''b'' = Some (demo_node ''b'' [''x''])"
    by (simp add: get_node_def add_many_def add_node_def graph_init_def demo_node_def)
  ultimately show ?thesis
    using subgraph_is_closure [of ?g 9 "\<lambda>xs. xs" "[''c'']"] keyed_add_many [OF keyed_init] by auto
qed

subsection \<open>Levels\<close>

definition sourceless :: "feature_graph \<Rightarrow> string \<Rightarrow> bool" where
  \<comment> \<open>a node whose dependencies are all data, not nodes\<close>
  "sourceless g n \<longleftrightarrow> deps_of g n \<noteq> [] \<and> node_deps g n = []"

definition depth_ok :: "feature_graph \<Rightarrow> string set \<Rightarrow> (string, nat) pydict \<Rightarrow> bool" where
  "depth_ok g seen dp \<longleftrightarrow> dict_ok dp \<and> (\<forall>n. dict_get dp n \<noteq> None \<longleftrightarrow> n \<in> seen)
     \<and> (\<forall>n \<in> seen. \<forall>d \<in> set (node_deps g n). \<exists>i j. dict_get dp d = Some i \<and> dict_get dp n = Some j \<and> i < j)"

lemma le_foldr_max: "(y :: nat) = x \<or> y \<in> set xs \<Longrightarrow> y \<le> foldr max xs x"
  by (induction xs) (auto simp: le_max_iff_disj)

lemma map_filter_known:
  assumes "\<And>d. dict_get dp d \<noteq> None \<longleftrightarrow> d \<in> seen" "set (node_deps g n) \<subseteq> seen" "seen \<subseteq> set (names g)"
  shows "List.map_filter (dict_get dp) (deps_of g n) = List.map_filter (dict_get dp) (node_deps g n)"
proof -
  have "List.map_filter (dict_get dp) ds = List.map_filter (dict_get dp) (filter (\<lambda>d. dict_get (nodes g) d \<noteq> None) ds)" for ds
  proof (induction ds)
    case (Cons d ds)
    have "dict_get dp d = None" if "dict_get (nodes g) d = None"
      using that assms(1) [of d] assms(3) in_names [of d g] by blast
    with Cons show ?case by (cases "dict_get (nodes g) d"; cases "dict_get dp d") (simp_all add: map_filter_simps)
  qed simp
  then show ?thesis by (simp add: node_deps_def)
qed

lemma depths_step:
  assumes "dict_get (nodes g) n = Some nd" "depth_ok g seen dp" "set (node_deps g n) \<subseteq> seen" "n \<notin> seen" "seen \<subseteq> set (names g)"
  shows "depths g (n # ns) dp = (if sourceless g n then Inl ValueError else depths g (n # ns) dp)"
    "\<not> sourceless g n \<Longrightarrow> \<exists>k. depths g (n # ns) dp = depths g ns (dict_set n k dp) \<and> depth_ok g (insert n seen) (dict_set n k dp)"
proof -
  have d: "deps_of g n = dependencies nd" using assms(1) by (simp add: deps_of_def)
  have known: "\<And>d. dict_get dp d \<noteq> None \<longleftrightarrow> d \<in> seen" using assms(2) by (simp add: depth_ok_def)
  have mf: "List.map_filter (dict_get dp) (dependencies nd) = List.map_filter (dict_get dp) (node_deps g n)"
    using map_filter_known [OF known assms(3,5)] d by simp
  show "depths g (n # ns) dp = (if sourceless g n then Inl ValueError else depths g (n # ns) dp)"
    using assms(1) by (simp add: sourceless_def d mf map_filter_simps)
  assume ns: "\<not> sourceless g n"
  have keep: "depth_ok g (insert n seen) (dict_set n k dp)"
    if "\<forall>d \<in> set (node_deps g n). \<exists>i. dict_get dp d = Some i \<and> i < k" for k
  proof -
    have "\<exists>i j. dict_get (dict_set n k dp) d = Some i \<and> dict_get (dict_set n k dp) m = Some j \<and> i < j"
      if m: "m \<in> insert n seen" and dm: "d \<in> set (node_deps g m)" for m d
    proof (cases "m = n")
      case True
      with dm assms(3,4) have "d \<noteq> n" by auto
      with True dm \<open>\<forall>d \<in> set (node_deps g n). \<exists>i. dict_get dp d = Some i \<and> i < k\<close> show ?thesis by simp
    next
      case False
      with m dm assms(2) obtain i j where ij: "dict_get dp d = Some i" "dict_get dp m = Some j" "i < j"
        unfolding depth_ok_def by blast
      with known [of d] assms(4) have "d \<noteq> n" by auto
      with False ij show ?thesis by simp
    qed
    with assms(2) show ?thesis by (simp add: depth_ok_def)
  qed
  show "\<exists>k. depths g (n # ns) dp = depths g ns (dict_set n k dp) \<and> depth_ok g (insert n seen) (dict_set n k dp)"
  proof (cases "dependencies nd = []")
    case True
    then have "node_deps g n = []" by (simp add: node_deps_def d)
    with True assms(1) keep [of 0] show ?thesis by (intro exI [of _ 0]) simp
  next
    case False
    with ns have "node_deps g n \<noteq> []" by (simp add: sourceless_def d)
    then obtain e es where e: "node_deps g n = e # es" by (cases "node_deps g n") auto
    with assms(3) known [of e] obtain x where x: "dict_get dp e = Some x" by auto
    define xs where "xs = List.map_filter (dict_get dp) es"
    have l: "List.map_filter (dict_get dp) (dependencies nd) = x # xs" by (simp add: mf e x xs_def map_filter_simps)
    have "\<exists>i. dict_get dp d = Some i \<and> i < foldr max xs x + 1" if "d \<in> set (node_deps g n)" for d
    proof -
      from that assms(3) known [of d] obtain i where i: "dict_get dp d = Some i" by auto
      then have "i \<in> set (List.map_filter (dict_get dp) (node_deps g n))"
        using that by (force simp: List.map_filter_def)
      then have "i = x \<or> i \<in> set xs" by (simp add: mf [symmetric] l)
      from le_foldr_max [OF this] i show ?thesis by auto
    qed
    with keep [of "foldr max xs x + 1"] False assms(1) l show ?thesis
      by (intro exI [of _ "foldr max xs x + 1"]) simp
  qed
qed

lemma depths_result:
  "deps_first g (seen @ ns) \<Longrightarrow> distinct (seen @ ns) \<Longrightarrow> set (seen @ ns) \<subseteq> set (names g) \<Longrightarrow> depth_ok g (set seen) dp \<Longrightarrow>
   (case depths g ns dp of
      Inl e \<Rightarrow> e = ValueError \<and> (\<exists>n \<in> set ns. sourceless g n)
    | Inr dp1 \<Rightarrow> (\<forall>n \<in> set ns. \<not> sourceless g n) \<and> depth_ok g (set seen \<union> set ns) dp1)"
proof (induction ns arbitrary: seen dp)
  case (Cons n ns)
  obtain nd where nd: "dict_get (nodes g) n = Some nd" using Cons.prems(3) by auto
  have before: "set (node_deps g n) \<subseteq> set seen"
    using Cons.prems(1) by (auto simp: deps_first_def dest!: spec [of _ "length seen"])
  have new: "n \<notin> set seen" using Cons.prems(2) by simp
  have sub: "set seen \<subseteq> set (names g)" using Cons.prems(3) by simp
  note step = depths_step [OF nd Cons.prems(4) before new sub, of ns]
  show ?case
  proof (cases "sourceless g n")
    case True
    with step(1) have "depths g (n # ns) dp = Inl ValueError" by (simp del: depths.simps)
    with True show ?thesis by (simp del: depths.simps)
  next
    case False
    from step(2) [OF this] obtain k where k: "depths g (n # ns) dp = depths g ns (dict_set n k dp)"
      "depth_ok g (set (seen @ [n])) (dict_set n k dp)" by auto
    with Cons.IH [of "seen @ [n]" "dict_set n k dp"] Cons.prems False show ?thesis
      by (simp del: depths.simps split: sum.splits)
  qed
qed simp

lemma sourceless_node: "sourceless g n \<Longrightarrow> n \<in> set (names g)"
  by (cases "dict_get (nodes g) n") (auto simp: sourceless_def deps_of_def)

lemma level_groups_elem:
  assumes "dict_ok dp" "i < length (level_groups dp)"
  shows "n \<in> set (level_groups dp ! i) \<longleftrightarrow> dict_get dp n = Some (sort (remdups (map snd dp)) ! i)"
  using assms by (force simp: level_groups_def dict_ok_entry [symmetric])

lemma level_of:
  assumes "dict_ok dp" "dict_get dp n = Some k"
  obtains i where "i < length (level_groups dp)" "sort (remdups (map snd dp)) ! i = k"
proof -
  have "k \<in> set (sort (remdups (map snd dp)))"
    using assms(2) by (force simp: dict_ok_entry [OF assms(1), symmetric])
  then obtain i where "i < length (sort (remdups (map snd dp)))" "sort (remdups (map snd dp)) ! i = k"
    unfolding in_set_conv_nth by blast
  then show ?thesis by (intro that [of i]) (simp_all add: level_groups_def)
qed

lemma level_groups_partition:
  assumes "dict_ok dp"
  shows "distinct (concat (level_groups dp))" "set (concat (level_groups dp)) = {n. dict_get dp n \<noteq> None}"
proof -
  note elem = level_groups_elem [OF assms]
  let ?ks = "sort (remdups (map snd dp))"
  have len: "length (level_groups dp) = length ?ks" by (simp add: level_groups_def)
  have "\<exists>n. n \<in> set (level_groups dp ! i)" if "i < length (level_groups dp)" for i
  proof -
    have "?ks ! i \<in> set ?ks" using that len by (intro nth_mem) simp
    then obtain n where "(n, ?ks ! i) \<in> set dp" by auto
    then show ?thesis using elem [OF that] dict_get_in [OF assms] by blast
  qed
  then have "i = j" if "i < length (level_groups dp)" "j < length (level_groups dp)"
      "level_groups dp ! i = level_groups dp ! j" for i j
    using that elem [OF that(1)] elem [OF that(2)] len distinct_conv_nth [of ?ks] by (metis distinct_remdups distinct_sort option.inject)
  then have dist: "distinct (level_groups dp)" by (auto simp: distinct_conv_nth)
  show "distinct (concat (level_groups dp))"
  proof (rule distinct_concat [OF dist])
    show "distinct ys" if "ys \<in> set (level_groups dp)" for ys
      using that assms by (auto simp: level_groups_def dict_ok_def intro: distinct_map_filter)
    show "set ys \<inter> set zs = {}" if "ys \<in> set (level_groups dp)" "zs \<in> set (level_groups dp)" "ys \<noteq> zs" for ys zs
    proof -
      from that obtain i j where ij: "i < length (level_groups dp)" "j < length (level_groups dp)"
        "ys = level_groups dp ! i" "zs = level_groups dp ! j" by (metis in_set_conv_nth)
      with that(3) have "?ks ! i \<noteq> ?ks ! j" by (metis distinct_conv_nth distinct_remdups distinct_sort len)
      with ij elem show ?thesis by auto
    qed
  qed
  show "set (concat (level_groups dp)) = {n. dict_get dp n \<noteq> None}"
  proof (intro equalityI subsetI)
    fix n assume "n \<in> set (concat (level_groups dp))"
    then obtain i where "i < length (level_groups dp)" "n \<in> set (level_groups dp ! i)"
      by (metis UN_E in_set_conv_nth set_concat)
    with elem show "n \<in> {n. dict_get dp n \<noteq> None}" by simp
  next
    fix n assume "n \<in> {n. dict_get dp n \<noteq> None}"
    then obtain k where k: "dict_get dp n = Some k" by auto
    from level_of [OF assms this] obtain i where i: "i < length (level_groups dp)" "?ks ! i = k" .
    with elem k have "n \<in> set (level_groups dp ! i)" by simp
    with nth_mem [OF i(1)] show "n \<in> set (concat (level_groups dp))" by auto
  qed
qed

lemma level_groups_ordered:
  assumes "dict_ok dp" "i < length (level_groups dp)" "n \<in> set (level_groups dp ! i)"
    and "dict_get dp n = Some b" "dict_get dp d = Some a" "a < b"
  shows "\<exists>j < i. d \<in> set (level_groups dp ! j)"
proof -
  let ?ks = "sort (remdups (map snd dp))"
  have b: "?ks ! i = b" using level_groups_elem [OF assms(1,2)] assms(3,4) by simp
  obtain j where j: "j < length (level_groups dp)" "?ks ! j = a" using level_of [OF assms(1,5)] .
  have "j < i"
  proof (rule ccontr)
    assume "\<not> j < i"
    then have "?ks ! i \<le> ?ks ! j" using j(1) by (intro sorted_nth_mono) (simp_all add: level_groups_def)
    with b j(2) assms(6) show False by simp
  qed
  then show ?thesis using level_groups_elem [OF assms(1) j(1)] j(2) assms(5) by blast
qed

text \<open>Levels group the features for parallel evaluation: the groups partition the nodes and every
  dependency of a node that is a node lies in an earlier group; but the call raises ValueError exactly
  when the dependencies have a cycle or some node depends on data only, that is on names that are no
  nodes.\<close>

theorem levels_partition:
  assumes "sorted_ok g" and "node_count g \<le> limit"
  shows "case fst (levels limit g) of
      Inl e \<Rightarrow> e = ValueError \<and> (\<not> acyclic (dep_rel g) \<or> (\<exists>n. sourceless g n))
    | Inr ls \<Rightarrow> acyclic (dep_rel g) \<and> (\<forall>n. \<not> sourceless g n)
        \<and> distinct (concat ls) \<and> set (concat ls) = set (names g)
        \<and> (\<forall>i < length ls. \<forall>n \<in> set (ls ! i). \<forall>d \<in> set (node_deps g n). \<exists>j < i. d \<in> set (ls ! j))"
proof -
  obtain r g1 where t: "topological_sort limit g = (r, g1)" by (cases "topological_sort limit g")
  show ?thesis
  proof (cases r)
    case (Inl e)
    with topological_sort_cases [OF assms] show ?thesis by (simp add: levels_def t)
  next
    case (Inr ord)
    with topological_sort_cases [OF assms] have v: "valid_order g ord" and n1: "nodes g1 = nodes g" by (simp_all add: t)
    have same: "depths g1 ns dp = depths g ns dp" for ns dp by (induction ns arbitrary: dp) (simp_all add: n1 split: list.split option.split)
    have d: "case depths g ord [] of Inl e \<Rightarrow> e = ValueError \<and> (\<exists>n \<in> set ord. sourceless g n)
        | Inr dp1 \<Rightarrow> (\<forall>n \<in> set ord. \<not> sourceless g n) \<and> depth_ok g (set ord) dp1"
      using depths_result [of g "[]" ord "[]"] v by (simp add: valid_order_def depth_ok_def split: sum.splits)
    show ?thesis
    proof (cases "depths g ord []")
      case (Inl e)
      with d show ?thesis by (auto simp: levels_def t Inr same)
    next
      case dp: (Inr dp)
      with d have ok: "depth_ok g (set ord) dp" and ns: "\<forall>n \<in> set ord. \<not> sourceless g n" by simp_all
      have no: "\<not> sourceless g n" for n using ns v sourceless_node by (auto simp: valid_order_def)
      have ls: "fst (levels limit g) = Inr (level_groups dp)" by (simp add: levels_def t Inr same dp)
      have dok: "dict_ok dp" and dom: "{n. dict_get dp n \<noteq> None} = set (names g)"
        using ok v unfolding depth_ok_def valid_order_def by blast+
      note groups = level_groups_partition [OF dok, unfolded dom]
      have "\<exists>j < i. d \<in> set (level_groups dp ! j)"
        if i: "i < length (level_groups dp)" and n: "n \<in> set (level_groups dp ! i)" and dd: "d \<in> set (node_deps g n)" for i n d
      proof -
        have "n \<in> set ord" using groups(2) nth_mem [OF i] n v by (auto simp: valid_order_def)
        with ok dd obtain a b where "dict_get dp d = Some a" "dict_get dp n = Some b" "a < b"
          unfolding depth_ok_def by blast
        with level_groups_ordered [OF dok i n] show ?thesis by blast
      qed
      with valid_order_acyclic [OF v] no groups show ?thesis unfolding ls sum.case by simp
    qed
  qed
qed

theorem levels_partition_witness:
  "fst (levels 9 (add_many [demo_node ''b'' [''a''], demo_node ''a'' []] graph_init)) = Inr [[''a''], [''b'']]
   \<and> \<not> sourceless (add_many [demo_node ''b'' [''a''], demo_node ''a'' []] graph_init) ''b''"
proof -
  let ?g = "add_many [demo_node ''b'' [''a''], demo_node ''a'' []] graph_init"
  have "fst (levels 9 ?g) = Inr [[''a''], [''b'']]"
    by (simp add: levels_def topological_sort_def add_many_def add_node_def graph_init_def demo_node_def names_def node_deps_def
        deps_of_def numeral_eq_Suc map_filter_simps level_groups_def)
  then show ?thesis
    using levels_partition [of ?g 9]
    by (simp add: add_many_def sorted_ok_add node_count_def) (simp add: add_node_def graph_init_def demo_node_def)
qed

end
