(* ===== verification/Feature_Engine.thy ===== *)
theory Feature_Engine
  imports Feature_Graph
begin

text \<open>
  The feature engine (\<open>FeatureDAGEngine\<close> of \<open>backtesting/features/dag_engine.py\<close>): it evaluates the nodes
  of a feature graph in topological order, with a cache of the last values and a history of the data.

  A compute function is a partial function on scalars and arrays; \<open>None\<close> is an exception, which the
  engine catches. NumPy is not part of the repository: the functions the code takes from it are the
  argument \<open>np\<close>.
\<close>

subsection \<open>State and built-in features\<close>

record numpy =
  np_log :: "pyfloat \<Rightarrow> pyfloat"
  np_mean :: "pyfloat list \<Rightarrow> pyfloat"
  np_std :: "pyfloat list \<Rightarrow> pyfloat"

record feature_engine =
  graph :: feature_graph
  fcache :: "(string, pyfloat) pydict"
  history :: "(string, pyfloat list) pydict"

definition max_history :: nat where "max_history = 5000"

definition engine_init :: feature_engine where
  "engine_init = \<lparr>graph = graph_init, fcache = [], history = []\<rparr>"

definition register :: "feature_node \<Rightarrow> feature_engine \<Rightarrow> feature_engine" where
  "register nd eng = eng\<lparr>graph := add_node nd (graph eng)\<rparr>"

definition register_many :: "feature_node list \<Rightarrow> feature_engine \<Rightarrow> feature_engine" where
  "register_many nds eng = eng\<lparr>graph := add_many nds (graph eng)\<rparr>"

definition FeatureNode ::
  "string \<Rightarrow> string list \<Rightarrow> (feature_arg list \<Rightarrow> pyfloat option) \<Rightarrow> feature_type \<Rightarrow> int \<Rightarrow> feature_node" where
  "FeatureNode n ds f ty w = \<lparr>fn_name = n, dependencies = ds, compute_fn = Some f, fn_type = ty, window = w\<rparr>"

definition add_custom ::
  "string \<Rightarrow> string list \<Rightarrow> (feature_arg list \<Rightarrow> pyfloat option) \<Rightarrow> feature_type \<Rightarrow> feature_engine \<Rightarrow> feature_engine" where
  "add_custom n ds f ty = register (FeatureNode n ds f ty 0)"

fun ema_from :: "pyfloat \<Rightarrow> pyfloat \<Rightarrow> pyfloat list \<Rightarrow> pyfloat" where
  "ema_from alpha val [] = val"
| "ema_from alpha val (v # vs) = ema_from alpha (alpha * v + (1 - alpha) * val) vs"

definition ema :: "pyfloat list \<Rightarrow> pyfloat \<Rightarrow> pyfloat option" where
  "ema w sz = (case w of [] \<Rightarrow> None | v # vs \<Rightarrow> Some (ema_from (2 / (sz + 1)) v vs))"

fun scalars1 :: "(pyfloat \<Rightarrow> pyfloat) \<Rightarrow> feature_arg list \<Rightarrow> pyfloat option" where
  "scalars1 f [Scalar a] = Some (f a)"
| "scalars1 f _ = None"

fun scalars2 :: "(pyfloat \<Rightarrow> pyfloat \<Rightarrow> pyfloat) \<Rightarrow> feature_arg list \<Rightarrow> pyfloat option" where
  "scalars2 f [Scalar a, Scalar b] = Some (f a b)"
| "scalars2 f _ = None"

fun scalars3 :: "(pyfloat \<Rightarrow> pyfloat \<Rightarrow> pyfloat \<Rightarrow> pyfloat) \<Rightarrow> feature_arg list \<Rightarrow> pyfloat option" where
  "scalars3 f [Scalar a, Scalar b, Scalar c] = Some (f a b c)"
| "scalars3 f _ = None"

fun scalars4 :: "(pyfloat \<Rightarrow> pyfloat \<Rightarrow> pyfloat \<Rightarrow> pyfloat \<Rightarrow> pyfloat) \<Rightarrow> feature_arg list \<Rightarrow> pyfloat option" where
  "scalars4 f [Scalar a, Scalar b, Scalar c, Scalar d] = Some (f a b c d)"
| "scalars4 f _ = None"

fun windowed :: "(pyfloat list \<Rightarrow> pyfloat \<Rightarrow> pyfloat option) \<Rightarrow> feature_arg list \<Rightarrow> pyfloat option" where
  "windowed f [Array w, Scalar sz] = f w sz"
| "windowed f _ = None"

fun returns_fn :: "feature_arg list \<Rightarrow> pyfloat option" where
  \<comment> \<open>\<open>len(lmp)\<close> of a number raises a \<open>TypeError\<close>\<close>
  "returns_fn [Array l] = Some (if length l > 1 then l ! (length l - 1) - l ! (length l - 2) else 0)"
| "returns_fn _ = None"

definition builtins :: "numpy \<Rightarrow> feature_node list" where
  "builtins np =
     [FeatureNode ''mid_price'' [''best_bid'', ''best_ask''] (scalars2 (\<lambda>bid ask. (bid + ask) / 2)) PRICE 0,
      FeatureNode ''spread'' [''best_bid'', ''best_ask''] (scalars2 (\<lambda>bid ask. ask - bid)) MICROSTRUCTURE 0,
      FeatureNode ''spread_bps'' [''spread'', ''mid_price'']
        (scalars2 (\<lambda>s mp. if mp > 0 then s / mp * 10000 else 0)) MICROSTRUCTURE 0,
      FeatureNode ''log_mid_price'' [''mid_price''] (scalars1 (\<lambda>mp. if mp > 0 then np_log np mp else 0)) PRICE 0,
      FeatureNode ''returns'' [''log_mid_price''] returns_fn PRICE 0,
      FeatureNode ''volume_dollar'' [''last_price'', ''volume''] (scalars2 (\<lambda>p v. p * v)) VOLUME 0,
      FeatureNode ''queue_imbalance'' [''bid_volume'', ''ask_volume'']
        (scalars2 (\<lambda>bv av. if bv + av > 0 then (bv - av) / (bv + av) else 0)) MICROSTRUCTURE 0,
      FeatureNode ''order_flow_imbalance'' [''trade_volume'', ''bid_volume'', ''ask_volume'']
        (scalars3 (\<lambda>tv bv av. if bv + av + tv > 0 then (tv - (bv + av)) / (bv + av + tv) else 0)) MICROSTRUCTURE 0,
      FeatureNode ''trade_intensity'' [''volume''] (scalars1 (\<lambda>v. v)) VOLUME 0,
      FeatureNode ''microprice'' [''best_bid'', ''best_ask'', ''bid_volume'', ''ask_volume'']
        (scalars4 (\<lambda>bid ask bv av. if bv + av > 0 then (bid * av + ask * bv) / (bv + av) else (bid + ask) / 2)) MICROSTRUCTURE 0,
      FeatureNode ''spread_ma_10'' [''spread''] (windowed (\<lambda>w _. Some (np_mean np w))) DERIVED 10,
      FeatureNode ''volume_ma_20'' [''volume''] (windowed (\<lambda>w _. Some (np_mean np w))) DERIVED 20,
      FeatureNode ''mid_price_ema_5'' [''mid_price''] (windowed ema) DERIVED 5,
      FeatureNode ''realized_volatility_10'' [''returns''] (windowed (\<lambda>w _. Some (np_std np w))) DERIVED 10]"

definition register_builtins :: "numpy \<Rightarrow> feature_engine \<Rightarrow> feature_engine" where
  "register_builtins np = register_many (builtins np)"

subsection \<open>Evaluation\<close>

definition inst_prefix :: "string \<Rightarrow> string" where
  "inst_prefix inst = (if inst = [] then [] else inst @ '':'')"

definition push_history :: "string \<Rightarrow> string \<times> pyfloat \<Rightarrow> (string, pyfloat list) pydict \<Rightarrow> (string, pyfloat list) pydict" where
  "push_history pre kv hist =
     (let h = dict_get_or hist (pre @ fst kv) [] @ [snd kv]
      in dict_set (pre @ fst kv) (if length h > max_history then drop (length h - max_history) h else h) hist)"

definition resolve_input ::
  "string \<Rightarrow> (string, pyfloat) pydict \<Rightarrow> (string, pyfloat) pydict \<Rightarrow> (string, pyfloat) pydict \<Rightarrow>
     (string, pyfloat list) pydict \<Rightarrow> string \<Rightarrow> pyfloat" where
  "resolve_input pre cache data results hist d =
     (case dict_get cache (pre @ d) of
        Some v \<Rightarrow> v
      | None \<Rightarrow>
          (case dict_get data d of
             Some v \<Rightarrow> v
           | None \<Rightarrow>
               (case dict_get results d of
                  Some v \<Rightarrow> v
                | None \<Rightarrow>
                    (case dict_get hist (pre @ d) of
                       Some h \<Rightarrow> if h = [] then 0 else List.last h
                     | None \<Rightarrow> 0))))"

definition node_value ::
  "numpy \<Rightarrow> string \<Rightarrow> feature_node \<Rightarrow> pyfloat list \<Rightarrow> (string, pyfloat list) pydict \<Rightarrow> pyfloat option" where
  \<comment> \<open>the body of the \<open>try\<close> after the inputs\<close>
  "node_value np pre nd inputs hist =
     (if window nd > 0 then
        (case dependencies nd of
           [] \<Rightarrow> None
         | d # _ \<Rightarrow>
             (let h = dict_get_or hist (pre @ d) [];
                  w = drop (length h - nat (window nd)) h
              in if int (length h) \<ge> window nd then
                   (case compute_fn nd of
                      Some f \<Rightarrow> f [Array w, Scalar (of_int (window nd))]
                    | None \<Rightarrow> Some (np_mean np w))
                 else Some (inputs ! 0)))
      else case compute_fn nd of
        Some f \<Rightarrow> f (map Scalar inputs)
      | None \<Rightarrow> Some (if inputs = [] then 0 else inputs ! 0))"

definition compute_node ::
  "numpy \<Rightarrow> string \<Rightarrow> (string, pyfloat) pydict \<Rightarrow> (string, pyfloat list) pydict \<Rightarrow> string \<Rightarrow> feature_node \<Rightarrow>
     (string, pyfloat) pydict \<times> (string, pyfloat) pydict \<Rightarrow> (string, pyfloat) pydict \<times> (string, pyfloat) pydict" where
  \<comment> \<open>on the results and the cache; a failed computation is 0 in the results and leaves the cache\<close>
  "compute_node np pre data hist n nd st =
     (case st of (results, cache) \<Rightarrow>
        (case node_value np pre nd (map (resolve_input pre cache data results hist) (dependencies nd)) hist of
           Some v \<Rightarrow> (dict_set n v results, dict_set (pre @ n) v cache)
         | None \<Rightarrow> (dict_set n 0 results, cache)))"

definition compute_name ::
  "numpy \<Rightarrow> string \<Rightarrow> (string, pyfloat) pydict \<Rightarrow> (string, pyfloat list) pydict \<Rightarrow> feature_graph \<Rightarrow> string \<Rightarrow>
     (string, pyfloat) pydict \<times> (string, pyfloat) pydict \<Rightarrow> (string, pyfloat) pydict \<times> (string, pyfloat) pydict" where
  "compute_name np pre data hist g n st =
     (case get_node g n of None \<Rightarrow> st | Some nd \<Rightarrow> compute_node np pre data hist n nd st)"

definition compute ::
  "numpy \<Rightarrow> nat \<Rightarrow> (string, pyfloat) pydict \<Rightarrow> string \<Rightarrow> feature_engine \<Rightarrow>
     (py_error + (string, pyfloat) pydict) \<times> feature_engine" where
  "compute np limit data inst eng =
     (let pre = inst_prefix inst;
          hist = fold (push_history pre) data (history eng);
          eng1 = eng\<lparr>history := hist\<rparr>
      in case topological_sort limit (graph eng) of
           (Inl e, g1) \<Rightarrow> (Inl e, eng1\<lparr>graph := g1\<rparr>)
         | (Inr ord, g1) \<Rightarrow>
             (case fold (compute_name np pre data hist g1) ord ([], fcache eng) of
                (results, cache) \<Rightarrow> (Inr results, eng1\<lparr>graph := g1, fcache := cache\<rparr>)))"

fun compute_batch ::
  "numpy \<Rightarrow> nat \<Rightarrow> (string, pyfloat) pydict list \<Rightarrow> string \<Rightarrow> feature_engine \<Rightarrow>
     (py_error + (string, pyfloat) pydict list) \<times> feature_engine" where
  "compute_batch np limit [] inst eng = (Inr [], eng)"
| "compute_batch np limit (d # ds) inst eng =
     (case compute np limit d inst eng of
        (Inl e, eng1) \<Rightarrow> (Inl e, eng1)
      | (Inr r, eng1) \<Rightarrow>
          (case compute_batch np limit ds inst eng1 of
             (Inl e, eng2) \<Rightarrow> (Inl e, eng2)
           | (Inr rs, eng2) \<Rightarrow> (Inr (r # rs), eng2)))"

definition get_feature :: "string \<Rightarrow> string \<Rightarrow> feature_engine \<Rightarrow> pyfloat" where
  "get_feature n inst eng = dict_get_or (fcache eng) (inst_prefix inst @ n) 0"

definition get_history :: "string \<Rightarrow> string \<Rightarrow> feature_engine \<Rightarrow> pyfloat list" where
  "get_history n inst eng = dict_get_or (history eng) (inst_prefix inst @ n) []"

definition get_all_features :: "string \<Rightarrow> feature_engine \<Rightarrow> (string, pyfloat) pydict" where
  "get_all_features inst eng =
     fold (\<lambda>(k, v). dict_set (if prefix (inst_prefix inst) k then drop (length (inst_prefix inst)) k else k) v)
       (filter (\<lambda>(k, v). prefix (inst_prefix inst) k \<or> inst = []) (fcache eng)) []"

definition engine_reset :: "feature_engine \<Rightarrow> feature_engine" where
  "engine_reset eng = eng\<lparr>fcache := [], history := []\<rparr>"

definition list_features :: "feature_engine \<Rightarrow> (string \<times> string list \<times> feature_type \<times> int) list" where
  "list_features eng = map (\<lambda>(_, n). (fn_name n, dependencies n, fn_type n, window n)) (nodes (graph eng))"

subsection \<open>One pass over the nodes\<close>

definition node_outcome ::
  "numpy \<Rightarrow> string \<Rightarrow> (string, pyfloat) pydict \<Rightarrow> (string, pyfloat list) pydict \<Rightarrow> feature_node \<Rightarrow>
     (string, pyfloat) pydict \<Rightarrow> (string, pyfloat) pydict \<Rightarrow> pyfloat option" where
  \<comment> \<open>the value of a node when the results and the cache are these\<close>
  "node_outcome np pre data hist nd results cache =
     node_value np pre nd (map (resolve_input pre cache data results hist) (dependencies nd)) hist"

lemma compute_name_simp:
  assumes "dict_get (nodes g) n = Some nd"
  shows "compute_name np pre data hist g n (results, cache) =
    (case node_outcome np pre data hist nd results cache of
       Some v \<Rightarrow> (dict_set n v results, dict_set (pre @ n) v cache)
     | None \<Rightarrow> (dict_set n 0 results, cache))"
  using assms by (simp add: compute_name_def compute_node_def get_node_def node_outcome_def)

definition consistent ::
  "numpy \<Rightarrow> string \<Rightarrow> (string, pyfloat) pydict \<Rightarrow> (string, pyfloat list) pydict \<Rightarrow> feature_graph \<Rightarrow>
     (string, pyfloat) pydict \<Rightarrow> string set \<Rightarrow> (string, pyfloat) pydict \<times> (string, pyfloat) pydict \<Rightarrow> bool" where
  \<comment> \<open>the nodes in \<open>A\<close> have the values they would be given now; the others have none yet\<close>
  "consistent np pre data hist g cache0 A st \<longleftrightarrow> (case st of (results, cache) \<Rightarrow>
     dict_keys results = remdups (dict_keys results) \<and> fst ` set results = A
     \<and> (\<forall>n nd. n \<in> A \<longrightarrow> dict_get (nodes g) n = Some nd \<longrightarrow>
          (let v = node_outcome np pre data hist nd results cache
           in dict_get results n = Some (case v of Some x \<Rightarrow> x | None \<Rightarrow> 0)
              \<and> dict_get cache (pre @ n) = (case v of Some x \<Rightarrow> Some x | None \<Rightarrow> dict_get cache0 (pre @ n))))
     \<and> (\<forall>k. k \<notin> (\<lambda>n. pre @ n) ` A \<longrightarrow> dict_get cache k = dict_get cache0 k))"

lemma node_outcome_cong:
  assumes "\<And>d. d \<in> set (dependencies nd) \<Longrightarrow>
    dict_get results d = dict_get results' d \<and> dict_get cache (pre @ d) = dict_get cache' (pre @ d)"
  shows "node_outcome np pre data hist nd results cache = node_outcome np pre data hist nd results' cache'"
proof -
  have "resolve_input pre cache data results hist d = resolve_input pre cache' data results' hist d"
    if "d \<in> set (dependencies nd)" for d
    unfolding resolve_input_def assms [OF that, THEN conjunct1] assms [OF that, THEN conjunct2] ..
  then show ?thesis unfolding node_outcome_def by (simp cong: map_cong)
qed

lemma compute_name_consistent:
  assumes c: "consistent np pre data hist g cache0 A (results, cache)"
    and n: "dict_get (nodes g) n = Some nd" "n \<notin> A" "set (node_deps g n) \<subseteq> A" "n \<notin> set (dependencies nd)"
    and A: "A \<subseteq> set (names g)" "\<forall>m \<in> A. set (node_deps g m) \<subseteq> A"
  shows "consistent np pre data hist g cache0 (insert n A) (compute_name np pre data hist g n (results, cache))"
proof -
  define v where "v = node_outcome np pre data hist nd results cache"
  obtain results1 cache1 where st: "compute_name np pre data hist g n (results, cache) = (results1, cache1)"
    by (cases "compute_name np pre data hist g n (results, cache)")
  have r1: "dict_get results1 m = (if m = n then Some (case v of Some x \<Rightarrow> x | None \<Rightarrow> 0) else dict_get results m)" for m
    using compute_name_simp [OF n(1), of np pre data hist results cache] st
    by (auto simp: v_def split: option.splits)
  have c1: "dict_get cache1 k = (if k = pre @ n \<and> v \<noteq> None then v else dict_get cache k)" for k
    using compute_name_simp [OF n(1), of np pre data hist results cache] st
    by (auto simp: v_def split: option.splits)
  have k1: "fst ` set results1 = insert n (fst ` set results)" and d1: "dict_ok results \<Longrightarrow> dict_ok results1"
    using compute_name_simp [OF n(1), of np pre data hist results cache] st
    by (auto simp: v_def dom_update split: option.splits)
  have frozen: "node_outcome np pre data hist md results1 cache1 = node_outcome np pre data hist md results cache"
    if m: "m \<in> insert n A" "dict_get (nodes g) m = Some md" for m md
  proof (rule node_outcome_cong)
    fix d assume d: "d \<in> set (dependencies md)"
    have "d \<noteq> n"
    proof
      assume "d = n"
      with d m n(1) have "n \<in> set (node_deps g m)" by (simp add: node_deps_def deps_of_def)
      with m A(2) n(2) have "m = n" by auto
      with m n(1,4) d \<open>d = n\<close> show False by simp
    qed
    then show "dict_get results1 d = dict_get results d \<and> dict_get cache1 (pre @ d) = dict_get cache (pre @ d)"
      by (simp add: r1 c1)
  qed
  have old: "dict_get cache (pre @ n) = dict_get cache0 (pre @ n)"
  proof -
    have "pre @ n \<notin> (\<lambda>n. pre @ n) ` A" using n(2) by auto
    with c show ?thesis unfolding consistent_def by blast
  qed
  show ?thesis unfolding st consistent_def prod.case
  proof (intro conjI allI impI)
    show "dict_keys results1 = remdups (dict_keys results1)"
      using d1 c by (simp add: consistent_def dict_ok_def) (metis distinct_remdups remdups_id_iff_distinct)
    show "fst ` set results1 = insert n A" using c k1 by (simp add: consistent_def)
    show "dict_get cache1 k = dict_get cache0 k" if "k \<notin> (\<lambda>n. pre @ n) ` insert n A" for k
      using that c by (auto simp: c1 consistent_def)
    fix m md assume m: "m \<in> insert n A" "dict_get (nodes g) m = Some md"
    show "let v = node_outcome np pre data hist md results1 cache1
       in dict_get results1 m = Some (case v of Some x \<Rightarrow> x | None \<Rightarrow> 0)
          \<and> dict_get cache1 (pre @ m) = (case v of Some x \<Rightarrow> Some x | None \<Rightarrow> dict_get cache0 (pre @ m))"
    proof (cases "m = n")
      case True
      with m n(1) show ?thesis by (simp add: frozen [OF m] r1 c1 old v_def Let_def split: option.split)
    next
      case False
      with m c show ?thesis by (simp add: frozen [OF m] r1 c1 consistent_def Let_def)
    qed
  qed
qed

lemma fold_consistent:
  "deps_first g (seen @ ns) \<Longrightarrow> distinct (seen @ ns) \<Longrightarrow> set (seen @ ns) \<subseteq> set (names g) \<Longrightarrow>
   consistent np pre data hist g cache0 (set seen) st \<Longrightarrow>
   consistent np pre data hist g cache0 (set (seen @ ns)) (fold (compute_name np pre data hist g) ns st)"
proof (induction ns arbitrary: seen st)
  case (Cons n ns)
  obtain results cache where st: "st = (results, cache)" by (cases st)
  obtain nd where nd: "dict_get (nodes g) n = Some nd" using Cons.prems(3) by auto
  have before: "set (node_deps g ((seen @ n # ns) ! i)) \<subseteq> set (take i (seen @ n # ns))" if "i \<le> length seen" for i
    using Cons.prems(1) [unfolded deps_first_def, rule_format, of i] that by simp
  have deps: "set (node_deps g n) \<subseteq> set seen" using before [of "length seen"] by simp
  moreover have "n \<notin> set seen" using Cons.prems(2) by simp
  moreover have "n \<notin> set (dependencies nd)" using calculation nd by (auto simp: node_deps_def deps_of_def)
  moreover have "\<forall>m \<in> set seen. set (node_deps g m) \<subseteq> set seen"
  proof
    fix m assume "m \<in> set seen"
    then obtain i where "i < length seen" "seen ! i = m" by (auto simp: in_set_conv_nth)
    then show "set (node_deps g m) \<subseteq> set seen" using before [of i] by (auto simp: nth_append dest: in_set_takeD)
  qed
  ultimately have "consistent np pre data hist g cache0 (set (seen @ [n])) (compute_name np pre data hist g n st)"
    using compute_name_consistent [OF Cons.prems(4) [unfolded st] nd] Cons.prems(3) by (simp add: st)
  then show ?case using Cons.IH [of "seen @ [n]" "compute_name np pre data hist g n st"] Cons.prems(1-3) by simp
qed simp

lemma node_outcome_same_nodes:
  "nodes g1 = nodes g \<Longrightarrow> compute_name np pre data hist g1 = compute_name np pre data hist g"
  by (simp add: compute_name_def get_node_def fun_eq_iff)

lemma compute_consistent:
  assumes "sorted_ok (graph eng)" "node_count (graph eng) \<le> limit" "acyclic (dep_rel (graph eng))"
  obtains results eng1 where "compute np limit data inst eng = (Inr results, eng1)"
    "history eng1 = fold (push_history (inst_prefix inst)) data (history eng)"
    "nodes (graph eng1) = nodes (graph eng)" "sorted_ok (graph eng1)"
    "consistent np (inst_prefix inst) data (history eng1) (graph eng) (fcache eng) (set (names (graph eng))) (results, fcache eng1)"
proof -
  let ?pre = "inst_prefix inst" and ?g = "graph eng"
  define hist where "hist = fold (push_history ?pre) data (history eng)"
  obtain r g1 where t: "topological_sort limit ?g = (r, g1)" by (cases "topological_sort limit ?g")
  note tc = topological_sort_cases [OF assms(1,2), unfolded t]
  with assms(3) obtain ord where r: "r = Inr ord" by (cases r) auto
  with tc have v: "valid_order ?g ord" and g1: "nodes g1 = nodes ?g" "sorted_ok g1" by simp_all
  obtain results cache where f: "fold (compute_name np ?pre data hist ?g) ord ([], fcache eng) = (results, cache)"
    by (cases "fold (compute_name np ?pre data hist ?g) ord ([], fcache eng)")
  have "consistent np ?pre data hist ?g (fcache eng) (set ([] @ ord)) (fold (compute_name np ?pre data hist ?g) ord ([], fcache eng))"
    using v by (intro fold_consistent) (simp_all add: valid_order_def consistent_def)
  then have c: "consistent np ?pre data hist ?g (fcache eng) (set (names ?g)) (results, cache)"
    using v by (simp add: f valid_order_def)
  have "compute np limit data inst eng = (Inr results, eng\<lparr>history := hist, graph := g1, fcache := cache\<rparr>)"
    by (simp add: compute_def Let_def t r hist_def [symmetric] node_outcome_same_nodes [OF g1(1)] f)
  then show ?thesis using c g1 by (intro that [of results "eng\<lparr>history := hist, graph := g1, fcache := cache\<rparr>"]) (simp_all add: hist_def)
qed

text \<open>C17: one pass over the nodes solves the system: on a graph without cycles every node has one result,
  and each result is what its node's function gives on the values that its dependencies end up with, so
  the order chosen does not matter; a node whose computation raises is 0 in the results and keeps the
  cached value it had before.\<close>

theorem compute_solves:
  assumes "sorted_ok (graph eng)" and "node_count (graph eng) \<le> limit" and "acyclic (dep_rel (graph eng))"
  shows "\<exists>results eng1. compute np limit data inst eng = (Inr results, eng1)
    \<and> distinct (dict_keys results) \<and> set (dict_keys results) = set (names (graph eng))
    \<and> (\<forall>n nd. get_node (graph eng) n = Some nd \<longrightarrow>
         (let v = node_outcome np (inst_prefix inst) data (history eng1) nd results (fcache eng1)
          in dict_get results n = Some (case v of Some x \<Rightarrow> x | None \<Rightarrow> 0)
             \<and> dict_get (fcache eng1) (inst_prefix inst @ n) =
                 (case v of Some x \<Rightarrow> Some x | None \<Rightarrow> dict_get (fcache eng) (inst_prefix inst @ n))))"
proof -
  from compute_consistent [OF assms, of np data inst] obtain results eng1 where
    c: "compute np limit data inst eng = (Inr results, eng1)"
    and k: "consistent np (inst_prefix inst) data (history eng1) (graph eng) (fcache eng) (set (names (graph eng))) (results, fcache eng1)"
    by blast
  have "distinct (dict_keys results)" using k by (simp add: consistent_def) (metis distinct_remdups)
  moreover have "set (dict_keys results) = set (names (graph eng))" using k by (simp add: consistent_def)
  moreover have "let v = node_outcome np (inst_prefix inst) data (history eng1) nd results (fcache eng1)
      in dict_get results n = Some (case v of Some x \<Rightarrow> x | None \<Rightarrow> 0)
         \<and> dict_get (fcache eng1) (inst_prefix inst @ n) =
             (case v of Some x \<Rightarrow> Some x | None \<Rightarrow> dict_get (fcache eng) (inst_prefix inst @ n))"
    if "get_node (graph eng) n = Some nd" for n nd
    using k that by (simp add: consistent_def get_node_def)
  ultimately show ?thesis using c by blast
qed

definition demo_engine :: feature_engine where
  "demo_engine = register_many [demo_node ''b'' [''a''], demo_node ''a'' [''x'']] engine_init"

definition demo_numpy :: numpy where
  "demo_numpy = \<lparr>np_log = (\<lambda>x. x - 1), np_mean = (\<lambda>w. sum_list w / of_nat (length w)), np_std = (\<lambda>w. 0)\<rparr>"

theorem compute_solves_witness:
  "\<exists>results eng1. compute demo_numpy 2 [(''x'', 7)] [] demo_engine = (Inr results, eng1)
     \<and> set (dict_keys results) = {''a'', ''b''} \<and> distinct (dict_keys results)"
proof -
  have nodes: "nodes (graph demo_engine) = [(''b'', demo_node ''b'' [''a'']), (''a'', demo_node ''a'' [''x''])]"
    by (simp add: demo_engine_def register_many_def engine_init_def add_many_def add_node_def graph_init_def demo_node_def)
  have "valid_order (graph demo_engine) [''a'', ''b'']"
    by (auto simp: valid_order_def deps_first_def less_Suc_eq names_def node_deps_def deps_of_def nodes demo_node_def)
  then have a: "acyclic (dep_rel (graph demo_engine))" by (rule valid_order_acyclic)
  have "sorted_ok (graph demo_engine)"
    by (simp add: demo_engine_def register_many_def add_many_def sorted_ok_add)
  from compute_solves [OF this _ a, of 2 demo_numpy "[(''x'', 7)]" "[]"] show ?thesis
    by (auto simp: node_count_def names_def nodes)
qed

subsection \<open>What the rolling features see\<close>

lemma history_keys:
  "dict_get (fold (push_history pre) data hist) k \<noteq> None \<longleftrightarrow>
     dict_get hist k \<noteq> None \<or> (\<exists>(d, v) \<in> set data. k = pre @ d)"
  by (induction data arbitrary: hist) (auto simp: push_history_def Let_def)

lemma push_history_bounded:
  assumes "\<And>k h. dict_get hist k = Some h \<Longrightarrow> length h \<le> max_history" "dict_get (push_history pre kv hist) k = Some h"
  shows "length h \<le> max_history"
  using assms by (auto simp: push_history_def Let_def split: if_splits)

lemma history_bounded:
  assumes "\<And>k h. dict_get hist k = Some h \<Longrightarrow> length h \<le> max_history"
    "dict_get (fold (push_history pre) data hist) k = Some h"
  shows "length h \<le> max_history"
  using assms
proof (induction data arbitrary: hist)
  case (Cons kv data)
  show ?case
  proof (rule Cons.IH [of "push_history pre kv hist"])
    show "length h \<le> max_history" if "dict_get (push_history pre kv hist) k = Some h" for k h
      using push_history_bounded [OF Cons.prems(1) that] .
  qed (use Cons.prems(2) in simp)
qed simp

lemma derived_window_copies:
  \<comment> \<open>a rolling feature over another feature never has a window: it is its input\<close>
  assumes "dependencies nd = d # ds" "0 < window nd" "dict_get hist (pre @ d) = None"
  shows "node_value np pre nd inputs hist = Some (inputs ! 0)"
  using assms by (simp add: node_value_def dict_get_or_def)

lemma returns_always_raises:
  "node_value np pre (FeatureNode ''returns'' [''log_mid_price''] returns_fn PRICE 0) [x] hist = None"
  by (simp add: node_value_def FeatureNode_def)

lemma builtin_mid_price_sourceless: "sourceless (graph (register_builtins np engine_init)) ''mid_price''"
  by (simp add: sourceless_def register_builtins_def register_many_def engine_init_def graph_init_def add_many_def
      add_node_def builtins_def FeatureNode_def deps_of_def node_deps_def)

end
