(* ===== verification/Job_Queue.thy ===== *)
theory Job_Queue
  imports Prelude
begin

text \<open>
  The background job queue (\<open>backtesting/platform/job_queue.py\<close>): a dictionary of jobs, a bounded
  FIFO of job ids and asynchronous workers. A worker runs without interruption from one \<open>await\<close> to
  the next, so a step of the model is one such stretch: taking an id from the queue, resuming after
  the handler, or resuming after a blocked \<open>put\<close>. Ids, clock readings and the outcome of a handler
  are arguments.
\<close>

subsection \<open>Data\<close>

datatype job_status = J_PENDING | J_RUNNING | J_COMPLETED | J_FAILED | J_CANCELLED

datatype job_error = No_Handler string | Timed_Out pyfloat | Raised string

record job =
  job_id :: string
  job_name :: string
  j_status :: job_status
  created_at :: pytime
  started_at :: "pytime option"
  completed_at :: "pytime option"
  job_type :: string
  j_priority :: int
  j_result :: "string option"
  j_error :: "job_error option"
  progress_pct :: int
  retry_count :: nat
  max_retries :: nat
  timeout_seconds :: pyfloat

datatype worker_state =
  Idle \<comment> \<open>waiting in \<open>queue.get()\<close>\<close>
  | Handling string \<comment> \<open>awaiting the handler of that job\<close>
  | Requeueing string \<comment> \<open>blocked in \<open>queue.put(job_id)\<close>\<close>

record job_queue =
  jobs :: "(string, job) pydict"
  pending_ids :: "string list"
  workers :: "worker_state list"
  handlers :: "string list"
  max_workers :: nat
  max_queue_size :: nat
  started :: bool \<comment> \<open>there is a queue: \<open>start\<close> has been called\<close>

definition jq_init :: "nat \<Rightarrow> nat \<Rightarrow> job_queue" where
  "jq_init w n = \<lparr>jobs = [], pending_ids = [], workers = [], handlers = [], max_workers = w, max_queue_size = n, started = False\<rparr>"

definition register_handler :: "string \<Rightarrow> job_queue \<Rightarrow> job_queue" where
  "register_handler ty jq = jq\<lparr>handlers := ty # handlers jq\<rparr>"

definition jq_start :: "job_queue \<Rightarrow> job_queue" where
  \<comment> \<open>with a new queue, whatever was in the old one\<close>
  "jq_start jq = jq\<lparr>pending_ids := [], started := True, workers := workers jq @ replicate (max_workers jq) Idle\<rparr>"

definition set_job :: "string \<Rightarrow> (job \<Rightarrow> job) \<Rightarrow> job_queue \<Rightarrow> job_queue" where
  \<comment> \<open>an update of the job object behind an id\<close>
  "set_job i f jq =
     (case dict_get (jobs jq) i of None \<Rightarrow> jq | Some j \<Rightarrow> jq\<lparr>jobs := dict_set i (f j) (jobs jq)\<rparr>)"

definition jq_submit ::
  "string \<Rightarrow> pytime \<Rightarrow> string \<Rightarrow> string \<Rightarrow> int \<Rightarrow> pyfloat \<Rightarrow> job_queue \<Rightarrow> py_error + job_queue" where
  "jq_submit i now nm ty prio tmo jq =
     (if \<not> started jq then Inl RuntimeError
      else if length (pending_ids jq) \<ge> max_queue_size jq then Inl RuntimeError
      else Inr (jq\<lparr>jobs := dict_set i
              \<lparr>job_id = i, job_name = nm, j_status = J_PENDING, created_at = now, started_at = None, completed_at = None,
               job_type = ty, j_priority = prio, j_result = None, j_error = None, progress_pct = 0, retry_count = 0,
               max_retries = 2, timeout_seconds = tmo\<rparr> (jobs jq),
            pending_ids := pending_ids jq @ [i]\<rparr>))"

definition get_status :: "string \<Rightarrow> job_queue \<Rightarrow> job option" where
  "get_status i jq = dict_get (jobs jq) i"

definition get_result :: "string \<Rightarrow> job_queue \<Rightarrow> string option" where
  "get_result i jq =
     (case dict_get (jobs jq) i of None \<Rightarrow> None | Some j \<Rightarrow> if j_status j \<noteq> J_COMPLETED then None else j_result j)"

definition jq_cancel :: "string \<Rightarrow> pytime \<Rightarrow> job_queue \<Rightarrow> bool \<times> job_queue" where
  "jq_cancel i now jq =
     (case dict_get (jobs jq) i of
        None \<Rightarrow> (False, jq)
      | Some j \<Rightarrow>
          if j_status j \<in> {J_COMPLETED, J_CANCELLED, J_FAILED} then (False, jq)
          else (True, set_job i (\<lambda>j. j\<lparr>j_status := J_CANCELLED, completed_at := Some now\<rparr>) jq))"

definition list_jobs :: "job_status option \<Rightarrow> nat \<Rightarrow> job_queue \<Rightarrow> job list" where
  "list_jobs st limit jq =
     take limit (sort_key (\<lambda>j. - created_at j)
       (filter (\<lambda>j. case st of None \<Rightarrow> True | Some s \<Rightarrow> j_status j = s) (map snd (jobs jq))))"

definition count_status :: "job_status \<Rightarrow> job_queue \<Rightarrow> nat" where
  "count_status s jq = length (filter (\<lambda>(i, j). j_status j = s) (jobs jq))"

definition get_queue_stats :: "job_queue \<Rightarrow> nat list" where
  "get_queue_stats jq =
     [length (jobs jq), count_status J_PENDING jq, count_status J_RUNNING jq, count_status J_COMPLETED jq,
      count_status J_FAILED jq, count_status J_CANCELLED jq, length (pending_ids jq), max_workers jq]"

definition elapsed_seconds :: "pytime \<Rightarrow> job \<Rightarrow> pyfloat" where
  "elapsed_seconds now j =
     (case started_at j of
        None \<Rightarrow> 0
      | Some s \<Rightarrow> (case completed_at j of None \<Rightarrow> now | Some e \<Rightarrow> if e = 0 then now else e) - s)"

subsection \<open>The worker loop\<close>

definition worker_pick :: "nat \<Rightarrow> pytime \<Rightarrow> job_queue \<Rightarrow> job_queue" where
  \<comment> \<open>worker \<open>w\<close> gets the next id and runs up to the handler's \<open>await\<close>, or back to \<open>get\<close>\<close>
  "worker_pick w now jq =
     (case pending_ids jq of
        [] \<Rightarrow> jq
      | i # rest \<Rightarrow>
          (let jq1 = jq\<lparr>pending_ids := rest\<rparr> in
           case dict_get (jobs jq) i of
             None \<Rightarrow> jq1
           | Some j \<Rightarrow>
               if j_status j = J_CANCELLED then jq1
               else let jq2 = set_job i (\<lambda>j. j\<lparr>j_status := J_RUNNING, started_at := Some now\<rparr>) jq1 in
                 if job_type j \<in> set (handlers jq)
                 then jq2\<lparr>workers := (workers jq2)[w := Handling i]\<rparr>
                 else set_job i (\<lambda>j. j\<lparr>j_status := J_FAILED, j_error := Some (No_Handler (job_type j)),
                                       completed_at := Some now\<rparr>) jq2))"

datatype outcome = Returns string | Times_Out | Raises string

definition finished :: "string \<Rightarrow> pytime \<Rightarrow> job_queue \<Rightarrow> job_queue" where
  \<comment> \<open>the \<open>finally\<close> clause\<close>
  "finished i now jq = set_job i (\<lambda>j. j\<lparr>completed_at := Some now\<rparr>) jq"

definition worker_resume :: "nat \<Rightarrow> pytime \<Rightarrow> outcome \<Rightarrow> string \<Rightarrow> job_queue \<Rightarrow> job_queue" where
  \<comment> \<open>worker \<open>w\<close>, handling job \<open>i\<close>, runs on with the handler's outcome\<close>
  "worker_resume w now out i jq =
     (case out of
        Returns r \<Rightarrow>
          finished i now (set_job i (\<lambda>j. j\<lparr>j_result := Some r, j_status := J_COMPLETED, progress_pct := 100\<rparr>)
            (jq\<lparr>workers := (workers jq)[w := Idle]\<rparr>))
      | Times_Out \<Rightarrow>
          finished i now (set_job i (\<lambda>j. j\<lparr>j_status := J_FAILED, j_error := Some (Timed_Out (timeout_seconds j))\<rparr>)
            (jq\<lparr>workers := (workers jq)[w := Idle]\<rparr>))
      | Raises e \<Rightarrow>
          (case dict_get (jobs jq) i of
             None \<Rightarrow> jq
           | Some j \<Rightarrow>
               if retry_count j < max_retries j
               then let jq1 = set_job i (\<lambda>j. j\<lparr>retry_count := retry_count j + 1, j_status := J_PENDING, started_at := None\<rparr>) jq in
                 if length (pending_ids jq) < max_queue_size jq
                 then finished i now (jq1\<lparr>pending_ids := pending_ids jq @ [i], workers := (workers jq1)[w := Idle]\<rparr>)
                 else jq1\<lparr>workers := (workers jq1)[w := Requeueing i]\<rparr>
               else finished i now (set_job i (\<lambda>j. j\<lparr>j_status := J_FAILED, j_error := Some (Raised e)\<rparr>)
                 (jq\<lparr>workers := (workers jq)[w := Idle]\<rparr>))))"

definition worker_requeued :: "nat \<Rightarrow> pytime \<Rightarrow> string \<Rightarrow> job_queue \<Rightarrow> job_queue" where
  \<comment> \<open>the blocked \<open>put\<close> of worker \<open>w\<close> goes through\<close>
  "worker_requeued w now i jq =
     finished i now (jq\<lparr>pending_ids := pending_ids jq @ [i], workers := (workers jq)[w := Idle]\<rparr>)"

definition jq_stop :: "pytime \<Rightarrow> job_queue \<Rightarrow> job_queue" where
  \<comment> \<open>the workers are cancelled: of a job in hand only the \<open>finally\<close> clause runs; the queue stays and still takes jobs\<close>
  "jq_stop now jq =
     (let jq1 = fold (\<lambda>ws jq. case ws of Handling i \<Rightarrow> finished i now jq | Requeueing i \<Rightarrow> finished i now jq | Idle \<Rightarrow> jq)
            (workers jq) jq
      in jq1\<lparr>workers := []\<rparr>)"

text \<open>The operations of the queue between a start and the next stop, and its whole history: started from an empty
  queue, stopped and started again any number of times. The history keeps the set of the ids that were dropped, in a
  worker's hands when it was cancelled by a stop, or in the queue that a later start replaced.\<close>

inductive jq_step :: "job_queue \<Rightarrow> job_queue \<Rightarrow> bool" where
  register: "jq_step jq (register_handler ty jq)"
| submit: "jq_submit i now nm ty prio tmo jq = Inr jq' \<Longrightarrow> dict_get (jobs jq) i = None \<Longrightarrow> jq_step jq jq'"
| cancel: "jq_step jq (snd (jq_cancel i now jq))"
| pick: "w < length (workers jq) \<Longrightarrow> workers jq ! w = Idle \<Longrightarrow> jq_step jq (worker_pick w now jq)"
| resume: "w < length (workers jq) \<Longrightarrow> workers jq ! w = Handling i \<Longrightarrow> jq_step jq (worker_resume w now out i jq)"
| requeued: "w < length (workers jq) \<Longrightarrow> workers jq ! w = Requeueing i \<Longrightarrow>
    length (pending_ids jq) < max_queue_size jq \<Longrightarrow> jq_step jq (worker_requeued w now i jq)"

fun in_hand :: "worker_state \<Rightarrow> string list" where
  "in_hand Idle = []"
| "in_hand (Handling i) = [i]"
| "in_hand (Requeueing i) = [i]"

inductive jq_history :: "job_queue \<Rightarrow> string set \<Rightarrow> bool" where
  start: "jq_history (jq_start (jq_init w n)) {}"
| step: "jq_history jq dropped \<Longrightarrow> jq_step jq jq' \<Longrightarrow> jq_history jq' dropped"
| stop: "jq_history jq dropped \<Longrightarrow> jq_history (jq_stop now jq) (dropped \<union> set (concat (map in_hand (workers jq))))"
| restart: "jq_history jq dropped \<Longrightarrow> workers jq = [] \<Longrightarrow> jq_history (jq_start jq) (dropped \<union> set (pending_ids jq))"

subsection \<open>No job is lost and none runs twice at once\<close>

definition in_flight :: "job_queue \<Rightarrow> string multiset" where
  \<comment> \<open>the ids queued or in a worker's hands\<close>
  "in_flight jq = mset (pending_ids jq) + (\<Sum>ws\<leftarrow>workers jq. mset (in_hand ws))"

definition jq_inv :: "job_queue \<Rightarrow> bool" where
  "jq_inv jq \<longleftrightarrow>
     dict_ok (jobs jq)
     \<and> (\<forall>i. count (in_flight jq) i \<le> 1) \<and> (\<forall>i. i \<in># in_flight jq \<longrightarrow> dict_get (jobs jq) i \<noteq> None)
     \<and> (\<forall>i j. dict_get (jobs jq) i = Some j \<longrightarrow>
          retry_count j \<le> max_retries j
          \<and> (j_status j = J_PENDING \<longrightarrow> i \<in> set (pending_ids jq) \<or> Requeueing i \<in> set (workers jq))
          \<and> (j_status j = J_RUNNING \<longrightarrow> Handling i \<in> set (workers jq))
          \<and> (i \<in> set (pending_ids jq) \<longrightarrow> j_status j \<in> {J_PENDING, J_CANCELLED})
          \<and> (Handling i \<in> set (workers jq) \<longrightarrow> j_status j \<in> {J_RUNNING, J_CANCELLED})
          \<and> (Requeueing i \<in> set (workers jq) \<longrightarrow> j_status j \<in> {J_PENDING, J_CANCELLED}))
     \<and> length (pending_ids jq) \<le> max_queue_size jq"

lemma sum_in_hand_update:
  "w < length ws \<Longrightarrow> (\<Sum>ws\<leftarrow>ws[w := x]. mset (in_hand ws)) + mset (in_hand (ws ! w))
     = (\<Sum>ws\<leftarrow>ws. mset (in_hand ws)) + mset (in_hand x)"
proof (induction ws arbitrary: w)
  case (Cons y ys)
  then show ?case by (cases w) (auto simp: add.assoc add.left_commute)
qed simp

lemma set_job_simps [simp]:
  "pending_ids (set_job i f jq) = pending_ids jq" "workers (set_job i f jq) = workers jq"
  "handlers (set_job i f jq) = handlers jq" "max_queue_size (set_job i f jq) = max_queue_size jq"
  "dict_ok (jobs jq) \<Longrightarrow> dict_ok (jobs (set_job i f jq))"
  "dict_get (jobs (set_job i f jq)) k = (if k = i then map_option f (dict_get (jobs jq) i) else dict_get (jobs jq) k)"
  by (auto simp: set_job_def split: option.split)

lemma in_flight_mem:
  "i \<in># in_flight jq \<longleftrightarrow> i \<in> set (pending_ids jq) \<or> Handling i \<in> set (workers jq) \<or> Requeueing i \<in> set (workers jq)"
proof -
  have "i \<in># (\<Sum>w\<leftarrow>ws. mset (in_hand w)) \<longleftrightarrow> Handling i \<in> set ws \<or> Requeueing i \<in> set ws" for ws
  proof (induction ws)
    case (Cons w ws)
    then show ?case by (cases w) auto
  qed simp
  then show ?thesis by (simp add: in_flight_def)
qed


lemma update_idle:
  "w < length ws \<Longrightarrow> ws ! w = Idle \<Longrightarrow> x \<noteq> Idle \<Longrightarrow> x \<in> set (ws[w := y]) \<longleftrightarrow> x = y \<or> x \<in> set ws"
  by (metis (no_types, lifting) in_set_conv_nth length_list_update nth_list_update)

lemma held_count:
  "h \<in> set ws \<Longrightarrow> i \<in> set (in_hand h) \<Longrightarrow> 1 \<le> count (\<Sum>w\<leftarrow>ws. mset (in_hand w)) i"
proof (induction ws)
  case (Cons x xs)
  have sum: "count (\<Sum>w\<leftarrow>x # xs. mset (in_hand w)) i = count (mset (in_hand x)) i + count (\<Sum>w\<leftarrow>xs. mset (in_hand w)) i"
    by simp
  have "0 < count (mset (in_hand h)) i" using Cons.prems(2) by (simp add: count_mset_gt_0)
  moreover have "h = x \<or> 1 \<le> count (\<Sum>w\<leftarrow>xs. mset (in_hand w)) i" using Cons by auto
  ultimately show ?case unfolding sum by (elim disjE; hypsubst?; linarith)
qed simp

lemma update_held:
  "w < length ws \<Longrightarrow> in_hand (ws ! w) = [i] \<Longrightarrow> count (\<Sum>w\<leftarrow>ws. mset (in_hand w)) i \<le> 1 \<Longrightarrow> x \<noteq> Idle \<Longrightarrow>
   x \<in> set (ws[w := y]) \<longleftrightarrow> x = y \<or> x \<in> set ws \<and> in_hand x \<noteq> [i]"
proof (induction ws arbitrary: w)
  case (Cons z zs)
  show ?case
  proof (cases w)
    case 0
    then have "count (\<Sum>w\<leftarrow>zs. mset (in_hand w)) i = 0" using Cons.prems(2,3) by simp
    then have "in_hand x \<noteq> [i]" if "x \<in> set zs" using held_count [OF that, of i] by auto
    with 0 Cons.prems show ?thesis by auto
  next
    case (Suc v)
    then have v: "v < length zs" "in_hand (zs ! v) = [i]" using Cons.prems by auto
    then have "1 \<le> count (\<Sum>w\<leftarrow>zs. mset (in_hand w)) i" using held_count [OF nth_mem [OF v(1)], of i] by simp
    moreover have "count (mset (in_hand z)) i + count (\<Sum>w\<leftarrow>zs. mset (in_hand w)) i \<le> 1" using Cons.prems(3) by simp
    ultimately have c: "count (mset (in_hand z)) i = 0" "count (\<Sum>w\<leftarrow>zs. mset (in_hand w)) i \<le> 1" by linarith+
    then have "in_hand z \<noteq> [i]" by auto
    with Suc Cons.IH [OF v c(2) Cons.prems(4)] show ?thesis by auto
  qed
qed simp

lemma in_flight_workers:
  assumes "w < length ws" and "workers jq = ws[w := x]"
  shows "in_flight jq + mset (in_hand (ws ! w)) = mset (pending_ids jq) + (\<Sum>ws\<leftarrow>ws. mset (in_hand ws)) + mset (in_hand x)"
  using sum_in_hand_update [OF assms(1), of x] assms(2) by (simp add: in_flight_def add.assoc)

text \<open>What each id's record must look like, given where the id is.\<close>

definition job_ok :: "job_queue \<Rightarrow> string \<Rightarrow> job \<Rightarrow> bool" where
  "job_ok jq i j \<longleftrightarrow>
     retry_count j \<le> max_retries j
     \<and> (j_status j = J_PENDING \<longrightarrow> i \<in> set (pending_ids jq) \<or> Requeueing i \<in> set (workers jq))
     \<and> (j_status j = J_RUNNING \<longrightarrow> Handling i \<in> set (workers jq))
     \<and> (i \<in> set (pending_ids jq) \<longrightarrow> j_status j \<in> {J_PENDING, J_CANCELLED})
     \<and> (Handling i \<in> set (workers jq) \<longrightarrow> j_status j \<in> {J_RUNNING, J_CANCELLED})
     \<and> (Requeueing i \<in> set (workers jq) \<longrightarrow> j_status j \<in> {J_PENDING, J_CANCELLED})"

lemma jq_inv_iff:
  "jq_inv jq \<longleftrightarrow> dict_ok (jobs jq) \<and> (\<forall>i. count (in_flight jq) i \<le> 1)
     \<and> (\<forall>i. i \<in># in_flight jq \<longrightarrow> dict_get (jobs jq) i \<noteq> None)
     \<and> (\<forall>i j. dict_get (jobs jq) i = Some j \<longrightarrow> job_ok jq i j) \<and> length (pending_ids jq) \<le> max_queue_size jq"
  by (simp add: jq_inv_def job_ok_def)

lemma jq_invI:
  assumes "dict_ok (jobs jq)" "\<And>i. count (in_flight jq) i \<le> 1" "\<And>i. i \<in># in_flight jq \<Longrightarrow> dict_get (jobs jq) i \<noteq> None"
    "\<And>i j. dict_get (jobs jq) i = Some j \<Longrightarrow> job_ok jq i j" "length (pending_ids jq) \<le> max_queue_size jq"
  shows "jq_inv jq"
  using assms by (simp add: jq_inv_iff)

lemma jq_invD:
  assumes "jq_inv jq"
  shows "dict_ok (jobs jq)" "count (in_flight jq) i \<le> 1" "i \<in># in_flight jq \<Longrightarrow> dict_get (jobs jq) i \<noteq> None"
    "dict_get (jobs jq) i = Some j \<Longrightarrow> job_ok jq i j" "length (pending_ids jq) \<le> max_queue_size jq"
  using assms by (simp_all add: jq_inv_iff)

text \<open>An id is in at most one place.\<close>

lemma jq_places:
  assumes "jq_inv jq"
  shows "distinct (pending_ids jq)" "i \<in> set (pending_ids jq) \<Longrightarrow> Handling i \<notin> set (workers jq)"
    "i \<in> set (pending_ids jq) \<Longrightarrow> Requeueing i \<notin> set (workers jq)"
    "count (\<Sum>w\<leftarrow>workers jq. mset (in_hand w)) i \<le> 1"
proof -
  have le: "count (mset (pending_ids jq)) i + count (\<Sum>w\<leftarrow>workers jq. mset (in_hand w)) i \<le> 1" for i
    using jq_invD(2) [OF assms, of i] by (simp add: in_flight_def)
  then have "count (mset (pending_ids jq)) i \<le> 1" for i using le [of i] by linarith
  then show "distinct (pending_ids jq)"
    by (metis One_nat_def count_mset count_mset_0_iff distinct_count_atmost_1 le_0_eq le_SucE)
  show "count (\<Sum>w\<leftarrow>workers jq. mset (in_hand w)) i \<le> 1" using le [of i] by linarith
  have p: "1 \<le> count (mset (pending_ids jq)) i" if "i \<in> set (pending_ids jq)" for i
    using that by (simp add: Suc_le_eq count_mset_gt_0)
  show "i \<in> set (pending_ids jq) \<Longrightarrow> Handling i \<notin> set (workers jq)"
    using p [of i] le [of i] held_count [of "Handling i" "workers jq" i] by fastforce
  show "i \<in> set (pending_ids jq) \<Longrightarrow> Requeueing i \<notin> set (workers jq)"
    using p [of i] le [of i] held_count [of "Requeueing i" "workers jq" i] by fastforce
qed


text \<open>Every step keeps the invariant.\<close>

lemma update_job_inv:
  assumes "jq_inv jq" and "\<And>j. dict_get (jobs jq) i = Some j \<Longrightarrow> job_ok jq i j \<Longrightarrow> job_ok jq i (f j)"
  shows "jq_inv (set_job i f jq)"
proof (rule jq_invI)
  have fl: "in_flight (set_job i f jq) = in_flight jq" by (simp add: in_flight_def)
  show "count (in_flight (set_job i f jq)) k \<le> 1" for k using jq_invD(2) [OF assms(1)] by (simp add: fl)
  show "dict_get (jobs (set_job i f jq)) k \<noteq> None" if "k \<in># in_flight (set_job i f jq)" for k
    using jq_invD(3) [OF assms(1), of k] that by (auto simp: fl)
  fix k j assume "dict_get (jobs (set_job i f jq)) k = Some j"
  then have "job_ok jq k j"
    using assms(2) jq_invD(4) [OF assms(1)] by (auto split: if_splits)
  then show "job_ok (set_job i f jq) k j" by (simp add: job_ok_def)
qed (use jq_invD(1,5) [OF assms(1)] in simp_all)

lemma finished_ok: "job_ok jq i j \<Longrightarrow> job_ok jq i (j\<lparr>completed_at := Some now\<rparr>)"
  by (simp add: job_ok_def)

lemma finished_inv: "jq_inv jq \<Longrightarrow> jq_inv (finished i now jq)"
  unfolding finished_def by (erule update_job_inv) (rule finished_ok)

lemma submit_inv:
  assumes inv: "jq_inv jq" and sub: "jq_submit i now nm ty prio tmo jq = Inr jq'" and fresh: "dict_get (jobs jq) i = None"
  shows "jq_inv jq'"
proof -
  have nin: "i \<notin># in_flight jq" using jq_invD(3) [OF inv, of i] fresh by blast
  have len: "length (pending_ids jq) < max_queue_size jq" and jq': "pending_ids jq' = pending_ids jq @ [i]" "workers jq' = workers jq"
    "max_queue_size jq' = max_queue_size jq" "dict_ok (jobs jq')"
    using sub jq_invD(1) [OF inv] by (auto simp: jq_submit_def split: if_splits)
  obtain j0 where jobs: "\<And>k. dict_get (jobs jq') k = (if k = i then Some j0 else dict_get (jobs jq) k)"
    and j0: "j_status j0 = J_PENDING" "retry_count j0 = 0"
    using sub that by (auto simp: jq_submit_def split: if_splits)
  have fl: "in_flight jq' = add_mset i (in_flight jq)" by (simp add: in_flight_def jq')
  have hand: "Handling i \<notin> set (workers jq)" "Requeueing i \<notin> set (workers jq)" using nin by (simp_all add: in_flight_mem)
  show ?thesis
  proof (rule jq_invI)
    show "count (in_flight jq') k \<le> 1" for k
      using jq_invD(2) [OF inv, of k] nin by (auto simp: fl not_in_iff)
    show "dict_get (jobs jq') k \<noteq> None" if "k \<in># in_flight jq'" for k
      using jq_invD(3) [OF inv, of k] that by (auto simp: fl jobs)
    fix k j assume k: "dict_get (jobs jq') k = Some j"
    show "job_ok jq' k j"
    proof (cases "k = i")
      case True
      then show ?thesis using k jobs j0 hand by (simp add: job_ok_def jq')
    next
      case False
      then show ?thesis using k jobs jq_invD(4) [OF inv, of k j] by (auto simp: job_ok_def jq')
    qed
  qed (use jq' len in simp_all)
qed

lemma cancel_inv: "jq_inv jq \<Longrightarrow> jq_inv (snd (jq_cancel i now jq))"
  by (auto simp: jq_cancel_def split: option.split intro!: update_job_inv) (auto simp: job_ok_def)

text \<open>Dropping the head of the queue, or handing it to an idle worker.\<close>

lemma drop_head_inv:
  assumes inv: "jq_inv jq" and p: "pending_ids jq = i # rest" and j: "dict_get (jobs jq) i = Some j"
    and ok: "j_status (f j) \<notin> {J_PENDING, J_RUNNING}" "retry_count (f j) \<le> max_retries (f j)"
  shows "jq_inv (set_job i f (jq\<lparr>pending_ids := rest\<rparr>))"
proof (rule jq_invI)
  let ?q = "set_job i f (jq\<lparr>pending_ids := rest\<rparr>)"
  have fl: "in_flight jq = add_mset i (in_flight ?q)" by (simp add: in_flight_def p)
  show "count (in_flight ?q) k \<le> 1" for k
    using jq_invD(2) [OF inv, of k] by (simp add: fl split: if_splits)
  show "dict_get (jobs ?q) k \<noteq> None" if "k \<in># in_flight ?q" for k
    using jq_invD(3) [OF inv, of k] that by (auto simp: fl)
  have "i \<notin># in_flight ?q" using jq_invD(2) [OF inv, of i] by (simp add: fl not_in_iff)
  then have out: "i \<notin> set rest" "Handling i \<notin> set (workers jq)" "Requeueing i \<notin> set (workers jq)"
    by (simp_all add: in_flight_mem)
  fix k j' assume k: "dict_get (jobs ?q) k = Some j'"
  show "job_ok ?q k j'"
  proof (cases "k = i")
    case True
    then show ?thesis using k j ok out by (auto simp: job_ok_def)
  next
    case False
    then show ?thesis using k jq_invD(4) [OF inv, of k j'] by (auto simp: job_ok_def p)
  qed
qed (use jq_invD(1,5) [OF inv] p in auto)

lemma pick_inv:
  assumes inv: "jq_inv jq" and w: "w < length (workers jq)" "workers jq ! w = Idle"
  shows "jq_inv (worker_pick w now jq)"
proof (cases "pending_ids jq")
  case Nil
  then show ?thesis using inv by (simp add: worker_pick_def)
next
  case p: (Cons i rest)
  obtain j where j: "dict_get (jobs jq) i = Some j"
    using jq_invD(3) [OF inv, of i] p by (auto simp: in_flight_mem)
  note jok = jq_invD(4) [OF inv j]
  show ?thesis
  proof (cases "j_status j = J_CANCELLED \<or> job_type j \<notin> set (handlers jq)")
    case True
    have "worker_pick w now jq = set_job i
        (if j_status j = J_CANCELLED then id
         else (\<lambda>j. j\<lparr>j_status := J_FAILED, j_error := Some (No_Handler (job_type j)), completed_at := Some now\<rparr>)
              \<circ> (\<lambda>j. j\<lparr>j_status := J_RUNNING, started_at := Some now\<rparr>)) (jq\<lparr>pending_ids := rest\<rparr>)"
    proof -
      have "AList.update i (f j) (AList.update i (g j) d) = AList.update i (f j) d" for f g and d :: "(string, job) pydict"
        by (induction d) auto
      moreover have "dict_get d i = Some j \<Longrightarrow> AList.update i j d = d" for d :: "(string, job) pydict"
        by (induction d) auto
      ultimately show ?thesis
        using True p j by (auto simp: worker_pick_def Let_def set_job_def)
    qed
    then show ?thesis
      using drop_head_inv [OF inv p j] jok True by (auto simp: job_ok_def)
  next
    case False
    let ?f = "\<lambda>j. j\<lparr>j_status := J_RUNNING, started_at := Some now\<rparr>"
    let ?q = "(set_job i ?f (jq\<lparr>pending_ids := rest\<rparr>))\<lparr>workers := (workers jq)[w := Handling i]\<rparr>"
    have eq: "worker_pick w now jq = ?q" using False p j by (simp add: worker_pick_def Let_def)
    have fl: "in_flight ?q = in_flight jq"
      using in_flight_workers [OF w(1), of ?q "Handling i"] w(2) by (simp add: in_flight_def p)
    have out: "i \<notin> set rest" "Requeueing i \<notin> set (workers jq)"
      using jq_places(1,3) [OF inv] p by auto
    show ?thesis
      unfolding eq
    proof (rule jq_invI)
      show "count (in_flight ?q) k \<le> 1" for k using jq_invD(2) [OF inv] by (simp only: fl)
      show "dict_get (jobs ?q) k \<noteq> None" if "k \<in># in_flight ?q" for k
        using jq_invD(3) [OF inv, of k] that unfolding fl by auto
      fix k j' assume k: "dict_get (jobs ?q) k = Some j'"
      show "job_ok ?q k j'"
      proof (cases "k = i")
        case True
        then show ?thesis using k j jok out w by (auto simp: job_ok_def update_idle)
      next
        case False
        then show ?thesis using k jq_invD(4) [OF inv, of k j'] w by (auto simp: job_ok_def p update_idle)
      qed
    qed (use jq_invD(1,5) [OF inv] p in auto)
  qed
qed


text \<open>What a worker with job \<open>i\<close> in hand may do: let go of it, put it back, or wait to put it back.\<close>

lemma in_hand_iff: "in_hand x = [i] \<longleftrightarrow> x = Handling i \<or> x = Requeueing i"
  by (cases x) auto

lemma hand_facts:
  assumes inv: "jq_inv jq" and w: "w < length (workers jq)" "in_hand (workers jq ! w) = [i]"
  obtains j where "dict_get (jobs jq) i = Some j" "job_ok jq i j" "i \<notin> set (pending_ids jq)"
    "\<forall>x y. x \<noteq> Idle \<longrightarrow> (x \<in> set ((workers jq)[w := y]) \<longleftrightarrow> x = y \<or> x \<in> set (workers jq) \<and> in_hand x \<noteq> [i])"
proof -
  have "workers jq ! w \<in> set (workers jq)" using w(1) by simp
  then have h: "Handling i \<in> set (workers jq) \<or> Requeueing i \<in> set (workers jq)"
    using w(2) by (auto simp: in_hand_iff)
  then obtain j where j: "dict_get (jobs jq) i = Some j"
    using jq_invD(3) [OF inv, of i] by (auto simp: in_flight_mem)
  have "i \<notin> set (pending_ids jq)" using h jq_places(2,3) [OF inv, of i] by auto
  then show ?thesis
    using that [OF j jq_invD(4) [OF inv j]] update_held [OF w jq_places(4) [OF inv]] by blast
qed

lemma let_go_inv:
  assumes inv: "jq_inv jq" and w: "w < length (workers jq)" "in_hand (workers jq ! w) = [i]"
    and f: "\<And>j. job_ok jq i j \<Longrightarrow> j_status (f j) \<notin> {J_PENDING, J_RUNNING} \<and> retry_count (f j) \<le> max_retries (f j)"
  shows "jq_inv (set_job i f (jq\<lparr>workers := (workers jq)[w := Idle]\<rparr>))" (is "jq_inv ?q")
proof -
  obtain j where j: "dict_get (jobs jq) i = Some j" "job_ok jq i j" "i \<notin> set (pending_ids jq)"
    and upd: "\<forall>x y. x \<noteq> Idle \<longrightarrow> (x \<in> set ((workers jq)[w := y]) \<longleftrightarrow> x = y \<or> x \<in> set (workers jq) \<and> in_hand x \<noteq> [i])"
    by (rule hand_facts [OF inv w])
  have fl: "in_flight jq = add_mset i (in_flight ?q)"
    using in_flight_workers [OF w(1), of ?q Idle] w(2) by (simp add: in_flight_def)
  show ?thesis
  proof (rule jq_invI)
    show "count (in_flight ?q) k \<le> 1" for k using jq_invD(2) [OF inv, of k] by (simp add: fl split: if_splits)
    show "dict_get (jobs ?q) k \<noteq> None" if "k \<in># in_flight ?q" for k
      using jq_invD(3) [OF inv, of k] that by (auto simp: fl)
    fix k j' assume k: "dict_get (jobs ?q) k = Some j'"
    show "job_ok ?q k j'"
    proof (cases "k = i")
      case True
      then show ?thesis using k j f [OF j(2)] by (auto simp: job_ok_def upd)
    next
      case False
      then show ?thesis using k jq_invD(4) [OF inv, of k j'] by (auto simp: job_ok_def upd)
    qed
  qed (use jq_invD(1,5) [OF inv] in auto)
qed

lemma put_back_inv:
  assumes inv: "jq_inv jq" and w: "w < length (workers jq)" "in_hand (workers jq ! w) = [i]"
    and f: "\<And>j. dict_get (jobs jq) i = Some j \<Longrightarrow> j_status (f j) \<in> {J_PENDING, J_CANCELLED} \<and> retry_count (f j) \<le> max_retries (f j)"
    and room: "length (pending_ids jq) < max_queue_size jq"
  shows "jq_inv ((set_job i f jq)\<lparr>pending_ids := pending_ids jq @ [i], workers := (workers jq)[w := Idle]\<rparr>)" (is "jq_inv ?q")
proof -
  obtain j where j: "dict_get (jobs jq) i = Some j" "job_ok jq i j" "i \<notin> set (pending_ids jq)"
    and upd: "\<forall>x y. x \<noteq> Idle \<longrightarrow> (x \<in> set ((workers jq)[w := y]) \<longleftrightarrow> x = y \<or> x \<in> set (workers jq) \<and> in_hand x \<noteq> [i])"
    by (rule hand_facts [OF inv w])
  have fl: "in_flight ?q = in_flight jq"
    using in_flight_workers [OF w(1), of ?q Idle] w(2) by (simp add: in_flight_def)
  show ?thesis
  proof (rule jq_invI)
    show "count (in_flight ?q) k \<le> 1" for k using jq_invD(2) [OF inv] by (simp only: fl)
    show "dict_get (jobs ?q) k \<noteq> None" if "k \<in># in_flight ?q" for k
      using jq_invD(3) [OF inv, of k] that unfolding fl by auto
    fix k j' assume k: "dict_get (jobs ?q) k = Some j'"
    show "job_ok ?q k j'"
    proof (cases "k = i")
      case True
      then show ?thesis using k j f [OF j(1)] by (auto simp: job_ok_def upd)
    next
      case False
      then show ?thesis using k jq_invD(4) [OF inv, of k j'] by (auto simp: job_ok_def upd)
    qed
  qed (use jq_invD(1,5) [OF inv] room in auto)
qed

lemma wait_back_inv:
  assumes inv: "jq_inv jq" and w: "w < length (workers jq)" "in_hand (workers jq ! w) = [i]"
    and f: "\<And>j. dict_get (jobs jq) i = Some j \<Longrightarrow> j_status (f j) = J_PENDING \<and> retry_count (f j) \<le> max_retries (f j)"
  shows "jq_inv ((set_job i f jq)\<lparr>workers := (workers jq)[w := Requeueing i]\<rparr>)" (is "jq_inv ?q")
proof -
  obtain j where j: "dict_get (jobs jq) i = Some j" "job_ok jq i j" "i \<notin> set (pending_ids jq)"
    and upd: "\<forall>x y. x \<noteq> Idle \<longrightarrow> (x \<in> set ((workers jq)[w := y]) \<longleftrightarrow> x = y \<or> x \<in> set (workers jq) \<and> in_hand x \<noteq> [i])"
    by (rule hand_facts [OF inv w])
  have fl: "in_flight ?q = in_flight jq"
    using in_flight_workers [OF w(1), of ?q "Requeueing i"] w(2) by (simp add: in_flight_def)
  show ?thesis
  proof (rule jq_invI)
    show "count (in_flight ?q) k \<le> 1" for k using jq_invD(2) [OF inv] by (simp only: fl)
    show "dict_get (jobs ?q) k \<noteq> None" if "k \<in># in_flight ?q" for k
      using jq_invD(3) [OF inv, of k] that unfolding fl by auto
    fix k j' assume k: "dict_get (jobs ?q) k = Some j'"
    show "job_ok ?q k j'"
    proof (cases "k = i")
      case True
      then show ?thesis using k j f [OF j(1)] by (auto simp: job_ok_def upd)
    next
      case False
      then show ?thesis using k jq_invD(4) [OF inv, of k j'] by (auto simp: job_ok_def upd)
    qed
  qed (use jq_invD(1,5) [OF inv] in auto)
qed

lemma resume_inv:
  assumes inv: "jq_inv jq" and w: "w < length (workers jq)" "workers jq ! w = Handling i"
  shows "jq_inv (worker_resume w now out i jq)"
proof -
  have h: "in_hand (workers jq ! w) = [i]" using w(2) by simp
  have go: "jq_inv (finished i now (set_job i f (jq\<lparr>workers := (workers jq)[w := Idle]\<rparr>)))"
    if "\<And>j. job_ok jq i j \<Longrightarrow> j_status (f j) \<notin> {J_PENDING, J_RUNNING} \<and> retry_count (f j) \<le> max_retries (f j)" for f
    by (rule finished_inv, rule let_go_inv [OF inv w(1) h that])
  obtain j where j: "dict_get (jobs jq) i = Some j" "job_ok jq i j" by (rule hand_facts [OF inv w(1) h]) blast
  let ?retry = "\<lambda>j. j\<lparr>retry_count := retry_count j + 1, j_status := J_PENDING, started_at := None\<rparr>"
  have retry: "j_status (?retry k) \<in> {J_PENDING, J_CANCELLED} \<and> retry_count (?retry k) \<le> max_retries (?retry k)"
    if "dict_get (jobs jq) i = Some k" "retry_count j < max_retries j" for k
    using that j by auto
  show ?thesis
  proof (cases out)
    case (Returns r)
    then show ?thesis unfolding worker_resume_def by (auto intro!: go simp: job_ok_def)
  next
    case Times_Out
    then show ?thesis unfolding worker_resume_def by (auto intro!: go simp: job_ok_def)
  next
    case (Raises e)
    consider "\<not> retry_count j < max_retries j" | "retry_count j < max_retries j" "length (pending_ids jq) < max_queue_size jq"
      | "retry_count j < max_retries j" "\<not> length (pending_ids jq) < max_queue_size jq" by blast
    then show ?thesis
    proof cases
      case 1
      then show ?thesis using Raises j unfolding worker_resume_def by (auto intro!: go simp: job_ok_def)
    next
      case 2
      then have "worker_resume w now out i jq =
          finished i now ((set_job i ?retry jq)\<lparr>pending_ids := pending_ids jq @ [i], workers := (workers jq)[w := Idle]\<rparr>)"
        using Raises j by (simp add: worker_resume_def Let_def)
      then show ?thesis
        using finished_inv [OF put_back_inv [OF inv w(1) h, of ?retry]] retry 2 by simp
    next
      case 3
      then have "worker_resume w now out i jq = (set_job i ?retry jq)\<lparr>workers := (workers jq)[w := Requeueing i]\<rparr>"
        using Raises j by (simp add: worker_resume_def Let_def)
      then show ?thesis
        using wait_back_inv [OF inv w(1) h, of ?retry] 3 j by simp
    qed
  qed
qed

lemma requeued_inv:
  assumes inv: "jq_inv jq" and w: "w < length (workers jq)" "workers jq ! w = Requeueing i"
    and room: "length (pending_ids jq) < max_queue_size jq"
  shows "jq_inv (worker_requeued w now i jq)"
proof -
  have h: "in_hand (workers jq ! w) = [i]" using w(2) by simp
  obtain j where j: "dict_get (jobs jq) i = Some j" "job_ok jq i j" by (rule hand_facts [OF inv w(1) h]) blast
  have r: "Requeueing i \<in> set (workers jq)" using w nth_mem by metis
  have id: "set_job i (\<lambda>j. j) jq = jq"
  proof -
    have "dict_get d i = Some j \<Longrightarrow> AList.update i j d = d" for d :: "(string, job) pydict"
      by (induction d) auto
    then show ?thesis using j by (simp add: set_job_def)
  qed
  have "jq_inv ((set_job i (\<lambda>j. j) jq)\<lparr>pending_ids := pending_ids jq @ [i], workers := (workers jq)[w := Idle]\<rparr>)"
    by (rule put_back_inv [OF inv w(1) h _ room]) (use j r in \<open>auto simp: job_ok_def\<close>)
  then show ?thesis unfolding worker_requeued_def id by (rule finished_inv)
qed

lemma jq_step_inv: "jq_step jq jq' \<Longrightarrow> jq_inv jq \<Longrightarrow> jq_inv jq'"
proof (induction rule: jq_step.induct)
  case (register jq ty)
  then show ?case by (simp add: register_handler_def jq_inv_def in_flight_def)
qed (auto intro: submit_inv cancel_inv pick_inv resume_inv requeued_inv)

subsection \<open>Stops and restarts\<close>

text \<open>Seen without the dropped jobs the queue does what it does when it is never stopped.\<close>

definition forget :: "string set \<Rightarrow> job_queue \<Rightarrow> job_queue" where
  "forget L jq = jq\<lparr>jobs := filter (\<lambda>(i, j). i \<notin> L) (jobs jq)\<rparr>"

lemma map_of_forget: "map_of (filter (\<lambda>(i, j). i \<notin> L) d) i = (if i \<in> L then None else map_of d i)"
  by (induction d) auto

lemma dict_set_forget:
  "filter (\<lambda>(i, j). i \<notin> L) (dict_set i v d) =
     (if i \<in> L then filter (\<lambda>(i, j). i \<notin> L) d else dict_set i v (filter (\<lambda>(i, j). i \<notin> L) d))"
  by (induction d) auto

lemma forget_simps [simp]:
  "pending_ids (forget L jq) = pending_ids jq" "workers (forget L jq) = workers jq" "handlers (forget L jq) = handlers jq"
  "max_queue_size (forget L jq) = max_queue_size jq" "started (forget L jq) = started jq"
  "max_workers (forget L jq) = max_workers jq"
  "dict_get (jobs (forget L jq)) i = (if i \<in> L then None else dict_get (jobs jq) i)"
  "in_flight (forget L jq) = in_flight jq"
  by (simp_all add: forget_def map_of_forget in_flight_def)

lemma forget_set_job: "forget L (set_job i f jq) = (if i \<in> L then forget L jq else set_job i f (forget L jq))"
  by (auto simp: forget_def set_job_def dict_set_forget map_of_forget split: option.split)

lemma forget_frame:
  "forget L (jq\<lparr>pending_ids := p\<rparr>) = (forget L jq)\<lparr>pending_ids := p\<rparr>"
  "forget L (jq\<lparr>workers := ws\<rparr>) = (forget L jq)\<lparr>workers := ws\<rparr>"
  "forget L (jq\<lparr>handlers := hs\<rparr>) = (forget L jq)\<lparr>handlers := hs\<rparr>"
  by (simp_all add: forget_def)

lemma forget_step:
  assumes "jq_step jq jq'" and "\<forall>i. i \<in># in_flight jq \<longrightarrow> i \<notin> L" and "\<forall>i \<in> L. dict_get (jobs jq) i \<noteq> None"
  shows "jq_step (forget L jq) (forget L jq') \<or> forget L jq' = forget L jq"
  using assms
proof (induction rule: jq_step.induct)
  case (register jq ty)
  then show ?case using jq_step.register [of "forget L jq" ty] by (simp add: register_handler_def forget_frame)
next
  case (submit i now nm ty prio tmo jq jq')
  then have "i \<notin> L" by blast
  then have "jq_submit i now nm ty prio tmo (forget L jq) = Inr (forget L jq')"
    using submit.hyps(1) by (auto simp: jq_submit_def forget_def dict_set_forget split: if_splits)
  then show ?case using jq_step.submit submit.hyps(2) by simp
next
  case (cancel jq i now)
  show ?case
  proof (cases "i \<in> L")
    case True
    then show ?thesis by (simp add: jq_cancel_def forget_set_job split: option.split)
  next
    case False
    then have "forget L (snd (jq_cancel i now jq)) = snd (jq_cancel i now (forget L jq))"
      by (simp add: jq_cancel_def forget_set_job split: option.split)
    then show ?thesis using jq_step.cancel [of "forget L jq" i now] by simp
  qed
next
  case (pick w jq now)
  have "i \<notin> L" if "pending_ids jq = i # rest" for i rest
    using pick.prems(1) that by (auto simp: in_flight_mem)
  then have "forget L (worker_pick w now jq) = worker_pick w now (forget L jq)"
    by (auto simp: worker_pick_def forget_set_job forget_frame Let_def split: list.split option.split)
  then show ?case using jq_step.pick [of w "forget L jq" now] pick.hyps by simp
next
  case (resume w jq i now out)
  then have "i \<notin> L" by (metis in_flight_mem nth_mem)
  then have "forget L (worker_resume w now out i jq) = worker_resume w now out i (forget L jq)"
    by (auto simp: worker_resume_def finished_def forget_set_job forget_frame Let_def split: outcome.split option.split)
  then show ?case using jq_step.resume [of w "forget L jq" i now out] resume.hyps by simp
next
  case (requeued w jq i now)
  then have "i \<notin> L" by (metis in_flight_mem nth_mem)
  then have "forget L (worker_requeued w now i jq) = worker_requeued w now i (forget L jq)"
    by (simp add: worker_requeued_def finished_def forget_set_job forget_frame)
  then show ?case using jq_step.requeued [of w "forget L jq" i now] requeued.hyps by simp
qed

text \<open>The jobs that are dropped stay known, are nowhere any more, and keep within their retries.\<close>

definition dropped_ok :: "string set \<Rightarrow> job_queue \<Rightarrow> bool" where
  "dropped_ok L jq \<longleftrightarrow>
     (\<forall>i \<in> L. i \<notin># in_flight jq \<and> (\<exists>j. dict_get (jobs jq) i = Some j \<and> retry_count j \<le> max_retries j))"

lemma set_update_memD: "x \<in> set (xs[i := y]) \<Longrightarrow> x = y \<or> x \<in> set xs"
  using set_update_subset_insert [of xs i y] by blast

lemma dropped_untouched:
  assumes "jq_step jq jq'" and "i \<notin># in_flight jq" and "dict_get (jobs jq) i = Some j"
  shows "i \<notin># in_flight jq' \<and> (\<exists>j'. dict_get (jobs jq') i = Some j' \<and> retry_count j' = retry_count j \<and> max_retries j' = max_retries j)"
  using assms
proof (induction rule: jq_step.induct)
  case (register jq ty)
  then show ?case by (simp add: register_handler_def in_flight_def)
next
  case (submit i' now nm ty prio tmo jq jq')
  then have "i \<noteq> i'" by auto
  then show ?case using submit by (auto simp: jq_submit_def in_flight_mem split: if_splits)
next
  case (cancel jq i' now)
  then show ?case by (auto simp: jq_cancel_def in_flight_mem split: option.split)
next
  case (pick w jq now)
  then show ?case
    by (auto simp: worker_pick_def in_flight_mem Let_def dest: set_update_memD split: list.splits option.splits)
next
  case (resume w jq i' now out)
  then have "i' \<noteq> i" by (metis in_flight_mem nth_mem)
  then show ?case using resume
    by (auto simp: worker_resume_def finished_def in_flight_mem Let_def dest: set_update_memD split: outcome.splits option.splits)
next
  case (requeued w jq i' now)
  then have "i' \<noteq> i" by (metis in_flight_mem nth_mem)
  then show ?case using requeued
    by (auto simp: worker_requeued_def finished_def in_flight_mem dest: set_update_memD)
qed

lemma dropped_ok_step: "jq_step jq jq' \<Longrightarrow> dropped_ok L jq \<Longrightarrow> dropped_ok L jq'"
  unfolding dropped_ok_def using dropped_untouched by metis

lemma stop_effect:
  "jq_stop now jq = (fold (\<lambda>i. finished i now) (concat (map in_hand (workers jq))) jq)\<lparr>workers := []\<rparr>"
proof -
  have "fold (\<lambda>ws jq. case ws of Handling i \<Rightarrow> finished i now jq | Requeueing i \<Rightarrow> finished i now jq | Idle \<Rightarrow> jq) ws jq
      = fold (\<lambda>i. finished i now) (concat (map in_hand ws)) jq" for ws
  proof (induction ws arbitrary: jq)
    case (Cons w ws)
    then show ?case by (cases w) simp_all
  qed simp
  then show ?thesis by (simp add: jq_stop_def Let_def)
qed

lemma fold_finished:
  "pending_ids (fold (\<lambda>i. finished i now) is jq) = pending_ids jq \<and> workers (fold (\<lambda>i. finished i now) is jq) = workers jq
   \<and> max_queue_size (fold (\<lambda>i. finished i now) is jq) = max_queue_size jq
   \<and> (dict_ok (jobs jq) \<longrightarrow> dict_ok (jobs (fold (\<lambda>i. finished i now) is jq)))
   \<and> dict_get (jobs (fold (\<lambda>i. finished i now) is jq)) k =
       (if k \<in> set is then map_option (\<lambda>j. j\<lparr>completed_at := Some now\<rparr>) (dict_get (jobs jq) k) else dict_get (jobs jq) k)"
proof (induction "is" arbitrary: jq)
  case (Cons i "is")
  then show ?case by (auto simp: finished_def option.map_comp comp_def)
qed simp

lemma stop_facts:
  "pending_ids (jq_stop now jq) = pending_ids jq" "workers (jq_stop now jq) = []" "max_queue_size (jq_stop now jq) = max_queue_size jq"
  "dict_ok (jobs jq) \<Longrightarrow> dict_ok (jobs (jq_stop now jq))"
  "dict_get (jobs (jq_stop now jq)) k =
     (if k \<in> set (concat (map in_hand (workers jq))) then map_option (\<lambda>j. j\<lparr>completed_at := Some now\<rparr>) (dict_get (jobs jq) k)
      else dict_get (jobs jq) k)"
  using fold_finished [of now "concat (map in_hand (workers jq))" jq k] by (simp_all add: stop_effect)

lemma in_hands: "i \<in> set (concat (map in_hand ws)) \<longleftrightarrow> Handling i \<in> set ws \<or> Requeueing i \<in> set ws"
proof (induction ws)
  case (Cons w ws)
  then show ?case by (cases w) auto
qed simp

lemma dict_ok_forget: "dict_ok (jobs jq) \<Longrightarrow> dict_ok (jobs (forget L jq))"
  by (simp add: forget_def dict_ok_def distinct_map_filter)

definition history_inv :: "string set \<Rightarrow> job_queue \<Rightarrow> bool" where
  "history_inv L jq \<longleftrightarrow> dict_ok (jobs jq) \<and> jq_inv (forget L jq) \<and> dropped_ok L jq"

lemma dict_ok_jobs_set_job: "dict_ok (jobs jq) \<Longrightarrow> dict_ok (jobs (set_job i f jq))"
  by (rule set_job_simps(5))

lemma jq_step_dict_ok: "jq_step jq jq' \<Longrightarrow> dict_ok (jobs jq) \<Longrightarrow> dict_ok (jobs jq')"
proof (induction rule: jq_step.induct)
  case (submit i now nm ty prio tmo jq jq')
  then show ?case by (auto simp: jq_submit_def split: if_splits)
qed (auto simp: register_handler_def jq_cancel_def worker_pick_def worker_resume_def worker_requeued_def finished_def Let_def
    split: option.splits list.splits outcome.splits intro!: dict_ok_jobs_set_job)

lemma stop_inv:
  assumes "history_inv L jq"
  shows "history_inv (L \<union> set (concat (map in_hand (workers jq)))) (jq_stop now jq)"
proof -
  let ?L = "L \<union> set (concat (map in_hand (workers jq)))" and ?q = "jq_stop now jq"
  have inv: "jq_inv (forget L jq)" and dr: "dropped_ok L jq" and d: "dict_ok (jobs jq)"
    using assms by (simp_all add: history_inv_def)
  have c: "count (in_flight jq) i \<le> 1" for i using jq_invD(2) [OF inv, of i] by simp
  have fl: "in_flight ?q = mset (pending_ids jq)" by (simp add: in_flight_def stop_facts)
  have out: "i \<notin> ?L" if "i \<in> set (pending_ids jq)" for i
    using that jq_places(2,3) [OF inv, of i] dr unfolding Un_iff in_hands by (auto simp: dropped_ok_def in_flight_mem)
  have known: "\<exists>j. dict_get (jobs jq) i = Some j \<and> retry_count j \<le> max_retries j \<and> i \<notin> L"
    if "i \<in> set (concat (map in_hand (workers jq)))" for i
  proof -
    have "i \<in># in_flight (forget L jq)" using that unfolding in_hands by (auto simp: in_flight_mem)
    from jq_invD(3) [OF inv this] obtain j where "dict_get (jobs (forget L jq)) i = Some j" by auto
    then show ?thesis using jq_invD(4) [OF inv, of i j] by (auto simp: job_ok_def split: if_splits)
  qed
  have "jq_inv (forget ?L ?q)"
  proof (rule jq_invI)
    show "dict_ok (jobs (forget ?L ?q))" by (intro dict_ok_forget stop_facts d)
    show "count (in_flight (forget ?L ?q)) i \<le> 1" for i
      using c [of i] by (simp add: fl) (simp add: in_flight_def)
    show "dict_get (jobs (forget ?L ?q)) i \<noteq> None" if "i \<in># in_flight (forget ?L ?q)" for i
      using that out [of i] jq_invD(3) [OF inv, of i] by (auto simp: fl stop_facts in_flight_mem split: if_splits)
    show "length (pending_ids (forget ?L ?q)) \<le> max_queue_size (forget ?L ?q)"
      using jq_invD(5) [OF inv] by (simp add: stop_facts)
    fix i j assume "dict_get (jobs (forget ?L ?q)) i = Some j"
    then have i: "i \<notin> L" "i \<notin> set (concat (map in_hand (workers jq)))" "dict_get (jobs jq) i = Some j"
      by (auto simp: stop_facts split: if_splits)
    then have "job_ok (forget L jq) i j" using jq_invD(4) [OF inv, of i j] by simp
    then show "job_ok (forget ?L ?q) i j" using i(2) by (auto simp: job_ok_def stop_facts in_hands)
  qed
  moreover have "dropped_ok ?L ?q"
    unfolding dropped_ok_def
  proof
    fix i assume i: "i \<in> ?L"
    then have "i \<notin># in_flight ?q" using out [of i] by (auto simp: fl)
    moreover have "\<exists>j. dict_get (jobs jq) i = Some j \<and> retry_count j \<le> max_retries j"
      using i known [of i] dr by (auto simp: dropped_ok_def)
    ultimately show "i \<notin># in_flight ?q \<and> (\<exists>j. dict_get (jobs ?q) i = Some j \<and> retry_count j \<le> max_retries j)"
      by (auto simp: stop_facts(5))
  qed
  ultimately show ?thesis using d by (simp add: history_inv_def stop_facts(4))
qed

lemma idle_workers: "(\<Sum>ws\<leftarrow>replicate n Idle. mset (in_hand ws)) = {#}"
  by (induction n) auto

lemma restart_inv:
  assumes "history_inv L jq" and "workers jq = []"
  shows "history_inv (L \<union> set (pending_ids jq)) (jq_start jq)"
proof -
  let ?L = "L \<union> set (pending_ids jq)" and ?q = "jq_start jq"
  have inv: "jq_inv (forget L jq)" and dr: "dropped_ok L jq" and d: "dict_ok (jobs jq)"
    using assms(1) by (simp_all add: history_inv_def)
  have q: "pending_ids ?q = []" "workers ?q = replicate (max_workers jq) Idle" "jobs ?q = jobs jq"
    by (simp_all add: jq_start_def assms(2))
  have fl: "in_flight ?q = {#}" unfolding in_flight_def q idle_workers by simp
  have "jq_inv (forget ?L ?q)"
  proof (rule jq_invI)
    show "dict_ok (jobs (forget ?L ?q))" by (intro dict_ok_forget) (simp add: q d)
    fix i j assume "dict_get (jobs (forget ?L ?q)) i = Some j"
    then have i: "i \<notin> L" "i \<notin> set (pending_ids jq)" "dict_get (jobs jq) i = Some j" by (auto simp: q split: if_splits)
    then have "job_ok (forget L jq) i j" using jq_invD(4) [OF inv, of i j] by simp
    then show "job_ok (forget ?L ?q) i j" using i(2) assms(2) by (auto simp: job_ok_def q)
  qed (simp_all add: fl q)
  moreover have "\<exists>j. dict_get (jobs jq) i = Some j \<and> retry_count j \<le> max_retries j" if "i \<in> ?L" for i
  proof (cases "i \<in> L")
    case True
    then show ?thesis using dr by (auto simp: dropped_ok_def)
  next
    case False
    then have "i \<in># in_flight (forget L jq)" using that by (simp add: in_flight_mem)
    from jq_invD(3) [OF inv this] obtain j where "dict_get (jobs (forget L jq)) i = Some j" by auto
    then show ?thesis using jq_invD(4) [OF inv, of i j] by (auto simp: job_ok_def split: if_splits)
  qed
  ultimately show ?thesis using d by (simp add: history_inv_def dropped_ok_def fl q)
qed

lemma jq_history_inv: "jq_history jq L \<Longrightarrow> history_inv L jq"
proof (induction rule: jq_history.induct)
  case (start w n)
  have "history_inv {} (jq_init w n)"
    by (simp add: history_inv_def dropped_ok_def jq_inv_iff in_flight_def forget_def jq_init_def)
  from restart_inv [OF this] show ?case by (simp add: jq_init_def)
next
  case (step jq L jq')
  then have inv: "jq_inv (forget L jq)" and dr: "dropped_ok L jq" by (simp_all add: history_inv_def)
  have "jq_step (forget L jq) (forget L jq') \<or> forget L jq' = forget L jq"
    by (rule forget_step [OF step.hyps(2)]) (use dr in \<open>auto simp: dropped_ok_def\<close>)
  then have "jq_inv (forget L jq')" using jq_step_inv inv by metis
  then show ?case
    using step jq_step_dict_ok dropped_ok_step [OF step.hyps(2) dr] by (auto simp: history_inv_def)
qed (simp_all only: stop_inv restart_inv)

subsection \<open>Properties\<close>

text \<open>C15: no job is lost while the queue runs, none runs twice at once, and only a stop drops jobs. In every history of submissions
  with fresh ids, cancellations, worker steps, stops and starts after a stop: an id is in at most one place, in the queue once or in one worker's
  hands; a pending job is queued or about to be and a running job is in a worker's hands, unless it was dropped, by a stop in a
  worker's hands or by a later start in the old queue; a dropped job is in no place again; the queue stays within its
  bound and no job is retried more often than allowed.\<close>

theorem no_job_lost:
  assumes "jq_history jq dropped" and "dict_get (jobs jq) i = Some j"
  shows "count (in_flight jq) i \<le> 1 \<and> retry_count j \<le> max_retries j
    \<and> (j_status j = J_PENDING \<longrightarrow> i \<in> set (pending_ids jq) \<or> Requeueing i \<in> set (workers jq) \<or> i \<in> dropped)
    \<and> (j_status j = J_RUNNING \<longrightarrow> Handling i \<in> set (workers jq) \<or> i \<in> dropped)
    \<and> (i \<in> dropped \<longrightarrow> i \<notin># in_flight jq)
    \<and> length (pending_ids jq) \<le> max_queue_size jq"
proof -
  have inv: "jq_inv (forget dropped jq)" and dr: "dropped_ok dropped jq"
    using jq_history_inv [OF assms(1)] by (simp_all add: history_inv_def)
  have "count (in_flight jq) i \<le> 1" "length (pending_ids jq) \<le> max_queue_size jq"
    using jq_invD(2,5) [OF inv] by simp_all
  moreover have "job_ok (forget dropped jq) i j" if "i \<notin> dropped"
    using jq_invD(4) [OF inv, of i j] assms(2) that by simp
  moreover have "i \<notin># in_flight jq \<and> retry_count j \<le> max_retries j" if "i \<in> dropped"
    using dr assms(2) that by (auto simp: dropped_ok_def)
  ultimately show ?thesis by (cases "i \<in> dropped") (auto simp: job_ok_def)
qed

definition jq_demo :: job_queue where
  \<comment> \<open>one worker, one handler, two jobs, the second with the higher priority\<close>
  "jq_demo =
     (case jq_submit ''a'' 1 ''first'' ''backtest'' 0 600 (register_handler ''backtest'' (jq_start (jq_init 1 5))) of
        Inl _ \<Rightarrow> jq_init 0 0
      | Inr jq \<Rightarrow> (case jq_submit ''b'' 2 ''second'' ''backtest'' 9 600 jq of Inl _ \<Rightarrow> jq_init 0 0 | Inr jq \<Rightarrow> jq))"

lemma jq_demo_reachable: "jq_history jq_demo {}"
proof -
  have 0: "jq_history (register_handler ''backtest'' (jq_start (jq_init 1 5))) {}"
    by (rule jq_history.step [OF jq_history.start jq_step.register])
  obtain jq1 where 1: "jq_submit ''a'' 1 ''first'' ''backtest'' 0 600 (register_handler ''backtest'' (jq_start (jq_init 1 5))) = Inr jq1"
    and j1: "dict_get (jobs jq1) ''b'' = None"
    by (simp add: jq_submit_def register_handler_def jq_start_def jq_init_def)
  have r1: "jq_history jq1 {}"
    by (rule jq_history.step [OF 0 jq_step.submit [OF 1]]) (simp add: register_handler_def jq_start_def jq_init_def)
  obtain jq2 where 2: "jq_submit ''b'' 2 ''second'' ''backtest'' 9 600 jq1 = Inr jq2" and d: "jq_demo = jq2"
    using 1 by (auto simp: jq_submit_def register_handler_def jq_start_def jq_init_def jq_demo_def)
  show ?thesis unfolding d by (rule jq_history.step [OF r1 jq_step.submit [OF 2 j1]])
qed

theorem no_job_lost_witness: "count (in_flight jq_demo) ''a'' \<le> 1"
proof -
  have "dict_get (jobs jq_demo) ''a'' \<noteq> None" by code_simp
  then obtain j where "dict_get (jobs jq_demo) ''a'' = Some j" by blast
  from no_job_lost [OF jq_demo_reachable this] show ?thesis by blast
qed

text \<open>What a stop drops stays as it was: after a stop and a new start the job that was running is still
  RUNNING and the one that was queued still PENDING, and no worker and no queue has either.\<close>

lemma restart_abandons_jobs:
  "let jq = jq_start (jq_stop 5 (worker_pick 0 3 jq_demo))
   in map (\<lambda>(i, j). (i, j_status j)) (jobs jq) = [(''a'', J_RUNNING), (''b'', J_PENDING)] \<and> in_flight jq = {#}"
proof -
  let ?jq = "jq_start (jq_stop 5 (worker_pick 0 3 jq_demo))"
  have "map (\<lambda>(i, j). (i, j_status j)) (jobs ?jq) = [(''a'', J_RUNNING), (''b'', J_PENDING)]"
    "pending_ids ?jq = []" "workers ?jq = [Idle]"
    by code_simp+
  then show ?thesis by (simp add: in_flight_def Let_def)
qed

text \<open>Cancelling does not stop a running job: \<open>cancel\<close> answers that the job is cancelled, but when
  its handler returns the job is recorded as completed and its result is served, and when the
  handler raises the cancelled job is put back into the queue.\<close>

theorem cancel_running_is_undone:
  assumes "dict_get (jobs jq) i = Some j" and "j_status j = J_RUNNING" and "retry_count j < max_retries j"
    and "length (pending_ids jq) < max_queue_size jq"
  shows "(let (ok, jq1) = jq_cancel i now jq in
      ok \<and> map_option j_status (get_status i jq1) = Some J_CANCELLED
      \<and> get_result i (worker_resume w later (Returns r) i jq1) = Some r
      \<and> map_option j_status (get_status i (worker_resume w later (Raises e) i jq1)) = Some J_PENDING
      \<and> i \<in> set (pending_ids (worker_resume w later (Raises e) i jq1)))"
  using assms by (simp add: jq_cancel_def worker_resume_def get_status_def get_result_def finished_def Let_def)

theorem cancel_running_is_undone_witness:
  "get_result ''a'' (worker_resume 0 9 (Returns ''done'') ''a'' (snd (jq_cancel ''a'' 5 (worker_pick 0 3 jq_demo)))) = Some ''done''"
proof -
  let ?q = "worker_pick 0 3 jq_demo"
  have "map_option (\<lambda>j. (j_status j, retry_count j, max_retries j)) (dict_get (jobs ?q) ''a'') = Some (J_RUNNING, 0, 2)"
    and q: "length (pending_ids ?q) < max_queue_size ?q"
    by code_simp+
  then obtain j where "dict_get (jobs ?q) ''a'' = Some j" "j_status j = J_RUNNING" "retry_count j < max_retries j" by auto
  from cancel_running_is_undone [OF this q, of 5 0 9 "''done''" "[]"] show ?thesis by (auto simp: case_prod_beta' Let_def)
qed

text \<open>The priority of a job has no effect: a worker takes the id that was queued first.\<close>

lemma pick_is_fifo: "pending_ids jq = i # rest \<Longrightarrow> pending_ids (worker_pick w now jq) = rest"
  by (auto simp: worker_pick_def Let_def split: option.split)

end
