(* ===== verification/Job_Lock.thy ===== *)
theory Job_Lock
  imports Prelude
begin

text \<open>
  Job locks (\<open>jobs/locking.py\<close>) and job deduplication (\<open>jobs/deduplication.py\<close>).

  Redis is not part of the repository: its client is an argument, a record of the five calls the code
  makes, each on a state \<open>'r\<close> of the server and with \<open>None\<close> for a raised exception. Without a client the
  class works on a table in memory. \<open>time.monotonic()\<close> readings are arguments; \<open>acquire\<close> takes two.
\<close>

subsection \<open>The lock table\<close>

record 'r redis_client =
  rd_set_nx :: "string \<Rightarrow> string \<Rightarrow> int \<Rightarrow> 'r \<Rightarrow> bool option \<times> 'r"
  rd_release :: "string \<Rightarrow> string \<Rightarrow> 'r \<Rightarrow> bool option \<times> 'r" \<comment> \<open>the compare-and-delete script\<close>
  rd_extend :: "string \<Rightarrow> string \<Rightarrow> int \<Rightarrow> 'r \<Rightarrow> bool option \<times> 'r" \<comment> \<open>the compare-and-expire script\<close>
  rd_exists :: "string \<Rightarrow> 'r \<Rightarrow> bool option \<times> 'r"
  rd_get :: "string \<Rightarrow> 'r \<Rightarrow> string option option \<times> 'r"

record job_locking =
  default_ttl :: pytime
  locks :: "(string, string \<times> pytime) pydict"

definition locking_init :: "pytime \<Rightarrow> job_locking" where
  "locking_init ttl = \<lparr>default_ttl = ttl, locks = []\<rparr>"

definition or_false :: "bool option \<times> 'r \<Rightarrow> bool \<times> 'r" where
  \<comment> \<open>an exception is logged and answered with \<open>False\<close>\<close>
  "or_false res = (case res of (Some b, r) \<Rightarrow> (b, r) | (None, r) \<Rightarrow> (False, r))"

definition acquire_redis :: "'r redis_client \<Rightarrow> string \<Rightarrow> string \<Rightarrow> pytime \<Rightarrow> 'r \<Rightarrow> bool \<times> 'r" where
  "acquire_redis c key owner ttl r = or_false (rd_set_nx c key owner (py_int (ttl * 1000)) r)"

definition release_redis :: "'r redis_client \<Rightarrow> string \<Rightarrow> string \<Rightarrow> 'r \<Rightarrow> bool \<times> 'r" where
  "release_redis c key owner r = or_false (rd_release c key owner r)"

definition extend_redis :: "'r redis_client \<Rightarrow> string \<Rightarrow> string \<Rightarrow> pytime \<Rightarrow> 'r \<Rightarrow> bool \<times> 'r" where
  "extend_redis c key owner ttl r = or_false (rd_extend c key owner (py_int (ttl * 1000)) r)"

definition is_locked_redis :: "'r redis_client \<Rightarrow> string \<Rightarrow> 'r \<Rightarrow> bool \<times> 'r" where
  "is_locked_redis c key r = or_false (rd_exists c key r)"

definition get_owner_redis :: "'r redis_client \<Rightarrow> string \<Rightarrow> 'r \<Rightarrow> string option \<times> 'r" where
  "get_owner_redis c key r = (case rd_get c key r of (Some x, r1) \<Rightarrow> (x, r1) | (None, r1) \<Rightarrow> (None, r1))"

definition mem_acquire :: "pytime \<Rightarrow> pytime \<Rightarrow> string \<Rightarrow> string \<Rightarrow> pytime \<Rightarrow> job_locking \<Rightarrow> bool \<times> job_locking" where
  \<comment> \<open>the in-memory part; \<open>now\<close> is read for the check, \<open>now'\<close> for the new expiry\<close>
  "mem_acquire now now' key owner ttl s =
     (case dict_get (locks s) key of
        Some (existing_owner, expires_at) \<Rightarrow>
          if now < expires_at \<and> existing_owner \<noteq> owner then (False, s)
          else (True, s\<lparr>locks := dict_set key (owner, now' + ttl) (locks s)\<rparr>)
      | None \<Rightarrow> (True, s\<lparr>locks := dict_set key (owner, now' + ttl) (locks s)\<rparr>))"

definition mem_release :: "string \<Rightarrow> string \<Rightarrow> job_locking \<Rightarrow> bool \<times> job_locking" where
  "mem_release key owner s =
     (case dict_get (locks s) key of
        None \<Rightarrow> (True, s)
      | Some (o', e) \<Rightarrow> if o' \<noteq> owner then (False, s) else (True, s\<lparr>locks := dict_del key (locks s)\<rparr>))"

definition mem_is_locked :: "pytime \<Rightarrow> string \<Rightarrow> job_locking \<Rightarrow> bool \<times> job_locking" where
  "mem_is_locked now key s =
     (case dict_get (locks s) key of
        None \<Rightarrow> (False, s)
      | Some (o', e) \<Rightarrow> if now \<ge> e then (False, s\<lparr>locks := dict_del key (locks s)\<rparr>) else (True, s))"

definition mem_extend :: "pytime \<Rightarrow> string \<Rightarrow> string \<Rightarrow> pytime \<Rightarrow> job_locking \<Rightarrow> bool \<times> job_locking" where
  "mem_extend now key owner ttl s =
     (case dict_get (locks s) key of
        None \<Rightarrow> (False, s)
      | Some (o', e) \<Rightarrow>
          if o' \<noteq> owner then (False, s) else (True, s\<lparr>locks := dict_set key (owner, now + ttl) (locks s)\<rparr>))"

definition mem_get_owner :: "pytime \<Rightarrow> string \<Rightarrow> job_locking \<Rightarrow> string option \<times> job_locking" where
  "mem_get_owner now key s =
     (case dict_get (locks s) key of
        None \<Rightarrow> (None, s)
      | Some (o', e) \<Rightarrow> if now < e then (Some o', s) else (None, s\<lparr>locks := dict_del key (locks s)\<rparr>))"

definition lock_clear :: "job_locking \<Rightarrow> job_locking" where
  "lock_clear s = s\<lparr>locks := []\<rparr>"

definition purge_expired :: "pytime \<Rightarrow> job_locking \<Rightarrow> nat \<times> job_locking" where
  "purge_expired now s =
     (let expired = map fst (filter (\<lambda>(k, o', e). now \<ge> e) (locks s))
      in (length expired, s\<lparr>locks := fold dict_del expired (locks s)\<rparr>))"

definition effective_ttl :: "pytime option \<Rightarrow> job_locking \<Rightarrow> pytime" where
  \<comment> \<open>\<open>ttl or self._default_ttl\<close>: zero counts as not given\<close>
  "effective_ttl ttl s = (case ttl of None \<Rightarrow> default_ttl s | Some x \<Rightarrow> if x = 0 then default_ttl s else x)"

definition lock_acquire ::
  "'r redis_client option \<Rightarrow> pytime \<Rightarrow> pytime \<Rightarrow> string \<Rightarrow> string \<Rightarrow> pytime option \<Rightarrow> job_locking \<times> 'r \<Rightarrow> bool \<times> job_locking \<times> 'r" where
  "lock_acquire client now now' key owner ttl st =
     (case (client, st) of
        (Some c, (s, r)) \<Rightarrow> (let (b, r1) = acquire_redis c key owner (effective_ttl ttl s) r in (b, s, r1))
      | (None, (s, r)) \<Rightarrow> (let (b, s1) = mem_acquire now now' key owner (effective_ttl ttl s) s in (b, s1, r)))"

definition lock_release ::
  "'r redis_client option \<Rightarrow> string \<Rightarrow> string \<Rightarrow> job_locking \<times> 'r \<Rightarrow> bool \<times> job_locking \<times> 'r" where
  "lock_release client key owner st =
     (case (client, st) of
        (Some c, (s, r)) \<Rightarrow>
          (case release_redis c key owner r of
             (True, r1) \<Rightarrow> (True, s, r1)
           | (False, r1) \<Rightarrow> (let (b, r2) = is_locked_redis c key r1 in (\<not> b, s, r2)))
      | (None, (s, r)) \<Rightarrow> (let (b, s1) = mem_release key owner s in (b, s1, r)))"

definition lock_is_locked :: "'r redis_client option \<Rightarrow> pytime \<Rightarrow> string \<Rightarrow> job_locking \<times> 'r \<Rightarrow> bool \<times> job_locking \<times> 'r" where
  "lock_is_locked client now key st =
     (case (client, st) of
        (Some c, (s, r)) \<Rightarrow> (let (b, r1) = is_locked_redis c key r in (b, s, r1))
      | (None, (s, r)) \<Rightarrow> (let (b, s1) = mem_is_locked now key s in (b, s1, r)))"

definition lock_extend ::
  "'r redis_client option \<Rightarrow> pytime \<Rightarrow> string \<Rightarrow> string \<Rightarrow> pytime \<Rightarrow> job_locking \<times> 'r \<Rightarrow> bool \<times> job_locking \<times> 'r" where
  "lock_extend client now key owner ttl st =
     (case (client, st) of
        (Some c, (s, r)) \<Rightarrow> (let (b, r1) = extend_redis c key owner ttl r in (b, s, r1))
      | (None, (s, r)) \<Rightarrow> (let (b, s1) = mem_extend now key owner ttl s in (b, s1, r)))"

definition lock_get_owner ::
  "'r redis_client option \<Rightarrow> pytime \<Rightarrow> string \<Rightarrow> job_locking \<times> 'r \<Rightarrow> string option \<times> job_locking \<times> 'r" where
  "lock_get_owner client now key st =
     (case (client, st) of
        (Some c, (s, r)) \<Rightarrow> (let (x, r1) = get_owner_redis c key r in (x, s, r1))
      | (None, (s, r)) \<Rightarrow> (let (x, s1) = mem_get_owner now key s in (x, s1, r)))"

subsection \<open>The facade with its own token\<close>

definition job_key :: "string \<Rightarrow> string" where
  "job_key job = ''job:'' @ job"

definition facade_acquire ::
  "string \<Rightarrow> 'r redis_client option \<Rightarrow> pytime \<Rightarrow> pytime \<Rightarrow> string \<Rightarrow> pytime option \<Rightarrow> job_locking \<times> 'r \<Rightarrow> bool \<times> job_locking \<times> 'r" where
  "facade_acquire token client now now' job ttl = lock_acquire client now now' (job_key job) token ttl"

definition facade_release ::
  "string \<Rightarrow> 'r redis_client option \<Rightarrow> string \<Rightarrow> job_locking \<times> 'r \<Rightarrow> bool \<times> job_locking \<times> 'r" where
  "facade_release token client job = lock_release client (job_key job) token"

definition facade_extend ::
  "string \<Rightarrow> 'r redis_client option \<Rightarrow> pytime \<Rightarrow> string \<Rightarrow> int \<Rightarrow> job_locking \<times> 'r \<Rightarrow> bool \<times> job_locking \<times> 'r" where
  "facade_extend token client now job ttl = lock_extend client now (job_key job) token (of_int ttl)"

definition facade_is_locked ::
  "'r redis_client option \<Rightarrow> pytime \<Rightarrow> string \<Rightarrow> job_locking \<times> 'r \<Rightarrow> bool \<times> job_locking \<times> 'r" where
  "facade_is_locked client now job = lock_is_locked client now (job_key job)"

subsection \<open>Deduplication\<close>

record deduplicator =
  dd_store :: "(string, pytime) pydict"
  dd_ttl :: pytime

definition dd_purge :: "pytime \<Rightarrow> deduplicator \<Rightarrow> deduplicator" where
  "dd_purge now d = d\<lparr>dd_store := fold dict_del (map fst (filter (\<lambda>(k, e). now \<ge> e) (dd_store d))) (dd_store d)\<rparr>"

definition is_duplicate :: "pytime \<Rightarrow> string \<Rightarrow> deduplicator \<Rightarrow> bool \<times> deduplicator" where
  "is_duplicate now key d = (let d1 = dd_purge now d in (dict_get (dd_store d1) key \<noteq> None, d1))"

definition dd_mark :: "pytime \<Rightarrow> string \<Rightarrow> pytime option \<Rightarrow> deduplicator \<Rightarrow> deduplicator" where
  "dd_mark now key ttl d =
     d\<lparr>dd_store := dict_set key (now + (case ttl of None \<Rightarrow> dd_ttl d | Some x \<Rightarrow> if x = 0 then dd_ttl d else x)) (dd_store d)\<rparr>"

definition dd_remove :: "string \<Rightarrow> deduplicator \<Rightarrow> deduplicator" where
  "dd_remove key d = d\<lparr>dd_store := dict_del key (dd_store d)\<rparr>"

definition dd_clear :: "deduplicator \<Rightarrow> deduplicator" where
  "dd_clear d = d\<lparr>dd_store := []\<rparr>"

subsection \<open>A lock store excludes other workers\<close>

locale lock_store =
  fixes acquire :: "pytime \<Rightarrow> string \<Rightarrow> string \<Rightarrow> pytime \<Rightarrow> 's \<Rightarrow> bool \<times> 's"
    and release :: "string \<Rightarrow> string \<Rightarrow> 's \<Rightarrow> bool \<times> 's"
    and holder :: "pytime \<Rightarrow> string \<Rightarrow> 's \<Rightarrow> string option"
  assumes acquire_iff: "fst (acquire t k w ttl s) \<longleftrightarrow> holder t k s = None \<or> holder t k s = Some w"
    and acquire_refused: "\<not> fst (acquire t k w ttl s) \<Longrightarrow> snd (acquire t k w ttl s) = s"
    and acquire_holds: "fst (acquire t k w ttl s) \<Longrightarrow>
      holder u j (snd (acquire t k w ttl s)) = (if j = k then if u < t + ttl then Some w else None else holder u j s)"
    and release_frees: "fst (release k w s) \<Longrightarrow> holder u j (snd (release k w s)) = (if j = k then None else holder u j s)"
    and release_refused: "\<not> fst (release k w s) \<Longrightarrow> snd (release k w s) = s"
begin

lemma excludes:
  assumes "fst (acquire t k w ttl s)" "u < t + ttl" "v \<noteq> w"
  shows "\<not> fst (acquire u k v ttl' (snd (acquire t k w ttl s)))"
  using assms by (simp add: acquire_iff [of u k v] acquire_holds)

lemma expires:
  assumes "fst (acquire t k w ttl s)" "t + ttl \<le> u"
  shows "fst (acquire u k v ttl' (snd (acquire t k w ttl s)))"
  using assms by (simp add: acquire_iff [of u k v] acquire_holds)

lemma hand_over:
  assumes "fst (release k w s)"
  shows "fst (acquire u k v ttl (snd (release k w s)))"
  using assms by (simp add: acquire_iff release_frees)

lemma independent:
  assumes "j \<noteq> k"
  shows "fst (acquire u j v ttl' (snd (acquire t k w ttl s))) = fst (acquire u j v ttl' s)"
  using assms by (cases "fst (acquire t k w ttl s)") (simp_all add: acquire_iff [of u j v] acquire_holds acquire_refused)

end

definition mem_holder :: "pytime \<Rightarrow> string \<Rightarrow> job_locking \<Rightarrow> string option" where
  "mem_holder now key s = fst (mem_get_owner now key s)"

lemma mem_holder_simp:
  "mem_holder now key s = (case dict_get (locks s) key of None \<Rightarrow> None | Some (w, e) \<Rightarrow> if now < e then Some w else None)"
  by (auto simp: mem_holder_def mem_get_owner_def split: option.split)

lemmas lock_defs = mem_holder_simp mem_acquire_def mem_release_def

interpretation mem: lock_store "\<lambda>t. mem_acquire t t" mem_release mem_holder
proof unfold_locales
  show "fst (mem_acquire t t k w ttl s) \<longleftrightarrow> mem_holder t k s = None \<or> mem_holder t k s = Some w" for t k w ttl s
    by (auto simp: lock_defs split: option.splits)
  show "snd (mem_acquire t t k w ttl s) = s" if "\<not> fst (mem_acquire t t k w ttl s)" for t k w ttl s
    using that by (auto simp: lock_defs split: option.splits if_splits)
  show "mem_holder u j (snd (mem_acquire t t k w ttl s)) = (if j = k then if u < t + ttl then Some w else None else mem_holder u j s)"
    if "fst (mem_acquire t t k w ttl s)" for t k w ttl s u j
    using that by (auto simp: lock_defs split: option.splits if_splits)
  show "mem_holder u j (snd (mem_release k w s)) = (if j = k then None else mem_holder u j s)"
    if "fst (mem_release k w s)" for k w s u j
    using that by (auto simp: lock_defs split: option.splits if_splits)
  show "snd (mem_release k w s) = s" if "\<not> fst (mem_release k w s)" for k w s
    using that by (auto simp: lock_defs split: option.splits if_splits)
qed

subsection \<open>Histories\<close>

datatype lock_event =
    Acquire pytime pytime string string pytime
  | Release string string
  | Extend pytime string string pytime
  | Is_Locked pytime string
  | Get_Owner pytime string
  | Purge pytime
  | Clear

fun lock_step :: "lock_event \<Rightarrow> job_locking \<Rightarrow> job_locking" where
  "lock_step (Acquire t t' k w ttl) s = snd (mem_acquire t t' k w ttl s)"
| "lock_step (Release k w) s = snd (mem_release k w s)"
| "lock_step (Extend t k w ttl) s = snd (mem_extend t k w ttl s)"
| "lock_step (Is_Locked t k) s = snd (mem_is_locked t k s)"
| "lock_step (Get_Owner t k) s = snd (mem_get_owner t k s)"
| "lock_step (Purge t) s = snd (purge_expired t s)"
| "lock_step Clear s = lock_clear s"

fun leaves_lock :: "string \<Rightarrow> string \<Rightarrow> pytime \<Rightarrow> lock_event \<Rightarrow> bool" where
  \<comment> \<open>not an operation of the holder on the lock, before it expires, and not \<open>clear\<close>, which drops every lock\<close>
  "leaves_lock k w e (Acquire t t' k' w' ttl) \<longleftrightarrow> (k' \<noteq> k \<or> w' \<noteq> w) \<and> t < e"
| "leaves_lock k w e (Release k' w') \<longleftrightarrow> k' \<noteq> k \<or> w' \<noteq> w"
| "leaves_lock k w e (Extend t k' w' ttl) \<longleftrightarrow> k' \<noteq> k \<or> w' \<noteq> w"
| "leaves_lock k w e (Is_Locked t k') \<longleftrightarrow> t < e"
| "leaves_lock k w e (Get_Owner t k') \<longleftrightarrow> t < e"
| "leaves_lock k w e (Purge t) \<longleftrightarrow> t < e"
| "leaves_lock k w e Clear \<longleftrightarrow> False"

lemma dict_get_del_all: "dict_get (fold dict_del ks d) k = (if k \<in> set ks then None else dict_get d k)"
  by (induction ks arbitrary: d) auto

lemma lock_step_keeps:
  assumes "dict_ok (locks s)" "dict_get (locks s) k = Some (w, e)" "leaves_lock k w e ev"
  shows "dict_ok (locks (lock_step ev s)) \<and> dict_get (locks (lock_step ev s)) k = Some (w, e)"
proof (cases ev)
  case (Purge t)
  have "dict_ok (fold dict_del ks d)" if "dict_ok d" for ks and d :: "(string, string \<times> pytime) pydict"
    using that by (induction ks arbitrary: d) auto
  moreover have "k \<notin> set (map fst (filter (\<lambda>(k, o', e). t \<ge> e) (locks s)))"
    using assms Purge by (auto simp: dict_ok_entry)
  ultimately show ?thesis using assms Purge by (auto simp: purge_expired_def Let_def dict_get_del_all)
qed (use assms in \<open>auto simp: mem_acquire_def mem_release_def mem_extend_def mem_is_locked_def mem_get_owner_def split: option.splits if_splits\<close>)

lemma lock_kept_through:
  "dict_ok (locks s) \<Longrightarrow> dict_get (locks s) k = Some (w, e) \<Longrightarrow> \<forall>ev \<in> set evs. leaves_lock k w e ev \<Longrightarrow>
     dict_get (locks (fold lock_step evs s)) k = Some (w, e)"
proof (induction evs arbitrary: s)
  case (Cons ev evs)
  from lock_step_keeps [OF Cons.prems(1,2), of ev] Cons.prems(3) Cons.IH [of "lock_step ev s"] show ?case by simp
qed simp

text \<open>C7: mutual exclusion of the in-memory lock, the fallback without Redis: once a worker has acquired a job's lock, no
  sequence of other workers' operations, of operations on other jobs and of queries and purges before the expiry
  lets another worker acquire it before it expires; at or after the expiry any worker gets it; and \<open>clear\<close>,
  which such a sequence does not contain, gives it to any worker at once.\<close>

theorem lock_excludes:
  assumes "dict_ok (locks s)" and "mem_acquire t t' k w ttl s = (True, s1)"
    and "\<forall>ev \<in> set evs. leaves_lock k w (t' + ttl) ev" and "v \<noteq> w"
  shows "(fst (mem_acquire u u' k v ttl' (fold lock_step evs s1)) \<longleftrightarrow> t' + ttl \<le> u)
    \<and> fst (mem_acquire u u' k v ttl' (fold lock_step (evs @ [Clear]) s1))"
proof -
  have "dict_ok (locks s1)" "dict_get (locks s1) k = Some (w, t' + ttl)"
    using assms(1,2) by (auto simp: mem_acquire_def split: option.splits if_splits)
  from lock_kept_through [OF this assms(3)] assms(4) show ?thesis by (auto simp: mem_acquire_def lock_clear_def)
qed

theorem lock_excludes_witness:
  "\<not> fst (mem_acquire 9 9 ''j'' ''b'' 5 (fold lock_step [Release ''j'' ''b'', Is_Locked 3 ''j'', Purge 4]
      (snd (mem_acquire 0 0 ''j'' ''a'' 10 (locking_init 300)))))"
proof -
  have "mem_acquire 0 0 ''j'' ''a'' 10 (locking_init 300) = (True, snd (mem_acquire 0 0 ''j'' ''a'' 10 (locking_init 300)))"
    by (simp add: mem_acquire_def locking_init_def)
  from lock_excludes [OF _ this, of "[Release ''j'' ''b'', Is_Locked 3 ''j'', Purge 4]" "''b''" 9 9 5] show ?thesis
    by (simp add: locking_init_def)
qed

text \<open>Two instances of the facade work without Redis as a lock should: while one instance holds a job
  another cannot acquire it, after the first has released it the other can, and a lock on another job
  is not in the way.\<close>

theorem facade_hands_over:
  assumes "fst (facade_acquire a None t t job (Some ttl) (s, r))" and "0 < ttl" and "u < t + ttl" and "a \<noteq> b"
  defines "s1 \<equiv> snd (facade_acquire a None t t job (Some ttl) (s, r))"
  shows "\<not> fst (facade_acquire b None u u job ttl' s1)
    \<and> fst (facade_release a None job s1) \<and> fst (facade_acquire b None u u job ttl' (snd (facade_release a None job s1)))
    \<and> (other \<noteq> job \<longrightarrow> fst (facade_acquire b None u u other ttl' s1) = fst (facade_acquire b None u u other ttl' (s, r)))"
proof -
  have acq: "facade_acquire w None t t j ttl (s, r) =
      (fst (mem_acquire t t (job_key j) w (effective_ttl ttl s) s), snd (mem_acquire t t (job_key j) w (effective_ttl ttl s) s), r)"
    for w t j ttl s and r :: 'a by (simp add: facade_acquire_def lock_acquire_def split_beta Let_def)
  have rel: "facade_release w None j (s, r) = (fst (mem_release (job_key j) w s), snd (mem_release (job_key j) w s), r)"
    for w j s and r :: 'a by (simp add: facade_release_def lock_release_def split_beta Let_def)
  define m where "m = snd (mem_acquire t t (job_key job) a ttl s)"
  have e: "effective_ttl (Some ttl) s = ttl" using assms(2) by (simp add: effective_ttl_def)
  have s1: "s1 = (m, r)" by (simp add: s1_def acq e m_def)
  have a: "fst (mem_acquire t t (job_key job) a ttl s)" using assms(1) by (simp add: acq e)
  have same: "effective_ttl ttl' m = effective_ttl ttl' s"
    by (auto simp: m_def mem_acquire_def effective_ttl_def split: option.split)
  have "fst (mem_release (job_key job) a m)"
    using a by (auto simp: m_def mem_release_def mem_acquire_def split: option.splits if_splits)
  with mem.excludes [OF a assms(3), of b] mem.hand_over [of "job_key job" a m u b] mem.independent [of "job_key other" "job_key job"] assms(4)
  show ?thesis by (simp add: s1 acq rel m_def [symmetric] same) (simp add: m_def job_key_def)
qed

theorem facade_hands_over_witness:
  "\<not> fst (facade_acquire ''y'' None 5 5 ''sync'' None (snd (facade_acquire ''x'' None 0 0 ''sync'' (Some 10) (locking_init 300, ()))))"
  using facade_hands_over [of "''x''" 0 "''sync''" 10 "locking_init 300" "()" 5 "''y''" None "''other''"]
  by (simp add: facade_acquire_def lock_acquire_def mem_acquire_def locking_init_def)

subsection \<open>Where the two backends differ\<close>

lemma owner_reacquires:
  \<comment> \<open>in memory the holder gets the lock again, where \<open>SET NX\<close> would refuse it\<close>
  "dict_get (locks s) k = Some (w, e) \<Longrightarrow> fst (mem_acquire t t' k w ttl s)"
  by (simp add: mem_acquire_def)

lemma backend_switch_double_lock:
  \<comment> \<open>a lock taken while Redis was away is not seen once it is back\<close>
  assumes "rd_set_nx c k b (py_int 300000) r = (Some True, r1)"
  shows "fst (lock_acquire None t t k a None (locking_init 300, r))
    \<and> fst (lock_acquire (Some c) u u k b None (snd (lock_acquire None t t k a None (locking_init 300, r))))"
  using assms by (simp add: lock_acquire_def mem_acquire_def locking_init_def effective_ttl_def acquire_redis_def or_false_def)

lemma redis_error_fails_closed: "rd_set_nx c k w ms r = (None, r1) \<Longrightarrow> acquire_redis c k w (of_int ms / 1000) r = (False, r1)"
  by (simp add: acquire_redis_def or_false_def)

lemma duplicate_until_expiry:
  assumes "dict_ok (dd_store d)" "0 < ttl"
  shows "fst (is_duplicate u key (dd_mark t key (Some ttl) d)) \<longleftrightarrow> u < t + ttl"
proof -
  have ok: "dict_ok (dd_store (dd_mark t key (Some ttl) d))" using assms(1) by (simp add: dd_mark_def)
  have g: "dict_get (dd_store (dd_mark t key (Some ttl) d)) key = Some (t + ttl)" using assms(2) by (simp add: dd_mark_def)
  have "key \<in> set (map fst (filter (\<lambda>(k, e). u \<ge> e) (dd_store (dd_mark t key (Some ttl) d)))) \<longleftrightarrow> t + ttl \<le> u"
    using g dict_ok_entry [OF ok] by force
  then show ?thesis using g by (auto simp: is_duplicate_def dd_purge_def Let_def dict_get_del_all)
qed

end
