(* ===== verification/Resilience.thy ===== *)
theory Resilience
  imports Prelude
begin

text \<open>
  The resilience helpers (\<open>core/resilience/\<close>): circuit breaker, failover, fallback, degradation levels
  and incidents. Clock readings and the outcomes of the callables they run are arguments.

  A call through the breaker is two steps, because other calls run while it awaits its coroutine:
  \<open>cb_enter\<close> is the code up to \<open>await coro_factory()\<close>, \<open>cb_succeed\<close> and \<open>cb_fail\<close> are what follows.
\<close>

subsection \<open>The circuit breaker\<close>

datatype circuit_state = CLOSED | OPEN | HALF_OPEN

record circuit_breaker =
  failure_threshold :: int
  recovery_timeout :: pytime
  half_open_max_calls :: int
  cb_state :: circuit_state
  failure_count :: int
  last_failure_time :: pytime
  half_open_calls :: int

definition cb_init :: "int \<Rightarrow> pytime \<Rightarrow> int \<Rightarrow> circuit_breaker" where
  "cb_init threshold recovery max_calls =
     \<lparr>failure_threshold = threshold, recovery_timeout = recovery, half_open_max_calls = max_calls,
      cb_state = CLOSED, failure_count = 0, last_failure_time = 0, half_open_calls = 0\<rparr>"

definition check_recovery_timeout :: "pytime \<Rightarrow> circuit_breaker \<Rightarrow> circuit_breaker" where
  "check_recovery_timeout now cb =
     (if cb_state cb = OPEN \<and> now - last_failure_time cb \<ge> recovery_timeout cb
      then cb\<lparr>cb_state := HALF_OPEN, half_open_calls := 0\<rparr> else cb)"

definition cb_read_state :: "pytime \<Rightarrow> circuit_breaker \<Rightarrow> circuit_state \<times> circuit_breaker" where
  \<comment> \<open>the \<open>state\<close> property, which makes the transition itself\<close>
  "cb_read_state now cb =
     (if cb_state cb = OPEN then
        (let cb1 = (if now - last_failure_time cb \<ge> recovery_timeout cb
                    then cb\<lparr>cb_state := HALF_OPEN, half_open_calls := 0\<rparr> else cb)
         in (cb_state cb1, cb1))
      else (cb_state cb, cb))"

definition cb_set_state :: "circuit_state \<Rightarrow> circuit_breaker \<Rightarrow> circuit_breaker" where
  "cb_set_state st cb = cb\<lparr>cb_state := st\<rparr>"

definition cb_fail :: "pytime \<Rightarrow> circuit_breaker \<Rightarrow> circuit_breaker" where
  \<comment> \<open>\<open>record_failure\<close>\<close>
  "cb_fail now cb =
     (let cb1 = cb\<lparr>failure_count := failure_count cb + 1, last_failure_time := now\<rparr>
      in if cb_state cb1 = HALF_OPEN \<or> failure_count cb1 \<ge> failure_threshold cb1
         then cb1\<lparr>cb_state := OPEN\<rparr> else cb1)"

definition record_success :: "circuit_breaker \<Rightarrow> circuit_breaker" where
  "record_success cb =
     (let cb1 = cb\<lparr>failure_count := 0\<rparr> in if cb_state cb1 = HALF_OPEN then cb1\<lparr>cb_state := CLOSED\<rparr> else cb1)"

definition cb_enter :: "pytime \<Rightarrow> circuit_breaker \<Rightarrow> bool \<times> circuit_breaker" where
  \<comment> \<open>\<open>False\<close>: \<open>CircuitBreakerOpenError\<close>\<close>
  "cb_enter now cb =
     (let cb1 = check_recovery_timeout now cb
      in if cb_state cb1 = OPEN then (False, cb1)
         else if cb_state cb1 = HALF_OPEN \<and> half_open_calls cb1 \<ge> half_open_max_calls cb1 then (False, cb1)
         else (True, cb1))"

definition cb_succeed :: "circuit_breaker \<Rightarrow> circuit_breaker" where
  "cb_succeed cb =
     (if cb_state cb = HALF_OPEN then cb\<lparr>cb_state := CLOSED, failure_count := 0\<rparr> else cb\<lparr>failure_count := 0\<rparr>)"

definition cb_reset :: "circuit_breaker \<Rightarrow> circuit_breaker" where
  "cb_reset cb = cb\<lparr>cb_state := CLOSED, failure_count := 0, half_open_calls := 0\<rparr>"

datatype cb_event = Enter pytime | Fail pytime | Succeed | Read pytime

fun cb_step :: "cb_event \<Rightarrow> circuit_breaker \<Rightarrow> circuit_breaker" where
  "cb_step (Enter t) cb = snd (cb_enter t cb)"
| "cb_step (Fail t) cb = cb_fail t cb"
| "cb_step Succeed cb = cb_succeed cb"
| "cb_step (Read t) cb = snd (cb_read_state t cb)"

fun event_time :: "cb_event \<Rightarrow> pytime option" where
  "event_time (Enter t) = Some t"
| "event_time (Fail t) = Some t"
| "event_time Succeed = None"
| "event_time (Read t) = Some t"

subsection \<open>Failover and fallback\<close>

record 'p failover =
  providers :: "(string \<times> 'p) list"
  current_index :: nat

definition failover_init :: "'p failover" where
  "failover_init = \<lparr>providers = [], current_index = 0\<rparr>"

definition add_provider :: "string \<Rightarrow> 'p \<Rightarrow> 'p failover \<Rightarrow> 'p failover" where
  "add_provider n p f = f\<lparr>providers := providers f @ [(n, p)]\<rparr>"

fun try_providers ::
  "('p \<Rightarrow> 'e + 'a) \<Rightarrow> nat list \<Rightarrow> 'p failover \<Rightarrow> (string \<times> 'e) list \<Rightarrow> ((string \<times> 'e) list + 'a) \<times> 'p failover" where
  \<comment> \<open>the loop over the offsets; \<open>run\<close> awaits a provider\<close>
  "try_providers run [] f errors = (Inl errors, f)"
| "try_providers run (i # is) f errors =
     (let idx = (current_index f + i) mod length (providers f); (n, p) = providers f ! idx
      in case run p of
           Inr x \<Rightarrow> (Inr x, f\<lparr>current_index := idx\<rparr>)
         | Inl e \<Rightarrow> try_providers run is f (errors @ [(n, e)]))"

definition failover_execute :: "('p \<Rightarrow> 'e + 'a) \<Rightarrow> 'p failover \<Rightarrow> ((string \<times> 'e) list + 'a) \<times> 'p failover" where
  \<comment> \<open>on the left the errors of \<open>FailoverAllFailedError\<close>\<close>
  "failover_execute run f = try_providers run [0..<length (providers f)] f []"

definition failover_reset :: "'p failover \<Rightarrow> 'p failover" where
  "failover_reset f = f\<lparr>current_index := 0\<rparr>"

type_synonym ('e, 'a) fallbacks = "(string, 'e + 'a) pydict"

definition fallback_register :: "string \<Rightarrow> 'e + 'a \<Rightarrow> ('e, 'a) fallbacks \<Rightarrow> ('e, 'a) fallbacks" where
  \<comment> \<open>a fallback is the outcome of calling it\<close>
  "fallback_register n f fbs = dict_set n f fbs"

definition fallback_execute :: "string \<Rightarrow> 'e + 'a \<Rightarrow> ('e, 'a) fallbacks \<Rightarrow> 'e + 'a" where
  "fallback_execute n primary fbs =
     (case primary of
        Inr x \<Rightarrow> Inr x
      | Inl e \<Rightarrow> (case dict_get fbs n of None \<Rightarrow> Inl e | Some fb \<Rightarrow> (case fb of Inr x \<Rightarrow> Inr x | Inl fbe \<Rightarrow> Inl fbe)))"

definition has_fallback :: "string \<Rightarrow> ('e, 'a) fallbacks \<Rightarrow> bool" where
  "has_fallback n fbs \<longleftrightarrow> dict_get fbs n \<noteq> None"

subsection \<open>Degradation and incidents\<close>

datatype degradation_level = NONE | LOW | MEDIUM | HIGH | FULL

record 'w degradation =
  \<comment> \<open>an action maps the rest of the world, also when it raises, which is caught\<close>
  dg_level :: degradation_level
  dg_actions :: "(degradation_level, ('w \<Rightarrow> 'w) list) pydict"

definition degradation_init :: "'w degradation" where
  "degradation_init = \<lparr>dg_level = NONE, dg_actions = []\<rparr>"

definition set_level :: "degradation_level \<Rightarrow> 'w degradation \<Rightarrow> 'w \<Rightarrow> 'w degradation \<times> 'w" where
  "set_level l d w =
     (if l = dg_level d then (d, w)
      else (d\<lparr>dg_level := l\<rparr>, fold (\<lambda>act. act) (dict_get_or (dg_actions d) l []) w))"

definition on_level :: "degradation_level \<Rightarrow> ('w \<Rightarrow> 'w) \<Rightarrow> 'w degradation \<Rightarrow> 'w degradation" where
  "on_level l act d = d\<lparr>dg_actions := dict_set l (dict_get_or (dg_actions d) l [] @ [act]) (dg_actions d)\<rparr>"

fun level_rank :: "degradation_level \<Rightarrow> nat" where
  "level_rank NONE = 0"
| "level_rank LOW = 1"
| "level_rank MEDIUM = 2"
| "level_rank HIGH = 3"
| "level_rank FULL = 4"

definition is_available :: "degradation_level \<Rightarrow> 'w degradation \<Rightarrow> bool" where
  "is_available required d \<longleftrightarrow> level_rank (dg_level d) \<le> level_rank required"

definition degradation_reset :: "'w degradation \<Rightarrow> 'w \<Rightarrow> 'w degradation \<times> 'w" where
  "degradation_reset = set_level NONE"

record incident =
  inc_component :: string
  inc_message :: string
  inc_severity :: string
  inc_timestamp :: pytime
  resolved :: bool
  resolved_at :: "pytime option"

definition incident_new :: "pytime \<Rightarrow> string \<Rightarrow> string \<Rightarrow> string \<Rightarrow> incident" where
  "incident_new now c m s =
     \<lparr>inc_component = c, inc_message = m, inc_severity = s, inc_timestamp = now, resolved = False, resolved_at = None\<rparr>"

definition incident_resolve :: "pytime \<Rightarrow> incident \<Rightarrow> incident" where
  "incident_resolve now i = i\<lparr>resolved := True, resolved_at := Some now\<rparr>"

definition duration :: "incident \<Rightarrow> pytime option" where
  "duration i = map_option (\<lambda>t. t - inc_timestamp i) (resolved_at i)"

definition report :: "pytime \<Rightarrow> string \<Rightarrow> string \<Rightarrow> string \<Rightarrow> incident list \<Rightarrow> incident list" where
  "report now c m s incs = incs @ [incident_new now c m s]"

definition resolve_one :: "string \<Rightarrow> pytime \<Rightarrow> incident \<Rightarrow> incident" where
  "resolve_one c now i = (if inc_component i = c \<and> \<not> resolved i then incident_resolve now i else i)"

definition resolve_incidents :: "pytime \<Rightarrow> string \<Rightarrow> string option \<Rightarrow> incident list \<Rightarrow> incident list" where
  \<comment> \<open>every open incident of the component; the message is not looked at. The clock is read per
    incident in the code and once here.\<close>
  "resolve_incidents now c msg incs = rev (map (resolve_one c now) (rev incs))"

definition open_incidents :: "incident list \<Rightarrow> incident list" where
  "open_incidents incs = filter (\<lambda>i. \<not> resolved i) incs"

definition recent :: "pytime \<Rightarrow> int \<Rightarrow> incident list \<Rightarrow> incident list" where
  "recent now minutes incs = filter (\<lambda>i. inc_timestamp i \<ge> now - of_int minutes * 60) incs"

subsection \<open>Lemmas\<close>

lemma cb_open_stays:
  assumes "cb_state cb = OPEN" "lf \<le> last_failure_time cb" "recovery_timeout cb = r"
    and "\<And>t. event_time ev = Some t \<Longrightarrow> lf \<le> t \<and> t < lf + r"
  shows "cb_state (cb_step ev cb) = OPEN \<and> lf \<le> last_failure_time (cb_step ev cb) \<and> recovery_timeout (cb_step ev cb) = r"
  using assms by (cases ev)
    (auto simp: cb_enter_def check_recovery_timeout_def cb_fail_def cb_succeed_def cb_read_state_def Let_def)

lemma cb_open_through:
  assumes "cb_state cb = OPEN" "lf \<le> last_failure_time cb" "recovery_timeout cb = r"
    and "\<forall>ev \<in> set evs. \<forall>t. event_time ev = Some t \<longrightarrow> lf \<le> t \<and> t < lf + r"
  shows "cb_state (fold cb_step evs cb) = OPEN \<and> lf \<le> last_failure_time (fold cb_step evs cb)
    \<and> recovery_timeout (fold cb_step evs cb) = r"
  using assms
proof (induction evs arbitrary: cb)
  case (Cons ev evs)
  have "cb_state (cb_step ev cb) = OPEN \<and> lf \<le> last_failure_time (cb_step ev cb) \<and> recovery_timeout (cb_step ev cb) = r"
    using Cons.prems by (intro cb_open_stays) auto
  with Cons.IH [of "cb_step ev cb"] Cons.prems(4) show ?case by simp
qed simp

lemma try_providers_first:
  assumes "\<forall>j < length is. j < k \<longrightarrow> (\<exists>e. run (snd (providers f ! ((current_index f + is ! j) mod length (providers f)))) = Inl e)"
    and "k < length is" "run (snd (providers f ! ((current_index f + is ! k) mod length (providers f)))) = Inr x"
  shows "try_providers run is f errors = (Inr x, f\<lparr>current_index := (current_index f + is ! k) mod length (providers f)\<rparr>)"
  using assms
proof (induction "is" arbitrary: k errors)
  case (Cons i "is")
  obtain n p where np: "providers f ! ((current_index f + i) mod length (providers f)) = (n, p)" by fastforce
  show ?case
  proof (cases k)
    case 0
    with Cons.prems np show ?thesis by (simp add: Let_def)
  next
    case (Suc k')
    with Cons.prems(1) np obtain e where "run p = Inl e" by fastforce
    moreover have "try_providers run is f errs = (Inr x, f\<lparr>current_index := (current_index f + is ! k') mod length (providers f)\<rparr>)" for errs
    proof (rule Cons.IH)
      show "\<forall>j < length is. j < k' \<longrightarrow> (\<exists>e. run (snd (providers f ! ((current_index f + is ! j) mod length (providers f)))) = Inl e)"
        using Cons.prems(1) Suc by fastforce
    qed (use Cons.prems(2,3) Suc in simp_all)
    ultimately show ?thesis by (simp add: np Suc Let_def)
  qed
qed simp

lemma try_providers_all_fail:
  assumes "\<forall>j \<in> set is. \<exists>e. run (snd (providers f ! ((current_index f + j) mod length (providers f)))) = Inl e"
  shows "\<exists>errs. try_providers run is f errors = (Inl (errors @ errs), f) \<and> length errs = length is"
  using assms
proof (induction "is" arbitrary: errors)
  case (Cons i "is")
  obtain n p where np: "providers f ! ((current_index f + i) mod length (providers f)) = (n, p)" by fastforce
  with Cons.prems obtain e where "run p = Inl e" by fastforce
  with Cons.IH [of "errors @ [(n, e)]"] Cons.prems np show ?case by (auto simp: Let_def)
qed simp

lemma open_incidents_resolve:
  "open_incidents (resolve_incidents now c msg incs) = filter (\<lambda>i. inc_component i \<noteq> c) (open_incidents incs)"
  by (induction incs) (auto simp: resolve_incidents_def open_incidents_def resolve_one_def incident_resolve_def)

lemma message_ignored: "resolve_incidents now c msg incs = resolve_incidents now c None incs"
  by (simp add: resolve_incidents_def)

lemma half_open_unlimited:
  \<comment> \<open>entering does not count: however many calls are under way, the next one is let through\<close>
  assumes "cb_state cb = HALF_OPEN" "half_open_calls cb < half_open_max_calls cb"
  shows "fst (cb_enter t (fold (\<lambda>t cb. snd (cb_enter t cb)) ts cb))"
proof -
  have "fold (\<lambda>t cb. snd (cb_enter t cb)) ts cb = cb"
    using assms by (induction ts) (simp_all add: cb_enter_def check_recovery_timeout_def Let_def)
  with assms show ?thesis by (simp add: cb_enter_def check_recovery_timeout_def Let_def)
qed

lemma zero_probes_never_recovers:
  \<comment> \<open>with \<open>half_open_max_calls = 0\<close> the half-open state admits nothing\<close>
  assumes "cb_state cb = HALF_OPEN" "half_open_max_calls cb \<le> half_open_calls cb"
  shows "cb_enter t cb = (False, cb)"
  using assms by (simp add: cb_enter_def check_recovery_timeout_def Let_def)

subsection \<open>Properties\<close>

lemma cb_fails:
  assumes "cb_state cb = CLOSED" "failure_count cb = 0" "0 < failure_threshold cb"
  shows "cb_state (fold cb_fail ts cb) = (if failure_threshold cb \<le> int (length ts) then OPEN else CLOSED)
    \<and> failure_count (fold cb_fail ts cb) = int (length ts)
    \<and> failure_threshold (fold cb_fail ts cb) = failure_threshold cb
    \<and> recovery_timeout (fold cb_fail ts cb) = recovery_timeout cb
    \<and> last_failure_time (fold cb_fail ts cb) = (if ts = [] then last_failure_time cb else List.last ts)"
proof (induction ts rule: rev_induct)
  case Nil
  with assms show ?case by simp
next
  case (snoc t ts)
  then show ?case by (auto simp: cb_fail_def Let_def split: if_splits)
qed

text \<open>The breaker protects: from a closed breaker with no failures counted, failures in a row open it
  exactly when they reach the threshold; from then on, whatever calls, failures, late successes and
  state queries interleave before the recovery timeout has passed since that last failure, every call
  is refused.\<close>

theorem breaker_trips_and_refuses:
  assumes "cb_state cb = CLOSED" and "failure_count cb = 0" and "0 < failure_threshold cb" and "ts \<noteq> []"
    and "\<forall>ev \<in> set evs. \<forall>u. event_time ev = Some u \<longrightarrow> List.last ts \<le> u \<and> u < List.last ts + recovery_timeout cb"
    and "t < List.last ts + recovery_timeout cb"
  shows "(cb_state (fold cb_fail ts cb) = OPEN \<longleftrightarrow> failure_threshold cb \<le> int (length ts))
    \<and> (failure_threshold cb \<le> int (length ts) \<longrightarrow> \<not> fst (cb_enter t (fold cb_step evs (fold cb_fail ts cb))))"
proof (intro conjI impI)
  note f = cb_fails [OF assms(1-3), of ts]
  show "cb_state (fold cb_fail ts cb) = OPEN \<longleftrightarrow> failure_threshold cb \<le> int (length ts)" using f by simp
  assume "failure_threshold cb \<le> int (length ts)"
  with f assms(4) have o: "cb_state (fold cb_fail ts cb) = OPEN" "List.last ts \<le> last_failure_time (fold cb_fail ts cb)"
    "recovery_timeout (fold cb_fail ts cb) = recovery_timeout cb" by simp_all
  from cb_open_through [OF o assms(5)] assms(6) show "\<not> fst (cb_enter t (fold cb_step evs (fold cb_fail ts cb)))"
    by (simp add: cb_enter_def check_recovery_timeout_def Let_def)
qed

theorem breaker_trips_and_refuses_witness:
  "\<not> fst (cb_enter 29 (fold cb_step [Enter 5, Succeed, Fail 6] (fold cb_fail [1, 2] (cb_init 2 30 1))))"
  using breaker_trips_and_refuses [of "cb_init 2 30 1" "[1, 2]" "[Enter 5, Succeed, Fail 6]" 29]
  by (simp add: cb_init_def)

text \<open>Failover takes the first provider that works, starting at the current one and going round once:
  it answers with that provider's result and stays on it, and fails, leaving the current provider as
  it was and reporting one error per provider, exactly when every provider fails.\<close>

theorem failover_first_working:
  assumes "current_index f < length (providers f)"
  shows "case failover_execute run f of
      (Inr x, f1) \<Rightarrow> \<exists>k < length (providers f). f1 = f\<lparr>current_index := (current_index f + k) mod length (providers f)\<rparr>
        \<and> run (snd (providers f ! current_index f1)) = Inr x
        \<and> (\<forall>j < k. \<exists>e. run (snd (providers f ! ((current_index f + j) mod length (providers f)))) = Inl e)
    | (Inl errs, f1) \<Rightarrow> f1 = f \<and> length errs = length (providers f) \<and> (\<forall>(n, p) \<in> set (providers f). \<exists>e. run p = Inl e)"
proof -
  let ?n = "length (providers f)" and ?c = "current_index f"
  define works where "works = (\<lambda>j. \<exists>x. run (snd (providers f ! ((?c + j) mod ?n))) = Inr x)"
  have fails: "\<not> works j \<longleftrightarrow> (\<exists>e. run (snd (providers f ! ((?c + j) mod ?n))) = Inl e)" for j
    unfolding works_def by (cases "run (snd (providers f ! ((?c + j) mod ?n)))") auto
  show ?thesis
  proof (cases "\<exists>k < ?n. works k")
    case True
    define k where "k = (LEAST k. works k)"
    from True have k: "works k" "k < ?n" unfolding k_def
      by (blast intro: LeastI, metis (mono_tags) Least_le le_less_trans)
    have before: "\<exists>e. run (snd (providers f ! ((?c + j) mod ?n))) = Inl e" if "j < k" for j
      using that not_less_Least unfolding k_def fails [symmetric] by blast
    from k(1) obtain x where x: "run (snd (providers f ! ((?c + k) mod ?n))) = Inr x" by (auto simp: works_def)
    have "failover_execute run f = (Inr x, f\<lparr>current_index := (?c + [0..<?n] ! k) mod ?n\<rparr>)"
      unfolding failover_execute_def by (rule try_providers_first) (use before x k(2) in auto)
    then show ?thesis using x before k(2) by (auto intro!: exI [of _ k])
  next
    case False
    then have all: "\<forall>j \<in> set [0..<?n]. \<exists>e. run (snd (providers f ! ((?c + j) mod ?n))) = Inl e"
      unfolding fails [symmetric] by auto
    from try_providers_all_fail [OF this, of "[]"] obtain errs where
      e: "failover_execute run f = (Inl errs, f)" "length errs = ?n" unfolding failover_execute_def by auto
    have "\<exists>e. run p = Inl e" if "(n, p) \<in> set (providers f)" for n p
    proof -
      from that obtain i where i: "i < ?n" "providers f ! i = (n, p)" by (auto simp: in_set_conv_nth)
      define j where "j = (i + ?n - ?c) mod ?n"
      have "?c + (i + ?n - ?c) = i + ?n" using assms by simp
      then have "(?c + j) mod ?n = i" using i(1) unfolding j_def by (metis mod_add_right_eq mod_add_self2 mod_less)
      moreover have "j < ?n" unfolding j_def by (rule mod_less_divisor) (use i(1) in linarith)
      ultimately show ?thesis using all i(2) by force
    qed
    with e show ?thesis by auto
  qed
qed

definition demo_failover :: "nat failover" where
  "demo_failover = \<lparr>providers = [(''a'', 7), (''b'', 0)], current_index = 1\<rparr>"

definition demo_run :: "nat \<Rightarrow> string + nat" where
  "demo_run p = (if p = 0 then Inl ''down'' else Inr p)"

theorem failover_first_working_witness:
  "failover_execute demo_run demo_failover = (Inr 7, demo_failover\<lparr>current_index := 0\<rparr>)
   \<and> (\<exists>k < 2. \<forall>j < k. \<exists>e. demo_run (snd (providers demo_failover ! ((1 + j) mod 2))) = Inl e)"
proof -
  have x: "failover_execute demo_run demo_failover = (Inr 7, demo_failover\<lparr>current_index := 0\<rparr>)"
    by (simp add: failover_execute_def demo_failover_def demo_run_def Let_def upt_rec)
  have c: "current_index demo_failover = 1" "length (providers demo_failover) = 2" by (simp_all add: demo_failover_def)
  from failover_first_working [of demo_failover demo_run, unfolded x prod.case sum.case c] x show ?thesis by auto
qed

end
