(* ===== verification/Workflow_State.thy ===== *)
theory Workflow_State
  imports Prelude
begin

text \<open>
  The workflow state machine (\<open>orchestration/state_machine.py\<close>).

  A machine holds the transitions twice, as the code does: \<open>transitions_map\<close> (state, event to
  target; a later entry overwrites) decides the target, \<open>transitions_list\<close> (in the order added)
  is searched for the guard and the action. Guards and actions are the caller's callables: a guard
  answers or raises, an action raises or leaves the metadata it was handed. Listeners are
  names; the calls made to them are appended to \<open>notified\<close> (their exceptions are suppressed).
\<close>

type_synonym 'v meta = "(string, 'v) pydict"

record 'v transition =
  from_state :: string
  on_event :: string
  to_state :: string
  guard :: "(string \<times> 'v meta \<Rightarrow> py_error + bool) option"
  action :: "(string \<times> 'v meta \<Rightarrow> py_error + 'v meta) option"

record 'v state_record =
  sr_state :: string
  sr_history :: "(string \<times> string \<times> string) list"
  sr_metadata :: "'v meta"

record 'v state_machine =
  states_list :: "string list"
  initial_state :: string
  transitions_map :: "(string, (string, string) pydict) pydict"
  transitions_list :: "'v transition list"
  records :: "(string, 'v state_record) pydict"
  listeners :: "string list"
  notified :: "(string \<times> string \<times> string \<times> string \<times> string) list"

definition DEFAULT_STATES :: "string list" where
  "DEFAULT_STATES = [''PENDING'', ''RUNNING'', ''STEP_COMPLETED'', ''STEP_FAILED'', ''COMPENSATING'',
     ''COMPLETED'', ''FAILED'', ''PAUSED'']"

definition DEFAULT_TRANSITIONS :: "(string, (string, string) pydict) pydict" where
  "DEFAULT_TRANSITIONS =
    [(''PENDING'', [(''start'', ''RUNNING''), (''cancel'', ''FAILED'')]),
     (''RUNNING'', [(''step_completed'', ''STEP_COMPLETED''), (''step_failed'', ''STEP_FAILED''),
                    (''pause'', ''PAUSED''), (''complete'', ''COMPLETED''), (''fail'', ''FAILED'')]),
     (''STEP_COMPLETED'', [(''next_step'', ''RUNNING''), (''complete'', ''COMPLETED''), (''pause'', ''PAUSED'')]),
     (''STEP_FAILED'', [(''compensate'', ''COMPENSATING''), (''retry'', ''RUNNING''), (''fail'', ''FAILED'')]),
     (''COMPENSATING'', [(''compensation_done'', ''FAILED''), (''compensation_failed'', ''FAILED'')]),
     (''PAUSED'', [(''resume'', ''RUNNING''), (''cancel'', ''FAILED'')]),
     (''COMPLETED'', []),
     (''FAILED'', [(''retry'', ''PENDING'')])]"

subsection \<open>Building a machine\<close>

definition sm_put :: "string \<Rightarrow> string \<Rightarrow> string \<Rightarrow> (string, (string, string) pydict) pydict \<Rightarrow>
    (string, (string, string) pydict) pydict" where
  \<comment> \<open>\<open>transitions_map[from_state][event] = to_state\<close>, the inner dictionary made when missing\<close>
  "sm_put a e b tm = dict_set a (dict_set e b (dict_get_or tm a [])) tm"

definition add_transition ::
  "string \<Rightarrow> string \<Rightarrow> string \<Rightarrow> (string \<times> 'v meta \<Rightarrow> py_error + bool) option \<Rightarrow>
     (string \<times> 'v meta \<Rightarrow> py_error + 'v meta) option \<Rightarrow> 'v state_machine \<Rightarrow> 'v state_machine" where
  "add_transition a e b g act sm =
     sm\<lparr>transitions_map := sm_put a e b (transitions_map sm),
        transitions_list := transitions_list sm @ [\<lparr>from_state = a, on_event = e, to_state = b, guard = g, action = act\<rparr>]\<rparr>"

definition touch_state :: "string \<Rightarrow> 'v state_machine \<Rightarrow> 'v state_machine" where
  \<comment> \<open>a state without events still gets its (empty) entry\<close>
  "touch_state a sm =
     sm\<lparr>transitions_map := (if dict_get (transitions_map sm) a = None then dict_set a [] (transitions_map sm) else transitions_map sm)\<rparr>"

definition build_from_dict :: "(string, (string, string) pydict) pydict \<Rightarrow> 'v state_machine \<Rightarrow> 'v state_machine" where
  "build_from_dict td sm =
     fold (\<lambda>(a, em) sm. fold (\<lambda>(e, b) sm. add_transition a e b None None sm) em (touch_state a sm)) td sm"

definition sm_init :: "string list option \<Rightarrow> (string, (string, string) pydict) pydict option \<Rightarrow> string \<Rightarrow> 'v state_machine" where
  "sm_init states transitions initial =
     build_from_dict (case transitions of None \<Rightarrow> DEFAULT_TRANSITIONS | Some td \<Rightarrow> td)
       \<lparr>states_list = (case states of None \<Rightarrow> DEFAULT_STATES | Some ss \<Rightarrow> if ss = [] then DEFAULT_STATES else ss),
        initial_state = initial, transitions_map = [], transitions_list = [], records = [], listeners = [], notified = []\<rparr>"

definition or_else :: "string option \<Rightarrow> string \<Rightarrow> string" where
  \<comment> \<open>\<open>x or d\<close>: \<open>None\<close> and the empty string fall back\<close>
  "or_else x d = (case x of None \<Rightarrow> d | Some s \<Rightarrow> if s = [] then d else s)"

definition sm_register :: "string \<Rightarrow> string option \<Rightarrow> 'v state_machine \<Rightarrow> 'v state_machine" where
  "sm_register w st sm =
     sm\<lparr>records := dict_set w \<lparr>sr_state = or_else st (initial_state sm), sr_history = [], sr_metadata = []\<rparr> (records sm)\<rparr>"

subsection \<open>Reading it\<close>

definition sm_get_state :: "string \<Rightarrow> 'v state_machine \<Rightarrow> string option" where
  "sm_get_state w sm = map_option sr_state (dict_get (records sm) w)"

definition get_history :: "string \<Rightarrow> 'v state_machine \<Rightarrow> (string \<times> string \<times> string) list" where
  "get_history w sm = (case dict_get (records sm) w of None \<Rightarrow> [] | Some r \<Rightarrow> sr_history r)"

definition event_map :: "string \<Rightarrow> 'v state_machine \<Rightarrow> (string, string) pydict" where
  "event_map st sm = dict_get_or (transitions_map sm) st []"

fun find_transition :: "string \<Rightarrow> string \<Rightarrow> 'v transition list \<Rightarrow> 'v transition option" where
  "find_transition a e [] = None"
| "find_transition a e (t # ts) = (if from_state t = a \<and> on_event t = e then Some t else find_transition a e ts)"

definition can_transition :: "string \<Rightarrow> string \<Rightarrow> 'v state_machine \<Rightarrow> bool" where
  "can_transition w e sm =
     (case dict_get (records sm) w of None \<Rightarrow> False | Some r \<Rightarrow> dict_get (event_map (sr_state r) sm) e \<noteq> None)"

definition available_events :: "string \<Rightarrow> 'v state_machine \<Rightarrow> string list" where
  "available_events w sm =
     (case dict_get (records sm) w of None \<Rightarrow> [] | Some r \<Rightarrow> dict_keys (event_map (sr_state r) sm))"

subsection \<open>Moving\<close>

definition dict_update :: "('k, 'v) pydict \<Rightarrow> ('k, 'v) pydict \<Rightarrow> ('k, 'v) pydict" where
  \<comment> \<open>\<open>d.update(e)\<close>\<close>
  "dict_update d e = fold (\<lambda>(k, v). dict_set k v) e d"

definition run_guard :: "'v transition option \<Rightarrow> string \<times> 'v meta \<Rightarrow> py_error + unit" where
  "run_guard t ctx =
     (case t of
        None \<Rightarrow> Inr ()
      | Some t \<Rightarrow>
          (case guard t of
             None \<Rightarrow> Inr ()
           | Some g \<Rightarrow> (case g ctx of Inl err \<Rightarrow> Inl err | Inr ok \<Rightarrow> if ok then Inr () else Inl ValueError)))"

definition run_action :: "'v transition option \<Rightarrow> string \<times> 'v meta \<Rightarrow> py_error + 'v meta" where
  \<comment> \<open>the metadata as the action leaves it; an empty one is a fresh dictionary the caller does not see\<close>
  "run_action t ctx =
     (case t of
        None \<Rightarrow> Inr (snd ctx)
      | Some t \<Rightarrow>
          (case action t of
             None \<Rightarrow> Inr (snd ctx)
           | Some act \<Rightarrow>
               (case act ctx of Inl err \<Rightarrow> Inl err | Inr md \<Rightarrow> Inr (if snd ctx = [] then [] else md))))"

definition sm_transition :: "string \<Rightarrow> string \<Rightarrow> 'v meta \<Rightarrow> 'v state_machine \<Rightarrow> (py_error + string) \<times> 'v state_machine" where
  \<comment> \<open>\<open>metadata=None\<close> and an empty dictionary behave alike: \<open>[]\<close>\<close>
  "sm_transition w e md sm =
     (case dict_get (records sm) w of
        None \<Rightarrow> (Inl KeyError, sm)
      | Some r \<Rightarrow>
          (let current = sr_state r in
           case dict_get (event_map current sm) e of
             None \<Rightarrow> (Inl ValueError, sm)
           | Some target \<Rightarrow>
               (let t = find_transition current e (transitions_list sm) in
                case run_guard t (w, md) of
                  Inl err \<Rightarrow> (Inl err, sm)
                | Inr _ \<Rightarrow>
                    (case run_action t (w, md) of
                       Inl err \<Rightarrow> (Inl err, sm)
                     | Inr md' \<Rightarrow>
                         (Inr target,
                          sm\<lparr>records := dict_set w
                               (r\<lparr>sr_history := sr_history r @ [(current, e, target)], sr_state := target,
                                  sr_metadata := dict_update (sr_metadata r) md'\<rparr>) (records sm),
                             notified := notified sm @ map (\<lambda>fn. (fn, w, current, e, target)) (listeners sm)\<rparr>)))))"

definition on_transition :: "string \<Rightarrow> 'v state_machine \<Rightarrow> 'v state_machine" where
  "on_transition fn sm = sm\<lparr>listeners := listeners sm @ [fn]\<rparr>"

definition remove_listener :: "string \<Rightarrow> 'v state_machine \<Rightarrow> 'v state_machine" where
  "remove_listener fn sm = sm\<lparr>listeners := filter (\<lambda>f. f \<noteq> fn) (listeners sm)\<rparr>"

definition sm_reset :: "string \<Rightarrow> string option \<Rightarrow> 'v state_machine \<Rightarrow> 'v state_machine" where
  "sm_reset w st sm =
     (let target = or_else st (initial_state sm) in
      case dict_get (records sm) w of
        Some r \<Rightarrow> sm\<lparr>records := dict_set w (r\<lparr>sr_state := target, sr_history := []\<rparr>) (records sm)\<rparr>
      | None \<Rightarrow> sm_register w (Some target) sm)"

subsection \<open>Histories\<close>

fun path :: "(string, (string, string) pydict) pydict \<Rightarrow> string \<Rightarrow> (string \<times> string \<times> string) list \<Rightarrow> string \<Rightarrow> bool" where
  \<comment> \<open>the moves are entries of the transition table and lead from \<open>a\<close> to \<open>c\<close>\<close>
  "path tm a [] c \<longleftrightarrow> a = c"
| "path tm a ((x, e, b) # h) c \<longleftrightarrow> x = a \<and> dict_get (dict_get_or tm a []) e = Some b \<and> path tm b h c"

fun_cases path_ConsE: "path tm a (m # h) c"

lemma path_snoc [simp]:
  "path tm a (h @ [(x, e, c)]) d \<longleftrightarrow> path tm a h x \<and> dict_get (dict_get_or tm x []) e = Some c \<and> c = d"
  by (induction tm a h x rule: path.induct) auto

inductive sm_step :: "'v state_machine \<Rightarrow> 'v state_machine \<Rightarrow> bool" where
  register: "sm_step sm (sm_register w None sm)"
| move: "sm_step sm (snd (sm_transition w e md sm))"
| reset: "sm_step sm (sm_reset w None sm)"
| listen: "sm_step sm (on_transition fn sm)"
| unlisten: "sm_step sm (remove_listener fn sm)"

inductive_cases sm_stepE: "sm_step sm sm'"

definition on_path :: "'v state_machine \<Rightarrow> bool" where
  "on_path sm \<longleftrightarrow> initial_state sm \<noteq> [] \<and>
     (\<forall>w r. dict_get (records sm) w = Some r \<longrightarrow>
        path (transitions_map sm) (initial_state sm) (sr_history r) (sr_state r))"

lemma transition_cases:
  obtains (err) x where "sm_transition w e md sm = (Inl x, sm)"
  | (ok) r b md' t where "dict_get (records sm) w = Some r" "dict_get (event_map (sr_state r) sm) e = Some b"
      "t = find_transition (sr_state r) e (transitions_list sm)" "run_guard t (w, md) = Inr ()"
      "run_action t (w, md) = Inr md'"
      "sm_transition w e md sm = (Inr b,
          sm\<lparr>records := dict_set w (r\<lparr>sr_history := sr_history r @ [(sr_state r, e, b)], sr_state := b,
                sr_metadata := dict_update (sr_metadata r) md'\<rparr>) (records sm),
             notified := notified sm @ map (\<lambda>fn. (fn, w, sr_state r, e, b)) (listeners sm)\<rparr>)"
proof (cases "\<exists>x. sm_transition w e md sm = (Inl x, sm)")
  case True
  then show ?thesis using err by blast
next
  case False
  then obtain r where r: "dict_get (records sm) w = Some r" by (auto simp: sm_transition_def split: option.splits)
  with False obtain b where b: "dict_get (event_map (sr_state r) sm) e = Some b"
    by (auto simp: sm_transition_def Let_def split: option.splits)
  let ?t = "find_transition (sr_state r) e (transitions_list sm)"
  from False r b have g: "run_guard ?t (w, md) = Inr ()"
    by (auto simp: sm_transition_def Let_def split: sum.splits)
  with False r b obtain md' where a: "run_action ?t (w, md) = Inr md'"
    by (auto simp: sm_transition_def Let_def split: sum.splits)
  show ?thesis by (rule ok [OF r b refl g a]) (simp add: sm_transition_def Let_def r b g a)
qed

lemma sm_step_frame:
  "sm_step sm sm' \<Longrightarrow> transitions_map sm' = transitions_map sm \<and> initial_state sm' = initial_state sm
     \<and> transitions_list sm' = transitions_list sm"
proof (induction rule: sm_step.induct)
  case (move sm w e md)
  then show ?case by (cases rule: transition_cases [of w e md sm]) auto
qed (auto simp: sm_register_def sm_reset_def on_transition_def remove_listener_def Let_def split: option.split)

lemma sm_step_on_path: "sm_step sm sm' \<Longrightarrow> on_path sm \<Longrightarrow> on_path sm'"
proof (induction rule: sm_step.induct)
  case (move sm w e md)
  then show ?case
    by (cases rule: transition_cases [of w e md sm]) (auto simp: on_path_def event_map_def)
qed (auto simp: on_path_def sm_register_def sm_reset_def or_else_def on_transition_def remove_listener_def Let_def
        split: option.split)

lemma build_from_dict_frame:
  "records (build_from_dict td sm) = records sm \<and> initial_state (build_from_dict td sm) = initial_state sm"
proof -
  have inner: "records (fold (\<lambda>(e, b) sm. add_transition a e b None None sm) em sm) = records sm
      \<and> initial_state (fold (\<lambda>(e, b) sm. add_transition a e b None None sm) em sm) = initial_state sm" for a em and sm :: "'a state_machine"
    by (induction em arbitrary: sm) (auto simp: add_transition_def)
  show ?thesis unfolding build_from_dict_def
    by (induction td arbitrary: sm) (auto simp: inner touch_state_def)
qed

lemma sm_init_on_path: "s0 \<noteq> [] \<Longrightarrow> on_path (sm_init states td s0)"
  by (simp add: on_path_def sm_init_def build_from_dict_frame)

lemma sm_history_on_path:
  fixes sm :: "'v state_machine"
  assumes "sm_step\<^sup>*\<^sup>* (sm_init states td s0) sm" and "s0 \<noteq> []"
  shows "on_path sm \<and> transitions_map sm = transitions_map (sm_init states td s0 :: 'v state_machine) \<and> initial_state sm = s0"
  using assms(1)
proof (induction rule: rtranclp_induct)
  case base
  then show ?case using sm_init_on_path [OF assms(2)] by (simp add: sm_init_def build_from_dict_frame)
next
  case (step y z)
  then show ?case using sm_step_frame sm_step_on_path by metis
qed

definition default_machine :: "'v state_machine" where
  "default_machine = sm_init None None ''PENDING''"

lemma default_map: "transitions_map (default_machine :: 'v state_machine) = DEFAULT_TRANSITIONS"
  by (simp add: default_machine_def sm_init_def build_from_dict_def DEFAULT_TRANSITIONS_def touch_state_def
      add_transition_def sm_put_def dict_get_or_def)

lemma default_into_completed:
  assumes "dict_get (dict_get_or DEFAULT_TRANSITIONS a []) e = Some ''COMPLETED''"
  shows "e = ''complete'' \<and> (a = ''RUNNING'' \<or> a = ''STEP_COMPLETED'')"
  using assms by (auto simp: DEFAULT_TRANSITIONS_def dict_get_or_def split: if_splits)

lemma path_last:
  assumes "path tm a h c" and "a \<noteq> c"
  obtains h' x e where "h = h' @ [(x, e, c)]" "dict_get (dict_get_or tm x []) e = Some c"
  using assms by (cases h rule: rev_cases) auto

subsection \<open>Properties\<close>

text \<open>In every history of the default machine, a workflow's recorded history is a path of the
  transition table from PENDING to its state; it can be COMPLETED only by the event \<open>complete\<close> out of
  RUNNING or STEP_COMPLETED, and then no event moves it any more.\<close>

theorem workflow_history_is_path:
  fixes sm :: "'v state_machine"
  assumes "sm_step\<^sup>*\<^sup>* default_machine sm" and "dict_get (records sm) w = Some r"
  shows "path DEFAULT_TRANSITIONS ''PENDING'' (sr_history r) (sr_state r)
    \<and> (sr_state r = ''COMPLETED'' \<longrightarrow>
         (\<exists>h a. sr_history r = h @ [(a, ''complete'', ''COMPLETED'')] \<and> a \<in> {''RUNNING'', ''STEP_COMPLETED''})
         \<and> available_events w sm = [] \<and> sm_transition w e md sm = (Inl ValueError, sm))"
proof -
  note inv = sm_history_on_path [OF assms(1) [unfolded default_machine_def], folded default_machine_def, simplified]
  have map: "transitions_map sm = DEFAULT_TRANSITIONS" using inv default_map [where 'v = 'v] by simp
  have p: "path DEFAULT_TRANSITIONS ''PENDING'' (sr_history r) (sr_state r)"
    using inv assms(2) map by (auto simp: on_path_def)
  show ?thesis
  proof (intro conjI impI p)
    assume fin: "sr_state r = ''COMPLETED''"
    from p [unfolded fin] obtain h x e' where "sr_history r = h @ [(x, e', ''COMPLETED'')]"
        "dict_get (dict_get_or DEFAULT_TRANSITIONS x []) e' = Some ''COMPLETED''"
      by (rule path_last) simp
    with default_into_completed [OF this(2)]
    show "\<exists>h a. sr_history r = h @ [(a, ''complete'', ''COMPLETED'')] \<and> a \<in> {''RUNNING'', ''STEP_COMPLETED''}" by auto
    have none: "event_map ''COMPLETED'' sm = []" by (simp add: event_map_def map DEFAULT_TRANSITIONS_def dict_get_or_def)
    then show "available_events w sm = []" by (simp add: available_events_def assms(2) fin)
    show "sm_transition w e md sm = (Inl ValueError, sm)" by (simp add: sm_transition_def assms(2) fin none)
  qed
qed

definition sm_demo :: "nat state_machine" where
  "sm_demo = snd (sm_transition ''w'' ''complete'' [] (snd (sm_transition ''w'' ''start'' [] (sm_register ''w'' None default_machine))))"

theorem workflow_history_is_path_witness:
  "available_events ''w'' sm_demo = [] \<and> sm_transition ''w'' ''fail'' [] sm_demo = (Inl ValueError, sm_demo)"
proof -
  have "sm_step\<^sup>*\<^sup>* default_machine sm_demo"
    unfolding sm_demo_def by (meson sm_step.move sm_step.register r_into_rtranclp rtranclp_trans)
  note hist = workflow_history_is_path [OF this, of "''w''" _ "''fail''" "[]"]
  have "map_option sr_state (dict_get (records sm_demo) ''w'') = Some ''COMPLETED''" by code_simp
  then obtain r where "dict_get (records sm_demo) ''w'' = Some r" "sr_state r = ''COMPLETED''" by auto
  from hist [OF this(1)] this(2) show ?thesis by simp
qed

text \<open>A guard that is added for a transition the machine already has is never asked: the search
  finds the older, unguarded entry first, while the target is the new one.\<close>

theorem readded_guard_ignored:
  assumes "dict_get (records sm) w = Some r" and "sr_state r = a"
    and "find_transition a e (transitions_list sm) = Some t" and "guard t = None" and "action t = None"
  shows "fst (sm_transition w e md (add_transition a e b (Some g) act sm)) = Inr b
    \<and> sm_get_state w (snd (sm_transition w e md (add_transition a e b (Some g) act sm))) = Some b"
proof -
  have app: "find_transition a e ts = Some t \<Longrightarrow> find_transition a e (ts @ us) = Some t" for ts us :: "'a transition list"
    by (induction ts) (auto split: if_splits)
  have "dict_get (event_map a (add_transition a e b (Some g) act sm)) e = Some b"
    by (simp add: event_map_def add_transition_def sm_put_def dict_get_or_def)
  moreover have "find_transition a e (transitions_list (add_transition a e b (Some g) act sm)) = Some t"
    by (simp add: add_transition_def app [OF assms(3)])
  moreover have "dict_get (records (add_transition a e b (Some g) act sm)) w = Some r"
    by (simp add: add_transition_def assms(1))
  ultimately show ?thesis
    using assms(2,4,5) by (simp add: sm_transition_def Let_def run_guard_def run_action_def sm_get_state_def)
qed

theorem readded_guard_ignored_witness:
  "fst (sm_transition ''w'' ''start'' [] (add_transition ''PENDING'' ''start'' ''RUNNING'' (Some (\<lambda>_. Inr False)) None
      (sm_register ''w'' None (default_machine :: nat state_machine)))) = Inr ''RUNNING''"
proof -
  let ?sm = "sm_register ''w'' None (default_machine :: nat state_machine)"
  have i: "initial_state (default_machine :: nat state_machine) = ''PENDING''"
    by (simp add: default_machine_def sm_init_def build_from_dict_frame)
  have "find_transition ''PENDING'' ''start'' (transitions_list ?sm) =
      Some \<lparr>from_state = ''PENDING'', on_event = ''start'', to_state = ''RUNNING'', guard = None, action = None\<rparr>"
    by (simp add: default_machine_def sm_init_def build_from_dict_def DEFAULT_TRANSITIONS_def touch_state_def
        add_transition_def sm_put_def dict_get_or_def sm_register_def)
  from readded_guard_ignored [OF _ _ this, of "''w''"] show ?thesis
    by (simp add: sm_register_def or_else_def i)
qed

end
