(* ===== verification/Checkpoints.thy ===== *)
theory Checkpoints
  imports Prelude "HOL-Library.Sublist"
begin

text \<open>
  Checkpoints of workflows and the recovery from a failure (\<open>orchestration/checkpoints.py\<close>,
  \<open>orchestration/recovery.py\<close>).

  A store keeps the checkpoints of each workflow in the order they were saved. The
  \<open>RecoveryManager\<close> builds a plan from the last one and executes plans; an exception is its class
  (as far as \<open>isinstance\<close> asks) and its message. Clock readings are arguments.
\<close>

subsection \<open>The store\<close>

record checkpoint =
  cp_workflow :: string
  cp_step :: string
  cp_state :: "(string, py_value) pydict"
  cp_created_at :: pytime
  cp_index :: int
  cp_metadata :: "(string, py_value) pydict"

type_synonym checkpoint_store = "(string, checkpoint list) pydict"

definition cs_save :: "checkpoint \<Rightarrow> checkpoint_store \<Rightarrow> checkpoint_store" where
  "cs_save c st = dict_set (cp_workflow c) (dict_get_or st (cp_workflow c) [] @ [c]) st"

definition list_checkpoints :: "string \<Rightarrow> checkpoint_store \<Rightarrow> checkpoint list" where
  "list_checkpoints w st = dict_get_or st w []"

definition cs_load :: "string \<Rightarrow> checkpoint_store \<Rightarrow> checkpoint option" where
  "cs_load w st = (let cs = list_checkpoints w st in if cs = [] then None else Some (last cs))"

definition cs_delete :: "string \<Rightarrow> checkpoint_store \<Rightarrow> bool \<times> checkpoint_store" where
  "cs_delete w st = (if dict_get st w \<noteq> None then (True, dict_del w st) else (False, st))"

definition delete_step :: "string \<Rightarrow> string \<Rightarrow> checkpoint_store \<Rightarrow> bool \<times> checkpoint_store" where
  "delete_step w s st =
     (case dict_get st w of
        None \<Rightarrow> (False, st)
      | Some cs \<Rightarrow>
          (let keep = filter (\<lambda>c. cp_step c \<noteq> s) cs in (length cs \<noteq> length keep, dict_set w keep st)))"

definition cs_count :: "string \<Rightarrow> checkpoint_store \<Rightarrow> nat" where
  "cs_count w st = length (dict_get_or st w [])"

definition cs_clear :: "checkpoint_store \<Rightarrow> checkpoint_store" where
  "cs_clear st = []"

definition save_checkpoint ::
  "pytime \<Rightarrow> string \<Rightarrow> string \<Rightarrow> (string, py_value) pydict \<Rightarrow> int \<Rightarrow> (string, py_value) pydict \<Rightarrow>
     checkpoint_store \<Rightarrow> checkpoint \<times> checkpoint_store" where
  "save_checkpoint now w s state i md st =
     (let c = \<lparr>cp_workflow = w, cp_step = s, cp_state = state, cp_created_at = now, cp_index = i, cp_metadata = md\<rparr>
      in (c, cs_save c st))"

definition get_checkpoint_before_step :: "string \<Rightarrow> string \<Rightarrow> checkpoint_store \<Rightarrow> checkpoint option" where
  "get_checkpoint_before_step w s st = find (\<lambda>c. cp_step c \<noteq> s) (rev (list_checkpoints w st))"

definition has_checkpoints :: "string \<Rightarrow> checkpoint_store \<Rightarrow> bool" where
  "has_checkpoints w st \<longleftrightarrow> length (list_checkpoints w st) > 0"

definition save_workflow_state ::
  "pytime \<Rightarrow> string \<Rightarrow> string \<Rightarrow> (string \<times> py_value) list \<Rightarrow> int \<Rightarrow> checkpoint_store \<Rightarrow> checkpoint \<times> checkpoint_store" where
  "save_workflow_state now w cur wdata i st =
     save_checkpoint now w cur [(''current_step'', PStr cur), (''workflow_data'', PDict wdata)] i [] st"

lemma save_load [simp]: "cs_load (cp_workflow c) (cs_save c st) = Some c"
  by (simp add: cs_load_def list_checkpoints_def cs_save_def dict_get_or_def)

lemma save_other [simp]: "w \<noteq> cp_workflow c \<Longrightarrow> list_checkpoints w (cs_save c st) = list_checkpoints w st"
  by (simp add: list_checkpoints_def cs_save_def dict_get_or_def)

lemma save_same [simp]: "list_checkpoints (cp_workflow c) (cs_save c st) = list_checkpoints (cp_workflow c) st @ [c]"
  by (simp add: list_checkpoints_def cs_save_def dict_get_or_def)

subsection \<open>Recovery plans\<close>

datatype exc_class = Timeout_Error | Connection_Error | OS_Error | Memory_Error | System_Error | Other_Error

record exc =
  exc_type :: exc_class
  exc_str :: string

record checkpoint_dict =
  \<comment> \<open>a checkpoint as a dictionary whose keys may be missing\<close>
  cd_workflow :: "string option"
  cd_step :: "string option"
  cd_state :: "(string, py_value) pydict option"
  cd_created_at :: "pytime option"
  cd_index :: "int option"
  cd_metadata :: "(string, py_value) pydict option"

definition empty_cd :: checkpoint_dict where
  "empty_cd = \<lparr>cd_workflow = None, cd_step = None, cd_state = None, cd_created_at = None, cd_index = None, cd_metadata = None\<rparr>"

definition to_dict :: "checkpoint \<Rightarrow> checkpoint_dict" where
  "to_dict c = \<lparr>cd_workflow = Some (cp_workflow c), cd_step = Some (cp_step c), cd_state = Some (cp_state c),
     cd_created_at = Some (cp_created_at c), cd_index = Some (cp_index c), cd_metadata = Some (cp_metadata c)\<rparr>"

record recovery_action =
  ra_type :: string
  ra_step :: string
  ra_description :: string
  ra_checkpoint :: "checkpoint_dict option"
  ra_priority :: int

record recovery_plan =
  rp_workflow :: string
  rp_actions :: "recovery_action list"
  rp_metadata :: "(string, string) pydict"

record recovery_manager =
  rm_store :: checkpoint_store
  recovery_history :: "(string, recovery_action list) pydict"

definition rm_init :: recovery_manager where
  "rm_init = \<lparr>rm_store = [], recovery_history = []\<rparr>"

definition mentions :: "string list \<Rightarrow> exc \<Rightarrow> bool" where
  "mentions kws err = list_ex (\<lambda>kw. sublist kw (py_lower (exc_str err))) kws"

definition should_compensate :: "exc \<Rightarrow> bool" where
  \<comment> \<open>\<open>TimeoutError\<close> and \<open>ConnectionError\<close> are \<open>OSError\<close>s\<close>
  "should_compensate err \<longleftrightarrow>
     exc_type err \<in> {Timeout_Error, Connection_Error, OS_Error} \<or>
     mentions [''timeout'', ''connection'', ''network'', ''transient'', ''deadlock''] err"

definition isinstance3 :: "exc \<Rightarrow> exc_class \<Rightarrow> exc_class \<Rightarrow> py_error + bool" where
  \<comment> \<open>\<open>isinstance(x, A, B)\<close>: the built-in takes two arguments\<close>
  "isinstance3 err a b = Inl TypeError"

definition should_restart :: "exc \<Rightarrow> py_error + bool" where
  "should_restart err =
     (case isinstance3 err Memory_Error System_Error of
        Inl x \<Rightarrow> Inl x
      | Inr True \<Rightarrow> Inr True
      | Inr False \<Rightarrow> Inr (mentions [''out of memory'', ''corrupt'', ''fatal''] err))"

definition replay_action :: "checkpoint \<Rightarrow> recovery_action" where
  "replay_action c =
     \<lparr>ra_type = ''replay_from_checkpoint'', ra_step = cp_step c,
      ra_description = ''Replay workflow from checkpoint at step '' @ cp_step c, ra_checkpoint = Some (to_dict c), ra_priority = 1\<rparr>"

definition compensate_action :: "checkpoint \<Rightarrow> recovery_action" where
  "compensate_action c =
     \<lparr>ra_type = ''compensate'', ra_step = cp_step c,
      ra_description = ''Compensate up to step '' @ cp_step c, ra_checkpoint = Some (to_dict c), ra_priority = 0\<rparr>"

definition restart_action :: recovery_action where
  "restart_action =
     \<lparr>ra_type = ''restart'', ra_step = [], ra_description = ''Restart workflow from the beginning'',
      ra_checkpoint = None, ra_priority = 2\<rparr>"

definition recover_from_failure :: "string \<Rightarrow> exc \<Rightarrow> recovery_manager \<Rightarrow> (py_error + recovery_plan) \<times> recovery_manager" where
  "recover_from_failure w err rm =
     (case cs_load w (rm_store rm) of
        None \<Rightarrow> (Inr \<lparr>rp_workflow = w, rp_actions = [], rp_metadata = [(''error'', exc_str err)]\<rparr>, rm)
      | Some c \<Rightarrow>
          (let acts = replay_action c # (if should_compensate err then [compensate_action c] else []) in
           case should_restart err of
             Inl x \<Rightarrow> (Inl x, rm)
           | Inr b \<Rightarrow>
               (let plan = \<lparr>rp_workflow = w, rp_actions = sort_key ra_priority (acts @ (if b then [restart_action] else [])),
                            rp_metadata = [(''error'', exc_str err), (''from_checkpoint'', cp_step c)]\<rparr>
                in (Inr plan, rm\<lparr>recovery_history := dict_set w
                      (dict_get_or (recovery_history rm) w [] @ rp_actions plan) (recovery_history rm)\<rparr>))))"

definition replay_from_checkpoint ::
  "pytime \<Rightarrow> string \<Rightarrow> checkpoint option \<Rightarrow> recovery_manager \<Rightarrow> checkpoint option \<times> recovery_manager" where
  "replay_from_checkpoint now w given rm =
     (case (case given of Some c \<Rightarrow> Some c | None \<Rightarrow> cs_load w (rm_store rm)) of
        None \<Rightarrow> (None, rm)
      | Some c \<Rightarrow>
          (Some c, rm\<lparr>rm_store := snd (save_checkpoint now w (cp_step c) (cp_state c) (cp_index c)
                       [(''replayed_from'', PFloat (cp_created_at c))] (rm_store rm))\<rparr>))"

definition get_recovery_plan :: "string \<Rightarrow> recovery_manager \<Rightarrow> recovery_plan option" where
  "get_recovery_plan w rm =
     (let h = dict_get_or (recovery_history rm) w [] in
      if h = [] then None else Some \<lparr>rp_workflow = w, rp_actions = h, rp_metadata = [(''source'', ''history'')]\<rparr>)"

definition get_recovery_history :: "string \<Rightarrow> recovery_manager \<Rightarrow> recovery_action list" where
  "get_recovery_history w rm = dict_get_or (recovery_history rm) w []"

definition clear_history :: "string \<Rightarrow> recovery_manager \<Rightarrow> recovery_manager" where
  "clear_history w rm = rm\<lparr>recovery_history := dict_del w (recovery_history rm)\<rparr>"

subsection \<open>Executing a plan\<close>

definition from_dict :: "checkpoint_dict \<Rightarrow> py_error + checkpoint" where
  \<comment> \<open>a missing key raises where the code subscripts, defaults where it uses \<open>get\<close>; the metadata stay behind\<close>
  "from_dict d =
     (case (cd_workflow d, cd_step d, cd_state d) of
        (Some w, Some s, Some st) \<Rightarrow>
          Inr \<lparr>cp_workflow = w, cp_step = s, cp_state = st,
               cp_created_at = (case cd_created_at d of None \<Rightarrow> 0 | Some t \<Rightarrow> t),
               cp_index = (case cd_index d of None \<Rightarrow> 0 | Some i \<Rightarrow> i), cp_metadata = []\<rparr>
      | _ \<Rightarrow> Inl KeyError)"

definition given_checkpoint :: "recovery_action \<Rightarrow> py_error + checkpoint option" where
  "given_checkpoint a =
     (case ra_checkpoint a of
        None \<Rightarrow> Inr None
      | Some d \<Rightarrow> if d = empty_cd then Inr None else (case from_dict d of Inl x \<Rightarrow> Inl x | Inr c \<Rightarrow> Inr (Some c)))"

fun execute_actions ::
  "pytime \<Rightarrow> string \<Rightarrow> recovery_action list \<Rightarrow> (string, bool) pydict \<Rightarrow> recovery_manager \<Rightarrow>
     (py_error + (string, bool) pydict) \<times> recovery_manager" where
  "execute_actions now w [] res rm = (Inr res, rm)"
| "execute_actions now w (a # as) res rm =
     (if ra_type a = ''replay_from_checkpoint''
      then (case given_checkpoint a of
              Inl x \<Rightarrow> (Inl x, rm)
            | Inr given \<Rightarrow>
                (let (r, rm') = replay_from_checkpoint now w given rm
                 in execute_actions now w as (dict_set (ra_type a) (r \<noteq> None) res) rm'))
      else if ra_type a = ''compensate'' \<or> ra_type a = ''restart''
      then execute_actions now w as (dict_set (ra_type a) True res) rm
      else execute_actions now w as (dict_set (ra_type a) False res) rm)"

definition execute_recovery ::
  "pytime \<Rightarrow> string \<Rightarrow> recovery_plan \<Rightarrow> recovery_manager \<Rightarrow> (py_error + (string, bool) pydict) \<times> recovery_manager" where
  "execute_recovery now w plan rm = execute_actions now w (sort_key ra_priority (rp_actions plan)) [] rm"

subsection \<open>Histories\<close>

inductive rm_step :: "recovery_manager \<Rightarrow> recovery_manager \<Rightarrow> bool" where
  save: "rm_step rm (rm\<lparr>rm_store := snd (save_checkpoint now w s state i md (rm_store rm))\<rparr>)"
| delete: "rm_step rm (rm\<lparr>rm_store := snd (cs_delete w (rm_store rm))\<rparr>)"
| delete_step: "rm_step rm (rm\<lparr>rm_store := snd (delete_step w s (rm_store rm))\<rparr>)"
| clear: "rm_step rm (rm\<lparr>rm_store := cs_clear (rm_store rm)\<rparr>)"
| recover: "rm_step rm (snd (recover_from_failure w err rm))"
| replay: "rm_step rm (snd (replay_from_checkpoint now w given rm))"
| execute: "rm_step rm (snd (execute_recovery now w plan rm))"
| forget: "rm_step rm (clear_history w rm)"

lemma recover_raises:
  "recover_from_failure w err rm =
     (case cs_load w (rm_store rm) of
        None \<Rightarrow> (Inr \<lparr>rp_workflow = w, rp_actions = [], rp_metadata = [(''error'', exc_str err)]\<rparr>, rm)
      | Some c \<Rightarrow> (Inl TypeError, rm))"
  by (simp add: recover_from_failure_def should_restart_def isinstance3_def split: option.split)

lemma replay_history: "recovery_history (snd (replay_from_checkpoint now w given rm)) = recovery_history rm"
  by (simp add: replay_from_checkpoint_def split: option.split)

lemma execute_history: "recovery_history (snd (execute_actions now w acts res rm)) = recovery_history rm"
proof (induction now w acts res rm rule: execute_actions.induct)
  case (2 now w a as res rm)
  then show ?case
    using replay_history [of now w _ rm] by (auto simp: split_beta split: sum.split)
qed simp

lemma rm_step_history: "rm_step rm rm' \<Longrightarrow> recovery_history rm = [] \<Longrightarrow> recovery_history rm' = []"
proof (induction rule: rm_step.induct)
  case (recover rm w err)
  then show ?case by (simp add: recover_raises split: option.split)
qed (simp_all add: replay_history execute_recovery_def execute_history clear_history_def)

lemma from_to_dict: "from_dict (to_dict c) = Inr (c\<lparr>cp_metadata := []\<rparr>)"
  by (simp add: from_dict_def to_dict_def)

lemma given_to_dict: "ra_checkpoint a = Some (to_dict c) \<Longrightarrow> given_checkpoint a = Inr (Some (c\<lparr>cp_metadata := []\<rparr>))"
  by (simp add: given_checkpoint_def from_to_dict) (simp add: to_dict_def empty_cd_def)

lemma list_cs_save: "list_checkpoints v (cs_save c st) = list_checkpoints v st @ (if v = cp_workflow c then [c] else [])"
  by (simp add: list_checkpoints_def cs_save_def dict_get_or_def)

lemma list_delete: "list_checkpoints v (snd (cs_delete w st)) = (if v = w then [] else list_checkpoints v st)"
  by (auto simp: list_checkpoints_def cs_delete_def dict_get_or_def)

lemma list_delete_step:
  "list_checkpoints v (snd (delete_step w s st)) =
     (if v = w then filter (\<lambda>c. cp_step c \<noteq> s) (list_checkpoints v st) else list_checkpoints v st)"
  by (auto simp: list_checkpoints_def delete_step_def dict_get_or_def Let_def split: option.split)

text \<open>The checkpoint "before" a step is the last one of another step, even when that came later.\<close>

lemma before_step_may_be_later:
  "map_option cp_step (get_checkpoint_before_step ''w'' ''b''
     (snd (save_checkpoint 3 ''w'' ''c'' [] 2 [] (snd (save_checkpoint 2 ''w'' ''b'' [] 1 []
        (snd (save_checkpoint 1 ''w'' ''a'' [] 0 [] []))))))) = Some ''c''"
  by code_simp

subsection \<open>Properties\<close>

text \<open>Recovery never produces a plan: in every history, recovering a workflow that has a checkpoint
  raises \<open>TypeError\<close> (from \<open>isinstance\<close> with three arguments), so the recovery history stays empty and
  \<open>get_recovery_plan\<close> answers None for every workflow.\<close>

theorem recovery_never_plans:
  assumes "rm_step\<^sup>*\<^sup>* rm_init rm"
  shows "get_recovery_plan w rm = None
    \<and> (has_checkpoints w (rm_store rm) \<longrightarrow> recover_from_failure w err rm = (Inl TypeError, rm))"
proof -
  from assms have "recovery_history rm = []"
    by (induction rule: rtranclp_induct) (auto simp: rm_init_def rm_step_history)
  then show ?thesis
    by (simp add: get_recovery_plan_def dict_get_or_def recover_raises has_checkpoints_def cs_load_def)
qed

definition rm_demo :: recovery_manager where
  "rm_demo = rm_init\<lparr>rm_store := snd (save_checkpoint 1 ''w'' ''fetch'' [] 0 [] (rm_store rm_init))\<rparr>"

theorem recovery_never_plans_witness:
  "fst (recover_from_failure ''w'' \<lparr>exc_type = Other_Error, exc_str = ''boom''\<rparr> rm_demo) = Inl TypeError"
proof -
  have "rm_step\<^sup>*\<^sup>* rm_init rm_demo"
    unfolding rm_demo_def by (rule r_into_rtranclp) (rule rm_step.save)
  moreover have "has_checkpoints ''w'' (rm_store rm_demo)" by code_simp
  ultimately show ?thesis using recovery_never_plans [of rm_demo "''w''"] by simp
qed

text \<open>C33: replaying restores: executing a replay action made from any checkpoint succeeds, makes the
  workflow's latest checkpoint one with the same step, state and index that names the time of the
  original, keeps every earlier checkpoint and leaves all other workflows alone.\<close>

theorem replay_restores:
  assumes "rp_actions plan = [a]" and "ra_type a = ''replay_from_checkpoint''" and "ra_checkpoint a = Some (to_dict c)"
  shows "fst (execute_recovery now w plan rm) = Inr [(''replay_from_checkpoint'', True)]
    \<and> list_checkpoints v (rm_store (snd (execute_recovery now w plan rm))) = list_checkpoints v (rm_store rm) @
        (if v = w then [\<lparr>cp_workflow = w, cp_step = cp_step c, cp_state = cp_state c, cp_created_at = now,
            cp_index = cp_index c, cp_metadata = [(''replayed_from'', PFloat (cp_created_at c))]\<rparr>] else [])"
  using given_to_dict [OF assms(3)]
  by (simp add: execute_recovery_def assms(1,2) replay_from_checkpoint_def save_checkpoint_def list_cs_save Let_def)

theorem replay_restores_witness:
  "map_option cp_step (cs_load ''w'' (rm_store (snd (execute_recovery 9 ''w''
     \<lparr>rp_workflow = ''w'', rp_actions = [replay_action (hd (list_checkpoints ''w'' (rm_store rm_demo)))], rp_metadata = []\<rparr> rm_demo))))
   = Some ''fetch''"
proof -
  let ?c = "hd (list_checkpoints ''w'' (rm_store rm_demo))"
  have "cp_step ?c = ''fetch''" by code_simp
  then show ?thesis
    using replay_restores [of "\<lparr>rp_workflow = ''w'', rp_actions = [replay_action ?c], rp_metadata = []\<rparr>"
        "replay_action ?c" ?c 9 "''w''" rm_demo "''w''"]
    by (simp add: replay_action_def cs_load_def Let_def)
qed

end
