(* ===== verification/Workflow_Runner.thy ===== *)
theory Workflow_Runner
  imports Checkpoints
begin

text \<open>
  Running a workflow (\<open>orchestration/contracts.py\<close>, \<open>orchestration/policies.py\<close>,
  \<open>orchestration/runners.py\<close>).

  A step is its name and two callables on the shared context \<open>'c\<close>: \<open>execute\<close> under
  \<open>asyncio.wait_for\<close> returns, times out or raises; \<open>compensate\<close> returns or raises (its message).
  Sleeping between attempts changes no state; what \<open>delay_for\<close> asks for is \<open>delay_for\<close> below.
  Clock readings and measured durations are arguments.
\<close>

datatype workflow_status = WF_PENDING | WF_RUNNING | WF_COMPLETED | WF_FAILED | WF_PAUSED

datatype step_status = ST_PENDING | ST_RUNNING | ST_COMPLETED | ST_FAILED | ST_SKIPPED | ST_COMPENSATED

datatype run_error = After_Timeout pyfloat | Message string

datatype 'o step_outcome = Returned 'o | Timed_Out_With string | Raised_Exc exc

record 'o step_result =
  sr_step :: string
  success :: bool
  sr_output :: "'o option"
  sr_error :: "run_error option"
  sr_status :: step_status
  duration_seconds :: pyfloat

record 'o workflow_state =
  ws_id :: string
  current_step :: "string option"
  results :: "'o step_result list"
  ws_status :: workflow_status
  ws_started_at :: "pytime option"
  ws_completed_at :: "pytime option"
  ws_error :: "run_error option"

record ('c, 'o) step =
  st_name :: string
  execute :: "'c \<Rightarrow> 'o step_outcome \<times> 'c"
  compensate :: "'c \<Rightarrow> string option \<times> 'c"

record ('c, 'o) workflow =
  wf_id :: string
  wf_steps :: "('c, 'o) step list"
  wf_status :: workflow_status

definition add_result :: "'o step_result \<Rightarrow> 'o workflow_state \<Rightarrow> 'o workflow_state" where
  "add_result r st = st\<lparr>results := results st @ [r]\<rparr>"

definition last_result :: "'o workflow_state \<Rightarrow> 'o step_result option" where
  "last_result st = (if results st = [] then None else Some (last (results st)))"

definition failed_results :: "'o workflow_state \<Rightarrow> 'o step_result list" where
  "failed_results st = filter (\<lambda>r. \<not> success r) (results st)"

definition get_step :: "string \<Rightarrow> ('c, 'o) step list \<Rightarrow> ('c, 'o) step option" where
  "get_step n steps = find (\<lambda>s. st_name s = n) steps"

subsection \<open>Policies\<close>

record retry_policy =
  max_retries :: int
  backoff_factor :: pyfloat
  retry_on :: "exc \<Rightarrow> bool"  \<comment> \<open>\<open>isinstance(exception, retry_on_exceptions)\<close>\<close>
  initial_delay :: pyfloat
  max_delay :: pyfloat
  jitter :: bool

record timeout_policy =
  timeout_seconds :: pyfloat
  raise_on_timeout :: bool
  on_timeout_callback :: "(string \<Rightarrow> string option) option"  \<comment> \<open>\<open>Some\<close> message: the callback raises\<close>

record workflow_policy =
  retry :: retry_policy
  timeout :: timeout_policy
  compensate_on_failure :: bool

definition default_retry_policy :: retry_policy where
  "default_retry_policy =
     \<lparr>max_retries = 3, backoff_factor = 1, retry_on = (\<lambda>_. True), initial_delay = 0, max_delay = 60, jitter = False\<rparr>"

definition default_workflow_policy :: workflow_policy where
  "default_workflow_policy =
     \<lparr>retry = default_retry_policy,
      timeout = \<lparr>timeout_seconds = 30, raise_on_timeout = True, on_timeout_callback = None\<rparr>,
      compensate_on_failure = True\<rparr>"

definition should_retry :: "retry_policy \<Rightarrow> int \<Rightarrow> exc \<Rightarrow> bool" where
  "should_retry p attempt err = (if attempt \<ge> max_retries p then False else retry_on p err)"

definition delay_for :: "retry_policy \<Rightarrow> pyfloat \<Rightarrow> nat \<Rightarrow> pyfloat" where
  \<comment> \<open>\<open>u\<close> is \<open>random.uniform(0.5, 1.5)\<close>\<close>
  "delay_for p u attempt =
     (let d = min (initial_delay p + backoff_factor p * 2 ^ attempt) (max_delay p) in if jitter p then d * u else d)"

subsection \<open>One step with its retries\<close>

definition failed_result :: "string \<Rightarrow> run_error \<Rightarrow> 'o step_result" where
  "failed_result n e =
     \<lparr>sr_step = n, success = False, sr_output = None, sr_error = Some e, sr_status = ST_FAILED, duration_seconds = 0\<rparr>"

definition ok_result :: "string \<Rightarrow> 'o \<Rightarrow> 'o step_result" where
  "ok_result n v =
     \<lparr>sr_step = n, success = True, sr_output = Some v, sr_error = None, sr_status = ST_COMPLETED, duration_seconds = 0\<rparr>"

definition error_text :: "string option \<Rightarrow> string" where
  \<comment> \<open>\<open>str(last_error) or "Unknown error"\<close>\<close>
  "error_text lerr =
     (case lerr of None \<Rightarrow> ''None'' | Some m \<Rightarrow> if m = [] then ''Unknown error'' else m)"

function attempt_step ::
  "workflow_policy \<Rightarrow> ('c, 'o) step \<Rightarrow> int \<Rightarrow> string option \<Rightarrow> 'c \<Rightarrow> (string + 'o step_result) \<times> 'c" where
  \<comment> \<open>\<open>Inl\<close>: an exception of the timeout callback leaves the loop\<close>
  "attempt_step pol s attempt lerr c =
     (if attempt > max_retries (retry pol)
      then (Inr (failed_result (st_name s) (Message (error_text lerr))), c)
      else
        (case execute s c of
           (Returned v, c') \<Rightarrow> (Inr (ok_result (st_name s) v), c')
         | (Timed_Out_With m, c') \<Rightarrow>
             (case (case on_timeout_callback (timeout pol) of None \<Rightarrow> None | Some f \<Rightarrow> f (st_name s)) of
                Some e \<Rightarrow> (Inl e, c')
              | None \<Rightarrow>
                  if \<not> raise_on_timeout (timeout pol)
                  then (Inr (failed_result (st_name s) (After_Timeout (timeout_seconds (timeout pol)))), c')
                  else attempt_step pol s (attempt + 1) (Some m) c')
         | (Raised_Exc x, c') \<Rightarrow>
             if \<not> should_retry (retry pol) attempt x
             then (Inr (failed_result (st_name s) (Message (error_text (Some (exc_str x))))), c')
             else attempt_step pol s (attempt + 1) (Some (exc_str x)) c'))"
  by pat_completeness auto
termination
  by (relation "measure (\<lambda>(pol, s, attempt, lerr, c). nat (max_retries (retry pol) + 1 - attempt))") auto

declare attempt_step.simps [simp del]

definition execute_step_with_retry ::
  "workflow_policy \<Rightarrow> ('c, 'o) step \<Rightarrow> 'c \<Rightarrow> (string + 'o step_result) \<times> 'c" where
  "execute_step_with_retry pol s c = attempt_step pol s 0 None c"

subsection \<open>The sequential runner\<close>

fun compensate_loop ::
  "('c, 'o) step list \<Rightarrow> string list \<Rightarrow> 'o workflow_state \<Rightarrow> 'c \<Rightarrow> 'o workflow_state \<times> 'c" where
  "compensate_loop steps [] st c = (st, c)"
| "compensate_loop steps (n # ns) st c =
     (case get_step n steps of
        None \<Rightarrow> compensate_loop steps ns st c
      | Some s \<Rightarrow>
          (let (err, c') = compensate s c;
               r = (case err of
                      None \<Rightarrow> \<lparr>sr_step = n, success = True, sr_output = None, sr_error = None,
                               sr_status = ST_COMPENSATED, duration_seconds = 0\<rparr>
                    | Some m \<Rightarrow> failed_result n (Message m))
           in compensate_loop steps ns (add_result r st) c'))"

definition handle_failure ::
  "workflow_policy \<Rightarrow> pytime \<Rightarrow> ('c, 'o) step list \<Rightarrow> string list \<Rightarrow> run_error \<Rightarrow> 'o workflow_state \<Rightarrow> 'c \<Rightarrow>
     'o workflow_state \<times> 'c" where
  "handle_failure pol now steps executed e st c =
     (let (st', c') =
            (if compensate_on_failure pol
             then compensate_loop steps (rev executed) (st\<lparr>ws_status := WF_FAILED\<rparr>) c
             else (st, c))
      in (st'\<lparr>ws_error := Some e, ws_completed_at := Some now\<rparr>, c'))"

fun run_steps ::
  "workflow_policy \<Rightarrow> (nat \<Rightarrow> pyfloat) \<Rightarrow> pytime \<Rightarrow> ('c, 'o) step list \<Rightarrow> ('c, 'o) step list \<Rightarrow> string list \<Rightarrow>
     'o workflow_state \<Rightarrow> 'c \<Rightarrow> 'o workflow_state \<times> workflow_status \<times> 'c" where
  \<comment> \<open>the loop over the steps; the second component is the status the workflow object ends with\<close>
  "run_steps pol dur now steps [] executed st c =
     (st\<lparr>ws_status := WF_COMPLETED, ws_completed_at := Some now\<rparr>, WF_COMPLETED, c)"
| "run_steps pol dur now steps (s # rest) executed st c =
     (let st1 = st\<lparr>current_step := Some (st_name s)\<rparr> in
      case execute_step_with_retry pol s c of
        (Inl e, c') \<Rightarrow>
          (st1\<lparr>ws_status := WF_FAILED, ws_error := Some (Message e), ws_completed_at := Some now\<rparr>, WF_FAILED, c')
      | (Inr r, c') \<Rightarrow>
          (let r' = r\<lparr>duration_seconds := dur (length (results st))\<rparr> in
           if success r
           then run_steps pol dur now steps rest (executed @ [st_name s])
                  (add_result (r'\<lparr>sr_status := ST_COMPLETED\<rparr>) st1) c'
           else let (st2, c2) = handle_failure pol now steps executed
                        (case sr_error r of Some e \<Rightarrow> e | None \<Rightarrow> Message ''Unknown error'')
                        (add_result (r'\<lparr>sr_status := ST_FAILED\<rparr>) st1) c'
                in (st2, WF_FAILED, c2)))"

definition started :: "pytime \<Rightarrow> ('c, 'o) workflow \<Rightarrow> 'o workflow_state" where
  "started now w =
     \<lparr>ws_id = wf_id w, current_step = None, results = [], ws_status = WF_RUNNING, ws_started_at = Some now,
      ws_completed_at = None, ws_error = None\<rparr>"

definition run ::
  "workflow_policy \<Rightarrow> (nat \<Rightarrow> pyfloat) \<Rightarrow> pytime \<Rightarrow> pytime \<Rightarrow> ('c, 'o) workflow \<Rightarrow> 'c \<Rightarrow>
     'o workflow_state \<times> ('c, 'o) workflow \<times> 'c" where
  "run pol dur t0 t1 w c =
     (let (st, status, c') = run_steps pol dur t1 (wf_steps w) (wf_steps w) [] (started t0 w) c
      in (st, w\<lparr>wf_status := status\<rparr>, c'))"

subsection \<open>The "async" runner\<close>

definition execute_step :: "workflow_policy \<Rightarrow> pyfloat \<Rightarrow> ('c, 'o) step \<Rightarrow> 'c \<Rightarrow> 'o step_result \<times> 'c" where
  \<comment> \<open>under the semaphore and the outer \<open>wait_for\<close>, which give the same result for a timeout\<close>
  "execute_step pol d s c =
     (case execute s c of
        (Returned v, c') \<Rightarrow> ((ok_result (st_name s) v)\<lparr>duration_seconds := d\<rparr>, c')
      | (Timed_Out_With m, c') \<Rightarrow> (failed_result (st_name s) (After_Timeout (timeout_seconds (timeout pol))), c')
      | (Raised_Exc x, c') \<Rightarrow> (failed_result (st_name s) (Message (exc_str x)), c'))"

fun async_steps ::
  "workflow_policy \<Rightarrow> (nat \<Rightarrow> pyfloat) \<Rightarrow> ('c, 'o) step list \<Rightarrow> (string, 'o step_result) pydict \<Rightarrow>
     'o workflow_state \<Rightarrow> 'c \<Rightarrow> (string, 'o step_result) pydict \<times> 'o workflow_state \<times> 'c" where
  \<comment> \<open>the coroutines are awaited one after the other\<close>
  "async_steps pol dur [] res st c = (res, st, c)"
| "async_steps pol dur (s # rest) res st c =
     (let (r, c') = execute_step pol (dur (length (results st))) s c
      in async_steps pol dur rest (dict_set (st_name s) r res) (add_result r st) c')"

fun compensate_all :: "('c, 'o) step list \<Rightarrow> (string, 'o step_result) pydict \<Rightarrow> 'c \<Rightarrow> 'c" where
  "compensate_all steps [] c = c"
| "compensate_all steps ((n, r) # res) c =
     (if \<not> success r
      then (case get_step n steps of
              None \<Rightarrow> compensate_all steps res c
            | Some s \<Rightarrow> compensate_all steps res (snd (compensate s c)))
      else compensate_all steps res c)"

definition run_async ::
  "workflow_policy \<Rightarrow> (nat \<Rightarrow> pyfloat) \<Rightarrow> pytime \<Rightarrow> pytime \<Rightarrow> ('c, 'o) workflow \<Rightarrow> 'c \<Rightarrow>
     'o workflow_state \<times> ('c, 'o) workflow \<times> 'c" where
  "run_async pol dur t0 t1 w c =
     (let (res, st, c1) = async_steps pol dur (wf_steps w) [] (started t0 w) c in
      if list_all (\<lambda>(n, r). success r) res
      then (st\<lparr>ws_status := WF_COMPLETED, ws_completed_at := Some t1\<rparr>, w\<lparr>wf_status := WF_COMPLETED\<rparr>, c1)
      else (st\<lparr>ws_status := WF_FAILED, ws_error := Some (Message ''One or more parallel steps failed''),
               ws_completed_at := Some t1\<rparr>, w\<lparr>wf_status := WF_FAILED\<rparr>,
            (if compensate_on_failure pol then compensate_all (wf_steps w) res c1 else c1)))"

subsection \<open>Attempts of one step\<close>

lemma attempt_step_result:
  "attempt_step pol s attempt lerr c = (Inr r, c') \<Longrightarrow>
     sr_step r = st_name s \<and> (success r \<longleftrightarrow> sr_error r = None)"
proof (induction pol s attempt lerr c rule: attempt_step.induct)
  case (1 pol s attempt lerr c)
  from 1(3) show ?case
    by (subst (asm) attempt_step.simps)
      (auto simp: failed_result_def ok_result_def dest: 1(1) [rotated -1] 1(2) [rotated -1]
        split: if_splits prod.splits step_outcome.splits option.splits)
qed

definition again :: "workflow_policy \<Rightarrow> ('c, 'o) step \<Rightarrow> int \<Rightarrow> 'o step_outcome \<Rightarrow> string option" where
  \<comment> \<open>the message the next attempt starts with, if there is one\<close>
  "again pol s attempt out =
     (case out of
        Returned v \<Rightarrow> None
      | Timed_Out_With m \<Rightarrow>
          if raise_on_timeout (timeout pol)
             \<and> (case on_timeout_callback (timeout pol) of None \<Rightarrow> None | Some f \<Rightarrow> f (st_name s)) = None
          then Some m else None
      | Raised_Exc x \<Rightarrow> if should_retry (retry pol) attempt x then Some (exc_str x) else None)"

lemma attempt_again:
  assumes "attempt \<le> max_retries (retry pol)" and "execute s c = (out, c')" and "again pol s attempt out = Some m"
  shows "attempt_step pol s attempt lerr c = attempt_step pol s (attempt + 1) (Some m) c'"
  using assms by (subst attempt_step.simps) (auto simp: again_def split: step_outcome.splits if_splits)

lemma attempt_stops:
  assumes "attempt \<le> max_retries (retry pol)" and "execute s c = (out, c')" and "again pol s attempt out = None"
  shows "snd (attempt_step pol s attempt lerr c) = c'"
  using assms
  by (subst attempt_step.simps) (auto simp: again_def split: step_outcome.splits if_splits option.splits)

lemma attempts_over: "attempt > max_retries (retry pol) \<Longrightarrow> snd (attempt_step pol s attempt lerr c) = c"
  by (subst attempt_step.simps) simp

lemma attempts_counted:
  assumes count: "\<And>n d. fst (snd (execute s (n, d))) = Suc n"
  shows "attempt \<le> max_retries (retry pol) + 1 \<Longrightarrow>
    fst c \<le> fst (snd (attempt_step pol s attempt lerr c))
    \<and> int (fst (snd (attempt_step pol s attempt lerr c))) \<le> int (fst c) + (max_retries (retry pol) + 1 - attempt)
    \<and> (attempt \<le> max_retries (retry pol) \<longrightarrow> fst c < fst (snd (attempt_step pol s attempt lerr c)))"
proof (induction "nat (max_retries (retry pol) + 1 - attempt)" arbitrary: attempt lerr c)
  case 0
  then show ?case by (simp add: attempts_over)
next
  case (Suc k)
  then have le: "attempt \<le> max_retries (retry pol)" and k: "k = nat (max_retries (retry pol) + 1 - (attempt + 1))" by linarith+
  obtain out c' where ex: "execute s c = (out, c')" by (cases "execute s c")
  have n: "fst c' = Suc (fst c)" using count [of "fst c" "snd c"] ex by simp
  show ?case
  proof (cases "again pol s attempt out")
    case None
    then show ?thesis using attempt_stops [OF le ex None, of lerr] n le by simp
  next
    case (Some m)
    then show ?thesis
      using attempt_again [OF le ex Some, of lerr] Suc.hyps(1) [OF k, of c' "Some m"] n le by simp
  qed
qed

lemma attempts_exhausted:
  assumes count: "\<And>n d. fst (snd (execute s (n, d))) = Suc n"
    and raises: "\<And>c. \<exists>x. fst (execute s c) = Raised_Exc x \<and> retry_on (retry pol) x"
  shows "attempt \<le> max_retries (retry pol) + 1 \<Longrightarrow> attempt_step pol s attempt lerr c = (res, c') \<Longrightarrow>
    int (fst c') = int (fst c) + (max_retries (retry pol) + 1 - attempt) \<and> (\<exists>r. res = Inr r \<and> \<not> success r)"
proof (induction "nat (max_retries (retry pol) + 1 - attempt)" arbitrary: attempt lerr c)
  case 0
  then show ?case by (subst (asm) attempt_step.simps) (auto simp: failed_result_def)
next
  case (Suc k)
  then have le: "attempt \<le> max_retries (retry pol)" and k: "k = nat (max_retries (retry pol) + 1 - (attempt + 1))" by linarith+
  obtain x c1 where ex: "execute s c = (Raised_Exc x, c1)" and rx: "retry_on (retry pol) x"
    using raises [of c] by (metis prod.collapse)
  have n: "fst c1 = Suc (fst c)" using count [of "fst c" "snd c"] ex by simp
  show ?case
  proof (cases "attempt = max_retries (retry pol)")
    case True
    then have "res = Inr (failed_result (st_name s) (Message (error_text (Some (exc_str x)))))" "c' = c1"
      using Suc.prems(2) by (subst (asm) attempt_step.simps, simp add: ex should_retry_def)+
    then show ?thesis using n True by (simp add: failed_result_def)
  next
    case False
    then have "again pol s attempt (Raised_Exc x) = Some (exc_str x)"
      using le rx by (simp add: again_def should_retry_def)
    from attempt_again [OF le ex this, of lerr] Suc.hyps(1) [OF k _, of "Some (exc_str x)" c1] Suc.prems(2) n le False
    show ?thesis by auto
  qed
qed

subsection \<open>What a run does, in one piece\<close>

fun forward ::
  "workflow_policy \<Rightarrow> (nat \<Rightarrow> pyfloat) \<Rightarrow> nat \<Rightarrow> ('c, 'o) step list \<Rightarrow> 'c \<Rightarrow> ('o step_result list \<times> 'c) option" where
  \<comment> \<open>every step succeeds within its retries: the results and the context after\<close>
  "forward pol dur k [] c = Some ([], c)"
| "forward pol dur k (s # ss) c =
     (case execute_step_with_retry pol s c of
        (Inr r, c') \<Rightarrow>
          (if success r
           then map_option (\<lambda>(rs, c''). (r\<lparr>duration_seconds := dur k, sr_status := ST_COMPLETED\<rparr> # rs, c''))
                  (forward pol dur (Suc k) ss c')
           else None)
      | (Inl e, c') \<Rightarrow> None)"

fun undo :: "('c, 'o) step list \<Rightarrow> 'c \<Rightarrow> 'o step_result list \<times> 'c" where
  \<comment> \<open>the steps compensated one by one; one that raises does not stop the others\<close>
  "undo [] c = ([], c)"
| "undo (s # ss) c =
     (let (err, c') = compensate s c; (rs, c'') = undo ss c'
      in ((case err of
             None \<Rightarrow> \<lparr>sr_step = st_name s, success = True, sr_output = None, sr_error = None,
                      sr_status = ST_COMPENSATED, duration_seconds = 0\<rparr>
           | Some m \<Rightarrow> failed_result (st_name s) (Message m)) # rs, c''))"

lemma get_step_in: "distinct (map st_name steps) \<Longrightarrow> s \<in> set steps \<Longrightarrow> get_step (st_name s) steps = Some s"
  unfolding get_step_def
proof (induction steps)
  case (Cons a steps)
  then show ?case by (auto simp: image_iff)
qed simp

lemma compensate_loop_undo:
  assumes "distinct (map st_name steps)"
  shows "set ss \<subseteq> set steps \<Longrightarrow>
    compensate_loop steps (map st_name ss) st c = (st\<lparr>results := results st @ fst (undo ss c)\<rparr>, snd (undo ss c))"
proof (induction ss arbitrary: st c)
  case (Cons s ss)
  then show ?case
    using get_step_in [OF assms, of s] by (simp add: split_beta Let_def add_result_def)
qed simp

lemma undo_names: "map sr_step (fst (undo ss c)) = map st_name ss"
  by (induction ss arbitrary: c) (auto simp: split_beta Let_def failed_result_def split: option.split)

lemma forward_names: "forward pol dur k ss c = Some (rs, c') \<Longrightarrow> map sr_step rs = map st_name ss"
proof (induction ss arbitrary: k c rs)
  case (Cons s ss)
  obtain q c1 where e: "execute_step_with_retry pol s c = (q, c1)" by (cases "execute_step_with_retry pol s c")
  with Cons.prems obtain r where r: "q = Inr r" "success r" by (auto split: sum.splits if_splits)
  from Cons.prems obtain rs1 where "forward pol dur (Suc k) ss c1 = Some (rs1, c')"
      and "rs = r\<lparr>duration_seconds := dur k, sr_status := ST_COMPLETED\<rparr> # rs1"
    by (auto simp: e r)
  with Cons.IH attempt_step_result [of pol s 0 None c r c1] show ?case
    using e r by (simp add: execute_step_with_retry_def)
qed simp

lemma run_steps_forward:
  assumes "forward pol dur (length (results st)) pre c = Some (rs, c1)"
  shows "run_steps pol dur now steps (pre @ post) ex st c =
    run_steps pol dur now steps post (ex @ map st_name pre)
      (st\<lparr>current_step := (if pre = [] then current_step st else Some (st_name (last pre))), results := results st @ rs\<rparr>) c1"
  using assms
proof (induction pre arbitrary: ex st c rs)
  case (Cons s pre)
  obtain q c2 where e: "execute_step_with_retry pol s c = (q, c2)" by (cases "execute_step_with_retry pol s c")
  with Cons.prems obtain r where r: "q = Inr r" "success r" by (auto split: sum.splits if_splits)
  from Cons.prems obtain rs1 where f: "forward pol dur (Suc (length (results st))) pre c2 = Some (rs1, c1)"
      and rs: "rs = r\<lparr>duration_seconds := dur (length (results st)), sr_status := ST_COMPLETED\<rparr> # rs1"
    by (auto simp: e r)
  let ?st = "add_result (r\<lparr>duration_seconds := dur (length (results st)), sr_status := ST_COMPLETED\<rparr>)
      (st\<lparr>current_step := Some (st_name s)\<rparr>)"
  have "length (results ?st) = Suc (length (results st))" by (simp add: add_result_def)
  with Cons.IH [of ?st c2 rs1 "ex @ [st_name s]"] f
  show ?case by (auto simp: e r rs Let_def add_result_def)
qed simp

lemma run_completes:
  assumes "forward pol dur 0 (wf_steps w) c = Some (rs, c1)"
  shows "run pol dur t0 t1 w c =
    (started t0 w\<lparr>current_step := (if wf_steps w = [] then None else Some (st_name (last (wf_steps w)))), results := rs,
       ws_status := WF_COMPLETED, ws_completed_at := Some t1\<rparr>, w\<lparr>wf_status := WF_COMPLETED\<rparr>, c1)"
  using run_steps_forward [of pol dur "started t0 w" "wf_steps w" c rs c1 t1 "wf_steps w" "[]" "[]"] assms
  by (simp add: run_def started_def)

lemma run_fails:
  assumes "wf_steps w = pre @ s # post" and "forward pol dur 0 pre c = Some (rs, c1)"
    and "execute_step_with_retry pol s c1 = (Inr r, c2)" and "\<not> success r"
  shows "run pol dur t0 t1 w c =
    (let (st, c3) = handle_failure pol t1 (wf_steps w) (map st_name pre) (the (sr_error r))
        (started t0 w\<lparr>current_step := Some (st_name s),
           results := rs @ [r\<lparr>duration_seconds := dur (length rs), sr_status := ST_FAILED\<rparr>]\<rparr>) c2
     in (st, w\<lparr>wf_status := WF_FAILED\<rparr>, c3))"
proof -
  have "sr_error r \<noteq> None"
    using attempt_step_result [of pol s 0 None c1 r c2] assms(3,4) by (simp add: execute_step_with_retry_def)
  then obtain e where e: "sr_error r = Some e" by auto
  show ?thesis
    using run_steps_forward [of pol dur "started t0 w" pre c rs c1 t1 "wf_steps w" "s # post" "[]"] assms e
    by (simp add: run_def started_def Let_def add_result_def split_beta)
qed

text \<open>Without compensation the state that is returned stays RUNNING, although the workflow has failed.\<close>

lemma uncompensated_failure_stays_running:
  assumes "wf_steps w = pre @ s # post" and "forward pol dur 0 pre c = Some (rs, c1)"
    and "execute_step_with_retry pol s c1 = (Inr r, c2)" and "\<not> success r" and "\<not> compensate_on_failure pol"
  shows "\<exists>st. run pol dur t0 t1 w c = (st, w\<lparr>wf_status := WF_FAILED\<rparr>, c2) \<and> ws_status st = WF_RUNNING \<and> ws_error st = Some (the (sr_error r))"
  using run_fails [OF assms(1-4), of t0 t1] assms(5) by (simp add: handle_failure_def started_def)

subsection \<open>The async runner\<close>

fun async_run ::
  "workflow_policy \<Rightarrow> (nat \<Rightarrow> pyfloat) \<Rightarrow> nat \<Rightarrow> ('c, 'o) step list \<Rightarrow> 'c \<Rightarrow> 'o step_result list \<times> 'c" where
  "async_run pol dur k [] c = ([], c)"
| "async_run pol dur k (s # ss) c =
     (let (r, c1) = execute_step pol (dur k) s c; (rs, c2) = async_run pol dur (Suc k) ss c1 in (r # rs, c2))"

lemma execute_step_name: "sr_step (fst (execute_step pol d s c)) = st_name s"
  by (simp add: execute_step_def ok_result_def failed_result_def split_beta split: step_outcome.split)

lemma execute_step_context: "snd (execute_step pol d s c) = snd (execute s c)"
  by (simp add: execute_step_def split_beta split: step_outcome.split)

lemma async_run_names: "map sr_step (fst (async_run pol dur k ss c)) = map st_name ss"
  by (induction ss arbitrary: k c) (auto simp: Let_def split_beta execute_step_name)

lemma async_run_context: "snd (async_run pol dur k ss c) = fold (\<lambda>s c. snd (execute s c)) ss c"
  by (induction ss arbitrary: k c) (auto simp: Let_def split_beta execute_step_context)

lemma async_steps_run:
  assumes "distinct (map st_name ss)" and "\<forall>s \<in> set ss. st_name s \<notin> fst ` set res"
  shows "async_steps pol dur ss res st c =
    (let (rs, c') = async_run pol dur (length (results st)) ss c
     in (res @ map (\<lambda>r. (sr_step r, r)) rs, st\<lparr>results := results st @ rs\<rparr>, c'))"
  using assms
proof (induction ss arbitrary: res st c)
  case (Cons s ss)
  obtain r c1 where e: "execute_step pol (dur (length (results st))) s c = (r, c1)"
    by (cases "execute_step pol (dur (length (results st))) s c")
  have n: "sr_step r = st_name s" using execute_step_name [of pol "dur (length (results st))" s c] e by simp
  have "map_of res (st_name s) = None" using Cons.prems(2) by (simp add: map_of_eq_None_iff)
  then have d: "dict_set (st_name s) r res = res @ [(st_name s, r)]" by (rule dict_set_fresh)
  have "\<forall>x \<in> set ss. st_name x \<notin> fst ` set (res @ [(st_name s, r)])"
    using Cons.prems by (auto simp: image_iff)
  with Cons.IH [of "res @ [(st_name s, r)]" "add_result r st" c1] Cons.prems(1)
  show ?case by (simp add: e d n add_result_def Let_def split_beta)
qed simp

definition undo_failed :: "('c, 'o) step list \<Rightarrow> 'o step_result list \<Rightarrow> 'c \<Rightarrow> 'c" where
  \<comment> \<open>the steps whose result is a failure, compensated in order\<close>
  "undo_failed ss rs c = fold (\<lambda>s c. snd (compensate s c)) (map fst (filter (\<lambda>(s, r). \<not> success r) (zip ss rs))) c"

lemma compensate_all_failed:
  assumes "distinct (map st_name steps)"
  shows "set ss \<subseteq> set steps \<Longrightarrow> map sr_step rs = map st_name ss \<Longrightarrow>
    compensate_all steps (map (\<lambda>r. (sr_step r, r)) rs) c = undo_failed ss rs c"
proof (induction ss arbitrary: rs c)
  case (Cons s ss)
  then obtain r rs' where rs: "rs = r # rs'" "sr_step r = st_name s" "map sr_step rs' = map st_name ss"
    by (cases rs) auto
  then show ?case
    using Cons get_step_in [OF assms, of s] by (simp add: undo_failed_def)
qed (simp add: undo_failed_def)

subsection \<open>Properties\<close>

text \<open>C9: a failing workflow is a saga. When the step names differ, the steps before \<open>s\<close> succeed and \<open>s\<close> does not,
  no later step runs and the workflow ends as failed. If \<open>s\<close> fails with its retries and the policy compensates,
  exactly the completed steps are compensated, last first, one failing compensation not stopping the others, and the
  state, failed, lists all of it with the error of \<open>s\<close>. If the policy does not compensate, nothing is undone and the
  state lists the results up to \<open>s\<close> with its error, but still says RUNNING. If the callback of the timeout raises,
  nothing is undone either and the state, failed, has the callback's error.\<close>

theorem run_saga:
  assumes "distinct (map st_name (wf_steps w))" and "wf_steps w = pre @ s # post"
    and "forward pol dur 0 pre c = Some (rs, c1)" and "execute_step_with_retry pol s c1 = (res, c2)"
    and "\<forall>r. res = Inr r \<longrightarrow> \<not> success r"
  shows "run pol dur t0 t1 w c =
    (let st = started t0 w\<lparr>current_step := Some (st_name s), ws_completed_at := Some t1\<rparr> in
     case res of
       Inl e \<Rightarrow> (st\<lparr>results := rs, ws_status := WF_FAILED, ws_error := Some (Message e)\<rparr>, w\<lparr>wf_status := WF_FAILED\<rparr>, c2)
     | Inr r \<Rightarrow>
         (let failed = r\<lparr>duration_seconds := dur (length rs), sr_status := ST_FAILED\<rparr> in
          if compensate_on_failure pol
          then (st\<lparr>results := rs @ failed # fst (undo (rev pre) c2), ws_status := WF_FAILED, ws_error := sr_error r\<rparr>,
                w\<lparr>wf_status := WF_FAILED\<rparr>, snd (undo (rev pre) c2))
          else (st\<lparr>results := rs @ [failed], ws_status := WF_RUNNING, ws_error := sr_error r\<rparr>, w\<lparr>wf_status := WF_FAILED\<rparr>, c2)))
    \<and> map sr_step rs = map st_name pre \<and> map sr_step (fst (undo (rev pre) c2)) = rev (map st_name pre)"
proof (cases res)
  case (Inl e)
  then show ?thesis
    using run_steps_forward [of pol dur "started t0 w" pre c rs c1 t1 "wf_steps w" "s # post" "[]"] assms(2-4)
      forward_names [OF assms(3)] undo_names [of "rev pre" c2]
    by (simp add: run_def started_def Let_def rev_map)
next
  case (Inr r)
  then have f: "execute_step_with_retry pol s c1 = (Inr r, c2)" "\<not> success r" using assms(4,5) by simp_all
  have "sr_error r \<noteq> None"
    using attempt_step_result [of pol s 0 None c1 r c2] f by (simp add: execute_step_with_retry_def)
  moreover have "set (rev pre) \<subseteq> set (wf_steps w)" using assms(2) by auto
  note compensate_loop_undo [OF assms(1) this]
  ultimately show ?thesis
    using run_fails [OF assms(2,3) f, of t0 t1] forward_names [OF assms(3)] undo_names [of "rev pre" c2] Inr
    by (auto simp: handle_failure_def started_def rev_map)
qed

text \<open>A step is executed at least once and at most \<open>max_retries + 1\<close> times; when every attempt
  raises an exception the policy retries, it is executed exactly that often and the step fails.\<close>

theorem step_attempts_bounded:
  fixes s :: "(nat \<times> 'd, 'o) step"
  assumes "\<And>n d. fst (snd (execute s (n, d))) = Suc n" and "0 \<le> max_retries (retry pol)"
    and "execute_step_with_retry pol s (0, d) = (res, n, d')"
  shows "1 \<le> n \<and> int n \<le> max_retries (retry pol) + 1
    \<and> ((\<forall>c. \<exists>x. fst (execute s c) = Raised_Exc x \<and> retry_on (retry pol) x) \<longrightarrow>
         int n = max_retries (retry pol) + 1 \<and> (\<exists>r. res = Inr r \<and> \<not> success r))"
proof (intro conjI impI)
  show "1 \<le> n" "int n \<le> max_retries (retry pol) + 1"
    using attempts_counted [OF assms(1), of 0 pol "(0, d)" None] assms(2,3)
    by (auto simp: execute_step_with_retry_def)
  assume "\<forall>c. \<exists>x. fst (execute s c) = Raised_Exc x \<and> retry_on (retry pol) x"
  from attempts_exhausted [OF assms(1) this [rule_format], of 0 None "(0, d)" res "(n, d')"] assms(2,3)
  show "int n = max_retries (retry pol) + 1" "\<exists>r. res = Inr r \<and> \<not> success r"
    by (auto simp: execute_step_with_retry_def)
qed

text \<open>The async runner executes every step, in order, also after one has failed, and then
  compensates exactly the steps that failed: what succeeded stays done.\<close>

theorem async_compensates_failed_only:
  assumes "distinct (map st_name (wf_steps w))" and "async_run pol dur 0 (wf_steps w) c = (rs, c1)"
    and "\<exists>r \<in> set rs. \<not> success r" and "compensate_on_failure pol"
  shows "run_async pol dur t0 t1 w c =
    (started t0 w\<lparr>results := rs, ws_status := WF_FAILED, ws_error := Some (Message ''One or more parallel steps failed''),
        ws_completed_at := Some t1\<rparr>, w\<lparr>wf_status := WF_FAILED\<rparr>, undo_failed (wf_steps w) rs c1)
    \<and> c1 = fold (\<lambda>s c. snd (execute s c)) (wf_steps w) c \<and> length rs = length (wf_steps w)"
proof -
  have n: "map sr_step rs = map st_name (wf_steps w)" using async_run_names [of pol dur 0 "wf_steps w" c] assms(2) by simp
  then have "length rs = length (wf_steps w)" by (metis length_map)
  moreover have "c1 = fold (\<lambda>s c. snd (execute s c)) (wf_steps w) c"
    using async_run_context [of pol dur 0 "wf_steps w" c] assms(2) by simp
  moreover have "\<not> list_all (\<lambda>(n, r). success r) (map (\<lambda>r. (sr_step r, r)) rs)"
    using assms(3) by (auto simp: list_all_iff)
  moreover have "async_steps pol dur (wf_steps w) [] (started t0 w) c =
      (map (\<lambda>r. (sr_step r, r)) rs, started t0 w\<lparr>results := rs\<rparr>, c1)"
    using async_steps_run [OF assms(1), of "[]" pol dur "started t0 w" c] assms(2) by (simp add: started_def)
  ultimately show ?thesis
    using compensate_all_failed [OF assms(1) subset_refl n] assms(4) by (simp add: run_async_def)
qed

subsection \<open>A workflow at work\<close>

text \<open>The context of the example is the number of executions and a log.\<close>

definition log_step :: "string \<Rightarrow> bool \<Rightarrow> (nat \<times> string list, nat) step" where
  "log_step n ok =
     \<lparr>st_name = n,
      execute = (\<lambda>(k, l). (if ok then Returned k else Raised_Exc \<lparr>exc_type = Other_Error, exc_str = ''boom''\<rparr>, (Suc k, l @ [n]))),
      compensate = (\<lambda>(k, l). (None, (k, l @ [''undo '' @ n])))\<rparr>"

definition demo_workflow :: "(nat \<times> string list, nat) workflow" where
  "demo_workflow =
     \<lparr>wf_id = ''w'', wf_steps = [log_step ''a'' True, log_step ''b'' True, log_step ''c'' False, log_step ''d'' True],
      wf_status = WF_PENDING\<rparr>"

definition demo_policy :: workflow_policy where
  "demo_policy = default_workflow_policy\<lparr>retry := default_retry_policy\<lparr>max_retries := 1\<rparr>\<rparr>"

lemma log_step_ok: "execute_step_with_retry demo_policy (log_step n True) (k, l) = (Inr (ok_result n k), Suc k, l @ [n])"
  by (simp add: execute_step_with_retry_def log_step_def demo_policy_def default_retry_policy_def
      default_workflow_policy_def attempt_step.simps)

lemma log_step_fails: "execute_step_with_retry demo_policy (log_step n False) (k, l) =
    (Inr (failed_result n (Message ''boom'')), Suc (Suc k), l @ [n, n])"
  by (simp add: execute_step_with_retry_def log_step_def demo_policy_def default_retry_policy_def
      default_workflow_policy_def attempt_step.simps should_retry_def error_text_def)

theorem run_saga_witness:
  "snd (snd (run demo_policy (\<lambda>_. 0) 0 1 demo_workflow (0, []))) =
     (4, [''a'', ''b'', ''c'', ''c'', ''undo b'', ''undo a''])"
proof -
  let ?pre = "[log_step ''a'' True, log_step ''b'' True]"
  have f: "forward demo_policy (\<lambda>_. 0) 0 ?pre (0, []) = Some ([ok_result ''a'' 0, ok_result ''b'' 1], (2, [''a'', ''b'']))"
    by (simp add: log_step_ok) (simp add: ok_result_def)
  have u: "snd (undo (rev ?pre) (4, [''a'', ''b'', ''c'', ''c''])) = (4, [''a'', ''b'', ''c'', ''c'', ''undo b'', ''undo a''])"
    by (simp add: log_step_def)
  show ?thesis
    using run_saga [of demo_workflow ?pre "log_step ''c'' False" "[log_step ''d'' True]", OF _ _ f log_step_fails, of 0 1] u
    by (simp add: demo_workflow_def log_step_def failed_result_def demo_policy_def default_workflow_policy_def)
qed

theorem step_attempts_bounded_witness:
  "fst (snd (execute_step_with_retry demo_policy (log_step ''c'' False) (0, []))) = 2"
proof -
  have count: "fst (snd (execute (log_step ''c'' False) (n, d))) = Suc n" for n d by (simp add: log_step_def)
  have raises: "\<forall>c. \<exists>x. fst (execute (log_step ''c'' False) c) = Raised_Exc x \<and> retry_on (retry demo_policy) x"
    by (auto simp: log_step_def demo_policy_def default_workflow_policy_def default_retry_policy_def)
  have max: "max_retries (retry demo_policy) = 1" by (simp add: demo_policy_def)
  obtain res n d' where e: "execute_step_with_retry demo_policy (log_step ''c'' False) (0, []) = (res, n, d')"
    by (cases "execute_step_with_retry demo_policy (log_step ''c'' False) (0, [])")
  from step_attempts_bounded [OF count _ e, THEN conjunct2, THEN conjunct2, rule_format, OF _ raises [rule_format]] max
  show ?thesis by (simp add: e)
qed

theorem async_compensates_failed_only_witness:
  "snd (snd (run_async demo_policy (\<lambda>_. 0) 0 1 demo_workflow (0, []))) = (4, [''a'', ''b'', ''c'', ''d'', ''undo c''])"
proof -
  have r: "async_run demo_policy (\<lambda>_. 0) 0 (wf_steps demo_workflow) (0, []) =
      ([ok_result ''a'' 0, ok_result ''b'' 1, failed_result ''c'' (Message ''boom''), ok_result ''d'' 3],
       (4, [''a'', ''b'', ''c'', ''d'']))"
    by (simp add: demo_workflow_def execute_step_def log_step_def) (simp add: ok_result_def)
  have u: "undo_failed (wf_steps demo_workflow)
        [ok_result ''a'' 0, ok_result ''b'' 1, failed_result ''c'' (Message ''boom''), ok_result ''d'' 3]
        (4, [''a'', ''b'', ''c'', ''d'']) = (4, [''a'', ''b'', ''c'', ''d'', ''undo c''])"
    by (simp add: undo_failed_def demo_workflow_def log_step_def ok_result_def failed_result_def)
  show ?thesis
    using async_compensates_failed_only [OF _ r, of 0 1] u
    by (simp add: demo_workflow_def log_step_def failed_result_def demo_policy_def default_workflow_policy_def)
qed

end
