(* ===== verification/Rate_Limit.thy ===== *)
theory Rate_Limit
  imports Prelude
begin

text \<open>
  Rate limiting (\<open>core/rate_limit\<close>): the token bucket, the sliding windows (\<open>SlidingWindow\<close>,
  \<open>RateBudget\<close>, the per-key \<open>RateLimiter\<close>), the fixed window and the adaptive limiter.

  A reading of \<open>time.monotonic\<close> is an argument. The locks make each operation atomic; a coroutine
  that waits is a sequence of atomic checks, one per clock reading. The locale
  \<open>sliding_admission\<close> is the contract the three sliding windows share; what it gives (no window
  holds more than the limit, a refusal means the window is full) is proved once.
\<close>

subsection \<open>The contract of a sliding window\<close>

fun requests :: "(pytime \<Rightarrow> 's \<Rightarrow> bool \<times> 's) \<Rightarrow> pytime list \<Rightarrow> 's \<Rightarrow> pytime list \<times> 's" where
  \<comment> \<open>a request at each of the times: the times admitted, and the state after\<close>
  "requests f [] s = ([], s)"
| "requests f (t # ts) s =
     (let (ok, s1) = f t s; (h, s2) = requests f ts s1 in (if ok then t # h else h, s2))"

definition in_window :: "pytime \<Rightarrow> pyfloat \<Rightarrow> pytime list \<Rightarrow> pytime list" where
  \<comment> \<open>the times in the window of length \<open>w\<close> that ends at \<open>t\<close>\<close>
  "in_window t w h = filter (\<lambda>x. t - w < x \<and> x \<le> t) h"

locale sliding_admission =
  fixes admit :: "pytime \<Rightarrow> 's \<Rightarrow> bool \<times> 's"
    and log_of :: "'s \<Rightarrow> pytime list"
    and cap :: "'s \<Rightarrow> int"
    and win :: "'s \<Rightarrow> pyfloat"
  assumes admits: "admit now s = (True, s') \<Longrightarrow>
      log_of s' = filter (\<lambda>t. t > now - win s) (log_of s) @ [now] \<and> int (length (log_of s')) \<le> cap s
      \<and> cap s' = cap s \<and> win s' = win s"
    and refuses: "admit now s = (False, s') \<Longrightarrow>
      (log_of s' = log_of s \<or> log_of s' = filter (\<lambda>t. t > now - win s) (log_of s))
      \<and> cap s \<le> int (length (filter (\<lambda>t. t > now - win s) (log_of s))) \<and> cap s' = cap s \<and> win s' = win s"
begin

text \<open>\<open>h\<close>: everything admitted so far, \<open>now\<close>: the time of the last request.\<close>

definition tracks :: "pytime list \<Rightarrow> pytime \<Rightarrow> 's \<Rightarrow> bool" where
  "tracks h now s \<longleftrightarrow>
     (\<forall>x \<in> set h. x \<le> now)
     \<and> filter (\<lambda>x. now - win s < x) h = filter (\<lambda>x. now - win s < x) (log_of s)
     \<and> (\<forall>t. int (length (in_window t (win s) h)) \<le> cap s)"

lemma later_log:
  fixes now now' w :: rat
  assumes "filter (\<lambda>x. now - w < x) h = filter (\<lambda>x. now - w < x) l" and "now \<le> now'"
  shows "filter (\<lambda>x. now' - w < x) h = filter (\<lambda>x. now' - w < x) l"
proof -
  have twice: "filter (\<lambda>x. now' - w < x) xs = filter (\<lambda>x. now' - w < x) (filter (\<lambda>x. now - w < x) xs)" for xs
    unfolding filter_filter by (rule filter_cong [OF refl]) (use assms(2) in auto)
  show ?thesis by (subst twice, subst (2) twice) (simp only: assms(1))
qed

lemma tracks_admit:
  assumes t: "tracks h now s" and le: "now \<le> now'" and a: "admit now' s = (True, s')"
  shows "tracks (h @ [now']) now' s'"
proof -
  note ad = admits [OF a]
  have h: "\<forall>x \<in> set h. x \<le> now'" using t le by (auto simp: tracks_def)
  have f: "filter (\<lambda>x. now' - win s < x) h = filter (\<lambda>x. now' - win s < x) (log_of s)"
    using t unfolding tracks_def by (elim conjE) (rule later_log [OF _ le])
  have "int (length (in_window u (win s) (h @ [now']))) \<le> cap s" for u
  proof (cases "now' \<le> u")
    case False
    then show ?thesis using t by (auto simp: tracks_def in_window_def)
  next
    case True
    then have "length (in_window u (win s) h) \<le> length (filter (\<lambda>x. now' - win s < x) h)"
      unfolding in_window_def by (induction h) auto
    moreover have "length (in_window u (win s) (h @ [now'])) \<le> length (in_window u (win s) h) + 1" by (simp add: in_window_def)
    ultimately show ?thesis using ad by (auto simp: f)
  qed
  then show ?thesis using h f ad by (auto simp: tracks_def filter_empty_conv)
qed

lemma tracks_refuse:
  assumes t: "tracks h now s" and le: "now \<le> now'" and a: "admit now' s = (False, s')"
  shows "tracks h now' s'" and "cap s \<le> int (length (in_window now' (win s) h))"
proof -
  note rf = refuses [OF a]
  have h: "\<forall>x \<in> set h. x \<le> now'" using t le by (auto simp: tracks_def)
  have f: "filter (\<lambda>x. now' - win s < x) h = filter (\<lambda>x. now' - win s < x) (log_of s)"
    using t unfolding tracks_def by (elim conjE) (rule later_log [OF _ le])
  show "tracks h now' s'" using rf t h f by (auto simp: tracks_def)
  have "in_window now' (win s) h = filter (\<lambda>x. now' - win s < x) h"
    unfolding in_window_def by (rule filter_cong) (use h in auto)
  then show "cap s \<le> int (length (in_window now' (win s) h))" using rf f by simp
qed

lemma tracks_requests:
  "tracks h now s \<Longrightarrow> sorted (now # ts) \<Longrightarrow>
     tracks (h @ fst (requests admit ts s)) (last (now # ts)) (snd (requests admit ts s))
     \<and> cap (snd (requests admit ts s)) = cap s \<and> win (snd (requests admit ts s)) = win s"
proof (induction ts arbitrary: h now s)
  case (Cons t ts)
  obtain ok s1 where a: "admit t s = (ok, s1)" by (cases "admit t s")
  have le: "now \<le> t" using Cons.prems by simp
  have c1: "cap s1 = cap s \<and> win s1 = win s" using admits [of t s s1] refuses [of t s s1] a by (cases ok) auto
  have "tracks (if ok then h @ [t] else h) t s1"
    using tracks_admit [OF Cons.prems(1) le] tracks_refuse(1) [OF Cons.prems(1) le] a by (cases ok) auto
  from Cons.IH [OF this] Cons.prems(2) c1 show ?case
    by (cases ok) (auto simp: a split_beta Let_def)
qed simp

lemma tracks_fresh: "log_of s = [] \<Longrightarrow> 0 \<le> cap s \<Longrightarrow> tracks [] t s"
  by (simp add: tracks_def in_window_def)

lemma window_bound:
  assumes "log_of s = []" and "0 \<le> cap s" and "sorted ts"
  shows "int (length (in_window t (win s) (fst (requests admit ts s)))) \<le> cap s"
proof (cases ts)
  case Nil
  then show ?thesis using assms(2) by (simp add: in_window_def)
next
  case (Cons t0 rest)
  with tracks_requests [OF tracks_fresh [OF assms(1,2)], of t0 ts] assms(3) show ?thesis
    by (auto simp: tracks_def)
qed

lemma refusal_means_full:
  assumes "log_of s = []" and "0 \<le> cap s" and "sorted (ts @ [t])"
    and "\<not> fst (admit t (snd (requests admit ts s)))"
  shows "int (length (in_window t (win s) (fst (requests admit ts s)))) = cap s"
proof -
  have so: "sorted (hd (ts @ [t]) # ts)" and le: "last (hd (ts @ [t]) # ts) \<le> t"
    using assms(3) by (cases ts; auto simp: sorted_append)+
  note tr = tracks_requests [OF tracks_fresh [OF assms(1,2)] so, simplified append_Nil]
  obtain s' where "admit t (snd (requests admit ts s)) = (False, s')" using assms(4) by (metis prod.collapse)
  from tracks_refuse(2) [OF tr [THEN conjunct1] le this] tr
  have "cap s \<le> int (length (in_window t (win s) (fst (requests admit ts s))))" by simp
  moreover have "sorted ts" using assms(3) by (simp add: sorted_append)
  ultimately show ?thesis using window_bound [OF assms(1,2), of ts t] by simp
qed

end

subsection \<open>Sliding windows\<close>

record sliding_window =
  sw_limit :: int
  sw_window :: pyfloat
  sw_entries :: "pytime list"

definition sw_init :: "int \<Rightarrow> pyfloat \<Rightarrow> sliding_window" where
  "sw_init n w = \<lparr>sw_limit = n, sw_window = w, sw_entries = []\<rparr>"

definition sw_allow :: "pytime \<Rightarrow> sliding_window \<Rightarrow> bool \<times> sliding_window" where
  "sw_allow now sw =
     (let es = filter (\<lambda>e. e > now - sw_window sw) (sw_entries sw) in
      if int (length es) \<ge> sw_limit sw then (False, sw\<lparr>sw_entries := es\<rparr>)
      else (True, sw\<lparr>sw_entries := es @ [now]\<rparr>))"

definition sw_count :: "pytime \<Rightarrow> sliding_window \<Rightarrow> int" where
  "sw_count now sw = int (length (filter (\<lambda>e. e > now - sw_window sw) (sw_entries sw)))"

definition sw_remaining :: "pytime \<Rightarrow> sliding_window \<Rightarrow> int" where
  "sw_remaining now sw = max 0 (sw_limit sw - sw_count now sw)"

definition sw_reset :: "sliding_window \<Rightarrow> sliding_window" where
  "sw_reset sw = sw\<lparr>sw_entries := []\<rparr>"

interpretation sw: sliding_admission sw_allow sw_entries sw_limit sw_window
  by unfold_locales (auto simp: sw_allow_def Let_def split: if_splits)

subsection \<open>Budgets\<close>

record rate_budget =
  rb_limit :: int
  rb_window :: pyfloat
  rb_tokens :: "pytime list"

definition rb_consume :: "pytime \<Rightarrow> rate_budget \<Rightarrow> bool \<times> rate_budget" where
  "rb_consume now rb =
     (let ts = filter (\<lambda>t. t > now - rb_window rb) (rb_tokens rb) in
      if int (length ts) \<ge> rb_limit rb then (False, rb\<lparr>rb_tokens := ts\<rparr>)
      else (True, rb\<lparr>rb_tokens := ts @ [now]\<rparr>))"

definition rb_prune :: "pytime \<Rightarrow> rate_budget \<Rightarrow> rate_budget" where
  "rb_prune now rb = rb\<lparr>rb_tokens := filter (\<lambda>t. t > now - rb_window rb) (rb_tokens rb)\<rparr>"

definition rb_remaining :: "pytime \<Rightarrow> rate_budget \<Rightarrow> int \<times> rate_budget" where
  "rb_remaining now rb = (let rb' = rb_prune now rb in (max 0 (rb_limit rb - int (length (rb_tokens rb'))), rb'))"

definition rb_used :: "pytime \<Rightarrow> rate_budget \<Rightarrow> int \<times> rate_budget" where
  "rb_used now rb = (let rb' = rb_prune now rb in (int (length (rb_tokens rb')), rb'))"

definition rb_reset :: "rate_budget \<Rightarrow> rate_budget" where
  "rb_reset rb = rb\<lparr>rb_tokens := []\<rparr>"

interpretation rb: sliding_admission rb_consume rb_tokens rb_limit rb_window
  by unfold_locales (auto simp: rb_consume_def Let_def split: if_splits)

type_synonym budget_manager = "(string, rate_budget) pydict"

definition create_budget :: "string \<Rightarrow> int \<Rightarrow> pyfloat \<Rightarrow> budget_manager \<Rightarrow> budget_manager" where
  "create_budget n l w bm = dict_set n \<lparr>rb_limit = l, rb_window = w, rb_tokens = []\<rparr> bm"

definition try_consume :: "pytime \<Rightarrow> string \<Rightarrow> budget_manager \<Rightarrow> bool \<times> budget_manager" where
  "try_consume now n bm =
     (case dict_get bm n of
        None \<Rightarrow> (True, bm)
      | Some rb \<Rightarrow> (let (ok, rb') = rb_consume now rb in (ok, dict_set n rb' bm)))"

definition reset_all :: "budget_manager \<Rightarrow> budget_manager" where
  "reset_all bm = map (\<lambda>(n, rb). (n, rb_reset rb)) bm"

subsection \<open>The per-key limiter\<close>

record limit_config =
  lc_rate :: pyfloat
  lc_burst :: int
  lc_window :: pyfloat
  lc_at :: pytime
  lc_tokens :: "pytime list"

type_synonym rate_limiter = "(string, limit_config) pydict"

definition set_limit :: "pytime \<Rightarrow> string \<Rightarrow> pyfloat \<Rightarrow> int \<Rightarrow> pyfloat \<Rightarrow> rate_limiter \<Rightarrow> py_error + rate_limiter" where
  "set_limit now key rate burst w rl =
     (if burst < 1 \<or> w \<le> 0 \<or> rate < 0 then Inl ValueError
      else Inr (dict_set key \<lparr>lc_rate = rate, lc_burst = burst, lc_window = w, lc_at = now, lc_tokens = []\<rparr> rl))"

definition has_limit :: "string \<Rightarrow> rate_limiter \<Rightarrow> bool" where
  "has_limit key rl \<longleftrightarrow> dict_get rl key \<noteq> None"

definition active :: "pytime \<Rightarrow> limit_config \<Rightarrow> pytime list" where
  "active now c = filter (\<lambda>t. t > now - lc_window c) (lc_tokens c)"

definition cfg_allow :: "pytime \<Rightarrow> limit_config \<Rightarrow> bool \<times> limit_config" where
  "cfg_allow now c =
     (if int (length (active now c)) \<ge> lc_burst c then (False, c)
      else (True, c\<lparr>lc_at := now, lc_tokens := active now c @ [now]\<rparr>))"

definition rl_allow :: "pytime \<Rightarrow> string \<Rightarrow> rate_limiter \<Rightarrow> bool \<times> rate_limiter" where
  "rl_allow now key rl =
     (case dict_get rl key of
        None \<Rightarrow> (True, rl)
      | Some c \<Rightarrow> (case cfg_allow now c of (False, _) \<Rightarrow> (False, rl) | (True, c') \<Rightarrow> (True, dict_set key c' rl)))"

definition rl_remaining :: "pytime \<Rightarrow> string \<Rightarrow> rate_limiter \<Rightarrow> int" where
  "rl_remaining now key rl =
     (case dict_get rl key of None \<Rightarrow> 999 | Some c \<Rightarrow> max 0 (lc_burst c - int (length (active now c))))"

definition rl_allow_async ::
  "pytime \<Rightarrow> (int \<times> int) option \<Rightarrow> string \<Rightarrow> int \<Rightarrow> pyfloat \<Rightarrow> rate_limiter \<Rightarrow> py_error + (bool \<times> int) \<times> rate_limiter" where
  \<comment> \<open>the second argument: what the script answered on Redis, if a Redis is there and answered\<close>
  "rl_allow_async now redis key max_calls w rl =
     (case redis of
        Some (a, n) \<Rightarrow> Inr ((a \<noteq> 0, max 0 (max_calls - n)), rl)
      | None \<Rightarrow>
          (case (if has_limit key rl then Inr rl
                 else set_limit now key (of_int max_calls / max w (1 / 1000)) max_calls w rl) of
             Inl e \<Rightarrow> Inl e
           | Inr rl1 \<Rightarrow> (let (ok, rl2) = rl_allow now key rl1 in Inr ((ok, rl_remaining now key rl2), rl2))))"

fun rl_acquire :: "pytime list \<Rightarrow> string \<Rightarrow> pyfloat \<Rightarrow> rate_limiter \<Rightarrow> (pyfloat \<times> rate_limiter) option" where
  \<comment> \<open>one check per clock reading; \<open>None\<close>: still waiting when the readings end\<close>
  "rl_acquire [] key waited rl = None"
| "rl_acquire (now # later) key waited rl =
     (case dict_get rl key of
        None \<Rightarrow> Some (waited, rl)
      | Some c \<Rightarrow>
          (if int (length (active now c)) < lc_burst c
           then Some (waited, dict_set key (c\<lparr>lc_at := now, lc_tokens := active now c @ [now]\<rparr>) rl)
           else rl_acquire later key
                  (waited + max (1 / 1000) (hd (active now c) + lc_window c - now)) rl))"

definition rl_wrap :: "pytime \<Rightarrow> string \<Rightarrow> pyfloat \<Rightarrow> int option \<Rightarrow> rate_limiter \<Rightarrow> py_error + rate_limiter" where
  \<comment> \<open>registering the decorator; the decorated function acquires the key before each call\<close>
  "rl_wrap now key rate burst rl =
     (let b = (case burst of None \<Rightarrow> max 1 (py_int rate) | Some n \<Rightarrow> if n = 0 then max 1 (py_int rate) else n)
      in set_limit now key (rate / 60) b 60 rl)"

interpretation rl: sliding_admission cfg_allow lc_tokens lc_burst lc_window
  by unfold_locales (auto simp: cfg_allow_def active_def split: if_splits)

subsection \<open>The fixed window\<close>

record fixed_window =
  fw_limit :: int
  fw_window :: pyfloat
  fw_count :: int
  fw_start :: pytime

definition fw_init :: "pytime \<Rightarrow> int \<Rightarrow> pyfloat \<Rightarrow> fixed_window" where
  "fw_init now n w = \<lparr>fw_limit = n, fw_window = w, fw_count = 0, fw_start = now\<rparr>"

definition fw_allow :: "pytime \<Rightarrow> fixed_window \<Rightarrow> bool \<times> fixed_window" where
  "fw_allow now fw =
     (let fw1 = (if now - fw_start fw \<ge> fw_window fw then fw\<lparr>fw_count := 0, fw_start := now\<rparr> else fw) in
      if fw_count fw1 \<ge> fw_limit fw1 then (False, fw1) else (True, fw1\<lparr>fw_count := fw_count fw1 + 1\<rparr>))"

definition fw_remaining :: "pytime \<Rightarrow> fixed_window \<Rightarrow> int" where
  "fw_remaining now fw =
     (if now - fw_start fw \<ge> fw_window fw then fw_limit fw else max 0 (fw_limit fw - fw_count fw))"

definition fw_reset :: "pytime \<Rightarrow> fixed_window \<Rightarrow> fixed_window" where
  "fw_reset now fw = fw\<lparr>fw_count := 0, fw_start := now\<rparr>"

lemma fw_allow_remaining:
  "0 < fw_limit fw \<Longrightarrow> fst (fw_allow now fw) \<longleftrightarrow> 0 < fw_remaining now fw"
  by (auto simp: fw_allow_def fw_remaining_def Let_def)

subsection \<open>The token bucket\<close>

record token_bucket =
  tb_rate :: pyfloat
  tb_burst :: int
  tb_tokens :: pyfloat
  last_refill :: pytime
  clock_offset :: pyfloat

definition tb_init :: "pytime \<Rightarrow> pyfloat \<Rightarrow> int option \<Rightarrow> py_error + token_bucket" where
  "tb_init now rate burst =
     (if rate \<le> 0 then Inl ValueError
      else if (case burst of None \<Rightarrow> False | Some b \<Rightarrow> b < 1) then Inl ValueError
      else let b = (case burst of None \<Rightarrow> py_int rate | Some b \<Rightarrow> b)
           in Inr \<lparr>tb_rate = rate, tb_burst = b, tb_tokens = of_int b, last_refill = now, clock_offset = 0\<rparr>)"

definition tb_refill :: "pytime \<Rightarrow> token_bucket \<Rightarrow> token_bucket" where
  \<comment> \<open>\<open>m\<close> is the reading of \<open>time.monotonic\<close>; the bucket's clock is \<open>m\<close> plus its offset\<close>
  "tb_refill m tb =
     (let now = m + clock_offset tb in
      tb\<lparr>tb_tokens := min (of_int (tb_burst tb)) (tb_tokens tb + (now - last_refill tb) * tb_rate tb), last_refill := now\<rparr>)"

definition advance_time :: "pytime \<Rightarrow> pyfloat \<Rightarrow> token_bucket \<Rightarrow> token_bucket" where
  "advance_time m seconds tb = (let tb1 = tb_refill m tb in tb1\<lparr>clock_offset := clock_offset tb1 + seconds\<rparr>)"

definition acquire_sync :: "pytime \<Rightarrow> token_bucket \<Rightarrow> pyfloat \<times> token_bucket" where
  "acquire_sync m tb =
     (let tb1 = tb_refill m tb in
      if tb_tokens tb1 \<ge> 1 then (0, tb1\<lparr>tb_tokens := tb_tokens tb1 - 1\<rparr>)
      else ((1 - tb_tokens tb1) / tb_rate tb1, tb1\<lparr>tb_tokens := 0\<rparr>))"

definition try_acquire_sync :: "pytime \<Rightarrow> token_bucket \<Rightarrow> bool \<times> token_bucket" where
  "try_acquire_sync m tb =
     (let tb1 = tb_refill m tb in
      if tb_tokens tb1 \<ge> 1 then (True, tb1\<lparr>tb_tokens := tb_tokens tb1 - 1\<rparr>) else (False, tb1))"

definition available_sync :: "pytime \<Rightarrow> token_bucket \<Rightarrow> pyfloat \<times> token_bucket" where
  "available_sync m tb = (let tb1 = tb_refill m tb in (tb_tokens tb1, tb1))"

text \<open>A bucket in use: \<open>n\<close> counts what it admitted at once. The clock does not run backwards.\<close>

inductive bucket_step :: "nat \<times> token_bucket \<Rightarrow> nat \<times> token_bucket \<Rightarrow> bool" where
  try_acquire: "last_refill tb \<le> m + clock_offset tb \<Longrightarrow> try_acquire_sync m tb = (ok, tb') \<Longrightarrow>
    bucket_step (n, tb) ((if ok then Suc n else n), tb')"
| acquire: "last_refill tb \<le> m + clock_offset tb \<Longrightarrow> acquire_sync m tb = (wait, tb') \<Longrightarrow>
    bucket_step (n, tb) ((if wait = 0 then Suc n else n), tb')"
| look: "last_refill tb \<le> m + clock_offset tb \<Longrightarrow> bucket_step (n, tb) (n, snd (available_sync m tb))"
| advance: "last_refill tb \<le> m + clock_offset tb \<Longrightarrow> 0 \<le> s \<Longrightarrow> bucket_step (n, tb) (n, advance_time m s tb)"

definition bucket_inv :: "pytime \<Rightarrow> pyfloat \<Rightarrow> int \<Rightarrow> nat \<times> token_bucket \<Rightarrow> bool" where
  "bucket_inv t0 rate burst x \<longleftrightarrow>
     (case x of (n, tb) \<Rightarrow>
        0 < rate \<and> tb_rate tb = rate \<and> tb_burst tb = burst \<and> 0 \<le> tb_tokens tb \<and> tb_tokens tb \<le> of_int burst
        \<and> t0 \<le> last_refill tb \<and> of_nat n + tb_tokens tb \<le> of_int burst + rate * (last_refill tb - t0))"

lemma refill_inv:
  assumes "bucket_inv t0 rate burst (n, tb)" and "last_refill tb \<le> m + clock_offset tb"
  shows "bucket_inv t0 rate burst (n, tb_refill m tb)"
proof -
  have "0 \<le> (m + clock_offset tb - last_refill tb) * tb_rate tb"
    using assms by (intro mult_nonneg_nonneg) (auto simp: bucket_inv_def)
  with assms show ?thesis
    by (auto simp: bucket_inv_def tb_refill_def Let_def min_def algebra_simps)
qed

lemma bucket_step_inv: "bucket_step x y \<Longrightarrow> bucket_inv t0 rate burst x \<Longrightarrow> bucket_inv t0 rate burst y"
proof (induction rule: bucket_step.induct)
  case (try_acquire tb m ok tb' n)
  from refill_inv [OF try_acquire.prems try_acquire.hyps(1)] try_acquire.hyps(2) show ?case
    by (auto simp: try_acquire_sync_def Let_def bucket_inv_def split: if_splits)
next
  case (acquire tb m wait tb' n)
  from refill_inv [OF acquire.prems acquire.hyps(1)] acquire.hyps(2) show ?case
    by (auto simp: acquire_sync_def Let_def bucket_inv_def split: if_splits)
next
  case (look tb m n)
  from refill_inv [OF look.prems look.hyps(1)] show ?case by (simp add: available_sync_def Let_def)
next
  case (advance tb m s n)
  from refill_inv [OF advance.prems advance.hyps(1)] show ?case by (simp add: advance_time_def Let_def bucket_inv_def)
qed

text \<open>A rate below one per second without an explicit burst makes a bucket of size zero.\<close>

lemma slow_bucket_empty:
  assumes "0 < rate" and "rate < 1"
  shows "\<exists>tb. tb_init t rate None = Inr tb \<and> tb_burst tb = 0 \<and> \<not> fst (try_acquire_sync m tb)"
proof -
  have "py_int rate = 0" using assms by (simp add: py_int_def floor_eq_iff)
  then show ?thesis using assms by (simp add: tb_init_def try_acquire_sync_def tb_refill_def Let_def min_def)
qed

text \<open>Two callers that must wait at the same instant are told the same delay: no slot is reserved.\<close>

lemma waiting_reserves_nothing:
  assumes "acquire_sync m tb = (w, tb1)" and "w \<noteq> 0" and "0 \<le> tb_burst tb"
  shows "acquire_sync m tb1 = (1 / tb_rate tb, tb1) \<and> acquire_sync m tb1 = acquire_sync m (snd (acquire_sync m tb1))"
proof -
  have "tb1 = (tb_refill m tb)\<lparr>tb_tokens := 0\<rparr>"
    using assms(1,2) by (auto simp: acquire_sync_def Let_def split: if_splits)
  then have "acquire_sync m tb1 = (1 / tb_rate tb, tb1)"
    using assms(3) by (simp add: acquire_sync_def tb_refill_def Let_def)
  then show ?thesis by simp
qed

subsection \<open>The adaptive limiter\<close>

record adaptive_limiter =
  current_rate :: pyfloat
  min_rate :: pyfloat
  max_rate :: pyfloat
  success_count :: int
  failure_count :: int
  last_adjustment :: pytime

definition adjustment_interval :: pyfloat where "adjustment_interval = 10"

definition adjust :: "adaptive_limiter \<Rightarrow> adaptive_limiter" where
  "adjust al =
     (let total = success_count al + failure_count al in
      if total = 0 then al
      else let success_rate = (of_int (success_count al) / of_int total :: pyfloat);
               rate = (if success_rate > 95 / 100 \<and> current_rate al < max_rate al
                       then min (current_rate al * (11 / 10)) (max_rate al)
                       else if success_rate < 8 / 10 \<and> current_rate al > min_rate al
                       then max (current_rate al * (8 / 10)) (min_rate al)
                       else current_rate al)
           in al\<lparr>current_rate := rate, success_count := 0, failure_count := 0\<rparr>)"

definition al_acquire :: "pytime \<Rightarrow> adaptive_limiter \<Rightarrow> pyfloat \<times> adaptive_limiter" where
  \<comment> \<open>the delay before the call may go on\<close>
  "al_acquire now al =
     (let al1 = (if now - last_adjustment al \<ge> adjustment_interval then adjust al else al)
      in ((if current_rate al1 > 0 then 1 / current_rate al1 else 1), al1\<lparr>last_adjustment := now\<rparr>))"

definition record_success :: "adaptive_limiter \<Rightarrow> adaptive_limiter" where
  "record_success al = al\<lparr>success_count := success_count al + 1\<rparr>"

definition record_failure :: "adaptive_limiter \<Rightarrow> adaptive_limiter" where
  "record_failure al = al\<lparr>failure_count := failure_count al + 1\<rparr>"

lemma adjust_bounds:
  "min_rate al \<le> current_rate al \<Longrightarrow> current_rate al \<le> max_rate al \<Longrightarrow> 0 \<le> min_rate al \<Longrightarrow>
     min_rate al \<le> current_rate (adjust al) \<and> current_rate (adjust al) \<le> max_rate al"
  by (auto simp: adjust_def Let_def)

text \<open>A limiter that is used at least every ten seconds never adapts: each call restarts the interval.\<close>

lemma busy_never_adapts:
  "sorted (last_adjustment al # ts) \<Longrightarrow>
   \<forall>i < length ts. ts ! i - (last_adjustment al # ts) ! i < adjustment_interval \<Longrightarrow>
   current_rate (fold (\<lambda>t al. record_failure (snd (al_acquire t al))) ts al) = current_rate al"
proof (induction ts arbitrary: al)
  case (Cons t ts)
  let ?al = "record_failure (snd (al_acquire t al))"
  have no: "current_rate ?al = current_rate al" "last_adjustment ?al = t"
    using Cons.prems(2) [rule_format, of 0] by (simp_all add: al_acquire_def record_failure_def Let_def)
  have "\<forall>i < length ts. ts ! i - (last_adjustment ?al # ts) ! i < adjustment_interval"
  proof (intro allI impI)
    fix i assume "i < length ts"
    with Cons.prems(2) [rule_format, of "Suc i"] show "ts ! i - (last_adjustment ?al # ts) ! i < adjustment_interval"
      by (simp add: no)
  qed
  with Cons.IH [of ?al] Cons.prems(1) show ?case by (simp add: no)
qed simp

subsection \<open>Properties\<close>

lemma rl_requests:
  assumes "dict_get rl key = Some c"
  shows "fst (requests (\<lambda>t. rl_allow t key) ts rl) = fst (requests cfg_allow ts c)
    \<and> dict_get (snd (requests (\<lambda>t. rl_allow t key) ts rl)) key = Some (snd (requests cfg_allow ts c))"
  using assms
proof (induction ts arbitrary: rl c)
  case (Cons t ts)
  obtain ok c1 where a: "cfg_allow t c = (ok, c1)" by (cases "cfg_allow t c")
  show ?case
  proof (cases ok)
    case True
    with a Cons.prems have "rl_allow t key rl = (True, dict_set key c1 rl)" by (simp add: rl_allow_def)
    with Cons.IH [of "dict_set key c1 rl" c1] True a show ?thesis by (simp add: Let_def split_beta)
  next
    case False
    with a have "c1 = c" by (auto simp: cfg_allow_def split: if_splits)
    moreover from a False Cons.prems have "rl_allow t key rl = (False, rl)" by (simp add: rl_allow_def)
    ultimately show ?thesis using Cons.IH [OF Cons.prems] False a by (simp add: Let_def split_beta)
  qed
qed simp

text \<open>C10: the limiter holds every window: after \<open>set_limit\<close>, of any sequence of requests at
  non-decreasing times at most \<open>burst\<close> are admitted in every window of the given length, wherever it
  lies, and a request is refused only when the window ending at it holds exactly \<open>burst\<close> admissions.\<close>

theorem limiter_window_exact:
  assumes "set_limit t0 key rate burst w rl0 = Inr rl" and "sorted (ts @ [t])"
  shows "int (length (in_window u w (fst (requests (\<lambda>t. rl_allow t key) ts rl)))) \<le> burst
    \<and> (\<not> fst (rl_allow t key (snd (requests (\<lambda>t. rl_allow t key) ts rl))) \<longrightarrow>
         int (length (in_window t w (fst (requests (\<lambda>t. rl_allow t key) ts rl)))) = burst)"
proof -
  let ?c = "\<lparr>lc_rate = rate, lc_burst = burst, lc_window = w, lc_at = t0, lc_tokens = []\<rparr>"
  have c: "dict_get rl key = Some ?c" and pos: "0 \<le> burst"
    using assms(1) by (auto simp: set_limit_def split: if_splits)
  note r = rl_requests [OF c, of ts]
  have so: "sorted ts" using assms(2) by (simp add: sorted_append)
  have "fst (rl_allow t key (snd (requests (\<lambda>t. rl_allow t key) ts rl))) = fst (cfg_allow t (snd (requests cfg_allow ts ?c)))"
    using r by (simp add: rl_allow_def split: prod.split bool.split)
  then show ?thesis
    using rl.window_bound [of ?c ts u] rl.refusal_means_full [of ?c ts t] so assms(2) pos r by simp
qed

theorem limiter_window_exact_witness:
  "int (length (in_window 5 10 (fst (requests (\<lambda>t. rl_allow t ''k'') [0, 1, 2, 3]
     [(''k'', \<lparr>lc_rate = 1, lc_burst = 2, lc_window = 10, lc_at = 0, lc_tokens = []\<rparr>)])))) \<le> 2"
  by (rule limiter_window_exact [of 0 "''k''" 1 2 10 "[]" _ "[0, 1, 2, 3]" 4, THEN conjunct1])
    (simp_all add: set_limit_def)

text \<open>C27: the token bucket never over-admits: from its creation at \<open>t0\<close>, in every history of attempts,
  looks and clock shifts, it has admitted at once at most its burst plus \<open>rate\<close> times the time that has
  passed, and its tokens stay between nothing and the burst.\<close>

theorem bucket_rate_bound:
  assumes "tb_init t0 rate burst = Inr tb0" and "bucket_step\<^sup>*\<^sup>* (0, tb0) (n, tb)"
  shows "of_nat n \<le> of_int (tb_burst tb0) + rate * (last_refill tb - t0)
    \<and> 0 \<le> tb_tokens tb \<and> tb_tokens tb \<le> of_int (tb_burst tb0)"
proof -
  have "0 < rate" "0 \<le> tb_burst tb0" and "tb_rate tb0 = rate" "tb_tokens tb0 = of_int (tb_burst tb0)" "last_refill tb0 = t0"
    using assms(1) py_int_nonneg [of rate] by (auto simp: tb_init_def Let_def split: if_splits option.splits)
  then have "bucket_inv t0 rate (tb_burst tb0) (0, tb0)" by (simp add: bucket_inv_def)
  with assms(2) have "bucket_inv t0 rate (tb_burst tb0) (n, tb)"
    by (induction rule: rtranclp_induct) (auto intro: bucket_step_inv)
  then show ?thesis by (simp add: bucket_inv_def)
qed

theorem bucket_rate_bound_witness:
  "(1::rat) \<le> 1 + 2 * (last_refill (snd (try_acquire_sync 8
      \<lparr>tb_rate = 2, tb_burst = 1, tb_tokens = 1, last_refill = 7, clock_offset = 0\<rparr>)) - 7)"
proof -
  let ?tb = "\<lparr>tb_rate = 2, tb_burst = 1, tb_tokens = 1, last_refill = 7, clock_offset = 0\<rparr>"
  have "tb_init 7 2 (Some 1) = Inr ?tb" by (simp add: tb_init_def)
  moreover have "try_acquire_sync 8 ?tb = (True, snd (try_acquire_sync 8 ?tb))"
    by (simp add: try_acquire_sync_def tb_refill_def)
  from bucket_step.try_acquire [OF _ this, of 0]
  have "bucket_step\<^sup>*\<^sup>* (0, ?tb) (Suc 0, snd (try_acquire_sync 8 ?tb))" by simp
  ultimately show ?thesis using bucket_rate_bound [of 7 2 "Some 1" ?tb "Suc 0"] by simp
qed

text \<open>Waiting ends: a coroutine that finds its key's window full and is woken no earlier than the
  delay it asked for is admitted at the next check, if nobody else took the slot; it has then waited
  exactly until the oldest admission left the window (at least a millisecond).\<close>

theorem acquire_waits_once:
  assumes "dict_get rl key = Some c" and "1 \<le> lc_burst c" and "int (length (lc_tokens c)) \<le> lc_burst c"
    and "sorted (lc_tokens c)" and "lc_burst c \<le> int (length (active now c))"
    and "now + max (1 / 1000) (hd (active now c) + lc_window c - now) \<le> now'"
  shows "\<exists>rl'. rl_acquire [now, now'] key 0 rl = Some (max (1 / 1000) (hd (active now c) + lc_window c - now), rl')
    \<and> rl_remaining now' key rl = lc_burst c - int (length (active now' c)) \<and> 0 < rl_remaining now' key rl"
proof -
  have all: "active now c = lc_tokens c"
    using assms(3,5) by (simp add: active_def) (metis filter_id_conv le_antisym length_filter_le length_filter_less
        linorder_not_less of_nat_le_iff order.trans)
  obtain x xs where x: "lc_tokens c = x # xs" using assms(2,5) all by (cases "lc_tokens c") auto
  have "x + lc_window c \<le> now'" using assms(6) by (simp add: all x)
  then have "active now' c = filter (\<lambda>t. t > now' - lc_window c) xs" by (simp add: active_def x)
  then have "int (length (active now' c)) \<le> int (length xs)" by simp
  then have "int (length (active now' c)) < lc_burst c" using assms(3) x by simp
  then show ?thesis using assms(1,5) by (simp add: rl_remaining_def)
qed

theorem acquire_waits_once_witness:
  "\<exists>rl'. rl_acquire [3, 10] ''k'' 0 [(''k'', \<lparr>lc_rate = 1, lc_burst = 1, lc_window = 10, lc_at = 0, lc_tokens = [0]\<rparr>)] = Some (7, rl')"
  using acquire_waits_once [of "[(''k'', \<lparr>lc_rate = 1, lc_burst = 1, lc_window = 10, lc_at = 0, lc_tokens = [0]\<rparr>)]" "''k''" _ 3 10]
  by (simp add: active_def)

end
