(* ===== verification/Message_Queue.thy ===== *)
theory Message_Queue
  imports Prelude "HOL-Library.Sublist"
begin

text \<open>
  The in-process message broker and its retry and dead-letter queues (\<open>integrations/queue\<close>), and
  the retry policy of jobs (\<open>jobs/retry_policy.py\<close>).

  A handler is an identifier \<open>'h\<close>; what the application does with a message is an argument. A body
  is a value or one of the dictionaries the retry and dead-letter queues write around a body, whose
  keys may be missing; a header holds the number where the code stores its decimal string. Putting
  into a full queue suspends the caller: the operation is \<open>None\<close> then. Fresh ids are arguments.
\<close>

subsection \<open>Messages and queues\<close>

datatype body =
    Plain py_value
  | Retry_Body body "int option" "string option"
  | Dead_Body string string body string "(string \<times> py_value) list"

record message =
  msg_id :: string
  msg_body :: body
  msg_key :: string
  msg_headers :: "(string, py_value) pydict"

definition mk_message :: "string \<Rightarrow> body \<Rightarrow> string \<Rightarrow> string \<Rightarrow> (string, py_value) pydict \<Rightarrow> message" where
  \<comment> \<open>\<open>message_id or new_id("msg")\<close>\<close>
  "mk_message fresh b mid key hs =
     \<lparr>msg_id = (if mid = [] then fresh else mid), msg_body = b, msg_key = key, msg_headers = hs\<rparr>"

record queue =
  q_maxsize :: int
  q_items :: "message list"

record 'h broker =
  br_queues :: "(string, queue) pydict"
  br_consumers :: "(string, 'h list) pydict"
  br_running :: bool
  br_tasks :: "string list"  \<comment> \<open>the queues a processing task was started for\<close>

definition br_init :: "'h broker" where
  "br_init = \<lparr>br_queues = [], br_consumers = [], br_running = False, br_tasks = []\<rparr>"

definition declare_queue :: "string \<Rightarrow> int \<Rightarrow> 'h broker \<Rightarrow> 'h broker" where
  "declare_queue n maxsize br =
     (if dict_get (br_queues br) n \<noteq> None then br
      else br\<lparr>br_queues := dict_set n \<lparr>q_maxsize = maxsize, q_items = []\<rparr> (br_queues br)\<rparr>)"

definition q_full :: "queue \<Rightarrow> bool" where
  "q_full q \<longleftrightarrow> 0 < q_maxsize q \<and> q_maxsize q \<le> int (length (q_items q))"

definition publish :: "string \<Rightarrow> message \<Rightarrow> 'h broker \<Rightarrow> 'h broker option" where
  "publish key m br =
     (let br1 = (if dict_get (br_queues br) key = None then declare_queue key 0 br else br) in
      case dict_get (br_queues br1) key of
        None \<Rightarrow> None
      | Some q \<Rightarrow>
          if q_full q then None
          else Some (br1\<lparr>br_queues := dict_set key (q\<lparr>q_items := q_items q @ [m\<lparr>msg_key := key\<rparr>]\<rparr>) (br_queues br1)\<rparr>))"

definition consume :: "string \<Rightarrow> 'h \<Rightarrow> 'h broker \<Rightarrow> 'h broker" where
  "consume n h br = br\<lparr>br_consumers := dict_set n (dict_get_or (br_consumers br) n [] @ [h]) (br_consumers br)\<rparr>"

definition br_start :: "'h broker \<Rightarrow> 'h broker" where
  \<comment> \<open>one task per queue with consumers; the task of a queue not declared yet returns at once\<close>
  "br_start br =
     br\<lparr>br_running := True,
        br_tasks := br_tasks br @ filter (\<lambda>n. dict_get (br_queues br) n \<noteq> None) (dict_keys (br_consumers br))\<rparr>"

definition br_stop :: "'h broker \<Rightarrow> 'h broker" where
  "br_stop br = br\<lparr>br_running := False\<rparr>"

definition queued :: "string \<Rightarrow> 'h broker \<Rightarrow> message list" where
  "queued n br = (case dict_get (br_queues br) n of None \<Rightarrow> [] | Some q \<Rightarrow> q_items q)"

definition queue_size :: "string \<Rightarrow> 'h broker \<Rightarrow> nat" where
  "queue_size n br = length (queued n br)"

definition take_message :: "string \<Rightarrow> 'h broker \<Rightarrow> (message \<times> 'h list \<times> 'h broker) option" where
  \<comment> \<open>a turn of a queue's task: the message and the handlers it goes to, one after the other\<close>
  "take_message n br =
     (if \<not> br_running br \<or> n \<notin> set (br_tasks br) then None
      else case dict_get (br_queues br) n of
             None \<Rightarrow> None
           | Some q \<Rightarrow>
               (case q_items q of
                  [] \<Rightarrow> None
                | m # ms \<Rightarrow>
                    Some (m, dict_get_or (br_consumers br) n [],
                          br\<lparr>br_queues := dict_set n (q\<lparr>q_items := ms\<rparr>) (br_queues br)\<rparr>)))"

definition pub_publish :: "string \<Rightarrow> string \<Rightarrow> body \<Rightarrow> (string, py_value) pydict \<Rightarrow> 'h broker \<Rightarrow> (string \<times> 'h broker) option" where
  "pub_publish fresh key b hs br =
     (let m = mk_message fresh b [] key hs in map_option (\<lambda>br'. (msg_id m, br')) (publish key m br))"

definition publish_json :: "string \<Rightarrow> string \<Rightarrow> (string \<times> py_value) list \<Rightarrow> 'h broker \<Rightarrow> (string \<times> 'h broker) option" where
  "publish_json fresh key d br = pub_publish fresh key (Plain (PDict d)) [(''content-type'', PStr ''application/json'')] br"

definition publish_event ::
  "string \<Rightarrow> string \<Rightarrow> string \<Rightarrow> (string \<times> py_value) list \<Rightarrow> 'h broker \<Rightarrow> (string \<times> 'h broker) option" where
  "publish_event fresh key ev d br =
     pub_publish fresh key (Plain (PDict [(''event_type'', PStr ev), (''data'', PDict d)]))
       [(''content-type'', PStr ''application/json''), (''event_type'', PStr ev)] br"

subsection \<open>The dead-letter queue\<close>

record dead_entry =
  de_id :: string
  de_reason :: string
  de_body :: body
  de_key :: string
  de_headers :: "(string, py_value) pydict"

record 'h dlq =
  dl_broker :: "'h broker"
  dl_queue :: string
  dl_messages :: "dead_entry list"

definition dl_send :: "string \<Rightarrow> message \<Rightarrow> string \<Rightarrow> 'h dlq \<Rightarrow> 'h dlq option" where
  "dl_send fresh m reason d =
     (let dm = mk_message fresh (Dead_Body (msg_id m) (msg_key m) (msg_body m) reason (msg_headers m)) [] (dl_queue d)
                 [(''x-dead-letter'', PStr ''true''), (''x-reason'', PStr reason)] in
      case publish (dl_queue d) dm (dl_broker d) of
        None \<Rightarrow> None
      | Some br \<Rightarrow>
          Some (d\<lparr>dl_broker := br,
                  dl_messages := dl_messages d @
                    [\<lparr>de_id = msg_id m, de_reason = reason, de_body = msg_body m, de_key = msg_key m, de_headers = msg_headers m\<rparr>]\<rparr>))"

definition dl_replay :: "string \<Rightarrow> string \<Rightarrow> string \<Rightarrow> 'h dlq \<Rightarrow> (bool \<times> 'h dlq) option" where
  \<comment> \<open>\<open>list.remove\<close> takes out the first entry equal to the one found, which is the one found\<close>
  "dl_replay fresh mid target d =
     (case find (\<lambda>e. de_id e = mid) (dl_messages d) of
        None \<Rightarrow> Some (False, d)
      | Some e \<Rightarrow>
          (case publish target (mk_message fresh (de_body e) [] target (de_headers e)) (dl_broker d) of
             None \<Rightarrow> None
           | Some br \<Rightarrow> Some (True, d\<lparr>dl_broker := br, dl_messages := remove1 e (dl_messages d)\<rparr>)))"

definition dl_purge :: "'h dlq \<Rightarrow> nat \<times> 'h dlq" where
  "dl_purge d = (length (dl_messages d), d\<lparr>dl_messages := []\<rparr>)"

subsection \<open>The retry queue\<close>

record 'h retry_queue =
  rq_broker :: "'h broker"
  rq_max :: int
  rq_base :: pyfloat
  rq_name :: string
  rq_counts :: "(string, int) pydict"

definition rq_schedule :: "string \<Rightarrow> message \<Rightarrow> pyfloat option \<Rightarrow> 'h retry_queue \<Rightarrow> 'h retry_queue option" where
  "rq_schedule fresh m delay rq =
     (let oid = msg_id m; n = dict_get_or (rq_counts rq) oid 0 + 1 in
      if n > rq_max rq then Some (rq\<lparr>rq_counts := dict_del oid (dict_set oid n (rq_counts rq))\<rparr>)
      else
        (let wait = (case delay of Some d \<Rightarrow> d | None \<Rightarrow> rq_base rq * 2 ^ nat (n - 1));
             rm = mk_message fresh (Retry_Body (msg_body m) (Some n) (Some oid)) [] (rq_name rq)
                    [(''x-retry-count'', PInt n), (''x-delay-seconds'', PFloat wait),
                     (''x-original-routing-key'', PStr (msg_key m))] in
         case publish (rq_name rq) rm (rq_broker rq) of
           None \<Rightarrow> None
         | Some br \<Rightarrow> Some (rq\<lparr>rq_counts := dict_set oid n (rq_counts rq), rq_broker := br\<rparr>)))"

definition header_str :: "(string, py_value) pydict \<Rightarrow> string \<Rightarrow> string" where
  "header_str hs k = (case dict_get hs k of Some (PStr s) \<Rightarrow> s | _ \<Rightarrow> [])"

definition original_message :: "string \<Rightarrow> body \<Rightarrow> string \<Rightarrow> message \<Rightarrow> message" where
  \<comment> \<open>the message the handler sees again; its headers are gone\<close>
  "original_message fresh b oid m = mk_message fresh b oid (header_str (msg_headers m) ''x-original-routing-key'') []"

definition retry_handler ::
  "string \<Rightarrow> string \<Rightarrow> (message \<Rightarrow> bool) \<Rightarrow> message \<Rightarrow> 'h retry_queue \<Rightarrow> 'h retry_queue option" where
  \<comment> \<open>\<open>works m\<close>: the application's handler returns on \<open>m\<close> (otherwise it raises)\<close>
  "retry_handler fresh1 fresh2 works m rq =
     (case msg_body m of
        Retry_Body b cnt mid \<Rightarrow>
          (let n = (case cnt of None \<Rightarrow> 1 | Some n \<Rightarrow> n);
               oid = (case mid of None \<Rightarrow> msg_id m | Some i \<Rightarrow> i);
               om = original_message fresh1 b oid m in
           if works om then Some (rq\<lparr>rq_counts := dict_del oid (rq_counts rq)\<rparr>)
           else if n < rq_max rq then rq_schedule fresh2 om None rq
           else Some (rq\<lparr>rq_counts := dict_del oid (rq_counts rq)\<rparr>))
      | _ \<Rightarrow> Some rq)"

definition process_retries :: "'h \<Rightarrow> 'h retry_queue \<Rightarrow> 'h retry_queue" where
  "process_retries h rq = rq\<lparr>rq_broker := consume (rq_name rq) h (rq_broker rq)\<rparr>"

definition reset_count :: "string \<Rightarrow> 'h retry_queue \<Rightarrow> 'h retry_queue" where
  "reset_count mid rq = rq\<lparr>rq_counts := dict_del mid (rq_counts rq)\<rparr>"

fun retry_turns ::
  "nat \<Rightarrow> (nat \<Rightarrow> string) \<Rightarrow> (message \<Rightarrow> int \<Rightarrow> bool) \<Rightarrow> 'h retry_queue \<Rightarrow> (int list \<times> 'h retry_queue) option" where
  \<comment> \<open>\<open>k\<close> turns of the retry queue's task: the retry counts of the attempts made\<close>
  "retry_turns 0 ids works rq = Some ([], rq)"
| "retry_turns (Suc k) ids works rq =
     (case take_message (rq_name rq) (rq_broker rq) of
        None \<Rightarrow> Some ([], rq)
      | Some (m, hs, br) \<Rightarrow>
          (let n = (case msg_body m of Retry_Body b (Some n) mid \<Rightarrow> n | _ \<Rightarrow> 1) in
           case retry_handler (ids (2 * k)) (ids (2 * k + 1)) (\<lambda>om. works om n) m (rq\<lparr>rq_broker := br\<rparr>) of
             None \<Rightarrow> None
           | Some rq' \<Rightarrow> map_option (\<lambda>(ns, rq''). (n # ns, rq'')) (retry_turns k ids works rq')))"

subsection \<open>The retry policy of jobs\<close>

record job_retry_policy =
  jr_max :: int
  jr_base :: pyfloat
  jr_max_delay :: pyfloat
  jr_factor :: pyfloat
  jr_jitter :: bool
  jr_retries :: "(string, nat) pydict"

definition jr_should_retry :: "string \<Rightarrow> job_retry_policy \<Rightarrow> bool" where
  "jr_should_retry j p \<longleftrightarrow> int (dict_get_or (jr_retries p) j 0) < jr_max p"

definition jr_delay :: "pyfloat \<Rightarrow> string \<Rightarrow> job_retry_policy \<Rightarrow> pyfloat" where
  \<comment> \<open>\<open>u\<close> is \<open>random.random()\<close>\<close>
  "jr_delay u j p =
     (let d = min (jr_base p * jr_factor p ^ dict_get_or (jr_retries p) j 0) (jr_max_delay p)
      in if jr_jitter p then d * (1 / 2 + u * (1 / 2)) else d)"

definition jr_record :: "string \<Rightarrow> job_retry_policy \<Rightarrow> nat \<times> job_retry_policy" where
  "jr_record j p = (let n = dict_get_or (jr_retries p) j 0 + 1 in (n, p\<lparr>jr_retries := dict_set j n (jr_retries p)\<rparr>))"

definition jr_clear :: "string \<Rightarrow> job_retry_policy \<Rightarrow> job_retry_policy" where
  "jr_clear j p = p\<lparr>jr_retries := dict_del j (jr_retries p)\<rparr>"

lemma jr_delay_bounds:
  assumes "0 \<le> u" "u \<le> 1" "0 \<le> jr_base p" "0 \<le> jr_factor p" "0 \<le> jr_max_delay p"
  shows "0 \<le> jr_delay u j p \<and> jr_delay u j p \<le> jr_max_delay p"
proof -
  let ?d = "min (jr_base p * jr_factor p ^ dict_get_or (jr_retries p) j 0) (jr_max_delay p)"
  have d: "0 \<le> ?d" "?d \<le> jr_max_delay p" using assms by simp_all
  have "?d * (1 / 2 + u * (1 / 2)) \<le> ?d * 1" by (rule mult_left_mono) (use assms(2) d in simp_all)
  then have "?d * (1 / 2 + u * (1 / 2)) \<le> jr_max_delay p" using d(2) by linarith
  moreover have "0 \<le> ?d * (1 / 2 + u * (1 / 2))" by (rule mult_nonneg_nonneg) (use assms(1) d in simp_all)
  ultimately show ?thesis using d by (simp add: jr_delay_def Let_def)
qed

subsection \<open>Histories of the broker\<close>

inductive br_step :: "'h broker \<Rightarrow> 'h broker \<Rightarrow> bool" where
  declared: "br_step br (declare_queue n k br)"
| publish: "publish n m br = Some br' \<Longrightarrow> br_step br br'"
| consume: "br_step br (consume n h br)"
| take: "take_message n br = Some (m, hs, br') \<Longrightarrow> br_step br br'"
| stop: "br_step br (br_stop br)"

lemma publish_spec:
  assumes "publish key m br = Some br'"
  shows "queued n br' = queued n br @ (if n = key then [m\<lparr>msg_key := key\<rparr>] else [])"
    and "br_tasks br' = br_tasks br" and "br_running br' = br_running br"
  using assms
  by (auto simp: publish_def Let_def queued_def declare_queue_def split: if_splits option.splits)

lemma publish_new: "dict_get (br_queues br) key = None \<Longrightarrow> \<exists>br'. publish key m br = Some br'"
  by (simp add: publish_def Let_def declare_queue_def q_full_def)

lemma br_step_keeps:
  "br_step br br' \<Longrightarrow> n \<notin> set (br_tasks br) \<Longrightarrow> prefix (queued n br) (queued n br') \<and> br_tasks br' = br_tasks br"
proof (induction rule: br_step.induct)
  case (declared br n' k)
  then show ?case by (auto simp: declare_queue_def queued_def split: option.split)
next
  case (publish k m br br')
  then show ?case using publish_spec [OF publish.hyps] by simp
next
  case (consume br n' h)
  then show ?case by (simp add: consume_def queued_def)
next
  case (take n' br m hs br')
  then show ?case by (auto simp: take_message_def queued_def split: if_splits option.splits list.splits)
next
  case (stop br)
  then show ?case by (simp add: br_stop_def queued_def)
qed

lemma br_steps_keep:
  "br_step\<^sup>*\<^sup>* br br' \<Longrightarrow> n \<notin> set (br_tasks br) \<Longrightarrow> prefix (queued n br) (queued n br') \<and> br_tasks br' = br_tasks br"
proof (induction rule: rtranclp_induct)
  case (step y z)
  then show ?case using br_step_keeps [of y z n] by (auto intro: prefix_order.trans)
qed simp

subsection \<open>One message in the retry queue\<close>

definition served :: "'h retry_queue \<Rightarrow> message list \<Rightarrow> bool" where
  \<comment> \<open>the unbounded retry queue has a running task and holds exactly these messages\<close>
  "served rq ms \<longleftrightarrow>
     br_running (rq_broker rq) \<and> rq_name rq \<in> set (br_tasks (rq_broker rq))
     \<and> (\<exists>q. dict_get (br_queues (rq_broker rq)) (rq_name rq) = Some q \<and> q_maxsize q \<le> 0 \<and> q_items q = ms)"

definition retry_of :: "body \<Rightarrow> string \<Rightarrow> string \<Rightarrow> int \<Rightarrow> message \<Rightarrow> bool" where
  "retry_of b key oid n rm \<longleftrightarrow>
     msg_body rm = Retry_Body b (Some n) (Some oid) \<and> header_str (msg_headers rm) ''x-original-routing-key'' = key"

lemma served_publish:
  assumes "served rq []"
  shows "\<exists>br. publish (rq_name rq) m (rq_broker rq) = Some br \<and> served (rq\<lparr>rq_broker := br\<rparr>) [m\<lparr>msg_key := rq_name rq\<rparr>]"
  using assms by (auto simp: served_def publish_def Let_def q_full_def)

lemma schedule_waits:
  assumes "served rq []" and "n \<le> rq_max rq" and "dict_get_or (rq_counts rq) (msg_id m) 0 = n - 1"
  shows "\<exists>rq' rm. rq_schedule fresh m None rq = Some rq' \<and> served rq' [rm] \<and> retry_of (msg_body m) (msg_key m) (msg_id m) n rm
    \<and> rq_max rq' = rq_max rq \<and> dict_ok (rq_counts rq') = dict_ok (dict_set (msg_id m) n (rq_counts rq))"
proof -
  let ?m = "mk_message fresh (Retry_Body (msg_body m) (Some n) (Some (msg_id m))) [] (rq_name rq)
      [(''x-retry-count'', PInt n), (''x-delay-seconds'', PFloat (rq_base rq * 2 ^ nat (n - 1))),
       (''x-original-routing-key'', PStr (msg_key m))]"
  from served_publish [OF assms(1), of ?m] obtain br where
    br: "publish (rq_name rq) ?m (rq_broker rq) = Some br" "served (rq\<lparr>rq_broker := br\<rparr>) [?m\<lparr>msg_key := rq_name rq\<rparr>]" by blast
  have "rq_schedule fresh m None rq = Some (rq\<lparr>rq_counts := dict_set (msg_id m) n (rq_counts rq), rq_broker := br\<rparr>)"
    using assms(2,3) br(1) by (simp add: rq_schedule_def Let_def)
  then show ?thesis using br(2)
    by (auto simp: served_def retry_of_def mk_message_def header_str_def)
qed

lemma served_take:
  assumes "served rq (m # ms)"
  shows "\<exists>hs br. take_message (rq_name rq) (rq_broker rq) = Some (m, hs, br) \<and> served (rq\<lparr>rq_broker := br\<rparr>) ms"
  using assms by (auto simp: served_def take_message_def)

lemma no_turns: "served rq [] \<Longrightarrow> retry_turns k ids works rq = Some ([], rq)"
  by (cases k) (auto simp: served_def take_message_def)

text \<open>What the application's handler is given at every attempt.\<close>

definition seen :: "body \<Rightarrow> string \<Rightarrow> string \<Rightarrow> message" where
  "seen b key oid = \<lparr>msg_id = oid, msg_body = b, msg_key = key, msg_headers = []\<rparr>"

lemma original_seen:
  "retry_of b key oid n rm \<Longrightarrow> oid \<noteq> [] \<Longrightarrow> original_message fresh b oid rm = seen b key oid"
  by (simp add: original_message_def retry_of_def mk_message_def seen_def)

lemma retry_counts_after:
  assumes "retry_of b key oid n rm" and "served rq [rm]" and "oid \<noteq> []" and "n \<le> j" and "j \<le> rq_max rq" and "1 \<le> n"
    and "dict_get (rq_counts rq) oid = Some n"
    and "\<forall>i. n \<le> i \<and> i < j \<longrightarrow> \<not> works (seen b key oid) i"
    and "works (seen b key oid) j \<or> j = rq_max rq" and "nat (j - n + 1) \<le> k"
  shows "\<exists>rq2. retry_turns k ids works rq = Some ([n..j], rq2) \<and> served rq2 [] \<and> dict_get (rq_counts rq2) oid = None"
  using assms
proof (induction k arbitrary: n rm rq)
  case (Suc k)
  note ro = Suc.prems(1) and le = Suc.prems(4) and mx = Suc.prems(5)
  obtain hs br where t: "take_message (rq_name rq) (rq_broker rq) = Some (rm, hs, br)" and
    s0: "served (rq\<lparr>rq_broker := br\<rparr>) []" using served_take [OF Suc.prems(2)] by blast
  let ?rq = "rq\<lparr>rq_broker := br\<rparr>"
  have body: "msg_body rm = Retry_Body b (Some n) (Some oid)" using ro by (simp add: retry_of_def)
  have h: "retry_handler f1 f2 (\<lambda>om. works om n) rm ?rq =
      (if works (seen b key oid) n then Some (?rq\<lparr>rq_counts := dict_del oid (rq_counts rq)\<rparr>)
       else if n < rq_max rq then rq_schedule f2 (seen b key oid) None ?rq
       else Some (?rq\<lparr>rq_counts := dict_del oid (rq_counts rq)\<rparr>))" for f1 f2
    by (simp add: retry_handler_def body original_seen [OF ro Suc.prems(3)])
  show ?case
  proof (cases "n = j")
    case True
    then have "retry_handler f1 f2 (\<lambda>om. works om n) rm ?rq = Some (?rq\<lparr>rq_counts := dict_del oid (rq_counts rq)\<rparr>)" for f1 f2
      using h [of f1 f2] Suc.prems(9) by auto
    moreover have "served (?rq\<lparr>rq_counts := dict_del oid (rq_counts rq)\<rparr>) []" using s0 by (simp add: served_def)
    ultimately show ?thesis using True by (simp add: t body no_turns)
  next
    case False
    then have lt: "n < j" using le by simp
    with Suc.prems(8) have "\<not> works (seen b key oid) n" by simp
    with h lt mx have h1: "retry_handler f1 f2 (\<lambda>om. works om n) rm ?rq = rq_schedule f2 (seen b key oid) None ?rq" for f1 f2
      by simp
    have "n + 1 \<le> rq_max ?rq" "dict_get_or (rq_counts ?rq) (msg_id (seen b key oid)) 0 = n + 1 - 1"
      using lt mx Suc.prems(7) by (simp_all add: dict_get_or_def seen_def)
    from schedule_waits [OF s0 this, of "ids (2 * k + 1)"] obtain rq' rm' where
      sc: "rq_schedule (ids (2 * k + 1)) (seen b key oid) None ?rq = Some rq'" "served rq' [rm']"
        "retry_of b key oid (n + 1) rm'" "rq_max rq' = rq_max rq" by (auto simp: seen_def)
    have "dict_get (rq_counts rq') oid = Some (n + 1)"
      using sc(1) lt mx Suc.prems(7)
      by (auto simp: rq_schedule_def Let_def seen_def dict_get_or_def split: option.splits if_splits)
    moreover have "nat (j - (n + 1) + 1) \<le> k" using Suc.prems(10) by linarith
    ultimately obtain rq2 where "retry_turns k ids works rq' = Some ([n + 1..j], rq2)" "served rq2 []"
        "dict_get (rq_counts rq2) oid = None"
      using Suc.IH [OF sc(3,2) Suc.prems(3), unfolded sc(4)] lt mx Suc.prems(6,8,9) by auto
    then show ?thesis using h1 sc(1) upto_rec1 [OF le] by (simp add: t body)
  qed
qed simp

subsection \<open>Properties\<close>

text \<open>C34: retrying ends: a message scheduled on an empty, served retry queue is handed to the handler,
  with its own id, body and routing key, exactly at the retry counts 1 to \<open>j\<close>, where \<open>j\<close> is the first
  count at which the handler works, or the maximum; then the queue is empty and the count forgotten.\<close>

theorem retries_end:
  assumes "served rq []" and "dict_get (rq_counts rq) (msg_id m) = None" and "msg_id m \<noteq> []"
    and "1 \<le> j" and "j \<le> rq_max rq"
    and "\<forall>i. 1 \<le> i \<and> i < j \<longrightarrow> \<not> works (seen (msg_body m) (msg_key m) (msg_id m)) i"
    and "works (seen (msg_body m) (msg_key m) (msg_id m)) j \<or> j = rq_max rq" and "nat j \<le> k"
  shows "\<exists>rq1 rq2. rq_schedule fresh m None rq = Some rq1 \<and> retry_turns k ids works rq1 = Some ([1..j], rq2)
    \<and> served rq2 [] \<and> dict_get (rq_counts rq2) (msg_id m) = None"
proof -
  have "dict_get_or (rq_counts rq) (msg_id m) 0 = 1 - 1" using assms(2) by (simp add: dict_get_or_def)
  with schedule_waits [OF assms(1), of 1 m fresh] assms(4,5) obtain rq1 rm where
    s: "rq_schedule fresh m None rq = Some rq1" "served rq1 [rm]"
      "retry_of (msg_body m) (msg_key m) (msg_id m) 1 rm" "rq_max rq1 = rq_max rq" by auto
  have "dict_get (rq_counts rq1) (msg_id m) = Some 1"
    using s(1) assms(2,4,5) by (auto simp: rq_schedule_def Let_def dict_get_or_def split: option.splits if_splits)
  with retry_counts_after [OF s(3,2) assms(3,4), unfolded s(4), of works k ids] assms(4-8) s(1) show ?thesis by auto
qed

definition demo_retry :: "nat retry_queue" where
  "demo_retry =
     \<lparr>rq_broker = br_start (consume ''retry'' 0 (declare_queue ''retry'' 0 br_init)),
      rq_max = 3, rq_base = 5, rq_name = ''retry'', rq_counts = []\<rparr>"

theorem retries_end_witness:
  "\<exists>rq1 rq2. rq_schedule ''f'' (seen (Plain PNone) ''k'' ''m'') None demo_retry = Some rq1
     \<and> retry_turns 5 (\<lambda>_. ''f'') (\<lambda>_ _. False) rq1 = Some ([1..3], rq2)"
proof -
  have s: "served demo_retry []"
    by (simp add: served_def demo_retry_def br_start_def consume_def declare_queue_def br_init_def dict_get_or_def)
  have n: "dict_get (rq_counts demo_retry) (msg_id (seen (Plain PNone) ''k'' ''m'')) = None" "rq_max demo_retry = 3"
      "msg_id (seen (Plain PNone) ''k'' ''m'') \<noteq> []"
    by (simp_all add: demo_retry_def seen_def)
  show ?thesis
    using retries_end [OF s n(1,3), of 3 "\<lambda>_ _. False" 5 "''f''" "\<lambda>_. ''f''"] n(2) by auto
qed

text \<open>A dead letter comes back whole: sending a message to the dead-letter queue and replaying it
  appends to the target queue a message with its body and headers (under a new id) and drops the
  entry, but the copy in the broker's dead-letter queue stays there.\<close>

theorem dlq_replay_restores:
  assumes "dl_send f1 m reason d = Some d1" and "find (\<lambda>e. de_id e = msg_id m) (dl_messages d) = None"
    and "dl_replay f2 (msg_id m) target d1 = Some (ok, d2)" and "target \<noteq> dl_queue d"
  shows "ok \<and> queued target (dl_broker d2) = queued target (dl_broker d) @
      [\<lparr>msg_id = f2, msg_body = msg_body m, msg_key = target, msg_headers = msg_headers m\<rparr>]
    \<and> dl_messages d2 = dl_messages d
    \<and> (\<exists>dm. queued (dl_queue d) (dl_broker d2) = queued (dl_queue d) (dl_broker d) @ [dm] \<and> msg_id dm = f1)"
proof -
  let ?e = "\<lparr>de_id = msg_id m, de_reason = reason, de_body = msg_body m, de_key = msg_key m, de_headers = msg_headers m\<rparr>"
  obtain dm br where p1: "publish (dl_queue d) dm (dl_broker d) = Some br" and i1: "msg_id dm = f1"
    and d1: "d1 = d\<lparr>dl_broker := br, dl_messages := dl_messages d @ [?e]\<rparr>"
    using assms(1) by (auto simp: dl_send_def Let_def mk_message_def split: option.splits)
  have f: "find (\<lambda>e. de_id e = msg_id m) (dl_messages d @ [?e]) = Some ?e"
    using assms(2) by (induction "dl_messages d") (auto simp: find_None_iff find_Some_iff nth_append split: if_splits)
  obtain br2 where p2: "publish target (mk_message f2 (msg_body m) [] target (msg_headers m)) br = Some br2"
    and d2: "ok" "d2 = d1\<lparr>dl_broker := br2, dl_messages := remove1 ?e (dl_messages d @ [?e])\<rparr>"
    using assms(3) f by (auto simp: dl_replay_def d1 split: option.splits)
  have "?e \<notin> set (dl_messages d)" using assms(2) by (auto simp: find_None_iff)
  then have "remove1 ?e (dl_messages d @ [?e]) = dl_messages d" by (simp add: remove1_append)
  then show ?thesis
    using d2 publish_spec(1) [OF p1] publish_spec(1) [OF p2] assms(4) i1 by (simp add: d1 mk_message_def)
qed

definition demo_dlq :: "nat dlq" where
  "demo_dlq = \<lparr>dl_broker = br_init, dl_queue = ''dead'', dl_messages = []\<rparr>"

theorem dlq_replay_restores_witness:
  "\<exists>d1 d2. dl_send ''f'' (seen (Plain (PInt 7)) ''k'' ''m'') ''bad'' demo_dlq = Some d1
     \<and> dl_replay ''g'' ''m'' ''orders'' d1 = Some (True, d2) \<and> map msg_body (queued ''orders'' (dl_broker d2)) = [Plain (PInt 7)]"
proof -
  let ?m = "seen (Plain (PInt 7)) ''k'' ''m''"
  obtain d1 where s: "dl_send ''f'' ?m ''bad'' demo_dlq = Some d1"
    by (cases "dl_send ''f'' ?m ''bad'' demo_dlq")
      (simp_all add: dl_send_def demo_dlq_def publish_def declare_queue_def br_init_def q_full_def)
  have "map_option fst (dl_replay ''g'' ''m'' ''orders'' (the (dl_send ''f'' ?m ''bad'' demo_dlq))) = Some True"
    by code_simp
  then obtain d2 where r: "dl_replay ''g'' ''m'' ''orders'' d1 = Some (True, d2)" by (auto simp: s)
  have r2: "dl_replay ''g'' (msg_id ?m) ''orders'' d1 = Some (True, d2)" by (simp only: seen_def message.simps r)
  have q0: "queued ''orders'' (dl_broker demo_dlq) = []" by (simp add: demo_dlq_def br_init_def queued_def)
  have none: "find (\<lambda>e. de_id e = msg_id ?m) (dl_messages demo_dlq) = None" by (simp add: demo_dlq_def)
  have "''orders'' \<noteq> dl_queue demo_dlq" by (simp add: demo_dlq_def)
  from dlq_replay_restores [OF s none r2 this, THEN conjunct2, THEN conjunct1]
  have "map msg_body (queued ''orders'' (dl_broker d2)) = [Plain (PInt 7)]" unfolding q0 by (simp add: seen_def)
  then show ?thesis by (intro exI conjI) (rule s, rule r)
qed

text \<open>A consumer of a queue that is not declared when the broker starts is never served: its task
  has ended at once, and whatever is published to the queue later stays there for ever.\<close>

theorem undeclared_queue_never_served:
  assumes "dict_get (br_queues br) n = None" and "n \<notin> set (br_tasks br)"
    and "br_step\<^sup>*\<^sup>* (br_start br) br1" and "br_step\<^sup>*\<^sup>* br1 br2"
  shows "take_message n br2 = None \<and> prefix (queued n br1) (queued n br2)"
proof -
  have "n \<notin> set (br_tasks (br_start br))" using assms(1,2) by (simp add: br_start_def)
  with br_steps_keep [OF assms(3)] have "n \<notin> set (br_tasks br1)" by auto
  with br_steps_keep [OF assms(4), of n] show ?thesis by (simp add: take_message_def)
qed

theorem undeclared_queue_never_served_witness:
  "\<exists>br2. publish ''retry'' (seen (Plain PNone) ''k'' ''m'') (br_start (consume ''retry'' (0::nat) br_init)) = Some br2
     \<and> take_message ''retry'' br2 = None"
proof -
  let ?br = "consume ''retry'' (0::nat) br_init"
  have u: "dict_get (br_queues ?br) ''retry'' = None" "''retry'' \<notin> set (br_tasks ?br)"
    by (simp_all add: consume_def br_init_def)
  obtain br2 where p: "publish ''retry'' (seen (Plain PNone) ''k'' ''m'') (br_start ?br) = Some br2"
    using publish_new [of "br_start ?br" "''retry''"] u(1) by (auto simp: br_start_def)
  from undeclared_queue_never_served [OF u, of "br_start ?br" br2] br_step.publish [OF p] p show ?thesis by auto
qed

end
