(* ===== verification/Event_Stream.thy ===== *)
theory Event_Stream
  imports Prelude "HOL-Library.Product_Lexorder"
begin

text \<open>
  The event side of the backtest engines: market events and their builder
  (\<open>backtesting/engine/event_builder.py\<close>), the timeline (\<open>unified_timeline.py\<close>), the event bus
  (\<open>event_bus.py\<close>), the clock (\<open>clock.py\<close>) and the bar loop (\<open>event_loop.py\<close>).

  A raw record is a dictionary whose known keys may each be missing. A handler is an identifier
  \<open>'h\<close>; \<open>call\<close> says what calling it does to the rest of the world, exceptions included, since the bus
  catches them. Clock listeners and the loop's handlers are taken not to raise, which nothing there would catch.
  Handlers that change the subscriptions while they are called are not covered.
\<close>

subsection \<open>Events\<close>

datatype event_type =
  TRADE | QUOTE | AUCTION | SESSION_START | SESSION_END | STATUS_CHANGE | CORPORATE_ACTION | ORDERBOOK_SNAPSHOT

fun event_type_str :: "event_type \<Rightarrow> string" where
  "event_type_str TRADE = ''TRADE''"
| "event_type_str QUOTE = ''QUOTE''"
| "event_type_str AUCTION = ''AUCTION''"
| "event_type_str SESSION_START = ''SESSION_START''"
| "event_type_str SESSION_END = ''SESSION_END''"
| "event_type_str STATUS_CHANGE = ''STATUS_CHANGE''"
| "event_type_str CORPORATE_ACTION = ''CORPORATE_ACTION''"
| "event_type_str ORDERBOOK_SNAPSHOT = ''ORDERBOOK_SNAPSHOT''"

definition all_event_types :: "event_type list" where
  "all_event_types = [TRADE, QUOTE, AUCTION, SESSION_START, SESSION_END, STATUS_CHANGE, CORPORATE_ACTION, ORDERBOOK_SNAPSHOT]"

definition EventType :: "string \<Rightarrow> py_error + event_type" where
  "EventType s = (case find (\<lambda>t. event_type_str t = s) all_event_types of None \<Rightarrow> Inl ValueError | Some t \<Rightarrow> Inr t)"

record market_event =
  me_id :: string
  me_time :: pytime
  me_instrument :: string
  me_market :: string
  me_type :: event_type
  me_payload :: "(string, py_value) pydict"
  me_priority :: int

definition event_before :: "market_event \<Rightarrow> market_event \<Rightarrow> bool" where
  \<comment> \<open>\<open>MarketEvent.__lt__\<close>\<close>
  "event_before a b = (if me_time a = me_time b then me_priority a < me_priority b else me_time a < me_time b)"

definition MarketEvent ::
  "string \<Rightarrow> pytime \<Rightarrow> string \<Rightarrow> string \<Rightarrow> event_type \<Rightarrow> (string, py_value) pydict \<Rightarrow> int \<Rightarrow> market_event" where
  "MarketEvent i t inst mk ty pl pr =
     \<lparr>me_id = i, me_time = t, me_instrument = inst, me_market = mk, me_type = ty, me_payload = pl, me_priority = pr\<rparr>"

definition build_trade :: "string \<Rightarrow> pytime \<Rightarrow> string \<Rightarrow> string \<Rightarrow> pyfloat \<Rightarrow> int \<Rightarrow> pyfloat \<Rightarrow> market_event" where
  "build_trade i t inst mk price volume val =
     MarketEvent i t inst mk TRADE [(''price'', PFloat price), (''volume'', PInt volume), (''value'', PFloat val)] 1"

definition build_quote :: "string \<Rightarrow> pytime \<Rightarrow> string \<Rightarrow> string \<Rightarrow> pyfloat \<Rightarrow> pyfloat \<Rightarrow> int \<Rightarrow> int \<Rightarrow> market_event" where
  "build_quote i t inst mk bid ask bv av =
     MarketEvent i t inst mk QUOTE
       [(''bid'', PFloat bid), (''ask'', PFloat ask), (''bid_volume'', PInt bv), (''ask_volume'', PInt av)] 2"

definition build_session_event :: "string \<Rightarrow> pytime \<Rightarrow> string \<Rightarrow> string \<Rightarrow> event_type \<Rightarrow> market_event" where
  "build_session_event i t inst mk ty = MarketEvent i t inst mk ty [] 0"

definition build_auction :: "string \<Rightarrow> pytime \<Rightarrow> string \<Rightarrow> string \<Rightarrow> pyfloat \<Rightarrow> int \<Rightarrow> string \<Rightarrow> market_event" where
  "build_auction i t inst mk price volume ty =
     MarketEvent i t inst mk AUCTION
       [(''auction_price'', PFloat price), (''auction_volume'', PInt volume), (''auction_type'', PStr ty)] 0"

definition build_corporate_action ::
  "string \<Rightarrow> pytime \<Rightarrow> string \<Rightarrow> string \<Rightarrow> string \<Rightarrow> (string, py_value) pydict \<Rightarrow> market_event" where
  "build_corporate_action i t inst mk ty kwargs =
     MarketEvent i t inst mk CORPORATE_ACTION ((''action_type'', PStr ty) # kwargs) 0"

record raw_record =
  rw_event_type :: "string option"
  rw_event_id :: "string option"
  rw_timestamp :: "pytime option"
  rw_instrument :: "string option"
  rw_market :: "string option"
  rw_price :: "pyfloat option"
  rw_volume :: "int option"
  rw_value :: "pyfloat option"
  rw_bid :: "pyfloat option"
  rw_ask :: "pyfloat option"
  rw_bid_volume :: "int option"
  rw_ask_volume :: "int option"
  rw_payload :: "(string, py_value) pydict option"
  rw_priority :: "int option"

definition or_else :: "'a option \<Rightarrow> 'a \<Rightarrow> 'a" where
  "or_else x d = (case x of None \<Rightarrow> d | Some y \<Rightarrow> y)"

definition from_trade_raw :: "raw_record \<Rightarrow> py_error + market_event" where
  "from_trade_raw raw =
     (case (rw_event_id raw, rw_timestamp raw, rw_instrument raw, rw_market raw, rw_price raw, rw_volume raw) of
        (Some i, Some t, Some inst, Some mk, Some p, Some v) \<Rightarrow> Inr (build_trade i t inst mk p v (or_else (rw_value raw) 0))
      | _ \<Rightarrow> Inl KeyError)"

definition from_quote_raw :: "raw_record \<Rightarrow> py_error + market_event" where
  "from_quote_raw raw =
     (case (rw_event_id raw, rw_timestamp raw, rw_instrument raw, rw_market raw, rw_bid raw, rw_ask raw) of
        (Some i, Some t, Some inst, Some mk, Some b, Some a) \<Rightarrow>
          Inr (build_quote i t inst mk b a (or_else (rw_bid_volume raw) 0) (or_else (rw_ask_volume raw) 0))
      | _ \<Rightarrow> Inl KeyError)"

definition from_generic_raw :: "raw_record \<Rightarrow> py_error + market_event" where
  "from_generic_raw raw =
     (case (rw_event_id raw, rw_timestamp raw, rw_instrument raw, rw_market raw) of
        (Some i, Some t, Some inst, Some mk) \<Rightarrow>
          (case EventType (or_else (rw_event_type raw) ''TRADE'') of
             Inl e \<Rightarrow> Inl e
           | Inr ty \<Rightarrow> Inr (MarketEvent i t inst mk ty (or_else (rw_payload raw) []) (or_else (rw_priority raw) 5)))
      | _ \<Rightarrow> Inl KeyError)"

definition from_raw :: "raw_record \<Rightarrow> py_error + market_event" where
  "from_raw raw =
     (case EventType (or_else (rw_event_type raw) ''TRADE'') of
        Inl e \<Rightarrow> Inl e
      | Inr ty \<Rightarrow> if ty = TRADE then from_trade_raw raw else if ty = QUOTE then from_quote_raw raw else from_generic_raw raw)"

subsection \<open>The timeline\<close>

record timeline =
  tl_events :: "market_event list"
  tl_sorted :: bool

definition timeline_init :: timeline where
  "timeline_init = \<lparr>tl_events = [], tl_sorted = True\<rparr>"

definition add_event :: "market_event \<Rightarrow> timeline \<Rightarrow> timeline" where
  "add_event e tm = tm\<lparr>tl_events := tl_events tm @ [e], tl_sorted := False\<rparr>"

definition add_events :: "market_event list \<Rightarrow> timeline \<Rightarrow> timeline" where
  "add_events es tm = tm\<lparr>tl_events := tl_events tm @ es, tl_sorted := False\<rparr>"

definition event_key :: "market_event \<Rightarrow> pytime \<times> int" where
  "event_key e = (me_time e, me_priority e)"

definition ensure_sorted :: "timeline \<Rightarrow> timeline" where
  "ensure_sorted tm =
     (if \<not> tl_sorted tm then tm\<lparr>tl_events := sort_key event_key (tl_events tm), tl_sorted := True\<rparr> else tm)"

definition tl_iter :: "timeline \<Rightarrow> market_event list \<times> timeline" where
  "tl_iter tm = (let tl1 = ensure_sorted tm in (tl_events tl1, tl1))"

definition tl_len :: "timeline \<Rightarrow> nat" where
  "tl_len tm = length (tl_events tm)"

function batches :: "nat \<Rightarrow> 'a list \<Rightarrow> 'a list list" where
  \<comment> \<open>the slices \<open>xs[i : i + n]\<close> for \<open>i\<close> in \<open>range(0, len(xs), n)\<close>\<close>
  "batches n xs = (if xs = [] \<or> n = 0 then [] else take n xs # batches n (drop n xs))"
  by pat_completeness auto
termination
  by (relation "measure (\<lambda>(n, xs). length xs)") auto

declare batches.simps [simp del]

definition tl_stream :: "int \<Rightarrow> timeline \<Rightarrow> (py_error + market_event list list) \<times> timeline" where
  \<comment> \<open>a zero step raises, with a negative one the range is empty\<close>
  "tl_stream n tm =
     (let tl1 = ensure_sorted tm
      in (if n = 0 then Inl ValueError else if n < 0 then Inr [] else Inr (batches (nat n) (tl_events tl1)), tl1))"

definition filter_events :: "(market_event \<Rightarrow> bool) \<Rightarrow> timeline \<Rightarrow> timeline" where
  "filter_events P tm = \<lparr>tl_events = filter P (tl_events tm), tl_sorted = tl_sorted tm\<rparr>"

definition filter_by_instrument :: "string \<Rightarrow> timeline \<Rightarrow> timeline" where
  "filter_by_instrument i = filter_events (\<lambda>e. me_instrument e = i)"

definition filter_by_market :: "string \<Rightarrow> timeline \<Rightarrow> timeline" where
  "filter_by_market mk = filter_events (\<lambda>e. me_market e = mk)"

definition filter_by_type :: "string \<Rightarrow> timeline \<Rightarrow> timeline" where
  "filter_by_type ty = filter_events (\<lambda>e. event_type_str (me_type e) = ty)"

definition filter_by_time_range :: "pytime \<Rightarrow> pytime \<Rightarrow> timeline \<Rightarrow> timeline" where
  "filter_by_time_range a b = filter_events (\<lambda>e. a \<le> me_time e \<and> me_time e \<le> b)"

record timeline_stats =
  total_events :: nat
  event_counts :: "(string, nat) pydict"
  instrument_counts :: "(string, nat) pydict"
  market_counts :: "(string, nat) pydict"
  span_start :: "pytime option"
  span_end :: "pytime option"

definition bump :: "string \<Rightarrow> (string, nat) pydict \<Rightarrow> (string, nat) pydict" where
  "bump k d = dict_set k (dict_get_or d k 0 + 1) d"

definition get_stats :: "timeline \<Rightarrow> timeline_stats \<times> timeline" where
  "get_stats tm =
     (let tl1 = ensure_sorted tm; es = tl_events tl1
      in (\<lparr>total_events = length es,
           event_counts = fold (\<lambda>e. bump (event_type_str (me_type e))) es [],
           instrument_counts = fold (\<lambda>e. bump (me_instrument e)) es [],
           market_counts = fold (\<lambda>e. bump (me_market e)) es [],
           span_start = (if es = [] then None else Some (me_time (hd es))),
           span_end = (if es = [] then None else Some (me_time (List.last es)))\<rparr>, tl1))"

definition tl_clear :: "timeline \<Rightarrow> timeline" where
  "tl_clear tm = tm\<lparr>tl_events := [], tl_sorted := True\<rparr>"

subsection \<open>The event bus\<close>

record 'h event_bus =
  subscribers :: "(string, 'h list) pydict"
  bus_history :: "market_event list"

definition bus_max_history :: nat where "bus_max_history = 1000"

definition bus_init :: "'h event_bus" where
  "bus_init = \<lparr>subscribers = [], bus_history = []\<rparr>"

definition subscribe :: "string \<Rightarrow> 'h \<Rightarrow> 'h event_bus \<Rightarrow> 'h event_bus" where
  "subscribe ty h bus = bus\<lparr>subscribers := dict_set ty (dict_get_or (subscribers bus) ty [] @ [h]) (subscribers bus)\<rparr>"

definition subscribe_all :: "'h \<Rightarrow> 'h event_bus \<Rightarrow> 'h event_bus" where
  "subscribe_all h = subscribe ''*'' h"

definition unsubscribe :: "string \<Rightarrow> 'h \<Rightarrow> 'h event_bus \<Rightarrow> 'h event_bus" where
  "unsubscribe ty h bus =
     (case dict_get (subscribers bus) ty of
        None \<Rightarrow> bus
      | Some hs \<Rightarrow> if h \<in> set hs then bus\<lparr>subscribers := dict_set ty (remove1 h hs) (subscribers bus)\<rparr> else bus)"

definition bus_publish :: "('h \<Rightarrow> market_event \<Rightarrow> 'w \<Rightarrow> 'w) \<Rightarrow> market_event \<Rightarrow> 'h event_bus \<times> 'w \<Rightarrow> 'h event_bus \<times> 'w" where
  "bus_publish call e st =
     (case st of (bus, w) \<Rightarrow>
        (let h = bus_history bus @ [e];
             w1 = fold (\<lambda>hd. call hd e) (dict_get_or (subscribers bus) (event_type_str (me_type e)) []) w;
             w2 = fold (\<lambda>hd. call hd e) (dict_get_or (subscribers bus) ''*'' []) w1
         in (bus\<lparr>bus_history := (if length h > bus_max_history then List.tl h else h)\<rparr>, w2)))"

definition publish_batch ::
  "('h \<Rightarrow> market_event \<Rightarrow> 'w \<Rightarrow> 'w) \<Rightarrow> market_event list \<Rightarrow> 'h event_bus \<times> 'w \<Rightarrow> 'h event_bus \<times> 'w" where
  "publish_batch call es st = fold (bus_publish call) es st"

definition bus_clear :: "'h event_bus \<Rightarrow> 'h event_bus" where
  "bus_clear bus = bus\<lparr>subscribers := [], bus_history := []\<rparr>"

definition subscriber_count :: "'h event_bus \<Rightarrow> nat" where
  "subscriber_count bus = sum_list (map (\<lambda>(ty, hs). length hs) (subscribers bus))"

subsection \<open>Clock and bar loop\<close>

record 'l clock =
  clk_now :: pytime
  clk_start :: pytime
  clk_end :: pytime
  clk_listeners :: "'l list"

definition clock_init :: "pytime \<Rightarrow> pytime option \<Rightarrow> pytime option \<Rightarrow> 'l clock" where
  "clock_init now start fin =
     (let n = or_else start now
      in \<lparr>clk_now = n, clk_start = n, clk_end = or_else fin (n + 365 * 86400), clk_listeners = []\<rparr>)"

definition clock_tick :: "('l \<Rightarrow> pytime \<Rightarrow> 'w \<Rightarrow> 'w) \<Rightarrow> pytime \<Rightarrow> 'l clock \<times> 'w \<Rightarrow> 'l clock \<times> 'w" where
  "clock_tick call delta st =
     (case st of (c, w) \<Rightarrow>
        (let c1 = c\<lparr>clk_now := clk_now c + delta\<rparr> in (c1, fold (\<lambda>l. call l (clk_now c1)) (clk_listeners c1) w)))"

definition jump_to :: "pytime \<Rightarrow> 'l clock \<Rightarrow> 'l clock" where
  "jump_to t c = c\<lparr>clk_now := t\<rparr>"

definition on_tick :: "'l \<Rightarrow> 'l clock \<Rightarrow> 'l clock" where
  "on_tick l c = c\<lparr>clk_listeners := clk_listeners c @ [l]\<rparr>"

definition clock_reset :: "'l clock \<Rightarrow> 'l clock" where
  "clock_reset c = c\<lparr>clk_now := clk_start c\<rparr>"

definition is_market_open :: "int \<Rightarrow> (int \<times> int) option \<Rightarrow> (int \<times> int) option \<Rightarrow> py_error + bool" where
  \<comment> \<open>the time of day in microseconds and the two \<open>H:M\<close> strings as numbers, \<open>None\<close> when they are not two
    integers; \<open>replace(second=0)\<close> keeps the microseconds of the time\<close>
  "is_market_open t op cl =
     (case (op, cl) of
        (Some (oh, om), Some (ch, cm)) \<Rightarrow>
          if \<not> (0 \<le> oh \<and> oh < 24 \<and> 0 \<le> om \<and> om < 60) then Inl ValueError
          else if \<not> (0 \<le> ch \<and> ch < 24 \<and> 0 \<le> cm \<and> cm < 60) then Inl ValueError
          else (let us = t mod 1000000; ot = (oh * 60 + om) * 60000000 + us; ct = (ch * 60 + cm) * 60000000 + us
                in Inr (ot \<le> t \<and> t \<le> ct))
      | _ \<Rightarrow> Inl ValueError)"

record ('h, 'l) event_loop =
  lp_clock :: "'l clock"
  lp_handlers :: "(string, 'h list) pydict"
  lp_running :: bool

definition loop_on :: "string \<Rightarrow> 'h \<Rightarrow> ('h, 'l) event_loop \<Rightarrow> ('h, 'l) event_loop" where
  "loop_on ty h lp = lp\<lparr>lp_handlers := dict_set ty (dict_get_or (lp_handlers lp) ty [] @ [h]) (lp_handlers lp)\<rparr>"

definition loop_emit ::
  "('h \<Rightarrow> 'b \<Rightarrow> ('h, 'l) event_loop \<times> 'w \<Rightarrow> ('h, 'l) event_loop \<times> 'w) \<Rightarrow> string \<Rightarrow> 'b \<Rightarrow>
     ('h, 'l) event_loop \<times> 'w \<Rightarrow> ('h, 'l) event_loop \<times> 'w" where
  \<comment> \<open>a handler may stop the loop\<close>
  "loop_emit run ty bar st = fold (\<lambda>h. run h bar) (dict_get_or (lp_handlers (fst st)) ty []) st"

fun loop_bars ::
  "('h \<Rightarrow> 'b \<Rightarrow> ('h, 'l) event_loop \<times> 'w \<Rightarrow> ('h, 'l) event_loop \<times> 'w) \<Rightarrow> ('l \<Rightarrow> pytime \<Rightarrow> 'w \<Rightarrow> 'w) \<Rightarrow> ('b \<Rightarrow> bool) \<Rightarrow>
     'b list \<Rightarrow> ('h, 'l) event_loop \<times> 'w \<Rightarrow> ('h, 'l) event_loop \<times> 'w" where
  "loop_bars run tick has_prices [] st = st"
| "loop_bars run tick has_prices (bar # bars) (lp, w) =
     (if \<not> lp_running lp then (lp, w)
      else
        (let (c1, w1) = clock_tick tick 86400 (lp_clock lp, w);
             st1 = loop_emit run ''bar'' bar (lp\<lparr>lp_clock := c1\<rparr>, w1);
             st2 = (if has_prices bar then loop_emit run ''market_data'' bar st1 else st1)
         in loop_bars run tick has_prices bars st2))"

definition loop_run ::
  "('h \<Rightarrow> 'b \<Rightarrow> ('h, 'l) event_loop \<times> 'w \<Rightarrow> ('h, 'l) event_loop \<times> 'w) \<Rightarrow> ('l \<Rightarrow> pytime \<Rightarrow> 'w \<Rightarrow> 'w) \<Rightarrow> ('b \<Rightarrow> bool) \<Rightarrow>
     'b list \<Rightarrow> ('h, 'l) event_loop \<times> 'w \<Rightarrow> ('h, 'l) event_loop \<times> 'w" where
  "loop_run run tick has_prices bars st =
     (case st of (lp, w) \<Rightarrow> loop_bars run tick has_prices bars (lp\<lparr>lp_running := True\<rparr>, w))"

definition loop_stop :: "('h, 'l) event_loop \<Rightarrow> ('h, 'l) event_loop" where
  "loop_stop lp = lp\<lparr>lp_running := False\<rparr>"

definition loop_reset :: "('h, 'l) event_loop \<Rightarrow> ('h, 'l) event_loop" where
  "loop_reset lp = lp\<lparr>lp_clock := clock_reset (lp_clock lp), lp_handlers := [], lp_running := False\<rparr>"

subsection \<open>Lemmas\<close>

lemma EventType_str [simp]: "EventType (event_type_str t) = Inr t"
  by (cases t) (simp_all add: EventType_def all_event_types_def)

lemma event_before_key: "event_before a b \<longleftrightarrow> event_key a < event_key b"
  by (auto simp: event_before_def event_key_def)

definition timeline_ok :: "timeline \<Rightarrow> bool" where
  "timeline_ok tm \<longleftrightarrow> (tl_sorted tm \<longrightarrow> sorted (map event_key (tl_events tm)))"

lemma timeline_ok_init [simp]: "timeline_ok timeline_init"
  by (simp add: timeline_ok_def timeline_init_def)

lemma timeline_ok_ops [simp]:
  "timeline_ok (add_event e tm)" "timeline_ok (add_events es tm)" "timeline_ok (tl_clear tm)"
  by (simp_all add: timeline_ok_def add_event_def add_events_def tl_clear_def)

lemma timeline_ok_filter [simp]: "timeline_ok tm \<Longrightarrow> timeline_ok (filter_events P tm)"
  by (auto simp: timeline_ok_def filter_events_def sorted_filter)

lemma ensure_sorted_events: "timeline_ok tm \<Longrightarrow> tl_events (ensure_sorted tm) = sort_key event_key (tl_events tm)"
  by (auto simp: ensure_sorted_def timeline_ok_def sort_key_id_if_sorted sorted_map)

lemma concat_batches: "0 < n \<Longrightarrow> concat (batches n xs) = xs"
  by (induction n xs rule: batches.induct) (subst batches.simps, simp)

lemma batches_bounded: "b \<in> set (batches n xs) \<Longrightarrow> b \<noteq> [] \<and> length b \<le> n"
proof (induction n xs rule: batches.induct)
  case (1 n xs)
  then show ?case by (subst (asm) (2) batches.simps) (auto split: if_splits)
qed

text \<open>A timeline reads in time order: whatever was added and whenever it was sorted, iterating yields
  the events as a stable sort by time and priority, the batches are that sequence cut in pieces of at
  most the batch size, and filtering before or after sorting is the same.\<close>

lemma timeline_reads_in_order:
  assumes "timeline_ok tm"
  shows "fst (tl_iter tm) = sort_key event_key (tl_events tm)
    \<and> (0 < n \<longrightarrow> (\<exists>bs. fst (tl_stream n tm) = Inr bs \<and> concat bs = fst (tl_iter tm) \<and> (\<forall>b \<in> set bs. b \<noteq> [] \<and> int (length b) \<le> n)))
    \<and> fst (tl_iter (filter_events P tm)) = filter P (fst (tl_iter tm))"
proof -
  have it: "fst (tl_iter tm) = sort_key event_key (tl_events tm)"
    using assms by (simp add: tl_iter_def ensure_sorted_events)
  have "fst (tl_iter (filter_events P tm)) = sort_key event_key (filter P (tl_events tm))"
    using assms by (simp add: tl_iter_def ensure_sorted_events) (simp add: filter_events_def)
  also have "\<dots> = filter P (fst (tl_iter tm))" by (simp add: it filter_sort)
  finally have f: "fst (tl_iter (filter_events P tm)) = filter P (fst (tl_iter tm))" .
  have "\<exists>bs. fst (tl_stream n tm) = Inr bs \<and> concat bs = fst (tl_iter tm) \<and> (\<forall>b \<in> set bs. b \<noteq> [] \<and> int (length b) \<le> n)" if "0 < n"
  proof (intro exI conjI)
    show "fst (tl_stream n tm) = Inr (batches (nat n) (tl_events (ensure_sorted tm)))"
      using that by (simp add: tl_stream_def Let_def)
    show "concat (batches (nat n) (tl_events (ensure_sorted tm))) = fst (tl_iter tm)"
      using that by (simp add: concat_batches tl_iter_def Let_def)
    show "\<forall>b \<in> set (batches (nat n) (tl_events (ensure_sorted tm))). b \<noteq> [] \<and> int (length b) \<le> n"
      using batches_bounded that by fastforce
  qed
  with it f show ?thesis by blast
qed

lemma negative_batch_drops_all:
  \<comment> \<open>a negative batch size yields nothing and reports nothing\<close>
  "n < 0 \<Longrightarrow> fst (tl_stream n tm) = Inr []"
  by (simp add: tl_stream_def Let_def)

lemma publish_history:
  "bus_history (fst (bus_publish call e (b, w))) =
     (if length (bus_history b @ [e]) > bus_max_history then List.tl (bus_history b @ [e]) else bus_history b @ [e])"
  by (simp add: bus_publish_def Let_def)

lemma bus_history_recent:
  "bus_history (fst (publish_batch call es (bus, w))) =
     drop (length (bus_history bus) + length es - bus_max_history) (bus_history bus @ es)"
  if "length (bus_history bus) \<le> bus_max_history"
  unfolding publish_batch_def
proof (induction es rule: rev_induct)
  case (snoc e es)
  obtain b w1 where f: "fold (bus_publish call) es (bus, w) = (b, w1)" by (cases "fold (bus_publish call) es (bus, w)")
  let ?n = "length (bus_history bus) + length es"
  have h: "bus_history b = drop (?n - bus_max_history) (bus_history bus @ es)" using snoc f by simp
  then have l: "length (bus_history b) = ?n - (?n - bus_max_history)" by simp
  show ?case
  proof (cases "?n < bus_max_history")
    case True
    then show ?thesis using h l by (simp add: f publish_history)
  next
    case False
    then have "length (bus_history b) = bus_max_history" using l by simp
    then have "bus_history (fst (fold (bus_publish call) (es @ [e]) (bus, w))) = List.tl (bus_history b @ [e])"
      by (simp add: f publish_history)
    also have "bus_history b @ [e] = drop (?n - bus_max_history) ((bus_history bus @ es) @ [e])"
      unfolding h by (subst drop_append [of _ _ "[e]"]) simp
    also have "List.tl \<dots> = drop (Suc (?n - bus_max_history)) ((bus_history bus @ es) @ [e])"
      by (simp only: drop_Suc tl_drop)
    finally show ?thesis using False by (simp add: Suc_diff_le)
  qed
qed (use that in simp)

lemma market_open_by_seconds:
  assumes "0 \<le> oh" "oh < 24" "0 \<le> om" "om < 60" "0 \<le> ch" "ch < 24" "0 \<le> cm" "cm < 60"
  shows "is_market_open t (Some (oh, om)) (Some (ch, cm)) =
    Inr ((oh * 60 + om) * 60 \<le> t div 1000000 \<and> t div 1000000 \<le> (ch * 60 + cm) * 60)"
proof -
  have d: "t = t div 1000000 * 1000000 + t mod 1000000" by simp
  have A: "a * 60000000 + t mod 1000000 \<le> t \<longleftrightarrow> a * 60 \<le> t div 1000000" for a by (subst (2) d) linarith
  have B: "t \<le> a * 60000000 + t mod 1000000 \<longleftrightarrow> t div 1000000 \<le> a * 60" for a by (subst (1) d) linarith
  show ?thesis using assms A [of "oh * 60 + om"] B [of "ch * 60 + cm"] by (simp add: is_market_open_def Let_def)
qed

lemma loop_clock:
  assumes "\<And>h b st. lp_clock (fst (run h b st)) = lp_clock (fst st) \<and> lp_running (fst (run h b st)) = lp_running (fst st)"
    and "lp_running lp"
  shows "clk_now (lp_clock (fst (loop_bars run tick P bars (lp, w)))) = clk_now (lp_clock lp) + 86400 * of_nat (length bars)"
  using assms(2)
proof (induction bars arbitrary: lp w)
  case (Cons bar bars)
  have emit: "lp_clock (fst (loop_emit run ty bar st)) = lp_clock (fst st) \<and> lp_running (fst (loop_emit run ty bar st)) = lp_running (fst st)"
    for ty st
  proof -
    have "lp_clock (fst (fold (\<lambda>h. run h bar) hs st)) = lp_clock (fst st) \<and> lp_running (fst (fold (\<lambda>h. run h bar) hs st)) = lp_running (fst st)"
      for hs by (induction hs arbitrary: st) (simp_all add: assms(1))
    then show ?thesis by (simp add: loop_emit_def)
  qed
  obtain c1 w1 where c: "clock_tick tick 86400 (lp_clock lp, w) = (c1, w1)" by (cases "clock_tick tick 86400 (lp_clock lp, w)")
  then have n: "clk_now c1 = clk_now (lp_clock lp) + 86400" by (auto simp: clock_tick_def Let_def)
  define st2 where "st2 = (if P bar then loop_emit run ''market_data'' bar (loop_emit run ''bar'' bar (lp\<lparr>lp_clock := c1\<rparr>, w1))
    else loop_emit run ''bar'' bar (lp\<lparr>lp_clock := c1\<rparr>, w1))"
  have "lp_clock (fst st2) = c1" "lp_running (fst st2)" using Cons.prems by (simp_all add: st2_def emit)
  with Cons.IH [of "fst st2" "snd st2"] n show ?case
    using Cons.prems by (simp add: c st2_def [symmetric] algebra_simps)
qed simp

end
