(* ===== verification/Order_Matching.thy ===== *)
theory Order_Matching
  imports Prelude "HOL-Library.Product_Lexorder"
begin

text \<open>
  The list-based matching engine (\<open>backtesting/engine/order_matching.py\<close>): two lists of entries kept
  sorted by price (a stable sort, so first come first served at a price), matched while the best
  prices meet. An entry leaves the book when nothing remains of it; the clock is an argument.
\<close>

subsection \<open>State and operations\<close>

record book_entry =
  be_id :: string
  be_buy :: bool
  be_price :: pyfloat
  be_quantity :: int
  be_remaining :: int
  be_timestamp :: pytime

record match_trade =
  mt_buy :: string
  mt_sell :: string
  mt_price :: pyfloat
  mt_quantity :: int
  mt_time :: pytime

record matching =
  mb_bids :: "book_entry list"
  mb_asks :: "book_entry list"
  mb_trades :: "match_trade list"
  mb_last_price :: pyfloat

definition matching_init :: matching where
  "matching_init = \<lparr>mb_bids = [], mb_asks = [], mb_trades = [], mb_last_price = 0\<rparr>"

definition reduce_first :: "int \<Rightarrow> book_entry list \<Rightarrow> book_entry list" where
  \<comment> \<open>take the quantity off the first entry and drop it when nothing remains\<close>
  "reduce_first q es =
     (case es of
        [] \<Rightarrow> []
      | e # es' \<Rightarrow> (let e' = e\<lparr>be_remaining := be_remaining e - q\<rparr> in if be_remaining e' \<le> 0 then es' else e' # es'))"

function match_entries ::
  "pytime \<Rightarrow> book_entry list \<Rightarrow> book_entry list \<Rightarrow> match_trade list \<times> book_entry list \<times> book_entry list" where
  "match_entries now bids asks =
     (case (bids, asks) of
        (b # bs, a # as) \<Rightarrow>
          if be_price b < be_price a then ([], bids, asks)
          else
            (let q = min (be_remaining b) (be_remaining a);
                 t = \<lparr>mt_buy = be_id b, mt_sell = be_id a, mt_price = be_price a, mt_quantity = q, mt_time = now\<rparr>;
                 (ts, bids1, asks1) = match_entries now (reduce_first q bids) (reduce_first q asks)
             in (t # ts, bids1, asks1))
      | _ \<Rightarrow> ([], bids, asks))"
  by pat_completeness auto
termination
  by (relation "measure (\<lambda>(now, bids, asks). length bids + length asks)") (auto simp: reduce_first_def Let_def min_def)

declare match_entries.simps [simp del]

definition add_order :: "pytime \<Rightarrow> book_entry \<Rightarrow> matching \<Rightarrow> match_trade list \<times> matching" where
  "add_order now e mb =
     (let bids = (if be_buy e then sort_key (\<lambda>x. - be_price x) (mb_bids mb @ [e]) else mb_bids mb);
          asks = (if be_buy e then mb_asks mb else sort_key be_price (mb_asks mb @ [e]));
          (ts, bids1, asks1) = match_entries now bids asks
      in (ts, mb\<lparr>mb_bids := bids1, mb_asks := asks1, mb_trades := mb_trades mb @ ts,
                mb_last_price := (if ts = [] then mb_last_price mb else mt_price (List.last ts))\<rparr>))"

definition get_last_price :: "matching \<Rightarrow> pyfloat" where
  "get_last_price mb = mb_last_price mb"

definition get_order_book_depth :: "int \<Rightarrow> matching \<Rightarrow> (pyfloat \<times> int) list \<times> (pyfloat \<times> int) list" where
  "get_order_book_depth levels mb =
     (map (\<lambda>e. (be_price e, be_remaining e)) (slice_to levels (mb_bids mb)),
      map (\<lambda>e. (be_price e, be_remaining e)) (slice_to levels (mb_asks mb)))"

definition matching_reset :: "matching \<Rightarrow> matching" where
  "matching_reset mb = mb\<lparr>mb_bids := [], mb_asks := [], mb_trades := [], mb_last_price := 0\<rparr>"

subsection \<open>One matching pass\<close>

definition left :: "string \<Rightarrow> book_entry list \<Rightarrow> int" where
  "left i es = sum_list (map (\<lambda>e. if be_id e = i then be_remaining e else 0) es)"

definition bought :: "string \<Rightarrow> match_trade list \<Rightarrow> int" where
  "bought i ts = sum_list (map (\<lambda>t. if mt_buy t = i then mt_quantity t else 0) ts)"

definition sold :: "string \<Rightarrow> match_trade list \<Rightarrow> int" where
  "sold i ts = sum_list (map (\<lambda>t. if mt_sell t = i then mt_quantity t else 0) ts)"

definition entries_ok :: "book_entry list \<Rightarrow> bool" where
  "entries_ok es \<longleftrightarrow> (\<forall>e \<in> set es. 0 < be_remaining e)"

definition uncrossed :: "book_entry list \<Rightarrow> book_entry list \<Rightarrow> bool" where
  "uncrossed bids asks \<longleftrightarrow> (bids = [] \<or> asks = [] \<or> be_price (hd bids) < be_price (hd asks))"

lemma left_mset: "left i es = sum_mset (image_mset (\<lambda>e. if be_id e = i then be_remaining e else 0) (mset es))"
  by (simp add: left_def flip: sum_mset_sum_list)

lemma reduce_first_left:
  assumes "es \<noteq> []" "q \<le> be_remaining (hd es)"
  shows "left i (reduce_first q es) = left i es - (if be_id (hd es) = i then q else 0)"
  using assms by (cases es) (auto simp: reduce_first_def left_def Let_def)

lemma reduce_first_ok: "entries_ok es \<Longrightarrow> entries_ok (reduce_first q es)"
  by (cases es) (auto simp: reduce_first_def entries_ok_def Let_def)

lemma reduce_first_sorted:
  fixes f :: "book_entry \<Rightarrow> pyfloat"
  assumes "\<And>e q. f (e\<lparr>be_remaining := q\<rparr>) = f e"
  shows "sorted (map f es) \<Longrightarrow> sorted (map f (reduce_first q es))"
  using assms by (cases es) (auto simp: reduce_first_def Let_def)

lemma match_entries_step:
  assumes "match_entries now bids asks = (ts, bids1, asks1)"
  obtains (quiet) "ts = []" "bids1 = bids" "asks1 = asks" "uncrossed bids asks"
    | (trade) b bs a as ts' where "bids = b # bs" "asks = a # as" "\<not> be_price b < be_price a"
      "match_entries now (reduce_first (min (be_remaining b) (be_remaining a)) bids)
         (reduce_first (min (be_remaining b) (be_remaining a)) asks) = (ts', bids1, asks1)"
      "ts = \<lparr>mt_buy = be_id b, mt_sell = be_id a, mt_price = be_price a,
             mt_quantity = min (be_remaining b) (be_remaining a), mt_time = now\<rparr> # ts'"
proof (cases "bids = [] \<or> asks = [] \<or> be_price (hd bids) < be_price (hd asks)")
  case True
  then have "match_entries now bids asks = ([], bids, asks)"
    by (subst match_entries.simps) (auto split: list.split)
  with assms True quiet show ?thesis by (auto simp: uncrossed_def)
next
  case False
  then obtain b bs a as where ba: "bids = b # bs" "asks = a # as" by (metis list.exhaust)
  let ?q = "min (be_remaining b) (be_remaining a)"
  obtain ts' bids2 asks2 where r: "match_entries now (reduce_first ?q bids) (reduce_first ?q asks) = (ts', bids2, asks2)"
    by (metis prod_cases3)
  have "match_entries now bids asks = (\<lparr>mt_buy = be_id b, mt_sell = be_id a, mt_price = be_price a,
      mt_quantity = ?q, mt_time = now\<rparr> # ts', bids2, asks2)"
    using False ba r by (subst match_entries.simps) (simp add: Let_def)
  with assms False ba r trade show ?thesis by auto
qed

definition priced :: "book_entry list \<Rightarrow> (string \<times> pyfloat) set" where
  "priced es = (\<lambda>e. (be_id e, be_price e)) ` set es"

lemma priced_reduce: "priced (reduce_first q es) \<subseteq> priced es"
  by (cases es) (auto simp: priced_def reduce_first_def Let_def)

definition trade_ok :: "(string \<times> pyfloat) set \<Rightarrow> (string \<times> pyfloat) set \<Rightarrow> match_trade \<Rightarrow> bool" where
  \<comment> \<open>a positive quantity between a bid at or above the price and an ask at the price\<close>
  "trade_ok buys sells t \<longleftrightarrow> 0 < mt_quantity t \<and> (\<exists>p. (mt_buy t, p) \<in> buys \<and> mt_price t \<le> p) \<and> (mt_sell t, mt_price t) \<in> sells"

lemma trade_ok_mono: "trade_ok B S t \<Longrightarrow> B \<subseteq> B' \<Longrightarrow> S \<subseteq> S' \<Longrightarrow> trade_ok B' S' t"
  by (auto simp: trade_ok_def)

definition pass_ok ::
  "book_entry list \<Rightarrow> book_entry list \<Rightarrow> match_trade list \<Rightarrow> book_entry list \<Rightarrow> book_entry list \<Rightarrow> bool" where
  "pass_ok bids asks ts bids1 asks1 \<longleftrightarrow>
     uncrossed bids1 asks1 \<and> entries_ok bids1 \<and> entries_ok asks1
     \<and> sorted (map (\<lambda>e. - be_price e) bids1) \<and> sorted (map be_price asks1)
     \<and> (\<forall>i. left i bids1 + bought i ts = left i bids \<and> left i asks1 + sold i ts = left i asks)
     \<and> priced bids1 \<subseteq> priced bids \<and> priced asks1 \<subseteq> priced asks
     \<and> (\<forall>t \<in> set ts. trade_ok (priced bids) (priced asks) t)"

lemma match_entries_spec:
  assumes "match_entries now bids asks = (ts, bids1, asks1)" "entries_ok bids" "entries_ok asks"
    "sorted (map (\<lambda>e. - be_price e) bids)" "sorted (map be_price asks)"
  shows "pass_ok bids asks ts bids1 asks1"
  using assms
proof (induction now bids asks arbitrary: ts rule: match_entries.induct)
  case (1 now bids asks)
  from "1.prems"(1) show ?case
  proof (cases rule: match_entries_step)
    case quiet
    with "1.prems" show ?thesis by (simp add: pass_ok_def bought_def sold_def)
  next
    case (trade b bs a as ts')
    let ?q = "min (be_remaining b) (be_remaining a)"
    let ?t = "\<lparr>mt_buy = be_id b, mt_sell = be_id a, mt_price = be_price a, mt_quantity = ?q, mt_time = now\<rparr>"
    have q: "0 < ?q" using "1.prems"(2,3) trade(1,2) by (simp add: entries_ok_def)
    have ih: "pass_ok (reduce_first ?q bids) (reduce_first ?q asks) ts' bids1 asks1"
      using "1.prems" by (intro "1.IH" [OF refl trade(1,2,3) refl refl trade(4)]) (simp_all add: reduce_first_ok reduce_first_sorted)
    have t: "trade_ok (priced bids) (priced asks) ?t"
      using q trade(1-3) by (auto simp: trade_ok_def priced_def)
    have later: "\<forall>u \<in> set ts'. trade_ok (priced bids) (priced asks) u"
      using ih trade_ok_mono [OF _ priced_reduce priced_reduce] by (auto simp: pass_ok_def)
    have sums: "left i bids1 + bought i ts = left i bids \<and> left i asks1 + sold i ts = left i asks" for i
    proof -
      have "left i bids1 + bought i ts' = left i (reduce_first ?q bids)" "left i asks1 + sold i ts' = left i (reduce_first ?q asks)"
        using ih by (simp_all add: pass_ok_def)
      moreover have "left i (reduce_first ?q bids) = left i bids - (if be_id b = i then ?q else 0)"
        using reduce_first_left [of bids ?q i] trade(1) by simp
      moreover have "left i (reduce_first ?q asks) = left i asks - (if be_id a = i then ?q else 0)"
        using reduce_first_left [of asks ?q i] trade(2) by simp
      moreover have "bought i ts = (if be_id b = i then ?q else 0) + bought i ts'" "sold i ts = (if be_id a = i then ?q else 0) + sold i ts'"
        by (simp_all add: trade(5) bought_def sold_def)
      ultimately show ?thesis by linarith
    qed
    have "priced bids1 \<subseteq> priced bids" "priced asks1 \<subseteq> priced asks"
      using ih priced_reduce order_trans unfolding pass_ok_def by metis+
    with ih t later sums show ?thesis unfolding pass_ok_def trade(5) by simp
  qed
qed

subsection \<open>Histories\<close>

definition book_ok :: "(pytime \<times> book_entry) list \<Rightarrow> matching \<Rightarrow> bool" where
  "book_ok hist mb \<longleftrightarrow>
     (let buys = map snd (filter (\<lambda>(t, e). be_buy e) hist); sells = map snd (filter (\<lambda>(t, e). \<not> be_buy e) hist)
      in pass_ok buys sells (mb_trades mb) (mb_bids mb) (mb_asks mb))"

lemma pass_ok_trans:
  assumes "pass_ok buys sells ts bids asks" and "pass_ok bids' asks' us bids1 asks1"
    and "\<And>i. left i bids' = left i bids + left i newb" "\<And>i. left i asks' = left i asks + left i newa"
    and "priced bids' = priced bids \<union> priced newb" "priced asks' = priced asks \<union> priced newa"
  shows "pass_ok (buys @ newb) (sells @ newa) (ts @ us) bids1 asks1"
proof -
  have p: "priced (xs @ ys) = priced xs \<union> priced ys" for xs ys by (auto simp: priced_def)
  have l: "left i (xs @ ys) = left i xs + left i ys" for i xs ys by (simp add: left_def)
  have app: "bought i (ts @ us) = bought i ts + bought i us" "sold i (ts @ us) = sold i ts + sold i us" for i
    by (simp_all add: bought_def sold_def)
  have sums: "left i bids1 + bought i (ts @ us) = left i (buys @ newb) \<and> left i asks1 + sold i (ts @ us) = left i (sells @ newa)" for i
  proof -
    have "left i bids + bought i ts = left i buys" "left i asks + sold i ts = left i sells"
      using assms(1) by (simp_all add: pass_ok_def)
    moreover have "left i bids1 + bought i us = left i bids'" "left i asks1 + sold i us = left i asks'"
      using assms(2) by (simp_all add: pass_ok_def)
    ultimately show ?thesis using assms(3,4) [of i] app [of i] by (simp add: l)
  qed
  have sub: "priced bids' \<subseteq> priced (buys @ newb)" "priced asks' \<subseteq> priced (sells @ newa)"
    using assms(1,5,6) by (auto simp: pass_ok_def p)
  have "trade_ok (priced (buys @ newb)) (priced (sells @ newa)) t" if t: "t \<in> set (ts @ us)" for t
  proof -
    consider "t \<in> set ts" | "t \<in> set us" using t by auto
    then show ?thesis
    proof cases
      case 1
      then have "trade_ok (priced buys) (priced sells) t" using assms(1) by (simp add: pass_ok_def)
      then show ?thesis by (rule trade_ok_mono) (auto simp: p)
    next
      case 2
      then have "trade_ok (priced bids') (priced asks') t" using assms(2) by (simp add: pass_ok_def)
      then show ?thesis by (rule trade_ok_mono [OF _ sub])
    qed
  qed
  with sums sub assms(2) show ?thesis by (auto simp: pass_ok_def)
qed

lemma add_order_book_ok:
  assumes "book_ok hist mb" "0 < be_remaining e"
  shows "book_ok (hist @ [(t, e)]) (snd (add_order t e mb))"
proof -
  define bids where "bids = (if be_buy e then sort_key (\<lambda>x. - be_price x) (mb_bids mb @ [e]) else mb_bids mb)"
  define asks where "asks = (if be_buy e then mb_asks mb else sort_key be_price (mb_asks mb @ [e]))"
  obtain ts bids1 asks1 where m: "match_entries t bids asks = (ts, bids1, asks1)" by (metis prod_cases3)
  have st: "snd (add_order t e mb) = mb\<lparr>mb_bids := bids1, mb_asks := asks1, mb_trades := mb_trades mb @ ts,
      mb_last_price := (if ts = [] then mb_last_price mb else mt_price (List.last ts))\<rparr>"
    using m by (simp add: add_order_def bids_def asks_def Let_def)
  have old: "entries_ok (mb_bids mb)" "entries_ok (mb_asks mb)" "sorted (map (\<lambda>e. - be_price e) (mb_bids mb))"
      "sorted (map be_price (mb_asks mb))"
    using assms(1) by (simp_all add: book_ok_def pass_ok_def Let_def)
  then have new: "pass_ok bids asks ts bids1 asks1"
    using assms(2) by (intro match_entries_spec [OF m]) (auto simp: bids_def asks_def entries_ok_def)
  have left_sort: "left i (sort_key f (es @ [e])) = left i es + left i [e]" for i es and f :: "book_entry \<Rightarrow> pyfloat"
    by (simp add: left_mset)
  have priced_sort: "priced (sort_key f (es @ [e])) = priced es \<union> priced [e]" for es and f :: "book_entry \<Rightarrow> pyfloat"
    by (auto simp: priced_def)
  define newb where "newb = (if be_buy e then [e] else [])"
  define newa where "newa = (if be_buy e then [] else [e])"
  have e0: "left i [] = 0" "priced [] = {}" for i by (simp_all add: left_def priced_def)
  let ?buys = "map snd (filter (\<lambda>(t, e). be_buy e) hist)" and ?sells = "map snd (filter (\<lambda>(t, e). \<not> be_buy e) hist)"
  have was: "pass_ok ?buys ?sells (mb_trades mb) (mb_bids mb) (mb_asks mb)"
    using assms(1) by (simp add: book_ok_def Let_def)
  have "left i bids = left i (mb_bids mb) + left i newb" "left i asks = left i (mb_asks mb) + left i newa" for i
    by (simp_all add: bids_def asks_def newb_def newa_def left_sort e0)
  moreover have "priced bids = priced (mb_bids mb) \<union> priced newb" "priced asks = priced (mb_asks mb) \<union> priced newa"
    by (simp_all add: bids_def asks_def newb_def newa_def priced_sort e0)
  ultimately have "pass_ok (?buys @ newb) (?sells @ newa) (mb_trades mb @ ts) bids1 asks1"
    by (rule pass_ok_trans [OF was new])
  then show ?thesis by (cases "be_buy e") (simp_all add: st book_ok_def Let_def newb_def newa_def)
qed

text \<open>The matching engine keeps its book: after any history of orders for positive quantities the best
  bid is below the best ask, both sides are sorted and hold no exhausted entry, what an order has left
  and has traded add up to what was submitted under its id, and every trade is for a positive quantity
  at the price of a submitted sell order and at or below the price of a submitted buy order.\<close>

theorem matching_book_sound:
  assumes "\<forall>(t, e) \<in> set hist. 0 < be_remaining e"
  defines "mb \<equiv> fold (\<lambda>(t, e) mb. snd (add_order t e mb)) hist matching_init"
    and "buys \<equiv> map snd (filter (\<lambda>(t, e). be_buy e) hist)" and "sells \<equiv> map snd (filter (\<lambda>(t, e). \<not> be_buy e) hist)"
  shows "uncrossed (mb_bids mb) (mb_asks mb)
    \<and> sorted (map (\<lambda>e. - be_price e) (mb_bids mb)) \<and> sorted (map be_price (mb_asks mb))
    \<and> (\<forall>e \<in> set (mb_bids mb @ mb_asks mb). 0 < be_remaining e)
    \<and> (\<forall>i. left i (mb_bids mb) + bought i (mb_trades mb) = left i buys)
    \<and> (\<forall>i. left i (mb_asks mb) + sold i (mb_trades mb) = left i sells)
    \<and> (\<forall>t \<in> set (mb_trades mb). 0 < mt_quantity t
        \<and> (\<exists>e \<in> set sells. be_id e = mt_sell t \<and> be_price e = mt_price t)
        \<and> (\<exists>e \<in> set buys. be_id e = mt_buy t \<and> mt_price t \<le> be_price e))"
proof -
  have "book_ok hist mb"
    using assms(1) unfolding mb_def
  proof (induction hist rule: rev_induct)
    case Nil
    show ?case by (simp add: book_ok_def pass_ok_def matching_init_def uncrossed_def entries_ok_def bought_def sold_def)
  next
    case (snoc x hist)
    then show ?case using add_order_book_ok by (cases x) simp
  qed
  then have p: "pass_ok buys sells (mb_trades mb) (mb_bids mb) (mb_asks mb)"
    by (simp add: book_ok_def buys_def sells_def Let_def)
  have "0 < mt_quantity t \<and> (\<exists>e \<in> set sells. be_id e = mt_sell t \<and> be_price e = mt_price t)
      \<and> (\<exists>e \<in> set buys. be_id e = mt_buy t \<and> mt_price t \<le> be_price e)" if "t \<in> set (mb_trades mb)" for t
  proof -
    from p that have "trade_ok (priced buys) (priced sells) t" by (simp add: pass_ok_def)
    then show ?thesis by (auto simp: trade_ok_def priced_def)
  qed
  with p show ?thesis by (auto simp: pass_ok_def entries_ok_def)
qed

definition demo_entry :: "string \<Rightarrow> bool \<Rightarrow> pyfloat \<Rightarrow> int \<Rightarrow> book_entry" where
  "demo_entry i buy p q = \<lparr>be_id = i, be_buy = buy, be_price = p, be_quantity = q, be_remaining = q, be_timestamp = 0\<rparr>"

theorem matching_book_sound_witness:
  "left ''a'' (mb_asks (fold (\<lambda>(t, e) mb. snd (add_order t e mb))
      [(1, demo_entry ''a'' False 10 7), (2, demo_entry ''b'' True 11 5)] matching_init))
    + sold ''a'' (mb_trades (fold (\<lambda>(t, e) mb. snd (add_order t e mb))
        [(1, demo_entry ''a'' False 10 7), (2, demo_entry ''b'' True 11 5)] matching_init)) = 7"
  using matching_book_sound [of "[(1, demo_entry ''a'' False 10 7), (2, demo_entry ''b'' True 11 5)]"]
  by (simp add: demo_entry_def left_def)

end
