(* ===== verification/Corporate_Actions.thy ===== *)
theory Corporate_Actions
  imports Prelude
begin

text \<open>
  Corporate actions (\<open>backtesting/events/corporate_actions.py\<close>): the adjustment factors of capital
  increases and splits, the adjusted price, symbol changes and the lifecycle of a symbol for a universe
  without survivorship bias. Dates are ordinals (\<open>date.min\<close> is 1); the values of the metadata
  dictionary that the code reads are strings.
\<close>

subsection \<open>State\<close>

datatype action_type =
  CAPITAL_INCREASE_RETAINED | CAPITAL_INCREASE_CASH | CAPITAL_INCREASE_ASSETS | CASH_DIVIDEND | STOCK_DIVIDEND
| STOCK_SPLIT | REVERSE_SPLIT | SYMBOL_CHANGE | MERGER | SUSPENSION | DELISTING | LISTING | HALT_FOR_DISCLOSURE
| FREE_FLOAT_CHANGE

record corporate_action =
  ca_type :: action_type
  ca_symbol :: string
  ca_effective_date :: int
  ca_ex_date :: "int option"
  ca_old_shares :: int
  ca_new_shares :: int
  ca_cash_per_share :: pyfloat
  ca_ratio :: pyfloat
  ca_adjustment_factor :: pyfloat
  ca_description :: string
  ca_metadata :: "(string, string) pydict"

record survivorship_entry =
  sv_symbol :: string
  sv_first_seen :: int
  sv_last_seen :: int
  sv_delisted :: bool
  sv_delist_date :: "int option"
  sv_delist_reason :: string
  sv_replaced_by :: "string option"
  sv_metadata :: "(string, string) pydict"

record actions_engine =
  ce_actions :: "(string, corporate_action list) pydict"
  ce_factors :: "(string, (int \<times> pyfloat) list) pydict"
  ce_survivorship :: "(string, survivorship_entry) pydict"
  ce_changes :: "(string, string \<times> int) pydict"

record survivorship_status =
  ss_alive :: bool
  ss_reason :: string
  ss_delist_date :: "int option"

definition date_min :: int where "date_min = 1"

definition actions_init :: actions_engine where
  "actions_init = \<lparr>ce_actions = [], ce_factors = [], ce_survivorship = [], ce_changes = []\<rparr>"

subsection \<open>Operations\<close>

definition share_ratio :: "corporate_action \<Rightarrow> pyfloat" where
  "share_ratio a =
     (if 0 < ca_old_shares a \<and> 0 < ca_new_shares a then of_int (ca_old_shares a) / of_int (ca_new_shares a) else 1)"

definition compute_adjustment_factor :: "corporate_action \<Rightarrow> py_error + pyfloat" where
  "compute_adjustment_factor a =
     (case ca_type a of
        CAPITAL_INCREASE_RETAINED \<Rightarrow> Inr (share_ratio a)
      | CAPITAL_INCREASE_CASH \<Rightarrow> Inr (share_ratio a)
      | CASH_DIVIDEND \<Rightarrow> Inr 1
      | STOCK_SPLIT \<Rightarrow> if ca_ratio a = 0 then Inl ZeroDivisionError else Inr (1 / ca_ratio a)
      | REVERSE_SPLIT \<Rightarrow> Inr (ca_ratio a)
      | _ \<Rightarrow> Inr 1)"

definition factor_date :: "corporate_action \<Rightarrow> int" where
  "factor_date a = (case ca_ex_date a of None \<Rightarrow> ca_effective_date a | Some d \<Rightarrow> d)"

definition delisted_entry :: "corporate_action \<Rightarrow> survivorship_entry" where
  "delisted_entry a =
     \<lparr>sv_symbol = ca_symbol a, sv_first_seen = date_min, sv_last_seen = ca_effective_date a, sv_delisted = True,
      sv_delist_date = Some (ca_effective_date a), sv_delist_reason = dict_get_or (ca_metadata a) ''reason'' [],
      sv_replaced_by = None, sv_metadata = []\<rparr>"

definition register_action :: "corporate_action \<Rightarrow> actions_engine \<Rightarrow> py_error option \<times> actions_engine" where
  "register_action a en =
     (let s = ca_symbol a;
          en1 = en\<lparr>ce_actions := dict_set s (sort_key ca_effective_date (dict_get_or (ce_actions en) s [] @ [a])) (ce_actions en)\<rparr>
      in case compute_adjustment_factor a of
           Inl e \<Rightarrow> (Some e, en1)
         | Inr f \<Rightarrow>
             (let en2 = (if f \<noteq> 1
                         then en1\<lparr>ce_factors := dict_set s (dict_get_or (ce_factors en1) s [] @ [(factor_date a, f)]) (ce_factors en1)\<rparr>
                         else en1);
                  new = dict_get_or (ca_metadata a) ''new_symbol'' [];
                  en3 = (if ca_type a = SYMBOL_CHANGE \<and> new \<noteq> []
                         then en2\<lparr>ce_changes := dict_set s (new, ca_effective_date a) (ce_changes en2)\<rparr> else en2);
                  en4 = (if ca_type a = DELISTING
                         then en3\<lparr>ce_survivorship := dict_set s (delisted_entry a) (ce_survivorship en3)\<rparr> else en3)
              in (None, en4)))"

definition register_lifecycle :: "string \<Rightarrow> int \<Rightarrow> int \<Rightarrow> bool \<Rightarrow> actions_engine \<Rightarrow> actions_engine" where
  "register_lifecycle s first last_seen delisted en =
     en\<lparr>ce_survivorship := dict_set s
        (case dict_get (ce_survivorship en) s of
           Some v \<Rightarrow> v\<lparr>sv_first_seen := first, sv_last_seen := last_seen, sv_delisted := delisted\<rparr>
         | None \<Rightarrow> \<lparr>sv_symbol = s, sv_first_seen = first, sv_last_seen = last_seen, sv_delisted = delisted,
                     sv_delist_date = None, sv_delist_reason = [], sv_replaced_by = None, sv_metadata = []\<rparr>)
        (ce_survivorship en)\<rparr>"

definition get_cumulative_factor :: "string \<Rightarrow> int \<Rightarrow> actions_engine \<Rightarrow> pyfloat" where
  "get_cumulative_factor s d en =
     fold (\<lambda>(fd, f) c. if fd \<le> d then c * f else c) (dict_get_or (ce_factors en) s []) 1"

definition get_adjusted_price :: "string \<Rightarrow> pyfloat \<Rightarrow> int \<Rightarrow> actions_engine \<Rightarrow> pyfloat" where
  "get_adjusted_price s raw d en =
     (let c = fold (\<lambda>(fd, f) c. if fd \<le> d then c * f else c) (dict_get_or (ce_factors en) s []) 1
      in if 0 < c then raw / c else raw)"

definition get_survivorship_status :: "string \<Rightarrow> int \<Rightarrow> actions_engine \<Rightarrow> survivorship_status" where
  "get_survivorship_status s d en =
     (case dict_get (ce_survivorship en) s of
        None \<Rightarrow> \<lparr>ss_alive = True, ss_reason = ''no_lifecycle_data'', ss_delist_date = None\<rparr>
      | Some v \<Rightarrow>
          if sv_delisted v \<and> (\<exists>dd. sv_delist_date v = Some dd \<and> dd \<le> d)
          then \<lparr>ss_alive = False, ss_reason = sv_delist_reason v, ss_delist_date = sv_delist_date v\<rparr>
          else if d < sv_first_seen v then \<lparr>ss_alive = False, ss_reason = ''not_yet_listed'', ss_delist_date = None\<rparr>
          else \<lparr>ss_alive = True, ss_reason = ''active'', ss_delist_date = None\<rparr>)"

definition build_survivorship_free_universe :: "string list \<Rightarrow> int \<Rightarrow> actions_engine \<Rightarrow> string list" where
  "build_survivorship_free_universe ss d en = filter (\<lambda>s. ss_alive (get_survivorship_status s d en)) ss"

definition resolve_symbol_change :: "string \<Rightarrow> int \<Rightarrow> actions_engine \<Rightarrow> string" where
  "resolve_symbol_change old d en =
     (case dict_get (ce_changes en) old of
        None \<Rightarrow> old
      | Some (new, cd) \<Rightarrow> if cd \<le> d then new else old)"

definition get_actions_for_symbol :: "string \<Rightarrow> actions_engine \<Rightarrow> corporate_action list" where
  "get_actions_for_symbol s en = dict_get_or (ce_actions en) s []"

definition get_actions_in_range :: "int \<Rightarrow> int \<Rightarrow> actions_engine \<Rightarrow> corporate_action list" where
  "get_actions_in_range a b en =
     sort_key ca_effective_date
       (concat (map (\<lambda>(s, as). filter (\<lambda>x. a \<le> ca_effective_date x \<and> ca_effective_date x \<le> b) as) (ce_actions en)))"

subsection \<open>Histories\<close>

datatype actions_op = RegisterAction corporate_action | RegisterLifecycle string int int bool

fun actions_step :: "actions_op \<Rightarrow> actions_engine \<Rightarrow> actions_engine" where
  "actions_step (RegisterAction a) en = snd (register_action a en)"
| "actions_step (RegisterLifecycle s f l x) en = register_lifecycle s f l x en"

definition actions_run :: "actions_op list \<Rightarrow> actions_engine" where
  "actions_run ops = fold actions_step ops actions_init"

fun registered :: "actions_op list \<Rightarrow> corporate_action list" where
  "registered [] = []"
| "registered (RegisterAction a # ops) = a # registered ops"
| "registered (RegisterLifecycle s f l x # ops) = registered ops"

definition factor_of :: "corporate_action \<Rightarrow> pyfloat" where
  "factor_of a = (case compute_adjustment_factor a of Inl e \<Rightarrow> 1 | Inr f \<Rightarrow> f)"

definition applies :: "string \<Rightarrow> int \<Rightarrow> corporate_action \<Rightarrow> bool" where
  "applies s d a \<longleftrightarrow> ca_symbol a = s \<and> factor_date a \<le> d"

lemma registered_append [simp]: "registered (xs @ ys) = registered xs @ registered ys"
  by (induction xs rule: registered.induct) auto

lemma actions_run_snoc: "actions_run (ops @ [op]) = actions_step op (actions_run ops)"
  by (simp add: actions_run_def)

lemma factor_fold:
  "fold (\<lambda>(fd, f) c. if fd \<le> d then c * f else c) fs (c :: pyfloat) = c * prod_list (map snd (filter (\<lambda>(fd, f). fd \<le> d) fs))"
  by (induction fs arbitrary: c) auto

lemma cumulative_prod:
  "get_cumulative_factor s d en = prod_list (map snd (filter (\<lambda>(fd, f). fd \<le> d) (dict_get_or (ce_factors en) s [])))"
  by (simp add: get_cumulative_factor_def factor_fold)

lemma adjusted_by_cumulative:
  "get_adjusted_price s raw d en = (if 0 < get_cumulative_factor s d en then raw / get_cumulative_factor s d en else raw)"
  by (simp add: get_adjusted_price_def get_cumulative_factor_def Let_def)

lemma cumulative_register:
  "get_cumulative_factor s d (snd (register_action a en)) =
     get_cumulative_factor s d en * (if applies s d a then factor_of a else 1)"
  by (auto simp: cumulative_prod register_action_def Let_def applies_def factor_of_def dict_get_or_def split: sum.split)

lemma cumulative_lifecycle [simp]: "get_cumulative_factor s d (register_lifecycle x f l y en) = get_cumulative_factor s d en"
  by (simp add: cumulative_prod register_lifecycle_def)

lemma cumulative_run:
  "get_cumulative_factor s d (actions_run ops) = prod_list (map factor_of (filter (applies s d) (registered ops)))"
proof (induction ops rule: rev_induct)
  case Nil
  show ?case by (simp add: cumulative_prod actions_run_def actions_init_def dict_get_or_def)
next
  case (snoc op ops)
  then show ?case by (cases op) (simp_all add: actions_run_snoc cumulative_register)
qed

lemma actions_register:
  "ce_actions (snd (register_action a en)) =
     dict_set (ca_symbol a) (sort_key ca_effective_date (dict_get_or (ce_actions en) (ca_symbol a) [] @ [a])) (ce_actions en)"
  by (simp add: register_action_def Let_def split: sum.split)

lemma actions_of_run:
  "get_actions_for_symbol s (actions_run ops) = sort_key ca_effective_date (filter (\<lambda>a. ca_symbol a = s) (registered ops))"
proof (induction ops rule: rev_induct)
  case Nil
  show ?case by (simp add: get_actions_for_symbol_def actions_run_def actions_init_def dict_get_or_def)
next
  case (snoc op ops)
  show ?case
  proof (cases op)
    case (RegisterAction a)
    have "get_actions_for_symbol s (snd (register_action a (actions_run ops))) =
      (if ca_symbol a = s then sort_key ca_effective_date (get_actions_for_symbol s (actions_run ops) @ [a])
       else get_actions_for_symbol s (actions_run ops))"
      by (simp add: get_actions_for_symbol_def actions_register dict_get_or_def)
    then show ?thesis using snoc RegisterAction by (simp add: actions_run_snoc sort_key_snoc)
  next
    case (RegisterLifecycle x f l y)
    then show ?thesis using snoc by (simp add: actions_run_snoc get_actions_for_symbol_def register_lifecycle_def)
  qed
qed


lemma factor_pos:
  assumes "ca_type a \<in> {STOCK_SPLIT, REVERSE_SPLIT} \<Longrightarrow> 0 < ca_ratio a"
  shows "0 < factor_of a"
  using assms by (auto simp: factor_of_def compute_adjustment_factor_def share_ratio_def split: action_type.split)

lemma prod_list_pos: "(\<And>x. x \<in> set xs \<Longrightarrow> (0::rat) < f x) \<Longrightarrow> 0 < prod_list (map f xs)"
  by (induction xs) auto

lemma prod_list_mset_eq: "mset xs = mset ys \<Longrightarrow> prod_list (map f xs) = (prod_list (map f ys) :: rat)"
  by (metis mset_map prod_mset_prod_list)

definition ratios_ok :: "corporate_action list \<Rightarrow> bool" where
  "ratios_ok as \<longleftrightarrow> (\<forall>a \<in> set as. ca_type a \<in> {STOCK_SPLIT, REVERSE_SPLIT} \<longrightarrow> 0 < ca_ratio a)"

lemma cumulative_pos: "ratios_ok (registered ops) \<Longrightarrow> 0 < get_cumulative_factor s d (actions_run ops)"
  unfolding cumulative_run by (rule prod_list_pos) (auto simp: ratios_ok_def intro: factor_pos)

lemma no_artificial_jump:
  \<comment> \<open>across the ex date of one action a price that moves by its factor keeps its adjusted value\<close>
  assumes "ratios_ok (registered ops)" "filter (\<lambda>a. ca_symbol a = s \<and> factor_date a = d) (registered ops) = [a]"
  shows "get_adjusted_price s (p * factor_of a) d (actions_run ops) = get_adjusted_price s p (d - 1) (actions_run ops)"
proof -
  let ?R = "registered ops"
  have split: "mset (filter (applies s d) as) = mset (filter (applies s (d - 1)) as) + mset (filter (\<lambda>a. ca_symbol a = s \<and> factor_date a = d) as)"
    for as by (induction as) (auto simp: applies_def)
  then have "mset (filter (applies s d) ?R) = mset (filter (applies s (d - 1)) ?R @ [a])"
    by (simp only: split [of ?R] assms(2) mset_append)
  then have m: "get_cumulative_factor s d (actions_run ops) = get_cumulative_factor s (d - 1) (actions_run ops) * factor_of a"
    unfolding cumulative_run using prod_list_mset_eq [of _ _ factor_of] by fastforce
  have "a \<in> set ?R" using assms(2) by (auto simp: filter_eq_Cons_iff)
  then have "0 < factor_of a" using assms(1) by (auto simp: ratios_ok_def intro: factor_pos)
  then show ?thesis
    using cumulative_pos [OF assms(1), of s d] cumulative_pos [OF assms(1), of s "d - 1"] by (simp add: adjusted_by_cumulative m)
qed

text \<open>An adjusted price depends only on which actions were registered: with split ratios above 0 it is
  the raw price over the product of the factors of the symbol's actions whose ex date (or effective
  date) has come, whatever the order of the registrations and the lifecycle entries between them, and
  the symbol's actions are listed by effective date. Across the ex date of a single action there is no
  artificial jump: a price that moves by the action's factor that day keeps its adjusted value.\<close>

theorem adjusted_price_by_actions:
  assumes "ratios_ok (registered ops)" "mset (registered ops') = mset (registered ops)"
  shows "get_adjusted_price s raw d (actions_run ops) = raw / prod_list (map factor_of (filter (applies s d) (registered ops)))
    \<and> get_adjusted_price s raw d (actions_run ops') = get_adjusted_price s raw d (actions_run ops)
    \<and> get_actions_for_symbol s (actions_run ops) = sort_key ca_effective_date (filter (\<lambda>a. ca_symbol a = s) (registered ops))
    \<and> (\<forall>a. filter (\<lambda>x. ca_symbol x = s \<and> factor_date x = d) (registered ops) = [a] \<longrightarrow>
         get_adjusted_price s (raw * factor_of a) d (actions_run ops) = get_adjusted_price s raw (d - 1) (actions_run ops))"
proof -
  have ok': "ratios_ok (registered ops')"
    using assms by (simp add: ratios_ok_def flip: set_mset_mset)
  have "mset (filter (applies s d) (registered ops')) = mset (filter (applies s d) (registered ops))"
    using assms(2) by simp
  then have "get_cumulative_factor s d (actions_run ops') = get_cumulative_factor s d (actions_run ops)"
    unfolding cumulative_run by (rule prod_list_mset_eq)
  then have "get_adjusted_price s raw d (actions_run ops) = raw / prod_list (map factor_of (filter (applies s d) (registered ops)))
    \<and> get_adjusted_price s raw d (actions_run ops') = get_adjusted_price s raw d (actions_run ops)"
    using cumulative_pos [OF assms(1), of s d] cumulative_pos [OF ok', of s d]
    by (simp add: adjusted_by_cumulative flip: cumulative_run)
  then show ?thesis using no_artificial_jump [OF assms(1)] actions_of_run by blast
qed

definition demo_split :: "string \<Rightarrow> int \<Rightarrow> pyfloat \<Rightarrow> corporate_action" where
  "demo_split s d r =
     \<lparr>ca_type = STOCK_SPLIT, ca_symbol = s, ca_effective_date = d, ca_ex_date = None, ca_old_shares = 0, ca_new_shares = 0,
      ca_cash_per_share = 0, ca_ratio = r, ca_adjustment_factor = 1, ca_description = [], ca_metadata = []\<rparr>"

theorem adjusted_price_by_actions_witness:
  "get_adjusted_price ''X'' 50 12 (actions_run [RegisterAction (demo_split ''X'' 10 2), RegisterLifecycle ''X'' 1 99 False,
     RegisterAction (demo_split ''X'' 12 5)]) = 500"
  using adjusted_price_by_actions
      [of "[RegisterAction (demo_split ''X'' 10 2), RegisterLifecycle ''X'' 1 99 False, RegisterAction (demo_split ''X'' 12 5)]"
          "[RegisterAction (demo_split ''X'' 12 5), RegisterAction (demo_split ''X'' 10 2)]" "''X''" 50 12]
  by (simp add: demo_split_def ratios_ok_def applies_def factor_date_def factor_of_def compute_adjustment_factor_def)

subsection \<open>Lifecycle\<close>

lemma delisted_leaves_universe:
  assumes "ca_type a = DELISTING" "date_min \<le> d"
  shows "ca_symbol a \<in> set (build_survivorship_free_universe [ca_symbol a] d (snd (register_action a en))) \<longleftrightarrow> d < ca_effective_date a"
  using assms by (simp add: build_survivorship_free_universe_def get_survivorship_status_def register_action_def
      compute_adjustment_factor_def delisted_entry_def Let_def)

lemma lifecycle_never_delists:
  \<comment> \<open>a lifecycle entry alone never ends: neither its last day nor its delisted flag is used\<close>
  assumes "dict_get (ce_survivorship en) s = None" "first \<le> d"
  shows "ss_alive (get_survivorship_status s d (register_lifecycle s first l True en))"
  using assms by (simp add: get_survivorship_status_def register_lifecycle_def)

lemma symbol_change_one_step:
  \<comment> \<open>a chain of two changes is followed for one link only\<close>
  assumes "ca_type a = SYMBOL_CHANGE" "ca_type b = SYMBOL_CHANGE" "ca_symbol a = s" "ca_symbol b = s'" "s \<noteq> s'"
    "dict_get (ca_metadata a) ''new_symbol'' = Some s'" "s' \<noteq> []" "ca_effective_date a \<le> d"
  shows "resolve_symbol_change s d (snd (register_action b (snd (register_action a en)))) = s'"
  using assms by (simp add: resolve_symbol_change_def register_action_def compute_adjustment_factor_def dict_get_or_def Let_def)

lemma zero_split_half_registered:
  \<comment> \<open>a split with ratio 0 raises after the action has been stored\<close>
  assumes "ca_type a = STOCK_SPLIT" "ca_ratio a = 0"
  shows "fst (register_action a en) = Some ZeroDivisionError"
    "a \<in> set (get_actions_for_symbol (ca_symbol a) (snd (register_action a en)))"
  using assms by (simp_all add: register_action_def compute_adjustment_factor_def get_actions_for_symbol_def dict_get_or_def Let_def)

lemma unadjusted_share_issues:
  assumes "ca_type a \<in> {CAPITAL_INCREASE_ASSETS, STOCK_DIVIDEND, CASH_DIVIDEND}"
  shows "get_adjusted_price s p d (snd (register_action a en)) = get_adjusted_price s p d en"
  using assms by (auto simp: adjusted_by_cumulative cumulative_register factor_of_def compute_adjustment_factor_def)

end
