(* ===== verification/Lru_Cache.thy ===== *)
theory Lru_Cache
  imports Prelude
begin

text \<open>
  The two bounded caches: the memory layer of the cache manager (\<open>LRUCache\<close> of
  \<open>core/cache_manager.py\<close>) and the screener's cache with expiry (\<open>_CacheManager\<close> of
  \<open>services/screener_service.py\<close>). An \<open>OrderedDict\<close> is a dictionary in list form, oldest entry first;
  \<open>time.time()\<close> readings are arguments.
\<close>

subsection \<open>The least-recently-used cache\<close>

definition move_to_end :: "string \<Rightarrow> (string, 'v) pydict \<Rightarrow> (string, 'v) pydict" where
  "move_to_end k d = (case dict_get d k of None \<Rightarrow> d | Some v \<Rightarrow> dict_del k d @ [(k, v)])"

record 'v lru =
  lru_max :: int
  lru_data :: "(string, 'v) pydict"

definition lru_init :: "int \<Rightarrow> 'v lru" where
  "lru_init maxsize = \<lparr>lru_max = max 1 maxsize, lru_data = []\<rparr>"

definition lru_get :: "string \<Rightarrow> 'v lru \<Rightarrow> 'v option \<times> 'v lru" where
  "lru_get k c =
     (case dict_get (lru_data c) k of
        None \<Rightarrow> (None, c)
      | Some v \<Rightarrow> (Some v, c\<lparr>lru_data := move_to_end k (lru_data c)\<rparr>))"

function evict_down :: "int \<Rightarrow> 'a list \<Rightarrow> 'a list" where
  \<comment> \<open>\<open>while len > n: popitem(last=False)\<close>\<close>
  "evict_down n d = (if d \<noteq> [] \<and> n < int (length d) then evict_down n (List.tl d) else d)"
  by pat_completeness auto
termination
  by (relation "measure (\<lambda>(n, d). length d)") auto

declare evict_down.simps [simp del]

definition lru_put :: "string \<Rightarrow> 'v \<Rightarrow> 'v lru \<Rightarrow> 'v lru" where
  "lru_put k v c =
     (let d = (if dict_get (lru_data c) k \<noteq> None then move_to_end k (lru_data c) else lru_data c)
      in c\<lparr>lru_data := evict_down (lru_max c) (dict_set k v d)\<rparr>)"

definition lru_delete :: "string \<Rightarrow> 'v lru \<Rightarrow> 'v lru" where
  "lru_delete k c = c\<lparr>lru_data := dict_del k (lru_data c)\<rparr>"

definition lru_clear :: "'v lru \<Rightarrow> 'v lru" where
  "lru_clear c = c\<lparr>lru_data := []\<rparr>"

definition lru_contains :: "string \<Rightarrow> 'v lru \<Rightarrow> bool" where
  "lru_contains k c = (dict_get (lru_data c) k \<noteq> None)"

definition lru_len :: "'v lru \<Rightarrow> nat" where
  "lru_len c = length (lru_data c)"

definition lru_keys :: "'v lru \<Rightarrow> string list" where
  "lru_keys c = dict_keys (lru_data c)"

datatype 'v lru_op = LGet string | LPut string 'v | LDelete string | LClear

fun lru_step :: "'v lru_op \<Rightarrow> 'v lru \<Rightarrow> 'v lru" where
  "lru_step (LGet k) c = snd (lru_get k c)"
| "lru_step (LPut k v) c = lru_put k v c"
| "lru_step (LDelete k) c = lru_delete k c"
| "lru_step LClear c = lru_clear c"

definition lru_run :: "'v lru_op list \<Rightarrow> 'v lru \<Rightarrow> 'v lru" where
  "lru_run ops c = fold lru_step ops c"

lemma lru_run_simps [simp]:
  "lru_run [] c = c"
  "lru_run (op # ops) c = lru_run ops (lru_step op c)"
  "lru_run (ops @ ops') c = lru_run ops' (lru_run ops c)"
  by (simp_all add: lru_run_def)

lemma evict_down_drop: "0 \<le> n \<Longrightarrow> evict_down n d = drop (length d - nat n) d"
proof (induction n d rule: evict_down.induct)
  case (1 n d)
  show ?case
  proof (cases "d \<noteq> [] \<and> n < int (length d)")
    case True
    then have "nat n < length d" using 1(2) by linarith
    then have "length d - nat n = Suc (length (List.tl d) - nat n)" by simp
    then show ?thesis using 1 True by (subst evict_down.simps) (simp add: drop_Suc)
  next
    case False
    then show ?thesis using 1 by (subst evict_down.simps) auto
  qed
qed

definition lru_ok :: "'v lru \<Rightarrow> bool" where
  "lru_ok c \<longleftrightarrow> 1 \<le> lru_max c \<and> dict_ok (lru_data c) \<and> int (length (lru_data c)) \<le> lru_max c"

lemma dict_del_fresh: "dict_get d k = None \<Longrightarrow> dict_del k d = d"
  by (rule dict_del_absent)

lemma dict_set_last: "dict_get d k = None \<Longrightarrow> dict_set k v (d @ [(k, w)]) = d @ [(k, v)]"
  by (induction d) (auto split: if_splits)

lemma lru_put_data:
  "1 \<le> lru_max c \<Longrightarrow> lru_data (lru_put k v c) =
     (let d = dict_del k (lru_data c) @ [(k, v)] in drop (length d - nat (lru_max c)) d)"
  by (simp add: lru_put_def move_to_end_def evict_down_drop dict_set_fresh dict_del_fresh dict_set_last Let_def
      split: option.split)

lemma lru_put_max [simp]: "lru_max (lru_put k v c) = lru_max c"
  by (simp add: lru_put_def Let_def)

lemma dict_ok_move: "dict_ok d \<Longrightarrow> dict_ok (dict_del k d @ [(k, v)])"
  by (auto simp: dict_ok_def distinct_delete dict_keys_del)

lemma dict_ok_drop: "dict_ok d \<Longrightarrow> dict_ok (drop n d)"
  by (simp add: dict_ok_def drop_map [symmetric])

lemma length_del: "length (dict_del k d) \<le> length d"
  by (induction d) auto

lemma length_move:
  assumes "dict_get d k = Some w"
  shows "length (dict_del k d @ [(k, v)]) \<le> length d"
  using assms by (induction d) (auto simp: le_SucI length_del split: if_splits)

lemma lru_ok_init [simp]: "lru_ok (lru_init n)"
  by (simp add: lru_ok_def lru_init_def)

lemma lru_step_ok: "lru_ok c \<Longrightarrow> lru_ok (lru_step op c) \<and> lru_max (lru_step op c) = lru_max c"
proof (cases op)
  case (LGet k)
  assume "lru_ok c"
  then show ?thesis
    using LGet length_move [of "lru_data c" k]
    by (auto simp: lru_get_def lru_ok_def move_to_end_def dict_ok_move intro: order_trans split: option.split)
next
  case (LPut k v)
  assume ok: "lru_ok c"
  define d where "d = dict_del k (lru_data c) @ [(k, v)]"
  have "lru_data (lru_put k v c) = drop (length d - nat (lru_max c)) d"
    using ok by (simp add: lru_put_data lru_ok_def Let_def d_def)
  moreover have "dict_ok (drop (length d - nat (lru_max c)) d)"
    using ok unfolding d_def by (intro dict_ok_drop dict_ok_move) (simp add: lru_ok_def)
  ultimately show ?thesis using ok LPut by (auto simp: lru_ok_def)
next
  case (LDelete k)
  assume "lru_ok c"
  then show ?thesis
    using LDelete length_del [of k "lru_data c"] by (auto simp: lru_delete_def lru_ok_def)
qed (simp add: lru_clear_def lru_ok_def)

lemma lru_run_ok: "lru_ok c \<Longrightarrow> lru_ok (lru_run ops c) \<and> lru_max (lru_run ops c) = lru_max c"
  by (induction ops arbitrary: c) (auto simp: lru_step_ok)


subsection \<open>What is kept and what is evicted\<close>

fun touched :: "'v lru_op \<Rightarrow> string set" where
  "touched (LGet k) = {k}"
| "touched (LPut k v) = {k}"
| "touched (LDelete k) = {k}"
| "touched LClear = {}"

fun put_key :: "'v lru_op \<Rightarrow> string set" where
  "put_key (LPut k v) = {k}"
| "put_key _ = {}"

fun keeps :: "'v lru_op \<Rightarrow> bool" where
  "keeps LClear = False"
| "keeps _ = True"

fun inserts :: "'v lru_op \<Rightarrow> bool" where
  "inserts (LDelete k) = False"
| "inserts LClear = False"
| "inserts _ = True"

definition held :: "string \<Rightarrow> 'v \<Rightarrow> string set \<Rightarrow> 'v lru \<Rightarrow> bool" where
  \<comment> \<open>the key is in the cache and what is more recent is among the given keys\<close>
  "held k v S c \<longleftrightarrow> (\<exists>xs ys. lru_data c = xs @ (k, v) # ys \<and> fst ` set ys \<subseteq> S)"

lemma held_mono: "held k v S c \<Longrightarrow> S \<subseteq> T \<Longrightarrow> held k v T c"
  unfolding held_def by blast

lemma held_get:
  assumes "lru_ok c" "held k v S c"
  shows "dict_get (lru_data c) k = Some v"
  using assms by (auto simp: held_def lru_ok_def dict_ok_def intro!: dict_get_in)

lemma dict_del_append: "dict_del k (xs @ ys) = dict_del k xs @ dict_del k ys"
  by (simp add: AList.delete_eq)

lemma held_put:
  assumes "lru_ok c" "held k v S c" "j \<noteq> k" "j \<in> S" "k \<notin> S" "finite S" "int (card S) < lru_max c"
  shows "held k v S (lru_put j w c)"
proof -
  obtain xs ys where d: "lru_data c = xs @ (k, v) # ys" and sub: "fst ` set ys \<subseteq> S" using assms(2) by (auto simp: held_def)
  define zs where "zs = dict_del j ys @ [(j, w)]"
  define d' where "d' = dict_del j (lru_data c) @ [(j, w)]"
  have d': "d' = dict_del j xs @ (k, v) # zs" using assms(3) by (simp add: d'_def d zs_def dict_del_append)
  have zsub: "fst ` set zs \<subseteq> S" using sub assms(4) by (auto simp: zs_def dict_keys_del dest: dict_del_elem)
  have "dict_ok d'" using assms(1) unfolding d'_def by (intro dict_ok_move) (simp add: lru_ok_def)
  then have "distinct (map fst zs)" by (simp add: d' dict_ok_def)
  then have "length zs = card (fst ` set zs)" by (metis distinct_card length_map list.set_map)
  also have "\<dots> \<le> card S" by (rule card_mono [OF assms(6) zsub])
  finally have len: "Suc (length zs) \<le> nat (lru_max c)" using assms(7) by linarith
  then have "drop (length d' - nat (lru_max c)) d' = drop (length d' - nat (lru_max c)) (dict_del j xs) @ (k, v) # zs"
    by (simp add: d')
  then have "lru_data (lru_put j w c) = drop (length d' - nat (lru_max c)) (dict_del j xs) @ (k, v) # zs"
    using assms(1) by (simp add: lru_put_data lru_ok_def Let_def flip: d'_def)
  then show ?thesis using zsub unfolding held_def by blast
qed

lemma held_step:
  assumes "lru_ok c" "held k v S c" "keeps op" "touched op \<subseteq> S" "k \<notin> S" "finite S" "int (card S) < lru_max c"
  shows "held k v S (lru_step op c)"
proof (cases op)
  case (LGet j)
  then have j: "j \<noteq> k" "j \<in> S" using assms by auto
  obtain xs ys where d: "lru_data c = xs @ (k, v) # ys" "fst ` set ys \<subseteq> S" using assms(2) by (auto simp: held_def)
  show ?thesis
  proof (cases "dict_get (lru_data c) j")
    case None
    then show ?thesis using LGet assms(2) by (simp add: lru_get_def)
  next
    case (Some w)
    have "lru_data (lru_step op c) = dict_del j xs @ (k, v) # (dict_del j ys @ [(j, w)])"
      using LGet Some j d(1) by (simp add: lru_get_def move_to_end_def dict_del_append)
    moreover have "fst ` set (dict_del j ys @ [(j, w)]) \<subseteq> S" using d(2) j by (auto simp: dict_keys_del dest: dict_del_elem)
    ultimately show ?thesis unfolding held_def by blast
  qed
next
  case (LPut j w)
  then have "j \<in> S" "j \<noteq> k" using assms(4,5) by auto
  then show ?thesis using held_put [OF assms(1,2)] assms(5-7) LPut by simp
next
  case (LDelete j)
  then have j: "j \<noteq> k" using assms by auto
  obtain xs ys where d: "lru_data c = xs @ (k, v) # ys" "fst ` set ys \<subseteq> S" using assms(2) by (auto simp: held_def)
  have "lru_data (lru_step op c) = dict_del j xs @ (k, v) # dict_del j ys"
    using LDelete j d(1) by (simp add: lru_delete_def dict_del_append)
  moreover have "fst ` set (dict_del j ys) \<subseteq> S" using d(2) by (auto simp: dict_keys_del)
  ultimately show ?thesis unfolding held_def by blast
qed (use assms in simp)

lemma held_run:
  assumes "lru_ok c" "held k v S c" "\<forall>op \<in> set ops. keeps op \<and> touched op \<subseteq> S" "k \<notin> S" "finite S" "int (card S) < lru_max c"
  shows "held k v S (lru_run ops c)"
  using assms
proof (induction ops arbitrary: c)
  case (Cons op ops)
  have "lru_ok (lru_step op c)" "lru_max (lru_step op c) = lru_max c" using lru_step_ok Cons.prems(1) by auto
  moreover have "held k v S (lru_step op c)" using Cons.prems by (intro held_step) auto
  ultimately show ?case using Cons by simp
qed simp

definition passed :: "string \<Rightarrow> string set \<Rightarrow> 'v lru \<Rightarrow> bool" where
  \<comment> \<open>the key is gone, or the given keys are all more recent\<close>
  "passed k P c \<longleftrightarrow> dict_get (lru_data c) k = None \<or> (\<exists>xs v ys. lru_data c = xs @ (k, v) # ys \<and> P \<subseteq> fst ` set ys)"

lemma drop_keeps_suffix:
  assumes "dict_ok (xs @ (k, v) # ys)" "dict_get (drop n (xs @ (k, v) # ys)) k \<noteq> None"
  shows "drop n (xs @ (k, v) # ys) = drop n xs @ (k, v) # ys"
proof (cases "n \<le> length xs")
  case False
  then have "drop n (xs @ (k, v) # ys) = drop (n - length xs - 1) ys" by (simp add: drop_Cons')
  moreover have "k \<notin> fst ` set ys" using assms(1) by (simp add: dict_ok_def)
  ultimately have "dict_get (drop n (xs @ (k, v) # ys)) k = None" by (auto simp: map_of_eq_None_iff dest: in_set_dropD)
  then show ?thesis using assms(2) by simp
qed simp

lemma passed_step:
  assumes "lru_ok c" "passed k P c" "inserts op" "k \<notin> touched op"
  shows "passed k (P \<union> put_key op) (lru_step op c)"
proof (cases op)
  case (LGet j)
  then have j: "j \<noteq> k" using assms by auto
  show ?thesis
  proof (cases "dict_get (lru_data c) j")
    case None
    then show ?thesis using LGet assms(2) by (simp add: lru_get_def)
  next
    case (Some w)
    then have s: "lru_data (lru_step op c) = dict_del j (lru_data c) @ [(j, w)]" using LGet by (simp add: lru_get_def move_to_end_def)
    from assms(2) consider "dict_get (lru_data c) k = None"
      | xs v ys where "lru_data c = xs @ (k, v) # ys" "P \<subseteq> fst ` set ys" by (auto simp: passed_def)
    then show ?thesis
    proof cases
      case 1
      then show ?thesis using s j by (simp add: passed_def map_add_def)
    next
      case 2
      then have "lru_data (lru_step op c) = dict_del j xs @ (k, v) # (dict_del j ys @ [(j, w)])"
        using s j by (simp add: dict_del_append)
      moreover have "P \<union> put_key op \<subseteq> fst ` set (dict_del j ys @ [(j, w)])" using 2(2) LGet by (auto simp: dict_keys_del)
      ultimately show ?thesis unfolding passed_def by blast
    qed
  qed
next
  case (LPut j w)
  then have j: "j \<noteq> k" using assms by auto
  define d' where "d' = dict_del j (lru_data c) @ [(j, w)]"
  define n where "n = length d' - nat (lru_max c)"
  have s: "lru_data (lru_step op c) = drop n d'"
    using LPut assms(1) by (simp add: lru_put_data lru_ok_def Let_def n_def d'_def)
  have ok: "dict_ok d'" using assms(1) unfolding d'_def by (intro dict_ok_move) (simp add: lru_ok_def)
  show ?thesis
  proof (cases "dict_get (drop n d') k = None")
    case True
    then show ?thesis using s by (simp add: passed_def)
  next
    case False
    then have "k \<in> fst ` set (drop n d')" by (simp add: map_of_eq_None_iff)
    then have "k \<in> fst ` set d'" by (meson image_mono set_drop_subset subsetD)
    then have "k \<in> fst ` set (lru_data c)" using j by (auto simp: d'_def dict_keys_del)
    then obtain xs v ys where d: "lru_data c = xs @ (k, v) # ys" and P: "P \<subseteq> fst ` set ys"
      using assms(2) by (auto simp: passed_def map_of_eq_None_iff)
    define zs where "zs = dict_del j ys @ [(j, w)]"
    have d': "d' = dict_del j xs @ (k, v) # zs" using j by (simp add: d'_def d zs_def dict_del_append)
    have "drop n d' = drop n (dict_del j xs) @ (k, v) # zs"
      using ok False unfolding d' by (rule drop_keeps_suffix)
    moreover have "P \<union> put_key op \<subseteq> fst ` set zs" using P LPut by (auto simp: zs_def dict_keys_del)
    ultimately show ?thesis unfolding passed_def s by blast
  qed
qed (use assms in auto)

lemma passed_run:
  assumes "lru_ok c" "passed k P c" "\<forall>op \<in> set ops. inserts op \<and> k \<notin> touched op"
  shows "passed k (P \<union> \<Union> (put_key ` set ops)) (lru_run ops c)"
  using assms
proof (induction ops arbitrary: c P)
  case (Cons op ops)
  have "lru_ok (lru_step op c)" using lru_step_ok Cons.prems(1) by auto
  moreover have "passed k (P \<union> put_key op) (lru_step op c)" using Cons.prems by (intro passed_step) auto
  ultimately show ?case using Cons.IH [of "lru_step op c" "P \<union> put_key op"] Cons.prems(3) by (simp add: Un_assoc)
qed simp

lemma passed_full:
  assumes "lru_ok c" "passed k P c" "finite P" "lru_max c \<le> int (card P)" 
  shows "dict_get (lru_data c) k = None"
proof (rule ccontr)
  assume "dict_get (lru_data c) k \<noteq> None"
  then obtain xs v ys where d: "lru_data c = xs @ (k, v) # ys" "P \<subseteq> fst ` set ys" using assms(2) by (auto simp: passed_def)
  have "card P \<le> card (fst ` set ys)" using d(2) by (intro card_mono) auto
  also have "\<dots> \<le> length ys" by (metis card_length length_map list.set_map)
  finally show False using assms(1,4) d(1) by (simp add: lru_ok_def)
qed

lemma finite_keys [simp]: "finite (touched op)" "finite (put_key op)"
  by (cases op; simp)+

lemma put_held: "lru_ok c \<Longrightarrow> held k v {} (lru_put k v c)"
  by (auto simp: held_def lru_put_data lru_ok_def Let_def)

text \<open>C19: the memory cache evicts exactly the least recently used key. In every history it holds at most its
  bound of entries. After a key was put, and while it is neither read, put nor deleted again: it is answered with its value
  as long as nothing is cleared and the later operations touch fewer distinct other keys than the bound; and it is gone
  once at least as many distinct other keys as the bound have been put, when the operations in between are puts and
  reads only (a delete makes room, a clear empties the cache).\<close>

theorem lru_evicts_exactly:
  fixes k :: string and v :: 'v and before after :: "'v lru_op list" and n :: int
  defines "c \<equiv> lru_put k v (lru_run before (lru_init n))"
  assumes "k \<notin> \<Union> (touched ` set after)"
  shows "int (lru_len (lru_run after c)) \<le> max 1 n
    \<and> ((\<forall>op \<in> set after. keeps op) \<and> int (card (\<Union> (touched ` set after))) < max 1 n
        \<longrightarrow> fst (lru_get k (lru_run after c)) = Some v)
    \<and> ((\<forall>op \<in> set after. inserts op) \<and> max 1 n \<le> int (card (\<Union> (put_key ` set after)))
        \<longrightarrow> fst (lru_get k (lru_run after c)) = None)"
proof -
  let ?S = "\<Union> (touched ` set after)" and ?P = "\<Union> (put_key ` set after)"
  have fin: "finite ?S" "finite ?P" by auto
  have c0: "lru_ok (lru_run before (lru_init n :: 'v lru))" "lru_max (lru_run before (lru_init n :: 'v lru)) = max 1 n"
    using lru_run_ok [OF lru_ok_init] by (auto simp: lru_init_def)
  then have ok: "lru_ok c" and m: "lru_max c = max 1 n"
    using lru_step_ok [of _ "LPut k v"] by (auto simp: c_def)
  then have ok': "lru_ok (lru_run after c)" and m': "lru_max (lru_run after c) = max 1 n" using lru_run_ok [OF ok] by auto
  have h0: "held k v {} c" using put_held c0(1) by (simp add: c_def)
  then have h: "held k v ?S c" by (rule held_mono) simp
  have get: "fst (lru_get k x) = dict_get (lru_data x) k" for x :: "'v lru" by (simp add: lru_get_def split: option.split)
  have keep: "fst (lru_get k (lru_run after c)) = Some v" if "\<forall>op \<in> set after. keeps op" "int (card ?S) < max 1 n"
  proof -
    have "held k v ?S (lru_run after c)" using that assms(2) fin m by (intro held_run [OF ok h]) auto
    then show ?thesis using held_get [OF ok'] by (simp add: get)
  qed
  have "passed k {} c" using h0 by (auto simp: held_def passed_def)
  then have pass: "passed k ?P (lru_run after c)" if "\<forall>op \<in> set after. inserts op"
    using passed_run [OF ok, of k "{}" after] that assms(2) by auto
  have "fst (lru_get k (lru_run after c)) = None" if "\<forall>op \<in> set after. inserts op" "max 1 n \<le> int (card ?P)"
    using passed_full [OF ok' pass fin(2)] that m' by (simp add: get)
  with keep show ?thesis using ok' m' by (simp add: lru_len_def lru_ok_def)
qed

theorem lru_evicts_exactly_witness:
  "fst (lru_get ''a'' (lru_run [LPut ''b'' (2::nat), LGet ''b''] (lru_put ''a'' 1 (lru_run [] (lru_init 2))))) = Some 1
    \<and> fst (lru_get ''a'' (lru_run [LPut ''b'' (2::nat), LPut ''c'' 3] (lru_put ''a'' 1 (lru_run [] (lru_init 2))))) = None"
  using lru_evicts_exactly [of "''a''" "[LPut ''b'' (2::nat), LGet ''b'']" 1 "[]" 2]
    lru_evicts_exactly [of "''a''" "[LPut ''b'' (2::nat), LPut ''c'' 3]" 1 "[]" 2] by simp


subsection \<open>The screener's cache\<close>

record 'v ttl_cache =
  tc_max_size :: int
  tc_ttl :: pytime
  tc_purge_interval :: pytime
  tc_store :: "(string, pytime \<times> 'v) pydict"
  tc_last_purge :: pytime
  tc_hits :: nat
  tc_misses :: nat
  tc_evictions :: nat

definition tc_init :: "int \<Rightarrow> pytime \<Rightarrow> pytime \<Rightarrow> pytime \<Rightarrow> 'v ttl_cache" where
  "tc_init max_size ttl interval now =
     \<lparr>tc_max_size = max_size, tc_ttl = ttl, tc_purge_interval = interval, tc_store = [], tc_last_purge = now,
      tc_hits = 0, tc_misses = 0, tc_evictions = 0\<rparr>"

definition tc_get :: "pytime \<Rightarrow> string \<Rightarrow> 'v ttl_cache \<Rightarrow> 'v option \<times> 'v ttl_cache" where
  "tc_get now k c =
     (case dict_get (tc_store c) k of
        None \<Rightarrow> (None, c\<lparr>tc_misses := tc_misses c + 1\<rparr>)
      | Some (ts, v) \<Rightarrow>
          if now - ts > tc_ttl c then (None, c\<lparr>tc_store := dict_del k (tc_store c), tc_misses := tc_misses c + 1\<rparr>)
          else (Some v, c\<lparr>tc_store := dict_set k (now, v) (dict_del k (tc_store c)), tc_hits := tc_hits c + 1\<rparr>))"

definition tc_purge_expired :: "pytime \<Rightarrow> 'v ttl_cache \<Rightarrow> nat \<times> 'v ttl_cache" where
  "tc_purge_expired now c =
     (let expired = map fst (filter (\<lambda>(k, ts, v). now - ts > tc_ttl c) (tc_store c))
      in (length expired, c\<lparr>tc_store := fold dict_del expired (tc_store c)\<rparr>))"

definition tc_put :: "pytime \<Rightarrow> pytime \<Rightarrow> string \<Rightarrow> 'v \<Rightarrow> 'v ttl_cache \<Rightarrow> py_error option \<times> 'v ttl_cache" where
  \<comment> \<open>\<open>now'\<close> is the purge's own reading of the clock; popping from an empty store raises\<close>
  "tc_put now now' k v c =
     (if dict_get (tc_store c) k \<noteq> None
      then (None, c\<lparr>tc_store := move_to_end k (dict_set k (now, v) (tc_store c))\<rparr>)
      else
        (let c1 = (if now - tc_last_purge c \<ge> tc_purge_interval c
                   then (snd (tc_purge_expired now' c))\<lparr>tc_last_purge := now\<rparr> else c)
         in if int (length (tc_store c1)) \<ge> tc_max_size c1
            then (if tc_store c1 = [] then (Some KeyError, c1)
                  else (None, c1\<lparr>tc_store := dict_set k (now, v) (List.tl (tc_store c1)), tc_evictions := tc_evictions c1 + 1\<rparr>))
            else (None, c1\<lparr>tc_store := dict_set k (now, v) (tc_store c1)\<rparr>)))"

definition tc_clear :: "'v ttl_cache \<Rightarrow> 'v ttl_cache" where
  "tc_clear c = c\<lparr>tc_store := []\<rparr>"

definition tc_size :: "'v ttl_cache \<Rightarrow> nat" where
  "tc_size c = length (tc_store c)"

definition tc_hit_rate :: "'v ttl_cache \<Rightarrow> pyfloat" where
  \<comment> \<open>\<open>hit_rate_pct\<close> of \<open>stats\<close>, rounded to one digit\<close>
  "tc_hit_rate c =
     (let total = tc_hits c + tc_misses c
      in if total \<noteq> 0 then of_int (py_round (of_nat (tc_hits c) / of_nat total * 100 * 10)) / 10 else 0)"

subsection \<open>What a bounded cache promises\<close>

locale bounded_cache =
  fixes stored :: "'c \<Rightarrow> string \<Rightarrow> 'v option"
    and fetch :: "'t \<Rightarrow> string \<Rightarrow> 'c \<Rightarrow> 'v option \<times> 'c"
    and insert_at :: "'t \<Rightarrow> string \<Rightarrow> 'v \<Rightarrow> 'c \<Rightarrow> 'c"
    and entries :: "'c \<Rightarrow> nat"
    and bound :: "'c \<Rightarrow> int"
    and ok :: "'c \<Rightarrow> bool"
  assumes fetch_stored: "ok c \<Longrightarrow> fst (fetch t k c) = Some v \<Longrightarrow> stored c k = Some v"
    and fetch_keeps: "ok c \<Longrightarrow> stored (snd (fetch t k c)) j = Some w \<Longrightarrow> stored c j = Some w"
    and insert_same: "ok c \<Longrightarrow> stored (insert_at t k v c) k = Some v"
    and insert_other: "ok c \<Longrightarrow> j \<noteq> k \<Longrightarrow> stored (insert_at t k v c) j = Some w \<Longrightarrow> stored c j = Some w"
    and fetch_ok: "ok c \<Longrightarrow> ok (snd (fetch t k c)) \<and> bound (snd (fetch t k c)) = bound c"
    and insert_ok: "ok c \<Longrightarrow> ok (insert_at t k v c) \<and> bound (insert_at t k v c) = bound c"
    and entries_bound: "ok c \<Longrightarrow> int (entries c) \<le> bound c"
begin

fun act :: "'t \<times> string \<times> 'v option \<Rightarrow> 'c \<Rightarrow> 'c" where
  "act (t, k, None) c = snd (fetch t k c)"
| "act (t, k, Some v) c = insert_at t k v c"

fun latest :: "('t \<times> string \<times> 'v option) list \<Rightarrow> string \<Rightarrow> 'v option \<Rightarrow> 'v option" where
  "latest [] j x = x"
| "latest ((t, k, Some v) # ops) j x = latest ops j (if k = j then Some v else x)"
| "latest ((t, k, None) # ops) j x = latest ops j x"

lemma act_ok: "ok c \<Longrightarrow> ok (act op c) \<and> bound (act op c) = bound c"
  by (cases "(op, c)" rule: act.cases) (use fetch_ok insert_ok in auto)

lemma run_ok: "ok c \<Longrightarrow> ok (fold act ops c) \<and> bound (fold act ops c) = bound c"
  by (induction ops arbitrary: c) (auto simp: act_ok)

lemma stored_latest:
  assumes "ok c" "\<And>w. stored c j = Some w \<Longrightarrow> x = Some w" "stored (fold act ops c) j = Some w"
  shows "latest ops j x = Some w"
  using assms
proof (induction ops j x arbitrary: c rule: latest.induct)
  case (2 t k v ops j x)
  have "ok (insert_at t k v c)" using insert_ok 2 by blast
  moreover have "(if k = j then Some v else x) = Some u" if "stored (insert_at t k v c) j = Some u" for u
    using that insert_same [OF "2.prems"(1), of t k v] insert_other [OF "2.prems"(1), of j k t v u] "2.prems"(2) by (cases "k = j") auto
  ultimately show ?case using "2.IH" [of "insert_at t k v c"] "2.prems"(3) by simp
next
  case (3 t k ops j x)
  have "ok (snd (fetch t k c))" using fetch_ok 3 by blast
  moreover have "x = Some u" if "stored (snd (fetch t k c)) j = Some u" for u
    using that fetch_keeps [OF "3.prems"(1)] "3.prems"(2) by blast
  ultimately show ?case using "3.IH" [of "snd (fetch t k c)"] "3.prems"(3) by simp
qed simp

lemma answers_latest:
  assumes "ok c" "\<And>w. stored c k = Some w \<Longrightarrow> x = Some w" "fst (fetch t k (fold act ops c)) = Some v"
  shows "latest ops k x = Some v"
  using stored_latest [OF assms(1,2)] fetch_stored run_ok assms(1,3) by blast

lemma never_over: "ok c \<Longrightarrow> int (entries (fold act ops c)) \<le> bound c"
  using run_ok entries_bound by metis

end

interpretation memory: bounded_cache "\<lambda>c. dict_get (lru_data c)" "\<lambda>(t :: unit). lru_get" "\<lambda>t. lru_put" lru_len lru_max lru_ok
proof
  fix c :: "'v lru" and k j v w
  assume ok: "lru_ok c"
  show "fst (lru_get k c) = Some v \<Longrightarrow> dict_get (lru_data c) k = Some v"
    by (simp add: lru_get_def split: option.splits)
  show "dict_get (lru_data (snd (lru_get k c))) j = Some w \<Longrightarrow> dict_get (lru_data c) j = Some w"
    by (auto simp: lru_get_def move_to_end_def map_add_def split: option.splits if_splits)
  show "dict_get (lru_data (lru_put k v c)) k = Some v"
    using put_held [OF ok] held_get lru_step_ok [OF ok, of "LPut k v"] by fastforce
  show "lru_ok (snd (lru_get k c)) \<and> lru_max (snd (lru_get k c)) = lru_max c"
    using lru_step_ok [OF ok, of "LGet k"] by simp
  show "lru_ok (lru_put k v c) \<and> lru_max (lru_put k v c) = lru_max c"
    using lru_step_ok [OF ok, of "LPut k v"] by simp
  show "int (lru_len c) \<le> lru_max c" using ok by (simp add: lru_len_def lru_ok_def)
  show "dict_get (lru_data c) j = Some w" if "j \<noteq> k" "dict_get (lru_data (lru_put k v c)) j = Some w"
  proof -
    have "(j, w) \<in> set (lru_data (lru_put k v c))" using that(2) by (rule map_of_SomeD)
    then have "(j, w) \<in> set (dict_del k (lru_data c))" using ok that(1)
      by (auto simp: lru_put_data lru_ok_def Let_def dest!: in_set_dropD split: if_splits)
    then show ?thesis using ok by (auto simp: lru_ok_def dest!: dict_del_elem intro: dict_get_in)
  qed
qed


subsection \<open>The screener's cache is one, too\<close>

definition tc_ok :: "'v ttl_cache \<Rightarrow> bool" where
  "tc_ok c \<longleftrightarrow> 1 \<le> tc_max_size c \<and> dict_ok (tc_store c) \<and> int (length (tc_store c)) \<le> tc_max_size c"

lemma fold_del_filter: "fold dict_del ks d = filter (\<lambda>p. fst p \<notin> set ks) d"
  by (induction ks arbitrary: d) (auto simp: AList.delete_eq intro: filter_cong)

lemma dict_ok_sub: "dict_ok d \<Longrightarrow> dict_ok (List.tl d)" "dict_ok d \<Longrightarrow> dict_ok (filter P d)"
  by (cases d; simp add: dict_ok_def) (simp add: dict_ok_def distinct_map_filter)

lemma length_set_fresh: "dict_get d k = None \<Longrightarrow> length (dict_set k v d) = Suc (length d)"
  by (simp add: dict_set_fresh)

lemma length_set_del: "dict_get d k \<noteq> None \<Longrightarrow> length (dict_set k v (dict_del k d)) \<le> length d"
  using length_move [of d k] by (auto simp: dict_set_fresh)

lemma length_move_set: "dict_get d k \<noteq> None \<Longrightarrow> length (move_to_end k (dict_set k v d)) \<le> length d"
proof -
  assume "dict_get d k \<noteq> None"
  then have "length (dict_set k v d) = length d" by (induction d) auto
  then show ?thesis using length_move [of "dict_set k v d" k v v] by (simp add: move_to_end_def)
qed

definition purged :: "pytime \<Rightarrow> pytime \<Rightarrow> 'v ttl_cache \<Rightarrow> 'v ttl_cache" where
  "purged now now' c =
     (if now - tc_last_purge c \<ge> tc_purge_interval c then (snd (tc_purge_expired now' c))\<lparr>tc_last_purge := now\<rparr> else c)"

lemma purged_simps [simp]:
  "tc_max_size (purged now now' c) = tc_max_size c" "tc_ttl (purged now now' c) = tc_ttl c"
  by (simp_all add: purged_def tc_purge_expired_def Let_def)

lemma purged_store: "\<exists>P. tc_store (purged now now' c) = filter P (tc_store c)"
proof (cases "now - tc_last_purge c \<ge> tc_purge_interval c")
  case True
  then show ?thesis by (auto simp: purged_def tc_purge_expired_def Let_def fold_del_filter)
next
  case False
  then show ?thesis by (intro exI [of _ "\<lambda>_. True"]) (simp add: purged_def)
qed

lemma purged_ok: "tc_ok c \<Longrightarrow> tc_ok (purged now now' c)"
proof -
  assume ok: "tc_ok c"
  obtain P where P: "tc_store (purged now now' c) = filter P (tc_store c)" using purged_store by blast
  show ?thesis using ok order_trans [OF of_nat_mono [OF length_filter_le [of P "tc_store c"]]]
    by (auto simp: tc_ok_def P dict_ok_sub)
qed

lemma purged_elems: "p \<in> set (tc_store (purged now now' c)) \<Longrightarrow> p \<in> set (tc_store c)"
  using purged_store [of now now' c] by auto

lemma tc_put_cases:
  assumes "tc_ok c"
  obtains (present) "dict_get (tc_store c) k \<noteq> None"
      "tc_put now now' k v c = (None, c\<lparr>tc_store := move_to_end k (dict_set k (now, v) (tc_store c))\<rparr>)"
    | (full) d where "dict_get (tc_store c) k = None" "set d \<subseteq> set (tc_store c)" "dict_ok d" "int (length d) < tc_max_size c"
      "dict_get d k = None" "fst (tc_put now now' k v c) = None" "tc_store (snd (tc_put now now' k v c)) = d @ [(k, now, v)]"
      "tc_max_size (snd (tc_put now now' k v c)) = tc_max_size c" "tc_ttl (snd (tc_put now now' k v c)) = tc_ttl c"
proof (cases "dict_get (tc_store c) k")
  case (Some p)
  then show ?thesis by (intro present) (simp_all add: tc_put_def)
next
  case None
  define c1 where "c1 = purged now now' c"
  have ok1: "tc_ok c1" and m: "tc_max_size c1 = tc_max_size c" "tc_ttl c1 = tc_ttl c" using assms by (simp_all add: c1_def purged_ok)
  have sub: "set (tc_store c1) \<subseteq> set (tc_store c)" using purged_elems by (auto simp: c1_def)
  define d where "d = (if int (length (tc_store c1)) \<ge> tc_max_size c1 then List.tl (tc_store c1) else tc_store c1)"
  have tl_sub: "set (List.tl xs) \<subseteq> set xs" for xs :: "(string \<times> pytime \<times> 'a) list" by (cases xs) auto
  have d: "set d \<subseteq> set (tc_store c)" "dict_ok d" "int (length d) < tc_max_size c"
    using ok1 sub tl_sub [of "tc_store c1"] m by (auto simp: d_def tc_ok_def dict_ok_sub)
  then have fresh: "dict_get d k = None" using None by (auto simp: map_of_eq_None_iff)
  have ne: "tc_store c1 \<noteq> []" if "int (length (tc_store c1)) \<ge> tc_max_size c1" using that ok1 by (auto simp: tc_ok_def)
  have p: "tc_put now now' k v c =
     (if int (length (tc_store c1)) \<ge> tc_max_size c1
      then (if tc_store c1 = [] then (Some KeyError, c1)
            else (None, c1\<lparr>tc_store := dict_set k (now, v) (List.tl (tc_store c1)), tc_evictions := tc_evictions c1 + 1\<rparr>))
      else (None, c1\<lparr>tc_store := dict_set k (now, v) (tc_store c1)\<rparr>))"
    using None by (simp add: tc_put_def Let_def c1_def purged_def)
  have s: "fst (tc_put now now' k v c) = None" "tc_store (snd (tc_put now now' k v c)) = dict_set k (now, v) d"
      "tc_max_size (snd (tc_put now now' k v c)) = tc_max_size c" "tc_ttl (snd (tc_put now now' k v c)) = tc_ttl c"
    using ne m by (simp_all add: p d_def)
  show ?thesis using full [OF None d fresh] s fresh by (simp add: dict_set_fresh)
qed

lemma tc_put_ok: "tc_ok c \<Longrightarrow> tc_ok (snd (tc_put now now' k v c)) \<and> tc_max_size (snd (tc_put now now' k v c)) = tc_max_size c
    \<and> tc_ttl (snd (tc_put now now' k v c)) = tc_ttl c"
proof -
  assume ok: "tc_ok c"
  from ok show ?thesis
  proof (cases rule: tc_put_cases [where k = k and now = now and now' = now' and v = v])
    case present
    then show ?thesis using ok length_move_set [OF present(1), of "(now, v)"]
      by (auto simp: tc_ok_def move_to_end_def dict_ok_move split: option.split)
  next
    case (full d)
    then show ?thesis using ok by (auto simp: tc_ok_def dict_ok_def map_of_eq_None_iff)
  qed
qed

lemma tc_get_ok: "tc_ok c \<Longrightarrow> tc_ok (snd (tc_get now k c)) \<and> tc_max_size (snd (tc_get now k c)) = tc_max_size c
    \<and> tc_ttl (snd (tc_get now k c)) = tc_ttl c"
proof -
  assume ok: "tc_ok c"
  show ?thesis
  proof (cases "dict_get (tc_store c) k")
    case None
    then show ?thesis using ok by (simp add: tc_get_def tc_ok_def)
  next
    case (Some p)
    then show ?thesis using ok length_set_del [of "tc_store c" k "(now, snd p)"] length_del [of k "tc_store c"]
      by (cases p) (auto simp: tc_get_def tc_ok_def)
  qed
qed

lemma tc_put_elems:
  assumes "tc_ok c" "(j, x) \<in> set (tc_store (snd (tc_put now now' k v c)))"
  shows "(j, x) = (k, now, v) \<or> j \<noteq> k \<and> (j, x) \<in> set (tc_store c)"
  using assms(1)
proof (cases rule: tc_put_cases [where k = k and now = now and now' = now' and v = v])
  case present
  then have "tc_store (snd (tc_put now now' k v c)) = dict_del k (dict_set k (now, v) (tc_store c)) @ [(k, now, v)]"
    by (simp add: move_to_end_def)
  then show ?thesis using assms(2) by (auto dest!: dict_del_elem dict_set_elem)
next
  case (full d)
  then have "j \<noteq> k" if "(j, x) \<in> set d" using that by (force simp: map_of_eq_None_iff)
  then show ?thesis using full assms(2) by auto
qed

lemma tc_get_elems:
  "(j, x) \<in> set (tc_store (snd (tc_get now k c))) \<Longrightarrow>
     (j, x) \<in> set (tc_store c) \<or> (\<exists>ts v. (j, x) = (k, now, v) \<and> dict_get (tc_store c) k = Some (ts, v))"
  by (auto simp: tc_get_def split: option.splits if_splits dest!: dict_del_elem dict_set_elem)


interpretation screener: bounded_cache "\<lambda>c k. map_option snd (dict_get (tc_store c) k)" "\<lambda>t. tc_get (fst t)"
  "\<lambda>t k v c. snd (tc_put (fst t) (snd t) k v c)" tc_size tc_max_size tc_ok
proof
  fix c :: "'v ttl_cache" and k j v w and t :: "pytime \<times> pytime"
  assume ok: "tc_ok c"
  then have keys: "dict_ok (tc_store c)" by (simp add: tc_ok_def)
  have keys': "dict_ok (tc_store (snd (tc_put (fst t) (snd t) k v c)))" using tc_put_ok [OF ok] unfolding tc_ok_def by blast
  show "fst (tc_get (fst t) k c) = Some v \<Longrightarrow> map_option snd (dict_get (tc_store c) k) = Some v"
    by (auto simp: tc_get_def split: option.splits if_splits)
  show "map_option snd (dict_get (tc_store (snd (tc_get (fst t) k c))) j) = Some w \<Longrightarrow>
      map_option snd (dict_get (tc_store c) j) = Some w"
    by (auto simp: tc_get_def split: option.splits if_splits)
  show "map_option snd (dict_get (tc_store (snd (tc_put (fst t) (snd t) k v c))) k) = Some v"
    using ok
  proof (cases rule: tc_put_cases [where k = k and now = "fst t" and now' = "snd t" and v = v])
    case present
    then show ?thesis by (simp add: move_to_end_def map_add_def)
  next
    case (full d)
    then show ?thesis by (simp add: map_add_def)
  qed
  show "map_option snd (dict_get (tc_store c) j) = Some w"
    if jk: "j \<noteq> k" and st: "map_option snd (dict_get (tc_store (snd (tc_put (fst t) (snd t) k v c))) j) = Some w"
  proof -
    obtain ts where "dict_get (tc_store (snd (tc_put (fst t) (snd t) k v c))) j = Some (ts, w)" using st by auto
    then have "(j, ts, w) \<in> set (tc_store (snd (tc_put (fst t) (snd t) k v c)))" by (rule map_of_SomeD)
    then have "(j, ts, w) \<in> set (tc_store c)" using tc_put_elems [OF ok] jk by blast
    then show ?thesis using dict_get_in [OF keys] by fastforce
  qed
  show "tc_ok (snd (tc_get (fst t) k c)) \<and> tc_max_size (snd (tc_get (fst t) k c)) = tc_max_size c"
    using tc_get_ok [OF ok] by blast
  show "tc_ok (snd (tc_put (fst t) (snd t) k v c)) \<and> tc_max_size (snd (tc_put (fst t) (snd t) k v c)) = tc_max_size c"
    using tc_put_ok [OF ok] by blast
  show "int (tc_size c) \<le> tc_max_size c" using ok by (simp add: tc_size_def tc_ok_def)
qed

fun tc_act :: "(pytime \<times> pytime) \<times> string \<times> 'v option \<Rightarrow> 'v ttl_cache \<Rightarrow> 'v ttl_cache" where
  \<comment> \<open>a read or a write, with the clock readings it makes\<close>
  "tc_act (t, k, None) c = snd (tc_get (fst t) k c)"
| "tc_act (t, k, Some v) c = snd (tc_put (fst t) (snd t) k v c)"

definition last_written :: "((pytime \<times> pytime) \<times> string \<times> 'v option) list \<Rightarrow> string \<Rightarrow> 'v option" where
  "last_written ops k = fold (\<lambda>(t, j, w) x. if j = k \<and> w \<noteq> None then w else x) ops None"

lemma tc_act_screener: "tc_act = screener.act"
proof (intro ext)
  fix op :: "(pytime \<times> pytime) \<times> string \<times> 'v option" and c
  show "tc_act op c = screener.act op c" by (cases "(op, c)" rule: tc_act.cases) auto
qed

lemma last_written_latest: "screener.latest ops k x = fold (\<lambda>(t, j, w) x. if j = k \<and> w \<noteq> None then w else x) ops x"
  by (induction ops k x rule: screener.latest.induct) auto

lemma tc_init_ok: "1 \<le> n \<Longrightarrow> tc_ok (tc_init n ttl interval t0)"
  by (simp add: tc_ok_def tc_init_def)

lemma tc_act_inv:
  assumes "tc_ok c"
  shows "tc_ok (tc_act op c) \<and> tc_max_size (tc_act op c) = tc_max_size c \<and> tc_ttl (tc_act op c) = tc_ttl c"
  using tc_get_ok [OF assms] tc_put_ok [OF assms] by (cases "(op, c)" rule: tc_act.cases) simp_all

lemma tc_run_inv:
  "tc_ok c \<Longrightarrow> tc_ok (fold tc_act ops c) \<and> tc_max_size (fold tc_act ops c) = tc_max_size c \<and> tc_ttl (fold tc_act ops c) = tc_ttl c"
  by (induction ops arbitrary: c) (auto simp: tc_act_inv)

lemma tc_stamps:
  assumes "1 \<le> n"
  shows "(k, ts, v) \<in> set (tc_store (fold tc_act ops (tc_init n ttl interval t0))) \<Longrightarrow> \<exists>(t, j, w) \<in> set ops. j = k \<and> fst t = ts"
proof (induction ops arbitrary: k ts v rule: rev_induct)
  case (snoc op ops)
  let ?c = "fold tc_act ops (tc_init n ttl interval t0)"
  have ok: "tc_ok ?c" using tc_run_inv [OF tc_init_ok [OF assms]] by blast
  have "(k, ts, v) \<in> set (tc_store (tc_act op ?c))" using snoc.prems by simp
  then have "(k, ts, v) \<in> set (tc_store ?c) \<or> (case op of (t, j, w) \<Rightarrow> j = k \<and> fst t = ts)"
    using tc_put_elems [OF ok] tc_get_elems by (cases "(op, ?c)" rule: tc_act.cases) fastforce+
  then show ?case using snoc.IH by (cases op) auto
qed (simp add: tc_init_def)

text \<open>The screener's cache is sound: in every history of reads and writes it holds at most its bound of
  entries, and what it answers for a key is the value written last for that key, which was read or
  written at most the time to live ago.\<close>

theorem screener_cache_sound:
  fixes ops :: "((pytime \<times> pytime) \<times> string \<times> 'v option) list"
  assumes "1 \<le> n" "c = fold tc_act ops (tc_init n ttl interval t0)"
  shows "int (tc_size c) \<le> n
    \<and> (\<forall>k v now. fst (tc_get now k c) = Some v \<longrightarrow>
         last_written ops k = Some v \<and> (\<exists>(t, j, w) \<in> set ops. j = k \<and> now - fst t \<le> ttl))"
proof -
  have ok0: "tc_ok (tc_init n ttl interval t0 :: 'v ttl_cache)" using assms(1) by (rule tc_init_ok)
  have inv: "tc_max_size c = n" "tc_ttl c = ttl" using tc_run_inv [OF ok0] by (auto simp: assms(2) tc_init_def)
  have "int (tc_size c) \<le> n"
    using screener.never_over [OF ok0, of ops] by (simp add: assms(2) tc_act_screener) (simp add: tc_init_def)
  moreover have "last_written ops k = Some v" if "fst (tc_get now k c) = Some v" for k v now
    using screener.answers_latest [OF ok0, of k None "(now, now)" ops v] that
    by (simp add: assms(2) tc_act_screener last_written_latest last_written_def) (simp add: tc_init_def)
  moreover have "\<exists>(t, j, w) \<in> set ops. j = k \<and> now - fst t \<le> ttl" if got: "fst (tc_get now k c) = Some v" for k v now
  proof -
    obtain ts where "dict_get (tc_store c) k = Some (ts, v)" "now - ts \<le> ttl"
      using got inv by (auto simp: tc_get_def split: option.splits if_splits)
    then show ?thesis using tc_stamps [OF assms(1)] map_of_SomeD assms(2) by fastforce
  qed
  ultimately show ?thesis by blast
qed

definition demo_reads :: "((pytime \<times> pytime) \<times> string \<times> nat option) list" where
  "demo_reads = [((0, 0), ''k'', Some 7), ((20, 20), ''k'', None)]"

theorem screener_cache_sound_witness:
  "fst (tc_get 45 ''k'' (fold tc_act demo_reads (tc_init 5 30 5 0))) = Some 7 \<and> last_written demo_reads ''k'' = Some 7"
proof -
  have "fst (tc_get 45 ''k'' (fold tc_act demo_reads (tc_init 5 30 5 0))) = Some 7"
    by (simp add: demo_reads_def tc_get_def tc_put_def tc_init_def tc_purge_expired_def)
  moreover note screener_cache_sound [of 5 "fold tc_act demo_reads (tc_init 5 30 5 0)" demo_reads 30 5 0]
  ultimately show ?thesis by simp
qed

lemma read_keeps_alive:
  \<comment> \<open>a value that is read in time each time never expires, however old it is\<close>
  assumes "0 \<le> gap" "gap \<le> tc_ttl c" "dict_get (tc_store c) k = Some (t0, v)"
  shows "\<exists>c'. fold (\<lambda>i c. snd (tc_get (t0 + gap * of_nat i) k c)) [1..<Suc n] c = c'
     \<and> tc_ttl c' = tc_ttl c \<and> dict_get (tc_store c') k = Some (t0 + gap * of_nat n, v)"
proof (induction n)
  case (Suc n)
  then show ?case using assms(2) by (auto simp: tc_get_def algebra_simps)
qed (use assms in simp)

lemma zero_capacity_raises:
  "tc_max_size c = 0 \<Longrightarrow> tc_store c = [] \<Longrightarrow> fst (tc_put now now' k v c) = Some KeyError"
  by (simp add: tc_put_def tc_purge_expired_def Let_def)

end
