(* ===== verification/Cache_Manager.thy ===== *)
theory Cache_Manager
  imports Lru_Cache
begin

text \<open>
  The three-layer cache (\<open>core/cache_manager.py\<close>, with its users in \<open>services/market_cache.py\<close>) and the
  cache service (\<open>core/cache.py\<close>).

  Redis and the JSON library are not part of the repository: \<open>redis_env\<close> holds the calls the code makes,
  each on a state \<open>'r\<close> of the server, which also lets the other workers act: a call may change anything
  there. An error is a raised exception. Python's \<open>None\<close> is \<open>None\<close>, so a value is a \<open>'v option\<close>; the
  memory layer keeps \<open>None\<close> values too. Other coroutines on the same manager are not covered, other
  workers on the same server are.
\<close>

subsection \<open>The server\<close>

record ('v, 'b, 'r) redis_env =
  rv_connect :: "'r \<Rightarrow> bool \<times> 'r"
  rv_ping :: "'r \<Rightarrow> bool \<times> 'r"
  rv_get :: "string \<Rightarrow> 'r \<Rightarrow> (py_error + 'b option) \<times> 'r"
  rv_getdel :: "string \<Rightarrow> 'r \<Rightarrow> (py_error + 'b option) \<times> 'r"
  rv_setex :: "string \<Rightarrow> int \<Rightarrow> 'b \<Rightarrow> 'r \<Rightarrow> py_error option \<times> 'r"
  rv_set :: "string \<Rightarrow> 'b \<Rightarrow> 'r \<Rightarrow> py_error option \<times> 'r"
  rv_set_nx :: "string \<Rightarrow> int \<Rightarrow> 'r \<Rightarrow> (py_error + bool) \<times> 'r"
  rv_delete :: "string list \<Rightarrow> 'r \<Rightarrow> py_error option \<times> 'r"
  rv_close :: "'r \<Rightarrow> py_error option \<times> 'r"
  rv_sleep :: "'r \<Rightarrow> 'r"
  rv_dumps :: "'v option \<Rightarrow> 'b option" \<comment> \<open>\<open>None\<close>: not serialisable\<close>
  rv_loads :: "'b \<Rightarrow> 'v option option" \<comment> \<open>\<open>None\<close>: not JSON; \<open>Some None\<close>: \<open>null\<close>\<close>
  rv_text :: "'b \<Rightarrow> 'v" \<comment> \<open>the payload itself as a value\<close>

subsection \<open>The manager\<close>

definition lock_ttl_seconds :: int where "lock_ttl_seconds = 30"
definition lock_wait_attempts :: nat where "lock_wait_attempts = 50"

record 'v cache_manager =
  cm_default_ttl :: int
  cm_namespace :: string
  cm_l1 :: "'v option lru"
  cm_redis :: bool \<comment> \<open>whether \<open>self._redis\<close> is a client\<close>
  cm_connected :: "bool option"
  cm_keys :: "string set"

definition cm_init :: "int \<Rightarrow> int \<Rightarrow> string \<Rightarrow> 'v cache_manager" where
  "cm_init max_items ttl ns =
     \<lparr>cm_default_ttl = ttl, cm_namespace = ns, cm_l1 = lru_init max_items, cm_redis = False, cm_connected = None, cm_keys = {}\<rparr>"

definition try_connect :: "('v, 'b, 'r) redis_env \<Rightarrow> 'v cache_manager \<times> 'r \<Rightarrow> bool \<times> 'v cache_manager \<times> 'r" where
  "try_connect env st =
     (case st of (m, r) \<Rightarrow>
        if cm_connected m = Some False then (False, m, r)
        else (case rv_connect env r of
                (True, r1) \<Rightarrow> (True, m\<lparr>cm_redis := True, cm_connected := Some True\<rparr>, r1)
              | (False, r1) \<Rightarrow> (False, m\<lparr>cm_redis := False, cm_connected := Some False\<rparr>, r1)))"

definition ensure_redis :: "('v, 'b, 'r) redis_env \<Rightarrow> 'v cache_manager \<times> 'r \<Rightarrow> bool \<times> 'v cache_manager \<times> 'r" where
  "ensure_redis env st =
     (case st of (m, r) \<Rightarrow>
        if cm_redis m then
          (case rv_ping env r of
             (True, r1) \<Rightarrow> (True, m, r1)
           | (False, r1) \<Rightarrow> try_connect env (m\<lparr>cm_redis := False, cm_connected := None\<rparr>, r1))
        else try_connect env (m, r))"

definition cm_close :: "('v, 'b, 'r) redis_env \<Rightarrow> 'v cache_manager \<times> 'r \<Rightarrow> 'v cache_manager \<times> 'r" where
  "cm_close env st =
     (case st of (m, r) \<Rightarrow>
        (m\<lparr>cm_redis := False, cm_connected := None\<rparr>, if cm_redis m then snd (rv_close env r) else r))"

definition reset_redis_state :: "'v cache_manager \<Rightarrow> 'v cache_manager" where
  "reset_redis_state m = m\<lparr>cm_connected := None\<rparr>"

definition namespaced :: "'v cache_manager \<Rightarrow> string \<Rightarrow> string" where
  "namespaced m key = cm_namespace m @ '':'' @ key"

definition cm_deserialize :: "('v, 'b, 'r) redis_env \<Rightarrow> 'b \<Rightarrow> 'v option" where
  "cm_deserialize env raw = (case rv_loads env raw of None \<Rightarrow> None | Some v \<Rightarrow> v)"

definition lost :: "'v cache_manager \<Rightarrow> 'v cache_manager" where
  \<comment> \<open>after a failed call\<close>
  "lost m = m\<lparr>cm_redis := False, cm_connected := None\<rparr>"

definition read_l2 :: "('v, 'b, 'r) redis_env \<Rightarrow> string \<Rightarrow> 'v cache_manager \<times> 'r \<Rightarrow> 'v option \<times> 'v cache_manager \<times> 'r" where
  "read_l2 env key st =
     (case ensure_redis env st of
        (False, m, r) \<Rightarrow> (None, m, r)
      | (True, m, r) \<Rightarrow>
          (case rv_get env (namespaced m key) r of
             (Inl e, r1) \<Rightarrow> (None, lost m, r1)
           | (Inr None, r1) \<Rightarrow> (None, m, r1)
           | (Inr (Some raw), r1) \<Rightarrow> (cm_deserialize env raw, m, r1)))"

definition write_l2 ::
  "('v, 'b, 'r) redis_env \<Rightarrow> string \<Rightarrow> 'v option \<Rightarrow> int \<Rightarrow> 'v cache_manager \<times> 'r \<Rightarrow> 'v cache_manager \<times> 'r" where
  "write_l2 env key v ttl st =
     (case ensure_redis env st of
        (False, m, r) \<Rightarrow> (m, r)
      | (True, m, r) \<Rightarrow>
          (case rv_dumps env v of
             None \<Rightarrow> (m, r)
           | Some payload \<Rightarrow>
               (case rv_setex env (namespaced m key) ttl payload r of
                  (None, r1) \<Rightarrow> (m\<lparr>cm_keys := insert key (cm_keys m)\<rparr>, r1)
                | (Some e, r1) \<Rightarrow> (lost m, r1))))"

fun await_winner ::
  "('v, 'b, 'r) redis_env \<Rightarrow> nat \<Rightarrow> string \<Rightarrow> 'v cache_manager \<times> 'r \<Rightarrow> 'v option \<times> 'v cache_manager \<times> 'r" where
  "await_winner env 0 key st = (None, st)"
| "await_winner env (Suc n) key (m, r) =
     (case read_l2 env key (m, rv_sleep env r) of
        (Some v, st1) \<Rightarrow> (Some v, st1)
      | (None, st1) \<Rightarrow> await_winner env n key st1)"

definition l1_put :: "string \<Rightarrow> 'v option \<Rightarrow> 'v cache_manager \<Rightarrow> 'v cache_manager" where
  "l1_put key v m = m\<lparr>cm_l1 := lru_put key v (cm_l1 m)\<rparr>"

definition compute_value ::
  "('v, 'b, 'r) redis_env \<Rightarrow> string \<Rightarrow> int \<Rightarrow> ('r \<Rightarrow> (py_error + 'v option) \<times> 'r) \<Rightarrow> string \<Rightarrow> bool \<Rightarrow>
     'v cache_manager \<times> 'r \<Rightarrow> (py_error + 'v option) \<times> 'v cache_manager \<times> 'r" where
  \<comment> \<open>\<open>func\<close>, the release of the lock in \<open>finally\<close>, and the promotion of the result\<close>
  "compute_value env key ttl func lock_key holds_lock st =
     (case st of (m, r) \<Rightarrow>
        (let (res, r1) = func r;
             r2 = (if holds_lock \<and> cm_redis m then snd (rv_delete env [lock_key] r1) else r1)
         in case res of
              Inl e \<Rightarrow> (Inl e, m, r2)
            | Inr v \<Rightarrow> (Inr v, write_l2 env key v ttl (l1_put key v m, r2))))"

definition take_lock ::
  "('v, 'b, 'r) redis_env \<Rightarrow> string \<Rightarrow> 'v cache_manager \<times> 'r \<Rightarrow> bool \<times> 'v cache_manager \<times> 'r" where
  \<comment> \<open>an error counts as success\<close>
  "take_lock env lock_key st =
     (case st of (m, r) \<Rightarrow>
        (case rv_set_nx env lock_key lock_ttl_seconds r of
           (Inl e, r1) \<Rightarrow> (True, m, r1)
         | (Inr b, r1) \<Rightarrow> (b, m, r1)))"

definition lock_name :: "string \<Rightarrow> string" where
  "lock_name key = ''lock:'' @ key"

definition single_flight ::
  "('v, 'b, 'r) redis_env \<Rightarrow> string \<Rightarrow> int \<Rightarrow> ('r \<Rightarrow> (py_error + 'v option) \<times> 'r) \<Rightarrow>
     'v cache_manager \<times> 'r \<Rightarrow> (py_error + 'v option) \<times> 'v cache_manager \<times> 'r" where
  \<comment> \<open>only the holder of the lock computes; the others wait for its value, and compute when none comes\<close>
  "single_flight env key t f st =
     (let lock_key = namespaced (fst st) (lock_name key);
          (up, st3) = ensure_redis env st
      in if \<not> up then compute_value env key t f lock_key False st3
         else
           (case take_lock env lock_key st3 of
              (True, st4) \<Rightarrow> compute_value env key t f lock_key True st4
            | (False, st4) \<Rightarrow>
                (case await_winner env lock_wait_attempts key st4 of
                   (Some v, m5, r5) \<Rightarrow> (Inr (Some v), l1_put key (Some v) m5, r5)
                 | (None, st5) \<Rightarrow> compute_value env key t f lock_key False st5)))"

definition get_or_compute ::
  "('v, 'b, 'r) redis_env \<Rightarrow> string \<Rightarrow> int option \<Rightarrow> ('r \<Rightarrow> (py_error + 'v option) \<times> 'r) option \<Rightarrow>
     'v cache_manager \<times> 'r \<Rightarrow> (py_error + 'v option) \<times> 'v cache_manager \<times> 'r" where
  "get_or_compute env key ttl func st =
     (case st of (m, r) \<Rightarrow>
        (let t = (case ttl of None \<Rightarrow> cm_default_ttl m | Some x \<Rightarrow> x);
             (hit, l1) = lru_get key (cm_l1 m);
             m1 = m\<lparr>cm_l1 := l1\<rparr>
         in case hit of
              Some (Some v) \<Rightarrow> (Inr (Some v), m1, r)
            | _ \<Rightarrow>
                (case read_l2 env key (m1, r) of
                   (Some v, m2, r2) \<Rightarrow> (Inr (Some v), l1_put key (Some v) m2, r2)
                 | (None, st2) \<Rightarrow>
                     (case func of None \<Rightarrow> (Inr None, st2) | Some f \<Rightarrow> single_flight env key t f st2))))"

definition cm_get :: "('v, 'b, 'r) redis_env \<Rightarrow> string \<Rightarrow> 'v cache_manager \<times> 'r \<Rightarrow> (py_error + 'v option) \<times> 'v cache_manager \<times> 'r" where
  "cm_get env key st = get_or_compute env key None None st"

definition cm_set ::
  "('v, 'b, 'r) redis_env \<Rightarrow> string \<Rightarrow> 'v option \<Rightarrow> int option \<Rightarrow> 'v cache_manager \<times> 'r \<Rightarrow> 'v cache_manager \<times> 'r" where
  "cm_set env key v ttl st =
     (case st of (m, r) \<Rightarrow>
        write_l2 env key v (case ttl of None \<Rightarrow> cm_default_ttl m | Some x \<Rightarrow> x) (l1_put key v m, r))"

definition cm_invalidate :: "('v, 'b, 'r) redis_env \<Rightarrow> string \<Rightarrow> 'v cache_manager \<times> 'r \<Rightarrow> 'v cache_manager \<times> 'r" where
  "cm_invalidate env key st =
     (case st of (m, r) \<Rightarrow>
        (m\<lparr>cm_l1 := lru_delete key (cm_l1 m), cm_keys := cm_keys m - {key}\<rparr>,
         if cm_redis m then snd (rv_delete env [namespaced m key] r) else r))"

definition clear_all :: "('v, 'b, 'r) redis_env \<Rightarrow> string list \<Rightarrow> 'v cache_manager \<times> 'r \<Rightarrow> 'v cache_manager \<times> 'r" where
  \<comment> \<open>\<open>keys\<close> lists the set of written keys in the order the set gives\<close>
  "clear_all env keys st =
     (case st of (m, r) \<Rightarrow>
        (m\<lparr>cm_l1 := lru_clear (cm_l1 m), cm_keys := {}\<rparr>,
         if cm_redis m \<and> keys \<noteq> [] then snd (rv_delete env (map (namespaced m) keys) r) else r))"

definition market_invalidate :: "('v, 'b, 'r) redis_env \<Rightarrow> string list \<Rightarrow> 'v cache_manager \<times> 'r \<Rightarrow> 'v cache_manager \<times> 'r" where
  "market_invalidate env keys st = fold (cm_invalidate env) keys st"

definition clear_market_cache ::
  "('v, 'b, 'r) redis_env \<Rightarrow> string list \<Rightarrow> 'v cache_manager \<times> 'r \<Rightarrow> nat \<times> 'v cache_manager \<times> 'r" where
  "clear_market_cache env keys st = (length keys, clear_all env keys st)"


subsection \<open>The cache service\<close>

record cache_service =
  cs_default_ttl :: int
  cs_redis :: bool

definition cs_initialize :: "('v, 'b, 'r) redis_env \<Rightarrow> cache_service \<times> 'r \<Rightarrow> cache_service \<times> 'r" where
  "cs_initialize env st =
     (case st of (s, r) \<Rightarrow>
        if cs_redis s then (s, r) else (let (up, r1) = rv_connect env r in (s\<lparr>cs_redis := up\<rparr>, r1)))"

definition cs_ping :: "('v, 'b, 'r) redis_env \<Rightarrow> cache_service \<times> 'r \<Rightarrow> bool \<times> cache_service \<times> 'r" where
  "cs_ping env st = (case st of (s, r) \<Rightarrow> if cs_redis s then (let (up, r1) = rv_ping env r in (up, s, r1)) else (False, s, r))"

definition cs_close :: "('v, 'b, 'r) redis_env \<Rightarrow> cache_service \<times> 'r \<Rightarrow> py_error option \<times> cache_service \<times> 'r" where
  "cs_close env st =
     (case st of (s, r) \<Rightarrow>
        if cs_redis s then
          (case rv_close env r of (None, r1) \<Rightarrow> (None, s\<lparr>cs_redis := False\<rparr>, r1) | (Some e, r1) \<Rightarrow> (Some e, s, r1))
        else (None, s, r))"

definition cs_deserialize :: "('v, 'b, 'r) redis_env \<Rightarrow> 'b option \<Rightarrow> 'v option" where
  "cs_deserialize env raw =
     (case raw of
        None \<Rightarrow> None
      | Some b \<Rightarrow> (case rv_loads env b of None \<Rightarrow> Some (rv_text env b) | Some v \<Rightarrow> v))"

definition cs_get :: "('v, 'b, 'r) redis_env \<Rightarrow> string \<Rightarrow> cache_service \<times> 'r \<Rightarrow> (py_error + 'v option) \<times> cache_service \<times> 'r" where
  "cs_get env key st =
     (case st of (s, r) \<Rightarrow>
        if \<not> cs_redis s then (Inr None, s, r)
        else (case rv_get env key r of
                (Inl e, r1) \<Rightarrow> (Inl e, s, r1)
              | (Inr raw, r1) \<Rightarrow> (Inr (cs_deserialize env raw), s, r1)))"

definition cs_set ::
  "('v, 'b, 'r) redis_env \<Rightarrow> string \<Rightarrow> 'v option \<Rightarrow> int option \<Rightarrow> cache_service \<times> 'r \<Rightarrow> py_error option \<times> cache_service \<times> 'r" where
  \<comment> \<open>\<open>json.dumps(default=str)\<close> may still refuse a value\<close>
  "cs_set env key v ttl st =
     (case st of (s, r) \<Rightarrow>
        if \<not> cs_redis s then (None, s, r)
        else (case rv_dumps env v of
                None \<Rightarrow> (Some TypeError, s, r)
              | Some b \<Rightarrow>
                  (let (e, r1) = rv_setex env key (case ttl of None \<Rightarrow> cs_default_ttl s | Some t \<Rightarrow> t) b r in (e, s, r1))))"

definition cs_set_persistent ::
  "('v, 'b, 'r) redis_env \<Rightarrow> string \<Rightarrow> 'v option \<Rightarrow> cache_service \<times> 'r \<Rightarrow> py_error option \<times> cache_service \<times> 'r" where
  "cs_set_persistent env key v st =
     (case st of (s, r) \<Rightarrow>
        if \<not> cs_redis s then (None, s, r)
        else (case rv_dumps env v of
                None \<Rightarrow> (Some TypeError, s, r)
              | Some b \<Rightarrow> (let (e, r1) = rv_set env key b r in (e, s, r1))))"

definition cs_delete :: "('v, 'b, 'r) redis_env \<Rightarrow> string \<Rightarrow> cache_service \<times> 'r \<Rightarrow> py_error option \<times> cache_service \<times> 'r" where
  "cs_delete env key st =
     (case st of (s, r) \<Rightarrow>
        if \<not> cs_redis s then (None, s, r) else (let (e, r1) = rv_delete env [key] r in (e, s, r1)))"

definition cs_pop :: "('v, 'b, 'r) redis_env \<Rightarrow> string \<Rightarrow> cache_service \<times> 'r \<Rightarrow> (py_error + 'v option) \<times> cache_service \<times> 'r" where
  \<comment> \<open>a server without \<open>GETDEL\<close> gets a read and a delete\<close>
  "cs_pop env key st =
     (case st of (s, r) \<Rightarrow>
        if \<not> cs_redis s then (Inr None, s, r)
        else (case rv_getdel env key r of
                (Inr raw, r1) \<Rightarrow> (Inr (cs_deserialize env raw), s, r1)
              | (Inl e, r1) \<Rightarrow>
                  (case rv_get env key r1 of
                     (Inl e', r2) \<Rightarrow> (Inl e', s, r2)
                   | (Inr None, r2) \<Rightarrow> (Inr None, s, r2)
                   | (Inr (Some raw), r2) \<Rightarrow>
                       (case rv_delete env [key] r2 of
                          (Some e', r3) \<Rightarrow> (Inl e', s, r3)
                        | (None, r3) \<Rightarrow> (Inr (cs_deserialize env (Some raw)), s, r3)))))"

definition cs_remember ::
  "('v, 'b, 'r) redis_env \<Rightarrow> string \<Rightarrow> int \<Rightarrow> ('r \<Rightarrow> (py_error + 'v option) \<times> 'r) \<Rightarrow> cache_service \<times> 'r \<Rightarrow>
     (py_error + 'v option) \<times> cache_service \<times> 'r" where
  "cs_remember env key ttl factory st =
     (case cs_get env key st of
        (Inl e, st1) \<Rightarrow> (Inl e, st1)
      | (Inr (Some v), st1) \<Rightarrow> (Inr (Some v), st1)
      | (Inr None, s1, r1) \<Rightarrow>
          (case factory r1 of
             (Inl e, r2) \<Rightarrow> (Inl e, s1, r2)
           | (Inr v, r2) \<Rightarrow>
               (case cs_set env key v (Some ttl) (s1, r2) of
                  (Some e, st3) \<Rightarrow> (Inl e, st3)
                | (None, st3) \<Rightarrow> (Inr v, st3))))"

subsection \<open>Where an answer comes from\<close>

definition from_redis :: "('v, 'b, 'r) redis_env \<Rightarrow> string \<Rightarrow> 'v \<Rightarrow> bool" where
  \<comment> \<open>the server gave a payload of the key that reads as the value\<close>
  "from_redis env nkey v \<longleftrightarrow> (\<exists>r raw. fst (rv_get env nkey r) = Inr (Some raw) \<and> cm_deserialize env raw = Some v)"

lemma try_connect_frame:
  "try_connect env (m, r) = (up, m', r') \<Longrightarrow> cm_l1 m' = cm_l1 m \<and> cm_namespace m' = cm_namespace m \<and> cm_default_ttl m' = cm_default_ttl m \<and> (cm_redis m \<or> up = cm_redis m' \<or> \<not> up)"
  by (auto simp: try_connect_def split: if_splits prod.splits bool.splits)

lemma ensure_redis_frame:
  assumes "ensure_redis env (m, r) = (up, m', r')"
  shows "cm_l1 m' = cm_l1 m" "cm_namespace m' = cm_namespace m" "cm_default_ttl m' = cm_default_ttl m"
  using assms try_connect_frame [of env "m\<lparr>cm_redis := False, cm_connected := None\<rparr>"] try_connect_frame [of env m]
  by (fastforce simp: ensure_redis_def split: if_splits prod.splits bool.splits)+

lemma read_l2_frame:
  assumes "read_l2 env key (m, r) = (x, m', r')"
  shows "cm_l1 m' = cm_l1 m" "cm_namespace m' = cm_namespace m"
    and "x = Some v \<Longrightarrow> from_redis env (namespaced m key) v"
proof -
  obtain up m1 r1 where e: "ensure_redis env (m, r) = (up, m1, r1)" by (metis prod_cases3)
  note fr = ensure_redis_frame [OF e]
  from assms e fr show "cm_l1 m' = cm_l1 m" "cm_namespace m' = cm_namespace m"
    by (auto simp: read_l2_def lost_def split: bool.splits prod.splits sum.splits option.splits)
  assume x: "x = Some v"
  have up: up using assms e x by (cases up) (simp_all add: read_l2_def)
  obtain raw r2 where g: "rv_get env (namespaced m1 key) r1 = (Inr (Some raw), r2)" and d: "cm_deserialize env raw = Some v"
    using assms e x up by (auto simp: read_l2_def split: prod.splits sum.splits option.splits)
  have n: "namespaced m1 key = namespaced m key" using fr by (simp add: namespaced_def)
  show "from_redis env (namespaced m key) v" using g d unfolding from_redis_def n by (metis fst_conv)
qed

lemma await_frame:
  "await_winner env n key (m, r) = (x, m', r') \<Longrightarrow>
     cm_l1 m' = cm_l1 m \<and> cm_namespace m' = cm_namespace m \<and> (\<forall>v. x = Some v \<longrightarrow> from_redis env (namespaced m key) v)"
proof (induction n arbitrary: m r)
  case (Suc n)
  obtain y m1 r1 where rd: "read_l2 env key (m, rv_sleep env r) = (y, m1, r1)" by (metis prod_cases3)
  note fr = read_l2_frame [OF rd]
  show ?case
  proof (cases y)
    case None
    then have "await_winner env n key (m1, r1) = (x, m', r')" using Suc.prems rd by simp
    then show ?thesis using Suc.IH fr(1,2) by (fastforce simp: namespaced_def)
  next
    case (Some v)
    then show ?thesis using Suc.prems rd fr by auto
  qed
qed simp

lemma compute_value_res: "fst (compute_value env key ttl f lk h (m, r)) = fst (f r)"
  by (simp add: compute_value_def Let_def split: prod.split sum.split)

lemma single_flight_res:
  "(\<exists>r1. fst (single_flight env key t f (m, r)) = fst (f r1))
     \<or> (\<exists>v. fst (single_flight env key t f (m, r)) = Inr (Some v) \<and> from_redis env (namespaced m key) v)"
proof -
  obtain up m3 r3 where e: "ensure_redis env (m, r) = (up, m3, r3)" by (metis prod_cases3)
  define lk where "lk = namespaced m (lock_name key)"
  obtain holds m4 r4 where l: "take_lock env lk (m3, r3) = (holds, m4, r4)" by (metis prod_cases3)
  have m4: "m4 = m3" using l by (auto simp: take_lock_def split: prod.splits sum.splits)
  obtain x m5 r5 where w: "await_winner env lock_wait_attempts key (m4, r4) = (x, m5, r5)" by (metis prod_cases3)
  have n: "namespaced m4 key = namespaced m key" using ensure_redis_frame [OF e] m4 by (simp add: namespaced_def)
  consider "\<not> up" | "up" "holds" | "up" "\<not> holds" "x = None" | v where "up" "\<not> holds" "x = Some v" by auto
  then show ?thesis
  proof cases
    case 4
    then have "from_redis env (namespaced m key) v" using await_frame [OF w] n by simp
    then show ?thesis using 4 e l w by (simp add: single_flight_def Let_def flip: lk_def)
  qed (use e l w in \<open>auto simp: single_flight_def compute_value_res Let_def simp flip: lk_def\<close>)
qed

lemma get_or_compute_miss:
  assumes "lru_get key (cm_l1 m) = (hit, l1)" "\<And>v. hit \<noteq> Some (Some v)" "read_l2 env key (m\<lparr>cm_l1 := l1\<rparr>, r) = (c, m2, r2)"
  shows "get_or_compute env key ttl func (m, r) =
     (case c of
        Some v \<Rightarrow> (Inr (Some v), l1_put key (Some v) m2, r2)
      | None \<Rightarrow> (case func of
                   None \<Rightarrow> (Inr None, m2, r2)
                 | Some f \<Rightarrow> single_flight env key (case ttl of None \<Rightarrow> cm_default_ttl m | Some x \<Rightarrow> x) f (m2, r2)))"
  using assms by (cases hit) (auto simp: get_or_compute_def Let_def split: option.split)

text \<open>C20: the cache manager is transparent: whatever Redis and the other workers do, a call answers with the
  value in memory, with a payload Redis gave for the key, or with what the function returned, and it
  raises only what the function raised: no failure of Redis reaches the caller.\<close>

theorem get_or_compute_sound:
  "case fst (get_or_compute env key ttl func (m, r)) of
     Inl e \<Rightarrow> \<exists>f r1. func = Some f \<and> fst (f r1) = Inl e
   | Inr None \<Rightarrow> func = None \<or> (\<exists>f r1. func = Some f \<and> fst (f r1) = Inr None)
   | Inr (Some v) \<Rightarrow> dict_get (lru_data (cm_l1 m)) key = Some (Some v) \<or> from_redis env (namespaced m key) v
       \<or> (\<exists>f r1. func = Some f \<and> fst (f r1) = Inr (Some v))"
proof -
  obtain hit l1 where l: "lru_get key (cm_l1 m) = (hit, l1)" by (cases "lru_get key (cm_l1 m)")
  have hit: "dict_get (lru_data (cm_l1 m)) key = hit" using l by (auto simp: lru_get_def split: option.splits)
  obtain c m2 r2 where rd: "read_l2 env key (m\<lparr>cm_l1 := l1\<rparr>, r) = (c, m2, r2)" by (metis prod_cases3)
  have n: "namespaced (m\<lparr>cm_l1 := l1\<rparr>) key = namespaced m key" "namespaced m2 key = namespaced m key"
    using read_l2_frame(2) [OF rd] by (simp_all add: namespaced_def)
  show ?thesis
  proof (cases "\<exists>v. hit = Some (Some v)")
    case True
    then show ?thesis using l hit by (auto simp: get_or_compute_def Let_def)
  next
    case False
    then have g: "get_or_compute env key ttl func (m, r) =
      (case c of
         Some v \<Rightarrow> (Inr (Some v), l1_put key (Some v) m2, r2)
       | None \<Rightarrow> (case func of
                    None \<Rightarrow> (Inr None, m2, r2)
                  | Some f \<Rightarrow> single_flight env key (case ttl of None \<Rightarrow> cm_default_ttl m | Some x \<Rightarrow> x) f (m2, r2)))"
      using get_or_compute_miss [OF l _ rd] by blast
    show ?thesis
    proof (cases c)
      case (Some v)
      then show ?thesis using read_l2_frame(3) [OF rd Some] n by (simp add: g)
    next
      case None
      show ?thesis
      proof (cases func)
        case f: (Some f)
        define t where "t = (case ttl of None \<Rightarrow> cm_default_ttl m | Some x \<Rightarrow> x)"
        have res: "get_or_compute env key ttl (Some f) (m, r) = single_flight env key t f (m2, r2)"
          using g by (simp add: None f t_def)
        from single_flight_res [of env key t f m2 r2] show ?thesis
        proof (elim disjE exE conjE)
          fix r1
          assume "fst (single_flight env key t f (m2, r2)) = fst (f r1)"
          then show ?thesis unfolding f res by (cases "fst (f r1)") (auto split: option.split)
        next
          fix v
          assume "fst (single_flight env key t f (m2, r2)) = Inr (Some v)" "from_redis env (namespaced m2 key) v"
          then show ?thesis unfolding f res using n by simp
        qed
      next
        case no: None
        have "get_or_compute env key ttl None (m, r) = (Inr None, m2, r2)" using g by (simp add: None no)
        then show ?thesis unfolding no by simp
      qed
    qed
  qed
qed


subsection \<open>Without a server\<close>

lemma down_ensure:
  assumes "\<And>r. fst (rv_connect env r) = False" "\<not> cm_redis m"
  shows "\<exists>m' r'. ensure_redis env (m, r) = (False, m', r') \<and> \<not> cm_redis m' \<and> cm_l1 m' = cm_l1 m \<and> cm_namespace m' = cm_namespace m"
proof -
  obtain r' where "rv_connect env r = (False, r')" using assms(1) [of r] by (cases "rv_connect env r") auto
  then show ?thesis using assms(2) by (auto simp: ensure_redis_def try_connect_def)
qed

lemma down_read:
  assumes "\<And>r. fst (rv_connect env r) = False" "\<not> cm_redis m"
  shows "\<exists>m' r'. read_l2 env key (m, r) = (None, m', r') \<and> \<not> cm_redis m' \<and> cm_l1 m' = cm_l1 m"
  using down_ensure [OF assms, of r] by (auto simp: read_l2_def)

lemma down_write:
  assumes "\<And>r. fst (rv_connect env r) = False" "\<not> cm_redis m"
  shows "\<exists>m' r'. write_l2 env key v ttl (m, r) = (m', r') \<and> \<not> cm_redis m' \<and> cm_l1 m' = cm_l1 m"
  using down_ensure [OF assms, of r] by (auto simp: write_l2_def)

lemma lru_get_after_put: "lru_ok c \<Longrightarrow> fst (lru_get k (lru_put k v c)) = Some v"
  using memory.insert_same [of c k v] by (simp add: lru_get_def)

lemma lru_get_ok: "lru_ok c \<Longrightarrow> lru_get k c = (x, c') \<Longrightarrow> lru_ok c'"
  using lru_step_ok [of c "LGet k"] by simp

text \<open>Without Redis the manager degrades to its memory: when no connection succeeds, a call whose key is
  not in memory runs the function, keeps its value in memory whatever the time to live, and the next
  call answers that value without the function.\<close>

theorem degrades_to_memory:
  assumes "\<And>r. fst (rv_connect env r) = False" "\<not> cm_redis m" "lru_ok (cm_l1 m)"
    and "dict_get (lru_data (cm_l1 m)) key = None" "\<And>r. fst (f r) = Inr (Some v)"
    and "get_or_compute env key ttl (Some f) (m, r) = (res, m', r')"
  shows "res = Inr (Some v) \<and> \<not> cm_redis m' \<and> fst (get_or_compute env key ttl' g (m', r'')) = Inr (Some v)"
proof -
  have l: "lru_get key (cm_l1 m) = (None, cm_l1 m)" using assms(4) by (simp add: lru_get_def)
  obtain m2 r2 where rd: "read_l2 env key (m\<lparr>cm_l1 := cm_l1 m\<rparr>, r) = (None, m2, r2)" and m2: "\<not> cm_redis m2" "cm_l1 m2 = cm_l1 m"
    using down_read [OF assms(1,2), of key r] by auto
  define t where "t = (case ttl of None \<Rightarrow> cm_default_ttl m | Some x \<Rightarrow> x)"
  have g: "get_or_compute env key ttl (Some f) (m, r) = single_flight env key t f (m2, r2)"
    using get_or_compute_miss [OF l _ rd] by (simp add: t_def)
  obtain m3 r3 where e: "ensure_redis env (m2, r2) = (False, m3, r3)" and m3: "\<not> cm_redis m3" "cm_l1 m3 = cm_l1 m"
    using down_ensure [OF assms(1) m2(1), of r2] m2(2) by auto
  obtain r4 where f: "f r3 = (Inr (Some v), r4)" using assms(5) [of r3] by (cases "f r3") auto
  have "\<not> cm_redis (l1_put key (Some v) m3)" using m3 by (simp add: l1_put_def)
  then obtain m5 r5 where w: "write_l2 env key (Some v) t (l1_put key (Some v) m3, r4) = (m5, r5)"
    and m5: "\<not> cm_redis m5" "cm_l1 m5 = lru_put key (Some v) (cm_l1 m)"
    using down_write [OF assms(1), of "l1_put key (Some v) m3" key "Some v" t r4] m3 by (auto simp: l1_put_def)
  have "(res, m', r') = (Inr (Some v), m5, r5)"
    using assms(6) e f w by (simp add: g single_flight_def compute_value_def Let_def)
  then have res: "res = Inr (Some v)" "m' = m5" by auto
  have "fst (lru_get key (cm_l1 m5)) = Some (Some v)" using lru_get_after_put [OF assms(3)] by (simp add: m5)
  then obtain l1 where "lru_get key (cm_l1 m5) = (Some (Some v), l1)" by (cases "lru_get key (cm_l1 m5)") auto
  then have "fst (get_or_compute env key ttl' g (m5, r'')) = Inr (Some v)" by (simp add: get_or_compute_def)
  then show ?thesis using res m5 by simp
qed


text \<open>A server that never answers, on which a call is run.\<close>

definition down_env :: "(nat, string, unit) redis_env" where
  "down_env =
     \<lparr>rv_connect = (\<lambda>r. (False, r)), rv_ping = (\<lambda>r. (False, r)), rv_get = (\<lambda>k r. (Inl RuntimeError, r)),
      rv_getdel = (\<lambda>k r. (Inl RuntimeError, r)), rv_setex = (\<lambda>k t b r. (Some RuntimeError, r)),
      rv_set = (\<lambda>k b r. (Some RuntimeError, r)), rv_set_nx = (\<lambda>k t r. (Inl RuntimeError, r)),
      rv_delete = (\<lambda>ks r. (Some RuntimeError, r)), rv_close = (\<lambda>r. (None, r)), rv_sleep = (\<lambda>r. r),
      rv_dumps = (\<lambda>v. Some []), rv_loads = (\<lambda>b. None), rv_text = (\<lambda>b. 0)\<rparr>"

theorem degrades_to_memory_witness:
  "fst (get_or_compute down_env ''k'' None None (snd (get_or_compute down_env ''k'' (Some 5) (Some (\<lambda>r. (Inr (Some 7), r)))
     (cm_init 10 300 ''cm'', ())))) = Inr (Some 7)"
proof -
  obtain res m' r' where g: "get_or_compute down_env ''k'' (Some 5) (Some (\<lambda>r. (Inr (Some 7), r))) (cm_init 10 300 ''cm'', ()) = (res, m', r')"
    by (metis prod_cases3)
  show ?thesis
    using degrades_to_memory [of down_env "cm_init 10 300 ''cm''" "''k''" "\<lambda>r. (Inr (Some 7), r)" 7, OF _ _ _ _ _ g, of None None r'] g
    by (simp add: down_env_def cm_init_def) (simp add: lru_init_def)
qed

subsection \<open>Two workers on one server\<close>

definition healthy :: "('v, 'b, 'r) redis_env \<Rightarrow> bool" where
  \<comment> \<open>connections succeed and change nothing, and payloads read back\<close>
  "healthy env \<longleftrightarrow> (\<forall>r. rv_connect env r = (True, r) \<and> rv_ping env r = (True, r))
     \<and> (\<forall>v. \<exists>b. rv_dumps env (Some v) = Some b \<and> rv_loads env b = Some (Some v))"

lemma healthy_ensure:
  assumes "healthy env" "cm_connected m \<noteq> Some False"
  shows "\<exists>m'. ensure_redis env (m, r) = (True, m', r) \<and> cm_l1 m' = cm_l1 m \<and> cm_namespace m' = cm_namespace m \<and> cm_redis m'"
  using assms by (auto simp: ensure_redis_def try_connect_def healthy_def)

text \<open>A value set by one worker is read by every other one: on a server that works, when nothing else
  happens to the key in between, \<open>get\<close> of another manager with the same namespace, whose memory does not
  have the key, answers the value that \<open>set\<close> wrote, and keeps it in memory.\<close>

theorem workers_share:
  assumes "healthy env" "cm_connected m \<noteq> Some False" "cm_connected m2 \<noteq> Some False" "cm_namespace m2 = cm_namespace m"
    and "dict_get (lru_data (cm_l1 m2)) key = None" "lru_ok (cm_l1 m2)"
    and setex: "\<And>b. rv_setex env (namespaced m key) t b r = (None, wr b)"
    and reads: "\<And>b. rv_get env (namespaced m key) (wr b) = (Inr (Some b), wr b)"
    and "cm_get env key (m2, snd (cm_set env key (Some v) (Some t) (m, r))) = (res, m2', r')"
  shows "res = Inr (Some v) \<and> dict_get (lru_data (cm_l1 m2')) key = Some (Some v)"
proof -
  obtain b where b: "rv_dumps env (Some v) = Some b" "rv_loads env b = Some (Some v)" using assms(1) by (auto simp: healthy_def)
  obtain m1 where e: "ensure_redis env (l1_put key (Some v) m, r) = (True, m1, r)" and n: "cm_namespace m1 = cm_namespace m"
    using healthy_ensure [OF assms(1), of "l1_put key (Some v) m" r] assms(2) by (auto simp: l1_put_def)
  have "snd (cm_set env key (Some v) (Some t) (m, r)) = wr b"
    using e n b setex by (simp add: cm_set_def write_l2_def namespaced_def)
  moreover have l: "lru_get key (cm_l1 m2) = (None, cm_l1 m2)" using assms(5) by (simp add: lru_get_def)
  moreover obtain m3 where e3: "ensure_redis env (m2\<lparr>cm_l1 := cm_l1 m2\<rparr>, wr b) = (True, m3, wr b)"
      and m3: "cm_namespace m3 = cm_namespace m" "cm_l1 m3 = cm_l1 m2"
    using healthy_ensure [OF assms(1), of "m2\<lparr>cm_l1 := cm_l1 m2\<rparr>" "wr b"] assms(3,4) by auto
  moreover have rd: "read_l2 env key (m2\<lparr>cm_l1 := cm_l1 m2\<rparr>, wr b) = (Some v, m3, wr b)"
    using e3 m3 reads [of b] b by (simp add: read_l2_def namespaced_def cm_deserialize_def)
  ultimately have "(res, m2', r') = (Inr (Some v), l1_put key (Some v) m3, wr b)"
    using assms(9) get_or_compute_miss [OF l _ rd, of None None] by (simp add: cm_get_def)
  then show ?thesis using memory.insert_same [OF assms(6), of key "Some v"] by (simp add: l1_put_def m3)
qed


text \<open>A server that works: a dictionary from names to payloads, times to live left out.\<close>

definition dict_env :: "(nat, nat, (string, nat) pydict) redis_env" where
  "dict_env =
     \<lparr>rv_connect = (\<lambda>r. (True, r)), rv_ping = (\<lambda>r. (True, r)), rv_get = (\<lambda>k r. (Inr (dict_get r k), r)),
      rv_getdel = (\<lambda>k r. (Inr (dict_get r k), dict_del k r)), rv_setex = (\<lambda>k t b r. (None, dict_set k b r)),
      rv_set = (\<lambda>k b r. (None, dict_set k b r)),
      rv_set_nx = (\<lambda>k t r. if dict_get r k = None then (Inr True, dict_set k 1 r) else (Inr False, r)),
      rv_delete = (\<lambda>ks r. (None, fold dict_del ks r)), rv_close = (\<lambda>r. (None, r)), rv_sleep = (\<lambda>r. r),
      rv_dumps = (\<lambda>v. Some (case v of None \<Rightarrow> 0 | Some n \<Rightarrow> Suc n)),
      rv_loads = (\<lambda>b. Some (if b = 0 then None else Some (b - 1))), rv_text = (\<lambda>b. b)\<rparr>"

theorem workers_share_witness:
  "fst (cm_get dict_env ''k'' (cm_init 10 300 ''cm'', snd (cm_set dict_env ''k'' (Some 7) (Some 60) (cm_init 10 300 ''cm'', [])))) = Inr (Some 7)"
proof -
  obtain res m' r' where g: "cm_get dict_env ''k'' (cm_init 10 300 ''cm'', snd (cm_set dict_env ''k'' (Some 7) (Some 60)
      (cm_init 10 300 ''cm'', []))) = (res, m', r')"
    by (metis prod_cases3)
  have "healthy dict_env" by (simp add: healthy_def dict_env_def)
  then show ?thesis
    using workers_share [of dict_env "cm_init 10 300 ''cm''" "cm_init 10 300 ''cm''" "''k''" 60 "[]" "\<lambda>b. [(''cm:k'', b)]", OF _ _ _ _ _ _ _ _ g] g
    by (simp add: cm_init_def dict_env_def namespaced_def) (simp add: lru_init_def)
qed

lemma failed_lock_frees_others:
  \<comment> \<open>a worker whose \<open>SET NX\<close> failed deletes the lock that another worker holds\<close>
  "snd (snd (get_or_compute (dict_env\<lparr>rv_set_nx := (\<lambda>k t r. (Inl RuntimeError, r))\<rparr>) ''k'' None (Some (\<lambda>r. (Inr None, r)))
     (cm_init 10 300 ''cm'', [(''cm:lock:k'', 1)]))) = [(''cm:k'', 0)]"
  by (simp add: get_or_compute_def single_flight_def read_l2_def ensure_redis_def try_connect_def take_lock_def compute_value_def
      write_l2_def l1_put_def dict_env_def cm_init_def lru_init_def lru_get_def namespaced_def lock_name_def)

end
