(* ===== verification/Indicators.thy ===== *)
theory Indicators
  imports Prelude
begin

text \<open>
  The technical indicators (\<open>core/indicators.py\<close>). Values are rationals; \<open>np.std\<close>, which is not part of
  the repository, is an argument of the volatility score. Python's slices and indices count from the end
  when negative, and dividing by a zero period raises.
\<close>

subsection \<open>Moving averages\<close>

definition compute_sma :: "pyfloat list \<Rightarrow> int \<Rightarrow> pyfloat" where
  "compute_sma values period =
     (if values = [] \<or> period \<le> 0 then 0
      else (let window = slice_from (- period) values in sum_list window / of_nat (length window)))"

definition ema_step :: "pyfloat \<Rightarrow> pyfloat \<Rightarrow> pyfloat \<Rightarrow> pyfloat" where
  "ema_step alpha v ema = alpha * v + (1 - alpha) * ema"

definition compute_ema :: "pyfloat list \<Rightarrow> int \<Rightarrow> pyfloat" where
  "compute_ema values period =
     (if values = [] \<or> period \<le> 0 then 0
      else if int (length values) < period then sum_list values / of_nat (length values)
      else fold (ema_step (2 / (of_int period + 1))) (slice_from period values) (sum_list (slice_to period values) / of_int period))"

fun ema_tail :: "pyfloat \<Rightarrow> pyfloat \<Rightarrow> pyfloat list \<Rightarrow> pyfloat list" where
  "ema_tail alpha ema [] = []"
| "ema_tail alpha ema (v # vs) = (let e = ema_step alpha v ema in e # ema_tail alpha e vs)"

definition compute_ema_series :: "pyfloat list \<Rightarrow> int \<Rightarrow> pyfloat list" where
  "compute_ema_series values period =
     (if values = [] \<or> period \<le> 0 \<or> int (length values) < period then []
      else (let ema = sum_list (slice_to period values) / of_int period
            in ema # ema_tail (2 / (of_int period + 1)) ema (slice_from period values)))"

subsection \<open>RSI and ATR\<close>

definition wilder :: "int \<Rightarrow> pyfloat \<Rightarrow> pyfloat \<Rightarrow> pyfloat" where
  "wilder period x avg = (avg * of_int (period - 1) + x) / of_int period"

definition deltas :: "pyfloat list \<Rightarrow> pyfloat list" where
  "deltas closes = map (\<lambda>i. closes ! i - closes ! (i - 1)) [1..<length closes]"

definition compute_rsi :: "pyfloat list \<Rightarrow> int \<Rightarrow> py_error + pyfloat" where
  "compute_rsi closes period =
     (if int (length closes) < period + 1 then Inr 50
      else if period = 0 then Inl ZeroDivisionError
      else
        (let gains = map (\<lambda>d. max d 0) (deltas closes);
             losses = map (\<lambda>d. max (- d) 0) (deltas closes);
             avg_gain = fold (wilder period) (slice_from period gains) (sum_list (slice_to period gains) / of_int period);
             avg_loss = fold (wilder period) (slice_from period losses) (sum_list (slice_to period losses) / of_int period)
         in if avg_loss < 1 / 10 ^ 10 then Inr 100
            else (let rs = avg_gain / avg_loss in if 1 + rs = 0 then Inl ZeroDivisionError else Inr (100 - 100 / (1 + rs)))))"

definition true_range :: "pyfloat list \<Rightarrow> pyfloat list \<Rightarrow> pyfloat list \<Rightarrow> nat \<Rightarrow> pyfloat" where
  "true_range highs lows closes i =
     max (max (highs ! i - lows ! i) \<bar>highs ! i - closes ! (i - 1)\<bar>) \<bar>lows ! i - closes ! (i - 1)\<bar>"

definition compute_atr :: "pyfloat list \<Rightarrow> pyfloat list \<Rightarrow> pyfloat list \<Rightarrow> int \<Rightarrow> py_error + pyfloat option" where
  "compute_atr highs lows closes period =
     (if int (length closes) < period + 1 then Inr None
      else if \<exists>i \<in> set [1..<length closes]. length highs \<le> i \<or> length lows \<le> i then Inl IndexError
      else
        (let trs = map (true_range highs lows closes) [1..<length closes]
         in if int (length trs) < period then Inr None
            else if period = 0 then Inl ZeroDivisionError
            else Inr (Some (fold (wilder period) (slice_from period trs) (sum_list (slice_to period trs) / of_int period)))))"

subsection \<open>MACD\<close>

record macd_result =
  macd_line :: pyfloat
  signal_line :: pyfloat
  histogram :: pyfloat
  direction :: pyfloat

definition no_macd :: macd_result where
  "no_macd = \<lparr>macd_line = 0, signal_line = 0, histogram = 0, direction = 0\<rparr>"

fun collect :: "(py_error + 'a) list \<Rightarrow> py_error + 'a list" where
  \<comment> \<open>a list comprehension whose elements may raise\<close>
  "collect [] = Inr []"
| "collect (Inl e # xs) = Inl e"
| "collect (Inr x # xs) = (case collect xs of Inl e \<Rightarrow> Inl e | Inr ys \<Rightarrow> Inr (x # ys))"

definition macd_values :: "pyfloat list \<Rightarrow> int \<Rightarrow> int \<Rightarrow> py_error + pyfloat list" where
  "macd_values closes fast slow =
     (let fs = compute_ema_series closes fast; ss = compute_ema_series closes slow
      in collect (map (\<lambda>i. case py_nth fs (slow - fast + int i) of Inl e \<Rightarrow> Inl e | Inr f \<Rightarrow> Inr (f - ss ! i)) [0..<length ss]))"

definition compute_macd :: "pyfloat list \<Rightarrow> int \<Rightarrow> int \<Rightarrow> int \<Rightarrow> py_error + macd_result" where
  "compute_macd closes fast slow signal_period =
     (if int (length closes) < slow + signal_period then Inr no_macd
      else
        (case macd_values closes fast slow of
           Inl e \<Rightarrow> Inl e
         | Inr vs \<Rightarrow>
             if vs = [] then Inr no_macd
             else
               (let line = last vs;
                    signal = (if int (length vs) \<ge> signal_period then compute_ema vs signal_period
                              else sum_list vs / of_nat (length vs))
                in Inr \<lparr>macd_line = line, signal_line = signal, histogram = line - signal,
                        direction = (if line > signal then 1 else if line < signal then -1 else 0)\<rparr>)))"

definition compute_macd_signal :: "pyfloat list \<Rightarrow> py_error + pyfloat" where
  "compute_macd_signal closes = (case compute_macd closes 12 26 9 of Inl e \<Rightarrow> Inl e | Inr x \<Rightarrow> Inr (direction x))"

subsection \<open>Trend, volatility, quality\<close>

definition from_end :: "pyfloat list \<Rightarrow> nat \<Rightarrow> pyfloat" where
  \<comment> \<open>\<open>closes[-i]\<close> for an \<open>i\<close> within the list\<close>
  "from_end closes i = closes ! (length closes - i)"

definition compute_trend_strength :: "pyfloat list \<Rightarrow> int \<Rightarrow> pyfloat" where
  "compute_trend_strength closes period =
     (if int (length closes) < period + 1 then 1 / 2
      else
        (let is = [1..<nat period + 1];
             up_days = length (filter (\<lambda>i. from_end closes i > from_end closes (i + 1)) is);
             down_days = length (filter (\<lambda>i. from_end closes i < from_end closes (i + 1)) is);
             total = up_days + down_days
         in if total = 0 then 1 / 2
            else min 1 (of_int \<bar>int up_days - int down_days\<bar> / of_nat total * (3 / 2))))"

definition compute_volatility_regime :: "(pyfloat list \<Rightarrow> pyfloat) \<Rightarrow> pyfloat list \<Rightarrow> int \<Rightarrow> pyfloat \<Rightarrow> pyfloat" where
  \<comment> \<open>\<open>std\<close> is \<open>np.std\<close>; the indices run from \<open>-period\<close> to \<open>-1\<close>\<close>
  "compute_volatility_regime std closes period scale =
     (if int (length closes) < period + 1 then 1 / 2
      else
        (let returns = map (\<lambda>i. (from_end closes i - from_end closes (i + 1)) / max (from_end closes (i + 1)) (1 / 1000))
                         (filter (\<lambda>i. 0 < from_end closes (i + 1)) (rev [1..<nat period + 1]))
         in if returns = [] then 1 / 2 else min 1 (std returns * scale)))"

definition compute_data_quality_score :: "int \<Rightarrow> int \<Rightarrow> int \<Rightarrow> int \<Rightarrow> pyfloat" where
  "compute_data_quality_score total_fields missing_fields total_price_points min_price_points =
     (if total_fields \<le> 0 \<and> total_price_points \<le> 0 then 1 / 2
      else
        (let field_score = (if total_fields > 0 then max 0 (1 - of_int missing_fields / of_int (max total_fields 1)) else 1);
             history_score = (if min_price_points > 0 then min 1 (of_int total_price_points / of_int min_price_points) else 1)
         in of_int (py_round (field_score * history_score * 1000)) / 1000))"

subsection \<open>Moving averages stay within their data\<close>

lemma average_bounds:
  fixes xs :: "pyfloat list"
  assumes "xs \<noteq> []" "\<forall>x \<in> set xs. lo \<le> x \<and> x \<le> hi"
  shows "lo \<le> sum_list xs / of_nat (length xs) \<and> sum_list xs / of_nat (length xs) \<le> hi"
proof -
  have "lo * of_nat (length xs) \<le> sum_list xs \<and> sum_list xs \<le> hi * of_nat (length xs)"
    using assms(2) by (induction xs) (auto simp: algebra_simps)
  moreover have "(0::rat) < of_nat (length xs)" using assms(1) by simp
  ultimately show ?thesis by (simp add: pos_le_divide_eq pos_divide_le_eq)
qed

lemma blend_bounds:
  fixes a :: pyfloat
  assumes "0 \<le> a" "a \<le> 1" "lo \<le> x" "x \<le> hi" "lo \<le> y" "y \<le> hi"
  shows "lo \<le> a * x + (1 - a) * y \<and> a * x + (1 - a) * y \<le> hi"
proof -
  have "a * lo \<le> a * x" "(1 - a) * lo \<le> (1 - a) * y" "a * x \<le> a * hi" "(1 - a) * y \<le> (1 - a) * hi"
    using assms by (simp_all add: mult_left_mono)
  then show ?thesis by (simp add: algebra_simps)
qed

lemma fold_bounds:
  assumes "\<And>v e. v \<in> set vs \<Longrightarrow> lo \<le> e \<Longrightarrow> e \<le> hi \<Longrightarrow> lo \<le> f v e \<and> f v e \<le> (hi :: pyfloat)" "lo \<le> e" "e \<le> hi"
  shows "lo \<le> fold f vs e \<and> fold f vs e \<le> hi"
  using assms by (induction vs arbitrary: e) auto

lemma ema_bounds:
  assumes "values \<noteq> []" "0 < period" "\<forall>x \<in> set values. lo \<le> x \<and> x \<le> hi"
  shows "lo \<le> compute_ema values period \<and> compute_ema values period \<le> hi"
proof (cases "int (length values) < period")
  case True
  then show ?thesis using assms average_bounds [OF assms(1,3)] by (simp add: compute_ema_def)
next
  case False
  define al where "al = 2 / (of_int period + 1 :: pyfloat)"
  have al: "0 \<le> al" "al \<le> 1" using assms(2) by (simp_all add: al_def divide_le_eq)
  have seed: "lo \<le> sum_list (slice_to period values) / of_int period \<and> sum_list (slice_to period values) / of_int period \<le> hi"
  proof -
    have "length (slice_to period values) = nat period" "slice_to period values \<noteq> []" using assms(1,2) False by (simp_all add: slice_to_def)
    moreover have "\<forall>x \<in> set (slice_to period values). lo \<le> x \<and> x \<le> hi" using assms(3) by (auto simp: slice_to_def dest: in_set_takeD)
    ultimately show ?thesis using average_bounds [of "slice_to period values" lo hi] assms(2) by simp
  qed
  have "lo \<le> ema_step al v e \<and> ema_step al v e \<le> hi" if "v \<in> set (slice_from period values)" "lo \<le> e" "e \<le> hi" for v e
    using that assms(3) al blend_bounds [OF al] by (auto simp: ema_step_def slice_from_def dest!: in_set_dropD split: if_splits)
  then show ?thesis using assms False fold_bounds [of "slice_from period values" lo hi "ema_step al"] seed
    by (simp add: compute_ema_def al_def)
qed


lemma sma_bounds:
  assumes "values \<noteq> []" "0 < period" "\<forall>x \<in> set values. lo \<le> x \<and> x \<le> hi"
  shows "lo \<le> compute_sma values period \<and> compute_sma values period \<le> hi"
proof -
  have ne: "slice_from (- period) values \<noteq> []" using assms(1,2) by (cases "values") (auto simp: slice_from_def)
  have "\<forall>x \<in> set (slice_from (- period) values). lo \<le> x \<and> x \<le> hi" using assms(3) by (auto simp: slice_from_def dest: in_set_dropD)
  then show ?thesis using average_bounds [OF ne] assms(1,2) by (simp add: compute_sma_def Let_def)
qed

lemma wilder_nonneg:
  assumes "0 < period" "\<forall>x \<in> set xs. 0 \<le> x"
  shows "0 \<le> fold (wilder period) (slice_from period xs) (sum_list (slice_to period xs) / of_int period)"
proof -
  have seed: "0 \<le> sum_list (slice_to period xs) / of_int period"
    using assms by (intro divide_nonneg_nonneg sum_list_nonneg) (auto simp: slice_to_def dest: in_set_takeD)
  have "0 \<le> fold (wilder period) ys e" if "\<forall>y \<in> set ys. 0 \<le> y" "0 \<le> e" for ys e
    using that assms(1) by (induction ys arbitrary: e) (auto simp: wilder_def)
  moreover have "\<forall>y \<in> set (slice_from period xs). 0 \<le> y" using assms(2) by (auto simp: slice_from_def dest: in_set_dropD)
  ultimately show ?thesis using seed by blast
qed

lemma rsi_bounds:
  assumes "0 < period"
  shows "\<exists>x. compute_rsi closes period = Inr x \<and> 0 \<le> x \<and> x \<le> 100"
proof (cases "int (length closes) < period + 1")
  case True
  then show ?thesis by (simp add: compute_rsi_def)
next
  case False
  define g where "g = (let xs = map (\<lambda>d. max d 0) (deltas closes) in fold (wilder period) (slice_from period xs) (sum_list (slice_to period xs) / of_int period))"
  define l where "l = (let xs = map (\<lambda>d. max (- d) 0) (deltas closes) in fold (wilder period) (slice_from period xs) (sum_list (slice_to period xs) / of_int period))"
  have "0 \<le> g" "0 \<le> l" unfolding g_def l_def Let_def using assms by (auto intro!: wilder_nonneg)
  have r: "compute_rsi closes period =
      (if l < 1 / 10 ^ 10 then Inr 100 else if 1 + g / l = 0 then Inl ZeroDivisionError else Inr (100 - 100 / (1 + g / l)))"
    using False assms by (simp add: compute_rsi_def g_def l_def Let_def)
  show ?thesis
  proof (cases "l < 1 / 10 ^ 10")
    case True
    then show ?thesis by (simp add: r)
  next
    case big: False
    have "(0::pyfloat) < 1 / 10 ^ 10" by simp
    then have "0 < l" using big by linarith
    then have "0 \<le> g / l" using \<open>0 \<le> g\<close> by simp
    then have "1 \<le> 1 + g / l" by simp
    then have "0 \<le> 100 - 100 / (1 + g / l)" "100 - 100 / (1 + g / l) \<le> 100" by (simp_all add: divide_le_eq)
    then show ?thesis using big \<open>1 \<le> 1 + g / l\<close> by (auto simp: r)
  qed
qed

lemma trend_bounds: "0 \<le> compute_trend_strength closes period \<and> compute_trend_strength closes period \<le> 1"
  by (simp add: compute_trend_strength_def Let_def)

lemma atr_nonneg:
  assumes "0 < period" "length closes \<le> length highs" "length closes \<le> length lows"
  shows "\<exists>r. compute_atr highs lows closes period = Inr r \<and> (\<forall>x. r = Some x \<longrightarrow> 0 \<le> x)"
proof -
  have "\<not> (\<exists>i \<in> set [1..<length closes]. length highs \<le> i \<or> length lows \<le> i)" using assms(2,3) by auto
  moreover have "0 \<le> fold (wilder period) (slice_from period (map (true_range highs lows closes) [1..<length closes]))
      (sum_list (slice_to period (map (true_range highs lows closes) [1..<length closes])) / of_int period)"
    using assms(1) by (intro wilder_nonneg) (auto simp: true_range_def le_max_iff_disj)
  ultimately show ?thesis using assms(1) by (simp add: compute_atr_def Let_def)
qed

text \<open>The indicators stay in their ranges: for a positive period both moving averages lie between the
  least and the greatest value, the relative strength index is a number from 0 to 100, the trend
  strength is from 0 to 1, and the average true range, given as many highs and lows as closes, raises
  nothing and is never negative.\<close>

theorem indicator_ranges:
  assumes "0 < period" "values \<noteq> []" "\<forall>x \<in> set values. lo \<le> x \<and> x \<le> hi"
    and "length closes \<le> length highs" "length closes \<le> length lows"
  shows "(lo \<le> compute_sma values period \<and> compute_sma values period \<le> hi)
    \<and> (lo \<le> compute_ema values period \<and> compute_ema values period \<le> hi)
    \<and> (\<exists>x. compute_rsi closes period = Inr x \<and> 0 \<le> x \<and> x \<le> 100)
    \<and> (0 \<le> compute_trend_strength closes period \<and> compute_trend_strength closes period \<le> 1)
    \<and> (\<exists>r. compute_atr highs lows closes period = Inr r \<and> (\<forall>x. r = Some x \<longrightarrow> 0 \<le> x))"
  using sma_bounds [OF assms(2,1,3)] ema_bounds [OF assms(2,1,3)] rsi_bounds [OF assms(1)] trend_bounds
    atr_nonneg [OF assms(1,4,5)] by blast

theorem indicator_ranges_witness:
  "1 \<le> compute_ema [1, 5, 2] 2 \<and> compute_ema [1, 5, 2] 2 \<le> 5"
  using indicator_ranges [of 2 "[1, 5, 2]" 1 5 "[1, 2, 3]" "[1, 3, 4]" "[1, 1, 2]"] by simp

subsection \<open>The series agrees with the average of each prefix\<close>

lemma ema_tail_length [simp]: "length (ema_tail al e vs) = length vs"
  by (induction al e vs rule: ema_tail.induct) (simp_all add: Let_def)

lemma ema_tail_nth: "j \<le> length vs \<Longrightarrow> (e # ema_tail al e vs) ! j = fold (ema_step al) (take j vs) e"
proof (induction vs arbitrary: e j)
  case (Cons v vs)
  then show ?case using Cons.IH [of "j - 1" "ema_step al v e"] by (cases j) (simp_all add: Let_def)
qed simp

lemma ema_series_length:
  "0 < period \<Longrightarrow> period \<le> int (length values) \<Longrightarrow> length (compute_ema_series values period) = length values - nat period + 1"
  by (auto simp: compute_ema_series_def Let_def slice_from_def)

lemma ema_series_nth:
  assumes "0 < period" "nat period + j \<le> length values"
  shows "compute_ema_series values period ! j = compute_ema (take (nat period + j) values) period"
proof -
  define p where "p = nat period"
  have p: "period = int p" "0 < p" "p + j \<le> length values" using assms by (simp_all add: p_def)
  have ne: "values \<noteq> []" "take (p + j) values \<noteq> []" using p by auto
  have "compute_ema_series values period ! j =
      (sum_list (take p values) / of_nat p # ema_tail (2 / (of_nat p + 1)) (sum_list (take p values) / of_nat p) (drop p values)) ! j"
    using p ne by (simp add: compute_ema_series_def slice_to_def slice_from_def Let_def)
  also have "\<dots> = fold (ema_step (2 / (of_nat p + 1))) (take j (drop p values)) (sum_list (take p values) / of_nat p)"
    using p(3) by (intro ema_tail_nth) simp
  also have "take j (drop p values) = drop p (take (p + j) values)" by (simp add: drop_take)
  also have "fold (ema_step (2 / (of_nat p + 1))) \<dots> (sum_list (take p values) / of_nat p) = compute_ema (take (p + j) values) period"
    using p ne by (simp add: compute_ema_def slice_to_def slice_from_def min_def)
  finally show ?thesis by (simp add: p_def)
qed

lemma collect_Inr: "collect (map (\<lambda>i. Inr (f i)) is) = Inr (map f is)"
  by (induction "is") auto

definition macd_at :: "pyfloat list \<Rightarrow> int \<Rightarrow> int \<Rightarrow> nat \<Rightarrow> pyfloat" where
  \<comment> \<open>the difference of both averages over the first \<open>n\<close> closes\<close>
  "macd_at closes fast slow n = compute_ema (take n closes) fast - compute_ema (take n closes) slow"

lemma macd_values_spec:
  assumes "0 < fast" "fast \<le> slow" "slow \<le> int (length closes)"
  shows "macd_values closes fast slow = Inr (map (macd_at closes fast slow) [nat slow..<length closes + 1])"
proof -
  let ?fs = "compute_ema_series closes fast" and ?ss = "compute_ema_series closes slow"
  have len: "length ?ss = length closes - nat slow + 1" "length ?fs = length closes - nat fast + 1"
    using assms by (simp_all add: ema_series_length)
  have el: "(case py_nth ?fs (slow - fast + int i) of Inl e \<Rightarrow> Inl e | Inr f \<Rightarrow> Inr (f - ?ss ! i)) = Inr (macd_at closes fast slow (nat slow + i))"
    if "i < length ?ss" for i
  proof -
    have i: "nat slow + i \<le> length closes" using that len assms by linarith
    define j where "j = nat slow - nat fast + i"
    have j: "nat (slow - fast + int i) = j" "slow - fast + int i < int (length ?fs)" "nat fast + j = nat slow + i"
      using assms i len by (auto simp: j_def)
    have "py_nth ?fs (slow - fast + int i) = Inr (?fs ! j)" using j assms by (simp add: py_nth_def)
    moreover have "?fs ! j = compute_ema (take (nat slow + i) closes) fast" using ema_series_nth [of fast j closes] assms i j(3) by simp
    moreover have "?ss ! i = compute_ema (take (nat slow + i) closes) slow" using ema_series_nth [of slow i closes] assms i by simp
    ultimately show ?thesis by (simp add: macd_at_def)
  qed
  have "macd_values closes fast slow = collect (map (\<lambda>i. Inr (macd_at closes fast slow (nat slow + i))) [0..<length ?ss])"
    unfolding macd_values_def Let_def using el by (intro arg_cong [of _ _ collect] map_cong) auto
  also have "\<dots> = Inr (map (\<lambda>i. macd_at closes fast slow (nat slow + i)) [0..<length ?ss])" by (rule collect_Inr)
  also have "map (\<lambda>i. macd_at closes fast slow (nat slow + i)) [0..<length ?ss] = map (macd_at closes fast slow) [nat slow..<length closes + 1]"
    using assms(3) by (intro nth_equalityI) (auto simp: len simp del: upt_Suc)
  finally show ?thesis .
qed

text \<open>The MACD lines up its two averages: with a fast period up to the slow one and enough closes it
  raises nothing, its line is the difference of the fast and the slow average of all closes, its signal
  is the average of that difference over every prefix of the closes on which both exist, and the
  direction is the sign of the histogram.\<close>

theorem macd_aligned:
  assumes "0 < fast" "fast \<le> slow" "0 < signal" "slow + signal \<le> int (length closes)"
  shows "\<exists>m. compute_macd closes fast slow signal = Inr m
    \<and> macd_line m = compute_ema closes fast - compute_ema closes slow
    \<and> signal_line m = compute_ema (map (\<lambda>n. compute_ema (take n closes) fast - compute_ema (take n closes) slow)
        [nat slow..<length closes + 1]) signal
    \<and> histogram m = macd_line m - signal_line m \<and> direction m = sgn (histogram m)"
proof -
  let ?vs = "map (macd_at closes fast slow) [nat slow..<length closes + 1]"
  have v: "macd_values closes fast slow = Inr ?vs" using assms by (intro macd_values_spec) auto
  have len: "length ?vs = length closes + 1 - nat slow" by (simp del: upt_Suc)
  have ne: "?vs \<noteq> []" and sig: "signal \<le> int (length ?vs)" using assms by (auto simp: len)
  have l: "last ?vs = compute_ema closes fast - compute_ema closes slow"
    using assms by (simp add: last_map macd_at_def)
  have "compute_macd closes fast slow signal = Inr \<lparr>macd_line = last ?vs, signal_line = compute_ema ?vs signal,
      histogram = last ?vs - compute_ema ?vs signal,
      direction = (if last ?vs > compute_ema ?vs signal then 1 else if last ?vs < compute_ema ?vs signal then -1 else 0)\<rparr>"
    using assms(4) ne sig unfolding compute_macd_def v by (simp only: sum.case Let_def if_True if_False not_less [symmetric] simp_thms)
  then show ?thesis using l by (auto simp: macd_at_def [abs_def] sgn_if)
qed

theorem macd_aligned_witness:
  "\<exists>m. compute_macd [1, 2, 4, 7, 11] 1 2 2 = Inr m \<and> macd_line m = compute_ema [1, 2, 4, 7, 11] 1 - compute_ema [1, 2, 4, 7, 11] 2"
  using macd_aligned [of 1 2 2 "[1, 2, 4, 7, 11]"] by auto

lemma flat_prices_are_overbought:
  \<comment> \<open>no gain and no loss counts as all gains\<close>
  assumes "0 < period" "nat period < length closes" "\<forall>x \<in> set closes. x = c"
  shows "compute_rsi closes period = Inr 100"
proof -
  have "closes ! i = c" if "i < length closes" for i using assms(3) that by simp
  then have d: "deltas closes = replicate (length closes - 1) 0"
    by (intro nth_equalityI) (auto simp: deltas_def)
  have "fold (wilder period) (replicate n 0) 0 = 0" for n by (induction n) (simp_all add: wilder_def)
  then show ?thesis using assms(1,2) by (simp add: compute_rsi_def d slice_to_def slice_from_def Let_def map_replicate_const sum_list_replicate)
qed

end
