(* ===== verification/Portfolio_Allocation.thy ===== *)
theory Portfolio_Allocation
  imports Order_Manager
begin

text \<open>
  Allocation of capital and rebalancing: the transaction costs of the Tehran exchange
  (\<open>domain/trading/iran_costs.py\<close>), and of \<open>backtesting/portfolio\<close> the allocators (\<open>allocator.py\<close>,
  \<open>capital_allocation.py\<close>), the weight and exposure limits (\<open>constraints.py\<close>, \<open>exposure_limits.py\<close>) and
  the rebalancer (\<open>rebalancer.py\<close>). The text of a violation is reduced to which bound it names, and an
  infinite limit is \<open>None\<close>. The three market rates are those of \<open>Order_Manager\<close>.
\<close>

subsection \<open>Transaction costs\<close>

definition OPTION_BUY_PCT :: pyfloat where "OPTION_BUY_PCT = 125 / 100000"
definition OPTION_SELL_PCT :: pyfloat where "OPTION_SELL_PCT = 125 / 100000"

definition principal :: "pyfloat \<Rightarrow> int \<Rightarrow> pyfloat" where
  "principal price quantity = max price 0 * of_int (max quantity 0)"

definition iran_buy_cost :: "pyfloat \<Rightarrow> int \<Rightarrow> pyfloat" where
  "iran_buy_cost price quantity = principal price quantity * BROKER_PCT + principal price quantity * CLEARING_FEE_PCT"

definition iran_sell_cost :: "pyfloat \<Rightarrow> int \<Rightarrow> pyfloat" where
  "iran_sell_cost price quantity =
     principal price quantity * BROKER_PCT + principal price quantity * SELL_TAX_PCT + principal price quantity * CLEARING_FEE_PCT"

definition iran_compute :: "string \<Rightarrow> pyfloat \<Rightarrow> int \<Rightarrow> pyfloat" where
  "iran_compute side price quantity = (if py_lower side = ''sell'' then iran_sell_cost price quantity else iran_buy_cost price quantity)"

definition iran_round_trip_cost :: "pyfloat \<Rightarrow> int \<Rightarrow> pyfloat \<Rightarrow> int \<Rightarrow> pyfloat" where
  "iran_round_trip_cost bp bq sp sq = iran_buy_cost bp bq + iran_sell_cost sp sq"

definition option_buy_cost :: "pyfloat \<Rightarrow> pyfloat" where
  "option_buy_cost v = max v 0 * OPTION_BUY_PCT"

definition option_sell_cost :: "pyfloat \<Rightarrow> bool \<Rightarrow> pyfloat" where
  "option_sell_cost v physical = max v 0 * OPTION_SELL_PCT + (if physical then max v 0 * SELL_TAX_PCT else 0)"

subsection \<open>Allocators\<close>

definition fromkeys :: "'k list \<Rightarrow> 'v \<Rightarrow> ('k, 'v) pydict" where
  "fromkeys ks v = fold (\<lambda>k. dict_set k v) ks []"

definition of_pairs :: "('k \<times> 'v) list \<Rightarrow> ('k, 'v) pydict" where
  \<comment> \<open>a dictionary comprehension: a repeated key is overwritten\<close>
  "of_pairs ps = fold (\<lambda>(k, v). dict_set k v) ps []"

definition allocate :: "string \<Rightarrow> pyfloat \<Rightarrow> string list \<Rightarrow> pyfloat list option \<Rightarrow> (string, pyfloat) pydict" where
  "allocate method capital instruments weights =
     (if method = ''equal'' then fromkeys instruments (capital * (if instruments = [] then 0 else 1 / of_nat (length instruments)))
      else
        (case weights of
           Some (w # ws) \<Rightarrow>
             if method = ''weighted'' then
               (let total = sum_list (w # ws);
                    normalized = (if total > 0 then map (\<lambda>x. x / total) (w # ws) else w # ws)
                in of_pairs (map (\<lambda>(i, x). (i, capital * x)) (zip instruments normalized)))
             else fromkeys instruments 0
         | _ \<Rightarrow> fromkeys instruments 0))"

definition by_weight :: "pyfloat \<Rightarrow> (string, pyfloat) pydict \<Rightarrow> (string, pyfloat) pydict" where
  "by_weight capital ws = (let total = sum_list (map snd ws) in map (\<lambda>(k, v). (k, capital * (v / total))) ws)"

definition zeros :: "(string, pyfloat) pydict \<Rightarrow> (string, pyfloat) pydict" where
  "zeros ws = map (\<lambda>(k, v). (k, 0)) ws"

definition allocate_with_targets :: "pyfloat \<Rightarrow> (string, pyfloat) pydict \<Rightarrow> (string, pyfloat) pydict" where
  "allocate_with_targets capital targets = (if sum_list (map snd targets) \<le> 0 then zeros targets else by_weight capital targets)"

record capital_allocation =
  ca_total :: pyfloat
  ca_allocations :: "(string, pyfloat) pydict"

definition capital_init :: "pyfloat \<Rightarrow> capital_allocation" where
  "capital_init capital = \<lparr>ca_total = capital, ca_allocations = []\<rparr>"

definition capital_allocate :: "(string, pyfloat) pydict \<Rightarrow> capital_allocation \<Rightarrow> (string, pyfloat) pydict \<times> capital_allocation" where
  \<comment> \<open>with no positive weight the previous allocation stays\<close>
  "capital_allocate ws s =
     (if sum_list (map snd ws) \<le> 0 then (zeros ws, s)
      else (let a = by_weight (ca_total s) ws in (a, s\<lparr>ca_allocations := a\<rparr>)))"

definition get_allocation :: "string \<Rightarrow> capital_allocation \<Rightarrow> pyfloat" where
  "get_allocation k s = dict_get_or (ca_allocations s) k 0"

definition adjust :: "string \<Rightarrow> pyfloat \<Rightarrow> capital_allocation \<Rightarrow> capital_allocation" where
  "adjust k v s = s\<lparr>ca_allocations := dict_set k v (ca_allocations s)\<rparr>"

definition remaining :: "capital_allocation \<Rightarrow> pyfloat" where
  "remaining s = max 0 (ca_total s - sum_list (map snd (ca_allocations s)))"

definition capital_reset :: "capital_allocation \<Rightarrow> capital_allocation" where
  "capital_reset s = s\<lparr>ca_allocations := []\<rparr>"

subsection \<open>Limits\<close>

record weight_limits =
  wl_min :: "(string, pyfloat) pydict"
  wl_max :: "(string, pyfloat) pydict"
  wl_sector :: "(string, pyfloat \<times> pyfloat) pydict"

datatype weight_violation = BelowMin string | AboveMax string

definition no_limits :: weight_limits where
  "no_limits = \<lparr>wl_min = [], wl_max = [], wl_sector = []\<rparr>"

definition set_weight_range :: "string \<Rightarrow> pyfloat \<Rightarrow> pyfloat \<Rightarrow> weight_limits \<Rightarrow> weight_limits" where
  "set_weight_range i lo hi l = l\<lparr>wl_min := dict_set i lo (wl_min l), wl_max := dict_set i hi (wl_max l)\<rparr>"

definition set_sector_limit :: "string \<Rightarrow> pyfloat \<Rightarrow> pyfloat \<Rightarrow> weight_limits \<Rightarrow> weight_limits" where
  "set_sector_limit s lo hi l = l\<lparr>wl_sector := dict_set s (lo, hi) (wl_sector l)\<rparr>"

definition check_weights :: "(string, pyfloat) pydict \<Rightarrow> weight_limits \<Rightarrow> weight_violation list" where
  "check_weights ws l =
     concat (map (\<lambda>(i, w).
       (if w < dict_get_or (wl_min l) i 0 then [BelowMin i] else []) @ (if w > dict_get_or (wl_max l) i 1 then [AboveMax i] else [])) ws)"

definition is_satisfied :: "(string, pyfloat) pydict \<Rightarrow> weight_limits \<Rightarrow> bool" where
  "is_satisfied ws l = (check_weights ws l = [])"

record exposure_rule =
  er_instrument :: string
  er_max_notional :: "pyfloat option"
  er_max_weight :: pyfloat
  er_max_leverage :: pyfloat

type_synonym exposure_limits = "(string, exposure_rule) pydict"

definition add_rule :: "exposure_rule \<Rightarrow> exposure_limits \<Rightarrow> exposure_limits" where
  "add_rule r l = dict_set (er_instrument r) r l"

definition remove_rule :: "string \<Rightarrow> exposure_limits \<Rightarrow> exposure_limits" where
  "remove_rule i l = dict_del i l"

definition check_exposure :: "string \<Rightarrow> pyfloat \<Rightarrow> pyfloat \<Rightarrow> exposure_limits \<Rightarrow> py_error + bool" where
  \<comment> \<open>the last comparison divides by the capital without the guard of the one before\<close>
  "check_exposure i notional capital l =
     (case dict_get l i of
        None \<Rightarrow> Inr True
      | Some r \<Rightarrow>
          if (\<exists>m. er_max_notional r = Some m \<and> m < notional) then Inr False
          else if (if capital > 0 then notional / capital else 0) > er_max_weight r then Inr False
          else if capital = 0 then Inl ZeroDivisionError
          else Inr (\<not> \<bar>notional\<bar> / capital > er_max_leverage r))"

definition get_max_position_size :: "string \<Rightarrow> pyfloat \<Rightarrow> pyfloat \<Rightarrow> exposure_limits \<Rightarrow> py_error + int" where
  \<comment> \<open>\<open>int(inf)\<close> raises\<close>
  "get_max_position_size i capital price l =
     (case dict_get l i of
        None \<Rightarrow> Inr (if price > 0 then py_int (capital / price) else 0)
      | Some r \<Rightarrow>
          (let by_weight = (if price > 0 then py_int (capital * er_max_weight r / price) else 0)
           in case er_max_notional r of
                None \<Rightarrow> if price > 0 then Inl OverflowError else Inr (min by_weight 0)
              | Some m \<Rightarrow> Inr (min by_weight (if price > 0 then py_int (m / price) else 0))))"


subsection \<open>The rebalancer\<close>

datatype rebalance_frequency = DAILY | WEEKLY | MONTHLY

record rebalance_cost =
  rc_commission_pct :: pyfloat
  rc_slippage_bps :: pyfloat
  rc_tax_pct :: pyfloat
  rc_clearing_pct :: pyfloat
  rc_sell_tax_pct :: pyfloat

definition total_cost_pct :: "rebalance_cost \<Rightarrow> pyfloat" where
  "total_cost_pct c = rc_commission_pct c + rc_clearing_pct c + rc_slippage_bps c / 10000 + rc_tax_pct c"

definition cost_for :: "string \<Rightarrow> pyfloat \<Rightarrow> pyfloat" where
  \<comment> \<open>the rates of the cost object are not used\<close>
  "cost_for side v = iran_compute side \<bar>v\<bar> 1"

record rebalance_rule =
  rr_frequency_days :: int
  rr_threshold_pct :: pyfloat
  rr_frequency :: rebalance_frequency
  rr_min_trade_value :: pyfloat
  rr_max_turnover_pct :: pyfloat
  rr_cost :: rebalance_cost

fun frequency_days :: "rebalance_frequency \<Rightarrow> int" where
  "frequency_days DAILY = 1"
| "frequency_days WEEKLY = 7"
| "frequency_days MONTHLY = 30"

definition rebalance_rule_init ::
  "int option \<Rightarrow> pyfloat \<Rightarrow> rebalance_frequency \<Rightarrow> pyfloat \<Rightarrow> pyfloat \<Rightarrow> rebalance_cost \<Rightarrow> rebalance_rule" where
  "rebalance_rule_init days threshold freq min_trade max_turnover cost =
     \<lparr>rr_frequency_days = (case days of None \<Rightarrow> frequency_days freq | Some d \<Rightarrow> d), rr_threshold_pct = threshold, rr_frequency = freq,
      rr_min_trade_value = min_trade, rr_max_turnover_pct = max_turnover, rr_cost = cost\<rparr>"

record rebalance_trade =
  rt_instrument :: string
  rt_side :: string
  rt_value :: pyfloat

record rebalance_result =
  rs_trades :: "rebalance_trade list"
  rs_total_cost :: pyfloat
  rs_triggered_by :: string
  rs_turnover_pct :: pyfloat

record rebalancer =
  rb_rule :: rebalance_rule
  rb_days :: int
  rb_count :: int
  rb_costs :: pyfloat
  rb_history :: "(int \<times> rebalance_result) list"

definition rebalancer_init :: "rebalance_rule \<Rightarrow> rebalancer" where
  "rebalancer_init r = \<lparr>rb_rule = r, rb_days = 0, rb_count = 0, rb_costs = 0, rb_history = []\<rparr>"

definition drifts :: "rebalance_rule \<Rightarrow> (string, pyfloat) pydict \<Rightarrow> string \<times> pyfloat \<Rightarrow> bool" where
  "drifts rule current p =
     (case p of (i, target) \<Rightarrow> target > 0 \<and> \<bar>dict_get_or current i 0 - target\<bar> / target * 100 > rr_threshold_pct rule)"

definition should_rebalance ::
  "(string, pyfloat) pydict \<Rightarrow> (string, pyfloat) pydict \<Rightarrow> rebalancer \<Rightarrow> (bool \<times> string) \<times> rebalancer" where
  "should_rebalance current target rb =
     (let rb1 = rb\<lparr>rb_days := rb_days rb + 1\<rparr> in
      if rb_days rb1 \<ge> rr_frequency_days (rb_rule rb1) then ((True, ''daily''), rb1\<lparr>rb_days := 0\<rparr>)
      else if list_ex (drifts (rb_rule rb1) current) target then ((True, ''threshold''), rb1\<lparr>rb_days := 0\<rparr>)
      else ((False, []), rb1))"

definition trade_toward :: "string \<Rightarrow> pyfloat \<Rightarrow> rebalance_trade" where
  "trade_toward i diff = \<lparr>rt_instrument = i, rt_side = (if diff > 0 then ''buy'' else ''sell''), rt_value = \<bar>diff\<bar>\<rparr>"

definition target_diff :: "(string, pyfloat) pydict \<Rightarrow> pyfloat \<Rightarrow> string \<times> pyfloat \<Rightarrow> pyfloat" where
  "target_diff current capital p = capital * snd p - dict_get_or current (fst p) 0"

definition compute_trades ::
  "(string, pyfloat) pydict \<Rightarrow> (string, pyfloat) pydict \<Rightarrow> pyfloat \<Rightarrow> rebalancer \<Rightarrow> rebalance_result" where
  "compute_trades current target capital rb =
     (let rule = rb_rule rb;
          moved = filter (\<lambda>p. \<not> \<bar>target_diff current capital p\<bar> \<le> rr_min_trade_value rule) target;
          trades = map (\<lambda>p. trade_toward (fst p) (target_diff current capital p)) moved;
          cost = sum_list (map (\<lambda>t. cost_for (rt_side t) (rt_value t)) trades);
          turnover = sum_list (map rt_value trades);
          pct = (if capital > 0 then turnover / capital * 100 else 0)
      in if pct > rr_max_turnover_pct rule then
           (let scale = rr_max_turnover_pct rule / pct
            in \<lparr>rs_trades = map (\<lambda>t. t\<lparr>rt_value := rt_value t * scale\<rparr>) trades, rs_total_cost = cost * scale,
                rs_triggered_by = [], rs_turnover_pct = rr_max_turnover_pct rule\<rparr>)
         else \<lparr>rs_trades = trades, rs_total_cost = cost, rs_triggered_by = [], rs_turnover_pct = pct\<rparr>)"

definition as_weights :: "(string, pyfloat) pydict \<Rightarrow> pyfloat \<Rightarrow> (string, pyfloat) pydict" where
  "as_weights current capital =
     (if current \<noteq> [] \<and> (\<forall>p \<in> set current. snd p < 1) then current
      else map (\<lambda>(k, v). (k, if capital > 0 then v / capital else 0)) current)"

definition rebalance ::
  "(string, pyfloat) pydict \<Rightarrow> (string, pyfloat) pydict \<Rightarrow> pyfloat \<Rightarrow> rebalancer \<Rightarrow> rebalance_result option \<times> rebalancer" where
  "rebalance current target capital rb =
     (case should_rebalance (as_weights current capital) target rb of
        ((False, _), rb1) \<Rightarrow> (None, rb1)
      | ((True, reason), rb1) \<Rightarrow>
          (let res = (compute_trades current target capital rb1)\<lparr>rs_triggered_by := reason\<rparr>; n = rb_count rb1 + 1
           in (Some res, rb1\<lparr>rb_count := n, rb_costs := rb_costs rb1 + rs_total_cost res, rb_history := rb_history rb1 @ [(n, res)]\<rparr>)))"

definition rebalancer_reset :: "rebalancer \<Rightarrow> rebalancer" where
  "rebalancer_reset rb = rb\<lparr>rb_days := 0, rb_count := 0, rb_costs := 0, rb_history := []\<rparr>"

subsection \<open>Capital is allocated in full\<close>

lemma fold_set_fresh:
  "distinct (map fst ps) \<Longrightarrow> set (map fst ps) \<inter> set (map fst d) = {} \<Longrightarrow> fold (\<lambda>(k, v). dict_set k v) ps d = d @ ps"
proof (induction ps arbitrary: d)
  case (Cons p ps)
  then have "dict_get d (fst p) = None" by (auto simp: map_of_eq_None_iff)
  then have "dict_set (fst p) (snd p) d = d @ [p]" by (simp add: dict_set_fresh)
  then show ?case using Cons by (auto simp: case_prod_unfold)
qed simp

lemma of_pairs_distinct: "distinct (map fst ps) \<Longrightarrow> of_pairs ps = ps"
  by (simp add: of_pairs_def fold_set_fresh)

lemma fromkeys_distinct: "distinct ks \<Longrightarrow> fromkeys ks v = map (\<lambda>k. (k, v)) ks"
proof -
  assume "distinct ks"
  then have "of_pairs (map (\<lambda>k. (k, v)) ks) = map (\<lambda>k. (k, v)) ks" by (intro of_pairs_distinct) (simp add: comp_def)
  then show ?thesis by (simp add: fromkeys_def of_pairs_def fold_map comp_def)
qed

lemma sum_scaled:
  fixes c t :: pyfloat
  shows "sum_list (map (\<lambda>x. c * (f x / t)) xs) = c * (sum_list (map f xs) / t)"
  by (induction xs) (simp_all add: add_divide_distrib distrib_left)

lemma by_weight_sum: "sum_list (map snd ws) \<noteq> 0 \<Longrightarrow> sum_list (map snd (by_weight capital ws)) = capital"
proof -
  assume t: "sum_list (map snd ws) \<noteq> 0"
  have "map snd (by_weight capital ws) = map (\<lambda>p. capital * (snd p / sum_list (map snd ws))) ws"
    by (simp add: by_weight_def Let_def comp_def case_prod_unfold)
  then have "sum_list (map snd (by_weight capital ws)) = capital * (sum_list (map snd ws) / sum_list (map snd ws))"
    by (simp only: sum_scaled)
  then show ?thesis using t by simp
qed

lemma equal_sum:
  assumes "distinct is" "is \<noteq> []"
  shows "sum_list (map snd (allocate ''equal'' capital is ws)) = capital"
proof -
  have "map snd (allocate ''equal'' capital is ws) = replicate (length is) (capital / of_nat (length is))"
    using assms by (simp add: allocate_def fromkeys_distinct comp_def map_replicate_const)
  then show ?thesis using assms by (simp add: sum_list_replicate)
qed

lemma weighted_sum:
  assumes "distinct is" "length ws = length is" "0 < sum_list ws"
  shows "sum_list (map snd (allocate ''weighted'' capital is (Some ws))) = capital"
proof -
  have ne: "ws \<noteq> []" using assms(3) by auto
  let ?n = "map (\<lambda>x. x / sum_list ws) ws"
  have "map fst (map (\<lambda>(i, x). (i, capital * x)) (zip is ?n)) = is"
    using assms(2) by (simp add: comp_def case_prod_unfold)
  then have "allocate ''weighted'' capital is (Some ws) = map (\<lambda>(i, x). (i, capital * x)) (zip is ?n)"
    using ne assms(1,3) by (cases ws) (simp_all add: allocate_def Let_def of_pairs_distinct)
  then have "map snd (allocate ''weighted'' capital is (Some ws)) = map (\<lambda>x. capital * x) (map snd (zip is ?n))"
    by (simp add: comp_def case_prod_unfold)
  also have "\<dots> = map (\<lambda>x. capital * (x / sum_list ws)) ws" using assms(2) by (simp add: comp_def)
  finally have "sum_list (map snd (allocate ''weighted'' capital is (Some ws))) = capital * (sum_list (map (\<lambda>x. x) ws) / sum_list ws)"
    by (simp only: sum_scaled)
  then show ?thesis using assms(3) by simp
qed

text \<open>Capital is allocated in full: over distinct instruments the equal and, for weights with a positive
  sum, the weighted allocation add up to the capital, whatever the scale of the weights; so do the
  allocations by targets and by strategy weights, after which nothing remains.\<close>

theorem capital_fully_allocated:
  assumes "distinct instruments" "instruments \<noteq> []" "length ws = length instruments" "0 < sum_list ws" "0 < sum_list (map snd targets)"
  shows "sum_list (map snd (allocate ''equal'' capital instruments w)) = capital
    \<and> sum_list (map snd (allocate ''weighted'' capital instruments (Some ws))) = capital
    \<and> sum_list (map snd (allocate_with_targets capital targets)) = capital
    \<and> remaining (snd (capital_allocate targets (capital_init capital))) = 0"
  using equal_sum [OF assms(1,2)] weighted_sum [OF assms(1,3,4)] by_weight_sum [of targets] assms(5)
  by (simp add: allocate_with_targets_def capital_allocate_def capital_init_def remaining_def Let_def)

theorem capital_fully_allocated_witness:
  "sum_list (map snd (allocate ''weighted'' 100 [''a'', ''b''] (Some [1, 3]))) = 100"
  using capital_fully_allocated [of "[''a'', ''b'']" "[1, 3]" "[(''s'', 2)]" 100 None] by simp

subsection \<open>Rebalancing\<close>

lemma iran_rate_linear: "0 \<le> k \<Longrightarrow> 0 \<le> v \<Longrightarrow> cost_for side (v * k) = cost_for side v * k"
proof -
  assume "0 \<le> k" "0 \<le> v"
  then have "principal \<bar>v * k\<bar> 1 = principal \<bar>v\<bar> 1 * k" by (simp add: principal_def)
  then show ?thesis by (simp add: cost_for_def iran_compute_def iran_sell_cost_def iran_buy_cost_def distrib_right distrib_left mult.assoc mult.left_commute [of _ k] mult.commute [of _ k])
qed

lemma sum_list_mult_right: "sum_list (map (\<lambda>x. f x * k) xs) = sum_list (map f xs) * (k :: pyfloat)"
  by (induction xs) (simp_all add: distrib_right)

lemma find_toward:
  assumes "distinct (map fst target)" "(i, w) \<in> set target" "t \<in> set (map (\<lambda>p. trade_toward (fst p) (f p)) (filter P target))" "rt_instrument t = i"
  shows "t = trade_toward i (f (i, w))"
proof -
  obtain p where p: "p \<in> set target" "t = trade_toward (fst p) (f p)" using assms(3) by auto
  then have "fst p = i" using assms(4) by (simp add: trade_toward_def)
  then have "p = (i, w)" using assms(1,2) p(1) by (metis eq_key_imp_eq_value prod.collapse)
  then show ?thesis using p(2) by simp
qed

definition signed :: "rebalance_trade \<Rightarrow> pyfloat" where
  "signed t = (if rt_side t = ''buy'' then rt_value t else - rt_value t)"

lemma signed_toward: "d \<noteq> 0 \<Longrightarrow> signed (trade_toward i d) = d"
  by (auto simp: signed_def trade_toward_def)

text \<open>A rebalancing moves towards its target and within its turnover: with positive capital and limits not
  below 0, no trade goes past the target value of its instrument; the trades' values are the turnover
  reported, which is at most the limit; the cost reported is the cost of the trades as they are; and
  when the limit is not reached every instrument that is off its target by more than the least trade
  value is moved exactly to it.\<close>

theorem rebalance_to_target:
  fixes capital :: pyfloat and current target :: "(string, pyfloat) pydict" and rb :: rebalancer
  assumes "0 < capital" "0 \<le> rr_min_trade_value (rb_rule rb)" "0 \<le> rr_max_turnover_pct (rb_rule rb)" "distinct (map fst target)"
  defines "res \<equiv> compute_trades current target capital rb"
  shows "rs_turnover_pct res \<le> rr_max_turnover_pct (rb_rule rb)
    \<and> sum_list (map rt_value (rs_trades res)) = rs_turnover_pct res * capital / 100
    \<and> rs_total_cost res = sum_list (map (\<lambda>t. cost_for (rt_side t) (rt_value t)) (rs_trades res))
    \<and> (\<forall>t \<in> set (rs_trades res). \<exists>w. (rt_instrument t, w) \<in> set target
         \<and> (let d = target_diff current capital (rt_instrument t, w) in \<bar>signed t\<bar> \<le> \<bar>d\<bar> \<and> 0 \<le> signed t * d
              \<and> (rs_turnover_pct res < rr_max_turnover_pct (rb_rule rb) \<longrightarrow> signed t = d)))
    \<and> (\<forall>(i, w) \<in> set target. rr_min_trade_value (rb_rule rb) < \<bar>target_diff current capital (i, w)\<bar> \<longrightarrow>
         (\<exists>t \<in> set (rs_trades res). rt_instrument t = i))"
proof -
  define moved where "moved = filter (\<lambda>p. \<not> \<bar>target_diff current capital p\<bar> \<le> rr_min_trade_value (rb_rule rb)) target"
  define trades where "trades = map (\<lambda>p. trade_toward (fst p) (target_diff current capital p)) moved"
  define turnover where "turnover = sum_list (map rt_value trades)"
  define pct where "pct = turnover / capital * 100"
  define k where "k = (if pct > rr_max_turnover_pct (rb_rule rb) then rr_max_turnover_pct (rb_rule rb) / pct else 1)"
  have eq: "res = (if pct > rr_max_turnover_pct (rb_rule rb)
      then \<lparr>rs_trades = map (\<lambda>t. t\<lparr>rt_value := rt_value t * (rr_max_turnover_pct (rb_rule rb) / pct)\<rparr>) trades,
        rs_total_cost = sum_list (map (\<lambda>t. cost_for (rt_side t) (rt_value t)) trades) * (rr_max_turnover_pct (rb_rule rb) / pct),
        rs_triggered_by = [], rs_turnover_pct = rr_max_turnover_pct (rb_rule rb)\<rparr>
      else \<lparr>rs_trades = trades, rs_total_cost = sum_list (map (\<lambda>t. cost_for (rt_side t) (rt_value t)) trades),
        rs_triggered_by = [], rs_turnover_pct = pct\<rparr>)"
    by (simp only: res_def compute_trades_def Let_def trades_def moved_def turnover_def pct_def assms(1) if_True)
  have res: "rs_trades res = map (\<lambda>t. t\<lparr>rt_value := rt_value t * k\<rparr>) trades"
    "rs_total_cost res = sum_list (map (\<lambda>t. cost_for (rt_side t) (rt_value t)) trades) * k"
    "rs_turnover_pct res = min pct (rr_max_turnover_pct (rb_rule rb))"
    by (simp_all add: eq k_def)
  have vals: "0 \<le> rt_value t" if "t \<in> set trades" for t using that by (auto simp: trades_def trade_toward_def)
  have k: "0 \<le> k" "k \<le> 1" "pct * k = min pct (rr_max_turnover_pct (rb_rule rb))"
    using assms(3) by (auto simp: k_def divide_le_eq min_def)
  have "sum_list (map rt_value (rs_trades res)) = turnover * k" by (simp add: res(1) comp_def turnover_def sum_list_mult_right)
  then have A: "sum_list (map rt_value (rs_trades res)) = rs_turnover_pct res * capital / 100"
  proof -
    have "rs_turnover_pct res = turnover / capital * 100 * k" by (simp only: res(3) k(3) [symmetric]) (simp only: pct_def)
    then show ?thesis using \<open>sum_list (map rt_value (rs_trades res)) = turnover * k\<close> assms(1) by simp
  qed
  have "map (\<lambda>t. cost_for (rt_side t) (rt_value t)) (rs_trades res) = map (\<lambda>t. cost_for (rt_side t) (rt_value t) * k) trades"
    using vals k(1) by (simp add: res(1) comp_def iran_rate_linear)
  then have B: "rs_total_cost res = sum_list (map (\<lambda>t. cost_for (rt_side t) (rt_value t)) (rs_trades res))"
    by (simp add: res(2) sum_list_mult_right)
  have C: "\<exists>w. (rt_instrument t, w) \<in> set target
      \<and> (let d = target_diff current capital (rt_instrument t, w) in \<bar>signed t\<bar> \<le> \<bar>d\<bar> \<and> 0 \<le> signed t * d
          \<and> (rs_turnover_pct res < rr_max_turnover_pct (rb_rule rb) \<longrightarrow> signed t = d))"
    if t: "t \<in> set (rs_trades res)" for t
  proof -
    obtain i w where p: "(i, w) \<in> set target" "rr_min_trade_value (rb_rule rb) < \<bar>target_diff current capital (i, w)\<bar>"
        "t = (trade_toward i (target_diff current capital (i, w)))\<lparr>rt_value := \<bar>target_diff current capital (i, w)\<bar> * k\<rparr>"
      using t by (auto simp: res(1) trades_def moved_def trade_toward_def)
    define d where "d = target_diff current capital (i, w)"
    have s: "signed t = d * k" by (auto simp: p(3) signed_def trade_toward_def d_def)
    have "k = 1" if "rs_turnover_pct res < rr_max_turnover_pct (rb_rule rb)" using that by (simp add: res(3) k_def)
    moreover have "\<bar>d * k\<bar> \<le> \<bar>d\<bar>" using k by (simp add: abs_mult mult_left_le)
    moreover have "0 \<le> d * k * d" using k by (simp add: mult.commute [of d k] mult.assoc)
    moreover have "rt_instrument t = i" by (simp add: p(3) trade_toward_def)
    ultimately show ?thesis using p(1) s by (intro exI [of _ w]) (auto simp: Let_def simp flip: d_def)
  qed
  have D: "\<exists>t \<in> set (rs_trades res). rt_instrument t = i"
    if "(i, w) \<in> set target" "rr_min_trade_value (rb_rule rb) < \<bar>target_diff current capital (i, w)\<bar>" for i w
    using that by (auto simp: res(1) trades_def moved_def trade_toward_def intro!: bexI [of _ "(i, w)"])
  show ?thesis using A B C D by (auto simp: res(3))
qed


definition demo_cost :: rebalance_cost where
  "demo_cost = \<lparr>rc_commission_pct = 4 / 1000, rc_slippage_bps = 0, rc_tax_pct = 0, rc_clearing_pct = 85 / 100000, rc_sell_tax_pct = 5 / 1000\<rparr>"

definition demo_rebalancer :: rebalancer where
  "demo_rebalancer = rebalancer_init (rebalance_rule_init None 5 DAILY 0 100 demo_cost)"

theorem rebalance_to_target_witness:
  "rs_turnover_pct (compute_trades [(''a'', 700)] [(''a'', 1 / 2), (''b'', 1 / 2)] 1000 demo_rebalancer) \<le> 100"
proof -
  have "rr_max_turnover_pct (rb_rule demo_rebalancer) = 100" "rr_min_trade_value (rb_rule demo_rebalancer) = 0"
    by (simp_all add: demo_rebalancer_def rebalancer_init_def rebalance_rule_init_def)
  then show ?thesis
    using rebalance_to_target [of 1000 demo_rebalancer "[(''a'', 1 / 2), (''b'', 1 / 2)]" "[(''a'', 700)]"] by simp
qed

lemma weights_taken_for_values:
  \<comment> \<open>a portfolio given by weights and exactly on target is bought a second time\<close>
  "map_option (\<lambda>r. map (\<lambda>t. (rt_side t, rt_value t)) (rs_trades r))
     (fst (rebalance [(''a'', 1 / 2), (''b'', 1 / 2)] [(''a'', 1 / 2), (''b'', 1 / 2)] 1000 demo_rebalancer))
   = Some [(''buy'', 999 / 2), (''buy'', 999 / 2)]"
  by (simp add: rebalance_def as_weights_def should_rebalance_def compute_trades_def trade_toward_def target_diff_def
      dict_get_or_def demo_rebalancer_def rebalancer_init_def rebalance_rule_init_def Let_def)

lemma reason_is_daily:
  "rb_days rb + 1 \<ge> rr_frequency_days (rb_rule rb) \<Longrightarrow> fst (should_rebalance current target rb) = (True, ''daily'')"
  by (simp add: should_rebalance_def Let_def)

lemma exposure_without_capital_raises:
  "dict_get l i = Some r \<Longrightarrow> er_max_notional r = None \<Longrightarrow> 0 \<le> er_max_weight r \<Longrightarrow> check_exposure i n 0 l = Inl ZeroDivisionError"
  by (simp add: check_exposure_def)

lemma unlimited_notional_raises:
  "dict_get l i = Some r \<Longrightarrow> er_max_notional r = None \<Longrightarrow> 0 < price \<Longrightarrow> get_max_position_size i capital price l = Inl OverflowError"
  by (simp add: get_max_position_size_def Let_def)

end
