(* ===== verification/Portfolio_Sim.thy ===== *)
theory Portfolio_Sim
  imports Backtest_Run Portfolio_Allocation "HOL-Library.List_Lexorder" "HOL-Library.Char_ord"
begin

text \<open>
  The multi-instrument backtest (\<open>backtesting/engine/portfolio_simulator.py\<close>), composed of the broker and
  the portfolio of \<open>Backtest_Run\<close> and the rebalancer of \<open>Portfolio_Allocation\<close>.

  The strategy sees the bar and the instrument only. What the resolver finds in the database for an
  order without a daily volume is a function of the instrument; whether the cancel event is set is
  a function of the number of timestamps done. A timestamp is a string, empty when it is missing.
\<close>

subsection \<open>The run\<close>

record 'x pbar =
  pb_timestamp :: string
  pb_close :: pyfloat
  pb_rest :: 'x

type_synonym 'x market_data = "(string, 'x pbar list) pydict"

type_synonym ('s, 'x) pstrategy = "'s \<Rightarrow> string \<Rightarrow> 'x pbar \<Rightarrow> (py_error + sim_order list) \<times> 's"

definition submit_order ::
  "(string \<Rightarrow> int option) option \<Rightarrow> string \<Rightarrow> sim_order \<Rightarrow> broker \<Rightarrow> (py_error + sim_fill option) \<times> broker" where
  \<comment> \<open>\<open>Broker.submit_order\<close>: the resolver, when there is one, may look a missing volume up\<close>
  "submit_order resolve fresh ord bk =
     (let found = (case resolve of None \<Rightarrow> None | Some f \<Rightarrow> f (rq_instrument ord));
          ord1 = (if \<not> truthy (so_daily_volume ord) \<and> truthy found then ord\<lparr>so_daily_volume := found\<rparr> else ord)
      in submit_order_sync fresh ord1 bk)"

fun fill_all ::
  "(string \<Rightarrow> int option) option \<Rightarrow> (nat \<Rightarrow> string) \<Rightarrow> sim_order list \<Rightarrow> broker \<Rightarrow> portfolio \<Rightarrow> sim_fill list \<Rightarrow>
     (py_error + sim_fill list) \<times> broker \<times> portfolio" where
  "fill_all resolve ids [] bk pf fills = (Inr fills, bk, pf)"
| "fill_all resolve ids (ord # ords) bk pf fills =
     (case submit_order resolve (ids (length fills)) ord bk of
        (Inl e, bk1) \<Rightarrow> (Inl e, bk1, pf)
      | (Inr None, bk1) \<Rightarrow> fill_all resolve ids ords bk1 pf fills
      | (Inr (Some f), bk1) \<Rightarrow> (let (f', pf1) = update_fill f pf in fill_all resolve ids ords bk1 pf1 (fills @ [f'])))"

definition bar_lookup :: "'x pbar list \<Rightarrow> (string, 'x pbar) pydict" where
  "bar_lookup bars = of_pairs (map (\<lambda>b. (pb_timestamp b, b)) bars)"

definition timestamps :: "'x market_data \<Rightarrow> string list" where
  "timestamps data = sort (remdups (filter (\<lambda>t. t \<noteq> []) (concat (map (\<lambda>(i, bars). map pb_timestamp bars) data))))"

record 's psim =
  pm_strategy :: 's
  pm_broker :: broker
  pm_portfolio :: portfolio
  pm_fills :: "sim_fill list"
  pm_curve :: "equity_point list"

definition instrument_step ::
  "('s, 'x) pstrategy \<Rightarrow> (string \<Rightarrow> int option) option \<Rightarrow> (nat \<Rightarrow> string) \<Rightarrow> string \<Rightarrow> string \<times> 'x pbar list \<Rightarrow>
     's psim \<Rightarrow> py_error option \<times> 's psim" where
  "instrument_step strat resolve ids ts p sim =
     (case p of (inst, bars) \<Rightarrow>
        (case dict_get (bar_lookup bars) ts of
           None \<Rightarrow> (None, sim)
         | Some b \<Rightarrow>
             (case strat (pm_strategy sim) inst b of
                (Inl e, s1) \<Rightarrow> (Some e, sim\<lparr>pm_strategy := s1\<rparr>)
              | (Inr ords, s1) \<Rightarrow>
                  (case fill_all resolve ids ords (pm_broker sim) (pm_portfolio sim) (pm_fills sim) of
                     (Inl e, bk1, pf1) \<Rightarrow> (Some e, sim\<lparr>pm_strategy := s1, pm_broker := bk1, pm_portfolio := pf1\<rparr>)
                   | (Inr fills1, bk1, pf1) \<Rightarrow>
                       (None, sim\<lparr>pm_strategy := s1, pm_broker := bk1, pm_fills := fills1,
                          pm_portfolio := (if pb_close b > 0 then mark_to_market [(inst, pb_close b)] pf1 else pf1)\<rparr>)))))"

fun instruments_step ::
  "('s, 'x) pstrategy \<Rightarrow> (string \<Rightarrow> int option) option \<Rightarrow> (nat \<Rightarrow> string) \<Rightarrow> string \<Rightarrow> 'x market_data \<Rightarrow>
     's psim \<Rightarrow> py_error option \<times> 's psim" where
  "instruments_step strat resolve ids ts [] sim = (None, sim)"
| "instruments_step strat resolve ids ts (p # ps) sim =
     (case instrument_step strat resolve ids ts p sim of
        (Some e, sim1) \<Rightarrow> (Some e, sim1)
      | (None, sim1) \<Rightarrow> instruments_step strat resolve ids ts ps sim1)"

definition rebalance_check :: "'x market_data \<Rightarrow> (string, pyfloat) pydict option \<Rightarrow> rebalancer option \<Rightarrow> py_error option" where
  \<comment> \<open>\<open>should_rebalance\<close> gives a pair, which is always true, and \<open>compute_trades\<close> a \<open>RebalanceResult\<close>,
    over which the loop cannot run; \<open>[-1]\<close> of an instrument without bars raises before that\<close>
  "rebalance_check data targets rb =
     (case (rb, targets) of
        (Some r, Some (w # ws)) \<Rightarrow> if list_ex (\<lambda>(i, bars). bars = []) data then Some IndexError else Some TypeError
      | _ \<Rightarrow> None)"

fun timeline_run ::
  "('s, 'x) pstrategy \<Rightarrow> (string \<Rightarrow> int option) option \<Rightarrow> (nat \<Rightarrow> string) \<Rightarrow> (string \<Rightarrow> pytime) \<Rightarrow> (nat \<Rightarrow> bool) \<Rightarrow> 'x market_data \<Rightarrow>
     (string, pyfloat) pydict option \<Rightarrow> rebalancer option \<Rightarrow> string list \<Rightarrow> 's psim \<Rightarrow> py_error option \<times> 's psim" where
  "timeline_run strat resolve ids tm cancel data targets rb [] sim = (None, sim)"
| "timeline_run strat resolve ids tm cancel data targets rb (ts # tss) sim =
     (if cancel (length (pm_curve sim)) then (None, sim)
      else
        (case instruments_step strat resolve ids ts data sim of
           (Some e, sim1) \<Rightarrow> (Some e, sim1)
         | (None, sim1) \<Rightarrow>
             (case rebalance_check data targets rb of
                Some e \<Rightarrow> (Some e, sim1)
              | None \<Rightarrow>
                  (let pf = pm_portfolio sim1;
                       point = \<lparr>eq_timestamp = tm ts, eq_nav = portfolio_nav pf, eq_cash = pf_cash pf, eq_value = positions_value pf\<rparr>
                   in timeline_run strat resolve ids tm cancel data targets rb tss (sim1\<lparr>pm_curve := pm_curve sim1 @ [point]\<rparr>)))))"

record portfolio_result =
  pr_initial_capital :: pyfloat
  pr_final_capital :: pyfloat
  pr_total_return :: pyfloat
  pr_total_return_pct :: pyfloat
  pr_total_trades :: nat
  pr_equity_curve :: "equity_point list"
  pr_trades :: "sim_fill list"
  pr_instruments :: "string list"

definition run_portfolio ::
  "('s, 'x) pstrategy \<Rightarrow> (string \<Rightarrow> int option) option \<Rightarrow> (nat \<Rightarrow> string) \<Rightarrow> (string \<Rightarrow> pytime) \<Rightarrow> (nat \<Rightarrow> bool) \<Rightarrow> 's \<Rightarrow>
     pyfloat \<Rightarrow> 'x market_data \<Rightarrow> (string, pyfloat) pydict option \<Rightarrow> rebalancer option \<Rightarrow> broker \<Rightarrow> portfolio \<Rightarrow>
     (py_error option + portfolio_result) \<times> 's psim" where
  \<comment> \<open>\<open>Inl None\<close> is the failure for no data; \<open>s\<close> is the strategy after its \<open>reset\<close>; what the allocator
    returns is dropped\<close>
  "run_portfolio strat resolve ids tm cancel s capital data targets rb bk pf0 =
     (let sim0 = \<lparr>pm_strategy = s, pm_broker = bk, pm_portfolio = pf_reset capital pf0, pm_fills = [], pm_curve = []\<rparr>
      in if data = [] then (Inl None, sim0)
         else
           (case timeline_run strat resolve ids tm cancel data targets rb (timestamps data) sim0 of
              (Some e, sim1) \<Rightarrow> (Inl (Some e), sim1)
            | (None, sim1) \<Rightarrow>
                if capital = 0 then (Inl (Some ZeroDivisionError), sim1)
                else
                  (let nav = portfolio_nav (pm_portfolio sim1)
                   in (Inr \<lparr>pr_initial_capital = capital, pr_final_capital = nav, pr_total_return = nav - capital,
                            pr_total_return_pct = (nav / capital - 1) * 100, pr_total_trades = length (pm_fills sim1),
                            pr_equity_curve = pm_curve sim1, pr_trades = pm_fills sim1, pr_instruments = dict_keys data\<rparr>, sim1))))"

subsection \<open>The books of a run\<close>

definition sim_ok :: "pyfloat \<Rightarrow> 's psim \<Rightarrow> bool" where
  "sim_ok capital sim \<longleftrightarrow> books_ok capital (pm_fills sim) (pm_portfolio sim) \<and> trades_ok (pm_fills sim)
     \<and> (\<forall>e \<in> set (pm_curve sim). eq_nav e = eq_cash e + eq_value e)"

lemma fill_all_books:
  "books_ok capital fills pf \<Longrightarrow> trades_ok fills \<Longrightarrow> fill_all resolve ids ords bk pf fills = (Inr fills1, bk1, pf1) \<Longrightarrow>
     books_ok capital fills1 pf1 \<and> trades_ok fills1"
proof (induction ords arbitrary: bk pf fills)
  case (Cons ord ords)
  obtain ord1 where o: "submit_order resolve (ids (length fills)) ord bk = submit_order_sync (ids (length fills)) ord1 bk"
    by (simp add: submit_order_def Let_def)
  show ?case
  proof (cases rule: submit_cases [of "ids (length fills)" ord1 bk])
    case refused
    then show ?thesis using Cons o by simp
  next
    case unknown
    then show ?thesis using Cons.prems(3) o by simp
  next
    case (filled volume)
    let ?f = "price_fill (ids (length fills)) ord1 bk volume"
    obtain f' pf2 where u: "update_fill ?f pf = (f', pf2)" by (cases "update_fill ?f pf")
    have "0 < fe_quantity ?f" using filled by simp
    note b = books_ok_fill [OF Cons.prems(1) u this]
    have "trades_ok (fills @ [f'])" using b Cons.prems(2) price_fill_frame(4) by (auto simp: trades_ok_def)
    with b Cons.IH [of "fills @ [f']" pf2] Cons.prems(3) filled(1) u o show ?thesis by simp
  qed
qed simp

lemma instrument_step_ok:
  assumes "sim_ok capital sim" "instrument_step strat resolve ids ts p sim = (None, sim1)"
  shows "sim_ok capital sim1 \<and> pm_curve sim1 = pm_curve sim"
proof -
  obtain inst bars where p: "p = (inst, bars)" by (cases p)
  show ?thesis
  proof (cases "dict_get (bar_lookup bars) ts")
    case None
    then show ?thesis using assms p by (simp add: instrument_step_def)
  next
    case (Some b)
    obtain r s1 where st: "strat (pm_strategy sim) inst b = (r, s1)" by (cases "strat (pm_strategy sim) inst b")
    then obtain ords where r: "r = Inr ords" using assms(2) p Some by (cases r) (simp_all add: instrument_step_def)
    obtain fr bk1 pf1 where fo: "fill_all resolve ids ords (pm_broker sim) (pm_portfolio sim) (pm_fills sim) = (fr, bk1, pf1)"
      by (metis prod_cases3)
    then obtain fills1 where fr: "fr = Inr fills1" using assms(2) p Some st r by (cases fr) (simp_all add: instrument_step_def)
    have sim1: "sim1 = sim\<lparr>pm_strategy := s1, pm_broker := bk1, pm_fills := fills1,
        pm_portfolio := (if pb_close b > 0 then mark_to_market [(inst, pb_close b)] pf1 else pf1)\<rparr>"
      using assms(2) p Some st r fo fr by (simp add: instrument_step_def)
    have b: "books_ok capital (pm_fills sim) (pm_portfolio sim)" "trades_ok (pm_fills sim)" using assms(1) by (simp_all add: sim_ok_def)
    have "books_ok capital fills1 pf1 \<and> trades_ok fills1" by (rule fill_all_books [OF b fo [unfolded fr]])
    then show ?thesis using assms(1) by (simp add: sim1 sim_ok_def books_ok_mark)
  qed
qed

lemma instruments_step_ok:
  "sim_ok capital sim \<Longrightarrow> instruments_step strat resolve ids ts ps sim = (None, sim1) \<Longrightarrow>
     sim_ok capital sim1 \<and> pm_curve sim1 = pm_curve sim"
proof (induction ps arbitrary: sim)
  case (Cons p ps)
  obtain r sim2 where st: "instrument_step strat resolve ids ts p sim = (r, sim2)" by (cases "instrument_step strat resolve ids ts p sim")
  then have "r = None" using Cons.prems(2) by (cases r) auto
  then show ?case using st Cons instrument_step_ok [OF Cons.prems(1)] by fastforce
qed simp

lemma timeline_run_ok:
  "sim_ok capital sim \<Longrightarrow> timeline_run strat resolve ids tm cancel data targets rb tss sim = (None, sim1) \<Longrightarrow>
     sim_ok capital sim1 \<and> length (pm_curve sim1) \<le> length (pm_curve sim) + length tss
     \<and> ((\<forall>n. \<not> cancel n) \<longrightarrow> length (pm_curve sim1) = length (pm_curve sim) + length tss)"
proof (induction tss arbitrary: sim)
  case (Cons ts tss)
  show ?case
  proof (cases "cancel (length (pm_curve sim))")
    case True
    then show ?thesis using Cons.prems by auto
  next
    case False
    obtain r sim2 where st: "instruments_step strat resolve ids ts data sim = (r, sim2)"
      by (cases "instruments_step strat resolve ids ts data sim")
    then have r: "r = None" using Cons.prems(2) False by (cases r) auto
    have ok2: "sim_ok capital sim2" "pm_curve sim2 = pm_curve sim" using instruments_step_ok Cons.prems(1) st r by blast+
    have rc: "rebalance_check data targets rb = None"
      using Cons.prems(2) False st r by (cases "rebalance_check data targets rb") auto
    define point where "point = \<lparr>eq_timestamp = tm ts, eq_nav = portfolio_nav (pm_portfolio sim2),
      eq_cash = pf_cash (pm_portfolio sim2), eq_value = positions_value (pm_portfolio sim2)\<rparr>"
    define sim3 where "sim3 = sim2\<lparr>pm_curve := pm_curve sim2 @ [point]\<rparr>"
    have "sim_ok capital sim3" using ok2 by (auto simp: sim_ok_def sim3_def point_def portfolio_nav_def)
    moreover have "timeline_run strat resolve ids tm cancel data targets rb tss sim3 = (None, sim1)"
      using Cons.prems(2) False st r rc by (simp add: Let_def sim3_def point_def)
    ultimately show ?thesis using Cons.IH [of sim3] ok2 by (simp add: sim3_def)
  qed
qed simp


text \<open>C22: the multi-instrument backtest reconciles: when it returns a result, the cash is the capital less what
  the trades paid, every position is the balance of its trades and not negative, cash and the cost of
  what is held explain the capital, the final capital is cash plus positions, each equity point adds
  up, and unless it was cancelled there is one for each distinct timestamp.\<close>

theorem portfolio_backtest_reconciles:
  assumes "run_portfolio strat resolve ids tm cancel s capital data targets rb bk pf0 = (Inr res, sim)"
  defines "pf \<equiv> pm_portfolio sim"
  shows "pf_cash pf = capital - sum_list (map paid (pr_trades res))
    \<and> (\<forall>i. get_position i pf = sum_list (map (moved i) (pr_trades res)) \<and> 0 \<le> get_position i pf)
    \<and> pf_cash pf + pf_cost pf + sum_list (map fe_commission (pr_trades res)) = capital
    \<and> pr_final_capital res = pf_cash pf + positions_value pf \<and> pr_total_return res = pr_final_capital res - capital
    \<and> (\<forall>e \<in> set (pr_equity_curve res). eq_nav e = eq_cash e + eq_value e)
    \<and> length (pr_equity_curve res) \<le> length (timestamps data)
    \<and> ((\<forall>n. \<not> cancel n) \<longrightarrow> length (pr_equity_curve res) = length (timestamps data))"
proof -
  define sim0 where "sim0 = \<lparr>pm_strategy = s, pm_broker = bk, pm_portfolio = pf_reset capital pf0, pm_fills = [], pm_curve = []\<rparr>"
  have ok0: "sim_ok capital sim0" by (simp add: sim0_def sim_ok_def books_ok_reset trades_ok_def)
  have t: "timeline_run strat resolve ids tm cancel data targets rb (timestamps data) sim0 = (None, sim)"
    and r: "pr_trades res = pm_fills sim" "pr_equity_curve res = pm_curve sim" "pr_final_capital res = portfolio_nav pf"
      "pr_total_return res = portfolio_nav pf - capital"
    using assms(1) by (auto simp: run_portfolio_def sim0_def pf_def Let_def split: if_splits prod.splits option.splits)
  note ok = timeline_run_ok [OF ok0 t]
  have "books_ok capital (pr_trades res) pf" using ok unfolding sim_ok_def r pf_def by blast
  then have b: "pf_cash pf = capital - sum_list (map paid (pr_trades res))"
    "\<forall>i. get_position i pf = sum_list (map (moved i) (pr_trades res)) \<and> 0 \<le> get_position i pf"
    "pf_cash pf + pf_cost pf + sum_list (map fe_commission (pr_trades res)) = capital"
    unfolding books_ok_def by blast+
  have c: "\<forall>e \<in> set (pr_equity_curve res). eq_nav e = eq_cash e + eq_value e" using ok unfolding sim_ok_def r by blast
  have l: "length (pr_equity_curve res) \<le> length (timestamps data)
      \<and> ((\<forall>n. \<not> cancel n) \<longrightarrow> length (pr_equity_curve res) = length (timestamps data))"
    using ok by (simp add: r sim0_def)
  have n: "pr_final_capital res = pf_cash pf + positions_value pf" "pr_total_return res = pr_final_capital res - capital"
    by (simp_all add: r portfolio_nav_def)
  show ?thesis using b c l n by blast
qed

definition demo_data :: "unit market_data" where
  "demo_data = [(''a'', [\<lparr>pb_timestamp = ''1'', pb_close = 100, pb_rest = ()\<rparr>]), (''b'', [\<lparr>pb_timestamp = ''2'', pb_close = 50, pb_rest = ()\<rparr>])]"

definition idle :: "(unit, unit) pstrategy" where
  "idle s i b = (Inr [], s)"

definition idle_run :: "(py_error option + portfolio_result) \<times> unit psim" where
  "idle_run = run_portfolio idle None (\<lambda>n. ''f'') (\<lambda>t. 0) (\<lambda>n. False) () 1000 demo_data None None (broker_init None None None 0 None None False) pf_init"

theorem portfolio_backtest_reconciles_witness:
  "case idle_run of (Inr res, sim) \<Rightarrow> pf_cash (pm_portfolio sim) = 1000 - sum_list (map paid (pr_trades res)) | _ \<Rightarrow> False"
proof -
  have "timestamps demo_data = [''1'', ''2'']" by (simp add: timestamps_def demo_data_def)
  then have "\<exists>res sim. idle_run = (Inr res, sim)"
    by (simp add: idle_run_def run_portfolio_def idle_def demo_data_def instrument_step_def bar_lookup_def of_pairs_def rebalance_check_def Let_def)
  then obtain res sim where r: "idle_run = (Inr res, sim)" by blast
  show ?thesis using portfolio_backtest_reconciles [OF r [unfolded idle_run_def], THEN conjunct1] by (simp add: r)
qed

lemma rebalancing_run_fails:
  \<comment> \<open>with a rebalancer and target weights a run over at least one timestamp never succeeds\<close>
  assumes "rb \<noteq> None" "targets = Some (w # ws)" "timestamps data \<noteq> []" "\<not> cancel 0"
  shows "\<not> (\<exists>res. fst (run_portfolio strat resolve ids tm cancel s capital data targets rb bk pf0) = Inr res)"
proof -
  obtain ts tss where t: "timestamps data = ts # tss" using assms(3) by (cases "timestamps data") auto
  have "rebalance_check data targets rb \<noteq> None" using assms(1,2) by (auto simp: rebalance_check_def)
  then have fails: "fst (timeline_run strat resolve ids tm cancel data targets rb (timestamps data) sim) \<noteq> None"
    if "pm_curve sim = []" for sim using that assms(4) by (auto simp: t split: prod.splits option.splits)
  define sim0 where "sim0 = \<lparr>pm_strategy = s, pm_broker = bk, pm_portfolio = pf_reset capital pf0, pm_fills = [], pm_curve = []\<rparr>"
  obtain e sim1 where "timeline_run strat resolve ids tm cancel data targets rb (timestamps data) sim0 = (Some e, sim1)"
    using fails [of sim0] by (cases "timeline_run strat resolve ids tm cancel data targets rb (timestamps data) sim0") (auto simp: sim0_def)
  then show ?thesis by (simp add: run_portfolio_def Let_def flip: sim0_def)
qed

end
