(* ===== verification/Risk_Controls.thy ===== *)
theory Risk_Controls
  imports Prelude
begin

text \<open>
  The risk controls of a backtest: drawdown control, exposure checks, order constraints, stop loss, take
  profit and position sizing (\<open>backtesting/risk\<close>: \<open>drawdown_control.py\<close>, \<open>exposure.py\<close>, \<open>constraints.py\<close>,
  \<open>stop_loss.py\<close>, \<open>take_profit.py\<close>, \<open>position_sizing.py\<close>), the hard limits
  (\<open>backtesting/engine/risk_limits.py\<close>) and the sizer (\<open>backtesting/sizing.py\<close>).

  Of an event the stop loss and the take profit read the instrument and two numbers of the payload,
  0 when missing. An order and its context are one argument of the constraints' checks.
\<close>

subsection \<open>Drawdown\<close>

record drawdown_control =
  dd_max_pct :: pyfloat
  dd_peak :: pyfloat
  dd_current :: pyfloat
  dd_stopped :: bool

definition drawdown_init :: "pyfloat \<Rightarrow> drawdown_control" where
  "drawdown_init m = \<lparr>dd_max_pct = m, dd_peak = 0, dd_current = 0, dd_stopped = False\<rparr>"

definition dd_update :: "pyfloat \<Rightarrow> drawdown_control \<Rightarrow> drawdown_control" where
  "dd_update nav d =
     (let d1 = d\<lparr>dd_peak := max (dd_peak d) nav\<rparr>
      in if dd_peak d1 > 0 then d1\<lparr>dd_current := (nav - dd_peak d1) / dd_peak d1 * 100\<rparr> else d1)"

definition dd_is_breached :: "drawdown_control \<Rightarrow> bool \<times> drawdown_control" where
  "dd_is_breached d =
     (if dd_stopped d then (True, d)
      else if dd_current d \<le> - dd_max_pct d then (True, d\<lparr>dd_stopped := True\<rparr>)
      else (False, d))"

definition dd_reset :: "drawdown_control \<Rightarrow> drawdown_control" where
  "dd_reset d = d\<lparr>dd_peak := 0, dd_current := 0, dd_stopped := False\<rparr>"

subsection \<open>Exposure, limits, constraints\<close>

record exposure_manager =
  em_max_single_position_pct :: pyfloat
  em_max_sector_pct :: pyfloat
  em_max_leverage :: pyfloat

definition check_position_exposure :: "exposure_manager \<Rightarrow> pyfloat \<Rightarrow> pyfloat \<Rightarrow> bool" where
  "check_position_exposure m v capital = (if capital \<le> 0 then False else v / capital * 100 \<le> em_max_single_position_pct m)"

definition check_sector_exposure :: "exposure_manager \<Rightarrow> pyfloat \<Rightarrow> pyfloat \<Rightarrow> bool" where
  "check_sector_exposure m v capital = (if capital \<le> 0 then False else v / capital * 100 \<le> em_max_sector_pct m)"

definition check_leverage :: "exposure_manager \<Rightarrow> pyfloat \<Rightarrow> pyfloat \<Rightarrow> bool" where
  "check_leverage m gross capital = (if capital \<le> 0 then False else gross / capital \<le> em_max_leverage m)"

record risk_limits =
  rl_max_daily_loss_pct :: pyfloat
  rl_max_portfolio_exposure_pct :: pyfloat
  rl_max_single_position_pct :: pyfloat

definition check_daily_loss :: "risk_limits \<Rightarrow> pyfloat \<Rightarrow> pyfloat \<Rightarrow> bool" where
  "check_daily_loss l start now = (if start \<le> 0 then False else (start - now) / start * 100 \<ge> rl_max_daily_loss_pct l)"

definition limits_check_exposure :: "risk_limits \<Rightarrow> pyfloat \<Rightarrow> pyfloat \<Rightarrow> bool" where
  "limits_check_exposure l v nav = (if nav \<le> 0 then True else v / nav * 100 > rl_max_single_position_pct l)"

definition position_cap :: "risk_limits \<Rightarrow> pyfloat \<Rightarrow> pyfloat" where
  "position_cap l nav = nav * rl_max_single_position_pct l / 100"

record 'o risk_constraint =
  cn_name :: string
  cn_check :: "'o \<Rightarrow> bool"
  cn_message :: string

definition check_all :: "'o \<Rightarrow> 'o risk_constraint list \<Rightarrow> string list" where
  "check_all ord cs = map (\<lambda>c. if cn_message c = [] then cn_name c else cn_message c) (filter (\<lambda>c. \<not> cn_check c ord) cs)"

definition is_allowed :: "'o \<Rightarrow> 'o risk_constraint list \<Rightarrow> bool" where
  "is_allowed ord cs = (length (check_all ord cs) = 0)"

subsection \<open>Stop loss\<close>

record price_event =
  pe_instrument :: string
  pe_price :: pyfloat
  pe_entry_price :: pyfloat

record stop_loss =
  sl_pct :: pyfloat
  sl_absolute :: pyfloat
  sl_trailing :: bool
  sl_highest :: "(string, pyfloat) pydict"
  sl_entry :: "(string, pyfloat) pydict"

definition stop_init :: "pyfloat \<Rightarrow> pyfloat \<Rightarrow> bool \<Rightarrow> stop_loss" where
  "stop_init pct absolute trailing = \<lparr>sl_pct = pct, sl_absolute = absolute, sl_trailing = trailing, sl_highest = [], sl_entry = []\<rparr>"

definition sl_set_entry_price :: "string \<Rightarrow> pyfloat \<Rightarrow> stop_loss \<Rightarrow> stop_loss" where
  "sl_set_entry_price i p s = s\<lparr>sl_entry := dict_set i p (sl_entry s)\<rparr>"

definition raise_highest :: "string \<Rightarrow> pyfloat \<Rightarrow> stop_loss \<Rightarrow> stop_loss" where
  "raise_highest i p s = s\<lparr>sl_highest := dict_set i (max (dict_get_or (sl_highest s) i 0) p) (sl_highest s)\<rparr>"

definition stop_below :: "pyfloat \<Rightarrow> stop_loss \<Rightarrow> pyfloat" where
  "stop_below p s = p * (1 - sl_pct s / 100)"

definition should_stop_out :: "string \<Rightarrow> int \<Rightarrow> pyfloat \<Rightarrow> pyfloat \<Rightarrow> stop_loss \<Rightarrow> bool \<times> stop_loss" where
  "should_stop_out i quantity avg price s =
     (if quantity = 0 then (False, s)
      else if avg \<le> 0 then (False, s)
      else if sl_trailing s then
        (let s1 = raise_highest i price s in (price \<le> stop_below (dict_get_or (sl_highest s1) i 0) s1, s1))
      else if sl_absolute s > 0 then (price \<le> sl_absolute s, s)
      else (price \<le> stop_below avg s, s))"

definition get_stop_price :: "pyfloat \<Rightarrow> stop_loss \<Rightarrow> pyfloat" where
  "get_stop_price entry s =
     (if sl_absolute s > 0 then sl_absolute s
      else
        (let highest = (case map snd (sl_highest s) of [] \<Rightarrow> 0 | x # xs \<Rightarrow> fold max xs x)
         in if sl_trailing s \<and> highest > 0 then stop_below highest s else stop_below entry s))"

definition entry_of :: "price_event \<Rightarrow> (string, pyfloat) pydict \<Rightarrow> pyfloat" where
  "entry_of e entries =
     (let entry = dict_get_or entries (pe_instrument e) 0 in if entry \<le> 0 then pe_entry_price e else entry)"

definition sl_hit :: "price_event \<Rightarrow> stop_loss \<Rightarrow> bool \<times> stop_loss" where
  \<comment> \<open>what the loop does for the position of the event's instrument\<close>
  "sl_hit e s =
     (let p = pe_price e; i = pe_instrument e in
      if sl_trailing s then (let s1 = raise_highest i p s in (p \<le> stop_below (dict_get_or (sl_highest s1) i 0) s1, s1))
      else if sl_absolute s > 0 \<and> p \<le> sl_absolute s then (True, s)
      else if sl_pct s > 0 \<and> sl_absolute s \<le> 0 then
        (let entry = entry_of e (sl_entry s) in (entry > 0 \<and> p \<le> stop_below entry s, s))
      else (False, s))"

fun sl_scan :: "price_event \<Rightarrow> (string, int) pydict \<Rightarrow> stop_loss \<Rightarrow> bool \<times> stop_loss" where
  "sl_scan e [] s = (False, s)"
| "sl_scan e ((i, q) # ps) s =
     (if q > 0 \<and> i = pe_instrument e
      then (case sl_hit e s of (True, s1) \<Rightarrow> (True, s1) | (False, s1) \<Rightarrow> sl_scan e ps s1)
      else sl_scan e ps s)"

definition sl_is_triggered :: "(string, int) pydict \<Rightarrow> price_event option \<Rightarrow> stop_loss \<Rightarrow> bool \<times> stop_loss" where
  "sl_is_triggered positions ev s =
     (case ev of
        None \<Rightarrow> (False, s)
      | Some e \<Rightarrow> if pe_price e \<le> 0 then (False, s) else sl_scan e positions s)"

definition sl_reset :: "stop_loss \<Rightarrow> stop_loss" where
  "sl_reset s = s\<lparr>sl_highest := [], sl_entry := []\<rparr>"

subsection \<open>Take profit\<close>

record take_profit =
  tp_pct :: pyfloat
  tp_absolute :: pyfloat
  tp_entry :: "(string, pyfloat) pydict"

definition tp_set_entry_price :: "string \<Rightarrow> pyfloat \<Rightarrow> take_profit \<Rightarrow> take_profit" where
  "tp_set_entry_price i p s = s\<lparr>tp_entry := dict_set i p (tp_entry s)\<rparr>"

definition should_take_profit :: "int \<Rightarrow> pyfloat \<Rightarrow> pyfloat \<Rightarrow> take_profit \<Rightarrow> bool" where
  "should_take_profit quantity avg price s =
     (if quantity = 0 \<or> avg \<le> 0 then False
      else if tp_absolute s > 0 then price \<ge> tp_absolute s
      else price \<ge> avg * (1 + tp_pct s / 100))"

definition get_target_price :: "pyfloat \<Rightarrow> take_profit \<Rightarrow> pyfloat" where
  "get_target_price entry s = (if tp_absolute s > 0 then tp_absolute s else entry * (1 + tp_pct s / 100))"

definition tp_hit :: "price_event \<Rightarrow> take_profit \<Rightarrow> bool" where
  "tp_hit e s =
     (if tp_absolute s > 0 \<and> pe_price e \<ge> tp_absolute s then True
      else if tp_pct s > 0 \<and> tp_absolute s \<le> 0 then
        (let entry = entry_of e (tp_entry s) in entry > 0 \<and> pe_price e \<ge> entry * (1 + tp_pct s / 100))
      else False)"

definition tp_is_triggered :: "(string, int) pydict \<Rightarrow> price_event option \<Rightarrow> take_profit \<Rightarrow> bool" where
  "tp_is_triggered positions ev s =
     (case ev of
        None \<Rightarrow> False
      | Some e \<Rightarrow> if pe_price e \<le> 0 then False else list_ex (\<lambda>(i, q). q > 0 \<and> i = pe_instrument e \<and> tp_hit e s) positions)"

definition tp_reset :: "take_profit \<Rightarrow> take_profit" where
  "tp_reset s = s\<lparr>tp_entry := []\<rparr>"

subsection \<open>Sizes\<close>

record position_sizing =
  sz_risk_per_trade_pct :: pyfloat
  sz_max_position_pct :: pyfloat
  sz_fixed_qty :: int

definition compute_quantity :: "position_sizing \<Rightarrow> pyfloat \<Rightarrow> pyfloat \<Rightarrow> pyfloat \<Rightarrow> int" where
  "compute_quantity s capital price volatility =
     (if sz_fixed_qty s > 0 then sz_fixed_qty s
      else if price \<le> 0 then 0
      else
        (let from_max = py_int (capital * (sz_max_position_pct s / 100) / price)
         in if volatility > 0 then max 0 (min (py_int (capital * (sz_risk_per_trade_pct s / 100) / (price * volatility))) from_max)
            else max 0 from_max))"

definition compute_kelly_fraction :: "position_sizing \<Rightarrow> pyfloat \<Rightarrow> pyfloat \<Rightarrow> pyfloat \<Rightarrow> pyfloat" where
  "compute_kelly_fraction s win_rate avg_win avg_loss =
     (if avg_loss \<le> 0 \<or> avg_win \<le> 0 then 0
      else max 0 (min (win_rate - (1 - win_rate) * (avg_loss / avg_win)) (sz_max_position_pct s / 100)))"

definition sizer_calculate ::
  "string \<Rightarrow> pyfloat \<Rightarrow> pyfloat \<Rightarrow> pyfloat \<Rightarrow> pyfloat \<Rightarrow> pyfloat \<Rightarrow> pyfloat \<Rightarrow> pyfloat \<Rightarrow> py_error + pyfloat" where
  "sizer_calculate method v capital price win_rate avg_win avg_loss stop_pct =
     (if method = ''fixed'' then (if price = 0 then Inl ZeroDivisionError else Inr (v / price))
      else if method = ''percent'' then (if price = 0 then Inl ZeroDivisionError else Inr (capital * v / 100 / price))
      else if method = ''kelly'' then
        (let kelly = (win_rate * avg_win - (1 - win_rate) * avg_loss) / max (avg_win * avg_loss) (1 / 10 ^ 12)
         in if price = 0 then Inl ZeroDivisionError else Inr (capital * max 0 (min kelly v) / price))
      else if method = ''risk_based'' then
        (let per_share = price * (stop_pct / 100) in Inr (if per_share \<le> 0 then 0 else capital * (v / 100) / per_share))
      else Inr 0)"


subsection \<open>The drawdown control latches\<close>

lemma dd_updates:
  assumes "dd_peak d = fold max before 0"
  shows "dd_peak (fold dd_update navs d) = fold max (before @ navs) 0 \<and> dd_max_pct (fold dd_update navs d) = dd_max_pct d
    \<and> dd_stopped (fold dd_update navs d) = dd_stopped d
    \<and> (navs \<noteq> [] \<and> 0 < fold max (before @ navs) 0 \<longrightarrow> dd_current (fold dd_update navs d) =
         (last navs - fold max (before @ navs) 0) / fold max (before @ navs) 0 * 100)"
  using assms
proof (induction navs rule: rev_induct)
  case (snoc nav navs)
  then show ?case by (simp add: dd_update_def Let_def max.commute)
qed simp

datatype dd_op = DUpdate pyfloat | DPoll

fun dd_step :: "dd_op \<Rightarrow> drawdown_control \<Rightarrow> drawdown_control" where
  "dd_step (DUpdate x) d = dd_update x d"
| "dd_step DPoll d = snd (dd_is_breached d)"

lemma dd_stopped_stays: "dd_stopped d \<Longrightarrow> dd_stopped (fold dd_step ops d)"
proof (induction ops arbitrary: d)
  case (Cons op ops)
  then show ?case by (cases op) (simp_all add: dd_update_def dd_is_breached_def Let_def)
qed simp

text \<open>The drawdown control measures from the peak and latches: after any navs, one of them positive, a
  fresh control reports a breach exactly when the last nav lies at least the limit below the greatest
  one, in percent of it; and once it has reported a breach it reports one after whatever follows.\<close>

theorem drawdown_latches:
  fixes navs :: "pyfloat list" and m :: pyfloat
  assumes "navs \<noteq> []" "0 < fold max navs 0"
  defines "d \<equiv> fold dd_update navs (drawdown_init m)"
  shows "(fst (dd_is_breached d) \<longleftrightarrow> (last navs - fold max navs 0) / fold max navs 0 * 100 \<le> - m)
    \<and> (fst (dd_is_breached d) \<longrightarrow> fst (dd_is_breached (fold dd_step ops (snd (dd_is_breached d)))))"
proof -
  have i: "dd_max_pct d = m \<and> \<not> dd_stopped d \<and> dd_current d = (last navs - fold max navs 0) / fold max navs 0 * 100"
    using dd_updates [of "drawdown_init m" "[]" navs] assms(1,2) by (simp add: d_def drawdown_init_def)
  have "dd_stopped (snd (dd_is_breached d))" if "fst (dd_is_breached d)"
    using that by (auto simp: dd_is_breached_def split: if_splits)
  then have "fst (dd_is_breached (fold dd_step ops (snd (dd_is_breached d))))" if "fst (dd_is_breached d)"
    using dd_stopped_stays [of "snd (dd_is_breached d)" ops] that by (simp add: dd_is_breached_def [of "fold dd_step ops _"])
  then show ?thesis using i by (auto simp: dd_is_breached_def split: if_splits)
qed

theorem drawdown_latches_witness:
  "fst (dd_is_breached (fold dd_step [DUpdate 120] (snd (dd_is_breached (fold dd_update [100, 80] (drawdown_init 15))))))"
  using drawdown_latches [of "[100, 80]" 15 "[DUpdate 120]"] by simp

subsection \<open>The trailing stop follows the highest price\<close>

lemma sl_scan_absent: "\<forall>(j, q) \<in> set ps. j \<noteq> pe_instrument e \<Longrightarrow> sl_scan e ps s = (False, s)"
  by (induction ps) auto

lemma sl_scan_held:
  "dict_ok ps \<Longrightarrow> dict_get ps (pe_instrument e) = Some q \<Longrightarrow> 0 < q \<Longrightarrow> sl_scan e ps s = sl_hit e s"
proof (induction ps)
  case (Cons p ps)
  obtain j r where p: "p = (j, r)" by (cases p)
  show ?case
  proof (cases "j = pe_instrument e")
    case True
    then have "\<forall>(k, q) \<in> set ps. k \<noteq> pe_instrument e" using Cons.prems(1) p by (force simp: dict_ok_def)
    then show ?thesis using Cons.prems(2,3) True p by (auto simp: sl_scan_absent split: prod.split bool.split)
  next
    case False
    then show ?thesis using Cons p by (simp add: dict_ok_def)
  qed
qed simp

definition watch :: "(string, int) pydict \<Rightarrow> string \<Rightarrow> pyfloat list \<Rightarrow> stop_loss \<Rightarrow> stop_loss" where
  \<comment> \<open>the stop loss is asked for each price of the instrument\<close>
  "watch positions i prices s = fold (\<lambda>p s. snd (sl_is_triggered positions (Some \<lparr>pe_instrument = i, pe_price = p, pe_entry_price = 0\<rparr>) s)) prices s"

lemma trailing_step:
  assumes "dict_ok positions" "dict_get positions i = Some q" "0 < q" "0 < p" "sl_trailing s"
  shows "sl_is_triggered positions (Some \<lparr>pe_instrument = i, pe_price = p, pe_entry_price = x\<rparr>) s =
    (p \<le> stop_below (max (dict_get_or (sl_highest s) i 0) p) s, raise_highest i p s)"
  using sl_scan_held [OF assms(1), of "\<lparr>pe_instrument = i, pe_price = p, pe_entry_price = x\<rparr>" q s] assms
  by (simp add: sl_is_triggered_def sl_hit_def raise_highest_def dict_get_or_def stop_below_def Let_def)

lemma watch_highest:
  assumes "dict_ok positions" "dict_get positions i = Some q" "0 < q" "sl_trailing s"
  shows "\<forall>p \<in> set prices. 0 < p \<Longrightarrow>
    dict_get_or (sl_highest (watch positions i prices s)) i 0 = fold max prices (dict_get_or (sl_highest s) i 0)
      \<and> sl_trailing (watch positions i prices s) \<and> sl_pct (watch positions i prices s) = sl_pct s"
proof (induction prices rule: rev_induct)
  case (snoc p prices)
  then have ih: "dict_get_or (sl_highest (watch positions i prices s)) i 0 = fold max prices (dict_get_or (sl_highest s) i 0)"
      "sl_trailing (watch positions i prices s)" "sl_pct (watch positions i prices s) = sl_pct s" by auto
  have "watch positions i (prices @ [p]) s = raise_highest i p (watch positions i prices s)"
    using trailing_step [OF assms(1-3) _ ih(2), of p] snoc.prems by (simp add: watch_def)
  then show ?case using ih by (simp add: raise_highest_def dict_get_or_def max.commute)
qed (simp add: watch_def assms(4))

text \<open>A trailing stop follows the highest price: for a held position and any positive prices, the stop
  fires at a price exactly when the price is at or below the given percentage under the highest price
  seen so far, itself included, and its level never falls.\<close>

theorem trailing_stop_exact:
  fixes positions :: "(string, int) pydict" and i :: string and prices :: "pyfloat list" and p pct a :: pyfloat
  assumes "dict_ok positions" "dict_get positions i = Some q" "0 < q" "\<forall>x \<in> set prices. 0 < x" "0 < p" "pct \<le> 100"
  defines "s \<equiv> watch positions i prices (stop_init pct a True)"
  shows "(fst (sl_is_triggered positions (Some \<lparr>pe_instrument = i, pe_price = p, pe_entry_price = 0\<rparr>) s)
      \<longleftrightarrow> p \<le> fold max (prices @ [p]) 0 * (1 - pct / 100))
    \<and> fold max prices 0 * (1 - pct / 100) \<le> fold max (prices @ [p]) 0 * (1 - pct / 100)"
proof -
  have w: "dict_get_or (sl_highest s) i 0 = fold max prices 0 \<and> sl_trailing s \<and> sl_pct s = pct"
    using watch_highest [OF assms(1-3), of "stop_init pct a True" prices] assms(4) by (simp add: s_def stop_init_def dict_get_or_def)
  then have "fst (sl_is_triggered positions (Some \<lparr>pe_instrument = i, pe_price = p, pe_entry_price = 0\<rparr>) s)
      \<longleftrightarrow> p \<le> max (fold max prices 0) p * (1 - pct / 100)"
    using trailing_step [OF assms(1-3,5), of s 0] by (simp add: stop_below_def)
  moreover have "fold max prices 0 * (1 - pct / 100) \<le> max (fold max prices 0) p * (1 - pct / 100)"
    using assms(6) by (intro mult_right_mono) auto
  ultimately show ?thesis by (simp add: max.commute)
qed

theorem trailing_stop_exact_witness:
  "fst (sl_is_triggered [(''x'', 5)] (Some \<lparr>pe_instrument = ''x'', pe_price = 97, pe_entry_price = 0\<rparr>)
     (watch [(''x'', 5)] ''x'' [100, 99] (stop_init 2 0 True)))"
  using trailing_stop_exact [of "[(''x'', 5)]" "''x''" 5 "[100, 99]" 97 2 0] by (simp add: dict_ok_def)

lemma highest_outlives_position:
  \<comment> \<open>the highest price of a position that was closed is used for the next one\<close>
  assumes "dict_ok positions" "dict_get positions i = Some q" "0 < q" "0 < p" "sl_trailing s" "dict_get (sl_highest s) i = Some h"
    and "p \<le> h * (1 - sl_pct s / 100)" "p \<le> h"
  shows "fst (sl_is_triggered positions (Some \<lparr>pe_instrument = i, pe_price = p, pe_entry_price = 0\<rparr>) (sl_set_entry_price i p s))"
  using trailing_step [OF assms(1-4), of "sl_set_entry_price i p s" 0] assms(5-8)
  by (simp add: sl_set_entry_price_def dict_get_or_def stop_below_def)

lemma stop_price_of_another:
  \<comment> \<open>the trailing stop price of any instrument is taken from the highest price of all of them\<close>
  "get_stop_price 10 (raise_highest ''big'' 1000 (raise_highest ''small'' 11 (stop_init 10 0 True))) = 900"
  by (simp add: get_stop_price_def raise_highest_def stop_init_def dict_get_or_def stop_below_def)

subsection \<open>Sizes stay within the capital\<close>

text \<open>Position sizes respect their limits: with no fixed quantity, a positive price and capital and
  percentages not below 0, the quantity is not negative, costs at most the allowed part of the
  capital, and with a volatility puts at most the allowed part at risk; a Kelly fraction lies between
  0 and the allowed part.\<close>

theorem sizing_within_limits:
  fixes s :: position_sizing and capital price vol :: pyfloat
  assumes "sz_fixed_qty s \<le> 0" "0 < price" "0 \<le> capital" "0 \<le> sz_max_position_pct s" "0 \<le> sz_risk_per_trade_pct s"
  defines "q \<equiv> compute_quantity s capital price vol"
  shows "0 \<le> q \<and> of_int q * price \<le> capital * (sz_max_position_pct s / 100)
    \<and> (0 < vol \<longrightarrow> of_int q * (price * vol) \<le> capital * (sz_risk_per_trade_pct s / 100))
    \<and> 0 \<le> compute_kelly_fraction s w aw al \<and> compute_kelly_fraction s w aw al \<le> sz_max_position_pct s / 100"
proof -
  define a where "a = capital * (sz_max_position_pct s / 100)"
  define b where "b = capital * (sz_risk_per_trade_pct s / 100)"
  have nn: "0 \<le> a" "0 \<le> b" using assms by (simp_all add: a_def b_def)
  have am: "of_int (py_int (a / price)) * price \<le> a" "0 \<le> py_int (a / price)"
    using py_int_le [of "a / price"] py_int_nonneg [of "a / price"] nn assms(2) by (simp_all add: pos_le_divide_eq)
  have q: "q = (if vol > 0 then max 0 (min (py_int (b / (price * vol))) (py_int (a / price))) else max 0 (py_int (a / price)))"
    using assms(1,2) by (simp add: q_def compute_quantity_def a_def b_def Let_def)
  have "q \<le> py_int (a / price)" using am by (auto simp: q)
  then have "of_int q * price \<le> of_int (py_int (a / price)) * price" using assms(2) by (intro mult_right_mono) auto
  then have A: "of_int q * price \<le> a" using am by linarith
  have B: "of_int q * (price * vol) \<le> b" if v: "0 < vol"
  proof -
    have pv: "0 < price * vol" using v assms(2) by simp
    have bm: "of_int (py_int (b / (price * vol))) * (price * vol) \<le> b" "0 \<le> py_int (b / (price * vol))"
      using py_int_le [of "b / (price * vol)"] py_int_nonneg [of "b / (price * vol)"] nn pv by (simp_all add: pos_le_divide_eq)
    have "q \<le> py_int (b / (price * vol))" using bm v by (auto simp: q)
    then have "of_int q * (price * vol) \<le> of_int (py_int (b / (price * vol))) * (price * vol)" using pv by (intro mult_right_mono) auto
    then show ?thesis using bm by linarith
  qed
  define c where "c = sz_max_position_pct s / 100"
  have "0 \<le> c" using assms(4) by (simp add: c_def)
  then have K: "0 \<le> compute_kelly_fraction s w aw al" "compute_kelly_fraction s w aw al \<le> sz_max_position_pct s / 100"
    by (simp_all add: compute_kelly_fraction_def flip: c_def)
  have "0 \<le> q" by (simp add: q)
  then show ?thesis using A B K unfolding a_def b_def by blast
qed

theorem sizing_within_limits_witness:
  "of_int (compute_quantity \<lparr>sz_risk_per_trade_pct = 1, sz_max_position_pct = 10, sz_fixed_qty = 0\<rparr> 1000 7 0) * 7 \<le> (100 :: pyfloat)"
  using sizing_within_limits [of "\<lparr>sz_risk_per_trade_pct = 1, sz_max_position_pct = 10, sz_fixed_qty = 0\<rparr>" 7 1000 0 0 0 0] by simp

lemma exposure_limits_disagree:
  \<comment> \<open>without capital one check refuses a position and the other reports a breach: both are conservative\<close>
  "capital \<le> 0 \<Longrightarrow> \<not> check_position_exposure m v capital \<and> limits_check_exposure l v capital"
  by (simp add: check_position_exposure_def limits_check_exposure_def)

end
