(* ===== verification/Position_Accounting.thy ===== *)
theory Position_Accounting
  imports Portfolio_Account
begin

text \<open>
  Positions and their accounting (\<open>backtesting/engine/position_manager.py\<close>,
  \<open>backtesting/engine/portfolio_accounting.py\<close>) over the cash manager of \<open>Portfolio_Account\<close>. A position
  is keyed by its instrument; \<open>ps_current\<close> is not used here.
\<close>

subsection \<open>Operations\<close>

type_synonym position_manager = "(string, position_state) pydict"

definition pm_update :: "'a fill_event_scheme \<Rightarrow> position_manager \<Rightarrow> position_manager" where
  "pm_update f ps =
     (let i = fe_instrument f; pos = dict_get_or ps i no_position; cost = fe_price f * of_int (fe_quantity f) in
      if fe_side f = ''buy'' then
        (let total_qty = ps_quantity pos + fe_quantity f;
             total_cost = ps_avg_price pos * of_int (ps_quantity pos) + cost
         in dict_set i (pos\<lparr>ps_avg_price := (if total_qty > 0 then total_cost / of_int total_qty else 0), ps_quantity := total_qty\<rparr>) ps)
      else
        dict_set i (pos\<lparr>ps_realized := ps_realized pos + (fe_price f - ps_avg_price pos) * of_int (fe_quantity f),
                        ps_quantity := ps_quantity pos - fe_quantity f\<rparr>) ps)"

definition pm_get_total_value :: "(string, pyfloat) pydict \<Rightarrow> position_manager \<Rightarrow> pyfloat" where
  "pm_get_total_value prices ps = sum_list (map (\<lambda>(i, p). of_int (ps_quantity p) * dict_get_or prices i (ps_avg_price p)) ps)"

definition pm_get_total_realized_pnl :: "position_manager \<Rightarrow> pyfloat" where
  "pm_get_total_realized_pnl ps = sum_list (map (\<lambda>(i, p). ps_realized p) ps)"

definition pm_get_position_count :: "position_manager \<Rightarrow> nat" where
  "pm_get_position_count ps = length ps"

record portfolio_accounting =
  pa_cash :: cash_manager
  pa_positions :: position_manager
  pa_navs :: "pyfloat list"

definition accounting_init :: "pyfloat \<Rightarrow> portfolio_accounting" where
  "accounting_init c = \<lparr>pa_cash = cm_init c, pa_positions = [], pa_navs = []\<rparr>"

definition accounting_reset :: "portfolio_accounting \<Rightarrow> portfolio_accounting" where
  "accounting_reset pa = pa\<lparr>pa_navs := []\<rparr>"

definition apply_fill :: "'a fill_event_scheme \<Rightarrow> portfolio_accounting \<Rightarrow> portfolio_accounting" where
  \<comment> \<open>whether the withdrawal succeeded is not looked at\<close>
  "apply_fill f pa =
     (let pa1 = pa\<lparr>pa_positions := pm_update f (pa_positions pa)\<rparr>;
          cost = fe_price f * of_int (fe_quantity f) + fe_commission f;
          revenue = fe_price f * of_int (fe_quantity f) - fe_commission f
      in if fe_side f = ''buy'' then pa1\<lparr>pa_cash := snd (cm_withdraw cost (''buy '' @ fe_instrument f) (pa_cash pa1))\<rparr>
         else pa1\<lparr>pa_cash := cm_deposit revenue (''sell '' @ fe_instrument f) (pa_cash pa1)\<rparr>)"

definition accounting_nav :: "(string, pyfloat) pydict \<Rightarrow> portfolio_accounting \<Rightarrow> pyfloat" where
  "accounting_nav prices pa = cm_cash (pa_cash pa) + pm_get_total_value prices (pa_positions pa)"

definition accounting_mark :: "(string, pyfloat) pydict \<Rightarrow> portfolio_accounting \<Rightarrow> portfolio_accounting" where
  "accounting_mark prices pa = pa\<lparr>pa_navs := pa_navs pa @ [accounting_nav prices pa]\<rparr>"

definition get_total_pnl :: "portfolio_accounting \<Rightarrow> pyfloat" where
  "get_total_pnl pa = (if pa_navs pa = [] then 0 else last (pa_navs pa) - hd (pa_navs pa))"

subsection \<open>Cash and shares\<close>

definition held_of :: "string \<Rightarrow> portfolio_accounting \<Rightarrow> int" where
  "held_of i pa = ps_quantity (dict_get_or (pa_positions pa) i no_position)"

definition unpaid :: "'a fill_event_scheme \<Rightarrow> portfolio_accounting \<Rightarrow> bool" where
  \<comment> \<open>a purchase the free cash does not cover\<close>
  "unpaid f pa \<longleftrightarrow> fe_side f = ''buy'' \<and> \<not> cm_can_afford (paid f) (pa_cash pa)"

fun unpaid_total :: "'a fill_event_scheme list \<Rightarrow> portfolio_accounting \<Rightarrow> pyfloat" where
  "unpaid_total [] pa = 0"
| "unpaid_total (f # fs) pa = (if unpaid f pa then paid f else 0) + unpaid_total fs (apply_fill f pa)"

lemma apply_fill_held: "held_of i (apply_fill f pa) = held_of i pa + moved i f"
  by (simp add: held_of_def apply_fill_def pm_update_def moved_def dict_get_or_def Let_def)

lemma apply_fill_cash:
  "cm_cash (pa_cash (apply_fill f pa)) = cm_cash (pa_cash pa) - paid f + (if unpaid f pa then paid f else 0)"
  by (simp add: apply_fill_def cm_withdraw_def cm_deposit_def cm_can_afford_def unpaid_def paid_def Let_def)

text \<open>The accounting of positions is exact up to unpaid purchases: after any fills every position is the
  balance of the fills, and the cash is what they leave of the capital plus the price of every purchase
  that the free cash did not cover: such shares are booked and never paid for.\<close>

theorem accounting_exact:
  defines "pa fs c \<equiv> fold apply_fill fs (accounting_init c)"
  shows "held_of i (pa fs c) = sum_list (map (moved i) fs)
    \<and> cm_cash (pa_cash (pa fs c)) = c - sum_list (map paid fs) + unpaid_total fs (accounting_init c)"
proof -
  have "held_of i (fold apply_fill fs pa) = held_of i pa + sum_list (map (moved i) fs)
      \<and> cm_cash (pa_cash (fold apply_fill fs pa)) = cm_cash (pa_cash pa) - sum_list (map paid fs) + unpaid_total fs pa" for pa
    by (induction fs arbitrary: pa) (auto simp: apply_fill_held apply_fill_cash)
  from this [of "accounting_init c"] show ?thesis
    by (simp add: pa_def accounting_init_def cm_init_def held_of_def dict_get_or_def no_position_def)
qed

lemma shares_for_nothing:
  \<comment> \<open>an unpaid purchase raises the net asset value by its whole price\<close>
  assumes "fe_side f = ''buy''" "0 < fe_quantity f" "pa_positions pa = []" "\<not> cm_can_afford (paid f) (pa_cash pa)"
  shows "accounting_nav [] (apply_fill f pa) = accounting_nav [] pa + fe_price f * of_int (fe_quantity f)"
  using assms apply_fill_cash [of f pa]
  by (simp add: accounting_nav_def unpaid_def) (simp add: apply_fill_def pm_update_def pm_get_total_value_def dict_get_or_def no_position_def Let_def)

end
