(* ===== verification/Option_Payoff.thy ===== *)
theory Option_Payoff
  imports Prelude
begin

text \<open>
  Payoffs of option strategies at expiry (\<open>domain/options/payoff.py\<close>): the payoff curve, the break-even
  points found by bisection, the extreme profit and loss. A payoff is linear between two strikes; from that
  the theory shows that the few prices the code tries are enough for the whole range. The loop that lays out
  the grid of prices would not end for a step that is not positive, so it is a partial function; the
  validation in front of it is shown to be what makes it return.
\<close>

subsection \<open>Legs\<close>

datatype leg_type = LCall | LPut | LStock
datatype leg_action = Buy | Sell

record option_leg =
  leg_type :: leg_type
  leg_action :: leg_action
  leg_strike :: pyfloat
  leg_premium :: pyfloat
  leg_quantity :: pyfloat

definition option_leg_new :: "leg_type \<Rightarrow> leg_action \<Rightarrow> pyfloat \<Rightarrow> pyfloat \<Rightarrow> pyfloat \<Rightarrow> py_error + option_leg" where
  "option_leg_new ty action strike premium quantity =
     (if quantity < 0 then Inl ValueError
      else if premium < 0 then Inl ValueError
      else if ty \<noteq> LStock \<and> strike < 0 then Inl ValueError
      else Inr \<lparr>leg_type = ty, leg_action = action, leg_strike = strike, leg_premium = premium, leg_quantity = quantity\<rparr>)"

definition validate_range :: "pyfloat \<Rightarrow> pyfloat \<Rightarrow> pyfloat \<Rightarrow> py_error + unit" where
  "validate_range price_min price_max contract_size =
     (if contract_size \<le> 0 then Inl ValueError
      else if price_min < 0 then Inl ValueError
      else if price_max \<le> price_min then Inl ValueError
      else Inr ())"

definition MAX_CURVE_POINTS :: pyfloat where
  "MAX_CURVE_POINTS = 100000"

definition ZERO_TOLERANCE :: pyfloat where
  "ZERO_TOLERANCE = 1 / 10 ^ 9"

definition DEDUP_TOLERANCE :: pyfloat where
  "DEDUP_TOLERANCE = 1 / 10 ^ 6"

definition BISECTION_ITERATIONS :: nat where
  "BISECTION_ITERATIONS = 80"

definition validate_inputs :: "pyfloat \<Rightarrow> pyfloat \<Rightarrow> pyfloat \<Rightarrow> pyfloat \<Rightarrow> py_error + unit" where
  "validate_inputs price_min price_max step contract_size =
     (case validate_range price_min price_max contract_size of
        Inl e \<Rightarrow> Inl e
      | Inr _ \<Rightarrow>
          if step \<le> 0 then Inl ValueError
          else if (price_max - price_min) / step > MAX_CURVE_POINTS then Inl ValueError
          else Inr ())"

subsection \<open>Payoff\<close>

definition unit_payoff_at_expiry :: "option_leg \<Rightarrow> pyfloat \<Rightarrow> pyfloat" where
  "unit_payoff_at_expiry leg price =
     (case leg_type leg of
        LStock \<Rightarrow> price - leg_premium leg
      | LCall \<Rightarrow> max (price - leg_strike leg) 0 - leg_premium leg
      | LPut \<Rightarrow> max (leg_strike leg - price) 0 - leg_premium leg)"

definition leg_contribution :: "option_leg \<Rightarrow> pyfloat \<Rightarrow> pyfloat" where
  "leg_contribution leg price =
     (let leg_payoff = unit_payoff_at_expiry leg price * leg_quantity leg
      in if leg_action leg = Buy then leg_payoff else - leg_payoff)"

definition calculate_payoff_at_price :: "option_leg list \<Rightarrow> pyfloat \<Rightarrow> pyfloat \<Rightarrow> pyfloat" where
  "calculate_payoff_at_price legs price contract_size =
     sum_list (map (\<lambda>leg. leg_contribution leg price) legs) * contract_size"

subsection \<open>The curve\<close>

partial_function (option) curve_grid :: "pyfloat \<Rightarrow> pyfloat \<Rightarrow> pyfloat \<Rightarrow> pyfloat list option" where
  "curve_grid price price_max step =
     (if price < price_max - ZERO_TOLERANCE
      then Option.bind (curve_grid (price + step) price_max step) (\<lambda>prices. Some (price # prices))
      else Some [])"

declare curve_grid.simps [code]

definition inner_strikes :: "option_leg list \<Rightarrow> pyfloat \<Rightarrow> pyfloat \<Rightarrow> pyfloat list" where
  "inner_strikes legs price_min price_max =
     map leg_strike (filter (\<lambda>leg. leg_type leg \<noteq> LStock \<and> price_min < leg_strike leg \<and> leg_strike leg < price_max) legs)"

definition curve_prices :: "option_leg list \<Rightarrow> pyfloat \<Rightarrow> pyfloat \<Rightarrow> pyfloat \<Rightarrow> pyfloat list option" where
  "curve_prices legs price_min price_max step =
     map_option (\<lambda>prices. sort (remdups (prices @ [price_max] @ inner_strikes legs price_min price_max)))
       (curve_grid price_min price_max step)"

definition build_payoff_curve ::
    "option_leg list \<Rightarrow> pyfloat \<Rightarrow> pyfloat \<Rightarrow> pyfloat \<Rightarrow> pyfloat \<Rightarrow> (py_error + (pyfloat \<times> pyfloat) list) option" where
  \<comment> \<open>\<open>None\<close>: the loop over the grid does not return\<close>
  "build_payoff_curve legs price_min price_max step contract_size =
     (case validate_inputs price_min price_max step contract_size of
        Inl e \<Rightarrow> Some (Inl e)
      | Inr _ \<Rightarrow>
          map_option (\<lambda>prices. Inr (map (\<lambda>price. (price, calculate_payoff_at_price legs price contract_size)) prices))
            (curve_prices legs price_min price_max step))"

subsection \<open>Break-even points\<close>

fun bisect_steps :: "nat \<Rightarrow> option_leg list \<Rightarrow> pyfloat \<Rightarrow> pyfloat \<Rightarrow> pyfloat \<Rightarrow> pyfloat \<Rightarrow> pyfloat \<times> pyfloat" where
  "bisect_steps 0 legs low high contract_size payoff_low = (low, high)"
| "bisect_steps (Suc n) legs low high contract_size payoff_low =
     (let mid = (low + high) / 2;
          payoff_mid = calculate_payoff_at_price legs mid contract_size
      in if payoff_low * payoff_mid \<le> 0
         then bisect_steps n legs low mid contract_size payoff_low
         else bisect_steps n legs mid high contract_size payoff_mid)"

definition bisect_break_even :: "option_leg list \<Rightarrow> pyfloat \<Rightarrow> pyfloat \<Rightarrow> pyfloat \<Rightarrow> pyfloat" where
  "bisect_break_even legs low high contract_size =
     (let (low', high') = bisect_steps BISECTION_ITERATIONS legs low high contract_size
                            (calculate_payoff_at_price legs low contract_size)
      in (low' + high') / 2)"

definition keep_point :: "pyfloat \<Rightarrow> pyfloat list \<Rightarrow> pyfloat list" where
  "keep_point point result =
     (if result = [] \<or> \<bar>point - List.last result\<bar> > DEDUP_TOLERANCE * max 1 \<bar>point\<bar>
      then result @ [point] else result)"

definition dedupe_points :: "pyfloat list \<Rightarrow> pyfloat list" where
  "dedupe_points points = fold keep_point (sort points) []"

definition points_at :: "option_leg list \<Rightarrow> pyfloat \<Rightarrow> pyfloat list \<Rightarrow> pyfloat list \<Rightarrow> nat \<Rightarrow> pyfloat list" where
  "points_at legs contract_size prices payoffs i =
     (if \<bar>payoffs ! i\<bar> < ZERO_TOLERANCE then [prices ! i] else []) @
     (if i > 0 \<and> payoffs ! (i - 1) * payoffs ! i < 0
      then [bisect_break_even legs (prices ! (i - 1)) (prices ! i) contract_size] else [])"

definition scan_points :: "option_leg list \<Rightarrow> pyfloat \<Rightarrow> pyfloat list \<Rightarrow> pyfloat list" where
  "scan_points legs contract_size prices =
     (let payoffs = map (\<lambda>price. calculate_payoff_at_price legs price contract_size) prices
      in concat (map (points_at legs contract_size prices payoffs) [0..<length prices]))"

definition find_break_even_points ::
    "option_leg list \<Rightarrow> pyfloat \<Rightarrow> pyfloat \<Rightarrow> pyfloat \<Rightarrow> pyfloat \<Rightarrow> (py_error + pyfloat list) option" where
  "find_break_even_points legs price_min price_max step contract_size =
     (case validate_inputs price_min price_max step contract_size of
        Inl e \<Rightarrow> Some (Inl e)
      | Inr _ \<Rightarrow>
          map_option (\<lambda>prices. Inr (dedupe_points (scan_points legs contract_size prices)))
            (curve_prices legs price_min price_max step))"

subsection \<open>Extreme profit and loss\<close>

definition option_strikes :: "option_leg list \<Rightarrow> pyfloat list" where
  "option_strikes legs = map leg_strike (filter (\<lambda>leg. leg_type leg \<noteq> LStock) legs)"

definition leg_slope :: "option_leg \<Rightarrow> pyfloat" where
  "leg_slope leg =
     (if leg_action leg = Buy then 1 else - 1) * leg_quantity leg * (if leg_type leg = LPut then 0 else 1)"

definition unbounded_flags :: "option_leg list \<Rightarrow> pyfloat \<Rightarrow> bool \<times> bool" where
  "unbounded_flags legs price_max =
     (let strikes = option_strikes legs
      in if strikes \<noteq> [] \<and> price_max < Max (set strikes) then (False, False)
         else (let slope = sum_list (map leg_slope legs) in (slope > 0, slope < 0)))"

record profit_loss =
  max_profit :: pyfloat
  max_loss :: pyfloat
  max_profit_unbounded :: bool
  max_loss_unbounded :: bool

definition candidates :: "option_leg list \<Rightarrow> pyfloat \<Rightarrow> pyfloat \<Rightarrow> pyfloat list" where
  "candidates legs price_min price_max =
     sort (remdups ([price_min, price_max] @
       map leg_strike (filter (\<lambda>leg. leg_type leg \<noteq> LStock \<and> price_min \<le> leg_strike leg \<and> leg_strike leg \<le> price_max) legs)))"

definition find_max_profit_loss :: "option_leg list \<Rightarrow> pyfloat \<Rightarrow> pyfloat \<Rightarrow> pyfloat \<Rightarrow> py_error + profit_loss" where
  "find_max_profit_loss legs price_min price_max contract_size =
     (case validate_range price_min price_max contract_size of
        Inl e \<Rightarrow> Inl e
      | Inr _ \<Rightarrow>
          let payoffs = map (\<lambda>price. calculate_payoff_at_price legs price contract_size) (candidates legs price_min price_max);
              (up, down) = unbounded_flags legs price_max
          in Inr \<lparr>max_profit = Max (set payoffs), max_loss = Min (set payoffs),
                  max_profit_unbounded = up, max_loss_unbounded = down\<rparr>)"

subsection \<open>A payoff is linear between strikes\<close>

definition no_strike_inside :: "option_leg list \<Rightarrow> pyfloat \<Rightarrow> pyfloat \<Rightarrow> bool" where
  "no_strike_inside legs a b \<longleftrightarrow> (\<forall>s\<in>set (option_strikes legs). \<not> (a < s \<and> s < b))"

definition linear_on :: "(pyfloat \<Rightarrow> pyfloat) \<Rightarrow> pyfloat \<Rightarrow> pyfloat \<Rightarrow> bool" where
  "linear_on f a b \<longleftrightarrow> (\<exists>k m. \<forall>x. a \<le> x \<and> x \<le> b \<longrightarrow> f x = k + m * x)"

lemma linear_onI: "(\<And>x. a \<le> x \<Longrightarrow> x \<le> b \<Longrightarrow> f x = k + m * x) \<Longrightarrow> linear_on f a b"
  unfolding linear_on_def by blast

lemma linear_on_scale:
  assumes "linear_on f a b" shows "linear_on (\<lambda>x. f x * c) a b"
proof -
  obtain k m where "\<And>x. a \<le> x \<Longrightarrow> x \<le> b \<Longrightarrow> f x = k + m * x" using assms by (auto simp: linear_on_def)
  then show ?thesis by (intro linear_onI [where k = "k * c" and m = "m * c"]) (simp add: algebra_simps)
qed

lemma linear_on_add:
  assumes "linear_on f a b" "linear_on g a b" shows "linear_on (\<lambda>x. f x + g x) a b"
proof -
  obtain k m where f: "\<And>x. a \<le> x \<Longrightarrow> x \<le> b \<Longrightarrow> f x = k + m * x" using assms(1) by (auto simp: linear_on_def)
  obtain k' m' where g: "\<And>x. a \<le> x \<Longrightarrow> x \<le> b \<Longrightarrow> g x = k' + m' * x" using assms(2) by (auto simp: linear_on_def)
  show ?thesis
    by (intro linear_onI [where k = "k + k'" and m = "m + m'"]) (simp add: f g algebra_simps)
qed

lemma linear_on_sum:
  "(\<And>y. y \<in> set ys \<Longrightarrow> linear_on (g y) a b) \<Longrightarrow> linear_on (\<lambda>x. sum_list (map (\<lambda>y. g y x) ys)) a b"
proof (induction ys)
  case Nil then show ?case by (auto intro: linear_onI [where k = 0 and m = 0])
next
  case (Cons y ys) then show ?case by (auto intro!: linear_on_add)
qed

lemma linear_on_sub: "linear_on f a b \<Longrightarrow> a \<le> c \<Longrightarrow> d \<le> b \<Longrightarrow> linear_on f c d"
  unfolding linear_on_def by (meson order_trans)

lemma unit_linear:
  assumes "leg_type leg = LStock \<or> \<not> (a < leg_strike leg \<and> leg_strike leg < b)"
  shows "linear_on (unit_payoff_at_expiry leg) a b"
proof -
  let ?K = "leg_strike leg" and ?P = "leg_premium leg"
  consider (stock) "leg_type leg = LStock"
    | (c_right) "leg_type leg = LCall" "?K \<le> a" | (c_left) "leg_type leg = LCall" "b \<le> ?K"
    | (p_right) "leg_type leg = LPut" "?K \<le> a" | (p_left) "leg_type leg = LPut" "b \<le> ?K"
    using assms by (cases "leg_type leg") auto
  then show ?thesis
  proof cases
    case stock then show ?thesis
      by (intro linear_onI [where k = "- ?P" and m = 1]) (simp add: unit_payoff_at_expiry_def)
  next
    case c_right then show ?thesis
      by (intro linear_onI [where k = "- ?K - ?P" and m = 1]) (simp add: unit_payoff_at_expiry_def max_def)
  next
    case c_left then show ?thesis
      by (intro linear_onI [where k = "- ?P" and m = 0]) (auto simp: unit_payoff_at_expiry_def max_def)
  next
    case p_right then show ?thesis
      by (intro linear_onI [where k = "- ?P" and m = 0]) (auto simp: unit_payoff_at_expiry_def max_def)
  next
    case p_left then show ?thesis
      by (intro linear_onI [where k = "?K - ?P" and m = "- 1"]) (simp add: unit_payoff_at_expiry_def max_def)
  qed
qed

lemma leg_linear:
  assumes "leg_type leg = LStock \<or> \<not> (a < leg_strike leg \<and> leg_strike leg < b)"
  shows "linear_on (leg_contribution leg) a b"
proof -
  have "leg_contribution leg =
      (\<lambda>x. unit_payoff_at_expiry leg x * (if leg_action leg = Buy then leg_quantity leg else - leg_quantity leg))"
    by (auto simp: leg_contribution_def fun_eq_iff)
  then show ?thesis using linear_on_scale [OF unit_linear [OF assms]] by simp
qed

lemma payoff_linear:
  assumes "no_strike_inside legs a b"
  shows "linear_on (\<lambda>x. calculate_payoff_at_price legs x cs) a b"
  unfolding calculate_payoff_at_price_def
  by (intro linear_on_scale linear_on_sum leg_linear)
    (use assms in \<open>auto simp: no_strike_inside_def option_strikes_def\<close>)

lemma linear_on_between:
  assumes f: "linear_on f a b" and x: "a \<le> x" "x \<le> b"
  shows "f x \<le> max (f a) (f b)" and "min (f a) (f b) \<le> f x"
proof -
  obtain k m where lin: "\<And>x. a \<le> x \<Longrightarrow> x \<le> b \<Longrightarrow> f x = k + m * x" using f by (auto simp: linear_on_def)
  have e: "f x = k + m * x" "f a = k + m * a" "f b = k + m * b" using lin x by auto
  have "m * a \<le> m * x \<and> m * x \<le> m * b \<or> m * b \<le> m * x \<and> m * x \<le> m * a"
    using x by (cases "0 \<le> m") (auto intro: mult_left_mono mult_left_mono_neg)
  then show "f x \<le> max (f a) (f b)" and "min (f a) (f b) \<le> f x" using e by auto
qed

lemma linear_on_zero:
  assumes f: "linear_on f a b" and ab: "a \<le> b" and sign: "f a * f b \<le> 0"
  shows "\<exists>x. a \<le> x \<and> x \<le> b \<and> f x = 0"
proof -
  obtain k m where lin: "\<And>x. a \<le> x \<Longrightarrow> x \<le> b \<Longrightarrow> f x = k + m * x" using f by (auto simp: linear_on_def)
  have e: "f a = k + m * a" "f b = k + m * b" using lin ab by auto
  show ?thesis
  proof (cases "m = 0")
    case True
    then have "k * k \<le> 0" using sign e by simp
    then have "k = 0" by (metis mult_eq_0_iff not_square_less_zero order_neq_le_trans)
    then show ?thesis using e ab True by (intro exI [of _ a]) auto
  next
    case False
    define x where "x = - k / m"
    have s: "m * m * ((a - x) * (b - x)) \<le> 0"
    proof -
      have "m * (a - x) = f a" "m * (b - x) = f b" using e False by (simp_all add: x_def algebra_simps)
      then have "m * m * ((a - x) * (b - x)) = f a * f b" by (metis mult.assoc mult.left_commute)
      then show ?thesis using sign by simp
    qed
    have "(a - x) * (b - x) \<le> 0"
    proof (rule ccontr)
      assume "\<not> (a - x) * (b - x) \<le> 0"
      moreover have "0 < m * m" using False by (metis mult_eq_0_iff not_square_less_zero order_neq_le_trans linorder_less_linear)
      ultimately have "0 < m * m * ((a - x) * (b - x))" by (simp add: mult_pos_pos)
      then show False using s by simp
    qed
    then have x: "a \<le> x" "x \<le> b" using ab by (auto simp: mult_le_0_iff)
    then have "f x = 0" using lin [of x] False by (simp add: x_def)
    then show ?thesis using x by blast
  qed
qed


subsection \<open>The grid\<close>

lemma curve_grid_steps:
  assumes "0 < step"
  shows "\<exists>n. curve_grid price price_max step = Some (map (\<lambda>i. price + of_nat i * step) [0..<n]) \<and>
    (\<forall>i<n. price + of_nat i * step < price_max - ZERO_TOLERANCE)"
proof (induction "nat \<lceil>(price_max - price) / step\<rceil>" arbitrary: price rule: less_induct)
  case less
  show ?case
  proof (cases "price < price_max - ZERO_TOLERANCE")
    case False
    then show ?thesis by (intro exI [of _ 0]) (simp add: curve_grid.simps)
  next
    case True
    then have pos: "0 < price_max - price" by (simp add: ZERO_TOLERANCE_def)
    have "(price_max - (price + step)) / step = (price_max - price) / step - 1"
      using assms by (simp add: field_simps)
    moreover have "0 < (price_max - price) / step" using pos assms by simp
    ultimately have "nat \<lceil>(price_max - (price + step)) / step\<rceil> < nat \<lceil>(price_max - price) / step\<rceil>"
      by (simp add: ceiling_diff_one)
    from less [OF this] obtain n where
      n: "curve_grid (price + step) price_max step = Some (map (\<lambda>i. price + step + of_nat i * step) [0..<n])"
      and b: "\<forall>i<n. price + step + of_nat i * step < price_max - ZERO_TOLERANCE" by blast
    have "map (\<lambda>i. price + of_nat i * step) [0..<Suc n] = price # map (\<lambda>i. price + step + of_nat i * step) [0..<n]"
      by (simp only: upt_conv_Cons zero_less_Suc map_Suc_upt [symmetric] list.map map_map comp_def)
        (simp add: algebra_simps)
    moreover have "\<forall>i<Suc n. price + of_nat i * step < price_max - ZERO_TOLERANCE"
    proof (intro allI impI)
      fix i assume "i < Suc n"
      then show "price + of_nat i * step < price_max - ZERO_TOLERANCE"
        using b True by (cases i) (auto simp: algebra_simps)
    qed
    ultimately show ?thesis
      using True n by (intro exI [of _ "Suc n"]) (subst curve_grid.simps, simp)
  qed
qed

lemma curve_grid_returned:
  assumes "curve_grid price price_max step = Some prices"
  shows "step \<le> 0 \<longrightarrow> \<not> price < price_max - ZERO_TOLERANCE"
proof (rule curve_grid.raw_induct [OF _ assms])
  fix rec :: "pyfloat \<Rightarrow> pyfloat \<Rightarrow> pyfloat \<Rightarrow> pyfloat list option" and p q s and ps
  assume ih: "\<And>p q s ps. rec p q s = Some ps \<Longrightarrow> s \<le> 0 \<longrightarrow> \<not> p < q - ZERO_TOLERANCE"
    and "(if p < q - ZERO_TOLERANCE then Option.bind (rec (p + s) q s) (\<lambda>prices. Some (p # prices)) else Some []) = Some ps"
  then show "s \<le> 0 \<longrightarrow> \<not> p < q - ZERO_TOLERANCE"
    by (auto split: if_splits bind_splits dest!: ih)
qed

lemma curve_grid_stuck:
  \<comment> \<open>without the validation of the step the loop would not end\<close>
  "step \<le> 0 \<Longrightarrow> price < price_max - ZERO_TOLERANCE \<Longrightarrow> curve_grid price price_max step = None"
  using curve_grid_returned [of price price_max step] by (cases "curve_grid price price_max step") auto

lemma curve_prices_cover:
  assumes step: "0 < step" and range: "price_min < price_max"
  obtains prices where "curve_prices legs price_min price_max step = Some prices"
    and "sorted prices" and "distinct prices" and "price_max \<in> set prices"
    and "price_min \<in> set prices \<or> price_max - ZERO_TOLERANCE \<le> price_min"
    and "\<And>p. p \<in> set prices \<Longrightarrow> price_min \<le> p \<and> p \<le> price_max"
    and "\<And>s. s \<in> set (option_strikes legs) \<Longrightarrow> price_min < s \<Longrightarrow> s < price_max \<Longrightarrow> s \<in> set prices"
    and "length prices \<le> nat \<lceil>(price_max - price_min) / step\<rceil> + 1 + length legs"
proof -
  from curve_grid_steps [OF step] obtain n where
    g: "curve_grid price_min price_max step = Some (map (\<lambda>i. price_min + of_nat i * step) [0..<n])"
    and b: "\<forall>i<n. price_min + of_nat i * step < price_max - ZERO_TOLERANCE" by blast
  let ?raw = "map (\<lambda>i. price_min + of_nat i * step) [0..<n] @ [price_max] @ inner_strikes legs price_min price_max"
  have n: "n \<le> nat \<lceil>(price_max - price_min) / step\<rceil>"
  proof (cases n)
    case (Suc m)
    then have "price_min + of_nat m * step < price_max"
      using b by (auto simp: ZERO_TOLERANCE_def dest!: spec [of _ m])
    then have "of_nat m < (price_max - price_min) / step" using step by (simp add: field_simps)
    then have "int m < \<lceil>(price_max - price_min) / step\<rceil>" by (simp add: less_ceiling_iff)
    then show ?thesis using Suc by simp
  qed simp
  have "length (inner_strikes legs price_min price_max) \<le> length legs" by (simp add: inner_strikes_def)
  then have len: "length (sort (remdups ?raw)) \<le> nat \<lceil>(price_max - price_min) / step\<rceil> + 1 + length legs"
    using n length_remdups_leq [of ?raw] by (simp del: remdups.simps)
  have first: "price_min \<in> set ?raw \<or> price_max - ZERO_TOLERANCE \<le> price_min"
  proof (cases n)
    case 0
    then have "curve_grid price_min price_max step = Some []" using g by simp
    then show ?thesis by (auto simp: curve_grid.simps [of price_min] split: if_splits bind_splits)
  next
    case (Suc m)
    then have "price_min \<in> (\<lambda>i. price_min + of_nat i * step) ` {0..<n}"
      by (intro image_eqI [of _ _ 0]) auto
    then show ?thesis by simp
  qed
  show thesis
  proof (rule that [of "sort (remdups ?raw)"])
    show "curve_prices legs price_min price_max step = Some (sort (remdups ?raw))" using g by (simp add: curve_prices_def)
  next
    show "price_min \<in> set (sort (remdups ?raw)) \<or> price_max - ZERO_TOLERANCE \<le> price_min" using first by simp
  next
    fix p assume p: "p \<in> set (sort (remdups ?raw))"
    have "price_min \<le> price_min + of_nat i * step" for i :: nat using step by simp
    moreover have "price_min + of_nat i * step \<le> price_max" if "i < n" for i
      using b that by (auto simp: ZERO_TOLERANCE_def dest!: spec [of _ i])
    ultimately show "price_min \<le> p \<and> p \<le> price_max" using p range by (auto simp: inner_strikes_def)
  next
    fix s assume "s \<in> set (option_strikes legs)" "price_min < s" "s < price_max"
    then show "s \<in> set (sort (remdups ?raw))" by (auto simp: inner_strikes_def option_strikes_def)
  next
    show "length (sort (remdups ?raw)) \<le> nat \<lceil>(price_max - price_min) / step\<rceil> + 1 + length legs" by (fact len)
  qed simp_all
qed

subsection \<open>Bisection\<close>

lemma bisect_steps_zero:
  assumes "linear_on (\<lambda>x. calculate_payoff_at_price legs x cs) low high" and "low \<le> high"
    and "payoff_low = calculate_payoff_at_price legs low cs" and "payoff_low \<noteq> 0"
    and "payoff_low * calculate_payoff_at_price legs high cs \<le> 0"
    and "bisect_steps n legs low high cs payoff_low = (low', high')"
  shows "low \<le> low' \<and> high' \<le> high \<and> high' - low' = (high - low) / 2 ^ n \<and>
    (\<exists>x. low' \<le> x \<and> x \<le> high' \<and> calculate_payoff_at_price legs x cs = 0)"
  using assms
proof (induction n arbitrary: low high payoff_low)
  case 0
  then show ?case using linear_on_zero [of "\<lambda>x. calculate_payoff_at_price legs x cs" low high] by auto
next
  case (Suc n)
  let ?f = "\<lambda>x. calculate_payoff_at_price legs x cs"
  define mid where "mid = (low + high) / 2"
  have mid: "low \<le> mid" "mid \<le> high" using Suc.prems(2) by (simp_all add: mid_def)
  show ?case
  proof (cases "payoff_low * ?f mid \<le> 0")
    case True
    have "linear_on ?f low mid" using Suc.prems(1) mid by (auto intro: linear_on_sub)
    moreover have "bisect_steps n legs low mid cs payoff_low = (low', high')"
      using Suc.prems(6) True by (simp add: mid_def Let_def)
    ultimately have "low \<le> low' \<and> high' \<le> mid \<and> high' - low' = (mid - low) / 2 ^ n \<and>
        (\<exists>x. low' \<le> x \<and> x \<le> high' \<and> ?f x = 0)"
      using Suc.IH [of low mid payoff_low] Suc.prems mid True by simp
    moreover have "(mid - low) / 2 ^ n = (high - low) / 2 ^ Suc n" by (simp add: mid_def field_simps)
    ultimately show ?thesis using mid by auto
  next
    case False
    have "linear_on ?f mid high" using Suc.prems(1) mid by (auto intro: linear_on_sub)
    moreover have "bisect_steps n legs mid high cs (?f mid) = (low', high')"
      using Suc.prems(6) False by (simp add: mid_def Let_def)
    moreover have "?f mid \<noteq> 0" using False by auto
    moreover have "?f mid * ?f high \<le> 0"
      using False Suc.prems(5) by (auto simp: mult_le_0_iff not_le zero_less_mult_iff)
    ultimately have "mid \<le> low' \<and> high' \<le> high \<and> high' - low' = (high - mid) / 2 ^ n \<and>
        (\<exists>x. low' \<le> x \<and> x \<le> high' \<and> ?f x = 0)"
      using Suc.IH [of mid high "?f mid"] mid by simp
    moreover have "(high - mid) / 2 ^ n = (high - low) / 2 ^ Suc n" by (simp add: mid_def field_simps)
    ultimately show ?thesis using mid by auto
  qed
qed

lemma midpoint_near: "l \<le> x \<Longrightarrow> x \<le> h \<Longrightarrow> \<bar>(l + h) / 2 - x\<bar> \<le> (h - l) / (2::rat)"
  by (simp add: abs_le_iff field_simps)

lemma bisect_near_zero:
  assumes lin: "linear_on (\<lambda>x. calculate_payoff_at_price legs x cs) low high" and le: "low \<le> high"
    and sign: "calculate_payoff_at_price legs low cs * calculate_payoff_at_price legs high cs < 0"
  shows "low \<le> bisect_break_even legs low high cs \<and> bisect_break_even legs low high cs \<le> high \<and>
    (\<exists>x. low \<le> x \<and> x \<le> high \<and> calculate_payoff_at_price legs x cs = 0 \<and>
      \<bar>bisect_break_even legs low high cs - x\<bar> \<le> (high - low) / 2 ^ 81)"
proof -
  obtain low' high' where b: "bisect_steps 80 legs low high cs (calculate_payoff_at_price legs low cs) = (low', high')"
    by (meson surj_pair)
  have "low \<le> low' \<and> high' \<le> high \<and> high' - low' = (high - low) / 2 ^ 80 \<and>
      (\<exists>x. low' \<le> x \<and> x \<le> high' \<and> calculate_payoff_at_price legs x cs = 0)"
    using bisect_steps_zero [OF lin le refl _ _ b] sign by fastforce
  then obtain x where x: "low \<le> low'" "high' \<le> high" "high' - low' = (high - low) / 2 ^ 80"
    "low' \<le> x" "x \<le> high'" "calculate_payoff_at_price legs x cs = 0" by blast
  have r: "bisect_break_even legs low high cs = (low' + high') / 2"
    using b by (simp add: bisect_break_even_def BISECTION_ITERATIONS_def)
  have "\<bar>bisect_break_even legs low high cs - x\<bar> \<le> (high' - low') / 2"
    unfolding r using x(4,5) by (rule midpoint_near)
  also have "\<dots> = (high - low) / 2 ^ 81" using x(3) by simp
  finally have near: "\<bar>bisect_break_even legs low high cs - x\<bar> \<le> (high - low) / 2 ^ 81" .
  have "low' \<le> (low' + high') / 2" "(low' + high') / 2 \<le> high'" using x(4,5) by simp_all
  then have "low \<le> bisect_break_even legs low high cs \<and> bisect_break_even legs low high cs \<le> high"
    unfolding r using x(1,2) by simp
  then show ?thesis using x near by (intro conjI exI [of _ x]) auto
qed


subsection \<open>Merging near points\<close>

definition reported :: "pyfloat list \<Rightarrow> pyfloat \<Rightarrow> bool" where
  "reported points q \<longleftrightarrow> (\<exists>p\<in>set points. \<bar>p - q\<bar> \<le> DEDUP_TOLERANCE * max 1 \<bar>q\<bar>)"

lemma reported_self: "q \<in> set points \<Longrightarrow> reported points q"
  unfolding reported_def by (rule bexI [of _ q]) (auto simp: DEDUP_TOLERANCE_def)

lemma reported_mono: "reported points q \<Longrightarrow> set points \<subseteq> set points' \<Longrightarrow> reported points' q"
  unfolding reported_def by blast

lemma fold_keep_point:
  "sorted xs \<Longrightarrow>
     set (fold keep_point xs []) \<subseteq> set xs \<and> sorted_wrt (<) (fold keep_point xs []) \<and>
     (\<forall>q\<in>set xs. reported (fold keep_point xs []) q) \<and> (xs \<noteq> [] \<longrightarrow> fold keep_point xs [] \<noteq> [])"
proof (induction xs rule: rev_induct)
  case Nil then show ?case by simp
next
  case (snoc x xs)
  let ?r = "fold keep_point xs []"
  have ih: "set ?r \<subseteq> set xs" "sorted_wrt (<) ?r" "\<forall>q\<in>set xs. reported ?r q"
    using snoc by (simp_all add: sorted_append)
  have below: "y \<le> x" if "y \<in> set ?r" for y using ih(1) snoc.prems that by (auto simp: sorted_append)
  have f: "fold keep_point (xs @ [x]) [] = keep_point x ?r" by simp
  show ?case
  proof (cases "?r = [] \<or> \<bar>x - List.last ?r\<bar> > DEDUP_TOLERANCE * max 1 \<bar>x\<bar>")
    case True
    then have k: "keep_point x ?r = ?r @ [x]" by (simp add: keep_point_def)
    have "y < x" if y: "y \<in> set ?r" for y
    proof -
      have ne: "?r \<noteq> []" using y by auto
      then have l: "List.last ?r \<in> set ?r" by simp
      have "0 \<le> DEDUP_TOLERANCE * max 1 \<bar>x\<bar>" by (simp add: DEDUP_TOLERANCE_def)
      then have "List.last ?r \<noteq> x" using True ne by auto
      then have "List.last ?r < x" using below [OF l] by simp
      moreover have "y \<le> List.last ?r"
      proof -
        have "?r = butlast ?r @ [List.last ?r]" using ne by simp
        then have "sorted_wrt (<) (butlast ?r @ [List.last ?r])" using ih(2) by simp
        moreover have "y \<in> set (butlast ?r @ [List.last ?r])" using y ne by simp
        ultimately show ?thesis by (auto simp: sorted_wrt_append)
      qed
      ultimately show ?thesis by simp
    qed
    then have "sorted_wrt (<) (?r @ [x])" using ih(2) by (simp add: sorted_wrt_append)
    moreover have "reported (?r @ [x]) q" if "q \<in> set (xs @ [x])" for q
      using that ih(3) by (auto intro: reported_self reported_mono)
    ultimately show ?thesis using ih(1) by (auto simp: f k)
  next
    case False
    then have k: "keep_point x ?r = ?r" and near: "\<bar>x - List.last ?r\<bar> \<le> DEDUP_TOLERANCE * max 1 \<bar>x\<bar>" and ne: "?r \<noteq> []"
      by (auto simp: keep_point_def)
    have "reported ?r x" unfolding reported_def
      by (rule bexI [of _ "List.last ?r"]) (use near ne in \<open>auto simp: abs_minus_commute\<close>)
    then show ?thesis using ih ne by (auto simp: f k)
  qed
qed

lemma dedupe_points_spec:
  "set (dedupe_points points) \<subseteq> set points" "sorted_wrt (<) (dedupe_points points)"
  "q \<in> set points \<Longrightarrow> reported (dedupe_points points) q"
  using fold_keep_point [of "sort points"] by (auto simp: dedupe_points_def)

subsection \<open>Neighbouring prices\<close>

lemma neighbours:
  assumes fin: "finite C" and lo: "lo \<in> C" "lo \<le> x" and hi: "hi \<in> C" "x \<le> (hi::rat)"
  obtains a b where "a \<in> C" "b \<in> C" "a \<le> x" "x \<le> b" "\<And>c. c \<in> C \<Longrightarrow> \<not> (a < c \<and> c < b)"
proof
  let ?A = "{c \<in> C. c \<le> x}" and ?B = "{c \<in> C. x \<le> c}"
  have A: "finite ?A" "?A \<noteq> {}" and B: "finite ?B" "?B \<noteq> {}" using fin lo hi by auto
  show "Max ?A \<in> C" "Max ?A \<le> x" using Max_in [OF A] by auto
  show "Min ?B \<in> C" "x \<le> Min ?B" using Min_in [OF B] by auto
  show "\<not> (Max ?A < c \<and> c < Min ?B)" if "c \<in> C" for c
  proof
    assume c: "Max ?A < c \<and> c < Min ?B"
    show False
    proof (cases "c \<le> x")
      case True then have "c \<le> Max ?A" using that A by simp
      then show False using c by simp
    next
      case False then have "Min ?B \<le> c" using that B by simp
      then show False using c by simp
    qed
  qed
qed

lemma adjacent_nth:
  assumes s: "sorted xs" "distinct xs" and ab: "a \<in> set xs" "b \<in> set xs" "a < (b::rat)"
    and gap: "\<And>c. c \<in> set xs \<Longrightarrow> \<not> (a < c \<and> c < b)"
  obtains i where "0 < i" "i < length xs" "xs ! (i - 1) = a" "xs ! i = b"
proof -
  have st: "sorted_wrt (<) xs" using s by (simp add: strict_sorted_iff)
  obtain j k where j: "j < length xs" "xs ! j = a" and k: "k < length xs" "xs ! k = b"
    using ab by (metis in_set_conv_nth)
  have "j < k"
  proof (rule ccontr)
    assume "\<not> j < k"
    then have "xs ! k \<le> xs ! j" using sorted_nth_mono [OF s(1), of k j] j k by simp
    then show False using j k ab by simp
  qed
  moreover have "\<not> Suc j < k"
  proof
    assume "Suc j < k"
    then have "xs ! j < xs ! Suc j" "xs ! Suc j < xs ! k" using st k by (auto simp: sorted_wrt_iff_nth_less)
    then show False using gap [of "xs ! Suc j"] j k \<open>Suc j < k\<close> by auto
  qed
  ultimately have "k = Suc j" by simp
  then show thesis using that [of k] j k by simp
qed

lemma in_scan_points:
  "p \<in> set (scan_points legs cs prices) \<longleftrightarrow>
     (\<exists>i<length prices. \<bar>calculate_payoff_at_price legs (prices ! i) cs\<bar> < ZERO_TOLERANCE \<and> p = prices ! i \<or>
        0 < i \<and> calculate_payoff_at_price legs (prices ! (i - 1)) cs * calculate_payoff_at_price legs (prices ! i) cs < 0 \<and>
        p = bisect_break_even legs (prices ! (i - 1)) (prices ! i) cs)"
  by (auto simp: scan_points_def points_at_def Let_def split: if_splits)


subsection \<open>The properties\<close>

lemma validated:
  assumes "0 < cs" "0 \<le> lo" "lo < hi" "0 < step" "(hi - lo) / step \<le> MAX_CURVE_POINTS"
  shows "validate_inputs lo hi step cs = Inr ()"
  using assms by (simp add: validate_inputs_def validate_range_def)

lemma zero_on_segment:
  assumes lin: "linear_on f a b" and x: "a < x" "x < b" and zero: "f x = (0::rat)"
  shows "f a * f b < 0 \<or> (\<forall>y. a \<le> y \<and> y \<le> b \<longrightarrow> f y = 0)"
proof -
  obtain k m where l: "\<And>y. a \<le> y \<Longrightarrow> y \<le> b \<Longrightarrow> f y = k + m * y" using lin by (auto simp: linear_on_def)
  have k: "k = - m * x" using l [of x] x zero by simp
  show ?thesis
  proof (cases "m = 0")
    case True then show ?thesis using l k by simp
  next
    case False
    have "f a = m * (a - x)" "f b = m * (b - x)" using l x k by (auto simp: algebra_simps)
    moreover have "(m * m) * ((a - x) * (b - x)) < 0"
    proof (rule mult_pos_neg)
      show "0 < m * m" using False by (auto simp: zero_less_mult_iff linorder_neq_iff)
      show "(a - x) * (b - x) < 0" using x by (simp add: mult_neg_pos)
    qed
    ultimately show ?thesis by (simp add: ac_simps)
  qed
qed

definition grid_ok :: "option_leg list \<Rightarrow> pyfloat \<Rightarrow> pyfloat \<Rightarrow> pyfloat list \<Rightarrow> bool" where
  \<comment> \<open>ascending prices of the range, every strike inside it among them\<close>
  "grid_ok legs lo hi prices \<longleftrightarrow>
     sorted prices \<and> distinct prices \<and> (\<forall>p\<in>set prices. lo \<le> p \<and> p \<le> hi) \<and>
     (\<forall>s\<in>set (option_strikes legs). lo < s \<and> s < hi \<longrightarrow> s \<in> set prices)"

lemma grid_okD:
  assumes "grid_ok legs lo hi prices"
  shows "sorted prices" "distinct prices" "p \<in> set prices \<Longrightarrow> lo \<le> p" "p \<in> set prices \<Longrightarrow> p \<le> hi"
  using assms by (simp_all add: grid_ok_def)

lemma gap_has_no_strike:
  assumes ok: "grid_ok legs lo hi prices"
    and ab: "lo \<le> a" "b \<le> hi" and gap: "\<And>c. c \<in> set prices \<Longrightarrow> \<not> (a < c \<and> c < b)"
  shows "no_strike_inside legs a b"
  unfolding no_strike_inside_def
proof (intro ballI notI)
  fix s assume s: "s \<in> set (option_strikes legs)" "a < s \<and> s < b"
  then have "s \<in> set prices" using ab ok by (auto simp: grid_ok_def)
  then show False using gap s by blast
qed

lemma width_bound: "hi' - lo' \<le> hi - lo \<Longrightarrow> (hi' - lo') / 2 ^ 81 \<le> (hi - lo) / (2 ^ 81 :: rat)"
  by (intro divide_right_mono) auto

lemma adjacent_linear:
  assumes ok: "grid_ok legs lo hi prices" and i: "0 < i" "i < length prices"
  shows "linear_on (\<lambda>x. calculate_payoff_at_price legs x cs) (prices ! (i - 1)) (prices ! i)"
    and "prices ! (i - 1) < prices ! i" and "prices ! i - prices ! (i - 1) \<le> hi - lo"
proof -
  note sorted = grid_okD(1,2) [OF ok]
  have st: "sorted_wrt (<) prices" using sorted by (simp add: strict_sorted_iff)
  have r: "lo \<le> prices ! (i - 1)" "prices ! i \<le> hi" using grid_okD(3,4) [OF ok] i by auto
  have "\<not> (prices ! (i - 1) < c \<and> c < prices ! i)" if c: "c \<in> set prices" for c
  proof
    assume b: "prices ! (i - 1) < c \<and> c < prices ! i"
    obtain j where j: "j < length prices" "prices ! j = c" using c by (metis in_set_conv_nth)
    have "j < i" using sorted_nth_mono [OF sorted(1), of i j] j b by force
    then have "prices ! j \<le> prices ! (i - 1)" using sorted_nth_mono [OF sorted(1), of j "i - 1"] i by simp
    then show False using j b by simp
  qed
  then show "linear_on (\<lambda>x. calculate_payoff_at_price legs x cs) (prices ! (i - 1)) (prices ! i)"
    using gap_has_no_strike [OF ok r] payoff_linear by blast
  show "prices ! (i - 1) < prices ! i" using st i by (simp add: sorted_wrt_iff_nth_less)
  show "prices ! i - prices ! (i - 1) \<le> hi - lo" using r by simp
qed

lemma bisect_between:
  assumes ok: "grid_ok legs lo hi prices" and i: "0 < i" "i < length prices"
    and sign: "calculate_payoff_at_price legs (prices ! (i - 1)) cs * calculate_payoff_at_price legs (prices ! i) cs < 0"
  defines "r \<equiv> bisect_break_even legs (prices ! (i - 1)) (prices ! i) cs"
  obtains x where "prices ! (i - 1) \<le> r" "r \<le> prices ! i" "prices ! (i - 1) \<le> x" "x \<le> prices ! i"
    "calculate_payoff_at_price legs x cs = 0" "\<bar>r - x\<bar> \<le> (hi - lo) / 2 ^ 81"
proof -
  note adj = adjacent_linear [OF ok i]
  obtain x where x: "prices ! (i - 1) \<le> r" "r \<le> prices ! i" "prices ! (i - 1) \<le> x" "x \<le> prices ! i"
    "calculate_payoff_at_price legs x cs = 0" "\<bar>r - x\<bar> \<le> (prices ! i - prices ! (i - 1)) / 2 ^ 81"
    using bisect_near_zero [OF adj(1) less_imp_le [OF adj(2)] sign] unfolding r_def by blast
  have "(prices ! i - prices ! (i - 1)) / 2 ^ 81 \<le> (hi - lo) / 2 ^ 81" by (rule width_bound [OF adj(3)])
  then show thesis using that x order_trans by blast
qed

lemma scan_sound:
  assumes ok: "grid_ok legs lo hi prices"
    and q: "q \<in> set (scan_points legs cs prices)"
  shows "lo \<le> q \<and> q \<le> hi \<and>
    (\<bar>calculate_payoff_at_price legs q cs\<bar> < ZERO_TOLERANCE \<or>
     (\<exists>x. lo \<le> x \<and> x \<le> hi \<and> calculate_payoff_at_price legs x cs = 0 \<and> \<bar>q - x\<bar> \<le> (hi - lo) / 2 ^ 81))"
proof -
  from q obtain i where i: "i < length prices"
    and c: "\<bar>calculate_payoff_at_price legs (prices ! i) cs\<bar> < ZERO_TOLERANCE \<and> q = prices ! i \<or>
       0 < i \<and> calculate_payoff_at_price legs (prices ! (i - 1)) cs * calculate_payoff_at_price legs (prices ! i) cs < 0 \<and>
       q = bisect_break_even legs (prices ! (i - 1)) (prices ! i) cs"
    unfolding in_scan_points by blast
  from c show ?thesis
  proof
    assume "\<bar>calculate_payoff_at_price legs (prices ! i) cs\<bar> < ZERO_TOLERANCE \<and> q = prices ! i"
    then show ?thesis using grid_okD(3,4) [OF ok] i by simp
  next
    assume b: "0 < i \<and> calculate_payoff_at_price legs (prices ! (i - 1)) cs * calculate_payoff_at_price legs (prices ! i) cs < 0 \<and>
       q = bisect_break_even legs (prices ! (i - 1)) (prices ! i) cs"
    then obtain x where "prices ! (i - 1) \<le> q" "q \<le> prices ! i" "prices ! (i - 1) \<le> x" "x \<le> prices ! i"
      "calculate_payoff_at_price legs x cs = 0" "\<bar>q - x\<bar> \<le> (hi - lo) / 2 ^ 81"
      using bisect_between [OF ok _ i] by metis
    moreover have "lo \<le> prices ! (i - 1)" "prices ! i \<le> hi" using grid_okD(3,4) [OF ok] i by auto
    ultimately show ?thesis by (meson order_trans)
  qed
qed

lemma scan_complete:
  assumes ok: "grid_ok legs lo hi prices" and ends: "lo \<in> set prices" "hi \<in> set prices"
    and x: "lo \<le> x" "x \<le> hi" and zero: "calculate_payoff_at_price legs x cs = 0"
  shows "(\<exists>q. \<bar>q - x\<bar> \<le> (hi - lo) / 2 ^ 81 \<and> q \<in> set (scan_points legs cs prices)) \<or>
    (\<exists>a b. a < x \<and> x < b \<and> a \<in> set (scan_points legs cs prices) \<and> b \<in> set (scan_points legs cs prices) \<and>
       (\<forall>y. a \<le> y \<and> y \<le> b \<longrightarrow> calculate_payoff_at_price legs y cs = 0))"
proof -
  let ?f = "\<lambda>x. calculate_payoff_at_price legs x cs" and ?s = "scan_points legs cs prices"
  have at: "p \<in> set ?s" if p: "p \<in> set prices" "?f p = 0" for p
  proof -
    obtain i where "i < length prices" "prices ! i = p" using p by (metis in_set_conv_nth)
    then show ?thesis unfolding in_scan_points using p by (intro exI [of _ i]) (auto simp: ZERO_TOLERANCE_def)
  qed
  obtain a b where ab: "a \<in> set prices" "b \<in> set prices" "a \<le> x" "x \<le> b"
    and gap: "\<And>c. c \<in> set prices \<Longrightarrow> \<not> (a < c \<and> c < b)"
    by (rule neighbours [of "set prices" lo x hi]) (use ends x in auto)
  show ?thesis
  proof (cases "x \<in> set prices")
    case True
    then have "x \<in> set ?s" using at zero by simp
    moreover have "\<bar>x - x\<bar> \<le> (hi - lo) / 2 ^ 81" using x by simp
    ultimately show ?thesis by blast
  next
    case False
    then have lt: "a < x" "x < b" using ab by (auto simp: less_le)
    obtain i where i: "0 < i" "i < length prices" "prices ! (i - 1) = a" "prices ! i = b"
      by (rule adjacent_nth [OF grid_okD(1,2) [OF ok] ab(1,2) _ gap]) (use lt in auto)
    have lin: "linear_on ?f a b" using adjacent_linear(1) [OF ok i(1,2), of cs] i by simp
    from zero_on_segment [OF lin lt zero] show ?thesis
    proof
      assume sign: "?f a * ?f b < 0"
      have q: "bisect_break_even legs a b cs \<in> set ?s" using i sign by (auto simp: in_scan_points)
      obtain z where z: "a \<le> z" "z \<le> b" "?f z = 0" "\<bar>bisect_break_even legs a b cs - z\<bar> \<le> (hi - lo) / 2 ^ 81"
        using bisect_between [OF ok i(1,2), of cs] sign i by metis
      have "z = x"
      proof -
        obtain k m where l: "\<And>y. a \<le> y \<Longrightarrow> y \<le> b \<Longrightarrow> ?f y = k + m * y" using lin by (auto simp: linear_on_def)
        have "?f a = k + m * a" "?f b = k + m * b" "k + m * x = 0" "k + m * z = 0"
          using l [of a] l [of b] l [of x] l [of z] lt z zero by auto
        moreover from this sign have "m \<noteq> 0" by (auto simp: not_square_less_zero)
        ultimately show ?thesis by (metis add_left_cancel mult_left_cancel)
      qed
      then show ?thesis using q z by blast
    next
      assume flat: "\<forall>y. a \<le> y \<and> y \<le> b \<longrightarrow> ?f y = 0"
      then have "a \<in> set ?s" "b \<in> set ?s" using at ab lt by auto
      then show ?thesis using lt flat by blast
    qed
  qed
qed

text \<open>
  C40: The break-even points are right and complete up to the search's tolerances: for validated inputs whose range is
  wider than \<open>1e-9\<close> the search returns an ascending list of prices of the range; each has a payoff below
  \<open>1e-9\<close> or lies within the width of the range over \<open>2 ^ 81\<close> of a price at which the payoff is exactly
  zero; and every price of the range with payoff exactly zero has a point as near, itself reported or merged with a
  reported one at most \<open>1e-6\<close> (above 1: times the price) away, unless it lies inside a stretch on which the payoff is zero everywhere: of such a
  stretch only the two ends are reported.
\<close>
theorem break_even_points_complete:
  fixes legs :: "option_leg list" and lo hi step cs :: pyfloat
  defines "f \<equiv> \<lambda>x. calculate_payoff_at_price legs x cs"
  assumes cs: "0 < cs" and lo: "0 \<le> lo" and range: "lo + ZERO_TOLERANCE < hi"
    and step: "0 < step" and many: "(hi - lo) / step \<le> MAX_CURVE_POINTS"
  shows "\<exists>points. find_break_even_points legs lo hi step cs = Some (Inr points) \<and> sorted_wrt (<) points \<and>
    (\<forall>p\<in>set points. lo \<le> p \<and> p \<le> hi \<and>
       (\<bar>f p\<bar> < ZERO_TOLERANCE \<or> (\<exists>x. lo \<le> x \<and> x \<le> hi \<and> f x = 0 \<and> \<bar>p - x\<bar> \<le> (hi - lo) / 2 ^ 81))) \<and>
    (\<forall>x. lo \<le> x \<and> x \<le> hi \<and> f x = 0 \<longrightarrow>
       (\<exists>q. \<bar>q - x\<bar> \<le> (hi - lo) / 2 ^ 81 \<and> reported points q) \<or>
       (\<exists>a b. a < x \<and> x < b \<and> reported points a \<and> reported points b \<and> (\<forall>y. a \<le> y \<and> y \<le> b \<longrightarrow> f y = 0)))"
proof -
  have lt: "lo < hi" using range by (simp add: ZERO_TOLERANCE_def)
  obtain prices where p: "curve_prices legs lo hi step = Some prices" "sorted prices" "distinct prices"
      "hi \<in> set prices" "lo \<in> set prices \<or> hi - ZERO_TOLERANCE \<le> lo"
    and r: "\<And>p. p \<in> set prices \<Longrightarrow> lo \<le> p \<and> p \<le> hi"
    and c: "\<And>s. s \<in> set (option_strikes legs) \<Longrightarrow> lo < s \<Longrightarrow> s < hi \<Longrightarrow> s \<in> set prices"
    by (rule curve_prices_cover [OF step lt, of legs]) blast
  have lo_in: "lo \<in> set prices" using p(5) range by auto
  have ok: "grid_ok legs lo hi prices" using p r c by (simp add: grid_ok_def)
  let ?s = "scan_points legs cs prices"
  have "find_break_even_points legs lo hi step cs = Some (Inr (dedupe_points ?s))"
    using validated [OF cs lo lt step many] p(1) by (simp add: find_break_even_points_def)
  moreover have "\<forall>q\<in>set (dedupe_points ?s). lo \<le> q \<and> q \<le> hi \<and>
      (\<bar>f q\<bar> < ZERO_TOLERANCE \<or> (\<exists>x. lo \<le> x \<and> x \<le> hi \<and> f x = 0 \<and> \<bar>q - x\<bar> \<le> (hi - lo) / 2 ^ 81))"
    unfolding f_def using scan_sound [OF ok] dedupe_points_spec(1) by blast
  moreover have "(\<exists>q. \<bar>q - x\<bar> \<le> (hi - lo) / 2 ^ 81 \<and> reported (dedupe_points ?s) q) \<or>
      (\<exists>a b. a < x \<and> x < b \<and> reported (dedupe_points ?s) a \<and> reported (dedupe_points ?s) b \<and>
        (\<forall>y. a \<le> y \<and> y \<le> b \<longrightarrow> f y = 0))" if "lo \<le> x" "x \<le> hi" "f x = 0" for x
    using scan_complete [OF ok lo_in p(4), of x cs] that dedupe_points_spec(3) unfolding f_def by blast
  ultimately show ?thesis using dedupe_points_spec(2) by blast
qed

theorem break_even_points_complete_witness:
  "\<exists>points. find_break_even_points
      [\<lparr>leg_type = LCall, leg_action = Buy, leg_strike = 100, leg_premium = 5, leg_quantity = 1\<rparr>] 90 120 10 1 =
    Some (Inr points) \<and> points \<noteq> []"
proof -
  let ?legs = "[\<lparr>leg_type = LCall, leg_action = Buy, leg_strike = 100, leg_premium = 5, leg_quantity = 1\<rparr>]"
  obtain points where p: "find_break_even_points ?legs 90 120 10 1 = Some (Inr points)"
    and z: "\<forall>x. 90 \<le> x \<and> x \<le> 120 \<and> calculate_payoff_at_price ?legs x 1 = 0 \<longrightarrow>
       (\<exists>q. \<bar>q - x\<bar> \<le> (120 - 90) / 2 ^ 81 \<and> reported points q) \<or>
       (\<exists>a b. a < x \<and> x < b \<and> reported points a \<and> reported points b \<and>
         (\<forall>y. a \<le> y \<and> y \<le> b \<longrightarrow> calculate_payoff_at_price ?legs y 1 = 0))"
    using break_even_points_complete [of 1 90 120 10 ?legs]
    by (auto simp: ZERO_TOLERANCE_def MAX_CURVE_POINTS_def)
  have "calculate_payoff_at_price ?legs 105 1 = 0"
    by (simp add: calculate_payoff_at_price_def leg_contribution_def unit_payoff_at_expiry_def)
  then have "\<exists>q. reported points q" using z [THEN spec, of 105] by auto
  then have "points \<noteq> []" by (auto simp: reported_def)
  then show ?thesis using p by blast
qed


subsection \<open>Profit and loss\<close>

lemma candidates_set:
  "set (candidates legs lo hi) = insert lo (insert hi {s \<in> set (option_strikes legs). lo \<le> s \<and> s \<le> hi})"
  by (auto simp: candidates_def option_strikes_def)

lemma payoff_bracketed:
  assumes x: "lo \<le> x" "x \<le> hi"
  obtains a b where "a \<in> set (candidates legs lo hi)" "b \<in> set (candidates legs lo hi)"
    "calculate_payoff_at_price legs x cs \<le> max (calculate_payoff_at_price legs a cs) (calculate_payoff_at_price legs b cs)"
    "min (calculate_payoff_at_price legs a cs) (calculate_payoff_at_price legs b cs) \<le> calculate_payoff_at_price legs x cs"
proof -
  let ?C = "set (candidates legs lo hi)"
  obtain a b where ab: "a \<in> ?C" "b \<in> ?C" "a \<le> x" "x \<le> b" and gap: "\<And>c. c \<in> ?C \<Longrightarrow> \<not> (a < c \<and> c < b)"
    by (rule neighbours [of ?C lo x hi]) (use x in \<open>auto simp: candidates_set\<close>)
  have "no_strike_inside legs a b" unfolding no_strike_inside_def
  proof (intro ballI notI)
    fix s assume s: "s \<in> set (option_strikes legs)" "a < s \<and> s < b"
    moreover have "lo \<le> a" "b \<le> hi" using ab x by (auto simp: candidates_set)
    ultimately have "s \<in> ?C" by (auto simp: candidates_set)
    then show False using gap s by blast
  qed
  from linear_on_between [OF payoff_linear [OF this] ab(3,4)] show thesis using that ab by blast
qed

lemma payoff_beyond:
  assumes above: "\<And>s. s \<in> set (option_strikes legs) \<Longrightarrow> s \<le> hi" and x: "hi \<le> x"
  shows "calculate_payoff_at_price legs x cs =
    calculate_payoff_at_price legs hi cs + sum_list (map leg_slope legs) * cs * (x - hi)"
proof -
  have "leg_contribution leg x = leg_contribution leg hi + leg_slope leg * (x - hi)" if leg: "leg \<in> set legs" for leg
  proof -
    have "leg_type leg \<noteq> LStock \<Longrightarrow> leg_strike leg \<le> hi" using above leg by (auto simp: option_strikes_def)
    then show ?thesis using x
      by (cases "leg_type leg")
        (auto simp: leg_contribution_def leg_slope_def unit_payoff_at_expiry_def Let_def max_def algebra_simps)
  qed
  then have "sum_list (map (\<lambda>leg. leg_contribution leg x) legs) =
      sum_list (map (\<lambda>leg. leg_contribution leg hi + leg_slope leg * (x - hi)) legs)"
    by (simp cong: map_cong)
  also have "\<dots> = sum_list (map (\<lambda>leg. leg_contribution leg hi) legs) + sum_list (map leg_slope legs) * (x - hi)"
    by (simp only: sum_list_addf sum_list_mult_const)
  finally show ?thesis by (simp only: calculate_payoff_at_price_def) (simp add: algebra_simps)
qed

lemma slope_unbounded:
  assumes "\<And>x. hi \<le> x \<Longrightarrow> f x = f hi + m * (x - hi)" and "0 < (m::rat)"
  shows "\<exists>x. hi < x \<and> M < f x"
proof -
  define x where "x = hi + (\<bar>M - f hi\<bar> + 1) / m"
  have "hi < x" using assms(2) by (simp add: x_def)
  moreover have "f x = f hi + (\<bar>M - f hi\<bar> + 1)" using assms(1) [of x] assms(2) \<open>hi < x\<close> by (simp add: x_def)
  ultimately show ?thesis by (intro exI [of _ x]) auto
qed

text \<open>
  The strikes and the two ends of the range are enough: the reported maximum and minimum are attained and
  bound the payoff at every price of the range. When no strike lies above the range, the flags tell
  exactly whether the payoff has no bound beyond it, and without the flag the reported extreme holds for
  every higher price as well.
\<close>
theorem max_profit_loss_exact:
  fixes legs :: "option_leg list" and lo hi cs :: pyfloat
  defines "f \<equiv> \<lambda>x. calculate_payoff_at_price legs x cs"
  assumes cs: "0 < cs" and lo: "0 \<le> lo" and range: "lo < hi"
  shows "\<exists>r. find_max_profit_loss legs lo hi cs = Inr r \<and>
    (\<exists>x. lo \<le> x \<and> x \<le> hi \<and> f x = max_profit r) \<and> (\<exists>x. lo \<le> x \<and> x \<le> hi \<and> f x = max_loss r) \<and>
    (\<forall>x. lo \<le> x \<and> x \<le> hi \<longrightarrow> max_loss r \<le> f x \<and> f x \<le> max_profit r) \<and>
    ((\<forall>s\<in>set (option_strikes legs). s \<le> hi) \<longrightarrow>
       (max_profit_unbounded r \<longleftrightarrow> (\<forall>M. \<exists>x>hi. M < f x)) \<and>
       (max_loss_unbounded r \<longleftrightarrow> (\<forall>M. \<exists>x>hi. f x < M)) \<and>
       (\<not> max_profit_unbounded r \<longrightarrow> (\<forall>x\<ge>lo. f x \<le> max_profit r)) \<and>
       (\<not> max_loss_unbounded r \<longrightarrow> (\<forall>x\<ge>lo. max_loss r \<le> f x)))"
proof -
  let ?C = "set (candidates legs lo hi)" and ?m = "sum_list (map leg_slope legs) * cs"
  define r where "r = \<lparr>max_profit = Max (f ` ?C), max_loss = Min (f ` ?C),
    max_profit_unbounded = fst (unbounded_flags legs hi), max_loss_unbounded = snd (unbounded_flags legs hi)\<rparr>"
  have C: "finite (f ` ?C)" "f ` ?C \<noteq> {}" "\<And>x. x \<in> ?C \<Longrightarrow> lo \<le> x \<and> x \<le> hi"
    using range by (auto simp: candidates_set)
  have found: "find_max_profit_loss legs lo hi cs = Inr r"
    using cs lo range by (simp add: find_max_profit_loss_def validate_range_def r_def f_def Let_def split: prod.split)
  have hi_in: "hi \<in> ?C" by (simp add: candidates_set)
  have inside: "max_loss r \<le> f x \<and> f x \<le> max_profit r" if x: "lo \<le> x" "x \<le> hi" for x
  proof -
    obtain a b where ab: "a \<in> ?C" "b \<in> ?C" "f x \<le> max (f a) (f b)" "min (f a) (f b) \<le> f x"
      using payoff_bracketed [OF x] unfolding f_def by blast
    have "f a \<le> Max (f ` ?C)" "f b \<le> Max (f ` ?C)" "Min (f ` ?C) \<le> f a" "Min (f ` ?C) \<le> f b"
      using ab C by auto
    then show ?thesis using ab(3,4) unfolding r_def by (simp add: le_max_iff_disj min_le_iff_disj) linarith
  qed
  have attained: "(\<exists>x. lo \<le> x \<and> x \<le> hi \<and> f x = max_profit r) \<and> (\<exists>x. lo \<le> x \<and> x \<le> hi \<and> f x = max_loss r)"
    using Max_in [OF C(1,2)] Min_in [OF C(1,2)] C(3) unfolding r_def by (simp add: image_iff) metis
  have outside: "(max_profit_unbounded r \<longleftrightarrow> (\<forall>M. \<exists>x>hi. M < f x)) \<and> (max_loss_unbounded r \<longleftrightarrow> (\<forall>M. \<exists>x>hi. f x < M)) \<and>
      (\<not> max_profit_unbounded r \<longrightarrow> (\<forall>x\<ge>lo. f x \<le> max_profit r)) \<and>
      (\<not> max_loss_unbounded r \<longrightarrow> (\<forall>x\<ge>lo. max_loss r \<le> f x))"
    if strikes: "\<forall>s\<in>set (option_strikes legs). s \<le> hi"
  proof -
    have tail: "f x = f hi + ?m * (x - hi)" if "hi \<le> x" for x
      using payoff_beyond [of legs hi x cs] strikes that by (simp add: f_def)
    have flags: "max_profit_unbounded r \<longleftrightarrow> 0 < ?m" "max_loss_unbounded r \<longleftrightarrow> ?m < 0"
    proof -
      have "\<not> (option_strikes legs \<noteq> [] \<and> hi < Max (set (option_strikes legs)))" 
        using strikes Max_in [of "set (option_strikes legs)"] by fastforce
      then show "max_profit_unbounded r \<longleftrightarrow> 0 < ?m" "max_loss_unbounded r \<longleftrightarrow> ?m < 0"
        using cs by (auto simp: r_def unbounded_flags_def Let_def zero_less_mult_iff mult_less_0_iff)
    qed
    have up: "f x \<le> f hi" if "\<not> 0 < ?m" "hi \<le> x" for x
      using tail [OF that(2)] mult_nonpos_nonneg [of ?m "x - hi"] that by simp
    have down: "f hi \<le> f x" if "\<not> ?m < 0" "hi \<le> x" for x
      using tail [OF that(2)] mult_nonneg_nonneg [of ?m "x - hi"] that by simp
    have "\<exists>x>hi. M < f x" if "0 < ?m" for M using slope_unbounded [OF tail that, of M] by blast
    moreover have "\<exists>x>hi. f x < M" if "?m < 0" for M
    proof -
      have "- f x = - f hi + (- ?m) * (x - hi)" if "hi \<le> x" for x using tail [OF that] by (simp only: minus_add_distrib mult_minus_left)
      from slope_unbounded [OF this, of "- M"] that show ?thesis by auto
    qed
    moreover have "\<not> (\<forall>M. \<exists>x>hi. M < f x)" if "\<not> 0 < ?m" using up [OF that] by (meson less_imp_le not_less)
    moreover have "\<not> (\<forall>M. \<exists>x>hi. f x < M)" if "\<not> ?m < 0" using down [OF that] by (meson less_imp_le not_less)
    moreover have "f x \<le> max_profit r" if "\<not> 0 < ?m" "lo \<le> x" for x
      using inside [of x] inside [of hi] up [OF that(1), of x] that(2) range by (cases "x \<le> hi") auto
    moreover have "max_loss r \<le> f x" if "\<not> ?m < 0" "lo \<le> x" for x
      using inside [of x] inside [of hi] down [OF that(1), of x] that(2) range by (cases "x \<le> hi") auto
    ultimately show ?thesis unfolding flags by blast
  qed
  show ?thesis using found inside attained outside by blast
qed

theorem max_profit_loss_exact_witness:
  "\<exists>r. find_max_profit_loss
      [\<lparr>leg_type = LCall, leg_action = Buy, leg_strike = 100, leg_premium = 5, leg_quantity = 1\<rparr>] 50 150 1 = Inr r \<and>
     max_loss r = - 5 \<and> max_profit r = 45 \<and>
     (\<forall>x. 50 \<le> x \<and> x \<le> 150 \<longrightarrow>
        - 5 \<le> calculate_payoff_at_price [\<lparr>leg_type = LCall, leg_action = Buy, leg_strike = 100, leg_premium = 5, leg_quantity = 1\<rparr>] x 1)"
proof -
  let ?legs = "[\<lparr>leg_type = LCall, leg_action = Buy, leg_strike = 100, leg_premium = 5, leg_quantity = 1\<rparr>]"
  obtain r where r: "find_max_profit_loss ?legs 50 150 1 = Inr r"
    and all: "\<forall>x. 50 \<le> x \<and> x \<le> 150 \<longrightarrow> max_loss r \<le> calculate_payoff_at_price ?legs x 1"
    using max_profit_loss_exact [of 1 50 150 ?legs] by auto
  have "max_loss r = - 5 \<and> max_profit r = 45"
    using r by (simp add: find_max_profit_loss_def validate_range_def candidates_def unbounded_flags_def Let_def
      option_strikes_def calculate_payoff_at_price_def leg_contribution_def unit_payoff_at_expiry_def
      split: prod.splits) auto
  then show ?thesis using r all by auto
qed

lemma strike_above_range_not_flagged:
  \<comment> \<open>a long call whose strike lies above the range gains without bound and is reported as bounded\<close>
  "\<exists>r. find_max_profit_loss
      [\<lparr>leg_type = LCall, leg_action = Buy, leg_strike = 100, leg_premium = 5, leg_quantity = 1\<rparr>] 0 50 1 = Inr r \<and>
     \<not> max_profit_unbounded r \<and> max_profit r = - 5"
  by (simp add: find_max_profit_loss_def validate_range_def candidates_def unbounded_flags_def Let_def
      option_strikes_def calculate_payoff_at_price_def leg_contribution_def unit_payoff_at_expiry_def)

text \<open>
  The curve the platform draws: validated inputs always give one, ascending over the range, with at most
  one hundred thousand grid steps besides the strikes; without the validation of the step the loop that lays
  out the grid would not end.
\<close>
theorem payoff_curve_bounded:
  assumes "0 < cs" "0 \<le> lo" "lo < hi" "0 < step" "(hi - lo) / step \<le> MAX_CURVE_POINTS"
  shows "\<exists>curve. build_payoff_curve legs lo hi step cs = Some (Inr curve) \<and> sorted_wrt (<) (map fst curve) \<and>
    length curve \<le> 100001 + length legs \<and>
    (\<forall>(p, v)\<in>set curve. lo \<le> p \<and> p \<le> hi \<and> v = calculate_payoff_at_price legs p cs)"
proof -
  obtain prices where p: "curve_prices legs lo hi step = Some prices" "sorted prices" "distinct prices"
    and r: "\<And>p. p \<in> set prices \<Longrightarrow> lo \<le> p \<and> p \<le> hi"
    and l: "length prices \<le> nat \<lceil>(hi - lo) / step\<rceil> + 1 + length legs"
    by (rule curve_prices_cover [OF assms(4,3), of legs]) blast
  have "\<lceil>(hi - lo) / step\<rceil> \<le> 100000" using assms(5) by (simp add: ceiling_le_iff MAX_CURVE_POINTS_def)
  then have "length prices \<le> 100001 + length legs" using l by linarith
  moreover have "map fst (map (\<lambda>price. (price, calculate_payoff_at_price legs price cs)) prices) = prices"
    by (simp add: comp_def)
  moreover have "sorted_wrt (<) prices" using p by (simp add: strict_sorted_iff)
  ultimately show ?thesis
    using validated [OF assms] p(1) r by (auto simp: build_payoff_curve_def comp_def)
qed

end
