(* ===== verification/Option_Margin.thy ===== *)
theory Option_Margin
  imports Option_Payoff
begin

text \<open>
  The margin engine for option strategies (\<open>domain/options/margin_engine.py\<close>): the rules are tried in
  the code's order and the first that recognises the legs decides. Amounts are rationals, quantities
  and contract sizes integers. The configuration is the dictionary with its four keys; one without
  them would raise at the read.
\<close>

datatype margin_leg_type = STOCK | CALL | PUT
datatype direction = LONG | SHORT

definition direction_value :: "direction \<Rightarrow> pyfloat" where
  "direction_value d = (case d of LONG \<Rightarrow> 1 | SHORT \<Rightarrow> - 1)"

record margin_leg =
  ml_type :: margin_leg_type
  ml_direction :: direction
  ml_strike :: pyfloat
  ml_premium :: pyfloat
  ml_underlying_price :: pyfloat
  ml_days_to_expiry :: int
  ml_implied_volatility :: pyfloat
  ml_contract_size :: int
  ml_quantity :: int
  ml_underlying_group :: string

record margin_result =
  initial_margin :: pyfloat
  maintenance_margin :: pyfloat
  net_premium_flow :: pyfloat
  strategy_type :: string

record margin_config =
  coefficients :: "(string, pyfloat) pydict"
  min_margin :: pyfloat
  maintenance_ratio :: pyfloat
  spread_discount :: pyfloat
  portfolio_discount :: pyfloat

definition DEFAULT_COEFFICIENTS :: "(string, pyfloat) pydict" where
  "DEFAULT_COEFFICIENTS =
     [(''default'', 25 / 100), (''equity_large'', 22 / 100), (''equity_small'', 30 / 100), (''gold_coin'', 28 / 100),
      (''saffron'', 30 / 100), (''cumin'', 25 / 100), (''commodity'', 30 / 100)]"

definition DEFAULT_CONFIG :: margin_config where
  "DEFAULT_CONFIG =
     \<lparr>coefficients = DEFAULT_COEFFICIENTS, min_margin = 1000000, maintenance_ratio = 85 / 100,
      spread_discount = 0, portfolio_discount = 20 / 100\<rparr>"

definition engine_config :: "margin_config option \<Rightarrow> margin_config" where
  "engine_config config = (case config of None \<Rightarrow> DEFAULT_CONFIG | Some c \<Rightarrow> c)"

definition get_coef :: "margin_config \<Rightarrow> string \<Rightarrow> pyfloat" where
  "get_coef cfg grp = dict_get_or (coefficients cfg) grp (25 / 100)"

definition naked_short_margin :: "margin_config \<Rightarrow> margin_leg \<Rightarrow> pyfloat" where
  "naked_short_margin cfg leg =
     (let coef = get_coef cfg (ml_underlying_group leg);
          S = ml_underlying_price leg;
          K = ml_strike leg;
          base_margin = coef * S;
          intrinsic = (if ml_type leg = CALL then (if S > K then max (S - K) 0 else 0)
                       else (if K > S then max (K - S) 0 else 0));
          margin = (intrinsic + base_margin + \<bar>ml_premium leg\<bar>) * of_int (ml_quantity leg) * of_int (ml_contract_size leg)
      in max margin (min_margin cfg))"

subsection \<open>Spreads\<close>

definition spread_short :: "margin_leg \<Rightarrow> margin_leg \<Rightarrow> margin_leg" where
  "spread_short l0 l1 = (if ml_direction l0 = SHORT then l0 else l1)"

definition spread_long :: "margin_leg \<Rightarrow> margin_leg \<Rightarrow> margin_leg" where
  "spread_long l0 l1 = (if ml_direction l0 = SHORT then l1 else l0)"

definition spread_max_loss :: "margin_leg \<Rightarrow> margin_leg \<Rightarrow> pyfloat" where
  \<comment> \<open>of the leg taken for the short one and the leg taken for the long one\<close>
  "spread_max_loss short long =
     (let spread_width = \<bar>ml_strike long - ml_strike short\<bar>;
          net_credit = (ml_premium short - ml_premium long) * of_int (ml_quantity short) * of_int (ml_contract_size short)
      in spread_width * of_int (ml_quantity short) * of_int (ml_contract_size short) - net_credit)"

definition spread_margin :: "margin_config \<Rightarrow> margin_leg list \<Rightarrow> py_error + pyfloat" where
  "spread_margin cfg spread_legs =
     (case sort_key ml_strike spread_legs of
        l0 # l1 # _ \<Rightarrow> Inr (max (spread_max_loss (spread_short l0 l1) (spread_long l0 l1)) (min_margin cfg))
      | _ \<Rightarrow> Inl IndexError)"

subsection \<open>The rules\<close>

definition net_premium :: "margin_leg list \<Rightarrow> pyfloat" where
  "net_premium legs =
     sum_list (map (\<lambda>leg. ml_premium leg * of_int (ml_quantity leg) * of_int (ml_contract_size leg) *
                          direction_value (ml_direction leg)) legs)"

definition is_option :: "margin_leg \<Rightarrow> bool" where
  "is_option leg \<longleftrightarrow> ml_type leg \<in> {CALL, PUT}"

definition stocks_of :: "margin_leg list \<Rightarrow> margin_leg list" where
  "stocks_of legs = filter (\<lambda>leg. ml_type leg = STOCK) legs"

definition options_of :: "margin_leg list \<Rightarrow> margin_leg list" where
  "options_of legs = filter is_option legs"

definition shorts_of :: "margin_leg list \<Rightarrow> margin_leg list" where
  "shorts_of legs = filter (\<lambda>leg. ml_direction leg = SHORT) (options_of legs)"

definition longs_of :: "margin_leg list \<Rightarrow> margin_leg list" where
  "longs_of legs = filter (\<lambda>leg. ml_direction leg = LONG) (options_of legs)"

definition long_stock_qty :: "margin_leg list \<Rightarrow> int" where
  "long_stock_qty legs =
     sum_list (map (\<lambda>leg. ml_quantity leg * ml_contract_size leg)
       (filter (\<lambda>leg. ml_direction leg = LONG) (stocks_of legs)))"

definition short_calls :: "margin_leg list \<Rightarrow> margin_leg list" where
  "short_calls legs = filter (\<lambda>leg. ml_type leg = CALL) (shorts_of legs)"

definition is_covered_call :: "margin_leg list \<Rightarrow> bool" where
  "is_covered_call legs \<longleftrightarrow>
     long_stock_qty legs > 0 \<and>
     (case short_calls legs of
        [] \<Rightarrow> False
      | first # _ \<Rightarrow> long_stock_qty legs \<ge> sum_list (map ml_quantity (short_calls legs)) * ml_contract_size first)"

definition is_protective_put :: "margin_leg list \<Rightarrow> bool" where
  "is_protective_put legs \<longleftrightarrow>
     long_stock_qty legs > 0 \<and> filter (\<lambda>leg. ml_type leg = PUT) (longs_of legs) \<noteq> [] \<and> shorts_of legs = []"

definition margined :: "margin_config \<Rightarrow> margin_leg list \<Rightarrow> pyfloat \<Rightarrow> string \<Rightarrow> margin_result" where
  "margined cfg legs margin stype =
     \<lparr>initial_margin = margin, maintenance_margin = margin * maintenance_ratio cfg,
      net_premium_flow = net_premium legs, strategy_type = stype\<rparr>"

definition free :: "margin_leg list \<Rightarrow> string \<Rightarrow> margin_result" where
  "free legs stype =
     \<lparr>initial_margin = 0, maintenance_margin = 0, net_premium_flow = net_premium legs, strategy_type = stype\<rparr>"

definition calendar_rule :: "margin_config \<Rightarrow> margin_leg list \<Rightarrow> margin_result option" where
  "calendar_rule cfg legs =
     (case options_of legs of
        [o0, o1] \<Rightarrow>
          if ml_type o0 = ml_type o1 \<and> ml_strike o0 = ml_strike o1 \<and> ml_days_to_expiry o0 \<noteq> ml_days_to_expiry o1 then
            (case (find (\<lambda>lg. ml_direction lg = SHORT) [o0, o1], find (\<lambda>lg. ml_direction lg = LONG) [o0, o1]) of
               (Some short_leg, Some long_leg) \<Rightarrow>
                 Some (if ml_days_to_expiry short_leg > ml_days_to_expiry long_leg
                       then margined cfg legs (naked_short_margin cfg short_leg) ''short_calendar''
                       else
                         (let matched_qty = min (ml_quantity short_leg) (ml_quantity long_leg);
                              offset = ml_premium long_leg * of_int matched_qty * of_int (ml_contract_size long_leg);
                              naked = naked_short_margin cfg short_leg
                          in margined cfg legs (max (naked - offset) (min_margin cfg)) ''calendar_spread''))
             | _ \<Rightarrow> None)
          else None
      | _ \<Rightarrow> None)"

definition vertical_rule :: "margin_config \<Rightarrow> margin_leg list \<Rightarrow> margin_result option" where
  "vertical_rule cfg legs =
     (case options_of legs of
        [o0, o1] \<Rightarrow>
          if ml_type o0 = ml_type o1 then
            (case sort_key ml_strike [o0, o1] of
               [l0, l1] \<Rightarrow>
                 if ml_direction l0 \<noteq> ml_direction l1 then
                   (let short_leg = spread_short l0 l1; long_leg = spread_long l0 l1
                    in if ml_direction short_leg = SHORT
                       then Some (margined cfg legs (max (spread_max_loss short_leg long_leg) (min_margin cfg))
                              (if ml_type short_leg = CALL then ''bear_call_spread'' else ''bull_put_spread''))
                       else Some (margined cfg legs 0
                              (if ml_type short_leg = CALL then ''bull_call_debit_spread'' else ''bear_put_debit_spread'')))
                 else None
             | _ \<Rightarrow> None)
          else None
      | _ \<Rightarrow> None)"

definition condor_rule :: "margin_config \<Rightarrow> margin_leg list \<Rightarrow> (py_error + margin_result) option" where
  "condor_rule cfg legs =
     (let opts = options_of legs;
          calls = filter (\<lambda>leg. ml_type leg = CALL) opts;
          puts = filter (\<lambda>leg. ml_type leg = PUT) opts
      in if length opts = 4 \<and> length calls = 2 \<and> length puts = 2
         then Some (case spread_margin cfg calls of
                      Inl e \<Rightarrow> Inl e
                    | Inr call_margin \<Rightarrow>
                        (case spread_margin cfg puts of
                           Inl e \<Rightarrow> Inl e
                         | Inr put_margin \<Rightarrow> Inr (margined cfg legs (max call_margin put_margin) ''iron_condor'')))
         else None)"

definition straddle_rule :: "margin_config \<Rightarrow> margin_leg list \<Rightarrow> margin_result option" where
  "straddle_rule cfg legs =
     (case shorts_of legs of
        [s0, s1] \<Rightarrow>
          if longs_of legs = [] \<and> ml_type s0 \<noteq> ml_type s1 then
            (let m1 = naked_short_margin cfg s0;
                 m2 = naked_short_margin cfg s1
             in Some (margined cfg legs (max m1 m2 + 1 / 2 * min m1 m2)
                  (if ml_strike s0 = ml_strike s1 then ''short_straddle'' else ''short_strangle'')))
          else None
      | _ \<Rightarrow> None)"

definition long_straddle_rule :: "margin_leg list \<Rightarrow> margin_result option" where
  "long_straddle_rule legs =
     (case longs_of legs of
        [l0, l1] \<Rightarrow>
          if shorts_of legs = [] \<and> ml_type l0 \<noteq> ml_type l1 then Some (free legs ''long_straddle'') else None
      | _ \<Rightarrow> None)"

definition multi_leg_margin :: "margin_config \<Rightarrow> margin_leg list \<Rightarrow> pyfloat" where
  "multi_leg_margin cfg legs =
     sum_list (map (naked_short_margin cfg) (shorts_of legs)) * (1 - portfolio_discount cfg)"

definition calculate_margin :: "margin_config \<Rightarrow> margin_leg list \<Rightarrow> py_error + margin_result" where
  "calculate_margin cfg legs =
     (if legs = [] then Inr \<lparr>initial_margin = 0, maintenance_margin = 0, net_premium_flow = 0, strategy_type = ''''\<rparr>
      else if shorts_of legs = [] \<and> stocks_of legs = [] then Inr (free legs ''long_only'')
      else if is_covered_call legs then Inr (free legs ''covered_call'')
      else if is_protective_put legs then Inr (free legs ''protective_put'')
      else
        (case calendar_rule cfg legs of Some r \<Rightarrow> Inr r
         | None \<Rightarrow>
        (case vertical_rule cfg legs of Some r \<Rightarrow> Inr r
         | None \<Rightarrow>
        (case condor_rule cfg legs of Some r \<Rightarrow> r
         | None \<Rightarrow>
        (case straddle_rule cfg legs of Some r \<Rightarrow> Inr r
         | None \<Rightarrow>
        (case long_straddle_rule legs of Some r \<Rightarrow> Inr r
         | None \<Rightarrow> Inr (margined cfg legs (multi_leg_margin cfg legs) ''multi_leg'')))))))"

definition check_margin_call :: "pyfloat \<Rightarrow> margin_result \<Rightarrow> bool \<times> pyfloat" where
  "check_margin_call equity result =
     (let maintenance = maintenance_margin result
      in if equity < maintenance then (True, maintenance - equity) else (False, 0))"

subsection \<open>Every rule's amount\<close>

lemma naked_at_least: "min_margin cfg \<le> naked_short_margin cfg leg"
  by (simp add: naked_short_margin_def Let_def)

lemma calendar_rule_some:
  "calendar_rule cfg legs = Some r \<Longrightarrow>
     min_margin cfg \<le> initial_margin r \<and> maintenance_margin r = initial_margin r * maintenance_ratio cfg"
  using naked_at_least [of cfg]
  by (auto simp: calendar_rule_def margined_def Let_def split: list.splits option.splits if_splits)

lemma vertical_rule_some:
  "vertical_rule cfg legs = Some r \<Longrightarrow>
     min_margin cfg \<le> initial_margin r \<and> maintenance_margin r = initial_margin r * maintenance_ratio cfg"
  by (auto simp: vertical_rule_def margined_def Let_def spread_short_def split: list.splits option.splits if_splits)
    (metis direction.exhaust)+

lemma length_two: "length xs = 2 \<Longrightarrow> \<exists>a b. xs = [a, b]"
  by (cases xs; cases "List.tl xs") auto

lemma spread_margin_two: "length legs = 2 \<Longrightarrow> \<exists>m. spread_margin cfg legs = Inr m \<and> min_margin cfg \<le> m"
  using length_two [of "sort_key ml_strike legs"] by (auto simp: spread_margin_def)

lemma condor_rule_some:
  assumes "condor_rule cfg legs = Some x"
  shows "\<exists>r. x = Inr r \<and> min_margin cfg \<le> initial_margin r \<and> maintenance_margin r = initial_margin r * maintenance_ratio cfg"
proof -
  let ?calls = "filter (\<lambda>leg. ml_type leg = CALL) (options_of legs)" and ?puts = "filter (\<lambda>leg. ml_type leg = PUT) (options_of legs)"
  have "length ?calls = 2" "length ?puts = 2" using assms by (auto simp: condor_rule_def Let_def split: if_splits)
  from this [THEN spread_margin_two, of cfg] show ?thesis
    using assms by (auto simp: condor_rule_def Let_def margined_def split: if_splits)
qed

lemma straddle_rule_some:
  assumes "straddle_rule cfg legs = Some r" and "0 \<le> min_margin cfg"
  shows "min_margin cfg \<le> initial_margin r \<and> maintenance_margin r = initial_margin r * maintenance_ratio cfg"
proof -
  obtain s0 s1 where r: "initial_margin r = max (naked_short_margin cfg s0) (naked_short_margin cfg s1) +
      1 / 2 * min (naked_short_margin cfg s0) (naked_short_margin cfg s1)"
    "maintenance_margin r = initial_margin r * maintenance_ratio cfg"
    using assms(1) by (auto simp: straddle_rule_def margined_def Let_def split: list.splits if_splits)
  show ?thesis using r naked_at_least [of cfg s0] naked_at_least [of cfg s1] assms(2) by (simp add: max_def min_def)
qed

lemma naked_sum_at_least:
  assumes "legs \<noteq> []" and "0 \<le> min_margin cfg"
  shows "min_margin cfg \<le> sum_list (map (naked_short_margin cfg) legs)"
proof (cases legs)
  case (Cons l ls)
  have "0 \<le> sum_list (map (naked_short_margin cfg) ls)"
    by (rule sum_list_nonneg_rat) (use naked_at_least assms(2) order_trans in blast)
  then show ?thesis using Cons naked_at_least [of cfg l] by simp
qed (use assms in simp)


subsection \<open>When a strategy is free of margin\<close>

lemma multi_leg_at_least:
  assumes "shorts_of legs \<noteq> []" "0 \<le> min_margin cfg" "portfolio_discount cfg < 1"
  shows "(1 - portfolio_discount cfg) * min_margin cfg \<le> multi_leg_margin cfg legs"
  using mult_right_mono [OF naked_sum_at_least [OF assms(1,2)], of "1 - portfolio_discount cfg"] assms(3)
  by (simp add: multi_leg_margin_def ac_simps)

lemma discounted_le: "0 \<le> m \<Longrightarrow> 0 \<le> d \<Longrightarrow> (1 - d) * m \<le> (m::rat)"
  by (simp add: algebra_simps)

lemma written_rules:
  assumes short: "shorts_of legs \<noteq> []" and cover: "\<not> is_covered_call legs"
    and cfg: "0 \<le> min_margin cfg" "0 \<le> portfolio_discount cfg" "portfolio_discount cfg < 1"
  shows "\<exists>r. calculate_margin cfg legs = Inr r \<and> maintenance_margin r = initial_margin r * maintenance_ratio cfg \<and>
    (1 - portfolio_discount cfg) * min_margin cfg \<le> initial_margin r"
proof -
  have legs: "legs \<noteq> []" using short by (auto simp: shorts_of_def options_of_def)
  have no_put: "\<not> is_protective_put legs" and no_long: "long_straddle_rule legs = None"
    using short by (auto simp: is_protective_put_def long_straddle_rule_def split: list.splits)
  have le: "(1 - portfolio_discount cfg) * min_margin cfg \<le> x" if "min_margin cfg \<le> x" for x
    using discounted_le [OF cfg(1,2)] that by (rule order_trans)
  let ?ok = "\<lambda>r. maintenance_margin r = initial_margin r * maintenance_ratio cfg \<and>
    (1 - portfolio_discount cfg) * min_margin cfg \<le> initial_margin r"
  note start = legs short cover no_put no_long
  show ?thesis
  proof (cases "calendar_rule cfg legs")
    case (Some r)
    then show ?thesis using start le calendar_rule_some [OF Some] by (simp add: calculate_margin_def)
  next
    case cal: None
    show ?thesis
    proof (cases "vertical_rule cfg legs")
      case (Some r)
      then show ?thesis using start cal le vertical_rule_some [OF Some] by (simp add: calculate_margin_def)
    next
      case vert: None
      show ?thesis
      proof (cases "condor_rule cfg legs")
        case (Some x)
        then show ?thesis using start cal vert le condor_rule_some [OF Some] by (auto simp: calculate_margin_def)
      next
        case con: None
        show ?thesis
        proof (cases "straddle_rule cfg legs")
          case (Some r)
          then show ?thesis using start cal vert con le straddle_rule_some [OF Some cfg(1)] by (simp add: calculate_margin_def)
        next
          case None
          then show ?thesis using start cal vert con multi_leg_at_least [OF short cfg(1,3)]
            by (simp add: calculate_margin_def margined_def)
        qed
      qed
    qed
  qed
qed

lemma no_short_rules:
  assumes "shorts_of legs = []"
  shows "calendar_rule cfg legs = None" "vertical_rule cfg legs = None" "straddle_rule cfg legs = None"
    "multi_leg_margin cfg legs = 0" "\<not> is_covered_call legs"
proof -
  have long: "ml_direction l = LONG" if "l \<in> set (options_of legs)" for l
    using assms that by (cases "ml_direction l") (auto simp: shorts_of_def filter_empty_conv)
  have "calendar_rule cfg legs = None \<and> vertical_rule cfg legs = None"
  proof (cases "\<exists>o0 o1. options_of legs = [o0, o1]")
    case True
    then obtain o0 o1 where o: "options_of legs = [o0, o1]" by blast
    then have "ml_direction o0 = LONG" "ml_direction o1 = LONG" using long by simp_all
    then show ?thesis using o by (simp add: calendar_rule_def vertical_rule_def)
  next
    case False
    then show ?thesis by (auto simp: calendar_rule_def vertical_rule_def split: list.split)
  qed
  then show "calendar_rule cfg legs = None" "vertical_rule cfg legs = None" by simp_all
  show "straddle_rule cfg legs = None" "multi_leg_margin cfg legs = 0"
    using assms by (simp_all add: straddle_rule_def multi_leg_margin_def)
  show "\<not> is_covered_call legs" using assms by (simp add: is_covered_call_def short_calls_def)
qed

text \<open>
  A margin is never waived for an uncovered written option: the calculation always gives a result,
  its maintenance margin is the ratio of the initial one, and when the legs hold a short option the
  initial margin is zero exactly if the written calls are covered by long stock, and at least the minimum less the
  portfolio discount otherwise; without a short option (and outside the four-leg rule) nothing is charged.
\<close>
theorem margin_free_iff_covered:
  assumes cfg: "0 < min_margin cfg" "0 \<le> portfolio_discount cfg" "portfolio_discount cfg < 1"
  shows "\<exists>r. calculate_margin cfg legs = Inr r \<and>
    maintenance_margin r = initial_margin r * maintenance_ratio cfg \<and>
    (shorts_of legs \<noteq> [] \<longrightarrow>
       (initial_margin r = 0 \<longleftrightarrow> is_covered_call legs) \<and>
       (\<not> is_covered_call legs \<longrightarrow> (1 - portfolio_discount cfg) * min_margin cfg \<le> initial_margin r)) \<and>
    (shorts_of legs = [] \<and> length (options_of legs) \<noteq> 4 \<longrightarrow> initial_margin r = 0)"
proof (cases "shorts_of legs = []")
  case True
  have condor: "condor_rule cfg legs = None \<or>
      (\<exists>r. condor_rule cfg legs = Some (Inr r) \<and> maintenance_margin r = initial_margin r * maintenance_ratio cfg \<and>
        length (options_of legs) = 4)"
    using condor_rule_some [of cfg legs] by (cases "condor_rule cfg legs") (auto simp: condor_rule_def Let_def split: if_splits)
  show ?thesis using True condor
    by (auto simp: calculate_margin_def free_def margined_def no_short_rules long_straddle_rule_def split: list.splits)
next
  case False
  have legs: "legs \<noteq> []" using False by (auto simp: shorts_of_def options_of_def)
  show ?thesis
  proof (cases "is_covered_call legs")
    case True
    then show ?thesis using False legs by (simp add: calculate_margin_def free_def)
  next
    case nc: False
    have "0 < (1 - portfolio_discount cfg) * min_margin cfg" using cfg by simp
    then show ?thesis using written_rules [OF False nc less_imp_le [OF cfg(1)] cfg(2,3)] False nc by force
  qed
qed

definition demo_put :: margin_leg where
  "demo_put = \<lparr>ml_type = PUT, ml_direction = SHORT, ml_strike = 100, ml_premium = 5, ml_underlying_price = 90,
     ml_days_to_expiry = 30, ml_implied_volatility = 0, ml_contract_size = 1000, ml_quantity = 1, ml_underlying_group = ''default''\<rparr>"

theorem margin_free_iff_covered_witness:
  "\<exists>r. calculate_margin DEFAULT_CONFIG [demo_put] = Inr r \<and> 800000 \<le> initial_margin r"
proof -
  have s: "shorts_of [demo_put] \<noteq> []" by (simp add: shorts_of_def options_of_def is_option_def demo_put_def)
  have c: "\<not> is_covered_call [demo_put]"
    by (simp add: is_covered_call_def long_stock_qty_def stocks_of_def demo_put_def)
  show ?thesis
    using margin_free_iff_covered [of DEFAULT_CONFIG "[demo_put]"] s c by (auto simp: DEFAULT_CONFIG_def)
qed

subsection \<open>A vertical spread is covered by its margin\<close>

definition payoff_leg :: "margin_leg \<Rightarrow> option_leg" where
  \<comment> \<open>the same leg as the payoff engine sees it\<close>
  "payoff_leg leg =
     \<lparr>leg_type = (case ml_type leg of STOCK \<Rightarrow> LStock | CALL \<Rightarrow> LCall | PUT \<Rightarrow> LPut),
      leg_action = (case ml_direction leg of LONG \<Rightarrow> Buy | SHORT \<Rightarrow> Sell),
      leg_strike = ml_strike leg, leg_premium = ml_premium leg, leg_quantity = of_int (ml_quantity leg)\<rparr>"

lemma vertical_margin:
  assumes opt: "is_option a" "ml_type b = ml_type a" and dir: "ml_direction a = SHORT" "ml_direction b = LONG"
    and strikes: "ml_strike a \<noteq> ml_strike b" and legs: "legs = [a, b] \<or> legs = [b, a]"
  shows "\<exists>r. calculate_margin cfg legs = Inr r \<and> initial_margin r = max (spread_max_loss a b) (min_margin cfg) \<and>
    strategy_type r = (if ml_type a = CALL then ''bear_call_spread'' else ''bull_put_spread'')"
proof -
  have opts: "options_of legs = legs" "stocks_of legs = []" and short: "shorts_of legs = [a]" and ne: "legs \<noteq> []"
    using legs opt dir by (auto simp: options_of_def stocks_of_def shorts_of_def is_option_def)
  have nc: "\<not> is_covered_call legs" "\<not> is_protective_put legs"
    using opts short by (simp_all add: is_covered_call_def is_protective_put_def long_stock_qty_def)
  have cal: "calendar_rule cfg legs = None" using legs opts strikes by (auto simp: calendar_rule_def)
  have "\<exists>r. vertical_rule cfg legs = Some r \<and> initial_margin r = max (spread_max_loss a b) (min_margin cfg) \<and>
      strategy_type r = (if ml_type a = CALL then ''bear_call_spread'' else ''bull_put_spread'')"
    using legs opts opt dir strikes
    by (auto simp: vertical_rule_def spread_short_def spread_long_def margined_def Let_def)
  then show ?thesis using ne short nc cal by (auto simp: calculate_margin_def)
qed

lemma spread_loss_bound:
  fixes q c S Ka Kb pa pb :: rat
  assumes "0 \<le> q" "0 \<le> c"
  shows "- (\<bar>Kb - Ka\<bar> * q * c - (pa - pb) * q * c) \<le> ((max (S - Kb) 0 - pb) * q - (max (S - Ka) 0 - pa) * q) * c"
    and "- (\<bar>Kb - Ka\<bar> * q * c - (pa - pb) * q * c) \<le> ((max (Kb - S) 0 - pb) * q - (max (Ka - S) 0 - pa) * q) * c"
proof -
  have qc: "0 \<le> q * c" using assms by simp
  have "- \<bar>Kb - Ka\<bar> \<le> max (S - Kb) 0 - max (S - Ka) 0" "- \<bar>Kb - Ka\<bar> \<le> max (Kb - S) 0 - max (Ka - S) 0"
    by (auto simp: max_def abs_if)
  from this [THEN mult_right_mono, OF qc]
  show "- (\<bar>Kb - Ka\<bar> * q * c - (pa - pb) * q * c) \<le> ((max (S - Kb) 0 - pb) * q - (max (S - Ka) 0 - pa) * q) * c"
    and "- (\<bar>Kb - Ka\<bar> * q * c - (pa - pb) * q * c) \<le> ((max (Kb - S) 0 - pb) * q - (max (Ka - S) 0 - pa) * q) * c"
    by (simp_all add: algebra_simps)
qed

text \<open>
  C39: The margin of a balanced vertical spread covers its worst case: for exactly two legs, a written and a bought
  option of one type with different strikes, equal quantities and equal contract sizes, in either order, the initial
  margin is at least the loss that the payoff engine computes for the two legs at any price of the underlying. The
  rule itself compares neither quantities nor contract sizes; without them the margin need not cover the loss
  (\<open>unequal_quantities_uncovered\<close>).
\<close>
theorem spread_margin_covers_loss:
  assumes opt: "is_option a" "ml_type b = ml_type a" and dir: "ml_direction a = SHORT" "ml_direction b = LONG"
    and strikes: "ml_strike a \<noteq> ml_strike b" and legs: "legs = [a, b] \<or> legs = [b, a]"
    and same: "ml_quantity b = ml_quantity a" "ml_contract_size b = ml_contract_size a"
    and pos: "0 \<le> ml_quantity a" "0 \<le> ml_contract_size a"
  shows "\<exists>r. calculate_margin cfg legs = Inr r \<and>
    (\<forall>S. - initial_margin r \<le> calculate_payoff_at_price (map payoff_leg legs) S (of_int (ml_contract_size a)))"
proof -
  obtain r where r: "calculate_margin cfg legs = Inr r" "initial_margin r = max (spread_max_loss a b) (min_margin cfg)"
    using vertical_margin [OF opt dir strikes legs] by blast
  let ?q = "of_int (ml_quantity a) :: rat" and ?c = "of_int (ml_contract_size a) :: rat"
  have qc: "0 \<le> ?q" "0 \<le> ?c" using pos by simp_all
  have "- spread_max_loss a b \<le> calculate_payoff_at_price (map payoff_leg legs) S ?c" for S
  proof -
    have t: "ml_type a = CALL \<or> ml_type a = PUT" using opt(1) by (auto simp: is_option_def)
    show ?thesis
      using spread_loss_bound [OF qc, of "ml_strike b" "ml_strike a" "ml_premium a" "ml_premium b" S] legs t opt(2) dir same
      by (auto simp: calculate_payoff_at_price_def leg_contribution_def unit_payoff_at_expiry_def payoff_leg_def
          spread_max_loss_def Let_def)
  qed
  moreover have "- initial_margin r \<le> - spread_max_loss a b" using r(2) by simp
  ultimately show ?thesis using r(1) order_trans by blast
qed

definition demo_call :: "direction \<Rightarrow> pyfloat \<Rightarrow> pyfloat \<Rightarrow> margin_leg" where
  "demo_call d K p = \<lparr>ml_type = CALL, ml_direction = d, ml_strike = K, ml_premium = p, ml_underlying_price = 100,
     ml_days_to_expiry = 30, ml_implied_volatility = 0, ml_contract_size = 1000, ml_quantity = 1, ml_underlying_group = ''default''\<rparr>"

theorem spread_margin_covers_loss_witness:
  "\<exists>r. calculate_margin DEFAULT_CONFIG [demo_call SHORT 100 8, demo_call LONG 110 3] = Inr r \<and>
     - initial_margin r \<le> calculate_payoff_at_price (map payoff_leg [demo_call SHORT 100 8, demo_call LONG 110 3]) 200 1000"
proof -
  have "\<exists>r. calculate_margin DEFAULT_CONFIG [demo_call SHORT 100 8, demo_call LONG 110 3] = Inr r \<and>
    (\<forall>S. - initial_margin r \<le> calculate_payoff_at_price (map payoff_leg [demo_call SHORT 100 8, demo_call LONG 110 3]) S
       (of_int (ml_contract_size (demo_call SHORT 100 8))))"
    by (rule spread_margin_covers_loss [where b = "demo_call LONG 110 3"]) (simp_all add: demo_call_def is_option_def)
  then show ?thesis by (auto simp: demo_call_def)
qed

subsection \<open>What the rules miss\<close>

lemma debit_spread_charged:
  \<comment> \<open>the short leg is chosen by its direction, so a spread is never recognised as bought: the branch that charges
    nothing is unreachable\<close>
  "vertical_rule cfg legs = Some r \<Longrightarrow> strategy_type r \<in> {''bear_call_spread'', ''bull_put_spread''}"
  by (auto simp: vertical_rule_def margined_def Let_def spread_short_def split: list.splits option.splits if_splits)
    (metis direction.exhaust)+

lemma bull_call_debit_margin:
  \<comment> \<open>all that can be lost on it is the premium paid, yet the minimum margin is asked\<close>
  "\<exists>r. calculate_margin DEFAULT_CONFIG [demo_call LONG 100 8, demo_call SHORT 110 3] = Inr r \<and>
     strategy_type r = ''bear_call_spread'' \<and> initial_margin r = 1000000"
  using vertical_margin [of "demo_call SHORT 110 3" "demo_call LONG 100 8" "[demo_call LONG 100 8, demo_call SHORT 110 3]" DEFAULT_CONFIG]
  by (auto simp: demo_call_def is_option_def DEFAULT_CONFIG_def spread_max_loss_def Let_def)

lemma unequal_quantities_uncovered:
  \<comment> \<open>ten written calls against one bought call are recognised as a spread; the margin is the minimum, the loss eight times it\<close>
  "\<exists>r. calculate_margin DEFAULT_CONFIG [(demo_call SHORT 100 8)\<lparr>ml_quantity := 10\<rparr>, demo_call LONG 110 3] = Inr r \<and>
     strategy_type r = ''bear_call_spread'' \<and> initial_margin r = 1000000 \<and>
     calculate_payoff_at_price (map payoff_leg [(demo_call SHORT 100 8)\<lparr>ml_quantity := 10\<rparr>, demo_call LONG 110 3]) 1000 1000 = -8033000"
  using vertical_margin [of "(demo_call SHORT 100 8)\<lparr>ml_quantity := 10\<rparr>" "demo_call LONG 110 3"
      "[(demo_call SHORT 100 8)\<lparr>ml_quantity := 10\<rparr>, demo_call LONG 110 3]" DEFAULT_CONFIG]
  by (auto simp: demo_call_def is_option_def DEFAULT_CONFIG_def spread_max_loss_def calculate_payoff_at_price_def
      leg_contribution_def unit_payoff_at_expiry_def payoff_leg_def Let_def)

lemma covered_is_free:
  assumes "is_covered_call legs"
  shows "\<exists>r. calculate_margin cfg legs = Inr r \<and> initial_margin r = 0"
proof -
  have "shorts_of legs \<noteq> []" using assms no_short_rules(5) by blast
  moreover from this have "legs \<noteq> []" by (auto simp: shorts_of_def options_of_def)
  ultimately show ?thesis using assms by (simp add: calculate_margin_def free_def)
qed

lemma puts_beside_covered_call:
  \<comment> \<open>one covered call waives the margin of any written put beside it\<close>
  assumes "is_covered_call legs" and "ml_type p = PUT"
  shows "\<exists>r. calculate_margin cfg (p # legs) = Inr r \<and> initial_margin r = 0"
proof (rule covered_is_free)
  have "long_stock_qty (p # legs) = long_stock_qty legs" "short_calls (p # legs) = short_calls legs"
    using assms(2) by (simp_all add: long_stock_qty_def stocks_of_def short_calls_def shorts_of_def options_of_def)
  then show "is_covered_call (p # legs)" using assms(1) by (simp add: is_covered_call_def split: list.splits)
qed

lemma single_short_below_minimum:
  \<comment> \<open>the portfolio discount also applies to a single naked option, below the configured minimum\<close>
  "\<exists>r. calculate_margin DEFAULT_CONFIG [demo_put] = Inr r \<and> initial_margin r = 800000"
  by (simp add: calculate_margin_def demo_put_def shorts_of_def options_of_def is_option_def stocks_of_def is_covered_call_def
      long_stock_qty_def is_protective_put_def calendar_rule_def vertical_rule_def condor_rule_def straddle_rule_def
      long_straddle_rule_def longs_of_def margined_def multi_leg_margin_def naked_short_margin_def DEFAULT_CONFIG_def
      DEFAULT_COEFFICIENTS_def get_coef_def dict_get_or_def Let_def)

end
