(* ===== verification/Trading_Calendar.thy ===== *)
theory Trading_Calendar
  imports Prelude
begin

text \<open>
  The trading calendar (\<open>domain/calendar/trading_calendar.py\<close>) and the job windows
  (\<open>jobs/market_hours.py\<close>). A \<open>date\<close> is its proleptic Gregorian ordinal, from 1 to the ordinal of
  31 December 9999; stepping outside raises \<open>OverflowError\<close>, which is what ends every loop of the code. The
  conversion from the solar calendar is a package outside the repository and an argument.
\<close>

subsection \<open>Dates\<close>

type_synonym pydate = int

definition MAX_DATE :: pydate where
  "MAX_DATE = 3652059"

definition is_date :: "pydate \<Rightarrow> bool" where
  "is_date d \<longleftrightarrow> 1 \<le> d \<and> d \<le> MAX_DATE"

definition is_leap :: "int \<Rightarrow> bool" where
  "is_leap y \<longleftrightarrow> 4 dvd y \<and> (\<not> 100 dvd y \<or> 400 dvd y)"

definition days_in_month :: "int \<Rightarrow> nat \<Rightarrow> int" where
  "days_in_month y m = (if m = 2 \<and> is_leap y then 29 else [31, 28, 31, 30, 31, 30, 31, 31, 30, 31, 30, 31] ! (m - 1))"

definition py_date :: "int \<Rightarrow> nat \<Rightarrow> int \<Rightarrow> pydate" where
  \<comment> \<open>\<open>date(y, m, d).toordinal()\<close>\<close>
  "py_date y m d =
     (let p = y - 1
      in p * 365 + p div 4 - p div 100 + p div 400 + sum_list (map (days_in_month y) [1..<m]) + d)"

definition weekday :: "pydate \<Rightarrow> int" where
  \<comment> \<open>Monday is 0\<close>
  "weekday d = (d + 6) mod 7"

definition plus_days :: "pydate \<Rightarrow> int \<Rightarrow> py_error + pydate" where
  \<comment> \<open>\<open>d + timedelta(days=n)\<close>\<close>
  "plus_days d n = (if is_date (d + n) then Inr (d + n) else Inl OverflowError)"

subsection \<open>The calendar\<close>

definition SHAMSI_HOLIDAYS :: "(int \<times> int) list" where
  "SHAMSI_HOLIDAYS =
     [(1, 1), (1, 2), (1, 3), (1, 4), (1, 12), (1, 13), (2, 14), (2, 15), (3, 5), (3, 6), (6, 15), (6, 16),
      (8, 20), (9, 28), (10, 1), (11, 22), (12, 29)]"

definition QAMARI_HOLIDAYS_GREGORIAN_2024 :: "pydate list" where
  "QAMARI_HOLIDAYS_GREGORIAN_2024 =
     [py_date 2024 7 15, py_date 2024 7 16, py_date 2024 8 24, py_date 2024 9 15, py_date 2024 9 16, py_date 2025 2 11]"

definition QAMARI_HOLIDAYS_GREGORIAN_2025 :: "pydate list" where
  "QAMARI_HOLIDAYS_GREGORIAN_2025 =
     [py_date 2025 7 5, py_date 2025 7 6, py_date 2025 8 13, py_date 2025 9 4, py_date 2025 9 5, py_date 2025 2 11]"

record trading_calendar =
  holidays :: "pydate set"

record jdatetime =
  \<comment> \<open>the package, when it can be imported\<close>
  this_year :: int
  togregorian :: "int \<Rightarrow> int \<Rightarrow> int \<Rightarrow> pydate option" \<comment> \<open>None: ValueError\<close>

definition init_base_holidays :: "jdatetime option \<Rightarrow> pydate set" where
  "init_base_holidays jd =
     set QAMARI_HOLIDAYS_GREGORIAN_2024 \<union> set QAMARI_HOLIDAYS_GREGORIAN_2025 \<union>
     (case jd of
        None \<Rightarrow> {}
      | Some j \<Rightarrow> set (List.map_filter (\<lambda>(month, day). togregorian j (this_year j) month day) SHAMSI_HOLIDAYS))"

definition trading_calendar_init :: "jdatetime option \<Rightarrow> pydate list option \<Rightarrow> trading_calendar" where
  "trading_calendar_init jd extra_holidays =
     \<lparr>holidays = init_base_holidays jd \<union> (case extra_holidays of None \<Rightarrow> {} | Some ds \<Rightarrow> set ds)\<rparr>"

definition is_trading_day :: "trading_calendar \<Rightarrow> pydate \<Rightarrow> bool" where
  "is_trading_day cal d \<longleftrightarrow> (if weekday d \<in> {3, 4} then False else d \<notin> holidays cal)"

function next_from :: "trading_calendar \<Rightarrow> pydate \<Rightarrow> py_error + pydate" where
  "next_from cal current =
     (if is_trading_day cal current then Inr current
      else (case plus_days current 1 of
              Inl e \<Rightarrow> Inl e
            | Inr d \<Rightarrow> next_from cal d))"
  by pat_completeness auto
termination
  by (relation "measure (\<lambda>(cal, d). nat (MAX_DATE - d))") (auto simp: plus_days_def is_date_def split: if_splits)

function previous_from :: "trading_calendar \<Rightarrow> pydate \<Rightarrow> py_error + pydate" where
  "previous_from cal current =
     (if is_trading_day cal current then Inr current
      else (case plus_days current (- 1) of
              Inl e \<Rightarrow> Inl e
            | Inr d \<Rightarrow> previous_from cal d))"
  by pat_completeness auto
termination
  by (relation "measure (\<lambda>(cal, d). nat d)") (auto simp: plus_days_def is_date_def split: if_splits)

declare next_from.simps [simp del] previous_from.simps [simp del]

definition next_trading_day :: "trading_calendar \<Rightarrow> pydate \<Rightarrow> py_error + pydate" where
  "next_trading_day cal from_date =
     (case plus_days from_date 1 of Inl e \<Rightarrow> Inl e | Inr d \<Rightarrow> next_from cal d)"

definition previous_trading_day :: "trading_calendar \<Rightarrow> pydate \<Rightarrow> py_error + pydate" where
  "previous_trading_day cal from_date =
     (case plus_days from_date (- 1) of Inl e \<Rightarrow> Inl e | Inr d \<Rightarrow> previous_from cal d)"

function count_from :: "trading_calendar \<Rightarrow> pydate \<Rightarrow> pydate \<Rightarrow> int \<Rightarrow> py_error + int" where
  "count_from cal current end_date n =
     (if current \<le> end_date then
        (let n' = (if is_trading_day cal current then n + 1 else n)
         in case plus_days current 1 of
              Inl e \<Rightarrow> Inl e
            | Inr d \<Rightarrow> count_from cal d end_date n')
      else Inr n)"
  by pat_completeness auto
termination
  by (relation "measure (\<lambda>(cal, d, e, n). nat (MAX_DATE - d))") (auto simp: plus_days_def is_date_def split: if_splits)

function list_from :: "trading_calendar \<Rightarrow> pydate \<Rightarrow> pydate \<Rightarrow> pydate list \<Rightarrow> py_error + pydate list" where
  "list_from cal current end_date days =
     (if current \<le> end_date then
        (let days' = (if is_trading_day cal current then days @ [current] else days)
         in case plus_days current 1 of
              Inl e \<Rightarrow> Inl e
            | Inr d \<Rightarrow> list_from cal d end_date days')
      else Inr days)"
  by pat_completeness auto
termination
  by (relation "measure (\<lambda>(cal, d, e, n). nat (MAX_DATE - d))") (auto simp: plus_days_def is_date_def split: if_splits)

declare count_from.simps [simp del] list_from.simps [simp del]

definition trading_days_between :: "trading_calendar \<Rightarrow> pydate \<Rightarrow> pydate \<Rightarrow> py_error + int" where
  "trading_days_between cal start end_date =
     (let (s, e) = (if start > end_date then (end_date, start) else (start, end_date))
      in count_from cal s e 0)"

definition adjust_expiry :: "trading_calendar \<Rightarrow> pydate \<Rightarrow> py_error + pydate" where
  "adjust_expiry cal nominal_expiry =
     (if is_trading_day cal nominal_expiry then Inr nominal_expiry
      else previous_trading_day cal nominal_expiry)"

definition get_trading_days_list :: "trading_calendar \<Rightarrow> pydate \<Rightarrow> pydate \<Rightarrow> py_error + pydate list" where
  "get_trading_days_list cal start end_date = list_from cal start end_date []"

definition days_to_expiry :: "trading_calendar \<Rightarrow> pydate \<Rightarrow> pydate \<Rightarrow> py_error + int" where
  "days_to_expiry cal from_date expiry = trading_days_between cal from_date expiry"

subsection \<open>Market hours\<close>

record pydatetime =
  dt_date :: pydate
  dt_hour :: nat
  dt_minute :: nat
  dt_second :: nat
  dt_microsecond :: nat

definition market_open_time :: "string \<Rightarrow> string" where
  "market_open_time market =
     dict_get_or [(''tse'', ''09:00''), (''ifb'', ''09:00''), (''ime'', ''10:00'')] market ''09:00''"

definition market_close_time :: "string \<Rightarrow> string" where
  "market_close_time market =
     dict_get_or [(''tse'', ''12:30''), (''ifb'', ''12:30''), (''ime'', ''15:00'')] market ''12:30''"

definition two_digits :: "nat \<Rightarrow> string" where
  "two_digits n = [digit_char (n div 10), digit_char (n mod 10)]"

definition hh_mm :: "nat \<Rightarrow> nat \<Rightarrow> string" where
  \<comment> \<open>\<open>strftime("%H:%M")\<close>\<close>
  "hh_mm h m = two_digits h @ '':'' @ two_digits m"

fun str_le :: "string \<Rightarrow> string \<Rightarrow> bool" where
  \<comment> \<open>Python's comparison of strings, by code points\<close>
  "str_le [] _ = True"
| "str_le (_ # _) [] = False"
| "str_le (a # as) (b # bs) = (if a = b then str_le as bs else (of_char a :: nat) < of_char b)"

definition is_market_open_now :: "trading_calendar \<Rightarrow> pydatetime \<Rightarrow> string \<Rightarrow> bool" where
  "is_market_open_now cal now market =
     (if \<not> is_trading_day cal (dt_date now) then False
      else (let open_str = market_open_time market;
                close_str = market_close_time market;
                current_time = hh_mm (dt_hour now) (dt_minute now)
            in str_le open_str current_time \<and> str_le current_time close_str))"

definition WEEKEND_DAYS :: "int set" where
  "WEEKEND_DAYS = {3, 4}"

definition dt_le :: "pydatetime \<Rightarrow> pydatetime \<Rightarrow> bool" where
  \<comment> \<open>the comparison of two readings of one clock, field by field\<close>
  "dt_le a b \<longleftrightarrow>
     dt_date a < dt_date b \<or> dt_date a = dt_date b \<and>
     (dt_hour a < dt_hour b \<or> dt_hour a = dt_hour b \<and>
     (dt_minute a < dt_minute b \<or> dt_minute a = dt_minute b \<and>
     (dt_second a < dt_second b \<or> dt_second a = dt_second b \<and> dt_microsecond a \<le> dt_microsecond b)))"

definition in_window :: "pydatetime \<Rightarrow> nat \<Rightarrow> nat \<Rightarrow> nat \<Rightarrow> nat \<Rightarrow> bool" where
  "in_window now open_hour open_minute close_hour close_minute =
     (if weekday (dt_date now) \<in> WEEKEND_DAYS then False
      else (let open_dt = now\<lparr>dt_hour := open_hour, dt_minute := open_minute, dt_second := 0, dt_microsecond := 0\<rparr>;
                close_dt = now\<lparr>dt_hour := close_hour, dt_minute := close_minute, dt_second := 0, dt_microsecond := 0\<rparr>
            in dt_le open_dt now \<and> dt_le now close_dt))"

definition MARKET_OPEN_HOUR :: nat where "MARKET_OPEN_HOUR = 8"
definition MARKET_OPEN_MINUTE :: nat where "MARKET_OPEN_MINUTE = 45"
definition MARKET_CLOSE_HOUR :: nat where "MARKET_CLOSE_HOUR = 12"
definition MARKET_CLOSE_MINUTE :: nat where "MARKET_CLOSE_MINUTE = 30"
definition CODAL_OPEN_HOUR :: nat where "CODAL_OPEN_HOUR = 8"
definition CODAL_OPEN_MINUTE :: nat where "CODAL_OPEN_MINUTE = 0"
definition CODAL_CLOSE_HOUR :: nat where "CODAL_CLOSE_HOUR = 18"
definition CODAL_CLOSE_MINUTE :: nat where "CODAL_CLOSE_MINUTE = 0"

definition is_tehran_market_open :: "py_error + pydatetime \<Rightarrow> bool" where
  \<comment> \<open>of the clock reading, which raises when the time zone cannot be found\<close>
  "is_tehran_market_open clock =
     (case clock of
        Inl _ \<Rightarrow> True
      | Inr now \<Rightarrow> in_window now MARKET_OPEN_HOUR MARKET_OPEN_MINUTE MARKET_CLOSE_HOUR MARKET_CLOSE_MINUTE)"

definition is_tehran_codal_window :: "py_error + pydatetime \<Rightarrow> bool" where
  "is_tehran_codal_window clock =
     (case clock of
        Inl _ \<Rightarrow> True
      | Inr now \<Rightarrow> in_window now CODAL_OPEN_HOUR CODAL_OPEN_MINUTE CODAL_CLOSE_HOUR CODAL_CLOSE_MINUTE)"

subsection \<open>The loops\<close>

lemma next_from_spec:
  "is_date d \<Longrightarrow>
     (case next_from cal d of
        Inr t \<Rightarrow> d \<le> t \<and> is_date t \<and> is_trading_day cal t \<and> (\<forall>x. d \<le> x \<and> x < t \<longrightarrow> \<not> is_trading_day cal x)
      | Inl e \<Rightarrow> e = OverflowError \<and> (\<forall>x. d \<le> x \<and> x \<le> MAX_DATE \<longrightarrow> \<not> is_trading_day cal x))"
proof (induction cal d rule: next_from.induct)
  case (1 cal d)
  show ?case
  proof (cases "is_trading_day cal d")
    case True then show ?thesis using 1 by (auto simp: next_from.simps [of cal d])
  next
    case nt: False
    show ?thesis
    proof (cases "is_date (d + 1)")
      case True
      then have p: "plus_days d 1 = Inr (d + 1)" by (simp add: plus_days_def)
      have split: "x = d \<or> d + 1 \<le> x" if "d \<le> x" for x using that by auto
      show ?thesis
        using 1(1) [OF nt p True] nt split by (subst next_from.simps) (force simp: p split: sum.splits)
    next
      case False
      then have "plus_days d 1 = Inl OverflowError" "d = MAX_DATE" using 1(2) by (auto simp: plus_days_def is_date_def)
      then show ?thesis using nt by (subst next_from.simps) auto
    qed
  qed
qed

lemma previous_from_spec:
  "is_date d \<Longrightarrow>
     (case previous_from cal d of
        Inr t \<Rightarrow> t \<le> d \<and> is_date t \<and> is_trading_day cal t \<and> (\<forall>x. t < x \<and> x \<le> d \<longrightarrow> \<not> is_trading_day cal x)
      | Inl e \<Rightarrow> e = OverflowError \<and> (\<forall>x. 1 \<le> x \<and> x \<le> d \<longrightarrow> \<not> is_trading_day cal x))"
proof (induction cal d rule: previous_from.induct)
  case (1 cal d)
  show ?case
  proof (cases "is_trading_day cal d")
    case True then show ?thesis using 1 by (auto simp: previous_from.simps [of cal d])
  next
    case nt: False
    show ?thesis
    proof (cases "is_date (d - 1)")
      case True
      then have p: "plus_days d (- 1) = Inr (d - 1)" by (simp add: plus_days_def)
      have split: "x = d \<or> x \<le> d - 1" if "x \<le> d" for x using that by auto
      show ?thesis
        using 1(1) [OF nt p True] nt split by (subst previous_from.simps) (force simp: p split: sum.splits)
    next
      case False
      then have "plus_days d (- 1) = Inl OverflowError" "d = 1" using 1(2) by (auto simp: plus_days_def is_date_def)
      then show ?thesis using nt by (subst previous_from.simps) auto
    qed
  qed
qed

lemma list_from_spec:
  assumes "is_date d" "is_date e"
  shows "list_from cal d e days =
    (if d \<le> e \<and> e = MAX_DATE then Inl OverflowError else Inr (days @ filter (is_trading_day cal) [d..e]))"
  using assms
proof (induction cal d e days rule: list_from.induct)
  case (1 cal d e days)
  show ?case
  proof (cases "d \<le> e")
    case False then show ?thesis by (simp add: list_from.simps [of cal d])
  next
    case le: True
    show ?thesis
    proof (cases "d = MAX_DATE")
      case True
      then show ?thesis using le 1(3) by (subst list_from.simps) (auto simp: plus_days_def is_date_def Let_def)
    next
      case False
      then have d: "is_date (d + 1)" using 1(2) by (auto simp: is_date_def)
      then have p: "plus_days d 1 = Inr (d + 1)" by (simp add: plus_days_def)
      have "[d..e] = d # [d + 1..e]" using le by (simp add: upto_rec1)
      moreover have "d + 1 \<le> e \<and> e = MAX_DATE \<longleftrightarrow> d \<le> e \<and> e = MAX_DATE" using False le by auto
      ultimately show ?thesis
        using 1(1) [OF le refl p d 1(3)] le by (subst list_from.simps) (auto simp: p Let_def)
    qed
  qed
qed

lemma count_from_list: "count_from cal d e (int (length days)) = map_sum id (int \<circ> length) (list_from cal d e days)"
proof (induction cal d e days rule: list_from.induct)
  case (1 cal d e days)
  show ?case
  proof (cases "d \<le> e")
    case False then show ?thesis by (simp add: list_from.simps [of cal d] count_from.simps [of cal d])
  next
    case le: True
    let ?days = "if is_trading_day cal d then days @ [d] else days"
    have n: "(if is_trading_day cal d then int (length days) + 1 else int (length days)) = int (length ?days)" by simp
    show ?thesis
    proof (cases "plus_days d 1")
      case (Inl x)
      then show ?thesis using le by (simp add: list_from.simps [of cal d] count_from.simps [of cal d] Let_def)
    next
      case (Inr d')
      have "count_from cal d e (int (length days)) = count_from cal d' e (int (length ?days))"
        using le Inr by (subst count_from.simps) (simp only: n Let_def if_True sum.case)
      moreover have "list_from cal d e days = list_from cal d' e ?days"
        using le Inr by (subst list_from.simps) (simp only: Let_def if_True sum.case)
      ultimately show ?thesis using 1 [OF le refl Inr] by simp
    qed
  qed
qed


subsection \<open>Trading days\<close>

definition trading_days :: "trading_calendar \<Rightarrow> pydate \<Rightarrow> pydate \<Rightarrow> pydate set" where
  \<comment> \<open>the trading days from one date to another, both included\<close>
  "trading_days cal a b = {d. a \<le> d \<and> d \<le> b \<and> is_trading_day cal d}"

lemma trading_days_code: "trading_days cal a b = set (filter (is_trading_day cal) [a..b])"
  by (auto simp: trading_days_def)

lemma finite_trading_days [simp]: "finite (trading_days cal a b)"
  unfolding trading_days_code by (rule finite_set)

lemma card_trading_days: "card (trading_days cal a b) = length (filter (is_trading_day cal) [a..b])"
  unfolding trading_days_code by (rule distinct_card) simp

lemma list_of_trading_days:
  "is_date a \<Longrightarrow> is_date b \<Longrightarrow> get_trading_days_list cal a b =
     (if a \<le> b \<and> b = MAX_DATE then Inl OverflowError else Inr (filter (is_trading_day cal) [a..b]))"
  by (simp add: get_trading_days_list_def list_from_spec)

lemma between_counts:
  "is_date a \<Longrightarrow> is_date b \<Longrightarrow> trading_days_between cal a b =
     (if max a b = MAX_DATE then Inl OverflowError else Inr (int (card (trading_days cal (min a b) (max a b)))))"
  using count_from_list [of cal "min a b" "max a b" "[]"] list_from_spec [of "min a b" "max a b" cal "[]"]
  by (auto simp: trading_days_between_def card_trading_days min_def max_def)

lemma next_trading_day_iff:
  assumes d: "is_date d"
  shows "next_trading_day cal d = Inr t \<longleftrightarrow>
      d < t \<and> is_date t \<and> is_trading_day cal t \<and> trading_days cal (d + 1) (t - 1) = {}" (is "?l \<longleftrightarrow> ?r")
    and "next_trading_day cal d = Inl x \<longleftrightarrow> x = OverflowError \<and> trading_days cal (d + 1) MAX_DATE = {}"
proof -
  have spec: "case next_trading_day cal d of
      Inr t \<Rightarrow> d < t \<and> is_date t \<and> is_trading_day cal t \<and> (\<forall>x. d < x \<and> x < t \<longrightarrow> \<not> is_trading_day cal x)
    | Inl e \<Rightarrow> e = OverflowError \<and> (\<forall>x. d < x \<and> x \<le> MAX_DATE \<longrightarrow> \<not> is_trading_day cal x)"
  proof (cases "is_date (d + 1)")
    case True
    then show ?thesis using next_from_spec [OF True, of cal]
      by (auto simp: next_trading_day_def plus_days_def split: sum.splits)
  next
    case False
    then show ?thesis using d by (auto simp: next_trading_day_def plus_days_def is_date_def)
  qed
  have eq: "u = t" if "d < u \<and> is_date u \<and> is_trading_day cal u \<and> (\<forall>x. d < x \<and> x < u \<longrightarrow> \<not> is_trading_day cal x)"
    "d < t \<and> is_date t \<and> is_trading_day cal t \<and> (\<forall>x. d < x \<and> x < t \<longrightarrow> \<not> is_trading_day cal x)" for u
    using that by (metis linorder_less_linear)
  have r: "?r \<longleftrightarrow> d < t \<and> is_date t \<and> is_trading_day cal t \<and> (\<forall>x. d < x \<and> x < t \<longrightarrow> \<not> is_trading_day cal x)"
    by (auto simp: trading_days_def zless_imp_add1_zle)
  show "?l \<longleftrightarrow> ?r" unfolding r
  proof (cases "next_trading_day cal d")
    case (Inl e)
    then show "?l \<longleftrightarrow> d < t \<and> is_date t \<and> is_trading_day cal t \<and> (\<forall>x. d < x \<and> x < t \<longrightarrow> \<not> is_trading_day cal x)"
      using spec by (auto simp: is_date_def)
  next
    case (Inr u)
    then show "?l \<longleftrightarrow> d < t \<and> is_date t \<and> is_trading_day cal t \<and> (\<forall>x. d < x \<and> x < t \<longrightarrow> \<not> is_trading_day cal x)"
      using spec eq [of u] unfolding Inr sum.case sum.inject(2) by (metis (no_types, lifting))
  qed
  have "trading_days cal (d + 1) MAX_DATE = {} \<longleftrightarrow> (\<forall>x. d < x \<and> x \<le> MAX_DATE \<longrightarrow> \<not> is_trading_day cal x)"
    by (auto simp: trading_days_def zless_imp_add1_zle)
  then show "next_trading_day cal d = Inl x \<longleftrightarrow> x = OverflowError \<and> trading_days cal (d + 1) MAX_DATE = {}"
    using spec by (cases "next_trading_day cal d") (auto simp: is_date_def)
qed

lemma previous_trading_day_iff:
  assumes d: "is_date d"
  shows "previous_trading_day cal d = Inr t \<longleftrightarrow>
      t < d \<and> is_date t \<and> is_trading_day cal t \<and> trading_days cal (t + 1) (d - 1) = {}" (is "?l \<longleftrightarrow> ?r")
proof -
  have spec: "case previous_trading_day cal d of
      Inr t \<Rightarrow> t < d \<and> is_date t \<and> is_trading_day cal t \<and> (\<forall>x. t < x \<and> x < d \<longrightarrow> \<not> is_trading_day cal x)
    | Inl e \<Rightarrow> e = OverflowError \<and> (\<forall>x. 1 \<le> x \<and> x < d \<longrightarrow> \<not> is_trading_day cal x)"
  proof (cases "is_date (d - 1)")
    case True
    then show ?thesis using previous_from_spec [OF True, of cal]
      by (auto simp: previous_trading_day_def plus_days_def split: sum.splits)
  next
    case False
    then show ?thesis using d by (auto simp: previous_trading_day_def plus_days_def is_date_def)
  qed
  have eq: "u = t" if "u < d \<and> is_date u \<and> is_trading_day cal u \<and> (\<forall>x. u < x \<and> x < d \<longrightarrow> \<not> is_trading_day cal x)"
    "t < d \<and> is_date t \<and> is_trading_day cal t \<and> (\<forall>x. t < x \<and> x < d \<longrightarrow> \<not> is_trading_day cal x)" for u
    using that by (metis linorder_less_linear)
  have r: "?r \<longleftrightarrow> t < d \<and> is_date t \<and> is_trading_day cal t \<and> (\<forall>x. t < x \<and> x < d \<longrightarrow> \<not> is_trading_day cal x)"
    by (auto simp: trading_days_def zless_imp_add1_zle)
  show "?l \<longleftrightarrow> ?r" unfolding r
  proof (cases "previous_trading_day cal d")
    case (Inl e)
    then show "?l \<longleftrightarrow> t < d \<and> is_date t \<and> is_trading_day cal t \<and> (\<forall>x. t < x \<and> x < d \<longrightarrow> \<not> is_trading_day cal x)"
      using spec by (auto simp: is_date_def)
  next
    case (Inr u)
    then show "?l \<longleftrightarrow> t < d \<and> is_date t \<and> is_trading_day cal t \<and> (\<forall>x. t < x \<and> x < d \<longrightarrow> \<not> is_trading_day cal x)"
      using spec eq [of u] unfolding Inr sum.case sum.inject(2) by (metis (no_types, lifting))
  qed
qed

lemma adjust_expiry_iff:
  assumes d: "is_date d"
  shows "adjust_expiry cal d = Inr t \<longleftrightarrow>
    t \<le> d \<and> is_date t \<and> is_trading_day cal t \<and> trading_days cal (t + 1) d = {}"
proof (cases "is_trading_day cal d")
  case True
  then have "trading_days cal (t + 1) d = {} \<Longrightarrow> t \<le> d \<Longrightarrow> t = d" by (auto simp: trading_days_def)
  moreover have "trading_days cal (d + 1) d = {}" by (auto simp: trading_days_def)
  ultimately show ?thesis using True d by (auto simp: adjust_expiry_def)
next
  case False
  have "x \<le> d \<and> is_trading_day cal x \<longleftrightarrow> x \<le> d - 1 \<and> is_trading_day cal x" for x using False by (cases "x = d") auto
  then have "trading_days cal (t + 1) d = trading_days cal (t + 1) (d - 1)" by (auto simp: trading_days_def)
  moreover have "is_trading_day cal t \<Longrightarrow> t \<le> d \<longleftrightarrow> t < d" using False by (cases "t = d") auto
  ultimately show ?thesis using False previous_trading_day_iff [OF d, of cal t] by (auto simp: adjust_expiry_def)
qed

text \<open>
  The calendar's searches are exact: the next and the previous trading day are the nearest ones, an
  expiry moves to the last trading day not after it and stays there when adjusted again, the list of
  trading days is the ascending list of them and the count their number, in either order of the dates; an
  error is only the end of the representable dates, reached when no trading day is left or when a range ends on it.
\<close>
theorem calendar_searches_exact:
  assumes d: "is_date d" and e: "is_date e"
  shows "(next_trading_day cal d = Inr t \<longleftrightarrow>
        d < t \<and> is_date t \<and> is_trading_day cal t \<and> trading_days cal (d + 1) (t - 1) = {}) \<and>
      (next_trading_day cal d = Inl OverflowError \<longleftrightarrow> trading_days cal (d + 1) MAX_DATE = {}) \<and>
      (previous_trading_day cal d = Inr t \<longleftrightarrow>
        t < d \<and> is_date t \<and> is_trading_day cal t \<and> trading_days cal (t + 1) (d - 1) = {}) \<and>
      (adjust_expiry cal d = Inr t \<longleftrightarrow>
        t \<le> d \<and> is_date t \<and> is_trading_day cal t \<and> trading_days cal (t + 1) d = {}) \<and>
      (adjust_expiry cal d = Inr t \<longrightarrow> adjust_expiry cal t = Inr t) \<and>
      trading_days_between cal d e =
        (if max d e = MAX_DATE then Inl OverflowError else Inr (int (card (trading_days cal (min d e) (max d e))))) \<and>
      (max d e < MAX_DATE \<longrightarrow>
        (\<exists>ds. get_trading_days_list cal d e = Inr ds \<and> sorted_wrt (<) ds \<and> set ds = trading_days cal d e))"
proof -
  have idem: "adjust_expiry cal d = Inr t \<longrightarrow> adjust_expiry cal t = Inr t"
    using adjust_expiry_iff [OF d, of cal t] by (auto simp: adjust_expiry_def)
  have "sorted_wrt (<) (filter (is_trading_day cal) [d..e])" by (simp add: sorted_wrt_filter)
  then have listed: "max d e < MAX_DATE \<longrightarrow>
      (\<exists>ds. get_trading_days_list cal d e = Inr ds \<and> sorted_wrt (<) ds \<and> set ds = trading_days cal d e)"
    using list_of_trading_days [OF d e, of cal] by (simp add: trading_days_code)
  have over: "next_trading_day cal d = Inl OverflowError \<longleftrightarrow> trading_days cal (d + 1) MAX_DATE = {}"
    using next_trading_day_iff(2) [OF d, of cal OverflowError] by simp
  show ?thesis
    by (intro conjI next_trading_day_iff(1) [OF d] over previous_trading_day_iff [OF d] adjust_expiry_iff [OF d] idem
        between_counts [OF d e] listed)
qed

theorem calendar_searches_exact_witness:
  "adjust_expiry (trading_calendar_init None None) (py_date 2024 7 16) = Inr (py_date 2024 7 14)"
proof -
  let ?cal = "trading_calendar_init None None"
  have d: "is_date (py_date 2024 7 16)" by code_simp
  have "is_date (py_date 2024 7 14) \<and> is_trading_day ?cal (py_date 2024 7 14) \<and> py_date 2024 7 14 \<le> py_date 2024 7 16" by code_simp
  moreover have "filter (is_trading_day ?cal) [py_date 2024 7 14 + 1..py_date 2024 7 16] = []" by code_simp
  ultimately show ?thesis
    using calendar_searches_exact [OF d d, of ?cal "py_date 2024 7 14"] by (simp add: trading_days_code)
qed

lemma between_symmetric: "trading_days_between cal a b = trading_days_between cal b a"
  by (auto simp: trading_days_between_def)

lemma expired_option_counts_up:
  \<comment> \<open>the days to an expiry that has passed are counted as if it lay ahead\<close>
  "days_to_expiry cal (d + n) d = days_to_expiry cal d (d + n)"
  by (simp add: days_to_expiry_def between_symmetric)

lemma between_splits:
  assumes "is_date a" "is_date c" "c < MAX_DATE" "a \<le> b" "b < c"
  shows "\<exists>m n. trading_days_between cal a b = Inr m \<and> trading_days_between cal (b + 1) c = Inr n \<and>
    trading_days_between cal a c = Inr (m + n)"
proof -
  have dates: "is_date b" "is_date (b + 1)" using assms by (auto simp: is_date_def)
  have u: "trading_days cal a c = trading_days cal a b \<union> trading_days cal (b + 1) c"
    using assms by (auto simp: trading_days_def)
  have "trading_days cal a b \<inter> trading_days cal (b + 1) c = {}" by (auto simp: trading_days_def)
  then have "card (trading_days cal a c) = card (trading_days cal a b) + card (trading_days cal (b + 1) c)"
    unfolding u by (intro card_Un_disjoint) auto
  then show ?thesis using between_counts [of a b cal] between_counts [of "b + 1" c cal] between_counts [of a c cal] assms dates by simp
qed

subsection \<open>Comparing times as strings\<close>

lemma str_le_two_digits:
  assumes "m < 100" "n < 100"
  shows "str_le (two_digits m @ xs) (two_digits n @ ys) \<longleftrightarrow> m < n \<or> m = n \<and> str_le xs ys"
proof -
  have d: "m div 10 < 10" "n div 10 < 10" "m mod 10 < 10" "n mod 10 < 10" using assms by auto
  have m: "m = 10 * (m div 10) + m mod 10" and n: "n = 10 * (n div 10) + n mod 10" by simp_all
  have "m < n \<longleftrightarrow> m div 10 < n div 10 \<or> m div 10 = n div 10 \<and> m mod 10 < n mod 10"
    using d m n by linarith
  moreover have "m = n \<longleftrightarrow> m div 10 = n div 10 \<and> m mod 10 = n mod 10" using m n by metis
  ultimately show ?thesis using d by (simp add: two_digits_def digit_eq)
qed

text \<open>
  Comparing times as text, as the calendar does, is comparing them as times: for two-digit fields
  the order of the strings is the order of the minutes since midnight.
\<close>
lemma hh_mm_order:
  "h < 100 \<Longrightarrow> m < 60 \<Longrightarrow> h' < 100 \<Longrightarrow> m' < 60 \<Longrightarrow> str_le (hh_mm h m) (hh_mm h' m') \<longleftrightarrow> 60 * h + m \<le> 60 * h' + m'"
  using str_le_two_digits [of h h' "'':'' @ two_digits m" "'':'' @ two_digits m'"]
    str_le_two_digits [of m m' "[]" "[]"]
  by (auto simp: hh_mm_def)

lemma hour_texts: "hh_mm 9 0 = ''09:00''" "hh_mm 10 0 = ''10:00''" "hh_mm 12 30 = ''12:30''" "hh_mm 15 0 = ''15:00''"
  by code_simp+

lemma market_times:
  "market_open_time market = hh_mm (if market = ''ime'' then 10 else 9) 0"
  "market_close_time market = (if market = ''ime'' then hh_mm 15 0 else hh_mm 12 30)"
  by (simp_all add: market_open_time_def market_close_time_def dict_get_or_def hour_texts)

text \<open>
  The market is open exactly on a trading day from the minute of the opening to the end of the minute
  of the close, on the exchange's own hours, although the code compares the times as text; the job window is open
  exactly on a weekday from 8:45 to 12:30 to the microsecond, or when the clock cannot be read.
\<close>
theorem market_hours_exact:
  assumes "dt_hour now < 24" and "dt_minute now < 60"
  shows "(is_market_open_now cal now market \<longleftrightarrow>
      is_trading_day cal (dt_date now) \<and>
      (let t = 60 * dt_hour now + dt_minute now
       in if market = ''ime'' then 600 \<le> t \<and> t \<le> 900 else 540 \<le> t \<and> t \<le> 750)) \<and>
    (is_tehran_market_open (Inr now) \<longleftrightarrow>
      weekday (dt_date now) \<notin> {3, 4} \<and> 525 \<le> 60 * dt_hour now + dt_minute now \<and>
      (60 * dt_hour now + dt_minute now < 750 \<or>
       60 * dt_hour now + dt_minute now = 750 \<and> dt_second now = 0 \<and> dt_microsecond now = 0)) \<and>
    is_tehran_market_open (Inl e)"
proof -
  have open1: "is_market_open_now cal now market \<longleftrightarrow>
      is_trading_day cal (dt_date now) \<and>
      (let t = 60 * dt_hour now + dt_minute now
       in if market = ''ime'' then 600 \<le> t \<and> t \<le> 900 else 540 \<le> t \<and> t \<le> 750)"
    using assms by (simp add: is_market_open_now_def market_times hh_mm_order Let_def)
  have after_open: "dt_le (now\<lparr>dt_hour := 8, dt_minute := 45, dt_second := 0, dt_microsecond := 0\<rparr>) now \<longleftrightarrow>
      525 \<le> 60 * dt_hour now + dt_minute now"
    using assms(2) by (auto simp: dt_le_def)
  have before_close: "dt_le now (now\<lparr>dt_hour := 12, dt_minute := 30, dt_second := 0, dt_microsecond := 0\<rparr>) \<longleftrightarrow>
      60 * dt_hour now + dt_minute now < 750 \<or>
      60 * dt_hour now + dt_minute now = 750 \<and> dt_second now = 0 \<and> dt_microsecond now = 0"
    using assms(2) by (auto simp: dt_le_def)
  show ?thesis
    using open1 after_open before_close
    by (simp add: is_tehran_market_open_def in_window_def WEEKEND_DAYS_def MARKET_OPEN_HOUR_def MARKET_OPEN_MINUTE_def
        MARKET_CLOSE_HOUR_def MARKET_CLOSE_MINUTE_def Let_def)
qed

theorem market_hours_exact_witness:
  "is_market_open_now (trading_calendar_init None None)
     \<lparr>dt_date = py_date 2024 7 14, dt_hour = 12, dt_minute = 30, dt_second = 59, dt_microsecond = 0\<rparr> ''tse'' \<and>
   \<not> is_tehran_market_open
     (Inr \<lparr>dt_date = py_date 2024 7 14, dt_hour = 12, dt_minute = 30, dt_second = 59, dt_microsecond = 0\<rparr>)"
proof -
  let ?now = "\<lparr>dt_date = py_date 2024 7 14, dt_hour = 12, dt_minute = 30, dt_second = 59, dt_microsecond = 0\<rparr>"
  have t: "is_trading_day (trading_calendar_init None None) (py_date 2024 7 14)" by code_simp
  show ?thesis
    using market_hours_exact [of ?now "trading_calendar_init None None" "''tse''"] t by simp
qed

lemma thursday_closed_everywhere:
  \<comment> \<open>on Thursday no market is open, the commodity exchange included\<close>
  "weekday (dt_date now) = 3 \<Longrightarrow> \<not> is_market_open_now cal now market"
  by (simp add: is_market_open_now_def is_trading_day_def)

end
