(* ===== verification/Api_Limiter.thy ===== *)
theory Api_Limiter
  imports Rate_Limit
begin

text \<open>
  The limiter in front of the market data API (\<open>brsapi/rate_limiter.py\<close>): a daily budget, a sliding window of five
  minutes and a token bucket per category. The lock is never held across an \<open>await\<close>, so on the single-threaded event
  loop it is never contended and taking it never yields: what \<open>acquire\<close> does between two sleeps is one step.
  \<open>acquire_enter\<close> is the step at the start and after every sleep of the first loop, \<open>acquire_resume\<close> the
  one after the sleep for the bucket and after every sleep of the second loop. The clock readings of a step
  are its argument, one for each call of the code. A day is its ordinal, in place of the text of the date.
\<close>

subsection \<open>State\<close>

record api_bucket =
  ab_key :: string
  max_tokens :: pyfloat
  refill_rate :: pyfloat
  ab_tokens :: pyfloat
  ab_last_refill :: pytime

definition bucket_new :: "pytime \<Rightarrow> string \<Rightarrow> pyfloat \<Rightarrow> pyfloat \<Rightarrow> api_bucket" where
  "bucket_new now key mx rate = \<lparr>ab_key = key, max_tokens = mx, refill_rate = rate, ab_tokens = mx, ab_last_refill = now\<rparr>"

definition bucket_refill :: "pytime \<Rightarrow> api_bucket \<Rightarrow> api_bucket" where
  "bucket_refill now b =
     (let elapsed = now - ab_last_refill b
      in b\<lparr>ab_tokens := min (max_tokens b) (ab_tokens b + elapsed * refill_rate b), ab_last_refill := now\<rparr>)"

definition DEFAULT_GLOBAL_DAILY_LIMIT :: int where "DEFAULT_GLOBAL_DAILY_LIMIT = 4000"
definition DEFAULT_GLOBAL_5MIN_LIMIT :: int where "DEFAULT_GLOBAL_5MIN_LIMIT = 1000"
definition FIVE_MINUTES_SECONDS :: pyfloat where "FIVE_MINUTES_SECONDS = 300"
definition NOTIFY_THRESHOLDS :: "int list" where "NOTIFY_THRESHOLDS = [80, 90, 95, 100]"

record api_limiter =
  al_fail_fast :: bool
  al_buckets :: "(string, api_bucket) pydict"
  default_refill_rate :: pyfloat
  daily_limit :: int
  five_min_limit :: int
  daily_count :: int
  daily_date :: "int option" \<comment> \<open>None: the empty text before the first request\<close>
  five_min_window :: "pytime list"
  notified :: "int list"
  alerts :: "(int \<times> int) list" \<comment> \<open>the notifications scheduled: threshold and count\<close>
  endpoint_counts :: "(string, int) pydict"

definition api_limiter_init :: "int \<Rightarrow> int \<Rightarrow> bool \<Rightarrow> api_limiter" where
  "api_limiter_init daily five_min fail_fast =
     \<lparr>al_fail_fast = fail_fast, al_buckets = [], default_refill_rate = 1 / 2, daily_limit = daily, five_min_limit = five_min,
      daily_count = 0, daily_date = None, five_min_window = [], notified = [], alerts = [], endpoint_counts = []\<rparr>"

subsection \<open>Global limits\<close>

definition notify_threshold :: "int \<Rightarrow> api_limiter \<Rightarrow> api_limiter" where
  "notify_threshold threshold s =
     (if of_int (daily_count s) / of_int (daily_limit s) * 100 \<ge> (of_int threshold :: pyfloat) \<and> threshold \<notin> set (notified s)
      then s\<lparr>notified := notified s @ [threshold], alerts := alerts s @ [(threshold, daily_count s)]\<rparr> else s)"

definition check_daily_thresholds :: "api_limiter \<Rightarrow> api_limiter" where
  "check_daily_thresholds s =
     (if daily_limit s \<le> 0 then s else fold notify_threshold (sort NOTIFY_THRESHOLDS) s)"

definition reset_daily_if_needed :: "int \<Rightarrow> api_limiter \<Rightarrow> api_limiter" where
  "reset_daily_if_needed today s =
     (if Some today \<noteq> daily_date s then s\<lparr>daily_count := 0, daily_date := Some today, notified := []\<rparr> else s)"

definition prune_5min_window :: "pytime \<Rightarrow> api_limiter \<Rightarrow> api_limiter" where
  "prune_5min_window now s =
     s\<lparr>five_min_window := dropWhile (\<lambda>t. t \<le> now - FIVE_MINUTES_SECONDS) (five_min_window s)\<rparr>"

definition wait_time_for_global_limits :: "pytime \<Rightarrow> pyfloat \<Rightarrow> api_limiter \<Rightarrow> (py_error + pyfloat) \<times> api_limiter" where
  \<comment> \<open>\<open>to_midnight\<close>: the seconds to the next midnight in Tehran\<close>
  "wait_time_for_global_limits now to_midnight s0 =
     (let s = prune_5min_window now s0
      in if daily_count s \<ge> daily_limit s then (Inr (max to_midnight 1), s)
         else if int (length (five_min_window s)) \<ge> five_min_limit s then
           (case five_min_window s of
              [] \<Rightarrow> (Inl IndexError, s)
            | oldest # _ \<Rightarrow>
                (let wait = oldest + FIVE_MINUTES_SECONDS - now
                 in if wait > 0 then (Inr wait, s) else (Inr 0, s)))
         else (Inr 0, s))"

definition record_request :: "int \<Rightarrow> pytime \<Rightarrow> string \<Rightarrow> api_limiter \<Rightarrow> api_limiter" where
  "record_request today now endpoint s0 =
     (let s1 = reset_daily_if_needed today s0;
          s2 = s1\<lparr>daily_count := daily_count s1 + 1\<rparr>;
          s3 = s2\<lparr>five_min_window := five_min_window s2 @ [now]\<rparr>;
          s4 = (if endpoint \<noteq> ''''
                then s3\<lparr>endpoint_counts := dict_set endpoint (dict_get_or (endpoint_counts s3) endpoint 0 + 1) (endpoint_counts s3)\<rparr>
                else s3)
      in check_daily_thresholds s4)"

subsection \<open>The public interface\<close>

definition configure :: "pytime \<Rightarrow> string \<Rightarrow> int \<Rightarrow> api_limiter \<Rightarrow> api_limiter" where
  "configure now key requests_per_minute s =
     (case dict_get (al_buckets s) key of
        Some bucket \<Rightarrow>
          s\<lparr>al_buckets := dict_set key ((bucket_refill now bucket)
              \<lparr>max_tokens := of_int requests_per_minute, refill_rate := of_int requests_per_minute / 60\<rparr>) (al_buckets s)\<rparr>
      | None \<Rightarrow>
          s\<lparr>al_buckets := dict_set key (bucket_new now key (of_int requests_per_minute) (of_int requests_per_minute / 60)) (al_buckets s)\<rparr>)"

record readings =
  \<comment> \<open>what the clocks say during one step, in the order of the code\<close>
  rd_today :: int
  rd_check :: pytime
  rd_to_midnight :: pyfloat
  rd_bucket :: pytime
  rd_refill :: pytime
  rd_record_day :: int
  rd_record :: pytime

datatype acquire_outcome =
    Granted
  | Rejected \<comment> \<open>\<open>RateLimitExhaustedError\<close>\<close>
  | Sleep pyfloat \<comment> \<open>in the loop over the global limits\<close>
  | WaitBucket pyfloat \<comment> \<open>for the category's bucket\<close>
  | Failed py_error

definition check_global :: "readings \<Rightarrow> bool \<Rightarrow> api_limiter \<Rightarrow> acquire_outcome option \<times> api_limiter" where
  \<comment> \<open>one pass of the loop; \<open>None\<close>: the limits leave room\<close>
  "check_global rd fail_fast s0 =
     (let s1 = reset_daily_if_needed (rd_today rd) s0
      in if fail_fast \<and> daily_count s1 \<ge> daily_limit s1 then (Some Rejected, s1)
         else (case wait_time_for_global_limits (rd_check rd) (rd_to_midnight rd) s1 of
                 (Inl e, s2) \<Rightarrow> (Some (Failed e), s2)
               | (Inr wait, s2) \<Rightarrow> (if wait \<le> 0 then (None, s2) else (Some (Sleep (min wait 10)), s2))))"

definition ensure_bucket :: "readings \<Rightarrow> string \<Rightarrow> api_limiter \<Rightarrow> api_limiter" where
  "ensure_bucket rd key s =
     (case dict_get (al_buckets s) key of
        Some _ \<Rightarrow> s
      | None \<Rightarrow> configure (rd_bucket rd) key (py_int (default_refill_rate s * 60)) s)"

definition take_tokens :: "readings \<Rightarrow> string \<Rightarrow> int \<Rightarrow> string \<Rightarrow> api_limiter \<Rightarrow> acquire_outcome \<times> api_limiter" where
  "take_tokens rd key tokens endpoint s0 =
     (let s1 = ensure_bucket rd key s0
      in case dict_get (al_buckets s1) key of
           None \<Rightarrow> (Failed KeyError, s1)
         | Some b0 \<Rightarrow>
             (let b = bucket_refill (rd_refill rd) b0;
                  s2 = s1\<lparr>al_buckets := dict_set key b (al_buckets s1)\<rparr>
              in if max_tokens b \<le> 0 then (Granted, record_request (rd_record_day rd) (rd_record rd) endpoint s2)
                 else if ab_tokens b \<ge> of_int tokens then
                   (Granted, record_request (rd_record_day rd) (rd_record rd) endpoint
                      (s2\<lparr>al_buckets := dict_set key (b\<lparr>ab_tokens := ab_tokens b - of_int tokens\<rparr>) (al_buckets s2)\<rparr>))
                 else (WaitBucket ((of_int tokens - ab_tokens b) / refill_rate b), s2)))"

definition acquire_enter ::
    "readings \<Rightarrow> string \<Rightarrow> int \<Rightarrow> string \<Rightarrow> bool option \<Rightarrow> api_limiter \<Rightarrow> acquire_outcome \<times> api_limiter" where
  "acquire_enter rd key tokens endpoint fail_fast s0 =
     (let ff = (case fail_fast of None \<Rightarrow> al_fail_fast s0 | Some b \<Rightarrow> b)
      in case check_global rd ff s0 of
           (Some out, s1) \<Rightarrow> (out, s1)
         | (None, s1) \<Rightarrow> take_tokens rd key tokens endpoint s1)"

definition consume_bucket :: "readings \<Rightarrow> string \<Rightarrow> int \<Rightarrow> api_limiter \<Rightarrow> api_limiter" where
  "consume_bucket rd key tokens s =
     (case dict_get (al_buckets s) key of
        None \<Rightarrow> s
      | Some b0 \<Rightarrow>
          (let b = bucket_refill (rd_refill rd) b0
           in s\<lparr>al_buckets := dict_set key (b\<lparr>ab_tokens := max 0 (ab_tokens b - of_int tokens)\<rparr>) (al_buckets s)\<rparr>))"

definition acquire_resume ::
    "readings \<Rightarrow> string \<Rightarrow> int \<Rightarrow> string \<Rightarrow> bool option \<Rightarrow> api_limiter \<Rightarrow> acquire_outcome \<times> api_limiter" where
  "acquire_resume rd key tokens endpoint fail_fast s0 =
     (let ff = (case fail_fast of None \<Rightarrow> al_fail_fast s0 | Some b \<Rightarrow> b)
      in case check_global rd ff s0 of
           (Some out, s1) \<Rightarrow> (out, s1)
         | (None, s1) \<Rightarrow> (Granted, record_request (rd_record_day rd) (rd_record rd) endpoint (consume_bucket rd key tokens s1)))"

record limiter_status =
  st_daily_count :: int
  st_daily_limit :: int
  st_daily_remaining :: int
  st_daily_used_pct :: pyfloat
  st_5min_count :: int
  st_5min_limit :: int
  st_5min_remaining :: int
  st_5min_used_pct :: pyfloat
  st_per_endpoint :: "(string \<times> int) list"
  st_per_category :: "(string \<times> (pyfloat \<times> pyfloat \<times> pyfloat)) list"

definition round_to :: "nat \<Rightarrow> pyfloat \<Rightarrow> pyfloat" where
  \<comment> \<open>\<open>round(x, n)\<close>\<close>
  "round_to n x = of_int (py_round (x * 10 ^ n)) / 10 ^ n"

definition get_bucket_status :: "string \<Rightarrow> api_limiter \<Rightarrow> (pyfloat \<times> pyfloat \<times> pyfloat) option" where
  \<comment> \<open>the size, the tokens and the rate\<close>
  "get_bucket_status key s =
     map_option (\<lambda>b. (max_tokens b, round_to 1 (ab_tokens b), round_to 3 (refill_rate b))) (dict_get (al_buckets s) key)"

definition status :: "int \<Rightarrow> pytime \<Rightarrow> api_limiter \<Rightarrow> limiter_status \<times> api_limiter" where
  "status today now s0 =
     (let s = prune_5min_window now (reset_daily_if_needed today s0);
          n = int (length (five_min_window s))
      in (\<lparr>st_daily_count = daily_count s, st_daily_limit = daily_limit s,
           st_daily_remaining = max 0 (daily_limit s - daily_count s),
           st_daily_used_pct = round_to 1 (if daily_limit s \<noteq> 0 then of_int (daily_count s) / of_int (daily_limit s) * 100 else 0),
           st_5min_count = n, st_5min_limit = five_min_limit s,
           st_5min_remaining = max 0 (five_min_limit s - n),
           st_5min_used_pct = round_to 1 (if five_min_limit s \<noteq> 0 then of_int n / of_int (five_min_limit s) * 100 else 0),
           st_per_endpoint = sort_key (\<lambda>(_, n). - n) (endpoint_counts s),
           st_per_category = map (\<lambda>(key, b). (key, (max_tokens b, round_to 1 (ab_tokens b), round_to 3 (refill_rate b)))) (al_buckets s)\<rparr>, s))"

subsection \<open>Histories\<close>

definition in_order :: "int \<Rightarrow> pytime \<Rightarrow> readings \<Rightarrow> bool" where
  \<comment> \<open>the clocks do not run backwards\<close>
  "in_order day now rd \<longleftrightarrow>
     day \<le> rd_today rd \<and> rd_today rd \<le> rd_record_day rd \<and> now \<le> rd_check rd \<and> rd_check rd \<le> rd_refill rd \<and> rd_refill rd \<le> rd_record rd"

record history =
  h_day :: int
  h_now :: pytime
  h_grants :: "(int \<times> pytime) list" \<comment> \<open>day and time of every request let through\<close>

definition after :: "readings \<Rightarrow> acquire_outcome \<Rightarrow> history \<Rightarrow> history" where
  "after rd out h =
     \<lparr>h_day = rd_record_day rd, h_now = rd_record rd,
      h_grants = (if out = Granted then h_grants h @ [(rd_record_day rd, rd_record rd)] else h_grants h)\<rparr>"

inductive limiter_step :: "history \<times> api_limiter \<Rightarrow> history \<times> api_limiter \<Rightarrow> bool" where
  enter: "in_order (h_day h) (h_now h) rd \<Longrightarrow> acquire_enter rd key tokens endpoint ff s = (out, s') \<Longrightarrow>
    limiter_step (h, s) (after rd out h, s')"
| resume: "in_order (h_day h) (h_now h) rd \<Longrightarrow> acquire_resume rd key tokens endpoint ff s = (out, s') \<Longrightarrow>
    limiter_step (h, s) (after rd out h, s')"
| reconfigure: "limiter_step (h, s) (h, configure now key rpm s)"
| look: "h_day h \<le> today \<Longrightarrow> h_now h \<le> now \<Longrightarrow> status today now s = (r, s') \<Longrightarrow>
    limiter_step (h, s) (h\<lparr>h_day := today, h_now := now\<rparr>, s')"


subsection \<open>The invariant\<close>

definition on_day :: "int \<Rightarrow> (int \<times> pytime) list \<Rightarrow> (int \<times> pytime) list" where
  "on_day d grants = filter (\<lambda>g. fst g = d) grants"

definition quota_inv :: "int \<Rightarrow> int \<Rightarrow> history \<Rightarrow> api_limiter \<Rightarrow> bool" where
  "quota_inv D F h s \<longleftrightarrow>
     daily_limit s = D \<and> five_min_limit s = F \<and>
     sorted (five_min_window s) \<and> (\<forall>x\<in>set (five_min_window s). x \<le> h_now h) \<and>
     (\<forall>g\<in>set (h_grants h). snd g \<le> h_now h) \<and>
     (daily_date s = None \<longrightarrow> h_grants h = [] \<and> daily_count s = 0) \<and>
     (\<forall>d. daily_date s = Some d \<longrightarrow>
        d \<le> h_day h \<and> (\<forall>g\<in>set (h_grants h). fst g \<le> d) \<and> daily_count s = int (length (on_day d (h_grants h)))) \<and>
     (\<forall>d. int (length (on_day d (h_grants h))) \<le> D) \<and>
     filter (\<lambda>x. h_now h - 300 < x) (map snd (h_grants h)) = filter (\<lambda>x. h_now h - 300 < x) (five_min_window s) \<and>
     (\<forall>t. int (length (in_window t 300 (map snd (h_grants h)))) \<le> F)"

lemma inv_buckets [simp]: "quota_inv D F h (s\<lparr>al_buckets := b\<rparr>) = quota_inv D F h s"
  by (simp add: quota_inv_def)

lemma inv_later:
  assumes "quota_inv D F h s" "h_day h \<le> day" "h_now h \<le> now"
  shows "quota_inv D F (h\<lparr>h_day := day, h_now := now\<rparr>) s"
proof -
  have "filter (\<lambda>x. now - 300 < x) (map snd (h_grants h)) = filter (\<lambda>x. now - 300 < x) (five_min_window s)"
    by (rule sw.later_log [OF _ assms(3)]) (use assms(1) in \<open>simp add: quota_inv_def\<close>)
  then show ?thesis using assms unfolding quota_inv_def by (auto intro: order_trans)
qed

lemma inv_reset:
  assumes "quota_inv D F h s" "h_day h = today"
  shows "quota_inv D F h (reset_daily_if_needed today s)" and "daily_date (reset_daily_if_needed today s) = Some today"
proof -
  have none: "on_day today (h_grants h) = []" if "Some today \<noteq> daily_date s"
    using assms that by (cases "daily_date s") (fastforce simp: quota_inv_def on_day_def filter_empty_conv)+
  have le: "\<forall>g\<in>set (h_grants h). fst g \<le> today"
    using assms by (cases "daily_date s") (fastforce simp: quota_inv_def)+
  show "quota_inv D F h (reset_daily_if_needed today s)"
    using assms none le by (auto simp: reset_daily_if_needed_def quota_inv_def)
  show "daily_date (reset_daily_if_needed today s) = Some today" by (simp add: reset_daily_if_needed_def)
qed

lemma dropWhile_sorted:
  fixes xs :: "rat list"
  shows "sorted xs \<Longrightarrow> dropWhile (\<lambda>t. t \<le> c) xs = filter (\<lambda>t. c < t) xs"
  by (induction xs) (auto simp: not_le intro!: filter_True [symmetric])

lemma inv_prune:
  assumes "quota_inv D F h s" "h_now h = now"
  shows "quota_inv D F h (prune_5min_window now s)"
    and "five_min_window (prune_5min_window now s) = in_window now 300 (map snd (h_grants h))"
proof -
  have w: "dropWhile (\<lambda>t. t \<le> now - 300) (five_min_window s) = filter (\<lambda>x. now - 300 < x) (five_min_window s)"
    using assms(1) by (intro dropWhile_sorted) (simp add: quota_inv_def)
  show "quota_inv D F h (prune_5min_window now s)"
    using assms w by (auto simp: quota_inv_def prune_5min_window_def FIVE_MINUTES_SECONDS_def intro: sorted_wrt_filter)
  have "in_window now 300 (map snd (h_grants h)) = filter (\<lambda>x. now - 300 < x) (map snd (h_grants h))"
    unfolding in_window_def by (rule filter_cong) (use assms in \<open>auto simp: quota_inv_def\<close>)
  then show "five_min_window (prune_5min_window now s) = in_window now 300 (map snd (h_grants h))"
    using assms w by (simp add: quota_inv_def prune_5min_window_def FIVE_MINUTES_SECONDS_def)
qed

lemma prune_keeps [simp]:
  "daily_count (prune_5min_window now s) = daily_count s" "daily_date (prune_5min_window now s) = daily_date s"
  "daily_limit (prune_5min_window now s) = daily_limit s" "five_min_limit (prune_5min_window now s) = five_min_limit s"
  by (simp_all add: prune_5min_window_def)

lemma no_wait:
  assumes "wait_time_for_global_limits now m s = (Inr w, s')" "w \<le> 0"
    and "\<forall>x\<in>set (five_min_window (prune_5min_window now s)). now < x + 300"
  shows "daily_count s < daily_limit s \<and> int (length (five_min_window (prune_5min_window now s))) < five_min_limit s \<and>
    s' = prune_5min_window now s"
  using assms
  by (auto simp: wait_time_for_global_limits_def Let_def FIVE_MINUTES_SECONDS_def not_le split: if_splits list.splits)

lemma check_global_inv:
  assumes inv: "quota_inv D F h s" and ord: "in_order (h_day h) (h_now h) rd"
    and c: "check_global rd ff s = (out, s')"
  shows "quota_inv D F (h\<lparr>h_day := rd_today rd, h_now := rd_check rd\<rparr>) s'"
    and "out = None \<Longrightarrow> daily_date s' = Some (rd_today rd) \<and> daily_count s' < D \<and>
      int (length (in_window (rd_check rd) 300 (map snd (h_grants h)))) < F"
proof -
  let ?h = "h\<lparr>h_day := rd_today rd, h_now := rd_check rd\<rparr>"
  let ?s1 = "reset_daily_if_needed (rd_today rd) s"
  have i0: "quota_inv D F ?h s" using inv_later [OF inv] ord by (simp add: in_order_def)
  have i1: "quota_inv D F ?h ?s1" and d1: "daily_date ?s1 = Some (rd_today rd)" using inv_reset [OF i0] by simp_all
  let ?s2 = "prune_5min_window (rd_check rd) ?s1"
  have i2: "quota_inv D F ?h ?s2" and w2: "five_min_window ?s2 = in_window (rd_check rd) 300 (map snd (h_grants h))"
    using inv_prune [OF i1, of "rd_check rd"] by simp_all
  have lim: "daily_limit ?s1 = D" "five_min_limit ?s1 = F" using i1 by (simp_all add: quota_inv_def)
  have s': "s' = ?s1 \<or> s' = ?s2"
    using c by (auto simp: check_global_def wait_time_for_global_limits_def Let_def split: if_splits sum.splits list.splits)
  then show "quota_inv D F ?h s'" using i1 i2 by auto
  assume n: "out = None"
  have oldest: "\<forall>x\<in>set (five_min_window ?s2). rd_check rd < x + 300"
    unfolding w2 by (auto simp: in_window_def)
  obtain w where "wait_time_for_global_limits (rd_check rd) (rd_to_midnight rd) ?s1 = (Inr w, s')" "w \<le> 0"
    using c n by (auto simp: check_global_def Let_def split: if_splits sum.splits prod.splits)
  from no_wait [OF this oldest] have "daily_count ?s1 < D \<and> int (length (five_min_window ?s2)) < F \<and> s' = ?s2"
    using lim by simp
  then show "daily_date s' = Some (rd_today rd) \<and> daily_count s' < D \<and>
      int (length (in_window (rd_check rd) 300 (map snd (h_grants h)))) < F"
    using d1 w2 by simp
qed

lemma notify_keeps:
  "quota_inv D F h (notify_threshold th s) = quota_inv D F h s"
  by (simp add: notify_threshold_def quota_inv_def)

lemma thresholds_keep: "quota_inv D F h (check_daily_thresholds s) = quota_inv D F h s"
proof -
  have "quota_inv D F h (fold notify_threshold ths s) = quota_inv D F h s" for ths
    by (induction ths arbitrary: s) (simp_all add: notify_keeps)
  then show ?thesis by (simp add: check_daily_thresholds_def)
qed

lemma in_window_earlier: "(\<And>x. x \<in> set xs \<Longrightarrow> x \<le> now) \<Longrightarrow> now \<le> t \<Longrightarrow> length (in_window t w xs) \<le> length (in_window now w xs)"
  unfolding in_window_def by (induction xs) (auto simp: less_eq_Suc_le)

lemma record_inv:
  assumes inv: "quota_inv D F (h\<lparr>h_day := day, h_now := now\<rparr>) s"
    and room: "daily_date s = Some day" "daily_count s < D" "int (length (in_window now 300 (map snd (h_grants h)))) < F"
    and later: "day \<le> day'" "now \<le> now'"
  shows "quota_inv D F \<lparr>h_day = day', h_now = now', h_grants = h_grants h @ [(day', now')]\<rparr> (record_request day' now' endpoint s)"
proof -
  let ?h = "h\<lparr>h_day := day', h_now := now'\<rparr>" and ?G = "h_grants h"
  let ?s1 = "reset_daily_if_needed day' s"
  have i: "quota_inv D F ?h s" using inv_later [OF inv] later by simp
  have i1: "quota_inv D F ?h ?s1" and d1: "daily_date ?s1 = Some day'" using inv_reset [OF i] by simp_all
  have w1: "five_min_window ?s1 = five_min_window s" by (simp add: reset_daily_if_needed_def)
  have cnt: "daily_count ?s1 < D"
  proof (cases "day' = day")
    case True then show ?thesis using room by (simp add: reset_daily_if_needed_def)
  next
    case False
    have "0 < D" using room(2) i by (auto simp: quota_inv_def room(1))
    then show ?thesis using False room by (simp add: reset_daily_if_needed_def)
  qed
  have count: "daily_count ?s1 = int (length (on_day day' ?G))" using i1 d1 by (simp add: quota_inv_def)
  have days: "int (length (on_day d (?G @ [(day', now')]))) \<le> D" for d
  proof (cases "d = day'")
    case True then show ?thesis using cnt count by (simp add: on_day_def)
  next
    case False then show ?thesis using i1 by (simp add: on_day_def quota_inv_def)
  qed
  have old: "int (length (in_window t 300 (map snd ?G))) \<le> F" for t using i1 by (simp add: quota_inv_def)
  have wins: "int (length (in_window t 300 (map snd ?G @ [now']))) \<le> F" for t
  proof (cases "now' \<le> t")
    case False then show ?thesis using old [of t] by (simp add: in_window_def)
  next
    case True
    have all: "x \<le> now" if "x \<in> set (map snd ?G)" for x using inv that by (auto simp: quota_inv_def)
    have "length (in_window t 300 (map snd ?G)) \<le> length (in_window now 300 (map snd ?G))"
      by (rule in_window_earlier) (use all True later(2) in auto)
    moreover have "length (in_window t 300 (map snd ?G @ [now'])) \<le> length (in_window t 300 (map snd ?G)) + 1"
      by (simp add: in_window_def)
    ultimately show ?thesis using room(3) by linarith
  qed
  have "quota_inv D F \<lparr>h_day = day', h_now = now', h_grants = ?G @ [(day', now')]\<rparr>
     (?s1\<lparr>daily_count := daily_count ?s1 + 1, five_min_window := five_min_window ?s1 @ [now']\<rparr>)"
    using i1 d1 days wins count
    by (auto simp: quota_inv_def sorted_append on_day_def)
  then show ?thesis
    unfolding record_request_def Let_def thresholds_keep by (auto simp: quota_inv_def)
qed

lemma ensure_bucket_inv [simp]: "quota_inv D F h (ensure_bucket rd key s) = quota_inv D F h s"
  by (simp add: ensure_bucket_def configure_def split: option.split)

lemma ensure_bucket_keeps [simp]:
  "daily_date (ensure_bucket rd key s) = daily_date s" "daily_count (ensure_bucket rd key s) = daily_count s"
  by (simp_all add: ensure_bucket_def configure_def split: option.split)

lemma consume_bucket_inv [simp]: "quota_inv D F h (consume_bucket rd key n s) = quota_inv D F h s"
  by (simp add: consume_bucket_def Let_def split: option.split)

lemma consume_bucket_keeps [simp]:
  "daily_date (consume_bucket rd key n s) = daily_date s" "daily_count (consume_bucket rd key n s) = daily_count s"
  by (simp_all add: consume_bucket_def Let_def split: option.split)

lemma grant_inv:
  assumes "quota_inv D F (h\<lparr>h_day := rd_today rd, h_now := rd_check rd\<rparr>) s"
    and "daily_date s = Some (rd_today rd)" "daily_count s < D"
    and "int (length (in_window (rd_check rd) 300 (map snd (h_grants h)))) < F" and "in_order (h_day h) (h_now h) rd"
  shows "quota_inv D F (after rd Granted h) (record_request (rd_record_day rd) (rd_record rd) endpoint s)"
  using record_inv [OF assms(1-4), of "rd_record_day rd" "rd_record rd" endpoint] assms(5)
  by (simp add: after_def in_order_def)

lemma no_grant_inv:
  assumes "quota_inv D F (h\<lparr>h_day := rd_today rd, h_now := rd_check rd\<rparr>) s" and "in_order (h_day h) (h_now h) rd" "out \<noteq> Granted"
  shows "quota_inv D F (after rd out h) s"
  using inv_later [OF assms(1), of "rd_record_day rd" "rd_record rd"] assms(2,3)
  by (simp add: after_def in_order_def quota_inv_def)

lemma check_global_out: "check_global rd ff s = (Some out, s') \<Longrightarrow> out \<noteq> Granted"
  by (auto simp: check_global_def Let_def split: if_splits sum.splits prod.splits)

lemma take_tokens_inv:
  assumes inv: "quota_inv D F (h\<lparr>h_day := rd_today rd, h_now := rd_check rd\<rparr>) s"
    and room: "daily_date s = Some (rd_today rd)" "daily_count s < D"
      "int (length (in_window (rd_check rd) 300 (map snd (h_grants h)))) < F"
    and ord: "in_order (h_day h) (h_now h) rd" and t: "take_tokens rd key tokens endpoint s = (out, s')"
  shows "quota_inv D F (after rd out h) s'"
proof -
  let ?s1 = "ensure_bucket rd key s"
  show ?thesis
  proof (cases "dict_get (al_buckets ?s1) key")
    case None
    then have o: "out = Failed KeyError" "s' = ?s1" using t by (simp_all add: take_tokens_def Let_def)
    show ?thesis unfolding o by (rule no_grant_inv [OF _ ord]) (use inv in simp_all)
  next
    case (Some b0)
    let ?b = "bucket_refill (rd_refill rd) b0"
    let ?s2 = "?s1\<lparr>al_buckets := dict_set key ?b (al_buckets ?s1)\<rparr>"
    note g = grant_inv [OF _ _ _ room(3) ord]
    consider (unlimited) "out = Granted" "s' = record_request (rd_record_day rd) (rd_record rd) endpoint ?s2"
      | (taken) "out = Granted" "s' = record_request (rd_record_day rd) (rd_record rd) endpoint
          (?s2\<lparr>al_buckets := dict_set key (?b\<lparr>ab_tokens := ab_tokens ?b - of_int tokens\<rparr>) (al_buckets ?s2)\<rparr>)"
      | (wait) w where "out = WaitBucket w" "s' = ?s2"
      using t Some by (auto simp: take_tokens_def Let_def split: if_splits)
    then show ?thesis
    proof cases
      case unlimited
      show ?thesis unfolding unlimited by (rule g) (use inv room in simp_all)
    next
      case taken
      show ?thesis unfolding taken by (rule g) (use inv room in simp_all)
    next
      case wait
      show ?thesis unfolding wait by (rule no_grant_inv [OF _ ord]) (use inv in simp_all)
    qed
  qed
qed

lemma step_inv:
  assumes "limiter_step (h, s) (h', s')" and "quota_inv D F h s"
  shows "quota_inv D F h' s'"
  using assms
proof cases
  case (enter rd key tokens endpoint ff out)
  obtain o1 s1 where c: "check_global rd (case ff of None \<Rightarrow> al_fail_fast s | Some b \<Rightarrow> b) s = (o1, s1)" by (metis surj_pair)
  note ci = check_global_inv [OF assms(2) enter(2) c]
  show ?thesis
  proof (cases o1)
    case None
    then have "take_tokens rd key tokens endpoint s1 = (out, s')" using enter(3) c by (simp add: acquire_enter_def)
    from take_tokens_inv [OF ci(1) _ _ _ enter(2) this] ci(2) [OF None] enter(1) show ?thesis by simp
  next
    case (Some x)
    then have o: "out = x" "s' = s1" using enter(3) c by (simp_all add: acquire_enter_def)
    show ?thesis unfolding o enter(1)
      by (rule no_grant_inv [OF ci(1) enter(2)]) (use check_global_out c Some in blast)
  qed
next
  case (resume rd key tokens endpoint ff out)
  obtain o1 s1 where c: "check_global rd (case ff of None \<Rightarrow> al_fail_fast s | Some b \<Rightarrow> b) s = (o1, s1)" by (metis surj_pair)
  note ci = check_global_inv [OF assms(2) resume(2) c]
  show ?thesis
  proof (cases o1)
    case None
    then have o: "out = Granted" "s' = record_request (rd_record_day rd) (rd_record rd) endpoint (consume_bucket rd key tokens s1)"
      using resume(3) c by (simp_all add: acquire_resume_def)
    show ?thesis unfolding o resume(1)
      by (rule grant_inv [OF _ _ _ _ resume(2)]) (use ci(1) ci(2) [OF None] in simp_all)
  next
    case (Some x)
    then have o: "out = x" "s' = s1" using resume(3) c by (simp_all add: acquire_resume_def)
    show ?thesis unfolding o resume(1)
      by (rule no_grant_inv [OF ci(1) resume(2)]) (use check_global_out c Some in blast)
  qed
next
  case (reconfigure now key rpm)
  then show ?thesis using assms(2) by (simp add: configure_def split: option.split)
next
  case (look today now r)
  have s': "s' = prune_5min_window now (reset_daily_if_needed today s)" using look(4) by (simp add: status_def Let_def)
  have "quota_inv D F (h\<lparr>h_day := today, h_now := now\<rparr>) s" using inv_later [OF assms(2)] look by simp
  from inv_prune(1) [OF inv_reset(1) [OF this]] look(1) s' show ?thesis by simp
qed

text \<open>
  The key is never overdrawn: in every history of the limiter, with any number of tasks interleaving at
  their sleeps, categories reconfigured and the status read in between, at most \<open>daily_limit\<close> requests are let
  through on any calendar day and at most \<open>five_min_limit\<close> in any window of five minutes, wherever it
  lies, also over midnight; the counter the limiter reports is exactly the number let through on its day.
\<close>
theorem api_quota_never_exceeded:
  assumes "0 \<le> daily" and "0 \<le> five_min"
    and "limiter_step\<^sup>*\<^sup>* (\<lparr>h_day = d0, h_now = t0, h_grants = []\<rparr>, api_limiter_init daily five_min ff) (h, s)"
  shows "int (length (on_day d (h_grants h))) \<le> daily \<and>
    int (length (in_window t 300 (map snd (h_grants h)))) \<le> five_min \<and>
    (case daily_date s of None \<Rightarrow> h_grants h = [] | Some d \<Rightarrow> daily_count s = int (length (on_day d (h_grants h))))"
proof -
  have "quota_inv daily five_min h s"
    using assms(3)
  proof (induction "(h, s)" arbitrary: h s rule: rtranclp_induct)
    case base
    then show ?case using assms(1,2) by (simp add: quota_inv_def api_limiter_init_def on_day_def in_window_def)
  next
    case (step y)
    then show ?case by (cases y) (auto intro: step_inv)
  qed
  then show ?thesis by (simp add: quota_inv_def split: option.split)
qed

definition demo_readings :: readings where
  "demo_readings = \<lparr>rd_today = 1, rd_check = 10, rd_to_midnight = 1000, rd_bucket = 10, rd_refill = 10, rd_record_day = 1, rd_record = 10\<rparr>"

theorem api_quota_never_exceeded_witness:
  "\<exists>h s. limiter_step (\<lparr>h_day = 1, h_now = 0, h_grants = []\<rparr>, api_limiter_init 1 1 True) (h, s) \<and>
     h_grants h = [(1, 10)] \<and> int (length (on_day 1 (h_grants h))) \<le> 1"
proof -
  let ?h = "\<lparr>h_day = 1, h_now = 0, h_grants = []\<rparr>" and ?s = "api_limiter_init 1 1 True"
  obtain s' where a: "acquire_enter demo_readings ''tsetmc'' 1 '''' None ?s = (Granted, s')"
    by (simp add: acquire_enter_def check_global_def wait_time_for_global_limits_def take_tokens_def ensure_bucket_def
        configure_def bucket_new_def bucket_refill_def reset_daily_if_needed_def prune_5min_window_def demo_readings_def
        api_limiter_init_def py_int_def Let_def)
  have "in_order (h_day ?h) (h_now ?h) demo_readings" by (simp add: in_order_def demo_readings_def)
  from limiter_step.enter [OF this a] have st: "limiter_step (?h, ?s) (after demo_readings Granted ?h, s')" .
  then have "int (length (on_day 1 (h_grants (after demo_readings Granted ?h)))) \<le> 1"
    by (intro api_quota_never_exceeded [of 1 1 1 0 True _ s', THEN conjunct1]) (simp_all add: r_into_rtranclp)
  then show ?thesis using st by (auto simp: after_def demo_readings_def)
qed

subsection \<open>What the limiter does not hold\<close>

lemma empty_window_raises:
  \<comment> \<open>with no room in the five-minute window at all, the limiter looks for its oldest request and raises\<close>
  "0 < daily \<Longrightarrow> fst (wait_time_for_global_limits now m (api_limiter_init daily 0 ff)) = Inl IndexError"
  by (simp add: wait_time_for_global_limits_def prune_5min_window_def api_limiter_init_def Let_def)

lemma bucket_not_asked_again:
  \<comment> \<open>a task that has waited for a category is let through whatever its bucket holds by then: the bucket is emptied as far as
    it goes, so tasks that wait together pass together\<close>
  assumes "check_global rd (case ff of None \<Rightarrow> al_fail_fast s | Some b \<Rightarrow> b) s = (None, s1)"
  shows "fst (acquire_resume rd key n endpoint ff s) = Granted"
  using assms by (simp add: acquire_resume_def)

lemma fail_fast_rejects:
  "al_fail_fast s \<Longrightarrow> daily_limit s \<le> daily_count (reset_daily_if_needed (rd_today rd) s) \<Longrightarrow>
     fst (acquire_enter rd key n endpoint None s) = Rejected \<and> fst (acquire_resume rd key n endpoint None s) = Rejected"
proof -
  have "daily_limit (reset_daily_if_needed (rd_today rd) s) = daily_limit s" by (simp add: reset_daily_if_needed_def)
  then show "al_fail_fast s \<Longrightarrow> daily_limit s \<le> daily_count (reset_daily_if_needed (rd_today rd) s) \<Longrightarrow> ?thesis"
    by (simp add: acquire_enter_def acquire_resume_def check_global_def Let_def)
qed

end
