(* ===== verification/Api_Budget.thy ===== *)
theory Api_Budget
  imports Api_Limiter
begin

text \<open>
  The budget governor (\<open>brsapi/budget.py\<close>) that shares the daily budget of the API key between processes, and the
  quota view of the ingestion scope (\<open>ingestion/quotas.py\<close>). Redis is not part of the repository: its client is an
  argument, a record of the calls the code makes on a state \<open>'r\<close> of the server, with \<open>None\<close> for a raised
  exception; the one Lua script is part of the code and is \<open>reserve_script\<close>. The state file is a value beside
  the state. Each call of a clock is an argument. Waiting inside the limiter is a run of its steps.
  A return of tokens is two calls of the server, and other processes may run between them.
\<close>

subsection \<open>The limiter's \<open>acquire\<close> as one call\<close>

fun acquire_run ::
    "bool \<Rightarrow> readings list \<Rightarrow> string \<Rightarrow> int \<Rightarrow> string \<Rightarrow> bool option \<Rightarrow> api_limiter \<Rightarrow> acquire_outcome option \<times> api_limiter" where
  \<comment> \<open>the steps at the given readings; \<open>None\<close>: still asleep after them\<close>
  "acquire_run resumed [] key tokens endpoint ff s = (None, s)"
| "acquire_run resumed (rd # rds) key tokens endpoint ff s =
     (case (if resumed then acquire_resume rd key tokens endpoint ff s else acquire_enter rd key tokens endpoint ff s) of
        (Sleep _, s1) \<Rightarrow> acquire_run resumed rds key tokens endpoint ff s1
      | (WaitBucket _, s1) \<Rightarrow> acquire_run True rds key tokens endpoint ff s1
      | (out, s1) \<Rightarrow> (Some out, s1))"

subsection \<open>State\<close>

record block_state =
  blocked_until :: pytime
  last_302_at :: pytime
  last_302_location :: string
  block_count :: int

definition no_block :: block_state where
  "no_block = \<lparr>blocked_until = 0, last_302_at = 0, last_302_location = '''', block_count = 0\<rparr>"

datatype backend = BNone | BRedis | BFile | BMemory

record 'r budget_redis =
  br_get_daily :: "int \<Rightarrow> 'r \<Rightarrow> int option option \<times> 'r"
  br_has_eval :: bool
  br_eval_reserve :: "int \<Rightarrow> int \<Rightarrow> int \<Rightarrow> int \<Rightarrow> 'r \<Rightarrow> int option \<times> 'r" \<comment> \<open>day, tokens, limit, time to live\<close>
  br_incrby :: "int \<Rightarrow> int \<Rightarrow> 'r \<Rightarrow> int option \<times> 'r"
  br_expire_daily :: "int \<Rightarrow> int \<Rightarrow> 'r \<Rightarrow> bool \<times> 'r"
  br_decrby :: "int \<Rightarrow> int \<Rightarrow> 'r \<Rightarrow> int option \<times> 'r"
  br_delete_daily :: "int \<Rightarrow> 'r \<Rightarrow> bool \<times> 'r"
  br_zremrange :: "pytime \<Rightarrow> 'r \<Rightarrow> bool \<times> 'r"
  br_zcard :: "'r \<Rightarrow> int option \<times> 'r"
  br_oldest :: "'r \<Rightarrow> pytime option option \<times> 'r"
  br_zadd :: "pytime \<Rightarrow> 'r \<Rightarrow> bool \<times> 'r"
  br_expire_window :: "'r \<Rightarrow> bool \<times> 'r"
  br_get_block :: "'r \<Rightarrow> block_state option option \<times> 'r"
  br_set_block :: "block_state \<Rightarrow> 'r \<Rightarrow> bool \<times> 'r"
  br_expire_block :: "int \<Rightarrow> 'r \<Rightarrow> bool \<times> 'r"

definition reserve_script :: "int \<Rightarrow> int \<Rightarrow> int \<Rightarrow> int \<times> int" where
  \<comment> \<open>the Lua script: what it returns, and the counter after it\<close>
  "reserve_script current requested limit =
     (if current + requested > limit then (- 1, current) else (current + requested, current + requested))"

record budget_file =
  bf_date :: int
  bf_count :: int
  bf_block :: block_state

record governor =
  g_limiter :: api_limiter
  g_daily_limit :: int
  g_five_min_limit :: int
  g_fail_fast :: bool
  g_persist :: bool
  g_connected :: bool \<comment> \<open>\<open>self._redis is not None\<close>\<close>
  warn_pct :: int
  soft_reject_pct :: int
  warned_on :: "int option"
  block_cooldown :: pyfloat
  initialized :: bool
  g_backend :: backend
  g_block :: block_state
  file_daily_count :: int

definition governor_init ::
    "api_limiter \<Rightarrow> int option \<Rightarrow> int option \<Rightarrow> bool \<Rightarrow> pyfloat \<Rightarrow> bool option \<Rightarrow> bool \<Rightarrow> int \<Rightarrow> int \<Rightarrow> governor" where
  "governor_init limiter daily five_min redis cooldown fail_fast persist warn soft =
     \<lparr>g_limiter = limiter,
      g_daily_limit = (case daily of Some n \<Rightarrow> n | None \<Rightarrow> daily_limit limiter),
      g_five_min_limit = (case five_min of Some n \<Rightarrow> n | None \<Rightarrow> five_min_limit limiter),
      g_fail_fast = (case fail_fast of None \<Rightarrow> al_fail_fast limiter | Some b \<Rightarrow> b),
      g_persist = persist, g_connected = redis, warn_pct = warn, soft_reject_pct = soft, warned_on = None,
      block_cooldown = cooldown, initialized = False, g_backend = BNone, g_block = no_block, file_daily_count = 0\<rparr>"

subsection \<open>Start-up\<close>

definition try_load_file :: "int \<Rightarrow> (py_error + budget_file option) \<Rightarrow> governor \<Rightarrow> bool \<times> governor" where
  "try_load_file today file g =
     (case file of
        Inl _ \<Rightarrow> (False, g)
      | Inr None \<Rightarrow> (True, g\<lparr>file_daily_count := 0\<rparr>)
      | Inr (Some raw) \<Rightarrow>
          (True, g\<lparr>file_daily_count := (if bf_date raw = today then bf_count raw else 0), g_block := bf_block raw\<rparr>))"

definition load_block_redis :: "'r budget_redis \<Rightarrow> governor \<Rightarrow> 'r \<Rightarrow> governor \<times> 'r" where
  "load_block_redis R g r =
     (case br_get_block R r of
        (Some (Some b), r1) \<Rightarrow> (g\<lparr>g_block := b\<rparr>, r1)
      | (_, r1) \<Rightarrow> (g, r1))"

definition seed_limiter_from_persisted :: "'r budget_redis \<Rightarrow> int \<Rightarrow> governor \<Rightarrow> 'r \<Rightarrow> governor \<times> 'r" where
  "seed_limiter_from_persisted R today g r =
     (if g_backend g = BMemory \<or> daily_date (g_limiter g) = Some today then (g, r)
      else
        (let (persisted, r1) =
               (if g_backend g = BRedis \<and> g_connected g
                then (case br_get_daily R today r of
                        (Some (Some n), r1) \<Rightarrow> (n, r1)
                      | (_, r1) \<Rightarrow> (file_daily_count g, r1))
                else (file_daily_count g, r));
             l = g_limiter g
         in (g\<lparr>g_limiter := l\<lparr>daily_count := max (daily_count l) persisted, daily_date := Some today\<rparr>\<rparr>, r1)))"

record boot =
  \<comment> \<open>what the start-up finds: whether Redis can be reached, the day, and the state file\<close>
  bt_connects :: bool
  bt_today :: int
  bt_file :: "py_error + budget_file option"

definition ensure_initialized :: "'r budget_redis \<Rightarrow> boot \<Rightarrow> governor \<Rightarrow> 'r \<Rightarrow> governor \<times> 'r" where
  "ensure_initialized R bt g0 r0 =
     (if initialized g0 then (g0, r0)
      else
        (let (g1, r1) =
               (if g_persist g0 then
                  (let g = (if g_connected g0 then g0 else g0\<lparr>g_connected := bt_connects bt\<rparr>)
                   in if g_connected g then load_block_redis R (g\<lparr>g_backend := BRedis\<rparr>) r0
                      else (case try_load_file (bt_today bt) (bt_file bt) g of
                              (ok, g') \<Rightarrow> (g'\<lparr>g_backend := (if ok then BFile else BMemory)\<rparr>, r0)))
                else (g0\<lparr>g_backend := BMemory\<rparr>, r0));
             (g2, r2) = seed_limiter_from_persisted R (bt_today bt) g1 r1
         in (g2\<lparr>initialized := True\<rparr>, r2)))"

subsection \<open>The checks\<close>

definition is_blocked_now :: "pytime \<Rightarrow> governor \<Rightarrow> bool" where
  "is_blocked_now now g \<longleftrightarrow> now < blocked_until (g_block g)"

definition daily_used :: "'r budget_redis \<Rightarrow> int \<Rightarrow> governor \<Rightarrow> 'r \<Rightarrow> int \<times> 'r" where
  "daily_used R today g r =
     (if g_backend g = BRedis \<and> g_connected g
      then (case br_get_daily R today r of
              (Some (Some n), r1) \<Rightarrow> (n, r1)
            | (_, r1) \<Rightarrow> (0, r1))
      else (daily_count (g_limiter g), r))"

datatype budget_outcome =
    Allowed
  | Blocked \<comment> \<open>\<open>BudgetBlockedError\<close>\<close>
  | Exhausted int \<comment> \<open>\<open>RateLimitExhaustedError\<close> with the usage it reports\<close>
  | SoftReject \<comment> \<open>\<open>BudgetSoftRejectError\<close>\<close>
  | StillWaiting
  | Raised py_error

definition gate_daily_usage :: "int \<Rightarrow> int \<Rightarrow> bool \<Rightarrow> governor \<Rightarrow> budget_outcome option \<times> governor" where
  \<comment> \<open>\<open>None\<close>: nothing raised\<close>
  "gate_daily_usage today used critical g =
     (if g_daily_limit g \<le> 0 then (None, g)
      else
        (let pct = used * 100 div g_daily_limit g
         in if pct < warn_pct g then (None, g)
            else
              (let g1 = (if warned_on g \<noteq> Some today then g\<lparr>warned_on := Some today\<rparr> else g)
               in if pct \<ge> soft_reject_pct g \<and> \<not> critical then (Some SoftReject, g1) else (None, g1))))"

record gov_clock =
  gc_now :: pytime
  gc_used_day :: int
  gc_gate_day :: int
  gc_reserve_day :: int
  gc_to_midnight :: pyfloat
  gc_window :: "pytime list" \<comment> \<open>one reading for each pass of the five-minute loop\<close>
  gc_limiter :: "readings list"
  gc_release_day :: int
  gc_record :: pytime
  gc_file_day :: int
  gc_file_ok :: bool \<comment> \<open>whether the state file can be written\<close>

definition check_allowed ::
    "'r budget_redis \<Rightarrow> boot \<Rightarrow> gov_clock \<Rightarrow> int \<Rightarrow> pytime \<Rightarrow> bool option \<Rightarrow> bool \<Rightarrow> governor \<Rightarrow> 'r \<Rightarrow> budget_outcome \<times> governor \<times> 'r" where
  \<comment> \<open>\<open>today\<close> and \<open>clock\<close> are read by the limiter's status\<close>
  "check_allowed R bt ck today clock fail_fast critical g0 r0 =
     (let ff = (case fail_fast of None \<Rightarrow> g_fail_fast g0 | Some b \<Rightarrow> b);
          (g, r) = ensure_initialized R bt g0 r0
      in if is_blocked_now (gc_now ck) g then (Blocked, g, r)
         else if \<not> ff then (Allowed, g, r)
         else
           (let (used, r1) = daily_used R (gc_used_day ck) g r
            in if used \<ge> g_daily_limit g then (Exhausted used, g, r1)
               else (case gate_daily_usage (gc_gate_day ck) used critical g of
                       (Some out, g1) \<Rightarrow> (out, g1, r1)
                     | (None, g1) \<Rightarrow>
                         (let (st, l) = status today clock (g_limiter g1);
                              g2 = g1\<lparr>g_limiter := l\<rparr>
                          in if st_daily_remaining st \<le> 0 then (Exhausted (st_daily_count st), g2, r1)
                             else (Allowed, g2, r1)))))"

definition DAY_TTL_SLACK :: int where "DAY_TTL_SLACK = 3600"

definition reserve_daily :: "'r budget_redis \<Rightarrow> gov_clock \<Rightarrow> int \<Rightarrow> governor \<Rightarrow> 'r \<Rightarrow> int option \<times> 'r" where
  "reserve_daily R ck tokens g r =
     (let day = gc_reserve_day ck; ttl = py_int (gc_to_midnight ck) + DAY_TTL_SLACK
      in if br_has_eval R
         then (case br_eval_reserve R day tokens (g_daily_limit g) ttl r of
                 (Some v, r1) \<Rightarrow> (if v < 0 then None else Some v, r1)
               | (None, r1) \<Rightarrow> (case daily_used R day g r1 of (n, r2) \<Rightarrow> (Some n, r2)))
         else (case br_incrby R day tokens r of
                 (Some v, r1) \<Rightarrow>
                   (case br_expire_daily R day ttl r1 of
                      (True, r2) \<Rightarrow> (Some v, r2)
                    | (False, r2) \<Rightarrow> (case daily_used R day g r2 of (n, r3) \<Rightarrow> (Some n, r3)))
               | (None, r1) \<Rightarrow> (case daily_used R day g r1 of (n, r2) \<Rightarrow> (Some n, r2))))"

definition release_decrement :: "'r budget_redis \<Rightarrow> int \<Rightarrow> int \<Rightarrow> 'r \<Rightarrow> bool \<times> 'r" where
  \<comment> \<open>the first call of a release, and whether the second follows; other processes run between the two\<close>
  "release_decrement R day tokens r =
     (case br_decrby R day tokens r of (Some remaining, r1) \<Rightarrow> (remaining \<le> 0, r1) | (None, r1) \<Rightarrow> (False, r1))"

definition release_daily :: "'r budget_redis \<Rightarrow> int \<Rightarrow> int \<Rightarrow> governor \<Rightarrow> 'r \<Rightarrow> 'r" where
  \<comment> \<open>a release that no other process interrupts\<close>
  "release_daily R day tokens g r =
     (if g_backend g \<noteq> BRedis \<or> \<not> g_connected g \<or> tokens \<le> 0 then r
      else (case release_decrement R day tokens r of (gone, r1) \<Rightarrow> if gone then snd (br_delete_daily R day r1) else r1))"

fun enforce_5min :: "'r budget_redis \<Rightarrow> pytime list \<Rightarrow> bool \<Rightarrow> governor \<Rightarrow> 'r \<Rightarrow> budget_outcome option \<times> 'r" where
  \<comment> \<open>\<open>None\<close>: there is room; an exception of the server is logged and lets the request pass\<close>
  "enforce_5min R [] fail_fast g r = (Some StillWaiting, r)"
| "enforce_5min R (now # nows) fail_fast g r =
     (if g_backend g \<noteq> BRedis \<or> \<not> g_connected g then (None, r)
      else (case br_zremrange R (now - FIVE_MINUTES_SECONDS) r of
              (False, r1) \<Rightarrow> (None, r1)
            | (True, r1) \<Rightarrow>
                (case br_zcard R r1 of
                   (None, r2) \<Rightarrow> (None, r2)
                 | (Some n, r2) \<Rightarrow>
                     if n < g_five_min_limit g then (None, r2)
                     else if fail_fast then (Some (Exhausted n), r2)
                     else (case br_oldest R r2 of
                             (None, r3) \<Rightarrow> (None, r3)
                           | (Some _, r3) \<Rightarrow> enforce_5min R nows fail_fast g r3))))"

definition persist_file :: "int \<Rightarrow> bool \<Rightarrow> governor \<times> budget_file option \<Rightarrow> governor \<times> budget_file option" where
  "persist_file day ok gf =
     (case gf of (g, file) \<Rightarrow>
        if ok then
          (g\<lparr>file_daily_count := daily_count (g_limiter g)\<rparr>,
           Some \<lparr>bf_date = day, bf_count = daily_count (g_limiter g), bf_block = g_block g\<rparr>)
        else (g\<lparr>g_backend := BMemory\<rparr>, file))"

definition record_used ::
    "'r budget_redis \<Rightarrow> gov_clock \<Rightarrow> governor \<Rightarrow> 'r \<Rightarrow> budget_file option \<Rightarrow> governor \<times> 'r \<times> budget_file option" where
  "record_used R ck g r file =
     (if g_backend g = BRedis \<and> g_connected g
      then (case br_zadd R (gc_record ck) r of
              (False, r1) \<Rightarrow> (g, r1, file)
            | (True, r1) \<Rightarrow>
                (case br_zremrange R (gc_record ck - FIVE_MINUTES_SECONDS) r1 of
                   (False, r2) \<Rightarrow> (g, r2, file)
                 | (True, r2) \<Rightarrow> (g, snd (br_expire_window R r2), file)))
      else if g_backend g = BFile
      then (case persist_file (gc_file_day ck) (gc_file_ok ck) (g, file) of (g1, file1) \<Rightarrow> (g1, r, file1))
      else (g, r, file))"

subsection \<open>Asking for a request\<close>

definition reserve_step ::
    "'r budget_redis \<Rightarrow> gov_clock \<Rightarrow> int \<Rightarrow> bool \<Rightarrow> governor \<Rightarrow> 'r \<Rightarrow> (budget_outcome + bool) \<times> governor \<times> 'r" where
  \<comment> \<open>the part of \<open>acquire\<close> for \<open>fail_fast\<close>: a rejection, or whether a reservation is held\<close>
  "reserve_step R ck tokens critical g r =
     (let (used, r1) = daily_used R (gc_used_day ck) g r
      in if used \<ge> g_daily_limit g then (Inl (Exhausted used), g, r1)
         else (case gate_daily_usage (gc_gate_day ck) used critical g of
                 (Some out, g1) \<Rightarrow> (Inl out, g1, r1)
               | (None, g1) \<Rightarrow>
                   if g_backend g1 = BRedis then
                     (case reserve_daily R ck tokens g1 r1 of
                        (None, r2) \<Rightarrow>
                          (case daily_used R (gc_used_day ck) g1 r2 of
                             (prior, r3) \<Rightarrow> (Inl (Exhausted (max 0 prior)), g1, r3))
                      | (Some v, r2) \<Rightarrow>
                          if v > g_daily_limit g1 then
                            (case daily_used R (gc_used_day ck) g1 r2 of
                               (_, r3) \<Rightarrow> (Inl (Exhausted (max 0 (v - tokens))), g1, r3))
                          else (Inr True, g1, r2))
                   else
                     (case daily_used R (gc_used_day ck) g1 r1 of
                        (used2, r2) \<Rightarrow>
                          if used2 \<ge> g_daily_limit g1 then (Inl (Exhausted used2), g1, r2) else (Inr False, g1, r2))))"

definition window_and_limiter ::
    "'r budget_redis \<Rightarrow> gov_clock \<Rightarrow> string \<Rightarrow> int \<Rightarrow> string \<Rightarrow> bool \<Rightarrow> governor \<Rightarrow> 'r \<Rightarrow> budget_outcome \<times> governor \<times> 'r" where
  "window_and_limiter R ck category tokens endpoint ff g r =
     (case enforce_5min R (gc_window ck) ff g r of
        (Some out, r1) \<Rightarrow> (out, g, r1)
      | (None, r1) \<Rightarrow>
          (case acquire_run False (gc_limiter ck) category tokens endpoint (Some ff) (g_limiter g) of
             (out, l) \<Rightarrow>
               (case out of
                  Some Granted \<Rightarrow> Allowed
                | Some (Failed e) \<Rightarrow> Raised e
                | Some _ \<Rightarrow> Exhausted (daily_count l)
                | None \<Rightarrow> StillWaiting, g\<lparr>g_limiter := l\<rparr>, r1)))"

definition gov_acquire ::
    "'r budget_redis \<Rightarrow> boot \<Rightarrow> gov_clock \<Rightarrow> string \<Rightarrow> int \<Rightarrow> string \<Rightarrow> bool option \<Rightarrow> bool \<Rightarrow> governor \<Rightarrow> 'r \<Rightarrow> budget_file option \<Rightarrow>
     budget_outcome \<times> governor \<times> 'r \<times> budget_file option" where
  "gov_acquire R bt ck category tokens endpoint fail_fast critical g0 r0 file =
     (let ff = (case fail_fast of None \<Rightarrow> g_fail_fast g0 | Some b \<Rightarrow> b);
          (g, r) = ensure_initialized R bt g0 r0
      in if is_blocked_now (gc_now ck) g then (Blocked, g, r, file)
         else
           (case (if ff then reserve_step R ck tokens critical g r else (Inr False, g, r)) of
              (Inl out, g1, r1) \<Rightarrow> (out, g1, r1, file)
            | (Inr reserved, g1, r1) \<Rightarrow>
                (case window_and_limiter R ck category tokens endpoint ff g1 r1 of
                   (Allowed, g2, r2) \<Rightarrow>
                     (case record_used R ck g2 r2 file of (g3, r3, file3) \<Rightarrow> (Allowed, g3, r3, file3))
                 | (StillWaiting, g2, r2) \<Rightarrow> (StillWaiting, g2, r2, file)
                 | (out, g2, r2) \<Rightarrow>
                     (out, g2, if reserved then release_daily R (gc_release_day ck) tokens g2 r2 else r2, file))))"

subsection \<open>The server's signals\<close>

definition persist_block ::
    "'r budget_redis \<Rightarrow> int \<Rightarrow> bool \<Rightarrow> governor \<Rightarrow> 'r \<Rightarrow> budget_file option \<Rightarrow> governor \<times> 'r \<times> budget_file option" where
  "persist_block R day ok g r file =
     (if g_backend g = BRedis \<and> g_connected g
      then (case br_set_block R (g_block g) r of
              (False, r1) \<Rightarrow> (g, r1, file)
            | (True, r1) \<Rightarrow> (g, snd (br_expire_block R (py_int (block_cooldown g) + 60) r1), file))
      else if g_backend g = BFile
      then (case persist_file day ok (g, file) of (g1, file1) \<Rightarrow> (g1, r, file1))
      else (g, r, file))"

definition report_302 ::
    "'r budget_redis \<Rightarrow> boot \<Rightarrow> pytime \<Rightarrow> int \<Rightarrow> bool \<Rightarrow> string \<Rightarrow> governor \<Rightarrow> 'r \<Rightarrow> budget_file option \<Rightarrow>
     governor \<times> 'r \<times> budget_file option" where
  "report_302 R bt now day ok location g0 r0 file =
     (let (g, r) = ensure_initialized R bt g0 r0;
          b = \<lparr>blocked_until = now + block_cooldown g, last_302_at = now, last_302_location = location,
               block_count = block_count (g_block g) + 1\<rparr>
      in persist_block R day ok (g\<lparr>g_block := b\<rparr>) r file)"

definition report_ok ::
    "'r budget_redis \<Rightarrow> boot \<Rightarrow> pytime \<Rightarrow> int \<Rightarrow> bool \<Rightarrow> governor \<Rightarrow> 'r \<Rightarrow> budget_file option \<Rightarrow> governor \<times> 'r \<times> budget_file option" where
  "report_ok R bt now day ok g0 r0 file =
     (let (g, r) = ensure_initialized R bt g0 r0
      in if \<not> is_blocked_now now g \<and> block_count (g_block g) > 0
         then persist_block R day ok (g\<lparr>g_block := no_block\<rparr>) r file
         else (g, r, file))"

definition is_blocked :: "'r budget_redis \<Rightarrow> boot \<Rightarrow> pytime \<Rightarrow> governor \<Rightarrow> 'r \<Rightarrow> bool \<times> governor \<times> 'r" where
  "is_blocked R bt now g0 r0 = (case ensure_initialized R bt g0 r0 of (g, r) \<Rightarrow> (is_blocked_now now g, g, r))"

definition available_daily :: "'r budget_redis \<Rightarrow> boot \<Rightarrow> int \<Rightarrow> governor \<Rightarrow> 'r \<Rightarrow> int \<times> governor \<times> 'r" where
  "available_daily R bt today g0 r0 =
     (case ensure_initialized R bt g0 r0 of
        (g, r) \<Rightarrow> (case daily_used R today g r of (used, r1) \<Rightarrow> (max 0 (g_daily_limit g - used), g, r1)))"

subsection \<open>The quota view of the ingestion scope\<close>

record quota_profile =
  qp_daily :: int
  qp_five_min :: int
  qp_label :: string

definition quota_profile_new :: "int \<Rightarrow> int \<Rightarrow> string \<Rightarrow> py_error + quota_profile" where
  "quota_profile_new daily five_min label =
     (if daily \<le> 0 then Inl ValueError
      else if five_min \<le> 0 then Inl ValueError
      else if five_min > daily then Inl ValueError
      else Inr \<lparr>qp_daily = daily, qp_five_min = five_min, qp_label = label\<rparr>)"

definition INGESTION_QUOTA_PROFILE :: quota_profile where
  "INGESTION_QUOTA_PROFILE = \<lparr>qp_daily = 10000, qp_five_min = 300, qp_label = ''ingestion''\<rparr>"

definition CONSERVATIVE_QUOTA_PROFILE :: quota_profile where
  "CONSERVATIVE_QUOTA_PROFILE = \<lparr>qp_daily = 4000, qp_five_min = 1000, qp_label = ''platform-default''\<rparr>"

record quota_snapshot =
  qs_profile :: quota_profile
  qs_backend :: backend
  qs_daily_used :: int
  qs_daily_limit :: int
  qs_five_min_used :: int
  qs_five_min_limit :: int
  qs_blocked :: bool

definition daily_remaining :: "quota_snapshot \<Rightarrow> int" where
  "daily_remaining q = max 0 (qs_daily_limit q - qs_daily_used q)"

definition five_min_remaining :: "quota_snapshot \<Rightarrow> int" where
  "five_min_remaining q = max 0 (qs_five_min_limit q - qs_five_min_used q)"

definition daily_used_pct :: "quota_snapshot \<Rightarrow> pyfloat" where
  "daily_used_pct q =
     (if qs_daily_limit q \<noteq> 0 then round_to 1 (of_int (qs_daily_used q) / of_int (qs_daily_limit q) * 100) else 0)"

definition exhausted :: "quota_snapshot \<Rightarrow> bool" where
  "exhausted q \<longleftrightarrow> daily_remaining q \<le> 0"

record governor_stats =
  gs_backend :: backend
  gs_daily_count :: int
  gs_daily_limit :: int
  gs_5min_count :: int
  gs_5min_limit :: int
  gs_blocked :: bool

definition gov_stats :: "'r budget_redis \<Rightarrow> boot \<Rightarrow> pytime \<Rightarrow> int \<Rightarrow> governor \<Rightarrow> 'r \<Rightarrow> governor_stats \<times> governor \<times> 'r" where
  \<comment> \<open>the fields of \<open>stats\<close> that the quota view reads\<close>
  "gov_stats R bt now today g0 r0 =
     (let (g, r) = ensure_initialized R bt g0 r0;
          (used, r1) = daily_used R today g r;
          window = int (length (five_min_window (g_limiter g)));
          (n, r2) = (if g_backend g = BRedis \<and> g_connected g
                     then (case br_zcard R r1 of (Some n, r2) \<Rightarrow> (n, r2) | (None, r2) \<Rightarrow> (window, r2))
                     else (window, r1))
      in (\<lparr>gs_backend = g_backend g, gs_daily_count = used, gs_daily_limit = g_daily_limit g, gs_5min_count = n,
           gs_5min_limit = g_five_min_limit g, gs_blocked = is_blocked_now now g\<rparr>, g, r2))"

definition from_governor_stats :: "governor_stats \<Rightarrow> quota_profile \<Rightarrow> quota_snapshot" where
  "from_governor_stats st profile =
     \<lparr>qs_profile = profile, qs_backend = gs_backend st, qs_daily_used = gs_daily_count st,
      qs_daily_limit = (if gs_daily_limit st \<noteq> 0 then gs_daily_limit st else qp_daily profile),
      qs_five_min_used = gs_5min_count st,
      qs_five_min_limit = (if gs_5min_limit st \<noteq> 0 then gs_5min_limit st else qp_five_min profile),
      qs_blocked = gs_blocked st\<rparr>"

definition has_headroom :: "quota_snapshot \<Rightarrow> int \<Rightarrow> bool" where
  "has_headroom q tokens \<longleftrightarrow> \<not> qs_blocked q \<and> daily_remaining q \<ge> max 1 tokens"

definition ensure_headroom :: "quota_snapshot \<Rightarrow> int \<Rightarrow> py_error + quota_snapshot" where
  \<comment> \<open>\<open>QuotaExceededError\<close> is a \<open>RuntimeError\<close>\<close>
  "ensure_headroom q tokens =
     (if qs_blocked q then Inl RuntimeError
      else if daily_remaining q < max 1 tokens then Inl RuntimeError
      else Inr q)"

definition assess_active_profile :: "int \<Rightarrow> int \<Rightarrow> quota_profile \<Rightarrow> bool \<times> (int \<times> int) list" where
  \<comment> \<open>of the two limits in force: whether they match, and the pairs of active and expected limit that do not\<close>
  "assess_active_profile active_daily active_five_min profile =
     (let drift = (if active_daily \<noteq> qp_daily profile then [(active_daily, qp_daily profile)] else []) @
                  (if active_five_min \<noteq> qp_five_min profile then [(active_five_min, qp_five_min profile)] else [])
      in (drift = [], drift))"

definition build_ingestion_limiter :: "quota_profile \<Rightarrow> api_limiter" where
  "build_ingestion_limiter profile = api_limiter_init (qp_daily profile) (qp_five_min profile) False"

lemma headroom_agrees: "has_headroom q n \<longleftrightarrow> (\<exists>q'. ensure_headroom q n = Inr q')"
  by (auto simp: has_headroom_def ensure_headroom_def not_less)

lemma declared_profiles_valid:
  "quota_profile_new 10000 300 ''ingestion'' = Inr INGESTION_QUOTA_PROFILE"
  "quota_profile_new 4000 1000 ''platform-default'' = Inr CONSERVATIVE_QUOTA_PROFILE"
  by (simp_all add: quota_profile_new_def INGESTION_QUOTA_PROFILE_def CONSERVATIVE_QUOTA_PROFILE_def)

subsection \<open>The shared daily budget\<close>

definition counter_laws :: "'r budget_redis \<Rightarrow> (int \<Rightarrow> 'r \<Rightarrow> int) \<Rightarrow> bool" where
  \<comment> \<open>what the code relies on: the script runs atomically on the counter of its day, the other calls on that key do what their
    names say, and the calls on other keys leave the counters alone\<close>
  "counter_laws R cnt \<longleftrightarrow>
     br_has_eval R \<and>
     (\<forall>d n l ttl r. \<exists>v r'. br_eval_reserve R d n l ttl r = (Some v, r') \<and> (v, cnt d r') = reserve_script (cnt d r) n l \<and>
        (\<forall>d'. d' \<noteq> d \<longrightarrow> cnt d' r' = cnt d' r)) \<and>
     (\<forall>d r. \<exists>x r'. br_get_daily R d r = (Some x, r') \<and> (x = None \<and> cnt d r = 0 \<or> x = Some (cnt d r)) \<and> (\<forall>d'. cnt d' r' = cnt d' r)) \<and>
     (\<forall>d n r. \<exists>r'. br_decrby R d n r = (Some (cnt d r - n), r') \<and> cnt d r' = cnt d r - n \<and> (\<forall>d'. d' \<noteq> d \<longrightarrow> cnt d' r' = cnt d' r)) \<and>
     (\<forall>d r. \<exists>b r'. br_delete_daily R d r = (b, r') \<and> cnt d r' = 0 \<and> (\<forall>d'. d' \<noteq> d \<longrightarrow> cnt d' r' = cnt d' r)) \<and>
     (\<forall>d t r. cnt d (snd (br_zremrange R t r)) = cnt d r) \<and> (\<forall>d r. cnt d (snd (br_zcard R r)) = cnt d r) \<and>
     (\<forall>d r. cnt d (snd (br_oldest R r)) = cnt d r) \<and> (\<forall>d t r. cnt d (snd (br_zadd R t r)) = cnt d r) \<and>
     (\<forall>d r. cnt d (snd (br_expire_window R r)) = cnt d r) \<and> (\<forall>d r. cnt d (snd (br_get_block R r)) = cnt d r)"

record ledger_view =
  \<comment> \<open>per day: the tokens reserved by requests under way, and those of requests let through\<close>
  held :: "int \<Rightarrow> int"
  spent :: "int \<Rightarrow> int"
  emptied :: "int set" \<comment> \<open>the days whose counter a release brought to zero and is about to delete\<close>

definition ledger_start :: ledger_view where
  "ledger_start = \<lparr>held = \<lambda>_. 0, spent = \<lambda>_. 0, emptied = {}\<rparr>"

text \<open>The calls on the server in any order. A release is two of them; a reservation of a day waits while the second
  is outstanding (\<open>release_races_reservation\<close> below is what happens otherwise).\<close>

inductive budget_step :: "'r budget_redis \<Rightarrow> int \<Rightarrow> 'r \<times> ledger_view \<Rightarrow> 'r \<times> ledger_view \<Rightarrow> bool"
  for R :: "'r budget_redis" and L :: int where
  reserve: "0 \<le> n \<Longrightarrow> g_daily_limit g = L \<Longrightarrow> reserve_daily R ck n g r = (Some v, r') \<Longrightarrow> v \<le> L \<Longrightarrow> d = gc_reserve_day ck \<Longrightarrow>
    d \<notin> emptied w \<Longrightarrow> budget_step R L (r, w) (r', w\<lparr>held := (held w)(d := held w d + n)\<rparr>)"
| refuse: "0 \<le> n \<Longrightarrow> g_daily_limit g = L \<Longrightarrow> reserve_daily R ck n g r = (None, r') \<Longrightarrow> budget_step R L (r, w) (r', w)"
| read: "budget_step R L (r, w) (snd (daily_used R d g r), w)"
| grant: "0 \<le> n \<Longrightarrow> n \<le> held w d \<Longrightarrow>
    budget_step R L (r, w) (r, w\<lparr>held := (held w)(d := held w d - n), spent := (spent w)(d := spent w d + n)\<rparr>)"
| release: "n \<le> held w d \<Longrightarrow> 0 < n \<Longrightarrow> release_decrement R d n r = (gone, r') \<Longrightarrow>
    budget_step R L (r, w)
      (r', w\<lparr>held := (held w)(d := held w d - n), emptied := (if gone then insert d (emptied w) else emptied w)\<rparr>)"
| remove: "d \<in> emptied w \<Longrightarrow> budget_step R L (r, w) (snd (br_delete_daily R d r), w\<lparr>emptied := emptied w - {d}\<rparr>)"

definition budget_inv :: "(int \<Rightarrow> 'r \<Rightarrow> int) \<Rightarrow> int \<Rightarrow> 'r \<times> ledger_view \<Rightarrow> bool" where
  "budget_inv cnt L x \<longleftrightarrow>
     (\<forall>d. cnt d (fst x) = held (snd x) d + spent (snd x) d \<and> cnt d (fst x) \<le> L \<and> 0 \<le> held (snd x) d \<and> 0 \<le> spent (snd x) d
        \<and> (d \<in> emptied (snd x) \<longrightarrow> cnt d (fst x) = 0))"

lemma reserve_counts:
  assumes laws: "counter_laws R cnt" and r: "reserve_daily R ck n g r = (out, r')" and pos: "0 \<le> n" "0 \<le> cnt (gc_reserve_day ck) r"
  shows "\<forall>d'. d' \<noteq> gc_reserve_day ck \<longrightarrow> cnt d' r' = cnt d' r"
    and "out = None \<Longrightarrow> cnt (gc_reserve_day ck) r' = cnt (gc_reserve_day ck) r \<and> g_daily_limit g < cnt (gc_reserve_day ck) r + n"
    and "out = Some v \<Longrightarrow> v = cnt (gc_reserve_day ck) r' \<and> v = cnt (gc_reserve_day ck) r + n \<and> v \<le> g_daily_limit g"
proof -
  let ?d = "gc_reserve_day ck" and ?ttl = "py_int (gc_to_midnight ck) + DAY_TTL_SLACK"
  have ev: "br_has_eval R" using laws by (simp add: counter_laws_def)
  obtain v' r1 where e: "br_eval_reserve R ?d n (g_daily_limit g) ?ttl r = (Some v', r1)"
    and s: "(v', cnt ?d r1) = reserve_script (cnt ?d r) n (g_daily_limit g)" and o: "\<forall>d'. d' \<noteq> ?d \<longrightarrow> cnt d' r1 = cnt d' r"
    using laws unfolding counter_laws_def by meson
  have "reserve_daily R ck n g r = (if v' < 0 then None else Some v', r1)"
    using ev e by (simp add: reserve_daily_def Let_def)
  then have x: "out = (if v' < 0 then None else Some v')" "r' = r1" using r by auto
  show "\<forall>d'. d' \<noteq> ?d \<longrightarrow> cnt d' r' = cnt d' r" using o x by simp
  show "out = None \<Longrightarrow> cnt ?d r' = cnt ?d r \<and> g_daily_limit g < cnt ?d r + n"
    using x s pos by (auto simp: reserve_script_def split: if_splits)
  show "out = Some v \<Longrightarrow> v = cnt ?d r' \<and> v = cnt ?d r + n \<and> v \<le> g_daily_limit g"
    using x s pos by (auto simp: reserve_script_def split: if_splits)
qed

lemma read_counts: "counter_laws R cnt \<Longrightarrow> cnt d' (snd (daily_used R d g r)) = cnt d' r"
proof -
  assume "counter_laws R cnt"
  then obtain x r' where "br_get_daily R d r = (Some x, r')" "cnt d' r' = cnt d' r"
    unfolding counter_laws_def by metis
  then show ?thesis by (auto simp: daily_used_def split: option.split)
qed

lemma release_counts:
  assumes laws: "counter_laws R cnt" and d: "release_decrement R d n r = (gone, r')"
  shows "cnt d' r' = (if d' = d then cnt d r - n else cnt d' r)" and "gone \<longleftrightarrow> cnt d r - n \<le> 0"
proof -
  obtain r1 where "br_decrby R d n r = (Some (cnt d r - n), r1)" "cnt d r1 = cnt d r - n" "\<forall>d'. d' \<noteq> d \<longrightarrow> cnt d' r1 = cnt d' r"
    using laws unfolding counter_laws_def by metis
  then show "cnt d' r' = (if d' = d then cnt d r - n else cnt d' r)" and "gone \<longleftrightarrow> cnt d r - n \<le> 0"
    using d by (auto simp: release_decrement_def)
qed

lemma remove_counts: "counter_laws R cnt \<Longrightarrow> cnt d' (snd (br_delete_daily R d r)) = (if d' = d then 0 else cnt d' r)"
proof -
  assume "counter_laws R cnt"
  then obtain b r' where "br_delete_daily R d r = (b, r')" "cnt d r' = 0" "\<forall>d'. d' \<noteq> d \<longrightarrow> cnt d' r' = cnt d' r"
    unfolding counter_laws_def by metis
  then show ?thesis by simp
qed

lemma budget_step_inv:
  assumes "budget_step R L (r, w) (r', w')" and laws: "counter_laws R cnt" and inv: "budget_inv cnt L (r, w)"
  shows "budget_inv cnt L (r', w')"
proof -
  have inv': "cnt d r = held w d + spent w d" "cnt d r \<le> L" "0 \<le> held w d" "0 \<le> spent w d" "d \<in> emptied w \<Longrightarrow> cnt d r = 0" for d
    using inv unfolding budget_inv_def fst_conv snd_conv by metis+
  have nn: "0 \<le> cnt d r" for d using inv' [of d] by simp
  show ?thesis using assms(1)
  proof cases
    case (reserve n g ck v d)
    note c = reserve_counts [OF laws reserve(4) reserve(2) nn]
    show ?thesis using c(1) c(3) [OF refl] inv' reserve by (auto simp: budget_inv_def)
  next
    case (refuse n g ck)
    note c = reserve_counts [OF laws refuse(4) refuse(2) nn]
    have "cnt d r' = cnt d r" for d using c(1) c(2) [OF refl] by (cases "d = gc_reserve_day ck") auto
    then show ?thesis using inv' refuse by (simp add: budget_inv_def)
  next
    case (read d g)
    then show ?thesis using inv' read_counts [OF laws] by (simp add: budget_inv_def)
  next
    case (grant n d)
    then show ?thesis using inv' by (auto simp: budget_inv_def)
  next
    case (release n d gone)
    note c = release_counts [OF laws release(4)]
    have "held w d + spent w d - n \<le> L" using inv'(1,2) [of d] release(3) by linarith
    moreover have "cnt d r - n = 0" if "gone" using c(2) that release(2) inv'(1,4) [of d] by auto
    moreover have "d \<notin> emptied w" using inv'(1,4,5) [of d] release(2,3) by auto
    ultimately show ?thesis using inv' release(1,2) c(1) by (auto simp: budget_inv_def)
  next
    case (remove d)
    moreover have "0 \<le> L" using inv'(2) [of d] nn [of d] by simp
    ultimately show ?thesis using inv' remove_counts [OF laws] by (auto simp: budget_inv_def)
  qed
qed

lemma release_is_two_steps:
  \<comment> \<open>a release that nothing interrupts is its two calls, one after the other\<close>
  assumes "n \<le> held w d" "0 < n" "g_backend g = BRedis" "g_connected g" "emptied w = {}"
  shows "(budget_step R L)\<^sup>*\<^sup>* (r, w) (release_daily R d n g r, w\<lparr>held := (held w)(d := held w d - n)\<rparr>)"
proof -
  obtain gone r1 where d: "release_decrement R d n r = (gone, r1)" by (meson surj_pair)
  let ?w = "w\<lparr>held := (held w)(d := held w d - n)\<rparr>"
  have first: "budget_step R L (r, w) (r1, ?w\<lparr>emptied := (if gone then insert d (emptied w) else emptied w)\<rparr>)"
    using budget_step.release [OF assms(1,2) d] by simp
  show ?thesis
  proof (cases gone)
    case True
    have "?w\<lparr>emptied := {}\<rparr> = ?w" using assms(5) by (cases w) simp
    then have "budget_step R L (r1, ?w\<lparr>emptied := {d}\<rparr>) (snd (br_delete_daily R d r1), ?w)"
      using budget_step.remove [of d "?w\<lparr>emptied := {d}\<rparr>" R L r1] by simp
    then show ?thesis using first True d assms(2-5) by (simp add: release_daily_def)
  next
    case False
    have "?w\<lparr>emptied := emptied w\<rparr> = ?w" by (cases w) simp
    then show ?thesis using first False d assms(2-4) by (simp add: release_daily_def r_into_rtranclp)
  qed
qed

text \<open>
  C37: The processes together never overspend: whatever the order in which they reserve, give back and use
  tokens, the counter on the server is what is reserved and spent on its day, what is spent on a day
  never exceeds the daily limit, and a refused reservation takes nothing. Assumed of the server: every call on the counter
  succeeds, the reservation script is atomic, and the counter does not expire on its day; of the schedule: a request gives
  back on the day it reserved on, and no reservation of a day falls between the two calls (decrement to zero, delete) of
  a release of that day. Without either the counter can be wrong (\<open>failed_reservation_counts_as_one\<close>,
  \<open>release_races_reservation\<close>).
\<close>
theorem shared_budget_never_exceeded:
  assumes laws: "counter_laws R cnt" and fresh: "\<forall>d. cnt d r0 = 0" and L: "0 \<le> L"
    and run: "(budget_step R L)\<^sup>*\<^sup>* (r0, ledger_start) (r, w)"
  shows "cnt d r = held w d + spent w d \<and> spent w d \<le> L \<and>
    (0 \<le> n \<and> g_daily_limit g = L \<and> reserve_daily R ck n g r = (None, r') \<longrightarrow>
       cnt d r' = cnt d r \<and> L < cnt (gc_reserve_day ck) r + n)"
proof -
  have "budget_inv cnt L (r, w)" using run
  proof (induction "(r, w)" arbitrary: r w rule: rtranclp_induct)
    case base
    then show ?case using fresh L by (simp add: budget_inv_def ledger_start_def)
  next
    case (step y)
    then show ?case using budget_step_inv [OF _ laws] by (cases y) auto
  qed
  then have inv: "cnt d r = held w d + spent w d \<and> cnt d r \<le> L \<and> 0 \<le> held w d \<and> 0 \<le> spent w d" for d
    unfolding budget_inv_def by (metis fst_conv snd_conv)
  have "cnt d r' = cnt d r \<and> L < cnt (gc_reserve_day ck) r + n"
    if "0 \<le> n" "g_daily_limit g = L" "reserve_daily R ck n g r = (None, r')"
  proof -
    have "0 \<le> cnt (gc_reserve_day ck) r" using inv [of "gc_reserve_day ck"] by simp
    note c = reserve_counts [OF laws that(3,1) this]
    show ?thesis using c(1) c(2) [OF refl] that(2) by (cases "d = gc_reserve_day ck") auto
  qed
  then show ?thesis using inv [of d] by auto
qed

definition demo_redis :: "(int \<Rightarrow> int) budget_redis" where
  "demo_redis =
     \<lparr>br_get_daily = \<lambda>d r. (Some (if r d = 0 then None else Some (r d)), r), br_has_eval = True,
      br_eval_reserve = \<lambda>d n l ttl r. (case reserve_script (r d) n l of (v, c) \<Rightarrow> (Some v, r(d := c))),
      br_incrby = \<lambda>d n r. (Some (r d + n), r(d := r d + n)), br_expire_daily = \<lambda>d t r. (True, r),
      br_decrby = \<lambda>d n r. (Some (r d - n), r(d := r d - n)), br_delete_daily = \<lambda>d r. (True, r(d := 0)),
      br_zremrange = \<lambda>t r. (True, r), br_zcard = \<lambda>r. (Some 0, r), br_oldest = \<lambda>r. (Some None, r),
      br_zadd = \<lambda>t r. (True, r), br_expire_window = \<lambda>r. (True, r), br_get_block = \<lambda>r. (Some None, r),
      br_set_block = \<lambda>b r. (True, r), br_expire_block = \<lambda>t r. (True, r)\<rparr>"

lemma demo_redis_laws: "counter_laws demo_redis (\<lambda>d r. r d)"
  by (auto simp: counter_laws_def demo_redis_def reserve_script_def)

definition demo_clock :: gov_clock where
  "demo_clock = \<lparr>gc_now = 0, gc_used_day = 7, gc_gate_day = 7, gc_reserve_day = 7, gc_to_midnight = 100, gc_window = [0],
     gc_limiter = [], gc_release_day = 7, gc_record = 0, gc_file_day = 7, gc_file_ok = True\<rparr>"

definition demo_governor :: governor where
  "demo_governor = (governor_init (api_limiter_init 5 5 True) None None True 60 None True 85 95)\<lparr>g_backend := BRedis, initialized := True\<rparr>"

lemma demo_reserve: "reserve_daily demo_redis demo_clock n demo_governor c =
    (if c 7 + n \<le> 5 then (Some (c 7 + n), c(7 := c 7 + n)) else (None, c))" if "0 \<le> n" "0 \<le> c 7"
  using that
  by (auto simp: reserve_daily_def demo_redis_def demo_clock_def demo_governor_def governor_init_def api_limiter_init_def
      reserve_script_def Let_def fun_upd_idem)

lemma demo_budget_run:
  "\<exists>w :: ledger_view. (budget_step demo_redis 5)\<^sup>*\<^sup>* ((\<lambda>_. 0), ledger_start) ((\<lambda>_. 0)(7 := 3), w) \<and> spent w 7 = 2"
  \<comment> \<open>four tokens reserved, one given back, two used\<close>
proof -
  have lim: "g_daily_limit demo_governor = 5" "gc_reserve_day demo_clock = 7"
    by (simp_all add: demo_governor_def governor_init_def api_limiter_init_def demo_clock_def)
  define w1 where "w1 = ledger_start\<lparr>held := (held ledger_start)(7 := held ledger_start 7 + 4)\<rparr>"
  define w2 where "w2 = w1\<lparr>held := (held w1)(7 := held w1 7 - 1), emptied := (if False then insert 7 (emptied w1) else emptied w1)\<rparr>"
  define w3 where "w3 = w2\<lparr>held := (held w2)(7 := held w2 7 - 2), spent := (spent w2)(7 := spent w2 7 + 2)\<rparr>"
  have h: "held w1 7 = 4" "held w2 7 = 3" "spent w3 7 = 2" by (simp_all add: w1_def w2_def w3_def ledger_start_def)
  have r: "reserve_daily demo_redis demo_clock 4 demo_governor (\<lambda>_. 0) = (Some 4, (\<lambda>_. 0)(7 := 4))"
    using demo_reserve [of 4 "\<lambda>_. 0"] by simp
  have d: "release_decrement demo_redis 7 1 ((\<lambda>_. 0)(7 := 4)) = (False, (\<lambda>_. 0)(7 := 3))"
    by (simp add: release_decrement_def demo_redis_def)
  have "budget_step demo_redis 5 ((\<lambda>_. 0), ledger_start) ((\<lambda>_. 0)(7 := 4), w1)"
    unfolding w1_def by (rule budget_step.reserve [OF _ lim(1) r _ lim(2) [symmetric]]) (simp_all add: ledger_start_def)
  moreover have "budget_step demo_redis 5 ((\<lambda>_. 0)(7 := 4), w1) ((\<lambda>_. 0)(7 := 3), w2)"
    unfolding w2_def by (rule budget_step.release [OF _ _ d]) (simp_all add: h)
  moreover have "budget_step demo_redis 5 ((\<lambda>_. 0)(7 := 3), w2) ((\<lambda>_. 0)(7 := 3), w3)"
    unfolding w3_def by (rule budget_step.grant) (simp_all add: h)
  ultimately have "(budget_step demo_redis 5)\<^sup>*\<^sup>* ((\<lambda>_. 0), ledger_start) ((\<lambda>_. 0)(7 := 3), w3)"
    by (meson converse_rtranclp_into_rtranclp rtranclp.rtrancl_refl)
  then show ?thesis using h by blast
qed

theorem shared_budget_never_exceeded_witness:
  "\<exists>w :: ledger_view. ((\<lambda>_. 0)(7 := 3)) (7 :: int) = held w 7 + spent w 7 \<and> spent w 7 = 2 \<and> spent w 7 \<le> 5
     \<and> reserve_daily demo_redis demo_clock 3 demo_governor ((\<lambda>_. 0)(7 := 3)) = (None, (\<lambda>_. 0)(7 := 3)) \<and> (5 :: int) < 3 + 3"
proof -
  obtain w where w: "(budget_step demo_redis 5)\<^sup>*\<^sup>* ((\<lambda>_. 0), ledger_start) ((\<lambda>_. 0)(7 := 3), w)" "spent w 7 = 2"
    using demo_budget_run by blast
  have r: "reserve_daily demo_redis demo_clock 3 demo_governor ((\<lambda>_. 0)(7 := 3)) = (None, (\<lambda>_. 0)(7 := 3))"
    using demo_reserve [of 3 "(\<lambda>_. 0)(7 := 3)"] by simp
  have lim: "g_daily_limit demo_governor = 5" "gc_reserve_day demo_clock = 7"
    by (simp_all add: demo_governor_def governor_init_def api_limiter_init_def demo_clock_def)
  show ?thesis
    using shared_budget_never_exceeded [of demo_redis "\<lambda>d r. r d" "\<lambda>_. 0" 5 "(\<lambda>_. 0)(7 := 3)" w 7 3
        demo_governor demo_clock "(\<lambda>_. 0)(7 := 3)"] demo_redis_laws w r lim
    by (intro exI [of _ w]) simp
qed

subsection \<open>The cooldown\<close>

lemma initialized_ensure: "initialized g \<Longrightarrow> ensure_initialized R bt g r = (g, r)"
  by (simp add: ensure_initialized_def)

lemma ensure_initialized_initialized: "initialized (fst (ensure_initialized R bt g r))"
  by (simp add: ensure_initialized_def Let_def split: prod.splits)

lemma persist_block_keeps:
  "persist_block R day ok g r file = (g', r', file') \<Longrightarrow> g_block g' = g_block g \<and> initialized g' = initialized g"
  by (auto simp: persist_block_def persist_file_def split: if_splits prod.splits bool.splits)

text \<open>
  A redirect stops every call: after an HTTP 302 was reported at \<open>now\<close>, each check and each request of
  this process before the end of the cooldown is refused as blocked, without a call to the server's counters or a
  token of the limiter, and an HTTP 200 in that time does not lift the block.
\<close>
theorem cooldown_blocks:
  assumes rep: "report_302 R bt now day ok location g0 r0 file = (g, r, file')"
    and soon: "gc_now ck < now + block_cooldown (fst (ensure_initialized R bt g0 r0))"
  shows "check_allowed R bt' ck today clock ff critical g r2 = (Blocked, g, r2) \<and>
    gov_acquire R bt' ck category tokens endpoint ff critical g r2 file2 = (Blocked, g, r2, file2) \<and>
    report_ok R bt' (gc_now ck) day' ok' g r2 file2 = (g, r2, file2)"
proof -
  obtain g1 r1 where e: "ensure_initialized R bt g0 r0 = (g1, r1)" by (metis surj_pair)
  have i1: "initialized g1" using ensure_initialized_initialized [of R bt g0 r0] e by simp
  let ?b = "\<lparr>blocked_until = now + block_cooldown g1, last_302_at = now, last_302_location = location,
    block_count = block_count (g_block g1) + 1\<rparr>"
  have "persist_block R day ok (g1\<lparr>g_block := ?b\<rparr>) r1 file = (g, r, file')" using rep e by (simp add: report_302_def)
  from persist_block_keeps [OF this] have k: "g_block g = ?b" "initialized g" using i1 by simp_all
  have blocked: "is_blocked_now (gc_now ck) g" using soon k e by (simp add: is_blocked_now_def)
  show ?thesis
    using blocked
    by (simp add: check_allowed_def gov_acquire_def report_ok_def initialized_ensure [OF k(2)] split: option.split)
qed

theorem cooldown_blocks_witness:
  "\<exists>g r f. report_302 demo_redis \<lparr>bt_connects = True, bt_today = 7, bt_file = Inr None\<rparr> 0 7 True ''/x'' demo_governor (\<lambda>_. 0) None = (g, r, f) \<and>
     fst (check_allowed demo_redis \<lparr>bt_connects = True, bt_today = 7, bt_file = Inr None\<rparr> demo_clock 7 0 None True g r) = Blocked"
proof -
  let ?bt = "\<lparr>bt_connects = True, bt_today = 7, bt_file = Inr None\<rparr>"
  obtain g r f where rep: "report_302 demo_redis ?bt 0 7 True ''/x'' demo_governor (\<lambda>_. 0) None = (g, r, f)" by (metis surj_pair)
  have "ensure_initialized demo_redis ?bt demo_governor (\<lambda>_. 0) = (demo_governor, \<lambda>_. 0)"
    by (rule initialized_ensure) (simp add: demo_governor_def)
  then have "gc_now demo_clock < 0 + block_cooldown (fst (ensure_initialized demo_redis ?bt demo_governor (\<lambda>_. 0)))"
    by (simp add: demo_clock_def demo_governor_def governor_init_def)
  from cooldown_blocks [OF rep this, of ?bt 7 0 None True r] rep show ?thesis by auto
qed

lemma block_cleared_only_after_cooldown:
  "report_ok R bt now day ok g r file = (g', r', file') \<Longrightarrow> initialized g \<Longrightarrow> g_block g' \<noteq> g_block g \<Longrightarrow>
     blocked_until (g_block g) \<le> now \<and> g_block g' = no_block"
  by (auto simp: report_ok_def initialized_ensure is_blocked_now_def not_less split: if_splits dest!: persist_block_keeps)

lemma cooldown_alone_unblocks:
  \<comment> \<open>no HTTP 200 is needed: when the cooldown is over, calls are let through again\<close>
  "blocked_until (g_block g) \<le> now \<Longrightarrow> \<not> is_blocked_now now g"
  by (simp add: is_blocked_now_def)

subsection \<open>The tiers of the budget\<close>

lemma soft_ceiling:
  assumes "0 < g_daily_limit g" "warn_pct g \<le> soft_reject_pct g"
  shows "fst (gate_daily_usage today used critical g) =
    (if \<not> critical \<and> soft_reject_pct g \<le> used * 100 div g_daily_limit g then Some SoftReject else None)"
  using assms by (auto simp: gate_daily_usage_def Let_def)

lemma warned_once_a_day: "warned_on g = Some today \<Longrightarrow> snd (gate_daily_usage today used critical g) = g"
  by (simp add: gate_daily_usage_def Let_def)

subsection \<open>What escapes the shared budget\<close>

lemma enforce_counts: "counter_laws R cnt \<Longrightarrow> cnt d (snd (enforce_5min R nows ff g r)) = cnt d r"
proof (induction R nows ff g r rule: enforce_5min.induct)
  case (2 R now nows ff g r)
  have laws: "cnt d (snd (br_zremrange R t r)) = cnt d r" "cnt d (snd (br_zcard R r)) = cnt d r" "cnt d (snd (br_oldest R r)) = cnt d r"
    for t r using 2(2) unfolding counter_laws_def by blast+
  obtain a r1 where a: "br_zremrange R (now - FIVE_MINUTES_SECONDS) r = (a, r1)" by (metis surj_pair)
  obtain b r2 where b: "br_zcard R r1 = (b, r2)" by (metis surj_pair)
  obtain c r3 where c: "br_oldest R r2 = (c, r3)" by (metis surj_pair)
  have e: "cnt d r1 = cnt d r" "cnt d r2 = cnt d r1" "cnt d r3 = cnt d r2"
    using laws(1) [of "now - FIVE_MINUTES_SECONDS" r] laws(2) [of r1] laws(3) [of r2] a b c by simp_all
  show ?case
    using 2 a b c e by (auto split: bool.split option.split)
qed simp

lemma waiting_request_uncounted:
  \<comment> \<open>a request that may wait (\<open>fail_fast\<close> off) reserves nothing, and nothing else counts it on the server: the shared
    daily counter does not move\<close>
  assumes laws: "counter_laws R cnt" and g: "initialized g" "g_backend g = BRedis" "g_connected g"
    and a: "gov_acquire R bt ck category tokens endpoint (Some False) critical g r file = (Allowed, g', r', file')"
  shows "cnt d r' = cnt d r"
proof -
  have laws': "cnt d (snd (br_zadd R t r)) = cnt d r" "cnt d (snd (br_zremrange R t r)) = cnt d r" "cnt d (snd (br_expire_window R r)) = cnt d r"
    for t r using laws unfolding counter_laws_def by blast+
  obtain g2 r2 where w: "window_and_limiter R ck category tokens endpoint False g r = (Allowed, g2, r2)"
    and u: "record_used R ck g2 r2 file = (g', r', file')"
    using a g initialized_ensure [OF g(1), of R bt r]
    by (auto simp: gov_acquire_def split: if_splits prod.splits budget_outcome.splits)
  have "r2 = snd (enforce_5min R (gc_window ck) False g r)" "g_backend g2 = BRedis" "g_connected g2"
    using w g by (auto simp: window_and_limiter_def split: prod.splits option.splits)
  moreover have "cnt d r' = cnt d r2" if "g_backend g2 = BRedis" "g_connected g2"
  proof -
    obtain x r3 where x: "br_zadd R (gc_record ck) r2 = (x, r3)" by (metis surj_pair)
    obtain y r4 where y: "br_zremrange R (gc_record ck - FIVE_MINUTES_SECONDS) r3 = (y, r4)" by (metis surj_pair)
    show ?thesis
      using u that x y laws'(1) [of "gc_record ck" r2] laws'(2) [of "gc_record ck - FIVE_MINUTES_SECONDS" r3] laws'(3) [of r4]
      by (auto simp: record_used_def split: bool.splits)
  qed
  ultimately show ?thesis using enforce_counts [OF laws] by simp
qed

lemma release_races_reservation:
  \<comment> \<open>giving back the last reserved tokens is two calls; a reservation made between them is erased by the second\<close>
  assumes laws: "counter_laws R cnt" and n: "cnt d r = n" and m: "0 < m" "m \<le> L"
    and d1: "br_decrby R d n r = (Some 0, r1)" and rs: "br_eval_reserve R d m L ttl r1 = (Some v, r2)"
    and d2: "br_delete_daily R d r2 = (b, r3)"
  shows "v = m \<and> cnt d r3 = 0"
proof -
  have "cnt d r1 = 0" using laws n d1 unfolding counter_laws_def by (metis diff_self prod.inject)
  moreover have "(v, cnt d r2) = reserve_script (cnt d r1) m L" using laws rs unfolding counter_laws_def by (metis option.inject prod.inject)
  moreover have "cnt d r3 = 0" using laws d2 unfolding counter_laws_def by (metis prod.inject)
  ultimately show ?thesis using m by (simp add: reserve_script_def)
qed

lemma failed_reservation_counts_as_one:
  \<comment> \<open>when the script cannot run, the read that stands in for it reserves nothing, yet the request goes on as if it had, and a later
    refusal gives back tokens that were never taken\<close>
  assumes "br_has_eval R" and "br_eval_reserve R (gc_reserve_day ck) n (g_daily_limit g) (py_int (gc_to_midnight ck) + DAY_TTL_SLACK) r = (None, r1)"
    and "daily_used R (gc_reserve_day ck) g r1 = (used, r2)"
  shows "reserve_daily R ck n g r = (Some used, r2)"
  using assms by (simp add: reserve_daily_def Let_def)

lemma yesterday_carried_over:
  \<comment> \<open>a limiter used on an earlier day keeps that day's count when the governor starts\<close>
  assumes "g_backend g = BFile" "daily_date (g_limiter g) = Some d" "d < today" "file_daily_count g \<le> daily_count (g_limiter g)"
  shows "daily_count (g_limiter (fst (seed_limiter_from_persisted R today g r))) = daily_count (g_limiter g)"
  using assms by (simp add: seed_limiter_from_persisted_def Let_def)

end
