(* ===== verification/Access_Control.thy ===== *)
theory Access_Control
  imports Prelude
begin

text \<open>
  Who may do what: the roles of the platform and their hierarchy (\<open>core/enums/rbac.py\<close>, with the guard
  \<open>require_roles\<close> of \<open>apps/api/dependencies.py\<close>), and the operational roles of the commodity exchange desk
  with their permissions, the segregation of duties and the dual approval (\<open>core/security/ime_rbac.py\<close>).

  A role name that comes from a token or a request is a string; \<open>Role(s)\<close>, which raises for an unknown
  name, is a lookup into an option.
\<close>

subsection \<open>The hierarchy of roles\<close>

datatype role = ADMIN | ANALYST | USER | VIEWER

fun role_value :: "role \<Rightarrow> string" where
  "role_value ADMIN = ''admin''"
| "role_value ANALYST = ''analyst''"
| "role_value USER = ''user''"
| "role_value VIEWER = ''viewer''"

definition ROLE_HIERARCHY :: "role list" where
  "ROLE_HIERARCHY = [ADMIN, ANALYST, USER, VIEWER]"

definition role_of :: "string \<Rightarrow> role option" where
  \<comment> \<open>\<open>Role(s)\<close>\<close>
  "role_of s = find (\<lambda>r. role_value r = s) ROLE_HIERARCHY"

fun index_in :: "'a list \<Rightarrow> 'a \<Rightarrow> nat" where
  "index_in [] x = 0"
| "index_in (y # ys) x = (if y = x then 0 else Suc (index_in ys x))"

definition role_rank :: "role \<Rightarrow> nat" where
  "role_rank r = index_in ROLE_HIERARCHY r"

text \<open>\<open>user_roles\<close> is a list, or a text with commas.\<close>

fun split_commas :: "string \<Rightarrow> string list" where
  "split_commas [] = [[]]"
| "split_commas (c # cs) =
     (if c = CHR '','' then [] # split_commas cs
      else (case split_commas cs of w # ws \<Rightarrow> (c # w) # ws | [] \<Rightarrow> [[c]]))"

definition is_blank :: "char \<Rightarrow> bool" where
  "is_blank c \<longleftrightarrow> c \<in> {CHR '' '', CHR 0x09, CHR 0x0A, CHR 0x0B, CHR 0x0C, CHR 0x0D}"

definition strip :: "string \<Rightarrow> string" where
  "strip s = rev (dropWhile is_blank (rev (dropWhile is_blank s)))"

definition roles_of_text :: "string \<Rightarrow> string list" where
  "roles_of_text s = filter (\<lambda>w. w \<noteq> []) (map strip (split_commas s))"

datatype role_claim = Role_list "string list" | Role_text string

fun claim_roles :: "role_claim \<Rightarrow> string list" where
  "claim_roles (Role_list rs) = rs"
| "claim_roles (Role_text s) = roles_of_text s"

fun at_least :: "nat \<Rightarrow> string list \<Rightarrow> bool" where
  \<comment> \<open>the loop over the user's roles\<close>
  "at_least n [] = False"
| "at_least n (s # ss) =
     (case role_of s of
        None \<Rightarrow> at_least n ss
      | Some r \<Rightarrow> if role_rank r \<le> n then True else at_least n ss)"

definition has_role :: "role_claim \<Rightarrow> string \<Rightarrow> bool" where
  "has_role user required =
     (let rs = claim_roles user
      in if role_value ADMIN \<in> set rs then True
         else (case role_of required of None \<Rightarrow> False | Some q \<Rightarrow> at_least (role_rank q) rs))"

fun any_role :: "string list \<Rightarrow> string list \<Rightarrow> py_error + bool" where
  \<comment> \<open>the loop over the listed roles: \<open>Role(role)\<close> is not guarded\<close>
  "any_role rs [] = Inr False"
| "any_role rs (q # qs) =
     (case role_of q of
        None \<Rightarrow> Inl ValueError
      | Some r \<Rightarrow> if role_value r \<in> set rs then Inr True else any_role rs qs)"

definition has_any_role :: "role_claim \<Rightarrow> string list \<Rightarrow> py_error + bool" where
  "has_any_role user qs =
     (let rs = claim_roles user in if role_value ADMIN \<in> set rs then Inr True else any_role rs qs)"

subsection \<open>The guard of an endpoint\<close>

datatype http_outcome = Passed | Refused int | Failed py_error

definition require_roles :: "string list \<Rightarrow> role_claim \<Rightarrow> http_outcome" where
  "require_roles qs user =
     (case has_any_role user qs of
        Inl e \<Rightarrow> Failed e
      | Inr b \<Rightarrow> if b then Passed else Refused 403)"

subsection \<open>The desk's roles and permissions\<close>

datatype ime_role = IME_VIEWER | IME_TRADER | IME_QUANT | IME_ADMIN

fun ime_value :: "ime_role \<Rightarrow> string" where
  "ime_value IME_VIEWER = ''viewer''"
| "ime_value IME_TRADER = ''trader''"
| "ime_value IME_QUANT = ''quant''"
| "ime_value IME_ADMIN = ''admin''"

definition ime_roles :: "ime_role list" where
  "ime_roles = [IME_VIEWER, IME_TRADER, IME_QUANT, IME_ADMIN]"

definition ime_role_of :: "string \<Rightarrow> ime_role option" where
  \<comment> \<open>\<open>IMERole(s)\<close>\<close>
  "ime_role_of s = find (\<lambda>r. ime_value r = s) ime_roles"

fun ROLE_PERMISSIONS :: "ime_role \<Rightarrow> string list" where
  "ROLE_PERMISSIONS IME_VIEWER = [''signal:read'', ''trade_card:read'', ''model:read'', ''risk:read'']"
| "ROLE_PERMISSIONS IME_TRADER =
     [''signal:read'', ''trade_card:read'', ''trade_card:approve'', ''trade_card:reject'', ''execution:read'']"
| "ROLE_PERMISSIONS IME_QUANT =
     [''signal:read'', ''model:read'', ''model:write'', ''model:calibrate'', ''backtest:read'', ''backtest:write'']"
| "ROLE_PERMISSIONS IME_ADMIN =
     [''signal:read'', ''risk:read'', ''risk:write'', ''kill_switch:activate'', ''kill_switch:revive'',
      ''policy:write'', ''config:write'']"

definition role_has_permission :: "string \<Rightarrow> string \<Rightarrow> bool" where
  "role_has_permission s p = (case ime_role_of s of None \<Rightarrow> False | Some r \<Rightarrow> p \<in> set (ROLE_PERMISSIONS r))"

definition user_has_permission :: "string list \<Rightarrow> string \<Rightarrow> bool" where
  "user_has_permission ss p = list_ex (\<lambda>s. role_has_permission s p) ss"

definition SEGREGATED_PERMISSION_GROUPS :: "string list list" where
  "SEGREGATED_PERMISSION_GROUPS =
     [[''model:write'', ''risk:write''], [''policy:write'', ''trade_card:approve''], [''kill_switch:revive'', ''model:write'']]"

definition is_segregated_violation :: "string list \<Rightarrow> string list \<Rightarrow> bool" where
  "is_segregated_violation ss perms =
     (let rs = List.map_filter ime_role_of ss
      in list_ex (\<lambda>g. list_all (\<lambda>p. p \<in> set perms) g
           \<and> list_ex (\<lambda>r. list_all (role_has_permission (ime_value r)) g) rs) SEGREGATED_PERMISSION_GROUPS)"

definition dual_approval_required :: "string \<Rightarrow> bool" where
  "dual_approval_required p \<longleftrightarrow> p \<in> {''kill_switch:revive'', ''risk:write'', ''policy:write''}"

datatype approval = No_dual_needed | Too_few_approvers | Segregation_violated | Dual_satisfied

definition dual_approval_check :: "string list \<Rightarrow> string \<Rightarrow> bool \<times> approval" where
  "dual_approval_check approvers p =
     (if \<not> dual_approval_required p then (True, No_dual_needed)
      else if length (remdups approvers) < 2 then (False, Too_few_approvers)
      else if is_segregated_violation approvers [p] then (False, Segregation_violated)
      else (True, Dual_satisfied))"

definition check_permission :: "string list \<Rightarrow> string \<Rightarrow> bool \<times> string list" where
  \<comment> \<open>the endpoint for the admin panel: whether, and by which of the caller's roles\<close>
  "check_permission roles p = (let granted = filter (\<lambda>s. role_has_permission s p) roles in (granted \<noteq> [], granted))"

subsection \<open>The hierarchy\<close>

lemma role_of_value [simp]: "role_of (role_value r) = Some r"
  by (cases r) (simp_all add: role_of_def ROLE_HIERARCHY_def)

lemma role_ofD: "role_of s = Some r \<Longrightarrow> s = role_value r"
  by (auto simp: role_of_def find_Some_iff)

lemma role_rank_simps [simp]: "role_rank ADMIN = 0" "role_rank ANALYST = 1" "role_rank USER = 2" "role_rank VIEWER = 3"
  by (simp_all add: role_rank_def ROLE_HIERARCHY_def)

lemma at_least_iff: "at_least n ss \<longleftrightarrow> (\<exists>r. role_value r \<in> set ss \<and> role_rank r \<le> n)"
proof (induction ss)
  case (Cons s ss)
  then show ?case by (cases "role_of s") (auto dest: role_ofD)
qed simp

text \<open>A role carries the rights of every lower one: a user has a known role exactly if one of the names in the token is a
  role of at least its privilege, so what a role opens stays open to the roles above it; of an unknown role only
  administrators are held to have it. Names that are no roles change nothing.\<close>

theorem has_role_follows_hierarchy:
  "has_role user (role_value q) = (\<exists>r. role_value r \<in> set (claim_roles user) \<and> role_rank r \<le> role_rank q)
    \<and> (role_rank q \<le> role_rank q' \<longrightarrow> has_role user (role_value q) \<longrightarrow> has_role user (role_value q'))
    \<and> (role_of s = None \<longrightarrow> has_role user s = (''admin'' \<in> set (claim_roles user)))
    \<and> has_role (Role_list (filter (\<lambda>s. role_of s \<noteq> None) ss)) t = has_role (Role_list ss) t"
proof -
  have 1: "has_role user (role_value q) = (\<exists>r. role_value r \<in> set (claim_roles user) \<and> role_rank r \<le> role_rank q)" for q
    by (auto simp: has_role_def Let_def at_least_iff intro: exI [of _ ADMIN])
  have "role_value ADMIN \<in> set (filter (\<lambda>s. role_of s \<noteq> None) ss) \<longleftrightarrow> role_value ADMIN \<in> set ss" for ss
    by (simp del: role_value.simps)
  moreover have "at_least n (filter (\<lambda>s. role_of s \<noteq> None) ss) = at_least n ss" for n
    by (auto simp: at_least_iff)
  ultimately have "has_role (Role_list (filter (\<lambda>s. role_of s \<noteq> None) ss)) t = has_role (Role_list ss) t"
    by (simp add: has_role_def Let_def del: role_value.simps split: option.split)
  with 1 show ?thesis by (auto simp: has_role_def Let_def intro: order_trans)
qed

theorem has_role_follows_hierarchy_witness:
  "has_role (Role_text ''x, analyst'') ''user'' \<and> \<not> has_role (Role_text ''x, analyst'') ''admin''"
proof -
  have c: "set (claim_roles (Role_text ''x, analyst'')) = {''x'', ''analyst''}"
    by (simp add: roles_of_text_def strip_def is_blank_def insert_commute)
  have "role_value r \<in> {''x'', ''analyst''} \<longleftrightarrow> r = ANALYST" for r by (cases r) simp_all
  then show ?thesis
    using has_role_follows_hierarchy [of "Role_text ''x, analyst''" USER USER "''''" "[]" "''''"]
      has_role_follows_hierarchy [of "Role_text ''x, analyst''" ADMIN ADMIN "''''" "[]" "''''"]
    by (simp only: c) simp
qed

lemma any_role_iff:
  "any_role rs qs =
     (case find (\<lambda>q. role_of q = None \<or> q \<in> set rs) qs of
        None \<Rightarrow> Inr False | Some q \<Rightarrow> if role_of q = None then Inl ValueError else Inr True)"
  by (induction qs) (auto split: option.splits dest: role_ofD)

lemma any_role_known: "\<forall>q \<in> set qs. role_of q \<noteq> None \<Longrightarrow> any_role rs qs = Inr (\<exists>q \<in> set qs. q \<in> set rs)"
  by (induction qs) (auto dest: role_ofD)

lemma require_roles_exact:
  assumes "\<forall>q \<in> set qs. role_of q \<noteq> None"
  shows "require_roles qs user =
    (if \<exists>s \<in> set (claim_roles user). s = ''admin'' \<or> s \<in> set qs then Passed else Refused 403)"
  using any_role_known [OF assms] by (auto simp: require_roles_def has_any_role_def Let_def)

lemma guard_ignores_hierarchy:
  \<comment> \<open>the guard does not follow the hierarchy: an analyst is refused where a user is let in\<close>
  "has_role (Role_list [''analyst'']) ''user'' \<and> require_roles [''user''] (Role_list [''analyst'']) = Refused 403"
  by (simp add: has_role_def require_roles_def has_any_role_def role_of_def ROLE_HIERARCHY_def Let_def)

lemma guard_raises:
  \<comment> \<open>and an exchange role as the guard raises for everyone but administrators\<close>
  "require_roles [''quant''] (Role_list [''quant'']) = Failed ValueError"
  by (simp add: require_roles_def has_any_role_def role_of_def ROLE_HIERARCHY_def Let_def)

subsection \<open>Segregation of duties\<close>

lemma ime_role_of_value [simp]: "ime_role_of (ime_value r) = Some r"
  by (cases r) (simp_all add: ime_role_of_def ime_roles_def)

lemma ime_role_ofD: "ime_role_of s = Some r \<Longrightarrow> s = ime_value r"
  by (auto simp: ime_role_of_def find_Some_iff)

lemma no_role_spans_group:
  assumes "g \<in> set SEGREGATED_PERMISSION_GROUPS"
  shows "\<exists>p \<in> set g. \<not> role_has_permission s p"
proof -
  have "list_all (\<lambda>g. list_all (\<lambda>r. list_ex (\<lambda>p. p \<notin> set (ROLE_PERMISSIONS r)) g) ime_roles) SEGREGATED_PERMISSION_GROUPS"
    by code_simp
  then have r: "\<forall>r \<in> set ime_roles. \<exists>p \<in> set g. p \<notin> set (ROLE_PERMISSIONS r)"
    using assms unfolding list_all_iff list_ex_iff by blast
  have "g \<noteq> []" using assms by (auto simp: SEGREGATED_PERMISSION_GROUPS_def)
  moreover have "r \<in> set ime_roles" for r by (cases r) (simp_all add: ime_roles_def)
  ultimately show ?thesis using r by (cases "ime_role_of s") (auto simp: role_has_permission_def)
qed

lemma never_violated: "\<not> is_segregated_violation ss perms"
  using no_role_spans_group unfolding is_segregated_violation_def Let_def list_ex_iff list_all_iff by blast

lemma dual_check_kill:
  "fst (dual_approval_check approvers ''kill_switch:revive'') \<longleftrightarrow> 2 \<le> card (set approvers)"
  by (simp add: dual_approval_check_def dual_approval_required_def never_violated length_remdups_card_conv not_less)

text \<open>Duties are split in the roles themselves: no role holds all the permissions of a segregated group, so no single name
  can change a model and a risk limit, or set policy and approve a trade, and of a group at least two roles have to sign. A permission that needs dual
  approval is granted exactly for two distinct approvers, any other one for whatever list; the check never reports a violation of segregation.\<close>

theorem duties_are_split:
  "(\<forall>s. \<forall>g \<in> set SEGREGATED_PERMISSION_GROUPS. \<exists>p \<in> set g. \<not> role_has_permission s p)
    \<and> (g \<in> set SEGREGATED_PERMISSION_GROUPS \<longrightarrow> (\<forall>p \<in> set g. user_has_permission ss p) \<longrightarrow> 2 \<le> card (set ss))
    \<and> fst (dual_approval_check approvers p) = (dual_approval_required p \<longrightarrow> 2 \<le> card (set approvers))
    \<and> snd (dual_approval_check approvers p) \<noteq> Segregation_violated"
proof -
  have "2 \<le> card (set ss)" if g: "g \<in> set SEGREGATED_PERMISSION_GROUPS" and all: "\<forall>p \<in> set g. user_has_permission ss p"
  proof (rule ccontr)
    assume "\<not> 2 \<le> card (set ss)"
    then have c: "card (set ss) \<le> 1" by simp
    have "g \<noteq> []" using g by (auto simp: SEGREGATED_PERMISSION_GROUPS_def)
    then obtain s where s: "s \<in> set ss" using all by (cases g) (auto simp: user_has_permission_def list_ex_iff)
    have "\<forall>t \<in> set ss. t = s" using c s card_le_Suc0_iff_eq [of "set ss"] by simp
    then have "\<forall>p \<in> set g. role_has_permission s p" using all by (auto simp: user_has_permission_def list_ex_iff)
    then show False using no_role_spans_group [OF g, of s] by blast
  qed
  moreover have "fst (dual_approval_check approvers p) = (dual_approval_required p \<longrightarrow> 2 \<le> card (set approvers))"
    "snd (dual_approval_check approvers p) \<noteq> Segregation_violated"
    by (auto simp: dual_approval_check_def never_violated length_remdups_card_conv not_less)
  ultimately show ?thesis using no_role_spans_group by blast
qed

theorem duties_are_split_witness:
  "(\<forall>p \<in> {''model:write'', ''risk:write''}. user_has_permission [''quant'', ''admin''] p)
    \<and> 2 \<le> card (set [''quant'', ''admin'']) \<and> \<not> fst (dual_approval_check [''a''] ''risk:write'')"
proof -
  have "user_has_permission [''quant'', ''admin''] ''model:write'' \<and> user_has_permission [''quant'', ''admin''] ''risk:write''
      \<and> [''model:write'', ''risk:write''] \<in> set SEGREGATED_PERMISSION_GROUPS \<and> dual_approval_required ''risk:write''"
    by code_simp
  then show ?thesis
    using duties_are_split [of "[''model:write'', ''risk:write'']" "[''quant'', ''admin'']" "[''a'']" "''risk:write''"] by simp
qed

lemma approvers_need_no_role:
  \<comment> \<open>any two distinct texts revive: that the approvers hold a role, or the permission, is not checked\<close>
  "dual_approval_check [''x'', ''y''] ''kill_switch:revive'' = (True, Dual_satisfied)
    \<and> \<not> user_has_permission [''x'', ''y''] ''kill_switch:revive''"
  by code_simp

end
