(* ===== verification/Kill_Switch.thy ===== *)
theory Kill_Switch
  imports Cache_Manager Access_Control
begin

text \<open>
  The system-wide kill switch (\<open>services/kill_switch.py\<close>) with its two endpoints
  (\<open>apps/api/endpoints/system.py\<close>), on the three-layer cache of \<open>Cache_Manager\<close> and the approvals of
  \<open>Access_Control\<close>.

  A process has its cache manager and the mirror of the flag (\<open>_LOCAL_STATE\<close>); the server is shared. The
  texts that the JSON library makes of a state and of an event, and what it reads back, are arguments
  (\<open>ks_codec\<close>), as is the text of a time stamp in a key. The clock is read once for the state and once for
  the event. An operation consists of the write to the cache, which waits for the server, the update of the
  mirror and the record of the event; each is a definition, so that interleavings can be stated.
\<close>

subsection \<open>State\<close>

record kill_state =
  k_killed :: bool
  k_by :: string
  k_reason :: string
  k_at :: pytime

definition kill_state_init :: kill_state where
  "kill_state_init = \<lparr>k_killed = False, k_by = [], k_reason = [], k_at = 0\<rparr>"

datatype kill_event_kind = Activated | Deactivated

record kill_event =
  ev_kind :: kill_event_kind
  ev_actor :: string
  ev_reason :: string
  ev_timestamp :: pytime

record 'v ks_codec =
  kc_dumps :: "kill_state \<Rightarrow> 'v"
  kc_loads :: "'v \<Rightarrow> py_error + kill_state option" \<comment> \<open>\<open>Inr None\<close>: empty, or not a state\<close>
  kc_event :: "kill_event \<Rightarrow> 'v"
  kc_stamp :: "pytime \<Rightarrow> string"

record 'v process =
  pr_cache :: "'v cache_manager"
  pr_mirror :: kill_state

definition redis_key :: string where "redis_key = ''system:kill_switch:state''"
definition history_prefix :: string where "history_prefix = ''system:kill_switch:history:''"
definition history_ttl :: int where "history_ttl = 90 * 24 * 3600"

subsection \<open>The cache\<close>

definition read_state ::
  "'v ks_codec \<Rightarrow> ('v, 'b, 'r) redis_env \<Rightarrow> 'v process \<times> 'r \<Rightarrow> (py_error + kill_state option) \<times> 'v process \<times> 'r" where
  \<comment> \<open>\<open>_read_redis\<close>\<close>
  "read_state kc env st =
     (case st of (p, r) \<Rightarrow>
        (case cm_get env redis_key (pr_cache p, r) of
           (res, m, r1) \<Rightarrow>
             ((case res of
                 Inl e \<Rightarrow> Inr None
               | Inr None \<Rightarrow> Inr None
               | Inr (Some raw) \<Rightarrow> kc_loads kc raw), p\<lparr>pr_cache := m\<rparr>, r1)))"

definition write_state ::
  "'v ks_codec \<Rightarrow> ('v, 'b, 'r) redis_env \<Rightarrow> kill_state \<Rightarrow> 'v process \<times> 'r \<Rightarrow> 'v process \<times> 'r" where
  \<comment> \<open>\<open>_write_redis\<close>\<close>
  "write_state kc env s st =
     (case st of (p, r) \<Rightarrow>
        (case cm_set env redis_key (Some (kc_dumps kc s)) None (pr_cache p, r) of (m, r1) \<Rightarrow> (p\<lparr>pr_cache := m\<rparr>, r1)))"

definition append_event ::
  "'v ks_codec \<Rightarrow> ('v, 'b, 'r) redis_env \<Rightarrow> kill_event \<Rightarrow> 'v process \<times> 'r \<Rightarrow> 'v process \<times> 'r" where
  "append_event kc env e st =
     (case st of (p, r) \<Rightarrow>
        (case cm_set env (history_prefix @ kc_stamp kc (ev_timestamp e)) (Some (kc_event kc e)) (Some history_ttl) (pr_cache p, r) of
           (m, r1) \<Rightarrow> (p\<lparr>pr_cache := m\<rparr>, r1)))"

definition set_mirror :: "kill_state \<Rightarrow> 'v process \<times> 'r \<Rightarrow> 'v process \<times> 'r" where
  "set_mirror s st = (case st of (p, r) \<Rightarrow> (p\<lparr>pr_mirror := s\<rparr>, r))"

subsection \<open>The switch\<close>

definition is_killed :: "'v process \<Rightarrow> bool" where
  "is_killed p = k_killed (pr_mirror p)"

definition status :: "'v process \<Rightarrow> kill_state" where
  "status p = pr_mirror p"

definition refresh ::
  "'v ks_codec \<Rightarrow> ('v, 'b, 'r) redis_env \<Rightarrow> 'v process \<times> 'r \<Rightarrow> (py_error + kill_state) \<times> 'v process \<times> 'r" where
  "refresh kc env st =
     (case read_state kc env st of
        (Inl e, st1) \<Rightarrow> (Inl e, st1)
      | (Inr None, p, r) \<Rightarrow> (Inr (status p), p, r)
      | (Inr (Some s), st1) \<Rightarrow> (case set_mirror s st1 of (p, r) \<Rightarrow> (Inr (status p), p, r)))"

definition kill ::
  "'v ks_codec \<Rightarrow> ('v, 'b, 'r) redis_env \<Rightarrow> string \<Rightarrow> string \<Rightarrow> pytime \<Rightarrow> pytime \<Rightarrow> 'v process \<times> 'r \<Rightarrow> kill_state \<times> 'v process \<times> 'r" where
  "kill kc env by reason now now' st =
     (let s = \<lparr>k_killed = True, k_by = by, k_reason = reason, k_at = now\<rparr>
      in (s, append_event kc env \<lparr>ev_kind = Activated, ev_actor = by, ev_reason = reason, ev_timestamp = now'\<rparr>
               (set_mirror s (write_state kc env s st))))"

datatype revive_result = Revived kill_state | PermissionError approval

definition revive ::
  "'v ks_codec \<Rightarrow> ('v, 'b, 'r) redis_env \<Rightarrow> (string list \<Rightarrow> string) \<Rightarrow> string \<Rightarrow> string list option \<Rightarrow> pytime \<Rightarrow> pytime \<Rightarrow>
     'v process \<times> 'r \<Rightarrow> revive_result \<times> 'v process \<times> 'r" where
  \<comment> \<open>\<open>note\<close> is the text of the event that lists the approvers\<close>
  "revive kc env note by approvers now now' st =
     (let (ok, why) = (case approvers of None \<Rightarrow> (True, No_dual_needed) | Some rs \<Rightarrow> dual_approval_check rs ''kill_switch:revive'')
      in if \<not> ok then (PermissionError why, st)
         else
           (let s = \<lparr>k_killed = False, k_by = by, k_reason = ''revived'', k_at = now\<rparr>;
                text = (case approvers of Some (r # rs) \<Rightarrow> note (r # rs) | _ \<Rightarrow> ''revived'')
            in (Revived s, append_event kc env \<lparr>ev_kind = Deactivated, ev_actor = by, ev_reason = text, ev_timestamp = now'\<rparr>
                  (set_mirror s (write_state kc env s st)))))"

definition assert_not_killed :: "'v process \<Rightarrow> (string \<times> string) option" where
  \<comment> \<open>\<open>TradingHaltedError\<close> with who halted trading and why\<close>
  "assert_not_killed p = (if is_killed p then Some (k_by (status p), k_reason (status p)) else None)"

subsection \<open>The endpoints\<close>

datatype ks_response = Answer kill_state | Http_error int | Raised_error py_error

definition activate_kill_switch ::
  "'v ks_codec \<Rightarrow> ('v, 'b, 'r) redis_env \<Rightarrow> role_claim \<Rightarrow> string \<Rightarrow> string \<Rightarrow> pytime \<Rightarrow> pytime \<Rightarrow> 'v process \<times> 'r \<Rightarrow>
     ks_response \<times> 'v process \<times> 'r" where
  \<comment> \<open>\<open>reason\<close> is the text of the request, empty when it has none\<close>
  "activate_kill_switch kc env user actor reason now now' st =
     (case require_roles [ime_value IME_ADMIN] user of
        Refused c \<Rightarrow> (Http_error c, st)
      | Failed e \<Rightarrow> (Raised_error e, st)
      | Passed \<Rightarrow>
          (let r = (if strip reason = [] then ''unspecified'' else strip reason);
               (s, st1) = kill kc env actor r now now' st
           in (Answer s, st1)))"

definition revive_kill_switch ::
  "'v ks_codec \<Rightarrow> ('v, 'b, 'r) redis_env \<Rightarrow> (string list \<Rightarrow> string) \<Rightarrow> string \<Rightarrow> string list option \<Rightarrow> pytime \<Rightarrow> pytime \<Rightarrow>
     'v process \<times> 'r \<Rightarrow> ks_response \<times> 'v process \<times> 'r" where
  \<comment> \<open>\<open>body\<close> is \<open>approver_roles\<close> of the request, each as a text; \<open>None\<close> when it is not a list\<close>
  "revive_kill_switch kc env note actor body now now' st =
     (case body of
        None \<Rightarrow> (Http_error 422, st)
      | Some [] \<Rightarrow> (Http_error 422, st)
      | Some rs \<Rightarrow>
          if \<not> fst (dual_approval_check rs ''kill_switch:revive'') then (Http_error 403, st)
          else
            (case revive kc env note actor (Some rs) now now' st of
               (PermissionError w, st1) \<Rightarrow> (Http_error 403, st1)
             | (Revived s, st1) \<Rightarrow> (Answer s, st1)))"

subsection \<open>Several processes on one server\<close>

datatype ('v, 'r) ks_op =
    Op_kill nat string string pytime pytime
  | Op_revive nat string "string list option" pytime pytime
  | Op_refresh nat
  | Op_get nat string \<comment> \<open>other users of the process's cache\<close>
  | Op_set nat string "'v option" "int option"
  | Op_invalidate nat string
  | Op_elsewhere "'r \<Rightarrow> 'r" \<comment> \<open>other clients of the server, and entries that expire\<close>

type_synonym ('v, 'r) ks_system = "(nat \<Rightarrow> 'v process) \<times> 'r"

definition on_process :: "nat \<Rightarrow> ('v process \<times> 'r \<Rightarrow> 'v process \<times> 'r) \<Rightarrow> ('v, 'r) ks_system \<Rightarrow> ('v, 'r) ks_system" where
  "on_process i f st = (case st of (ps, r) \<Rightarrow> (case f (ps i, r) of (p, r1) \<Rightarrow> (ps(i := p), r1)))"

definition on_cache :: "('v cache_manager \<times> 'r \<Rightarrow> 'v cache_manager \<times> 'r) \<Rightarrow> 'v process \<times> 'r \<Rightarrow> 'v process \<times> 'r" where
  "on_cache f st = (case st of (p, r) \<Rightarrow> (case f (pr_cache p, r) of (m, r1) \<Rightarrow> (p\<lparr>pr_cache := m\<rparr>, r1)))"

fun ks_exec ::
  "'v ks_codec \<Rightarrow> ('v, 'b, 'r) redis_env \<Rightarrow> (string list \<Rightarrow> string) \<Rightarrow> ('v, 'r) ks_op \<Rightarrow> ('v, 'r) ks_system \<Rightarrow> ('v, 'r) ks_system" where
  "ks_exec kc env note (Op_kill i by reason now now') st = on_process i (\<lambda>s. snd (kill kc env by reason now now' s)) st"
| "ks_exec kc env note (Op_revive i by rs now now') st = on_process i (\<lambda>s. snd (revive kc env note by rs now now' s)) st"
| "ks_exec kc env note (Op_refresh i) st = on_process i (\<lambda>s. snd (refresh kc env s)) st"
| "ks_exec kc env note (Op_get i k) st = on_process i (on_cache (\<lambda>s. snd (cm_get env k s))) st"
| "ks_exec kc env note (Op_set i k v t) st = on_process i (on_cache (cm_set env k v t)) st"
| "ks_exec kc env note (Op_invalidate i k) st = on_process i (on_cache (cm_invalidate env k)) st"
| "ks_exec kc env note (Op_elsewhere f) st = (fst st, f (snd st))"

definition ks_run ::
  "'v ks_codec \<Rightarrow> ('v, 'b, 'r) redis_env \<Rightarrow> (string list \<Rightarrow> string) \<Rightarrow> ('v, 'r) ks_op list \<Rightarrow> ('v, 'r) ks_system \<Rightarrow> ('v, 'r) ks_system" where
  "ks_run kc env note ops st = fold (ks_exec kc env note) ops st"

subsection \<open>What the cache can answer\<close>

text \<open>A predicate on the values of one key: a server that answers only what was written keeps it, and so does the memory.\<close>

definition payload_ok :: "('v, 'b, 'r) redis_env \<Rightarrow> ('v \<Rightarrow> bool) \<Rightarrow> 'b \<Rightarrow> bool" where
  "payload_ok env P b \<longleftrightarrow> (\<forall>v. cm_deserialize env b = Some v \<longrightarrow> P v)"

definition honest :: "('v, 'b, 'r) redis_env \<Rightarrow> string \<Rightarrow> ('v \<Rightarrow> bool) \<Rightarrow> ('r \<Rightarrow> bool) \<Rightarrow> bool" where
  "honest env nk P good \<longleftrightarrow>
     (\<forall>v b. rv_dumps env v = Some b \<longrightarrow> cm_deserialize env b = v) \<and>
     (\<forall>r. good r \<longrightarrow>
        good (snd (rv_connect env r)) \<and> good (snd (rv_ping env r)) \<and> (\<forall>k. good (snd (rv_get env k r)))
      \<and> (\<forall>ks. good (snd (rv_delete env ks r)))
      \<and> (\<forall>b. fst (rv_get env nk r) = Inr (Some b) \<longrightarrow> payload_ok env P b)
      \<and> (\<forall>k t b. (k = nk \<longrightarrow> payload_ok env P b) \<longrightarrow> good (snd (rv_setex env k t b r))))"

definition mem_ok :: "string \<Rightarrow> ('v \<Rightarrow> bool) \<Rightarrow> 'v cache_manager \<Rightarrow> bool" where
  "mem_ok key P m \<longleftrightarrow> (\<forall>v. (key, Some v) \<in> set (lru_data (cm_l1 m)) \<longrightarrow> P v)"

lemma namespaced_inj [simp]: "namespaced m k = namespaced m k' \<longleftrightarrow> k = k'"
  by (simp add: namespaced_def)

lemma set_evict_down: "set (evict_down n d) \<subseteq> set d"
proof (induction n d rule: evict_down.induct)
  case (1 n d)
  then show ?case by (subst evict_down.simps) (auto dest: list.set_sel(2))
qed

lemma set_dict_del: "set (dict_del k d) \<subseteq> set d"
  using dict_del_elem by fast

lemma set_dict_set: "set (dict_set k v d) \<subseteq> insert (k, v) (set d)"
  using dict_set_elem by fast

lemma set_move_to_end: "set (move_to_end k d) \<subseteq> set d"
  using set_dict_del [of k d] by (auto simp: move_to_end_def dest: map_of_SomeD split: option.splits)

lemma set_lru_put: "set (lru_data (lru_put k v c)) \<subseteq> insert (k, v) (set (lru_data c))"
proof -
  let ?d = "if dict_get (lru_data c) k \<noteq> None then move_to_end k (lru_data c) else lru_data c"
  have "lru_data (lru_put k v c) = evict_down (lru_max c) (dict_set k v ?d)" by (simp add: lru_put_def Let_def)
  moreover have "set ?d \<subseteq> set (lru_data c)" using set_move_to_end [of k "lru_data c"] by simp
  ultimately show ?thesis using set_evict_down set_dict_set [of k v ?d] by fastforce
qed

lemma set_lru_get: "set (lru_data (snd (lru_get k c))) \<subseteq> set (lru_data c)"
  using set_move_to_end [of k "lru_data c"] by (auto simp: lru_get_def split: option.splits)

lemma honest_try:
  assumes "honest env nk P good" "good r" "try_connect env (m, r) = (up, m', r')"
  shows "good r'"
proof -
  obtain b r1 where c: "rv_connect env r = (b, r1)" by (metis prod.exhaust)
  then have "good r1" using assms(1,2) unfolding honest_def by (metis snd_conv)
  then show ?thesis using assms(2,3) c by (cases b) (auto simp: try_connect_def split: if_splits)
qed

lemma honest_ensure:
  assumes "honest env nk P good" "good r" "ensure_redis env (m, r) = (up, m', r')"
  shows "good r'"
proof -
  obtain b r1 where c: "rv_ping env r = (b, r1)" by (metis prod.exhaust)
  then have g: "good r1" using assms(1,2) unfolding honest_def by (metis snd_conv)
  show ?thesis
  proof (cases "cm_redis m \<and> b")
    case True
    then show ?thesis using assms(3) c g by (simp add: ensure_redis_def)
  next
    case False
    then show ?thesis
      using assms(3) c honest_try [OF assms(1) g] honest_try [OF assms(1,2)]
      by (cases "cm_redis m") (auto simp: ensure_redis_def)
  qed
qed

lemma honest_read:
  assumes "honest env (namespaced m key) P good" "good r" "read_l2 env k (m, r) = (x, m', r')"
  shows "good r'" "k = key \<Longrightarrow> x = Some v \<Longrightarrow> P v"
proof -
  obtain up m1 r1 where e: "ensure_redis env (m, r) = (up, m1, r1)" by (metis prod_cases3)
  have n: "namespaced m1 k = namespaced m k" using ensure_redis_frame [OF e] by (simp add: namespaced_def)
  have g1: "good r1" using honest_ensure [OF assms(1,2) e] .
  have g: "good (snd (rv_get env (namespaced m k) r1))" using assms(1) g1 unfolding honest_def by blast
  obtain a r2 where a: "rv_get env (namespaced m k) r1 = (a, r2)" by (metis prod.exhaust)
  show "good r'" using assms(3) e n g g1 a by (cases up; cases a) (auto simp: read_l2_def split: option.splits)
  assume k: "k = key" "x = Some v"
  then obtain b where "a = Inr (Some b)" "cm_deserialize env b = Some v"
    using assms(3) e n a by (cases up; cases a) (auto simp: read_l2_def split: option.splits)
  moreover have "fst (rv_get env (namespaced m key) r1) = Inr (Some b) \<longrightarrow> payload_ok env P b"
    using assms(1) g1 unfolding honest_def by blast
  ultimately show "P v" using a k by (simp add: payload_ok_def)
qed

lemma honest_write:
  assumes "honest env (namespaced m key) P good" "good r" "k = key \<longrightarrow> (\<forall>w. v = Some w \<longrightarrow> P w)"
    and "write_l2 env k v t (m, r) = (m', r')"
  shows "good r' \<and> cm_l1 m' = cm_l1 m \<and> cm_namespace m' = cm_namespace m"
proof -
  obtain up m1 r1 where e: "ensure_redis env (m, r) = (up, m1, r1)" by (metis prod_cases3)
  note fr = ensure_redis_frame [OF e]
  have n: "namespaced m1 k = namespaced m k" using fr by (simp add: namespaced_def)
  have g1: "good r1" using honest_ensure [OF assms(1,2) e] .
  show ?thesis
  proof (cases "up \<and> rv_dumps env v \<noteq> None")
    case True
    then obtain b where b: "rv_dumps env v = Some b" by auto
    have "cm_deserialize env b = v" using assms(1) b unfolding honest_def by blast
    then have "k = key \<longrightarrow> payload_ok env P b" using assms(3) by (simp add: payload_ok_def)
    then have g: "good (snd (rv_setex env (namespaced m k) t b r1))"
      using assms(1) g1 unfolding honest_def by (metis namespaced_inj)
    obtain a r2 where a: "rv_setex env (namespaced m k) t b r1 = (a, r2)" by (metis prod.exhaust)
    show ?thesis using assms(4) e n True b a g fr by (cases a) (auto simp: write_l2_def lost_def)
  next
    case False
    then show ?thesis using assms(4) e g1 fr by (cases up; cases "rv_dumps env v") (auto simp: write_l2_def)
  qed
qed

lemma mem_ok_put:
  assumes "mem_ok key P m" "k = key \<longrightarrow> (\<forall>w. v = Some w \<longrightarrow> P w)"
  shows "mem_ok key P (l1_put k v m)"
  using assms set_lru_put [of k v "cm_l1 m"] by (auto simp: mem_ok_def l1_put_def)

lemma honest_set:
  assumes "honest env (namespaced m key) P good" "good r"
    and "k = key \<longrightarrow> (\<forall>w. v = Some w \<longrightarrow> P w)" "cm_set env k v t (m, r) = (m', r')"
  shows "good r' \<and> cm_namespace m' = cm_namespace m \<and> cm_l1 m' = cm_l1 (l1_put k v m)
    \<and> (mem_ok key P m \<longrightarrow> mem_ok key P m')"
proof -
  let ?m = "l1_put k v m"
  have n: "namespaced ?m key = namespaced m key" by (simp add: namespaced_def l1_put_def)
  have "write_l2 env k v (case t of None \<Rightarrow> cm_default_ttl m | Some x \<Rightarrow> x) (?m, r) = (m', r')"
    using assms(4) by (simp add: cm_set_def)
  then have "good r' \<and> cm_l1 m' = cm_l1 ?m \<and> cm_namespace m' = cm_namespace ?m"
    using honest_write [of env ?m key P good r k v] assms(1-3) n by simp
  then show ?thesis using mem_ok_put [OF _ assms(3)] by (simp add: mem_ok_def l1_put_def)
qed

lemma honest_get:
  assumes "honest env (namespaced m key) P good" "good r" "cm_get env k (m, r) = (res, m', r')"
  shows "good r'" "cm_namespace m' = cm_namespace m" "mem_ok key P m \<Longrightarrow> mem_ok key P m'"
    "mem_ok key P m \<Longrightarrow> k = key \<Longrightarrow> res = Inr (Some v) \<Longrightarrow> P v"
proof -
  obtain hit l1 where l: "lru_get k (cm_l1 m) = (hit, l1)" by (metis prod.exhaust)
  let ?m = "m\<lparr>cm_l1 := l1\<rparr>"
  have m1: "mem_ok key P m \<Longrightarrow> mem_ok key P ?m" using set_lru_get [of k "cm_l1 m"] l by (auto simp: mem_ok_def)
  obtain c m2 r2 where rd: "read_l2 env k (?m, r) = (c, m2, r2)" by (metis prod_cases3)
  have n: "namespaced ?m key = namespaced m key" by (simp add: namespaced_def)
  note h = honest_read [of env ?m key P good, unfolded n, OF assms(1,2) rd]
  note fr = read_l2_frame [OF rd]
  have m2: "mem_ok key P m \<Longrightarrow> mem_ok key P m2" using m1 fr(1) by (simp add: mem_ok_def)
  have hit: "hit = Some x \<Longrightarrow> (k, x) \<in> set (lru_data (cm_l1 m))" for x
    using l by (auto simp: lru_get_def dest: map_of_SomeD split: option.splits)
  have "good r' \<and> cm_namespace m' = cm_namespace m
    \<and> (mem_ok key P m \<longrightarrow> mem_ok key P m' \<and> (k = key \<longrightarrow> (\<forall>v. res = Inr (Some v) \<longrightarrow> P v)))"
  proof (cases "\<exists>v. hit = Some (Some v)")
    case True
    then show ?thesis using assms(2,3) l m1 hit by (auto simp: cm_get_def get_or_compute_def mem_ok_def)
  next
    case False
    then have g: "(case c of Some v \<Rightarrow> (Inr (Some v), l1_put k (Some v) m2, r2) | None \<Rightarrow> (Inr None, m2, r2)) = (res, m', r')"
      using assms(3) get_or_compute_miss [OF l _ rd, of None None] by (simp add: cm_get_def split: option.splits)
    show ?thesis
    proof (cases c)
      case None
      then show ?thesis using g h m2 fr by auto
    next
      case (Some v)
      then have "mem_ok key P m \<Longrightarrow> mem_ok key P (l1_put k (Some v) m2)" using h(2) by (intro mem_ok_put [OF m2]) auto
      then show ?thesis using g h Some fr by (auto simp: l1_put_def)
    qed
  qed
  then show "good r'" "cm_namespace m' = cm_namespace m" "mem_ok key P m \<Longrightarrow> mem_ok key P m'"
    "mem_ok key P m \<Longrightarrow> k = key \<Longrightarrow> res = Inr (Some v) \<Longrightarrow> P v" by blast+
qed

lemma honest_invalidate:
  assumes "honest env (namespaced m key) P good" "good r" "cm_invalidate env k (m, r) = (m', r')"
  shows "good r' \<and> cm_namespace m' = cm_namespace m \<and> (mem_ok key P m \<longrightarrow> mem_ok key P m')"
proof -
  have "good (snd (rv_delete env [namespaced m k] r))" using assms(1,2) unfolding honest_def by blast
  then show ?thesis
    using assms(2,3) set_dict_del [of k "lru_data (cm_l1 m)"] by (auto simp: cm_invalidate_def mem_ok_def lru_delete_def)
qed

subsection \<open>A halt stays\<close>

definition halting :: "'v ks_codec \<Rightarrow> 'v \<Rightarrow> bool" where
  \<comment> \<open>a value that, read back as a state, is engaged\<close>
  "halting kc v \<longleftrightarrow> (\<forall>s. kc_loads kc v = Inr (Some s) \<longrightarrow> k_killed s)"

definition codec_ok :: "'v ks_codec \<Rightarrow> bool" where
  "codec_ok kc \<longleftrightarrow> (\<forall>s. kc_loads kc (kc_dumps kc s) = Inr (Some s))"

fun no_revival :: "('r \<Rightarrow> bool) \<Rightarrow> ('v, 'r) ks_op \<Rightarrow> bool" where
  \<comment> \<open>every revival passes a list of approvers (none leaves the check out) that names fewer than two distinct ones, and no one
    else writes the state's key\<close>
  "no_revival good (Op_revive i by rs now now') = (\<exists>l. rs = Some l \<and> card (set l) < 2)"
| "no_revival good (Op_set i k v t) = (k \<noteq> redis_key)"
| "no_revival good (Op_elsewhere f) = (\<forall>r. good r \<longrightarrow> good (f r))"
| "no_revival good op = True"

lemma history_other [simp]: "history_prefix @ x \<noteq> redis_key"
  by (simp add: history_prefix_def redis_key_def)

lemma revive_refused:
  "card (set l) < 2 \<Longrightarrow> revive kc env note by (Some l) now now' st = (PermissionError Too_few_approvers, st)"
  by (simp add: revive_def dual_approval_check_def dual_approval_required_def length_remdups_card_conv)

lemma honest_kill:
  assumes "codec_ok kc" "honest env (namespaced (pr_cache p) redis_key) (halting kc) good" "good r"
    and "kill kc env by reason now now' (p, r) = (s, p', r')"
  shows "good r' \<and> is_killed p' \<and> cm_namespace (pr_cache p') = cm_namespace (pr_cache p)
    \<and> (mem_ok redis_key (halting kc) (pr_cache p) \<longrightarrow> mem_ok redis_key (halting kc) (pr_cache p'))"
proof -
  let ?s = "\<lparr>k_killed = True, k_by = by, k_reason = reason, k_at = now\<rparr>"
  let ?e = "\<lparr>ev_kind = Activated, ev_actor = by, ev_reason = reason, ev_timestamp = now'\<rparr>"
  obtain m1 r1 where 1: "cm_set env redis_key (Some (kc_dumps kc ?s)) None (pr_cache p, r) = (m1, r1)" by (metis prod.exhaust)
  have v: "redis_key = redis_key \<longrightarrow> (\<forall>w. Some (kc_dumps kc ?s) = Some w \<longrightarrow> halting kc w)"
    using assms(1) by (simp add: halting_def codec_ok_def)
  note h1 = honest_set [OF assms(2,3) v 1]
  have n: "namespaced m1 redis_key = namespaced (pr_cache p) redis_key" using h1 by (simp add: namespaced_def)
  obtain m2 r2 where 2: "cm_set env (history_prefix @ kc_stamp kc now') (Some (kc_event kc ?e)) (Some history_ttl) (m1, r1) = (m2, r2)"
    by (metis prod.exhaust)
  note h2 = honest_set [of env m1 redis_key "halting kc" good r1, OF _ _ _ 2]
  show ?thesis
    using assms(4) 1 2 h1 h2 assms(2) n
    by (auto simp: kill_def write_state_def set_mirror_def append_event_def Let_def is_killed_def)
qed

lemma honest_refresh:
  assumes "honest env (namespaced (pr_cache p) redis_key) (halting kc) good" "good r" "refresh kc env (p, r) = (s, p', r')"
  shows "good r' \<and> cm_namespace (pr_cache p') = cm_namespace (pr_cache p)
    \<and> (mem_ok redis_key (halting kc) (pr_cache p) \<longrightarrow>
         mem_ok redis_key (halting kc) (pr_cache p') \<and> (is_killed p \<longrightarrow> is_killed p'))"
proof -
  obtain res m1 r1 where 1: "cm_get env redis_key (pr_cache p, r) = (res, m1, r1)" by (metis prod_cases3)
  note h = honest_get [OF assms(1,2) 1]
  show ?thesis
    using assms(3) 1 h
    by (auto simp: refresh_def read_state_def set_mirror_def is_killed_def status_def halting_def
        split: sum.splits option.splits)
qed

definition halt_inv :: "'v ks_codec \<Rightarrow> string \<Rightarrow> ('r \<Rightarrow> bool) \<Rightarrow> nat \<Rightarrow> ('v, 'r) ks_system \<Rightarrow> bool" where
  "halt_inv kc ns good i st \<longleftrightarrow>
     (\<forall>j. cm_namespace (pr_cache (fst st j)) = ns) \<and> good (snd st)
     \<and> mem_ok redis_key (halting kc) (pr_cache (fst st i)) \<and> is_killed (fst st i)"

lemma halt_inv_process:
  assumes "halt_inv kc ns good i (ps, r)" "f (ps j, r) = (p, r')" "good r'" "cm_namespace (pr_cache p) = ns"
    and "j = i \<Longrightarrow> mem_ok redis_key (halting kc) (pr_cache p) \<and> is_killed p"
  shows "halt_inv kc ns good i (on_process j f (ps, r))"
  using assms by (auto simp: halt_inv_def on_process_def)

lemma halt_inv_step:
  assumes "codec_ok kc" "honest env (ns @ '':'' @ redis_key) (halting kc) good" "no_revival good op" "halt_inv kc ns good i st"
  shows "halt_inv kc ns good i (ks_exec kc env note op st)"
proof -
  obtain ps r where st: "st = (ps, r)" by (cases st)
  note inv = assms(4) [unfolded st]
  have ns: "cm_namespace (pr_cache (ps j)) = ns" and g: "good r" for j using inv by (simp_all add: halt_inv_def)
  have hon: "honest env (namespaced (pr_cache (ps j)) redis_key) (halting kc) good" for j
    using assms(2) ns by (simp add: namespaced_def)
  have i: "mem_ok redis_key (halting kc) (pr_cache (ps i))" "is_killed (ps i)" using inv by (simp_all add: halt_inv_def)
  show ?thesis
  proof (cases op)
    case (Op_kill j who reason now now')
    obtain s p r' where k: "kill kc env who reason now now' (ps j, r) = (s, p, r')" by (metis prod_cases3)
    show ?thesis unfolding st Op_kill ks_exec.simps
      by (rule halt_inv_process [OF inv, where p = p and r' = r'])
        (use honest_kill [OF assms(1) hon g k] k ns i in auto)
  next
    case (Op_revive j who rs now now')
    then show ?thesis using assms(3) inv by (auto simp: st revive_refused on_process_def)
  next
    case (Op_refresh j)
    obtain s p r' where k: "refresh kc env (ps j, r) = (s, p, r')" by (metis prod_cases3)
    show ?thesis unfolding st Op_refresh ks_exec.simps
      by (rule halt_inv_process [OF inv, where p = p and r' = r'])
        (use honest_refresh [OF hon g k] k ns i in auto)
  next
    case (Op_get j k)
    obtain res m r' where c: "cm_get env k (pr_cache (ps j), r) = (res, m, r')" by (metis prod_cases3)
    show ?thesis unfolding st Op_get ks_exec.simps
      by (rule halt_inv_process [OF inv, where p = "(ps j)\<lparr>pr_cache := m\<rparr>" and r' = r'])
        (use honest_get [OF hon g c] c ns i in \<open>auto simp: on_cache_def is_killed_def\<close>)
  next
    case (Op_set j k v t)
    obtain m r' where c: "cm_set env k v t (pr_cache (ps j), r) = (m, r')" by (metis prod.exhaust)
    have "k = redis_key \<longrightarrow> (\<forall>w. v = Some w \<longrightarrow> halting kc w)" using assms(3) Op_set by simp
    note h = honest_set [OF hon g this c]
    show ?thesis unfolding st Op_set ks_exec.simps
      by (rule halt_inv_process [OF inv, where p = "(ps j)\<lparr>pr_cache := m\<rparr>" and r' = r'])
        (use h c ns i in \<open>auto simp: on_cache_def is_killed_def\<close>)
  next
    case (Op_invalidate j k)
    obtain m r' where c: "cm_invalidate env k (pr_cache (ps j), r) = (m, r')" by (metis prod.exhaust)
    show ?thesis unfolding st Op_invalidate ks_exec.simps
      by (rule halt_inv_process [OF inv, where p = "(ps j)\<lparr>pr_cache := m\<rparr>" and r' = r'])
        (use honest_invalidate [OF hon g c] c ns i in \<open>auto simp: on_cache_def is_killed_def\<close>)
  next
    case (Op_elsewhere f)
    then show ?thesis using assms(3) inv by (simp add: st halt_inv_def)
  qed
qed

lemma halt_inv_run:
  assumes "codec_ok kc" "honest env (ns @ '':'' @ redis_key) (halting kc) good" "\<forall>op \<in> set ops. no_revival good op"
    and "halt_inv kc ns good i st"
  shows "halt_inv kc ns good i (ks_run kc env note ops st)"
  using assms(3,4) unfolding ks_run_def
proof (induction ops arbitrary: st)
  case (Cons op ops)
  then have "halt_inv kc ns good i (ks_exec kc env note op st)" by (intro halt_inv_step [OF assms(1,2)]) simp_all
  then show ?case using Cons by simp
qed simp

lemma lru_put_entry:
  assumes "lru_ok c" "(k, w) \<in> set (lru_data (lru_put k v c))"
  shows "w = v"
proof -
  have "lru_ok (lru_put k v c)" using lru_step_ok [OF assms(1), of "LPut k v"] by simp
  then have "dict_get (lru_data (lru_put k v c)) k = Some w" using assms(2) by (auto simp: lru_ok_def intro: dict_get_in)
  then show ?thesis using lru_get_after_put [OF assms(1), of k v] by (simp add: lru_get_def)
qed

lemma write_l2_l1: "write_l2 env k v t (m, r) = (m', r') \<Longrightarrow> cm_l1 m' = cm_l1 m \<and> cm_namespace m' = cm_namespace m"
proof -
  assume w: "write_l2 env k v t (m, r) = (m', r')"
  obtain up m1 r1 where e: "ensure_redis env (m, r) = (up, m1, r1)" by (metis prod_cases3)
  show ?thesis using w e ensure_redis_frame [OF e]
    by (cases up) (auto simp: write_l2_def lost_def split: option.splits prod.splits)
qed

lemma cm_set_l1:
  assumes "cm_set env k v t (m, r) = (m', r')"
  shows "cm_l1 m' = lru_put k v (cm_l1 m)" "cm_namespace m' = cm_namespace m"
  using write_l2_l1 [of env k v "case t of None \<Rightarrow> cm_default_ttl m | Some x \<Rightarrow> x" "l1_put k v m" r m' r'] assms
  by (simp_all add: cm_set_def l1_put_def)

lemma kill_memory:
  assumes "codec_ok kc" "lru_ok (cm_l1 (pr_cache p))" "kill kc env by reason now now' (p, r) = (s, p', r')"
  shows "is_killed p'" "cm_namespace (pr_cache p') = cm_namespace (pr_cache p)" "mem_ok redis_key (halting kc) (pr_cache p')"
proof -
  let ?s = "\<lparr>k_killed = True, k_by = by, k_reason = reason, k_at = now\<rparr>"
  let ?e = "\<lparr>ev_kind = Activated, ev_actor = by, ev_reason = reason, ev_timestamp = now'\<rparr>"
  obtain m1 r1 where 1: "cm_set env redis_key (Some (kc_dumps kc ?s)) None (pr_cache p, r) = (m1, r1)" by (metis prod.exhaust)
  obtain m2 r2 where 2: "cm_set env (history_prefix @ kc_stamp kc now') (Some (kc_event kc ?e)) (Some history_ttl) (m1, r1) = (m2, r2)"
    by (metis prod.exhaust)
  have p': "p' = p\<lparr>pr_mirror := ?s, pr_cache := m2\<rparr>"
    using assms(3) 1 2 by (auto simp: kill_def write_state_def set_mirror_def append_event_def Let_def)
  then show "is_killed p'" "cm_namespace (pr_cache p') = cm_namespace (pr_cache p)"
    using cm_set_l1 [OF 1] cm_set_l1 [OF 2] by (simp_all add: is_killed_def)
  have "halting kc (kc_dumps kc ?s)" using assms(1) by (simp add: halting_def codec_ok_def)
  moreover have "v = kc_dumps kc ?s" if "(redis_key, Some v) \<in> set (lru_data (cm_l1 m2))" for v
  proof -
    have "(redis_key, Some v) \<in> set (lru_data (lru_put redis_key (Some (kc_dumps kc ?s)) (cm_l1 (pr_cache p))))"
      using subsetD [OF set_lru_put that [unfolded cm_set_l1(1) [OF 2] cm_set_l1(1) [OF 1]]]
        history_other [of "kc_stamp kc now'"] by (simp del: history_other)
    from lru_put_entry [OF assms(2) this] show ?thesis by simp
  qed
  ultimately show "mem_ok redis_key (halting kc) (pr_cache p')" using p' by (auto simp: mem_ok_def)
qed

text \<open>A revival without a list of approvers skips the check: one operator alone ends the halt.\<close>

lemma revival_without_list:
  assumes "revive kc env note who None now now' (p, r) = (res, p', r')"
  shows "res = Revived \<lparr>k_killed = False, k_by = who, k_reason = ''revived'', k_at = now\<rparr> \<and> \<not> is_killed p'"
  using assms by (auto simp: revive_def Let_def append_event_def set_mirror_def write_state_def is_killed_def split: prod.splits)

text \<open>C24: A halt stays: once trading was halted in a process and the server has the halt, this process refuses every new
  signal through any interleaving of the operations of any number of processes, other uses of the cache, failures of the server and
  expired entries, as long as every revival goes through the approver check (none passes no list at all, which skips
  it) and names fewer than two distinct approvers, nothing else writes the switch's own key, and what the server answers for that key
  is what was written; a refresh can read nothing else.\<close>

theorem halt_needs_approval:
  assumes "codec_ok kc" "honest env (ns @ '':'' @ redis_key) (halting kc) good"
    and "\<forall>j. cm_namespace (pr_cache (ps j)) = ns" "lru_ok (cm_l1 (pr_cache (ps i)))"
    and "ks_exec kc env note (Op_kill i by reason now now') (ps, r) = (ps1, r1)" "good r1"
    and "\<forall>op \<in> set ops. no_revival good op"
  shows "\<exists>who why. assert_not_killed (fst (ks_run kc env note ops (ps1, r1)) i) = Some (who, why)"
proof -
  obtain s p' r' where k: "kill kc env by reason now now' (ps i, r) = (s, p', r')" by (metis prod_cases3)
  have "ps1 = ps(i := p')" using assms(5) k by (simp add: on_process_def)
  then have "halt_inv kc ns good i (ps1, r1)"
    using kill_memory [OF assms(1,4) k] assms(3,6) by (auto simp: halt_inv_def)
  from halt_inv_run [OF assms(1,2,7) this]
  show ?thesis by (auto simp: halt_inv_def assert_not_killed_def)
qed

text \<open>States as their own texts, on a server that holds them.\<close>

definition state_codec :: "(kill_state + kill_event) ks_codec" where
  "state_codec =
     \<lparr>kc_dumps = Inl, kc_loads = (\<lambda>v. case v of Inl s \<Rightarrow> Inr (Some s) | Inr e \<Rightarrow> Inr None), kc_event = Inr,
      kc_stamp = (\<lambda>t. if t < 0 then ''-'' else ''+'')\<rparr>"

definition text_env :: "('v, 'v option, (string, 'v option) pydict) redis_env" where
  "text_env =
     \<lparr>rv_connect = (\<lambda>r. (True, r)), rv_ping = (\<lambda>r. (True, r)), rv_get = (\<lambda>k r. (Inr (dict_get r k), r)),
      rv_getdel = (\<lambda>k r. (Inr (dict_get r k), dict_del k r)), rv_setex = (\<lambda>k t b r. (None, dict_set k b r)),
      rv_set = (\<lambda>k b r. (None, dict_set k b r)),
      rv_set_nx = (\<lambda>k t r. if dict_get r k = None then (Inr True, dict_set k None r) else (Inr False, r)),
      rv_delete = (\<lambda>ks r. (None, filter (\<lambda>e. fst e \<notin> set ks) r)), rv_close = (\<lambda>r. (None, r)), rv_sleep = (\<lambda>r. r),
      rv_dumps = Some, rv_loads = Some, rv_text = (\<lambda>b. the b)\<rparr>"

definition fresh_process :: "'v process" where
  "fresh_process = \<lparr>pr_cache = cm_init 100 300 ''cm'', pr_mirror = kill_state_init\<rparr>"

lemma dict_get_filter: "dict_get (filter (\<lambda>e. fst e \<notin> A) d) k = (if k \<in> A then None else dict_get d k)"
  by (induction d) auto

lemma text_env_honest:
  "honest text_env nk P (\<lambda>r. \<forall>b. dict_get r nk = Some b \<longrightarrow> payload_ok text_env P b)"
  by (auto simp: honest_def text_env_def cm_deserialize_def dict_get_filter payload_ok_def split: if_splits)

text \<open>A server that works: what was written is read back; times to live have not run out.\<close>

definition working :: "('v, 'b, 'r) redis_env \<Rightarrow> ('r \<Rightarrow> string \<Rightarrow> 'b option) \<Rightarrow> bool" where
  "working env val \<longleftrightarrow> healthy env
     \<and> (\<forall>k t b r. \<exists>r1. rv_setex env k t b r = (None, r1) \<and> val r1 = (val r)(k \<mapsto> b))
     \<and> (\<forall>k r. rv_get env k r = (Inr (val r k), r))"

lemma working_text_env: "working text_env (\<lambda>r. dict_get r)"
  by (simp add: working_def healthy_def text_env_def fun_eq_iff)

lemma set_working:
  assumes "working env val" "cm_connected m \<noteq> Some False" "cm_set env k (Some v) t (m, r) = (m', r')"
  shows "\<exists>b. val r' = (val r)(namespaced m k \<mapsto> b) \<and> cm_deserialize env b = Some v \<and> cm_connected m' \<noteq> Some False"
proof -
  let ?t = "case t of None \<Rightarrow> cm_default_ttl m | Some x \<Rightarrow> x"
  have h: "healthy env" using assms(1) by (simp add: working_def)
  obtain b where b: "rv_dumps env (Some v) = Some b" "rv_loads env b = Some (Some v)" using h by (auto simp: healthy_def)
  have e: "\<exists>m1. ensure_redis env (l1_put k (Some v) m, r) = (True, m1, r) \<and> cm_connected m1 \<noteq> Some False \<and> namespaced m1 k = namespaced m k"
    using h assms(2) by (auto simp: healthy_def ensure_redis_def try_connect_def l1_put_def namespaced_def)
  then obtain m1 where e: "ensure_redis env (l1_put k (Some v) m, r) = (True, m1, r)" "cm_connected m1 \<noteq> Some False"
    "namespaced m1 k = namespaced m k" by blast
  obtain r1 where "rv_setex env (namespaced m k) ?t b r = (None, r1)" "val r1 = (val r)(namespaced m k \<mapsto> b)"
    using assms(1) unfolding working_def by blast
  then show ?thesis using assms(3) e b by (auto simp: cm_set_def write_l2_def cm_deserialize_def)
qed

lemma kill_working:
  assumes "working env val" "cm_connected (pr_cache p) \<noteq> Some False" "kill kc env by reason now now' (p, r) = (s, p', r')"
  shows "s = \<lparr>k_killed = True, k_by = by, k_reason = reason, k_at = now\<rparr>"
    and "\<exists>b. val r' (namespaced (pr_cache p) redis_key) = Some b \<and> cm_deserialize env b = Some (kc_dumps kc s)"
proof -
  let ?s = "\<lparr>k_killed = True, k_by = by, k_reason = reason, k_at = now\<rparr>"
  let ?e = "\<lparr>ev_kind = Activated, ev_actor = by, ev_reason = reason, ev_timestamp = now'\<rparr>"
  obtain m1 r1 where 1: "cm_set env redis_key (Some (kc_dumps kc ?s)) None (pr_cache p, r) = (m1, r1)" by (metis prod.exhaust)
  obtain m2 r2 where 2: "cm_set env (history_prefix @ kc_stamp kc now') (Some (kc_event kc ?e)) (Some history_ttl) (m1, r1) = (m2, r2)"
    by (metis prod.exhaust)
  have s: "s = ?s" "r' = r2"
    using assms(3) 1 2 by (auto simp: kill_def write_state_def set_mirror_def append_event_def Let_def)
  obtain b where b: "val r1 = (val r)(namespaced (pr_cache p) redis_key \<mapsto> b)" "cm_deserialize env b = Some (kc_dumps kc ?s)"
    "cm_connected m1 \<noteq> Some False"
    using set_working [OF assms(1,2) 1] by blast
  obtain b2 where "val r2 = (val r1)(namespaced m1 (history_prefix @ kc_stamp kc now') \<mapsto> b2)"
    using set_working [OF assms(1) b(3) 2] by blast
  moreover have "namespaced m1 (history_prefix @ kc_stamp kc now') \<noteq> namespaced (pr_cache p) redis_key"
    using cm_set_l1 [OF 1] by (simp add: namespaced_def)
  ultimately have "val r2 (namespaced (pr_cache p) redis_key) = Some b" using b by simp
  then show "\<exists>b. val r' (namespaced (pr_cache p) redis_key) = Some b \<and> cm_deserialize env b = Some (kc_dumps kc s)"
    using b s by blast
  show "s = ?s" by (rule s)
qed

theorem halt_needs_approval_witness:
  "\<exists>who why. assert_not_killed (fst (ks_run state_codec text_env concat
     [Op_refresh 0, Op_revive 0 ''a'' (Some [''quant'', ''quant'']) 2 3, Op_refresh 1, Op_elsewhere (\<lambda>r. []), Op_refresh 0]
     (ks_exec state_codec text_env concat (Op_kill 0 ''a'' ''b'' 0 1) (\<lambda>i. fresh_process, []))) 0) = Some (who, why)"
proof -
  let ?nk = "''cm'' @ '':'' @ redis_key"
  let ?good = "\<lambda>r. \<forall>b. dict_get r ?nk = Some b \<longrightarrow> payload_ok text_env (halting state_codec) b"
  have c: "codec_ok state_codec" by (simp add: codec_ok_def state_codec_def)
  obtain ps1 r1 where k: "ks_exec state_codec text_env concat (Op_kill 0 ''a'' ''b'' 0 1) (\<lambda>i. fresh_process, []) = (ps1, r1)"
    by (metis prod.exhaust)
  obtain s p' r' where kk: "kill state_codec text_env ''a'' ''b'' 0 1 (fresh_process, []) = (s, p', r')" by (metis prod_cases3)
  have r: "r' = r1" using k kk by (simp add: on_process_def)
  have conn: "cm_connected (pr_cache (fresh_process :: (kill_state + kill_event) process)) \<noteq> Some False"
    and nk: "namespaced (pr_cache (fresh_process :: (kill_state + kill_event) process)) redis_key = ?nk"
    by (simp_all add: fresh_process_def cm_init_def namespaced_def)
  obtain b where b: "dict_get r1 ?nk = Some b" "cm_deserialize text_env b = Some (kc_dumps state_codec s)"
    using kill_working(2) [OF working_text_env conn kk] unfolding nk r by blast
  have s: "k_killed s" unfolding kill_working(1) [OF working_text_env conn kk] by simp
  have g: "?good r1" using b s by (simp add: payload_ok_def halting_def) (simp add: state_codec_def)
  note h = halt_needs_approval [of state_codec text_env "''cm''" ?good "\<lambda>i. fresh_process" 0 concat "''a''" "''b''" 0 1 "[]" ps1 r1]
  have ns: "\<forall>j :: nat. cm_namespace (pr_cache (fresh_process :: (kill_state + kill_event) process)) = ''cm''"
    and ok: "lru_ok (cm_l1 (pr_cache (fresh_process :: (kill_state + kill_event) process)))"
    by (simp_all add: fresh_process_def cm_init_def)
  show ?thesis unfolding k
    by (rule h [OF c text_env_honest ns ok k g]) simp
qed

subsection \<open>What other processes see\<close>

definition own_entry :: "'v process \<Rightarrow> 'v option" where
  \<comment> \<open>the state in the process's own memory layer\<close>
  "own_entry p = (case dict_get (lru_data (cm_l1 (pr_cache p))) redis_key of Some (Some raw) \<Rightarrow> Some raw | _ \<Rightarrow> None)"

definition read_back :: "'v ks_codec \<Rightarrow> 'v process \<Rightarrow> 'v \<Rightarrow> py_error + kill_state" where
  "read_back kc p raw = (case kc_loads kc raw of Inl e \<Rightarrow> Inl e | Inr None \<Rightarrow> Inr (status p) | Inr (Some s) \<Rightarrow> Inr s)"

lemma refresh_own:
  assumes "own_entry q = Some raw"
  shows "fst (refresh kc env (q, r)) = read_back kc q raw \<and> snd (snd (refresh kc env (q, r))) = r"
proof -
  obtain l1 where l: "lru_get redis_key (cm_l1 (pr_cache q)) = (Some (Some raw), l1)"
    using assms by (auto simp: own_entry_def lru_get_def split: option.splits)
  show ?thesis
    by (simp add: l refresh_def read_state_def cm_get_def get_or_compute_def Let_def read_back_def set_mirror_def status_def
        split: sum.split option.split)
qed

lemma get_working:
  assumes "working env val" "cm_connected m \<noteq> Some False" "\<forall>v. dict_get (lru_data (cm_l1 m)) k \<noteq> Some (Some v)"
    and "val r (namespaced m k) = Some b" "cm_deserialize env b = Some v"
  shows "\<exists>m'. cm_get env k (m, r) = (Inr (Some v), m', r)"
proof -
  obtain hit l1 where l: "lru_get k (cm_l1 m) = (hit, l1)" by (metis prod.exhaust)
  have hit: "hit \<noteq> Some (Some w)" for w using l assms(3) by (auto simp: lru_get_def split: option.splits)
  let ?m = "m\<lparr>cm_l1 := l1\<rparr>"
  obtain m1 where e: "ensure_redis env (?m, r) = (True, m1, r)" "cm_namespace m1 = cm_namespace m"
    using healthy_ensure [of env ?m r] assms(1,2) by (auto simp: working_def)
  have "rv_get env (namespaced m k) r = (Inr (Some b), r)" using assms(1,4) by (simp add: working_def)
  then have "read_l2 env k (?m, r) = (Some v, m1, r)" using e assms(5) by (simp add: read_l2_def namespaced_def)
  from get_or_compute_miss [OF l hit this, of None None] show ?thesis by (simp add: cm_get_def)
qed

text \<open>On a working server a halt reaches exactly the processes that ask the server: a process of the same name space
  that refreshes after the halt takes over the state of the halt and refuses signals with its author and reason, if its own memory does not hold
  a state; if it does, the refresh answers that state, however old, and does not ask the server. A process that does not refresh is unchanged.\<close>

theorem halt_reaches_refreshed:
  assumes "working env val" "codec_ok kc" "cm_connected (pr_cache p) \<noteq> Some False" "cm_connected (pr_cache q) \<noteq> Some False"
    and "cm_namespace (pr_cache q) = cm_namespace (pr_cache p)"
    and "kill kc env who why now now' (p, r) = (s, p', r')" "refresh kc env (q, r') = (res, q', r'')"
  shows "assert_not_killed p' = Some (who, why)
    \<and> (case own_entry q of
         None \<Rightarrow> res = Inr s \<and> assert_not_killed q' = Some (who, why)
       | Some raw \<Rightarrow> res = read_back kc q raw \<and> r'' = r')"
proof -
  have s: "s = \<lparr>k_killed = True, k_by = who, k_reason = why, k_at = now\<rparr>"
    by (rule kill_working(1) [OF assms(1,3,6)])
  have "pr_mirror p' = s" using assms(6)
    by (auto simp: kill_def write_state_def append_event_def set_mirror_def Let_def split: prod.splits)
  then have p: "assert_not_killed p' = Some (who, why)" by (simp add: assert_not_killed_def is_killed_def status_def s)
  show ?thesis
  proof (cases "own_entry q")
    case (Some raw)
    then show ?thesis using p refresh_own [OF Some, of kc env r'] assms(7) by simp
  next
    case None
    have n: "namespaced (pr_cache q) redis_key = namespaced (pr_cache p) redis_key" using assms(5) by (simp add: namespaced_def)
    obtain b where b: "val r' (namespaced (pr_cache q) redis_key) = Some b" "cm_deserialize env b = Some (kc_dumps kc s)"
      using kill_working(2) [OF assms(1,3,6)] n by auto
    have "\<forall>v. dict_get (lru_data (cm_l1 (pr_cache q))) redis_key \<noteq> Some (Some v)"
      using None by (auto simp: own_entry_def)
    from get_working [OF assms(1,4) this b] obtain m' where "cm_get env redis_key (pr_cache q, r') = (Inr (Some (kc_dumps kc s)), m', r')"
      by blast
    then have "res = Inr s \<and> pr_mirror q' = s"
      using assms(2,7) by (auto simp: refresh_def read_state_def set_mirror_def status_def codec_ok_def)
    then show ?thesis using p None by (simp add: assert_not_killed_def is_killed_def status_def s)
  qed
qed

theorem halt_reaches_refreshed_witness:
  "\<exists>s p' r'. kill state_codec text_env ''a'' ''b'' 0 1 (fresh_process, []) = (s, p', r')
     \<and> fst (refresh state_codec text_env (fresh_process, r')) = Inr s"
proof -
  obtain s p' r' where k: "kill state_codec text_env ''a'' ''b'' 0 1 (fresh_process, []) = (s, p', r')" by (metis prod_cases3)
  obtain res q' r'' where f: "refresh state_codec text_env (fresh_process, r') = (res, q', r'')" by (metis prod_cases3)
  have c: "codec_ok state_codec" by (simp add: codec_ok_def state_codec_def)
  have conn: "cm_connected (pr_cache (fresh_process :: (kill_state + kill_event) process)) \<noteq> Some False"
    by (simp add: fresh_process_def cm_init_def)
  have "own_entry (fresh_process :: (kill_state + kill_event) process) = None"
    by (simp add: own_entry_def fresh_process_def cm_init_def lru_init_def)
  then show ?thesis using halt_reaches_refreshed [OF working_text_env c conn conn refl k f] k f by simp
qed

lemma stale_after_own_revival:
  \<comment> \<open>a process that once revived the switch itself never sees a later halt of another one\<close>
  assumes "own_entry q = Some raw" "kc_loads kc raw = Inr (Some s)" "\<not> k_killed s"
  shows "fst (refresh kc env (q, r)) = Inr s"
  using refresh_own [OF assms(1), of kc env r] assms(2) by (simp add: read_back_def)

lemma halt_expires:
  \<comment> \<open>the state is stored for the cache's default time to live\<close>
  "write_state kc env s (p, r) =
     (let (m, r1) = cm_set env redis_key (Some (kc_dumps kc s)) (Some (cm_default_ttl (pr_cache p))) (pr_cache p, r)
      in (p\<lparr>pr_cache := m\<rparr>, r1))"
  by (simp add: write_state_def cm_set_def Let_def)

lemma racing_revival:
  \<comment> \<open>a halt that runs while a revival waits for the server is undone by the end of the revival\<close>
  assumes "\<not> k_killed s"
  shows "assert_not_killed (fst (set_mirror s (snd (kill kc env by reason t t' (write_state kc env s (p, r)))))) = None"
  using assms by (simp add: set_mirror_def assert_not_killed_def is_killed_def split: prod.split)

subsection \<open>Who can switch\<close>

lemma admin_guard: "require_roles [ime_value IME_ADMIN] user = (if ''admin'' \<in> set (claim_roles user) then Passed else Refused 403)"
proof -
  have "\<forall>q \<in> set [ime_value IME_ADMIN]. role_of q \<noteq> None" by (simp add: role_of_def ROLE_HIERARCHY_def)
  from require_roles_exact [OF this, of user] show ?thesis by auto
qed

lemma revive_mirror:
  assumes "revive kc env note who (Some l) now now' (p, r) = (res, p', r')" "2 \<le> card (set l)"
  shows "res = Revived \<lparr>k_killed = False, k_by = who, k_reason = ''revived'', k_at = now\<rparr> \<and> \<not> is_killed p'"
  using assms by (auto simp: revive_def dual_approval_check_def dual_approval_required_def never_violated
      length_remdups_card_conv not_less Let_def append_event_def set_mirror_def write_state_def is_killed_def split: prod.splits)

lemma kill_mirror:
  "kill kc env who why now now' (p, r) = (s, p', r') \<Longrightarrow>
     s = \<lparr>k_killed = True, k_by = who, k_reason = why, k_at = now\<rparr> \<and> pr_mirror p' = s"
  by (auto simp: kill_def append_event_def set_mirror_def write_state_def Let_def split: prod.splits)

text \<open>The endpoints let through exactly who may switch: activation halts the process for a user whose token names the administrator role, with
  the stated reason, and answers anyone else 403; revival lifts the halt for a list of at least two different approvers,
  answers 422 for no list or an empty one and 403 for a shorter one. A refused request changes neither the process nor the server.\<close>

theorem endpoints_guarded:
  "(if ''admin'' \<in> set (claim_roles user)
      then \<exists>s p' r'. activate_kill_switch kc env user who why now now' (p, r) = (Answer s, p', r') \<and> k_killed s
         \<and> assert_not_killed p' = Some (who, if strip why = [] then ''unspecified'' else strip why)
      else activate_kill_switch kc env user who why now now' (p, r) = (Http_error 403, p, r))
    \<and> (if \<exists>l. body = Some l \<and> 2 \<le> card (set l)
       then \<exists>s p' r'. revive_kill_switch kc env note who body now now' (p, r) = (Answer s, p', r') \<and> assert_not_killed p' = None
       else revive_kill_switch kc env note who body now now' (p, r) =
         (Http_error (if body = None \<or> body = Some [] then 422 else 403), p, r))"
proof
  let ?why = "if strip why = [] then ''unspecified'' else strip why"
  obtain s p' r' where k: "kill kc env who ?why now now' (p, r) = (s, p', r')" by (metis prod_cases3)
  show "if ''admin'' \<in> set (claim_roles user)
      then \<exists>s p' r'. activate_kill_switch kc env user who why now now' (p, r) = (Answer s, p', r') \<and> k_killed s
         \<and> assert_not_killed p' = Some (who, ?why)
      else activate_kill_switch kc env user who why now now' (p, r) = (Http_error 403, p, r)"
    unfolding activate_kill_switch_def admin_guard
    using k kill_mirror [OF k] by (simp add: Let_def assert_not_killed_def is_killed_def status_def)
next
  show "if \<exists>l. body = Some l \<and> 2 \<le> card (set l)
       then \<exists>s p' r'. revive_kill_switch kc env note who body now now' (p, r) = (Answer s, p', r') \<and> assert_not_killed p' = None
       else revive_kill_switch kc env note who body now now' (p, r) =
         (Http_error (if body = None \<or> body = Some [] then 422 else 403), p, r)"
  proof (cases body)
    case None
    then show ?thesis by (simp add: revive_kill_switch_def)
  next
    case (Some l)
    obtain res p' r' where k: "revive kc env note who (Some l) now now' (p, r) = (res, p', r')" by (metis prod_cases3)
    show ?thesis
    proof (cases "2 \<le> card (set l)")
      case True
      then obtain x xs where l: "l = x # xs" by (cases l) auto
      have "assert_not_killed p' = None" using revive_mirror [OF k True] by (simp add: assert_not_killed_def)
      then show ?thesis using Some k revive_mirror [OF k True] True
        by (simp add: revive_kill_switch_def dual_check_kill l)
    next
      case False
      then show ?thesis using Some by (cases l) (simp_all add: revive_kill_switch_def dual_check_kill)
    qed
  qed
qed

theorem endpoints_guarded_witness:
  "activate_kill_switch state_codec text_env (Role_list [''quant'']) ''u'' ''r'' 0 1 (fresh_process, []) = (Http_error 403, fresh_process, [])
    \<and> revive_kill_switch state_codec text_env concat ''u'' (Some [''quant'', ''quant'']) 0 1 (fresh_process, []) = (Http_error 403, fresh_process, [])"
  using endpoints_guarded [of "Role_list [''quant'']" state_codec text_env "''u''" "''r''" 0 1 fresh_process "[]"
      "Some [''quant'', ''quant'']" concat] by simp

end
