(* ===== verification/Signal_Factory.thy ===== *)
theory Signal_Factory
  imports Kill_Switch
begin

text \<open>
  From a market signal to a trade card: the central configuration (\<open>core/config/ime_engine.py\<close>), the hard
  blocks, the cost model, scoring and sizing of the signal factory (\<open>services/ime_signal_factory.py\<close>), and the
  adapter that feeds it with the signals of the option and commodity markets (\<open>services/ime_signal_adapter.py\<close>).

  The cost model takes a square root, so the floats of this theory are real numbers. The configuration is a
  nested dictionary (\<open>py_value\<close>); the file's contents, read by the YAML library, are an argument, and the factory
  takes the thresholds it looks up as a record. Texts with Persian digits are lists of code points, and what Unicode counts as a decimal digit
  is an argument. Fresh identifiers and the clock are arguments too. Texts of log lines and rejection reasons are left out.
\<close>

subsection \<open>The configuration\<close>

function deep_merge :: "(string \<times> py_value) list \<Rightarrow> (string \<times> py_value) list \<Rightarrow> (string \<times> py_value) list" where
  "deep_merge base [] = base"
| "deep_merge base ((k, v) # rest) =
     deep_merge
       (case (v, dict_get base k) of
          (PDict over, Some (PDict inner)) \<Rightarrow> dict_set k (PDict (deep_merge inner over)) base
        | _ \<Rightarrow> dict_set k v base) rest"
  by pat_completeness auto
termination
  by (relation "measure (\<lambda>(b, ov). size_list (size_prod (\<lambda>_. 0) size) ov)") auto

definition ime_defaults :: "(string \<times> py_value) list" where
  "ime_defaults =
     [(''config_version'', PStr ''1.0.0''),
      (''engine'', PStr ''ime_decision_support''),
      (''data'', PDict [(''staleness_threshold_seconds'', PInt 10), (''delivery_risk_window_days'', PInt 3),
                        (''depth_erosion_factor'', PFloat (3 / 10))]),
      (''iv'', PDict [(''search_bounds'', PList [PFloat (1 / 100), PFloat 5]), (''convergence_tolerance'', PFloat (1 / 1000)),
                      (''max_iterations'', PInt 100)]),
      (''surface'', PDict [(''min_valid_points'', PInt 3)]),
      (''sabr'', PDict [(''min_strikes_per_maturity'', PInt 5), (''min_active_maturities'', PInt 2),
                        (''calibration_rmse_threshold'', PFloat (2 / 100)), (''stability_window_days'', PInt 20)]),
      (''cointegration'', PDict [(''min_series_length'', PInt 250)]),
      (''signal_factory'', PDict [(''calendar_arb_ratio_threshold'', PFloat (95 / 100)), (''iv_rank_threshold'', PFloat (8 / 10)),
                        (''iv_to_rv_ratio_threshold'', PFloat (13 / 10)), (''slippage_to_gross_edge_max_ratio'', PFloat (1 / 2))]),
      (''sizing'', PDict [(''half_kelly_min_sample_size'', PInt 100), (''daily_loss_cap_reduction_trigger'', PFloat (1 / 2))]),
      (''drift'', PDict [(''model_drift_sigma_threshold'', PFloat 2), (''model_drift_window_trades'', PInt 10)]),
      (''disaster_recovery'', PDict [(''rto_minutes'', PInt 15), (''rpo_minutes'', PInt 5)])]"

definition load_ime_config :: "py_error + py_value \<Rightarrow> (string \<times> py_value) list" where
  \<comment> \<open>the argument is what opening and parsing the file gave\<close>
  "load_ime_config file =
     (case file of Inr (PDict overrides) \<Rightarrow> deep_merge ime_defaults overrides | _ \<Rightarrow> ime_defaults)"

fun ime_threshold :: "py_value \<Rightarrow> string list \<Rightarrow> py_error + py_value" where
  "ime_threshold node [] = Inr node"
| "ime_threshold node (part # path) =
     (case node of
        PDict d \<Rightarrow> (case dict_get d part of None \<Rightarrow> Inl KeyError | Some v \<Rightarrow> ime_threshold v path)
      | _ \<Rightarrow> Inl TypeError)"

subsection \<open>The factory's data\<close>

datatype signal_maturity = DATA_ALERT | ANALYTICAL_OPPORTUNITY | TRADE_CARD

datatype reject_code =
    REJECTED_DATA_STALE
  | REJECTED_DELIVERY_RISK
  | REJECTED_LOW_LIQUIDITY
  | REJECTED_TICK_MISMATCH
  | REJECTED_COST_NOT_COVERED
  | REJECTED_MODEL_LOW_CONFIDENCE

datatype strategy_type = IV_MEAN_REVERSION | CALENDAR_ARB | GAMMA_SCALP

record card_leg =
  cl_instrument_key :: string
  cl_direction :: string
  cl_quantity :: int
  cl_limit_price :: real
  cl_execution_order :: nat

record trade_card =
  tc_card_id :: string
  tc_candidate_id :: string
  tc_legs :: "card_leg list"
  tc_net_edge :: real
  tc_signal_score :: real
  tc_position_size :: int
  tc_invalidation_point :: "real option"
  tc_max_loss :: "real option"
  tc_ttl_seconds :: int
  tc_issued_at :: pytime
  tc_status :: string
  tc_rejection_reason :: "string option"

record pricing_candidate =
  pc_candidate_id :: string
  pc_strategy_type :: strategy_type
  pc_instrument_keys :: "string list"
  pc_theoretical_price :: "real option"
  pc_market_price :: "real option"
  pc_mispricing_pct :: "real option"
  pc_iv :: "real option"
  pc_model_version :: string
  pc_calculation_version :: string
  pc_input_data_timestamp :: "pytime option"
  pc_data_quality :: real
  pc_liquidity_depth :: real
  pc_execution_ease :: real
  pc_model_confidence :: real

record market_state =
  mk_snapshot_age_seconds :: real
  mk_days_to_delivery :: real
  mk_delivery_capability_checked :: bool
  mk_visible_volume :: int
  mk_min_strategy_volume :: int
  mk_tick_size :: real
  mk_proposed_price :: "real option"
  mk_data_degraded :: bool
  mk_iv_converged :: bool
  mk_calibration_rmse :: "real option"
  mk_gross_edge :: real
  mk_commission :: real
  mk_market_impact :: real
  mk_latency_buffer :: real
  mk_avg_volume :: int
  mk_short_term_volatility :: real
  mk_eta :: real
  mk_gamma :: real
  mk_account_risk_budget :: real
  mk_stop_loss_distance :: real

record ime_config =
  ic_staleness_threshold_seconds :: real
  ic_delivery_risk_window_days :: real
  ic_depth_erosion_factor :: real
  ic_calibration_rmse_threshold :: real
  ic_iv_rank_threshold :: real
  ic_iv_to_rv_ratio_threshold :: real
  ic_slippage_to_gross_edge_max_ratio :: real

fun number_of :: "py_value \<Rightarrow> py_error + real" where
  "number_of (PInt n) = Inr (of_int n)"
| "number_of (PFloat x) = Inr (of_rat x)"
| "number_of _ = Inl TypeError"

definition threshold_number :: "(string \<times> py_value) list \<Rightarrow> string \<Rightarrow> string \<Rightarrow> py_error + real" where
  \<comment> \<open>\<open>cfg[section][name]\<close>, used as a number\<close>
  "threshold_number cfg section name =
     (case ime_threshold (PDict cfg) [section, name] of Inl e \<Rightarrow> Inl e | Inr v \<Rightarrow> number_of v)"

definition bind_number :: "py_error + real \<Rightarrow> (real \<Rightarrow> py_error + 'a) \<Rightarrow> py_error + 'a" where
  "bind_number x f = (case x of Inl e \<Rightarrow> Inl e | Inr v \<Rightarrow> f v)"

definition ime_config_of :: "(string \<times> py_value) list \<Rightarrow> py_error + ime_config" where
  \<comment> \<open>the thresholds the factory looks up\<close>
  "ime_config_of cfg =
     bind_number (threshold_number cfg ''data'' ''staleness_threshold_seconds'') (\<lambda>st.
     bind_number (threshold_number cfg ''data'' ''delivery_risk_window_days'') (\<lambda>dr.
     bind_number (threshold_number cfg ''data'' ''depth_erosion_factor'') (\<lambda>de.
     bind_number (threshold_number cfg ''sabr'' ''calibration_rmse_threshold'') (\<lambda>rm.
     bind_number (threshold_number cfg ''signal_factory'' ''iv_rank_threshold'') (\<lambda>ir.
     bind_number (threshold_number cfg ''signal_factory'' ''iv_to_rv_ratio_threshold'') (\<lambda>rv.
     bind_number (threshold_number cfg ''signal_factory'' ''slippage_to_gross_edge_max_ratio'') (\<lambda>mr.
       Inr \<lparr>ic_staleness_threshold_seconds = st, ic_delivery_risk_window_days = dr, ic_depth_erosion_factor = de,
            ic_calibration_rmse_threshold = rm, ic_iv_rank_threshold = ir, ic_iv_to_rv_ratio_threshold = rv,
            ic_slippage_to_gross_edge_max_ratio = mr\<rparr>)))))))"

subsection \<open>Cost, blocks, score and size\<close>

definition calendar_arb_ratio :: "real \<Rightarrow> real \<Rightarrow> real \<Rightarrow> real option" where
  \<comment> \<open>\<open>None\<close> is infinity\<close>
  "calendar_arb_ratio near far carry = (if far - carry \<le> 0 then None else Some ((near - carry) / (far - carry)))"

definition iv_mean_reversion_signal :: "ime_config \<Rightarrow> real \<Rightarrow> real \<Rightarrow> bool" where
  "iv_mean_reversion_signal cfg iv_rank iv_to_rv \<longleftrightarrow> iv_rank > ic_iv_rank_threshold cfg \<and> iv_to_rv > ic_iv_to_rv_ratio_threshold cfg"

definition almgren_chriss_slippage :: "real \<Rightarrow> real \<Rightarrow> real \<Rightarrow> real \<Rightarrow> real \<Rightarrow> real" where
  "almgren_chriss_slippage volume avg_volume volatility eta gamma =
     (if avg_volume \<le> 0 \<or> volume \<le> 0 then 0
      else (let ratio = volume / avg_volume in eta * volatility * sqrt ratio + gamma * ratio))"

definition compute_net_edge :: "real \<Rightarrow> real \<Rightarrow> real \<Rightarrow> real \<Rightarrow> real \<Rightarrow> real" where
  "compute_net_edge gross commission slippage impact latency = gross - commission - slippage - impact - latency"

definition round_half_even :: "real \<Rightarrow> int" where
  \<comment> \<open>\<open>round(x)\<close>\<close>
  "round_half_even x =
     (let f = \<lfloor>x\<rfloor>; r = x - of_int f
      in if r < 1 / 2 then f
         else if r > 1 / 2 then f + 1
         else if even f then f else f + 1)"

definition off_grid :: "market_state \<Rightarrow> bool" where
  "off_grid s =
     (if mk_tick_size s > 0 then
        (case mk_proposed_price s of
           None \<Rightarrow> False
         | Some p \<Rightarrow> (let ticks = p / mk_tick_size s in \<bar>ticks - of_int (round_half_even ticks)\<bar> > 1 / 10 ^ 9))
      else False)"

definition evaluate_hard_blocks ::
  "ime_config \<Rightarrow> market_state \<Rightarrow> real option \<Rightarrow> real option \<Rightarrow> reject_code option" where
  "evaluate_hard_blocks cfg s net_edge slippage =
     (if mk_snapshot_age_seconds s > ic_staleness_threshold_seconds cfg then Some REJECTED_DATA_STALE
      else if mk_days_to_delivery s < ic_delivery_risk_window_days cfg \<and> \<not> mk_delivery_capability_checked s
        then Some REJECTED_DELIVERY_RISK
      else if of_int (mk_visible_volume s) * (1 - ic_depth_erosion_factor cfg) < of_int (mk_min_strategy_volume s)
        then Some REJECTED_LOW_LIQUIDITY
      else if off_grid s then Some REJECTED_TICK_MISMATCH
      else if mk_data_degraded s \<or> \<not> mk_iv_converged s
        \<or> (case mk_calibration_rmse s of None \<Rightarrow> False | Some x \<Rightarrow> x \<ge> ic_calibration_rmse_threshold cfg)
        then Some REJECTED_MODEL_LOW_CONFIDENCE
      else
        (case net_edge of
           None \<Rightarrow> None
         | Some ne \<Rightarrow>
             if mk_gross_edge s > 0 then
               (let ratio = (case slippage of None \<Rightarrow> 0 | Some x \<Rightarrow> x) / mk_gross_edge s
                in if ratio > ic_slippage_to_gross_edge_max_ratio cfg \<or> ne \<le> 0 then Some REJECTED_COST_NOT_COVERED else None)
             else None))"

definition signal_score :: "real \<Rightarrow> real \<Rightarrow> real \<Rightarrow> real \<Rightarrow> real" where
  "signal_score data_quality liquidity_depth execution_ease model_confidence =
     30 / 100 * data_quality + 25 / 100 * liquidity_depth + 25 / 100 * execution_ease + 20 / 100 * model_confidence"

datatype tier = High | Medium | Low

definition score_tier :: "real \<Rightarrow> tier" where
  "score_tier score = (if score \<ge> 75 / 100 then High else if score \<ge> 50 / 100 then Medium else Low)"

fun TIER_MULTIPLIERS :: "tier \<Rightarrow> real" where
  "TIER_MULTIPLIERS High = 1"
| "TIER_MULTIPLIERS Medium = 7 / 10"
| "TIER_MULTIPLIERS Low = 1 / 2"

definition fixed_fractional_size :: "real \<Rightarrow> tier \<Rightarrow> real \<Rightarrow> int" where
  "fixed_fractional_size budget t stop =
     (if stop \<le> 0 \<or> budget \<le> 0 then 0 else \<lfloor>budget * TIER_MULTIPLIERS t / stop\<rfloor>)"

subsection \<open>The factory\<close>

definition candidate_score :: "pricing_candidate \<Rightarrow> real" where
  "candidate_score c = signal_score (pc_data_quality c) (pc_liquidity_depth c) (pc_execution_ease c) (pc_model_confidence c)"

definition state_slippage :: "market_state \<Rightarrow> real" where
  "state_slippage s =
     almgren_chriss_slippage (of_int (mk_visible_volume s)) (of_int (mk_avg_volume s)) (mk_short_term_volatility s) (mk_eta s) (mk_gamma s)"

definition state_net_edge :: "market_state \<Rightarrow> real" where
  "state_net_edge s =
     compute_net_edge (mk_gross_edge s) (mk_commission s) (state_slippage s) (mk_market_impact s) (mk_latency_buffer s)"

definition card_legs :: "pricing_candidate \<Rightarrow> market_state \<Rightarrow> card_leg list" where
  "card_legs c s =
     map (\<lambda>(i, k). \<lparr>cl_instrument_key = k, cl_direction = ''Buy'', cl_quantity = 1,
            cl_limit_price = (case mk_proposed_price s of None \<Rightarrow> 0 | Some p \<Rightarrow> p), cl_execution_order = i\<rparr>)
       (zip [0..<length (pc_instrument_keys c)] (pc_instrument_keys c))"

definition process_candidate ::
  "ime_config \<Rightarrow> 'v process \<Rightarrow> string \<Rightarrow> pytime \<Rightarrow> int \<Rightarrow> pricing_candidate \<Rightarrow> market_state \<Rightarrow>
     (string \<times> string) + signal_maturity \<times> reject_code option \<times> trade_card option" where
  \<comment> \<open>the left side is \<open>TradingHaltedError\<close>\<close>
  "process_candidate cfg p card_id now ttl c s =
     (case assert_not_killed p of
        Some halt \<Rightarrow> Inl halt
      | None \<Rightarrow>
          (let slippage = state_slippage s; net_edge = state_net_edge s
           in case evaluate_hard_blocks cfg s (Some net_edge) (Some slippage) of
                Some code \<Rightarrow> Inr (DATA_ALERT, Some code, None)
              | None \<Rightarrow>
                  (let score = candidate_score c;
                       position = fixed_fractional_size (mk_account_risk_budget s) (score_tier score) (mk_stop_loss_distance s)
                   in Inr (TRADE_CARD, None,
                        Some \<lparr>tc_card_id = card_id, tc_candidate_id = pc_candidate_id c, tc_legs = card_legs c s,
                              tc_net_edge = net_edge, tc_signal_score = score, tc_position_size = position,
                              tc_invalidation_point = None, tc_max_loss = None, tc_ttl_seconds = ttl, tc_issued_at = now,
                              tc_status = ''ISSUED'', tc_rejection_reason = None\<rparr>))))"

subsection \<open>The adapter\<close>

type_synonym utext = "nat list"

definition drop_marks :: "utext \<Rightarrow> utext" where
  \<comment> \<open>Persian digits to ASCII, then commas, parentheses and percent signs away\<close>
  "drop_marks s =
     filter (\<lambda>c. c \<notin> {44, 0x60C, 40, 41, 0x66A, 37})
       (map (\<lambda>c. if 0x6F0 \<le> c \<and> c \<le> 0x6F9 then c - 0x6F0 + 48 else c) s)"

definition number_chars :: "(nat \<Rightarrow> nat option) \<Rightarrow> utext \<Rightarrow> utext" where
  \<comment> \<open>\<open>re.sub(r"[^\d\.\-]", "", s)\<close>\<close>
  "number_chars digit s = filter (\<lambda>c. digit c \<noteq> None \<or> c = 46 \<or> c = 45) s"

fun digits_value :: "(nat \<Rightarrow> nat option) \<Rightarrow> nat \<Rightarrow> utext \<Rightarrow> nat option" where
  "digits_value digit n [] = Some n"
| "digits_value digit n (c # cs) = (case digit c of None \<Rightarrow> None | Some d \<Rightarrow> digits_value digit (10 * n + d) cs)"

definition unsigned_value :: "(nat \<Rightarrow> nat option) \<Rightarrow> utext \<Rightarrow> real option" where
  \<comment> \<open>digits with at most one point, and a digit\<close>
  "unsigned_value digit s =
     (let whole = takeWhile (\<lambda>c. c \<noteq> 46) s; frac = List.tl (dropWhile (\<lambda>c. c \<noteq> 46) s)
      in if whole = [] \<and> frac = [] then None
         else (case (digits_value digit 0 whole, digits_value digit 0 frac) of
                 (Some w, Some f) \<Rightarrow> Some (real w + real f / 10 ^ length frac)
               | _ \<Rightarrow> None))"

definition float_value :: "(nat \<Rightarrow> nat option) \<Rightarrow> utext \<Rightarrow> real option" where
  \<comment> \<open>\<open>float(s)\<close> on a text of digits, points and minus signs; \<open>None\<close> is \<open>ValueError\<close>\<close>
  "float_value digit s =
     (case s of
        [] \<Rightarrow> None
      | c # cs \<Rightarrow> if c = 45 then map_option uminus (unsigned_value digit cs) else unsigned_value digit s)"

definition parse_persian_number :: "(nat \<Rightarrow> nat option) \<Rightarrow> utext \<Rightarrow> real option" where
  "parse_persian_number digit s =
     (let t = number_chars digit (drop_marks s)
      in if t = [] \<or> t = [46] \<or> t = [45] then None else float_value digit t)"

record market_signal =
  ms_symbol :: string
  ms_direction :: string
  ms_entry_zone :: utext
  ms_stop_loss :: utext
  ms_market :: string
  ms_name :: string
  ms_price :: real
  ms_strength :: real
  ms_confidence :: real

definition IME_MARKETS :: "string set" where "IME_MARKETS = {''option'', ''ime''}"

definition infer_strategy_type :: "string \<Rightarrow> string \<Rightarrow> strategy_type" where
  \<comment> \<open>both directions of the table, and its default, are the same\<close>
  "infer_strategy_type market direction = (if market = ''ime'' then CALENDAR_ARB else IV_MEAN_REVERSION)"

definition infer_tick_size :: "real \<Rightarrow> real" where
  "infer_tick_size price =
     (if price \<le> 0 then 1
      else if price > 10000000 then 10000
      else if price > 1000000 then 1000
      else if price > 10000 then 100
      else 1)"

definition infer_gross_edge :: "market_signal \<Rightarrow> real \<Rightarrow> real" where
  "infer_gross_edge sig entry = (if entry = 0 then 0 else ms_confidence sig * entry * (5 / 100))"

definition entry_price :: "(nat \<Rightarrow> nat option) \<Rightarrow> market_signal \<Rightarrow> real" where
  \<comment> \<open>\<open>price or parsed or 0.0\<close>\<close>
  "entry_price digit sig =
     (if ms_price sig \<noteq> 0 then ms_price sig
      else (case parse_persian_number digit (ms_entry_zone sig) of None \<Rightarrow> 0 | Some x \<Rightarrow> x))"

definition stop_loss_pct :: "(nat \<Rightarrow> nat option) \<Rightarrow> market_signal \<Rightarrow> real \<Rightarrow> real" where
  "stop_loss_pct digit sig entry =
     (if ms_stop_loss sig = [] then 2 / 100
      else (case parse_persian_number digit (ms_stop_loss sig) of
              None \<Rightarrow> 2 / 100
            | Some sl \<Rightarrow> if sl \<noteq> 0 \<and> entry \<noteq> 0 then \<bar>entry - sl\<bar> / entry else 2 / 100))"

definition build_market_state :: "(nat \<Rightarrow> nat option) \<Rightarrow> market_signal \<Rightarrow> market_state" where
  "build_market_state digit sig =
     (let entry = entry_price digit sig
      in \<lparr>mk_snapshot_age_seconds = 0, mk_days_to_delivery = 30, mk_delivery_capability_checked = False,
          mk_visible_volume = 1000, mk_min_strategy_volume = 100, mk_tick_size = infer_tick_size entry,
          mk_proposed_price = Some entry, mk_data_degraded = False, mk_iv_converged = True, mk_calibration_rmse = Some (1 / 100),
          mk_gross_edge = infer_gross_edge sig entry, mk_commission = 1 / 1000 * entry, mk_market_impact = 0,
          mk_latency_buffer = 5 / 10000 * entry, mk_avg_volume = 5000, mk_short_term_volatility = 25 / 100,
          mk_eta = 1 / 10, mk_gamma = 5 / 100, mk_account_risk_budget = 10000000,
          mk_stop_loss_distance = max (stop_loss_pct digit sig entry * entry) 1\<rparr>)"

definition market_signal_to_candidate :: "string \<Rightarrow> pytime \<Rightarrow> market_signal \<Rightarrow> pricing_candidate" where
  "market_signal_to_candidate cand_id now sig =
     \<lparr>pc_candidate_id = cand_id, pc_strategy_type = infer_strategy_type (ms_market sig) (ms_direction sig),
      pc_instrument_keys = ms_symbol sig #
        (if ms_market sig \<noteq> [] \<and> ms_name sig \<noteq> [] then [ms_market sig @ '':'' @ ms_name sig] else []),
      pc_theoretical_price = None, pc_market_price = (if ms_price sig \<noteq> 0 then Some (ms_price sig) else None),
      pc_mispricing_pct = None, pc_iv = None, pc_model_version = ''ime-signal-adapter-v1'',
      pc_calculation_version = ''ime-signal-adapter-v1'', pc_input_data_timestamp = Some now,
      pc_data_quality = (if ms_confidence sig \<noteq> 0 then min 1 (ms_confidence sig * (12 / 10)) else 1 / 2),
      pc_liquidity_depth = (if ms_strength sig \<noteq> 0 then min 1 (ms_strength sig) else 1 / 2),
      pc_execution_ease = (if ms_confidence sig \<noteq> 0 then min 1 (ms_confidence sig * (9 / 10) + 1 / 10) else 1 / 2),
      pc_model_confidence = ms_confidence sig\<rparr>"

record adapter_result =
  ar_market :: string
  ar_symbol :: string
  ar_maturity :: signal_maturity
  ar_reject_code :: "reject_code option"
  ar_trade_card :: "trade_card option"

definition is_releasable :: "adapter_result \<Rightarrow> bool" where
  "is_releasable r \<longleftrightarrow> ar_maturity r = TRADE_CARD \<and> ar_trade_card r \<noteq> None"

definition refused :: "market_signal \<Rightarrow> adapter_result" where
  "refused sig = \<lparr>ar_market = ms_market sig, ar_symbol = ms_symbol sig, ar_maturity = DATA_ALERT,
     ar_reject_code = Some REJECTED_DATA_STALE, ar_trade_card = None\<rparr>"

definition convert_signal ::
  "(nat \<Rightarrow> nat option) \<Rightarrow> ime_config \<Rightarrow> 'v process \<Rightarrow> string \<Rightarrow> string \<Rightarrow> pytime \<Rightarrow> pytime \<Rightarrow> int \<Rightarrow> market_signal \<Rightarrow> adapter_result" where
  "convert_signal digit cfg p cand_id card_id now now' ttl sig =
     (if ms_market sig \<notin> IME_MARKETS then refused sig
      else (case process_candidate cfg p card_id now' ttl (market_signal_to_candidate cand_id now sig) (build_market_state digit sig) of
              Inl halt \<Rightarrow> refused sig
            | Inr (maturity, reject, tcard) \<Rightarrow>
                \<lparr>ar_market = ms_market sig, ar_symbol = ms_symbol sig, ar_maturity = maturity, ar_reject_code = reject,
                 ar_trade_card = tcard\<rparr>))"

definition convert_signals ::
  "(nat \<Rightarrow> nat option) \<Rightarrow> ime_config \<Rightarrow> 'v process \<Rightarrow> int \<Rightarrow> (market_signal \<times> string \<times> string \<times> pytime \<times> pytime) list \<Rightarrow> adapter_result list" where
  \<comment> \<open>one after the other, each with its identifiers and clock readings\<close>
  "convert_signals digit cfg p ttl sigs =
     map (\<lambda>(sig, cand_id, card_id, now, now'). convert_signal digit cfg p cand_id card_id now now' ttl sig) sigs"

definition filter_ime_market_signals :: "market_signal list \<Rightarrow> market_signal list" where
  "filter_ime_market_signals sigs = filter (\<lambda>s. ms_market s \<in> IME_MARKETS) sigs"

subsection \<open>Overrides of the configuration\<close>

definition merged_value :: "py_value \<Rightarrow> py_value option \<Rightarrow> py_value" where
  "merged_value v w = (case (v, w) of (PDict over, Some (PDict inner)) \<Rightarrow> PDict (deep_merge inner over) | _ \<Rightarrow> v)"

lemma deep_merge_step: "deep_merge base ((k, v) # rest) = deep_merge (dict_set k (merged_value v (dict_get base k)) base) rest"
  by (simp add: merged_value_def split: py_value.split option.split)

lemma merge_get:
  "dict_ok over \<Longrightarrow> dict_get (deep_merge base over) k =
     (case dict_get over k of None \<Rightarrow> dict_get base k | Some v \<Rightarrow> Some (merged_value v (dict_get base k)))"
proof (induction over arbitrary: base)
  case (Cons p over)
  obtain j v where p: "p = (j, v)" by (cases p)
  have "dict_ok over" "dict_get over j = None" using Cons.prems p by (auto simp: dict_ok_def map_of_eq_None_iff)
  then show ?case using Cons.IH by (simp add: p deep_merge_step del: deep_merge.simps split: option.split)
qed simp

declare deep_merge.simps(2) [simp del]

fun path_ok :: "(string \<times> py_value) list \<Rightarrow> string list \<Rightarrow> bool" where
  \<comment> \<open>the dictionaries on a path have distinct keys\<close>
  "path_ok d [] = True"
| "path_ok d (k # ks) = (dict_ok d \<and> (case dict_get d k of Some (PDict d') \<Rightarrow> path_ok d' ks | _ \<Rightarrow> True))"

fun untouched :: "(string \<times> py_value) list \<Rightarrow> string list \<Rightarrow> bool" where
  "untouched d [] = False"
| "untouched d (k # ks) = (case dict_get d k of None \<Rightarrow> True | Some (PDict d') \<Rightarrow> untouched d' ks | Some _ \<Rightarrow> False)"

lemma override_wins:
  assumes "path_ok over p" "ime_threshold (PDict over) p = Inr v" "\<nexists>d. v = PDict d"
  shows "ime_threshold (PDict (deep_merge base over)) p = Inr v"
  using assms
proof (induction p arbitrary: base over)
  case (Cons k ks)
  then obtain w where w: "dict_get over k = Some w" "ime_threshold w ks = Inr v" by (auto split: option.splits)
  have g: "dict_get (deep_merge base over) k = Some (merged_value w (dict_get base k))" using Cons.prems(1) w by (simp add: merge_get)
  show ?case
  proof (cases "\<exists>d b. w = PDict d \<and> dict_get base k = Some (PDict b)")
    case True
    then obtain d b where d: "w = PDict d" "dict_get base k = Some (PDict b)" by blast
    have "ime_threshold (PDict (deep_merge b d)) ks = Inr v"
      by (rule Cons.IH) (use Cons.prems w d in auto)
    then show ?thesis using g d by (simp add: merged_value_def)
  next
    case False
    then have "merged_value w (dict_get base k) = w" by (auto simp: merged_value_def split: py_value.split option.split)
    then show ?thesis using g w by simp
  qed
qed auto

lemma default_stays:
  assumes "path_ok over p" "untouched over p" "ime_threshold (PDict base) p = Inr v"
  shows "ime_threshold (PDict (deep_merge base over)) p = Inr v"
  using assms
proof (induction p arbitrary: base over)
  case (Cons k ks)
  show ?case
  proof (cases "dict_get over k")
    case None
    then show ?thesis using Cons.prems by (simp add: merge_get)
  next
    case (Some w)
    then obtain d where d: "w = PDict d" "untouched d ks" "path_ok d ks" using Cons.prems by (auto split: py_value.splits)
    obtain u where u: "dict_get base k = Some u" "ime_threshold u ks = Inr v" using Cons.prems(3) by (auto split: option.splits)
    have "ks \<noteq> []" using d(2) by auto
    then obtain b where b: "u = PDict b" using u(2) by (cases ks; cases u) auto
    have "ime_threshold (PDict (deep_merge b d)) ks = Inr v" using Cons.IH [OF d(3,2)] u b by simp
    then show ?thesis using Cons.prems(1) Some u d b by (simp add: merge_get merged_value_def)
  qed
qed simp

definition default_config :: ime_config where
  "default_config = \<lparr>ic_staleness_threshold_seconds = 10, ic_delivery_risk_window_days = 3, ic_depth_erosion_factor = 3 / 10,
     ic_calibration_rmse_threshold = 2 / 100, ic_iv_rank_threshold = 8 / 10, ic_iv_to_rv_ratio_threshold = 13 / 10,
     ic_slippage_to_gross_edge_max_ratio = 1 / 2\<rparr>"

lemma defaults_read: "ime_config_of ime_defaults = Inr default_config"
  by (simp add: ime_config_of_def bind_number_def threshold_number_def ime_defaults_def default_config_def of_rat_divide)

text \<open>The file overrides the built-in thresholds one by one: a value the file has at some path is what a lookup of the path
  finds, every other default stays, also inside a section the file has in part, and a file that cannot be read or
  holds no mapping leaves all defaults.\<close>

theorem config_overrides:
  assumes "path_ok over p"
  shows "(ime_threshold (PDict over) p = Inr v \<and> (\<nexists>d. v = PDict d)
           \<longrightarrow> ime_threshold (PDict (load_ime_config (Inr (PDict over)))) p = Inr v)
    \<and> (untouched over p \<and> ime_threshold (PDict ime_defaults) p = Inr v
           \<longrightarrow> ime_threshold (PDict (load_ime_config (Inr (PDict over)))) p = Inr v)
    \<and> ((\<nexists>d. file = Inr (PDict d)) \<longrightarrow> ime_config_of (load_ime_config file) = Inr default_config)"
  using override_wins [OF assms] default_stays [OF assms] defaults_read
  by (auto simp: load_ime_config_def split: sum.split py_value.split)

theorem config_overrides_witness:
  "ime_threshold (PDict (load_ime_config (Inr (PDict [(''data'', PDict [(''delivery_risk_window_days'', PInt 5)])]))))
     [''data'', ''delivery_risk_window_days''] = Inr (PInt 5)
   \<and> ime_threshold (PDict (load_ime_config (Inr (PDict [(''data'', PDict [(''delivery_risk_window_days'', PInt 5)])]))))
     [''data'', ''staleness_threshold_seconds''] = Inr (PInt 10)"
proof -
  let ?o = "[(''data'', PDict [(''delivery_risk_window_days'', PInt 5)])]"
  have "path_ok ?o [''data'', k]" for k by (simp add: dict_ok_def)
  note c = config_overrides [OF this]
  show ?thesis
    using c [of "''delivery_risk_window_days''" "PInt 5"] c [of "''staleness_threshold_seconds''" "PInt 10"]
    by (simp add: ime_defaults_def)
qed

subsection \<open>Size and score\<close>

lemma multiplier_range: "1 / 2 \<le> TIER_MULTIPLIERS t" "TIER_MULTIPLIERS t \<le> 1"
  by (cases t; simp)+

lemma size_bounds:
  "0 \<le> fixed_fractional_size budget t stop"
  "0 < stop \<Longrightarrow> 0 < budget \<Longrightarrow> of_int (fixed_fractional_size budget t stop) * stop \<le> budget * TIER_MULTIPLIERS t"
  "0 < stop \<Longrightarrow> 0 < budget \<Longrightarrow> budget * TIER_MULTIPLIERS t < (of_int (fixed_fractional_size budget t stop) + 1) * stop"
  "0 < budget \<Longrightarrow> budget * TIER_MULTIPLIERS t \<le> budget"
  using multiplier_range(1) [of t] mult_left_mono [OF multiplier_range(2) [of t], of budget]
    floor_divide_lower [of stop "budget * TIER_MULTIPLIERS t"] floor_divide_upper [of stop "budget * TIER_MULTIPLIERS t"]
  by (simp_all add: fixed_fractional_size_def)

text \<open>A position never risks more than the budget: the size is not negative, the stop distance times the size
  stays within the budget scaled by the tier, one unit more would not, and a better score never gives a smaller size.\<close>

theorem size_within_risk:
  "0 \<le> fixed_fractional_size budget t stop
    \<and> (0 < stop \<and> 0 < budget \<longrightarrow>
         of_int (fixed_fractional_size budget t stop) * stop \<le> budget * TIER_MULTIPLIERS t
       \<and> budget * TIER_MULTIPLIERS t \<le> budget
       \<and> budget * TIER_MULTIPLIERS t < (of_int (fixed_fractional_size budget t stop) + 1) * stop)
    \<and> (score \<le> score' \<longrightarrow>
         fixed_fractional_size budget (score_tier score) stop \<le> fixed_fractional_size budget (score_tier score') stop)"
proof -
  have grow: "fixed_fractional_size budget (score_tier score) stop \<le> fixed_fractional_size budget (score_tier score') stop"
    if "score \<le> score'"
  proof -
    have "TIER_MULTIPLIERS (score_tier score) \<le> TIER_MULTIPLIERS (score_tier score')"
      using that by (simp add: score_tier_def)
    then show ?thesis
      by (auto simp: fixed_fractional_size_def intro!: floor_mono divide_right_mono mult_left_mono)
  qed
  show ?thesis using size_bounds grow by blast
qed

theorem size_within_risk_witness:
  "fixed_fractional_size 10000000 Medium 300 = 23333
    \<and> of_int (fixed_fractional_size 10000000 Medium 300) * (300 :: real) \<le> 10000000 * TIER_MULTIPLIERS Medium"
  using size_within_risk [of 10000000 Medium 300 0 0] by (simp add: fixed_fractional_size_def)

lemma score_range:
  assumes "0 \<le> a" "a \<le> 1" "0 \<le> b" "b \<le> 1" "0 \<le> c" "c \<le> 1" "0 \<le> d" "d \<le> 1"
  shows "0 \<le> signal_score a b c d \<and> signal_score a b c d \<le> 1"
  using assms by (simp add: signal_score_def)

subsection \<open>When a card is issued\<close>

definition tradable :: "ime_config \<Rightarrow> market_state \<Rightarrow> bool" where
  \<comment> \<open>what a card promises about the market\<close>
  "tradable cfg s \<longleftrightarrow>
     mk_snapshot_age_seconds s \<le> ic_staleness_threshold_seconds cfg
     \<and> (ic_delivery_risk_window_days cfg \<le> mk_days_to_delivery s \<or> mk_delivery_capability_checked s)
     \<and> of_int (mk_min_strategy_volume s) \<le> of_int (mk_visible_volume s) * (1 - ic_depth_erosion_factor cfg)
     \<and> (\<forall>p. 0 < mk_tick_size s \<and> mk_proposed_price s = Some p \<longrightarrow>
          (\<exists>n :: int. \<bar>p - of_int n * mk_tick_size s\<bar> \<le> mk_tick_size s / 10 ^ 9))
     \<and> \<not> mk_data_degraded s \<and> mk_iv_converged s
     \<and> (\<forall>x. mk_calibration_rmse s = Some x \<longrightarrow> x < ic_calibration_rmse_threshold cfg)
     \<and> (0 < mk_gross_edge s \<longrightarrow>
          0 < state_net_edge s \<and> state_slippage s \<le> ic_slippage_to_gross_edge_max_ratio cfg * mk_gross_edge s)"

lemma round_half_even_nearest: "\<bar>x - of_int (round_half_even x)\<bar> \<le> \<bar>x - of_int n\<bar>"
proof -
  have f: "of_int \<lfloor>x\<rfloor> \<le> x" "x < of_int \<lfloor>x\<rfloor> + 1" by linarith+
  consider "n \<le> \<lfloor>x\<rfloor>" | "\<lfloor>x\<rfloor> + 1 \<le> n" by linarith
  then have "min (x - of_int \<lfloor>x\<rfloor>) (of_int \<lfloor>x\<rfloor> + 1 - x) \<le> \<bar>x - of_int n\<bar>"
  proof cases
    case 1
    then have "(of_int n :: real) \<le> of_int \<lfloor>x\<rfloor>" by simp
    then show ?thesis using f by (simp add: min_def abs_if)
  next
    case 2
    then have "of_int (\<lfloor>x\<rfloor> + 1) \<le> (of_int n :: real)" by (simp only: of_int_le_iff)
    then show ?thesis using f by (simp add: min_def abs_if)
  qed
  moreover have "\<bar>x - of_int (round_half_even x)\<bar> = min (x - of_int \<lfloor>x\<rfloor>) (of_int \<lfloor>x\<rfloor> + 1 - x)"
  proof -
    define k where "k = \<lfloor>x\<rfloor>"
    have k: "of_int k \<le> x" "x < of_int k + 1" unfolding k_def using f by blast+
    show ?thesis
      unfolding round_half_even_def Let_def k_def [symmetric] using k by (auto simp: abs_if min_def)
  qed
  ultimately show ?thesis by simp
qed

lemma on_grid_iff:
  "\<not> off_grid s \<longleftrightarrow> (\<forall>p. 0 < mk_tick_size s \<and> mk_proposed_price s = Some p \<longrightarrow>
     (\<exists>n :: int. \<bar>p - of_int n * mk_tick_size s\<bar> \<le> mk_tick_size s / 10 ^ 9))"
proof -
  let ?t = "mk_tick_size s"
  have "\<bar>p / ?t - of_int n\<bar> \<le> 1 / 10 ^ 9 \<longleftrightarrow> \<bar>p - of_int n * ?t\<bar> \<le> ?t / 10 ^ 9" if "0 < ?t" for p n
  proof -
    have "p / ?t - of_int n = (p - of_int n * ?t) / ?t" using that by (simp add: field_simps)
    then have "\<bar>p / ?t - of_int n\<bar> = \<bar>p - of_int n * ?t\<bar> / ?t" using that by simp
    then show ?thesis using that by (simp add: pos_divide_le_eq)
  qed
  moreover have "\<bar>x - of_int (round_half_even x)\<bar> \<le> 1 / 10 ^ 9 \<longleftrightarrow> (\<exists>n :: int. \<bar>x - of_int n\<bar> \<le> 1 / 10 ^ 9)" for x :: real
    using round_half_even_nearest order_trans by blast
  ultimately show ?thesis by (auto simp: off_grid_def Let_def not_less split: option.split)
qed

lemma evaluate_none:
  "evaluate_hard_blocks cfg s (Some ne) (Some sl) = None \<longleftrightarrow>
     \<not> mk_snapshot_age_seconds s > ic_staleness_threshold_seconds cfg
     \<and> \<not> (mk_days_to_delivery s < ic_delivery_risk_window_days cfg \<and> \<not> mk_delivery_capability_checked s)
     \<and> \<not> of_int (mk_visible_volume s) * (1 - ic_depth_erosion_factor cfg) < of_int (mk_min_strategy_volume s)
     \<and> \<not> off_grid s
     \<and> \<not> (mk_data_degraded s \<or> \<not> mk_iv_converged s
           \<or> (case mk_calibration_rmse s of None \<Rightarrow> False | Some x \<Rightarrow> x \<ge> ic_calibration_rmse_threshold cfg))
     \<and> \<not> (mk_gross_edge s > 0 \<and> (sl / mk_gross_edge s > ic_slippage_to_gross_edge_max_ratio cfg \<or> ne \<le> 0))"
  unfolding evaluate_hard_blocks_def Let_def by simp

lemma blocks_pass_iff:
  "evaluate_hard_blocks cfg s (Some (state_net_edge s)) (Some (state_slippage s)) = None \<longleftrightarrow> tradable cfg s"
proof -
  have r: "0 < mk_gross_edge s \<Longrightarrow>
      state_slippage s / mk_gross_edge s > r \<longleftrightarrow> \<not> state_slippage s \<le> r * mk_gross_edge s" for r
    by (simp add: pos_less_divide_eq not_le)
  have "(case mk_calibration_rmse s of None \<Rightarrow> False | Some x \<Rightarrow> x \<ge> c) \<longleftrightarrow> \<not> (\<forall>x. mk_calibration_rmse s = Some x \<longrightarrow> x < c)" for c
    by (simp split: option.split) (auto simp: not_less)
  then show ?thesis
    unfolding tradable_def on_grid_iff [symmetric] evaluate_none by (simp only: not_less not_le de_Morgan_conj) (use r in auto)
qed

lemma process_cases:
  "assert_not_killed p = Some halt \<Longrightarrow> process_candidate cfg p i now ttl c s = Inl halt"
  "assert_not_killed p = None \<Longrightarrow> \<not> tradable cfg s \<Longrightarrow>
     \<exists>code. process_candidate cfg p i now ttl c s = Inr (DATA_ALERT, Some code, None)"
  "assert_not_killed p = None \<Longrightarrow> tradable cfg s \<Longrightarrow>
     \<exists>t. process_candidate cfg p i now ttl c s = Inr (TRADE_CARD, None, Some t) \<and> tc_net_edge t = state_net_edge s
       \<and> tc_signal_score t = candidate_score c \<and> tc_legs t = card_legs c s
       \<and> tc_position_size t = fixed_fractional_size (mk_account_risk_budget s) (score_tier (candidate_score c)) (mk_stop_loss_distance s)"
  using blocks_pass_iff [of cfg s] by (auto simp: process_candidate_def Let_def split: option.split)

lemma legs_of_card: "map cl_instrument_key (card_legs c s) = pc_instrument_keys c"
  by (simp add: card_legs_def comp_def case_prod_unfold)

text \<open>A trade card is issued exactly when trading is not halted and the market state passes every block: fresh data, no delivery risk,
  enough volume after erosion, a price on the tick grid, a trusted model, and, when a gross edge is claimed, a positive
  net edge with bounded slippage. Then the stop loss of the suggested size stays within the risk budget; otherwise the answer is the halt or a
  rejection code without a card.\<close>

theorem card_only_when_tradable:
  "(\<exists>t. process_candidate cfg p i now ttl c s = Inr (TRADE_CARD, None, Some t)) = (assert_not_killed p = None \<and> tradable cfg s)
    \<and> (process_candidate cfg p i now ttl c s = Inr (mat, rej, Some t) \<longrightarrow>
         mat = TRADE_CARD \<and> rej = None \<and> tc_net_edge t = state_net_edge s \<and> map cl_instrument_key (tc_legs t) = pc_instrument_keys c
       \<and> 0 \<le> tc_position_size t
       \<and> (0 < mk_stop_loss_distance s \<and> 0 < mk_account_risk_budget s \<longrightarrow>
            of_int (tc_position_size t) * mk_stop_loss_distance s \<le> mk_account_risk_budget s))
    \<and> (assert_not_killed p \<noteq> None \<longrightarrow> process_candidate cfg p i now ttl c s = Inl (the (assert_not_killed p)))"
proof -
  let ?b = "mk_account_risk_budget s" and ?d = "mk_stop_loss_distance s" and ?t = "score_tier (candidate_score c)"
  have risk: "0 \<le> fixed_fractional_size ?b ?t ?d \<and> (0 < ?d \<and> 0 < ?b \<longrightarrow> of_int (fixed_fractional_size ?b ?t ?d) * ?d \<le> ?b)"
    using size_bounds(1) order_trans [OF size_bounds(2) size_bounds(4)] by blast
  show ?thesis
  proof (cases "assert_not_killed p")
    case (Some halt)
    then show ?thesis using process_cases(1) [OF Some, of cfg i now ttl c s] by simp
  next
    case None
    show ?thesis
    proof (cases "tradable cfg s")
      case True
      then show ?thesis using process_cases(3) [OF None True, of i now ttl c] risk None legs_of_card [of c s] by auto
    next
      case False
      then show ?thesis using process_cases(2) [OF None False, of i now ttl c] None by auto
    qed
  qed
qed

definition demo_signal :: market_signal where
  "demo_signal = \<lparr>ms_symbol = ''s'', ms_direction = ''buy'', ms_entry_zone = [], ms_stop_loss = [], ms_market = ''ime'',
     ms_name = [], ms_price = 5000, ms_strength = 1, ms_confidence = 1\<rparr>"

lemma live_process: "assert_not_killed fresh_process = None"
  by (simp add: assert_not_killed_def is_killed_def fresh_process_def kill_state_init_def)

definition adapter_slippage :: real where
  "adapter_slippage = sqrt (1 / 5) / 40 + 1 / 100"

lemma adapter_slippage_range: "0 < adapter_slippage" "adapter_slippage < 1 / 20"
proof -
  have "sqrt (1 / 5) < 1" by (rule real_less_lsqrt) auto
  then show "adapter_slippage < 1 / 20" unfolding adapter_slippage_def by linarith
  show "0 < adapter_slippage" by (simp add: adapter_slippage_def add_pos_pos)
qed

lemma built_state:
  "state_slippage (build_market_state digit sig) = adapter_slippage"
  "state_net_edge (build_market_state digit sig) =
     infer_gross_edge sig (entry_price digit sig) - 15 / 10000 * entry_price digit sig - adapter_slippage"
proof -
  show 1: "state_slippage (build_market_state digit sig) = adapter_slippage"
    by (simp add: state_slippage_def build_market_state_def Let_def almgren_chriss_slippage_def adapter_slippage_def)
  show "state_net_edge (build_market_state digit sig) =
     infer_gross_edge sig (entry_price digit sig) - 15 / 10000 * entry_price digit sig - adapter_slippage"
    unfolding state_net_edge_def 1 by (simp add: compute_net_edge_def build_market_state_def Let_def)
qed

lemma tick_pos: "0 < infer_tick_size x"
  by (simp add: infer_tick_size_def)

lemma built_tradable:
  "tradable default_config (build_market_state digit sig) \<longleftrightarrow>
     (let e = entry_price digit sig; tick = infer_tick_size e; gross = infer_gross_edge sig e
      in (\<exists>n :: int. \<bar>e - of_int n * tick\<bar> \<le> tick / 10 ^ 9)
        \<and> (0 < gross \<longrightarrow> 15 / 10000 * e + adapter_slippage < gross \<and> 2 * adapter_slippage \<le> gross))"
proof -
  let ?s = "build_market_state digit sig" and ?e = "entry_price digit sig"
  have f: "mk_snapshot_age_seconds ?s = 0" "mk_days_to_delivery ?s = 30" "mk_visible_volume ?s = 1000" "mk_min_strategy_volume ?s = 100"
    "mk_tick_size ?s = infer_tick_size ?e" "mk_proposed_price ?s = Some ?e" "\<not> mk_data_degraded ?s" "mk_iv_converged ?s"
    "mk_calibration_rmse ?s = Some (1 / 100)" "mk_gross_edge ?s = infer_gross_edge sig ?e"
    by (simp_all add: build_market_state_def Let_def)
  have c: "ic_staleness_threshold_seconds default_config = 10" "ic_delivery_risk_window_days default_config = 3"
    "ic_depth_erosion_factor default_config = 3 / 10" "ic_calibration_rmse_threshold default_config = 2 / 100"
    "ic_slippage_to_gross_edge_max_ratio default_config = 1 / 2"
    by (simp_all add: default_config_def)
  show ?thesis
    unfolding tradable_def built_state f c Let_def using tick_pos [of ?e] f(7,8) by auto
qed

lemma convert_cases:
  assumes "ms_market sig \<in> IME_MARKETS"
  shows "is_releasable (convert_signal digit cfg p ci ti now now' ttl sig) \<longleftrightarrow>
     assert_not_killed p = None \<and> tradable cfg (build_market_state digit sig)"
proof (cases "assert_not_killed p")
  case (Some halt)
  then show ?thesis using assms by (simp add: convert_signal_def process_cases(1) is_releasable_def refused_def)
next
  case None
  let ?s = "build_market_state digit sig" and ?c = "market_signal_to_candidate ci now sig"
  show ?thesis
  proof (cases "tradable cfg ?s")
    case True
    then show ?thesis using process_cases(3) [OF None True, of ti now' ttl ?c] assms None
      by (auto simp: convert_signal_def is_releasable_def)
  next
    case False
    then show ?thesis using process_cases(2) [OF None False, of ti now' ttl ?c] assms None
      by (auto simp: convert_signal_def is_releasable_def)
  qed
qed

text \<open>The adapter releases a card for an option or commodity signal with a price and a confidence exactly when trading is not halted, the price lies
  on the tick grid of its magnitude, and the estimated gross edge, five percent of the price times the confidence, is
  above commission, latency and slippage and at least twice the slippage; signals of other markets and of a halted
  system are never released.\<close>

theorem adapter_releases_exactly:
  "(ms_market sig \<in> IME_MARKETS \<and> 0 < ms_price sig \<and> 0 < ms_confidence sig \<longrightarrow>
      is_releasable (convert_signal digit default_config p ci ti now now' ttl sig) =
        (assert_not_killed p = None
         \<and> (\<exists>n :: int. \<bar>ms_price sig - of_int n * infer_tick_size (ms_price sig)\<bar> \<le> infer_tick_size (ms_price sig) / 10 ^ 9)
         \<and> 15 / 10000 * ms_price sig + adapter_slippage < ms_confidence sig * ms_price sig / 20
         \<and> 2 * adapter_slippage \<le> ms_confidence sig * ms_price sig / 20))
    \<and> (ms_market sig \<notin> IME_MARKETS \<or> assert_not_killed p \<noteq> None \<longrightarrow>
      \<not> is_releasable (convert_signal digit cfg p ci ti now now' ttl sig))"
proof -
  have "is_releasable (convert_signal digit default_config p ci ti now now' ttl sig) =
        (assert_not_killed p = None
         \<and> (\<exists>n :: int. \<bar>ms_price sig - of_int n * infer_tick_size (ms_price sig)\<bar> \<le> infer_tick_size (ms_price sig) / 10 ^ 9)
         \<and> 15 / 10000 * ms_price sig + adapter_slippage < ms_confidence sig * ms_price sig / 20
         \<and> 2 * adapter_slippage \<le> ms_confidence sig * ms_price sig / 20)"
    if "ms_market sig \<in> IME_MARKETS" "0 < ms_price sig" "0 < ms_confidence sig"
  proof -
    have e: "entry_price digit sig = ms_price sig" using that by (simp add: entry_price_def)
    have g: "infer_gross_edge sig (ms_price sig) = ms_confidence sig * ms_price sig / 20" using that by (simp add: infer_gross_edge_def)
    have "0 < ms_confidence sig * ms_price sig / 20" using that by simp
    then show ?thesis unfolding convert_cases [OF that(1)] built_tradable e Let_def g by blast
  qed
  moreover have "\<not> is_releasable (convert_signal digit cfg p ci ti now now' ttl sig)"
    if "ms_market sig \<notin> IME_MARKETS \<or> assert_not_killed p \<noteq> None"
  proof (cases "ms_market sig \<in> IME_MARKETS")
    case True
    then show ?thesis using that by (simp add: convert_cases)
  next
    case False
    then show ?thesis by (simp add: convert_signal_def is_releasable_def refused_def)
  qed
  ultimately show ?thesis by blast
qed

theorem adapter_releases_exactly_witness:
  "is_releasable (convert_signal (\<lambda>c. None) default_config (fresh_process :: nat process) ''c'' ''t'' 0 1 20 demo_signal)
    \<and> \<not> is_releasable (convert_signal (\<lambda>c. None) default_config (fresh_process :: nat process) ''c'' ''t'' 0 1 20 (demo_signal\<lparr>ms_price := 1 / 2\<rparr>))"
proof -
  have m: "ms_market demo_signal \<in> IME_MARKETS" "ms_market (demo_signal\<lparr>ms_price := 1 / 2\<rparr>) \<in> IME_MARKETS"
    by (simp_all add: demo_signal_def IME_MARKETS_def)
  have p: "ms_price demo_signal = 5000" "ms_confidence demo_signal = 1" by (simp_all add: demo_signal_def)
  have g: "\<exists>n :: int. \<bar>5000 - of_int n * infer_tick_size 5000\<bar> \<le> infer_tick_size 5000 / 10 ^ 9"
    by (rule exI [of _ 5000]) (simp add: infer_tick_size_def)
  have n: "\<not> (15 / 10000 * (1 / 2) + adapter_slippage < 1 * (1 / 2) / 20 \<and> 2 * adapter_slippage \<le> 1 * (1 / 2) / 20)"
  proof -
    have "1 / 5 < sqrt (1 / 5)" by (rule real_less_rsqrt) (simp add: power2_eq_square)
    then have "1 / 80 < adapter_slippage" unfolding adapter_slippage_def by linarith
    then show ?thesis by simp
  qed
  show ?thesis
    using adapter_releases_exactly [of demo_signal "\<lambda>c. None" "fresh_process :: nat process" "''c''" "''t''" 0 1 20 default_config]
      adapter_releases_exactly [of "demo_signal\<lparr>ms_price := 1 / 2\<rparr>" "\<lambda>c. None" "fresh_process :: nat process" "''c''" "''t''" 0 1 20 default_config]
      m p g n adapter_slippage_range live_process by (simp add: p)
qed

theorem card_only_when_tradable_witness:
  "\<exists>t. process_candidate default_config (fresh_process :: nat process) ''t'' 1 20 (market_signal_to_candidate ''c'' 0 demo_signal)
      (build_market_state (\<lambda>c. None) demo_signal) = Inr (TRADE_CARD, None, Some t)
    \<and> of_int (tc_position_size t) * mk_stop_loss_distance (build_market_state (\<lambda>c. None) demo_signal) \<le> 10000000"
proof -
  let ?s = "build_market_state (\<lambda>c. None) demo_signal" and ?c = "market_signal_to_candidate ''c'' 0 demo_signal"
  have e: "entry_price (\<lambda>c. None) demo_signal = 5000" by (simp add: entry_price_def demo_signal_def)
  have g: "infer_gross_edge demo_signal 5000 = 250" by (simp add: infer_gross_edge_def demo_signal_def)
  have n: "\<exists>n :: int. \<bar>5000 - of_int n * infer_tick_size 5000\<bar> \<le> infer_tick_size 5000 / 10 ^ 9"
    by (rule exI [of _ 5000]) (simp add: infer_tick_size_def)
  have t: "tradable default_config ?s"
    unfolding built_tradable e g Let_def using n adapter_slippage_range by auto
  have d: "0 < mk_stop_loss_distance ?s" "mk_account_risk_budget ?s = 10000000"
    by (simp_all add: build_market_state_def Let_def)
  obtain t where "process_candidate default_config (fresh_process :: nat process) ''t'' 1 20 ?c ?s = Inr (TRADE_CARD, None, Some t)"
    using card_only_when_tradable [of default_config "fresh_process :: nat process" "''t''" 1 20 ?c ?s] t live_process by blast
  then show ?thesis
    using card_only_when_tradable [of default_config "fresh_process :: nat process" "''t''" 1 20 ?c ?s TRADE_CARD None t] d by auto
qed

subsection \<open>Signals the blocks let through\<close>

lemma unclaimed_edge_skips_cost:
  \<comment> \<open>without a positive gross edge the cost block is skipped: a card with a negative net edge\<close>
  assumes "mk_gross_edge s \<le> 0" "tradable cfg s"
  shows "tradable cfg (s\<lparr>mk_commission := x\<rparr>)"
  using assms by (auto simp: tradable_def)

lemma priceless_card:
  \<comment> \<open>a signal without a readable price becomes a card with limit price 0 for millions of units\<close>
  assumes "ms_market sig \<in> IME_MARKETS" "ms_price sig = 0" "parse_persian_number digit (ms_entry_zone sig) = None"
    and "assert_not_killed p = None"
  shows "\<exists>t. ar_trade_card (convert_signal digit default_config p ci ti now now' ttl sig) = Some t
    \<and> (\<forall>l \<in> set (tc_legs t). cl_limit_price l = 0) \<and> 5000000 \<le> tc_position_size t"
proof -
  let ?s = "build_market_state digit sig" and ?c = "market_signal_to_candidate ci now sig"
  have e: "entry_price digit sig = 0" using assms(2,3) by (simp add: entry_price_def)
  have g: "infer_gross_edge sig 0 = 0" by (simp add: infer_gross_edge_def)
  have "\<exists>n :: int. \<bar>0 - of_int n * infer_tick_size 0\<bar> \<le> infer_tick_size 0 / 10 ^ 9"
    by (rule exI [of _ 0]) (simp add: infer_tick_size_def)
  then have "tradable default_config ?s" unfolding built_tradable e g Let_def by simp
  from process_cases(3) [OF assms(4) this, of ti now' ttl ?c] obtain t
    where t: "process_candidate default_config p ti now' ttl ?c ?s = Inr (TRADE_CARD, None, Some t)" "tc_legs t = card_legs ?c ?s"
      "tc_position_size t = fixed_fractional_size (mk_account_risk_budget ?s) (score_tier (candidate_score ?c)) (mk_stop_loss_distance ?s)"
    by blast
  have f: "mk_proposed_price ?s = Some 0" "mk_account_risk_budget ?s = 10000000" "mk_stop_loss_distance ?s = 1"
    using e by (simp_all add: build_market_state_def Let_def)
  have "(5000000 :: real) \<le> 10000000 * TIER_MULTIPLIERS (score_tier (candidate_score ?c))"
    using multiplier_range(1) [of "score_tier (candidate_score ?c)"] by simp
  then have "5000000 \<le> tc_position_size t" unfolding t f fixed_fractional_size_def by (simp add: le_floor_iff)
  moreover have "\<forall>l \<in> set (tc_legs t). cl_limit_price l = 0" unfolding t card_legs_def f by (auto simp: in_set_zip)
  ultimately show ?thesis using t(1) assms(1) by (simp add: convert_signal_def)
qed

definition ascii_digit :: "nat \<Rightarrow> nat option" where
  "ascii_digit c = (if 48 \<le> c \<and> c \<le> 57 then Some (c - 48) else None)"

lemma entry_range_unreadable:
  \<comment> \<open>\<open>"100-200"\<close>, the other documented form of an entry zone\<close>
  "parse_persian_number ascii_digit [49, 48, 48, 45, 50, 48, 48] = None"
  by (simp add: parse_persian_number_def number_chars_def drop_marks_def float_value_def unsigned_value_def ascii_digit_def)

lemma remark_joins_number:
  \<comment> \<open>\<open>"975 (5%)"\<close> is read as 9755\<close>
  "parse_persian_number ascii_digit [57, 55, 53, 32, 40, 53, 37, 41] = Some 9755"
  by (simp add: parse_persian_number_def number_chars_def drop_marks_def float_value_def unsigned_value_def ascii_digit_def)

lemma persian_number:
  \<comment> \<open>\<open>975,000\<close> in Persian digits\<close>
  "parse_persian_number ascii_digit [0x6F9, 0x6F7, 0x6F5, 0x60C, 0x6F0, 0x6F0, 0x6F0] = Some 975000"
  by (simp add: parse_persian_number_def number_chars_def drop_marks_def float_value_def unsigned_value_def ascii_digit_def)

end
