(* ===== verification/Streaming_Indicators.thy ===== *)
theory Streaming_Indicators
  imports Indicators
begin

text \<open>
  The indicators a backtest computes bar by bar (\<open>backtesting/strategies/incremental_indicators.py\<close>): a
  window of the last bars in six bounded deques, and the running averages. A bar is the dictionary the code
  reads, with its numbers only; the time stamp, which is copied, is left out. \<open>np.std\<close> with \<open>ddof=1\<close> and
  \<open>np.sqrt(252)\<close> are arguments. The reference recomputes every feature from the whole history.
\<close>

subsection \<open>State\<close>

record bar_features =
  bf_close :: pyfloat
  bf_open :: pyfloat
  bf_high :: pyfloat
  bf_low :: pyfloat
  bf_last :: pyfloat
  bf_sma_5 :: pyfloat
  bf_sma_10 :: pyfloat
  bf_sma_20 :: pyfloat
  bf_ema_12 :: pyfloat
  bf_ema_26 :: pyfloat
  bf_rsi_14 :: pyfloat
  bf_macd :: pyfloat
  bf_macd_signal :: pyfloat
  bf_macd_histogram :: pyfloat
  bf_atr_14 :: pyfloat
  bf_bollinger_upper :: pyfloat
  bf_bollinger_lower :: pyfloat
  bf_bollinger_mid :: pyfloat
  bf_volatility_20 :: pyfloat
  bf_volume_sma_20 :: pyfloat
  bf_volume_ratio :: pyfloat
  bf_obv :: pyfloat
  bf_return_1d :: pyfloat
  bf_return_5d :: pyfloat
  bf_return_10d :: pyfloat
  bf_return_20d :: pyfloat
  bf_clv :: pyfloat
  bf_clv_n :: pyfloat
  bf_recovery :: pyfloat

record streaming =
  si_max_window :: nat
  si_closes :: "pyfloat list"
  si_highs :: "pyfloat list"
  si_lows :: "pyfloat list"
  si_opens :: "pyfloat list"
  si_volumes :: "pyfloat list"
  si_lasts :: "pyfloat list"
  si_ema12 :: "pyfloat option"
  si_ema26 :: "pyfloat option"
  si_macd_signal :: "pyfloat option"
  si_obv :: pyfloat
  si_prev_close :: pyfloat
  si_avg_gain :: pyfloat
  si_avg_loss :: pyfloat
  si_rsi_initialized :: bool
  si_count :: nat

definition streaming_init :: "nat \<Rightarrow> streaming" where
  "streaming_init n =
     \<lparr>si_max_window = n, si_closes = [], si_highs = [], si_lows = [], si_opens = [], si_volumes = [], si_lasts = [],
      si_ema12 = None, si_ema26 = None, si_macd_signal = None, si_obv = 0, si_prev_close = 0, si_avg_gain = 0,
      si_avg_loss = 0, si_rsi_initialized = False, si_count = 0\<rparr>"

definition streaming_reset :: "streaming \<Rightarrow> streaming" where
  "streaming_reset s =
     s\<lparr>si_closes := [], si_highs := [], si_lows := [], si_opens := [], si_volumes := [], si_lasts := [],
       si_ema12 := None, si_ema26 := None, si_macd_signal := None, si_obv := 0, si_prev_close := 0, si_avg_gain := 0,
       si_avg_loss := 0, si_rsi_initialized := False, si_count := 0\<rparr>"

subsection \<open>The static methods\<close>

definition last_of :: "nat \<Rightarrow> 'a list \<Rightarrow> 'a list" where
  \<comment> \<open>\<open>xs[-n:]\<close> for a positive \<open>n\<close>, and what a deque of that length keeps\<close>
  "last_of n xs = drop (length xs - n) xs"

definition push :: "nat \<Rightarrow> 'a \<Rightarrow> 'a list \<Rightarrow> 'a list" where
  "push n x xs = last_of n (xs @ [x])"

definition mean :: "pyfloat list \<Rightarrow> pyfloat" where
  "mean xs = sum_list xs / of_nat (length xs)"

definition sma :: "pyfloat list \<Rightarrow> nat \<Rightarrow> pyfloat" where
  "sma arr period =
     (if length arr < period then (if arr = [] then 0 else List.last arr) else mean (last_of period arr))"

definition update_ema :: "pyfloat list \<Rightarrow> nat \<Rightarrow> pyfloat option \<Rightarrow> pyfloat" where
  "update_ema arr period prev =
     (if arr = [] then 0
      else (case prev of
              None \<Rightarrow> if period \<le> length arr then mean (last_of period arr) else List.last arr
            | Some e \<Rightarrow> ema_step (2 / (of_nat period + 1)) (List.last arr) e))"

definition update_ema_from_val :: "pyfloat \<Rightarrow> nat \<Rightarrow> pyfloat option \<Rightarrow> pyfloat" where
  "update_ema_from_val v period prev =
     (case prev of None \<Rightarrow> v | Some e \<Rightarrow> ema_step (2 / (of_nat period + 1)) v e)"

definition or_else :: "pyfloat \<Rightarrow> pyfloat \<Rightarrow> pyfloat" where
  \<comment> \<open>\<open>x or y\<close>\<close>
  "or_else x y = (if x = 0 then y else x)"

definition gains_of :: "pyfloat list \<Rightarrow> pyfloat list" where "gains_of closes = map (\<lambda>d. max d 0) (deltas closes)"
definition losses_of :: "pyfloat list \<Rightarrow> pyfloat list" where "losses_of closes = map (\<lambda>d. max (- d) 0) (deltas closes)"

definition rsi_averages :: "pyfloat list \<Rightarrow> nat \<Rightarrow> pyfloat \<times> pyfloat \<times> bool \<Rightarrow> pyfloat \<times> pyfloat \<times> bool" where
  "rsi_averages closes period st =
     (case st of (avg_gain, avg_loss, ready) \<Rightarrow>
        if length closes < 2 then st
        else
          (let change = List.last closes - closes ! (length closes - 2);
               gain = max change 0; loss = max (- change) 0;
               recent = last_of (period + 1) closes
           in if \<not> ready \<and> period + 1 \<le> length closes then (mean (gains_of recent), mean (losses_of recent), True)
              else if ready then (wilder (int period) gain avg_gain, wilder (int period) loss avg_loss, True)
              else st))"

definition rsi_value :: "pyfloat list \<Rightarrow> pyfloat \<times> pyfloat \<times> bool \<Rightarrow> pyfloat" where
  "rsi_value closes st =
     (if length closes < 2 then 50
      else (case st of (avg_gain, avg_loss, _) \<Rightarrow>
              if avg_loss = 0 then (if avg_gain > 0 then 100 else 50)
              else (let rs = avg_gain / avg_loss in 100 - 100 / (1 + rs))))"

definition true_ranges :: "pyfloat list \<Rightarrow> pyfloat list \<Rightarrow> pyfloat list \<Rightarrow> pyfloat list" where
  "true_ranges highs lows closes = map (true_range highs lows closes) [1..<length highs]"

definition atr :: "pyfloat list \<Rightarrow> pyfloat list \<Rightarrow> pyfloat list \<Rightarrow> nat \<Rightarrow> pyfloat" where
  "atr highs lows closes period =
     (if length closes < 2 then 0
      else (let trs = true_ranges highs lows closes in if trs = [] then 0 else mean (last_of period trs)))"

definition period_return :: "pyfloat list \<Rightarrow> nat \<Rightarrow> pyfloat" where
  "period_return closes period =
     (if length closes \<le> period then 0
      else (let prev = closes ! (length closes - period - 1)
            in if prev > 0 then (List.last closes - prev) / prev else 0))"

definition bollinger :: "(pyfloat list \<Rightarrow> pyfloat) \<Rightarrow> pyfloat list \<Rightarrow> pyfloat \<times> pyfloat \<times> pyfloat" where
  \<comment> \<open>middle, upper, lower\<close>
  "bollinger std closes =
     (if 20 \<le> length closes then
        (let m = mean (last_of 20 closes); sd = std (last_of 20 closes) in (m, m + 2 * sd, m - 2 * sd))
      else if closes \<noteq> [] then (mean closes, mean closes, mean closes)
      else (0, 0, 0))"

definition returns_of :: "pyfloat list \<Rightarrow> pyfloat list" where
  "returns_of closes = map (\<lambda>i. (closes ! i - closes ! (i - 1)) / closes ! (i - 1)) [1..<length closes]"

definition volatility :: "(pyfloat list \<Rightarrow> pyfloat) \<Rightarrow> pyfloat \<Rightarrow> pyfloat list \<Rightarrow> pyfloat" where
  "volatility std root252 closes =
     (if 2 \<le> length closes then
        (let rs = returns_of closes in if 2 \<le> length rs then std (last_of 20 rs) * root252 else 0)
      else 0)"

definition obv_change :: "pyfloat \<Rightarrow> pyfloat \<Rightarrow> pyfloat \<Rightarrow> pyfloat" where
  "obv_change prev c v = (if prev > 0 then (if c > prev then v else if c < prev then - v else 0) else 0)"

subsection \<open>A bar\<close>

type_synonym bar = "(string, pyfloat) pydict"

definition bar_close :: "bar \<Rightarrow> pyfloat" where "bar_close b = dict_get_or b ''price_close'' (dict_get_or b ''close'' 0)"
definition bar_open :: "bar \<Rightarrow> pyfloat" where "bar_open b = dict_get_or b ''price_open'' (dict_get_or b ''open'' 0)"
definition bar_high :: "bar \<Rightarrow> pyfloat" where "bar_high b = dict_get_or b ''price_high'' (dict_get_or b ''high'' 0)"
definition bar_low :: "bar \<Rightarrow> pyfloat" where "bar_low b = dict_get_or b ''price_low'' (dict_get_or b ''low'' 0)"
definition bar_volume :: "bar \<Rightarrow> pyfloat" where "bar_volume b = dict_get_or b ''volume'' 0"
definition bar_last :: "bar \<Rightarrow> pyfloat" where "bar_last b = dict_get_or b ''price_last'' (bar_close b)"

definition append_bar :: "bar \<Rightarrow> streaming \<Rightarrow> streaming" where
  "append_bar b s =
     (let n = si_max_window s
      in s\<lparr>si_closes := push n (bar_close b) (si_closes s), si_highs := push n (bar_high b) (si_highs s),
           si_lows := push n (bar_low b) (si_lows s), si_opens := push n (bar_open b) (si_opens s),
           si_volumes := push n (bar_volume b) (si_volumes s), si_lasts := push n (bar_last b) (si_lasts s),
           si_count := si_count s + 1\<rparr>)"

definition streaming_update ::
  "(pyfloat list \<Rightarrow> pyfloat) \<Rightarrow> pyfloat \<Rightarrow> bar \<Rightarrow> streaming \<Rightarrow> bar_features \<times> streaming" where
  "streaming_update std root252 b s0 =
     (let s = append_bar b s0;
          c = bar_close b; h = bar_high b; low = bar_low b; v = bar_volume b;
          closes = si_closes s; volumes = si_volumes s;
          e12 = update_ema closes 12 (si_ema12 s); e26 = update_ema closes 26 (si_ema26 s);
          ema_12 = or_else e12 c; ema_26 = or_else e26 c;
          macd = ema_12 - ema_26;
          sig = update_ema_from_val macd 9 (si_macd_signal s);
          rsi = rsi_averages closes 14 (si_avg_gain s, si_avg_loss s, si_rsi_initialized s);
          (mid, upper, lower) = bollinger std closes;
          volume_sma = (if volumes \<noteq> [] then mean (last_of 20 volumes) else 0);
          obv = si_obv s + obv_change (si_prev_close s) c v;
          r = h - low;
          clv = (if r > 0 then ((c - low) - (h - c)) / r else 0)
      in (\<lparr>bf_close = c, bf_open = bar_open b, bf_high = h, bf_low = low, bf_last = bar_last b,
           bf_sma_5 = sma closes 5, bf_sma_10 = sma closes 10, bf_sma_20 = sma closes 20,
           bf_ema_12 = ema_12, bf_ema_26 = ema_26, bf_rsi_14 = rsi_value closes rsi,
           bf_macd = macd, bf_macd_signal = sig, bf_macd_histogram = macd - sig,
           bf_atr_14 = atr (si_highs s) (si_lows s) closes 14,
           bf_bollinger_upper = upper, bf_bollinger_lower = lower, bf_bollinger_mid = mid,
           bf_volatility_20 = volatility std root252 closes,
           bf_volume_sma_20 = volume_sma, bf_volume_ratio = (if volume_sma > 0 then v / volume_sma else 1),
           bf_obv = obv,
           bf_return_1d = period_return closes 1, bf_return_5d = period_return closes 5,
           bf_return_10d = period_return closes 10, bf_return_20d = period_return closes 20,
           bf_clv = clv, bf_clv_n = (clv + 1) / 2, bf_recovery = (if r > 0 then (c - low) / r else 1 / 2)\<rparr>,
          s\<lparr>si_ema12 := Some e12, si_ema26 := Some e26, si_macd_signal := Some sig, si_obv := obv, si_prev_close := c,
            si_avg_gain := fst rsi, si_avg_loss := fst (snd rsi), si_rsi_initialized := snd (snd rsi)\<rparr>))"

fun streaming_run :: "(pyfloat list \<Rightarrow> pyfloat) \<Rightarrow> pyfloat \<Rightarrow> bar list \<Rightarrow> streaming \<Rightarrow> streaming" where
  "streaming_run std root252 [] s = s"
| "streaming_run std root252 (b # bs) s = streaming_run std root252 bs (snd (streaming_update std root252 b s))"

subsection \<open>The whole history\<close>

fun ema_of :: "pyfloat \<Rightarrow> pyfloat list \<Rightarrow> pyfloat" where
  \<comment> \<open>seeded with the first value\<close>
  "ema_of alpha [] = 0"
| "ema_of alpha (x # xs) = fold (ema_step alpha) xs x"

definition macd_of :: "pyfloat list \<Rightarrow> pyfloat" where
  "macd_of closes =
     or_else (ema_of (2 / 13) closes) (List.last closes) - or_else (ema_of (2 / 27) closes) (List.last closes)"

definition prefixes_from_1 :: "'a list \<Rightarrow> 'a list list" where
  "prefixes_from_1 xs = map (\<lambda>i. take i xs) [1..<length xs + 1]"

definition macd_signal_of :: "pyfloat list \<Rightarrow> pyfloat" where
  "macd_signal_of closes = ema_of (2 / 10) (map macd_of (prefixes_from_1 closes))"

definition obv_of :: "pyfloat list \<Rightarrow> pyfloat list \<Rightarrow> pyfloat" where
  "obv_of closes volumes = sum_list (map (\<lambda>i. obv_change (closes ! (i - 1)) (closes ! i) (volumes ! i)) [1..<length closes])"

definition average_gain :: "pyfloat list \<Rightarrow> pyfloat" where
  "average_gain closes =
     fold (wilder 14) (slice_from 14 (gains_of closes)) (sum_list (slice_to 14 (gains_of closes)) / 14)"

definition average_loss :: "pyfloat list \<Rightarrow> pyfloat" where
  "average_loss closes =
     fold (wilder 14) (slice_from 14 (losses_of closes)) (sum_list (slice_to 14 (losses_of closes)) / 14)"

subsection \<open>Windows of a history\<close>

lemma last_of_all: "length xs \<le> n \<Longrightarrow> last_of n xs = xs"
  by (simp add: last_of_def)

lemma length_last_of [simp]: "length (last_of n xs) = min n (length xs)"
  by (simp add: last_of_def)

lemma last_of_last_of: "k \<le> n \<Longrightarrow> last_of k (last_of n xs) = last_of k xs"
  by (cases "length xs \<le> n") (auto simp: last_of_def intro!: arg_cong [where f = "\<lambda>m. drop m xs"])

lemma push_last_of: "push n x (last_of n xs) = last_of n (xs @ [x])"
  by (cases "length xs < n") (simp_all add: push_def last_of_def Suc_diff_le)

lemma last_last_of: "0 < n \<Longrightarrow> xs \<noteq> [] \<Longrightarrow> List.last (last_of n xs) = List.last xs"
  by (simp add: last_of_def)

lemma last_of_eq_Nil [simp]: "0 < n \<Longrightarrow> last_of n xs = [] \<longleftrightarrow> xs = []"
  unfolding length_0_conv [symmetric] by (simp add: min_def del: length_0_conv)

lemma nth_last_of: "i < length (last_of n xs) \<Longrightarrow> last_of n xs ! i = xs ! (length xs - min n (length xs) + i)"
  by (auto simp: last_of_def min_def)

lemma last_of_nth_from_end:
  assumes "j < n" "j < length xs"
  shows "last_of n xs ! (length (last_of n xs) - j - 1) = xs ! (length xs - j - 1)"
  using assms by (auto simp: nth_last_of min_def)

lemma sma_window: "0 < n \<Longrightarrow> k \<le> n \<Longrightarrow> sma (last_of n xs) k = sma xs k"
  by (cases "length xs < n") (auto simp: sma_def last_of_last_of last_of_all)

lemma return_window: "k < n \<Longrightarrow> period_return (last_of n xs) k = period_return xs k"
proof -
  assume k: "k < n"
  show ?thesis
  proof (cases "length xs \<le> k")
    case False
    then have "xs \<noteq> []" by auto
    then show ?thesis using False k last_of_nth_from_end [OF k, of xs] last_last_of [of n xs]
      by (auto simp: period_return_def Let_def)
  qed (auto simp: period_return_def)
qed

lemma bollinger_window: "20 \<le> n \<Longrightarrow> bollinger std (last_of n xs) = bollinger std xs"
  by (cases "length xs < n") (auto simp: bollinger_def last_of_last_of last_of_all)

lemma pairwise_last_of:
  \<comment> \<open>a list made of neighbours, on a window\<close>
  assumes "\<And>i. 0 < i \<Longrightarrow> i < length (last_of n xs) \<Longrightarrow> f i = g (length xs - length (last_of n xs) + i)"
    and "1 < n" "k < n"
  shows "last_of k (map f [1..<length (last_of n xs)]) = last_of k (map g [1..<length xs])"
proof (cases "length xs \<le> n")
  case True
  then have "map f [1..<length (last_of n xs)] = map g [1..<length xs]" using assms(1) by (auto simp: last_of_all)
  then show ?thesis by simp
next
  case False
  then have l: "length (last_of n xs) = n" by simp
  have "map f [1..<n] = drop (length xs - n) (map g [1..<length xs])"
    using assms(1,2) False by (intro nth_equalityI) (auto simp: l Suc_diff_le)
  then show ?thesis using False assms(2,3) by (simp add: l last_of_def)
qed

lemma map_last_of: "last_of n (map f xs) = map f (last_of n xs)"
  by (simp add: last_of_def drop_map)

lemma atr_window:
  assumes "length highs = length closes" "length lows = length closes" "15 \<le> n"
  shows "atr (last_of n highs) (last_of n lows) (last_of n closes) 14 = atr highs lows closes 14"
proof -
  have "last_of 14 (true_ranges (last_of n highs) (last_of n lows) (last_of n closes)) = last_of 14 (true_ranges highs lows closes)"
    unfolding true_ranges_def
    by (rule pairwise_last_of [where g = "true_range highs lows closes"])
      (use assms in \<open>auto simp: true_range_def nth_last_of min_def\<close>)
  moreover have "true_ranges (last_of n highs) (last_of n lows) (last_of n closes) = [] \<longleftrightarrow> true_ranges highs lows closes = []"
    using assms by (auto simp: true_ranges_def)
  moreover have "length (last_of n closes) < 2 \<longleftrightarrow> length closes < 2" using assms(3) by (auto simp: min_def)
  ultimately show ?thesis by (simp add: atr_def Let_def)
qed

lemma volatility_window:
  assumes "21 \<le> n"
  shows "volatility std root252 (last_of n xs) = volatility std root252 xs"
proof -
  have "last_of 20 (returns_of (last_of n xs)) = last_of 20 (returns_of xs)"
    unfolding returns_of_def
    by (rule pairwise_last_of [where g = "\<lambda>i. (xs ! i - xs ! (i - 1)) / xs ! (i - 1)"])
      (use assms in \<open>auto simp: nth_last_of min_def\<close>)
  moreover have "2 \<le> length (returns_of (last_of n xs)) \<longleftrightarrow> 2 \<le> length (returns_of xs)"
    using assms by (auto simp: returns_of_def min_def)
  moreover have "2 \<le> length (last_of n xs) \<longleftrightarrow> 2 \<le> length xs" using assms by (auto simp: min_def)
  ultimately show ?thesis by (simp add: volatility_def Let_def)
qed

subsection \<open>The running values\<close>

lemma ema_of_append: "xs \<noteq> [] \<Longrightarrow> ema_of alpha (xs @ [x]) = ema_step alpha x (ema_of alpha xs)"
  by (cases xs) simp_all

lemma prefixes_append: "prefixes_from_1 (xs @ [x]) = prefixes_from_1 xs @ [xs @ [x]]"
  by (auto simp: prefixes_from_1_def)

lemma prefixes_eq_Nil [simp]: "prefixes_from_1 xs = [] \<longleftrightarrow> xs = []"
  by (cases xs) (simp_all add: prefixes_from_1_def)

lemma prefixes_Nil [simp]: "prefixes_from_1 [] = []"
  by simp

lemma upt_snoc: "1 \<le> n \<Longrightarrow> [1..<Suc n] = [1..<n] @ [n]"
  by simp

lemma deltas_append: "xs \<noteq> [] \<Longrightarrow> deltas (xs @ [x]) = deltas xs @ [x - List.last xs]"
  by (cases xs rule: rev_cases) (auto simp: deltas_def nth_append last_conv_nth upt_snoc)

lemma obv_append:
  assumes "xs \<noteq> []" "length vs = length xs"
  shows "obv_of (xs @ [x]) (vs @ [v]) = obv_of xs vs + obv_change (List.last xs) x v"
proof -
  have old: "map (\<lambda>i. obv_change ((xs @ [x]) ! (i - 1)) ((xs @ [x]) ! i) ((vs @ [v]) ! i)) [1..<length xs] =
      map (\<lambda>i. obv_change (xs ! (i - 1)) (xs ! i) (vs ! i)) [1..<length xs]"
    using assms(2) by (auto simp: nth_append)
  have new: "[1..<length (xs @ [x])] = [1..<length xs] @ [length xs]" using assms(1) by (cases xs) simp_all
  show ?thesis
    unfolding obv_of_def new map_append sum_list_append old using assms by (simp add: nth_append last_conv_nth)
qed

lemma deltas_length [simp]: "length (deltas xs) = length xs - 1"
  by (simp add: deltas_def)

lemma wilder_append:
  fixes ys :: "pyfloat list"
  shows "14 \<le> length ys \<Longrightarrow> fold (wilder 14) (slice_from 14 (ys @ [y])) (sum_list (slice_to 14 (ys @ [y])) / 14) =
     wilder 14 y (fold (wilder 14) (slice_from 14 ys) (sum_list (slice_to 14 ys) / 14))"
  by (simp add: slice_from_def slice_to_def)

lemma average_append:
  assumes "15 \<le> length xs"
  shows "average_gain (xs @ [x]) = wilder 14 (max (x - List.last xs) 0) (average_gain xs)"
    and "average_loss (xs @ [x]) = wilder 14 (max (List.last xs - x) 0) (average_loss xs)"
proof -
  have "xs \<noteq> []" using assms by auto
  then show "average_gain (xs @ [x]) = wilder 14 (max (x - List.last xs) 0) (average_gain xs)"
    "average_loss (xs @ [x]) = wilder 14 (max (List.last xs - x) 0) (average_loss xs)"
    using assms by (simp_all add: average_gain_def average_loss_def gains_of_def losses_of_def deltas_append wilder_append)
qed

lemma average_seed:
  assumes "length xs = 15"
  shows "average_gain xs = mean (gains_of xs)" "average_loss xs = mean (losses_of xs)"
  using assms by (simp_all add: average_gain_def average_loss_def gains_of_def losses_of_def slice_from_def slice_to_def mean_def)

definition rsi_state :: "pyfloat list \<Rightarrow> pyfloat \<times> pyfloat \<times> bool" where
  "rsi_state xs = (if length xs < 15 then (0, 0, False) else (average_gain xs, average_loss xs, True))"

lemma rsi_state_append:
  assumes "15 \<le> n"
  shows "rsi_averages (last_of n (xs @ [x])) 14 (rsi_state xs) = rsi_state (xs @ [x])"
proof (cases "xs = []")
  case True
  then show ?thesis using assms by (simp add: rsi_averages_def rsi_state_def last_of_all)
next
  case False
  define w where "w = last_of n (xs @ [x])"
  have len: "2 \<le> length w" using assms False by (cases xs) (auto simp: w_def)
  have lst: "List.last w = x" using last_last_of [of n "xs @ [x]"] assms by (simp add: w_def)
  have prev: "w ! (length w - 2) = List.last xs"
    using last_of_nth_from_end [of 1 n "xs @ [x]"] assms False by (simp add: w_def nth_append last_conv_nth numeral_2_eq_2)
  have w: "15 \<le> length w \<longleftrightarrow> 14 \<le> length xs" using assms by (auto simp: w_def)
  consider "length xs < 14" | "length xs = 14" | "15 \<le> length xs" by linarith
  then have "rsi_averages w 14 (rsi_state xs) = rsi_state (xs @ [x])"
  proof cases
    case 1
    then show ?thesis using len w by (simp add: rsi_averages_def rsi_state_def Let_def)
  next
    case 2
    then have "last_of 15 w = xs @ [x]" using assms by (simp add: w_def last_of_last_of last_of_all)
    then show ?thesis using 2 len w average_seed [of "xs @ [x]"] by (simp add: rsi_averages_def rsi_state_def Let_def)
  next
    case 3
    then show ?thesis using len lst prev average_append [OF 3, of x]
      by (simp add: rsi_averages_def rsi_state_def Let_def)
  qed
  then show ?thesis by (simp add: w_def)
qed

lemma rsi_reference:
  assumes "15 \<le> length xs \<Longrightarrow> 1 / 10 ^ 10 \<le> average_loss xs"
  shows "compute_rsi xs 14 = Inr (rsi_value xs (rsi_state xs))"
proof (cases "length xs < 15")
  case True
  then show ?thesis by (simp add: compute_rsi_def rsi_value_def rsi_state_def)
next
  case False
  define g l where "g = average_gain xs" and "l = average_loss xs"
  have pos: "0 \<le> g" unfolding g_def average_gain_def
    using wilder_nonneg [of 14 "gains_of xs"] by (simp add: gains_of_def)
  have l: "1 / 10 ^ 10 \<le> l" using assms False by (simp add: l_def)
  moreover have "(0::pyfloat) < 1 / 10 ^ 10" by simp
  ultimately have "0 < l" by linarith
  then have "0 \<le> g / l" using pos by simp
  then have "1 + g / l \<noteq> 0" by linarith
  moreover have "compute_rsi xs 14 =
      (if l < 1 / 10 ^ 10 then Inr 100 else if 1 + g / l = 0 then Inl ZeroDivisionError else Inr (100 - 100 / (1 + g / l)))"
    using False by (simp add: compute_rsi_def g_def l_def average_gain_def average_loss_def gains_of_def losses_of_def Let_def)
  ultimately show ?thesis using l \<open>0 < l\<close> False
    by (simp add: rsi_value_def rsi_state_def Let_def g_def [symmetric] l_def [symmetric])
qed

subsection \<open>Streaming computes what a full recomputation would\<close>

definition batch_features :: "(pyfloat list \<Rightarrow> pyfloat) \<Rightarrow> pyfloat \<Rightarrow> bar list \<Rightarrow> bar_features" where
  "batch_features std root252 bars =
     (let closes = map bar_close bars; highs = map bar_high bars; lows = map bar_low bars; volumes = map bar_volume bars;
          b = List.last bars; c = bar_close b; h = bar_high b; low = bar_low b;
          macd = macd_of closes; sig = macd_signal_of closes; (mid, upper, lower) = bollinger std closes;
          volume_sma = mean (last_of 20 volumes);
          clv = (if h - low > 0 then ((c - low) - (h - c)) / (h - low) else 0)
      in \<lparr>bf_close = c, bf_open = bar_open b, bf_high = h, bf_low = low, bf_last = bar_last b,
          bf_sma_5 = sma closes 5, bf_sma_10 = sma closes 10, bf_sma_20 = sma closes 20,
          bf_ema_12 = or_else (ema_of (2 / 13) closes) c, bf_ema_26 = or_else (ema_of (2 / 27) closes) c,
          bf_rsi_14 = rsi_value closes (rsi_state closes),
          bf_macd = macd, bf_macd_signal = sig, bf_macd_histogram = macd - sig,
          bf_atr_14 = atr highs lows closes 14,
          bf_bollinger_upper = upper, bf_bollinger_lower = lower, bf_bollinger_mid = mid,
          bf_volatility_20 = volatility std root252 closes,
          bf_volume_sma_20 = volume_sma, bf_volume_ratio = (if volume_sma > 0 then bar_volume b / volume_sma else 1),
          bf_obv = obv_of closes volumes,
          bf_return_1d = period_return closes 1, bf_return_5d = period_return closes 5,
          bf_return_10d = period_return closes 10, bf_return_20d = period_return closes 20,
          bf_clv = clv, bf_clv_n = (clv + 1) / 2, bf_recovery = (if h - low > 0 then (c - low) / (h - low) else 1 / 2)\<rparr>)"

definition stream_inv :: "nat \<Rightarrow> bar list \<Rightarrow> streaming \<Rightarrow> bool" where
  "stream_inv n bars s \<longleftrightarrow>
     si_max_window s = n \<and> si_closes s = last_of n (map bar_close bars) \<and> si_highs s = last_of n (map bar_high bars)
     \<and> si_lows s = last_of n (map bar_low bars) \<and> si_volumes s = last_of n (map bar_volume bars)
     \<and> si_ema12 s = (if bars = [] then None else Some (ema_of (2 / 13) (map bar_close bars)))
     \<and> si_ema26 s = (if bars = [] then None else Some (ema_of (2 / 27) (map bar_close bars)))
     \<and> si_macd_signal s = (if bars = [] then None else Some (macd_signal_of (map bar_close bars)))
     \<and> si_obv s = obv_of (map bar_close bars) (map bar_volume bars)
     \<and> si_prev_close s = (if bars = [] then 0 else bar_close (List.last bars))
     \<and> (si_avg_gain s, si_avg_loss s, si_rsi_initialized s) = rsi_state (map bar_close bars)
     \<and> si_count s = length bars"

lemma stream_inv_init: "stream_inv n [] (streaming_init n)"
  by (simp add: stream_inv_def streaming_init_def last_of_def obv_of_def rsi_state_def)

lemma stream_inv_append:
  assumes "stream_inv n bars s"
  shows "si_closes (append_bar b s) = last_of n (map bar_close (bars @ [b]))"
    "si_highs (append_bar b s) = last_of n (map bar_high (bars @ [b]))"
    "si_lows (append_bar b s) = last_of n (map bar_low (bars @ [b]))"
    "si_volumes (append_bar b s) = last_of n (map bar_volume (bars @ [b]))"
  using assms by (simp_all add: append_bar_def Let_def stream_inv_def push_last_of)

lemma ema_update:
  assumes "0 < n" "1 < k" "alpha = 2 / (of_nat k + 1)" "prev = (if xs = [] then None else Some (ema_of alpha xs))"
  shows "update_ema (last_of n (xs @ [x])) k prev = ema_of alpha (xs @ [x])"
proof (cases "xs = []")
  case True
  then show ?thesis using assms by (simp add: update_ema_def last_of_all)
next
  case False
  then show ?thesis using assms last_last_of [of n "xs @ [x]"] by (simp add: update_ema_def ema_of_append)
qed

lemma signal_update:
  assumes "prev = (if xs = [] then None else Some (macd_signal_of xs))"
  shows "update_ema_from_val (macd_of (xs @ [x])) 9 prev = macd_signal_of (xs @ [x])"
  using assms prefixes_append [of "[]" x]
  by (cases "xs = []") (simp_all add: update_ema_from_val_def macd_signal_of_def prefixes_append ema_of_append)

lemma stream_step:
  assumes n: "21 \<le> n" and inv: "stream_inv n bars s"
  shows "fst (streaming_update std root252 b s) = batch_features std root252 (bars @ [b])"
    and "stream_inv n (bars @ [b]) (snd (streaming_update std root252 b s))"
proof -
  let ?cs = "map bar_close bars" and ?c = "bar_close b" and ?vs = "map bar_volume bars"
  note app = stream_inv_append [OF inv, of b]
  have frame: "si_ema12 (append_bar b s) = si_ema12 s" "si_ema26 (append_bar b s) = si_ema26 s"
    "si_macd_signal (append_bar b s) = si_macd_signal s" "si_obv (append_bar b s) = si_obv s"
    "si_prev_close (append_bar b s) = si_prev_close s" "si_avg_gain (append_bar b s) = si_avg_gain s"
    "si_avg_loss (append_bar b s) = si_avg_loss s" "si_rsi_initialized (append_bar b s) = si_rsi_initialized s"
    "si_max_window (append_bar b s) = si_max_window s" "si_count (append_bar b s) = Suc (si_count s)"
    by (simp_all add: append_bar_def Let_def)
  have e12: "update_ema (last_of n (?cs @ [?c])) 12 (si_ema12 s) = ema_of (2 / 13) (?cs @ [?c])"
    using ema_update [of n 12 "2 / 13" "si_ema12 s" ?cs ?c] inv n by (simp add: stream_inv_def)
  have e26: "update_ema (last_of n (?cs @ [?c])) 26 (si_ema26 s) = ema_of (2 / 27) (?cs @ [?c])"
    using ema_update [of n 26 "2 / 27" "si_ema26 s" ?cs ?c] inv n by (simp add: stream_inv_def)
  have macd: "or_else (ema_of (2 / 13) (?cs @ [?c])) ?c - or_else (ema_of (2 / 27) (?cs @ [?c])) ?c = macd_of (?cs @ [?c])"
    by (simp add: macd_of_def)
  have sig: "update_ema_from_val (macd_of (?cs @ [?c])) 9 (si_macd_signal s) = macd_signal_of (?cs @ [?c])"
    using signal_update [of "si_macd_signal s" ?cs ?c] inv by (simp add: stream_inv_def)
  have rsi: "rsi_averages (last_of n (?cs @ [?c])) 14 (si_avg_gain s, si_avg_loss s, si_rsi_initialized s) = rsi_state (?cs @ [?c])"
    using rsi_state_append [of n ?cs ?c] inv n by (simp add: stream_inv_def)
  have rv: "rsi_value (last_of n (?cs @ [?c])) st = rsi_value (?cs @ [?c]) st" for st
    using n by (auto simp: rsi_value_def min_def)
  have obv: "si_obv s + obv_change (si_prev_close s) ?c (bar_volume b) = obv_of (?cs @ [?c]) (?vs @ [bar_volume b])"
  proof (cases "bars = []")
    case True
    then show ?thesis using inv by (simp add: stream_inv_def obv_of_def obv_change_def)
  next
    case False
    then show ?thesis using inv obv_append [of ?cs ?vs ?c "bar_volume b"] by (simp add: stream_inv_def last_map)
  qed
  have vol: "last_of 20 (last_of n (?vs @ [bar_volume b])) = last_of 20 (?vs @ [bar_volume b])"
    "last_of n (?vs @ [bar_volume b]) \<noteq> []"
    using n by (simp_all add: last_of_last_of)
  have windows: "sma (last_of n (?cs @ [?c])) 5 = sma (?cs @ [?c]) 5" "sma (last_of n (?cs @ [?c])) 10 = sma (?cs @ [?c]) 10"
    "sma (last_of n (?cs @ [?c])) 20 = sma (?cs @ [?c]) 20"
    "period_return (last_of n (?cs @ [?c])) 1 = period_return (?cs @ [?c]) 1"
    "period_return (last_of n (?cs @ [?c])) 5 = period_return (?cs @ [?c]) 5"
    "period_return (last_of n (?cs @ [?c])) 10 = period_return (?cs @ [?c]) 10"
    "period_return (last_of n (?cs @ [?c])) 20 = period_return (?cs @ [?c]) 20"
    "bollinger std (last_of n (?cs @ [?c])) = bollinger std (?cs @ [?c])"
    "volatility std root252 (last_of n (?cs @ [?c])) = volatility std root252 (?cs @ [?c])"
    "atr (last_of n (map bar_high bars @ [bar_high b])) (last_of n (map bar_low bars @ [bar_low b])) (last_of n (?cs @ [?c])) 14 =
      atr (map bar_high bars @ [bar_high b]) (map bar_low bars @ [bar_low b]) (?cs @ [?c]) 14"
    using n by (simp_all add: sma_window return_window bollinger_window volatility_window atr_window)
  show "fst (streaming_update std root252 b s) = batch_features std root252 (bars @ [b])"
    unfolding streaming_update_def batch_features_def Let_def frame app map_append list.map e12 e26 macd sig rsi rv obv vol(1) windows
    using vol(2) by (simp split: prod.split)
  show "stream_inv n (bars @ [b]) (snd (streaming_update std root252 b s))"
    unfolding streaming_update_def Let_def frame app map_append list.map e12 e26 macd sig rsi obv
    using inv app by (simp add: stream_inv_def frame split: prod.split)
qed

lemma stream_run_inv:
  assumes "21 \<le> n" "stream_inv n bars s"
  shows "stream_inv n (bars @ new) (streaming_run std root252 new s)"
  using assms(2)
proof (induction new arbitrary: bars s)
  case (Cons b new)
  then show ?case using stream_step(2) [OF assms(1) Cons.prems, of b std root252] Cons.IH [of "bars @ [b]"] by simp
qed simp

text \<open>C36: The streaming indicators are those of a recomputation over the whole history: with a window of at least 21 bars every one of the
  features after any sequence of bars is what the definitions give on all bars so far, although only the window is kept, and
  the relative strength is the one of the batch indicators wherever the average loss is not vanishingly small. After a reset the values start anew.\<close>

theorem streaming_matches_history:
  assumes "21 \<le> n"
  shows "fst (streaming_update std root252 b (streaming_run std root252 bars (streaming_init n))) = batch_features std root252 (bars @ [b])
    \<and> ((15 \<le> length (bars @ [b]) \<longrightarrow> 1 / 10 ^ 10 \<le> average_loss (map bar_close (bars @ [b]))) \<longrightarrow>
         compute_rsi (map bar_close (bars @ [b])) 14 =
           Inr (bf_rsi_14 (fst (streaming_update std root252 b (streaming_run std root252 bars (streaming_init n))))))
    \<and> streaming_reset (streaming_run std root252 bars (streaming_init n)) = streaming_init n"
proof -
  have inv: "stream_inv n bars (streaming_run std root252 bars (streaming_init n))"
    using stream_run_inv [OF assms stream_inv_init, of bars std root252] by simp
  note f = stream_step(1) [OF assms inv, of std root252 b]
  have "bf_rsi_14 (batch_features std root252 (bars @ [b])) =
      rsi_value (map bar_close (bars @ [b])) (rsi_state (map bar_close (bars @ [b])))"
    by (simp add: batch_features_def Let_def split: prod.split)
  moreover have "streaming_reset (streaming_run std root252 bars (streaming_init n)) = streaming_init n"
    using inv by (simp add: streaming_reset_def streaming_init_def stream_inv_def)
  ultimately show ?thesis using f rsi_reference [of "map bar_close (bars @ [b])"] by simp
qed

theorem streaming_matches_history_witness:
  "bf_sma_5 (fst (streaming_update (\<lambda>xs. 0) 16 [(''close'', 6)] (streaming_run (\<lambda>xs. 0) 16
     [[(''close'', 1)], [(''close'', 2)], [(''close'', 3)], [(''close'', 4)], [(''close'', 5)]] (streaming_init 60)))) = 4"
  using streaming_matches_history [of 60 "\<lambda>xs. 0" 16 "[(''close'', 6)]"
      "[[(''close'', 1)], [(''close'', 2)], [(''close'', 3)], [(''close'', 4)], [(''close'', 5)]]"]
  by (simp add: batch_features_def bar_close_def dict_get_or_def sma_def mean_def last_of_def Let_def split: prod.split)

lemma flat_prices_differ:
  \<comment> \<open>prices that do not move: 50 here, 100 in the batch indicator\<close>
  assumes "15 \<le> length xs" "\<forall>x \<in> set xs. x = c"
  shows "rsi_value xs (rsi_state xs) = 50 \<and> compute_rsi xs 14 = Inr 100"
proof -
  have "xs ! i = c" if "i < length xs" for i using assms(2) that by simp
  then have d: "deltas xs = replicate (length xs - 1) 0" by (intro nth_equalityI) (auto simp: deltas_def)
  have "fold (wilder 14) (replicate k 0) 0 = 0" for k by (induction k) (simp_all add: wilder_def)
  then have "average_gain xs = 0" "average_loss xs = 0"
    by (simp_all add: average_gain_def average_loss_def gains_of_def losses_of_def d slice_to_def slice_from_def sum_list_replicate)
  then show ?thesis
    using assms flat_prices_are_overbought [of 14 xs c] by (simp add: rsi_value_def rsi_state_def)
qed

end
