(* ===== verification/Purged_Windows.thy ===== *)
theory Purged_Windows
  imports Prelude
begin

text \<open>
  The windows of a purged walk-forward (\<open>backtesting/experiment/purged_walk_forward.py\<close>): for each test
  window a training window before it, with an embargo and purged bars between. The bars' contents do not
  matter. \<open>np.std\<close> with \<open>ddof=1\<close> is an argument of the stability score; the rounding of the summary is left out.
\<close>

record purged_window =
  pw_window_id :: int
  pw_train_start :: int
  pw_train_end :: int
  pw_test_start :: int
  pw_test_end :: int
  pw_embargo_bars :: int
  pw_purged_bars :: int

record purged_walk_forward =
  wf_n_windows :: int
  wf_train_pct :: pyfloat
  wf_embargo_pct :: pyfloat
  wf_purge_pct :: pyfloat

definition purged_walk_forward_default :: purged_walk_forward where
  "purged_walk_forward_default = \<lparr>wf_n_windows = 5, wf_train_pct = 7 / 10, wf_embargo_pct = 1 / 100, wf_purge_pct = 1 / 100\<rparr>"

definition embargo_bars :: "purged_walk_forward \<Rightarrow> int \<Rightarrow> int" where
  "embargo_bars cfg nbars = max 1 (py_int (of_int nbars * wf_embargo_pct cfg))"

definition purge_bars :: "purged_walk_forward \<Rightarrow> int \<Rightarrow> int" where
  "purge_bars cfg nbars = max 1 (py_int (of_int nbars * wf_purge_pct cfg))"

definition window_at :: "purged_walk_forward \<Rightarrow> int \<Rightarrow> int \<Rightarrow> purged_window option" where
  \<comment> \<open>the body of the loop for a training share that is not zero; \<open>None\<close> is \<open>continue\<close>\<close>
  "window_at cfg nbars i =
     (let window_size = nbars div wf_n_windows cfg;
          test_start = i * window_size;
          test_end = min ((i + 1) * window_size) nbars;
          train_end = max 0 (test_start - embargo_bars cfg nbars);
          train_start = max 0 (train_end - py_int (of_int train_end * (1 - wf_train_pct cfg) / wf_train_pct cfg));
          train_end_purged = max train_start (train_end - purge_bars cfg nbars)
      in if train_end_purged \<le> train_start \<or> test_end \<le> test_start then None
         else Some \<lparr>pw_window_id = i, pw_train_start = train_start, pw_train_end = train_end_purged,
                    pw_test_start = test_start, pw_test_end = test_end,
                    pw_embargo_bars = embargo_bars cfg nbars, pw_purged_bars = purge_bars cfg nbars\<rparr>)"

definition generate_windows :: "purged_walk_forward \<Rightarrow> int \<Rightarrow> py_error + purged_window list" where
  "generate_windows cfg nbars =
     (if wf_n_windows cfg = 0 then Inl ZeroDivisionError
      else if wf_n_windows cfg < 0 then Inr []
      else if wf_train_pct cfg = 0 then Inl ZeroDivisionError
      else Inr (List.map_filter (window_at cfg nbars) (map int [0..<nat (wf_n_windows cfg)])))"

definition get_train_data :: "'a list \<Rightarrow> purged_window \<Rightarrow> 'a list" where
  "get_train_data data w = slice_from (pw_train_start w) (slice_to (pw_train_end w) data)"

definition get_test_data :: "'a list \<Rightarrow> purged_window \<Rightarrow> 'a list" where
  "get_test_data data w = slice_from (pw_test_start w) (slice_to (pw_test_end w) data)"

definition compute_stability :: "(pyfloat list \<Rightarrow> pyfloat) \<Rightarrow> (string, pyfloat) pydict list \<Rightarrow> pyfloat" where
  "compute_stability std oos_metrics =
     (if length oos_metrics < 2 then 0
      else
        (let sharpes = map (\<lambda>m. dict_get_or m ''sharpe_ratio'' 0) oos_metrics;
             mean_s = sum_list sharpes / of_nat (length sharpes);
             std_s = std sharpes
         in if \<bar>mean_s\<bar> < 1 / 10 ^ 8 then 0 else max 0 (min 1 (1 - std_s / \<bar>mean_s\<bar>))))"

subsection \<open>Windows\<close>

lemma gap_pos: "1 \<le> embargo_bars cfg nbars" "1 \<le> purge_bars cfg nbars"
  by (simp_all add: embargo_bars_def purge_bars_def)

lemma window_at_sound:
  assumes "window_at cfg nbars i = Some w"
  shows "pw_window_id w = i" "0 \<le> pw_train_start w" "pw_train_start w < pw_train_end w"
    "pw_train_end w + pw_purged_bars w + pw_embargo_bars w = pw_test_start w"
    "pw_test_start w < pw_test_end w" "pw_test_end w \<le> nbars"
    "pw_test_start w = i * (nbars div wf_n_windows cfg)" "pw_test_end w \<le> (i + 1) * (nbars div wf_n_windows cfg)"
    "1 \<le> pw_embargo_bars w" "1 \<le> pw_purged_bars w"
  using assms gap_pos [of cfg nbars] by (auto simp: window_at_def Let_def max_def split: if_splits)

definition window_order :: "purged_window \<Rightarrow> purged_window \<Rightarrow> bool" where
  "window_order v w \<longleftrightarrow> pw_window_id v < pw_window_id w \<and> pw_test_end v \<le> pw_test_start w"

lemma window_size_pos:
  assumes "window_at cfg nbars i = Some w" "0 \<le> i"
  shows "0 < nbars div wf_n_windows cfg"
proof -
  have "0 < pw_test_start w" using window_at_sound [OF assms(1)] by linarith
  then show ?thesis using window_at_sound(7) [OF assms(1)] assms(2) by (simp add: zero_less_mult_iff)
qed

lemma windows_ordered:
  assumes "window_at cfg nbars i = Some v" "window_at cfg nbars j = Some w" "0 \<le> i" "i < j"
  shows "window_order v w"
proof -
  have "(i + 1) * (nbars div wf_n_windows cfg) \<le> j * (nbars div wf_n_windows cfg)"
    using window_size_pos [OF assms(1,3)] assms(4) by (intro mult_right_mono) auto
  then show ?thesis
    using window_at_sound [OF assms(1)] window_at_sound [OF assms(2)] assms(4) by (simp add: window_order_def)
qed

lemma sorted_map_filter:
  assumes "sorted_wrt (<) (is :: int list)" "\<forall>i \<in> set is. 0 \<le> i"
  shows "sorted_wrt window_order (List.map_filter (window_at cfg nbars) is)"
  using assms
proof (induction "is")
  case (Cons i js)
  then have "sorted_wrt window_order (List.map_filter (window_at cfg nbars) js)" by simp
  moreover have "window_order v w" if v: "window_at cfg nbars i = Some v" and w: "w \<in> set (List.map_filter (window_at cfg nbars) js)" for v w
  proof -
    obtain j where "j \<in> set js" "window_at cfg nbars j = Some w" using w by (auto simp: List.map_filter_def)
    then show ?thesis using windows_ordered [OF v] Cons.prems by simp
  qed
  ultimately show ?case by (cases "window_at cfg nbars i") (simp_all add: map_filter_simps)
qed (simp add: map_filter_simps)

lemma split_data:
  assumes "0 \<le> a" "a < b" "b + g = c" "0 \<le> g" "c < d" "d \<le> int (length data)"
  shows "\<exists>pre gap post. data = pre @ slice_from a (slice_to b data) @ gap @ slice_from c (slice_to d data) @ post
     \<and> int (length gap) = g \<and> int (length pre) = a"
proof -
  let ?a = "nat a" and ?b = "nat b" and ?c = "nat c" and ?d = "nat d"
  have s: "slice_from a (slice_to b data) = drop ?a (take ?b data)" "slice_from c (slice_to d data) = drop ?c (take ?d data)"
    using assms by (simp_all add: slice_from_def slice_to_def)
  have "data = take ?a data @ drop ?a (take ?b data) @ drop ?b (take ?c data) @ drop ?c (take ?d data) @ drop ?d data"
  proof -
    have cut: "take n data @ drop n (take m data) = take m data" if "n \<le> m" for n m
      using that by (metis append_take_drop_id min.absorb1 take_take)
    have "?a \<le> ?b" "?b \<le> ?c" "?c \<le> ?d" using assms by auto
    then have "take ?a data @ drop ?a (take ?b data) @ drop ?b (take ?c data) @ drop ?c (take ?d data) = take ?d data"
      by (metis append.assoc cut)
    then show ?thesis by (metis append.assoc append_take_drop_id)
  qed
  moreover have "int (length (drop ?b (take ?c data))) = g" using assms by (simp add: min_def)
  moreover have "int (length (take ?a data)) = a" using assms by simp
  ultimately show ?thesis unfolding s by blast
qed

text \<open>C26: No information leaks into training: in every generated window the training bars lie before the test bars, with exactly the embargo and the purged
  bars, at least two, between them; the test windows are within the data, do not overlap and are in the order of time. So
  the data splits into what is before, the training data, the gap, the test data and what is after. The stability score is between 0 and 1.\<close>

theorem windows_do_not_leak:
  assumes "generate_windows cfg (int (length data)) = Inr ws"
  shows "sorted_wrt window_order ws
    \<and> (\<forall>w \<in> set ws. pw_train_start w < pw_train_end w \<and> pw_test_start w < pw_test_end w
         \<and> 2 \<le> pw_embargo_bars w + pw_purged_bars w
         \<and> (\<exists>pre gap post. data = pre @ get_train_data data w @ gap @ get_test_data data w @ post
              \<and> int (length gap) = pw_embargo_bars w + pw_purged_bars w \<and> int (length pre) = pw_train_start w))
    \<and> 0 \<le> compute_stability std metrics \<and> compute_stability std metrics \<le> 1"
proof -
  let ?is = "map int [0..<nat (wf_n_windows cfg)]"
  consider "ws = []" | "ws = List.map_filter (window_at cfg (int (length data))) ?is"
    using assms by (auto simp: generate_windows_def split: if_splits)
  then have ws: "set ws \<subseteq> {w. \<exists>i. window_at cfg (int (length data)) i = Some w} \<and> sorted_wrt window_order ws"
  proof cases
    case 2
    have "sorted_wrt window_order ws" unfolding 2 by (rule sorted_map_filter) (auto simp: sorted_wrt_map)
    then show ?thesis using 2 by (auto simp: List.map_filter_def)
  qed simp
  have "pw_train_start w < pw_train_end w \<and> pw_test_start w < pw_test_end w
         \<and> 2 \<le> pw_embargo_bars w + pw_purged_bars w
         \<and> (\<exists>pre gap post. data = pre @ get_train_data data w @ gap @ get_test_data data w @ post
              \<and> int (length gap) = pw_embargo_bars w + pw_purged_bars w \<and> int (length pre) = pw_train_start w)"
    if w: "w \<in> set ws" for w
  proof -
    obtain i where "window_at cfg (int (length data)) i = Some w" using w ws by blast
    note s = window_at_sound [OF this]
    show ?thesis
      using split_data [of "pw_train_start w" "pw_train_end w" "pw_embargo_bars w + pw_purged_bars w" "pw_test_start w" "pw_test_end w" data] s
      by (simp add: get_train_data_def get_test_data_def algebra_simps)
  qed
  moreover have "0 \<le> compute_stability std metrics \<and> compute_stability std metrics \<le> 1"
    by (simp add: compute_stability_def Let_def)
  ultimately show ?thesis using ws by blast
qed

theorem windows_do_not_leak_witness:
  "\<exists>w pre gap post. generate_windows (purged_walk_forward_default\<lparr>wf_n_windows := 2\<rparr>) 20 = Inr [w]
    \<and> [0..<20] = pre @ get_train_data [0..<20] w @ gap @ get_test_data [0..<20] w @ post \<and> length gap = 2"
proof -
  let ?cfg = "purged_walk_forward_default\<lparr>wf_n_windows := 2\<rparr>"
  obtain w where w: "generate_windows ?cfg 20 = Inr [w]" "pw_embargo_bars w + pw_purged_bars w = 2"
    by (simp add: generate_windows_def window_at_def purged_walk_forward_default_def embargo_bars_def purge_bars_def py_int_def
        Let_def upt_rec map_filter_simps)
  then show ?thesis
    using windows_do_not_leak [of ?cfg "[0..<20]" "[w]"] by force
qed

lemma last_bars_untested:
  \<comment> \<open>the bars after the last full window are in no test window\<close>
  assumes "window_at cfg nbars i = Some w" "0 \<le> i" "i < wf_n_windows cfg"
  shows "pw_test_end w \<le> nbars - nbars mod wf_n_windows cfg"
proof -
  have "(i + 1) * (nbars div wf_n_windows cfg) \<le> wf_n_windows cfg * (nbars div wf_n_windows cfg)"
    using window_size_pos [OF assms(1,2)] assms(3) by (intro mult_right_mono) auto
  then show ?thesis using window_at_sound(8) [OF assms(1)] by (simp add: minus_mod_eq_mult_div [symmetric] algebra_simps)
qed

lemma train_start_eq:
  assumes "window_at cfg nbars i = Some w"
  defines "e \<equiv> pw_test_start w - pw_embargo_bars w"
  shows "0 < e" "pw_train_start w = max 0 (e - py_int (of_int e * (1 - wf_train_pct cfg) / wf_train_pct cfg))"
proof -
  show pos: "0 < e" using window_at_sound [OF assms(1)] by (simp add: e_def)
  have f: "pw_test_start w = i * (nbars div wf_n_windows cfg)" "pw_embargo_bars w = embargo_bars cfg nbars"
    using assms(1) by (auto simp: window_at_def Let_def split: if_splits)
  have "max 0 (i * (nbars div wf_n_windows cfg) - embargo_bars cfg nbars) = e" using pos f by (simp add: e_def)
  then show "pw_train_start w = max 0 (e - py_int (of_int e * (1 - wf_train_pct cfg) / wf_train_pct cfg))"
    using assms(1) by (auto simp only: window_at_def Let_def option.inject purged_window.simps split: if_splits)
qed

lemma train_share:
  \<comment> \<open>with the default share of 0.7 only three sevenths of the earlier bars train\<close>
  assumes "window_at (purged_walk_forward_default\<lparr>wf_n_windows := n\<rparr>) nbars i = Some w"
  shows "pw_test_start w - pw_embargo_bars w - pw_train_start w \<le> (pw_test_start w - pw_embargo_bars w) * 3 div 7"
proof -
  let ?e = "pw_test_start w - pw_embargo_bars w"
  note t = train_start_eq [OF assms]
  have "(of_int ?e * (1 - 7 / 10) / (7 / 10) :: pyfloat) = of_int (?e * 3) / of_int 7" by (simp add: field_simps)
  then have eq: "py_int (of_int ?e * (1 - 7 / 10) / (7 / 10)) = ?e * 3 div 7"
    using t(1) by (simp only: py_int_def floor_divide_of_int_eq) simp
  have p: "wf_train_pct (purged_walk_forward_default\<lparr>wf_n_windows := n\<rparr>) = 7 / 10"
    by (simp add: purged_walk_forward_default_def)
  have "pw_train_start w = max 0 (?e - ?e * 3 div 7)" using t(2) unfolding p eq .
  then show ?thesis by simp
qed

end
