(* ===== verification/Job_Progress.thy ===== *)
theory Job_Progress
  imports Cache_Manager
begin

text \<open>
  The progress of the precomputation pipeline: the job state machine (\<open>api/job_state.py\<close>), the
  manager that broadcasts the workers' events to the dashboard and feeds them to it
  (\<open>api/ws_manager.py\<close>), and the endpoints that start a run and read its status
  (\<open>api/routers/precompute_router.py\<close>).

  The module globals, the manager's fields and the cache service are one record. Redis is the
  \<open>redis_env\<close> of \<open>Cache_Manager\<close> whose values under the status key are statuses or anything else;
  publishing on a channel, sending to a client, fresh identifiers and the text of a time are further
  arguments. The log of the frames the clients received is added. \<open>save_status\<close> broadcasts a snapshot,
  whose type no handler accepts, so the recursion of the code ends there and is unrolled here. An
  operation has one reading of the clock.
\<close>

subsection \<open>The status\<close>

record group_meta =
  gm_total :: int
  gm_completed :: int
  gm_failed :: int
  gm_status :: string

record job_status =
  js_overall :: string
  js_group :: "string option"
  js_total :: int
  js_completed :: int
  js_failed :: int
  js_percent :: pyfloat
  js_symbol :: py_value
  js_remaining :: "int option"
  js_updated :: string
  js_groups :: "(string, group_meta) pydict"

type_synonym payload = "(string, py_value) pydict"

definition group_order :: "(string, string option) pydict" where
  "group_order = [(''A'', Some ''B''), (''B'', Some ''C''), (''C'', None)]"

definition event_progress :: string where "event_progress = ''PRECOMPUTATION_PROGRESS''"
definition event_group_completed :: string where "event_group_completed = ''PRECOMPUTATION_GROUP_COMPLETED''"
definition event_completed :: string where "event_completed = ''PRECOMPUTATION_COMPLETED''"
definition event_symbol_updated :: string where "event_symbol_updated = ''SYMBOL_RESULT_UPDATED''"
definition event_status_snapshot :: string where "event_status_snapshot = ''PRECOMPUTATION_STATUS_SNAPSHOT''"

definition state_event_types :: "string list" where
  "state_event_types = [event_progress, event_group_completed, event_completed, event_symbol_updated]"

definition redis_status_key :: string where "redis_status_key = ''armor:precompute:status''"

definition default_status :: "string \<Rightarrow> job_status" where
  "default_status stamp =
     \<lparr>js_overall = ''PENDING'', js_group = None, js_total = 0, js_completed = 0, js_failed = 0, js_percent = 0,
      js_symbol = PNone, js_remaining = None, js_updated = stamp,
      js_groups = [(''A'', \<lparr>gm_total = 0, gm_completed = 0, gm_failed = 0, gm_status = ''PENDING''\<rparr>),
                   (''B'', \<lparr>gm_total = 0, gm_completed = 0, gm_failed = 0, gm_status = ''PENDING''\<rparr>),
                   (''C'', \<lparr>gm_total = 0, gm_completed = 0, gm_failed = 0, gm_status = ''PENDING''\<rparr>)]\<rparr>"

definition round2 :: "pyfloat \<Rightarrow> pyfloat" where
  "round2 x = of_int (py_round (x * 100)) / 100"

definition estimate_remaining :: "pytime option \<Rightarrow> pytime \<Rightarrow> job_status \<Rightarrow> int option" where
  "estimate_remaining started now s =
     (case started of
        None \<Rightarrow> None
      | Some t \<Rightarrow>
          if js_completed s = 0 then None
          else
            (let elapsed = now - t;
                 remaining = js_total s - js_completed s
             in if remaining \<le> 0 then Some 0
                else Some (py_int (of_int remaining * (elapsed / of_int (js_completed s))))))"

definition recompute_overall :: "pytime option \<Rightarrow> pytime \<Rightarrow> job_status \<Rightarrow> job_status" where
  "recompute_overall started now s0 =
     (let metas = map snd (js_groups s0);
          s1 = s0\<lparr>js_total := sum_list (map gm_total metas), js_completed := sum_list (map gm_completed metas),
                  js_failed := sum_list (map gm_failed metas)\<rparr>;
          s2 = s1\<lparr>js_percent := round2 (of_int (js_completed s1) / of_int (max 1 (js_total s1)) * 100)\<rparr>
      in s2\<lparr>js_remaining := estimate_remaining started now s2\<rparr>)"

subsection \<open>Reading a payload\<close>

fun py_truth :: "py_value \<Rightarrow> bool" where
  "py_truth PNone = False"
| "py_truth (PBool b) = b"
| "py_truth (PInt n) = (n \<noteq> 0)"
| "py_truth (PFloat x) = (x \<noteq> 0)"
| "py_truth (PStr s) = (s \<noteq> [])"
| "py_truth (PList xs) = (xs \<noteq> [])"
| "py_truth (PDict d) = (d \<noteq> [])"

definition is_space :: "char \<Rightarrow> bool" where
  "is_space c \<longleftrightarrow> (of_char c :: nat) \<in> {9..13} \<union> {28..32}"

fun digits_value :: "bool \<Rightarrow> int \<Rightarrow> string \<Rightarrow> int option" where
  \<comment> \<open>decimal digits with single underscores between them\<close>
  "digits_value after_digit acc [] = (if after_digit then Some acc else None)"
| "digits_value after_digit acc (c # cs) =
     (let n = (of_char c :: nat) in
        if 48 \<le> n \<and> n \<le> 57 then digits_value True (acc * 10 + int (n - 48)) cs
        else if c = CHR ''_'' \<and> after_digit then digits_value False acc cs
        else None)"

definition int_of_text :: "string \<Rightarrow> int option" where
  \<comment> \<open>\<open>int(s)\<close> of an ASCII text\<close>
  "int_of_text s =
     (let t = rev (dropWhile is_space (rev (dropWhile is_space s)))
      in case t of
           [] \<Rightarrow> None
         | c # cs \<Rightarrow>
             if c = CHR ''-'' then map_option uminus (digits_value False 0 cs)
             else if c = CHR ''+'' then digits_value False 0 cs
             else digits_value False 0 t)"

fun py_int_of :: "py_value \<Rightarrow> py_error + int" where
  "py_int_of (PBool b) = Inr (if b then 1 else 0)"
| "py_int_of (PInt n) = Inr n"
| "py_int_of (PFloat x) = Inr (py_int x)"
| "py_int_of (PStr s) = (case int_of_text s of None \<Rightarrow> Inl ValueError | Some n \<Rightarrow> Inr n)"
| "py_int_of _ = Inl TypeError"

definition int_or :: "payload \<Rightarrow> string \<Rightarrow> int \<Rightarrow> py_error + int" where
  \<comment> \<open>\<open>int(payload.get(key) or d)\<close>\<close>
  "int_or p key d =
     (case dict_get p key of None \<Rightarrow> Inr d | Some v \<Rightarrow> if py_truth v then py_int_of v else Inr d)"

definition text_or :: "(py_value \<Rightarrow> string) \<Rightarrow> payload \<Rightarrow> string \<Rightarrow> string \<Rightarrow> string" where
  \<comment> \<open>\<open>str(payload.get(key) or d)\<close>; the text of a value that is none itself is an argument\<close>
  "text_or text p key d =
     (case dict_get p key of
        None \<Rightarrow> d
      | Some v \<Rightarrow> if \<not> py_truth v then d else (case v of PStr s \<Rightarrow> s | _ \<Rightarrow> text v))"

fun hash_key :: "py_value \<Rightarrow> py_value option" where
  \<comment> \<open>a key up to Python's equality; \<open>None\<close>: not hashable\<close>
  "hash_key (PBool b) = Some (PInt (if b then 1 else 0))"
| "hash_key (PFloat x) = Some (if of_int \<lfloor>x\<rfloor> = x then PInt \<lfloor>x\<rfloor> else PFloat x)"
| "hash_key (PList xs) = None"
| "hash_key (PDict d) = None"
| "hash_key v = Some v"

subsection \<open>Events, clients and the process\<close>

datatype event_payload = Fields payload | Snapshot job_status | NoFields

record ws_event =
  ev_kind :: "string option"
  ev_payload :: event_payload
  ev_id :: "string option"

datatype stored = StatusValue job_status | ForeignValue

record 'r process =
  pr_status :: "job_status option" \<comment> \<open>\<open>_mem_status\<close>\<close>
  pr_started :: "pytime option"
  pr_results :: "(py_value, payload) pydict"
  pr_finalizing :: bool
  pr_lock_until :: pytime
  pr_cache :: cache_service
  pr_server :: 'r
  pr_seen :: "string set"
  pr_recent :: "string list"
  pr_clients :: "nat list"
  pr_uuids :: nat
  pr_frames :: "(nat \<times> ws_event) list" \<comment> \<open>what clients received, added\<close>

record ('b, 'r) process_env =
  pe_redis :: "(stored, 'b, 'r) redis_env"
  pe_publish :: "ws_event \<Rightarrow> 'r \<Rightarrow> py_error option \<times> 'r"
  pe_sends :: "nat \<Rightarrow> ws_event \<Rightarrow> bool" \<comment> \<open>whether a client takes a frame\<close>
  pe_uuid :: "nat \<Rightarrow> string"
  pe_iso :: "pytime \<Rightarrow> string"
  pe_stamp :: "pytime \<Rightarrow> 'b"
  pe_text :: "py_value \<Rightarrow> string"

definition connected :: "'r process \<Rightarrow> bool" where
  "connected st = cs_redis (pr_cache st)"

definition window_size :: nat where "window_size = 1024"

fun evict_seen :: "string set \<Rightarrow> string list \<Rightarrow> string set \<times> string list" where
  "evict_seen seen [] = (seen, [])"
| "evict_seen seen (x # xs) =
     (if window_size \<le> Suc (length xs) \<or> window_size \<le> card seen then evict_seen (seen - {x}) xs else (seen, x # xs))"

definition mark_seen :: "string \<Rightarrow> 'r process \<Rightarrow> bool \<times> 'r process" where
  "mark_seen i st =
     (if i = [] then (True, st)
      else if i \<in> pr_seen st then (False, st)
      else (let (seen, recent) = evict_seen (pr_seen st) (pr_recent st)
            in (True, st\<lparr>pr_seen := insert i seen, pr_recent := recent @ [i]\<rparr>)))"

definition fresh_id :: "('b, 'r) process_env \<Rightarrow> 'r process \<Rightarrow> string \<times> 'r process" where
  "fresh_id env st = (pe_uuid env (pr_uuids st), st\<lparr>pr_uuids := Suc (pr_uuids st)\<rparr>)"

definition publish :: "('b, 'r) process_env \<Rightarrow> ws_event \<Rightarrow> 'r process \<Rightarrow> ws_event \<times> 'r process" where
  \<comment> \<open>\<open>_publish\<close>: the event gets its identifier before the channel may fail\<close>
  "publish env ev st =
     (if \<not> connected st then (ev, st)
      else
        (let (ev1, st1) =
               (case ev_id ev of
                  Some i \<Rightarrow> (ev, st)
                | None \<Rightarrow> (let (i, st') = fresh_id env st in (ev\<lparr>ev_id := Some i\<rparr>, st')));
             (e, r) = pe_publish env ev1 (pr_server st1)
         in (ev1, st1\<lparr>pr_server := r\<rparr>)))"

definition deliver :: "('b, 'r) process_env \<Rightarrow> ws_event \<Rightarrow> 'r process \<Rightarrow> bool \<times> 'r process" where
  \<comment> \<open>the first part of \<open>_broadcast\<close>: deduplicate, send to the clients, drop the broken ones; the
    answer is whether the event is new\<close>
  "deliver env ev0 st0 =
     (let (i, st1) =
            (case ev_id ev0 of
               Some i \<Rightarrow> if i \<noteq> [] then (i, st0) else fresh_id env st0
             | None \<Rightarrow> fresh_id env st0);
          ev = ev0\<lparr>ev_id := Some i\<rparr>;
          (new, st2) = mark_seen i st1
      in if \<not> new then (False, st2)
         else
           (let conns = pr_clients st2;
                (good, dead) = partition (\<lambda>c. pe_sends env c ev) conns
            in (True, st2\<lparr>pr_frames := pr_frames st2 @ map (\<lambda>c. (c, ev)) good,
                          pr_clients := filter (\<lambda>c. c \<notin> set dead) conns\<rparr>)))"

subsection \<open>The state machine\<close>

definition load_status :: "('b, 'r) process_env \<Rightarrow> pytime \<Rightarrow> 'r process \<Rightarrow> job_status \<times> 'r process" where
  "load_status env now st =
     (let fallback = (case pr_status st of Some s \<Rightarrow> s | None \<Rightarrow> default_status (pe_iso env now))
      in if connected st then
           (case cs_get (pe_redis env) redis_status_key (pr_cache st, pr_server st) of
              (res, c, r) \<Rightarrow>
                ((case res of Inr (Some (StatusValue s)) \<Rightarrow> s | _ \<Rightarrow> fallback), st\<lparr>pr_cache := c, pr_server := r\<rparr>))
         else (fallback, st))"

definition broadcast_snapshot :: "('b, 'r) process_env \<Rightarrow> job_status \<Rightarrow> 'r process \<Rightarrow> 'r process" where
  "broadcast_snapshot env s st =
     (let (ev, st1) = publish env \<lparr>ev_kind = Some event_status_snapshot, ev_payload = Snapshot s, ev_id = None\<rparr> st
      in snd (deliver env ev st1))"

definition save_status :: "('b, 'r) process_env \<Rightarrow> job_status \<Rightarrow> 'r process \<Rightarrow> 'r process" where
  "save_status env s st =
     (let st1 = st\<lparr>pr_status := Some s\<rparr>;
          st2 =
            (if connected st1 then
               (case cs_set (pe_redis env) redis_status_key (Some (StatusValue s)) (Some 3600) (pr_cache st1, pr_server st1) of
                  (e, c, r) \<Rightarrow> st1\<lparr>pr_cache := c, pr_server := r\<rparr>)
             else st1)
      in broadcast_snapshot env s st2)"

definition reset_job :: "('b, 'r) process_env \<Rightarrow> pytime \<Rightarrow> 'r process \<Rightarrow> job_status \<times> 'r process" where
  "reset_job env now st =
     (let s = (default_status (pe_iso env now))\<lparr>js_overall := ''RUNNING'', js_group := Some ''A''\<rparr>
      in (s, save_status env s (st\<lparr>pr_started := Some now\<rparr>)))"

definition is_job_active :: "job_status option \<Rightarrow> 'r process \<Rightarrow> bool" where
  "is_job_active given st =
     (case (case given of None \<Rightarrow> pr_status st | Some s \<Rightarrow> Some s) of
        None \<Rightarrow> False
      | Some s \<Rightarrow> js_overall s \<in> {''RUNNING'', ''RETRYING''})"

definition progress_status :: "pytime option \<Rightarrow> pytime \<Rightarrow> string \<Rightarrow> payload \<Rightarrow> string \<Rightarrow> group_meta \<Rightarrow> job_status \<Rightarrow> py_error + job_status" where
  "progress_status started now stamp p g meta s =
     (case int_or p ''total'' 0 of
        Inl e \<Rightarrow> Inl e
      | Inr t \<Rightarrow>
          (case int_or p ''completed'' 0 of
             Inl e \<Rightarrow> Inl e
           | Inr c \<Rightarrow>
               (let meta1 = meta\<lparr>gm_total := t, gm_completed := c, gm_status := ''RUNNING''\<rparr>;
                    s1 = s\<lparr>js_groups := dict_set g meta1 (js_groups s), js_group := Some g,
                           js_symbol := (case dict_get p ''current_symbol'' of None \<Rightarrow> PNone | Some v \<Rightarrow> v)\<rparr>
                in Inr ((recompute_overall started now s1)\<lparr>js_updated := stamp\<rparr>))))"

definition update_status :: "('b, 'r) process_env \<Rightarrow> pytime \<Rightarrow> payload \<Rightarrow> 'r process \<Rightarrow> py_error option \<times> 'r process" where
  "update_status env now p st0 =
     (let (s, st1) = load_status env now st0;
          g = text_or (pe_text env) p ''group'' ''''
      in case dict_get (js_groups s) g of
           None \<Rightarrow> (None, st1)
         | Some meta \<Rightarrow>
             (let st2 = (if pr_started st1 = None \<and> js_overall s = ''RUNNING'' then st1\<lparr>pr_started := Some now\<rparr> else st1)
              in case progress_status (pr_started st2) now (pe_iso env now) p g meta s of
                   Inl e \<Rightarrow> (Some e, st2)
                 | Inr s1 \<Rightarrow> (None, save_status env s1 st2)))"

definition group_status :: "pytime option \<Rightarrow> pytime \<Rightarrow> string \<Rightarrow> payload \<Rightarrow> string \<Rightarrow> group_meta \<Rightarrow> job_status \<Rightarrow> py_error + job_status" where
  "group_status started now stamp p g meta s =
     (case int_or p ''total_processed'' (gm_total meta) of
        Inl e \<Rightarrow> Inl e
      | Inr t \<Rightarrow>
          (case int_or p ''failed'' 0 of
             Inl e \<Rightarrow> Inl e
           | Inr f \<Rightarrow>
               (let meta1 = meta\<lparr>gm_total := t, gm_completed := max 0 (t - f), gm_failed := f, gm_status := ''SUCCESS''\<rparr>;
                    s1 = s\<lparr>js_groups := dict_set g meta1 (js_groups s), js_group := dict_get_or group_order g None\<rparr>
                in Inr ((recompute_overall started now s1)\<lparr>js_updated := stamp\<rparr>))))"

definition group_done :: "('b, 'r) process_env \<Rightarrow> pytime \<Rightarrow> payload \<Rightarrow> 'r process \<Rightarrow> py_error option \<times> 'r process" where
  "group_done env now p st0 =
     (let (s, st1) = load_status env now st0;
          g = text_or (pe_text env) p ''group'' ''''
      in case dict_get (js_groups s) g of
           None \<Rightarrow> (None, st1)
         | Some meta \<Rightarrow>
             (case group_status (pr_started st1) now (pe_iso env now) p g meta s of
                Inl e \<Rightarrow> (Some e, st1)
              | Inr s1 \<Rightarrow> (None, save_status env s1 st1)))"

definition finish_group :: "group_meta \<Rightarrow> group_meta" where
  "finish_group m = (if gm_status m \<in> {''PENDING'', ''RUNNING''} then m\<lparr>gm_status := ''SUCCESS''\<rparr> else m)"

definition final_status :: "pytime option \<Rightarrow> pytime \<Rightarrow> string \<Rightarrow> string \<Rightarrow> payload \<Rightarrow> job_status \<Rightarrow> py_error + job_status" where
  "final_status started now stamp overall p s =
     (case int_or p ''total'' 0 of
        Inl e \<Rightarrow> Inl e
      | Inr t \<Rightarrow>
          (case int_or p ''success'' 0 of
             Inl e \<Rightarrow> Inl e
           | Inr ok \<Rightarrow>
               (case int_or p ''failed'' 0 of
                  Inl e \<Rightarrow> Inl e
                | Inr f \<Rightarrow>
                    (let zeroed = t = 0 \<and> ok = 0 \<and> f = 0;
                         s1 = (if zeroed then recompute_overall started now s else s);
                         (t1, ok1, f1) = (if zeroed then (js_total s1, js_completed s1, js_failed s1) else (t, ok, f))
                     in Inr (s1\<lparr>js_overall := overall, js_group := None, js_symbol := PNone, js_total := t1,
                                js_completed := ok1, js_failed := f1, js_percent := (if t1 \<noteq> 0 then 100 else 0),
                                js_remaining := Some 0, js_updated := stamp,
                                js_groups := map (\<lambda>(g, m). (g, finish_group m)) (js_groups s1)\<rparr>)))))"

definition all_done :: "('b, 'r) process_env \<Rightarrow> pytime \<Rightarrow> payload \<Rightarrow> 'r process \<Rightarrow> py_error option \<times> 'r process" where
  "all_done env now p st0 =
     (if pr_finalizing st0 then (None, st0)
      else
        (let (s, st1) = load_status env now (st0\<lparr>pr_finalizing := True\<rparr>)
         in case final_status (pr_started st1) now (pe_iso env now) (text_or (pe_text env) p ''overall_status'' ''SUCCESS'') p s of
              Inl e \<Rightarrow> (Some e, st1\<lparr>pr_finalizing := False\<rparr>)
            | Inr s1 \<Rightarrow> (None, (save_status env s1 st1)\<lparr>pr_started := None, pr_finalizing := False\<rparr>)))"

definition record_symbol_result :: "payload \<Rightarrow> 'r process \<Rightarrow> py_error option \<times> 'r process" where
  "record_symbol_result p st =
     (case dict_get p ''symbol'' of
        None \<Rightarrow> (None, st)
      | Some v \<Rightarrow>
          if \<not> py_truth v then (None, st)
          else
            (case hash_key v of
               None \<Rightarrow> (Some TypeError, st)
             | Some k \<Rightarrow>
                 (case dict_get (pr_results st) k of
                    Some old \<Rightarrow>
                      if old \<noteq> [] \<and> length p < length old
                      then (None, st\<lparr>pr_results := dict_set k (fold (\<lambda>(f, x) d. dict_set f x d) p old) (pr_results st)\<rparr>)
                      else (None, st\<lparr>pr_results := dict_set k p (pr_results st)\<rparr>)
                  | None \<Rightarrow> (None, st\<lparr>pr_results := dict_set k p (pr_results st)\<rparr>))))"

definition handle_event :: "('b, 'r) process_env \<Rightarrow> pytime \<Rightarrow> string \<Rightarrow> payload \<Rightarrow> 'r process \<Rightarrow> 'r process" where
  \<comment> \<open>an exception is logged and the state stays as it left it\<close>
  "handle_event env now kind p st =
     (if kind \<notin> set state_event_types then st
      else if kind = event_progress then snd (update_status env now p st)
      else if kind = event_group_completed then snd (group_done env now p st)
      else if kind = event_completed then snd (all_done env now p st)
      else snd (record_symbol_result p st))"

subsection \<open>The manager\<close>

definition broadcast :: "('b, 'r) process_env \<Rightarrow> pytime \<Rightarrow> ws_event \<Rightarrow> 'r process \<Rightarrow> 'r process" where
  \<comment> \<open>\<open>_broadcast\<close>, also what the subscriber does with a message of a channel\<close>
  "broadcast env now ev st =
     (let (new, st1) = deliver env ev st
      in if \<not> new then st1
         else
           (case (ev_kind ev, ev_payload ev) of
              (Some kind, Fields p) \<Rightarrow> if kind \<in> set state_event_types then handle_event env now kind p st1 else st1
            | _ \<Rightarrow> st1))"

definition broadcast_raw :: "('b, 'r) process_env \<Rightarrow> pytime \<Rightarrow> string \<Rightarrow> payload \<Rightarrow> 'r process \<Rightarrow> 'r process" where
  "broadcast_raw env now kind p st =
     (let (ev, st1) = publish env \<lparr>ev_kind = Some kind, ev_payload = Fields p, ev_id = None\<rparr> st
      in broadcast env now ev st1)"

definition ws_connect :: "('b, 'r) process_env \<Rightarrow> pytime \<Rightarrow> nat \<Rightarrow> 'r process \<Rightarrow> 'r process" where
  \<comment> \<open>the snapshot goes to the new client alone, without an identifier\<close>
  "ws_connect env now c st =
     (let (s, st1) = load_status env now (st\<lparr>pr_clients := List.insert c (pr_clients st)\<rparr>);
          ev = \<lparr>ev_kind = Some event_status_snapshot, ev_payload = Snapshot s, ev_id = None\<rparr>
      in if js_overall s \<noteq> [] \<and> pe_sends env c ev then st1\<lparr>pr_frames := pr_frames st1 @ [(c, ev)]\<rparr> else st1)"

definition ws_disconnect :: "nat \<Rightarrow> 'r process \<Rightarrow> 'r process" where
  "ws_disconnect c st = st\<lparr>pr_clients := filter (\<lambda>d. d \<noteq> c) (pr_clients st)\<rparr>"

definition connection_count :: "'r process \<Rightarrow> nat" where
  "connection_count st = length (pr_clients st)"

definition ws_shutdown :: "'r process \<Rightarrow> 'r process" where
  "ws_shutdown st = st\<lparr>pr_clients := []\<rparr>"

subsection \<open>The endpoints\<close>

definition lock_ttl :: pytime where "lock_ttl = 300"
definition redis_start_lock :: string where "redis_start_lock = ''armor:precompute:lock''"

datatype start_answer = AlreadyRunning job_status | Started job_status bool

definition start_allowed :: "('b, 'r) process_env \<Rightarrow> pytime \<Rightarrow> 'r process \<Rightarrow> job_status option \<times> 'r process" where
  \<comment> \<open>the debounce: \<open>Some\<close> status refuses\<close>
  "start_allowed env now st =
     (if connected st then
        (case rv_set_nx (pe_redis env) redis_start_lock 300 (pr_server st) of
           (Inl e, r) \<Rightarrow> (None, st\<lparr>pr_server := r\<rparr>)
         | (Inr True, r) \<Rightarrow> (None, st\<lparr>pr_server := r\<rparr>)
         | (Inr False, r) \<Rightarrow>
             (let (s, st1) = load_status env now (st\<lparr>pr_server := r\<rparr>)
              in if js_overall s \<in> {''RUNNING'', ''RETRYING''} then (Some s, st1)
                 else (let (e, r1) = rv_setex (pe_redis env) redis_start_lock 300 (pe_stamp env now) (pr_server st1)
                       in (None, st1\<lparr>pr_server := r1\<rparr>))))
      else
        (let (s, st1) = load_status env now st
         in if now < pr_lock_until st \<and> js_overall s \<in> {''RUNNING'', ''RETRYING''} then (Some s, st1)
            else (None, st1\<lparr>pr_lock_until := now + lock_ttl\<rparr>)))"

definition start_precompute ::
  "('b, 'r) process_env \<Rightarrow> pytime \<Rightarrow> ('r process \<Rightarrow> bool \<times> 'r process) \<Rightarrow> 'r process \<Rightarrow> start_answer \<times> 'r process" where
  \<comment> \<open>the dispatch, with the events it causes, is an argument that answers whether it succeeded\<close>
  "start_precompute env now dispatch st0 =
     (case start_allowed env now st0 of
        (Some s, st1) \<Rightarrow> (AlreadyRunning s, st1)
      | (None, st1) \<Rightarrow>
          (let (s, st2) = reset_job env now st1;
               (dispatched, st3) = dispatch st2;
               (raw, st4) = load_status env now st3;
               st5 = broadcast_raw env now ''PRECOMPUTATION_STARTED''
                       [(''timestamp'', PStr (pe_iso env now)), (''dispatched'', PBool dispatched)] st4
           in (Started raw dispatched, st5)))"

definition get_precompute_status :: "('b, 'r) process_env \<Rightarrow> pytime \<Rightarrow> 'r process \<Rightarrow> (job_status \<times> nat) \<times> 'r process" where
  "get_precompute_status env now st = (let (s, st1) = load_status env now st in ((s, connection_count st1), st1))"

subsection \<open>The deduplication window\<close>

definition window_ok :: "'r process \<Rightarrow> bool" where
  "window_ok st \<longleftrightarrow> pr_seen st = set (pr_recent st) \<and> distinct (pr_recent st) \<and> length (pr_recent st) \<le> window_size"

definition marks_after :: "string \<Rightarrow> nat \<Rightarrow> 'r process \<Rightarrow> bool" where
  \<comment> \<open>the identifier is in the window with at most \<open>n\<close> younger ones\<close>
  "marks_after i n st \<longleftrightarrow> window_ok st \<and> (\<exists>old young. pr_recent st = old @ i # young \<and> length young \<le> n)"

lemma evict_seen_eq:
  assumes "distinct recent" "length recent \<le> window_size"
  shows "evict_seen (set recent) recent =
    (if length recent = window_size then (set (tl recent), tl recent) else (set recent, recent))"
proof (cases recent)
  case Nil
  then show ?thesis by (simp add: window_size_def)
next
  case (Cons x xs)
  have c: "card (set xs) = length xs" "x \<notin> set xs" using assms(1) Cons by (auto simp: distinct_card)
  have stop: "evict_seen (set xs) xs = (set xs, xs)" if "Suc (length xs) \<le> window_size"
    using that assms(1) Cons by (cases xs) (auto simp: distinct_card)
  show ?thesis using Cons assms c stop by auto
qed

lemma mark_seen_window:
  assumes "window_ok st" "mark_seen i st = (new, st')"
  shows "window_ok st' \<and> pr_recent st' =
    (if \<not> new \<or> i = [] then pr_recent st
     else (if length (pr_recent st) = window_size then tl (pr_recent st) else pr_recent st) @ [i])"
proof -
  have w: "pr_seen st = set (pr_recent st)" "distinct (pr_recent st)" "length (pr_recent st) \<le> window_size"
    using assms(1) by (auto simp: window_ok_def)
  consider "new" "i = []" "st' = st" | "\<not> new" "st' = st"
    | "new" "i \<noteq> []" "i \<notin> set (pr_recent st)"
    using assms(2) w(1) by (auto simp: mark_seen_def split: if_splits prod.splits)
  then show ?thesis
  proof cases
    case 3
    define kept where "kept = (if length (pr_recent st) = window_size then tl (pr_recent st) else pr_recent st)"
    have k: "set kept \<subseteq> set (pr_recent st)" "distinct kept"
      using w(2) by (auto simp: kept_def distinct_tl intro: list.set_sel(2))
    have "length kept < window_size" using w(3) by (auto simp: kept_def window_size_def)
    moreover have "st' = st\<lparr>pr_seen := insert i (set kept), pr_recent := kept @ [i]\<rparr>"
      using assms(2) 3 w(1) by (auto simp: mark_seen_def evict_seen_eq[OF w(2,3)] kept_def)
    ultimately show ?thesis using 3 k by (auto simp: window_ok_def kept_def[symmetric])
  qed (use assms(1) in auto)
qed

text \<open>Everything but the deduplication leaves the window alone.\<close>

lemma load_window [simp]:
  "pr_recent (snd (load_status env now st)) = pr_recent st" "pr_seen (snd (load_status env now st)) = pr_seen st"
  "pr_clients (snd (load_status env now st)) = pr_clients st"
  by (auto simp: load_status_def Let_def split: prod.split)

lemma publish_window [simp]:
  "pr_recent (snd (publish env ev st)) = pr_recent st" "pr_seen (snd (publish env ev st)) = pr_seen st"
  "pr_clients (snd (publish env ev st)) = pr_clients st"
  by (auto simp: publish_def fresh_id_def Let_def split: prod.split option.split)

definition window :: "'r process \<Rightarrow> string set \<times> string list" where
  "window st = (pr_seen st, pr_recent st)"

definition marked :: "string \<Rightarrow> string set \<times> string list \<Rightarrow> string set \<times> string list" where
  "marked i w =
     (if i = [] \<or> i \<in> fst w then w
      else (let (seen, recent) = evict_seen (fst w) (snd w) in (insert i seen, recent @ [i])))"

definition grows :: "'r process \<Rightarrow> 'r process \<Rightarrow> bool" where
  \<comment> \<open>at most one identifier was marked, and no client came twice\<close>
  "grows st st' \<longleftrightarrow> (window st' = window st \<or> (\<exists>i. window st' = marked i (window st)))
     \<and> (distinct (pr_clients st) \<longrightarrow> distinct (pr_clients st'))"

lemma grows_same: "pr_seen st' = pr_seen st \<Longrightarrow> pr_recent st' = pr_recent st \<Longrightarrow> pr_clients st' = pr_clients st \<Longrightarrow> grows st st'"
  by (simp add: grows_def window_def)

lemma grows_cong:
  "grows st st' \<Longrightarrow> pr_seen st0 = pr_seen st \<Longrightarrow> pr_recent st0 = pr_recent st \<Longrightarrow>
   pr_seen st1 = pr_seen st' \<Longrightarrow> pr_recent st1 = pr_recent st' \<Longrightarrow> pr_clients st0 = pr_clients st \<Longrightarrow>
   pr_clients st1 = pr_clients st' \<Longrightarrow> grows st0 st1"
  by (simp add: grows_def window_def)

lemma mark_old: "mark_seen i st = (False, st') \<Longrightarrow> st' = st"
  by (auto simp: mark_seen_def split: if_splits prod.splits)

lemma mark_marked: "mark_seen i st = (new, st') \<Longrightarrow> window st' = marked i (window st)"
  by (auto simp: mark_seen_def marked_def window_def split: if_splits prod.splits)

lemma deliver_window:
  assumes "deliver env ev st = (new, st')"
  shows "\<exists>i. window st' = marked i (window st) \<and> (\<forall>j. ev_id ev = Some j \<longrightarrow> j \<noteq> [] \<longrightarrow> i = j)
    \<and> (new \<longleftrightarrow> i = [] \<or> i \<notin> pr_seen st)"
proof -
  obtain i st1 where i: "(case ev_id ev of Some i \<Rightarrow> if i \<noteq> [] then (i, st) else fresh_id env st | None \<Rightarrow> fresh_id env st) = (i, st1)"
    by (meson surj_pair)
  obtain b st2 where m: "mark_seen i st1 = (b, st2)" by (meson surj_pair)
  have w: "window st1 = window st" "pr_seen st1 = pr_seen st" and j: "\<forall>j. ev_id ev = Some j \<longrightarrow> j \<noteq> [] \<longrightarrow> i = j"
    using i by (auto simp: fresh_id_def window_def split: option.splits if_splits)
  have "window st' = window st2" "new = b"
    using assms i m by (auto simp: deliver_def Let_def window_def split: if_splits)
  moreover have "b \<longleftrightarrow> i = [] \<or> i \<notin> pr_seen st1" using m by (auto simp: mark_seen_def split: if_splits prod.splits)
  ultimately show ?thesis using mark_marked[OF m] w j by (intro exI[of _ i]) simp
qed

lemma mark_frame: "mark_seen i st = (new, st') \<Longrightarrow> pr_clients st' = pr_clients st \<and> pr_frames st' = pr_frames st"
  by (auto simp: mark_seen_def split: if_splits prod.splits)

lemma deliver_clients: "distinct (pr_clients st) \<Longrightarrow> distinct (pr_clients (snd (deliver env ev st)))"
  by (auto simp: deliver_def fresh_id_def Let_def split: prod.split option.split dest: mark_frame)

lemma deliver_grows: "grows st (snd (deliver env ev st))"
  using deliver_window[of env ev st "fst (deliver env ev st)" "snd (deliver env ev st)"] deliver_clients[of st env ev]
  by (auto simp: grows_def)

lemma broadcast_snapshot_grows: "grows st (broadcast_snapshot env s st)"
proof -
  define ev0 where "ev0 = \<lparr>ev_kind = Some event_status_snapshot, ev_payload = Snapshot s, ev_id = None\<rparr>"
  obtain ev st1 where p: "publish env ev0 st = (ev, st1)" by (meson surj_pair)
  have w: "pr_seen st1 = pr_seen st" "pr_recent st1 = pr_recent st" "pr_clients st1 = pr_clients st"
    using p publish_window[of env ev0 st] by simp_all
  have "broadcast_snapshot env s st = snd (deliver env ev st1)" using p by (simp add: broadcast_snapshot_def ev0_def)
  then show ?thesis using grows_cong[OF deliver_grows[of st1 env ev], of st "snd (deliver env ev st1)"] w by simp
qed

lemma save_grows: "grows st (save_status env s st)"
  unfolding save_status_def Let_def
  by (rule grows_cong[OF broadcast_snapshot_grows]) (auto split: prod.split)

lemma save_grows_from:
  "pr_seen st1 = pr_seen st \<Longrightarrow> pr_recent st1 = pr_recent st \<Longrightarrow> pr_clients st1 = pr_clients st \<Longrightarrow> grows st (save_status env s st1)"
  by (rule grows_cong[OF save_grows[of st1]]) simp_all

lemma update_grows: "grows st (snd (update_status env now p st))"
proof -
  obtain s st1 where l: "load_status env now st = (s, st1)" by (meson surj_pair)
  have w: "pr_recent st1 = pr_recent st" "pr_seen st1 = pr_seen st" "pr_clients st1 = pr_clients st"
    using load_window[of env now st] l by auto
  define st2 where "st2 = (if pr_started st1 = None \<and> js_overall s = ''RUNNING'' then st1\<lparr>pr_started := Some now\<rparr> else st1)"
  have w2: "pr_recent st2 = pr_recent st" "pr_seen st2 = pr_seen st" "pr_clients st2 = pr_clients st" using w by (auto simp: st2_def)
  have "snd (update_status env now p st) \<in> {st1, st2} \<or> (\<exists>s1. snd (update_status env now p st) = save_status env s1 st2)"
    unfolding update_status_def l Let_def prod.case st2_def[symmetric]
    by (auto split: option.split sum.split)
  then show ?thesis using w w2 by (auto intro: grows_same save_grows_from)
qed

lemma group_grows: "grows st (snd (group_done env now p st))"
proof -
  obtain s st1 where l: "load_status env now st = (s, st1)" by (meson surj_pair)
  have w: "pr_recent st1 = pr_recent st" "pr_seen st1 = pr_seen st" "pr_clients st1 = pr_clients st"
    using load_window[of env now st] l by auto
  have "snd (group_done env now p st) = st1 \<or> (\<exists>s1. snd (group_done env now p st) = save_status env s1 st1)"
    unfolding group_done_def l Let_def prod.case by (auto split: option.split sum.split)
  then show ?thesis using w by (auto intro: grows_same save_grows_from)
qed

lemma all_done_grows: "grows st (snd (all_done env now p st))"
proof -
  obtain s st1 where l: "load_status env now (st\<lparr>pr_finalizing := True\<rparr>) = (s, st1)" by (meson surj_pair)
  have w: "pr_recent st1 = pr_recent st" "pr_seen st1 = pr_seen st" "pr_clients st1 = pr_clients st"
    using load_window[of env now "st\<lparr>pr_finalizing := True\<rparr>"] l by auto
  have "snd (all_done env now p st) \<in> {st, st1\<lparr>pr_finalizing := False\<rparr>} \<or>
      (\<exists>s1. snd (all_done env now p st) = (save_status env s1 st1)\<lparr>pr_started := None, pr_finalizing := False\<rparr>)"
    unfolding all_done_def l Let_def prod.case by (auto split: sum.split)
  then show ?thesis
    using w by (auto intro: grows_same grows_cong[OF save_grows_from[OF w(2,1,3)]])
qed

lemma record_frame:
  "pr_seen (snd (record_symbol_result p st)) = pr_seen st" "pr_recent (snd (record_symbol_result p st)) = pr_recent st"
  "pr_clients (snd (record_symbol_result p st)) = pr_clients st"
  by (auto simp: record_symbol_result_def split: option.split)

lemma handle_grows: "grows st (handle_event env now kind p st)"
  by (simp add: handle_event_def update_grows group_grows all_done_grows grows_same[OF record_frame] grows_same)

lemma marked_window:
  assumes "window_ok st" "window st' = marked i (window st)"
  shows "window_ok st' \<and> pr_recent st' =
    (if i = [] \<or> i \<in> pr_seen st then pr_recent st
     else (if length (pr_recent st) = window_size then tl (pr_recent st) else pr_recent st) @ [i])"
proof -
  obtain new st2 where m: "mark_seen i st = (new, st2)" by (meson surj_pair)
  have w: "window st' = window st2" using assms(2) mark_marked[OF m] by simp
  have n: "new = (i = [] \<or> i \<notin> pr_seen st)" using m by (simp add: mark_seen_def split: prod.splits if_splits)
  have s: "pr_seen st' = pr_seen st2" "pr_recent st' = pr_recent st2" using w by (simp_all add: window_def)
  have "window_ok st'" using mark_seen_window[OF assms(1) m] s unfolding window_ok_def by metis
  then show ?thesis using mark_seen_window[OF assms(1) m] s n by simp
qed

lemma grows_marks:
  assumes "marks_after i n st" "grows st st'" "n < window_size - 1"
  shows "marks_after i (Suc n) st'"
proof -
  obtain old young where r: "pr_recent st = old @ i # young" "length young \<le> n" and w: "window_ok st"
    using assms(1) by (auto simp: marks_after_def)
  have same: ?thesis if "window st' = window st"
    using that r w by (simp add: marks_after_def window_ok_def window_def) (metis le_SucI)
  have new: ?thesis if e: "window st' = marked j (window st)" "j \<noteq> []" "j \<notin> pr_seen st" for j
  proof -
    note m = marked_window[OF w e(1)]
    have "\<exists>old young. pr_recent st' = old @ i # young \<and> length young \<le> Suc n"
    proof (cases "length (pr_recent st) = window_size")
      case True
      then obtain x old' where "old = x # old'" using r assms(3) by (cases old) auto
      then have "pr_recent st' = old' @ i # (young @ [j])" using m e r True by simp
      then show ?thesis using r(2) by (intro exI[of _ old'] exI[of _ "young @ [j]"]) simp
    next
      case False
      then have "pr_recent st' = old @ i # (young @ [j])" using m e r by simp
      then show ?thesis using r(2) by (intro exI[of _ old] exI[of _ "young @ [j]"]) simp
    qed
    then show ?thesis using m by (simp add: marks_after_def)
  qed
  have "window st' = window st \<or> (\<exists>j. window st' = marked j (window st) \<and> j \<noteq> [] \<and> j \<notin> pr_seen st)"
    using assms(2) by (auto simp: grows_def) (auto simp: marked_def window_def)
  then show ?thesis using same new by blast
qed

lemma marks_after_seen: "marks_after i n st \<Longrightarrow> i \<in> pr_seen st"
proof (unfold marks_after_def window_ok_def, elim conjE exE)
  fix old young
  assume "pr_seen st = set (pr_recent st)" "pr_recent st = old @ i # young"
  then show ?thesis by simp
qed

lemma marks_after_mono: "marks_after i n st \<Longrightarrow> n \<le> m \<Longrightarrow> marks_after i m st"
  by (auto simp: marks_after_def intro: le_trans)

lemma broadcast_cases:
  "broadcast env now ev st = snd (deliver env ev st) \<or>
   (\<exists>kind p. ev_kind ev = Some kind \<and> ev_payload ev = Fields p \<and> kind \<in> set state_event_types \<and> fst (deliver env ev st) \<and>
      broadcast env now ev st = handle_event env now kind p (snd (deliver env ev st)))"
  by (simp add: broadcast_def split: prod.split option.split event_payload.split)

lemma broadcast_grows_twice: "\<exists>mid. grows st mid \<and> grows mid (broadcast env now ev st)"
proof (cases "broadcast env now ev st = snd (deliver env ev st)")
  case True
  then show ?thesis using deliver_grows[of st env ev] by (intro exI[of _ st]) (simp add: grows_same)
next
  case False
  then obtain kind p where "broadcast env now ev st = handle_event env now kind p (snd (deliver env ev st))"
    using broadcast_cases[of env now ev st] by blast
  then show ?thesis using deliver_grows[of st env ev] handle_grows by (intro exI[of _ "snd (deliver env ev st)"]) simp
qed

fun grows_by :: "nat \<Rightarrow> 'r process \<Rightarrow> 'r process \<Rightarrow> bool" where
  \<comment> \<open>at most that many identifiers were marked\<close>
  "grows_by 0 st st' \<longleftrightarrow> window st' = window st \<and> (distinct (pr_clients st) \<longrightarrow> distinct (pr_clients st'))"
| "grows_by (Suc n) st st' \<longleftrightarrow> (\<exists>mid. grows_by n st mid \<and> grows mid st')"

lemma grows_by_window: "grows_by n st mid \<Longrightarrow> window st' = window mid \<Longrightarrow>
    (distinct (pr_clients mid) \<Longrightarrow> distinct (pr_clients st')) \<Longrightarrow> grows_by n st st'"
  by (cases n) (auto simp: grows_def)

lemma grows_by_trans: "grows_by m st mid \<Longrightarrow> grows_by n mid st' \<Longrightarrow> grows_by (m + n) st st'"
proof (induction n arbitrary: st')
  case 0
  then show ?case using grows_by_window by auto
next
  case (Suc n)
  then show ?case by auto
qed

lemma grows_by_one: "grows st st' \<Longrightarrow> grows_by 1 st st'"
  by (auto intro!: exI[of _ st])

lemma grows_by_same: "pr_seen st' = pr_seen st \<Longrightarrow> pr_recent st' = pr_recent st \<Longrightarrow>
    (distinct (pr_clients st) \<Longrightarrow> distinct (pr_clients st')) \<Longrightarrow> grows_by 0 st st'"
  by (simp add: window_def)

lemma grows_by_marks:
  "grows_by n st st' \<Longrightarrow> marks_after i m st \<Longrightarrow> m + n < window_size \<Longrightarrow> marks_after i (m + n) st'"
proof (induction n arbitrary: st')
  case 0
  then have "pr_seen st' = pr_seen st" "pr_recent st' = pr_recent st" by (simp_all add: window_def)
  then show ?case using 0 by (auto simp: marks_after_def window_ok_def)
next
  case (Suc n)
  then obtain mid where "grows_by n st mid" "grows mid st'" by auto
  then show ?case using Suc grows_marks[of i "m + n" mid st'] by simp
qed

lemma broadcast_grows: "grows_by 2 st (broadcast env now ev st)"
  using broadcast_grows_twice[of st env now ev] by (auto simp: numeral_2_eq_2 grows_by_one[simplified] intro: exI[of _ st])

lemma seen_dropped:
  assumes "ev_id ev = Some i" "i \<noteq> []" "i \<in> pr_seen st"
  shows "broadcast env now ev st = st"
  using assms by (simp add: broadcast_def deliver_def mark_seen_def)

lemma grows_window: "window_ok st \<Longrightarrow> grows st st' \<Longrightarrow> window_ok st'"
proof (unfold grows_def, elim conjE disjE exE)
  assume w: "window_ok st" "window st' = window st"
  then have "pr_seen st' = pr_seen st" "pr_recent st' = pr_recent st" by (simp_all add: window_def)
  then show ?thesis using w(1) unfolding window_ok_def by metis
next
  fix i assume "window_ok st" "window st' = marked i (window st)"
  then show ?thesis using marked_window by blast
qed

definition process_init :: "int \<Rightarrow> bool \<Rightarrow> 'r \<Rightarrow> 'r process" where
  "process_init ttl up r =
     \<lparr>pr_status = None, pr_started = None, pr_results = [], pr_finalizing = False, pr_lock_until = 0,
      pr_cache = \<lparr>cs_default_ttl = ttl, cs_redis = up\<rparr>, pr_server = r, pr_seen = {}, pr_recent = [], pr_clients = [],
      pr_uuids = 0, pr_frames = []\<rparr>"

text \<open>The operations of a process: a message of a channel, an event raised in the process, a run that starts (with the
  events its dispatch raises), a read of the status, clients that come and go, the shutdown, and what the cache service
  and the other processes do with Redis. Every operation has its own environment, so connections break and servers fail
  at any time.\<close>

datatype 'r hub_op =
    ChannelMessage pytime ws_event
  | EventRaised pytime string payload
  | RunStarts pytime bool "(pytime \<times> string \<times> payload) list"
  | StatusRead pytime
  | ClientJoins pytime nat
  | ClientGoes nat
  | HubShutdown
  | RedisChanges "cache_service \<times> 'r \<Rightarrow> cache_service \<times> 'r"

definition raise_all :: "('b, 'r) process_env \<Rightarrow> (pytime \<times> string \<times> payload) list \<Rightarrow> 'r process \<Rightarrow> 'r process" where
  "raise_all env es st = fold (\<lambda>(now, kind, p). broadcast_raw env now kind p) es st"

definition hub_step :: "('b, 'r) process_env \<times> 'r hub_op \<Rightarrow> 'r process \<Rightarrow> 'r process" where
  "hub_step x st =
     (case x of (env, op) \<Rightarrow>
        case op of
          ChannelMessage now ev \<Rightarrow> broadcast env now ev st
        | EventRaised now kind p \<Rightarrow> broadcast_raw env now kind p st
        | RunStarts now ok es \<Rightarrow> snd (start_precompute env now (\<lambda>s. (ok, raise_all env es s)) st)
        | StatusRead now \<Rightarrow> snd (get_precompute_status env now st)
        | ClientJoins now c \<Rightarrow> ws_connect env now c st
        | ClientGoes c \<Rightarrow> ws_disconnect c st
        | HubShutdown \<Rightarrow> ws_shutdown st
        | RedisChanges f \<Rightarrow> (let (c, r) = f (pr_cache st, pr_server st) in st\<lparr>pr_cache := c, pr_server := r\<rparr>))"

definition hub_run :: "(('b, 'r) process_env \<times> 'r hub_op) list \<Rightarrow> 'r process \<Rightarrow> 'r process" where
  "hub_run xs st = fold hub_step xs st"

fun hub_cost :: "'r hub_op \<Rightarrow> nat" where
  \<comment> \<open>how many identifiers an operation marks at most: an event's own and its snapshot's\<close>
  "hub_cost (ChannelMessage now ev) = 2"
| "hub_cost (EventRaised now kind p) = 2"
| "hub_cost (RunStarts now ok es) = 3 + 2 * length es"
| "hub_cost op = 0"

lemma grows_by_window_ok: "grows_by n st st' \<Longrightarrow> window_ok st \<Longrightarrow> window_ok st'"
proof (induction n arbitrary: st')
  case 0
  then have "pr_seen st' = pr_seen st" "pr_recent st' = pr_recent st" by (simp_all add: window_def)
  then show ?case using 0(2) by (simp add: window_ok_def)
qed (auto intro: grows_window)

lemma grows_by_distinct: "grows_by n st st' \<Longrightarrow> distinct (pr_clients st) \<Longrightarrow> distinct (pr_clients st')"
  by (induction n arbitrary: st') (auto simp: grows_def)

lemma raw_grows: "grows_by 2 st (broadcast_raw env now kind p st)"
proof -
  define ev0 where "ev0 = \<lparr>ev_kind = Some kind, ev_payload = Fields p, ev_id = None\<rparr>"
  obtain ev st1 where p: "publish env ev0 st = (ev, st1)" by (meson surj_pair)
  have "grows_by 0 st st1" using p publish_window[of env ev0 st] by (intro grows_by_same) auto
  from grows_by_trans[OF this broadcast_grows] show ?thesis
    using p by (simp add: broadcast_raw_def ev0_def numeral_2_eq_2)
qed

lemma raise_all_grows: "grows_by (2 * length es) st (raise_all env es st)"
proof (induction es arbitrary: st)
  case (Cons e es)
  obtain now kind p where e: "e = (now, kind, p)" by (metis prod_cases3)
  show ?case using grows_by_trans[OF raw_grows Cons.IH, of st env now kind p] by (simp add: e raise_all_def)
qed (simp add: raise_all_def)

lemma load_grows: "grows_by 0 st (snd (load_status env now st))"
  by (rule grows_by_same) simp_all

lemma allowed_grows: "grows_by 0 st (snd (start_allowed env now st))"
  by (rule grows_by_same)
     (auto simp: start_allowed_def Let_def case_prod_unfold split: sum.split bool.split)

lemma start_grows: "grows_by (3 + 2 * length es) st (snd (start_precompute env now (\<lambda>s. (ok, raise_all env es s)) st))"
proof -
  obtain r st1 where a: "start_allowed env now st = (r, st1)" by (meson surj_pair)
  then have g1: "grows_by 0 st st1" using allowed_grows[of st env now] by simp
  show ?thesis
  proof (cases r)
    case (Some s)
    have "grows_by n st1 st1" for n by (induction n) (auto intro: grows_same)
    from grows_by_trans[OF g1 this] show ?thesis using a Some by (simp add: start_precompute_def)
  next
    case None
    define s where "s = (default_status (pe_iso env now))\<lparr>js_overall := ''RUNNING'', js_group := Some ''A''\<rparr>"
    define st2 where "st2 = save_status env s (st1\<lparr>pr_started := Some now\<rparr>)"
    define st3 where "st3 = raise_all env es st2"
    obtain raw st4 where l: "load_status env now st3 = (raw, st4)" by (meson surj_pair)
    have "grows st1 st2" unfolding st2_def by (rule save_grows_from) simp_all
    note grows_by_one[OF this]
    note grows_by_trans[OF g1 this]
    note grows_by_trans[OF this raise_all_grows[of es st2 env]]
    note grows_by_trans[OF this[folded st3_def] load_grows[of st3 env now]]
    note grows_by_trans[OF this raw_grows[of _ env now "''PRECOMPUTATION_STARTED''"
      "[(''timestamp'', PStr (pe_iso env now)), (''dispatched'', PBool ok)]"]]
    then show ?thesis using a None l
      by (simp add: start_precompute_def reset_job_def s_def[symmetric] st2_def[symmetric] st3_def[symmetric] Let_def
          eval_nat_numeral)
  qed
qed

lemma hub_step_grows: "grows_by (hub_cost (snd x)) st (hub_step x st)"
proof -
  obtain env op where x: "x = (env, op)" by (cases x)
  show ?thesis
  proof (cases op)
    case (ChannelMessage now ev)
    then show ?thesis using broadcast_grows by (simp add: x hub_step_def)
  next
    case (EventRaised now kind p)
    then show ?thesis using raw_grows by (simp add: x hub_step_def)
  next
    case (RunStarts now ok es)
    then show ?thesis using start_grows[of es st env now ok] by (simp add: x hub_step_def)
  next
    case (ClientJoins now c)
    obtain s st1 where l: "load_status env now (st\<lparr>pr_clients := List.insert c (pr_clients st)\<rparr>) = (s, st1)" by (meson surj_pair)
    have "window (ws_connect env now c st) = window st" "pr_clients (ws_connect env now c st) = List.insert c (pr_clients st)"
      using load_window[of env now "st\<lparr>pr_clients := List.insert c (pr_clients st)\<rparr>"] l
      by (auto simp: ws_connect_def window_def Let_def)
    then show ?thesis using ClientJoins by (simp add: x hub_step_def)
  next
    case (StatusRead now)
    then show ?thesis using load_grows[of st env now] by (simp add: x hub_step_def get_precompute_status_def case_prod_unfold Let_def)
  qed (auto simp: x hub_step_def ws_disconnect_def ws_shutdown_def window_def Let_def
       split: prod.split)
qed

lemma hub_run_grows: "grows_by (sum_list (map (hub_cost \<circ> snd) xs)) st (hub_run xs st)"
proof (induction xs arbitrary: st)
  case (Cons x xs)
  show ?case using grows_by_trans[OF hub_step_grows Cons.IH, of x st] by (simp add: hub_run_def)
qed (simp add: hub_run_def)

text \<open>C35: an event is handled once. In any history of a process (messages of the channels, events raised in it, starts,
  status reads, clients that come, go and break, a shutdown, Redis failing and recovering), when an event with an
  identifier is accepted, every connected client whose connection takes it gets one frame of it; and while the
  operations that follow mark at most 1022 identifiers (511 deliveries), a delivery of the same identifier, through
  whichever channel and whatever clients are connected by then, sends no frame, drops no client and changes nothing else.
  The operations follow one another; an identifier that is empty or missing is replaced by a fresh one and not covered.\<close>

theorem redelivery_ignored:
  assumes "st = hub_run before (process_init ttl up r)"
    and "ev_id ev = Some i" "i \<noteq> []" "fst (deliver env ev st)"
    and "st' = hub_run later (broadcast env now ev st)" "sum_list (map (hub_cost \<circ> snd) later) \<le> 1022"
    and "ev_id again = Some i"
  shows "distinct (pr_clients st)
    \<and> pr_frames (snd (deliver env ev st)) = pr_frames st @ map (\<lambda>c. (c, ev)) (filter (\<lambda>c. pe_sends env c ev) (pr_clients st))
    \<and> broadcast env' now' again st' = st'"
proof -
  let ?s0 = "process_init ttl up r"
  have "window_ok ?s0" "distinct (pr_clients ?s0)" by (simp_all add: process_init_def window_ok_def)
  then have w: "window_ok st" and dist: "distinct (pr_clients st)"
    using hub_run_grows[of before ?s0] grows_by_window_ok grows_by_distinct unfolding assms(1) by blast+
  obtain st1 where d: "deliver env ev st = (True, st1)" using assms(4) by (cases "deliver env ev st") auto
  obtain st2 where m: "mark_seen i st = (True, st2)" using assms(2-4) by (cases "mark_seen i st") (auto simp: deliver_def Let_def split: if_splits)
  have frames: "pr_frames st1 = pr_frames st @ map (\<lambda>c. (c, ev)) (filter (\<lambda>c. pe_sends env c ev) (pr_clients st))"
  proof -
    obtain k q where ev: "ev = \<lparr>ev_kind = k, ev_payload = q, ev_id = Some i\<rparr>" using assms(2) by (cases ev) simp
    show ?thesis using d m mark_frame[OF m] assms(3) by (auto simp: ev deliver_def Let_def)
  qed
  obtain j where c: "window st1 = marked j (window st)" "j = i" "i = [] \<or> i \<notin> pr_seen st"
    using deliver_window[OF d] assms(2,3) by auto
  have m0: "marks_after i 0 st1"
    using marked_window[OF w c(1)] c(2,3) assms(3) by (auto simp: marks_after_def)
  then have "marks_after i 1 (broadcast env now ev st)"
    using broadcast_cases[of env now ev st]
  proof (elim disjE exE conjE)
    fix kind p
    assume "broadcast env now ev st = handle_event env now kind p (snd (deliver env ev st))"
    then show ?thesis using grows_marks[OF m0 handle_grows] d by (simp add: window_size_def)
  qed (use m0 d in \<open>auto intro: marks_after_mono\<close>)
  then have "marks_after i (1 + sum_list (map (hub_cost \<circ> snd) later)) st'"
    unfolding assms(5) by (rule grows_by_marks[OF hub_run_grows]) (use assms(6) in \<open>simp add: window_size_def\<close>)
  then have "i \<in> pr_seen st'" by (rule marks_after_seen)
  then show ?thesis using dist frames d seen_dropped[OF assms(7,3)] by simp
qed

subsection \<open>What an operation leaves alone\<close>

definition same_job :: "'r process \<Rightarrow> 'r process \<Rightarrow> bool" where
  "same_job st st' \<longleftrightarrow> pr_status st' = pr_status st \<and> pr_started st' = pr_started st \<and> pr_cache st' = pr_cache st
     \<and> pr_finalizing st' = pr_finalizing st \<and> pr_results st' = pr_results st"

lemma deliver_job: "same_job st (snd (deliver env ev st))"
  by (auto simp: same_job_def deliver_def mark_seen_def fresh_id_def Let_def split: prod.split option.split)

lemma publish_job: "same_job st (snd (publish env ev st))"
  by (auto simp: same_job_def publish_def fresh_id_def Let_def split: prod.split option.split)

lemma snapshot_job: "same_job st (broadcast_snapshot env s st)"
proof -
  define ev0 where "ev0 = \<lparr>ev_kind = Some event_status_snapshot, ev_payload = Snapshot s, ev_id = None\<rparr>"
  obtain ev st1 where p: "publish env ev0 st = (ev, st1)" by (meson surj_pair)
  have "broadcast_snapshot env s st = snd (deliver env ev st1)" using p by (simp add: broadcast_snapshot_def ev0_def)
  then show ?thesis using publish_job[of st env ev0] deliver_job[of st1 env ev] p by (simp add: same_job_def)
qed

lemma load_offline: "\<not> connected st \<Longrightarrow>
    load_status env now st = (case pr_status st of Some s \<Rightarrow> s | None \<Rightarrow> default_status (pe_iso env now), st)"
  by (simp add: load_status_def)

lemma save_offline:
  assumes "\<not> connected st"
  shows "pr_status (save_status env s st) = Some s" "pr_started (save_status env s st) = pr_started st"
    "connected (save_status env s st) = connected st" "pr_finalizing (save_status env s st) = pr_finalizing st"
  using assms snapshot_job[of "st\<lparr>pr_status := Some s\<rparr>" env s]
  by (auto simp: save_status_def same_job_def connected_def Let_def)

lemma deliver_offline:
  "connected (snd (deliver env ev st)) = connected st" "pr_status (snd (deliver env ev st)) = pr_status st"
  "pr_finalizing (snd (deliver env ev st)) = pr_finalizing st"
  using deliver_job[of st env ev] by (auto simp: same_job_def connected_def)

subsection \<open>Each group follows its own events\<close>

definition zero_meta :: group_meta where
  "zero_meta = \<lparr>gm_total = 0, gm_completed = 0, gm_failed = 0, gm_status = ''PENDING''\<rparr>"

definition meta_step :: "(py_value \<Rightarrow> string) \<Rightarrow> string \<Rightarrow> string \<times> payload \<Rightarrow> group_meta \<Rightarrow> group_meta" where
  \<comment> \<open>specification: what an event means to one group\<close>
  "meta_step text g e m =
     (case e of (kind, p) \<Rightarrow>
        if kind = event_progress then
          (if text_or text p ''group'' '''' \<noteq> g then m
           else (case (int_or p ''total'' 0, int_or p ''completed'' 0) of
                   (Inr t, Inr c) \<Rightarrow> m\<lparr>gm_total := t, gm_completed := c, gm_status := ''RUNNING''\<rparr> | _ \<Rightarrow> m))
        else if kind = event_group_completed then
          (if text_or text p ''group'' '''' \<noteq> g then m
           else (case (int_or p ''total_processed'' (gm_total m), int_or p ''failed'' 0) of
                   (Inr t, Inr f) \<Rightarrow> m\<lparr>gm_total := t, gm_completed := max 0 (t - f), gm_failed := f, gm_status := ''SUCCESS''\<rparr>
                 | _ \<Rightarrow> m))
        else if kind = event_completed then
          (case (int_or p ''total'' 0, int_or p ''success'' 0, int_or p ''failed'' 0) of
             (Inr t, Inr ok, Inr f) \<Rightarrow> finish_group m | _ \<Rightarrow> m)
        else m)"

definition overall_step :: "(py_value \<Rightarrow> string) \<Rightarrow> string \<times> payload \<Rightarrow> string \<Rightarrow> string" where
  "overall_step text e o1 =
     (case e of (kind, p) \<Rightarrow>
        if kind = event_completed then
          (case (int_or p ''total'' 0, int_or p ''success'' 0, int_or p ''failed'' 0) of
             (Inr t, Inr ok, Inr f) \<Rightarrow> text_or text p ''overall_status'' ''SUCCESS'' | _ \<Rightarrow> o1)
        else o1)"

definition totals_agree :: "job_status \<Rightarrow> bool" where
  "totals_agree s \<longleftrightarrow> js_total s = sum_list (map (gm_total \<circ> snd) (js_groups s))
     \<and> js_completed s = sum_list (map (gm_completed \<circ> snd) (js_groups s))
     \<and> js_failed s = sum_list (map (gm_failed \<circ> snd) (js_groups s))"

definition follows :: "(py_value \<Rightarrow> string) \<Rightarrow> string \<times> payload \<Rightarrow> job_status \<Rightarrow> job_status \<Rightarrow> bool" where
  "follows text e s s' \<longleftrightarrow>
     (\<forall>g. dict_get (js_groups s') g = map_option (meta_step text g e) (dict_get (js_groups s) g))
     \<and> js_overall s' = overall_step text e (js_overall s) \<and> (fst e \<noteq> event_completed \<longrightarrow> totals_agree s \<longrightarrow> totals_agree s')"

lemmas event_kinds = event_progress_def event_group_completed_def event_completed_def event_symbol_updated_def
  event_status_snapshot_def state_event_types_def

lemma recompute_simps [simp]:
  "js_groups (recompute_overall started now s) = js_groups s" "js_overall (recompute_overall started now s) = js_overall s"
  "js_total (recompute_overall started now s) = sum_list (map (gm_total \<circ> snd) (js_groups s))"
  "js_completed (recompute_overall started now s) = sum_list (map (gm_completed \<circ> snd) (js_groups s))"
  "js_failed (recompute_overall started now s) = sum_list (map (gm_failed \<circ> snd) (js_groups s))"
  by (simp_all add: recompute_overall_def Let_def comp_def)

lemma follows_self:
  "(\<And>g m. dict_get (js_groups s) g = Some m \<Longrightarrow> meta_step text g e m = m) \<Longrightarrow> overall_step text e (js_overall s) = js_overall s \<Longrightarrow> follows text e s s"
  by (auto simp: follows_def option.map_ident_strong[symmetric] split: option.split) (metis not_None_eq option.map_disc_iff option.simps(9))

lemma meta_step_other:
  "text_or text p ''group'' '''' \<noteq> g \<Longrightarrow> meta_step text g (event_progress, p) = (\<lambda>m. m)"
  "text_or text p ''group'' '''' \<noteq> g \<Longrightarrow> meta_step text g (event_group_completed, p) = (\<lambda>m. m)"
  by (auto simp: meta_step_def event_kinds)

lemma progress_follows:
  assumes "text_or text p ''group'' '''' = g" "dict_get (js_groups s) g = Some meta"
  shows "case progress_status started now stamp p g meta s of
      Inl e \<Rightarrow> follows text (event_progress, p) s s | Inr s1 \<Rightarrow> follows text (event_progress, p) s s1"
proof (cases "progress_status started now stamp p g meta s")
  case (Inl e)
  then show ?thesis
    by (auto intro!: follows_self simp: progress_status_def meta_step_def overall_step_def event_kinds Let_def split: sum.splits)
next
  case (Inr s1)
  then show ?thesis
    using assms
    by (auto simp: progress_status_def overall_step_def follows_def totals_agree_def meta_step_other Let_def
        option.map_ident split: sum.splits) (auto simp: meta_step_def event_kinds)
qed

lemma group_follows:
  assumes "text_or text p ''group'' '''' = g" "dict_get (js_groups s) g = Some meta"
  shows "case group_status started now stamp p g meta s of
      Inl e \<Rightarrow> follows text (event_group_completed, p) s s | Inr s1 \<Rightarrow> follows text (event_group_completed, p) s s1"
proof (cases "group_status started now stamp p g meta s")
  case (Inl e)
  then show ?thesis
    using assms
    by (auto intro!: follows_self simp: group_status_def meta_step_def overall_step_def event_kinds Let_def split: sum.splits)
next
  case (Inr s1)
  then show ?thesis
    using assms
    by (auto simp: group_status_def overall_step_def follows_def totals_agree_def meta_step_other Let_def
        option.map_ident split: sum.splits) (auto simp: meta_step_def event_kinds)
qed

lemma final_follows:
  "case final_status started now stamp (text_or text p ''overall_status'' ''SUCCESS'') p s of
      Inl e \<Rightarrow> follows text (event_completed, p) s s | Inr s1 \<Rightarrow> follows text (event_completed, p) s s1"
proof (cases "final_status started now stamp (text_or text p ''overall_status'' ''SUCCESS'') p s")
  case (Inl e)
  then show ?thesis
    by (auto intro!: follows_self simp: final_status_def meta_step_def overall_step_def event_kinds Let_def
        split: sum.splits if_splits)
next
  case (Inr s1)
  then obtain t ok f where i: "int_or p ''total'' 0 = Inr t" "int_or p ''success'' 0 = Inr ok" "int_or p ''failed'' 0 = Inr f"
    by (auto simp: final_status_def split: sum.splits)
  have "js_groups s1 = map (\<lambda>(g, m). (g, finish_group m)) (js_groups s)" "js_overall s1 = text_or text p ''overall_status'' ''SUCCESS''"
    using Inr i by (cases "t = 0 \<and> ok = 0 \<and> f = 0"; auto simp: final_status_def Let_def)+
  moreover have "meta_step text g (event_completed, p) = finish_group" for g
    using i by (auto simp: meta_step_def event_kinds)
  ultimately show ?thesis
    using Inr i by (simp add: follows_def overall_step_def dict_get_map)
qed

lemma handle_follows:
  assumes "\<not> connected st" "\<not> pr_finalizing st" "pr_status st = Some s"
  shows "\<exists>s'. pr_status (handle_event env now kind p st) = Some s' \<and> follows (pe_text env) (kind, p) s s'
    \<and> \<not> connected (handle_event env now kind p st) \<and> \<not> pr_finalizing (handle_event env now kind p st)"
proof -
  have l: "load_status env now st = (s, st)" using assms by (simp add: load_offline)
  have idle: "follows (pe_text env) (kind, p) s s" if "kind \<notin> {event_progress, event_group_completed, event_completed}"
    using that by (auto intro!: follows_self simp: meta_step_def overall_step_def)
  have absent: "follows (pe_text env) (k, p) s s" if "dict_get (js_groups s) (text_or (pe_text env) p ''group'' '''') = None"
    "k = event_progress \<or> k = event_group_completed" for k
    using that by (auto intro!: follows_self simp: meta_step_def overall_step_def event_kinds)
  consider "kind \<notin> set state_event_types" | "kind = event_progress" | "kind = event_group_completed"
    | "kind = event_completed" | "kind = event_symbol_updated"
    by (auto simp: state_event_types_def)
  then show ?thesis
  proof cases
    case 1
    then show ?thesis using assms idle by (auto simp: handle_event_def state_event_types_def)
  next
    case 2
    define g where "g = text_or (pe_text env) p ''group'' ''''"
    define st2 where "st2 = (if pr_started st = None \<and> js_overall s = ''RUNNING'' then st\<lparr>pr_started := Some now\<rparr> else st)"
    have st2: "\<not> connected st2" "\<not> pr_finalizing st2" "pr_status st2 = Some s" using assms by (auto simp: st2_def connected_def)
    have h: "handle_event env now kind p st = snd (update_status env now p st)"
      using 2 by (simp add: handle_event_def event_kinds)
    show ?thesis
    proof (cases "dict_get (js_groups s) g")
      case None
      then show ?thesis using h assms l absent[of kind] 2 by (simp add: update_status_def g_def)
    next
      case (Some meta)
      have u: "update_status env now p st = (case progress_status (pr_started st2) now (pe_iso env now) p g meta s of
                   Inl e \<Rightarrow> (Some e, st2) | Inr s1 \<Rightarrow> (None, save_status env s1 st2))"
        unfolding update_status_def l Let_def prod.case g_def[symmetric] st2_def[symmetric] Some option.case ..
      show ?thesis
        using progress_follows[OF g_def[symmetric] Some, of "pr_started st2" now "pe_iso env now"] u h 2 st2 save_offline[OF st2(1), of env]
        by (auto split: sum.splits)
    qed
  next
    case 3
    define g where "g = text_or (pe_text env) p ''group'' ''''"
    have h: "handle_event env now kind p st = snd (group_done env now p st)"
      using 3 by (simp add: handle_event_def event_kinds)
    show ?thesis
    proof (cases "dict_get (js_groups s) g")
      case None
      then show ?thesis using h assms l absent[of kind] 3 by (simp add: group_done_def g_def)
    next
      case (Some meta)
      have u: "group_done env now p st = (case group_status (pr_started st) now (pe_iso env now) p g meta s of
                   Inl e \<Rightarrow> (Some e, st) | Inr s1 \<Rightarrow> (None, save_status env s1 st))"
        using l Some by (simp add: group_done_def g_def Let_def)
      show ?thesis
        using group_follows[OF g_def[symmetric] Some, of "pr_started st" now "pe_iso env now"] u h 3 assms save_offline[OF assms(1), of env]
        by (auto split: sum.splits)
    qed
  next
    case 4
    have h: "handle_event env now kind p st = snd (all_done env now p st)"
      using 4 by (simp add: handle_event_def event_kinds)
    define st1 where "st1 = st\<lparr>pr_finalizing := True\<rparr>"
    have st1: "\<not> connected st1" "pr_status st1 = Some s" using assms by (auto simp: st1_def connected_def)
    have u: "all_done env now p st = (case final_status (pr_started st1) now (pe_iso env now) (text_or (pe_text env) p ''overall_status'' ''SUCCESS'') p s of
              Inl e \<Rightarrow> (Some e, st1\<lparr>pr_finalizing := False\<rparr>)
            | Inr s1 \<Rightarrow> (None, (save_status env s1 st1)\<lparr>pr_started := None, pr_finalizing := False\<rparr>))"
    proof -
      have "load_status env now st1 = (s, st1)" using load_offline[OF st1(1), of env now] st1(2) by simp
      then show ?thesis unfolding all_done_def st1_def[symmetric] Let_def using assms(2) by simp
    qed
    show ?thesis
      using final_follows[of "pe_text env" p s "pr_started st1" now "pe_iso env now"] u h 4 st1 save_offline[OF st1(1), of env]
      by (auto simp: connected_def split: sum.splits)
  next
    case 5
    have h: "handle_event env now kind p st = snd (record_symbol_result p st)"
      using 5 by (simp add: handle_event_def event_kinds)
    have "pr_status (snd (record_symbol_result p st)) = pr_status st \<and> pr_cache (snd (record_symbol_result p st)) = pr_cache st
       \<and> pr_finalizing (snd (record_symbol_result p st)) = pr_finalizing st"
      by (simp add: record_symbol_result_def split: option.split)
    then show ?thesis using h 5 assms idle by (auto simp: connected_def event_kinds)
  qed
qed

definition handle_all :: "('b, 'r) process_env \<Rightarrow> (pytime \<times> string \<times> payload) list \<Rightarrow> 'r process \<Rightarrow> 'r process" where
  "handle_all env es st = fold (\<lambda>(now, kind, p). handle_event env now kind p) es st"

lemma handle_all_follows:
  assumes "\<not> connected st" "\<not> pr_finalizing st" "pr_status st = Some s"
  shows "\<exists>s'. pr_status (handle_all env es st) = Some s'
    \<and> (\<forall>g. dict_get (js_groups s') g = map_option (fold (meta_step (pe_text env) g) (map snd es)) (dict_get (js_groups s) g))
    \<and> js_overall s' = fold (overall_step (pe_text env)) (map snd es) (js_overall s)
    \<and> (totals_agree s \<longrightarrow> event_completed \<notin> (fst \<circ> snd) ` set es \<longrightarrow> totals_agree s')
    \<and> \<not> connected (handle_all env es st)"
  using assms
proof (induction es arbitrary: st s)
  case Nil
  then show ?case by (simp add: handle_all_def option.map_ident)
next
  case (Cons e es)
  obtain now kind p where e: "e = (now, kind, p)" by (cases e)
  obtain s1 where 1: "pr_status (handle_event env now kind p st) = Some s1" "follows (pe_text env) (kind, p) s s1"
    "\<not> connected (handle_event env now kind p st)" "\<not> pr_finalizing (handle_event env now kind p st)"
    using handle_follows[OF Cons.prems] by blast
  show ?case
    using Cons.IH[OF 1(3,4,1)] 1(2) e
    by (simp add: handle_all_def follows_def option.map_comp comp_def del: fold_simps) (auto simp: comp_def)
qed

text \<open>Each group of the dashboard follows its own events: without Redis, after a reset and any sequence of
  worker events, in any order, repeated or malformed, the counters and the state of a group are what its own progress and
  completion events and the final one leave, one after the other, starting from nothing; the overall state is
  \<open>RUNNING\<close> until a final event names another; no other group appears; and until a final event arrives the totals
  are the sums over the groups.\<close>

theorem groups_follow_own_events:
  assumes "\<not> connected st0" "\<not> pr_finalizing st0"
    and "st = handle_all env es (snd (reset_job env start st0))" "s = fst (load_status env now st)"
  shows "(\<forall>g. dict_get (js_groups s) g =
      (if g \<in> {''A'', ''B'', ''C''} then Some (fold (meta_step (pe_text env) g) (map snd es) zero_meta) else None))
    \<and> js_overall s = fold (overall_step (pe_text env)) (map snd es) ''RUNNING''
    \<and> (event_completed \<notin> (fst \<circ> snd) ` set es \<longrightarrow> totals_agree s)"
proof -
  define fresh where "fresh = (default_status (pe_iso env start))\<lparr>js_overall := ''RUNNING'', js_group := Some ''A''\<rparr>"
  define st1 where "st1 = save_status env fresh (st0\<lparr>pr_started := Some start\<rparr>)"
  have off: "\<not> connected (st0\<lparr>pr_started := Some start\<rparr>)" using assms(1) by (simp add: connected_def)
  have st1: "\<not> connected st1" "\<not> pr_finalizing st1" "pr_status st1 = Some fresh"
    using save_offline[OF off, of env] assms(2) off by (auto simp: st1_def)
  have "st = handle_all env es st1" using assms(3) by (simp add: reset_job_def st1_def fresh_def Let_def)
  then obtain s' where s': "pr_status st = Some s'" "\<not> connected st"
    "\<forall>g. dict_get (js_groups s') g = map_option (fold (meta_step (pe_text env) g) (map snd es)) (dict_get (js_groups fresh) g)"
    "js_overall s' = fold (overall_step (pe_text env)) (map snd es) (js_overall fresh)"
    "totals_agree fresh \<longrightarrow> event_completed \<notin> (fst \<circ> snd) ` set es \<longrightarrow> totals_agree s'"
    using handle_all_follows[OF st1] by blast
  have "s = s'" using s'(1,2) assms(4) by (simp add: load_offline)
  then show ?thesis using s'(3-5) by (simp add: fresh_def default_status_def zero_meta_def totals_agree_def)
qed

definition offline_env :: "(string, unit) process_env" where
  "offline_env =
     \<lparr>pe_redis =
        \<lparr>rv_connect = (\<lambda>r. (False, r)), rv_ping = (\<lambda>r. (False, r)), rv_get = (\<lambda>k r. (Inl RuntimeError, r)),
         rv_getdel = (\<lambda>k r. (Inl RuntimeError, r)), rv_setex = (\<lambda>k t b r. (Some RuntimeError, r)),
         rv_set = (\<lambda>k b r. (Some RuntimeError, r)), rv_set_nx = (\<lambda>k t r. (Inl RuntimeError, r)),
         rv_delete = (\<lambda>ks r. (Some RuntimeError, r)), rv_close = (\<lambda>r. (None, r)), rv_sleep = (\<lambda>r. r),
         rv_dumps = (\<lambda>v. Some []), rv_loads = (\<lambda>b. None), rv_text = (\<lambda>b. ForeignValue)\<rparr>,
      pe_publish = (\<lambda>ev r. (None, r)), pe_sends = (\<lambda>c ev. c \<noteq> 9), pe_uuid = (\<lambda>n. CHR ''u'' # replicate n CHR ''i''),
      pe_iso = (\<lambda>t. ''now''), pe_stamp = (\<lambda>t. ''now''), pe_text = (\<lambda>v. ''?'')\<rparr>"

definition demo_progress :: "string \<Rightarrow> int \<Rightarrow> int \<Rightarrow> payload" where
  "demo_progress g c t = [(''group'', PStr g), (''completed'', PInt c), (''total'', PInt t)]"

definition demo_group :: "string \<Rightarrow> int \<Rightarrow> int \<Rightarrow> payload" where
  "demo_group g t f = [(''group'', PStr g), (''total_processed'', PInt t), (''failed'', PInt f)]"

definition demo_final :: "int \<Rightarrow> int \<Rightarrow> int \<Rightarrow> payload" where
  "demo_final t s f = [(''total'', PInt t), (''success'', PInt s), (''failed'', PInt f)]"

lemma offline_init: "\<not> connected (process_init ttl False r)" "\<not> pr_finalizing (process_init ttl False r)"
  by (simp_all add: connected_def process_init_def)

theorem groups_follow_own_events_witness:
  "dict_get (js_groups (fst (load_status offline_env 9
      (handle_all offline_env [(1, event_progress, demo_progress ''A'' 3 10), (2, event_progress, demo_progress ''B'' 1 4),
          (3, event_group_completed, demo_group ''A'' 10 1), (4, event_progress, demo_progress ''Z'' 1 1)]
        (snd (reset_job offline_env 0 (process_init 300 False ()))))))) ''A''
     = Some \<lparr>gm_total = 10, gm_completed = 9, gm_failed = 1, gm_status = ''SUCCESS''\<rparr>"
proof -
  have "fold (meta_step (pe_text offline_env) ''A'') [(event_progress, demo_progress ''A'' 3 10), (event_progress, demo_progress ''B'' 1 4),
      (event_group_completed, demo_group ''A'' 10 1), (event_progress, demo_progress ''Z'' 1 1)] zero_meta
      = \<lparr>gm_total = 10, gm_completed = 9, gm_failed = 1, gm_status = ''SUCCESS''\<rparr>"
    by (simp add: meta_step_def demo_progress_def demo_group_def text_or_def int_or_def event_kinds zero_meta_def)
  then show ?thesis
    using groups_follow_own_events[of "process_init 300 False ()" _ offline_env
        "[(1, event_progress, demo_progress ''A'' 3 10), (2, event_progress, demo_progress ''B'' 1 4),
          (3, event_group_completed, demo_group ''A'' 10 1), (4, event_progress, demo_progress ''Z'' 1 1)]" 0 _ 9,
        OF offline_init refl refl]
    by simp
qed

text \<open>Of two runs of events that differ in their order only between groups the counters agree; a repeated event counts once.\<close>

lemma events_idempotent: "meta_step text g e (meta_step text g e m) = meta_step text g e m"
proof -
  obtain kind p where e: "e = (kind, p)" by (cases e)
  have again: "int_or p k d = Inr t \<Longrightarrow> int_or p k t = Inr t" "int_or p k d = Inl x \<Longrightarrow> int_or p k d' = Inl x" for k d d' t x
    by (auto simp: int_or_def split: option.splits if_splits)
  have "finish_group (finish_group m) = finish_group m" by (simp add: finish_group_def)
  then show ?thesis
    by (cases "int_or p ''total_processed'' (gm_total m)")
       (auto simp: e meta_step_def dest: again split: sum.splits)
qed

subsection \<open>What the dashboards see\<close>

definition snapshots :: "nat \<Rightarrow> 'r process \<Rightarrow> job_status list" where
  "snapshots c st = concat (map (\<lambda>(d, ev). if d = c then (case ev_payload ev of Snapshot s \<Rightarrow> [s] | _ \<Rightarrow> []) else []) (pr_frames st))"

definition takes :: "('b, 'r) process_env \<Rightarrow> nat \<Rightarrow> bool" where
  "takes env c \<longleftrightarrow> (\<forall>ev. pe_sends env c ev)"

definition offline_ok :: "('b, 'r) process_env \<Rightarrow> 'r process \<Rightarrow> bool" where
  "offline_ok env st \<longleftrightarrow> \<not> connected st \<and> \<not> pr_finalizing st \<and> pr_seen st \<subseteq> pe_uuid env ` {..<pr_uuids st}"

definition up_to_date :: "('b, 'r) process_env \<Rightarrow> 'r process \<Rightarrow> bool" where
  \<comment> \<open>every client that takes its frames saw the stored status last\<close>
  "up_to_date env st \<longleftrightarrow> (\<forall>c \<in> set (pr_clients st). takes env c \<longrightarrow>
     (\<forall>s. pr_status st = Some s \<longrightarrow> js_overall s \<noteq> [] \<longrightarrow> snapshots c st \<noteq> [] \<and> List.last (snapshots c st) = s))"

lemma evict_subset: "fst (evict_seen seen recent) \<subseteq> seen"
  by (induction seen recent rule: evict_seen.induct) auto

lemma deliver_fresh:
  assumes "inj (pe_uuid env)" "pr_seen st \<subseteq> pe_uuid env ` {..<pr_uuids st}" "ev_id ev = None" "deliver env ev st = (new, st')"
  shows "new \<and> pr_seen st' \<subseteq> pe_uuid env ` {..<pr_uuids st'} \<and> set (pr_clients st') \<subseteq> set (pr_clients st)
    \<and> (\<forall>c. takes env c \<longrightarrow> c \<in> set (pr_clients st) \<longrightarrow>
        (\<exists>n. snapshots c st' = snapshots c st @ (case ev_payload ev of Snapshot s \<Rightarrow> replicate (Suc n) s | _ \<Rightarrow> [])))"
proof -
  define i where "i = pe_uuid env (pr_uuids st)"
  define st1 where "st1 = st\<lparr>pr_uuids := Suc (pr_uuids st)\<rparr>"
  obtain b st2 where m: "mark_seen i st1 = (b, st2)" by (meson surj_pair)
  have "i \<notin> pr_seen st" using assms(1,2) by (auto simp: i_def dest: injD)
  then have b: "b" using m by (auto simp: mark_seen_def st1_def split: if_splits prod.splits)
  have frame: "pr_clients st2 = pr_clients st" "pr_frames st2 = pr_frames st" "pr_uuids st2 = Suc (pr_uuids st)"
    "pr_seen st2 \<subseteq> insert i (pr_seen st)"
    using m evict_subset[of "pr_seen st" "pr_recent st"]
    by (auto simp: mark_seen_def st1_def split: if_splits prod.splits)
  define ev1 where "ev1 = ev\<lparr>ev_id := Some i\<rparr>"
  have st': "st' = st2\<lparr>pr_frames := pr_frames st @ map (\<lambda>c. (c, ev1)) (filter (\<lambda>c. pe_sends env c ev1) (pr_clients st)),
      pr_clients := filter (\<lambda>c. c \<notin> set (filter (\<lambda>c. \<not> pe_sends env c ev1) (pr_clients st))) (pr_clients st)\<rparr>" and new: "new"
    using assms(3,4) m b frame by (auto simp: deliver_def fresh_id_def i_def st1_def ev1_def Let_def comp_def)
  have sub: "pr_seen st' \<subseteq> pe_uuid env ` {..<pr_uuids st'}"
    using frame assms(2) by (auto simp: st' i_def lessThan_Suc)
  have snap: "\<exists>n. concat (map (\<lambda>(d, ev). if d = c then (case ev_payload ev of Snapshot s \<Rightarrow> [s] | _ \<Rightarrow> []) else [])
        (map (\<lambda>c. (c, ev1)) (filter (\<lambda>c. pe_sends env c ev1) cs)))
      = (case ev_payload ev of Snapshot s \<Rightarrow> replicate (Suc n) s | _ \<Rightarrow> [])" if "takes env c" "c \<in> set cs" for c cs
    using that(2)
  proof (induction cs)
    case (Cons d cs)
    have one: "\<exists>n. xs = (case ev_payload ev of Snapshot s \<Rightarrow> replicate (Suc n) s | _ \<Rightarrow> []) \<Longrightarrow>
        \<exists>n. (case ev_payload ev of Snapshot s \<Rightarrow> [s] | _ \<Rightarrow> []) @ xs = (case ev_payload ev of Snapshot s \<Rightarrow> replicate (Suc n) s | _ \<Rightarrow> [])" for xs
      by (auto split: event_payload.split) (metis replicate_Suc)
    have none: "c \<notin> set cs \<Longrightarrow> concat (map (\<lambda>(d, ev). if d = c then (case ev_payload ev of Snapshot s \<Rightarrow> [s] | _ \<Rightarrow> []) else [])
        (map (\<lambda>c. (c, ev1)) (filter (\<lambda>c. pe_sends env c ev1) cs))) = []"
      by auto
    show ?case
    proof (cases "c \<in> set cs")
      case True
      then show ?thesis using Cons.IH one that(1) by (auto simp: ev1_def takes_def)
    next
      case False
      then show ?thesis using Cons.prems none that(1)
        by (auto simp: ev1_def takes_def split: event_payload.split intro: exI[of _ 0])
    qed
  qed simp
  have "\<exists>n. snapshots c st' = snapshots c st @ (case ev_payload ev of Snapshot s \<Rightarrow> replicate (Suc n) s | _ \<Rightarrow> [])"
    if "takes env c" "c \<in> set (pr_clients st)" for c
    using snap[OF that] by (simp add: snapshots_def st')
  then show ?thesis using new sub by (auto simp: st')
qed

lemma save_up_to_date:
  assumes "inj (pe_uuid env)" "\<not> connected st" "pr_seen st \<subseteq> pe_uuid env ` {..<pr_uuids st}"
  shows "pr_seen (save_status env s st) \<subseteq> pe_uuid env ` {..<pr_uuids (save_status env s st)}"
    and "up_to_date env (save_status env s st)"
proof -
  define ev where "ev = \<lparr>ev_kind = Some event_status_snapshot, ev_payload = Snapshot s, ev_id = None\<rparr>"
  define st1 where "st1 = st\<lparr>pr_status := Some s\<rparr>"
  obtain new st' where d: "deliver env ev st1 = (new, st')" by (meson surj_pair)
  have save: "save_status env s st = st'"
    using assms(2) d by (simp add: save_status_def broadcast_snapshot_def publish_def connected_def ev_def st1_def)
  have f: "pr_seen st1 \<subseteq> pe_uuid env ` {..<pr_uuids st1}" "ev_id ev = None" using assms(3) by (simp_all add: st1_def ev_def)
  note fr = deliver_fresh[OF assms(1) f d]
  have p: "pr_status st' = Some s" using deliver_job[of st1 env ev] d by (simp add: same_job_def st1_def)
  show "pr_seen (save_status env s st) \<subseteq> pe_uuid env ` {..<pr_uuids (save_status env s st)}" using fr save by simp
  have "snapshots c st' \<noteq> [] \<and> List.last (snapshots c st') = s" if c: "c \<in> set (pr_clients st')" "takes env c" for c
  proof -
    obtain n where "snapshots c st' = snapshots c st1 @ replicate (Suc n) s" using fr c by (auto simp: ev_def simp del: replicate_Suc)
    then show ?thesis by (simp del: replicate_Suc add: last_append) 
  qed
  then show "up_to_date env (save_status env s st)" using save p by (simp add: up_to_date_def)
qed

datatype ws_op =
    RaiseEvent pytime string payload
  | ClientConnects pytime nat
  | ClientLeaves nat
  | StartRun pytime bool

definition ws_step :: "('b, 'r) process_env \<Rightarrow> ws_op \<Rightarrow> 'r process \<Rightarrow> 'r process" where
  "ws_step env x st =
     (case x of
        RaiseEvent now kind p \<Rightarrow> broadcast_raw env now kind p st
      | ClientConnects now c \<Rightarrow> ws_connect env now c st
      | ClientLeaves c \<Rightarrow> ws_disconnect c st
      | StartRun now ok \<Rightarrow> snd (start_precompute env now (\<lambda>st. (ok, st)) st))"

definition live_inv :: "('b, 'r) process_env \<Rightarrow> 'r process \<Rightarrow> bool" where
  "live_inv env st \<longleftrightarrow> \<not> connected st \<and> pr_seen st \<subseteq> pe_uuid env ` {..<pr_uuids st} \<and> up_to_date env st"

lemma deliver_other:
  assumes "inj (pe_uuid env)" "live_inv env st" "ev_id ev = None" "\<forall>s. ev_payload ev \<noteq> Snapshot s" "deliver env ev st = (new, st')"
  shows "live_inv env st'"
proof -
  have f: "pr_seen st \<subseteq> pe_uuid env ` {..<pr_uuids st}" using assms(2) by (simp add: live_inv_def)
  have e: "(case ev_payload ev of Snapshot s \<Rightarrow> replicate (Suc n) s | _ \<Rightarrow> []) = []" for n
    using assms(4) by (cases "ev_payload ev") auto
  have s: "snapshots c st' = snapshots c st" if "takes env c" "c \<in> set (pr_clients st')" for c
    using deliver_fresh[OF assms(1) f assms(3,5)] that unfolding e append_Nil2 by blast
  have sub: "set (pr_clients st') \<subseteq> set (pr_clients st)" "pr_seen st' \<subseteq> pe_uuid env ` {..<pr_uuids st'}"
    using deliver_fresh[OF assms(1) f assms(3,5)] by auto
  have j: "pr_status st' = pr_status st" "connected st' = connected st" using deliver_offline[of env ev st] assms(5) by simp_all
  show ?thesis
    using assms(2) s sub j unfolding live_inv_def up_to_date_def by (metis subsetD)
qed

lemma live_inv_frame:
  "live_inv env st \<Longrightarrow> pr_status st' = pr_status st \<Longrightarrow> pr_cache st' = pr_cache st \<Longrightarrow> pr_seen st' = pr_seen st
   \<Longrightarrow> pr_uuids st' = pr_uuids st \<Longrightarrow> pr_clients st' = pr_clients st \<Longrightarrow> pr_frames st' = pr_frames st \<Longrightarrow> live_inv env st'"
  by (simp add: live_inv_def up_to_date_def connected_def snapshots_def)

lemma save_live:
  assumes "inj (pe_uuid env)" "live_inv env st" "pr_cache st1 = pr_cache st" "pr_seen st1 = pr_seen st" "pr_uuids st1 = pr_uuids st"
  shows "live_inv env (save_status env s st1)"
proof -
  have c: "\<not> connected st1" "pr_seen st1 \<subseteq> pe_uuid env ` {..<pr_uuids st1}"
    using assms(2-5) by (auto simp: live_inv_def connected_def)
  show ?thesis using save_up_to_date[OF assms(1) c] save_offline(3)[OF c(1)] c(1) by (simp add: live_inv_def)
qed

lemma update_live:
  assumes "inj (pe_uuid env)" "live_inv env st"
  shows "live_inv env (snd (update_status env now p st))"
proof -
  have off: "\<not> connected st" using assms(2) by (simp add: live_inv_def)
  obtain s where l: "load_status env now st = (s, st)" using load_offline[OF off] by blast
  define st2 where "st2 = (if pr_started st = None \<and> js_overall s = ''RUNNING'' then st\<lparr>pr_started := Some now\<rparr> else st)"
  have f: "pr_cache st2 = pr_cache st" "pr_seen st2 = pr_seen st" "pr_uuids st2 = pr_uuids st" "live_inv env st2"
    using assms(2) by (auto simp: st2_def intro: live_inv_frame)
  have "snd (update_status env now p st) \<in> {st, st2} \<or> (\<exists>s1. snd (update_status env now p st) = save_status env s1 st2)"
    unfolding update_status_def l Let_def prod.case st2_def[symmetric]
    by (auto split: option.split sum.split)
  then show ?thesis using save_live[OF assms f(1-3)] f(4) assms(2) by auto
qed

lemma group_live:
  assumes "inj (pe_uuid env)" "live_inv env st"
  shows "live_inv env (snd (group_done env now p st))"
proof -
  have off: "\<not> connected st" using assms(2) by (simp add: live_inv_def)
  obtain s where l: "load_status env now st = (s, st)" using load_offline[OF off] by blast
  have "snd (group_done env now p st) = st \<or> (\<exists>s1. snd (group_done env now p st) = save_status env s1 st)"
    unfolding group_done_def l Let_def prod.case by (auto split: option.split sum.split)
  then show ?thesis using save_live[OF assms refl refl refl] assms(2) by auto
qed

lemma all_done_live:
  assumes "inj (pe_uuid env)" "live_inv env st"
  shows "live_inv env (snd (all_done env now p st))"
proof -
  define st1 where "st1 = st\<lparr>pr_finalizing := True\<rparr>"
  have "\<not> connected st1" using assms(2) by (simp add: live_inv_def st1_def connected_def)
  then obtain s where l: "load_status env now st1 = (s, st1)" using load_offline by blast
  have f: "pr_cache st1 = pr_cache st" "pr_seen st1 = pr_seen st" "pr_uuids st1 = pr_uuids st" by (simp_all add: st1_def)
  have "snd (all_done env now p st) \<in> {st, st1\<lparr>pr_finalizing := False\<rparr>} \<or>
      (\<exists>s1. snd (all_done env now p st) = (save_status env s1 st1)\<lparr>pr_started := None, pr_finalizing := False\<rparr>)"
    unfolding all_done_def st1_def[symmetric] l Let_def prod.case by (auto split: sum.split)
  moreover have "live_inv env (st1\<lparr>pr_finalizing := False\<rparr>)" by (rule live_inv_frame[OF assms(2)]) (simp_all add: st1_def)
  moreover have "live_inv env ((save_status env s1 st1)\<lparr>pr_started := None, pr_finalizing := False\<rparr>)" for s1
    by (rule live_inv_frame[OF save_live[OF assms f]]) simp_all
  ultimately show ?thesis using assms(2) by auto
qed

lemma handle_live:
  assumes "inj (pe_uuid env)" "live_inv env st"
  shows "live_inv env (handle_event env now kind p st)"
proof -
  have "live_inv env (snd (record_symbol_result p st))"
    using assms(2) by (auto simp: record_symbol_result_def intro: live_inv_frame split: option.split)
  then show ?thesis
    using update_live[OF assms] group_live[OF assms] all_done_live[OF assms] assms(2) by (simp add: handle_event_def)
qed

lemma raise_live:
  assumes "inj (pe_uuid env)" "live_inv env st"
  shows "live_inv env (broadcast_raw env now kind p st)"
proof -
  define ev where "ev = \<lparr>ev_kind = Some kind, ev_payload = Fields p, ev_id = None\<rparr>"
  obtain new st1 where d: "deliver env ev st = (new, st1)" by (meson surj_pair)
  have "live_inv env st1" by (rule deliver_other[OF assms _ _ d]) (simp_all add: ev_def)
  then have "live_inv env (broadcast env now ev st)"
    using handle_live[OF assms(1)] d by (auto simp: broadcast_def ev_def)
  then show ?thesis using assms(2) by (simp add: broadcast_raw_def publish_def live_inv_def ev_def)
qed

lemma connect_live:
  assumes "live_inv env st"
  shows "live_inv env (ws_connect env now c st)"
proof -
  define st1 where "st1 = st\<lparr>pr_clients := List.insert c (pr_clients st)\<rparr>"
  define s where "s = (case pr_status st of Some s \<Rightarrow> s | None \<Rightarrow> default_status (pe_iso env now))"
  have l: "load_status env now st1 = (s, st1)"
    using assms by (simp add: load_offline live_inv_def connected_def st1_def s_def)
  define ev where "ev = \<lparr>ev_kind = Some event_status_snapshot, ev_payload = Snapshot s, ev_id = None\<rparr>"
  define st2 where "st2 = st1\<lparr>pr_frames := pr_frames st1 @ [(c, ev)]\<rparr>"
  have w: "ws_connect env now c st = (if js_overall s \<noteq> [] \<and> pe_sends env c ev then st2 else st1)"
    unfolding ws_connect_def st1_def[symmetric] l Let_def prod.case ev_def[symmetric] st2_def[symmetric] ..
  have old: "snapshots d st1 = snapshots d st" "snapshots d st2 = snapshots d st @ (if d = c then [s] else [])" for d
    by (simp_all add: snapshots_def st1_def st2_def ev_def)
  have "up_to_date env (ws_connect env now c st)"
    unfolding up_to_date_def
  proof (intro ballI allI impI)
    fix d s'
    assume d: "d \<in> set (pr_clients (ws_connect env now c st))" "takes env d"
      and s': "pr_status (ws_connect env now c st) = Some s'" "js_overall s' \<noteq> []"
    have p: "pr_status st = Some s'" using s'(1) by (auto simp: w st1_def st2_def split: if_splits)
    then have "s = s'" by (simp add: s_def)
    moreover have "d \<in> set (pr_clients st) \<or> d = c" using d(1) by (auto simp: w st1_def st2_def split: if_splits)
    ultimately show "snapshots d (ws_connect env now c st) \<noteq> [] \<and> List.last (snapshots d (ws_connect env now c st)) = s'"
      using assms d(2) p s'(2) old[of d] by (auto simp: w live_inv_def up_to_date_def takes_def)
  qed
  then show ?thesis using assms by (auto simp: w live_inv_def st1_def st2_def connected_def)
qed

lemma ws_step_live:
  assumes "inj (pe_uuid env)" "live_inv env st"
  shows "live_inv env (ws_step env x st)"
proof (cases x)
  case (RaiseEvent now kind p)
  then show ?thesis using raise_live[OF assms] by (simp add: ws_step_def)
next
  case (ClientConnects now c)
  then show ?thesis using connect_live[OF assms(2)] by (simp add: ws_step_def)
next
  case (ClientLeaves c)
  then show ?thesis
    using assms(2) by (auto simp: ws_step_def ws_disconnect_def live_inv_def up_to_date_def connected_def snapshots_def)
next
  case (StartRun now ok)
  have off: "\<not> connected st" using assms(2) by (simp add: live_inv_def)
  obtain r st1 where a: "start_allowed env now st = (r, st1)" by (meson surj_pair)
  have "st1 = st \<or> st1 = st\<lparr>pr_lock_until := now + lock_ttl\<rparr>"
    using a off load_offline[OF off, of env now] by (auto simp: start_allowed_def Let_def split: if_splits)
  then have st1: "live_inv env st1" using assms(2) by (auto intro: live_inv_frame)
  show ?thesis
  proof (cases r)
    case (Some s)
    then show ?thesis using StartRun a st1 by (simp add: ws_step_def start_precompute_def)
  next
    case None
    define fresh where "fresh = (default_status (pe_iso env now))\<lparr>js_overall := ''RUNNING'', js_group := Some ''A''\<rparr>"
    define st2 where "st2 = save_status env fresh (st1\<lparr>pr_started := Some now\<rparr>)"
    have st2: "live_inv env st2" unfolding st2_def by (rule save_live[OF assms(1) st1]) simp_all
    have l: "snd (load_status env now st2) = st2"
      using load_offline[of st2 env now] st2 by (simp add: live_inv_def)
    have "snd (start_precompute env now (\<lambda>st. (ok, st)) st) = broadcast_raw env now ''PRECOMPUTATION_STARTED''
         [(''timestamp'', PStr (pe_iso env now)), (''dispatched'', PBool ok)] st2"
      using a None l by (simp add: start_precompute_def reset_job_def fresh_def[symmetric] st2_def[symmetric] Let_def case_prod_unfold)
    then show ?thesis using StartRun raise_live[OF assms(1) st2] by (simp add: ws_step_def)
  qed
qed

text \<open>No dashboard lags behind: without Redis, when fresh identifiers differ, after any events raised in the process,
  starts, connects and disconnects, every connected client whose connection takes its frames has received the stored status,
  and received no other one after it, however many events repeat or are ignored.\<close>

theorem dashboards_are_current:
  assumes "inj (pe_uuid env)" "st = fold (ws_step env) xs (process_init ttl False r)"
    and "c \<in> set (pr_clients st)" "takes env c" "pr_status st = Some s" "js_overall s \<noteq> []"
  shows "snapshots c st \<noteq> [] \<and> List.last (snapshots c st) = s"
proof -
  have "live_inv env (process_init ttl False r)"
    by (simp add: live_inv_def process_init_def connected_def up_to_date_def)
  moreover have "live_inv env (fold (ws_step env) xs st0)" if "live_inv env st0" for st0
    using that by (induction xs arbitrary: st0) (auto intro: ws_step_live[OF assms(1)])
  ultimately show ?thesis using assms(2-6) by (auto simp: live_inv_def up_to_date_def)
qed

definition demo_ops :: "ws_op list" where
  "demo_ops = [ClientConnects 0 1, StartRun 1 True, ClientConnects 2 9, RaiseEvent 3 event_progress (demo_progress ''A'' 3 10),
     RaiseEvent 4 event_progress (demo_progress ''Z'' 1 1), RaiseEvent 5 event_group_completed (demo_group ''A'' 10 1)]"

lemma demo_ops_run:
  "pr_clients (fold (ws_step offline_env) demo_ops (process_init 300 False ())) = [1]
   \<and> map_option js_completed (pr_status (fold (ws_step offline_env) demo_ops (process_init 300 False ()))) = Some 9
   \<and> map_option js_overall (pr_status (fold (ws_step offline_env) demo_ops (process_init 300 False ()))) = Some ''RUNNING''"
  by code_simp

theorem dashboards_are_current_witness:
  "\<exists>s. pr_status (fold (ws_step offline_env) demo_ops (process_init 300 False ())) = Some s \<and> js_completed s = 9
     \<and> List.last (snapshots 1 (fold (ws_step offline_env) demo_ops (process_init 300 False ()))) = s"
proof -
  have i: "inj (pe_uuid offline_env)" by (rule injI) (auto simp: offline_env_def dest: arg_cong[where f = length])
  obtain s where s: "pr_status (fold (ws_step offline_env) demo_ops (process_init 300 False ())) = Some s"
    "js_completed s = 9" "js_overall s = ''RUNNING''"
    using demo_ops_run by auto
  have "1 \<in> set (pr_clients (fold (ws_step offline_env) demo_ops (process_init 300 False ())))" using demo_ops_run by simp
  then show ?thesis
    using dashboards_are_current[OF i refl _ _ s(1)] s by (auto simp: takes_def offline_env_def)
qed

definition demo_event :: "string \<Rightarrow> ws_event" where
  "demo_event i = \<lparr>ev_kind = Some event_progress, ev_payload = Fields (demo_progress ''A'' 3 10), ev_id = Some i\<rparr>"

definition demo_before :: "((string, unit) process_env \<times> unit hub_op) list" where
  "demo_before = [(offline_env, ClientJoins 0 1), (offline_env, ClientJoins 0 9), (offline_env, RunStarts 1 True [])]"

definition demo_later :: "((string, unit) process_env \<times> unit hub_op) list" where
  "demo_later = [(offline_env, ClientJoins 3 2), (offline_env, ChannelMessage 4 (demo_event ''e2'')),
     (offline_env, EventRaised 5 event_group_completed (demo_group ''A'' 10 1))]"

lemma demo_first: "fst (deliver offline_env (demo_event ''e1'') (hub_run demo_before (process_init 300 False ())))"
  by code_simp

lemma demo_clients:
  "pr_clients (hub_run demo_later (broadcast offline_env 2 (demo_event ''e1'') (hub_run demo_before (process_init 300 False ())))) = [2, 1]"
  by code_simp

theorem redelivery_ignored_witness:
  "let st = hub_run demo_later (broadcast offline_env 2 (demo_event ''e1'') (hub_run demo_before (process_init 300 False ())))
   in pr_clients st = [2, 1] \<and> broadcast offline_env 6 (demo_event ''e1'') st = st"
  using redelivery_ignored[OF refl _ _ demo_first refl, of "''e1''" demo_later "demo_event ''e1''" offline_env 6 2] demo_clients
  by (simp add: Let_def demo_event_def demo_later_def)

subsection \<open>Starting a run, and what can go wrong\<close>

text \<open>Without Redis a start is refused exactly while a run is active and the last accepted start is less than five minutes
  old; a refused start changes nothing, and the answer is an ordinary one, not the 409 of the documentation.\<close>

lemma start_debounced:
  assumes "\<not> connected st"
  shows "(\<exists>s. fst (start_precompute env now dispatch st) = AlreadyRunning s) \<longleftrightarrow> now < pr_lock_until st \<and> is_job_active None st"
    and "fst (start_precompute env now dispatch st) = AlreadyRunning s \<Longrightarrow> snd (start_precompute env now dispatch st) = st"
  using load_offline[OF assms, of env now] assms
  by (auto simp: start_precompute_def start_allowed_def is_job_active_def default_status_def Let_def
      split: option.splits if_splits prod.splits)

text \<open>A progress event that arrives after the group's completion opens the group again with the older count.\<close>

lemma late_progress_reopens:
  "fold (meta_step text ''A'') [(event_group_completed, demo_group ''A'' 10 1), (event_progress, demo_progress ''A'' 3 10)] zero_meta
     = \<lparr>gm_total = 10, gm_completed = 3, gm_failed = 1, gm_status = ''RUNNING''\<rparr>"
  by (simp add: meta_step_def demo_progress_def demo_group_def text_or_def int_or_def event_kinds zero_meta_def)

text \<open>So does one that arrives after the final event, while the run stays finished.\<close>

lemma progress_after_final:
  "let es = [(event_progress, demo_progress ''A'' 9 10), (event_completed, demo_final 10 10 0), (event_progress, demo_progress ''A'' 9 10)]
   in fold (overall_step text) es ''RUNNING'' = ''SUCCESS'' \<and> gm_status (fold (meta_step text ''A'') es zero_meta) = ''RUNNING''"
  by (simp add: meta_step_def overall_step_def demo_progress_def demo_final_def text_or_def int_or_def event_kinds zero_meta_def
      finish_group_def)

text \<open>With Redis the read and the write of a handler are apart: of two handlers that read the same status, the one that
  writes last puts the other's group back to what both read.\<close>

lemma concurrent_update_lost:
  assumes "progress_status started now stamp p g meta s = Inr s2" "h \<noteq> g"
  shows "pr_status (save_status env s2 st) = Some s2 \<and> dict_get (js_groups s2) h = dict_get (js_groups s) h"
proof -
  have "pr_status (save_status env s2 st) = Some s2"
    using snapshot_job[of _ env s2] by (auto simp: save_status_def same_job_def Let_def split: prod.split)
  moreover have "dict_get (js_groups s2) h = dict_get (js_groups s) h"
    using assms by (auto simp: progress_status_def Let_def split: sum.splits)
  ultimately show ?thesis by simp
qed

text \<open>When Redis refuses the write but still answers reads, the event is lost although the memory has it: the next handler
  starts from what the server kept.\<close>

lemma refused_write_lost:
  assumes "connected st" "\<And>k t b r. rv_setex (pe_redis env) k t b r = (Some RuntimeError, r)"
    and "\<And>ev r. pe_publish env ev r = (Some RuntimeError, r)"
    and "fst (cs_get (pe_redis env) redis_status_key (pr_cache st, pr_server st)) = Inr (Some (StatusValue old))"
  shows "fst (load_status env now (save_status env s st)) = old"
proof -
  obtain e c r where w: "cs_set (pe_redis env) redis_status_key (Some (StatusValue s)) (Some 3600) (pr_cache st, pr_server st) = (e, c, r)"
    by (metis prod_cases3)
  have cr: "c = pr_cache st" "r = pr_server st" using w assms(1,2) by (auto simp: cs_set_def connected_def split: option.splits if_splits)
  define st2 where "st2 = st\<lparr>pr_status := Some s\<rparr>"
  have st2: "st2\<lparr>pr_cache := c, pr_server := r\<rparr> = st2" using cr by (simp add: st2_def)
  have save: "save_status env s st = broadcast_snapshot env s st2"
    using w assms(1) st2 by (simp add: save_status_def st2_def[symmetric] connected_def Let_def) (simp add: st2_def)
  have srv: "pr_server (broadcast_snapshot env s st2) = pr_server st"
    using assms(3)
    by (auto simp: broadcast_snapshot_def publish_def deliver_def mark_seen_def fresh_id_def st2_def Let_def split: option.split prod.split)
  have "pr_cache (broadcast_snapshot env s st2) = pr_cache st" using snapshot_job[of st2 env s] by (simp add: same_job_def st2_def)
  moreover obtain c1 r1 where "cs_get (pe_redis env) redis_status_key (pr_cache st, pr_server st) = (Inr (Some (StatusValue old)), c1, r1)"
    using assms(4) by (cases "cs_get (pe_redis env) redis_status_key (pr_cache st, pr_server st)") auto
  ultimately show ?thesis
    using assms(1) save srv by (simp add: load_status_def connected_def Let_def)
qed

end
