(* ===== verification/Queue_Model.thy ===== *)
theory Queue_Model
  imports Order_Manager
begin

text \<open>
  The microstructure models of a replay: the simulated order queues
  (\<open>backtesting/microstructure/queue_state.py\<close>), the cancellation, arrival, impact, hidden liquidity and
  latency models beside it, and the engine that drives them from market events
  (\<open>microstructure_engine.py\<close>).

  Random draws and fresh identifiers come from streams of which the engine takes the next element; the
  real power of the impact law and the Poisson sampler are arguments. Of an event the engine reads the
  instrument and the numbers of the payload, as \<open>tick\<close>, the code's defaults where one is missing. An order is in one
  queue, so the queue holds it by value. Fitting the impact law (numpy) is left out; the call auction is
  \<open>Auction_Engine\<close>.
\<close>

subsection \<open>Simulated orders and their queue\<close>

datatype sim_status = Active | Partial | Filled | Cancelled

record sim_order =
  so_id :: string
  so_side :: string
  so_price :: pyfloat
  so_quantity :: int
  so_remaining :: int
  so_ahead :: int
  so_status :: sim_status
  so_instrument :: string

definition SimulatedOrder :: "string \<Rightarrow> string \<Rightarrow> pyfloat \<Rightarrow> int \<Rightarrow> int \<Rightarrow> string \<Rightarrow> sim_order" where
  \<comment> \<open>with \<open>__post_init__\<close>\<close>
  "SimulatedOrder oid side p q rem inst =
     \<lparr>so_id = oid, so_side = side, so_price = p, so_quantity = q, so_remaining = (if rem = 0 then q else rem), so_ahead = 0,
      so_status = Active, so_instrument = inst\<rparr>"

definition fill_ratio :: "sim_order \<Rightarrow> pyfloat" where
  "fill_ratio ord = 1 - of_int (so_remaining ord) / of_int (max (so_quantity ord) 1)"

definition update_queue_position :: "int \<Rightarrow> int \<Rightarrow> sim_order \<Rightarrow> bool \<times> sim_order" where
  "update_queue_position trade cancel ord =
     (let ord1 = ord\<lparr>so_ahead := max 0 (so_ahead ord - (trade + cancel))\<rparr>
      in (so_ahead ord1 \<le> 0 \<and> so_remaining ord1 > 0, ord1))"

record sim_fill = fill_event +
  sf_slippage :: pyfloat

record sim_queue =
  sq_instrument :: string
  sq_bid_volume :: int
  sq_ask_volume :: int
  sq_bid_flow :: int
  sq_ask_flow :: int
  sq_cancel_bid :: pyfloat
  sq_cancel_ask :: pyfloat
  sq_prev_bid :: int
  sq_prev_ask :: int
  sq_bids :: "sim_order list"
  sq_asks :: "sim_order list"

definition QueueState :: "string \<Rightarrow> sim_queue" where
  "QueueState inst =
     \<lparr>sq_instrument = inst, sq_bid_volume = 0, sq_ask_volume = 0, sq_bid_flow = 0, sq_ask_flow = 0, sq_cancel_bid = 0,
      sq_cancel_ask = 0, sq_prev_bid = 0, sq_prev_ask = 0, sq_bids = [], sq_asks = []\<rparr>"

definition live_volume :: "sim_order list \<Rightarrow> int" where
  \<comment> \<open>\<open>total_bid_volume\<close> and \<open>total_ask_volume\<close>: what is \<open>Active\<close>\<close>
  "live_volume os = sum_list (map so_remaining (filter (\<lambda>ord. so_status ord = Active) os))"

definition add_order :: "sim_order \<Rightarrow> sim_queue \<Rightarrow> sim_queue" where
  "add_order ord q =
     (if so_side ord = ''buy''
      then q\<lparr>sq_bids := sq_bids q @ [ord\<lparr>so_ahead := live_volume (sq_bids q)\<rparr>], sq_bid_volume := sq_bid_volume q + so_remaining ord\<rparr>
      else q\<lparr>sq_asks := sq_asks q @ [ord\<lparr>so_ahead := live_volume (sq_asks q)\<rparr>], sq_ask_volume := sq_ask_volume q + so_remaining ord\<rparr>)"

definition fill_of :: "pyfloat \<Rightarrow> int \<Rightarrow> sim_order \<Rightarrow> sim_fill" where
  "fill_of p qty ord =
     \<lparr>fe_order = so_id ord, fe_instrument = so_instrument ord, fe_side = so_side ord, fe_quantity = qty, fe_price = p,
      fe_commission = compute_cost DEFAULT_IRAN_COSTS (so_side ord) p qty, sf_slippage = 0\<rparr>"

definition is_open :: "sim_order \<Rightarrow> bool" where
  "is_open ord \<longleftrightarrow> so_status ord \<in> {Active, Partial} \<and> so_remaining ord > 0"

definition reduce :: "int \<Rightarrow> sim_order \<Rightarrow> sim_order" where
  "reduce qty ord =
     ord\<lparr>so_remaining := so_remaining ord - qty, so_status := (if so_remaining ord - qty \<le> 0 then Filled else Partial)\<rparr>"

fun trade_loop :: "pyfloat \<Rightarrow> int \<Rightarrow> sim_order list \<Rightarrow> sim_fill list \<times> sim_order list" where
  \<comment> \<open>the loop over a side with the trade volume that remains\<close>
  "trade_loop p left [] = ([], [])"
| "trade_loop p left (ord # os) =
     (if \<not> is_open ord then (let (fs, os') = trade_loop p left os in (fs, ord # os'))
      else
        (let consumed = (if so_ahead ord > 0 then min (so_ahead ord) left else 0);
             ord1 = ord\<lparr>so_ahead := so_ahead ord - consumed\<rparr>;
             left1 = left - consumed
         in if left1 \<le> 0 then ([], ord1 # os)
            else if so_ahead ord1 \<le> 0 then
              (let qty = min (so_remaining ord1) left1;
                   left2 = left1 - qty
               in if left2 \<le> 0 then ([fill_of p qty ord1], reduce qty ord1 # os)
                  else (let (fs, os') = trade_loop p left2 os in (fill_of p qty ord1 # fs, reduce qty ord1 # os')))
            else (let (fs, os') = trade_loop p left1 os in (fs, ord1 # os'))))"

definition update_from_trade :: "int \<Rightarrow> pyfloat \<Rightarrow> string \<Rightarrow> sim_queue \<Rightarrow> sim_fill list \<times> sim_queue" where
  "update_from_trade volume p side q =
     (if side = ''buy'' then
        (let (fs, os) = trade_loop p volume (sq_bids q)
         in (fs, q\<lparr>sq_bids := os, sq_bid_flow := sq_bid_flow q + volume, sq_bid_volume := live_volume os\<rparr>))
      else
        (let (fs, os) = trade_loop p volume (sq_asks q)
         in (fs, q\<lparr>sq_asks := os, sq_ask_flow := sq_ask_flow q + volume, sq_ask_volume := live_volume os\<rparr>)))"

definition estimate_cancel_volume :: "int \<Rightarrow> int \<Rightarrow> string \<Rightarrow> sim_queue \<Rightarrow> int" where
  "estimate_cancel_volume current trade side q =
     (let prev = (if side = ''buy'' then sq_prev_bid q else sq_prev_ask q) in max 0 (prev - current - trade))"

record queue_snapshot =
  qs_instrument :: string
  qs_bid_volume :: int
  qs_ask_volume :: int
  qs_bid_flow :: int
  qs_ask_flow :: int
  qs_cancel_bid :: pyfloat
  qs_cancel_ask :: pyfloat
  qs_active_bids :: nat
  qs_active_asks :: nat

definition snapshot :: "sim_queue \<Rightarrow> queue_snapshot" where
  "snapshot q =
     \<lparr>qs_instrument = sq_instrument q, qs_bid_volume = sq_bid_volume q, qs_ask_volume = sq_ask_volume q,
      qs_bid_flow = sq_bid_flow q, qs_ask_flow = sq_ask_flow q, qs_cancel_bid = sq_cancel_bid q, qs_cancel_ask = sq_cancel_ask q,
      qs_active_bids = length (filter (\<lambda>ord. so_status ord = Active) (sq_bids q)),
      qs_active_asks = length (filter (\<lambda>ord. so_status ord = Active) (sq_asks q))\<rparr>"

subsection \<open>The models\<close>

record cancel_model =
  base_cancel_rate :: pyfloat
  lambda_c :: pyfloat
  min_cancel :: int

definition CancelModel :: cancel_model where
  "CancelModel = \<lparr>base_cancel_rate = 12 / 100, lambda_c = 1 / 1000, min_cancel = 0\<rparr>"

definition estimate_cancel :: "cancel_model \<Rightarrow> int \<Rightarrow> int \<Rightarrow> int \<Rightarrow> int" where
  "estimate_cancel cm prev current trade = max (min_cancel cm) (prev - current - trade)"

definition estimate_cancel_rate :: "cancel_model \<Rightarrow> int \<Rightarrow> pyfloat" where
  "estimate_cancel_rate cm size1 = base_cancel_rate cm + lambda_c cm * of_int size1"

definition sample_cancel_events :: "(pyfloat \<Rightarrow> int) \<Rightarrow> cancel_model \<Rightarrow> int \<Rightarrow> pyfloat \<Rightarrow> int" where
  "sample_cancel_events poisson cm size1 minutes = poisson (max (estimate_cancel_rate cm size1 * minutes) 0)"

definition calibrate_cancels :: "int list \<Rightarrow> int list \<Rightarrow> cancel_model \<Rightarrow> cancel_model" where
  "calibrate_cancels cancels sizes cm =
     (if length cancels < 2 \<or> length sizes < 2 then cm
      else
        (let avg = of_int (sum_list sizes) / of_nat (length sizes);
             cm1 = (if avg > 0 then cm\<lparr>base_cancel_rate := of_int (sum_list cancels) / (avg * of_nat (length cancels))\<rparr> else cm)
         in cm1\<lparr>lambda_c := base_cancel_rate cm1 * (1 / 100)\<rparr>))"

record hidden_model =
  hl_multiplier :: pyfloat
  hl_min :: pyfloat
  hl_max :: pyfloat

definition HiddenLiquidityModel :: hidden_model where
  "HiddenLiquidityModel = \<lparr>hl_multiplier = 13 / 10, hl_min = 12 / 10, hl_max = 15 / 10\<rparr>"

definition effective_depth :: "hidden_model \<Rightarrow> int \<Rightarrow> int" where
  "effective_depth h visible = py_int (of_int visible * hl_multiplier h)"

definition effective_side_depth :: "hidden_model \<Rightarrow> int \<Rightarrow> pyfloat \<Rightarrow> int" where
  \<comment> \<open>\<open>effective_bid_depth\<close> and \<open>effective_ask_depth\<close>\<close>
  "effective_side_depth h visible volatility =
     (if hl_multiplier h \<le> 1 then visible
      else py_int (of_int visible * max (hl_min h) (min (hl_multiplier h + volatility * (1 / 10)) (hl_max h))))"

definition estimate_total_depth :: "hidden_model \<Rightarrow> int \<Rightarrow> int \<Rightarrow> pyfloat \<Rightarrow> int \<times> int" where
  "estimate_total_depth h bid ask volatility = (effective_side_depth h bid volatility, effective_side_depth h ask volatility)"

definition calibrate_hidden :: "int list \<Rightarrow> int list \<Rightarrow> hidden_model \<Rightarrow> hidden_model" where
  "calibrate_hidden visible actual h =
     (if length visible < 2 \<or> length actual < 2 then h
      else
        (let ratios = map2 (\<lambda>v a. of_int a / of_int (max v 1)) visible actual;
             avg = sum_list ratios / of_nat (length ratios)
         in h\<lparr>hl_multiplier := max (hl_min h) (min avg (hl_max h))\<rparr>))"

record impact_model =
  im_eta :: pyfloat
  im_alpha :: pyfloat
  im_sqrt_law :: bool

definition ImpactModel :: impact_model where
  "ImpactModel = \<lparr>im_eta = 1 / 10, im_alpha = 6 / 10, im_sqrt_law = True\<rparr>"

definition calculate_impact :: "(pyfloat \<Rightarrow> pyfloat \<Rightarrow> pyfloat) \<Rightarrow> impact_model \<Rightarrow> int \<Rightarrow> pyfloat \<Rightarrow> pyfloat" where
  "calculate_impact pow im qty adv =
     (let participation = of_int qty / max adv 1
      in if im_sqrt_law im then im_eta im * pow participation (im_alpha im) else im_eta im * participation)"

definition get_execution_price :: "(pyfloat \<Rightarrow> pyfloat \<Rightarrow> pyfloat) \<Rightarrow> impact_model \<Rightarrow> int \<Rightarrow> pyfloat \<Rightarrow> pyfloat \<Rightarrow> string \<Rightarrow> pyfloat" where
  "get_execution_price pow im qty adv p side =
     (let pct = calculate_impact pow im qty adv in if side = ''buy'' then p * (1 + pct) else p * (1 - pct))"

definition round_cents :: "pyfloat \<Rightarrow> pyfloat" where
  "round_cents x = of_int (py_round (x * 100)) / 100"

definition apply_to_fill :: "(pyfloat \<Rightarrow> pyfloat \<Rightarrow> pyfloat) \<Rightarrow> impact_model \<Rightarrow> 'a fill_event_scheme \<Rightarrow> pyfloat \<Rightarrow> 'a fill_event_scheme" where
  "apply_to_fill pow im f adv =
     (let pct = calculate_impact pow im (fe_quantity f) adv
      in f\<lparr>fe_price := round_cents (if fe_side f = ''buy'' then fe_price f * (1 + pct) else fe_price f * (1 - pct))\<rparr>)"

record latency_model =
  lt_market_data :: pyfloat
  lt_decision :: pyfloat
  lt_routing :: pyfloat
  lt_exchange :: pyfloat
  lt_network :: pyfloat

definition LatencyComponents :: latency_model where
  "LatencyComponents = \<lparr>lt_market_data = 5 / 10 ^ 6, lt_decision = 10 / 10 ^ 6, lt_routing = 20 / 10 ^ 6,
     lt_exchange = 5 / 10 ^ 6, lt_network = 10 / 10 ^ 6\<rparr>"

definition total_seconds :: "latency_model \<Rightarrow> pyfloat" where
  "total_seconds l = lt_market_data l + lt_decision l + lt_routing l + lt_exchange l + lt_network l"

definition total_latency_seconds :: "latency_model \<Rightarrow> pyfloat \<Rightarrow> pyfloat" where
  \<comment> \<open>with the draw of \<open>random.gauss\<close>\<close>
  "total_latency_seconds l g = max 0 (total_seconds l * (1 + g))"

definition apply_to_timestamp :: "latency_model \<Rightarrow> pyfloat \<Rightarrow> pytime \<Rightarrow> pytime" where
  "apply_to_timestamp l g t = t + total_latency_seconds l g"

record arrival_model =
  ar_rate :: pyfloat
  ar_min :: int
  ar_max :: int

definition OrderArrivalModel :: arrival_model where
  "OrderArrivalModel = \<lparr>ar_rate = 2 / 100, ar_min = 0, ar_max = 50\<rparr>"

function arrivals_loop :: "arrival_model \<Rightarrow> pyfloat \<Rightarrow> pyfloat \<Rightarrow> int \<Rightarrow> pyfloat \<Rightarrow> int" where
  "arrivals_loop ar lam threshold k p =
     (if p > threshold \<and> k < ar_max ar then arrivals_loop ar lam threshold (k + 1) (p * (lam / of_int (k + 1))) else k)"
  by pat_completeness auto
termination
  by (relation "measure (\<lambda>(ar, lam, threshold, k, p). nat (ar_max ar - k))") auto

declare arrivals_loop.simps [simp del]

definition sample_arrivals :: "arrival_model \<Rightarrow> pyfloat \<Rightarrow> int \<Rightarrow> int" where
  \<comment> \<open>with the draw of \<open>random.random()\<close>\<close>
  "sample_arrivals ar u size1 =
     (let k = arrivals_loop ar (ar_rate ar * of_int (max size1 1)) u 0 1 in max (ar_min ar) (min k (ar_max ar)))"

definition sample_quantity :: "pyfloat \<Rightarrow> int" where
  \<comment> \<open>of the draw of \<open>random.expovariate\<close>\<close>
  "sample_quantity x = max 1 (py_int x)"

definition sample_price_offset :: "pyfloat \<Rightarrow> pyfloat \<Rightarrow> pyfloat \<Rightarrow> py_error + pyfloat" where
  "sample_price_offset u ref dev =
     (if ref \<le> 0 then Inl ValueError
      else if \<not> (0 \<le> dev \<and> dev \<le> 1) then Inl ValueError
      else Inr (max (1 / 100) (ref + ref * dev * (u * 2 - 1))))"

subsection \<open>The engine\<close>

datatype tick =
    QuoteTick (tk_bid: pyfloat) (tk_ask: pyfloat) (tk_bid_volume: int) (tk_ask_volume: int)
  | TradeTick (tk_price: pyfloat) (tk_volume: int)
  | AuctionTick (tk_auction_price: pyfloat) (tk_auction_volume: int)
  | OtherTick

record draws =
  dr_uniform :: "nat \<Rightarrow> pyfloat"
  dr_exponential :: "nat \<Rightarrow> pyfloat"
  dr_id :: "nat \<Rightarrow> string"
  dr_power :: "pyfloat \<Rightarrow> pyfloat \<Rightarrow> pyfloat"

record micro_engine =
  mx_cancel :: cancel_model
  mx_arrival :: arrival_model
  mx_impact :: impact_model
  mx_hidden :: hidden_model
  mx_queues :: "(string, sim_queue) pydict"
  mx_active :: "(string, sim_order list) pydict"
  mx_prev :: "(string, int \<times> int) pydict"
  mx_drawn :: nat \<comment> \<open>elements of the streams taken\<close>

definition MicrostructureEngine :: micro_engine where
  "MicrostructureEngine =
     \<lparr>mx_cancel = CancelModel, mx_arrival = OrderArrivalModel, mx_impact = ImpactModel, mx_hidden = HiddenLiquidityModel,
      mx_queues = [], mx_active = [], mx_prev = [], mx_drawn = 0\<rparr>"

definition get_or_create_queue :: "string \<Rightarrow> micro_engine \<Rightarrow> sim_queue \<times> micro_engine" where
  "get_or_create_queue inst m =
     (case dict_get (mx_queues m) inst of
        Some q \<Rightarrow> (q, m)
      | None \<Rightarrow> (QueueState inst, m\<lparr>mx_queues := dict_set inst (QueueState inst) (mx_queues m),
                    mx_active := dict_set inst [] (mx_active m), mx_prev := dict_set inst (0, 0) (mx_prev m)\<rparr>))"

definition put_queue :: "string \<Rightarrow> sim_queue \<Rightarrow> micro_engine \<Rightarrow> micro_engine" where
  "put_queue inst q m = m\<lparr>mx_queues := dict_set inst q (mx_queues m)\<rparr>"

definition draw_arrivals :: "draws \<Rightarrow> int \<Rightarrow> micro_engine \<Rightarrow> nat \<times> micro_engine" where
  "draw_arrivals d size1 m =
     (nat (sample_arrivals (mx_arrival m) (dr_uniform d (mx_drawn m)) size1), m\<lparr>mx_drawn := Suc (mx_drawn m)\<rparr>)"

fun arrive :: "draws \<Rightarrow> string \<Rightarrow> string \<Rightarrow> pyfloat \<Rightarrow> nat \<Rightarrow> sim_queue \<times> micro_engine \<Rightarrow> py_error option \<times> sim_queue \<times> micro_engine" where
  \<comment> \<open>new orders of one side around a reference price\<close>
  "arrive d inst side ref 0 (q, m) = (None, q, m)"
| "arrive d inst side ref (Suc n) (q, m) =
     (let i = mx_drawn m;
          m1 = m\<lparr>mx_drawn := Suc i\<rparr>;
          qty = sample_quantity (dr_exponential d i)
      in case sample_price_offset (dr_uniform d i) ref (1 / 100) of
           Inl e \<Rightarrow> (Some e, q, m1)
         | Inr p \<Rightarrow> arrive d inst side ref n (add_order (SimulatedOrder (dr_id d i) side p qty 0 inst) q, m1))"

definition update_cancel_rates :: "string \<Rightarrow> micro_engine \<Rightarrow> sim_queue \<Rightarrow> sim_queue" where
  "update_cancel_rates inst m q =
     (let (pb, pa) = dict_get_or (mx_prev m) inst (0, 0)
      in q\<lparr>sq_cancel_bid := of_int (estimate_cancel (mx_cancel m) pb (sq_bid_volume q) (sq_bid_flow q)) / of_int (max (sq_bid_volume q) 1),
           sq_cancel_ask := of_int (estimate_cancel (mx_cancel m) pa (sq_ask_volume q) (sq_ask_flow q)) / of_int (max (sq_ask_volume q) 1)\<rparr>)"

definition process_quote ::
  "draws \<Rightarrow> string \<Rightarrow> pyfloat \<Rightarrow> pyfloat \<Rightarrow> int \<Rightarrow> int \<Rightarrow> sim_queue \<times> micro_engine \<Rightarrow> py_error option \<times> sim_queue \<times> micro_engine" where
  "process_quote d inst bid ask bv av st =
     (case st of (q0, m0) \<Rightarrow>
        let m1 = m0\<lparr>mx_prev := dict_set inst (sq_bid_volume q0, sq_ask_volume q0) (mx_prev m0)\<rparr>;
            (hb, ha) = estimate_total_depth (mx_hidden m1) bv av 0;
            q1 = q0\<lparr>sq_prev_bid := bv, sq_prev_ask := av, sq_bid_volume := hb, sq_ask_volume := ha\<rparr>;
            (nb, m2) = draw_arrivals d hb m1;
            (na, m3) = draw_arrivals d ha m2
        in case arrive d inst ''buy'' bid nb (q1, m3) of
             (Some e, st1) \<Rightarrow> (Some e, st1)
           | (None, st1) \<Rightarrow>
               (case arrive d inst ''sell'' ask na st1 of
                  (Some e, st2) \<Rightarrow> (Some e, st2)
                | (None, q2, m4) \<Rightarrow> (None, update_cancel_rates inst m4 q2, m4)))"

definition process_trade ::
  "draws \<Rightarrow> string \<Rightarrow> pyfloat \<Rightarrow> int \<Rightarrow> market_engine option \<Rightarrow> sim_queue \<times> micro_engine \<Rightarrow>
     (py_error + sim_fill list) \<times> sim_queue \<times> micro_engine" where
  "process_trade d inst p vol market st =
     (case st of (q0, m0) \<Rightarrow>
        let ip = get_execution_price (dr_power d) (mx_impact m0) vol 1000000 p ''buy'';
            (fb, q1) = update_from_trade vol ip ''buy'' q0;
            (fa, q2) = update_from_trade vol ip ''sell'' q1;
            fs = map (\<lambda>f. f\<lparr>sf_slippage := ip - p\<rparr>) (fb @ fa);
            (n, m1) = draw_arrivals d (sq_bid_volume q2 + sq_ask_volume q2) m0
        in case (case market of None \<Rightarrow> None | Some mkt \<Rightarrow> get_state mkt inst) of
             None \<Rightarrow> (Inr fs, q2, m1)
           | Some state \<Rightarrow>
               (case arrive d inst ''buy'' (if last_trade state \<noteq> 0 then last_trade state else p) n (q2, m1) of
                  (Some e, st2) \<Rightarrow> (Inl e, st2)
                | (None, st2) \<Rightarrow> (Inr fs, st2)))"

definition process_auction_fills :: "pyfloat \<Rightarrow> int \<Rightarrow> sim_queue \<Rightarrow> sim_fill list \<times> sim_queue" where
  "process_auction_fills p vol q =
     (let (fb, q1) = update_from_trade vol p ''buy'' q; (fa, q2) = update_from_trade vol p ''sell'' q1 in (fb @ fa, q2))"

definition process_event ::
  "draws \<Rightarrow> string \<Rightarrow> tick \<Rightarrow> market_engine option \<Rightarrow> micro_engine \<Rightarrow> (py_error + sim_fill list) \<times> micro_engine" where
  \<comment> \<open>the delayed time stamp is computed and dropped\<close>
  "process_event d inst tk market m0 =
     (let (q, m) = get_or_create_queue inst m0
      in case tk of
           QuoteTick bid ask bv av \<Rightarrow>
             (case process_quote d inst bid ask bv av (q, m) of
                (e, q1, m1) \<Rightarrow> (case e of None \<Rightarrow> Inr [] | Some x \<Rightarrow> Inl x, put_queue inst q1 m1))
         | TradeTick p vol \<Rightarrow> (case process_trade d inst p vol market (q, m) of (r, q1, m1) \<Rightarrow> (r, put_queue inst q1 m1))
         | AuctionTick p vol \<Rightarrow> (case process_auction_fills p vol q of (fs, q1) \<Rightarrow> (Inr fs, put_queue inst q1 m))
         | OtherTick \<Rightarrow> (Inr [], m))"

fun active_loop :: "cancel_model \<Rightarrow> sim_queue \<Rightarrow> int \<Rightarrow> sim_order list \<Rightarrow> py_error option \<times> sim_order list" where
  \<comment> \<open>the engine has no \<open>cost_model\<close>, so the first fill raises\<close>
  "active_loop cm q vol [] = (None, [])"
| "active_loop cm q vol (ord # os) =
     (if so_status ord \<notin> {Active, Partial} then (case active_loop cm q vol os of (e, os') \<Rightarrow> (e, ord # os'))
      else
        (let (prev, current) = (if so_side ord = ''buy'' then (sq_prev_bid q, sq_bid_volume q) else (sq_prev_ask q, sq_ask_volume q));
             (filled, ord1) = update_queue_position vol (estimate_cancel cm prev current 0) ord
         in if filled then (Some AttributeError, ord1 # os)
            else (case active_loop cm q vol os of (e, os') \<Rightarrow> (e, ord1 # os'))))"

definition process_active_orders :: "string \<Rightarrow> tick \<Rightarrow> micro_engine \<Rightarrow> (py_error + sim_fill list) \<times> micro_engine" where
  "process_active_orders inst tk m =
     (case dict_get (mx_queues m) inst of
        None \<Rightarrow> (Inr [], m)
      | Some q \<Rightarrow>
          (case active_loop (mx_cancel m) q (case tk of TradeTick p vol \<Rightarrow> vol | _ \<Rightarrow> 0) (dict_get_or (mx_active m) inst []) of
             (Some e, os) \<Rightarrow> (Inl e, m\<lparr>mx_active := dict_set inst os (mx_active m)\<rparr>)
           | (None, os) \<Rightarrow>
               (Inr [], if dict_get (mx_active m) inst = None then m else m\<lparr>mx_active := dict_set inst os (mx_active m)\<rparr>)))"

definition estimate_queue_lifetime :: "string \<Rightarrow> micro_engine \<Rightarrow> pyfloat option" where
  \<comment> \<open>\<open>None\<close> is infinity\<close>
  "estimate_queue_lifetime inst m =
     (case dict_get (mx_queues m) inst of
        None \<Rightarrow> Some 0
      | Some q \<Rightarrow>
          (let total_queue = of_int (sq_bid_volume q + sq_ask_volume q);
               flow = sq_bid_flow q + sq_ask_flow q;
               drain = (if flow > 0 then of_int flow / of_int (max flow 1) else 0) + (sq_cancel_bid q + sq_cancel_ask q) / 2
           in if drain \<le> 0 then None else Some (total_queue / drain)))"

definition get_queue_snapshot :: "string \<Rightarrow> micro_engine \<Rightarrow> queue_snapshot option" where
  "get_queue_snapshot inst m = map_option snapshot (dict_get (mx_queues m) inst)"

definition micro_reset :: "micro_engine \<Rightarrow> micro_engine" where
  "micro_reset m = m\<lparr>mx_queues := [], mx_active := [], mx_prev := []\<rparr>"

subsection \<open>Trades fill a queue in order\<close>

definition order_sound :: "sim_order \<Rightarrow> bool" where
  "order_sound ord \<longleftrightarrow> 0 \<le> so_remaining ord \<and> so_remaining ord \<le> so_quantity ord \<and> 0 \<le> so_ahead ord
     \<and> (so_status ord = Active \<longrightarrow> so_remaining ord = so_quantity ord)
     \<and> (so_status ord = Partial \<longrightarrow> 0 < so_remaining ord \<and> so_remaining ord < so_quantity ord)
     \<and> (so_status ord = Filled \<longrightarrow> so_remaining ord = 0)"

definition took :: "sim_order \<Rightarrow> sim_order \<Rightarrow> int" where
  "took before after = so_remaining before - so_remaining after"

definition same_order :: "sim_order \<Rightarrow> sim_order \<Rightarrow> bool" where
  "same_order a b \<longleftrightarrow> so_id a = so_id b \<and> so_side a = so_side b \<and> so_price a = so_price b \<and> so_quantity a = so_quantity b
     \<and> so_instrument a = so_instrument b"

lemma trade_loop_skip: "\<not> is_open ord \<Longrightarrow> trade_loop p left (ord # os) = (case trade_loop p left os of (fs, os') \<Rightarrow> (fs, ord # os'))"
  by simp

lemma trade_loop_wait:
  "is_open ord \<Longrightarrow> 0 \<le> left \<Longrightarrow> 0 \<le> so_ahead ord \<Longrightarrow> left \<le> so_ahead ord \<Longrightarrow>
    trade_loop p left (ord # os) = ([], ord\<lparr>so_ahead := so_ahead ord - left\<rparr> # os)"
  by (auto simp: Let_def min_def)

lemma trade_loop_last:
  "is_open ord \<Longrightarrow> 0 \<le> so_ahead ord \<Longrightarrow> so_ahead ord < left \<Longrightarrow> left - so_ahead ord \<le> so_remaining ord \<Longrightarrow>
    trade_loop p left (ord # os) =
      ([fill_of p (left - so_ahead ord) ord], reduce (left - so_ahead ord) (ord\<lparr>so_ahead := 0\<rparr>) # os)"
  by (cases "so_ahead ord = 0") (auto simp: Let_def min_def fill_of_def reduce_def)

lemma trade_loop_through:
  "is_open ord \<Longrightarrow> 0 \<le> so_ahead ord \<Longrightarrow> so_ahead ord + so_remaining ord < left \<Longrightarrow>
    trade_loop p left (ord # os) =
      (case trade_loop p (left - so_ahead ord - so_remaining ord) os of
         (fs, os') \<Rightarrow> (fill_of p (so_remaining ord) ord # fs, reduce (so_remaining ord) (ord\<lparr>so_ahead := 0\<rparr>) # os'))"
  by (cases "so_ahead ord = 0") (auto simp: Let_def min_def fill_of_def reduce_def is_open_def split: prod.split)

declare trade_loop.simps(2) [simp del]

lemma trade_loop_cases:
  assumes "order_sound ord" "0 \<le> left"
  obtains (skip) "\<not> is_open ord"
  | (wait) "is_open ord" "left \<le> so_ahead ord"
  | (fill) "is_open ord" "so_ahead ord < left" "left - so_ahead ord \<le> so_remaining ord"
  | (through) "is_open ord" "so_ahead ord + so_remaining ord < left"
  using assms by (cases "is_open ord"; cases "left \<le> so_ahead ord"; cases "left - so_ahead ord \<le> so_remaining ord") auto

definition filled_step :: "sim_order \<Rightarrow> sim_order \<Rightarrow> bool" where
  \<comment> \<open>what a trade may do to an order\<close>
  "filled_step a b \<longleftrightarrow> same_order a b \<and> order_sound b \<and> 0 \<le> took a b \<and> so_ahead b \<le> so_ahead a"

lemma filled_self: "order_sound a \<Longrightarrow> filled_step a a"
  by (simp add: filled_step_def same_order_def took_def)

lemma reduce_sound:
  assumes "order_sound ord" "is_open ord" "0 < qty" "qty \<le> so_remaining ord"
  shows "filled_step ord (reduce qty (ord\<lparr>so_ahead := 0\<rparr>))" "took ord (reduce qty (ord\<lparr>so_ahead := 0\<rparr>)) = qty"
  using assms by (auto simp: filled_step_def order_sound_def same_order_def took_def reduce_def is_open_def)

lemma fill_of_reduced: "fill_of p qty (reduce r (ord\<lparr>so_ahead := a\<rparr>)) = fill_of p qty ord"
  by (simp add: fill_of_def reduce_def)

lemma trade_loop_facts:
  assumes "trade_loop p left os = (fs, os')" "\<forall>ord \<in> set os. order_sound ord" "0 \<le> left"
  shows "list_all2 filled_step os os'
    \<and> sum_list (map fe_quantity fs) + sum_list (map2 (\<lambda>a b. so_ahead a - so_ahead b) os os') \<le> left
    \<and> fs = map (\<lambda>(a, b). fill_of p (took a b) b) (filter (\<lambda>(a, b). 0 < took a b) (zip os os'))"
  using assms
proof (induction os arbitrary: left fs os')
  case (Cons ord os)
  have snd: "order_sound ord" "\<forall>x \<in> set os. order_sound x" using Cons.prems(2) by auto
  have a: "0 \<le> so_ahead ord" using snd(1) by (simp add: order_sound_def)
  have rest: "list_all2 filled_step os os" using snd(2) by (auto simp: list_all2_same filled_self)
  have none: "sum_list (map2 (\<lambda>a b. so_ahead a - so_ahead b) os os) = 0" "filter (\<lambda>(a, b). 0 < took a b) (zip os os) = []"
    by (auto simp: zip_same_conv_map comp_def took_def filter_empty_conv)
  show ?case using snd(1) Cons.prems(3)
  proof (cases rule: trade_loop_cases)
    case skip
    obtain gs ys where r: "trade_loop p left os = (gs, ys)" by (meson surj_pair)
    have e: "fs = gs" "os' = ord # ys" using Cons.prems(1) skip r by (auto simp: trade_loop_skip)
    show ?thesis using Cons.IH[OF r snd(2) Cons.prems(3)] filled_self[OF snd(1)] by (auto simp: e took_def)
  next
    case wait
    have e: "fs = []" "os' = ord\<lparr>so_ahead := so_ahead ord - left\<rparr> # os"
      using Cons.prems(1) trade_loop_wait[OF wait(1) Cons.prems(3) a wait(2)] by auto
    have "filled_step ord (ord\<lparr>so_ahead := so_ahead ord - left\<rparr>)"
      using snd(1) wait Cons.prems(3) by (simp add: filled_step_def order_sound_def same_order_def took_def)
    then show ?thesis using rest none by (simp add: e took_def)
  next
    case fill
    have e: "fs = [fill_of p (left - so_ahead ord) ord]" "os' = reduce (left - so_ahead ord) (ord\<lparr>so_ahead := 0\<rparr>) # os"
      using Cons.prems(1) trade_loop_last[OF fill(1) a fill(2,3)] by auto
    have p: "0 < left - so_ahead ord" using fill by simp
    show ?thesis
      using rest none reduce_sound[OF snd(1) fill(1) p fill(3)] p
      by (simp add: e fill_of_reduced) (simp add: fill_of_def reduce_def)
  next
    case through
    define rest_left where "rest_left = left - so_ahead ord - so_remaining ord"
    obtain gs ys where r: "trade_loop p rest_left os = (gs, ys)" by (meson surj_pair)
    have e: "fs = fill_of p (so_remaining ord) ord # gs" "os' = reduce (so_remaining ord) (ord\<lparr>so_ahead := 0\<rparr>) # ys"
      using Cons.prems(1) trade_loop_through[OF through(1) a through(2)] r by (auto simp: rest_left_def)
    have p: "0 < so_remaining ord" "0 \<le> rest_left" using through by (auto simp: is_open_def rest_left_def)
    show ?thesis
      using Cons.IH[OF r snd(2) p(2)] reduce_sound[OF snd(1) through(1) p(1) order_refl] p
      by (auto simp: e fill_of_reduced rest_left_def) (simp_all add: fill_of_def reduce_def)
  qed
qed simp

lemma trade_loop_priority:
  assumes "trade_loop p left os = (fs, os')" "\<forall>ord \<in> set os. order_sound ord" "0 \<le> left"
    and "i < j" "j < length os" "is_open (os ! i)" "0 < took (os ! j) (os' ! j)"
  shows "so_remaining (os' ! i) = 0"
  using assms
proof (induction os arbitrary: left fs os' i j)
  case (Cons ord os)
  have snd: "order_sound ord" "\<forall>x \<in> set os. order_sound x" using Cons.prems(2) by auto
  have a: "0 \<le> so_ahead ord" using snd(1) by (simp add: order_sound_def)
  obtain j' where j: "j = Suc j'" using Cons.prems(4) by (cases j) auto
  show ?case using snd(1) Cons.prems(3)
  proof (cases rule: trade_loop_cases)
    case skip
    obtain gs ys where r: "trade_loop p left os = (gs, ys)" by (meson surj_pair)
    have "os' = ord # ys" using Cons.prems(1) skip r by (auto simp: trade_loop_skip)
    moreover obtain i' where "i = Suc i'" using Cons.prems(6) skip by (cases i) auto
    ultimately show ?thesis using Cons.IH[OF r snd(2) Cons.prems(3), of i' j'] Cons.prems(4-7) j by simp
  next
    case wait
    then have "os' = ord\<lparr>so_ahead := so_ahead ord - left\<rparr> # os"
      using Cons.prems(1) trade_loop_wait[OF wait(1) Cons.prems(3) a wait(2)] by auto
    then show ?thesis using Cons.prems(7) j by (simp add: took_def)
  next
    case fill
    have "os' = reduce (left - so_ahead ord) (ord\<lparr>so_ahead := 0\<rparr>) # os"
      using Cons.prems(1) trade_loop_last[OF fill(1) a fill(2,3)] by auto
    then show ?thesis using Cons.prems(7) j by (simp add: took_def)
  next
    case through
    define rest_left where "rest_left = left - so_ahead ord - so_remaining ord"
    obtain gs ys where r: "trade_loop p rest_left os = (gs, ys)" by (meson surj_pair)
    have e: "os' = reduce (so_remaining ord) (ord\<lparr>so_ahead := 0\<rparr>) # ys"
      using Cons.prems(1) trade_loop_through[OF through(1) a through(2)] r by (auto simp: rest_left_def)
    have p: "0 \<le> rest_left" using through by (simp add: rest_left_def)
    show ?thesis
    proof (cases i)
      case 0
      then show ?thesis by (simp add: e reduce_def)
    next
      case (Suc i')
      then show ?thesis using Cons.IH[OF r snd(2) p, of i' j'] Cons.prems(4-7) j by (simp add: e)
    qed
  qed
qed simp

lemma filled_trans_sound: "list_all2 filled_step os os' \<Longrightarrow> \<forall>b \<in> set os'. order_sound b"
  by (induction rule: list_all2_induct) (auto simp: filled_step_def)

lemma update_from_trade_facts:
  assumes "update_from_trade vol p side q = (fs, q')" "0 \<le> vol"
    and "\<forall>ord \<in> set (sq_bids q) \<union> set (sq_asks q). order_sound ord"
  shows "(\<forall>ord \<in> set (sq_bids q') \<union> set (sq_asks q'). order_sound ord)
    \<and> sum_list (map fe_quantity fs) \<le> vol \<and> (\<forall>f \<in> set fs. 0 < fe_quantity f \<and> fe_price f = p)
    \<and> (if side = ''buy'' then sq_asks q' = sq_asks q \<and> list_all2 filled_step (sq_bids q) (sq_bids q')
       else sq_bids q' = sq_bids q \<and> list_all2 filled_step (sq_asks q) (sq_asks q'))"
proof -
  define os where "os = (if side = ''buy'' then sq_bids q else sq_asks q)"
  obtain gs os' where t: "trade_loop p vol os = (gs, os')" by (meson surj_pair)
  have sound: "\<forall>ord \<in> set os. order_sound ord" using assms(3) by (auto simp: os_def)
  note f = trade_loop_facts[OF t sound assms(2)]
  have "0 \<le> sum_list (map2 (\<lambda>a b. so_ahead a - so_ahead b) os os')"
    by (rule sum_list_nonneg) (use f in \<open>auto simp: list_all2_iff filled_step_def\<close>)
  moreover have "fs = gs" "if side = ''buy'' then sq_bids q' = os' \<and> sq_asks q' = sq_asks q else sq_asks q' = os' \<and> sq_bids q' = sq_bids q"
    using assms(1) t by (auto simp: update_from_trade_def os_def split: if_splits prod.splits)
  ultimately show ?thesis
    using f assms(3) filled_trans_sound[of os os'] by (auto simp: os_def fill_of_def split: if_splits)
qed

subsection \<open>Every history\<close>

datatype micro_op = MarketTick string tick "market_engine option" | ActiveTick string tick | ResetAll

definition micro_step :: "draws \<Rightarrow> micro_op \<Rightarrow> micro_engine \<Rightarrow> micro_engine" where
  "micro_step d x m =
     (case x of
        MarketTick inst tk market \<Rightarrow> snd (process_event d inst tk market m)
      | ActiveTick inst tk \<Rightarrow> snd (process_active_orders inst tk m)
      | ResetAll \<Rightarrow> micro_reset m)"

definition micro_run :: "draws \<Rightarrow> micro_op list \<Rightarrow> micro_engine" where
  "micro_run d xs = fold (micro_step d) xs MicrostructureEngine"

fun volume_ok :: "micro_op \<Rightarrow> bool" where
  "volume_ok (MarketTick inst (TradeTick p v) market) = (0 \<le> v)"
| "volume_ok (MarketTick inst (AuctionTick p v) market) = (0 \<le> v)"
| "volume_ok _ = True"

definition queue_sound :: "sim_queue \<Rightarrow> bool" where
  "queue_sound q \<longleftrightarrow> (\<forall>ord \<in> set (sq_bids q) \<union> set (sq_asks q). order_sound ord)"

definition micro_ok :: "micro_engine \<Rightarrow> bool" where
  "micro_ok m \<longleftrightarrow> (\<forall>inst q. dict_get (mx_queues m) inst = Some q \<longrightarrow> queue_sound q)
     \<and> (\<forall>inst os. dict_get (mx_active m) inst = Some os \<longrightarrow> os = [])"

lemma live_volume_nonneg: "\<forall>ord \<in> set os. order_sound ord \<Longrightarrow> 0 \<le> live_volume os"
  unfolding live_volume_def by (rule sum_list_nonneg) (auto simp: order_sound_def)

lemma add_order_sound:
  assumes "queue_sound q" "0 < qty"
  shows "queue_sound (add_order (SimulatedOrder oid side p qty 0 inst) q)"
  using assms live_volume_nonneg[of "sq_bids q"] live_volume_nonneg[of "sq_asks q"]
  by (auto simp: queue_sound_def add_order_def SimulatedOrder_def order_sound_def)

lemma arrive_ok:
  "arrive d inst side ref n (q, m) = (e, q', m') \<Longrightarrow> queue_sound q \<Longrightarrow>
    queue_sound q' \<and> mx_queues m' = mx_queues m \<and> mx_active m' = mx_active m \<and> mx_prev m' = mx_prev m"
proof (induction n arbitrary: q m)
  case (Suc n)
  show ?case
  proof (cases "sample_price_offset (dr_uniform d (mx_drawn m)) ref (1 / 100)")
    case (Inl x)
    then show ?thesis using Suc.prems by (auto simp: Let_def)
  next
    case (Inr p)
    have "queue_sound (add_order (SimulatedOrder (dr_id d (mx_drawn m)) side p (sample_quantity (dr_exponential d (mx_drawn m))) 0 inst) q)"
      by (rule add_order_sound[OF Suc.prems(2)]) (simp add: sample_quantity_def)
    from Suc.IH[OF _ this] show ?thesis using Suc.prems(1) Inr by (fastforce simp: Let_def)
  qed
qed simp

lemma draw_frame [simp]:
  "mx_queues (snd (draw_arrivals d n m)) = mx_queues m" "mx_active (snd (draw_arrivals d n m)) = mx_active m"
  "mx_prev (snd (draw_arrivals d n m)) = mx_prev m"
  by (simp_all add: draw_arrivals_def)

lemma process_quote_ok:
  assumes "process_quote d inst bid ask bv av (q, m) = (e, q', m')" "queue_sound q"
  shows "queue_sound q' \<and> mx_queues m' = mx_queues m \<and> mx_active m' = mx_active m"
proof -
  define m1 where "m1 = m\<lparr>mx_prev := dict_set inst (sq_bid_volume q, sq_ask_volume q) (mx_prev m)\<rparr>"
  obtain hb ha where h: "estimate_total_depth (mx_hidden m1) bv av 0 = (hb, ha)" by (meson surj_pair)
  define q1 where "q1 = q\<lparr>sq_prev_bid := bv, sq_prev_ask := av, sq_bid_volume := hb, sq_ask_volume := ha\<rparr>"
  obtain nb m2 where b: "draw_arrivals d hb m1 = (nb, m2)" by (meson surj_pair)
  obtain na m3 where a: "draw_arrivals d ha m2 = (na, m3)" by (meson surj_pair)
  obtain e1 q2 m4 where r: "arrive d inst ''buy'' bid nb (q1, m3) = (e1, q2, m4)" by (metis prod_cases3)
  obtain e2 q3 m5 where s: "arrive d inst ''sell'' ask na (q2, m4) = (e2, q3, m5)" by (metis prod_cases3)
  have sound1: "queue_sound q1" using assms(2) by (simp add: q1_def queue_sound_def)
  have frame: "mx_queues m3 = mx_queues m" "mx_active m3 = mx_active m"
    using draw_frame[of d hb m1] draw_frame[of d ha m2] unfolding b a by (simp_all add: m1_def)
  note r1 = arrive_ok[OF r sound1]
  then have s1: "queue_sound q3 \<and> mx_queues m5 = mx_queues m4 \<and> mx_active m5 = mx_active m4" using arrive_ok[OF s] by blast
  have "process_quote d inst bid ask bv av (q, m) =
      (case e1 of Some x \<Rightarrow> (Some x, q2, m4)
       | None \<Rightarrow> (case e2 of Some x \<Rightarrow> (Some x, q3, m5) | None \<Rightarrow> (None, update_cancel_rates inst m5 q3, m5)))"
    unfolding process_quote_def prod.case Let_def m1_def[symmetric] h q1_def[symmetric] b a r
    by (cases e1; cases e2) (simp_all add: s)
  then show ?thesis
    using assms(1) r1 s1 frame
    by (auto simp: update_cancel_rates_def queue_sound_def split: option.splits prod.splits)
qed

lemma update_sound:
  "update_from_trade vol p side q = (fs, q') \<Longrightarrow> 0 \<le> vol \<Longrightarrow> queue_sound q \<Longrightarrow> queue_sound q' \<and> sum_list (map fe_quantity fs) \<le> vol"
  using update_from_trade_facts[of vol p side q fs q'] by (simp add: queue_sound_def)

lemma slippage_quantity: "sum_list (map fe_quantity (map (\<lambda>f. f\<lparr>sf_slippage := x\<rparr>) fs)) = sum_list (map fe_quantity fs)"
  by (simp add: comp_def)

lemma process_trade_ok:
  assumes "process_trade d inst p vol market (q, m) = (res, q', m')" "queue_sound q" "0 \<le> vol"
  shows "queue_sound q' \<and> mx_queues m' = mx_queues m \<and> mx_active m' = mx_active m
    \<and> (\<forall>fs. res = Inr fs \<longrightarrow> sum_list (map fe_quantity fs) \<le> 2 * vol)"
proof -
  define ip where "ip = get_execution_price (dr_power d) (mx_impact m) vol 1000000 p ''buy''"
  obtain fb q1 where b: "update_from_trade vol ip ''buy'' q = (fb, q1)" by (meson surj_pair)
  obtain fa q2 where a: "update_from_trade vol ip ''sell'' q1 = (fa, q2)" by (meson surj_pair)
  obtain n m1 where n: "draw_arrivals d (sq_bid_volume q2 + sq_ask_volume q2) m = (n, m1)" by (meson surj_pair)
  have q2: "queue_sound q2" "sum_list (map fe_quantity fb) \<le> vol" "sum_list (map fe_quantity fa) \<le> vol"
    using update_sound[OF b assms(3,2)] update_sound[OF a assms(3)] by auto
  have frame: "mx_queues m1 = mx_queues m" "mx_active m1 = mx_active m"
    using draw_frame[of d "sq_bid_volume q2 + sq_ask_volume q2" m] unfolding n by simp_all
  define fs where "fs = map (\<lambda>f. f\<lparr>sf_slippage := ip - p\<rparr>) (fb @ fa)"
  have total: "sum_list (map fe_quantity fs) \<le> 2 * vol"
    unfolding fs_def slippage_quantity using q2 by simp
  have eq: "process_trade d inst p vol market (q, m) =
      (case (case market of None \<Rightarrow> None | Some mkt \<Rightarrow> get_state mkt inst) of
         None \<Rightarrow> (Inr fs, q2, m1)
       | Some state \<Rightarrow>
           (case arrive d inst ''buy'' (if last_trade state \<noteq> 0 then last_trade state else p) n (q2, m1) of
              (Some e, st2) \<Rightarrow> (Inl e, st2) | (None, st2) \<Rightarrow> (Inr fs, st2)))"
    unfolding process_trade_def prod.case Let_def ip_def[symmetric] b a n fs_def[symmetric] ..
  show ?thesis
  proof (cases "case market of None \<Rightarrow> None | Some mkt \<Rightarrow> get_state mkt inst")
    case None
    then show ?thesis using assms(1) eq q2 frame total by auto
  next
    case (Some state)
    obtain e q3 m3 where r: "arrive d inst ''buy'' (if last_trade state \<noteq> 0 then last_trade state else p) n (q2, m1) = (e, q3, m3)"
      by (metis prod_cases3)
    show ?thesis
      using assms(1) eq arrive_ok[OF r q2(1)] frame total Some r by (cases e) auto
  qed
qed

lemma process_event_ok:
  assumes "process_event d inst tk market m = (res, m')" "micro_ok m" "volume_ok (MarketTick inst tk market)"
  shows "micro_ok m' \<and> (\<forall>fs. res = Inr fs \<longrightarrow>
    sum_list (map fe_quantity fs) \<le> 2 * (case tk of TradeTick p v \<Rightarrow> v | AuctionTick p v \<Rightarrow> v | _ \<Rightarrow> 0))"
proof -
  obtain q m1 where g: "get_or_create_queue inst m = (q, m1)" by (meson surj_pair)
  have "queue_sound (QueueState inst)" by (simp add: QueueState_def queue_sound_def)
  then have m1: "micro_ok m1" "queue_sound q"
    using g assms(2) by (auto simp: get_or_create_queue_def micro_ok_def split: option.splits if_splits)
  have put: "micro_ok (put_queue inst q2 m2)" if "queue_sound q2" "mx_queues m2 = mx_queues m1" "mx_active m2 = mx_active m1" for q2 m2
    using that m1 by (auto simp: micro_ok_def put_queue_def)
  show ?thesis
  proof (cases tk)
    case (QuoteTick bid ask bv av)
    obtain e q2 m2 where r: "process_quote d inst bid ask bv av (q, m1) = (e, q2, m2)" by (metis prod_cases3)
    show ?thesis
      using assms(1) g r QuoteTick process_quote_ok[OF r m1(2)] put[of q2 m2] by (auto simp: process_event_def split: option.splits)
  next
    case (TradeTick p v)
    obtain x q2 m2 where r: "process_trade d inst p v market (q, m1) = (x, q2, m2)" by (metis prod_cases3)
    have "0 \<le> v" using assms(3) TradeTick by simp
    from process_trade_ok[OF r m1(2) this] show ?thesis
      using assms(1) g r TradeTick put[of q2 m2] by (auto simp: process_event_def)
  next
    case (AuctionTick p v)
    have v: "0 \<le> v" using assms(3) AuctionTick by simp
    obtain fb q1 where b: "update_from_trade v p ''buy'' q = (fb, q1)" by (meson surj_pair)
    obtain fa q2 where a: "update_from_trade v p ''sell'' q1 = (fa, q2)" by (meson surj_pair)
    have "queue_sound q2" "sum_list (map fe_quantity (fb @ fa)) \<le> 2 * v"
      using update_sound[OF b v m1(2)] update_sound[OF a v] by auto
    then show ?thesis
      using assms(1) g AuctionTick a b put[of q2 m1] by (auto simp: process_event_def process_auction_fills_def)
  next
    case OtherTick
    then show ?thesis using assms(1) g m1(1) by (auto simp: process_event_def)
  qed
qed

lemma active_idle:
  assumes "micro_ok m"
  shows "fst (process_active_orders inst tk m) = Inr []" "micro_ok (snd (process_active_orders inst tk m))"
proof -
  have "dict_get_or (mx_active m) inst [] = []"
    using assms by (auto simp: micro_ok_def dict_get_or_def split: option.split)
  then have "process_active_orders inst tk m = (Inr [], m) \<or>
      process_active_orders inst tk m = (Inr [], m\<lparr>mx_active := dict_set inst [] (mx_active m)\<rparr>)"
    by (simp add: process_active_orders_def split: option.split)
  then show "fst (process_active_orders inst tk m) = Inr []" "micro_ok (snd (process_active_orders inst tk m))"
    using assms by (auto simp: micro_ok_def split: if_splits)
qed

lemma micro_step_ok:
  assumes "micro_ok m" "volume_ok x"
  shows "micro_ok (micro_step d x m)"
proof (cases x)
  case (MarketTick inst tk market)
  then show ?thesis
    using process_event_ok[of d inst tk market m "fst (process_event d inst tk market m)" "snd (process_event d inst tk market m)"] assms
    by (simp add: micro_step_def)
next
  case (ActiveTick inst tk)
  then show ?thesis using active_idle(2)[OF assms(1)] by (simp add: micro_step_def)
next
  case ResetAll
  then show ?thesis by (simp add: micro_step_def micro_reset_def micro_ok_def)
qed

lemma micro_run_ok: "\<forall>x \<in> set xs. volume_ok x \<Longrightarrow> micro_ok (micro_run d xs)"
proof -
  have "micro_ok (fold (micro_step d) xs m)" if "micro_ok m" "\<forall>x \<in> set xs. volume_ok x" for m
    using that by (induction xs arbitrary: m) (auto intro: micro_step_ok)
  moreover have "micro_ok MicrostructureEngine" by (simp add: micro_ok_def MicrostructureEngine_def)
  ultimately show "\<forall>x \<in> set xs. volume_ok x \<Longrightarrow> micro_ok (micro_run d xs)" by (simp add: micro_run_def)
qed

text \<open>C28: simulated queues fill in order: in every history of market events with volumes of zero or more, a trade against a side
  fills no more than its volume, less what it took from the queue ahead; each order is reduced by exactly its fill, keeps
  its identity and stays sound (remaining between zero and its quantity, the status following it); and an order is filled only
  when every open order before it is filled completely.\<close>

theorem queue_fills_in_order:
  assumes "\<forall>x \<in> set xs. volume_ok x" "dict_get (mx_queues (micro_run d xs)) inst = Some q"
    and "update_from_trade vol p side q = (fs, q')" "0 \<le> vol"
    and "os = (if side = ''buy'' then sq_bids q else sq_asks q)" "os' = (if side = ''buy'' then sq_bids q' else sq_asks q')"
  shows "sum_list (map fe_quantity fs) + sum_list (map2 (\<lambda>a b. so_ahead a - so_ahead b) os os') \<le> vol
    \<and> list_all2 filled_step os os'
    \<and> fs = map (\<lambda>(a, b). fill_of p (took a b) b) (filter (\<lambda>(a, b). 0 < took a b) (zip os os'))
    \<and> (\<forall>i j. i < j \<longrightarrow> j < length os \<longrightarrow> is_open (os ! i) \<longrightarrow> 0 < took (os ! j) (os' ! j) \<longrightarrow> so_remaining (os' ! i) = 0)"
proof -
  have "queue_sound q" using micro_run_ok[OF assms(1)] assms(2) by (auto simp: micro_ok_def)
  then have s: "\<forall>ord \<in> set os. order_sound ord" using assms(5) by (auto simp: queue_sound_def)
  have t: "trade_loop p vol os = (fs, os')"
    using assms(3,5,6) by (auto simp: update_from_trade_def split: if_splits prod.splits)
  show ?thesis using trade_loop_facts[OF t s assms(4)] trade_loop_priority[OF t s assms(4)] by blast
qed

definition demo_draws :: draws where
  "demo_draws = \<lparr>dr_uniform = (\<lambda>n. 1 / 2), dr_exponential = (\<lambda>n. 10), dr_id = (\<lambda>n. ''o''), dr_power = (\<lambda>x a. x)\<rparr>"

definition demo_run :: "micro_op list" where
  "demo_run = [MarketTick ''X'' (QuoteTick 100 101 10 10) None]"

lemma demo_arrivals:
  "mx_arrival m = OrderArrivalModel \<Longrightarrow> draw_arrivals demo_draws 13 m = (1, m\<lparr>mx_drawn := Suc (mx_drawn m)\<rparr>)"
  by (simp add: draw_arrivals_def demo_draws_def sample_arrivals_def OrderArrivalModel_def arrivals_loop.simps)

lemma demo_depth: "estimate_total_depth HiddenLiquidityModel 10 10 0 = (13, 13)"
  by (simp add: estimate_total_depth_def effective_side_depth_def HiddenLiquidityModel_def py_int_def)

lemma demo_queue:
  "map_option (\<lambda>q. map so_remaining (sq_bids q)) (dict_get (mx_queues (micro_run demo_draws demo_run)) ''X'') = Some [10]"
  by (simp add: micro_run_def demo_run_def micro_step_def process_event_def get_or_create_queue_def MicrostructureEngine_def
      process_quote_def demo_depth demo_arrivals Let_def sample_price_offset_def put_queue_def)
     (simp add: demo_draws_def sample_quantity_def py_int_def update_cancel_rates_def add_order_def SimulatedOrder_def
      QueueState_def split: prod.split)

theorem queue_fills_in_order_witness:
  "\<exists>q. dict_get (mx_queues (micro_run demo_draws demo_run)) ''X'' = Some q \<and>
    sum_list (map fe_quantity (fst (update_from_trade 4 100 ''buy'' q))) \<le> 4"
proof -
  obtain q where q: "dict_get (mx_queues (micro_run demo_draws demo_run)) ''X'' = Some q" using demo_queue by auto
  obtain fs q' where u: "update_from_trade 4 100 ''buy'' q = (fs, q')" by (meson surj_pair)
  have v: "\<forall>x \<in> set demo_run. volume_ok x" by (simp add: demo_run_def)
  note f = queue_fills_in_order[OF v q u _ refl refl, simplified]
  have "list_all2 filled_step (sq_bids q) (sq_bids q')" using f by blast
  then have "0 \<le> sum_list (map2 (\<lambda>a b. so_ahead a - so_ahead b) (sq_bids q) (sq_bids q'))"
    by (intro sum_list_nonneg) (auto simp: list_all2_iff filled_step_def)
  then show ?thesis using q u f by (auto intro!: exI[of _ q])
qed

subsection \<open>Bounds of the models\<close>

lemma arrivals_loop_bounds: "k \<le> arrivals_loop ar lam threshold k p \<and> (k \<le> ar_max ar \<longrightarrow> arrivals_loop ar lam threshold k p \<le> ar_max ar)"
proof (induction ar lam threshold k p rule: arrivals_loop.induct)
  case (1 ar lam threshold k p)
  then show ?case by (subst (1 2) arrivals_loop.simps) auto
qed

text \<open>The draws are bounded: arrivals between the two limits, at least one while the uniform draw is below one; a quantity of at
  least one; a price within one per cent of the reference and never below a hundredth.\<close>

theorem draws_are_bounded:
  assumes "0 \<le> u" "u < 1" "0 \<le> ar_min ar" "ar_min ar \<le> ar_max ar" "1 \<le> ar_max ar" "0 < ref" "0 \<le> dev" "dev \<le> 1"
  shows "1 \<le> sample_arrivals ar u n \<and> ar_min ar \<le> sample_arrivals ar u n \<and> sample_arrivals ar u n \<le> ar_max ar
    \<and> 1 \<le> sample_quantity x
    \<and> (\<exists>p. sample_price_offset u ref dev = Inr p \<and> 1 / 100 \<le> p \<and> (p = 1 / 100 \<or> \<bar>p - ref\<bar> \<le> ref * dev))"
proof -
  have b: "0 \<le> arrivals_loop ar lam u 0 1 \<and> arrivals_loop ar lam u 0 1 \<le> ar_max ar" for lam
    using arrivals_loop_bounds[of 0 ar lam u 1] assms by auto
  have "1 \<le> arrivals_loop ar lam u 0 1" for lam
    using arrivals_loop_bounds[of 1 ar lam u "lam"] assms by (subst arrivals_loop.simps) auto
  then have a: "1 \<le> sample_arrivals ar u n" "ar_min ar \<le> sample_arrivals ar u n" "sample_arrivals ar u n \<le> ar_max ar"
    using b assms by (auto simp: sample_arrivals_def Let_def le_max_iff_disj)
  define p where "p = ref + ref * dev * (u * 2 - 1)"
  have "\<bar>u * 2 - 1\<bar> \<le> 1" using assms(1,2) by (simp add: abs_le_iff)
  then have "\<bar>ref * dev * (u * 2 - 1)\<bar> \<le> ref * dev"
    using assms mult_left_mono[of "\<bar>u * 2 - 1\<bar>" 1 "ref * dev"] by (simp add: abs_mult)
  then have "\<bar>p - ref\<bar> \<le> ref * dev" by (simp add: p_def)
  moreover have "sample_price_offset u ref dev = Inr (max (1 / 100) p)" using assms by (simp add: sample_price_offset_def p_def)
  ultimately show ?thesis using a by (simp add: sample_quantity_def max_def)
qed

theorem draws_are_bounded_witness:
  "1 \<le> sample_arrivals OrderArrivalModel (1 / 2) 7 \<and> sample_arrivals OrderArrivalModel (1 / 2) 7 \<le> 50
    \<and> (\<exists>p. sample_price_offset (1 / 2) 100 (1 / 100) = Inr p \<and> 1 / 100 \<le> p)"
  using draws_are_bounded[of "1 / 2" OrderArrivalModel 100 "1 / 100" 7 0] by (auto simp: OrderArrivalModel_def)

lemma py_int_mono: "x \<le> y \<Longrightarrow> py_int x \<le> py_int y"
  by (auto simp: py_int_def floor_mono ceiling_mono) (meson ceiling_le_zero floor_mono le_cases order_trans zero_le_floor)

lemma hidden_depth_bounds:
  assumes "0 \<le> visible" "1 < hl_multiplier h" "1 \<le> hl_min h" "hl_min h \<le> hl_max h"
  shows "visible \<le> effective_side_depth h visible v \<and> effective_side_depth h visible v \<le> py_int (of_int visible * hl_max h)"
proof -
  define f where "f = max (hl_min h) (min (hl_multiplier h + v * (1 / 10)) (hl_max h))"
  have f: "1 \<le> f" "f \<le> hl_max h" using assms by (auto simp: f_def)
  have "of_int visible * 1 \<le> of_int visible * f" "of_int visible * f \<le> of_int visible * hl_max h"
    using f assms(1) by (intro mult_left_mono; simp)+
  then have "visible \<le> py_int (of_int visible * f)" "py_int (of_int visible * f) \<le> py_int (of_int visible * hl_max h)"
    using py_int_mono[of "of_int visible" "of_int visible * f"] py_int_mono by auto
  then show ?thesis using assms(2) by (simp add: effective_side_depth_def f_def)
qed

subsection \<open>What the models do not do\<close>

definition two_buys :: sim_queue where
  "two_buys = add_order (SimulatedOrder ''b'' ''buy'' 90 10 0 ''X'') (add_order (SimulatedOrder ''a'' ''buy'' 90 10 0 ''X'') (QueueState ''X''))"

text \<open>The orders before one in the queue are counted twice: of two orders of ten, a trade of twenty fills only the first, since
  the second waits for the ten of the first again. The price of the order is not compared with the trade's.\<close>

lemma volume_ahead_counted_twice:
  "map (\<lambda>f. (fe_order f, fe_quantity f, fe_price f)) (fst (update_from_trade 20 100 ''buy'' two_buys)) = [(''a'', 10, 100)]"
  by code_simp

text \<open>An order that is partly filled leaves the queue's volume altogether.\<close>

lemma partial_fill_leaves_volume:
  "sq_bid_volume (snd (update_from_trade 4 100 ''buy'' (add_order (SimulatedOrder ''a'' ''buy'' 90 10 0 ''X'') (QueueState ''X'')))) = 0"
  by code_simp

definition both_sides :: sim_queue where
  "both_sides = add_order (SimulatedOrder ''s'' ''sell'' 90 10 0 ''X'') (add_order (SimulatedOrder ''b'' ''buy'' 90 10 0 ''X'') (QueueState ''X''))"

text \<open>The volume of one trade is used on both sides, at the price raised for a buyer: a trade of ten at 100 fills twenty, and the
  seller receives 110 where a seller's impact would lower the price.\<close>

lemma trade_volume_used_twice:
  "(case process_event (demo_draws\<lparr>dr_power := (\<lambda>x a. 1)\<rparr>) ''X'' (TradeTick 100 10) None (MicrostructureEngine\<lparr>mx_queues := [(''X'', both_sides)]\<rparr>) of
      (Inr fs, m) \<Rightarrow> map (\<lambda>f. (fe_side f, fe_quantity f, fe_price f)) fs | (Inl e, m) \<Rightarrow> [])
    = [(''buy'', 10, 110), (''sell'', 10, 110)]"
  by code_simp

text \<open>A quote without a bid (an instrument at its lower limit) raises: at least one order arrives, and its price cannot be drawn.\<close>

lemma quote_without_bid_raises:
  assumes "0 \<le> dr_uniform d i" "dr_uniform d i < 1" "i = mx_drawn m" "ar_min (mx_arrival m) = 0" "1 \<le> ar_max (mx_arrival m)"
  shows "fst (process_event d inst (QuoteTick 0 ask bv av) market m) = Inl ValueError"
proof -
  obtain q m1 where g: "get_or_create_queue inst m = (q, m1)" by (meson surj_pair)
  have m1: "mx_drawn m1 = i" "mx_arrival m1 = mx_arrival m"
    using g assms(3) by (auto simp: get_or_create_queue_def split: option.splits)
  have "1 \<le> sample_arrivals (mx_arrival m) (dr_uniform d i) hb" for hb
    using draws_are_bounded[of "dr_uniform d i" "mx_arrival m" 1 0 hb 0] assms by simp
  then have pos: "\<exists>n. nat (sample_arrivals (mx_arrival m) (dr_uniform d i) hb) = Suc n" for hb
    by (metis Suc_pred' zero_less_nat_eq zero_less_one_class.zero_less_one order_less_le_trans)
  have fail: "fst (arrive d inst ''buy'' 0 (Suc n) st) = Some ValueError" for n st
    by (cases st) (simp add: sample_price_offset_def)
  have "fst (process_quote d inst 0 ask bv av (q, m1)) = Some ValueError"
  proof -
    define m2 where "m2 = m1\<lparr>mx_prev := dict_set inst (sq_bid_volume q, sq_ask_volume q) (mx_prev m1)\<rparr>"
    obtain hb ha where h: "estimate_total_depth (mx_hidden m2) bv av 0 = (hb, ha)" by (meson surj_pair)
    obtain n where n: "nat (sample_arrivals (mx_arrival m) (dr_uniform d i) hb) = Suc n" using pos by blast
    obtain m3 where b: "draw_arrivals d hb m2 = (Suc n, m3)" using n m1 by (simp add: draw_arrivals_def m2_def)
    obtain na m4 where a: "draw_arrivals d ha m3 = (na, m4)" by (meson surj_pair)
    define q1 where "q1 = q\<lparr>sq_prev_bid := bv, sq_prev_ask := av, sq_bid_volume := hb, sq_ask_volume := ha\<rparr>"
    obtain st where f: "arrive d inst ''buy'' 0 (Suc n) (q1, m4) = (Some ValueError, st)"
      using fail[of n "(q1, m4)"] by (metis prod.collapse)
    show ?thesis
      unfolding process_quote_def prod.case Let_def m2_def[symmetric] h b a q1_def[symmetric] f by simp
  qed
  then show ?thesis using g by (auto simp: process_event_def split: prod.split option.split)
qed

text \<open>The engine has no cost model: an order it would fill raises, and since none is ever put among its active orders it never fills any.\<close>

lemma active_order_raises:
  "fst (process_active_orders ''X'' (TradeTick 100 10) (MicrostructureEngine\<lparr>mx_queues := [(''X'', QueueState ''X'')],
      mx_active := [(''X'', [SimulatedOrder ''a'' ''buy'' 100 5 0 ''X''])]\<rparr>)) = Inl AttributeError"
  by code_simp

lemma active_orders_never_fill:
  "\<forall>x \<in> set xs. volume_ok x \<Longrightarrow> fst (process_active_orders inst tk (micro_run d xs)) = Inr []"
  using active_idle(1)[OF micro_run_ok] by blast

end
