(* ===== verification/Replay_Engine.thy ===== *)
theory Replay_Engine
  imports Queue_Model Portfolio_Account Market_Policies Event_Stream Risk_Controls
begin

text \<open>
  The replay engine (\<open>backtesting/engine/replay_engine.py\<close>) and the data lake it reads
  (\<open>backtesting/engine/data_layer.py\<close>): raw records become the events of a timeline, each event
  updates the market, the microstructure and the portfolio, and the strategy's orders are checked and filled.

  It is composed of the models of its parts: \<open>Event_Stream\<close>, \<open>Order_Manager\<close> (market engine and costs),
  \<open>Market_Policies\<close>, \<open>Queue_Model\<close>, \<open>Portfolio_Account\<close> and \<open>Risk_Controls\<close>. A strategy is an argument,
  whose two calls may raise, as is what other coroutines do between events: whether one has called \<open>stop\<close>
  before the n-th. An exception ends the run with a failed result, so the run's answer is a sum. The numbers of
  a payload are numbers. A chunk lists each of its instruments once; the code leaves their order
  to a set, the model to \<open>remdups\<close>.
\<close>

subsection \<open>The data lake\<close>

definition datetime_min :: pytime where "datetime_min = - 62135596800"
definition datetime_max :: pytime where "datetime_max = 253402300799999999 / 1000000"

record data_chunk =
  ck_market :: string
  ck_instruments :: "string list"
  ck_start :: pytime
  ck_end :: pytime
  ck_records :: "raw_record list"
  ck_size :: nat

record data_lake =
  dl_data :: "(string, raw_record list) pydict"
  dl_chunk_size :: int

definition InMemoryDataLake :: data_lake where
  "InMemoryDataLake = \<lparr>dl_data = [], dl_chunk_size = 10000\<rparr>"

definition record_instrument :: "raw_record \<Rightarrow> string" where
  "record_instrument r = or_else (rw_instrument r) ''''"

definition selected :: "string list option \<Rightarrow> pytime option \<Rightarrow> pytime option \<Rightarrow> raw_record \<Rightarrow> bool" where
  "selected insts start fin r \<longleftrightarrow>
     (case insts of None \<Rightarrow> True | Some is \<Rightarrow> is = [] \<or> (case rw_instrument r of None \<Rightarrow> False | Some i \<Rightarrow> i \<in> set is))
     \<and> (case start of None \<Rightarrow> True | Some t \<Rightarrow> or_else (rw_timestamp r) datetime_min \<ge> t)
     \<and> (case fin of None \<Rightarrow> True | Some t \<Rightarrow> or_else (rw_timestamp r) datetime_max \<le> t)"

definition load_chunk ::
  "data_lake \<Rightarrow> string \<Rightarrow> string list option \<Rightarrow> pytime option \<Rightarrow> pytime option \<Rightarrow> py_error + data_chunk list" where
  "load_chunk lake mk insts start fin =
     (let records = filter (selected insts start fin) (dict_get_or (dl_data lake) mk []);
          instruments = remdups (map record_instrument records)
      in if dl_chunk_size lake = 0 then Inl ValueError
         else if dl_chunk_size lake < 0 then Inr []
         else Inr (map (\<lambda>rs. \<lparr>ck_market = mk, ck_instruments = instruments,
                              ck_start = or_else (rw_timestamp (hd rs)) datetime_min,
                              ck_end = or_else (rw_timestamp (List.last rs)) datetime_max, ck_records = rs, ck_size = length rs\<rparr>)
                    (batches (nat (dl_chunk_size lake)) records)))"

definition get_instruments :: "data_lake \<Rightarrow> string \<Rightarrow> string list" where
  "get_instruments lake mk = remdups (map record_instrument (dict_get_or (dl_data lake) mk []))"

definition get_available_markets :: "data_lake \<Rightarrow> string list" where
  "get_available_markets lake = dict_keys (dl_data lake)"

definition add_records :: "string \<Rightarrow> raw_record list \<Rightarrow> data_lake \<Rightarrow> data_lake" where
  "add_records mk rs lake =
     lake\<lparr>dl_data := dict_set mk (sort_key (\<lambda>r. or_else (rw_timestamp r) datetime_min) (dict_get_or (dl_data lake) mk [] @ rs))
                              (dl_data lake)\<rparr>"

subsection \<open>The engine's state\<close>

record bar =
  br_close :: pyfloat
  br_high :: pyfloat
  br_low :: pyfloat
  br_open :: pyfloat
  br_volume :: int
  br_instrument :: string
  br_market :: string
  br_time :: pytime

record 's strategy =
  st_on_event :: "market_event \<Rightarrow> 's \<Rightarrow> (py_error + order_request list) \<times> 's"
  st_on_bar :: "bar \<Rightarrow> 's \<Rightarrow> (py_error + order_request list) \<times> 's"
  st_reset :: "'s \<Rightarrow> 's"

record replay =
  rp_clock :: "unit clock"
  rp_market :: market_engine
  rp_rules :: rule_engine
  rp_sim :: fill_simulator
  rp_portfolio :: portfolio
  rp_stop :: stop_loss
  rp_take :: take_profit
  rp_drawdown :: drawdown_control
  rp_micro :: "micro_engine option"
  rp_running :: bool
  rp_count :: nat
  rp_fills :: nat \<comment> \<open>draws of the fill simulator\<close>

record equity_point =
  ep_time :: pytime
  ep_nav :: pyfloat
  ep_cash :: pyfloat
  ep_positions :: pyfloat

record backtest_result =
  rr_initial :: pyfloat
  rr_final :: pyfloat
  rr_return :: pyfloat
  rr_return_pct :: pyfloat
  rr_trades :: "sim_fill list"
  rr_curve :: "equity_point list"
  rr_events :: nat
  rr_markets :: "string list"
  rr_instruments :: "string list"

definition pay_num :: "(string, py_value) pydict \<Rightarrow> string \<Rightarrow> pyfloat \<Rightarrow> pyfloat" where
  "pay_num p k d = (case dict_get p k of Some (PFloat x) \<Rightarrow> x | Some (PInt n) \<Rightarrow> of_int n | _ \<Rightarrow> d)"

definition pay_int :: "(string, py_value) pydict \<Rightarrow> string \<Rightarrow> int" where
  "pay_int p k = (case dict_get p k of Some (PInt n) \<Rightarrow> n | Some (PFloat x) \<Rightarrow> py_int x | _ \<Rightarrow> 0)"

definition tick_of :: "market_event \<Rightarrow> tick" where
  \<comment> \<open>what the microstructure engine reads of an event\<close>
  "tick_of ev =
     (let p = me_payload ev in
      case me_type ev of
        QUOTE \<Rightarrow> QuoteTick (pay_num p ''bid'' 0) (pay_num p ''ask'' 0) (pay_int p ''bid_volume'') (pay_int p ''ask_volume'')
      | TRADE \<Rightarrow> TradeTick (pay_num p ''price'' 0) (pay_int p ''volume'')
      | AUCTION \<Rightarrow> AuctionTick (pay_num p ''auction_price'' 0) (pay_int p ''auction_volume'')
      | _ \<Rightarrow> OtherTick)"

definition price_event_of :: "market_event \<Rightarrow> price_event" where
  "price_event_of ev =
     \<lparr>pe_instrument = me_instrument ev, pe_price = pay_num (me_payload ev) ''price'' 0,
      pe_entry_price = pay_num (me_payload ev) ''entry_price'' 0\<rparr>"

definition plain_fill :: "fill_event \<Rightarrow> sim_fill" where
  "plain_fill f = \<lparr>fe_order = fe_order f, fe_instrument = fe_instrument f, fe_side = fe_side f, fe_quantity = fe_quantity f,
     fe_price = fe_price f, fe_commission = fe_commission f, sf_slippage = 0\<rparr>"

definition order_of :: "order_request \<Rightarrow> active_order" where
  \<comment> \<open>the order as the fill simulator reads it\<close>
  "order_of rq = \<lparr>ao_id = rq_id rq, ao_instrument = rq_instrument rq, ao_side = rq_side rq, ao_quantity = rq_quantity rq,
     ao_price = rq_price rq, ao_type = rq_type rq, ao_remaining = rq_quantity rq, ao_filled = 0, ao_status = NEW, ao_filled_at = None\<rparr>"

subsection \<open>One event\<close>

definition micro_fills :: "draws \<Rightarrow> market_event \<Rightarrow> replay \<Rightarrow> (py_error + sim_fill list) \<times> replay" where
  "micro_fills d ev s =
     (case rp_micro s of
        None \<Rightarrow> (Inr [], s)
      | Some m \<Rightarrow> (case process_event d (me_instrument ev) (tick_of ev) (Some (rp_market s)) m of
                     (r, m1) \<Rightarrow> (r, s\<lparr>rp_micro := Some m1\<rparr>)))"

definition active_fills :: "market_event \<Rightarrow> replay \<Rightarrow> (py_error + sim_fill list) \<times> replay" where
  "active_fills ev s =
     (case rp_micro s of
        None \<Rightarrow> (Inr [], s)
      | Some m \<Rightarrow> (case process_active_orders (me_instrument ev) (tick_of ev) m of (r, m1) \<Rightarrow> (r, s\<lparr>rp_micro := Some m1\<rparr>)))"

definition apply_event :: "market_event \<Rightarrow> replay \<Rightarrow> (py_error + sim_fill list) \<times> replay" where
  \<comment> \<open>the event's effect on the market and the portfolio\<close>
  "apply_event ev s =
     (let p = me_payload ev; i = me_instrument ev in
      case me_type ev of
        QUOTE \<Rightarrow>
          (Inr [], s\<lparr>rp_market := update_quote i (pay_num p ''bid'' 0) (pay_num p ''ask'' 0) (pay_int p ''bid_volume'')
                                    (pay_int p ''ask_volume'') (rp_market s)\<rparr>)
      | TRADE \<Rightarrow>
          if dict_get p ''price'' = None \<or> dict_get p ''volume'' = None then (Inl KeyError, s)
          else active_fills ev (s\<lparr>rp_market := update_trade i (pay_num p ''price'' 0) (pay_int p ''volume'') (pay_num p ''value'' 0)
                                                 (rp_market s)\<rparr>)
      | SESSION_START \<Rightarrow>
          (case update_price_limits i (set_session_state i ''open'' OPEN (rp_market s)) (rp_rules s) of
             (Inl e, rules) \<Rightarrow> (Inl e, s\<lparr>rp_market := set_session_state i ''open'' OPEN (rp_market s), rp_rules := rules\<rparr>)
           | (Inr mkt, rules) \<Rightarrow> (Inr [], s\<lparr>rp_market := mkt, rp_rules := rules\<rparr>))
      | SESSION_END \<Rightarrow> (Inr [], s\<lparr>rp_market := set_session_state i ''closed'' CLOSED (rp_market s)\<rparr>)
      | CORPORATE_ACTION \<Rightarrow>
          (let f = pay_num p ''adjustment_factor'' 1
           in (Inr [], if f \<noteq> 1 then s\<lparr>rp_portfolio := adjust_positions i f (rp_portfolio s)\<rparr> else s))
      | _ \<Rightarrow> (Inr [], s))"

definition bar_of :: "market_event \<Rightarrow> bar" where
  "bar_of ev =
     (let x = pay_num (me_payload ev) ''price'' 0
      in \<lparr>br_close = x, br_high = x, br_low = x, br_open = x, br_volume = pay_int (me_payload ev) ''volume'',
          br_instrument = me_instrument ev, br_market = me_market ev, br_time = me_time ev\<rparr>)"

definition ask_strategy :: "'s strategy \<Rightarrow> market_event \<Rightarrow> 's \<Rightarrow> (py_error + order_request list) \<times> 's" where
  "ask_strategy strat ev x =
     (case st_on_event strat ev x of
        (Inl e, x1) \<Rightarrow> (Inl e, x1)
      | (Inr orders, x1) \<Rightarrow>
          if orders = [] \<and> me_type ev = TRADE then st_on_bar strat (bar_of ev) x1 else (Inr orders, x1))"

definition impacted :: "draws \<Rightarrow> order_request \<Rightarrow> sim_fill \<Rightarrow> replay \<Rightarrow> sim_fill" where
  "impacted d rq f s =
     (case rp_micro s of
        None \<Rightarrow> f
      | Some m \<Rightarrow>
          (case get_state (rp_market s) (rq_instrument rq) of
             None \<Rightarrow> f
           | Some st \<Rightarrow> apply_to_fill (dr_power d) (mx_impact m) f (of_int (max (traded_volume st) 1000000))))"

definition place_order ::
  "draws \<Rightarrow> (nat \<Rightarrow> pyfloat) \<Rightarrow> (nat \<Rightarrow> string) \<Rightarrow> market_event \<Rightarrow> order_request \<Rightarrow> replay \<Rightarrow> (py_error + sim_fill list) \<times> replay" where
  \<comment> \<open>one order: refused, held back by a triggered stop or target, not filled, or filled and booked\<close>
  "place_order d u ids ev rq s0 =
     (case check_market_order rq (rp_market s0) (rp_rules s0) of
        (Inl e, rules) \<Rightarrow> (Inl e, s0\<lparr>rp_rules := rules\<rparr>)
      | (Inr verdict, rules) \<Rightarrow>
          (let s = s0\<lparr>rp_rules := rules\<rparr> in
           if verdict \<noteq> Checked Order_OK then (Inr [], s)
           else
             (let (stop, sl) = sl_is_triggered (position_quantities (rp_portfolio s)) (Some (price_event_of ev)) (rp_stop s);
                  s1 = s\<lparr>rp_stop := sl\<rparr>
              in if stop then (Inr [], s1)
                 else if tp_is_triggered (position_quantities (rp_portfolio s1)) (Some (price_event_of ev)) (rp_take s1) then (Inr [], s1)
                 else
                   (let n = rp_fills s1;
                        s2 = s1\<lparr>rp_fills := Suc n\<rparr>
                    in case simulate_fill (u n) (ids n) (rp_sim s2) (order_of rq) (pay_num (me_payload ev) ''close'' (rq_price rq)) of
                         None \<Rightarrow> (Inr [], s2)
                       | Some f \<Rightarrow>
                           (let (g, pf) = update_fill (impacted d rq (plain_fill f) s2) (rp_portfolio s2)
                            in (Inr [g], s2\<lparr>rp_portfolio := pf\<rparr>))))))"

fun place_orders ::
  "draws \<Rightarrow> (nat \<Rightarrow> pyfloat) \<Rightarrow> (nat \<Rightarrow> string) \<Rightarrow> market_event \<Rightarrow> order_request list \<Rightarrow> replay \<Rightarrow> (py_error + sim_fill list) \<times> replay" where
  "place_orders d u ids ev [] s = (Inr [], s)"
| "place_orders d u ids ev (rq # rqs) s =
     (case place_order d u ids ev rq s of
        (Inl e, s1) \<Rightarrow> (Inl e, s1)
      | (Inr fs, s1) \<Rightarrow>
          (case place_orders d u ids ev rqs s1 of (Inl e, s2) \<Rightarrow> (Inl e, s2) | (Inr gs, s2) \<Rightarrow> (Inr (fs @ gs), s2)))"

definition replay_event ::
  "draws \<Rightarrow> (nat \<Rightarrow> pyfloat) \<Rightarrow> (nat \<Rightarrow> string) \<Rightarrow> 's strategy \<Rightarrow> market_event \<Rightarrow> replay \<times> 's \<Rightarrow> (py_error + sim_fill list) \<times> replay \<times> 's" where
  \<comment> \<open>\<open>_process_event\<close>\<close>
  "replay_event d u ids strat ev st =
     (case st of (s, x) \<Rightarrow>
        case micro_fills d ev s of
          (Inl e, s1) \<Rightarrow> (Inl e, s1, x)
        | (Inr fs1, s1) \<Rightarrow>
            (case apply_event ev s1 of
               (Inl e, s2) \<Rightarrow> (Inl e, s2, x)
             | (Inr fs2, s2) \<Rightarrow>
                 (case ask_strategy strat ev x of
                    (Inl e, x1) \<Rightarrow> (Inl e, s2, x1)
                  | (Inr orders, x1) \<Rightarrow>
                      (case place_orders d u ids ev orders s2 of
                         (Inl e, s3) \<Rightarrow> (Inl e, s3, x1)
                       | (Inr fs3, s3) \<Rightarrow> (Inr (fs1 @ fs2 @ fs3), s3, x1)))))"

subsection \<open>The run\<close>

definition curve_point :: "market_event \<Rightarrow> replay \<Rightarrow> equity_point" where
  "curve_point ev s =
     \<lparr>ep_time = me_time ev, ep_nav = portfolio_nav (rp_portfolio s), ep_cash = pf_cash (rp_portfolio s),
      ep_positions = positions_value (rp_portfolio s)\<rparr>"

definition enter_event :: "market_event \<Rightarrow> replay \<Rightarrow> replay" where
  "enter_event ev s = s\<lparr>rp_count := Suc (rp_count s), rp_clock := jump_to (me_time ev) (rp_clock s)\<rparr>"

definition leave_event :: "market_event \<Rightarrow> replay \<Rightarrow> replay \<times> equity_point list" where
  "leave_event ev s =
     (if me_type ev \<in> {TRADE, QUOTE}
      then (s\<lparr>rp_drawdown := dd_update (portfolio_nav (rp_portfolio s)) (rp_drawdown s)\<rparr>, [curve_point ev s]) else (s, []))"

fun replay_loop ::
  "draws \<Rightarrow> (nat \<Rightarrow> pyfloat) \<Rightarrow> (nat \<Rightarrow> string) \<Rightarrow> (nat \<Rightarrow> bool) \<Rightarrow> 's strategy \<Rightarrow> market_event list \<Rightarrow> replay \<times> 's \<Rightarrow>
     (py_error + sim_fill list \<times> equity_point list) \<times> replay \<times> 's" where
  "replay_loop d u ids stops strat [] st = (Inr ([], []), st)"
| "replay_loop d u ids stops strat (ev # evs) (s, x) =
     (let s0 = (if stops (rp_count s) then s\<lparr>rp_running := False\<rparr> else s) in
      if \<not> rp_running s0 then (Inr ([], []), s0, x)
      else
        (case replay_event d u ids strat ev (enter_event ev s0, x) of
           (Inl e, st1) \<Rightarrow> (Inl e, st1)
         | (Inr fs, s1, x1) \<Rightarrow>
             (let (s2, pts) = leave_event ev s1
              in case replay_loop d u ids stops strat evs (s2, x1) of
                   (Inl e, st2) \<Rightarrow> (Inl e, st2)
                 | (Inr (gs, qs), st2) \<Rightarrow> (Inr (fs @ gs, pts @ qs), st2))))"

definition replay_reset :: "pyfloat \<Rightarrow> replay \<Rightarrow> replay" where
  "replay_reset capital s =
     s\<lparr>rp_clock := clock_reset (rp_clock s), rp_market := market_reset (rp_market s),
       rp_portfolio := pf_reset capital (rp_portfolio s), rp_micro := map_option micro_reset (rp_micro s), rp_running := True,
       rp_count := 0\<rparr>"

definition track :: "string \<Rightarrow> string list \<Rightarrow> market_engine \<Rightarrow> market_engine" where
  "track mk is mkt = fold (\<lambda>i m. if get_state m i = None then add_instrument i mk 0 m else m) is mkt"

fun add_raws :: "raw_record list \<Rightarrow> timeline \<Rightarrow> py_error option \<times> timeline" where
  "add_raws [] tm = (None, tm)"
| "add_raws (r # rs) tm = (case from_raw r of Inl e \<Rightarrow> (Some e, tm) | Inr ev \<Rightarrow> add_raws rs (add_event ev tm))"

fun add_chunks :: "string \<Rightarrow> data_chunk list \<Rightarrow> timeline \<times> market_engine \<Rightarrow> py_error option \<times> timeline \<times> market_engine" where
  "add_chunks mk [] st = (None, st)"
| "add_chunks mk (c # cs) (tm, mkt) =
     (case add_raws (ck_records c) tm of
        (Some e, tm1) \<Rightarrow> (Some e, tm1, mkt)
      | (None, tm1) \<Rightarrow> add_chunks mk cs (tm1, track mk (ck_instruments c) mkt))"

fun add_markets ::
  "data_lake \<Rightarrow> string list option \<Rightarrow> pytime option \<Rightarrow> pytime option \<Rightarrow> string list \<Rightarrow> timeline \<times> market_engine \<Rightarrow>
     py_error option \<times> timeline \<times> market_engine" where
  "add_markets lake insts start fin [] st = (None, st)"
| "add_markets lake insts start fin (mk # mks) st =
     (case load_chunk lake mk insts start fin of
        Inl e \<Rightarrow> (Some e, st)
      | Inr cs \<Rightarrow>
          (case add_chunks mk cs st of
             (Some e, st1) \<Rightarrow> (Some e, st1)
           | (None, st1) \<Rightarrow> add_markets lake insts start fin mks st1))"

definition build_timeline ::
  "data_lake \<Rightarrow> string list option \<Rightarrow> string list option \<Rightarrow> pytime option \<Rightarrow> pytime option \<Rightarrow> market_engine \<Rightarrow>
     py_error option \<times> timeline \<times> market_engine" where
  \<comment> \<open>an empty list of markets means all of them\<close>
  "build_timeline lake markets insts start fin mkt =
     add_markets lake insts start fin
       (case markets of Some (m # ms) \<Rightarrow> m # ms | _ \<Rightarrow> get_available_markets lake) (timeline_init, mkt)"

definition replay_run ::
  "draws \<Rightarrow> (nat \<Rightarrow> pyfloat) \<Rightarrow> (nat \<Rightarrow> string) \<Rightarrow> (nat \<Rightarrow> bool) \<Rightarrow> 's strategy \<Rightarrow> data_lake \<Rightarrow> pyfloat \<Rightarrow> string list option \<Rightarrow>
     string list option \<Rightarrow> pytime option \<Rightarrow> pytime option \<Rightarrow> replay \<times> 's \<Rightarrow> (py_error + backtest_result) \<times> replay \<times> 's" where
  "replay_run d u ids stops strat lake capital markets insts start fin st0 =
     (case st0 of (s0, x0) \<Rightarrow>
        let s1 = replay_reset capital s0; x1 = st_reset strat x0 in
        case build_timeline lake markets insts start fin (rp_market s1) of
          (Some e, tm, mkt) \<Rightarrow> (Inl e, s1\<lparr>rp_market := mkt\<rparr>, x1)
        | (None, tm, mkt) \<Rightarrow>
            (let (stats, tm1) = get_stats tm;
                 (evs, tm2) = tl_iter tm1
             in case replay_loop d u ids stops strat evs (s1\<lparr>rp_market := mkt\<rparr>, x1) of
                  (Inl e, st2) \<Rightarrow> (Inl e, st2)
                | (Inr (fs, pts), s2, x2) \<Rightarrow>
                    (let nav = portfolio_nav (rp_portfolio s2)
                     in (if capital = 0 then Inl ZeroDivisionError
                         else Inr \<lparr>rr_initial = capital, rr_final = nav, rr_return = nav - capital,
                                   rr_return_pct = (nav / capital - 1) * 100, rr_trades = fs, rr_curve = pts, rr_events = rp_count s2,
                                   rr_markets = dict_keys (market_counts stats),
                                   rr_instruments = dict_keys (instrument_counts stats)\<rparr>, s2, x2))))"

subsection \<open>The books\<close>

definition no_rebase :: "market_event \<Rightarrow> bool" where
  "no_rebase ev \<longleftrightarrow> (me_type ev = CORPORATE_ACTION \<longrightarrow> pay_num (me_payload ev) ''adjustment_factor'' 1 = 1)"

definition positive_orders :: "'s strategy \<Rightarrow> bool" where
  "positive_orders strat \<longleftrightarrow>
     (\<forall>ev x rqs. fst (st_on_event strat ev x) = Inr rqs \<longrightarrow> (\<forall>rq \<in> set rqs. 0 < rq_quantity rq))
     \<and> (\<forall>b x rqs. fst (st_on_bar strat b x) = Inr rqs \<longrightarrow> (\<forall>rq \<in> set rqs. 0 < rq_quantity rq))"

lemma apply_to_fill_quantity [simp]: "fe_quantity (apply_to_fill pow im f adv) = fe_quantity f"
  by (simp add: apply_to_fill_def Let_def)

lemma impacted_quantity [simp]: "fe_quantity (impacted d rq f s) = fe_quantity f"
  by (simp add: impacted_def split: option.split)

definition same_run :: "replay \<Rightarrow> replay \<Rightarrow> bool" where
  "same_run s s' \<longleftrightarrow> rp_count s' = rp_count s \<and> rp_running s' = rp_running s \<and> (rp_micro s' = None \<longleftrightarrow> rp_micro s = None)"

lemma place_order_cases:
  assumes "place_order d u ids ev rq s = (Inr fs, s')"
  shows "(fs = [] \<and> rp_portfolio s' = rp_portfolio s \<and> same_run s s') \<or>
    (\<exists>n s2 f g pf. same_run s s2 \<and> rp_portfolio s2 = rp_portfolio s \<and>
       simulate_fill (u n) (ids n) (rp_sim s2) (order_of rq) (pay_num (me_payload ev) ''close'' (rq_price rq)) = Some f \<and>
       update_fill (impacted d rq (plain_fill f) s2) (rp_portfolio s) = (g, pf) \<and> fs = [g] \<and> s' = s2\<lparr>rp_portfolio := pf\<rparr>)"
proof -
  obtain r rules where c: "check_market_order rq (rp_market s) (rp_rules s) = (r, rules)" by (meson surj_pair)
  define s1 where "s1 = s\<lparr>rp_rules := rules\<rparr>"
  have 1: "same_run s s1" "rp_portfolio s1 = rp_portfolio s" by (simp_all add: s1_def same_run_def)
  obtain verdict where v: "r = Inr verdict" using assms c by (cases r) (auto simp: place_order_def)
  show ?thesis
  proof (cases "verdict = Checked Order_OK")
    case False
    then show ?thesis using assms c v 1 by (simp add: place_order_def s1_def)
  next
    case True
    obtain stop sl where st: "sl_is_triggered (position_quantities (rp_portfolio s1)) (Some (price_event_of ev)) (rp_stop s1) = (stop, sl)"
      by (meson surj_pair)
    define s2 where "s2 = s1\<lparr>rp_stop := sl\<rparr>"
    define s3 where "s3 = s2\<lparr>rp_fills := Suc (rp_fills s2)\<rparr>"
    have 2: "same_run s s2" "rp_portfolio s2 = rp_portfolio s" "same_run s s3" "rp_portfolio s3 = rp_portfolio s"
      using 1 by (simp_all add: s2_def s3_def same_run_def)
    have eq: "place_order d u ids ev rq s =
       (if stop then (Inr [], s2)
        else if tp_is_triggered (position_quantities (rp_portfolio s2)) (Some (price_event_of ev)) (rp_take s2) then (Inr [], s2)
        else (case simulate_fill (u (rp_fills s2)) (ids (rp_fills s2)) (rp_sim s3) (order_of rq) (pay_num (me_payload ev) ''close'' (rq_price rq)) of
                None \<Rightarrow> (Inr [], s3)
              | Some f \<Rightarrow> (let (g, pf) = update_fill (impacted d rq (plain_fill f) s3) (rp_portfolio s3)
                           in (Inr [g], s3\<lparr>rp_portfolio := pf\<rparr>))))"
      unfolding place_order_def c v prod.case sum.case Let_def s1_def[symmetric] True st s2_def[symmetric] s3_def[symmetric]
      by simp
    show ?thesis
    proof (cases "stop \<or> tp_is_triggered (position_quantities (rp_portfolio s2)) (Some (price_event_of ev)) (rp_take s2)")
      case True
      then have "place_order d u ids ev rq s = (Inr [], s2)" unfolding eq by auto
      then show ?thesis using assms 2(1,2) by simp
    next
      case False
      show ?thesis
      proof (cases "simulate_fill (u (rp_fills s2)) (ids (rp_fills s2)) (rp_sim s3) (order_of rq) (pay_num (me_payload ev) ''close'' (rq_price rq))")
        case None
        then have "place_order d u ids ev rq s = (Inr [], s3)" unfolding eq using False by auto
        then show ?thesis using assms 2(3,4) by simp
      next
        case (Some f)
        obtain g pf where g: "update_fill (impacted d rq (plain_fill f) s3) (rp_portfolio s3) = (g, pf)" by (meson surj_pair)
        have "place_order d u ids ev rq s = (Inr [g], s3\<lparr>rp_portfolio := pf\<rparr>)" unfolding eq using False Some g by auto
        then have "fs = [g]" "s' = s3\<lparr>rp_portfolio := pf\<rparr>" using assms by simp_all
        then show ?thesis using 2(3,4) Some g by metis
      qed
    qed
  qed
qed

lemma place_order_books:
  assumes "place_order d u ids ev rq s = (Inr fs, s')" "books_ok capital hist (rp_portfolio s)" "0 < rq_quantity rq"
  shows "books_ok capital (hist @ fs) (rp_portfolio s') \<and> same_run s s'"
  using place_order_cases[OF assms(1)]
proof (elim disjE exE conjE)
  fix n s2 f g pf
  assume f: "simulate_fill (u n) (ids n) (rp_sim s2) (order_of rq) (pay_num (me_payload ev) ''close'' (rq_price rq)) = Some f"
    and g: "update_fill (impacted d rq (plain_fill f) s2) (rp_portfolio s) = (g, pf)" and e: "fs = [g]" "s' = s2\<lparr>rp_portfolio := pf\<rparr>"
    and r: "same_run s s2"
  have "fe_quantity f = rq_quantity rq" using f by (auto simp: simulate_fill_def order_of_def split: if_splits)
  then have "0 < fe_quantity (impacted d rq (plain_fill f) s2)" using assms(3) by (simp add: plain_fill_def)
  from books_ok_fill[OF assms(2) g this] show ?thesis using e r by (simp add: same_run_def)
qed (use assms(2) in simp)

lemma same_run_trans: "same_run a b \<Longrightarrow> same_run b c \<Longrightarrow> same_run a c"
  by (simp add: same_run_def)

lemma place_orders_books:
  assumes "place_orders d u ids ev rqs s = (Inr fs, s')" "books_ok capital hist (rp_portfolio s)" "\<forall>rq \<in> set rqs. 0 < rq_quantity rq"
  shows "books_ok capital (hist @ fs) (rp_portfolio s') \<and> same_run s s'"
  using assms
proof (induction rqs arbitrary: s fs hist s')
  case (Cons rq rqs)
  obtain r s1 where p: "place_order d u ids ev rq s = (r, s1)" by (meson surj_pair)
  obtain gs where r: "r = Inr gs" using Cons.prems(1) p by (cases r) auto
  obtain r2 s2 where q: "place_orders d u ids ev rqs s1 = (r2, s2)" by (meson surj_pair)
  obtain hs where r2: "r2 = Inr hs" using Cons.prems(1) p q r by (cases r2) auto
  have 1: "books_ok capital (hist @ gs) (rp_portfolio s1) \<and> same_run s s1"
    using place_order_books[OF p[unfolded r] Cons.prems(2)] Cons.prems(3) by simp
  have e: "fs = gs @ hs" "s' = s2" using Cons.prems(1) p q r r2 by auto
  have "books_ok capital ((hist @ gs) @ hs) (rp_portfolio s2) \<and> same_run s1 s2"
    by (rule Cons.IH[OF q[unfolded r2]]) (use 1 Cons.prems(3) in auto)
  then show ?case using 1 e same_run_trans by auto
qed (simp add: same_run_def)

lemma apply_event_books:
  assumes "apply_event ev s = (Inr fs, s')" "rp_micro s = None" "no_rebase ev"
  shows "fs = [] \<and> rp_portfolio s' = rp_portfolio s \<and> same_run s s'"
  using assms
  by (auto simp: apply_event_def active_fills_def no_rebase_def same_run_def Let_def split: event_type.splits if_splits prod.splits sum.splits)

lemma replay_event_books:
  assumes "replay_event d u ids strat ev (s, x) = (Inr fs, s', x')" "books_ok capital hist (rp_portfolio s)"
    and "rp_micro s = None" "no_rebase ev" "positive_orders strat"
  shows "books_ok capital (hist @ fs) (rp_portfolio s') \<and> same_run s s'"
proof -
  obtain r2 s2 where a: "apply_event ev s = (r2, s2)" by (meson surj_pair)
  have m: "micro_fills d ev s = (Inr [], s)" using assms(3) by (simp add: micro_fills_def)
  obtain fs2 where r2: "r2 = Inr fs2" using assms(1) m a by (cases r2) (auto simp: replay_event_def)
  obtain r x1 where k: "ask_strategy strat ev x = (r, x1)" by (meson surj_pair)
  obtain orders where r: "r = Inr orders" using assms(1) m a r2 k by (cases r) (auto simp: replay_event_def)
  obtain r3 s3 where p: "place_orders d u ids ev orders s2 = (r3, s3)" by (meson surj_pair)
  obtain fs3 where r3: "r3 = Inr fs3" using assms(1) m a r2 k r p by (cases r3) (auto simp: replay_event_def)
  have e: "fs = fs2 @ fs3" "s' = s3" using assms(1) m a r2 k r p r3 by (auto simp: replay_event_def)
  have 2: "fs2 = []" "rp_portfolio s2 = rp_portfolio s" "same_run s s2"
    using apply_event_books[OF a[unfolded r2] assms(3,4)] by auto
  have "\<forall>rq \<in> set orders. 0 < rq_quantity rq"
  proof -
    have "fst (st_on_event strat ev x) = Inr orders \<or> (\<exists>y. fst (st_on_bar strat (bar_of ev) y) = Inr orders)"
      using k r by (auto simp: ask_strategy_def split: prod.splits sum.splits if_splits) (metis fst_conv)
    then show ?thesis using assms(5) unfolding positive_orders_def by blast
  qed
  from place_orders_books[OF p[unfolded r3] _ this] show ?thesis using e 2 assms(2) same_run_trans by auto
qed

subsection \<open>Time order and the curve\<close>

definition market_tick :: "market_event \<Rightarrow> bool" where
  "market_tick ev \<longleftrightarrow> me_type ev \<in> {TRADE, QUOTE}"

definition point_adds_up :: "equity_point \<Rightarrow> bool" where
  "point_adds_up p \<longleftrightarrow> ep_nav p = ep_cash p + ep_positions p"

lemma leave_event_frame:
  "leave_event ev s = (s', pts) \<Longrightarrow> rp_portfolio s' = rp_portfolio s \<and> same_run s s' \<and> pts = (if market_tick ev then [curve_point ev s] else [])"
  by (auto simp: leave_event_def same_run_def market_tick_def split: if_splits)

lemma curve_point_adds: "point_adds_up (curve_point ev s) \<and> ep_time (curve_point ev s) = me_time ev"
  by (simp add: point_adds_up_def curve_point_def portfolio_nav_def)

lemma replay_loop_facts:
  assumes "replay_loop d u ids stops strat evs (s, x) = (Inr (fs, pts), s', x')"
    and "books_ok capital hist (rp_portfolio s)" "rp_micro s = None" "\<forall>ev \<in> set evs. no_rebase ev" "positive_orders strat"
    and "rp_running s"
  shows "books_ok capital (hist @ fs) (rp_portfolio s')
    \<and> (\<exists>k \<le> length evs. rp_count s' = rp_count s + k \<and> (k = length evs \<or> stops (rp_count s'))
        \<and> (\<forall>m. rp_count s \<le> m \<and> m < rp_count s' \<longrightarrow> \<not> stops m)
        \<and> map ep_time pts = map me_time (filter market_tick (take k evs))) \<and> list_all point_adds_up pts"
  using assms
proof (induction evs arbitrary: s x fs pts hist)
  case Nil
  then show ?case by auto
next
  case (Cons ev evs)
  show ?case
  proof (cases "stops (rp_count s)")
    case True
    then have "fs = []" "pts = []" "rp_portfolio s' = rp_portfolio s" "rp_count s' = rp_count s"
      using Cons.prems(1) by (auto simp: Let_def)
    then show ?thesis using Cons.prems(2) True by (auto intro!: exI[of _ 0])
  next
    case False
    obtain r s1 x1 where e: "replay_event d u ids strat ev (enter_event ev s, x) = (r, s1, x1)" by (metis prod_cases3)
    obtain gs where r: "r = Inr gs" using Cons.prems(1,6) False e by (cases r) (auto simp: Let_def)
    obtain s2 ps where l: "leave_event ev s1 = (s2, ps)" by (meson surj_pair)
    obtain r2 s3 x3 where q: "replay_loop d u ids stops strat evs (s2, x1) = (r2, s3, x3)" by (metis prod_cases3)
    obtain hs qs where r2: "r2 = Inr (hs, qs)"
      using Cons.prems(1,6) False e r l q by (cases r2) (auto simp: Let_def)
    have eq: "fs = gs @ hs" "pts = ps @ qs" "s' = s3" "x' = x3"
      using Cons.prems(1,6) False e r l q r2 by (auto simp: Let_def)
    have b: "books_ok capital (hist @ gs) (rp_portfolio s1)" "same_run (enter_event ev s) s1"
      using replay_event_books[OF e[unfolded r]] Cons.prems(2-5) by (auto simp: enter_event_def)
    note lf = leave_event_frame[OF l]
    have s2: "rp_count s2 = Suc (rp_count s)" "rp_running s2" "rp_micro s2 = None" "books_ok capital (hist @ gs) (rp_portfolio s2)"
      using b lf Cons.prems(3,6) by (auto simp: same_run_def enter_event_def)
    have ih: "books_ok capital ((hist @ gs) @ hs) (rp_portfolio s')
      \<and> (\<exists>k \<le> length evs. rp_count s' = rp_count s2 + k \<and> (k = length evs \<or> stops (rp_count s'))
          \<and> (\<forall>m. rp_count s2 \<le> m \<and> m < rp_count s' \<longrightarrow> \<not> stops m)
          \<and> map ep_time qs = map me_time (filter market_tick (take k evs))) \<and> list_all point_adds_up qs"
      by (rule Cons.IH[OF q[unfolded r2, folded eq(3,4)] s2(4,3) _ Cons.prems(5) s2(2)]) (use Cons.prems(4) in simp)
    then obtain k where k: "k \<le> length evs" "rp_count s' = rp_count s2 + k" "k = length evs \<or> stops (rp_count s')"
      "\<forall>m. rp_count s2 \<le> m \<and> m < rp_count s' \<longrightarrow> \<not> stops m"
      "map ep_time qs = map me_time (filter market_tick (take k evs))" by blast
    have "map ep_time pts = map me_time (filter market_tick (take (Suc k) (ev # evs)))"
      using k(5) lf curve_point_adds by (simp add: eq)
    moreover have "list_all point_adds_up pts" using ih lf curve_point_adds by (simp add: eq)
    moreover have "\<forall>m. rp_count s \<le> m \<and> m < rp_count s' \<longrightarrow> \<not> stops m"
      using k(4) s2(1) False by (metis le_neq_implies_less Suc_leI)
    ultimately show ?thesis
      using ih k(1-3) s2(1) by (auto simp: eq intro!: exI[of _ "Suc k"])
  qed
qed

lemma add_raws_ok: "add_raws rs tm = (e, tm') \<Longrightarrow> timeline_ok tm \<Longrightarrow> timeline_ok tm'"
  by (induction rs arbitrary: tm) (auto split: sum.splits)

lemma add_chunks_ok: "add_chunks mk cs (tm, mkt) = (e, tm', mkt') \<Longrightarrow> timeline_ok tm \<Longrightarrow> timeline_ok tm'"
  by (induction cs arbitrary: tm mkt) (auto split: option.splits prod.splits dest: add_raws_ok)

lemma add_markets_ok: "add_markets lake insts start fin mks (tm, mkt) = (e, tm', mkt') \<Longrightarrow> timeline_ok tm \<Longrightarrow> timeline_ok tm'"
proof (induction mks arbitrary: tm mkt)
  case (Cons mk mks)
  obtain cs where l: "load_chunk lake mk insts start fin = Inr cs \<or> (\<exists>x. load_chunk lake mk insts start fin = Inl x)"
    by (cases "load_chunk lake mk insts start fin") auto
  obtain e1 tm1 mkt1 where c: "add_chunks mk cs (tm, mkt) = (e1, tm1, mkt1)" by (metis prod_cases3)
  have "timeline_ok tm1" by (rule add_chunks_ok[OF c Cons.prems(2)])
  then show ?case using Cons.IH[of tm1 mkt1] Cons.prems l c by (auto split: option.splits)
qed simp

lemma built_timeline:
  assumes "build_timeline lake markets insts start fin mkt0 = (e, tm, mkt)"
  shows "fst (tl_iter (snd (get_stats tm))) = sort_key event_key (tl_events tm)"
proof -
  have "timeline_ok tm" using assms add_markets_ok timeline_ok_init by (auto simp: build_timeline_def)
  then have "tl_events (ensure_sorted tm) = sort_key event_key (tl_events tm)" by (rule ensure_sorted_events)
  then show ?thesis by (simp add: tl_iter_def get_stats_def Let_def ensure_sorted_def)
qed

lemma sorted_times: "sorted (map event_key evs) \<Longrightarrow> sorted (map me_time (filter P (take k evs)))"
proof -
  assume "sorted (map event_key evs)"
  then have "sorted_wrt (\<lambda>a b. event_key a \<le> event_key b) evs" by (simp add: sorted_map)
  then have "sorted_wrt (\<lambda>a b. me_time a \<le> me_time b) evs"
    by (rule sorted_wrt_mono_rel[rotated]) (auto simp: event_key_def less_eq_prod_def)
  then have "sorted_wrt (\<lambda>a b. me_time a \<le> me_time b) (take k evs)" by (rule sorted_wrt_take)
  then have "sorted_wrt (\<lambda>a b. me_time a \<le> me_time b) (filter P (take k evs))" by (rule sorted_wrt_filter)
  then show ?thesis by (simp add: sorted_map)
qed

text \<open>C30: a replay reconciles: when a run without the microstructure engine succeeds, on a timeline without capital adjustments and for a
  strategy that orders positive quantities, the portfolio holds exactly what the reported trades made of the initial capital, the
  reported final value is its value, the events were handled in the order of time and priority, all of them or those before the first one at which a stop was requested,
  and the equity curve has one point for each trade or quote handled, in the order of time, whose parts add up.\<close>

theorem replay_reconciles:
  assumes "replay_run d u ids stops strat lake capital markets insts start fin (s0, x0) = (Inr res, s', x')"
    and "build_timeline lake markets insts start fin [] = (None, tm, mkt)"
    and "rp_micro s0 = None" "\<forall>ev \<in> set (tl_events tm). no_rebase ev" "positive_orders strat"
    and "evs = sort_key event_key (tl_events tm)"
  shows "books_ok capital (rr_trades res) (rp_portfolio s')
    \<and> rr_final res = portfolio_nav (rp_portfolio s') \<and> rr_return res = rr_final res - capital
    \<and> (rr_events res = length evs \<or> rr_events res < length evs \<and> stops (rr_events res))
    \<and> (\<forall>m. m < rr_events res \<longrightarrow> \<not> stops m)
    \<and> map ep_time (rr_curve res) = map me_time (filter market_tick (take (rr_events res) evs))
    \<and> sorted (map ep_time (rr_curve res)) \<and> list_all point_adds_up (rr_curve res)"
proof -
  define s1 where "s1 = replay_reset capital s0"
  have m: "rp_market s1 = []" by (simp add: s1_def replay_reset_def market_reset_def)
  have evs: "fst (tl_iter (snd (get_stats tm))) = evs" using built_timeline[OF assms(2)] assms(6) by simp
  obtain stats tm1 where st: "get_stats tm = (stats, tm1)" by (meson surj_pair)
  obtain tm2 where it: "tl_iter tm1 = (evs, tm2)" using evs st by (metis prod.collapse snd_conv)
  obtain r s2 x2 where l: "replay_loop d u ids stops strat evs (s1\<lparr>rp_market := mkt\<rparr>, st_reset strat x0) = (r, s2, x2)"
    by (metis prod_cases3)
  have run: "replay_run d u ids stops strat lake capital markets insts start fin (s0, x0) =
     (case r of Inl e \<Rightarrow> (Inl e, s2, x2)
      | Inr (fs, pts) \<Rightarrow>
          (if capital = 0 then Inl ZeroDivisionError
           else Inr \<lparr>rr_initial = capital, rr_final = portfolio_nav (rp_portfolio s2), rr_return = portfolio_nav (rp_portfolio s2) - capital,
                     rr_return_pct = (portfolio_nav (rp_portfolio s2) / capital - 1) * 100, rr_trades = fs, rr_curve = pts,
                     rr_events = rp_count s2, rr_markets = dict_keys (market_counts stats),
                     rr_instruments = dict_keys (instrument_counts stats)\<rparr>, s2, x2))"
    unfolding replay_run_def prod.case Let_def s1_def[symmetric] m assms(2) option.case st it l
    by (simp split: sum.split)
  obtain fs pts where r: "r = Inr (fs, pts)" using run assms(1) by (cases r) auto
  have eq: "rr_trades res = fs" "rr_curve res = pts" "rr_events res = rp_count s2" "s' = s2"
    "rr_final res = portfolio_nav (rp_portfolio s2)" "rr_return res = portfolio_nav (rp_portfolio s2) - capital"
    using run assms(1) r by (auto split: if_splits)
  have init: "books_ok capital [] (rp_portfolio (s1\<lparr>rp_market := mkt\<rparr>))" "rp_micro (s1\<lparr>rp_market := mkt\<rparr>) = None"
    "rp_running (s1\<lparr>rp_market := mkt\<rparr>)" "rp_count (s1\<lparr>rp_market := mkt\<rparr>) = 0"
    using assms(3) by (simp_all add: s1_def replay_reset_def books_ok_reset)
  have nr: "\<forall>ev \<in> set evs. no_rebase ev" using assms(4,6) by simp
  note f = replay_loop_facts[OF l[unfolded r] init(1,2) nr assms(5) init(3)]
  then obtain k where k: "k \<le> length evs" "rp_count s2 = k" "k = length evs \<or> stops (rp_count s2)"
    "\<forall>m. m < rp_count s2 \<longrightarrow> \<not> stops m"
    "map ep_time pts = map me_time (filter market_tick (take k evs))"
    using init(4) by auto
  have "sorted (map event_key evs)" unfolding assms(6) by simp
  then show ?thesis using f k sorted_times[of evs market_tick k] by (auto simp: eq)
qed

definition demo_raw :: "pytime \<Rightarrow> pyfloat \<Rightarrow> raw_record" where
  "demo_raw t p = \<lparr>rw_event_type = None, rw_event_id = Some ''e'', rw_timestamp = Some t, rw_instrument = Some ''X'',
     rw_market = Some ''tse'', rw_price = Some p, rw_volume = Some 100, rw_value = None, rw_bid = None, rw_ask = None,
     rw_bid_volume = None, rw_ask_volume = None, rw_payload = None, rw_priority = None\<rparr>"

definition demo_lake :: data_lake where
  "demo_lake = add_records ''tse'' [demo_raw 20 101, demo_raw 10 100] InMemoryDataLake"

definition demo_strategy :: "unit strategy" where
  "demo_strategy = \<lparr>st_on_event = (\<lambda>ev x. (Inr [], x)), st_on_bar = (\<lambda>b x. (Inr [om_limit ''o'' ''X'' 10 (br_close b) None], x)), st_reset = (\<lambda>x. x)\<rparr>"

definition demo_replay :: replay where
  "demo_replay = \<lparr>rp_clock = clock_init 0 None None, rp_market = [], rp_rules = rule_engine_init None,
     rp_sim = \<lparr>fill_probability = 1, sim_costs = DEFAULT_IRAN_COSTS\<rparr>, rp_portfolio = pf_init, rp_stop = stop_init 2 0 False,
     rp_take = \<lparr>tp_pct = 5, tp_absolute = 0, tp_entry = []\<rparr>, rp_drawdown = drawdown_init 20, rp_micro = None, rp_running = False,
     rp_count = 0, rp_fills = 0\<rparr>"

definition demo_outcome :: "(py_error + backtest_result) \<times> replay \<times> unit" where
  "demo_outcome = replay_run demo_draws (\<lambda>n. 1 / 2) (\<lambda>n. ''f'') (\<lambda>n. False) demo_strategy demo_lake 100000 None None None None (demo_replay, ())"

lemma demo_trades: "map_sum (\<lambda>e. e) (\<lambda>res. (map fe_price (rr_trades res), rr_events res)) (fst demo_outcome) = Inr ([100, 101], 2)"
  by code_simp

lemma demo_events:
  "fst (build_timeline demo_lake None None None None []) = None"
  "map me_type (tl_events (fst (snd (build_timeline demo_lake None None None None [])))) = [TRADE, TRADE]"
  by code_simp+

lemma replay_reconciles_witness:
  "\<exists>res s'. demo_outcome = (Inr res, s', ()) \<and> map fe_price (rr_trades res) = [100, 101]
     \<and> books_ok 100000 (rr_trades res) (rp_portfolio s') \<and> sorted (map ep_time (rr_curve res)) \<and> list_all point_adds_up (rr_curve res)"
proof -
  obtain r s' where rs: "demo_outcome = (r, s', ())" by (cases demo_outcome) auto
  have "\<exists>res. r = Inr res \<and> map fe_price (rr_trades res) = [100, 101]"
    using demo_trades unfolding rs fst_conv by (cases r) simp_all
  then obtain res where res: "r = Inr res" and tr: "map fe_price (rr_trades res) = [100, 101]" by (elim exE conjE) (rule that)
  obtain tm mkt where b: "build_timeline demo_lake None None None None [] = (None, tm, mkt)"
    and ty: "map me_type (tl_events tm) = [TRADE, TRADE]"
    using demo_events by (metis fst_conv snd_conv prod.collapse)
  have nr: "\<forall>ev \<in> set (tl_events tm). no_rebase ev" using ty by (auto simp: no_rebase_def)
  have po: "positive_orders demo_strategy" by (auto simp: positive_orders_def demo_strategy_def om_limit_def)
  have "rp_micro demo_replay = None" by (simp add: demo_replay_def)
  note f = replay_reconciles[OF rs[unfolded res demo_outcome_def] b this nr po refl]
  show ?thesis by (intro exI[of _ res] exI[of _ s']) (use f rs res tr in blast)
qed

subsection \<open>What the orders of a run meet\<close>

text \<open>The events of trades and quotes carry no close, so without the microstructure engine an order is filled at the price it names,
  whatever the market's price; an order without a price, a market order, is filled at 0.\<close>

lemma trades_and_quotes_have_no_close:
  assumes "from_raw r = Inr ev" "me_type ev = TRADE \<or> me_type ev = QUOTE"
  shows "dict_get (me_payload ev) ''close'' = None"
proof -
  obtain ty where ty: "EventType (or_else (rw_event_type r) ''TRADE'') = Inr ty"
    using assms(1) by (cases "EventType (or_else (rw_event_type r) ''TRADE'')") (auto simp: from_raw_def)
  consider "from_trade_raw r = Inr ev" | "from_quote_raw r = Inr ev" | "from_generic_raw r = Inr ev" "ty \<noteq> TRADE" "ty \<noteq> QUOTE"
    using assms(1) ty by (auto simp: from_raw_def split: if_splits)
  then show ?thesis
  proof cases
    case 1 then show ?thesis by (auto simp: from_trade_raw_def build_trade_def MarketEvent_def split: option.splits)
  next
    case 2 then show ?thesis by (auto simp: from_quote_raw_def build_quote_def MarketEvent_def split: option.splits)
  next
    case 3 then show ?thesis using assms(2) ty by (auto simp: from_generic_raw_def MarketEvent_def split: option.splits)
  qed
qed

lemma orders_fill_at_their_own_price:
  assumes "place_order d u ids ev rq s = (Inr fs, s')" "rp_micro s = None" "dict_get (me_payload ev) ''close'' = None" "f \<in> set fs"
  shows "fe_price f = rq_price rq"
  using assms
  by (auto simp: place_order_def impacted_def pay_num_def simulate_fill_def update_fill_def plain_fill_def order_of_def Let_def
      split: sum.splits prod.splits if_splits option.splits)

text \<open>A stop that has triggered holds back every order, the sale that would close the position too.\<close>

lemma triggered_stop_holds_every_order:
  assumes "check_market_order rq (rp_market s) (rp_rules s) = (Inr (Checked Order_OK), rules)"
    and "sl_is_triggered (position_quantities (rp_portfolio s)) (Some (price_event_of ev)) (rp_stop s) = (True, sl)"
  shows "place_order d u ids ev rq s = (Inr [], s\<lparr>rp_rules := rules, rp_stop := sl\<rparr>)"
  using assms by (simp add: place_order_def Let_def)

text \<open>The default stop never triggers: the engine records no entry price.\<close>

lemma percentage_stop_is_idle:
  assumes "\<not> sl_trailing s" "sl_absolute s = 0" "sl_entry s = []" "dict_get (me_payload ev) ''entry_price'' = None"
  shows "sl_is_triggered ps (Some (price_event_of ev)) s = (False, s)"
proof -
  have "sl_hit (price_event_of ev) s = (False, s)"
    using assms by (simp add: sl_hit_def entry_of_def price_event_of_def pay_num_def Let_def dict_get_or_def)
  then have "sl_scan (price_event_of ev) ps s = (False, s)" by (induction ps) auto
  then show ?thesis by (simp add: sl_is_triggered_def)
qed

end
