(* ===== verification/Option_Strategies.thy ===== *)
theory Option_Strategies
  imports Option_Payoff "HOL-Library.List_Lexorder" "HOL-Library.Char_ord" "HOL-Library.Product_Lexorder"
begin

text \<open>
  The strategy engine of the options platform (\<open>domain/options/strategy_engine.py\<close>): the chain of
  quotes, the templates that build strategies from it, the aggregated greeks and the two payoff curves, the
  validation before a trade, the suggested adjustments and the life of a strategy. Legs and payoffs are those
  of \<open>Option_Payoff\<close>.

  Arguments: the days from today to an expiry (\<open>None\<close> where \<open>date.fromisoformat\<close> raises), the number its
  text denotes otherwise (\<open>None\<close> where \<open>float\<close> raises), and the Black-Scholes price with its greeks.
  A warning or refusal is a datatype of its own; the texts are left out. The limits of a validation and
  the state an adjustment looks at are records of optional numbers. The parameters of a template are numbers.
\<close>

subsection \<open>The chain\<close>

record chain_quote =
  cq_type :: leg_type
  cq_strike :: pyfloat
  cq_expiry :: string
  cq_premium :: pyfloat
  cq_delta :: pyfloat
  cq_interest :: int

record chain_lookup =
  ch_quotes :: "chain_quote list"
  ch_spot :: pyfloat
  ch_days :: int

record priced =
  pc_price :: pyfloat
  pc_delta :: pyfloat
  pc_gamma :: pyfloat
  pc_vega :: pyfloat
  pc_theta :: pyfloat
  pc_rho :: pyfloat

record market_env =
  env_days :: "string \<Rightarrow> int option"
  env_float :: "string \<Rightarrow> pyfloat option"
  env_price :: "pyfloat \<Rightarrow> pyfloat \<Rightarrow> pyfloat \<Rightarrow> pyfloat \<Rightarrow> pyfloat \<Rightarrow> leg_type \<Rightarrow> priced"

definition type_name :: "leg_type \<Rightarrow> string" where
  "type_name ty = (case ty of LCall \<Rightarrow> ''call'' | LPut \<Rightarrow> ''put'' | LStock \<Rightarrow> ''stock'')"

definition InMemoryChainLookup :: "chain_quote list \<Rightarrow> pyfloat \<Rightarrow> int \<Rightarrow> chain_lookup" where
  "InMemoryChainLookup qs spot days =
     \<lparr>ch_quotes = sort_key (\<lambda>q. (cq_expiry q, type_name (cq_type q), cq_strike q)) qs, ch_spot = spot, ch_days = days\<rparr>"

definition filtered :: "leg_type \<Rightarrow> string \<Rightarrow> chain_lookup \<Rightarrow> py_error + chain_quote list" where
  "filtered ty expiry ch =
     (let rows = filter (\<lambda>q. cq_type q = ty \<and> cq_expiry q = expiry) (ch_quotes ch)
      in if rows = [] then Inl ValueError else Inr rows)"

definition and_then :: "'e + 'a \<Rightarrow> ('a \<Rightarrow> 'e + 'b) \<Rightarrow> 'e + 'b" where
  \<comment> \<open>the next statement, unless one before it raised\<close>
  "and_then r f = (case r of Inl e \<Rightarrow> Inl e | Inr x \<Rightarrow> f x)"

definition nearest_strike :: "pyfloat \<Rightarrow> leg_type \<Rightarrow> string \<Rightarrow> chain_lookup \<Rightarrow> py_error + pyfloat" where
  "nearest_strike target ty expiry ch =
     map_sum id (\<lambda>rows. cq_strike (arg_min_list (\<lambda>q. \<bar>cq_strike q - target\<bar>) rows)) (filtered ty expiry ch)"

definition premium_of :: "pyfloat \<Rightarrow> leg_type \<Rightarrow> string \<Rightarrow> chain_lookup \<Rightarrow> py_error + pyfloat" where
  "premium_of strike ty expiry ch =
     map_sum id (\<lambda>rows. cq_premium (arg_min_list (\<lambda>q. \<bar>cq_strike q - strike\<bar>) rows)) (filtered ty expiry ch)"

definition dte_key :: "market_env \<Rightarrow> pyfloat \<Rightarrow> string \<Rightarrow> pyfloat option" where
  "dte_key env target day =
     (case env_days env day of
        Some d \<Rightarrow> Some \<bar>of_int d - target\<bar>
      | None \<Rightarrow> map_option (\<lambda>x. \<bar>x - target\<bar>) (env_float env (take 8 day)))"

definition nearest_expiry :: "market_env \<Rightarrow> pyfloat \<Rightarrow> chain_lookup \<Rightarrow> py_error + string" where
  "nearest_expiry env target ch =
     (let expiries = sort (remdups (map cq_expiry (ch_quotes ch))) in
      if expiries = [] then Inl ValueError
      else if \<exists>e \<in> set expiries. dte_key env target e = None then Inl ValueError
      else Inr (arg_min_list (\<lambda>e. the (dte_key env target e)) expiries))"

definition signed_delta :: "leg_type \<Rightarrow> pyfloat \<Rightarrow> pyfloat" where
  "signed_delta ty delta =
     (if ty = LPut \<and> delta > 0 then - delta else if ty = LCall \<and> delta < 0 then - delta else delta)"

definition delta_target :: "leg_type \<Rightarrow> pyfloat \<Rightarrow> pyfloat" where
  "delta_target ty target = (if ty = LPut then - \<bar>target\<bar> else \<bar>target\<bar>)"

definition approx_delta :: "market_env \<Rightarrow> pyfloat \<Rightarrow> leg_type \<Rightarrow> string \<Rightarrow> chain_lookup \<Rightarrow> pyfloat" where
  "approx_delta env strike ty expiry ch =
     (let dte = (case env_days env expiry of Some d \<Rightarrow> max d 1 | None \<Rightarrow> 30)
      in pc_delta (env_price env (ch_spot ch) strike (of_int dte / 365) 0 (35 / 100) ty))"

definition strike_for_delta :: "market_env \<Rightarrow> pyfloat \<Rightarrow> leg_type \<Rightarrow> string \<Rightarrow> chain_lookup \<Rightarrow> py_error + pyfloat" where
  "strike_for_delta env target_delta ty expiry ch =
     and_then (filtered ty expiry ch) (\<lambda>rows.
       let target = delta_target ty target_delta;
           best = arg_min_list (\<lambda>q. \<bar>signed_delta ty (cq_delta q) - target\<bar>) rows
       in if \<not> (\<exists>q \<in> set rows. cq_delta q \<noteq> 0) \<and> \<bar>approx_delta env (cq_strike best) ty expiry ch - target\<bar> > 25 / 100
          then Inl ValueError
          else Inr (cq_strike best))"

subsection \<open>Templates\<close>

record template_leg =
  tg_type :: leg_type
  tg_action :: leg_action
  tg_strike :: "pyfloat option"
  tg_premium :: pyfloat
  tg_quantity :: pyfloat
  tg_expiry :: "string option"

record built_strategy =
  bs_name :: string
  bs_legs :: "template_leg list"
  bs_payoff :: "option_leg list"
  bs_meta :: "(string, py_value) pydict"

definition leg_payload :: "template_leg \<Rightarrow> (string, py_value) pydict" where
  "leg_payload l =
     [(''option_type'', PStr (type_name (tg_type l))), (''action'', PStr (if tg_action l = Buy then ''buy'' else ''sell'')),
      (''strike'', (case tg_strike l of None \<Rightarrow> PNone | Some k \<Rightarrow> PFloat k)), (''premium'', PFloat (tg_premium l)),
      (''quantity'', PFloat (tg_quantity l)), (''expiry'', (case tg_expiry l of None \<Rightarrow> PNone | Some e \<Rightarrow> PStr e))]"

definition as_payload :: "built_strategy \<Rightarrow> (string, py_value) pydict" where
  "as_payload b =
     [(''name'', PStr (bs_name b)), (''meta'', PDict (bs_meta b)), (''legs'', PList (map (PDict \<circ> leg_payload) (bs_legs b)))]"

definition mk_leg :: "leg_type \<Rightarrow> leg_action \<Rightarrow> pyfloat option \<Rightarrow> pyfloat \<Rightarrow> pyfloat \<Rightarrow> string \<Rightarrow> template_leg" where
  "mk_leg ty action strike premium quantity expiry =
     \<lparr>tg_type = ty, tg_action = action, tg_strike = strike, tg_premium = premium, tg_quantity = quantity, tg_expiry = Some expiry\<rparr>"

definition chain_leg :: "leg_type \<Rightarrow> leg_action \<Rightarrow> pyfloat \<Rightarrow> string \<Rightarrow> chain_lookup \<Rightarrow> py_error + template_leg" where
  \<comment> \<open>\<open>_leg\<close> with the quantity 1, as the templates call it\<close>
  "chain_leg ty action strike expiry ch =
     map_sum id (\<lambda>premium. mk_leg ty action (Some strike) premium 1 expiry)
       (if ty \<noteq> LStock then premium_of strike ty expiry ch else Inr strike)"

definition payoff_leg :: "template_leg \<Rightarrow> py_error + option_leg" where
  "payoff_leg leg =
     option_leg_new (tg_type leg) (tg_action leg) (case tg_strike leg of None \<Rightarrow> 0 | Some k \<Rightarrow> k) (tg_premium leg) (tg_quantity leg)"

fun payoff_legs :: "template_leg list \<Rightarrow> py_error + option_leg list" where
  "payoff_legs [] = Inr []"
| "payoff_legs (leg # legs) = and_then (payoff_leg leg) (\<lambda>l. map_sum id ((#) l) (payoff_legs legs))"

definition assemble :: "string \<Rightarrow> template_leg list \<Rightarrow> (string, py_value) pydict \<Rightarrow> py_error + built_strategy" where
  "assemble name legs meta =
     map_sum id (\<lambda>ps. \<lparr>bs_name = name, bs_legs = legs, bs_payoff = ps, bs_meta = meta\<rparr>) (payoff_legs legs)"

fun chain_legs :: "(leg_type \<times> leg_action \<times> pyfloat \<times> string) list \<Rightarrow> chain_lookup \<Rightarrow> py_error + template_leg list" where
  \<comment> \<open>a list of \<open>_leg\<close> calls\<close>
  "chain_legs [] ch = Inr []"
| "chain_legs ((ty, action, strike, expiry) # ls) ch =
     and_then (chain_leg ty action strike expiry ch) (\<lambda>l. map_sum id ((#) l) (chain_legs ls ch))"

definition stock_leg :: "string \<Rightarrow> chain_lookup \<Rightarrow> template_leg" where
  "stock_leg expiry ch = mk_leg LStock Buy None (ch_spot ch) 1000 expiry"

definition covered_call :: "market_env \<Rightarrow> chain_lookup \<Rightarrow> pyfloat \<Rightarrow> pyfloat \<Rightarrow> py_error + built_strategy" where
  "covered_call env ch dte_target call_delta_target =
     and_then (nearest_expiry env dte_target ch) (\<lambda>expiry.
     and_then (strike_for_delta env call_delta_target LCall expiry ch) (\<lambda>k0.
     and_then (nearest_strike k0 LCall expiry ch) (\<lambda>k.
     and_then (chain_legs [(LCall, Sell, k, expiry)] ch) (\<lambda>legs.
       assemble ''COVERED_CALL'' (stock_leg expiry ch # legs)
         [(''expiry'', PStr expiry), (''short_delta'', PFloat call_delta_target)]))))"

definition protective_put :: "market_env \<Rightarrow> chain_lookup \<Rightarrow> pyfloat \<Rightarrow> pyfloat \<Rightarrow> py_error + built_strategy" where
  "protective_put env ch dte_target put_delta_target =
     and_then (nearest_expiry env dte_target ch) (\<lambda>expiry.
     and_then (strike_for_delta env put_delta_target LPut expiry ch) (\<lambda>k.
     and_then (chain_legs [(LPut, Buy, k, expiry)] ch) (\<lambda>legs.
       assemble ''PROTECTIVE_PUT'' (stock_leg expiry ch # legs)
         [(''expiry'', PStr expiry), (''put_delta'', PFloat put_delta_target)])))"

definition collar :: "market_env \<Rightarrow> chain_lookup \<Rightarrow> pyfloat \<Rightarrow> pyfloat \<Rightarrow> pyfloat \<Rightarrow> py_error + built_strategy" where
  "collar env ch dte_target put_offset_pct call_offset_pct =
     and_then (nearest_expiry env dte_target ch) (\<lambda>expiry.
     let s = ch_spot ch in
     and_then (nearest_strike (s * (1 - put_offset_pct / 100)) LPut expiry ch) (\<lambda>put_k.
     and_then (nearest_strike (s * (1 + call_offset_pct / 100)) LCall expiry ch) (\<lambda>call_k.
     and_then (chain_legs [(LPut, Buy, put_k, expiry), (LCall, Sell, call_k, expiry)] ch) (\<lambda>legs.
       assemble ''COLLAR'' (stock_leg expiry ch # legs)
         [(''expiry'', PStr expiry), (''put_strike'', PFloat put_k), (''call_strike'', PFloat call_k)]))))"

definition bull_call_spread :: "market_env \<Rightarrow> chain_lookup \<Rightarrow> pyfloat \<Rightarrow> pyfloat \<Rightarrow> pyfloat \<Rightarrow> py_error + built_strategy" where
  "bull_call_spread env ch dte_target long_delta wing_pct =
     and_then (nearest_expiry env dte_target ch) (\<lambda>expiry.
     and_then (strike_for_delta env long_delta LCall expiry ch) (\<lambda>long_k.
     and_then (nearest_strike (long_k * (1 + wing_pct / 100)) LCall expiry ch) (\<lambda>short_k.
     and_then (chain_legs [(LCall, Buy, long_k, expiry), (LCall, Sell, short_k, expiry)] ch) (\<lambda>legs.
       assemble ''BULL_CALL_SPREAD'' legs
         [(''expiry'', PStr expiry), (''long_strike'', PFloat long_k), (''short_strike'', PFloat short_k)]))))"

definition bear_put_spread :: "market_env \<Rightarrow> chain_lookup \<Rightarrow> pyfloat \<Rightarrow> pyfloat \<Rightarrow> pyfloat \<Rightarrow> py_error + built_strategy" where
  "bear_put_spread env ch dte_target long_delta wing_pct =
     and_then (nearest_expiry env dte_target ch) (\<lambda>expiry.
     and_then (strike_for_delta env long_delta LPut expiry ch) (\<lambda>long_k.
     and_then (nearest_strike (long_k * (1 - wing_pct / 100)) LPut expiry ch) (\<lambda>short_k.
     and_then (chain_legs [(LPut, Buy, long_k, expiry), (LPut, Sell, short_k, expiry)] ch) (\<lambda>legs.
       assemble ''BEAR_PUT_SPREAD'' legs
         [(''expiry'', PStr expiry), (''long_strike'', PFloat long_k), (''short_strike'', PFloat short_k)]))))"

definition iron_condor :: "market_env \<Rightarrow> chain_lookup \<Rightarrow> pyfloat \<Rightarrow> pyfloat \<Rightarrow> pyfloat \<Rightarrow> py_error + built_strategy" where
  "iron_condor env ch dte_target short_delta wing_pct =
     and_then (nearest_expiry env dte_target ch) (\<lambda>expiry.
     and_then (strike_for_delta env (- short_delta) LPut expiry ch) (\<lambda>put_k.
     and_then (strike_for_delta env short_delta LCall expiry ch) (\<lambda>call_k.
     and_then (nearest_strike (put_k * (1 - wing_pct / 100)) LPut expiry ch) (\<lambda>long_put_k.
     and_then (nearest_strike (call_k * (1 + wing_pct / 100)) LCall expiry ch) (\<lambda>long_call_k.
     and_then (chain_legs [(LPut, Sell, put_k, expiry), (LPut, Buy, long_put_k, expiry),
                           (LCall, Sell, call_k, expiry), (LCall, Buy, long_call_k, expiry)] ch) (\<lambda>legs.
       assemble ''IRON_CONDOR'' legs
         [(''expiry'', PStr expiry), (''short_put'', PFloat put_k), (''short_call'', PFloat call_k),
          (''long_put'', PFloat long_put_k), (''long_call'', PFloat long_call_k)]))))))"

definition iron_butterfly :: "market_env \<Rightarrow> chain_lookup \<Rightarrow> pyfloat \<Rightarrow> pyfloat \<Rightarrow> py_error + built_strategy" where
  "iron_butterfly env ch dte_target wing_pct =
     and_then (nearest_expiry env dte_target ch) (\<lambda>expiry.
     and_then (nearest_strike (ch_spot ch) LCall expiry ch) (\<lambda>atm.
     and_then (nearest_strike (atm * (1 - wing_pct / 100)) LPut expiry ch) (\<lambda>long_put_k.
     and_then (nearest_strike (atm * (1 + wing_pct / 100)) LCall expiry ch) (\<lambda>long_call_k.
     and_then (chain_legs [(LPut, Sell, atm, expiry), (LPut, Buy, long_put_k, expiry),
                           (LCall, Sell, atm, expiry), (LCall, Buy, long_call_k, expiry)] ch) (\<lambda>legs.
       assemble ''IRON_BUTTERFLY'' legs [(''expiry'', PStr expiry), (''atm'', PFloat atm)])))))"

definition calendar_spread :: "market_env \<Rightarrow> chain_lookup \<Rightarrow> pyfloat \<Rightarrow> pyfloat \<Rightarrow> pyfloat \<Rightarrow> py_error + built_strategy" where
  "calendar_spread env ch near_dte far_dte offset_pct =
     and_then (nearest_expiry env near_dte ch) (\<lambda>near.
     and_then (nearest_expiry env far_dte ch) (\<lambda>far.
     and_then (nearest_strike (ch_spot ch * (1 + offset_pct / 100)) LCall near ch) (\<lambda>strike.
     and_then (chain_legs [(LCall, Sell, strike, near), (LCall, Buy, strike, far)] ch) (\<lambda>legs.
       assemble ''CALENDAR_SPREAD'' legs
         [(''near_expiry'', PStr near), (''far_expiry'', PStr far), (''strike'', PFloat strike)]))))"

definition long_straddle :: "market_env \<Rightarrow> chain_lookup \<Rightarrow> pyfloat \<Rightarrow> py_error + built_strategy" where
  "long_straddle env ch dte_target =
     and_then (nearest_expiry env dte_target ch) (\<lambda>expiry.
     and_then (nearest_strike (ch_spot ch) LCall expiry ch) (\<lambda>atm.
     and_then (chain_legs [(LCall, Buy, atm, expiry), (LPut, Buy, atm, expiry)] ch) (\<lambda>legs.
       assemble ''LONG_STRADDLE'' legs [(''expiry'', PStr expiry), (''atm'', PFloat atm)])))"

definition short_strangle :: "market_env \<Rightarrow> chain_lookup \<Rightarrow> pyfloat \<Rightarrow> pyfloat \<Rightarrow> py_error + built_strategy" where
  "short_strangle env ch dte_target short_delta =
     and_then (nearest_expiry env dte_target ch) (\<lambda>expiry.
     and_then (strike_for_delta env (- short_delta) LPut expiry ch) (\<lambda>put_k.
     and_then (strike_for_delta env short_delta LCall expiry ch) (\<lambda>call_k.
     and_then (chain_legs [(LPut, Sell, put_k, expiry), (LCall, Sell, call_k, expiry)] ch) (\<lambda>legs.
       assemble ''SHORT_STRANGLE'' legs
         [(''expiry'', PStr expiry), (''short_put'', PFloat put_k), (''short_call'', PFloat call_k)]))))"

definition jade_lizard :: "market_env \<Rightarrow> chain_lookup \<Rightarrow> pyfloat \<Rightarrow> pyfloat \<Rightarrow> pyfloat \<Rightarrow> py_error + built_strategy" where
  "jade_lizard env ch dte_target put_delta call_delta =
     and_then (nearest_expiry env dte_target ch) (\<lambda>expiry.
     and_then (strike_for_delta env put_delta LPut expiry ch) (\<lambda>short_put_k.
     and_then (strike_for_delta env call_delta LCall expiry ch) (\<lambda>short_call_k.
     and_then (nearest_strike (short_call_k * (105 / 100)) LCall expiry ch) (\<lambda>long_call_k.
     and_then (chain_legs [(LPut, Sell, short_put_k, expiry), (LCall, Sell, short_call_k, expiry),
                           (LCall, Buy, long_call_k, expiry)] ch) (\<lambda>legs.
       assemble ''JADE_LIZARD'' legs [(''expiry'', PStr expiry)])))))"

definition template_params :: "(string \<times> (string \<times> pyfloat) list) list" where
  \<comment> \<open>the registered templates, their parameters and defaults\<close>
  "template_params =
     [(''COVERED_CALL'', [(''dte_target'', 30), (''call_delta_target'', 3 / 10)]),
      (''PROTECTIVE_PUT'', [(''dte_target'', 30), (''put_delta_target'', - 3 / 10)]),
      (''COLLAR'', [(''dte_target'', 30), (''put_offset_pct'', 5), (''call_offset_pct'', 5)]),
      (''BULL_CALL_SPREAD'', [(''dte_target'', 30), (''long_delta'', 4 / 10), (''wing_pct'', 5)]),
      (''BEAR_PUT_SPREAD'', [(''dte_target'', 30), (''long_delta'', - 4 / 10), (''wing_pct'', 5)]),
      (''IRON_CONDOR'', [(''dte_target'', 30), (''short_delta'', 2 / 10), (''wing_pct'', 5)]),
      (''IRON_BUTTERFLY'', [(''dte_target'', 30), (''wing_pct'', 5)]),
      (''CALENDAR_SPREAD'', [(''near_dte'', 15), (''far_dte'', 45), (''offset_pct'', 0)]),
      (''LONG_STRADDLE'', [(''dte_target'', 30)]),
      (''SHORT_STRANGLE'', [(''dte_target'', 30), (''short_delta'', 2 / 10)]),
      (''JADE_LIZARD'', [(''dte_target'', 30), (''put_delta'', - 2 / 10), (''call_delta'', 16 / 100)])]"

definition available :: "string list" where
  "available = sort (dict_keys template_params)"

definition run_template :: "string \<Rightarrow> market_env \<Rightarrow> chain_lookup \<Rightarrow> (string \<Rightarrow> pyfloat) \<Rightarrow> py_error + built_strategy" where
  "run_template key env ch p =
     (if key = ''COVERED_CALL'' then covered_call env ch (p ''dte_target'') (p ''call_delta_target'')
      else if key = ''PROTECTIVE_PUT'' then protective_put env ch (p ''dte_target'') (p ''put_delta_target'')
      else if key = ''COLLAR'' then collar env ch (p ''dte_target'') (p ''put_offset_pct'') (p ''call_offset_pct'')
      else if key = ''BULL_CALL_SPREAD'' then bull_call_spread env ch (p ''dte_target'') (p ''long_delta'') (p ''wing_pct'')
      else if key = ''BEAR_PUT_SPREAD'' then bear_put_spread env ch (p ''dte_target'') (p ''long_delta'') (p ''wing_pct'')
      else if key = ''IRON_CONDOR'' then iron_condor env ch (p ''dte_target'') (p ''short_delta'') (p ''wing_pct'')
      else if key = ''IRON_BUTTERFLY'' then iron_butterfly env ch (p ''dte_target'') (p ''wing_pct'')
      else if key = ''CALENDAR_SPREAD'' then calendar_spread env ch (p ''near_dte'') (p ''far_dte'') (p ''offset_pct'')
      else if key = ''LONG_STRADDLE'' then long_straddle env ch (p ''dte_target'')
      else if key = ''SHORT_STRANGLE'' then short_strangle env ch (p ''dte_target'') (p ''short_delta'')
      else jade_lizard env ch (p ''dte_target'') (p ''put_delta'') (p ''call_delta''))"

definition build_strategy :: "market_env \<Rightarrow> chain_lookup \<Rightarrow> string \<Rightarrow> (string, pyfloat) pydict \<Rightarrow> py_error + built_strategy" where
  \<comment> \<open>an unknown parameter is a \<open>TypeError\<close>\<close>
  "build_strategy env ch name params =
     (case dict_get template_params (py_upper name) of
        None \<Rightarrow> Inl ValueError
      | Some defaults \<Rightarrow>
          if \<exists>k \<in> set (dict_keys params). k \<notin> set (dict_keys defaults) then Inl TypeError
          else run_template (py_upper name) env ch (\<lambda>k. dict_get_or params k (dict_get_or defaults k 0)))"

subsection \<open>Greeks and the two curves\<close>

definition no_greeks :: priced where
  "no_greeks = \<lparr>pc_price = 0, pc_delta = 0, pc_gamma = 0, pc_vega = 0, pc_theta = 0, pc_rho = 0\<rparr>"

definition add_scaled :: "pyfloat \<Rightarrow> priced \<Rightarrow> priced \<Rightarrow> priced" where
  "add_scaled q p acc =
     \<lparr>pc_price = pc_price acc + q * pc_price p, pc_delta = pc_delta acc + q * pc_delta p, pc_gamma = pc_gamma acc + q * pc_gamma p,
      pc_vega = pc_vega acc + q * pc_vega p, pc_theta = pc_theta acc + q * pc_theta p, pc_rho = pc_rho acc + q * pc_rho p\<rparr>"

definition leg_priced :: "market_env \<Rightarrow> pyfloat \<Rightarrow> pyfloat \<Rightarrow> pyfloat \<Rightarrow> (nat, pyfloat) pydict \<Rightarrow> nat \<Rightarrow> template_leg \<Rightarrow> priced" where
  \<comment> \<open>one unit of a leg: a share is worth the spot and has delta 1\<close>
  "leg_priced env rate spot t sigmas i leg =
     (if tg_type leg = LStock then no_greeks\<lparr>pc_price := spot, pc_delta := 1\<rparr>
      else (let strike = (case tg_strike leg of None \<Rightarrow> spot | Some k \<Rightarrow> if k = 0 then spot else k)
            in env_price env spot strike t rate (dict_get_or sigmas i (3 / 10)) (tg_type leg)))"

fun greeks_loop :: "market_env \<Rightarrow> pyfloat \<Rightarrow> pyfloat \<Rightarrow> pyfloat \<Rightarrow> (nat, pyfloat) pydict \<Rightarrow> nat \<Rightarrow> template_leg list \<Rightarrow> priced \<Rightarrow> priced" where
  "greeks_loop env rate spot t sigmas i [] acc = acc"
| "greeks_loop env rate spot t sigmas i (leg # legs) acc =
     (let sgn = (if tg_action leg = Buy then 1 else - 1)
      in greeks_loop env rate spot t sigmas (Suc i) legs
           (add_scaled (sgn * tg_quantity leg) (leg_priced env rate spot t sigmas i leg) acc))"

definition portfolio_value_and_greeks ::
    "market_env \<Rightarrow> pyfloat \<Rightarrow> template_leg list \<Rightarrow> pyfloat \<Rightarrow> int \<Rightarrow> (nat, pyfloat) pydict \<Rightarrow> priced" where
  \<comment> \<open>the total value and the five greeks\<close>
  "portfolio_value_and_greeks env rate legs spot days sigmas =
     greeks_loop env rate spot (of_int (max days 0) / 365) sigmas 0 legs no_greeks"

record curve_row =
  cr_price :: pyfloat
  cr_payoff :: pyfloat
  cr_current :: pyfloat

definition round6 :: "pyfloat \<Rightarrow> pyfloat" where
  "round6 x = of_int (py_round (x * 1000000)) / 1000000"

partial_function (option) price_steps :: "pyfloat \<Rightarrow> pyfloat \<Rightarrow> pyfloat \<Rightarrow> pyfloat list option" where
  "price_steps price price_max step =
     (if price < price_max then Option.bind (price_steps (price + step) price_max step) (\<lambda>ps. Some (price # ps)) else Some [])"

declare price_steps.simps [code]

definition dual_payoff_curve ::
    "market_env \<Rightarrow> pyfloat \<Rightarrow> template_leg list \<Rightarrow> pyfloat \<Rightarrow> int \<Rightarrow> pyfloat \<Rightarrow> pyfloat \<Rightarrow> pyfloat \<Rightarrow> (nat, pyfloat) pydict \<Rightarrow>
       (py_error + curve_row list) option" where
  \<comment> \<open>\<open>None\<close>: the loop over the prices does not return\<close>
  "dual_payoff_curve env rate legs spot days price_min price_max step sigmas =
     (case payoff_legs legs of
        Inl e \<Rightarrow> Some (Inl e)
      | Inr ps \<Rightarrow>
          (let current = pc_price (portfolio_value_and_greeks env rate legs spot days sigmas)
           in map_option (\<lambda>prices. Inr (map (\<lambda>price. \<lparr>cr_price = round6 price, cr_payoff = round6 (calculate_payoff_at_price ps price 1),
                                                     cr_current = round6 current\<rparr>) (prices @ [price_max])))
                (price_steps price_min price_max step)))"

subsection \<open>Validation before a trade\<close>

datatype refusal = NoLegs | NotListed leg_type pyfloat | Illiquid pyfloat | MarginAboveCash | Concentrated

record trade_limits =
  tr_cash :: "pyfloat option"
  tr_current :: pyfloat
  tr_new :: pyfloat
  tr_max_concentration :: "pyfloat option"

definition MIN_OPEN_INTEREST :: int where
  "MIN_OPEN_INTEREST = 10"

definition quote_for :: "template_leg \<Rightarrow> pyfloat \<Rightarrow> chain_lookup \<Rightarrow> chain_quote option" where
  "quote_for leg k ch =
     List.find (\<lambda>q. cq_type q = tg_type leg \<and> Some (cq_expiry q) = tg_expiry leg \<and> \<bar>cq_strike q - k\<bar> < 1 / 10 ^ 9) (ch_quotes ch)"

definition leg_refusals :: "chain_lookup \<Rightarrow> template_leg \<Rightarrow> refusal list" where
  "leg_refusals ch leg =
     (case tg_strike leg of
        None \<Rightarrow> []
      | Some k \<Rightarrow>
          (case quote_for leg k ch of
             None \<Rightarrow> [NotListed (tg_type leg) k]
           | Some q \<Rightarrow> if cq_interest q < MIN_OPEN_INTEREST then [Illiquid k] else []))"

definition validate_strategy :: "template_leg list \<Rightarrow> chain_lookup option \<Rightarrow> trade_limits \<Rightarrow> pyfloat option \<Rightarrow> refusal list" where
  "validate_strategy legs chain lims margin =
     (if legs = [] then [NoLegs]
      else (case chain of
              None \<Rightarrow> []
            | Some ch \<Rightarrow> concat (map (leg_refusals ch) (filter (\<lambda>leg. tg_type leg \<noteq> LStock) legs)))
        @ (case (margin, tr_cash lims) of (Some m, Some c) \<Rightarrow> if m > c then [MarginAboveCash] else [] | _ \<Rightarrow> [])
        @ (case tr_max_concentration lims of
             Some m \<Rightarrow> if tr_current lims + tr_new lims > m then [Concentrated] else []
           | None \<Rightarrow> []))"

subsection \<open>Adjustments\<close>

datatype suggestion = ROLL_FORWARD | DEFEND_SIDE string | DELTA_HEDGE

record adjust_state =
  aj_days :: pyfloat
  aj_pnl :: pyfloat
  aj_threatened :: "string option"
  aj_distance :: "pyfloat option"
  aj_delta :: pyfloat
  aj_delta_limit :: "pyfloat option"

definition evaluate_adjustments :: "adjust_state \<Rightarrow> suggestion list" where
  "evaluate_adjustments s =
     (if aj_days s \<le> 5 \<and> aj_pnl s > 0 then [ROLL_FORWARD] else [])
     @ (case (aj_threatened s, aj_distance s) of (Some leg, Some d) \<Rightarrow> if d < 2 then [DEFEND_SIDE leg] else [] | _ \<Rightarrow> [])
     @ (case aj_delta_limit s of Some m \<Rightarrow> if \<bar>aj_delta s\<bar> > m then [DELTA_HEDGE] else [] | None \<Rightarrow> [])"

subsection \<open>The life of a strategy\<close>

datatype strategy_status = SPROPOSED | SPENDING_APPROVAL | SPENDING_EXECUTION | SACTIVE | SADJUSTED | SCLOSED

fun allowed_transitions :: "strategy_status \<Rightarrow> strategy_status list" where
  "allowed_transitions SPROPOSED = [SPENDING_APPROVAL, SCLOSED]"
| "allowed_transitions SPENDING_APPROVAL = [SPENDING_EXECUTION, SCLOSED]"
| "allowed_transitions SPENDING_EXECUTION = [SACTIVE, SCLOSED]"
| "allowed_transitions SACTIVE = [SADJUSTED, SCLOSED]"
| "allowed_transitions SADJUSTED = [SACTIVE, SCLOSED]"
| "allowed_transitions SCLOSED = []"

type_synonym tracker = "(string, strategy_status) pydict"

definition life_status :: "string \<Rightarrow> tracker \<Rightarrow> strategy_status option" where
  "life_status i t = dict_get t i"

definition life_create :: "string \<Rightarrow> tracker \<Rightarrow> tracker" where
  "life_create i t = dict_set i SPROPOSED t"

definition life_transition :: "string \<Rightarrow> strategy_status \<Rightarrow> tracker \<Rightarrow> (py_error + strategy_status) \<times> tracker" where
  "life_transition i to t =
     (case dict_get t i of
        None \<Rightarrow> (Inl KeyError, t)
      | Some current \<Rightarrow>
          if to \<notin> set (allowed_transitions current) then (Inl ValueError, t)
          else (Inr to, dict_set i to t))"

subsection \<open>Choosing strikes\<close>

definition listed :: "leg_type \<Rightarrow> string \<Rightarrow> chain_lookup \<Rightarrow> pyfloat set" where
  "listed ty expiry ch = cq_strike ` {q \<in> set (ch_quotes ch). cq_type q = ty \<and> cq_expiry q = expiry}"

lemma and_then_Inr [simp]: "and_then (Inr x) f = f x"
  by (simp add: and_then_def)

lemma and_then_Inl [simp]: "and_then (Inl e) f = Inl e"
  by (simp add: and_then_def)

lemma and_then_eq_Inr: "and_then r f = Inr y \<longleftrightarrow> (\<exists>x. r = Inr x \<and> f x = Inr y)"
  by (cases r) auto

lemma map_sum_eq_Inr: "map_sum id f r = Inr y \<longleftrightarrow> (\<exists>x. r = Inr x \<and> y = f x)"
  by (cases r) auto

lemma filtered_rows:
  "filtered ty expiry ch = Inr rows \<Longrightarrow> rows \<noteq> [] \<and> cq_strike ` set rows = listed ty expiry ch"
  by (auto simp: filtered_def listed_def Let_def split: if_splits)

lemma nearest_strike_spec:
  assumes "nearest_strike target ty expiry ch = Inr k"
  shows "k \<in> listed ty expiry ch" "\<And>j. j \<in> listed ty expiry ch \<Longrightarrow> \<bar>k - target\<bar> \<le> \<bar>j - target\<bar>"
proof -
  define f :: "chain_quote \<Rightarrow> pyfloat" where "f = (\<lambda>q. \<bar>cq_strike q - target\<bar>)"
  obtain rows where r: "filtered ty expiry ch = Inr rows" "k = cq_strike (arg_min_list f rows)"
    using assms by (auto simp: nearest_strike_def map_sum_eq_Inr f_def)
  note rows = filtered_rows[OF r(1)]
  show "k \<in> listed ty expiry ch" using arg_min_list_in[of rows f] rows r(2) by auto
  fix j assume "j \<in> listed ty expiry ch"
  then obtain q where "q \<in> set rows" "j = cq_strike q" using rows by auto
  then have "f (arg_min_list f rows) \<le> f q" using f_arg_min_list_f[of rows f] rows by simp
  then show "\<bar>k - target\<bar> \<le> \<bar>j - target\<bar>" by (simp add: r(2) f_def \<open>j = cq_strike q\<close>)
qed

lemma strike_for_delta_listed:
  assumes "strike_for_delta env target ty expiry ch = Inr k" shows "k \<in> listed ty expiry ch"
proof -
  obtain rows where r: "filtered ty expiry ch = Inr rows"
    "k = cq_strike (arg_min_list (\<lambda>q. \<bar>signed_delta ty (cq_delta q) - delta_target ty target\<bar>) rows)"
    using assms by (auto simp: strike_for_delta_def and_then_eq_Inr Let_def split: if_splits)
  then show ?thesis
    using arg_min_list_in filtered_rows[OF r(1)] by fastforce
qed

text \<open>The wing of a spread lies outside: the strike nearest to one moved away from a listed strike is not on the other side of it.\<close>

lemma nearest_above:
  assumes "nearest_strike (k * (1 + w / 100)) ty expiry ch = Inr j" "k \<in> listed ty expiry ch" "0 \<le> k" "0 \<le> w"
  shows "k \<le> j"
  using nearest_strike_spec(2)[OF assms(1,2)] mult_nonneg_nonneg[OF assms(3,4)] by (auto simp: algebra_simps abs_if split: if_splits)

lemma nearest_below:
  assumes "nearest_strike (k * (1 - w / 100)) ty expiry ch = Inr j" "k \<in> listed ty expiry ch" "0 \<le> k" "0 \<le> w"
  shows "j \<le> k"
  using nearest_strike_spec(2)[OF assms(1,2)] mult_nonneg_nonneg[OF assms(3,4)] by (auto simp: algebra_simps abs_if split: if_splits)

subsection \<open>What the templates build\<close>

lemma chain_legs_Inr:
  "chain_legs ((ty, a, k, e) # ls) ch = Inr legs \<longleftrightarrow>
     (\<exists>p ps. chain_leg ty a k e ch = Inr (mk_leg ty a (Some k) p 1 e) \<and> chain_legs ls ch = Inr ps \<and> legs = mk_leg ty a (Some k) p 1 e # ps)"
  by (auto simp: and_then_eq_Inr map_sum_eq_Inr chain_leg_def)

lemma assemble_Inr:
  "assemble name legs meta = Inr b \<Longrightarrow> bs_legs b = legs \<and> payoff_legs legs = Inr (bs_payoff b)"
  by (auto simp: assemble_def map_sum_eq_Inr)

lemma payoff_legs_Inr:
  "payoff_legs (leg # legs) = Inr ps \<longleftrightarrow> (\<exists>l ls. payoff_leg leg = Inr l \<and> payoff_legs legs = Inr ls \<and> ps = l # ls)"
  by (auto simp: and_then_eq_Inr map_sum_eq_Inr)


lemmas built_legs = chain_legs_Inr payoff_legs_Inr

definition payoff_of :: "built_strategy \<Rightarrow> pyfloat \<Rightarrow> pyfloat" where
  "payoff_of b x = calculate_payoff_at_price (bs_payoff b) x 1"

fun legs_payoff :: "template_leg list \<Rightarrow> pyfloat \<Rightarrow> pyfloat" where
  \<comment> \<open>what the legs pay, read off the template's own legs\<close>
  "legs_payoff [] x = 0"
| "legs_payoff (l # ls) x =
     (let k = (case tg_strike l of None \<Rightarrow> 0 | Some j \<Rightarrow> j)
      in (if tg_action l = Buy then 1 else - 1) * tg_quantity l *
           ((case tg_type l of LStock \<Rightarrow> x | LCall \<Rightarrow> max (x - k) 0 | LPut \<Rightarrow> max (k - x) 0) - tg_premium l)
         + legs_payoff ls x)"

lemma payoff_legs_pay: "payoff_legs legs = Inr ps \<Longrightarrow> calculate_payoff_at_price ps x 1 = legs_payoff legs x"
proof (induction legs arbitrary: ps)
  case Nil
  then show ?case by (auto simp: calculate_payoff_at_price_def)
next
  case (Cons l legs)
  then obtain p ps' where p: "payoff_leg l = Inr p" "payoff_legs legs = Inr ps'" "ps = p # ps'"
    unfolding payoff_legs_Inr by blast
  have "p = \<lparr>leg_type = tg_type l, leg_action = tg_action l, leg_strike = (case tg_strike l of None \<Rightarrow> 0 | Some k \<Rightarrow> k),
             leg_premium = tg_premium l, leg_quantity = tg_quantity l\<rparr>"
    using p(1) by (auto simp: payoff_leg_def option_leg_new_def split: if_splits)
  then show ?case using Cons.IH[OF p(2)]
    by (cases "tg_type l") (simp_all add: p(3) calculate_payoff_at_price_def leg_contribution_def unit_payoff_at_expiry_def Let_def)
qed

lemma built_payoff: "assemble name legs meta = Inr b \<Longrightarrow> payoff_of b x = legs_payoff legs x"
  using assemble_Inr payoff_legs_pay by (simp add: payoff_of_def)

subsection \<open>Spreads with a bounded loss\<close>

definition strikes_ok :: "chain_lookup \<Rightarrow> bool" where
  "strikes_ok ch \<longleftrightarrow> (\<forall>q \<in> set (ch_quotes ch). 0 \<le> cq_strike q)"

lemma listed_nonneg: "strikes_ok ch \<Longrightarrow> k \<in> listed ty expiry ch \<Longrightarrow> 0 \<le> k"
  by (auto simp: strikes_ok_def listed_def)

definition quoted :: "chain_lookup \<Rightarrow> template_leg \<Rightarrow> bool" where
  \<comment> \<open>the leg has the strike, expiry and premium of a quote of the chain\<close>
  "quoted ch l \<longleftrightarrow>
     (\<exists>q \<in> set (ch_quotes ch). cq_type q = tg_type l \<and> tg_strike l = Some (cq_strike q) \<and> tg_expiry l = Some (cq_expiry q)
        \<and> tg_premium l = cq_premium q)"

lemma listed_leg_quoted:
  assumes "chain_leg ty a k e ch = Inr l" "k \<in> listed ty e ch" "ty \<noteq> LStock"
  shows "quoted ch l"
proof -
  obtain rows where r: "filtered ty e ch = Inr rows"
    "l = mk_leg ty a (Some k) (cq_premium (arg_min_list (\<lambda>q. \<bar>cq_strike q - k\<bar>) rows)) 1 e"
    using assms(1,3) by (auto simp: chain_leg_def premium_of_def map_sum_eq_Inr)
  let ?q = "arg_min_list (\<lambda>q. \<bar>cq_strike q - k\<bar>) rows"
  note rows = filtered_rows[OF r(1)]
  obtain x where x: "x \<in> set rows" "cq_strike x = k" using assms(2) rows by force
  have "?q \<in> set rows" using arg_min_list_in rows x(1) by (metis empty_iff list.set(1))
  moreover have "\<bar>cq_strike ?q - k\<bar> \<le> \<bar>cq_strike x - k\<bar>" using f_arg_min_list_f[of rows "\<lambda>q. \<bar>cq_strike q - k\<bar>"] x(1)
    by (metis (no_types, lifting) Min.coboundedI empty_iff finite_imageI finite_set image_eqI list.set(1))
  then have "cq_strike ?q = k" using x(2) by simp
  moreover have "?q \<in> set (ch_quotes ch) \<and> cq_type ?q = ty \<and> cq_expiry ?q = e"
    using r(1) \<open>?q \<in> set rows\<close> by (auto simp: filtered_def Let_def split: if_splits)
  ultimately show ?thesis unfolding quoted_def r(2) by (intro bexI[of _ ?q]) (simp_all add: mk_leg_def)
qed

definition debit_spread :: "chain_lookup \<Rightarrow> leg_type \<Rightarrow> built_strategy \<Rightarrow> bool" where
  \<comment> \<open>a bought and a sold option at quoted premiums: what was paid is the most that is lost, the distance of the strikes
    the most that comes back\<close>
  "debit_spread ch ty b \<longleftrightarrow> list_all (quoted ch) (bs_legs b) \<and>
     (\<exists>k j p q e. bs_legs b = [mk_leg ty Buy (Some k) p 1 e, mk_leg ty Sell (Some j) q 1 e]
        \<and> (if ty = LCall then k \<le> j else j \<le> k)
        \<and> (\<forall>x. q - p \<le> payoff_of b x \<and> payoff_of b x \<le> q - p + \<bar>j - k\<bar>))"

definition condor_bounded :: "chain_lookup \<Rightarrow> built_strategy \<Rightarrow> bool" where
  \<comment> \<open>the credit, the sold premiums less the bought ones, is the most that is gained; what is lost is at most both widths, and one of
    them when the sold put is not above the sold call, less the credit\<close>
  "condor_bounded ch b \<longleftrightarrow> list_all (quoted ch) (bs_legs b) \<and>
     (\<exists>p lp c lc a1 a2 a3 a4 e.
        bs_legs b = [mk_leg LPut Sell (Some p) a1 1 e, mk_leg LPut Buy (Some lp) a2 1 e,
                     mk_leg LCall Sell (Some c) a3 1 e, mk_leg LCall Buy (Some lc) a4 1 e] \<and> lp \<le> p \<and> c \<le> lc
        \<and> (let credit = a1 - a2 + a3 - a4 in
           \<forall>x. payoff_of b x \<le> credit \<and> credit - (p - lp) - (lc - c) \<le> payoff_of b x
             \<and> (p \<le> c \<longrightarrow> credit - max (p - lp) (lc - c) \<le> payoff_of b x)))"

lemma call_spread_bounds:
  "k \<le> j \<Longrightarrow> 0 \<le> max (x - k) 0 - max (x - j) (0::rat) \<and> max (x - k) 0 - max (x - j) 0 \<le> j - k"
  by (auto simp: max_def)

lemma put_spread_bounds:
  "j \<le> k \<Longrightarrow> 0 \<le> max (k - x) 0 - max (j - x) (0::rat) \<and> max (k - x) 0 - max (j - x) 0 \<le> k - j"
  by (auto simp: max_def)

lemma one_side_pays: "lp \<le> p \<Longrightarrow> p \<le> c \<Longrightarrow> c \<le> lc \<Longrightarrow>
    max (p - x) 0 - max (lp - x) 0 = 0 \<or> max (x - c) 0 - max (x - lc) (0::rat) = 0"
  by (auto simp: max_def)

lemma bull_spread:
  assumes "bull_call_spread env ch dte delta wing = Inr b" "strikes_ok ch" "0 \<le> wing"
  shows "debit_spread ch LCall b"
proof -
  obtain e k j legs meta where b: "strike_for_delta env delta LCall e ch = Inr k"
    "nearest_strike (k * (1 + wing / 100)) LCall e ch = Inr j"
    "chain_legs [(LCall, Buy, k, e), (LCall, Sell, j, e)] ch = Inr legs" "assemble ''BULL_CALL_SPREAD'' legs meta = Inr b"
    using assms(1) unfolding bull_call_spread_def and_then_eq_Inr by blast
  note k = strike_for_delta_listed[OF b(1)]
  have kj: "k \<le> j" by (rule nearest_above[OF b(2) k listed_nonneg[OF assms(2) k] assms(3)])
  obtain p q where l: "legs = [mk_leg LCall Buy (Some k) p 1 e, mk_leg LCall Sell (Some j) q 1 e]"
    and lq: "chain_leg LCall Buy k e ch = Inr (mk_leg LCall Buy (Some k) p 1 e)" "chain_leg LCall Sell j e ch = Inr (mk_leg LCall Sell (Some j) q 1 e)"
    using b(3) unfolding chain_legs_Inr by auto
  have quotes: "list_all (quoted ch) legs"
    using listed_leg_quoted[OF lq(1) k] listed_leg_quoted[OF lq(2) nearest_strike_spec(1)[OF b(2)]] by (simp add: l)
  have pay: "payoff_of b x = max (x - k) 0 - max (x - j) 0 + (q - p)" for x
    by (simp add: built_payoff[OF b(4)] l mk_leg_def)
  show ?thesis
    using kj call_spread_bounds[OF kj] assemble_Inr[OF b(4)] quotes unfolding debit_spread_def pay l
    by (intro conjI exI[of _ k] exI[of _ j] exI[of _ p] exI[of _ q] exI[of _ e]) auto
qed

lemma bear_spread:
  assumes "bear_put_spread env ch dte delta wing = Inr b" "strikes_ok ch" "0 \<le> wing"
  shows "debit_spread ch LPut b"
proof -
  obtain e k j legs meta where b: "strike_for_delta env delta LPut e ch = Inr k"
    "nearest_strike (k * (1 - wing / 100)) LPut e ch = Inr j"
    "chain_legs [(LPut, Buy, k, e), (LPut, Sell, j, e)] ch = Inr legs" "assemble ''BEAR_PUT_SPREAD'' legs meta = Inr b"
    using assms(1) unfolding bear_put_spread_def and_then_eq_Inr by blast
  note k = strike_for_delta_listed[OF b(1)]
  have kj: "j \<le> k" by (rule nearest_below[OF b(2) k listed_nonneg[OF assms(2) k] assms(3)])
  obtain p q where l: "legs = [mk_leg LPut Buy (Some k) p 1 e, mk_leg LPut Sell (Some j) q 1 e]"
    and lq: "chain_leg LPut Buy k e ch = Inr (mk_leg LPut Buy (Some k) p 1 e)" "chain_leg LPut Sell j e ch = Inr (mk_leg LPut Sell (Some j) q 1 e)"
    using b(3) unfolding chain_legs_Inr by auto
  have quotes: "list_all (quoted ch) legs"
    using listed_leg_quoted[OF lq(1) k] listed_leg_quoted[OF lq(2) nearest_strike_spec(1)[OF b(2)]] by (simp add: l)
  have pay: "payoff_of b x = max (k - x) 0 - max (j - x) 0 + (q - p)" for x
    by (simp add: built_payoff[OF b(4)] l mk_leg_def)
  show ?thesis
    using kj put_spread_bounds[OF kj] assemble_Inr[OF b(4)] quotes unfolding debit_spread_def pay l
    by (intro conjI exI[of _ k] exI[of _ j] exI[of _ p] exI[of _ q] exI[of _ e]) auto
qed

lemma condor_spread:
  assumes "iron_condor env ch dte delta wing = Inr b" "strikes_ok ch" "0 \<le> wing"
  shows "condor_bounded ch b"
proof -
  obtain e p c lp lc legs meta where b: "strike_for_delta env (- delta) LPut e ch = Inr p" "strike_for_delta env delta LCall e ch = Inr c"
    "nearest_strike (p * (1 - wing / 100)) LPut e ch = Inr lp" "nearest_strike (c * (1 + wing / 100)) LCall e ch = Inr lc"
    "chain_legs [(LPut, Sell, p, e), (LPut, Buy, lp, e), (LCall, Sell, c, e), (LCall, Buy, lc, e)] ch = Inr legs"
    "assemble ''IRON_CONDOR'' legs meta = Inr b"
    using assms(1) unfolding iron_condor_def and_then_eq_Inr by blast
  note pk = strike_for_delta_listed[OF b(1)] and ck = strike_for_delta_listed[OF b(2)]
  have pl: "lp \<le> p" by (rule nearest_below[OF b(3) pk listed_nonneg[OF assms(2) pk] assms(3)])
  have cl: "c \<le> lc" by (rule nearest_above[OF b(4) ck listed_nonneg[OF assms(2) ck] assms(3)])
  obtain a1 a2 a3 a4 where l: "legs = [mk_leg LPut Sell (Some p) a1 1 e, mk_leg LPut Buy (Some lp) a2 1 e,
      mk_leg LCall Sell (Some c) a3 1 e, mk_leg LCall Buy (Some lc) a4 1 e]"
    and lq: "chain_leg LPut Sell p e ch = Inr (mk_leg LPut Sell (Some p) a1 1 e)" "chain_leg LPut Buy lp e ch = Inr (mk_leg LPut Buy (Some lp) a2 1 e)"
      "chain_leg LCall Sell c e ch = Inr (mk_leg LCall Sell (Some c) a3 1 e)" "chain_leg LCall Buy lc e ch = Inr (mk_leg LCall Buy (Some lc) a4 1 e)"
    using b(5) unfolding chain_legs_Inr by auto
  have quotes: "list_all (quoted ch) legs"
    using listed_leg_quoted[OF lq(1) pk] listed_leg_quoted[OF lq(2) nearest_strike_spec(1)[OF b(3)]]
      listed_leg_quoted[OF lq(3) ck] listed_leg_quoted[OF lq(4) nearest_strike_spec(1)[OF b(4)]] by (simp add: l)
  define credit where "credit = a1 - a2 + a3 - a4"
  have pay: "payoff_of b x = credit - (max (p - x) 0 - max (lp - x) 0) - (max (x - c) 0 - max (x - lc) 0)" for x
    by (simp add: built_payoff[OF b(6)] l mk_leg_def credit_def)
  have "payoff_of b x \<le> credit \<and> credit - (p - lp) - (lc - c) \<le> payoff_of b x
      \<and> (p \<le> c \<longrightarrow> credit - max (p - lp) (lc - c) \<le> payoff_of b x)" for x
  proof -
    define u v where "u = max (p - x) 0 - max (lp - x) 0" and "v = max (x - c) 0 - max (x - lc) 0"
    have "0 \<le> u" "u \<le> p - lp" "0 \<le> v" "v \<le> lc - c" "p \<le> c \<Longrightarrow> u = 0 \<or> v = 0"
      unfolding u_def v_def using put_spread_bounds[OF pl, of x] call_spread_bounds[OF cl, of x] one_side_pays[OF pl _ cl, of x] by blast+
    moreover have "payoff_of b x = credit - u - v" unfolding pay u_def v_def ..
    ultimately show ?thesis by (auto simp: max_def)
  qed
  then have bound: "\<forall>x. payoff_of b x \<le> credit \<and> credit - (p - lp) - (lc - c) \<le> payoff_of b x
      \<and> (p \<le> c \<longrightarrow> credit - max (p - lp) (lc - c) \<le> payoff_of b x)" by blast
  have legs: "bs_legs b = legs" using assemble_Inr[OF b(6)] by simp
  have q: "list_all (quoted ch) (bs_legs b)" unfolding legs by (rule quotes)
  show ?thesis unfolding condor_bounded_def Let_def
    by (rule conjI[OF q], rule exI[of _ p], rule exI[of _ lp], rule exI[of _ c], rule exI[of _ lc], rule exI[of _ a1], rule exI[of _ a2],
        rule exI[of _ a3], rule exI[of _ a4], rule exI[of _ e])
      (intro conjI pl cl legs[unfolded l] bound[unfolded credit_def])
qed

text \<open>C29: the spread templates have the bounded risk they are named for, for one unit of the underlying: on a chain with strikes of zero or
  more and a wing of zero percent or more, a bull call or bear put spread that is built has two legs at quoted premiums, loses at most the
  premium paid less the one received and pays at most the distance of its strikes less that, at every price; an iron condor has four
  legs at quoted premiums, gains at most its credit, the premiums received less those paid, and loses at most both of its widths, one of
  them when the sold put is not above the sold call, less the credit.\<close>

theorem spread_templates_bound_loss:
  assumes "strikes_ok ch" "0 \<le> wing"
  shows "(\<forall>b. bull_call_spread env ch dte delta wing = Inr b \<longrightarrow> debit_spread ch LCall b)
    \<and> (\<forall>b. bear_put_spread env ch dte delta wing = Inr b \<longrightarrow> debit_spread ch LPut b)
    \<and> (\<forall>b. iron_condor env ch dte delta wing = Inr b \<longrightarrow> condor_bounded ch b)"
  using bull_spread bear_spread condor_spread assms by blast

definition demo_quote :: "leg_type \<Rightarrow> pyfloat \<Rightarrow> pyfloat \<Rightarrow> pyfloat \<Rightarrow> chain_quote" where
  "demo_quote ty k p d = \<lparr>cq_type = ty, cq_strike = k, cq_expiry = ''E'', cq_premium = p, cq_delta = d, cq_interest = 50\<rparr>"

definition demo_chain :: chain_lookup where
  "demo_chain = InMemoryChainLookup
     [demo_quote LCall 100 8 (5 / 10), demo_quote LCall 110 4 (2 / 10), demo_quote LCall 120 1 (1 / 10),
      demo_quote LPut 80 1 (- 1 / 10), demo_quote LPut 90 3 (- 2 / 10), demo_quote LPut 100 7 (- 5 / 10)] 100 252"

definition demo_env :: market_env where
  "demo_env = \<lparr>env_days = (\<lambda>d. Some 30), env_float = (\<lambda>d. None), env_price = (\<lambda>s k t r v ty. no_greeks)\<rparr>"

lemma demo_strategies:
  "map_sum (\<lambda>e. e) (map tg_strike \<circ> bs_legs) (bull_call_spread demo_env demo_chain 30 (5 / 10) 10) = Inr [Some 100, Some 110]"
  "map_sum (\<lambda>e. e) (map tg_strike \<circ> bs_legs) (iron_condor demo_env demo_chain 30 (2 / 10) 10) = Inr [Some 90, Some 80, Some 110, Some 120]"
  by code_simp+

lemma demo_chain_ok: "strikes_ok demo_chain"
  by code_simp

lemma spread_templates_bound_loss_witness:
  "\<exists>b c. bull_call_spread demo_env demo_chain 30 (5 / 10) 10 = Inr b \<and> debit_spread demo_chain LCall b
     \<and> iron_condor demo_env demo_chain 30 (2 / 10) 10 = Inr c \<and> condor_bounded demo_chain c"
proof -
  obtain b where b: "bull_call_spread demo_env demo_chain 30 (5 / 10) 10 = Inr b"
    using demo_strategies(1) by (cases "bull_call_spread demo_env demo_chain 30 (5 / 10) 10") simp_all
  obtain c where c: "iron_condor demo_env demo_chain 30 (2 / 10) 10 = Inr c"
    using demo_strategies(2) by (cases "iron_condor demo_env demo_chain 30 (2 / 10) 10") simp_all
  have w: "(0::pyfloat) \<le> 10" by simp
  show ?thesis
    using spread_templates_bound_loss[OF demo_chain_ok w, of demo_env 30 "5 / 10"]
      spread_templates_bound_loss[OF demo_chain_ok w, of demo_env 30 "2 / 10"] b c by blast
qed

subsection \<open>What other templates really hold\<close>

text \<open>The covered call holds 1000 shares against one option that is counted as one share: above its strike it still gains 999 per unit
  of price, so the call caps nothing.\<close>

lemma covered_call_not_capped:
  assumes "covered_call env ch dte delta = Inr b"
  shows "\<exists>k. k \<in> listed LCall (the (tg_expiry (hd (bs_legs b)))) ch
    \<and> (\<forall>x y. k \<le> x \<longrightarrow> x \<le> y \<longrightarrow> payoff_of b y - payoff_of b x = 999 * (y - x))"
proof -
  obtain e k0 k legs meta where b: "nearest_strike k0 LCall e ch = Inr k" "chain_legs [(LCall, Sell, k, e)] ch = Inr legs"
    "assemble ''COVERED_CALL'' (stock_leg e ch # legs) meta = Inr b"
    using assms unfolding covered_call_def and_then_eq_Inr by blast
  obtain p where l: "legs = [mk_leg LCall Sell (Some k) p 1 e]" using b(2) unfolding chain_legs_Inr by auto
  have pay: "payoff_of b x = 1000 * (x - ch_spot ch) - (max (x - k) 0 - p)" for x
    by (simp add: built_payoff[OF b(3)] l mk_leg_def stock_leg_def)
  have "hd (bs_legs b) = stock_leg e ch" using assemble_Inr[OF b(3)] by simp
  then show ?thesis using nearest_strike_spec(1)[OF b(1)]
    by (intro exI[of _ k]) (auto simp: pay stock_leg_def mk_leg_def max_def)
qed

text \<open>Both calls of a calendar spread are valued as if they expired together: its payoff is the same at every price.\<close>

lemma calendar_payoff_flat:
  assumes "calendar_spread env ch near_dte far_dte offset = Inr b"
  shows "payoff_of b x = payoff_of b y"
proof -
  obtain near far k legs meta where b: "chain_legs [(LCall, Sell, k, near), (LCall, Buy, k, far)] ch = Inr legs"
    "assemble ''CALENDAR_SPREAD'' legs meta = Inr b"
    using assms unfolding calendar_spread_def and_then_eq_Inr by blast
  obtain p q where l: "legs = [mk_leg LCall Sell (Some k) p 1 near, mk_leg LCall Buy (Some k) q 1 far]"
    using b(1) unfolding chain_legs_Inr by auto
  show ?thesis by (simp add: built_payoff[OF b(2)] l mk_leg_def)
qed

text \<open>A straddle takes the strike from the calls; where no put has it, the put leg carries the strike of the call and the premium of
  another put, and the validation refuses it.\<close>

lemma straddle_with_a_premium_of_another_strike:
  "map_sum (\<lambda>e. e) (map (\<lambda>l. (tg_type l, tg_strike l, tg_premium l)) \<circ> bs_legs)
     (long_straddle demo_env (InMemoryChainLookup [demo_quote LCall 100 8 (5 / 10), demo_quote LPut 80 1 (- 1 / 10)] 100 252) 30)
   = Inr [(LCall, Some 100, 8), (LPut, Some 100, 1)]"
  "validate_strategy [mk_leg LPut Buy (Some 100) 1 1 ''E'']
     (Some (InMemoryChainLookup [demo_quote LCall 100 8 (5 / 10), demo_quote LPut 80 1 (- 1 / 10)] 100 252))
     \<lparr>tr_cash = None, tr_current = 0, tr_new = 0, tr_max_concentration = None\<rparr> None = [NotListed LPut 100]"
  by code_simp+

text \<open>The nearest expiry may lie in the past: only the distance in days counts.\<close>

lemma expired_expiry_chosen:
  "nearest_expiry \<lparr>env_days = (\<lambda>d. if d = ''old'' then Some (- 5) else Some 60), env_float = (\<lambda>d. None), env_price = (\<lambda>s k t r v ty. no_greeks)\<rparr>
     20 (InMemoryChainLookup [(demo_quote LCall 100 8 0)\<lparr>cq_expiry := ''old''\<rparr>, (demo_quote LCall 100 8 0)\<lparr>cq_expiry := ''new''\<rparr>] 100 252)
   = Inr ''old''"
  by code_simp

subsection \<open>The curve\<close>

lemma price_steps_grid: "price_steps p q s = curve_grid p (q + ZERO_TOLERANCE) s"
proof -
  have 1: "price_steps p q s = Some ps \<Longrightarrow> curve_grid p (q + ZERO_TOLERANCE) s = Some ps" for ps
  proof (erule price_steps.raw_induct[rotated])
    fix rec :: "pyfloat \<Rightarrow> pyfloat \<Rightarrow> pyfloat \<Rightarrow> pyfloat list option" and p q s and ps
    assume ih: "\<And>p q s ps. rec p q s = Some ps \<Longrightarrow> curve_grid p (q + ZERO_TOLERANCE) s = Some ps"
      and "(if p < q then Option.bind (rec (p + s) q s) (\<lambda>ps. Some (p # ps)) else Some []) = Some ps"
    then show "curve_grid p (q + ZERO_TOLERANCE) s = Some ps"
      by (subst curve_grid.simps) (auto split: if_splits bind_splits dest!: ih)
  qed
  have 2: "curve_grid p q' s = Some ps \<Longrightarrow> price_steps p (q' - ZERO_TOLERANCE) s = Some ps" for q' ps
  proof (erule curve_grid.raw_induct[rotated])
    fix rec :: "pyfloat \<Rightarrow> pyfloat \<Rightarrow> pyfloat \<Rightarrow> pyfloat list option" and p q s and ps
    assume ih: "\<And>p q s ps. rec p q s = Some ps \<Longrightarrow> price_steps p (q - ZERO_TOLERANCE) s = Some ps"
      and "(if p < q - ZERO_TOLERANCE then Option.bind (rec (p + s) q s) (\<lambda>prices. Some (p # prices)) else Some []) = Some ps"
    then show "price_steps p (q - ZERO_TOLERANCE) s = Some ps"
      by (subst price_steps.simps) (auto split: if_splits bind_splits dest!: ih)
  qed
  show ?thesis
    using 1 2[of "q + ZERO_TOLERANCE"] by (cases "price_steps p q s"; cases "curve_grid p (q + ZERO_TOLERANCE) s") auto
qed

lemma price_steps_returns: "price_steps p q s \<noteq> None \<longleftrightarrow> 0 < s \<or> q \<le> p"
proof -
  have "q \<le> p \<Longrightarrow> price_steps p q s = Some []" by (subst price_steps.simps) simp
  moreover have "price_steps p q s = None" if "s \<le> 0" "p < q"
    using curve_grid_stuck[OF that(1), of p "q + ZERO_TOLERANCE"] that(2) by (simp add: price_steps_grid)
  moreover have "price_steps p q s \<noteq> None" if "0 < s"
    using curve_grid_steps[OF that, of p "q + ZERO_TOLERANCE"] by (auto simp: price_steps_grid)
  ultimately show ?thesis by (cases "0 < s"; cases "q \<le> p") auto
qed

text \<open>The dual payoff curve returns exactly when its step is positive, its range is empty or a leg is refused, and what it returns has
  the same current value in every row.\<close>

theorem dual_curve_returns:
  "(dual_payoff_curve env rate legs spot days lo hi step sigmas \<noteq> None
      \<longleftrightarrow> 0 < step \<or> hi \<le> lo \<or> (\<exists>e. payoff_legs legs = Inl e))
   \<and> (case dual_payoff_curve env rate legs spot days lo hi step sigmas of
        Some (Inr rows) \<Rightarrow> set (map cr_current rows) = {round6 (pc_price (portfolio_value_and_greeks env rate legs spot days sigmas))}
      | _ \<Rightarrow> True)"
proof (cases "payoff_legs legs")
  case (Inr ps)
  then show ?thesis
    using price_steps_returns[of lo hi step]
    by (cases "price_steps lo hi step") (auto simp: dual_payoff_curve_def Let_def)
qed (simp add: dual_payoff_curve_def)

subsection \<open>Every life of a strategy\<close>

inductive life_run :: "string \<Rightarrow> tracker \<Rightarrow> strategy_status list \<Rightarrow> bool" for i where
  life_init: "life_run i [] []"
| life_created: "life_run i t p \<Longrightarrow> life_run i (life_create j t) (if j = i then [SPROPOSED] else p)"
| life_moved: "life_run i t p \<Longrightarrow> life_transition j to t = (r, t') \<Longrightarrow>
     life_run i t' (if j = i \<and> r = Inr to then p @ [to] else p)"

definition life_path :: "strategy_status list \<Rightarrow> bool" where
  \<comment> \<open>from proposed on along allowed transitions\<close>
  "life_path p \<longleftrightarrow> hd p = SPROPOSED \<and> successively (\<lambda>a b. b \<in> set (allowed_transitions a)) p"

lemma allowed_into:
  "SPENDING_APPROVAL \<in> set (allowed_transitions a) \<longleftrightarrow> a = SPROPOSED"
  "SPENDING_EXECUTION \<in> set (allowed_transitions a) \<longleftrightarrow> a = SPENDING_APPROVAL"
  "SPROPOSED \<notin> set (allowed_transitions a)"
  "SADJUSTED \<in> set (allowed_transitions a) \<longleftrightarrow> a = SACTIVE"
  "SACTIVE \<in> set (allowed_transitions a) \<longleftrightarrow> a = SPENDING_EXECUTION \<or> a = SADJUSTED"
  by (cases a; simp)+

lemma life_path_snoc:
  "p \<noteq> [] \<Longrightarrow> life_path (p @ [s]) \<longleftrightarrow> life_path p \<and> s \<in> set (allowed_transitions (List.last p))"
  by (auto simp: life_path_def successively_append_iff)

definition staged :: "strategy_status list \<Rightarrow> bool" where
  \<comment> \<open>a strategy that is not closed went through every stage before its own\<close>
  "staged p \<longleftrightarrow>
     (case List.last p of
        SPROPOSED \<Rightarrow> p = [SPROPOSED]
      | SPENDING_APPROVAL \<Rightarrow> p = [SPROPOSED, SPENDING_APPROVAL]
      | SPENDING_EXECUTION \<Rightarrow> p = [SPROPOSED, SPENDING_APPROVAL, SPENDING_EXECUTION]
      | SCLOSED \<Rightarrow> True
      | _ \<Rightarrow> take 4 p = [SPROPOSED, SPENDING_APPROVAL, SPENDING_EXECUTION, SACTIVE])"

lemma take_four: "take 4 xs = [a, b, c, d] \<Longrightarrow> 4 \<le> length xs"
  by (drule arg_cong[where f = length]) simp

lemma staged_step:
  assumes "staged p" "p \<noteq> []" "s \<in> set (allowed_transitions (List.last p))" shows "staged (p @ [s])"
  using assms by (cases "List.last p") (auto simp: staged_def dest: take_four)

definition life_ok :: "string \<Rightarrow> tracker \<Rightarrow> strategy_status list \<Rightarrow> bool" where
  "life_ok i t p \<longleftrightarrow> life_status i t = (if p = [] then None else Some (List.last p))
     \<and> (p = [] \<or> life_path p \<and> staged p \<and> SCLOSED \<notin> set (butlast p))"

text \<open>In every history of creations and transitions, whatever is asked of other strategies, a strategy's status is the end of a path
  of allowed transitions from proposed since its last creation; it is active or adjusted only after it was approved and executed in
  this order, and after it is closed it moves no more.\<close>

theorem strategies_live_by_the_rules:
  assumes "life_run i t p" shows "life_ok i t p"
  using assms
proof induction
  case (life_created t p j)
  then show ?case by (auto simp: life_ok_def life_status_def life_create_def life_path_def staged_def)
next
  case (life_moved t p j to r t')
  show ?case
  proof (cases "j = i \<and> r = Inr to")
    case False
    then have "dict_get t' i = dict_get t i"
      using life_moved.hyps(2) by (auto simp: life_transition_def split: option.splits if_splits)
    then show ?thesis using False life_moved.IH by (auto simp: life_ok_def life_status_def)
  next
    case True
    obtain a where a: "dict_get t i = Some a" "to \<in> set (allowed_transitions a)" "t' = dict_set i to t"
      using life_moved.hyps(2) True by (auto simp: life_transition_def split: option.splits if_splits)
    have p: "p \<noteq> []" "List.last p = a" using life_moved.IH a(1) by (auto simp: life_ok_def life_status_def split: if_splits)
    have "a \<noteq> SCLOSED" using a(2) by auto
    then have "SCLOSED \<notin> set p"
      using life_moved.IH p append_butlast_last_id[of p] by (metis life_ok_def Un_iff set_append empty_set list.simps(15) insert_iff empty_iff)
    then show ?thesis
      using life_moved.IH p a True staged_step[of p to] life_path_snoc[of p to] by (simp add: life_ok_def life_status_def)
  qed
qed (simp add: life_ok_def life_status_def)

lemma strategies_live_by_the_rules_witness:
  "life_status ''s'' (snd (life_transition ''s'' SPENDING_APPROVAL (life_create ''s'' []))) = Some SPENDING_APPROVAL
   \<and> life_path [SPROPOSED, SPENDING_APPROVAL]"
proof -
  have r: "life_transition ''s'' SPENDING_APPROVAL (life_create ''s'' []) = (Inr SPENDING_APPROVAL, [(''s'', SPENDING_APPROVAL)])"
    by (simp add: life_transition_def life_create_def)
  have "life_run ''s'' (life_create ''s'' []) [SPROPOSED]"
    using life_created[OF life_init, of "''s''" "''s''"] by simp
  from life_moved[OF this r] have "life_run ''s'' [(''s'', SPENDING_APPROVAL)] [SPROPOSED, SPENDING_APPROVAL]" by simp
  from strategies_live_by_the_rules[OF this] show ?thesis by (simp add: life_ok_def r)
qed

text \<open>Creating a strategy again puts it back to proposed, an active or closed one too.\<close>

lemma create_reopens: "life_status i (life_create i t) = Some SPROPOSED"
  by (simp add: life_status_def life_create_def)

end
