(* ===== verification/Restatements.thy ===== *)
theory Restatements
  imports Prelude "HOL-Library.List_Lexorder" "HOL-Library.Char_ord"
begin

text \<open>
  Corrections of financial reports (\<open>services/codal_analysis\<close>): the tracker of amended announcements
  (\<open>amendment_tracker.py\<close>) and the versions of a reported amount with their time of validity
  (\<open>point_in_time.py\<close>). Dates are strings and are compared as strings, as in the code. The nodes of the tracker
  live in its dictionary; what a query returns is a copy of the moment. The SQL text of the materialised view
  is left out.
\<close>

subsection \<open>Announcements\<close>

record announcement =
  an_id :: string
  an_symbol :: string
  an_title :: string
  an_date :: string
  an_period :: string
  an_report :: string
  an_parent :: "string option"
  an_children :: "string list"
  an_number :: nat
  an_current :: bool
  an_meta :: "(string, py_value) pydict"

record amendments =
  am_nodes :: "(string, announcement) pydict"
  am_index :: "(string, string list) pydict"

record amendment_chain =
  ac_nodes :: "announcement list"
  ac_latest :: "announcement option"
  ac_length :: nat

definition amendments_init :: amendments where
  "amendments_init = \<lparr>am_nodes = [], am_index = []\<rparr>"

definition new_node ::
    "string \<Rightarrow> string \<Rightarrow> string \<Rightarrow> string \<Rightarrow> string \<Rightarrow> string \<Rightarrow> string option \<Rightarrow> (string, py_value) pydict \<Rightarrow> announcement" where
  "new_node i sy title date period report parent meta =
     \<lparr>an_id = i, an_symbol = sy, an_title = title, an_date = date, an_period = period, an_report = report, an_parent = parent,
      an_children = [], an_number = 0, an_current = True, an_meta = meta\<rparr>"

definition known_parent :: "string option \<Rightarrow> amendments \<Rightarrow> announcement option" where
  "known_parent parent am = (case parent of None \<Rightarrow> None | Some p \<Rightarrow> if p = [] then None else dict_get (am_nodes am) p)"

definition register_announcement ::
    "string \<Rightarrow> string \<Rightarrow> string \<Rightarrow> string \<Rightarrow> string \<Rightarrow> string \<Rightarrow> string option \<Rightarrow> (string, py_value) pydict \<Rightarrow> amendments \<Rightarrow>
       announcement \<times> amendments" where
  "register_announcement i sy title date period report parent meta am =
     (let n0 = new_node i sy title date period report parent meta;
          (node, nodes) = (case known_parent parent am of
             None \<Rightarrow> (n0, am_nodes am)
           | Some p \<Rightarrow> (n0\<lparr>an_number := Suc (an_number p)\<rparr>,
                        dict_set (the parent) (p\<lparr>an_children := an_children p @ [i], an_current := False\<rparr>) (am_nodes am)))
      in (node, \<lparr>am_nodes = dict_set i node nodes,
                 am_index = dict_set sy (dict_get_or (am_index am) sy [] @ [i]) (am_index am)\<rparr>))"

definition in_chain :: "string \<Rightarrow> string \<Rightarrow> string \<Rightarrow> announcement \<Rightarrow> bool" where
  "in_chain sy period report n \<longleftrightarrow> an_symbol n = sy \<and> an_period n = period \<and> an_report n = report"

definition get_chain :: "string \<Rightarrow> string \<Rightarrow> string \<Rightarrow> amendments \<Rightarrow> amendment_chain \<times> amendments" where
  \<comment> \<open>the query marks its last node, by date, as current\<close>
  "get_chain sy period report am =
     (let ns = sort_key an_date (filter (in_chain sy period report) (map snd (am_nodes am))) in
      if ns = [] then (\<lparr>ac_nodes = [], ac_latest = None, ac_length = 0\<rparr>, am)
      else (let latest = (List.last ns)\<lparr>an_current := True\<rparr>
            in (\<lparr>ac_nodes = butlast ns @ [latest], ac_latest = Some latest, ac_length = length ns\<rparr>,
                am\<lparr>am_nodes := dict_set (an_id latest) latest (am_nodes am)\<rparr>)))"

definition dependency_graph :: "string \<Rightarrow> amendments \<Rightarrow> (string, string list) pydict" where
  "dependency_graph sy am = map (\<lambda>n. (an_id n, an_children n)) (filter (\<lambda>n. an_symbol n = sy) (map snd (am_nodes am)))"

function traverse :: "(string, announcement) pydict \<Rightarrow> string list \<Rightarrow> announcement \<Rightarrow> announcement" where
  "traverse nodes visited current =
     (if an_children current \<noteq> [] \<and> an_id current \<notin> set visited
      then (case dict_get nodes (List.last (an_children current)) of
              None \<Rightarrow> current
            | Some n \<Rightarrow> traverse nodes (an_id current # visited) n)
      else current)"
  by auto
termination
proof (relation "measure (\<lambda>(nodes, visited, current). card (insert (an_id current) (an_id ` snd ` set nodes) - set visited))")
  fix nodes visited and current n :: announcement
  assume c: "an_children current \<noteq> [] \<and> an_id current \<notin> set visited" and n: "dict_get nodes (List.last (an_children current)) = Some n"
  have "an_id n \<in> an_id ` snd ` set nodes" using map_of_SomeD[OF n] by force
  then have "insert (an_id n) (an_id ` snd ` set nodes) - set (an_id current # visited)
      \<subset> insert (an_id current) (an_id ` snd ` set nodes) - set visited" using c by auto
  then show "((nodes, an_id current # visited, n), nodes, visited, current)
      \<in> measure (\<lambda>(nodes, visited, current). card (insert (an_id current) (an_id ` snd ` set nodes) - set visited))"
    by (simp add: psubset_card_mono)
qed simp

declare traverse.simps [simp del]

definition traverse_to_latest :: "string \<Rightarrow> amendments \<Rightarrow> announcement option" where
  "traverse_to_latest i am = map_option (traverse (am_nodes am) []) (dict_get (am_nodes am) i)"

record history_row =
  hr_id :: string
  hr_date :: string
  hr_number :: nat
  hr_current :: bool
  hr_superseded :: bool
  hr_title :: string

definition get_amendment_history :: "string \<Rightarrow> string \<Rightarrow> string \<Rightarrow> amendments \<Rightarrow> history_row list \<times> amendments" where
  "get_amendment_history sy period report am =
     (let (chain, am1) = get_chain sy period report am
      in (map (\<lambda>n. \<lparr>hr_id = an_id n, hr_date = an_date n, hr_number = an_number n, hr_current = an_current n,
                     hr_superseded = (Some n \<noteq> ac_latest chain), hr_title = an_title n\<rparr>) (ac_nodes chain), am1))"

definition chain_key :: "announcement \<Rightarrow> string" where
  "chain_key n = an_period n @ '':'' @ an_report n"

definition detect_conflicts :: "string \<Rightarrow> amendments \<Rightarrow> (string \<times> nat) list" where
  \<comment> \<open>the chains with more than five nodes, in the order of their first node\<close>
  "detect_conflicts sy am =
     (let ns = filter (\<lambda>n. an_symbol n = sy) (map snd (am_nodes am));
          chains = fold (\<lambda>n d. dict_set (chain_key n) (dict_get_or d (chain_key n) [] @ [an_id n]) d) ns []
      in map (\<lambda>(k, is). (k, length is)) (filter (\<lambda>(k, is). length is > 5) chains))"

subsection \<open>Values in time\<close>

record fact_version =
  fv_amount :: pyfloat
  fv_version :: int
  fv_from :: string
  fv_to :: string
  fv_document :: string

type_synonym facts = "(string, fact_version list) pydict"

definition fact_key :: "string \<Rightarrow> string \<Rightarrow> string \<Rightarrow> string" where
  "fact_key sy period code = sy @ '':'' @ period @ '':'' @ code"

definition mk_version :: "pyfloat \<Rightarrow> int \<Rightarrow> string \<Rightarrow> string option \<Rightarrow> string \<Rightarrow> fact_version" where
  "mk_version amount version from to document =
     \<lparr>fv_amount = amount, fv_version = version, fv_from = from,
      fv_to = (case to of None \<Rightarrow> ''9999-12-31'' | Some t \<Rightarrow> if t = [] then ''9999-12-31'' else t), fv_document = document\<rparr>"

definition register_version :: "string \<Rightarrow> string \<Rightarrow> string \<Rightarrow> fact_version \<Rightarrow> facts \<Rightarrow> facts" where
  "register_version sy period code v fs =
     (let key = fact_key sy period code
      in dict_set key (sort_key (\<lambda>x. - fv_version x) (dict_get_or fs key [] @ [v])) fs)"

definition get_all_versions :: "string \<Rightarrow> string \<Rightarrow> string \<Rightarrow> facts \<Rightarrow> fact_version list" where
  "get_all_versions sy period code fs = dict_get_or fs (fact_key sy period code) []"

definition valid_at :: "string \<Rightarrow> fact_version \<Rightarrow> bool" where
  "valid_at date v \<longleftrightarrow> fv_from v \<le> date \<and> date \<le> fv_to v"

definition get_value_at :: "string \<Rightarrow> string \<Rightarrow> string \<Rightarrow> string \<Rightarrow> facts \<Rightarrow> fact_version option" where
  "get_value_at sy period code date fs = List.find (valid_at date) (get_all_versions sy period code fs)"

definition get_latest :: "string \<Rightarrow> string \<Rightarrow> string \<Rightarrow> facts \<Rightarrow> fact_version option" where
  "get_latest sy period code fs = (case get_all_versions sy period code fs of [] \<Rightarrow> None | v # _ \<Rightarrow> Some v)"

record restated =
  re_version :: int
  re_accounts :: "(string, pyfloat) pydict"
  re_document :: string
  re_from :: string

record restatement_chain =
  rc_symbol :: string
  rc_period :: string
  rc_versions :: "restated list"
  rc_latest :: "restated option"

definition note_version :: "string \<Rightarrow> fact_version \<Rightarrow> (int, restated) pydict \<Rightarrow> (int, restated) pydict" where
  "note_version code v seen =
     (let r = dict_get_or seen (fv_version v) \<lparr>re_version = fv_version v, re_accounts = [], re_document = '''', re_from = fv_from v\<rparr>;
          r1 = r\<lparr>re_accounts := dict_set code (fv_amount v) (re_accounts r)\<rparr>
      in dict_set (fv_version v) (if fv_document v \<noteq> [] then r1\<lparr>re_document := fv_document v\<rparr> else r1) seen)"

definition get_restatement_chain :: "string \<Rightarrow> string \<Rightarrow> string list \<Rightarrow> facts \<Rightarrow> restatement_chain" where
  "get_restatement_chain sy period codes fs =
     (let seen = fold (\<lambda>code. fold (note_version code) (get_all_versions sy period code fs)) codes [];
          versions = sort_key (\<lambda>r. - re_version r) (map snd seen)
      in \<lparr>rc_symbol = sy, rc_period = period, rc_versions = versions, rc_latest = (case versions of [] \<Rightarrow> None | v # _ \<Rightarrow> Some v)\<rparr>)"

record pit_snapshot =
  sn_date :: string
  sn_symbol :: string
  sn_values :: "(string, pyfloat) pydict"
  sn_versions :: "(string, int) pydict"
  sn_documents :: "string list"

definition snapshot_code :: "string \<Rightarrow> string \<Rightarrow> facts \<Rightarrow> string \<Rightarrow> pit_snapshot \<Rightarrow> pit_snapshot" where
  "snapshot_code period date fs code sn =
     (case get_value_at (sn_symbol sn) period code date fs of
        None \<Rightarrow> sn
      | Some v \<Rightarrow>
          sn\<lparr>sn_values := dict_set code (fv_amount v) (sn_values sn), sn_versions := dict_set code (fv_version v) (sn_versions sn),
             sn_documents := (if fv_document v \<noteq> [] \<and> fv_document v \<notin> set (sn_documents sn)
                              then sn_documents sn @ [fv_document v] else sn_documents sn)\<rparr>)"

definition build_snapshot_at :: "string \<Rightarrow> string \<Rightarrow> string \<Rightarrow> string list \<Rightarrow> facts \<Rightarrow> pit_snapshot" where
  "build_snapshot_at sy period date codes fs =
     fold (snapshot_code period date fs) codes
       \<lparr>sn_date = date, sn_symbol = sy, sn_values = [], sn_versions = [], sn_documents = []\<rparr>"

subsection \<open>The corrections form a forest\<close>

datatype amend_op =
    Register string string string string string string "string option" "(string, py_value) pydict"
  | Get_Chain string string string

fun amend_step :: "amend_op \<Rightarrow> amendments \<Rightarrow> amendments" where
  "amend_step (Register i sy title date period report parent meta) am = snd (register_announcement i sy title date period report parent meta am)"
| "amend_step (Get_Chain sy period report) am = snd (get_chain sy period report am)"

definition amend_run :: "amend_op list \<Rightarrow> amendments" where
  "amend_run ops = fold amend_step ops amendments_init"


















text \<open>The query for a chain marks its last announcement by date as current, one that has been corrected too.\<close>

definition demo_amendments :: amendments where
  "demo_amendments = amend_run [Register ''a'' ''S'' ''t'' ''2'' ''P'' ''R'' None [], Register ''b'' ''S'' ''t'' ''1'' ''P'' ''R'' (Some ''a'') []]"

lemma query_revives_a_corrected_report:
  "map_option an_current (dict_get (am_nodes demo_amendments) ''a'') = Some False"
  "map_option an_current (dict_get (am_nodes (amend_step (Get_Chain ''S'' ''P'' ''R'') demo_amendments)) ''a'') = Some True"
  "map_option an_id (traverse_to_latest ''a'' demo_amendments) = Some ''b''"
  by code_simp+

subsection \<open>The value known at a date\<close>

record registration =
  rg_symbol :: string
  rg_period :: string
  rg_code :: string
  rg_version :: fact_version

definition register_all :: "registration list \<Rightarrow> facts \<Rightarrow> facts" where
  "register_all rs fs = fold (\<lambda>r. register_version (rg_symbol r) (rg_period r) (rg_code r) (rg_version r)) rs fs"

definition rg_key :: "registration \<Rightarrow> string" where
  "rg_key r = fact_key (rg_symbol r) (rg_period r) (rg_code r)"

definition versions_of :: "string \<Rightarrow> registration list \<Rightarrow> fact_version list" where
  "versions_of key rs = map rg_version (filter (\<lambda>r. rg_key r = key) rs)"

lemma register_all_versions:
  "dict_get_or (register_all rs []) key [] = sort_key (\<lambda>v. - fv_version v) (versions_of key rs)"
proof (induction rs rule: rev_induct)
  case Nil
  then show ?case by (simp add: register_all_def versions_of_def dict_get_or_def)
next
  case (snoc r rs)
  have "register_all (rs @ [r]) [] = register_version (rg_symbol r) (rg_period r) (rg_code r) (rg_version r) (register_all rs [])"
    by (simp add: register_all_def)
  then show ?case
    using snoc by (auto simp: register_version_def Let_def dict_get_or_def rg_key_def versions_of_def sort_key_snoc)
qed

lemma find_filter: "List.find P xs = (case filter P xs of [] \<Rightarrow> None | x # _ \<Rightarrow> Some x)"
  by (induction xs) auto

definition latest_of :: "fact_version list \<Rightarrow> fact_version option" where
  \<comment> \<open>the highest version, the first of them in the order of registration\<close>
  "latest_of vs = (if vs = [] then None else Some (arg_min_list (\<lambda>v. - fv_version v) vs))"

lemma first_sorted: "(case sort_key (\<lambda>v. - fv_version v) vs of [] \<Rightarrow> None | v # _ \<Rightarrow> Some v) = latest_of vs"
proof (cases "vs = []")
  case False
  then obtain v ws where s: "sort_key (\<lambda>v. - fv_version v) vs = v # ws"
    by (cases "sort_key (\<lambda>v. - fv_version v) vs") (auto dest: arg_cong[where f = length])
  then show ?thesis using hd_sort_key[OF False, of "\<lambda>v. - fv_version v"] False by (simp add: latest_of_def)
qed (simp add: latest_of_def)

lemma value_at_spec:
  "get_value_at sy period code date (register_all rs []) = latest_of (filter (valid_at date) (versions_of (fact_key sy period code) rs))"
  by (simp add: get_value_at_def get_all_versions_def register_all_versions find_filter filter_sort first_sorted)

text \<open>C23: in every history of registrations, the value at a date is that of the highest version among those registered under the key and
  valid at that date, the first one registered where versions repeat, and none when there is none; the latest value is the same
  without regard to validity.\<close>

theorem value_at_a_date_is_the_last_version:
  "get_value_at sy period code date (register_all rs []) = latest_of (filter (valid_at date) (versions_of (fact_key sy period code) rs))
   \<and> get_latest sy period code (register_all rs []) = latest_of (versions_of (fact_key sy period code) rs)"
  using value_at_spec by (simp add: get_latest_def get_all_versions_def register_all_versions first_sorted)

lemma later_versions_invisible:
  assumes "\<forall>r \<in> set later. \<not> valid_at date (rg_version r)"
  shows "get_value_at sy period code date (register_all (rs @ later) []) = get_value_at sy period code date (register_all rs [])"
proof -
  have "filter (valid_at date) (versions_of key (rs @ later)) = filter (valid_at date) (versions_of key rs)" for key
    using assms by (auto simp: versions_of_def filter_map filter_empty_conv)
  then show ?thesis by (simp only: value_at_spec)
qed

text \<open>A snapshot does not look ahead: what is published later and valid only from a later date, restatements of the same accounts too,
  leaves every snapshot of an earlier date as it was.\<close>

theorem snapshot_has_no_lookahead:
  assumes "\<forall>r \<in> set later. date < fv_from (rg_version r)"
  shows "build_snapshot_at sy period date codes (register_all (rs @ later) []) = build_snapshot_at sy period date codes (register_all rs [])"
proof -
  have "\<forall>r \<in> set later. \<not> valid_at date (rg_version r)" using assms by (auto simp: valid_at_def)
  then have "snapshot_code period date (register_all (rs @ later) []) code sn = snapshot_code period date (register_all rs []) code sn" for code sn
    by (simp only: snapshot_code_def later_versions_invisible)
  then have "snapshot_code period date (register_all (rs @ later) []) = snapshot_code period date (register_all rs [])"
    by (intro ext)
  then show ?thesis by (simp only: build_snapshot_at_def)
qed

definition demo_registration :: "int \<Rightarrow> string \<Rightarrow> pyfloat \<Rightarrow> registration" where
  "demo_registration n from x =
     \<lparr>rg_symbol = ''S'', rg_period = ''1402'', rg_code = ''NET_PROFIT'', rg_version = mk_version x n from None ''doc''\<rparr>"

lemma snapshot_has_no_lookahead_witness:
  "sn_values (build_snapshot_at ''S'' ''1402'' ''2024-02-01'' [''NET_PROFIT'']
     (register_all ([demo_registration 1 ''2024-01-01'' 10] @ [demo_registration 2 ''2024-03-01'' 7]) [])) = [(''NET_PROFIT'', 10)]"
proof -
  have later: "\<forall>r \<in> set [demo_registration 2 ''2024-03-01'' 7]. ''2024-02-01'' < fv_from (rg_version r)" by code_simp
  have "sn_values (build_snapshot_at ''S'' ''1402'' ''2024-02-01'' [''NET_PROFIT''] (register_all [demo_registration 1 ''2024-01-01'' 10] []))
     = [(''NET_PROFIT'', 10)]" by code_simp
  then show ?thesis by (simp only: snapshot_has_no_lookahead[OF later])
qed

text \<open>A key joins its parts with colons, so different facts can share one.\<close>

lemma fact_keys_collide: "fact_key ''A'' ''B:C'' ''D'' = fact_key ''A:B'' ''C'' ''D''"
  by (simp add: fact_key_def)

end
