(* ===== verification/Signal_Voting.thy ===== *)
theory Signal_Voting
  imports Prelude
begin

text \<open>
  The voting of signals (\<open>services/signal_voting_system.py\<close>): the sources that vote (the rules, the models'
  prediction, the record of the symbol, the smart money analysis) and the three ways to count them. Missing keys of
  an analysis are \<open>None\<close>, and the code's default stands in for them. The text a percentage is shown as is an argument;
  what a source only carries along for display is left out.
\<close>

subsection \<open>Signals and sources\<close>

record market_signal =
  ms_direction :: string
  ms_score :: pyfloat
  ms_strength :: pyfloat
  ms_confidence :: pyfloat
  ms_source :: string
  ms_reason :: string

record ml_prediction =
  mp_used :: "string list"
  mp_direction :: "string option"
  mp_score :: "pyfloat option"
  mp_confidence :: "pyfloat option"

record symbol_history =
  sh_accuracy :: "pyfloat option"
  sh_direction :: "string option"

record smart_money =
  sm_score :: "pyfloat option"
  sm_phase :: "string option"
  sm_accumulation :: "pyfloat option"
  sm_absorption :: "pyfloat option"
  sm_breakout :: "pyfloat option"
  sm_buyer_power :: "pyfloat option"
  sm_microstructure :: "pyfloat option"
  sm_engine_confidence :: "pyfloat option"

datatype source_type = Rule_Based | ML_Model | Historical | Smart_Money

record vote_source =
  vs_source :: string
  vs_type :: source_type
  vs_direction :: string
  vs_score :: pyfloat
  vs_confidence :: pyfloat
  vs_engine :: pyfloat \<comment> \<open>of the smart money source\<close>

record vote_result =
  vr_direction :: string
  vr_score :: pyfloat
  vr_confidence :: pyfloat
  vr_votes :: "(string, pyfloat) pydict"
  vr_counts :: "(string, nat) pydict"
  vr_sources :: "vote_source list"
  vr_ml_weight :: pyfloat
  vr_strategy :: string

definition get_default :: "'a option \<Rightarrow> 'a \<Rightarrow> 'a" where
  "get_default x d = (case x of None \<Rightarrow> d | Some y \<Rightarrow> y)"

definition round4 :: "pyfloat \<Rightarrow> pyfloat" where
  "round4 x = of_int (py_round (x * 10000)) / 10000"

definition rule_source :: "'a market_signal_scheme \<Rightarrow> vote_source" where
  "rule_source sig =
     \<lparr>vs_source = ms_source sig, vs_type = Rule_Based, vs_direction = ms_direction sig, vs_score = ms_score sig / 100,
      vs_confidence = ms_confidence sig, vs_engine = 0\<rparr>"

definition ml_present :: "ml_prediction option \<Rightarrow> bool" where
  "ml_present ml = (case ml of None \<Rightarrow> False | Some p \<Rightarrow> mp_used p \<noteq> [])"

definition ml_source :: "ml_prediction \<Rightarrow> vote_source" where
  "ml_source p =
     \<lparr>vs_source = ''ml_ensemble'', vs_type = ML_Model, vs_direction = get_default (mp_direction p) ''hold'',
      vs_score = get_default (mp_score p) (1 / 2), vs_confidence = get_default (mp_confidence p) 0, vs_engine = 0\<rparr>"

definition history_source :: "symbol_history \<Rightarrow> vote_source option" where
  "history_source h =
     (let accuracy = get_default (sh_accuracy h) 50 / 100
      in if accuracy > 55 / 100
         then Some \<lparr>vs_source = ''historical_accuracy'', vs_type = Historical, vs_direction = get_default (sh_direction h) ''hold'',
                    vs_score = accuracy, vs_confidence = accuracy * (8 / 10), vs_engine = 0\<rparr>
         else None)"

definition smart_money_view :: "smart_money \<Rightarrow> string \<times> pyfloat" where
  \<comment> \<open>the direction and the base confidence\<close>
  "smart_money_view s =
     (let score = get_default (sm_score s) 0; phase = get_default (sm_phase s) ''neutral'';
          accumulation = get_default (sm_accumulation s) (1 / 2); absorption = get_default (sm_absorption s) (1 / 2);
          breakout = get_default (sm_breakout s) (1 / 2); power = get_default (sm_buyer_power s) (1 / 2);
          micro = get_default (sm_microstructure s) (1 / 2)
      in if phase \<in> {''accumulation'', ''re-accumulation'', ''markup''} \<and> breakout > 1 / 2
         then (''buy'', score * (7 / 10) + breakout * (3 / 10))
         else if phase \<in> {''distribution'', ''re-distribution'', ''markdown''} \<and> breakout < 1 / 2
         then (''sell'', score * (7 / 10) + (1 - breakout) * (3 / 10))
         else if accumulation > 6 / 10 \<and> power > 6 / 10
         then (''buy'', accumulation * (5 / 10) + power * (3 / 10) + score * (2 / 10))
         else if absorption > 6 / 10 \<and> micro < 4 / 10
         then (''sell'', absorption * (5 / 10) + (1 - micro) * (3 / 10) + score * (2 / 10))
         else (''hold'', 3 / 10 + score * (3 / 10)))"

definition smart_money_to_vote :: "smart_money \<Rightarrow> vote_source option" where
  "smart_money_to_vote s =
     (if get_default (sm_score s) 0 = 0 then None
      else (let (direction, base) = smart_money_view s;
                capped = min (95 / 100) (max (5 / 100) base);
                engine = get_default (sm_engine_confidence s) (1 / 2)
            in Some \<lparr>vs_source = ''smart_money_engine'', vs_type = Smart_Money, vs_direction = direction,
                     vs_score = get_default (sm_score s) 0, vs_confidence = round4 (capped * (1 / 2 + engine * (1 / 2))), vs_engine = engine\<rparr>))"

definition vote_sources :: "'a market_signal_scheme \<Rightarrow> ml_prediction option \<Rightarrow> symbol_history option \<Rightarrow> smart_money option \<Rightarrow> vote_source list" where
  "vote_sources sig ml hist smc =
     [rule_source sig]
     @ (case ml of Some p \<Rightarrow> if mp_used p \<noteq> [] then [ml_source p] else [] | None \<Rightarrow> [])
     @ (case hist of Some h \<Rightarrow> (case history_source h of Some v \<Rightarrow> [v] | None \<Rightarrow> []) | None \<Rightarrow> [])
     @ (case smc of Some s \<Rightarrow> (case smart_money_to_vote s of Some v \<Rightarrow> [v] | None \<Rightarrow> []) | None \<Rightarrow> [])"

subsection \<open>Counting the votes\<close>

definition adjusted_weight :: "pyfloat \<Rightarrow> vote_source \<Rightarrow> pyfloat" where
  "adjusted_weight ml_weight v =
     vs_confidence v *
       (case vs_type v of
          Rule_Based \<Rightarrow> 1 - ml_weight * (5 / 10)
        | ML_Model \<Rightarrow> ml_weight * 2
        | Historical \<Rightarrow> 3 / 10
        | Smart_Money \<Rightarrow> 25 / 100 + vs_score v * (3 / 10) + vs_engine v * (2 / 10))"

definition weigh :: "pyfloat \<Rightarrow> vote_source \<Rightarrow> (string, pyfloat) pydict \<times> (string, nat) pydict \<times> pyfloat \<Rightarrow>
    (string, pyfloat) pydict \<times> (string, nat) pydict \<times> pyfloat" where
  "weigh ml_weight v acc =
     (case acc of (weights, counts, tot) \<Rightarrow>
        let d = vs_direction v; w = adjusted_weight ml_weight v
        in (dict_set d (dict_get_or weights d 0 + w) weights, dict_set d (dict_get_or counts d 0 + 1) counts, tot + w))"

definition weighted_vote :: "vote_source list \<Rightarrow> pyfloat \<Rightarrow> vote_result" where
  "weighted_vote sources ml_weight =
     (let (weights, counts, tot) = fold (weigh ml_weight) sources
            ([(''buy'', 0), (''sell'', 0), (''hold'', 0)], [(''buy'', 0), (''sell'', 0), (''hold'', 0)], 0);
          winner = arg_min_list (\<lambda>d. - dict_get_or weights d 0) (dict_keys weights);
          score = dict_get_or weights winner 0 / max tot (1 / 1000) * 100;
          ordered = rev (sort (map snd weights));
          margin = (if length ordered \<ge> 2 then (ordered ! 0 - ordered ! 1) / max tot (1 / 1000) else 1)
      in \<lparr>vr_direction = winner, vr_score = min 100 (max 0 score), vr_confidence = min 1 (max 0 margin), vr_votes = weights,
          vr_counts = counts, vr_sources = sources, vr_ml_weight = ml_weight,
          vr_strategy = (if ml_weight > 1 / 2 then ''ml_weighted''
                         else if length sources \<ge> 2 \<and> list_all (\<lambda>v. vs_direction v = winner) sources then ''unanimous''
                         else ''weighted'')\<rparr>)"

definition unanimous_vote :: "vote_source list \<Rightarrow> pyfloat \<Rightarrow> pyfloat \<Rightarrow> vote_result" where
  "unanimous_vote sources rule_score ml_weight =
     (case remdups (map vs_direction sources) of
        [d] \<Rightarrow>
          \<lparr>vr_direction = d, vr_score = min 100 (rule_score * 100),
           vr_confidence = min 1 (sum_list (map vs_confidence sources) / of_nat (max (length sources) 1) * (12 / 10)),
           vr_votes = [(d, 1)], vr_counts = [(d, length sources)], vr_sources = sources, vr_ml_weight = ml_weight, vr_strategy = ''unanimous''\<rparr>
      | ds \<Rightarrow>
          \<lparr>vr_direction = ''hold'', vr_score = 50, vr_confidence = 2 / 10, vr_votes = map (\<lambda>d. (d, 0)) ds, vr_counts = [],
           vr_sources = sources, vr_ml_weight = ml_weight, vr_strategy = ''unanimous_disagreement''\<rparr>)"

definition ml_override_vote :: "vote_source list \<Rightarrow> 'a market_signal_scheme \<Rightarrow> ml_prediction option \<Rightarrow> pyfloat \<Rightarrow> vote_result" where
  "ml_override_vote sources sig ml threshold =
     (if \<not> ml_present ml
      then \<lparr>vr_direction = ms_direction sig, vr_score = ms_score sig, vr_confidence = ms_confidence sig * (8 / 10),
            vr_votes = [(ms_direction sig, 1)], vr_counts = [(ms_direction sig, 1)], vr_sources = sources, vr_ml_weight = 0,
            vr_strategy = ''rule_only''\<rparr>
      else (let p = the ml; confidence = get_default (mp_confidence p) 0; d = get_default (mp_direction p) ''hold''
            in if confidence \<ge> threshold
               then \<lparr>vr_direction = d, vr_score = get_default (mp_score p) (1 / 2) * 100, vr_confidence = confidence,
                     vr_votes = [(d, confidence)], vr_counts = [(d, 1)], vr_sources = sources, vr_ml_weight = 1, vr_strategy = ''ml_override''\<rparr>
               else weighted_vote sources (confidence * (3 / 10))))"

definition ml_vote_weight :: "ml_prediction option \<Rightarrow> pyfloat" where
  "ml_vote_weight ml = (if ml_present ml then get_default (mp_confidence (the ml)) 0 * (7 / 10) else 0)"

definition vote ::
    "'a market_signal_scheme \<Rightarrow> ml_prediction option \<Rightarrow> symbol_history option \<Rightarrow> smart_money option \<Rightarrow> string \<Rightarrow> pyfloat \<Rightarrow> vote_result" where
  "vote sig ml hist smc strategy threshold =
     (let sources = vote_sources sig ml hist smc in
      if strategy = ''unanimous'' then unanimous_vote sources (ms_score sig / 100) (ml_vote_weight ml)
      else if strategy = ''ml_override'' then ml_override_vote sources sig ml threshold
      else weighted_vote sources (ml_vote_weight ml))"

fun comma_join :: "string list \<Rightarrow> string" where
  "comma_join [] = []"
| "comma_join [s] = s"
| "comma_join (s # ss) = s @ '', '' @ comma_join ss"

definition apply_vote_to_signal :: "(pyfloat \<Rightarrow> string) \<Rightarrow> 'a market_signal_scheme \<Rightarrow> vote_result \<Rightarrow> 'a market_signal_scheme" where
  "apply_vote_to_signal percent sig v =
     sig\<lparr>ms_direction := vr_direction v, ms_score := vr_score v, ms_confidence := vr_confidence v,
         ms_strength := vr_confidence v * (vr_score v / 100), ms_source := ''voting_'' @ vr_strategy v,
         ms_reason := ''['' @ py_upper (vr_strategy v) @ ''] '' @
           comma_join (map (\<lambda>s. vs_source s @ '': '' @ vs_direction s @ '' ('' @ percent (vs_confidence s) @ '')'') (vr_sources v))
           @ '' | '' @ ms_reason sig\<rparr>"

subsection \<open>What the weights are\<close>

definition weight_for :: "pyfloat \<Rightarrow> vote_source list \<Rightarrow> string \<Rightarrow> pyfloat" where
  \<comment> \<open>what the sources give a direction\<close>
  "weight_for mw vs d = sum_list (map (adjusted_weight mw) (filter (\<lambda>v. vs_direction v = d) vs))"

lemma weight_for_Cons:
  "weight_for mw (v # vs) d = (if vs_direction v = d then adjusted_weight mw v else 0) + weight_for mw vs d"
  by (simp add: weight_for_def)

lemma weigh_step:
  "weigh mw v (weights, counts, tot) =
     (dict_set (vs_direction v) (dict_get_or weights (vs_direction v) 0 + adjusted_weight mw v) weights,
      dict_set (vs_direction v) (dict_get_or counts (vs_direction v) 0 + 1) counts, tot + adjusted_weight mw v)"
  by (simp add: weigh_def Let_def)

lemma weigh_fold_all:
  "fold (weigh mw) vs (weights, counts, tot) = (ws, cs, t) \<Longrightarrow>
     (\<forall>d. dict_get_or ws d 0 = dict_get_or weights d 0 + weight_for mw vs d)
     \<and> t = tot + sum_list (map (adjusted_weight mw) vs)
     \<and> set (dict_keys ws) = set (dict_keys weights) \<union> vs_direction ` set vs
     \<and> (dict_ok weights \<longrightarrow> dict_ok ws)"
proof (induction vs arbitrary: weights counts tot)
  case Nil
  then show ?case by (simp add: weight_for_def)
next
  case (Cons v vs)
  define w1 where "w1 = dict_set (vs_direction v) (dict_get_or weights (vs_direction v) 0 + adjusted_weight mw v) weights"
  have step: "fold (weigh mw) vs (w1, dict_set (vs_direction v) (dict_get_or counts (vs_direction v) 0 + 1) counts, tot + adjusted_weight mw v)
      = (ws, cs, t)"
    using Cons.prems by (simp only: fold_simps weigh_step w1_def)
  have "dict_get_or w1 d 0 = dict_get_or weights d 0 + (if vs_direction v = d then adjusted_weight mw v else 0)" for d
    by (simp add: w1_def dict_get_or_def)
  moreover have "set (dict_keys w1) = insert (vs_direction v) (set (dict_keys weights))" by (auto simp: w1_def update_keys)
  moreover have "dict_ok weights \<longrightarrow> dict_ok w1" by (simp add: w1_def)
  ultimately show ?case using Cons.IH[OF step] by (auto simp: weight_for_Cons)
qed

lemma weigh_fold:
  assumes "fold (weigh mw) vs (weights, counts, tot) = (ws, cs, t)"
  shows "dict_get_or ws d 0 = dict_get_or weights d 0 + weight_for mw vs d"
    and "t = tot + sum_list (map (adjusted_weight mw) vs)"
    and "set (dict_keys ws) = set (dict_keys weights) \<union> vs_direction ` set vs"
    and "dict_ok weights \<Longrightarrow> dict_ok ws"
  using weigh_fold_all[OF assms] by auto

lemma arg_min_least: "x \<in> set xs \<Longrightarrow> f (arg_min_list f xs) \<le> (f x :: 'b :: linorder)"
  using f_arg_min_list_f[of xs f] by (cases xs) auto

lemma weight_for_absent: "d \<notin> vs_direction ` set vs \<Longrightarrow> weight_for mw vs d = 0"
proof -
  assume "d \<notin> vs_direction ` set vs"
  then have "filter (\<lambda>v. vs_direction v = d) vs = []" by (auto simp: filter_empty_conv)
  then show ?thesis by (simp add: weight_for_def)
qed

lemma twice_in_values:
  assumes "dict_ok ws" "map_of ws k = Some a" "map_of ws j = Some a" "k \<noteq> j"
  shows "2 \<le> count (mset (map snd ws)) a"
proof -
  have k: "(k, a) \<in> set ws" and j: "(j, a) \<in> set ws" using map_of_SomeD assms(2,3) by fast+
  obtain xs ys where ws: "ws = xs @ (k, a) # ys" using split_list[OF k] by blast
  have "(j, a) \<in> set (xs @ ys)" using j assms(4) by (auto simp: ws)
  then have "a \<in> set (map snd (xs @ ys))" by force
  then have "1 \<le> count (mset (map snd (xs @ ys))) a" by (simp only: set_mset_mset[symmetric] count_greater_eq_one_iff)
  then show ?thesis by (simp add: ws)
qed

lemma single_top:
  assumes "rev (sort xs) = a # b # ys" "b < a"
  shows "count (mset xs) (a :: 'b :: linorder) = 1"
proof -
  have "mset xs = mset (a # b # ys)" using assms(1) by (metis mset_rev mset_sort)
  moreover have "sorted_wrt (\<ge>) (a # b # ys)"
    using assms(1) sorted_wrt_rev[of "(\<ge>)" "sort xs"] sorted_sort[of xs] by simp
  then have "\<forall>x \<in> set (b # ys). x < a" using assms(2) by auto
  then have "a \<notin># mset (b # ys)" by auto
  then have "count (mset (b # ys)) a = 0" by (simp only: not_in_iff)
  ultimately show ?thesis by simp
qed

definition elected :: "pyfloat \<Rightarrow> vote_source list \<Rightarrow> vote_result \<Rightarrow> bool" where
  \<comment> \<open>the votes are the weights of the directions, the winner has the greatest, the score is its share, and confidence means
     that no other direction has as much\<close>
  "elected mw vs r \<longleftrightarrow>
     (\<forall>d. dict_get_or (vr_votes r) d 0 = weight_for mw vs d)
     \<and> (\<forall>d. weight_for mw vs d \<le> weight_for mw vs (vr_direction r))
     \<and> vr_score r = min 100 (max 0 (weight_for mw vs (vr_direction r) / max (sum_list (map (adjusted_weight mw) vs)) (1 / 1000) * 100))
     \<and> (0 < vr_confidence r \<longrightarrow> (\<forall>d. d \<noteq> vr_direction r \<longrightarrow> weight_for mw vs d < weight_for mw vs (vr_direction r)))"

lemma weighted_elects:
  assumes nonneg: "\<forall>v \<in> set vs. 0 \<le> adjusted_weight mw v"
  shows "elected mw vs (weighted_vote vs mw)"
proof -
  define w0 :: "(string, pyfloat) pydict" where "w0 = [(''buy'', 0), (''sell'', 0), (''hold'', 0)]"
  obtain ws cs t where f: "fold (weigh mw) vs (w0, [(''buy'', 0), (''sell'', 0), (''hold'', 0)], 0) = (ws, cs, t)" by (metis prod_cases3)
  have w0: "dict_ok w0" "dict_get_or w0 d 0 = 0" for d by (simp_all add: w0_def dict_ok_def dict_get_or_def)
  have get: "dict_get_or ws d 0 = weight_for mw vs d" for d using weigh_fold(1)[OF f] w0(2) by simp
  have t: "t = sum_list (map (adjusted_weight mw) vs)" using weigh_fold(2)[OF f] by simp
  have keys: "set (dict_keys ws) = {''buy'', ''sell'', ''hold''} \<union> vs_direction ` set vs" using weigh_fold(3)[OF f] by (simp add: w0_def)
  have ok: "dict_ok ws" by (rule weigh_fold(4)[OF f w0(1)])
  define winner where "winner = arg_min_list (\<lambda>d. - dict_get_or ws d 0) (dict_keys ws)"
  define ordered where "ordered = rev (sort (map snd ws))"
  have r: "weighted_vote vs mw =
     \<lparr>vr_direction = winner, vr_score = min 100 (max 0 (weight_for mw vs winner / max t (1 / 1000) * 100)),
      vr_confidence = min 1 (max 0 (if length ordered \<ge> 2 then (ordered ! 0 - ordered ! 1) / max t (1 / 1000) else 1)), vr_votes = ws,
      vr_counts = cs, vr_sources = vs, vr_ml_weight = mw,
      vr_strategy = (if mw > 1 / 2 then ''ml_weighted''
                     else if length vs \<ge> 2 \<and> list_all (\<lambda>v. vs_direction v = winner) vs then ''unanimous'' else ''weighted'')\<rparr>"
    unfolding weighted_vote_def w0_def[symmetric] f prod.case Let_def winner_def[symmetric] ordered_def[symmetric]
    by (simp only: get)
  have wpos: "0 \<le> weight_for mw vs d" for d using nonneg by (auto simp: weight_for_def intro!: sum_list_nonneg)
  have best: "weight_for mw vs d \<le> weight_for mw vs winner" for d
  proof (cases "d \<in> set (dict_keys ws)")
    case True
    have "- dict_get_or ws winner 0 \<le> - dict_get_or ws d 0"
      unfolding winner_def by (rule arg_min_least[OF True, of "\<lambda>d. - dict_get_or ws d 0"])
    then show ?thesis by (simp add: get)
  next
    case False
    then have "weight_for mw vs d = 0" using keys by (intro weight_for_absent) auto
    then show ?thesis using wpos by simp
  qed
  have "''buy'' \<in> set (dict_keys ws)" unfolding keys by simp
  then have "dict_keys ws \<noteq> []" by (intro notI) (simp only: list.set(1) empty_iff)
  then have win: "winner \<in> set (dict_keys ws)" unfolding winner_def by (rule arg_min_list_in)
  have single: "weight_for mw vs d < weight_for mw vs winner" if c: "0 < vr_confidence (weighted_vote vs mw)" and d: "d \<noteq> winner" for d
  proof (rule ccontr)
    assume "\<not> ?thesis"
    then have same: "weight_for mw vs d = weight_for mw vs winner" using best[of d] by simp
    obtain d' where d': "d' \<noteq> winner" "d' \<in> set (dict_keys ws)" "weight_for mw vs d' = weight_for mw vs winner"
    proof (cases "d \<in> set (dict_keys ws)")
      case True then show ?thesis using that d same by blast
    next
      case False
      then have "weight_for mw vs d = 0" using keys by (intro weight_for_absent) blast
      then have "weight_for mw vs winner = 0" using same by simp
      then have z: "weight_for mw vs e = 0" for e using best[of e] wpos[of e] by simp
      define e where "e = (if winner = ''buy'' then ''sell'' else ''buy'')"
      have "e \<noteq> winner" by (simp add: e_def)
      moreover have "e \<in> set (dict_keys ws)" unfolding keys by (simp add: e_def)
      ultimately show ?thesis using that[of e] z by simp
    qed
    have val: "map_of ws e = Some (weight_for mw vs e)" if "e \<in> set (dict_keys ws)" for e
    proof -
      have "map_of ws e \<noteq> None" using that by (simp add: map_of_eq_None_iff)
      then obtain x where x: "map_of ws e = Some x" by blast
      then show ?thesis using get[of e] by (simp add: dict_get_or_def)
    qed
    have two: "2 \<le> count (mset (map snd ws)) (weight_for mw vs winner)"
      by (rule twice_in_values[OF ok val[OF win] _ d'(1)[symmetric]]) (simp add: val[OF d'(2)] d'(3))
    have len: "2 \<le> length ordered" using le_trans[OF two count_le_size] by (simp add: ordered_def)
    then obtain a b ys where ab: "ordered = a # b # ys" by (cases ordered rule: remdups_adj.cases) auto
    have mt: "0 < max t (1 / 1000)" by simp
    have "0 < (a - b) / max t (1 / 1000)" using c len by (simp add: r ab split: if_splits)
    then have lt: "b < a" using mt by (simp add: zero_less_divide_iff)
    have "a = weight_for mw vs winner"
    proof -
      have "sorted_wrt (\<ge>) ordered" unfolding ordered_def by (simp add: sorted_wrt_rev)
      then have top: "\<forall>x \<in> set ordered. x \<le> a" by (auto simp: ab)
      have "weight_for mw vs winner \<in> set ordered" using map_of_SomeD[OF val[OF win]] by (force simp: ordered_def)
      moreover have "a \<in> set ordered" by (simp add: ab)
      then have "a \<in> snd ` set ws" by (simp add: ordered_def)
      then obtain e where "(e, a) \<in> set ws" by auto
      then have "map_of ws e = Some a" by (rule dict_get_in[OF ok])
      then have "a = weight_for mw vs e" using get[of e] by (simp add: dict_get_or_def)
      ultimately show ?thesis using top best[of e] by (simp add: order_antisym)
    qed
    then show False using single_top[OF ab[unfolded ordered_def] lt] two by simp
  qed
  show ?thesis unfolding elected_def using best get single t by (auto simp: r)
qed

subsection \<open>Ranges\<close>

definition unit_ok :: "pyfloat option \<Rightarrow> bool" where
  "unit_ok x \<longleftrightarrow> (case x of None \<Rightarrow> True | Some y \<Rightarrow> 0 \<le> y \<and> y \<le> 1)"

definition signal_ok :: "'a market_signal_scheme \<Rightarrow> bool" where
  "signal_ok sig \<longleftrightarrow> 0 \<le> ms_score sig \<and> ms_score sig \<le> 100 \<and> 0 \<le> ms_confidence sig \<and> ms_confidence sig \<le> 1"

definition ml_ok :: "ml_prediction option \<Rightarrow> bool" where
  "ml_ok ml \<longleftrightarrow> (case ml of None \<Rightarrow> True | Some p \<Rightarrow> unit_ok (mp_score p) \<and> unit_ok (mp_confidence p))"

definition smart_ok :: "smart_money option \<Rightarrow> bool" where
  "smart_ok smc \<longleftrightarrow> (case smc of None \<Rightarrow> True
     | Some s \<Rightarrow> list_all unit_ok [sm_score s, sm_accumulation s, sm_absorption s, sm_breakout s, sm_buyer_power s, sm_microstructure s,
                               sm_engine_confidence s])"

lemma get_default_unit: "unit_ok x \<Longrightarrow> 0 \<le> d \<Longrightarrow> d \<le> 1 \<Longrightarrow> 0 \<le> get_default x d \<and> get_default x d \<le> (1::pyfloat)"
  by (auto simp: unit_ok_def get_default_def split: option.splits)

lemma py_round_nonneg: "0 \<le> x \<Longrightarrow> 0 \<le> py_round x"
  by (simp add: py_round_def Let_def)

lemma round4_nonneg: "0 \<le> x \<Longrightarrow> 0 \<le> round4 x"
  using py_round_nonneg[of "x * 10000"] by (simp add: round4_def)

definition source_ok :: "vote_source \<Rightarrow> bool" where
  "source_ok v \<longleftrightarrow> 0 \<le> vs_confidence v \<and> (vs_type v = Smart_Money \<longrightarrow> 0 \<le> vs_score v \<and> 0 \<le> vs_engine v)"

lemma smart_money_ok:
  assumes "smart_ok (Some s)" "smart_money_to_vote s = Some v" shows "source_ok v"
proof -
  have engine: "0 \<le> get_default (sm_engine_confidence s) (1 / 2)" using assms(1) get_default_unit[of "sm_engine_confidence s" "1 / 2"] by (simp add: smart_ok_def)
  have score: "0 \<le> get_default (sm_score s) 0" using assms(1) get_default_unit[of "sm_score s" 0] by (simp add: smart_ok_def)
  obtain d b where view: "smart_money_view s = (d, b)" by (cases "smart_money_view s")
  have "v = \<lparr>vs_source = ''smart_money_engine'', vs_type = Smart_Money, vs_direction = d, vs_score = get_default (sm_score s) 0,
      vs_confidence = round4 (min (95 / 100) (max (5 / 100) b) * (1 / 2 + get_default (sm_engine_confidence s) (1 / 2) * (1 / 2))),
      vs_engine = get_default (sm_engine_confidence s) (1 / 2)\<rparr>"
    using assms(2) view by (simp add: smart_money_to_vote_def Let_def split: if_splits)
  moreover have "0 \<le> round4 (min (95 / 100) (max (5 / 100) b) * (1 / 2 + get_default (sm_engine_confidence s) (1 / 2) * (1 / 2)))"
    by (intro round4_nonneg mult_nonneg_nonneg) (use engine in auto)
  ultimately show ?thesis using engine score by (simp add: source_ok_def)
qed

lemma sources_ok:
  assumes "signal_ok sig" "ml_ok ml" "smart_ok smc" shows "\<forall>v \<in> set (vote_sources sig ml hist smc). source_ok v"
proof -
  have rule: "source_ok (rule_source sig)" using assms(1) by (simp add: source_ok_def rule_source_def signal_ok_def)
  have ml: "ml = Some p \<Longrightarrow> source_ok (ml_source p)" for p
    using assms(2) get_default_unit[of "mp_confidence p" 0] by (simp add: source_ok_def ml_source_def ml_ok_def)
  have hist: "history_source h = Some v \<Longrightarrow> source_ok v" for h v by (auto simp: history_source_def source_ok_def Let_def split: if_splits)
  have smc: "smc = Some s \<Longrightarrow> smart_money_to_vote s = Some v \<Longrightarrow> source_ok v" for s v using assms(3) smart_money_ok by blast
  show ?thesis using rule ml hist smc by (auto simp: vote_sources_def split: option.splits)
qed

lemma ml_weight_unit: "ml_ok ml \<Longrightarrow> 0 \<le> ml_vote_weight ml \<and> ml_vote_weight ml \<le> 7 / 10"
  using get_default_unit[of "mp_confidence (the ml)" 0]
  by (auto simp: ml_vote_weight_def ml_ok_def ml_present_def split: option.splits)

lemma adjusted_nonneg:
  assumes "source_ok v" "0 \<le> mw" "mw \<le> 1" shows "0 \<le> adjusted_weight mw v"
  using assms by (cases "vs_type v") (auto simp: adjusted_weight_def source_ok_def intro!: mult_nonneg_nonneg add_nonneg_nonneg)

text \<open>C32: the weighted vote elects by weight: from inputs in their ranges, the votes it reports are exactly what the adjusted weights of the
  sources give each direction, the winner has the greatest, the score is its share of all weights, and a positive confidence means
  that no other direction has as much.\<close>

theorem weighted_vote_elects:
  assumes "signal_ok sig" "ml_ok ml" "smart_ok smc" "strategy \<notin> {''unanimous'', ''ml_override''}"
  shows "elected (ml_vote_weight ml) (vote_sources sig ml hist smc) (vote sig ml hist smc strategy threshold)"
proof -
  have "\<forall>v \<in> set (vote_sources sig ml hist smc). 0 \<le> adjusted_weight (ml_vote_weight ml) v"
    using sources_ok[OF assms(1-3), of hist] ml_weight_unit[OF assms(2)] by (auto intro!: adjusted_nonneg)
  then show ?thesis using weighted_elects assms(4) by (simp add: vote_def Let_def)
qed

lemma weighted_range: "0 \<le> vr_score (weighted_vote vs mw) \<and> vr_score (weighted_vote vs mw) \<le> 100
    \<and> 0 \<le> vr_confidence (weighted_vote vs mw) \<and> vr_confidence (weighted_vote vs mw) \<le> 1"
  by (auto simp: weighted_vote_def Let_def split: prod.split)

lemma unanimous_range:
  assumes "\<forall>v \<in> set vs. source_ok v" "0 \<le> x"
  shows "0 \<le> vr_score (unanimous_vote vs x mw) \<and> vr_score (unanimous_vote vs x mw) \<le> 100
    \<and> 0 \<le> vr_confidence (unanimous_vote vs x mw) \<and> vr_confidence (unanimous_vote vs x mw) \<le> 1"
proof -
  have "0 \<le> sum_list (map vs_confidence vs)" using assms(1) by (auto simp: source_ok_def intro!: sum_list_nonneg)
  then show ?thesis using assms(2) by (auto simp: unanimous_vote_def min_def split: list.split)
qed

text \<open>Votes stay in range: with scores of 0 to 100 and confidences and analyses of 0 to 1, every way of voting answers with a score from 0 to
  100 and a confidence from 0 to 1, and the unanimous vote answers with a direction other than hold only when every source says it.\<close>

theorem votes_in_range:
  assumes "signal_ok sig" "ml_ok ml" "smart_ok smc"
  shows "0 \<le> vr_score (vote sig ml hist smc strategy threshold) \<and> vr_score (vote sig ml hist smc strategy threshold) \<le> 100
    \<and> 0 \<le> vr_confidence (vote sig ml hist smc strategy threshold) \<and> vr_confidence (vote sig ml hist smc strategy threshold) \<le> 1
    \<and> (vr_direction (vote sig ml hist smc ''unanimous'' threshold) \<noteq> ''hold'' \<longrightarrow>
         (\<forall>v \<in> set (vote_sources sig ml hist smc). vs_direction v = vr_direction (vote sig ml hist smc ''unanimous'' threshold)))"
proof -
  define vs where "vs = vote_sources sig ml hist smc"
  have score: "0 \<le> ms_score sig / 100" using assms(1) by (simp add: signal_ok_def)
  have ok: "\<forall>v \<in> set vs. source_ok v" using sources_ok[OF assms] by (simp add: vs_def)
  have over: "0 \<le> vr_score (ml_override_vote vs sig ml threshold) \<and> vr_score (ml_override_vote vs sig ml threshold) \<le> 100
      \<and> 0 \<le> vr_confidence (ml_override_vote vs sig ml threshold) \<and> vr_confidence (ml_override_vote vs sig ml threshold) \<le> 1"
  proof (cases "ml_present ml")
    case False then show ?thesis using assms(1) by (simp add: ml_override_vote_def signal_ok_def)
  next
    case True
    then obtain p where p: "ml = Some p" by (auto simp: ml_present_def split: option.splits)
    then show ?thesis
      using True assms(2) get_default_unit[of "mp_score p" "1 / 2"] get_default_unit[of "mp_confidence p" 0] weighted_range
      by (simp add: ml_override_vote_def ml_ok_def Let_def)
  qed
  have "vr_direction (unanimous_vote vs x mw) \<noteq> ''hold'' \<Longrightarrow> \<forall>v \<in> set vs. vs_direction v = vr_direction (unanimous_vote vs x mw)" for x mw
  proof -
    assume h: "vr_direction (unanimous_vote vs x mw) \<noteq> ''hold''"
    then obtain d where d: "remdups (map vs_direction vs) = [d]" by (auto simp: unanimous_vote_def split: list.splits)
    then have "vs_direction ` set vs = {d}" by (metis empty_set list.simps(15) list.set_map set_remdups)
    then show ?thesis using d by (auto simp: unanimous_vote_def)
  qed
  then show ?thesis
    using over weighted_range unanimous_range[OF ok score] unfolding vote_def vs_def[symmetric] Let_def by simp
qed

definition demo_signal :: market_signal where
  "demo_signal = \<lparr>ms_direction = ''buy'', ms_score = 80, ms_strength = 1 / 2, ms_confidence = 9 / 10, ms_source = ''rules'', ms_reason = ''r''\<rparr>"

definition demo_ml :: "ml_prediction option" where
  "demo_ml = Some \<lparr>mp_used = [''m''], mp_direction = Some ''sell'', mp_score = Some (7 / 10), mp_confidence = Some (6 / 10)\<rparr>"

definition demo_smart :: "smart_money option" where
  "demo_smart = Some \<lparr>sm_score = Some (8 / 10), sm_phase = Some ''markup'', sm_accumulation = None, sm_absorption = None,
     sm_breakout = Some (7 / 10), sm_buyer_power = None, sm_microstructure = None, sm_engine_confidence = None\<rparr>"

lemma demo_vote_ok: "signal_ok demo_signal" "ml_ok demo_ml" "smart_ok demo_smart"
  by (simp_all add: signal_ok_def ml_ok_def smart_ok_def unit_ok_def demo_signal_def demo_ml_def demo_smart_def)

lemma demo_vote: "vr_direction (vote demo_signal demo_ml None demo_smart ''weighted'' 0) = ''buy''"
  "0 < vr_confidence (vote demo_signal demo_ml None demo_smart ''weighted'' 0)"
  by code_simp+

lemma weighted_vote_elects_witness:
  "weight_for (ml_vote_weight demo_ml) (vote_sources demo_signal demo_ml None demo_smart) ''sell''
     < weight_for (ml_vote_weight demo_ml) (vote_sources demo_signal demo_ml None demo_smart) ''buy''"
  using weighted_vote_elects[OF demo_vote_ok, of "''weighted''" None 0] demo_vote by (simp add: elected_def)

lemma votes_in_range_witness:
  "vr_score (vote demo_signal demo_ml None demo_smart ''ml_override'' (1 / 2)) = 70
     \<and> vr_confidence (vote demo_signal demo_ml None demo_smart ''ml_override'' (1 / 2)) \<le> 1"
proof -
  have "vr_score (vote demo_signal demo_ml None demo_smart ''ml_override'' (1 / 2)) = 70" by code_simp
  then show ?thesis using votes_in_range[OF demo_vote_ok, of None "''ml_override''" "1 / 2"] by simp
qed

text \<open>Without any weight the first direction of the table wins: a hold the rules have no confidence in becomes a buy.\<close>

lemma no_weight_means_buy:
  "vr_direction (vote (demo_signal\<lparr>ms_direction := ''hold'', ms_confidence := 0\<rparr>) None None None ''weighted'' 0) = ''buy''"
  "vr_direction (vote (demo_signal\<lparr>ms_direction := ''sell'', ms_confidence := 0\<rparr>) None None None ''weighted'' 0) = ''buy''"
  by code_simp+

text \<open>There is no majority vote: the name is counted by weight.\<close>

lemma majority_is_weighted: "vote sig ml hist smc ''majority'' threshold = vote sig ml hist smc ''weighted'' threshold"
  by (simp add: vote_def)

text \<open>The result does not say that a weighted vote was unanimous when the model is confident.\<close>

lemma confident_unanimity_unlabelled:
  assumes "\<forall>v \<in> set vs. vs_direction v = d" "1 / 2 < mw"
  shows "vr_strategy (weighted_vote vs mw) = ''ml_weighted''"
  using assms by (simp add: weighted_vote_def Let_def split: prod.split)

end
