(* ===== verification/Option_Signals.thy ===== *)
theory Option_Signals
  imports Prelude "HOL-Library.List_Lexorder" "HOL-Library.Char_ord"
begin

text \<open>
  Scores, position sizes and the language of rules of the options platform (\<open>domain/options/signals.py\<close>).
  A rule is the decoded JSON value the code walks over, so every misuse it would raise for is an error of the
  evaluation. Values are equal as in Python: numbers and booleans by their value, lists element by element, dictionaries
  in any order; numbers, texts and lists are ordered, lists lexicographically and nested ones too. The thresholds of an
  exit ladder and the profit are read as numbers; a ladder whose thresholds are texts or lists is an error here. The
  hyperbolic tangent of a score is an argument.
\<close>

subsection \<open>The score\<close>

record signal_state =
  sg_iv_rank :: pyfloat
  sg_skew :: pyfloat
  sg_trend :: pyfloat
  sg_term_slope :: pyfloat
  sg_days :: int
  sg_ml :: "pyfloat option"

datatype premium_suggestion = SELL_PREMIUM | BUY_DIRECTIONAL | NEUTRAL_WAIT

definition DEFAULT_WEIGHTS :: "(string, pyfloat) pydict" where
  "DEFAULT_WEIGHTS =
     [(''iv_rank'', 30 / 100), (''skew'', 20 / 100), (''trend'', 25 / 100), (''term_structure'', 15 / 100), (''ml'', 10 / 100)]"

definition raw_score :: "(pyfloat \<Rightarrow> pyfloat) \<Rightarrow> (string, pyfloat) pydict \<Rightarrow> signal_state \<Rightarrow> pyfloat" where
  "raw_score th weights s =
     dict_get_or weights ''iv_rank'' 0 * (sg_iv_rank s / 100) + dict_get_or weights ''skew'' 0 * th (sg_skew s)
     + dict_get_or weights ''trend'' 0 * sg_trend s + dict_get_or weights ''term_structure'' 0 * th (sg_term_slope s)
     + (case (sg_ml s, dict_get weights ''ml'') of (Some p, Some w) \<Rightarrow> w * (p - 1 / 2) | _ \<Rightarrow> 0)"

definition dte_factor :: "int \<Rightarrow> pyfloat" where
  "dte_factor dte = (if 15 \<le> dte \<and> dte \<le> 45 then 1 else 1 / 2)"

definition round3 :: "pyfloat \<Rightarrow> pyfloat" where
  "round3 x = of_int (py_round (x * 1000)) / 1000"

definition suggest :: "signal_state \<Rightarrow> premium_suggestion" where
  "suggest s =
     (if sg_iv_rank s > 70 then SELL_PREMIUM
      else if sg_iv_rank s < 30 \<and> \<bar>sg_trend s\<bar> > 1 / 2 then BUY_DIRECTIONAL
      else NEUTRAL_WAIT)"

definition signal_score :: "(pyfloat \<Rightarrow> pyfloat) \<Rightarrow> (string, pyfloat) pydict \<Rightarrow> signal_state \<Rightarrow> pyfloat \<times> premium_suggestion \<times> pyfloat" where
  \<comment> \<open>the score, the suggestion and the time factor; no weights, or empty ones, are the default ones\<close>
  "signal_score th weights s =
     (let ws = (if weights = [] then DEFAULT_WEIGHTS else weights);
          f = dte_factor (sg_days s)
      in (round3 (max 0 (min (raw_score th ws s * f) 1)), suggest s, f))"

subsection \<open>Position sizes\<close>

record sizer =
  sz_method :: string
  sz_risk_pct :: pyfloat
  sz_kelly_cap :: pyfloat

record sizing =
  si_contracts :: int
  si_budget :: pyfloat
  si_kelly :: "pyfloat option"

definition FIXED_FRACTIONAL :: string where "FIXED_FRACTIONAL = ''fractional_fixed''"
definition KELLY :: string where "KELLY = ''kelly''"

definition contracts_for :: "pyfloat \<Rightarrow> pyfloat \<Rightarrow> int" where
  "contracts_for budget max_loss = max (py_int (budget / max_loss)) 0"

definition kelly_of :: "pyfloat \<Rightarrow> pyfloat \<Rightarrow> pyfloat \<Rightarrow> pyfloat" where
  "kelly_of win_rate ratio cap = max (min (win_rate - (1 - win_rate) / ratio) (cap / 100)) 0"

definition round_ratio :: "pyfloat \<Rightarrow> pyfloat" where
  "round_ratio x = of_int (py_round (x * 10000)) / 10000"

definition position_size :: "sizer \<Rightarrow> pyfloat \<Rightarrow> pyfloat \<Rightarrow> pyfloat option \<Rightarrow> pyfloat option \<Rightarrow> py_error + sizing" where
  "position_size z capital max_loss win_rate ratio =
     (if max_loss \<le> 0 then Inr \<lparr>si_contracts = 0, si_budget = 0, si_kelly = None\<rparr>
      else if sz_method z = FIXED_FRACTIONAL then
        (let budget = capital * (sz_risk_pct z / 100)
         in Inr \<lparr>si_contracts = contracts_for budget max_loss, si_budget = budget, si_kelly = None\<rparr>)
      else if sz_method z = KELLY then
        (case (win_rate, ratio) of
           (Some w, Some r) \<Rightarrow>
             if r \<le> 0 then Inl ValueError
             else (let k = kelly_of w r (sz_kelly_cap z); budget = capital * k
                   in Inr \<lparr>si_contracts = contracts_for budget max_loss, si_budget = budget, si_kelly = Some (round_ratio k)\<rparr>)
         | _ \<Rightarrow> Inl ValueError)
      else Inl ValueError)"

subsection \<open>Values of rules\<close>

type_synonym facts = "(string, py_value) pydict"

definition py_number :: "py_value \<Rightarrow> pyfloat option" where
  "py_number v = (case v of PBool b \<Rightarrow> Some (if b then 1 else 0) | PInt n \<Rightarrow> Some (of_int n) | PFloat x \<Rightarrow> Some x | _ \<Rightarrow> None)"

fun py_equal :: "py_value \<Rightarrow> py_value \<Rightarrow> bool"
  and equal_lists :: "py_value list \<Rightarrow> py_value list \<Rightarrow> bool"
  and equal_items :: "(string \<times> py_value) list \<Rightarrow> (string, py_value) pydict \<Rightarrow> bool" where
  "py_equal a b =
     (case (a, b) of
        (PList xs, PList ys) \<Rightarrow> equal_lists xs ys
      | (PDict d, PDict e) \<Rightarrow> length d = length e \<and> equal_items d e
      | (PStr s, PStr t) \<Rightarrow> s = t
      | (PNone, PNone) \<Rightarrow> True
      | _ \<Rightarrow> (case (py_number a, py_number b) of (Some x, Some y) \<Rightarrow> x = y | _ \<Rightarrow> False))"
| "equal_lists [] ys = (ys = [])"
| "equal_lists (x # xs) ys = (case ys of [] \<Rightarrow> False | y # zs \<Rightarrow> py_equal x y \<and> equal_lists xs zs)"
| "equal_items [] e = True"
| "equal_items (kv # d) e =
     (case kv of (k, v) \<Rightarrow> (case dict_get e k of None \<Rightarrow> False | Some w \<Rightarrow> py_equal v w \<and> equal_items d e))"

declare py_equal.simps [simp del]

definition py_truth :: "py_value \<Rightarrow> bool" where
  "py_truth v =
     (case v of PNone \<Rightarrow> False | PBool b \<Rightarrow> b | PInt n \<Rightarrow> n \<noteq> 0 | PFloat x \<Rightarrow> x \<noteq> 0 | PStr s \<Rightarrow> s \<noteq> [] | PList xs \<Rightarrow> xs \<noteq> [] | PDict d \<Rightarrow> d \<noteq> [])"

fun py_less :: "py_value \<Rightarrow> py_value \<Rightarrow> py_error + bool"
  and less_lists :: "py_value list \<Rightarrow> py_value list \<Rightarrow> py_error + bool" where
  "py_less a b =
     (case (a, b) of
        (PList xs, PList ys) \<Rightarrow> less_lists xs ys
      | (PStr s, PStr t) \<Rightarrow> Inr (s < t)
      | _ \<Rightarrow> (case (py_number a, py_number b) of (Some x, Some y) \<Rightarrow> Inr (x < y) | _ \<Rightarrow> Inl TypeError))"
| "less_lists [] ys = Inr (ys \<noteq> [])"
| "less_lists (x # xs) ys =
     (case ys of [] \<Rightarrow> Inr False | y # zs \<Rightarrow> if py_equal x y then less_lists xs zs else py_less x y)"

fun py_less_eq :: "py_value \<Rightarrow> py_value \<Rightarrow> py_error + bool"
  and less_eq_lists :: "py_value list \<Rightarrow> py_value list \<Rightarrow> py_error + bool" where
  "py_less_eq a b =
     (case (a, b) of
        (PList xs, PList ys) \<Rightarrow> less_eq_lists xs ys
      | (PStr s, PStr t) \<Rightarrow> Inr (s \<le> t)
      | _ \<Rightarrow> (case (py_number a, py_number b) of (Some x, Some y) \<Rightarrow> Inr (x \<le> y) | _ \<Rightarrow> Inl TypeError))"
| "less_eq_lists [] ys = Inr True"
| "less_eq_lists (x # xs) ys =
     (case ys of [] \<Rightarrow> Inr False | y # zs \<Rightarrow> if py_equal x y then less_eq_lists xs zs else py_less_eq x y)"

declare py_less.simps [simp del] py_less_eq.simps [simp del]

fun contains_text :: "string \<Rightarrow> string \<Rightarrow> bool" where
  "contains_text [] p \<longleftrightarrow> p = []"
| "contains_text (c # s) p \<longleftrightarrow> take (length p) (c # s) = p \<or> contains_text s p"

definition py_in :: "py_value \<Rightarrow> py_value \<Rightarrow> py_error + bool" where
  "py_in a b =
     (case b of
        PList xs \<Rightarrow> Inr (\<exists>x \<in> set xs. py_equal a x)
      | PDict d \<Rightarrow> (case a of PStr k \<Rightarrow> Inr (k \<in> set (dict_keys d)) | PList _ \<Rightarrow> Inl TypeError | PDict _ \<Rightarrow> Inl TypeError | _ \<Rightarrow> Inr False)
      | PStr s \<Rightarrow> (case a of PStr p \<Rightarrow> Inr (contains_text s p) | _ \<Rightarrow> Inl TypeError)
      | _ \<Rightarrow> Inl TypeError)"

definition between_items :: "py_value \<Rightarrow> py_value list \<Rightarrow> py_error + bool" where
  \<comment> \<open>the second index is read only when the first comparison holds\<close>
  "between_items a xs =
     (case xs of
        [] \<Rightarrow> Inl IndexError
      | lo # rest \<Rightarrow>
          (case py_less_eq lo a of
             Inl e \<Rightarrow> Inl e
           | Inr False \<Rightarrow> Inr False
           | Inr True \<Rightarrow> (case rest of [] \<Rightarrow> Inl IndexError | hi # _ \<Rightarrow> py_less_eq a hi)))"

definition py_between :: "py_value \<Rightarrow> py_value \<Rightarrow> py_error + bool" where
  \<comment> \<open>a text is indexed by its characters, a dictionary has no key 0\<close>
  "py_between a b =
     (case b of
        PList xs \<Rightarrow> between_items a xs
      | PStr s \<Rightarrow> between_items a (map (\<lambda>c. PStr [c]) s)
      | PDict _ \<Rightarrow> Inl KeyError
      | _ \<Rightarrow> Inl TypeError)"

definition apply_operator :: "string \<Rightarrow> py_value \<Rightarrow> py_value \<Rightarrow> py_error + bool" where
  "apply_operator opr a b =
     (if opr = ''gt'' then py_less b a
      else if opr = ''gte'' then py_less_eq b a
      else if opr = ''lt'' then py_less a b
      else if opr = ''lte'' then py_less_eq a b
      else if opr = ''eq'' then Inr (py_equal a b)
      else if opr = ''neq'' then Inr (\<not> py_equal a b)
      else if opr = ''between'' then py_between a b
      else if opr = ''in'' then py_in a b
      else Inl ValueError)"

fun split_dots :: "string \<Rightarrow> string list" where
  \<comment> \<open>\<open>key.split(".")\<close>\<close>
  "split_dots [] = [[]]"
| "split_dots (c # s) = (if c = CHR ''.'' then [] # split_dots s else (case split_dots s of p # ps \<Rightarrow> (c # p) # ps | [] \<Rightarrow> [[c]]))"

fun walk_path :: "py_value \<Rightarrow> string list \<Rightarrow> py_value" where
  "walk_path v [] = v"
| "walk_path v (p # ps) = (case v of PDict d \<Rightarrow> (case dict_get d p of Some w \<Rightarrow> walk_path w ps | None \<Rightarrow> PNone) | _ \<Rightarrow> PNone)"

definition fact_of :: "facts \<Rightarrow> string \<Rightarrow> py_value" where
  "fact_of facts key = (case dict_get facts key of Some v \<Rightarrow> v | None \<Rightarrow> walk_path (PDict facts) (split_dots key))"

fun apply_operators :: "py_value \<Rightarrow> (string \<times> py_value) list \<Rightarrow> py_error + bool" where
  "apply_operators v [] = Inr True"
| "apply_operators v ((opr, x) # ops) =
     (case apply_operator opr v x of Inl e \<Rightarrow> Inl e | Inr False \<Rightarrow> Inr False | Inr True \<Rightarrow> apply_operators v ops)"

definition check_spec :: "py_value \<Rightarrow> py_value \<Rightarrow> py_error + bool" where
  "check_spec v spec =
     (case spec of PDict ops \<Rightarrow> apply_operators v ops | PBool b \<Rightarrow> Inr (py_truth v = b) | _ \<Rightarrow> Inr (py_equal v spec))"

fun eval_condition :: "facts \<Rightarrow> (string \<times> py_value) list \<Rightarrow> py_error + bool" where
  "eval_condition facts [] = Inr True"
| "eval_condition facts ((key, spec) # cs) =
     (let v = fact_of facts key in
      if v = PNone then Inr False
      else (case check_spec v spec of Inl e \<Rightarrow> Inl e | Inr False \<Rightarrow> Inr False | Inr True \<Rightarrow> eval_condition facts cs))"

subsection \<open>Groups of rules\<close>

lemma dict_get_size: "dict_get d k = Some v \<Longrightarrow> size v < size (PDict d)"
  by (induction d) (auto split: if_splits)

definition group_keys :: "string list" where
  "group_keys = [''all_of'', ''any_of'', ''none_of'']"

definition text_error :: "string \<Rightarrow> py_error" where
  \<comment> \<open>a text for a group: a text that contains a key of a group is then indexed by it, any other has no \<open>items\<close>\<close>
  "text_error s = (if \<exists>k \<in> set group_keys. contains_text s k then TypeError else AttributeError)"

definition no_group :: "py_value \<Rightarrow> py_error" where
  \<comment> \<open>the error of a value that is no dictionary in the place of a group\<close>
  "no_group v =
     (case v of
        PStr s \<Rightarrow> text_error s
      | PList xs \<Rightarrow> if \<exists>k \<in> set group_keys. \<exists>x \<in> set xs. py_equal x (PStr k) then TypeError else AttributeError
      | _ \<Rightarrow> TypeError)"

definition over_texts :: "bool \<Rightarrow> py_value \<Rightarrow> py_error + bool" where
  \<comment> \<open>the generator over a value that is no list: the keys of a dictionary and the characters of a text are texts,
    so the first of them raises; over none of them the answer is that of the empty \<open>all\<close> or \<open>any\<close>\<close>
  "over_texts none v =
     (case v of
        PDict d \<Rightarrow> (case d of [] \<Rightarrow> Inr none | (k, _) # _ \<Rightarrow> Inl (text_error k))
      | PStr s \<Rightarrow> (case s of [] \<Rightarrow> Inr none | c # _ \<Rightarrow> Inl (text_error [c]))
      | _ \<Rightarrow> Inl TypeError)"

function eval_group :: "facts \<Rightarrow> py_value \<Rightarrow> py_error + bool"
  and all_groups :: "facts \<Rightarrow> py_value list \<Rightarrow> py_error + bool"
  and any_groups :: "facts \<Rightarrow> py_value list \<Rightarrow> py_error + bool" where
  "eval_group facts rule =
     (case rule of
        PDict g \<Rightarrow>
          (case dict_get g ''all_of'' of
             Some (PList rs) \<Rightarrow> all_groups facts rs
           | Some v \<Rightarrow> over_texts True v
           | None \<Rightarrow>
               (case dict_get g ''any_of'' of
                  Some (PList rs) \<Rightarrow> any_groups facts rs
                | Some v \<Rightarrow> over_texts False v
                | None \<Rightarrow>
                    (case dict_get g ''none_of'' of
                       Some (PList rs) \<Rightarrow> map_sum id Not (any_groups facts rs)
                     | Some v \<Rightarrow> map_sum id Not (over_texts False v)
                     | None \<Rightarrow> eval_condition facts g)))
      | _ \<Rightarrow> Inl (no_group rule))"
| "all_groups facts [] = Inr True"
| "all_groups facts (r # rs) = (case eval_group facts r of Inl e \<Rightarrow> Inl e | Inr b \<Rightarrow> if b then all_groups facts rs else Inr False)"
| "any_groups facts [] = Inr False"
| "any_groups facts (r # rs) = (case eval_group facts r of Inl e \<Rightarrow> Inl e | Inr b \<Rightarrow> if b then Inr True else any_groups facts rs)"
  by pat_completeness auto
termination
  by (relation "measure (\<lambda>x. case x of Inl (_, r) \<Rightarrow> size r | Inr (Inl (_, rs)) \<Rightarrow> size_list size rs | Inr (Inr (_, rs)) \<Rightarrow> size_list size rs)")
    (auto dest!: dict_get_size)

declare eval_group.simps [simp del]

definition should_enter :: "(string, py_value) pydict \<Rightarrow> facts \<Rightarrow> py_error + bool" where
  "should_enter spec facts =
     (case dict_get spec ''entry'' of
        None \<Rightarrow> Inr True
      | Some entry \<Rightarrow> if \<not> py_truth entry then Inr True else eval_group facts entry)"

subsection \<open>Exits\<close>

record scale_hit =
  so_at :: py_value
  so_fraction :: py_value

record exit_plan =
  xp_triggered :: bool
  xp_fraction :: pyfloat
  xp_scale :: "scale_hit option"
  xp_reasons :: "string list"

definition rung_at :: "(string, py_value) pydict \<Rightarrow> py_error + pyfloat" where
  "rung_at r =
     (case dict_get r ''at_profit_pct'' of
        None \<Rightarrow> Inr 0
      | Some v \<Rightarrow> (case py_number v of None \<Rightarrow> Inl TypeError | Some x \<Rightarrow> Inr x))"

definition is_dict :: "py_value \<Rightarrow> bool" where
  "is_dict v = (case v of PDict _ \<Rightarrow> True | _ \<Rightarrow> False)"

definition the_dict :: "py_value \<Rightarrow> (string, py_value) pydict" where
  "the_dict v = (case v of PDict d \<Rightarrow> d | _ \<Rightarrow> [])"

definition rungs_at :: "(string, py_value) pydict list \<Rightarrow> py_error + (pyfloat \<times> (string, py_value) pydict) list" where
  "rungs_at rs =
     (if \<exists>r \<in> set rs. rung_at r = Inl TypeError then Inl TypeError
      else Inr (map (\<lambda>r. (projr (rung_at r), r)) rs))"

definition reached_rung :: "(pyfloat \<times> (string, py_value) pydict) list \<Rightarrow> pyfloat \<Rightarrow> (string, py_value) pydict option" where
  "reached_rung rungs profit =
     fold (\<lambda>(x, r) hit. if profit \<ge> x then Some r else hit) (sort_key fst rungs) None"

definition scale_out :: "py_value \<Rightarrow> py_value \<Rightarrow> py_error + scale_hit option" where
  "scale_out ladder profit =
     (if \<not> py_truth ladder then Inr None
      else (case ladder of
              PList rs \<Rightarrow>
                if \<exists>r \<in> set rs. \<not> is_dict r then Inl AttributeError
                else (case (rungs_at (map the_dict rs), py_number profit) of
                        (Inl e, _) \<Rightarrow> Inl e
                      | (Inr rungs, None) \<Rightarrow> Inl TypeError
                      | (Inr rungs, Some x) \<Rightarrow>
                          Inr (map_option (\<lambda>r. \<lparr>so_at = dict_get_or r ''at_profit_pct'' PNone,
                                                so_fraction = dict_get_or r ''close_fraction'' (PFloat 1)\<rparr>) (reached_rung rungs x)))
            | PDict _ \<Rightarrow> Inl AttributeError
            | PStr _ \<Rightarrow> Inl AttributeError
            | _ \<Rightarrow> Inl TypeError))"

fun intercalate_keys :: "string list \<Rightarrow> string" where
  "intercalate_keys [] = []"
| "intercalate_keys [k] = k"
| "intercalate_keys (k # ks) = k @ '', '' @ intercalate_keys ks"

definition item_reason :: "facts \<Rightarrow> py_value \<Rightarrow> string list" where
  \<comment> \<open>an item whose evaluation raises is passed over\<close>
  "item_reason facts item =
     (case (eval_group facts item, item) of (Inr True, PDict d) \<Rightarrow> [intercalate_keys (dict_keys d)] | _ \<Rightarrow> [])"

definition branch_reasons :: "facts \<Rightarrow> (string, py_value) pydict \<Rightarrow> string \<Rightarrow> py_error + string list" where
  "branch_reasons facts grp branch =
     (case dict_get_or grp branch (PList []) of
        PList items \<Rightarrow> Inr (concat (map (item_reason facts) items))
      | PDict _ \<Rightarrow> Inr []
      | PStr _ \<Rightarrow> Inr []
      | v \<Rightarrow> if py_truth v then Inl TypeError else Inr [])"

definition key_reason :: "facts \<Rightarrow> (string, py_value) pydict \<Rightarrow> string \<Rightarrow> py_error + string list" where
  "key_reason facts grp key =
     (case dict_get grp key of
        None \<Rightarrow> Inr []
      | Some v \<Rightarrow> map_sum id (\<lambda>b. if b then [key] else []) (eval_condition facts [(key, v)]))"

fun append_all :: "(py_error + string list) list \<Rightarrow> py_error + string list" where
  "append_all [] = Inr []"
| "append_all (r # rs) = (case r of Inl e \<Rightarrow> Inl e | Inr xs \<Rightarrow> map_sum id ((@) xs) (append_all rs))"

definition matched_reasons :: "facts \<Rightarrow> (string, py_value) pydict \<Rightarrow> py_error + string list" where
  "matched_reasons facts grp =
     append_all [branch_reasons facts grp ''any_of'', branch_reasons facts grp ''all_of'',
                 key_reason facts grp ''profit_target_pct'', key_reason facts grp ''stop_loss_pct'']"

definition exit_actions :: "(string, py_value) pydict \<Rightarrow> facts \<Rightarrow> py_error + exit_plan" where
  "exit_actions spec facts =
     (let exit_spec = dict_get_or spec ''exit'' PNone;
          grp = (if py_truth exit_spec then the_dict exit_spec else [])
      in case (if py_truth exit_spec then eval_group facts exit_spec else Inr False) of
           Inl e \<Rightarrow> Inl e
         | Inr triggered \<Rightarrow>
             (case (if triggered then matched_reasons facts grp else Inr []) of
                Inl e \<Rightarrow> Inl e
              | Inr reasons \<Rightarrow>
                  (case scale_out (dict_get_or grp ''scale_out'' PNone) (dict_get_or facts ''profit_pct'' (PFloat 0)) of
                     Inl e \<Rightarrow> Inl e
                   | Inr None \<Rightarrow> Inr \<lparr>xp_triggered = triggered, xp_fraction = (if triggered then 1 else 0), xp_scale = None, xp_reasons = reasons\<rparr>
                   | Inr (Some h) \<Rightarrow>
                       (case py_number (so_fraction h) of
                          None \<Rightarrow> Inl TypeError
                        | Some x \<Rightarrow> Inr \<lparr>xp_triggered = triggered, xp_fraction = max (if triggered then 1 else 0) x,
                                         xp_scale = Some h, xp_reasons = reasons\<rparr>))))"

subsection \<open>Rules are formulas\<close>

text \<open>The meaning of a rule, stated without the evaluation: tests of a linear order, conditions on the facts, and the
  connectives. A value reads as a number or as a text.\<close>

datatype 'a test =
    Above 'a | AtLeast 'a | Below 'a | AtMost 'a | Equals 'a | Differs 'a | Between 'a 'a | OneOf "'a list"

fun meets :: "'a :: linorder \<Rightarrow> 'a test \<Rightarrow> bool" where
  "meets x (Above c) = (x > c)"
| "meets x (AtLeast c) = (x \<ge> c)"
| "meets x (Below c) = (x < c)"
| "meets x (AtMost c) = (x \<le> c)"
| "meets x (Equals c) = (x = c)"
| "meets x (Differs c) = (x \<noteq> c)"
| "meets x (Between lo hi) = (lo \<le> x \<and> x \<le> hi)"
| "meets x (OneOf cs) = (x \<in> set cs)"

fun operands :: "'a test \<Rightarrow> 'a list" where
  "operands (Above c) = [c]" | "operands (AtLeast c) = [c]" | "operands (Below c) = [c]" | "operands (AtMost c) = [c]"
| "operands (Equals c) = [c]" | "operands (Differs c) = [c]" | "operands (Between lo hi) = [lo, hi]" | "operands (OneOf cs) = cs"

definition reading :: "py_value \<Rightarrow> (pyfloat + string) option" where
  "reading v =
     (case v of
        PBool b \<Rightarrow> Some (Inl (if b then 1 else 0)) | PInt n \<Rightarrow> Some (Inl (of_int n)) | PFloat x \<Rightarrow> Some (Inl x)
      | PStr s \<Rightarrow> Some (Inr s) | _ \<Rightarrow> None)"

definition as_number :: "py_value \<Rightarrow> pyfloat" where
  "as_number v = (case reading v of Some (Inl x) \<Rightarrow> x | _ \<Rightarrow> 0)"

definition as_text :: "py_value \<Rightarrow> string" where
  "as_text v = (case reading v of Some (Inr s) \<Rightarrow> s | _ \<Rightarrow> [])"

datatype clause = Tests "py_value test list" | Is py_value | Flag bool

fun clause_holds :: "py_value \<Rightarrow> clause \<Rightarrow> bool" where
  "clause_holds v (Tests ts) =
     (case reading v of
        Some (Inl x) \<Rightarrow> \<forall>t \<in> set ts. meets x (map_test as_number t)
      | Some (Inr s) \<Rightarrow> \<forall>t \<in> set ts. meets s (map_test as_text t)
      | None \<Rightarrow> ts = [])"
| "clause_holds v (Is x) = (reading v = reading x)"
| "clause_holds v (Flag b) = (py_truth v = b)"

fun same_kind :: "py_value \<Rightarrow> py_value \<Rightarrow> bool" where
  \<comment> \<open>two numbers, or two texts\<close>
  "same_kind v x =
     (case (reading v, reading x) of
        (Some (Inl _), Some (Inl _)) \<Rightarrow> True | (Some (Inr _), Some (Inr _)) \<Rightarrow> True | _ \<Rightarrow> False)"

fun clause_ok :: "py_value \<Rightarrow> clause \<Rightarrow> bool" where
  \<comment> \<open>the fact is missing, or it is compared with values of its kind\<close>
  "clause_ok v (Tests ts) \<longleftrightarrow> v = PNone \<or> (\<forall>t \<in> set ts. \<forall>x \<in> set (operands t). same_kind v x)"
| "clause_ok v (Is x) \<longleftrightarrow> (case x of PBool _ \<Rightarrow> False | _ \<Rightarrow> reading x \<noteq> None)"
| "clause_ok v (Flag b) \<longleftrightarrow> True"

datatype formula = Cond "(string \<times> clause) list" | All "formula list" | Any "formula list" | None_Of "formula list"

fun holds :: "facts \<Rightarrow> formula \<Rightarrow> bool" where
  "holds facts (Cond cs) = (\<forall>(k, cl) \<in> set cs. fact_of facts k \<noteq> PNone \<and> clause_holds (fact_of facts k) cl)"
| "holds facts (All fs) = (\<forall>f \<in> set fs. holds facts f)"
| "holds facts (Any fs) = (\<exists>f \<in> set fs. holds facts f)"
| "holds facts (None_Of fs) = (\<not> (\<exists>f \<in> set fs. holds facts f))"

fun formula_ok :: "facts \<Rightarrow> formula \<Rightarrow> bool" where
  "formula_ok facts (Cond cs) = (\<forall>(k, cl) \<in> set cs. k \<notin> set group_keys \<and> clause_ok (fact_of facts k) cl)"
| "formula_ok facts (All fs) = (\<forall>f \<in> set fs. formula_ok facts f)"
| "formula_ok facts (Any fs) = (\<forall>f \<in> set fs. formula_ok facts f)"
| "formula_ok facts (None_Of fs) = (\<forall>f \<in> set fs. formula_ok facts f)"

text \<open>How a rule is written down.\<close>

fun encode_test :: "py_value test \<Rightarrow> string \<times> py_value" where
  "encode_test (Above c) = (''gt'', c)"
| "encode_test (AtLeast c) = (''gte'', c)"
| "encode_test (Below c) = (''lt'', c)"
| "encode_test (AtMost c) = (''lte'', c)"
| "encode_test (Equals c) = (''eq'', c)"
| "encode_test (Differs c) = (''neq'', c)"
| "encode_test (Between lo hi) = (''between'', PList [lo, hi])"
| "encode_test (OneOf cs) = (''in'', PList cs)"

fun encode_clause :: "clause \<Rightarrow> py_value" where
  "encode_clause (Tests ts) = PDict (map encode_test ts)"
| "encode_clause (Is x) = x"
| "encode_clause (Flag b) = PBool b"

primrec encode :: "formula \<Rightarrow> py_value" where
  "encode (Cond cs) = PDict (map (\<lambda>(k, cl). (k, encode_clause cl)) cs)"
| "encode (All fs) = PDict [(''all_of'', PList (map encode fs))]"
| "encode (Any fs) = PDict [(''any_of'', PList (map encode fs))]"
| "encode (None_Of fs) = PDict [(''none_of'', PList (map encode fs))]"

text \<open>What the operators do on two numbers and on two texts.\<close>

lemma number_ops:
  assumes "reading a = Some (Inl x)" "reading b = Some (Inl y)"
  shows "py_less a b = Inr (x < y)" "py_less_eq a b = Inr (x \<le> y)" "py_equal a b = (x = y)"
  using assms
  by (cases a; cases b; simp add: reading_def py_less.simps py_less_eq.simps py_equal.simps py_number_def)+

lemma text_ops:
  assumes "reading a = Some (Inr x)" "reading b = Some (Inr y)"
  shows "py_less a b = Inr (x < y)" "py_less_eq a b = Inr (x \<le> y)" "py_equal a b = (x = y)"
  using assms
  by (cases a; cases b; simp add: reading_def py_less.simps py_less_eq.simps py_equal.simps py_number_def)+

lemma equal_reading: "reading x \<noteq> None \<Longrightarrow> py_equal v x = (reading v = reading x)"
  by (cases v; cases x) (simp_all add: reading_def py_equal.simps py_number_def)

lemma number_test:
  assumes "reading v = Some (Inl x)" "\<forall>y \<in> set (operands t). same_kind v y"
  shows "(case encode_test t of (opr, y) \<Rightarrow> apply_operator opr v y) = Inr (meets x (map_test as_number t))"
proof -
  have r: "reading y = Some (Inl (as_number y))" if "y \<in> set (operands t)" for y
    using assms(2) that assms(1) by (auto simp: as_number_def split: option.splits sum.splits)
  show ?thesis
    using r by (cases t)
      (auto simp: apply_operator_def py_between_def between_items_def py_in_def number_ops[OF assms(1)]
        number_ops[OF _ assms(1)] split: bool.split)
qed

lemma text_test:
  assumes "reading v = Some (Inr x)" "\<forall>y \<in> set (operands t). same_kind v y"
  shows "(case encode_test t of (opr, y) \<Rightarrow> apply_operator opr v y) = Inr (meets x (map_test as_text t))"
proof -
  have r: "reading y = Some (Inr (as_text y))" if "y \<in> set (operands t)" for y
    using assms(2) that assms(1) by (auto simp: as_text_def split: option.splits sum.splits)
  show ?thesis
    using r by (cases t)
      (auto simp: apply_operator_def py_between_def between_items_def py_in_def text_ops[OF assms(1)]
        text_ops[OF _ assms(1)] split: bool.split)
qed

lemma all_operators:
  assumes "\<forall>t \<in> set ts. (case encode_test t of (opr, y) \<Rightarrow> apply_operator opr v y) = Inr (P t)"
  shows "apply_operators v (map encode_test ts) = Inr (\<forall>t \<in> set ts. P t)"
  using assms by (induction ts) (auto split: prod.splits bool.split)

lemma no_operands: "operands t = [] \<longleftrightarrow> t = OneOf []"
  by (cases t) auto

lemma list_empty: "(\<forall>x \<in> set xs. False) \<longleftrightarrow> xs = []"
  by (cases xs) auto

lemma clause_meaning:
  assumes "clause_ok v cl" "v \<noteq> PNone"
  shows "check_spec v (encode_clause cl) = Inr (clause_holds v cl)"
proof (cases cl)
  case (Tests ts)
  show ?thesis
  proof (cases "reading v")
    case None
    then have "\<forall>t \<in> set ts. operands t = []" using assms Tests None by (simp add: list_empty)
    then have "\<forall>t \<in> set ts. t = OneOf []" by (simp add: no_operands)
    then show ?thesis using Tests None by (cases ts) (auto simp: check_spec_def apply_operator_def py_in_def)
  next
    case (Some k)
    then show ?thesis
      using assms Tests all_operators[of ts v "\<lambda>t. meets (projl k) (map_test as_number t)"]
        all_operators[of ts v "\<lambda>t. meets (projr k) (map_test as_text t)"]
      by (cases k) (auto simp: check_spec_def number_test text_test simp del: same_kind.simps)
  qed
next
  case (Is x)
  then show ?thesis using assms(1) equal_reading[of x v]
    by (cases x) (simp_all add: check_spec_def reading_def)
next
  case (Flag b)
  then show ?thesis by (simp add: check_spec_def)
qed

lemma condition_meaning:
  assumes "\<forall>(k, cl) \<in> set cs. clause_ok (fact_of facts k) cl"
  shows "eval_condition facts (map (\<lambda>(k, cl). (k, encode_clause cl)) cs)
    = Inr (\<forall>(k, cl) \<in> set cs. fact_of facts k \<noteq> PNone \<and> clause_holds (fact_of facts k) cl)"
  using assms
proof (induction cs)
  case (Cons c cs)
  obtain k cl where c: "c = (k, cl)" by (cases c)
  then show ?case using Cons clause_meaning[of "fact_of facts k" cl]
    by (cases "fact_of facts k = PNone") (auto simp: Let_def split: bool.split)
qed simp

lemma condition_group:
  assumes "\<forall>(k, cl) \<in> set cs. k \<notin> set group_keys"
  shows "eval_group facts (encode (Cond cs)) = eval_condition facts (map (\<lambda>(k, cl). (k, encode_clause cl)) cs)"
proof -
  have "dict_get (map (\<lambda>(k, cl). (k, encode_clause cl)) cs) k = None" if "k \<in> set group_keys" for k
    using assms that by (induction cs) auto
  then show ?thesis by (simp add: eval_group.simps group_keys_def)
qed

lemma all_groups_encoded:
  "\<forall>f \<in> set fs. eval_group facts (encode f) = Inr (holds facts f) \<Longrightarrow> all_groups facts (map encode fs) = Inr (\<forall>f \<in> set fs. holds facts f)"
  by (induction fs) auto

lemma any_groups_encoded:
  "\<forall>f \<in> set fs. eval_group facts (encode f) = Inr (holds facts f) \<Longrightarrow> any_groups facts (map encode fs) = Inr (\<exists>f \<in> set fs. holds facts f)"
  by (induction fs) auto

text \<open>C38: a rule means its formula. A rule that nests all_of, any_of and none_of over conditions evaluates, without an error, to the
  truth of the formula it spells, where a condition holds when every named fact is there and meets its tests: gt, gte, lt, lte, eq,
  neq, between and in are the order and the equality of numbers and of texts, a plain number or text is equality, a plain
  boolean is the truth value of the fact. Assumed: no fact is named like a connective, and tests compare a number with
  numbers and a text with texts (of another kind the code raises).\<close>

theorem rules_mean_formulas:
  assumes "formula_ok facts f" shows "eval_group facts (encode f) = Inr (holds facts f)"
  using assms
proof (induction f)
  case (Cond cs)
  then have ok: "\<forall>(k, cl) \<in> set cs. clause_ok (fact_of facts k) cl" "\<forall>(k, cl) \<in> set cs. k \<notin> set group_keys" by auto
  show ?case using condition_group[OF ok(2), of facts] condition_meaning[OF ok(1)] by (simp del: encode.simps)
next
  case (All fs)
  then have "\<forall>f \<in> set fs. eval_group facts (encode f) = Inr (holds facts f)" by simp
  then show ?case by (simp add: eval_group.simps all_groups_encoded)
next
  case (Any fs)
  then have "\<forall>f \<in> set fs. eval_group facts (encode f) = Inr (holds facts f)" by simp
  then show ?case by (simp add: eval_group.simps any_groups_encoded)
next
  case (None_Of fs)
  then have "\<forall>f \<in> set fs. eval_group facts (encode f) = Inr (holds facts f)" by simp
  then show ?case by (simp add: eval_group.simps any_groups_encoded)
qed

definition demo_facts :: facts where
  "demo_facts = [(''iv_rank'', PFloat 80), (''days'', PInt 30), (''leg'', PDict [(''type'', PStr ''call'')]), (''open'', PBool True)]"

definition demo_rule :: formula where
  "demo_rule = All [Cond [(''iv_rank'', Tests [Above (PInt 70), AtMost (PFloat 80)]), (''open'', Flag True)],
     Any [Cond [(''leg.type'', Tests [OneOf [PStr ''put'', PStr ''call'']])], Cond [(''missing'', Is (PInt 1))]],
     None_Of [Cond [(''days'', Tests [Between (PInt 40) (PInt 45)])]]]"

lemma demo_rule_ok: "formula_ok demo_facts demo_rule \<and> holds demo_facts demo_rule" by code_simp

theorem rules_mean_formulas_witness: "eval_group demo_facts (encode demo_rule) = Inr True"
  using rules_mean_formulas[OF conjunct1[OF demo_rule_ok]] demo_rule_ok by simp

text \<open>Values as the operators see them: lists are equal by their elements and ordered lexicographically, dictionaries are equal in
  any order, a text is indexed like a list, and an empty dictionary is an empty list of groups.\<close>

lemma operators_on_other_values:
  "py_equal (PList [PFloat 1]) (PList [PInt 1])"
  "py_equal (PDict [(''a'', PInt 1), (''b'', PBool True)]) (PDict [(''b'', PFloat 1), (''a'', PInt 1)])"
  "py_less (PList [PInt 1, PStr ''a'']) (PList [PFloat 1, PStr ''b'']) = Inr True"
  "py_less (PList [PInt 1]) (PList [PStr ''a'']) = Inl TypeError"
  "py_between (PStr ''m'') (PStr ''az'') = Inr True"
  "eval_group [] (PDict [(''all_of'', PDict [])]) = Inr True"
  "eval_group [] (PDict [(''any_of'', PStr ''all'')]) = Inl AttributeError"
  by code_simp+

subsection \<open>The ladder of exits\<close>

lemma reached_fold:
  "fold (\<lambda>(x, r) hit. if profit \<ge> x then Some r else hit) xs h =
     (case filter (\<lambda>x. fst x \<le> profit) xs of [] \<Rightarrow> h | ys \<Rightarrow> Some (snd (List.last ys)))"
  by (induction xs arbitrary: h) (auto split: list.splits)

text \<open>The ladder closes by its highest reached rung: nothing is reached exactly when every rung lies above the profit; otherwise the rung
  taken lies at or below the profit and no reached rung lies above it.\<close>

theorem ladder_takes_the_highest_rung:
  "case reached_rung rungs profit of
     None \<Rightarrow> (\<forall>x \<in> set rungs. profit < fst x)
   | Some r \<Rightarrow> \<exists>a. (a, r) \<in> set rungs \<and> a \<le> profit \<and> (\<forall>x \<in> set rungs. fst x \<le> profit \<longrightarrow> fst x \<le> a)"
proof (cases "filter (\<lambda>x. fst x \<le> profit) (sort_key fst rungs)")
  case Nil
  then have "\<forall>x \<in> set rungs. profit < fst x" by (auto simp: filter_empty_conv)
  then show ?thesis using Nil by (simp add: reached_rung_def reached_fold)
next
  case (Cons y ys)
  define zs where "zs = filter (\<lambda>x. fst x \<le> profit) (sort_key fst rungs)"
  have ne: "zs \<noteq> []" using Cons by (simp add: zs_def)
  have mem: "set zs = {x \<in> set rungs. fst x \<le> profit}" by (auto simp: zs_def)
  have "sorted (map fst zs)" by (simp add: zs_def sorted_filter)
  then have le: "fst x \<le> fst (List.last zs)" if "x \<in> set zs" for x
  proof -
    have "map fst zs = map fst (butlast zs) @ [fst (List.last zs)]"
      by (subst append_butlast_last_id[OF ne, symmetric]) (simp only: map_append list.map)
    then have "\<forall>k \<in> set (map fst (butlast zs)). k \<le> fst (List.last zs)"
      using \<open>sorted (map fst zs)\<close> by (simp add: sorted_append)
    moreover have "x \<in> set (butlast zs) \<or> x = List.last zs"
      using that by (subst (asm) append_butlast_last_id[OF ne, symmetric]) auto
    ultimately show ?thesis by auto
  qed
  have "reached_rung rungs profit = Some (snd (List.last zs))"
    using Cons by (simp add: reached_rung_def reached_fold zs_def)
  then show ?thesis using le mem last_in_set[OF ne] by (auto intro!: exI[of _ "fst (List.last zs)"])
qed

subsection \<open>Sizes stay within the budget\<close>

lemma contracts_within:
  assumes "0 < m" shows "0 \<le> contracts_for b m \<and> of_int (contracts_for b m) * m \<le> max 0 b"
proof (cases "0 \<le> b / m")
  case True
  then have "of_int (py_int (b / m)) \<le> b / m" by (rule py_int_le)
  moreover have "0 \<le> b" using True assms by (simp add: zero_le_divide_iff)
  ultimately show ?thesis using assms by (auto simp: contracts_for_def max_def pos_le_divide_eq)
next
  case False
  then have "py_int (b / m) \<le> 0" by (simp add: py_int_def)
  then show ?thesis by (simp add: contracts_for_def max_def)
qed

lemma kelly_within: "0 \<le> kelly_of w r c \<and> kelly_of w r c \<le> max 0 (c / 100)"
  by (auto simp: kelly_of_def)

text \<open>A size never risks more than its budget, and the Kelly budget never more than its cap: with a capital of zero or more, the number of
  contracts is not negative, their greatest loss is within the budget, and a Kelly budget lies between zero and the capped
  share of the capital.\<close>

theorem sizes_within_budget:
  assumes "position_size z capital max_loss w r = Inr s" "0 \<le> capital"
  shows "0 \<le> si_contracts s \<and> of_int (si_contracts s) * max_loss \<le> max 0 (si_budget s)
    \<and> (si_kelly s \<noteq> None \<longrightarrow> 0 \<le> si_budget s \<and> si_budget s \<le> capital * max 0 (sz_kelly_cap z / 100))"
proof (cases "max_loss \<le> 0")
  case True then show ?thesis using assms by (auto simp: position_size_def)
next
  case False
  then have m: "0 < max_loss" by simp
  have k: "0 \<le> capital * kelly_of a b (sz_kelly_cap z) \<and> capital * kelly_of a b (sz_kelly_cap z) \<le> capital * max 0 (sz_kelly_cap z / 100)" for a b
    using kelly_within[of a b "sz_kelly_cap z"] assms(2) by (auto intro: mult_left_mono mult_nonneg_nonneg)
  have "of_int (contracts_for (capital * kelly_of a b (sz_kelly_cap z)) max_loss) * max_loss \<le> capital * kelly_of a b (sz_kelly_cap z)" for a b
    using contracts_within[OF m, of "capital * kelly_of a b (sz_kelly_cap z)"] k[of a b] by simp
  then show ?thesis
    using assms(1) m contracts_within[OF m] k
    by (auto simp: position_size_def Let_def split: if_splits option.splits)
qed

lemma sizes_within_budget_witness:
  "position_size \<lparr>sz_method = KELLY, sz_risk_pct = 1, sz_kelly_cap = 25\<rparr> 1000 30 (Some (6 / 10)) (Some 2)
     = Inr \<lparr>si_contracts = 8, si_budget = 250, si_kelly = Some (1 / 4)\<rparr>
   \<and> (250::pyfloat) \<le> 1000 * max 0 (25 / 100)"
proof -
  have s: "position_size \<lparr>sz_method = KELLY, sz_risk_pct = 1, sz_kelly_cap = 25\<rparr> 1000 30 (Some (6 / 10)) (Some 2)
     = Inr \<lparr>si_contracts = 8, si_budget = 250, si_kelly = Some (1 / 4)\<rparr>" by code_simp
  show ?thesis using sizes_within_budget[OF s] s by simp
qed

subsection \<open>What rules do not say\<close>

text \<open>The documented exit \<open>profit_target_pct: 50\<close> is compared for equality: a profit of 60 does not reach it.\<close>

lemma profit_target_is_an_equality:
  "eval_condition [(''profit_target_pct'', PInt 60)] [(''profit_target_pct'', PInt 50)] = Inr False"
  "eval_condition [(''profit_target_pct'', PInt 50)] [(''profit_target_pct'', PInt 50)] = Inr True"
  by code_simp+

text \<open>A group with several keys is read for its first kind only: conditions beside \<open>all_of\<close> are ignored.\<close>

lemma conditions_beside_all_of_ignored:
  "eval_group facts (PDict ((''all_of'', PList rs) # other)) = eval_group facts (PDict [(''all_of'', PList rs)])"
  by (simp add: eval_group.simps)

end
