(* ===== verification/Futures_Margin.thy ===== *)
theory Futures_Margin
  imports Prelude
begin

text \<open>
  Margins and liquidation of coin futures (\<open>services/gold/futures_risk.py\<close>). A health ratio without used margin
  is infinite; it is \<open>None\<close>. Messages are left out.
\<close>

datatype position_type = LONG | SHORT
datatype alert_level = SAFE | WARNING | CRITICAL

record futures_risk =
  fr_leverage :: int
  fr_initial :: pyfloat
  fr_maintenance :: pyfloat
  fr_buffer :: pyfloat

definition CONTRACT_SIZE :: int where "CONTRACT_SIZE = 10"
definition MAINTENANCE_MARGIN_RATIO :: pyfloat where "MAINTENANCE_MARGIN_RATIO = 5 / 100"

definition FuturesRiskCalculator :: "int \<Rightarrow> py_error + futures_risk" where
  "FuturesRiskCalculator leverage =
     (if leverage < 1 \<or> leverage > 20 then Inl ValueError
      else Inr \<lparr>fr_leverage = leverage, fr_initial = 1 / of_int leverage, fr_maintenance = MAINTENANCE_MARGIN_RATIO,
                fr_buffer = 1 / of_int leverage - MAINTENANCE_MARGIN_RATIO\<rparr>)"

definition contract_value :: "pyfloat \<Rightarrow> int \<Rightarrow> pyfloat" where
  "contract_value entry quantity = entry * of_int quantity * of_int CONTRACT_SIZE"

definition initial_margin :: "futures_risk \<Rightarrow> pyfloat \<Rightarrow> int \<Rightarrow> pyfloat" where
  "initial_margin f entry quantity = contract_value entry quantity * fr_initial f"

definition maintenance_margin :: "futures_risk \<Rightarrow> pyfloat \<Rightarrow> int \<Rightarrow> pyfloat" where
  "maintenance_margin f entry quantity = contract_value entry quantity * fr_maintenance f"

definition liquidation_price :: "futures_risk \<Rightarrow> pyfloat \<Rightarrow> position_type \<Rightarrow> pyfloat" where
  "liquidation_price f entry ty = (if ty = LONG then entry * (1 - fr_buffer f) else entry * (1 + fr_buffer f))"

definition health_ratio :: "pyfloat \<Rightarrow> pyfloat \<Rightarrow> pyfloat option" where
  "health_ratio equity used = (if used \<le> 0 then None else Some (equity / used))"

definition distance_to_liquidation_pct :: "futures_risk \<Rightarrow> pyfloat \<Rightarrow> pyfloat \<Rightarrow> position_type \<Rightarrow> py_error + pyfloat" where
  "distance_to_liquidation_pct f current entry ty =
     (if current = 0 then Inl ZeroDivisionError
      else Inr (let liq = liquidation_price f entry ty
                in if ty = LONG then (current - liq) / current * 100 else (liq - current) / current * 100))"

definition round2 :: "pyfloat \<Rightarrow> pyfloat" where
  "round2 x = of_int (py_round (x * 100)) / 100"

record margin_alert =
  ma_level :: alert_level
  ma_liquidation :: pyfloat
  ma_distance :: pyfloat
  ma_health :: "pyfloat option"

definition level_of :: "pyfloat option \<Rightarrow> alert_level" where
  "level_of health =
     (case health of None \<Rightarrow> SAFE | Some h \<Rightarrow> if h < 12 / 10 then CRITICAL else if h < 2 then WARNING else SAFE)"

definition margin_call_alert ::
    "futures_risk \<Rightarrow> pyfloat \<Rightarrow> pyfloat \<Rightarrow> position_type \<Rightarrow> pyfloat \<Rightarrow> pyfloat \<Rightarrow> py_error + margin_alert" where
  "margin_call_alert f current entry ty equity position_value =
     (let health = health_ratio equity (position_value * fr_initial f) in
      case distance_to_liquidation_pct f current entry ty of
        Inl e \<Rightarrow> Inl e
      | Inr distance \<Rightarrow>
          Inr \<lparr>ma_level = level_of health, ma_liquidation = round2 (liquidation_price f entry ty), ma_distance = round2 distance,
               ma_health = map_option round2 health\<rparr>)"

record full_result =
  fu_value :: pyfloat
  fu_initial :: pyfloat
  fu_maintenance :: pyfloat
  fu_liquidation :: pyfloat
  fu_alert :: "margin_alert option"
  fu_stop :: pyfloat
  fu_pnl :: "pyfloat option"
  fu_pnl_pct :: "pyfloat option"

definition recommended_stop :: "futures_risk \<Rightarrow> pyfloat \<Rightarrow> position_type \<Rightarrow> pyfloat" where
  "recommended_stop f entry ty = (if ty = LONG then entry * (1 - fr_buffer f * 2) else entry * (1 + fr_buffer f * 2))"

definition unrealized_pnl :: "pyfloat \<Rightarrow> pyfloat \<Rightarrow> position_type \<Rightarrow> int \<Rightarrow> pyfloat" where
  "unrealized_pnl current entry ty quantity =
     (current - entry) * (if ty = LONG then 1 else - 1) * of_int quantity * of_int CONTRACT_SIZE"

definition futures_calculate ::
    "futures_risk \<Rightarrow> pyfloat \<Rightarrow> position_type \<Rightarrow> int \<Rightarrow> pyfloat option \<Rightarrow> pyfloat option \<Rightarrow> py_error + full_result" where
  "futures_calculate f entry ty quantity current equity =
     (let r = \<lparr>fu_value = round2 (contract_value entry quantity), fu_initial = round2 (initial_margin f entry quantity),
               fu_maintenance = round2 (maintenance_margin f entry quantity), fu_liquidation = round2 (liquidation_price f entry ty),
               fu_alert = None, fu_stop = round2 (recommended_stop f entry ty), fu_pnl = None, fu_pnl_pct = None\<rparr>
      in case (current, equity) of
           (Some c, Some eq) \<Rightarrow>
             if eq > 0
             then (case margin_call_alert f c entry ty eq (contract_value entry quantity) of
                     Inl e \<Rightarrow> Inl e
                   | Inr a \<Rightarrow>
                       if entry = 0 then Inl ZeroDivisionError
                       else Inr (r\<lparr>fu_alert := Some a, fu_pnl := Some (round2 (unrealized_pnl c entry ty quantity)),
                                   fu_pnl_pct := Some (round2 ((c - entry) / entry * 100 * (if ty = LONG then 1 else - 1)))\<rparr>))
             else Inr r
         | _ \<Rightarrow> Inr r)"

subsection \<open>What the liquidation price means\<close>

lemma calculator_ratios:
  assumes "FuturesRiskCalculator leverage = Inr f"
  shows "fr_initial f = fr_maintenance f + fr_buffer f \<and> 0 \<le> fr_buffer f \<and> (leverage < 20 \<longrightarrow> 0 < fr_buffer f)"
proof -
  have l: "1 \<le> leverage" "leverage \<le> 20" and
    f: "fr_initial f = 1 / of_int leverage" "fr_maintenance f = 5 / 100" "fr_buffer f = 1 / of_int leverage - 5 / 100"
    using assms by (auto simp: FuturesRiskCalculator_def MAINTENANCE_MARGIN_RATIO_def split: if_splits)
  have pos: "0 < (of_int leverage :: pyfloat)" using l by simp
  have "(of_int leverage :: pyfloat) \<le> 20" "leverage < 20 \<Longrightarrow> (of_int leverage :: pyfloat) < 20" using l by simp_all
  then have "(5 / 100 :: pyfloat) \<le> 1 / of_int leverage" "leverage < 20 \<Longrightarrow> (5 / 100 :: pyfloat) < 1 / of_int leverage"
    using pos by (simp_all add: field_simps)
  then show ?thesis using f by auto
qed

text \<open>The liquidation price is where the margin is used up to its maintenance: for every accepted leverage, a position's initial margin plus
  its profit at the liquidation price is its maintenance margin, and a price is on the losing side of the liquidation price
  exactly when the margin left is below the maintenance margin.\<close>

theorem liquidation_leaves_the_maintenance_margin:
  assumes "FuturesRiskCalculator leverage = Inr f" "0 < entry" "0 < quantity"
  shows "initial_margin f entry quantity + unrealized_pnl (liquidation_price f entry ty) entry ty quantity = maintenance_margin f entry quantity
    \<and> (initial_margin f entry quantity + unrealized_pnl c entry ty quantity < maintenance_margin f entry quantity
         \<longleftrightarrow> (if ty = LONG then c < liquidation_price f entry ty else liquidation_price f entry ty < c))"
proof -
  note r = calculator_ratios[OF assms(1)]
  define k :: pyfloat where "k = of_int quantity * of_int CONTRACT_SIZE"
  have k: "0 < k" using assms(3) by (simp add: k_def CONTRACT_SIZE_def)
  have pnl: "unrealized_pnl x entry ty quantity = (if ty = LONG then x - entry else entry - x) * k" for x
    by (simp add: unrealized_pnl_def k_def algebra_simps)
  have margins: "initial_margin f entry quantity = entry * k * (fr_maintenance f + fr_buffer f)"
      "maintenance_margin f entry quantity = entry * k * fr_maintenance f"
    using r by (simp_all add: initial_margin_def maintenance_margin_def contract_value_def k_def mult.assoc)
  have left: "initial_margin f entry quantity + unrealized_pnl x entry ty quantity - maintenance_margin f entry quantity
      = k * (if ty = LONG then x - liquidation_price f entry ty else liquidation_price f entry ty - x)" for x
    by (simp add: pnl margins liquidation_price_def algebra_simps)
  have "initial_margin f entry quantity + unrealized_pnl c entry ty quantity < maintenance_margin f entry quantity
      \<longleftrightarrow> k * (if ty = LONG then c - liquidation_price f entry ty else liquidation_price f entry ty - c) < 0"
    using left[of c] by linarith
  also have "\<dots> \<longleftrightarrow> (if ty = LONG then c < liquidation_price f entry ty else liquidation_price f entry ty < c)"
    using k by (simp add: mult_less_0_iff)
  finally show ?thesis using left[of "liquidation_price f entry ty"] by simp
qed

lemma liquidation_leaves_the_maintenance_margin_witness:
  "\<exists>f. FuturesRiskCalculator 10 = Inr f \<and> liquidation_price f 100 LONG = 95
     \<and> initial_margin f 100 2 + unrealized_pnl 95 100 LONG 2 = maintenance_margin f 100 2"
proof -
  obtain f where f: "FuturesRiskCalculator 10 = Inr f" by (simp add: FuturesRiskCalculator_def)
  have liq: "liquidation_price f 100 LONG = 95"
    using f by (auto simp: FuturesRiskCalculator_def liquidation_price_def MAINTENANCE_MARGIN_RATIO_def)
  show ?thesis using liquidation_leaves_the_maintenance_margin[OF f, of 100 2 LONG 95] liq f by auto
qed

text \<open>The recommended stop is twice the buffer away from the entry: below a leverage of 20 the position is liquidated before the stop is reached.\<close>

lemma stop_lies_behind_liquidation:
  assumes "FuturesRiskCalculator leverage = Inr f" "leverage < 20" "0 < entry"
  shows "recommended_stop f entry LONG < liquidation_price f entry LONG \<and> liquidation_price f entry SHORT < recommended_stop f entry SHORT"
proof -
  have "0 < entry * fr_buffer f" using calculator_ratios[OF assms(1)] assms(2,3) by simp
  then show ?thesis by (simp add: recommended_stop_def liquidation_price_def algebra_simps)
qed

end
