(* ===== verification/Event_Backtest.thy ===== *)
theory Event_Backtest
  imports Order_Manager
begin

text \<open>
  The event-driven backtest of the services (\<open>services/event_backtest.py\<close>): the market rules, slippage, execution
  with queues at the price limits, portfolio, risk checks and the run; the commission rates are those of \<open>Order_Manager\<close>. The orders live in the list of all orders and
  the list of live ones holds references into it, since both hold the same objects. The square root of the adaptive
  slippage is an argument. The report over the equity curve, which is statistics, is left out; so is the strategy, since
  a run is given its signals. Fields no operation reads (the bar's open, high, low and value, the order's type and stop
  price, the position's own realized profit, the sector, turnover and liquidity limits) are left out.
\<close>

subsection \<open>Orders, fills and the market\<close>

datatype order_side = BUY | SELL
datatype order_status = NEW | ACKED | PARTIAL_FILL | FILLED | CANCELLED | REJECTED

record event_order =
  eo_id :: string
  eo_symbol :: string
  eo_side :: order_side
  eo_qty :: pyfloat
  eo_limit :: pyfloat
  eo_time :: nat
  eo_status :: order_status
  eo_filled :: pyfloat
  eo_remaining :: pyfloat

definition Order :: "string \<Rightarrow> string \<Rightarrow> order_side \<Rightarrow> pyfloat \<Rightarrow> pyfloat \<Rightarrow> nat \<Rightarrow> event_order" where
  "Order i sy sd qty limit t =
     \<lparr>eo_id = i, eo_symbol = sy, eo_side = sd, eo_qty = qty, eo_limit = limit, eo_time = t, eo_status = NEW, eo_filled = 0, eo_remaining = qty\<rparr>"

record event_fill =
  ef_order :: string
  ef_symbol :: string
  ef_side :: order_side
  ef_qty :: pyfloat
  ef_price :: pyfloat
  ef_time :: nat
  ef_fee :: pyfloat
  ef_tax :: pyfloat
  ef_slippage :: pyfloat

record market_state =
  mk_symbol :: string
  mk_time :: nat
  mk_close :: pyfloat
  mk_volume :: pyfloat
  mk_bid_price :: pyfloat
  mk_ask_price :: pyfloat
  mk_bid_size :: pyfloat
  mk_ask_size :: pyfloat
  mk_bid_queue :: pyfloat
  mk_ask_queue :: pyfloat
  mk_limit_up :: pyfloat
  mk_limit_down :: pyfloat
  mk_halted :: bool

subsection \<open>Market rules and slippage\<close>

definition compute_price_limits :: "pyfloat \<Rightarrow> pyfloat \<Rightarrow> pyfloat \<times> pyfloat" where
  "compute_price_limits limit_pct yesterday_close = (yesterday_close * (1 - limit_pct), yesterday_close * (1 + limit_pct))"

definition is_locked_buy :: "market_state \<Rightarrow> bool" where
  "is_locked_buy s \<longleftrightarrow> mk_close s \<ge> mk_limit_up s \<and> mk_ask_queue s > 0 \<and> mk_ask_size s = 0"

definition is_locked_sell :: "market_state \<Rightarrow> bool" where
  "is_locked_sell s \<longleftrightarrow> mk_close s \<le> mk_limit_down s \<and> mk_bid_queue s > 0 \<and> mk_bid_size s = 0"

definition apply_base_volume_effect :: "pyfloat \<Rightarrow> pyfloat \<Rightarrow> pyfloat \<Rightarrow> pyfloat" where
  "apply_base_volume_effect raw volume base = (if base \<le> 0 then raw else raw * min 1 (volume / base))"

definition can_trade :: "market_state \<Rightarrow> bool" where
  "can_trade s \<longleftrightarrow> \<not> mk_halted s \<and> \<not> mk_close s \<le> 0"

definition adjust_price_to_limits :: "pyfloat \<Rightarrow> market_state \<Rightarrow> pyfloat" where
  "adjust_price_to_limits price s = max (mk_limit_down s) (min price (mk_limit_up s))"

record slippage_model =
  sp_type :: string
  sp_fixed_bps :: pyfloat

definition spread_of :: "market_state \<Rightarrow> pyfloat" where
  "spread_of s = (if mk_bid_price s > 0 \<and> mk_ask_price s > 0 then mk_ask_price s - mk_bid_price s else 0)"

definition compute_slippage :: "(pyfloat \<Rightarrow> pyfloat) \<Rightarrow> slippage_model \<Rightarrow> pyfloat \<Rightarrow> market_state \<Rightarrow> pyfloat" where
  "compute_slippage sqr m qty s =
     (if sp_type m = ''fixed'' then sp_fixed_bps m / 10000
      else if sp_type m = ''spread_based'' then (if mk_close s > 0 then spread_of s / 2 / mk_close s else 0)
      else if sp_type m = ''adaptive'' then
        (let ratio = qty / max (mk_volume s) 1
         in (if mk_close s > 0 then 3 / 10 * spread_of s / mk_close s else 0)
            + (if ratio > 0 then 1 / 1000 * sqr ratio else 0) + sp_fixed_bps m / 10000)
      else sp_fixed_bps m / 10000)"

record latency_model =
  la_seconds :: pyfloat

definition LatencyModel :: "pyfloat \<Rightarrow> pyfloat \<Rightarrow> pyfloat \<Rightarrow> pyfloat \<Rightarrow> latency_model" where
  "LatencyModel compute network broker exchange = \<lparr>la_seconds = (compute + network + broker + exchange) / 1000\<rparr>"

definition get_delayed_timestamp :: "pyfloat \<Rightarrow> latency_model \<Rightarrow> pyfloat" where
  "get_delayed_timestamp t m = t + la_seconds m"

subsection \<open>Execution\<close>

record execution =
  ex_comm_buy :: pyfloat
  ex_comm_sell :: pyfloat
  ex_slippage :: slippage_model
  ex_participation :: pyfloat
  ex_live :: "nat list"
  ex_orders :: "event_order list"
  ex_fills :: "event_fill list"
  ex_queue :: "(string, pyfloat) pydict"

definition ExecutionEngine :: "pyfloat option \<Rightarrow> pyfloat option \<Rightarrow> slippage_model \<Rightarrow> pyfloat \<Rightarrow> execution" where
  \<comment> \<open>without commissions those of the exchange\<close>
  "ExecutionEngine buy sell slippage participation =
     \<lparr>ex_comm_buy = (case buy of Some c \<Rightarrow> c | None \<Rightarrow> BROKER_PCT + CLEARING_FEE_PCT),
      ex_comm_sell = (case sell of Some c \<Rightarrow> c | None \<Rightarrow> BROKER_PCT + CLEARING_FEE_PCT + SELL_TAX_PCT),
      ex_slippage = slippage, ex_participation = participation, ex_live = [], ex_orders = [], ex_fills = [], ex_queue = []\<rparr>"

definition submit :: "event_order \<Rightarrow> execution \<Rightarrow> execution" where
  "submit ord ex =
     ex\<lparr>ex_live := ex_live ex @ [length (ex_orders ex)], ex_orders := ex_orders ex @ [ord\<lparr>eo_status := ACKED\<rparr>]\<rparr>"

definition queue_after :: "string \<Rightarrow> pyfloat \<Rightarrow> market_state \<Rightarrow> execution \<Rightarrow> pyfloat" where
  \<comment> \<open>the place in the queue at the limit after the bar's volume and the cancellations\<close>
  "queue_after i start s ex =
     (let pos = dict_get_or (ex_queue ex) i start in max 0 (pos - mk_volume s * (7 / 10) - pos * (5 / 100)))"

definition exec_terms :: "event_order \<Rightarrow> pyfloat \<Rightarrow> market_state \<Rightarrow> execution \<Rightarrow> (pyfloat \<times> pyfloat) option \<times> execution" where
  \<comment> \<open>the quantity and the price an order trades at, unless it still stands in a queue\<close>
  "exec_terms ord slip s ex =
     (if eo_side ord = BUY then
        (if is_locked_buy s then
           (let pos = queue_after (eo_id ord) (mk_bid_queue s) s ex; ex1 = ex\<lparr>ex_queue := dict_set (eo_id ord) pos (ex_queue ex)\<rparr>
            in if pos \<le> 0 then (Some (min (eo_remaining ord) (mk_volume s * ex_participation ex), mk_limit_up s * (1 + slip)), ex1)
               else (None, ex1))
         else (Some (min (eo_remaining ord) (if mk_ask_size s > 0 then mk_ask_size s else eo_remaining ord),
                     if mk_ask_price s > 0 then mk_ask_price s * (1 + slip) else mk_close s * (1 + slip)), ex))
      else
        (if is_locked_sell s then
           (let pos = queue_after (eo_id ord) (mk_ask_queue s) s ex; ex1 = ex\<lparr>ex_queue := dict_set (eo_id ord) pos (ex_queue ex)\<rparr>
            in if pos \<le> 0 then (Some (min (eo_remaining ord) (mk_volume s * ex_participation ex), mk_limit_down s * (1 - slip)), ex1)
               else (None, ex1))
         else (Some (min (eo_remaining ord) (if mk_bid_size s > 0 then mk_bid_size s else eo_remaining ord),
                     if mk_bid_price s > 0 then mk_bid_price s * (1 - slip) else mk_close s * (1 - slip)), ex)))"

definition try_fill :: "(pyfloat \<Rightarrow> pyfloat) \<Rightarrow> nat \<Rightarrow> market_state \<Rightarrow> execution \<Rightarrow> event_fill option \<times> execution" where
  "try_fill sqr r s ex =
     (let ord = ex_orders ex ! r; slip = compute_slippage sqr (ex_slippage ex) (eo_remaining ord) s
      in case exec_terms ord slip s ex of
           (None, ex1) \<Rightarrow> (None, ex1)
         | (Some (qty, price), ex1) \<Rightarrow>
             if qty \<le> 0 then (None, ex1)
             else (Some \<lparr>ef_order = eo_id ord, ef_symbol = eo_symbol ord, ef_side = eo_side ord, ef_qty = qty, ef_price = price,
                         ef_time = mk_time s, ef_fee = qty * price * (if eo_side ord = BUY then ex_comm_buy ex else ex_comm_sell ex),
                         ef_tax = (if eo_side ord = SELL then qty * price * (1 / 1000) else 0), ef_slippage = slip\<rparr>,
                   ex1\<lparr>ex_orders := (ex_orders ex1)[r := ord\<lparr>eo_filled := eo_filled ord + qty, eo_remaining := eo_remaining ord - qty\<rparr>]\<rparr>))"

definition set_status :: "order_status \<Rightarrow> nat \<Rightarrow> execution \<Rightarrow> execution" where
  "set_status st r ex = ex\<lparr>ex_orders := (ex_orders ex)[r := (ex_orders ex ! r)\<lparr>eo_status := st\<rparr>]\<rparr>"

fun remove_equal :: "event_order list \<Rightarrow> nat \<Rightarrow> nat list \<Rightarrow> nat list" where
  \<comment> \<open>\<open>list.remove\<close> takes out the first order that equals the given one\<close>
  "remove_equal os r [] = []"
| "remove_equal os r (l # ls) = (if os ! l = os ! r then ls else l # remove_equal os r ls)"

definition drop_live :: "nat \<Rightarrow> execution \<Rightarrow> execution" where
  "drop_live r ex = ex\<lparr>ex_live := remove_equal (ex_orders ex) r (ex_live ex)\<rparr>"

definition match_one :: "(pyfloat \<Rightarrow> pyfloat) \<Rightarrow> market_state \<Rightarrow> nat \<Rightarrow> execution \<Rightarrow> event_fill list \<times> execution" where
  "match_one sqr s r ex =
     (let ord = ex_orders ex ! r in
      if eo_symbol ord \<noteq> mk_symbol s then ([], ex)
      else if eo_status ord = FILLED \<or> eo_status ord = CANCELLED \<or> eo_status ord = REJECTED then ([], drop_live r ex)
      else (case try_fill sqr r s ex of
              (None, ex1) \<Rightarrow> ([], ex1)
            | (Some f, ex1) \<Rightarrow>
                (let ex2 = ex1\<lparr>ex_fills := ex_fills ex1 @ [f]\<rparr>
                 in if eo_remaining (ex_orders ex2 ! r) \<le> 0 then ([f], drop_live r (set_status FILLED r ex2))
                    else ([f], set_status PARTIAL_FILL r ex2))))"

fun match_loop :: "(pyfloat \<Rightarrow> pyfloat) \<Rightarrow> market_state \<Rightarrow> nat list \<Rightarrow> execution \<Rightarrow> event_fill list \<times> execution" where
  "match_loop sqr s [] ex = ([], ex)"
| "match_loop sqr s (r # rs) ex =
     (let (fs, ex1) = match_one sqr s r ex; (gs, ex2) = match_loop sqr s rs ex1 in (fs @ gs, ex2))"

definition match_orders :: "(pyfloat \<Rightarrow> pyfloat) \<Rightarrow> market_state \<Rightarrow> execution \<Rightarrow> event_fill list \<times> execution" where
  \<comment> \<open>over a copy of the live orders\<close>
  "match_orders sqr s ex = (if \<not> can_trade s then ([], ex) else match_loop sqr s (ex_live ex) ex)"

definition cancel_all :: "execution \<Rightarrow> execution" where
  "cancel_all ex = (fold (set_status CANCELLED) (ex_live ex) ex)\<lparr>ex_live := []\<rparr>"

definition round_to :: "nat \<Rightarrow> pyfloat \<Rightarrow> pyfloat" where
  "round_to n x = of_int (py_round (x * 10 ^ n)) / 10 ^ n"

record execution_stats =
  xs_fills :: nat
  xs_orders :: nat
  xs_queued :: nat
  xs_rejected :: nat
  xs_fill_rate :: pyfloat
  xs_slippage_bps :: pyfloat

definition with_status :: "order_status \<Rightarrow> execution \<Rightarrow> nat" where
  "with_status st ex = length (filter (\<lambda>ord. eo_status ord = st) (ex_orders ex))"

definition get_stats :: "execution \<Rightarrow> execution_stats" where
  \<comment> \<open>no fill carries a queue delay, so their mean is left out\<close>
  "get_stats ex =
     \<lparr>xs_fills = length (ex_fills ex), xs_orders = length (ex_orders ex), xs_queued = with_status PARTIAL_FILL ex,
      xs_rejected = with_status REJECTED ex,
      xs_fill_rate = round_to 1 (of_nat (length (ex_fills ex)) / of_nat (max (length (ex_orders ex)) 1) * 100),
      xs_slippage_bps = round_to 1 (sum_list (map ef_slippage (ex_fills ex)) / of_nat (max (length (ex_fills ex)) 1) * 10000)\<rparr>"

subsection \<open>Portfolio\<close>

record event_position =
  es_qty :: pyfloat
  es_avg :: pyfloat
  es_value :: pyfloat
  es_unrealized :: pyfloat

definition flat :: event_position where
  "flat = \<lparr>es_qty = 0, es_avg = 0, es_value = 0, es_unrealized = 0\<rparr>"

record logged_trade =
  lt_symbol :: string
  lt_side :: order_side
  lt_qty :: pyfloat
  lt_price :: pyfloat
  lt_fee :: pyfloat
  lt_tax :: pyfloat
  lt_pnl :: pyfloat

record event_portfolio =
  vp_initial :: pyfloat
  vp_cash :: pyfloat
  vp_positions :: "(string, event_position) pydict"
  vp_realized :: pyfloat
  vp_fees :: pyfloat
  vp_taxes :: pyfloat
  vp_log :: "logged_trade list"
  vp_curve :: "(pyfloat \<times> nat) list"

definition PortfolioEngine :: "pyfloat \<Rightarrow> event_portfolio" where
  "PortfolioEngine cash =
     \<lparr>vp_initial = cash, vp_cash = cash, vp_positions = [], vp_realized = 0, vp_fees = 0, vp_taxes = 0, vp_log = [], vp_curve = []\<rparr>"

definition apply_fill :: "event_fill \<Rightarrow> event_portfolio \<Rightarrow> event_portfolio" where
  \<comment> \<open>the logged profit reads the average price after the position was booked\<close>
  "apply_fill f pf =
     (let pos = dict_get_or (vp_positions pf) (ef_symbol f) flat;
          total_qty = es_qty pos + ef_qty f;
          sold = es_qty pos - ef_qty f;
          pos1 = (if ef_side f = BUY
                  then pos\<lparr>es_avg := (if total_qty > 0 then (es_avg pos * es_qty pos + ef_price f * ef_qty f) / total_qty else es_avg pos),
                           es_qty := total_qty\<rparr>
                  else if sold \<le> 0 then pos\<lparr>es_qty := 0, es_avg := 0\<rparr> else pos\<lparr>es_qty := sold\<rparr>)
      in pf\<lparr>vp_fees := vp_fees pf + ef_fee f, vp_taxes := vp_taxes pf + ef_tax f,
            vp_cash := (if ef_side f = BUY then vp_cash pf - (ef_qty f * ef_price f + ef_fee f)
                        else vp_cash pf + (ef_qty f * ef_price f - ef_fee f - ef_tax f)),
            vp_realized := (if ef_side f = BUY then vp_realized pf
                            else vp_realized pf + ((ef_price f - es_avg pos) * ef_qty f - ef_fee f - ef_tax f)),
            vp_positions := dict_set (ef_symbol f) pos1 (vp_positions pf),
            vp_log := vp_log pf @ [\<lparr>lt_symbol = ef_symbol f, lt_side = ef_side f, lt_qty = ef_qty f, lt_price = ef_price f, lt_fee = ef_fee f,
                                    lt_tax = ef_tax f, lt_pnl = (if ef_side f = SELL then (ef_price f - es_avg pos1) * ef_qty f else 0)\<rparr>]\<rparr>)"

definition mark_position :: "(string, pyfloat) pydict \<Rightarrow> string \<Rightarrow> event_position \<Rightarrow> event_position" where
  "mark_position prices sy pos =
     (case dict_get prices sy of
        Some p \<Rightarrow> if es_qty pos > 0 then pos\<lparr>es_value := es_qty pos * p, es_unrealized := (p - es_avg pos) * es_qty pos\<rparr> else pos
      | None \<Rightarrow> pos)"

definition mark_to_market :: "(string, pyfloat) pydict \<Rightarrow> event_portfolio \<Rightarrow> event_portfolio" where
  "mark_to_market prices pf = pf\<lparr>vp_positions := map (\<lambda>(sy, pos). (sy, mark_position prices sy pos)) (vp_positions pf)\<rparr>"

definition get_nav :: "(string, pyfloat) pydict \<Rightarrow> event_portfolio \<Rightarrow> pyfloat \<times> event_portfolio" where
  "get_nav prices pf =
     (let pf1 = mark_to_market prices pf in (vp_cash pf1 + sum_list (map (es_value \<circ> snd) (vp_positions pf1)), pf1))"

record portfolio_snapshot =
  ps_cash :: int
  ps_positions :: "(string, pyfloat \<times> pyfloat \<times> int) pydict"
  ps_realized :: int
  ps_fees :: int
  ps_taxes :: int

definition snapshot :: "event_portfolio \<Rightarrow> portfolio_snapshot" where
  "snapshot pf =
     \<lparr>ps_cash = py_round (vp_cash pf),
      ps_positions = map (\<lambda>(sy, pos). (sy, es_qty pos, round_to 2 (es_avg pos), py_round (es_unrealized pos)))
                       (filter (\<lambda>(sy, pos). es_qty pos > 0) (vp_positions pf)),
      ps_realized = py_round (vp_realized pf), ps_fees = py_round (vp_fees pf), ps_taxes = py_round (vp_taxes pf)\<rparr>"

subsection \<open>Risk\<close>

record event_risk =
  vr_max_position :: pyfloat
  vr_max_drawdown :: pyfloat
  vr_target_vol :: pyfloat
  vr_peak :: pyfloat
  vr_kill :: bool
  vr_alerts :: "(pyfloat \<times> nat) list"

definition RiskEngine :: event_risk where
  "RiskEngine = \<lparr>vr_max_position = 20 / 100, vr_max_drawdown = 20 / 100, vr_target_vol = 15 / 100, vr_peak = 0, vr_kill = False, vr_alerts = []\<rparr>"

definition risk_check :: "event_order \<Rightarrow> market_state \<Rightarrow> pyfloat \<Rightarrow> event_risk \<Rightarrow> bool \<times> event_order \<times> event_risk" where
  \<comment> \<open>the answer, the order with its quantity perhaps cut, and the engine\<close>
  "risk_check ord s nav rk =
     (if vr_kill rk then (False, ord, rk)
      else if nav > 0 \<and> vr_peak rk > 0 \<and> (vr_peak rk - nav) / vr_peak rk > vr_max_drawdown rk
      then (False, ord, rk\<lparr>vr_kill := True, vr_alerts := vr_alerts rk @ [((vr_peak rk - nav) / vr_peak rk, mk_time s)]\<rparr>)
      else (let price = (if eo_limit ord \<noteq> 0 then eo_limit ord else mk_close s);
                ord1 = (if nav > 0 \<and> eo_qty ord * price / nav > vr_max_position rk
                        then ord\<lparr>eo_qty := of_int (py_int (nav * vr_max_position rk / price))\<rparr> else ord)
            in if nav > 0 \<and> eo_qty ord * price / nav > vr_max_position rk \<and> eo_qty ord1 \<le> 0 then (False, ord1, rk)
               else (\<not> mk_volume s < 1000, ord1, rk)))"

definition volatility_adjust_weight :: "pyfloat \<Rightarrow> pyfloat \<Rightarrow> event_risk \<Rightarrow> pyfloat" where
  "volatility_adjust_weight weight vol rk = (if vol \<le> 0 then weight else weight * min 1 (vr_target_vol rk / vol))"

definition on_fill :: "pyfloat \<Rightarrow> event_risk \<Rightarrow> event_risk" where
  "on_fill nav rk = rk\<lparr>vr_peak := max (vr_peak rk) nav\<rparr>"

subsection \<open>The run\<close>

record event_bar =
  ba_symbol :: "string option"
  ba_close :: "pyfloat option"
  ba_volume :: "pyfloat option"
  ba_bid_price :: "pyfloat option"
  ba_ask_price :: "pyfloat option"
  ba_bid_size :: "pyfloat option"
  ba_ask_size :: "pyfloat option"
  ba_bid_queue :: "pyfloat option"
  ba_ask_queue :: "pyfloat option"
  ba_limit_up :: "pyfloat option"
  ba_limit_down :: "pyfloat option"

definition bar_get :: "'a option \<Rightarrow> 'a \<Rightarrow> 'a" where
  "bar_get x d = (case x of None \<Rightarrow> d | Some y \<Rightarrow> y)"

definition bar_state :: "nat \<Rightarrow> event_bar \<Rightarrow> market_state" where
  "bar_state i b =
     (let close = bar_get (ba_close b) 0
      in \<lparr>mk_symbol = bar_get (ba_symbol b) ''unknown'', mk_time = i, mk_close = close, mk_volume = bar_get (ba_volume b) 0,
          mk_bid_price = bar_get (ba_bid_price b) close, mk_ask_price = bar_get (ba_ask_price b) close,
          mk_bid_size = bar_get (ba_bid_size b) 0, mk_ask_size = bar_get (ba_ask_size b) 0,
          mk_bid_queue = bar_get (ba_bid_queue b) 0, mk_ask_queue = bar_get (ba_ask_queue b) 0,
          mk_limit_up = bar_get (ba_limit_up b) (close * (105 / 100)), mk_limit_down = bar_get (ba_limit_down b) (close * (95 / 100)),
          mk_halted = False\<rparr>)"

record event_engine =
  en_portfolio :: event_portfolio
  en_execution :: execution
  en_risk :: event_risk

definition EventBacktestEngine :: "pyfloat \<Rightarrow> event_engine" where
  "EventBacktestEngine cash =
     \<lparr>en_portfolio = PortfolioEngine cash,
      en_execution = ExecutionEngine None None \<lparr>sp_type = ''adaptive'', sp_fixed_bps = 5\<rparr> (1 / 10), en_risk = RiskEngine\<rparr>"

definition order_id :: "nat \<Rightarrow> string \<Rightarrow> string" where
  "order_id i what = ''O'' @ str_of_nat i @ ''_'' @ what"

definition held :: "market_state \<Rightarrow> event_engine \<Rightarrow> pyfloat" where
  "held s en = es_qty (dict_get_or (vp_positions (en_portfolio en)) (mk_symbol s) flat)"

definition buy_quantity :: "market_state \<Rightarrow> pyfloat \<Rightarrow> event_engine \<Rightarrow> int" where
  "buy_quantity s nav en = (if mk_close s > 0 then py_int (nav * vr_max_position (en_risk en) / mk_close s) else 0)"

definition place_signal :: "nat \<Rightarrow> int \<Rightarrow> market_state \<Rightarrow> pyfloat \<Rightarrow> event_engine \<Rightarrow> event_engine" where
  "place_signal i signal s nav en =
     (if signal = 1 then
        (if held s en \<le> 0 \<and> buy_quantity s nav en > 0
         then (let ord = Order (order_id i ''BUY'') (mk_symbol s) BUY (of_int (buy_quantity s nav en)) (mk_close s) i;
                   (ok, ord1, rk) = risk_check ord s nav (en_risk en); en1 = en\<lparr>en_risk := rk\<rparr>
               in if ok then en1\<lparr>en_execution := submit ord1 (en_execution en1)\<rparr> else en1)
         else en)
      else if signal = - 1 then
        (if held s en > 0
         then en\<lparr>en_execution := submit (Order (order_id i ''SELL'') (mk_symbol s) SELL (held s en) (mk_close s) i) (en_execution en)\<rparr>
         else en)
      else en)"

definition book_fill :: "pyfloat \<Rightarrow> event_fill \<Rightarrow> event_engine \<Rightarrow> event_engine" where
  "book_fill nav f en = en\<lparr>en_portfolio := apply_fill f (en_portfolio en), en_risk := on_fill nav (en_risk en)\<rparr>"

definition run_bar :: "(pyfloat \<Rightarrow> pyfloat) \<Rightarrow> nat \<Rightarrow> event_bar \<Rightarrow> int \<Rightarrow> pyfloat \<Rightarrow> event_engine \<Rightarrow> pyfloat \<times> event_engine" where
  \<comment> \<open>the value after the bar, and the engine\<close>
  "run_bar sqr i b signal nav en =
     (let s = bar_state i b in
      if \<not> can_trade s then (nav, en)
      else (let en1 = place_signal i signal s nav en;
                (fs, ex) = match_orders sqr s (en_execution en1);
                en2 = fold (book_fill nav) fs (en1\<lparr>en_execution := ex\<rparr>);
                (nav1, pf) = get_nav [(mk_symbol s, mk_close s)] (en_portfolio en2)
            in (nav1, en2\<lparr>en_portfolio := pf\<rparr>)))"

fun run_bars :: "(pyfloat \<Rightarrow> pyfloat) \<Rightarrow> nat \<Rightarrow> (event_bar \<times> int) list \<Rightarrow> pyfloat \<Rightarrow> event_engine \<Rightarrow> (pyfloat \<times> nat) list \<times> event_engine" where
  "run_bars sqr i [] nav en = ([], en)"
| "run_bars sqr i ((b, signal) # bs) nav en =
     (let (nav1, en1) = run_bar sqr i b signal nav en; (curve, en2) = run_bars sqr (Suc i) bs nav1 en1
      in ((nav1, i) # curve, en2))"

definition run_events :: "(pyfloat \<Rightarrow> pyfloat) \<Rightarrow> event_bar list \<Rightarrow> int list \<Rightarrow> event_engine \<Rightarrow> event_engine" where
  "run_events sqr bars signals en =
     (let (curve, en1) = run_bars sqr 0 (zip bars signals) (vp_initial (en_portfolio en)) en
      in en1\<lparr>en_portfolio := (en_portfolio en1)\<lparr>vp_curve := curve\<rparr>\<rparr>)"

subsection \<open>The accounts of a run\<close>

definition cash_effect :: "event_fill \<Rightarrow> pyfloat" where
  "cash_effect f = (if ef_side f = BUY then - (ef_qty f * ef_price f + ef_fee f) else ef_qty f * ef_price f - ef_fee f - ef_tax f)"

definition eorder_ok :: "event_order \<Rightarrow> bool" where
  "eorder_ok ord \<longleftrightarrow> eo_filled ord + eo_remaining ord = eo_qty ord \<and> 0 \<le> eo_filled ord \<and> 0 \<le> eo_remaining ord"

definition execution_ok :: "execution \<Rightarrow> bool" where
  "execution_ok ex \<longleftrightarrow> list_all eorder_ok (ex_orders ex) \<and> list_all (\<lambda>r. r < length (ex_orders ex)) (ex_live ex)
     \<and> sum_list (map ef_qty (ex_fills ex)) = sum_list (map eo_filled (ex_orders ex)) \<and> list_all (\<lambda>f. 0 < ef_qty f) (ex_fills ex)"

definition accounts_ok :: "event_fill list \<Rightarrow> event_portfolio \<Rightarrow> bool" where
  "accounts_ok fs pf \<longleftrightarrow> vp_cash pf = vp_initial pf + sum_list (map cash_effect fs) \<and> vp_fees pf = sum_list (map ef_fee fs)
     \<and> vp_taxes pf = sum_list (map ef_tax fs) \<and> map lt_qty (vp_log pf) = map ef_qty fs"

definition engine_ok :: "event_engine \<Rightarrow> bool" where
  "engine_ok en \<longleftrightarrow> execution_ok (en_execution en) \<and> accounts_ok (ex_fills (en_execution en)) (en_portfolio en)"

lemma exec_terms_frame:
  "ex_orders (snd (exec_terms ord slip s ex)) = ex_orders ex \<and> ex_live (snd (exec_terms ord slip s ex)) = ex_live ex
     \<and> ex_fills (snd (exec_terms ord slip s ex)) = ex_fills ex"
  by (simp add: exec_terms_def Let_def)

lemma exec_terms_at_most:
  assumes "exec_terms ord slip s ex = (Some (qty, price), ex1)"
  shows "qty \<le> eo_remaining ord"
  using assms by (auto simp: exec_terms_def Let_def split: if_splits)

lemma sum_list_update_filled:
  fixes os :: "event_order list"
  assumes "r < length os"
  shows "sum_list (map eo_filled (os[r := ord])) = sum_list (map eo_filled os) - eo_filled (os ! r) + eo_filled ord"
  using assms
proof (induction os arbitrary: r)
  case (Cons x os)
  then show ?case by (cases r) simp_all
qed simp

lemma list_all_update:
  assumes "list_all P xs" and "P x"
  shows "list_all P (xs[r := x])"
  using assms set_update_subset_insert[of xs r x] by (auto simp: list_all_iff)

lemma execution_ok_status:
  assumes "execution_ok ex" and "r < length (ex_orders ex)"
  shows "execution_ok (set_status st r ex)"
proof -
  have "eorder_ok ((ex_orders ex ! r)\<lparr>eo_status := st\<rparr>)"
    using assms by (auto simp: execution_ok_def list_all_iff eorder_ok_def)
  then show ?thesis
    using assms by (simp add: execution_ok_def set_status_def sum_list_update_filled list_all_update)
qed

lemma remove_equal_subset: "set (remove_equal os r ls) \<subseteq> set ls"
  by (induction ls) auto

lemma execution_ok_drop: "execution_ok ex \<Longrightarrow> execution_ok (drop_live r ex)"
  using remove_equal_subset by (fastforce simp: execution_ok_def drop_live_def list_all_iff)

lemma try_fill_none:
  assumes "try_fill sqr r s ex = (None, ex1)" and "execution_ok ex"
  shows "execution_ok ex1 \<and> ex_fills ex1 = ex_fills ex \<and> length (ex_orders ex1) = length (ex_orders ex)"
proof -
  let ?o = "ex_orders ex ! r"
  have "ex1 = snd (exec_terms ?o (compute_slippage sqr (ex_slippage ex) (eo_remaining ?o) s) s ex)"
    using assms(1) by (auto simp: try_fill_def Let_def split: prod.splits option.splits if_splits)
  then show ?thesis
    using assms(2) by (simp add: exec_terms_frame execution_ok_def)
qed

lemma try_fill_some:
  assumes "try_fill sqr r s ex = (Some f, ex1)" and "execution_ok ex" and "r < length (ex_orders ex)"
  shows "execution_ok (ex1\<lparr>ex_fills := ex_fills ex1 @ [f]\<rparr>) \<and> ex_fills ex1 = ex_fills ex \<and> length (ex_orders ex1) = length (ex_orders ex)"
proof -
  let ?o = "ex_orders ex ! r"
  let ?slip = "compute_slippage sqr (ex_slippage ex) (eo_remaining ?o) s"
  obtain qty price ex2 where e: "exec_terms ?o ?slip s ex = (Some (qty, price), ex2)"
    using assms(1) by (auto simp: try_fill_def Let_def split: prod.splits option.splits)
  let ?new = "?o\<lparr>eo_filled := eo_filled ?o + qty, eo_remaining := eo_remaining ?o - qty\<rparr>"
  have q: "0 < qty" and f: "ef_qty f = qty" and x: "ex1 = ex2\<lparr>ex_orders := (ex_orders ex2)[r := ?new]\<rparr>"
    using assms(1) e by (auto simp: try_fill_def Let_def split: if_splits)
  have frame: "ex_orders ex2 = ex_orders ex" "ex_live ex2 = ex_live ex" "ex_fills ex2 = ex_fills ex"
    using exec_terms_frame[of ?o ?slip s ex] e by simp_all
  have "eorder_ok ?o"
    using assms(2,3) by (simp add: execution_ok_def list_all_iff)
  then have "eorder_ok ?new"
    using q exec_terms_at_most[OF e] by (simp add: eorder_ok_def)
  then show ?thesis
    using assms(2,3) q f by (simp add: x frame execution_ok_def sum_list_update_filled list_all_update)
qed

lemma set_status_frame:
  "ex_fills (set_status st r ex) = ex_fills ex" "length (ex_orders (set_status st r ex)) = length (ex_orders ex)"
  by (simp_all add: set_status_def)

lemma drop_live_frame:
  "ex_fills (drop_live r ex) = ex_fills ex" "ex_orders (drop_live r ex) = ex_orders ex"
  by (simp_all add: drop_live_def)

lemma match_one_ok:
  assumes "match_one sqr s r ex = (fs, ex1)" and "execution_ok ex" and "r < length (ex_orders ex)"
  shows "execution_ok ex1 \<and> ex_fills ex1 = ex_fills ex @ fs \<and> length (ex_orders ex1) = length (ex_orders ex)"
proof (cases "eo_symbol (ex_orders ex ! r) \<noteq> mk_symbol s \<or> eo_status (ex_orders ex ! r) \<in> {FILLED, CANCELLED, REJECTED}")
  case True
  then show ?thesis
    using assms by (auto simp: match_one_def Let_def drop_live_frame execution_ok_drop split: if_splits)
next
  case False
  obtain fo ex2 where t: "try_fill sqr r s ex = (fo, ex2)" by fastforce
  show ?thesis
  proof (cases fo)
    case None
    then show ?thesis
      using False assms(1) try_fill_none[of sqr r s ex ex2] assms(2) t by (simp add: match_one_def Let_def)
  next
    case (Some f)
    let ?ex3 = "ex2\<lparr>ex_fills := ex_fills ex2 @ [f]\<rparr>"
    note tf = try_fill_some[OF t[unfolded Some] assms(2,3)]
    have ok: "execution_ok ?ex3" using tf by blast
    have same: "ex_fills ex2 = ex_fills ex" "length (ex_orders ?ex3) = length (ex_orders ex)"
      using tf by simp_all
    have "fs = [f]" "ex1 = drop_live r (set_status FILLED r ?ex3) \<or> ex1 = set_status PARTIAL_FILL r ?ex3"
      using False assms(1) t Some by (auto simp: match_one_def Let_def split: if_splits)
    then show ?thesis
      using same assms(3) execution_ok_status[OF ok, of r]
      by (elim disjE) (simp_all add: set_status_frame drop_live_frame execution_ok_drop)
  qed
qed

lemma match_loop_ok:
  assumes "match_loop sqr s rs ex = (fs, ex1)" and "execution_ok ex" and "list_all (\<lambda>r. r < length (ex_orders ex)) rs"
  shows "execution_ok ex1 \<and> ex_fills ex1 = ex_fills ex @ fs"
  using assms
proof (induction rs arbitrary: ex fs)
  case (Cons r rs)
  obtain as ex2 where o1: "match_one sqr s r ex = (as, ex2)" by fastforce
  obtain bs ex3 where o2: "match_loop sqr s rs ex2 = (bs, ex3)" by fastforce
  have "fs = as @ bs" "ex1 = ex3" using Cons.prems(1) o1 o2 by simp_all
  moreover have "execution_ok ex2 \<and> ex_fills ex2 = ex_fills ex @ as \<and> length (ex_orders ex2) = length (ex_orders ex)"
    using match_one_ok[OF o1] Cons.prems by simp
  ultimately show ?case using Cons.IH[OF o2[unfolded \<open>ex1 = ex3\<close>[symmetric]]] Cons.prems(3) o2 by simp
qed simp

lemma match_orders_ok:
  assumes "match_orders sqr s ex = (fs, ex1)" and "execution_ok ex"
  shows "execution_ok ex1 \<and> ex_fills ex1 = ex_fills ex @ fs"
  using assms match_loop_ok[of sqr s "ex_live ex" ex fs ex1]
  by (auto simp: match_orders_def execution_ok_def split: if_splits)

lemma accounts_ok_fill: "accounts_ok fs pf \<Longrightarrow> accounts_ok (fs @ [f]) (apply_fill f pf)"
  by (simp add: accounts_ok_def apply_fill_def cash_effect_def Let_def)

lemma book_fills_ok:
  assumes "accounts_ok gs (en_portfolio en)"
  shows "accounts_ok (gs @ fs) (en_portfolio (fold (book_fill nav) fs en)) \<and> en_execution (fold (book_fill nav) fs en) = en_execution en
     \<and> vp_initial (en_portfolio (fold (book_fill nav) fs en)) = vp_initial (en_portfolio en)"
  using assms
proof (induction fs arbitrary: en gs)
  case (Cons f fs)
  have "accounts_ok (gs @ [f]) (en_portfolio (book_fill nav f en))"
    using Cons.prems by (simp add: book_fill_def accounts_ok_fill)
  from Cons.IH[OF this] show ?case by (simp add: book_fill_def apply_fill_def Let_def)
qed simp

lemma accounts_ok_nav: "accounts_ok fs (snd (get_nav prices pf)) = accounts_ok fs pf"
  by (simp add: accounts_ok_def get_nav_def mark_to_market_def Let_def)

lemma submit_ok:
  assumes "execution_ok ex" and "eo_filled ord = 0" and "eo_remaining ord = eo_qty ord" and "0 \<le> eo_qty ord"
  shows "execution_ok (submit ord ex) \<and> ex_fills (submit ord ex) = ex_fills ex"
  using assms by (auto simp: execution_ok_def submit_def eorder_ok_def list_all_iff)

lemma buy_is_not_cut:
  assumes "risk_check (Order i sy BUY (of_int (buy_quantity s nav en)) (mk_close s) t) s nav (en_risk en) = (ok, ord, rk)"
    and "buy_quantity s nav en > 0" and "mk_close s > 0"
  shows "ord = Order i sy BUY (of_int (buy_quantity s nav en)) (mk_close s) t"
proof -
  let ?x = "nav * vr_max_position (en_risk en) / mk_close s"
  have q: "buy_quantity s nav en = py_int ?x" using assms(3) by (simp add: buy_quantity_def)
  have "0 \<le> ?x"
    using assms(2) q by (auto simp: py_int_def not_le[symmetric] split: if_splits)
  then have "of_int (py_int ?x) * mk_close s \<le> nav * vr_max_position (en_risk en)"
    using py_int_le[of ?x] assms(3) by (simp only: pos_le_divide_eq)
  then have "\<not> (nav > 0 \<and> of_int (buy_quantity s nav en) * mk_close s / nav > vr_max_position (en_risk en))"
    by (auto simp: q pos_less_divide_eq mult.commute)
  then show ?thesis
    using assms by (auto simp: risk_check_def Order_def Let_def split: if_splits)
qed

lemma place_signal_ok:
  assumes "engine_ok en" and "can_trade s"
  shows "engine_ok (place_signal i signal s nav en) \<and> en_portfolio (place_signal i signal s nav en) = en_portfolio en"
proof -
  have c: "mk_close s > 0" using assms(2) by (simp add: can_trade_def)
  consider (buy) "signal = 1" "held s en \<le> 0" "buy_quantity s nav en > 0" | (sell) "signal = - 1" "held s en > 0"
    | (none) "place_signal i signal s nav en = en"
    by (cases "signal = 1"; cases "held s en \<le> 0 \<and> buy_quantity s nav en > 0"; cases "signal = - 1"; cases "held s en > 0")
      (auto simp: place_signal_def)
  then show ?thesis
  proof cases
    case buy
    let ?ord = "Order (order_id i ''BUY'') (mk_symbol s) BUY (of_int (buy_quantity s nav en)) (mk_close s) i"
    obtain ok ord rk where rc: "risk_check ?ord s nav (en_risk en) = (ok, ord, rk)" by (metis prod_cases3)
    have "ord = ?ord" using buy_is_not_cut[OF rc buy(3) c] .
    then show ?thesis
      using buy rc assms(1) submit_ok[of "en_execution en" ?ord]
      by (auto simp: place_signal_def engine_ok_def Order_def Let_def)
  next
    case sell
    then show ?thesis
      using assms(1) submit_ok[of "en_execution en" "Order (order_id i ''SELL'') (mk_symbol s) SELL (held s en) (mk_close s) i"]
      by (simp add: place_signal_def engine_ok_def Order_def)
  next
    case none
    then show ?thesis using assms(1) by simp
  qed
qed

lemma run_bar_ok:
  assumes "engine_ok en"
  shows "engine_ok (snd (run_bar sqr i b signal nav en))
     \<and> vp_initial (en_portfolio (snd (run_bar sqr i b signal nav en))) = vp_initial (en_portfolio en)"
proof (cases "can_trade (bar_state i b)")
  case True
  let ?s = "bar_state i b"
  let ?en1 = "place_signal i signal ?s nav en"
  obtain fs ex where mo: "match_orders sqr ?s (en_execution ?en1) = (fs, ex)" by fastforce
  let ?en2 = "fold (book_fill nav) fs (?en1\<lparr>en_execution := ex\<rparr>)"
  have p: "engine_ok ?en1" "en_portfolio ?en1 = en_portfolio en"
    using place_signal_ok[OF assms True] by auto
  have e: "execution_ok ex \<and> ex_fills ex = ex_fills (en_execution ?en1) @ fs"
    using match_orders_ok[OF mo] p(1) by (simp add: engine_ok_def)
  have "accounts_ok (ex_fills ex) (en_portfolio ?en2) \<and> en_execution ?en2 = ex
     \<and> vp_initial (en_portfolio ?en2) = vp_initial (en_portfolio en)"
    using book_fills_ok[of "ex_fills (en_execution ?en1)" "?en1\<lparr>en_execution := ex\<rparr>" fs nav] p e by (simp add: engine_ok_def)
  then show ?thesis
    using True mo e
    by (simp add: run_bar_def Let_def engine_ok_def accounts_ok_def get_nav_def mark_to_market_def)
next
  case False
  then show ?thesis using assms by (simp add: run_bar_def Let_def)
qed

lemma run_bars_ok:
  assumes "engine_ok en"
  shows "engine_ok (snd (run_bars sqr i bs nav en))
     \<and> vp_initial (en_portfolio (snd (run_bars sqr i bs nav en))) = vp_initial (en_portfolio en)
     \<and> length (fst (run_bars sqr i bs nav en)) = length bs"
  using assms
proof (induction bs arbitrary: i nav en)
  case (Cons x bs)
  obtain b signal where x: "x = (b, signal)" by fastforce
  obtain nav1 en1 where r: "run_bar sqr i b signal nav en = (nav1, en1)" by fastforce
  have "engine_ok en1" "vp_initial (en_portfolio en1) = vp_initial (en_portfolio en)"
    using run_bar_ok[OF Cons.prems, of sqr i b signal nav] r by simp_all
  then show ?case using Cons.IH[of en1 "Suc i" nav1] x r by (simp add: case_prod_beta)
qed simp

lemma EventBacktestEngine_ok: "engine_ok (EventBacktestEngine cash)"
  by (simp add: engine_ok_def EventBacktestEngine_def execution_ok_def accounts_ok_def ExecutionEngine_def PortfolioEngine_def)

text \<open>
  C31: after a run of the event backtest from a fresh engine over any bars and signals, whatever the square root is: the
  cash is the initial cash less what the buys cost with their fees plus what the sells brought in less their fees and
  taxes, the fees and the taxes are those of the fills, every order holds its quantity as filled plus remaining with
  neither negative, the quantities of the fills add up to what the orders have filled, every fill is logged with its
  quantity, and the curve has a point for every bar that has a signal.
\<close>

theorem run_events_accounts:
  fixes cash :: pyfloat
  shows "let en = run_events sqr bars signals (EventBacktestEngine cash); pf = en_portfolio en; ex = en_execution en
     in vp_cash pf = cash + sum_list (map cash_effect (ex_fills ex))
        \<and> vp_fees pf = sum_list (map ef_fee (ex_fills ex)) \<and> vp_taxes pf = sum_list (map ef_tax (ex_fills ex))
        \<and> list_all eorder_ok (ex_orders ex)
        \<and> sum_list (map ef_qty (ex_fills ex)) = sum_list (map eo_filled (ex_orders ex))
        \<and> map lt_qty (vp_log pf) = map ef_qty (ex_fills ex)
        \<and> length (vp_curve pf) = min (length bars) (length signals)"
proof -
  let ?bs = "zip bars signals"
  obtain curve en1 where r: "run_bars sqr 0 ?bs cash (EventBacktestEngine cash) = (curve, en1)" by fastforce
  have "engine_ok en1" "vp_initial (en_portfolio en1) = cash" "length curve = length ?bs"
    using run_bars_ok[OF EventBacktestEngine_ok, of sqr 0 ?bs cash cash] r
    by (simp_all add: EventBacktestEngine_def PortfolioEngine_def)
  then show ?thesis
    using r by (simp add: run_events_def EventBacktestEngine_def PortfolioEngine_def Let_def engine_ok_def accounts_ok_def
        execution_ok_def)
qed

subsection \<open>Where the accounts of a run mislead\<close>

definition plain_bar :: "pyfloat \<Rightarrow> event_bar" where
  "plain_bar close =
     \<lparr>ba_symbol = Some ''A'', ba_close = Some close, ba_volume = Some 100000, ba_bid_price = None, ba_ask_price = None, ba_bid_size = None,
      ba_ask_size = None, ba_bid_queue = None, ba_ask_queue = None, ba_limit_up = None, ba_limit_down = None\<rparr>"

definition thin_bar :: "pyfloat \<Rightarrow> pyfloat \<Rightarrow> event_bar" where
  "thin_bar close bid_size = (plain_bar close)\<lparr>ba_bid_size := Some bid_size\<rparr>"

lemma closed_position_keeps_its_value:
  "let en = run_events (\<lambda>x. 0) [plain_bar 100, plain_bar 100] [1, -1] (EventBacktestEngine 100000)
   in map (es_qty \<circ> snd) (vp_positions (en_portfolio en)) = [0] \<and> fst (vp_curve (en_portfolio en) ! 1) = vp_cash (en_portfolio en) + 20000"
  by code_simp

lemma closing_sale_logs_its_proceeds:
  "let en = run_events (\<lambda>x. 0) [plain_bar 100, plain_bar 100] [1, -1] (EventBacktestEngine 100000)
   in lt_pnl (vp_log (en_portfolio en) ! 1) = 200 * (9995 / 100) \<and> vp_realized (en_portfolio en) < 0"
  by code_simp

lemma repeated_sells_oversell:
  "let en = run_events (\<lambda>x. 0) [plain_bar 100, thin_bar 100 10, thin_bar 100 0] [1, -1, -1] (EventBacktestEngine 100000);
       sold = filter (\<lambda>f. ef_side f = SELL) (ex_fills (en_execution en))
   in map ef_qty sold = [10, 190, 190]"
  by code_simp

lemma cut_orders_fill_in_full:
  "let ord = Order ''O'' ''A'' BUY 1000 100 0;
       (ok, cut, rk) = risk_check ord (bar_state 0 (plain_bar 100)) 100000 RiskEngine;
       (fs, ex) = match_orders (\<lambda>x. 0) (bar_state 0 (plain_bar 100))
                    (submit cut (ExecutionEngine None None \<lparr>sp_type = ''adaptive'', sp_fixed_bps = 5\<rparr> (1 / 10)))
   in ok \<and> eo_qty cut = 200 \<and> map ef_qty fs = [1000]"
  by code_simp

lemma fill_rate_exceeds_one_hundred:
  "let en = run_events (\<lambda>x. 0) [plain_bar 100, thin_bar 100 10, thin_bar 100 0] [1, -1, 0] (EventBacktestEngine 100000)
   in xs_fill_rate (get_stats (en_execution en)) = 150"
  by code_simp

lemma partly_filled_orders_count_as_queued:
  "let s = (bar_state 0 (plain_bar 100))\<lparr>mk_ask_size := 4\<rparr>;
       (fs, ex) = match_orders (\<lambda>x. 0) s (submit (Order ''O'' ''A'' BUY 10 100 0)
                    (ExecutionEngine None None \<lparr>sp_type = ''fixed'', sp_fixed_bps = 0\<rparr> (1 / 10)))
   in ex_queue ex = [] \<and> xs_queued (get_stats ex) = 1"
  by code_simp

lemma limit_orders_fill_beyond_their_limit:
  "let en = run_events (\<lambda>x. 0) [plain_bar 100, (plain_bar 100)\<lparr>ba_ask_queue := Some 1, ba_limit_up := Some 100\<rparr>] [1, 0] (EventBacktestEngine 100000);
       locked = run_events (\<lambda>x. 0) [(plain_bar 100)\<lparr>ba_ask_queue := Some 1, ba_limit_up := Some 100\<rparr>] [1] (EventBacktestEngine 100000)
   in map eo_limit (ex_orders (en_execution en)) = [100] \<and> map ef_price (ex_fills (en_execution en)) = [10005 / 100]
      \<and> map ef_price (ex_fills (en_execution locked)) = [10005 / 100]"
  by code_simp

end
