(* ===== verification/Spec2Isabelle.thy ===== *)
theory Spec2Isabelle
  imports Abm_Market Hybrid_Book Order_Merge Level3_Book Ledger Order_Manager Pre_Trade_Risk Backtest_Run
    Market_Policies Market_Versions Auction_Engine Feature_Graph Feature_Engine Job_Queue Job_Lock Resilience
    Workflow_State Checkpoints Workflow_Runner Rate_Limit Message_Queue
    Event_Stream Order_Matching Corporate_Actions Lru_Cache Cache_Manager
    Indicators Portfolio_Allocation Portfolio_Sim Risk_Controls Position_Accounting
    Option_Payoff Option_Margin Trading_Calendar Api_Limiter Api_Budget Access_Control Kill_Switch Signal_Factory
    Streaming_Indicators Purged_Windows Job_Progress Queue_Model Replay_Engine Option_Strategies Restatements
    Signal_Voting Option_Signals Futures_Margin Event_Backtest
begin

text \<open>
  A verification of the core of the trading and backtesting platform: its order books and matching
  engines, the backtest engines with their accounting and risk checks, and the infrastructure the
  services run on (queues, locks, workflows, rate limits, caches).

  The program's parts and how they meet:

  \<^item> \<^bold>\<open>Order books.\<close> \<open>backtesting/abm\<close> simulates a market of agents on a book of two heaps:
    \<open>Heapq\<close> (Python's \<open>heapq\<close>), \<open>Book_Side\<close> (what a heap side with lazy deletion guarantees),
    \<open>Abm_Book\<close> (\<open>order_book.py\<close>, \<open>matching_engine.py\<close>), \<open>Abm_Matching\<close> (the matching loops refine one
    abstract sweep), \<open>Abm_Market\<close> (\<open>environment.py\<close> and the properties over every history).
    \<open>Hybrid_Book\<close> and \<open>Order_Merge\<close> are \<open>backtesting/hybrid\<close>, on the same \<open>Book_Side\<close>. \<open>Level3_Book\<close>
    is \<open>backtesting/execution/level3_book.py\<close>, \<open>Order_Matching\<close> the list-based engine of
    \<open>backtesting/engine\<close>, \<open>Auction_Engine\<close> the call auction of \<open>backtesting/microstructure\<close>.
  \<^item> \<^bold>\<open>Backtests.\<close> A strategy (an argument) sees bars and returns orders. \<open>Order_Manager\<close>
    (\<open>orders/manager.py\<close>, the fill simulator, the costs, the market engine's quotes) keeps their life;
    \<open>Portfolio_Account\<close> (\<open>engine/portfolio.py\<close>, \<open>cash_manager.py\<close>) and \<open>Position_Accounting\<close> book the
    fills; \<open>Backtest_Run\<close> (\<open>broker.py\<close>, \<open>simulator.py\<close>) composes them into a run and \<open>Portfolio_Sim\<close>
    (\<open>portfolio_simulator.py\<close>) into one over several instruments, with the rebalancer of
    \<open>Portfolio_Allocation\<close> (\<open>backtesting/portfolio\<close>, \<open>domain/trading/iran_costs.py\<close>). \<open>Ledger\<close> is the
    lot ledger with settlement, \<open>Corporate_Actions\<close> the price adjustment, \<open>Event_Stream\<close> the events,
    timeline, bus, clock and loop, \<open>Queue_Model\<close> the simulated queues of \<open>backtesting/microstructure\<close> (random
    draws and the powers of its impact law are arguments), and \<open>Replay_Engine\<close> (\<open>replay_engine.py\<close>,
    \<open>data_layer.py\<close>) replays recorded markets through all of these. \<open>Event_Backtest\<close> is the separate event
    backtest of the services (\<open>services/event_backtest.py\<close>; the square root and the report's statistics are left out). \<open>Pre_Trade_Risk\<close> and \<open>Risk_Controls\<close> are the risk checks,
    \<open>Market_Policies\<close> and \<open>Market_Versions\<close> the rules of the exchanges, current and dated.
    \<open>Feature_Graph\<close> and \<open>Feature_Engine\<close> evaluate features over a dependency graph; \<open>Indicators\<close> is
    \<open>core/indicators.py\<close>.
  \<^item> \<^bold>\<open>Options and calendar.\<close> \<open>Option_Payoff\<close> is \<open>domain/options/payoff.py\<close> (legs, cash flows, the payoff
    at expiry, break-even points, extreme values, the sampled curve), \<open>Option_Margin\<close> the exchange's margin
    of \<open>domain/options/margin_engine.py\<close> on the same legs, \<open>Option_Strategies\<close> the templates, curves, validation and
    life of strategies of \<open>domain/options/strategy_engine.py\<close> (dates and the Black-Scholes price are arguments),
    \<open>Option_Signals\<close> its scores, sizes and rule language (\<open>domain/options/signals.py\<close>), \<open>Futures_Margin\<close> the margin
    calculator of \<open>services/gold/futures_risk.py\<close>, \<open>Trading_Calendar\<close> the holidays, sessions and
    market hours of \<open>domain/calendar/trading_calendar.py\<close> and \<open>jobs/market_hours.py\<close>.
  \<^item> \<^bold>\<open>Decisions and control.\<close> \<open>Access_Control\<close> is the role hierarchy and the permissions of
    \<open>core/enums/rbac.py\<close> and \<open>core/security/ime_rbac.py\<close>, \<open>Kill_Switch\<close> the trading halt of
    \<open>services/kill_switch.py\<close> and its endpoints on those permissions and on the cache, \<open>Signal_Factory\<close>
    the factory that makes signal cards (\<open>services/ime_signal_factory.py\<close>, its adapter and its configuration) and asks
    the kill switch first (prices there are real numbers, the parsed configuration file and the values of the
    non-ASCII digits are arguments), \<open>Signal_Voting\<close> the vote among the sources of a signal
    (\<open>services/signal_voting_system.py\<close>). \<open>Purged_Windows\<close> is the walk-forward split of
    \<open>backtesting/experiment\<close>, \<open>Streaming_Indicators\<close> the incremental indicators of
    \<open>backtesting/strategies\<close>, related to the batch ones of \<open>Indicators\<close>. \<open>Restatements\<close> is the chain of
    corrected reports and the values known at a date of \<open>services/codal_analysis\<close>.
  \<^item> \<^bold>\<open>Infrastructure.\<close> \<open>Job_Queue\<close> (\<open>backtesting/platform\<close>), \<open>Job_Lock\<close> (\<open>jobs/locking.py\<close>),
    \<open>Workflow_State\<close>, \<open>Checkpoints\<close> and \<open>Workflow_Runner\<close> (\<open>orchestration\<close>), \<open>Rate_Limit\<close>
    (\<open>core/rate_limit\<close>), \<open>Resilience\<close> (\<open>core/resilience\<close>), \<open>Message_Queue\<close> (\<open>integrations/queue\<close>,
    \<open>jobs/retry_policy.py\<close>), \<open>Lru_Cache\<close> and \<open>Cache_Manager\<close> (\<open>core/cache_manager.py\<close>, \<open>core/cache.py\<close>
    and the screener's cache), \<open>Api_Limiter\<close> (\<open>brsapi/rate_limiter.py\<close>, \<open>ingestion/quotas.py\<close>) on the
    windows of \<open>Rate_Limit\<close>, and \<open>Api_Budget\<close> (\<open>brsapi/budget.py\<close>), the counters of a shared store.
    \<open>Job_Progress\<close> (\<open>api/job_state.py\<close>, \<open>api/ws_manager.py\<close>, \<open>api/routers/precompute_router.py\<close>) is the
    progress of the precomputation and what its dashboards see, over the cache service.

  How state and operations correspond to the code:

  \<^item> An object is a record with the fields of the class, a method a function that returns the
    new record after its result; an enumeration is a datatype with the source's members. Where
    several structures share a mutable object (the orders of a book, of the order manager), the objects
    live in a store keyed by a reference and the structures hold references.
  \<^item> A raised exception is the left side of a sum or \<open>Some\<close> error beside the state, which is
    then the state as the exception leaves it. A loop is a recursion over its list, or, where it
    runs until a condition, a function with a measure.
  \<^item> A \<open>float\<close> is a rational: comparisons and copies are exact, arithmetic is exact where the hardware
    rounds. Integers are \<open>int\<close>, as Python's are unbounded. Dictionaries are association lists in
    insertion order.
  \<^item> Clock readings, fresh identifiers, random draws, the outcomes of callables and what a handler does
    are arguments. An \<open>await\<close> that yields to others is a step of its own where others can interfere
    (locks, circuit breaker, job queue, the two calls that give back a budget reservation), so the properties range over every
    interleaving of operations that their text does not exclude; the handlers of the progress events run to their end (what
    happens otherwise is a lemma of its theory); text that is only logged or shown is left out.
  \<^item> What is not in the repository (Redis, the JSON libraries, numpy's standard deviation) is an
    argument, a record of the calls the code makes, with the behaviour a theorem relies on among its
    hypotheses.

  What the groups of lemmas show: each component theory has the lemmas of its operations, an
  invariant that every operation keeps, and properties over all histories of operations from the
  initial state: books never cross, conserve quantity and respect price and time priority; every
  account balances; refinements of abstract specifications (the matching loops of a sweep, first in
  first out lots, sagas, most recently used keys); equivalences of an optimised or incremental
  routine with a reference (the feature engine, the policy checks, the MACD series); ranges and
  rate bounds; termination; what is left after an error. Interfaces are locales, each
  interpreted on the code's own models: \<open>bounded_cache\<close> by both caches, \<open>lock_store\<close> by the
  lock table, the book side by the books' heaps. Lemmas that state a defect are listed as findings of the manifest.

  Bounds and fuel: no function runs on fuel chosen for the proofs. The sampling loop of the payoff curve
  (\<open>curve_grid\<close>) does not end for a step of zero or less; it is a partial function into an option. The depth limit of the feature
  graph's searches is Python's recursion limit, an argument; with as many levels as nodes the search
  is shown to return. Polling loops carry the code's own number of attempts (the cache's 50, a step's
  \<open>max_retries\<close>), and the sweeps of the books and queues have measures.

  Not modelled: the web endpoints, the data providers and the persistence layer, which are network
  and database I/O; machine learning, statistics and option pricing, which rest on numerical
  libraries; the strategies, which the engines take as an argument; the
  deprecated simulation engine; scripts, tests and the duplicate of the tree under
  \<open>_FRONTEND_BACKEND_COPY\<close>. Of the message queue and the merge layer the serialisation and the
  waiting on real time are left out.
\<close>

end
